(* ===== verification/Prelude.thy ===== *)
theory Prelude
  imports Main "HOL-Library.Word" "HOL-Library.Monad_Syntax"
begin

unbundle bit_operations_syntax

text \<open>
  Shared vocabulary of the development: the C integer types as machine words, C arrays as
  lists whose accesses are checked, loops whose return is not taken for granted, and the
  collections of lemmas the component theories feed.
\<close>

section \<open>Machine types\<close>

type_synonym byte = "8 word"
type_synonym word16 = "16 word"
type_synonym word32 = "32 word"

named_theorems frame_simps \<open>what an operation leaves unchanged\<close>
named_theorems wf_intros \<open>operations keep the well-formedness invariants\<close>

section \<open>Bounded arrays\<close>

text \<open>
  A C array (or a block from the allocator) is a list. Reading or writing a cell outside the
  array is undefined behaviour in C: it is the value \<open>None\<close> here, and every operation that
  may run into it is of type \<open>option\<close>.
\<close>

definition mem_rd :: "'a list \<Rightarrow> nat \<Rightarrow> 'a option" where
  "mem_rd xs i = (if i < length xs then Some (xs ! i) else None)"

definition mem_wr :: "'a list \<Rightarrow> nat \<Rightarrow> 'a \<Rightarrow> 'a list option" where
  "mem_wr xs i v = (if i < length xs then Some (xs[i := v]) else None)"

text \<open>The same through a pointer that is an offset into the array and may be negative.\<close>

definition mem_rd_at :: "'a list \<Rightarrow> int \<Rightarrow> 'a option" where
  "mem_rd_at xs i = (if 0 \<le> i then mem_rd xs (nat i) else None)"

lemma mem_rd_Some [simp]: "i < length xs \<Longrightarrow> mem_rd xs i = Some (xs ! i)"
  by (simp add: mem_rd_def)

lemma mem_rd_None_iff [simp]: "mem_rd xs i = None \<longleftrightarrow> length xs \<le> i"
  by (auto simp: mem_rd_def)

lemma mem_rd_eq_Some_iff: "mem_rd xs i = Some v \<longleftrightarrow> i < length xs \<and> v = xs ! i"
  by (auto simp: mem_rd_def)

lemma mem_wr_Some [simp]: "i < length xs \<Longrightarrow> mem_wr xs i v = Some (xs[i := v])"
  by (simp add: mem_wr_def)

lemma mem_wr_None_iff [simp]: "mem_wr xs i v = None \<longleftrightarrow> length xs \<le> i"
  by (auto simp: mem_wr_def)

lemma mem_wr_eq_Some_iff: "mem_wr xs i v = Some ys \<longleftrightarrow> i < length xs \<and> ys = xs[i := v]"
  by (auto simp: mem_wr_def)

lemma mem_rd_at_Some [simp]:
  "0 \<le> i \<Longrightarrow> i < int (length xs) \<Longrightarrow> mem_rd_at xs i = Some (xs ! nat i)"
  by (simp add: mem_rd_at_def nat_less_iff)

lemma mem_rd_at_None_iff: "mem_rd_at xs i = None \<longleftrightarrow> i < 0 \<or> int (length xs) \<le> i"
  by (auto simp: mem_rd_at_def nat_less_iff mem_rd_def)

lemma mem_rd_wr_same: "mem_wr xs i v = Some ys \<Longrightarrow> mem_rd ys i = Some v"
  by (auto simp: mem_wr_eq_Some_iff)

lemma mem_rd_wr_other: "mem_wr xs i v = Some ys \<Longrightarrow> i \<noteq> j \<Longrightarrow> mem_rd ys j = mem_rd xs j"
  by (auto simp: mem_wr_eq_Some_iff mem_rd_def)

lemma mem_wr_length: "mem_wr xs i v = Some ys \<Longrightarrow> length ys = length xs"
  by (auto simp: mem_wr_eq_Some_iff)

lemma bind_None_iff:
  "Option.bind m f = None \<longleftrightarrow> m = None \<or> (\<exists>x. m = Some x \<and> f x = None)"
  by (cases m) auto

text \<open>The two halves of \<open>memcpy\<close>: a slice of the source, and its place in the destination.\<close>

definition mem_slice :: "'a list \<Rightarrow> int \<Rightarrow> int \<Rightarrow> 'a list option" where
  "mem_slice xs off n = (if 0 \<le> off \<and> 0 \<le> n \<and> off + n \<le> int (length xs)
     then Some (take (nat n) (drop (nat off) xs)) else None)"

definition mem_blit :: "'a list \<Rightarrow> int \<Rightarrow> 'a list \<Rightarrow> 'a list option" where
  "mem_blit xs off ys = (if 0 \<le> off \<and> off + int (length ys) \<le> int (length xs)
     then Some (take (nat off) xs @ ys @ drop (nat off + length ys) xs) else None)"

lemma mem_slice_Some [simp]:
  "off + n \<le> length xs \<Longrightarrow> mem_slice xs (int off) (int n) = Some (take n (drop off xs))"
  by (simp add: mem_slice_def)

lemma mem_blit_Some [simp]:
  "off + length ys \<le> length xs \<Longrightarrow>
     mem_blit xs (int off) ys = Some (take off xs @ ys @ drop (off + length ys) xs)"
  by (simp add: mem_blit_def)

lemma nth_blit:
  "off + length ys \<le> length xs \<Longrightarrow> k < length xs \<Longrightarrow>
   (take off xs @ ys @ drop (off + length ys) xs) ! k =
     (if off \<le> k \<and> k < off + length ys then ys ! (k - off) else xs ! k)"
  by (auto simp: nth_append)

text \<open>Reading a whole range of cells.\<close>

lemma those_Some:
  assumes "\<And>x. x \<in> set xs \<Longrightarrow> f x = Some (g x)"
  shows "those (map f xs) = Some (map g xs)"
  using assms by (induction xs) simp_all

lemma those_None: "x \<in> set xs \<Longrightarrow> f x = None \<Longrightarrow> those (map f xs) = None"
  by (induction xs) (auto split: option.split)

lemma those_length: "those ys = Some zs \<Longrightarrow> length zs = length ys"
  by (induction ys arbitrary: zs) (auto split: option.splits)

text \<open>Taking a successful sequence of steps apart, with \<open>elim!\<close>.\<close>

lemma bindE:
  "Option.bind m f = Some y \<Longrightarrow> (\<And>x. m = Some x \<Longrightarrow> f x = Some y \<Longrightarrow> P) \<Longrightarrow> P"
  by (cases m) auto

text \<open>A counted loop whose body may fault.\<close>

primrec fold_opt :: "('a \<Rightarrow> 's \<Rightarrow> 's option) \<Rightarrow> 'a list \<Rightarrow> 's \<Rightarrow> 's option" where
  "fold_opt f [] s = Some s"
| "fold_opt f (x # xs) s = do { t \<leftarrow> f x s; fold_opt f xs t }"

lemma fold_opt_append: "fold_opt f (xs @ ys) s = do { t \<leftarrow> fold_opt f xs s; fold_opt f ys t }"
  by (induction xs arbitrary: s) (auto split: Option.bind_splits)

lemma fold_opt_inv:
  assumes "\<And>x s. x \<in> set xs \<Longrightarrow> I s \<Longrightarrow> \<exists>t. f x s = Some t \<and> I t" "I s"
  shows "\<exists>t. fold_opt f xs s = Some t \<and> I t"
  using assms
proof (induction xs arbitrary: s)
  case (Cons x xs)
  then obtain t where "f x s = Some t" "I t" by (meson list.set_intros(1))
  with Cons show ?case by (metis Option.bind.bind_lunit fold_opt.simps(2) list.set_intros(2))
qed simp

section \<open>Loops\<close>

text \<open>
  A \<open>while\<close> loop of the source is run with a bound on its iterations. The three results are
  kept apart: the loop returned, its body hit undefined behaviour, or the bound was used up
  with the guard still true. A theorem that the code returns is a theorem that the result
  is \<open>Returned\<close>.
\<close>

datatype 's loop_result = Returned 's | Faulted | Running 's

fun run_loop :: "nat \<Rightarrow> ('s \<Rightarrow> bool) \<Rightarrow> ('s \<Rightarrow> 's option) \<Rightarrow> 's \<Rightarrow> 's loop_result" where
  "run_loop 0 g b s = (if g s then Running s else Returned s)"
| "run_loop (Suc n) g b s =
     (if g s then (case b s of None \<Rightarrow> Faulted | Some t \<Rightarrow> run_loop n g b t) else Returned s)"

fun result_option :: "'s loop_result \<Rightarrow> 's option" where
  "result_option (Returned s) = Some s"
| "result_option _ = None"

lemma run_loop_exit [simp]: "\<not> g s \<Longrightarrow> run_loop n g b s = Returned s"
  by (cases n) auto

text \<open>More fuel never changes a result that was reached.\<close>

lemma run_loop_mono:
  "run_loop n g b s = Returned t \<Longrightarrow> n \<le> m \<Longrightarrow> run_loop m g b s = Returned t"
proof (induction n arbitrary: m s)
  case 0
  then show ?case by (auto split: if_splits)
next
  case (Suc n)
  then obtain k where m: "m = Suc k" and le: "n \<le> k" by (cases m) auto
  show ?case
    using Suc.prems(1) Suc.IH[OF _ le] by (auto simp: m split: if_splits option.splits)
qed

lemma run_loop_guard: "run_loop n g b s = Returned t \<Longrightarrow> \<not> g t"
  by (induction n arbitrary: s) (auto split: if_splits option.splits)

text \<open>
  The contract of a loop body: while the guard holds, the body keeps an invariant. What every
  client of a loop needs (the invariant at the exit, no fault when the body cannot fault,
  return within a bound when a measure decreases) is proved once here.
\<close>

locale guarded_loop =
  fixes g :: "'s \<Rightarrow> bool" and b :: "'s \<Rightarrow> 's option" and I :: "'s \<Rightarrow> bool"
  assumes keeps: "I s \<Longrightarrow> g s \<Longrightarrow> b s = Some t \<Longrightarrow> I t"
begin

lemma returned_inv: "run_loop n g b s = Returned t \<Longrightarrow> I s \<Longrightarrow> I t"
  by (induction n arbitrary: s) (auto split: if_splits option.splits dest: keeps)

lemma running_inv: "run_loop n g b s = Running t \<Longrightarrow> I s \<Longrightarrow> I t"
  by (induction n arbitrary: s) (auto split: if_splits option.splits dest: keeps)

lemma returned_post: "run_loop n g b s = Returned t \<Longrightarrow> I s \<Longrightarrow> I t \<and> \<not> g t"
  using returned_inv run_loop_guard by metis

end

locale measured_loop = guarded_loop +
  fixes m :: "'s \<Rightarrow> nat"
  assumes no_fault: "I s \<Longrightarrow> g s \<Longrightarrow> b s \<noteq> None"
    and decreases: "I s \<Longrightarrow> g s \<Longrightarrow> b s = Some t \<Longrightarrow> m t < m s"
begin

lemma returns: "I s \<Longrightarrow> m s \<le> n \<Longrightarrow> \<exists>t. run_loop n g b s = Returned t \<and> I t \<and> \<not> g t"
proof (induction n arbitrary: s)
  case 0
  have "\<not> g s"
  proof
    assume "g s"
    moreover from this obtain t where "b s = Some t" using no_fault 0 by blast
    ultimately show False using decreases[of s t] 0 by simp
  qed
  then show ?case using 0 by simp
next
  case (Suc n)
  show ?case
  proof (cases "g s")
    case True
    then obtain t where t: "b s = Some t" using no_fault Suc.prems by blast
    have "I t" "m t \<le> n"
      using keeps[OF Suc.prems(1) True t] decreases[OF Suc.prems(1) True t] Suc.prems(2)
      by simp_all
    from Suc.IH[OF this] show ?thesis using True t by simp
  qed (use Suc.prems in simp)
qed

end

text \<open>Sequencing of steps that may each contain such a loop, and a loop of such steps.\<close>

fun lr_bind :: "'s loop_result \<Rightarrow> ('s \<Rightarrow> 's loop_result) \<Rightarrow> 's loop_result" where
  "lr_bind (Returned s) f = f s"
| "lr_bind Faulted f = Faulted"
| "lr_bind (Running s) f = Running s"

fun lr_opt :: "'s option \<Rightarrow> 's loop_result" where
  "lr_opt None = Faulted"
| "lr_opt (Some s) = Returned s"

primrec lr_while :: "nat \<Rightarrow> ('s \<Rightarrow> bool) \<Rightarrow> ('s \<Rightarrow> 's loop_result) \<Rightarrow> 's \<Rightarrow> 's loop_result" where
  "lr_while 0 g b s = (if g s then Running s else Returned s)"
| "lr_while (Suc n) g b s = (if g s then lr_bind (b s) (lr_while n g b) else Returned s)"

lemma lr_bind_Returned:
  "lr_bind m f = Returned t \<longleftrightarrow> (\<exists>s. m = Returned s \<and> f s = Returned t)"
  by (cases m) auto

lemma lr_opt_Returned [simp]: "lr_opt m = Returned t \<longleftrightarrow> m = Some t"
  by (cases m) auto

lemma lr_bindE:
  "lr_bind m f = Returned t \<Longrightarrow> (\<And>s. m = Returned s \<Longrightarrow> f s = Returned t \<Longrightarrow> P) \<Longrightarrow> P"
  by (cases m) auto

lemma lr_while_Returned:
  assumes "lr_while n g b s = Returned t" "I s" "\<And>s t. I s \<Longrightarrow> g s \<Longrightarrow> b s = Returned t \<Longrightarrow> I t"
  shows "I t \<and> \<not> g t"
  using assms(1,2)
proof (induction n arbitrary: s)
  case (Suc n)
  show ?case
  proof (cases "g s")
    case True
    then obtain u where "b s = Returned u" "lr_while n g b u = Returned t"
      using Suc.prems(1) by (auto elim: lr_bindE)
    then show ?thesis using Suc.IH[of u] assms(3)[OF Suc.prems(2) True] by blast
  qed (use Suc.prems in simp)
qed (auto split: if_splits)

text \<open>
  Operations that return a value: done, undefined behaviour (or a failed assertion), or a loop
  whose bound was used up.
\<close>

datatype 'a outcome = Done 'a | Fault | Spins

fun obind :: "'a outcome \<Rightarrow> ('a \<Rightarrow> 'b outcome) \<Rightarrow> 'b outcome" where
  "obind (Done x) f = f x"
| "obind Fault f = Fault"
| "obind Spins f = Spins"

fun of_loop :: "'s loop_result \<Rightarrow> 's outcome" where
  "of_loop (Returned s) = Done s"
| "of_loop Faulted = Fault"
| "of_loop (Running s) = Spins"

fun of_opt :: "'a option \<Rightarrow> 'a outcome" where
  "of_opt (Some x) = Done x"
| "of_opt None = Fault"

lemma obind_Done_iff: "obind m f = Done y \<longleftrightarrow> (\<exists>x. m = Done x \<and> f x = Done y)"
  by (cases m) auto

lemma obindE: "obind m f = Done y \<Longrightarrow> (\<And>x. m = Done x \<Longrightarrow> f x = Done y \<Longrightarrow> P) \<Longrightarrow> P"
  by (cases m) auto

lemma of_opt_Done [simp]: "of_opt m = Done x \<longleftrightarrow> m = Some x"
  by (cases m) auto

lemma of_loop_Done [simp]: "of_loop r = Done x \<longleftrightarrow> r = Returned x"
  by (cases r) auto

section \<open>Word arithmetic used throughout\<close>

lemma unat_and_le: "unat (x AND y) \<le> unat (y :: 'a::len word)"
  by (rule word_and_le1 [THEN word_le_nat_alt [THEN iffD1]])

lemma unat_and_less: "unat (y :: 'a::len word) < n \<Longrightarrow> unat (x AND y) < n"
  using unat_and_le le_less_trans by blast

lemma unat_byte_less [simp]: "unat (x :: byte) < 256"
  by (rule order.strict_trans2[OF unsigned_less]) simp

lemma unat_word16_less [simp]: "unat (x :: word16) < 65536"
  by (rule order.strict_trans2[OF unsigned_less]) simp

lemma unat_and_mask: "unat ((x :: 'a::len word) AND mask n) = unat x mod 2 ^ n"
proof -
  have "unat (take_bit n x) = take_bit n (unat x)" by (rule unsigned_take_bit_eq)
  also have "\<dots> = unat x mod 2 ^ n" by (rule take_bit_eq_mod)
  finally show ?thesis by (simp only: take_bit_eq_mask)
qed

lemma unat_ucast_byte [simp]: "unat (ucast (b :: byte) :: word16) = unat b"
proof -
  have "unat b < 65536" using unat_byte_less[of b] by linarith
  then show ?thesis by (simp add: unsigned_ucast_eq take_bit_nat_eq_self)
qed

lemma word16_split: "(a :: word16) = (a AND 0xF000) OR (a AND 0xFFF)"
proof -
  have "(0xF000 OR 0xFFF :: word16) = - 1" by simp
  then have "a = a AND (0xF000 OR 0xFFF)" by (simp only: bit.conj_one_right)
  then show ?thesis by (simp only: bit.conj_disj_distrib)
qed

lemma unat_and_low12: "unat ((a :: word16) AND 0xFFF) = unat a mod 0x1000"
  using unat_and_mask[of a 12] by (simp add: mask_eq_exp_minus_1)

lemma unat_and_low11: "unat ((a :: word16) AND 0x7FF) = unat a mod 0x800"
  using unat_and_mask[of a 11] by (simp add: mask_eq_exp_minus_1)

lemma unat_and_low4: "unat ((a :: word16) AND 0xF) = unat a mod 16"
  using unat_and_mask[of a 4] by (simp add: mask_eq_exp_minus_1)

lemma unat_page:
  "unat ((a :: 'a::len word) AND NOT (mask k)) = unat a div 2 ^ k * 2 ^ k"
proof -
  have "a AND NOT (mask k) = push_bit k (drop_bit k a)"
    by (rule bit_word_eqI) (auto simp: bit_simps)
  then have "unat (a AND NOT (mask k)) = unat (push_bit k (drop_bit k a))" by simp
  also have "\<dots> = take_bit LENGTH('a) (push_bit k (drop_bit k (unat a)))"
    by (simp only: unsigned_push_bit_eq unsigned_drop_bit_eq) (simp add: take_bit_nat_eq_self)
  also have "push_bit k (drop_bit k (unat a)) = unat a div 2 ^ k * 2 ^ k"
    by (simp add: push_bit_eq_mult drop_bit_eq_div)
  also have "take_bit LENGTH('a) (unat a div 2 ^ k * 2 ^ k) = unat a div 2 ^ k * 2 ^ k"
    by (meson div_times_less_eq_dividend order_le_less_trans take_bit_nat_eq_self unsigned_less)
  finally show ?thesis .
qed

lemma unat_page13: "unat ((a :: word16) AND 0xE000) = unat a div 8192 * 8192"
proof -
  have "(0xE000 :: word16) = NOT (mask 13)" by (simp add: mask_eq_exp_minus_1)
  then show ?thesis using unat_page[of a 13] by (simp only: ) simp
qed

lemma unat_page12: "unat ((a :: word16) AND 0xF000) = unat a div 4096 * 4096"
proof -
  have "(0xF000 :: word16) = NOT (mask 12)" by (simp add: mask_eq_exp_minus_1)
  then show ?thesis using unat_page[of a 12] by (simp only: ) simp
qed

lemma page13_iff: "(a :: word16) AND 0xE000 = w \<longleftrightarrow> unat a div 8192 * 8192 = unat w"
  by (simp add: word_unat_eq_iff unat_page13)

lemma page_range:
  assumes "(a :: word16) AND 0xE000 = w"
  shows "uint w \<le> uint a \<and> uint a < uint w + 0x2000"
proof -
  have "unat w = unat a div 8192 * 8192" using assms by (simp add: page13_iff)
  moreover have "uint w = int (unat w)" "uint a = int (unat a)" by simp_all
  ultimately show ?thesis by linarith
qed

lemma page_cases:
  "(a :: word16) AND 0xE000 \<in> {0x0000, 0x2000, 0x4000, 0x6000, 0x8000, 0xA000, 0xC000, 0xE000}"
proof -
  obtain k where k: "unat a div 8192 = k" by blast
  have "k < 8" using unat_word16_less[of a] k by linarith
  then have "k = 0 \<or> k = 1 \<or> k = 2 \<or> k = 3 \<or> k = 4 \<or> k = 5 \<or> k = 6 \<or> k = 7" by linarith
  then show ?thesis unfolding insert_iff empty_iff page13_iff k(1) by (elim disjE) simp_all
qed

section \<open>Chains of links\<close>

text \<open>The nodes met on the way along the links \<open>nx\<close>, beginning at \<open>p\<close>.\<close>

primrec linked :: "('a \<Rightarrow> 'a option) \<Rightarrow> 'a option \<Rightarrow> 'a list \<Rightarrow> bool" where
  "linked nx p [] \<longleftrightarrow> p = None"
| "linked nx p (i # is) \<longleftrightarrow> p = Some i \<and> linked nx (nx i) is"

lemma linked_upd: "i \<notin> set is \<Longrightarrow> linked (nx(i := n)) p is = linked nx p is"
  by (induction "is" arbitrary: p) auto

lemma linked_None: "linked nx None is \<longleftrightarrow> is = []"
  by (cases "is") auto

lemma linked_Some: "linked nx (Some i) is \<longleftrightarrow> (\<exists>is'. is = i # is' \<and> linked nx (nx i) is')"
  by (cases "is") auto

lemma linked_append:
  assumes "linked nx p is" "is \<noteq> []" "i \<notin> set is" "distinct is" "nx i = None"
  shows "linked (nx(last is := Some i)) p (is @ [i])"
  using assms
proof (induction "is" arbitrary: p)
  case (Cons j js)
  show ?case
  proof (cases "js = []")
    case False
    then have "j \<noteq> last js" "last (j # js) = last js" using Cons.prems(4) last_in_set[of js] by auto
    moreover have "linked (nx(last js := Some i)) (nx j) (js @ [i])"
      using Cons.prems False by (intro Cons.IH) simp_all
    ultimately show ?thesis using Cons.prems(1) by (simp only: append_Cons linked.simps fun_upd_other simp_thms)
  qed (use Cons.prems in auto)
qed simp

end
