(* ===== verification/NesPpu.thy ===== *)
theory NesPpu
  imports Prelude
begin

text \<open>
  The register and memory half of \<open>nes-old/PPU.c\<close>: the picture unit's state, \<open>PPU_Init\<close>,
  the name-table and palette accesses behind \<open>$2007\<close>, and the register file at
  \<open>$2000-$2007\<close>. Pointers into the ROM image (\<open>patterntable0\<close>, \<open>patterntable1\<close>) are offsets
  into the list \<open>rom\<close> every reader takes; pointers into the 2 KiB block \<open>NameTable\<close> are
  offsets into that list. \<open>None\<close> is an access outside the block.
\<close>

section \<open>State\<close>

record PPU_RegType =
  NES_R0 :: byte
  NES_R1 :: byte
  NES_R2 :: byte
  NES_R5 :: byte

record PPU_MemType =
  PPU_addrcnt :: word16
  PPU_readtemp :: byte
  patterntable0 :: int
  patterntable1 :: int
  name_table :: "nat list"
  image_palette :: "byte list"
  sprite_palette :: "byte list"

record Spr_MemType =
  spr_ram :: "byte list"
  spr_addrcnt :: byte

record SpriteType =
  spr_y :: byte
  t_num :: byte
  attr :: byte
  spr_x :: byte

record ppu =
  PPU_Reg :: PPU_RegType
  PPU_Mem :: PPU_MemType
  Spr_Mem :: Spr_MemType
  NameTable :: "byte list"
  SpriteHitFlag :: bool
  PPU_Latch_Flag :: byte
  PPU_scanline :: int
  PPU_BG_VScrlOrg :: byte
  PPU_BG_HScrlOrg :: byte
  Buffer_scanline :: "word16 list"
  framebuffer :: "word16 list"

text \<open>\<open>sprite\<close> is the sprite memory read as an array of four-byte structures.\<close>

definition sprite :: "ppu \<Rightarrow> nat \<Rightarrow> SpriteType" where
  "sprite p i = (let r = spr_ram (Spr_Mem p) in
     \<lparr>spr_y = r ! (4 * i), t_num = r ! (4 * i + 1), attr = r ! (4 * i + 2), spr_x = r ! (4 * i + 3)\<rparr>)"

text \<open>The flag constants of \<open>PPU.h\<close>.\<close>

definition R0_VB_NMI_EN :: byte where "R0_VB_NMI_EN = 0x80"
definition R0_SPR_SIZE :: byte where "R0_SPR_SIZE = 0x20"
definition BG_PATTERN_ADDR :: byte where "BG_PATTERN_ADDR = 0x10"
definition SPR_PATTERN_ADDR :: byte where "SPR_PATTERN_ADDR = 0x08"
definition PPU_ADDRINCR :: byte where "PPU_ADDRINCR = 0x04"
definition R0_NAME_TABLE :: byte where "R0_NAME_TABLE = 0x03"
definition R1_SPR_VISIBLE :: byte where "R1_SPR_VISIBLE = 0x10"
definition R1_BG_VISIBLE :: byte where "R1_BG_VISIBLE = 0x08"
definition R1_SPR_LEFT8 :: byte where "R1_SPR_LEFT8 = 0x04"
definition R2_VBlank_Flag :: byte where "R2_VBlank_Flag = 0x80"
definition R2_SPR0_HIT :: byte where "R2_SPR0_HIT = 0x40"
definition R2_LOST_SPR :: byte where "R2_LOST_SPR = 0x20"
definition SPR_VFLIP :: byte where "SPR_VFLIP = 0x80"
definition SPR_HFLIP :: byte where "SPR_HFLIP = 0x40"
definition SPR_BG_PRIO :: byte where "SPR_BG_PRIO = 0x20"
definition NAME_TABLE_H_MASK :: byte where "NAME_TABLE_H_MASK = 1"
definition NAME_TABLE_V_MASK :: byte where "NAME_TABLE_V_MASK = 2"

lemmas ppu_flag_defs = R0_VB_NMI_EN_def R0_SPR_SIZE_def BG_PATTERN_ADDR_def SPR_PATTERN_ADDR_def
  PPU_ADDRINCR_def R0_NAME_TABLE_def R1_SPR_VISIBLE_def R1_BG_VISIBLE_def R1_SPR_LEFT8_def
  R2_VBlank_Flag_def R2_SPR0_HIT_def R2_LOST_SPR_def SPR_VFLIP_def SPR_HFLIP_def
  SPR_BG_PRIO_def NAME_TABLE_H_MASK_def NAME_TABLE_V_MASK_def

text \<open>Updates of one field of a nested structure.\<close>

definition set_R0 :: "byte \<Rightarrow> ppu \<Rightarrow> ppu" where
  "set_R0 v p = p\<lparr>PPU_Reg := (PPU_Reg p)\<lparr>NES_R0 := v\<rparr>\<rparr>"

definition set_R1 :: "byte \<Rightarrow> ppu \<Rightarrow> ppu" where
  "set_R1 v p = p\<lparr>PPU_Reg := (PPU_Reg p)\<lparr>NES_R1 := v\<rparr>\<rparr>"

definition set_R2 :: "byte \<Rightarrow> ppu \<Rightarrow> ppu" where
  "set_R2 v p = p\<lparr>PPU_Reg := (PPU_Reg p)\<lparr>NES_R2 := v\<rparr>\<rparr>"

definition set_addrcnt :: "word16 \<Rightarrow> ppu \<Rightarrow> ppu" where
  "set_addrcnt v p = p\<lparr>PPU_Mem := (PPU_Mem p)\<lparr>PPU_addrcnt := v\<rparr>\<rparr>"

definition set_readtemp :: "byte \<Rightarrow> ppu \<Rightarrow> ppu" where
  "set_readtemp v p = p\<lparr>PPU_Mem := (PPU_Mem p)\<lparr>PPU_readtemp := v\<rparr>\<rparr>"

abbreviation ppu_R0 :: "ppu \<Rightarrow> byte" where "ppu_R0 p \<equiv> NES_R0 (PPU_Reg p)"
abbreviation ppu_R1 :: "ppu \<Rightarrow> byte" where "ppu_R1 p \<equiv> NES_R1 (PPU_Reg p)"
abbreviation ppu_R2 :: "ppu \<Rightarrow> byte" where "ppu_R2 p \<equiv> NES_R2 (PPU_Reg p)"
abbreviation ppu_addr :: "ppu \<Rightarrow> word16" where "ppu_addr p \<equiv> PPU_addrcnt (PPU_Mem p)"

lemmas ppu_set_defs = set_R0_def set_R1_def set_R2_def set_addrcnt_def set_readtemp_def

section \<open>Initialisation\<close>

text \<open>
  \<open>PPU_Init\<close> clears the three register structures and then sets the pointers; the mirroring
  of the four name tables onto the two halves of \<open>NameTable\<close> follows the cartridge's
  mirror type. \<open>patterntableptr\<close> is the offset of the VROM in the ROM image.
\<close>

definition PPU_Init :: "int \<Rightarrow> byte \<Rightarrow> ppu \<Rightarrow> ppu" where
  "PPU_Init patterntableptr ScreenMirrorType p =
     p\<lparr>PPU_Mem := \<lparr>PPU_addrcnt = 0, PPU_readtemp = 0,
                    patterntable0 = patterntableptr, patterntable1 = patterntableptr + 0x1000,
                    name_table = (if ScreenMirrorType = 0 then [0, 0, 1024, 1024]
                                  else [0, 1024, 0, 1024]),
                    image_palette = replicate 16 0, sprite_palette = replicate 16 0\<rparr>,
       Spr_Mem := \<lparr>spr_ram = replicate 256 0, spr_addrcnt = 0\<rparr>,
       PPU_Reg := \<lparr>NES_R0 = 0, NES_R1 = 0, NES_R2 = 0, NES_R5 = 0\<rparr>,
       SpriteHitFlag := False, PPU_Latch_Flag := 0,
       PPU_BG_VScrlOrg := 0, PPU_BG_HScrlOrg := 0, PPU_scanline := 0\<rparr>"

section \<open>Name tables\<close>

text \<open>
  Both accesses compute the cell of \<open>NameTable\<close> the same way: the last table whose start lies
  strictly below the address, and the offset from that start.
\<close>

definition nt_cell_of :: "nat list \<Rightarrow> word16 \<Rightarrow> nat" where
  "nt_cell_of nt a = (let addrtemp = unat (a AND 0xFFF) in
     if addrtemp > 0xC00 then nt ! 3 + (addrtemp - 0xC00)
     else if addrtemp > 0x800 then nt ! 2 + (addrtemp - 0x800)
     else if addrtemp > 0x400 then nt ! 1 + (addrtemp - 0x400)
     else nt ! 0 + addrtemp)"

definition nt_cell :: "ppu \<Rightarrow> nat" where
  "nt_cell p = nt_cell_of (name_table (PPU_Mem p)) (ppu_addr p)"

definition PPU_NameTablesRead :: "ppu \<Rightarrow> byte option" where
  "PPU_NameTablesRead p = mem_rd (NameTable p) (nt_cell p)"

definition PPU_NameTablesWrite :: "byte \<Rightarrow> ppu \<Rightarrow> ppu option" where
  "PPU_NameTablesWrite v p = do {
     nt \<leftarrow> mem_wr (NameTable p) (nt_cell p) v;
     Some (p\<lparr>NameTable := nt\<rparr>) }"

section \<open>Memory behind the data port\<close>

text \<open>After each access the address counter moves by 1 or, with bit 2 of \<open>$2000\<close>, by 32.\<close>

definition PPU_incr :: "ppu \<Rightarrow> ppu" where
  "PPU_incr p = (if ppu_R0 p AND PPU_ADDRINCR \<noteq> 0 then set_addrcnt (ppu_addr p + 32) p
                 else set_addrcnt (ppu_addr p + 1) p)"

text \<open>The palette branch of \<open>PPU_MemWrite\<close>.\<close>

definition palette_write :: "byte \<Rightarrow> ppu \<Rightarrow> ppu" where
  "palette_write v p = (let m = PPU_Mem p; a = PPU_addrcnt m; k = unat (a AND 0xF) in
     if a AND 0x1F > 0x0F then
       (let sp = (sprite_palette m)[k := v] in
        if a AND 3 = 0 then
          p\<lparr>PPU_Mem := m\<lparr>sprite_palette := sp[0 := v, 4 := v, 8 := v, 12 := v],
                          image_palette := (image_palette m)[0 := v, 4 := v, 8 := v, 12 := v]\<rparr>\<rparr>
        else p\<lparr>PPU_Mem := m\<lparr>sprite_palette := sp\<rparr>\<rparr>)
     else p\<lparr>PPU_Mem := m\<lparr>image_palette := (image_palette m)[k := v]\<rparr>\<rparr>)"

definition PPU_MemWrite :: "byte \<Rightarrow> ppu \<Rightarrow> ppu option" where
  "PPU_MemWrite v p = do {
     p' \<leftarrow> (if ppu_addr p AND 0xF000 = 0x2000 then PPU_NameTablesWrite v p
            else if ppu_addr p AND 0xF000 = 0x3000 then Some (palette_write v p)
            else Some p);
     Some (PPU_incr p') }"

definition PPU_MemRead :: "byte list \<Rightarrow> ppu \<Rightarrow> (byte \<times> ppu) option" where
  "PPU_MemRead rom p = (let m = PPU_Mem p; a = PPU_addrcnt m; temp = PPU_readtemp m in do {
     (temp, p') \<leftarrow>
       (if a AND 0xF000 = 0x0000 then do {
          v \<leftarrow> mem_rd_at rom (patterntable0 m + uint a);
          Some (temp, set_readtemp v p) }
        else if a AND 0xF000 = 0x1000 then do {
          v \<leftarrow> mem_rd_at rom (patterntable1 m + uint (a AND 0x0FFF));
          Some (temp, set_readtemp v p) }
        else if a AND 0xF000 = 0x2000 then do {
          v \<leftarrow> PPU_NameTablesRead p;
          Some (temp, set_readtemp v p) }
        else if a AND 0xF000 = 0x3000 then
          (if a \<ge> 0x3F10 then Some (sprite_palette m ! unat (a AND 0xF), p)
           else if a \<ge> 0x3F00 then Some (image_palette m ! unat (a AND 0xF), p)
           else Some (temp, p))
        else Some (0, p));
     Some (temp, PPU_incr p') })"

section \<open>Registers\<close>

definition PPU_RegWrite :: "word16 \<Rightarrow> byte \<Rightarrow> ppu \<Rightarrow> ppu option" where
  "PPU_RegWrite RX v p =
     (if RX = 0 then Some (set_R0 v p)
      else if RX = 1 then Some (set_R1 v p)
      else if RX = 3 then Some (p\<lparr>Spr_Mem := (Spr_Mem p)\<lparr>spr_addrcnt := v\<rparr>\<rparr>)
      else if RX = 4 then
        Some (p\<lparr>Spr_Mem := \<lparr>spr_ram = (spr_ram (Spr_Mem p))[unat (spr_addrcnt (Spr_Mem p)) := v],
                             spr_addrcnt = spr_addrcnt (Spr_Mem p) + 1\<rparr>\<rparr>)
      else if RX = 5 then
        (let p' = (if PPU_Latch_Flag p \<noteq> 0
                   then p\<lparr>PPU_BG_VScrlOrg := (if uint v > 255 then 0 else v)\<rparr>
                   else p\<lparr>PPU_BG_HScrlOrg := v\<rparr>)
         in Some (p'\<lparr>PPU_Latch_Flag := PPU_Latch_Flag p' XOR 1\<rparr>))
      else if RX = 6 then
        Some ((set_addrcnt (push_bit 8 (ppu_addr p) + ucast v) p)
                \<lparr>PPU_Latch_Flag := PPU_Latch_Flag p XOR 1\<rparr>)
      else if RX = 7 then PPU_MemWrite v p
      else Some p)"

definition PPU_RegRead :: "byte list \<Rightarrow> word16 \<Rightarrow> ppu \<Rightarrow> (byte \<times> ppu) option" where
  "PPU_RegRead rom RX p =
     (if RX = 0 then Some (ppu_R0 p, p)
      else if RX = 1 then Some (ppu_R1 p, p)
      else if RX = 2 then
        (let temp = ppu_R2 p;
             p1 = (set_R2 (ppu_R2 p AND NOT R0_VB_NMI_EN) p)\<lparr>PPU_Latch_Flag := 0\<rparr>;
             p2 = (if (PPU_scanline p1 > 20 \<and> PPU_scanline p1 < 262)
                       \<and> \<not> (ppu_R0 p1 AND R0_VB_NMI_EN \<noteq> 0)
                   then set_R0 (ppu_R0 p1 AND NOT R0_NAME_TABLE) p1 else p1)
         in Some (temp, p2))
      else if RX = 4 then
        Some (spr_ram (Spr_Mem p) ! unat (spr_addrcnt (Spr_Mem p)),
              p\<lparr>Spr_Mem := (Spr_Mem p)\<lparr>spr_addrcnt := spr_addrcnt (Spr_Mem p) + 1\<rparr>\<rparr>)
      else if RX = 7 then PPU_MemRead rom p
      else Some (ucast RX, p))"

section \<open>Well-formed states\<close>

definition ppu_wf :: "byte list \<Rightarrow> ppu \<Rightarrow> bool" where
  "ppu_wf rom p \<longleftrightarrow>
     length (NameTable p) = 2048 \<and>
     (name_table (PPU_Mem p) = [0, 0, 1024, 1024] \<or> name_table (PPU_Mem p) = [0, 1024, 0, 1024]) \<and>
     length (image_palette (PPU_Mem p)) = 16 \<and> length (sprite_palette (PPU_Mem p)) = 16 \<and>
     length (spr_ram (Spr_Mem p)) = 256 \<and>
     0 \<le> patterntable0 (PPU_Mem p) \<and> patterntable1 (PPU_Mem p) = patterntable0 (PPU_Mem p) + 0x1000 \<and>
     patterntable0 (PPU_Mem p) + 0x2000 \<le> int (length rom) \<and>
     length (Buffer_scanline p) = 272 \<and> length (framebuffer p) = 307200"

text \<open>Where the name-table arithmetic leaves the 2 KiB block.\<close>

definition nt_overrun :: "ppu \<Rightarrow> bool" where
  "nt_overrun p \<longleftrightarrow> ppu_addr p AND 0xF000 = 0x2000 \<and>
     (if name_table (PPU_Mem p) = [0, 0, 1024, 1024] then ppu_addr p AND 0xFFF = 0xC00
      else ppu_addr p AND 0xFFF = 0x800)"

lemma ppu_wf_simps [simp]:
  "ppu_wf rom (set_R0 v p) = ppu_wf rom p" "ppu_wf rom (set_R1 v p) = ppu_wf rom p"
  "ppu_wf rom (set_R2 v p) = ppu_wf rom p" "ppu_wf rom (set_addrcnt a p) = ppu_wf rom p"
  "ppu_wf rom (set_readtemp v p) = ppu_wf rom p" "ppu_wf rom (PPU_incr p) = ppu_wf rom p"
  "ppu_wf rom (p\<lparr>PPU_Latch_Flag := l\<rparr>) = ppu_wf rom p"
  "ppu_wf rom (p\<lparr>PPU_BG_VScrlOrg := l\<rparr>) = ppu_wf rom p"
  "ppu_wf rom (p\<lparr>PPU_BG_HScrlOrg := l\<rparr>) = ppu_wf rom p"
  "ppu_wf rom (p\<lparr>PPU_scanline := n\<rparr>) = ppu_wf rom p"
  "ppu_wf rom (p\<lparr>SpriteHitFlag := h\<rparr>) = ppu_wf rom p"
  by (simp_all add: ppu_wf_def ppu_set_defs PPU_incr_def)

lemma ppu_wf_palette_write: "ppu_wf rom p \<Longrightarrow> ppu_wf rom (palette_write v p)"
  by (auto simp: ppu_wf_def palette_write_def Let_def)

lemma nt_cell_cases:
  assumes "ppu_wf rom p"
  shows "2048 \<le> nt_cell p \<longleftrightarrow>
     (if name_table (PPU_Mem p) = [0, 0, 1024, 1024] then ppu_addr p AND 0xFFF = 0xC00
      else ppu_addr p AND 0xFFF = 0x800)"
proof -
  define n where "n = unat (ppu_addr p AND 0xFFF)"
  have n: "n < 4096" unfolding n_def unat_and_low12 by simp
  have eq: "ppu_addr p AND 0xFFF = w \<longleftrightarrow> n = unat w" for w
    by (simp add: n_def word_unat_eq_iff)
  have "name_table (PPU_Mem p) = [0, 0, 1024, 1024] \<or> name_table (PPU_Mem p) = [0, 1024, 0, 1024]"
    using assms by (simp add: ppu_wf_def)
  then show ?thesis
    unfolding eq using n by (auto simp: nt_cell_def nt_cell_of_def Let_def n_def[symmetric] split: if_splits)
qed

lemma PPU_MemWrite_None:
  assumes "ppu_wf rom p"
  shows "PPU_MemWrite v p = None \<longleftrightarrow> nt_overrun p"
  using assms nt_cell_cases[OF assms]
  by (auto simp: PPU_MemWrite_def PPU_NameTablesWrite_def nt_overrun_def ppu_wf_def bind_None_iff
      split: if_splits)

lemma uint_and_low12: "uint ((a :: word16) AND 0xFFF) = int (unat a mod 0x1000)"
  by (metis uint_nat unat_and_low12)

lemma low_page: "(a :: word16) AND 0xF000 = 0 \<Longrightarrow> uint a < 0x1000"
proof -
  assume "a AND 0xF000 = 0"
  then have "a = a AND 0xFFF" using word16_split[of a] by simp
  then have "uint a = int (unat a mod 0x1000)" by (metis uint_and_low12)
  then show ?thesis by simp
qed

lemma PPU_MemRead_None:
  assumes "ppu_wf rom p"
  shows "PPU_MemRead rom p = None \<longleftrightarrow> nt_overrun p"
proof -
  have r: "mem_rd_at rom (patterntable1 (PPU_Mem p) + uint (a AND 0xFFF)) \<noteq> None" for a :: word16
    using assms by (auto simp: ppu_wf_def mem_rd_at_None_iff uint_and_low12)
  have r0: "ppu_addr p AND 0xF000 = 0 \<Longrightarrow> mem_rd_at rom (patterntable0 (PPU_Mem p) + uint (ppu_addr p)) \<noteq> None"
    using assms low_page[of "ppu_addr p"] by (auto simp: ppu_wf_def mem_rd_at_None_iff)
  show ?thesis
    using assms nt_cell_cases[OF assms] r r0
    by (auto simp: PPU_MemRead_def Let_def PPU_NameTablesRead_def nt_overrun_def ppu_wf_def bind_None_iff
        split: if_splits)
qed

text \<open>Well-formedness is kept by every access.\<close>

lemma PPU_MemWrite_wf: "ppu_wf rom p \<Longrightarrow> PPU_MemWrite v p = Some p' \<Longrightarrow> ppu_wf rom p'"
  by (auto simp: PPU_MemWrite_def PPU_NameTablesWrite_def bind_eq_Some_conv mem_wr_eq_Some_iff
      ppu_wf_palette_write split: if_splits) (simp add: ppu_wf_def)

lemma PPU_MemRead_wf: "ppu_wf rom p \<Longrightarrow> PPU_MemRead rom p = Some (v, p') \<Longrightarrow> ppu_wf rom p'"
  by (auto simp: PPU_MemRead_def Let_def bind_eq_Some_conv split: if_splits)

lemma PPU_RegWrite_wf:
  assumes "ppu_wf rom p" "PPU_RegWrite RX v p = Some p'"
  shows "ppu_wf rom p'"
proof (cases "RX = 7")
  case True
  then show ?thesis using assms by (auto simp: PPU_RegWrite_def PPU_MemWrite_wf)
next
  case False
  have spr: "ppu_wf rom (p\<lparr>Spr_Mem := m\<rparr>)" if "length (spr_ram m) = 256" for m
    using assms that by (simp add: ppu_wf_def)
  have len: "length (spr_ram (Spr_Mem p)) = 256" using assms by (simp add: ppu_wf_def)
  show ?thesis using assms False
    by (auto simp: PPU_RegWrite_def Let_def spr len split: if_splits)
qed

lemma PPU_RegRead_wf:
  assumes "ppu_wf rom p" "PPU_RegRead rom RX p = Some (v, p')"
  shows "ppu_wf rom p'"
proof (cases "RX = 7")
  case True
  then show ?thesis using assms by (auto simp: PPU_RegRead_def PPU_MemRead_wf)
next
  case False
  have spr: "ppu_wf rom (p\<lparr>Spr_Mem := m\<rparr>)" if "length (spr_ram m) = 256" for m
    using assms that by (simp add: ppu_wf_def)
  have len: "length (spr_ram (Spr_Mem p)) = 256" using assms by (simp add: ppu_wf_def)
  show ?thesis using assms False
    by (auto simp: PPU_RegRead_def Let_def spr len split: if_splits)
qed

section \<open>Properties\<close>

lemma PPU_RegRead_None: "ppu_wf rom p \<Longrightarrow> PPU_RegRead rom RX p = None \<longleftrightarrow> RX = 7 \<and> nt_overrun p"
  by (auto simp: PPU_RegRead_def Let_def PPU_MemRead_None)

lemma PPU_RegWrite_None: "ppu_wf rom p \<Longrightarrow> PPU_RegWrite RX v p = None \<longleftrightarrow> RX = 7 \<and> nt_overrun p"
  by (auto simp: PPU_RegWrite_def Let_def PPU_MemWrite_None)

text \<open>The address port: two writes to \<open>$2006\<close>, high byte first.\<close>

definition ppu_set_addr :: "word16 \<Rightarrow> ppu \<Rightarrow> ppu option" where
  "ppu_set_addr a p = do {
     p \<leftarrow> PPU_RegWrite 6 (ucast (drop_bit 8 a)) p;
     PPU_RegWrite 6 (ucast a) p }"

text \<open>Store through the data port, and the buffered load (the first read only fills the buffer).\<close>

definition ppu_poke :: "word16 \<Rightarrow> byte \<Rightarrow> ppu \<Rightarrow> ppu option" where
  "ppu_poke a v p = do { p \<leftarrow> ppu_set_addr a p; PPU_RegWrite 7 v p }"

definition ppu_peek :: "byte list \<Rightarrow> word16 \<Rightarrow> ppu \<Rightarrow> byte option" where
  "ppu_peek rom a p = do {
     p \<leftarrow> ppu_set_addr a p; (_, p) \<leftarrow> PPU_RegRead rom 7 p;
     p \<leftarrow> ppu_set_addr a p; (v, _) \<leftarrow> PPU_RegRead rom 7 p;
     Some v }"

lemma hi_lo_word16:
  "push_bit 8 (push_bit 8 b + ucast (ucast (drop_bit 8 a) :: byte)) + ucast (ucast a :: byte) = (a :: word16)"
proof -
  have h: "unat a div 256 < 256" using unat_word16_less[of a] by (simp add: less_mult_imp_div_less)
  have "unat (push_bit 8 (push_bit 8 b + ucast (ucast (drop_bit 8 a) :: byte)) + ucast (ucast a :: byte) :: word16)
    = (65536 * unat b + (unat a div 256 * 256 + unat a mod 256)) mod 65536"
    using h by (simp add: unat_word_ariths unsigned_push_bit_eq unsigned_ucast_eq unsigned_drop_bit_eq
        take_bit_eq_mod push_bit_eq_mult drop_bit_eq_div mod_simps add.assoc
        del: div_mult_mod_eq mod_div_mult_eq)
  also have "\<dots> = unat a" by simp
  finally show ?thesis by (simp add: word_unat_eq_iff)
qed

lemma ppu_set_addr_eq:
  "ppu_set_addr a p = Some ((set_addrcnt a p)\<lparr>PPU_Latch_Flag := PPU_Latch_Flag p\<rparr>)"
  by (simp add: ppu_set_addr_def PPU_RegWrite_def set_addrcnt_def hi_lo_word16 xor.assoc)

lemma ppu_peek_nametable:
  assumes "b AND 0xF000 = 0x2000" "nt_cell_of (name_table (PPU_Mem q)) b < length (NameTable q)"
  shows "ppu_peek rom b q = Some (NameTable q ! nt_cell_of (name_table (PPU_Mem q)) b)"
  using assms
  by (simp add: ppu_peek_def ppu_set_addr_eq PPU_RegRead_def PPU_MemRead_def PPU_NameTablesRead_def
      nt_cell_def ppu_set_defs PPU_incr_def Let_def)

lemma ppu_peek_palette:
  assumes "a AND 0xF000 = 0x3000" "a \<ge> 0x3F00"
  shows "ppu_peek rom a q = Some (if a \<ge> 0x3F10 then sprite_palette (PPU_Mem q) ! unat (a AND 0xF)
                                  else image_palette (PPU_Mem q) ! unat (a AND 0xF))"
  using assms
  by (simp add: ppu_peek_def ppu_set_addr_eq PPU_RegRead_def PPU_MemRead_def ppu_set_defs PPU_incr_def Let_def)

lemma ppu_poke_palette:
  assumes "a AND 0xF000 = 0x3000"
  shows "ppu_poke a v q = Some (PPU_incr (palette_write v (set_addrcnt a q)))"
  using assms by (simp add: ppu_poke_def ppu_set_addr_eq PPU_RegWrite_def PPU_MemWrite_def set_addrcnt_def)

text \<open>C1: an access to a PPU register leaves the modelled memory exactly when it goes through the
  data port \<open>$2007\<close> while the address counter stands at the one name-table address whose cell
  the strict comparisons of \<open>PPU_NameTablesRead\<close> place one past the end of \<open>NameTable\<close>
  (\<open>$2C00\<close> with horizontal, \<open>$2800\<close> with vertical mirroring); every other access succeeds.\<close>

theorem ppu_register_fault_iff:
  assumes "ppu_wf rom p"
  shows "(PPU_RegRead rom RX p = None \<longleftrightarrow> RX = 7 \<and> nt_overrun p) \<and>
         (PPU_RegWrite RX v p = None \<longleftrightarrow> RX = 7 \<and> nt_overrun p)"
  using assms by (simp add: PPU_RegRead_None PPU_RegWrite_None)

text \<open>The cell of \<open>NameTable\<close> the code selects for any address is the mirrored cell of the
  table the address lies in, except at the first cell of tables 1, 2 and 3, where the code
  selects the cell after the end of the table before.\<close>

theorem nametable_cell_spec:
  "nt_cell_of nt a =
     (let k = unat (a AND 0xFFF) div 0x400; off = unat (a AND 0xFFF) mod 0x400 in
      if off = 0 \<and> 0 < k then nt ! (k - 1) + 0x400 else nt ! k + off)"
proof -
  define n where "n = unat (a AND 0xFFF)"
  have n: "n < 4096" unfolding n_def unat_and_low12 by simp
  define k off where "k = n div 0x400" and "off = n mod 0x400"
  have nk: "n = k * 0x400 + off" and off: "off < 0x400" by (simp_all add: k_def off_def)
  have "k < 4" using n nk by simp
  then consider "k = 0" | "k = 1" | "k = 2" | "k = 3" by linarith
  then have "nt_cell_of nt a = (if off = 0 \<and> 0 < k then nt ! (k - 1) + 0x400 else nt ! k + off)"
    using off by cases (auto simp: nt_cell_of_def Let_def n_def[symmetric] nk)
  then show ?thesis by (simp add: Let_def k_def off_def n_def)
qed

text \<open>C2: a byte stored at a name-table address through \<open>$2006\<close>/\<open>$2007\<close> is read back through the
  buffered data port at every address that selects the same cell, and the store changes what
  is read at no other name-table address.\<close>

theorem ppu_nametable_roundtrip:
  assumes wf: "ppu_wf rom p"
    and a: "a AND 0xF000 = 0x2000" "nt_cell_of (name_table (PPU_Mem p)) a < 2048"
    and b: "b AND 0xF000 = 0x2000" "nt_cell_of (name_table (PPU_Mem p)) b < 2048"
  shows "\<exists>p'. ppu_poke a v p = Some p' \<and>
    ppu_peek rom b p' = (if nt_cell_of (name_table (PPU_Mem p)) a = nt_cell_of (name_table (PPU_Mem p)) b
                         then Some v else ppu_peek rom b p)"
proof -
  let ?nt = "name_table (PPU_Mem p)"
  have len: "length (NameTable p) = 2048" using wf by (simp add: ppu_wf_def)
  have poke: "ppu_poke a v p = Some (PPU_incr ((set_addrcnt a p)\<lparr>NameTable := (NameTable p)[nt_cell_of ?nt a := v]\<rparr>))"
    using a len
    by (simp add: ppu_poke_def ppu_set_addr_eq PPU_RegWrite_def PPU_MemWrite_def PPU_NameTablesWrite_def
        nt_cell_def set_addrcnt_def)
  show ?thesis using len a b
    by (simp add: poke ppu_peek_nametable PPU_incr_def ppu_set_defs nth_list_update)
qed

text \<open>A colour index stored anywhere in the palette area \<open>$3F00-$3F1F\<close> is read back at the same
  address, and after a store to one of the transparent entries \<open>$3F10, $3F14, $3F18, $3F1C\<close> all
  eight transparent entries of the two palettes hold the stored value.\<close>

theorem ppu_palette_roundtrip:
  assumes wf: "ppu_wf rom p" and k: "k < 32"
  shows "\<exists>p'. ppu_poke (0x3F00 + of_nat k) v p = Some p' \<and>
     ppu_peek rom (0x3F00 + of_nat k) p' = Some v \<and>
     (16 \<le> k \<and> k mod 4 = 0 \<longrightarrow>
        (\<forall>j \<in> {0, 4, 8, 12}. sprite_palette (PPU_Mem p') ! j = v \<and> image_palette (PPU_Mem p') ! j = v))"
proof -
  have len: "length (image_palette (PPU_Mem p)) = 16" "length (sprite_palette (PPU_Mem p)) = 16"
    using wf by (simp_all add: ppu_wf_def)
  have "k \<in> {0,1,2,3,4,5,6,7,8,9,10,11,12,13,14,15,16,17,18,19,20,21,22,23,24,25,26,27,28,29,30,31}"
    using k unfolding insert_iff empty_iff by presburger
  then show ?thesis
    by (elim insertE emptyE; hypsubst;
        simp add: ppu_poke_palette ppu_peek_palette PPU_incr_def ppu_set_defs palette_write_def Let_def len
          nth_list_update)
qed

text \<open>Outside the first 32 bytes of the palette area a store and a load at one address are not about
  the same cell: after a store to \<open>$3F20\<close> the load still returns the old sprite entry 0 while the
  stored value went to background entry 0.\<close>

theorem ppu_palette_alias_mismatch:
  assumes "ppu_wf rom p"
  shows "\<exists>p'. ppu_poke 0x3F20 v p = Some p' \<and>
     ppu_peek rom 0x3F20 p' = Some (sprite_palette (PPU_Mem p) ! 0) \<and>
     ppu_peek rom 0x3F00 p' = Some v"
  using assms
  by (simp add: ppu_poke_palette ppu_peek_palette PPU_incr_def ppu_set_defs palette_write_def Let_def ppu_wf_def)

text \<open>Reading \<open>$2002\<close> returns the status with the vertical-blank flag as it was, clears that flag, and
  resets the write toggle, so that the next two writes to \<open>$2005\<close> are the horizontal and then the
  vertical scroll, whatever was written before.\<close>

theorem ppu_scroll_protocol:
  "\<exists>p1 p2. PPU_RegRead rom 2 p = Some (ppu_R2 p, p1) \<and> ppu_R2 p1 = ppu_R2 p AND 0x7F \<and>
     PPU_RegWrite 5 x p1 \<bind> PPU_RegWrite 5 y = Some p2 \<and>
     PPU_BG_HScrlOrg p2 = x \<and> PPU_BG_VScrlOrg p2 = y \<and> PPU_Latch_Flag p2 = 0"
proof -
  have y: "\<not> uint y > 255" using uint_lt2p[of y] by simp
  have m: "(- 129 :: byte) = 0x7F" by simp
  show ?thesis
    using y by (simp add: m PPU_RegRead_def PPU_RegWrite_def Let_def ppu_set_defs R0_VB_NMI_EN_def)
qed

end
