(* ===== verification/NesBus.thy ===== *)
theory NesBus
  imports NesPpu
begin

text \<open>
  The emulator's global state and the 6502 address space (\<open>nes-old/6502.c\<close>, memory section, and
  \<open>nes-old/nes_joypad.c\<close>): RAM and its mirrors, the PPU ports, the joypad ports, the program
  ROM banks and sprite DMA. The globals of \<open>6502.c\<close> are the fields of \<open>nes\<close>; \<open>value\<close>, \<open>sum\<close> and
  \<open>help\<close> carry the suffix \<open>_v\<close>. \<open>char_signed\<close> says whether the compiler's plain \<open>char\<close> is signed
  (the C standard leaves it open; the ARM ABI used by the build makes it unsigned).
\<close>

section \<open>State\<close>

record nes =
  a_reg :: byte
  x_reg :: byte
  y_reg :: byte
  flag_reg :: byte
  s_reg :: byte
  pc_reg :: word16
  NMI_Flag :: bool
  IRQ_Flag :: bool
  opcode :: byte
  clockticks6502 :: int
  savepc :: word16
  value_v :: byte
  sum_v :: int
  saveflags :: int
  help_v :: word16
  ram6502 :: "byte list"
  exp_rom :: "byte list option"
  sram :: "byte list option"
  prg_rombank0 :: int
  prg_rombank1 :: int
  rom_file :: "byte list"
  ppu :: ppu
  char_signed :: bool

section \<open>Joypad\<close>

text \<open>The bodies of the joypad functions are commented out in this version.\<close>

definition NES_GetJoyPadVlaue :: "int \<Rightarrow> byte" where
  "NES_GetJoyPadVlaue JoyPadNum = (let retval = 0 in retval)"

definition NES_JoyPadReset :: "nes \<Rightarrow> nes" where
  "NES_JoyPadReset s = s"

definition NES_JoyPadInit :: "nes \<Rightarrow> nes" where
  "NES_JoyPadInit s = s"

definition NES_JoyPadDisable :: "nes \<Rightarrow> nes" where
  "NES_JoyPadDisable s = s"

section \<open>Sprite DMA\<close>

text \<open>
  \<open>SprDMA_src s scr_addr i\<close> is \<open>scr_addrptr[i]\<close>: the switch on the page's high nibble chooses the
  block. Pages \<open>$20-$5F\<close> leave \<open>scr_addrptr\<close> null.
\<close>

definition SprDMA_src :: "nes \<Rightarrow> byte \<Rightarrow> nat \<Rightarrow> byte option" where
  "SprDMA_src s scr_addr i = (let h = unat (drop_bit 4 scr_addr); a = unat scr_addr * 256 in
     if h = 0x0 \<or> h = 0x1 then mem_rd (ram6502 s) (a + i)
     else if h = 0x6 \<or> h = 0x7 then
       (case sram s of None \<Rightarrow> None | Some block \<Rightarrow> mem_rd block (a - 0x6000 + i))
     else if h = 0x8 \<or> h = 0x9 \<or> h = 0xA \<or> h = 0xB then
       mem_rd_at (rom_file s) (prg_rombank0 s + int (a - 0x8000 + i))
     else if h = 0xC \<or> h = 0xD \<or> h = 0xE \<or> h = 0xF then
       mem_rd_at (rom_file s) (prg_rombank1 s + int (a - 0xC000 + i))
     else None)"

definition SprDMA :: "byte \<Rightarrow> nes \<Rightarrow> nes option" where
  "SprDMA scr_addr s = do {
     bytes \<leftarrow> those (map (SprDMA_src s scr_addr) [0..<256]);
     Some (s\<lparr>ppu := (ppu s)\<lparr>Spr_Mem := (Spr_Mem (ppu s))\<lparr>spr_ram := bytes\<rparr>\<rparr>,
             clockticks6502 := clockticks6502 s - 512\<rparr>) }"

section \<open>Reading and writing the address space\<close>

definition get6502memory :: "nes \<Rightarrow> word16 \<Rightarrow> (byte \<times> nes) option" where
  "get6502memory s addr = (let page = addr AND 0xE000; other = Some (ucast (drop_bit 8 addr), s) in
     if page = 0x0000 then do { v \<leftarrow> mem_rd (ram6502 s) (unat (addr AND 0x7FF)); Some (v, s) }
     else if page = 0x2000 then do {
       (v, p) \<leftarrow> PPU_RegRead (rom_file s) (addr AND 0x7) (ppu s);
       Some (v, s\<lparr>ppu := p\<rparr>) }
     else if page = 0x4000 then
       (if addr = 0x4016 then Some (NES_GetJoyPadVlaue 0 OR 0x40, s)
        else if addr = 0x4017 then Some (NES_GetJoyPadVlaue 1, s)
        else other)
     else if page = 0x6000 then other
     else if page = 0x8000 \<or> page = 0xA000 then do {
       v \<leftarrow> mem_rd_at (rom_file s) (prg_rombank0 s + (uint addr - 0x8000)); Some (v, s) }
     else do {
       v \<leftarrow> mem_rd_at (rom_file s) (prg_rombank1 s + (uint addr - 0xC000)); Some (v, s) })"

definition put6502memory :: "nes \<Rightarrow> word16 \<Rightarrow> byte \<Rightarrow> nes option" where
  "put6502memory s addr v = (let page = addr AND 0xE000 in
     if page = 0x0000 then do {
       r \<leftarrow> mem_wr (ram6502 s) (unat (addr AND 0x7FF)) v; Some (s\<lparr>ram6502 := r\<rparr>) }
     else if page = 0x2000 then do {
       p \<leftarrow> PPU_RegWrite (addr AND 0x7) v (ppu s); Some (s\<lparr>ppu := p\<rparr>) }
     else if page = 0x4000 then do {
       s \<leftarrow> (if addr = 0x4014 then SprDMA v s else Some s);
       Some (if addr = 0x4016 then
               (if v AND 1 \<noteq> 0 then NES_JoyPadReset s else NES_JoyPadDisable s)
             else s) }
     else Some s)"

section \<open>Well-formed states\<close>

definition nes_wf :: "nes \<Rightarrow> bool" where
  "nes_wf s \<longleftrightarrow> length (ram6502 s) = 2048 \<and> sram s = None \<and>
     0 \<le> prg_rombank0 s \<and> prg_rombank0 s + 0x4000 \<le> int (length (rom_file s)) \<and>
     0 \<le> prg_rombank1 s \<and> prg_rombank1 s + 0x4000 \<le> int (length (rom_file s)) \<and>
     ppu_wf (rom_file s) (ppu s)"

text \<open>Fields \<open>nes_wf\<close> does not look at.\<close>

lemma nes_wf_simps [simp]:
  "nes_wf (s\<lparr>a_reg := b\<rparr>) = nes_wf s" "nes_wf (s\<lparr>x_reg := b\<rparr>) = nes_wf s"
  "nes_wf (s\<lparr>y_reg := b\<rparr>) = nes_wf s" "nes_wf (s\<lparr>flag_reg := b\<rparr>) = nes_wf s"
  "nes_wf (s\<lparr>s_reg := b\<rparr>) = nes_wf s" "nes_wf (s\<lparr>pc_reg := w\<rparr>) = nes_wf s"
  "nes_wf (s\<lparr>NMI_Flag := f\<rparr>) = nes_wf s" "nes_wf (s\<lparr>IRQ_Flag := f\<rparr>) = nes_wf s"
  "nes_wf (s\<lparr>opcode := b\<rparr>) = nes_wf s" "nes_wf (s\<lparr>clockticks6502 := n\<rparr>) = nes_wf s"
  "nes_wf (s\<lparr>savepc := w\<rparr>) = nes_wf s" "nes_wf (s\<lparr>value_v := b\<rparr>) = nes_wf s"
  "nes_wf (s\<lparr>sum_v := n\<rparr>) = nes_wf s" "nes_wf (s\<lparr>saveflags := n\<rparr>) = nes_wf s"
  "nes_wf (s\<lparr>help_v := w\<rparr>) = nes_wf s"
  by (simp_all add: nes_wf_def)

lemma mem_rd_at_rom:
  assumes "0 \<le> b" "b + 0x4000 \<le> int (length rom)" "0 \<le> k" "k < 0x4000"
  shows "mem_rd_at rom (b + k) \<noteq> None"
  using assms by (simp add: mem_rd_at_None_iff)

lemma get6502memory_None:
  assumes "nes_wf s"
  shows "get6502memory s a = None \<longleftrightarrow>
           a AND 0xE000 = 0x2000 \<and> a AND 7 = 7 \<and> nt_overrun (ppu s)"
proof -
  note wf = assms[unfolded nes_wf_def]
  have rom: "a AND 0xE000 = 0x8000 \<or> a AND 0xE000 = 0xA000 \<Longrightarrow> mem_rd_at (rom_file s) (prg_rombank0 s + (uint a - 0x8000)) \<noteq> None"
    "a AND 0xE000 = 0xC000 \<or> a AND 0xE000 = 0xE000 \<Longrightarrow> mem_rd_at (rom_file s) (prg_rombank1 s + (uint a - 0xC000)) \<noteq> None"
    using wf page_range[of a] by (auto intro!: mem_rd_at_rom)
  show ?thesis
    using page_cases[of a] rom wf
    by (auto simp: get6502memory_def Let_def bind_None_iff PPU_RegRead_None unat_and_low11)
qed

text \<open>The pages DMA can copy from without leaving a block.\<close>

definition dma_page_ok :: "byte \<Rightarrow> bool" where
  "dma_page_ok v \<longleftrightarrow> v < 0x08 \<or> 0x80 \<le> v"

lemma SprDMA_None:
  assumes "nes_wf s"
  shows "SprDMA v s = None \<longleftrightarrow> \<not> dma_page_ok v"
proof -
  note wf = assms[unfolded nes_wf_def]
  define a where "a = unat v"
  have h: "unat (drop_bit 4 v) = a div 16"
    by (simp add: drop_bit_eq_div unat_div a_def)
  have a: "a < 256" by (simp add: a_def)
  have ok: "dma_page_ok v \<longleftrightarrow> a < 8 \<or> 128 \<le> a"
    by (simp add: dma_page_ok_def word_less_nat_alt word_le_nat_alt a_def)
  have src: "SprDMA_src s v i = None \<longleftrightarrow> \<not> (a < 8 \<or> 128 \<le> a)" if i: "i < 256" for i
  proof (cases "a < 32")
    case True
    then have "a div 16 < 2" by linarith
    then have "a div 16 = 0 \<or> a div 16 = 1" by linarith
    then show ?thesis using True i wf by (auto simp: SprDMA_src_def Let_def h a_def[symmetric])
  next
    case False
    then have d: "2 \<le> a div 16" "a div 16 < 16" using a by linarith+
    consider "a div 16 < 8" | "8 \<le> a div 16" "a div 16 < 12" | "12 \<le> a div 16" by linarith
    then show ?thesis
    proof cases
      case 1
      then have "a < 128" by linarith
      then show ?thesis using 1 d False wf by (auto simp: SprDMA_src_def Let_def h)
    next
      case 2
      then have r: "128 \<le> a" "a < 192" by linarith+
      have "a div 16 = 8 \<or> a div 16 = 9 \<or> a div 16 = 10 \<or> a div 16 = 11" using 2 by linarith
      moreover have "mem_rd_at (rom_file s) (prg_rombank0 s + int (a * 256 - 0x8000 + i)) \<noteq> None"
        using wf r i by (intro mem_rd_at_rom) auto
      ultimately show ?thesis using r by (auto simp: SprDMA_src_def Let_def h a_def[symmetric])
    next
      case 3
      then have r: "192 \<le> a" by linarith
      have "a div 16 = 12 \<or> a div 16 = 13 \<or> a div 16 = 14 \<or> a div 16 = 15" using 3 d by linarith
      moreover have "mem_rd_at (rom_file s) (prg_rombank1 s + int (a * 256 - 0xC000 + i)) \<noteq> None"
        using wf r i a by (intro mem_rd_at_rom) auto
      ultimately show ?thesis using r by (auto simp: SprDMA_src_def Let_def h a_def[symmetric])
    qed
  qed
  show ?thesis
  proof (cases "a < 8 \<or> 128 \<le> a")
    case True
    then have "those (map (SprDMA_src s v) [0..<256]) = Some (map (\<lambda>i. the (SprDMA_src s v i)) [0..<256])"
      by (intro those_Some) (simp add: src flip: option.collapse)
    then show ?thesis using True ok by (simp add: SprDMA_def)
  next
    case False
    then have "those (map (SprDMA_src s v) [0..<256]) = None"
      using src[of 0] by (intro those_None[of 0]) auto
    then show ?thesis using False ok by (simp add: SprDMA_def)
  qed
qed

lemma put6502memory_None:
  assumes "nes_wf s"
  shows "put6502memory s a v = None \<longleftrightarrow>
           (a AND 0xE000 = 0x2000 \<and> a AND 7 = 7 \<and> nt_overrun (ppu s)) \<or>
           (a = 0x4014 \<and> \<not> dma_page_ok v)"
proof -
  note wf = assms[unfolded nes_wf_def]
  show ?thesis
    using page_cases[of a] wf SprDMA_None[OF assms, of v]
    by (auto simp: put6502memory_def Let_def bind_None_iff PPU_RegWrite_None unat_and_low11)
qed

text \<open>What an access may change.\<close>

lemma get6502memory_frame: "get6502memory s a = Some (v, t) \<Longrightarrow> \<exists>p. t = s\<lparr>ppu := p\<rparr>"
  by (rule exI[where x = "ppu t"])
    (auto simp: get6502memory_def Let_def bind_eq_Some_conv split: if_splits)

lemma put6502memory_frame:
  "put6502memory s a v = Some t \<Longrightarrow>
     \<exists>r p. t = s\<lparr>ram6502 := r, ppu := p,
          clockticks6502 := (if a = 0x4014 then clockticks6502 s - 512 else clockticks6502 s)\<rparr>"
  by (rule exI[where x = "ram6502 t"], rule exI[where x = "ppu t"])
    (auto simp: put6502memory_def Let_def bind_eq_Some_conv SprDMA_def NES_JoyPadReset_def
        NES_JoyPadDisable_def split: if_splits)

lemma get6502memory_wf:
  assumes "nes_wf s" "get6502memory s a = Some (v, t)"
  shows "nes_wf t"
  using assms
  by (auto simp: get6502memory_def Let_def bind_eq_Some_conv nes_wf_def split: if_splits
      intro: PPU_RegRead_wf)

lemma SprDMA_wf: "nes_wf s \<Longrightarrow> SprDMA v s = Some t \<Longrightarrow> nes_wf t"
  by (auto simp: SprDMA_def bind_eq_Some_conv nes_wf_def ppu_wf_def dest!: those_length)

lemma put6502memory_wf:
  assumes "nes_wf s" "put6502memory s a v = Some t"
  shows "nes_wf t"
proof (cases "a AND 0xE000 = 0x4000")
  case True
  then show ?thesis using assms
    by (auto simp: put6502memory_def Let_def bind_eq_Some_conv NES_JoyPadReset_def
        NES_JoyPadDisable_def SprDMA_wf split: if_splits)
next
  case False
  then show ?thesis using assms
    by (auto simp: put6502memory_def Let_def bind_eq_Some_conv nes_wf_def mem_wr_eq_Some_iff
        split: if_splits intro: PPU_RegWrite_wf)
qed

end
