(* ===== verification/NesOpcodes.thy ===== *)
theory NesOpcodes
  imports Main
begin

text \<open>
  The dispatch table of \<open>nes-old/6502.c\<close>. The two function pointers of an entry become
  constructors of the enumerations \<open>adr_fn\<close> (addressing modes) and \<open>instr_fn\<close> (instructions),
  named as the C functions; \<open>run_adrmode\<close> and \<open>run_instruction\<close> of the next theories call them.
\<close>

datatype adr_fn = A_implied | A_immediate | A_abs | A_relative | A_indirect | A_absx | A_absy
    | A_zp | A_zpx | A_zpy | A_indx | A_indy | A_indabsx | A_indzp

datatype (plugins only: code size) instr_fn = I_adc | I_and | I_asl | I_asla | I_bcc | I_bcs | I_beq | I_bit | I_bmi
    | I_bne | I_bpl | I_brk | I_bvc | I_bvs | I_clc | I_cld | I_cli | I_clv | I_cmp | I_cpx
    | I_cpy | I_dec | I_dex | I_dey | I_eor | I_inc | I_inx | I_iny | I_jmp | I_jsr | I_lda
    | I_ldx | I_ldy | I_lsr | I_lsra | I_nop | I_ora | I_pha | I_php | I_pla | I_plp | I_rol
    | I_rola | I_ror | I_rora | I_rti | I_rts | I_sbc | I_sec | I_sed | I_sei | I_sta | I_stx
    | I_sty | I_tax | I_tay | I_tsx | I_txa | I_txs | I_tya | I_bra | I_dea | I_ina | I_phx
    | I_plx | I_phy | I_ply | I_stz | I_tsb | I_trb

datatype OPCODE = OP (ticks: int) (instruction: instr_fn) (adrmode: adr_fn)

text \<open>Entries \<open>$00-$7F\<close> and \<open>$80-$FF\<close>.\<close>

definition opcodetable_lo :: "OPCODE list" where
  "opcodetable_lo = [
    OP 7 I_brk A_implied, OP 6 I_ora A_indx, OP 2 I_nop A_implied, OP 2 I_nop A_implied,
    OP 3 I_tsb A_zp, OP 3 I_ora A_zp, OP 5 I_asl A_zp, OP 2 I_nop A_implied, OP 3 I_php A_implied,
    OP 3 I_ora A_immediate, OP 2 I_asla A_implied, OP 2 I_ora A_implied, OP 4 I_tsb A_abs,
    OP 4 I_ora A_abs, OP 6 I_asl A_abs, OP 2 I_nop A_implied, OP 2 I_bpl A_relative,
    OP 5 I_ora A_indy, OP 3 I_ora A_indzp, OP 2 I_nop A_implied, OP 3 I_trb A_zp,
    OP 4 I_ora A_zpx, OP 6 I_asl A_zpx, OP 2 I_nop A_implied, OP 2 I_clc A_implied,
    OP 4 I_ora A_absy, OP 2 I_ina A_implied, OP 2 I_nop A_implied, OP 4 I_trb A_abs,
    OP 4 I_ora A_absx, OP 7 I_asl A_absx, OP 2 I_nop A_implied, OP 6 I_jsr A_abs,
    OP 6 I_and A_indx, OP 2 I_nop A_implied, OP 2 I_nop A_implied, OP 3 I_bit A_zp,
    OP 3 I_and A_zp, OP 5 I_rol A_zp, OP 2 I_nop A_implied, OP 4 I_plp A_implied,
    OP 3 I_and A_immediate, OP 2 I_rola A_implied, OP 2 I_nop A_implied, OP 4 I_bit A_abs,
    OP 4 I_and A_abs, OP 6 I_rol A_abs, OP 2 I_nop A_implied, OP 2 I_bmi A_relative,
    OP 5 I_and A_indy, OP 3 I_and A_indzp, OP 2 I_nop A_implied, OP 4 I_bit A_zpx,
    OP 4 I_and A_zpx, OP 6 I_rol A_zpx, OP 2 I_nop A_implied, OP 2 I_sec A_implied,
    OP 4 I_and A_absy, OP 2 I_dea A_implied, OP 2 I_nop A_implied, OP 4 I_bit A_absx,
    OP 4 I_and A_absx, OP 7 I_rol A_absx, OP 2 I_nop A_implied, OP 6 I_rti A_implied,
    OP 6 I_eor A_indx, OP 2 I_nop A_implied, OP 2 I_nop A_implied, OP 2 I_nop A_implied,
    OP 3 I_eor A_zp, OP 5 I_lsr A_zp, OP 2 I_nop A_implied, OP 3 I_pha A_implied,
    OP 3 I_eor A_immediate, OP 2 I_lsra A_implied, OP 2 I_nop A_implied, OP 3 I_jmp A_abs,
    OP 4 I_eor A_abs, OP 6 I_lsr A_abs, OP 2 I_nop A_implied, OP 2 I_bvc A_relative,
    OP 5 I_eor A_indy, OP 3 I_eor A_indzp, OP 2 I_nop A_implied, OP 2 I_nop A_implied,
    OP 4 I_eor A_zpx, OP 6 I_lsr A_zpx, OP 2 I_nop A_implied, OP 2 I_cli A_implied,
    OP 4 I_eor A_absy, OP 3 I_phy A_implied, OP 2 I_nop A_implied, OP 2 I_nop A_implied,
    OP 4 I_eor A_absx, OP 7 I_lsr A_absx, OP 2 I_nop A_implied, OP 6 I_rts A_implied,
    OP 6 I_adc A_indx, OP 2 I_nop A_implied, OP 2 I_nop A_implied, OP 3 I_stz A_zp,
    OP 3 I_adc A_zp, OP 5 I_ror A_zp, OP 2 I_nop A_implied, OP 4 I_pla A_implied,
    OP 3 I_adc A_immediate, OP 2 I_rora A_implied, OP 2 I_nop A_implied, OP 5 I_jmp A_indirect,
    OP 4 I_adc A_abs, OP 6 I_ror A_abs, OP 2 I_nop A_implied, OP 2 I_bvs A_implied,
    OP 5 I_adc A_indy, OP 3 I_adc A_indzp, OP 2 I_nop A_implied, OP 4 I_stz A_zpx,
    OP 4 I_adc A_zpx, OP 6 I_ror A_zpx, OP 2 I_nop A_implied, OP 2 I_sei A_implied,
    OP 4 I_adc A_absy, OP 4 I_ply A_implied, OP 2 I_nop A_implied, OP 6 I_jmp A_indabsx,
    OP 4 I_adc A_absx, OP 7 I_ror A_absx, OP 2 I_nop A_implied]"

definition opcodetable_hi :: "OPCODE list" where
  "opcodetable_hi = [
    OP 2 I_bra A_relative, OP 6 I_sta A_indx, OP 2 I_nop A_implied, OP 2 I_nop A_implied,
    OP 2 I_sty A_zp, OP 2 I_sta A_zp, OP 2 I_stx A_zp, OP 2 I_nop A_implied, OP 2 I_dey A_implied,
    OP 2 I_bit A_immediate, OP 2 I_txa A_implied, OP 2 I_nop A_implied, OP 4 I_sty A_abs,
    OP 4 I_sta A_abs, OP 4 I_stx A_abs, OP 2 I_nop A_implied, OP 2 I_bcc A_relative,
    OP 6 I_sta A_indy, OP 3 I_sta A_indzp, OP 2 I_nop A_implied, OP 4 I_sty A_zpx,
    OP 4 I_sta A_zpx, OP 4 I_stx A_zpy, OP 2 I_nop A_implied, OP 2 I_tya A_implied,
    OP 5 I_sta A_absy, OP 2 I_txs A_implied, OP 2 I_nop A_implied, OP 4 I_stz A_abs,
    OP 5 I_sta A_absx, OP 5 I_stz A_absx, OP 2 I_nop A_implied, OP 3 I_ldy A_immediate,
    OP 6 I_lda A_indx, OP 3 I_ldx A_immediate, OP 2 I_nop A_implied, OP 3 I_ldy A_zp,
    OP 3 I_lda A_zp, OP 3 I_ldx A_zp, OP 2 I_nop A_implied, OP 2 I_tay A_implied,
    OP 3 I_lda A_immediate, OP 2 I_tax A_implied, OP 2 I_nop A_implied, OP 4 I_ldy A_abs,
    OP 4 I_lda A_abs, OP 4 I_ldx A_abs, OP 2 I_nop A_implied, OP 2 I_bcs A_relative,
    OP 5 I_lda A_indy, OP 3 I_lda A_indzp, OP 2 I_nop A_implied, OP 4 I_ldy A_zpx,
    OP 4 I_lda A_zpx, OP 4 I_ldx A_zpy, OP 2 I_nop A_implied, OP 2 I_clv A_implied,
    OP 4 I_lda A_absy, OP 2 I_tsx A_implied, OP 2 I_nop A_implied, OP 4 I_ldy A_absx,
    OP 4 I_lda A_absx, OP 4 I_ldx A_absy, OP 2 I_nop A_implied, OP 3 I_cpy A_immediate,
    OP 6 I_cmp A_indx, OP 2 I_nop A_implied, OP 2 I_nop A_implied, OP 3 I_cpy A_zp,
    OP 3 I_cmp A_zp, OP 5 I_dec A_zp, OP 2 I_nop A_implied, OP 2 I_iny A_implied,
    OP 3 I_cmp A_immediate, OP 2 I_dex A_implied, OP 2 I_nop A_implied, OP 4 I_cpy A_abs,
    OP 4 I_cmp A_abs, OP 6 I_dec A_abs, OP 2 I_nop A_implied, OP 2 I_bne A_relative,
    OP 5 I_cmp A_indy, OP 3 I_cmp A_indzp, OP 2 I_nop A_implied, OP 2 I_nop A_implied,
    OP 4 I_cmp A_zpx, OP 6 I_dec A_zpx, OP 2 I_nop A_implied, OP 2 I_cld A_implied,
    OP 4 I_cmp A_absy, OP 3 I_phx A_implied, OP 2 I_nop A_implied, OP 2 I_nop A_implied,
    OP 4 I_cmp A_absx, OP 7 I_dec A_absx, OP 2 I_nop A_implied, OP 3 I_cpx A_immediate,
    OP 6 I_sbc A_indx, OP 2 I_nop A_implied, OP 2 I_nop A_implied, OP 3 I_cpx A_zp,
    OP 3 I_sbc A_zp, OP 5 I_inc A_zp, OP 2 I_nop A_implied, OP 2 I_inx A_implied,
    OP 3 I_sbc A_immediate, OP 2 I_nop A_implied, OP 2 I_nop A_implied, OP 4 I_cpx A_abs,
    OP 4 I_sbc A_abs, OP 6 I_inc A_abs, OP 2 I_nop A_implied, OP 2 I_beq A_relative,
    OP 5 I_sbc A_indy, OP 3 I_sbc A_indzp, OP 2 I_nop A_implied, OP 2 I_nop A_implied,
    OP 4 I_sbc A_zpx, OP 6 I_inc A_zpx, OP 2 I_nop A_implied, OP 2 I_sed A_implied,
    OP 4 I_sbc A_absy, OP 4 I_plx A_implied, OP 2 I_nop A_implied, OP 2 I_nop A_implied,
    OP 4 I_sbc A_absx, OP 7 I_inc A_absx, OP 2 I_nop A_implied]"

definition opcodetable :: "OPCODE list" where
  "opcodetable = opcodetable_lo @ opcodetable_hi"

lemma length_opcodetable: "length opcodetable_lo = 128" "length opcodetable_hi = 128" "length opcodetable = 256"
  by (simp_all add: opcodetable_def opcodetable_lo_def opcodetable_hi_def)

text \<open>Every entry costs between 2 and 7 cycles.\<close>

lemma opcodetable_ticks_all: "list_all (\<lambda>e. 2 \<le> ticks e \<and> ticks e \<le> 7) opcodetable"
  by (simp add: opcodetable_def opcodetable_lo_def opcodetable_hi_def)

lemma opcodetable_ticks:
  "k < 256 \<Longrightarrow> 2 \<le> ticks (opcodetable ! k) \<and> ticks (opcodetable ! k) \<le> 7"
  using opcodetable_ticks_all by (simp add: list_all_length length_opcodetable)

end
