(* ===== verification/NesAddr.thy ===== *)
theory NesAddr
  imports NesBus NesOpcodes
begin

text \<open>
  The addressing modes of \<open>nes-old/6502.c\<close>. Each leaves the effective address in \<open>savepc\<close>.
  Where a C expression calls \<open>get6502memory\<close> twice the calls are made left to right (the order
  matters only when code runs from the PPU ports). \<open>int\<close> sums are truncated where the source
  stores them in a \<open>WORD\<close> or \<open>BYTE\<close>.
\<close>

section \<open>Table lookup and two-byte reads\<close>

definition cur_op :: "nes \<Rightarrow> OPCODE" where
  "cur_op s = opcodetable ! unat (opcode s)"

text \<open>\<open>get6502memory(a) + (get6502memory(a + 1) << 8)\<close>.\<close>

definition get6502word :: "nes \<Rightarrow> word16 \<Rightarrow> (word16 \<times> nes) option" where
  "get6502word s a = do {
     (lo, s) \<leftarrow> get6502memory s a;
     (hi, s) \<leftarrow> get6502memory s (a + 1);
     Some (ucast lo + push_bit 8 (ucast hi), s) }"

text \<open>The extra cycle when adding an index register changes the high byte; the sum is an \<open>int\<close>.\<close>

definition page_crossed :: "word16 \<Rightarrow> byte \<Rightarrow> bool" where
  "page_crossed base r \<longleftrightarrow> uint base div 256 \<noteq> (uint base + uint r) div 256"

section \<open>Modes\<close>

definition implied6502 :: "nes \<Rightarrow> nes option" where
  "implied6502 s = Some s"

definition immediate6502 :: "nes \<Rightarrow> nes option" where
  "immediate6502 s = Some (s\<lparr>savepc := pc_reg s, pc_reg := pc_reg s + 1\<rparr>)"

definition abs6502 :: "nes \<Rightarrow> nes option" where
  "abs6502 s = do {
     (w, s) \<leftarrow> get6502word s (pc_reg s);
     Some (s\<lparr>savepc := w, pc_reg := pc_reg s + 2\<rparr>) }"

definition relative6502 :: "nes \<Rightarrow> nes option" where
  "relative6502 s = do {
     (v, s) \<leftarrow> get6502memory s (pc_reg s);
     s \<leftarrow> Some (s\<lparr>savepc := ucast v, pc_reg := pc_reg s + 1\<rparr>);
     s \<leftarrow> Some (if savepc s AND 0x80 \<noteq> 0 then s\<lparr>savepc := savepc s - 0x100\<rparr> else s);
     Some (if drop_bit 8 (savepc s) \<noteq> drop_bit 8 (pc_reg s)
           then s\<lparr>clockticks6502 := clockticks6502 s + 1\<rparr> else s) }"

definition indirect6502 :: "nes \<Rightarrow> nes option" where
  "indirect6502 s = do {
     (h, s) \<leftarrow> get6502word s (pc_reg s);
     s \<leftarrow> Some (s\<lparr>help_v := h\<rparr>);
     (w, s) \<leftarrow> get6502word s (help_v s);
     Some (s\<lparr>savepc := w, pc_reg := pc_reg s + 2\<rparr>) }"

definition absx6502 :: "nes \<Rightarrow> nes option" where
  "absx6502 s = do {
     (w, s) \<leftarrow> get6502word s (pc_reg s);
     s \<leftarrow> Some (s\<lparr>savepc := w, pc_reg := pc_reg s + 2\<rparr>);
     s \<leftarrow> Some (if ticks (cur_op s) = 4 \<and> page_crossed (savepc s) (x_reg s)
                 then s\<lparr>clockticks6502 := clockticks6502 s + 1\<rparr> else s);
     Some (s\<lparr>savepc := savepc s + ucast (x_reg s)\<rparr>) }"

definition absy6502 :: "nes \<Rightarrow> nes option" where
  "absy6502 s = do {
     (w, s) \<leftarrow> get6502word s (pc_reg s);
     s \<leftarrow> Some (s\<lparr>savepc := w, pc_reg := pc_reg s + 2\<rparr>);
     s \<leftarrow> Some (if ticks (cur_op s) = 4 \<and> page_crossed (savepc s) (y_reg s)
                 then s\<lparr>clockticks6502 := clockticks6502 s + 1\<rparr> else s);
     Some (s\<lparr>savepc := savepc s + ucast (y_reg s)\<rparr>) }"

definition zp6502 :: "nes \<Rightarrow> nes option" where
  "zp6502 s = do {
     (v, s) \<leftarrow> get6502memory s (pc_reg s);
     Some (s\<lparr>savepc := ucast v, pc_reg := pc_reg s + 1\<rparr>) }"

definition zpx6502 :: "nes \<Rightarrow> nes option" where
  "zpx6502 s = do {
     (v, s) \<leftarrow> get6502memory s (pc_reg s);
     s \<leftarrow> Some (s\<lparr>savepc := ucast v + ucast (x_reg s), pc_reg := pc_reg s + 1\<rparr>);
     Some (s\<lparr>savepc := savepc s AND 0x00ff\<rparr>) }"

definition zpy6502 :: "nes \<Rightarrow> nes option" where
  "zpy6502 s = do {
     (v, s) \<leftarrow> get6502memory s (pc_reg s);
     s \<leftarrow> Some (s\<lparr>savepc := ucast v + ucast (y_reg s), pc_reg := pc_reg s + 1\<rparr>);
     Some (s\<lparr>savepc := savepc s AND 0x00ff\<rparr>) }"

text \<open>The source adds \<open>Y\<close> here, in the mode it calls \<open>(ZP,X)\<close>.\<close>

definition indx6502 :: "nes \<Rightarrow> nes option" where
  "indx6502 s = do {
     (v, s) \<leftarrow> get6502memory s (pc_reg s);
     s \<leftarrow> Some (s\<lparr>value_v := v + y_reg s, pc_reg := pc_reg s + 1\<rparr>);
     (w, s) \<leftarrow> get6502word s (ucast (value_v s));
     Some (s\<lparr>savepc := w\<rparr>) }"

definition indy6502 :: "nes \<Rightarrow> nes option" where
  "indy6502 s = do {
     (v, s) \<leftarrow> get6502memory s (pc_reg s);
     s \<leftarrow> Some (s\<lparr>value_v := v, pc_reg := pc_reg s + 1\<rparr>);
     (w, s) \<leftarrow> get6502word s (ucast (value_v s));
     s \<leftarrow> Some (s\<lparr>savepc := w\<rparr>);
     s \<leftarrow> Some (if ticks (cur_op s) = 5 \<and> page_crossed (savepc s) (y_reg s)
                 then s\<lparr>clockticks6502 := clockticks6502 s + 1\<rparr> else s);
     Some (s\<lparr>savepc := savepc s + ucast (y_reg s)\<rparr>) }"

definition indabsx6502 :: "nes \<Rightarrow> nes option" where
  "indabsx6502 s = do {
     (w, s) \<leftarrow> get6502word s (pc_reg s);
     s \<leftarrow> Some (s\<lparr>help_v := w + ucast (x_reg s)\<rparr>);
     (w, s) \<leftarrow> get6502word s (help_v s);
     Some (s\<lparr>savepc := w\<rparr>) }"

definition indzp6502 :: "nes \<Rightarrow> nes option" where
  "indzp6502 s = do {
     (v, s) \<leftarrow> get6502memory s (pc_reg s);
     s \<leftarrow> Some (s\<lparr>value_v := v, pc_reg := pc_reg s + 1\<rparr>);
     (w, s) \<leftarrow> get6502word s (ucast (value_v s));
     Some (s\<lparr>savepc := w\<rparr>) }"

text \<open>The call through the table's second pointer.\<close>

fun run_adrmode :: "adr_fn \<Rightarrow> nes \<Rightarrow> nes option" where
  "run_adrmode A_implied = implied6502"
| "run_adrmode A_immediate = immediate6502"
| "run_adrmode A_abs = abs6502"
| "run_adrmode A_relative = relative6502"
| "run_adrmode A_indirect = indirect6502"
| "run_adrmode A_absx = absx6502"
| "run_adrmode A_absy = absy6502"
| "run_adrmode A_zp = zp6502"
| "run_adrmode A_zpx = zpx6502"
| "run_adrmode A_zpy = zpy6502"
| "run_adrmode A_indx = indx6502"
| "run_adrmode A_indy = indy6502"
| "run_adrmode A_indabsx = indabsx6502"
| "run_adrmode A_indzp = indzp6502"

definition call_adrmode :: "nes \<Rightarrow> nes option" where
  "call_adrmode s = run_adrmode (adrmode (cur_op s)) s"

lemmas adrmode_defs = implied6502_def immediate6502_def abs6502_def relative6502_def
  indirect6502_def absx6502_def absy6502_def zp6502_def zpx6502_def zpy6502_def indx6502_def
  indy6502_def indabsx6502_def indzp6502_def

section \<open>What a mode may change\<close>

text \<open>The fields no instruction writes.\<close>

definition ctl :: "nes \<Rightarrow> byte \<times> byte list \<times> bool \<times> bool \<times> bool" where
  "ctl s = (opcode s, rom_file s, char_signed s, NMI_Flag s, IRQ_Flag s)"

lemma ctl_simps [simp]:
  "ctl (s\<lparr>a_reg := v0 \<rparr>) = ctl s" "ctl (s\<lparr>x_reg := v1 \<rparr>) = ctl s"
  "ctl (s\<lparr>y_reg := v2 \<rparr>) = ctl s" "ctl (s\<lparr>flag_reg := v3 \<rparr>) = ctl s"
  "ctl (s\<lparr>s_reg := v4 \<rparr>) = ctl s" "ctl (s\<lparr>pc_reg := v5 \<rparr>) = ctl s"
  "ctl (s\<lparr>clockticks6502 := v6 \<rparr>) = ctl s" "ctl (s\<lparr>savepc := v7 \<rparr>) = ctl s"
  "ctl (s\<lparr>value_v := v8 \<rparr>) = ctl s" "ctl (s\<lparr>sum_v := v9 \<rparr>) = ctl s"
  "ctl (s\<lparr>saveflags := v10 \<rparr>) = ctl s" "ctl (s\<lparr>help_v := v11 \<rparr>) = ctl s"
  "ctl (s\<lparr>ram6502 := v12 \<rparr>) = ctl s" "ctl (s\<lparr>ppu := v13 \<rparr>) = ctl s"
  by (simp_all add: ctl_def)

lemma ctl_eqD:
  "ctl t = ctl s \<Longrightarrow> opcode t = opcode s \<and> rom_file t = rom_file s \<and> char_signed t = char_signed s \<and>
     NMI_Flag t = NMI_Flag s \<and> IRQ_Flag t = IRQ_Flag s"
  by (simp add: ctl_def)

text \<open>
  \<open>adr_rel s t\<close>: only the scratch variables, the program counter, the clock (by at most one
  more cycle) and, through reads of its ports, the PPU differ.
\<close>

definition adr_rel :: "nes \<Rightarrow> nes \<Rightarrow> bool" where
  "adr_rel s t \<longleftrightarrow> ctl t = ctl s \<and> a_reg t = a_reg s \<and> x_reg t = x_reg s \<and> y_reg t = y_reg s \<and>
     flag_reg t = flag_reg s \<and> s_reg t = s_reg s \<and> ram6502 t = ram6502 s \<and> saveflags t = saveflags s \<and>
     clockticks6502 s \<le> clockticks6502 t \<and> clockticks6502 t \<le> clockticks6502 s + 1"

lemma get6502word_frame: "get6502word s a = Some (w, t) \<Longrightarrow> \<exists>p. t = s\<lparr>ppu := p\<rparr>"
  by (auto simp: get6502word_def bind_eq_Some_conv dest!: get6502memory_frame)

text \<open>The invariant travels forward along a successful access; the form suits \<open>dest!\<close>.\<close>

lemma get6502memory_wfD: "get6502memory s a = Some (v, t) \<Longrightarrow> nes_wf s \<longrightarrow> nes_wf t"
  using get6502memory_wf by blast

lemma put6502memory_wfD: "put6502memory s a v = Some t \<Longrightarrow> nes_wf s \<longrightarrow> nes_wf t"
  using put6502memory_wf by blast

lemma run_adrmode_rel: "run_adrmode m s = Some t \<Longrightarrow> adr_rel s t"
  by (cases m) (auto simp: adrmode_defs adr_rel_def elim!: bindE
      dest!: get6502word_frame get6502memory_frame split del: if_split split: if_split_asm)

lemma call_adrmode_rel: "call_adrmode s = Some t \<Longrightarrow> adr_rel s t"
  unfolding call_adrmode_def by (rule run_adrmode_rel)

end
