(* ===== verification/NesCpu.thy ===== *)
theory NesCpu
  imports NesAddr
begin

text \<open>
  The instructions of \<open>nes-old/6502.c\<close>, one definition per C function in the order of the file,
  statement by statement: the call of the addressing mode through the table, the reads and
  writes of the address space, the flag updates of the status register \<open>flag_reg\<close> (\<open>NVRBDIZC\<close>)
  and the extra cycles.
\<close>

section \<open>Statements the instructions share\<close>

text \<open>\<open>if (v) P &= 0xfd; else P |= 0x02;  if (v & 0x80) P |= 0x80; else P &= 0x7f;\<close>\<close>

definition set_z :: "byte \<Rightarrow> nes \<Rightarrow> nes" where
  "set_z v s = s\<lparr>flag_reg := (if v \<noteq> 0 then flag_reg s AND 0xfd else flag_reg s OR 0x02)\<rparr>"

definition set_n :: "byte \<Rightarrow> nes \<Rightarrow> nes" where
  "set_n v s = s\<lparr>flag_reg := (if v AND 0x80 \<noteq> 0 then flag_reg s OR 0x80 else flag_reg s AND 0x7f)\<rparr>"

definition set_zn :: "byte \<Rightarrow> nes \<Rightarrow> nes" where
  "set_zn v s = set_n v (set_z v s)"

text \<open>\<open>if (c) P |= 0x01; else P &= 0xfe;\<close> and the same for the overflow flag.\<close>

definition set_c :: "bool \<Rightarrow> nes \<Rightarrow> nes" where
  "set_c c s = s\<lparr>flag_reg := (if c then flag_reg s OR 0x01 else flag_reg s AND 0xfe)\<rparr>"

definition set_v :: "bool \<Rightarrow> nes \<Rightarrow> nes" where
  "set_v c s = s\<lparr>flag_reg := (if c then flag_reg s OR 0x40 else flag_reg s AND 0xbf)\<rparr>"

text \<open>\<open>(char) b\<close>.\<close>

definition c_char :: "nes \<Rightarrow> byte \<Rightarrow> int" where
  "c_char s b = (if char_signed s then sint b else uint b)"

text \<open>\<open>value = get6502memory(savepc)\<close> after the addressing mode.\<close>

definition load_value :: "nes \<Rightarrow> nes option" where
  "load_value s = do {
     s \<leftarrow> call_adrmode s;
     (v, s) \<leftarrow> get6502memory s (savepc s);
     Some (s\<lparr>value_v := v\<rparr>) }"

text \<open>\<open>put6502memory(0x0100+S--, v)\<close> and \<open>get6502memory(++S + 0x100)\<close>.\<close>

definition push6502 :: "byte \<Rightarrow> nes \<Rightarrow> nes option" where
  "push6502 v s = put6502memory (s\<lparr>s_reg := s_reg s - 1\<rparr>) (0x0100 + ucast (s_reg s)) v"

definition pull6502 :: "nes \<Rightarrow> (byte \<times> nes) option" where
  "pull6502 s = get6502memory (s\<lparr>s_reg := s_reg s + 1\<rparr>) (ucast (s_reg s + 1) + 0x100)"

text \<open>A branch: taken, the mode and \<open>PC += savepc\<close>; not taken, the operand is skipped.\<close>

definition branch6502 :: "bool \<Rightarrow> nes \<Rightarrow> nes option" where
  "branch6502 taken s =
     (if taken then do {
        s \<leftarrow> call_adrmode s;
        Some (s\<lparr>pc_reg := pc_reg s + savepc s, clockticks6502 := clockticks6502 s + 1\<rparr>) }
      else do {
        (v, s) \<leftarrow> get6502memory s (pc_reg s);
        Some (s\<lparr>value_v := v, pc_reg := pc_reg s + 1\<rparr>) })"

text \<open>The compare sequence with register \<open>r\<close>; \<open>r + 0x100 - value\<close> is an \<open>int\<close>, stored back in a byte.\<close>

definition compare6502 :: "byte \<Rightarrow> nes \<Rightarrow> nes" where
  "compare6502 r s = (let d = uint r + 0x100 - uint (value_v s);
     s = set_c (d > 0xff) s; s = s\<lparr>value_v := word_of_int d\<rparr>
     in set_zn (value_v s) s)"

text \<open>The decimal correction after an addition or subtraction.\<close>

definition decimal_adjust :: "nes \<Rightarrow> nes" where
  "decimal_adjust s = (let
     s = (if a_reg s AND 0x0f > 0x09 then s\<lparr>a_reg := a_reg s + 0x06\<rparr> else s)
     in if a_reg s AND 0xf0 > 0x90
        then s\<lparr>a_reg := a_reg s + 0x60, flag_reg := flag_reg s OR 0x01\<rparr> else s)"

section \<open>Instructions\<close>

text \<open>After the operand is in \<open>value\<close> the addition only computes.\<close>

definition adc_core :: "nes \<Rightarrow> nes" where
  "adc_core s = (let
     s = s\<lparr>saveflags := uint (flag_reg s AND 0x01)\<rparr>;
     s = s\<lparr>sum_v := c_char s (a_reg s) + c_char s (value_v s) + saveflags s\<rparr>;
     s = set_v (sum_v s > 0x7f \<or> sum_v s < - 0x80) s;
     s = s\<lparr>sum_v := uint (a_reg s) + uint (value_v s) + saveflags s\<rparr>;
     s = set_c (sum_v s > 0xff) s;
     s = s\<lparr>a_reg := word_of_int (sum_v s)\<rparr>;
     s = (if flag_reg s AND 0x08 \<noteq> 0 then decimal_adjust (s\<lparr>flag_reg := flag_reg s AND 0xfe\<rparr>)
          else s\<lparr>clockticks6502 := clockticks6502 s + 1\<rparr>)
     in set_zn (a_reg s) s)"

definition adc6502 :: "nes \<Rightarrow> nes option" where
  "adc6502 s = do {
     s \<leftarrow> load_value s;
     Some (adc_core s) }"

definition and6502 :: "nes \<Rightarrow> nes option" where
  "and6502 s = do {
     s \<leftarrow> load_value s;
     s \<leftarrow> Some (s\<lparr>a_reg := a_reg s AND value_v s\<rparr>);
     Some (set_zn (a_reg s) s) }"

definition asl6502 :: "nes \<Rightarrow> nes option" where
  "asl6502 s = do {
     s \<leftarrow> load_value s;
     s \<leftarrow> Some (s\<lparr>flag_reg := (flag_reg s AND 0xfe) OR (drop_bit 7 (value_v s) AND 0x01)\<rparr>);
     s \<leftarrow> Some (s\<lparr>value_v := push_bit 1 (value_v s)\<rparr>);
     s \<leftarrow> put6502memory s (savepc s) (value_v s);
     Some (set_zn (value_v s) s) }"

definition asla6502 :: "nes \<Rightarrow> nes option" where
  "asla6502 s = do {
     s \<leftarrow> Some (s\<lparr>flag_reg := (flag_reg s AND 0xfe) OR (drop_bit 7 (a_reg s) AND 0x01)\<rparr>);
     s \<leftarrow> Some (s\<lparr>a_reg := push_bit 1 (a_reg s)\<rparr>);
     Some (set_zn (a_reg s) s) }"

definition bcc6502 :: "nes \<Rightarrow> nes option" where
  "bcc6502 s = branch6502 (flag_reg s AND 0x01 = 0) s"

definition bcs6502 :: "nes \<Rightarrow> nes option" where
  "bcs6502 s = branch6502 (flag_reg s AND 0x01 \<noteq> 0) s"

definition beq6502 :: "nes \<Rightarrow> nes option" where
  "beq6502 s = branch6502 (flag_reg s AND 0x02 \<noteq> 0) s"

definition bit6502 :: "nes \<Rightarrow> nes option" where
  "bit6502 s = do {
     s \<leftarrow> load_value s;
     s \<leftarrow> Some (set_z (value_v s AND a_reg s) s);
     Some (s\<lparr>flag_reg := (flag_reg s AND 0x3f) OR (value_v s AND 0xc0)\<rparr>) }"

definition bmi6502 :: "nes \<Rightarrow> nes option" where
  "bmi6502 s = branch6502 (flag_reg s AND 0x80 \<noteq> 0) s"

definition bne6502 :: "nes \<Rightarrow> nes option" where
  "bne6502 s = branch6502 (flag_reg s AND 0x02 = 0) s"

definition bpl6502 :: "nes \<Rightarrow> nes option" where
  "bpl6502 s = branch6502 (flag_reg s AND 0x80 = 0) s"

definition brk6502 :: "nes \<Rightarrow> nes option" where
  "brk6502 s = do {
     s \<leftarrow> Some (s\<lparr>pc_reg := pc_reg s + 1\<rparr>);
     s \<leftarrow> push6502 (ucast (drop_bit 8 (pc_reg s))) s;
     s \<leftarrow> push6502 (ucast (pc_reg s AND 0xff)) s;
     s \<leftarrow> push6502 (flag_reg s) s;
     s \<leftarrow> Some (s\<lparr>flag_reg := flag_reg s OR 0x14\<rparr>);
     (w, s) \<leftarrow> get6502word s 0xFFFE;
     Some (s\<lparr>pc_reg := w\<rparr>) }"

definition bvc6502 :: "nes \<Rightarrow> nes option" where
  "bvc6502 s = branch6502 (flag_reg s AND 0x40 = 0) s"

definition bvs6502 :: "nes \<Rightarrow> nes option" where
  "bvs6502 s = branch6502 (flag_reg s AND 0x40 \<noteq> 0) s"

definition clc6502 :: "nes \<Rightarrow> nes option" where
  "clc6502 s = Some (s\<lparr>flag_reg := flag_reg s AND 0xfe\<rparr>)"

definition cld6502 :: "nes \<Rightarrow> nes option" where
  "cld6502 s = Some (s\<lparr>flag_reg := flag_reg s AND 0xf7\<rparr>)"

definition cli6502 :: "nes \<Rightarrow> nes option" where
  "cli6502 s = Some (s\<lparr>flag_reg := flag_reg s AND 0xfb\<rparr>)"

definition clv6502 :: "nes \<Rightarrow> nes option" where
  "clv6502 s = Some (s\<lparr>flag_reg := flag_reg s AND 0xbf\<rparr>)"

definition cmp6502 :: "nes \<Rightarrow> nes option" where
  "cmp6502 s = do {
     s \<leftarrow> load_value s;
     Some (compare6502 (a_reg s) s) }"

definition cpx6502 :: "nes \<Rightarrow> nes option" where
  "cpx6502 s = do {
     s \<leftarrow> load_value s;
     Some (compare6502 (x_reg s) s) }"

definition cpy6502 :: "nes \<Rightarrow> nes option" where
  "cpy6502 s = do {
     s \<leftarrow> load_value s;
     Some (compare6502 (y_reg s) s) }"

definition dec6502 :: "nes \<Rightarrow> nes option" where
  "dec6502 s = do {
     s \<leftarrow> call_adrmode s;
     (temp, s) \<leftarrow> get6502memory s (savepc s);
     s \<leftarrow> put6502memory s (savepc s) (temp - 1);
     (v, s) \<leftarrow> get6502memory s (savepc s);
     s \<leftarrow> Some (s\<lparr>value_v := v\<rparr>);
     Some (set_zn (value_v s) s) }"

definition dex6502 :: "nes \<Rightarrow> nes option" where
  "dex6502 s = do {
     s \<leftarrow> Some (s\<lparr>x_reg := x_reg s - 1\<rparr>);
     Some (set_zn (x_reg s) s) }"

definition dey6502 :: "nes \<Rightarrow> nes option" where
  "dey6502 s = do {
     s \<leftarrow> Some (s\<lparr>y_reg := y_reg s - 1\<rparr>);
     Some (set_zn (y_reg s) s) }"

definition eor6502 :: "nes \<Rightarrow> nes option" where
  "eor6502 s = do {
     s \<leftarrow> call_adrmode s;
     (v, s) \<leftarrow> get6502memory s (savepc s);
     s \<leftarrow> Some (s\<lparr>a_reg := a_reg s XOR v\<rparr>);
     Some (set_zn (a_reg s) s) }"

definition inc6502 :: "nes \<Rightarrow> nes option" where
  "inc6502 s = do {
     s \<leftarrow> call_adrmode s;
     (temp, s) \<leftarrow> get6502memory s (savepc s);
     s \<leftarrow> put6502memory s (savepc s) (temp + 1);
     (v, s) \<leftarrow> get6502memory s (savepc s);
     s \<leftarrow> Some (s\<lparr>value_v := v\<rparr>);
     Some (set_zn (value_v s) s) }"

definition inx6502 :: "nes \<Rightarrow> nes option" where
  "inx6502 s = do {
     s \<leftarrow> Some (s\<lparr>x_reg := x_reg s + 1\<rparr>);
     Some (set_zn (x_reg s) s) }"

definition iny6502 :: "nes \<Rightarrow> nes option" where
  "iny6502 s = do {
     s \<leftarrow> Some (s\<lparr>y_reg := y_reg s + 1\<rparr>);
     Some (set_zn (y_reg s) s) }"

definition jmp6502 :: "nes \<Rightarrow> nes option" where
  "jmp6502 s = do {
     s \<leftarrow> call_adrmode s;
     Some (s\<lparr>pc_reg := savepc s\<rparr>) }"

definition jsr6502 :: "nes \<Rightarrow> nes option" where
  "jsr6502 s = do {
     s \<leftarrow> Some (s\<lparr>pc_reg := pc_reg s + 1\<rparr>);
     s \<leftarrow> push6502 (ucast (drop_bit 8 (pc_reg s))) s;
     s \<leftarrow> push6502 (ucast (pc_reg s AND 0xff)) s;
     s \<leftarrow> Some (s\<lparr>pc_reg := pc_reg s - 1\<rparr>);
     s \<leftarrow> call_adrmode s;
     Some (s\<lparr>pc_reg := savepc s\<rparr>) }"

definition lda6502 :: "nes \<Rightarrow> nes option" where
  "lda6502 s = do {
     s \<leftarrow> call_adrmode s;
     (v, s) \<leftarrow> get6502memory s (savepc s);
     s \<leftarrow> Some (s\<lparr>a_reg := v\<rparr>);
     Some (set_zn (a_reg s) s) }"

definition ldx6502 :: "nes \<Rightarrow> nes option" where
  "ldx6502 s = do {
     s \<leftarrow> call_adrmode s;
     (v, s) \<leftarrow> get6502memory s (savepc s);
     s \<leftarrow> Some (s\<lparr>x_reg := v\<rparr>);
     Some (set_zn (x_reg s) s) }"

definition ldy6502 :: "nes \<Rightarrow> nes option" where
  "ldy6502 s = do {
     s \<leftarrow> call_adrmode s;
     (v, s) \<leftarrow> get6502memory s (savepc s);
     s \<leftarrow> Some (s\<lparr>y_reg := v\<rparr>);
     Some (set_zn (y_reg s) s) }"

definition lsr6502 :: "nes \<Rightarrow> nes option" where
  "lsr6502 s = do {
     s \<leftarrow> load_value s;
     s \<leftarrow> Some (s\<lparr>flag_reg := (flag_reg s AND 0xfe) OR (value_v s AND 0x01)\<rparr>);
     s \<leftarrow> Some (s\<lparr>value_v := drop_bit 1 (value_v s)\<rparr>);
     s \<leftarrow> put6502memory s (savepc s) (value_v s);
     Some (set_zn (value_v s) s) }"

definition lsra6502 :: "nes \<Rightarrow> nes option" where
  "lsra6502 s = do {
     s \<leftarrow> Some (s\<lparr>flag_reg := (flag_reg s AND 0xfe) OR (a_reg s AND 0x01)\<rparr>);
     s \<leftarrow> Some (s\<lparr>a_reg := drop_bit 1 (a_reg s)\<rparr>);
     Some (set_zn (a_reg s) s) }"

definition nop6502 :: "nes \<Rightarrow> nes option" where
  "nop6502 s = Some s"

definition ora6502 :: "nes \<Rightarrow> nes option" where
  "ora6502 s = do {
     s \<leftarrow> call_adrmode s;
     (v, s) \<leftarrow> get6502memory s (savepc s);
     s \<leftarrow> Some (s\<lparr>a_reg := a_reg s OR v\<rparr>);
     Some (set_zn (a_reg s) s) }"

definition pha6502 :: "nes \<Rightarrow> nes option" where
  "pha6502 s = push6502 (a_reg s) s"

definition php6502 :: "nes \<Rightarrow> nes option" where
  "php6502 s = push6502 (flag_reg s) s"

definition pla6502 :: "nes \<Rightarrow> nes option" where
  "pla6502 s = do {
     (v, s) \<leftarrow> pull6502 s;
     s \<leftarrow> Some (s\<lparr>a_reg := v\<rparr>);
     Some (set_zn (a_reg s) s) }"

definition plp6502 :: "nes \<Rightarrow> nes option" where
  "plp6502 s = do {
     (v, s) \<leftarrow> pull6502 s;
     Some (s\<lparr>flag_reg := v OR 0x20\<rparr>) }"

definition rol6502 :: "nes \<Rightarrow> nes option" where
  "rol6502 s = do {
     s \<leftarrow> Some (s\<lparr>saveflags := uint (flag_reg s AND 0x01)\<rparr>);
     s \<leftarrow> load_value s;
     s \<leftarrow> Some (s\<lparr>flag_reg := (flag_reg s AND 0xfe) OR (drop_bit 7 (value_v s) AND 0x01)\<rparr>);
     s \<leftarrow> Some (s\<lparr>value_v := push_bit 1 (value_v s)\<rparr>);
     s \<leftarrow> Some (s\<lparr>value_v := value_v s OR word_of_int (saveflags s)\<rparr>);
     s \<leftarrow> put6502memory s (savepc s) (value_v s);
     Some (set_zn (value_v s) s) }"

definition rola6502 :: "nes \<Rightarrow> nes option" where
  "rola6502 s = do {
     s \<leftarrow> Some (s\<lparr>saveflags := uint (flag_reg s AND 0x01)\<rparr>);
     s \<leftarrow> Some (s\<lparr>flag_reg := (flag_reg s AND 0xfe) OR (drop_bit 7 (a_reg s) AND 0x01)\<rparr>);
     s \<leftarrow> Some (s\<lparr>a_reg := push_bit 1 (a_reg s)\<rparr>);
     s \<leftarrow> Some (s\<lparr>a_reg := a_reg s OR word_of_int (saveflags s)\<rparr>);
     Some (set_zn (a_reg s) s) }"

definition ror6502 :: "nes \<Rightarrow> nes option" where
  "ror6502 s = do {
     s \<leftarrow> Some (s\<lparr>saveflags := uint (flag_reg s AND 0x01)\<rparr>);
     s \<leftarrow> load_value s;
     s \<leftarrow> Some (s\<lparr>flag_reg := (flag_reg s AND 0xfe) OR (value_v s AND 0x01)\<rparr>);
     s \<leftarrow> Some (s\<lparr>value_v := drop_bit 1 (value_v s)\<rparr>);
     s \<leftarrow> Some (if saveflags s \<noteq> 0 then s\<lparr>value_v := value_v s OR 0x80\<rparr> else s);
     s \<leftarrow> put6502memory s (savepc s) (value_v s);
     Some (set_zn (value_v s) s) }"

definition rora6502 :: "nes \<Rightarrow> nes option" where
  "rora6502 s = do {
     s \<leftarrow> Some (s\<lparr>saveflags := uint (flag_reg s AND 0x01)\<rparr>);
     s \<leftarrow> Some (s\<lparr>flag_reg := (flag_reg s AND 0xfe) OR (a_reg s AND 0x01)\<rparr>);
     s \<leftarrow> Some (s\<lparr>a_reg := drop_bit 1 (a_reg s)\<rparr>);
     s \<leftarrow> Some (if saveflags s \<noteq> 0 then s\<lparr>a_reg := a_reg s OR 0x80\<rparr> else s);
     Some (set_zn (a_reg s) s) }"

definition rti6502 :: "nes \<Rightarrow> nes option" where
  "rti6502 s = do {
     (v, s) \<leftarrow> pull6502 s;
     s \<leftarrow> Some (s\<lparr>flag_reg := v OR 0x20\<rparr>);
     (lo, s) \<leftarrow> pull6502 s;
     s \<leftarrow> Some (s\<lparr>pc_reg := ucast lo\<rparr>);
     (hi, s) \<leftarrow> pull6502 s;
     Some (s\<lparr>pc_reg := pc_reg s OR push_bit 8 (ucast hi)\<rparr>) }"

definition rts6502 :: "nes \<Rightarrow> nes option" where
  "rts6502 s = do {
     (lo, s) \<leftarrow> pull6502 s;
     s \<leftarrow> Some (s\<lparr>pc_reg := ucast lo\<rparr>);
     (hi, s) \<leftarrow> pull6502 s;
     s \<leftarrow> Some (s\<lparr>pc_reg := pc_reg s OR push_bit 8 (ucast hi)\<rparr>);
     Some (s\<lparr>pc_reg := pc_reg s + 1\<rparr>) }"

text \<open>The carry enters the overflow test shifted left by four, as in the source.\<close>

definition sbc_core :: "nes \<Rightarrow> nes" where
  "sbc_core s = (let
     s = s\<lparr>value_v := value_v s XOR 0xFF\<rparr>;
     s = s\<lparr>saveflags := uint (flag_reg s AND 0x01)\<rparr>;
     s = s\<lparr>sum_v := c_char s (a_reg s) + c_char s (value_v s) + saveflags s * 16\<rparr>;
     s = set_v (sum_v s > 0x7f \<or> sum_v s < - 0x80) s;
     s = s\<lparr>sum_v := uint (a_reg s) + uint (value_v s) + saveflags s\<rparr>;
     s = set_c (sum_v s > 0xff) s;
     s = s\<lparr>a_reg := word_of_int (sum_v s)\<rparr>;
     s = (if flag_reg s AND 0x08 \<noteq> 0
          then decimal_adjust (s\<lparr>a_reg := a_reg s - 0x66, flag_reg := flag_reg s AND 0xfe\<rparr>)
          else s\<lparr>clockticks6502 := clockticks6502 s + 1\<rparr>)
     in set_zn (a_reg s) s)"

definition sbc6502 :: "nes \<Rightarrow> nes option" where
  "sbc6502 s = do {
     s \<leftarrow> load_value s;
     Some (sbc_core s) }"

definition sec6502 :: "nes \<Rightarrow> nes option" where
  "sec6502 s = Some (s\<lparr>flag_reg := flag_reg s OR 0x01\<rparr>)"

definition sed6502 :: "nes \<Rightarrow> nes option" where
  "sed6502 s = Some (s\<lparr>flag_reg := flag_reg s OR 0x08\<rparr>)"

definition sei6502 :: "nes \<Rightarrow> nes option" where
  "sei6502 s = Some (s\<lparr>flag_reg := flag_reg s OR 0x04\<rparr>)"

definition sta6502 :: "nes \<Rightarrow> nes option" where
  "sta6502 s = do {
     s \<leftarrow> call_adrmode s;
     put6502memory s (savepc s) (a_reg s) }"

definition stx6502 :: "nes \<Rightarrow> nes option" where
  "stx6502 s = do {
     s \<leftarrow> call_adrmode s;
     put6502memory s (savepc s) (x_reg s) }"

definition sty6502 :: "nes \<Rightarrow> nes option" where
  "sty6502 s = do {
     s \<leftarrow> call_adrmode s;
     put6502memory s (savepc s) (y_reg s) }"

definition tax6502 :: "nes \<Rightarrow> nes option" where
  "tax6502 s = do {
     s \<leftarrow> Some (s\<lparr>x_reg := a_reg s\<rparr>);
     Some (set_zn (x_reg s) s) }"

definition tay6502 :: "nes \<Rightarrow> nes option" where
  "tay6502 s = do {
     s \<leftarrow> Some (s\<lparr>y_reg := a_reg s\<rparr>);
     Some (set_zn (y_reg s) s) }"

definition tsx6502 :: "nes \<Rightarrow> nes option" where
  "tsx6502 s = do {
     s \<leftarrow> Some (s\<lparr>x_reg := s_reg s\<rparr>);
     Some (set_zn (x_reg s) s) }"

definition txa6502 :: "nes \<Rightarrow> nes option" where
  "txa6502 s = do {
     s \<leftarrow> Some (s\<lparr>a_reg := x_reg s\<rparr>);
     Some (set_zn (a_reg s) s) }"

definition txs6502 :: "nes \<Rightarrow> nes option" where
  "txs6502 s = Some (s\<lparr>s_reg := x_reg s\<rparr>)"

definition tya6502 :: "nes \<Rightarrow> nes option" where
  "tya6502 s = do {
     s \<leftarrow> Some (s\<lparr>a_reg := y_reg s\<rparr>);
     Some (set_zn (a_reg s) s) }"

definition bra6502 :: "nes \<Rightarrow> nes option" where
  "bra6502 s = do {
     s \<leftarrow> call_adrmode s;
     Some (s\<lparr>pc_reg := pc_reg s + savepc s, clockticks6502 := clockticks6502 s + 1\<rparr>) }"

definition dea6502 :: "nes \<Rightarrow> nes option" where
  "dea6502 s = do {
     s \<leftarrow> Some (s\<lparr>a_reg := a_reg s - 1\<rparr>);
     Some (set_zn (a_reg s) s) }"

definition ina6502 :: "nes \<Rightarrow> nes option" where
  "ina6502 s = do {
     s \<leftarrow> Some (s\<lparr>a_reg := a_reg s + 1\<rparr>);
     Some (set_zn (a_reg s) s) }"

definition phx6502 :: "nes \<Rightarrow> nes option" where
  "phx6502 s = push6502 (x_reg s) s"

definition plx6502 :: "nes \<Rightarrow> nes option" where
  "plx6502 s = do {
     (v, s) \<leftarrow> pull6502 s;
     s \<leftarrow> Some (s\<lparr>x_reg := v\<rparr>);
     Some (set_zn (x_reg s) s) }"

definition phy6502 :: "nes \<Rightarrow> nes option" where
  "phy6502 s = push6502 (y_reg s) s"

definition ply6502 :: "nes \<Rightarrow> nes option" where
  "ply6502 s = do {
     (v, s) \<leftarrow> pull6502 s;
     s \<leftarrow> Some (s\<lparr>y_reg := v\<rparr>);
     Some (set_zn (y_reg s) s) }"

definition stz6502 :: "nes \<Rightarrow> nes option" where
  "stz6502 s = do {
     s \<leftarrow> call_adrmode s;
     put6502memory s (savepc s) 0 }"

definition tsb6502 :: "nes \<Rightarrow> nes option" where
  "tsb6502 s = do {
     s \<leftarrow> call_adrmode s;
     (temp, s) \<leftarrow> get6502memory s (savepc s);
     s \<leftarrow> put6502memory s (savepc s) (temp OR a_reg s);
     (v, s) \<leftarrow> get6502memory s (savepc s);
     Some (set_z v s) }"

definition trb6502 :: "nes \<Rightarrow> nes option" where
  "trb6502 s = do {
     s \<leftarrow> call_adrmode s;
     (temp, s) \<leftarrow> get6502memory s (savepc s);
     s \<leftarrow> put6502memory s (savepc s) (temp AND (a_reg s XOR 0xFF));
     (v, s) \<leftarrow> get6502memory s (savepc s);
     Some (set_z v s) }"

section \<open>Dispatch\<close>

text \<open>The call through the table's first pointer.\<close>

fun run_instruction :: "instr_fn \<Rightarrow> nes \<Rightarrow> nes option" where
  "run_instruction I_adc = adc6502"
| "run_instruction I_and = and6502"
| "run_instruction I_asl = asl6502"
| "run_instruction I_asla = asla6502"
| "run_instruction I_bcc = bcc6502"
| "run_instruction I_bcs = bcs6502"
| "run_instruction I_beq = beq6502"
| "run_instruction I_bit = bit6502"
| "run_instruction I_bmi = bmi6502"
| "run_instruction I_bne = bne6502"
| "run_instruction I_bpl = bpl6502"
| "run_instruction I_brk = brk6502"
| "run_instruction I_bvc = bvc6502"
| "run_instruction I_bvs = bvs6502"
| "run_instruction I_clc = clc6502"
| "run_instruction I_cld = cld6502"
| "run_instruction I_cli = cli6502"
| "run_instruction I_clv = clv6502"
| "run_instruction I_cmp = cmp6502"
| "run_instruction I_cpx = cpx6502"
| "run_instruction I_cpy = cpy6502"
| "run_instruction I_dec = dec6502"
| "run_instruction I_dex = dex6502"
| "run_instruction I_dey = dey6502"
| "run_instruction I_eor = eor6502"
| "run_instruction I_inc = inc6502"
| "run_instruction I_inx = inx6502"
| "run_instruction I_iny = iny6502"
| "run_instruction I_jmp = jmp6502"
| "run_instruction I_jsr = jsr6502"
| "run_instruction I_lda = lda6502"
| "run_instruction I_ldx = ldx6502"
| "run_instruction I_ldy = ldy6502"
| "run_instruction I_lsr = lsr6502"
| "run_instruction I_lsra = lsra6502"
| "run_instruction I_nop = nop6502"
| "run_instruction I_ora = ora6502"
| "run_instruction I_pha = pha6502"
| "run_instruction I_php = php6502"
| "run_instruction I_pla = pla6502"
| "run_instruction I_plp = plp6502"
| "run_instruction I_rol = rol6502"
| "run_instruction I_rola = rola6502"
| "run_instruction I_ror = ror6502"
| "run_instruction I_rora = rora6502"
| "run_instruction I_rti = rti6502"
| "run_instruction I_rts = rts6502"
| "run_instruction I_sbc = sbc6502"
| "run_instruction I_sec = sec6502"
| "run_instruction I_sed = sed6502"
| "run_instruction I_sei = sei6502"
| "run_instruction I_sta = sta6502"
| "run_instruction I_stx = stx6502"
| "run_instruction I_sty = sty6502"
| "run_instruction I_tax = tax6502"
| "run_instruction I_tay = tay6502"
| "run_instruction I_tsx = tsx6502"
| "run_instruction I_txa = txa6502"
| "run_instruction I_txs = txs6502"
| "run_instruction I_tya = tya6502"
| "run_instruction I_bra = bra6502"
| "run_instruction I_dea = dea6502"
| "run_instruction I_ina = ina6502"
| "run_instruction I_phx = phx6502"
| "run_instruction I_plx = plx6502"
| "run_instruction I_phy = phy6502"
| "run_instruction I_ply = ply6502"
| "run_instruction I_stz = stz6502"
| "run_instruction I_tsb = tsb6502"
| "run_instruction I_trb = trb6502"

end
