(* ===== verification/NesExec.thy ===== *)
theory NesExec
  imports NesCpu
begin

text \<open>
  Reset, interrupts and the execution loop of \<open>nes-old/6502.c\<close>. The \<open>while\<close> of \<open>exec6502\<close> is
  \<open>run_loop\<close> over one fetch and execute (\<open>cpu_step\<close>); its first argument bounds the number of
  instructions.
\<close>

section \<open>Reset and interrupts\<close>

definition reset6502 :: "nes \<Rightarrow> nes option" where
  "reset6502 s = do {
     s \<leftarrow> Some (s\<lparr>a_reg := 0, x_reg := 0, y_reg := 0, flag_reg := 0\<rparr>);
     s \<leftarrow> Some (s\<lparr>flag_reg := flag_reg s OR 0x20, s_reg := 0xff\<rparr>);
     (lo, s) \<leftarrow> get6502memory s 0xfffc;
     s \<leftarrow> Some (s\<lparr>pc_reg := ucast lo\<rparr>);
     (hi, s) \<leftarrow> get6502memory s 0xfffd;
     s \<leftarrow> Some (s\<lparr>pc_reg := pc_reg s OR push_bit 8 (ucast hi)\<rparr>);
     Some (s\<lparr>NMI_Flag := False, IRQ_Flag := False\<rparr>) }"

text \<open>The three pushes and the vector fetch shared by the two interrupt entries.\<close>

definition interrupt6502 :: "word16 \<Rightarrow> nes \<Rightarrow> nes option" where
  "interrupt6502 vector s = do {
     s \<leftarrow> push6502 (ucast (drop_bit 8 (pc_reg s))) s;
     s \<leftarrow> push6502 (ucast (pc_reg s AND 0xff)) s;
     s \<leftarrow> push6502 (flag_reg s) s;
     s \<leftarrow> Some (s\<lparr>flag_reg := flag_reg s OR 0x04\<rparr>);
     (lo, s) \<leftarrow> get6502memory s vector;
     s \<leftarrow> Some (s\<lparr>pc_reg := ucast lo\<rparr>);
     (hi, s) \<leftarrow> get6502memory s (vector + 1);
     Some (s\<lparr>pc_reg := pc_reg s OR push_bit 8 (ucast hi)\<rparr>) }"

definition nmi6502 :: "nes \<Rightarrow> nes option" where
  "nmi6502 s = interrupt6502 0xfffa s"

definition irq6502 :: "nes \<Rightarrow> nes option" where
  "irq6502 s = interrupt6502 0xfffe s"

section \<open>Execution\<close>

definition cpu_step :: "nes \<Rightarrow> nes option" where
  "cpu_step s = do {
     (op, s) \<leftarrow> get6502memory s (pc_reg s);
     s \<leftarrow> Some (s\<lparr>opcode := op, pc_reg := pc_reg s + 1\<rparr>);
     s \<leftarrow> run_instruction (instruction (cur_op s)) s;
     Some (s\<lparr>clockticks6502 := clockticks6502 s + ticks (cur_op s)\<rparr>) }"

definition check_interrupts :: "nes \<Rightarrow> nes option" where
  "check_interrupts s =
     (if NMI_Flag s then do { s \<leftarrow> nmi6502 s; Some (s\<lparr>NMI_Flag := False\<rparr>) }
      else if IRQ_Flag s \<and> \<not> (flag_reg s AND 0x04 \<noteq> 0)
      then do { s \<leftarrow> irq6502 s; Some (s\<lparr>IRQ_Flag := False\<rparr>) }
      else Some s)"

definition exec_loop :: "nat \<Rightarrow> int \<Rightarrow> nes \<Rightarrow> nes loop_result" where
  "exec_loop fuel timerTicks s = run_loop fuel (\<lambda>s. timerTicks > clockticks6502 s) cpu_step s"

definition exec6502 :: "nat \<Rightarrow> int \<Rightarrow> nes \<Rightarrow> nes loop_result" where
  "exec6502 fuel timerTicks s =
     (case check_interrupts s of
        None \<Rightarrow> Faulted
      | Some s \<Rightarrow>
          (case exec_loop fuel timerTicks s of
             Returned s \<Rightarrow> Returned (s\<lparr>clockticks6502 := clockticks6502 s - timerTicks\<rparr>)
           | r \<Rightarrow> r))"

definition init6502mem ::
    "byte list option \<Rightarrow> byte list option \<Rightarrow> int \<Rightarrow> byte \<Rightarrow> nes \<Rightarrow> nes" where
  "init6502mem exp_romptr sramptr prg_rombank0ptr rom_num s =
     s\<lparr>exp_rom := exp_romptr, sram := sramptr, prg_rombank0 := prg_rombank0ptr,
       prg_rombank1 := prg_rombank0ptr + 0x4000 * (uint rom_num - 1), clockticks6502 := 0\<rparr>"

lemmas instruction_defs =
  adc6502_def and6502_def asl6502_def asla6502_def bcc6502_def bcs6502_def beq6502_def
  bit6502_def bmi6502_def bne6502_def bpl6502_def brk6502_def bvc6502_def bvs6502_def
  clc6502_def cld6502_def cli6502_def clv6502_def cmp6502_def cpx6502_def cpy6502_def
  dec6502_def dex6502_def dey6502_def eor6502_def inc6502_def inx6502_def iny6502_def
  jmp6502_def jsr6502_def lda6502_def ldx6502_def ldy6502_def lsr6502_def lsra6502_def
  nop6502_def ora6502_def pha6502_def php6502_def pla6502_def plp6502_def rol6502_def
  rola6502_def ror6502_def rora6502_def rti6502_def rts6502_def sbc6502_def sec6502_def
  sed6502_def sei6502_def sta6502_def stx6502_def sty6502_def tax6502_def tay6502_def
  tsx6502_def txa6502_def txs6502_def tya6502_def bra6502_def dea6502_def ina6502_def
  phx6502_def plx6502_def phy6502_def ply6502_def stz6502_def tsb6502_def trb6502_def

section \<open>Invariants of the processor\<close>

text \<open>
  What an invariant of the machine has to promise so that the processor keeps it: it does not
  look at the registers and scratch variables, and accesses to the address space keep it. The
  rest, up to \<open>exec6502\<close>, is proved once for all such invariants.
\<close>

locale cpu_invariant =
  fixes I :: "nes \<Rightarrow> bool"
  assumes regs:
    "I (s\<lparr>a_reg := b\<rparr>) = I s" "I (s\<lparr>x_reg := b\<rparr>) = I s" "I (s\<lparr>y_reg := b\<rparr>) = I s"
    "I (s\<lparr>flag_reg := b\<rparr>) = I s" "I (s\<lparr>s_reg := b\<rparr>) = I s" "I (s\<lparr>pc_reg := w\<rparr>) = I s"
    "I (s\<lparr>NMI_Flag := f\<rparr>) = I s" "I (s\<lparr>IRQ_Flag := f\<rparr>) = I s" "I (s\<lparr>opcode := b\<rparr>) = I s"
    "I (s\<lparr>clockticks6502 := n\<rparr>) = I s" "I (s\<lparr>savepc := w\<rparr>) = I s" "I (s\<lparr>value_v := b\<rparr>) = I s"
    "I (s\<lparr>sum_v := n\<rparr>) = I s" "I (s\<lparr>saveflags := n\<rparr>) = I s" "I (s\<lparr>help_v := w\<rparr>) = I s"
    and rd: "get6502memory s a = Some (v, t) \<Longrightarrow> I s \<longrightarrow> I t"
    and wr: "put6502memory s a b = Some t \<Longrightarrow> I s \<longrightarrow> I t"
begin

lemma flag_ops [simp]:
  "I (set_z v s) = I s" "I (set_n v s) = I s" "I (set_zn v s) = I s"
  "I (set_c c s) = I s" "I (set_v c s) = I s"
  "I (compare6502 r s) = I s" "I (decimal_adjust s) = I s"
  by (simp_all add: set_z_def set_n_def set_zn_def set_c_def set_v_def compare6502_def
      decimal_adjust_def Let_def regs)

lemma arith_core [simp]: "I (adc_core s) = I s" "I (sbc_core s) = I s"
  by (simp_all add: adc_core_def sbc_core_def Let_def regs)

lemma rdw: "get6502word s a = Some (w, t) \<Longrightarrow> I s \<longrightarrow> I t"
  by (auto simp: get6502word_def bind_eq_Some_conv dest!: rd)

lemma run_adrmode_inv: "run_adrmode m s = Some t \<Longrightarrow> I s \<longrightarrow> I t"
  by (cases m) (auto simp: adrmode_defs bind_eq_Some_conv regs dest!: rdw rd)

lemma adr: "call_adrmode s = Some t \<Longrightarrow> I s \<longrightarrow> I t"
  unfolding call_adrmode_def by (rule run_adrmode_inv)

lemma load: "load_value s = Some t \<Longrightarrow> I s \<longrightarrow> I t"
  by (auto simp: load_value_def regs elim!: bindE dest!: adr rd)

lemma push: "push6502 v s = Some t \<Longrightarrow> I s \<longrightarrow> I t"
  by (auto simp: push6502_def regs dest!: wr)

lemma pull: "pull6502 s = Some (v, t) \<Longrightarrow> I s \<longrightarrow> I t"
  by (auto simp: pull6502_def regs dest!: rd)

lemma branch: "branch6502 c s = Some t \<Longrightarrow> I s \<longrightarrow> I t"
  by (auto simp: branch6502_def regs elim!: bindE dest!: adr rd split: if_split_asm)

lemma run_instruction_inv: "run_instruction i s = Some t \<Longrightarrow> I s \<longrightarrow> I t"
  by (cases i) (auto simp: instruction_defs regs elim!: bindE
      dest!: adr rd rdw wr load push pull branch split del: if_split split: if_split_asm)

lemma cpu_step_inv: "cpu_step s = Some t \<Longrightarrow> I s \<longrightarrow> I t"
  by (auto simp: cpu_step_def regs elim!: bindE dest!: rd run_instruction_inv)

lemma interrupt6502_inv: "interrupt6502 w s = Some t \<Longrightarrow> I s \<longrightarrow> I t"
  by (auto simp: interrupt6502_def regs elim!: bindE dest!: push rd)

lemma check_interrupts_inv: "check_interrupts s = Some t \<Longrightarrow> I s \<longrightarrow> I t"
  by (auto simp: check_interrupts_def nmi6502_def irq6502_def regs elim!: bindE
      dest!: interrupt6502_inv split: if_split_asm)

lemma reset6502_inv: "reset6502 s = Some t \<Longrightarrow> I s \<longrightarrow> I t"
  by (auto simp: reset6502_def regs elim!: bindE dest!: rd)

sublocale loop: guarded_loop "\<lambda>s. T > clockticks6502 s" cpu_step I for T
  by unfold_locales (blast dest: cpu_step_inv)

lemma exec_loop_inv: "exec_loop fuel T s = Returned t \<Longrightarrow> I s \<Longrightarrow> I t"
  unfolding exec_loop_def by (rule loop.returned_inv)

lemma exec6502_inv:
  assumes "exec6502 fuel T s = Returned t" "I s"
  shows "I t"
proof -
  obtain u v where u: "check_interrupts s = Some u" and v: "exec_loop fuel T u = Returned v"
    and t: "t = v\<lparr>clockticks6502 := clockticks6502 v - T\<rparr>"
    using assms(1) by (auto simp: exec6502_def split: option.splits loop_result.splits)
  have "I u" using u assms(2) check_interrupts_inv by blast
  then show ?thesis using v by (simp add: t regs exec_loop_inv)
qed

end

text \<open>Well-formedness, and the scan line the picture is at, are such invariants.\<close>

interpretation wf: cpu_invariant nes_wf
  by unfold_locales (simp_all add: get6502memory_wfD put6502memory_wfD)

lemma PPU_RegRead_scanline: "PPU_RegRead rom RX p = Some (v, q) \<Longrightarrow> PPU_scanline q = PPU_scanline p"
  by (auto simp: PPU_RegRead_def PPU_MemRead_def PPU_incr_def Let_def ppu_set_defs bind_eq_Some_conv
      split: if_splits)

lemma PPU_RegWrite_scanline: "PPU_RegWrite RX v p = Some q \<Longrightarrow> PPU_scanline q = PPU_scanline p"
  by (auto simp: PPU_RegWrite_def PPU_MemWrite_def PPU_NameTablesWrite_def PPU_incr_def palette_write_def
      Let_def ppu_set_defs bind_eq_Some_conv split: if_splits)

interpretation line: cpu_invariant "\<lambda>s. PPU_scanline (ppu s) = k" for k
proof (unfold_locales, goal_cases)
  case (16 s a v t)
  then show ?case
    by (auto simp: get6502memory_def Let_def bind_eq_Some_conv split: if_splits dest!: PPU_RegRead_scanline)
next
  case (17 s a b t)
  then show ?case
    by (auto simp: put6502memory_def Let_def bind_eq_Some_conv SprDMA_def NES_JoyPadReset_def
        NES_JoyPadDisable_def split: if_splits dest!: PPU_RegWrite_scanline)
qed simp_all

section \<open>What an instruction may change, and the clock\<close>

lemma unat_stack_addr: "unat (0x0100 + ucast (b :: byte) :: word16) = 256 + unat b"
proof -
  have "256 + unat b < 65536" using unat_byte_less[of b] by linarith
  then show ?thesis by (simp add: unat_word_ariths)
qed

lemma stack_addr: "0x0100 + ucast (b :: byte) \<noteq> (0x4014 :: word16)" 
proof
  assume "0x0100 + ucast b = (0x4014 :: word16)"
  then have "unat (0x0100 + ucast b :: word16) = unat (0x4014 :: word16)" by (rule arg_cong)
  then have "256 + unat b = 0x4014" unfolding unat_stack_addr by simp
  then show False using unat_byte_less[of b] by linarith
qed

text \<open>The instructions that store to the address their addressing mode leaves in \<open>savepc\<close>.\<close>

definition stores :: "instr_fn set" where
  "stores = {I_asl, I_dec, I_inc, I_lsr, I_rol, I_ror, I_sta, I_stx, I_sty, I_stz, I_tsb, I_trb}"

text \<open>
  The clock after an instruction body: up to \<open>k\<close> extra cycles more than before and, when the
  instruction stored to \<open>$4014\<close>, 512 less than that. The fetched opcode, the ROM and the
  interrupt flags are not touched.
\<close>

definition instr_rel :: "int \<Rightarrow> bool \<Rightarrow> nes \<Rightarrow> nes \<Rightarrow> bool" where
  "instr_rel k dma s t \<longleftrightarrow> ctl t = ctl s \<and>
     0 \<le> clockticks6502 t - clockticks6502 s + (if dma \<and> savepc t = 0x4014 then 512 else 0) \<and>
     clockticks6502 t - clockticks6502 s + (if dma \<and> savepc t = 0x4014 then 512 else 0) \<le> k"

lemma flag_ops_sel [simp]:
  "clockticks6502 (set_zn v s) = clockticks6502 s" "clockticks6502 (set_z v s) = clockticks6502 s"
  "clockticks6502 (set_c c s) = clockticks6502 s" "clockticks6502 (set_v c s) = clockticks6502 s"
  "clockticks6502 (compare6502 r s) = clockticks6502 s"
  "clockticks6502 (decimal_adjust s) = clockticks6502 s"
  "ctl (set_zn v s) = ctl s" "ctl (set_z v s) = ctl s" "ctl (set_c c s) = ctl s"
  "ctl (set_v c s) = ctl s" "ctl (compare6502 r s) = ctl s" "ctl (decimal_adjust s) = ctl s"
  "savepc (set_zn v s) = savepc s" "savepc (set_z v s) = savepc s"
  by (simp_all add: set_z_def set_n_def set_zn_def set_c_def set_v_def compare6502_def
      decimal_adjust_def Let_def)

lemma arith_core_sel [simp]: "ctl (adc_core s) = ctl s" "ctl (sbc_core s) = ctl s"
  by (simp_all add: adc_core_def sbc_core_def Let_def)

lemma arith_core_clock:
  "clockticks6502 s \<le> clockticks6502 (adc_core s) \<and> clockticks6502 (adc_core s) \<le> clockticks6502 s + 1"
  "clockticks6502 s \<le> clockticks6502 (sbc_core s) \<and> clockticks6502 (sbc_core s) \<le> clockticks6502 s + 1"
  by (simp_all add: adc_core_def sbc_core_def Let_def)

lemma push_frame:
  "push6502 v s = Some t \<Longrightarrow> \<exists>r p. t = s\<lparr>s_reg := s_reg s - 1, ram6502 := r, ppu := p\<rparr>"
  unfolding push6502_def by (drule put6502memory_frame) (simp add: stack_addr)

lemma pull_frame: "pull6502 s = Some (v, t) \<Longrightarrow> \<exists>p. t = s\<lparr>s_reg := s_reg s + 1, ppu := p\<rparr>"
  unfolding pull6502_def by (drule get6502memory_frame) simp

lemma load_value_rel: "load_value s = Some t \<Longrightarrow> adr_rel s t"
  by (auto simp: load_value_def adr_rel_def elim!: bindE dest!: call_adrmode_rel get6502memory_frame)

lemma branch_rel: "branch6502 c s = Some t \<Longrightarrow> instr_rel 2 False s t"
  by (auto simp: branch6502_def instr_rel_def adr_rel_def elim!: bindE
      dest!: call_adrmode_rel get6502memory_frame split: if_split_asm)

text \<open>The part of \<open>adr_rel\<close> that \<open>instr_rel\<close> speaks of.\<close>

lemma adr_relD:
  "adr_rel s t \<Longrightarrow> ctl t = ctl s \<and>
     clockticks6502 s \<le> clockticks6502 t \<and> clockticks6502 t \<le> clockticks6502 s + 1"
  by (simp add: adr_rel_def)

lemmas step_frames = call_adrmode_rel[THEN adr_relD] load_value_rel[THEN adr_relD]
  get6502memory_frame get6502word_frame put6502memory_frame push_frame pull_frame branch_rel

lemma adc6502_rel:
  assumes "adc6502 s = Some t"
  shows "instr_rel 3 False s t"
proof -
  obtain x where x: "load_value s = Some x" and t: "t = adc_core x"
    using assms by (auto simp: adc6502_def elim!: bindE)
  from load_value_rel[OF x] show ?thesis
    using arith_core_clock(1)[of x] unfolding t instr_rel_def adr_rel_def by simp
qed

lemma sbc6502_rel:
  assumes "sbc6502 s = Some t"
  shows "instr_rel 3 False s t"
proof -
  obtain x where x: "load_value s = Some x" and t: "t = sbc_core x"
    using assms by (auto simp: sbc6502_def elim!: bindE)
  from load_value_rel[OF x] show ?thesis
    using arith_core_clock(2)[of x] unfolding t instr_rel_def adr_rel_def by simp
qed

lemma run_instruction_rel: "run_instruction i s = Some t \<Longrightarrow> instr_rel 3 (i \<in> stores) s t"
proof (cases "i = I_adc \<or> i = I_sbc")
  case True
  then show "run_instruction i s = Some t \<Longrightarrow> ?thesis" by (auto simp: stores_def dest: adc6502_rel sbc6502_rel)
next
  case False
  then show "run_instruction i s = Some t \<Longrightarrow> ?thesis"
    by (cases i) (auto simp: instruction_defs instr_rel_def stores_def elim!: bindE
        dest!: step_frames split del: if_split split: if_split_asm)
qed

end
