(* ===== verification/NesCpuSpec.thy ===== *)
theory NesCpuSpec
  imports NesExec
begin

text \<open>
  What the processor model promises: functional descriptions of the arithmetic, stack, branch
  and interrupt instructions, round trips, and the accounting of the clock that decides when
  \<open>exec6502\<close> returns.
\<close>

section \<open>Stack\<close>

lemma stack_page: "(0x0100 + ucast (b :: byte) :: word16) AND 0xE000 = 0"
proof -
  have "256 + unat b < 8192" using unat_byte_less[of b] by linarith
  then show ?thesis unfolding page13_iff unat_stack_addr by simp
qed

lemma stack_index_bound: "256 + unat (b :: byte) < 2048"
  using unat_byte_less[of b] by linarith

lemma stack_index: "unat ((0x0100 + ucast (b :: byte) :: word16) AND 0x7FF) = 256 + unat b"
  unfolding unat_and_low11 unat_stack_addr using stack_index_bound[of b] by simp

lemma push6502_eq:
  "length (ram6502 s) = 2048 \<Longrightarrow>
   push6502 v s = Some (s\<lparr>s_reg := s_reg s - 1, ram6502 := (ram6502 s)[256 + unat (s_reg s) := v]\<rparr>)"
  using stack_index_bound[of "s_reg s"]
  by (simp add: push6502_def put6502memory_def stack_page stack_index)

lemma pull6502_eq:
  assumes "length (ram6502 s) = 2048"
  shows "pull6502 s = Some (ram6502 s ! (256 + unat (s_reg s + 1)), s\<lparr>s_reg := s_reg s + 1\<rparr>)"
proof -
  note [simp] = stack_page[of "s_reg s + 1", simplified add.commute[of "0x100"]]
    stack_index[of "s_reg s + 1", simplified add.commute[of "0x100 :: word16"]]
  show ?thesis using assms stack_index_bound[of "s_reg s + 1"]
    by (simp only: pull6502_def get6502memory_def)  simp
qed

lemma wf_ram: "nes_wf s \<Longrightarrow> length (ram6502 s) = 2048"
  by (simp add: nes_wf_def)

lemma stack_distinct [simp]:
  "unat (b :: byte) = unat (b - 1) \<longleftrightarrow> False" "unat (b :: byte) = unat (b - 2) \<longleftrightarrow> False"
  "unat (b - 1 :: byte) = unat (b - 2) \<longleftrightarrow> False"
  by (simp_all add: word_unat_eq_iff[symmetric])

text \<open>The program counter reassembled from its two pushed bytes.\<close>

lemma pc_bytes': "ucast (ucast (w AND mask 8) :: byte) OR push_bit 8 (ucast (ucast (drop_bit 8 w) :: byte)) = (w :: word16)"
proof (rule bit_word_eqI, goal_cases)
  case (1 n)
  then have "n < 16" by simp
  then show ?case unfolding bit_simps by (cases "n < 8") (simp_all, linarith)
qed

lemma pc_bytes: "ucast (ucast (w AND 0xff) :: byte) OR push_bit 8 (ucast (ucast (drop_bit 8 w) :: byte)) = (w :: word16)"
  using pc_bytes'[of w] by (simp add: mask_eq_exp_minus_1)

lemma rom_page:
  assumes "0xC000 \<le> unat (a :: word16)"
  shows "a AND 0xE000 = 0xC000 \<or> a AND 0xE000 = 0xE000"
proof -
  have "6 \<le> unat a div 8192" "unat a div 8192 < 8"
    using assms unat_word16_less[of a] by linarith+
  then have "unat a div 8192 = 6 \<or> unat a div 8192 = 7" by linarith
  then show ?thesis unfolding page13_iff by (elim disjE) simp_all
qed

text \<open>The byte of the second program bank at \<open>a\<close>.\<close>

definition rom_byte :: "nes \<Rightarrow> word16 \<Rightarrow> byte" where
  "rom_byte s a = rom_file s ! nat (prg_rombank1 s + (uint a - 0xC000))"

lemma get_rom:
  assumes "nes_wf s" "0xC000 \<le> unat a"
  shows "get6502memory s a = Some (rom_byte s a, s)"
proof -
  have "uint a = int (unat a)" by simp
  then have "0 \<le> uint a - 0xC000" "uint a - 0xC000 < 0x4000"
    using assms(2) unat_word16_less[of a] by linarith+
  then have "mem_rd_at (rom_file s) (prg_rombank1 s + (uint a - 0xC000)) = Some (rom_byte s a)"
    unfolding rom_byte_def using assms(1) by (intro mem_rd_at_Some) (simp_all add: nes_wf_def)
  then show ?thesis using rom_page[OF assms(2)]
    by (elim disjE) (simp_all add: get6502memory_def)
qed

section \<open>Bytes as signed and unsigned numbers\<close>

lemma bit7: "bit (x :: byte) 7 \<longleftrightarrow> 128 \<le> uint x"
proof -
  have "bit x 7 = odd (uint x div 128)" using bit_iff_odd[of "uint x" 7] by (simp add: bit_uint_iff)
  moreover have "0 \<le> uint x" "uint x < 256" using uint_bounded[of x] by simp_all
  moreover from this have "uint x div 128 = (if 128 \<le> uint x then 1 else 0)" by (simp add: div_pos_geq)
  ultimately show ?thesis by simp
qed

lemma sint_byte: "sint (x :: byte) = (if uint x < 128 then uint x else uint x - 256)"
proof -
  have "uint x < 256" using uint_bounded[of x] by simp
  then have "take_bit 8 (uint x) = uint x" by (simp add: take_bit_eq_mod)
  then show ?thesis
    using signed_take_bit_eq_take_bit_minus[of 7 "uint x"] bit7[of x]
    by (simp add: sint_uint bit_uint_iff eval_nat_numeral(3)[symmetric])
qed

lemma uint_byte_xor: "uint ((v :: byte) XOR 0xFF) = 255 - uint v"
proof -
  have "(0xFF :: byte) = - 1" by code_simp
  then have "v XOR 0xFF = v XOR - 1" by (rule arg_cong)
  also have "\<dots> = - 1 - v" by (simp only: bit.xor_one_right not_eq_complement) simp
  finally have "v XOR 0xFF = - 1 - v" .
  moreover have "uint (- 1 - v) = uint (- 1 :: byte) - uint v"
    by (rule uint_minus_simple_iff[THEN iffD1]) simp
  moreover have "uint (- 1 :: byte) = 255" by code_simp
  ultimately show ?thesis by simp
qed

lemma char_overflow_int:
  "0 \<le> (a::int) \<Longrightarrow> a < 256 \<Longrightarrow> 0 \<le> v \<Longrightarrow> v < 256 \<Longrightarrow> c = 0 \<or> c = 1 \<Longrightarrow>
   ((a + v + c \<notin> {-128..127}) =
    ((if a < 128 then a else a - 256) + (if v < 128 then v else v - 256) + c \<notin> {-128..127})) =
   (a < 128 \<and> v < 128 \<or> 128 \<le> a \<and> 128 \<le> v \<and> a + v + c < 384)"
  unfolding atLeastAtMost_iff by (cases "a < 128"; cases "v < 128"; simp; presburger)

lemma char_overflow:
  assumes "c = 0 \<or> c = 1"
  shows "((uint (a :: byte) + uint (v :: byte) + c \<notin> {-128..127}) = (sint a + sint v + c \<notin> {-128..127})) =
    (uint a < 128 \<and> uint v < 128 \<or> 128 \<le> uint a \<and> 128 \<le> uint v \<and> uint a + uint v + c < 384)"
  unfolding sint_byte using assms uint_bounded[of a] uint_bounded[of v]
  by (intro char_overflow_int) simp_all

lemma byte_256 [simp]: "(256 :: byte) = 0"
  by code_simp

lemma word_of_int_256: "(word_of_int (x + 256) :: byte) = word_of_int x"
  by (simp add: word_of_int_eq_iff take_bit_eq_mod)

section \<open>Flags as bits\<close>

lemma and_bit:
  "((x :: byte) AND 0x01 = 0) = (\<not> bit x 0)" "(x AND 0x02 = 0) = (\<not> bit x 1)"
  "(x AND 0x04 = 0) = (\<not> bit x 2)" "(x AND 0x08 = 0) = (\<not> bit x 3)"
  "(x AND 0x40 = 0) = (\<not> bit x 6)" "(x AND 0x80 = 0) = (\<not> bit x 7)"
  using and_exp_eq_0_iff_not_bit[of x 0] and_exp_eq_0_iff_not_bit[of x 1]
    and_exp_eq_0_iff_not_bit[of x 2] and_exp_eq_0_iff_not_bit[of x 3]
    and_exp_eq_0_iff_not_bit[of x 6] and_exp_eq_0_iff_not_bit[of x 7]
  by simp_all

lemma byte_index:
  "n < 8 \<Longrightarrow> n = 0 \<or> n = 1 \<or> n = 2 \<or> n = 3 \<or> n = 4 \<or> n = 5 \<or> n = 6 \<or> n = (7 :: nat)"
  by linarith

lemma bit_flag_ops:
  assumes "n < 8"
  shows "bit (flag_reg (set_z v s)) n = (if n = 1 then v = 0 else bit (flag_reg s) n)"
    "bit (flag_reg (set_n v s)) n = (if n = 7 then bit v 7 else bit (flag_reg s) n)"
    "bit (flag_reg (set_c c s)) n = (if n = 0 then c else bit (flag_reg s) n)"
    "bit (flag_reg (set_v c s)) n = (if n = 6 then c else bit (flag_reg s) n)"
  using byte_index[OF assms]
  by (elim disjE; simp add: set_z_def set_n_def set_c_def set_v_def and_bit bit_and_iff bit_or_iff)+

lemma bit_set_zn:
  "n < 8 \<Longrightarrow> bit (flag_reg (set_zn v s)) n =
     (if n = 1 then v = 0 else if n = 7 then bit v 7 else bit (flag_reg s) n)"
  by (simp add: set_zn_def bit_flag_ops)

lemma flag_ops_regs [simp]:
  "a_reg (set_zn v s) = a_reg s" "a_reg (set_c c s) = a_reg s" "a_reg (set_v c s) = a_reg s"
  "value_v (set_zn v s) = value_v s" "value_v (set_c c s) = value_v s" "value_v (set_v c s) = value_v s"
  "saveflags (set_v c s) = saveflags s" "saveflags (set_c c s) = saveflags s"
  "sum_v (set_v c s) = sum_v s" "sum_v (set_c c s) = sum_v s"
  "c_char (set_v c s) = c_char s"
  by (simp_all add: set_z_def set_n_def set_zn_def set_c_def set_v_def c_char_def fun_eq_iff)

definition carry_in :: "nes \<Rightarrow> int" where
  "carry_in s = of_bool (bit (flag_reg s) 0)"

lemma carry_in_value [simp]: "carry_in (s\<lparr>value_v := v\<rparr>) = carry_in s"
  by (simp add: carry_in_def)

lemma uint_carry: "uint (flag_reg s AND 0x01) = carry_in s"
  by (simp add: carry_in_def and_one_eq mod_2_eq_odd bit_0)

section \<open>Addition\<close>

lemma adc_core_result:
  assumes "\<not> bit (flag_reg s) 3"
  shows "a_reg (adc_core s) = word_of_int (uint (a_reg s) + uint (value_v s) + carry_in s)"
  using assms
  by (simp add: adc_core_def Let_def and_bit bit_flag_ops uint_carry)

lemma adc_core_flags:
  assumes "\<not> bit (flag_reg s) 3" "n < 8"
  shows "bit (flag_reg (adc_core s)) n =
    (if n = 0 then uint (a_reg s) + uint (value_v s) + carry_in s > 0xff
     else if n = 1 then a_reg (adc_core s) = 0
     else if n = 6 then c_char s (a_reg s) + c_char s (value_v s) + carry_in s \<notin> {-0x80..0x7f}
     else if n = 7 then bit (a_reg (adc_core s)) 7
     else bit (flag_reg s) n)"
  using assms
  by (auto simp: adc_core_def Let_def and_bit bit_flag_ops bit_set_zn uint_carry c_char_def)

lemma load_value_regs:
  assumes "load_value s = Some u"
  shows "a_reg u = a_reg s" "flag_reg u = flag_reg s" "carry_in u = carry_in s"
    "c_char u = c_char s" "x_reg u = x_reg s" "y_reg u = y_reg s" "s_reg u = s_reg s"
  using load_value_rel[OF assms]
  by (auto simp: adr_rel_def carry_in_def c_char_def ctl_def fun_eq_iff)

text \<open>
  C3: ADC outside decimal mode adds accumulator, operand and carry modulo 256; C, Z and N
  describe the sum, V is the range test on the operands as the compiler's \<open>char\<close>, and
  the other four flags stay.
\<close>

theorem adc6502_spec:
  assumes "adc6502 s = Some t" "\<not> bit (flag_reg s) 3"
  shows "\<exists>u. load_value s = Some u \<and>
    (let a = a_reg s; v = value_v u; c = carry_in s in
       a_reg t = word_of_int (uint a + uint v + c) \<and>
       (bit (flag_reg t) 0 \<longleftrightarrow> uint a + uint v + c > 255) \<and>
       (bit (flag_reg t) 1 \<longleftrightarrow> a_reg t = 0) \<and>
       (bit (flag_reg t) 6 \<longleftrightarrow> c_char s a + c_char s v + c \<notin> {-128..127}) \<and>
       (bit (flag_reg t) 7 \<longleftrightarrow> bit (a_reg t) 7) \<and>
       (\<forall>n\<in>{2, 3, 4, 5}. bit (flag_reg t) n = bit (flag_reg s) n))"
proof -
  obtain u where u: "load_value s = Some u" and t: "t = adc_core u"
    using assms(1) by (auto simp: adc6502_def elim!: bindE)
  note r = load_value_regs[OF u]
  have d: "\<not> bit (flag_reg u) 3" using assms(2) by (simp add: r)
  show ?thesis
    by (rule exI[of _ u]) (simp add: t u adc_core_result[OF d] adc_core_flags[OF d] r Let_def)
qed

text \<open>
  With an unsigned \<open>char\<close> (the ARM default) the overflow flag of ADC is right exactly
  when both operands are below 128, or both are at least 128 and their sum is below 384.
\<close>

theorem adc6502_overflow_unsigned_char:
  assumes "adc6502 s = Some t" "\<not> bit (flag_reg s) 3" "\<not> char_signed s" "load_value s = Some u"
  shows "(bit (flag_reg t) 6 \<longleftrightarrow>
            sint (a_reg s) + sint (value_v u) + carry_in s \<notin> {-128..127}) \<longleftrightarrow>
    (uint (a_reg s) < 128 \<and> uint (value_v u) < 128 \<or>
     128 \<le> uint (a_reg s) \<and> 128 \<le> uint (value_v u) \<and>
       uint (a_reg s) + uint (value_v u) + carry_in s < 384)"
proof -
  have c: "carry_in s = 0 \<or> carry_in s = 1" by (simp add: carry_in_def)
  have t: "t = adc_core u" using assms(1,4) by (auto simp: adc6502_def)
  note r = load_value_regs[OF assms(4)]
  have d: "\<not> bit (flag_reg u) 3" using assms(2) by (simp add: r)
  have "bit (flag_reg t) 6 \<longleftrightarrow> uint (a_reg s) + uint (value_v u) + carry_in s \<notin> {-128..127}"
    using adc_core_flags[OF d, of 6] assms(3) by (simp add: t r c_char_def)
  then show ?thesis using char_overflow[OF c, of "a_reg s" "value_v u"] by simp
qed

section \<open>Subtraction and comparison\<close>

lemma sbc_core_result:
  assumes "\<not> bit (flag_reg s) 3"
  shows "a_reg (sbc_core s) = word_of_int (uint (a_reg s) - uint (value_v s) - (1 - carry_in s))"
  using assms word_of_int_256[of "uint (a_reg s) - uint (value_v s) - (1 - carry_in s)"]
  by (simp add: sbc_core_def Let_def and_bit bit_flag_ops uint_carry uint_byte_xor algebra_simps)

lemma sbc_core_flags:
  assumes "\<not> bit (flag_reg s) 3" "n < 8"
  shows "bit (flag_reg (sbc_core s)) n =
    (if n = 0 then uint (a_reg s) \<ge> uint (value_v s) + (1 - carry_in s)
     else if n = 1 then a_reg (sbc_core s) = 0
     else if n = 6 then
       c_char s (a_reg s) + c_char s (value_v s XOR 0xFF) + 16 * carry_in s \<notin> {-0x80..0x7f}
     else if n = 7 then bit (a_reg (sbc_core s)) 7
     else bit (flag_reg s) n)"
  using assms
  by (auto simp: sbc_core_def Let_def and_bit bit_flag_ops bit_set_zn uint_carry c_char_def
      uint_byte_xor)

text \<open>
  C4: SBC outside decimal mode subtracts operand and borrow modulo 256, C says that no borrow
  was needed, Z and N describe the difference; V is computed from the carry shifted left by four.
\<close>

theorem sbc6502_spec:
  assumes "sbc6502 s = Some t" "\<not> bit (flag_reg s) 3"
  shows "\<exists>u. load_value s = Some u \<and>
    (let a = a_reg s; v = value_v u; c = carry_in s in
       a_reg t = word_of_int (uint a - uint v - (1 - c)) \<and>
       (bit (flag_reg t) 0 \<longleftrightarrow> uint a \<ge> uint v + (1 - c)) \<and>
       (bit (flag_reg t) 1 \<longleftrightarrow> a_reg t = 0) \<and>
       (bit (flag_reg t) 6 \<longleftrightarrow> c_char s a + c_char s (v XOR 0xFF) + 16 * c \<notin> {-128..127}) \<and>
       (bit (flag_reg t) 7 \<longleftrightarrow> bit (a_reg t) 7) \<and>
       (\<forall>n\<in>{2, 3, 4, 5}. bit (flag_reg t) n = bit (flag_reg s) n))"
proof -
  obtain u where u: "load_value s = Some u" and t: "t = sbc_core u"
    using assms(1) by (auto simp: sbc6502_def elim!: bindE)
  note r = load_value_regs[OF u]
  have d: "\<not> bit (flag_reg u) 3" using assms(2) by (simp add: r)
  show ?thesis
    by (rule exI[of _ u]) (simp add: t u sbc_core_result[OF d] sbc_core_flags[OF d] r Let_def)
qed

lemma compare6502_flags:
  assumes "n < 8"
  shows "bit (flag_reg (compare6502 r s)) n =
    (if n = 0 then value_v s \<le> r else if n = 1 then value_v s = r
     else if n = 7 then bit (r - value_v s) 7 else bit (flag_reg s) n)"
proof -
  have d: "(word_of_int (uint r + 0x100 - uint (value_v s)) :: byte) = r - value_v s"
    using word_of_int_256[of "uint r - uint (value_v s)"] by (simp add: algebra_simps)
  show ?thesis using assms
    by (auto simp: compare6502_def Let_def d bit_set_zn bit_flag_ops word_le_def)
qed

text \<open>
  The three compare instructions leave the registers alone and set C when the register is
  not below the operand, Z when they are equal and N from the difference.
\<close>

theorem compare6502_spec:
  assumes "(cmp6502 s = Some t \<and> r = a_reg s) \<or> (cpx6502 s = Some t \<and> r = x_reg s) \<or>
    (cpy6502 s = Some t \<and> r = y_reg s)"
  shows "\<exists>u. load_value s = Some u \<and>
    (bit (flag_reg t) 0 \<longleftrightarrow> value_v u \<le> r) \<and> (bit (flag_reg t) 1 \<longleftrightarrow> value_v u = r) \<and>
    (bit (flag_reg t) 7 \<longleftrightarrow> bit (r - value_v u) 7) \<and>
    (\<forall>n\<in>{2, 3, 4, 5, 6}. bit (flag_reg t) n = bit (flag_reg s) n) \<and>
    a_reg t = a_reg s \<and> x_reg t = x_reg s \<and> y_reg t = y_reg s"
proof -
  obtain u where u: "load_value s = Some u" and t: "t = compare6502 r u"
    using assms by (auto simp: cmp6502_def cpx6502_def cpy6502_def load_value_regs elim!: bindE)
  have reg: "a_reg t = a_reg u" "x_reg t = x_reg u" "y_reg t = y_reg u"
    by (simp_all add: t compare6502_def Let_def set_zn_def set_n_def set_z_def set_c_def)
  show ?thesis
    by (rule exI[of _ u]) (simp add: u t[symmetric] reg load_value_regs[OF u] compare6502_flags[where r = r and s = u, folded t])
qed

end
