(* ===== verification/NesCpuFlow.thy ===== *)
theory NesCpuFlow
  imports NesCpuSpec
begin

text \<open>
  Memory, rotations, subroutine and interrupt round trips, branches, and the clock: how many
  cycles one instruction is charged and when the loop of \<open>exec6502\<close> ends.
\<close>

section \<open>Work RAM\<close>

text \<open>
  Below \<open>$2000\<close> the address space is the 2 KB of work RAM seen four times: a byte written
  there is read back at every address with the same low eleven bits, and no other RAM address
  changes.
\<close>

theorem ram_mirror_roundtrip:
  assumes "nes_wf s" "unat a < 0x2000" "unat b < 0x2000" "put6502memory s a v = Some t"
  shows "get6502memory t b =
    (if unat a mod 0x800 = unat b mod 0x800 then Some (v, t)
     else map_option (\<lambda>(w, _). (w, t)) (get6502memory s b))"
proof -
  have p: "x AND 0xE000 = 0" if "unat x < 0x2000" for x :: word16
    using that unfolding page13_iff by simp
  show ?thesis using assms p[OF assms(2)] p[OF assms(3)]
    by (auto simp: put6502memory_def get6502memory_def unat_and_low11 wf_ram mem_rd_def mem_wr_def
        nth_list_update split: if_splits)
qed

section \<open>Rotations\<close>

lemma flag_merge: "bit (x AND 0xfe OR (y AND 0x01)) 0 = bit (y :: byte) 0"
  by (simp add: bit_or_iff bit_and_iff)

lemma uint_and_1: "uint ((x :: byte) AND 0x01) = of_bool (bit x 0)"
  by (simp add: and_one_eq mod_2_eq_odd bit_0)

lemma rola6502_regs:
  "\<exists>t. rola6502 s = Some t \<and> a_reg t = push_bit 1 (a_reg s) OR of_bool (bit (flag_reg s) 0) \<and>
     bit (flag_reg t) 0 = bit (a_reg s) 7"
  unfolding rola6502_def by (simp add: uint_and_1 flag_merge bit_set_zn bit_drop_bit_eq)

lemma rora6502_regs:
  "\<exists>t. rora6502 s = Some t \<and>
     a_reg t = drop_bit 1 (a_reg s) OR (if bit (flag_reg s) 0 then 0x80 else 0) \<and>
     bit (flag_reg t) 0 = bit (a_reg s) 0"
  unfolding rora6502_def by (simp add: uint_and_1 flag_merge bit_set_zn)

lemma rotate_bits:
  fixes a :: byte and c :: bool
  defines "r \<equiv> push_bit 1 a OR of_bool c"
  shows "drop_bit 1 r OR (if bit a 7 then 0x80 else 0) = a" "bit r 0 = c"
proof -
  show "drop_bit 1 r OR (if bit a 7 then 0x80 else 0) = a"
  proof (rule bit_word_eqI, goal_cases)
    case (1 n)
    then have "n < 8" by simp
    from byte_index[OF this] show ?case unfolding r_def bit_simps
      by (elim disjE) (simp_all add: bit_simps numeral_2_eq_2[symmetric])
  qed
  show "bit r 0 = c" unfolding r_def bit_or_iff bit_push_bit_iff by (simp add: bit_0)
qed

text \<open>
  Rotating the accumulator left and then right gives accumulator and carry back.
\<close>

theorem rotate_roundtrip:
  "\<exists>t u. rola6502 s = Some t \<and> rora6502 t = Some u \<and>
     a_reg u = a_reg s \<and> bit (flag_reg u) 0 = bit (flag_reg s) 0"
proof -
  obtain t where t: "rola6502 s = Some t"
      "a_reg t = push_bit 1 (a_reg s) OR of_bool (bit (flag_reg s) 0)"
      "bit (flag_reg t) 0 = bit (a_reg s) 7"
    using rola6502_regs by blast
  obtain u where u: "rora6502 t = Some u"
      "a_reg u = drop_bit 1 (a_reg t) OR (if bit (flag_reg t) 0 then 0x80 else 0)"
      "bit (flag_reg u) 0 = bit (a_reg t) 0"
    using rora6502_regs by blast
  show ?thesis using t(1) u(1)
    unfolding u(2,3) t(2,3) rotate_bits by (intro exI[of _ t] exI[of _ u]) (simp only: u t rotate_bits simp_thms)
qed

section \<open>Stack round trips\<close>

lemma stack_distinct_sym [simp]:
  "unat (b - 1 :: byte) = unat b \<longleftrightarrow> False" "unat (b - 2 :: byte) = unat b \<longleftrightarrow> False"
  "unat (b - 2 :: byte) = unat (b - 1) \<longleftrightarrow> False"
  by (simp_all add: word_unat_eq_iff[symmetric])

text \<open>
  PLA after PHA restores the accumulator and the stack pointer, wherever the pointer is
  (it wraps inside page one), and PLP after PHP restores the flags with bit five set.
\<close>

theorem push_pull_roundtrip:
  assumes "nes_wf s"
  shows "(\<exists>t u. pha6502 s = Some t \<and> pla6502 (t\<lparr>a_reg := x\<rparr>) = Some u \<and>
       a_reg u = a_reg s \<and> s_reg u = s_reg s) \<and>
    (\<exists>t u. php6502 s = Some t \<and> plp6502 (t\<lparr>flag_reg := x\<rparr>) = Some u \<and>
       flag_reg u = flag_reg s OR 0x20 \<and> s_reg u = s_reg s)"
  using stack_index_bound[of "s_reg s"] wf_ram[OF assms]
  by (simp add: pha6502_def pla6502_def php6502_def plp6502_def push6502_eq pull6502_eq
      set_zn_def set_n_def set_z_def)

text \<open>
  RTS after JSR continues behind the two operand bytes with the stack pointer restored.
\<close>

theorem call_return_roundtrip:
  assumes "nes_wf s" "jsr6502 s = Some t"
  shows "\<exists>u. rts6502 t = Some u \<and> pc_reg u = pc_reg s + 2 \<and> s_reg u = s_reg s"
proof -
  note len = wf_ram[OF assms(1)]
  let ?w = "pc_reg s + 1"
  define r where "r = ((ram6502 s)[256 + unat (s_reg s) := ucast (drop_bit 8 ?w)])
    [256 + unat (s_reg s - 1) := ucast (?w AND 0xff)]"
  have lr: "length r = 2048" by (simp add: r_def len)
  have hi: "r ! (256 + unat (s_reg s)) = ucast (drop_bit 8 ?w)"
    and lo: "r ! (256 + unat (s_reg s - 1)) = ucast (?w AND 0xff)"
    using stack_index_bound[of "s_reg s"] stack_index_bound[of "s_reg s - 1"]
    by (simp_all add: r_def len)
  define m where "m = s\<lparr>s_reg := s_reg s - 2, ram6502 := r\<rparr>"
  obtain c where c: "call_adrmode m = Some c" "t = c\<lparr>pc_reg := savepc c\<rparr>"
    using assms(2) by (auto simp: jsr6502_def push6502_eq len r_def m_def elim!: bindE)
  have rt: "ram6502 t = r" "s_reg t = s_reg s - 2"
    using call_adrmode_rel[OF c(1)] by (simp_all add: c(2) adr_rel_def m_def)
  have e: "s_reg s - 2 + 1 = s_reg s - 1" "s_reg s - 1 + 1 = s_reg s" by simp_all
  show ?thesis
    using pc_bytes[of ?w] by (simp add: rts6502_def pull6502_eq rt lr e lo hi)
qed

text \<open>Three pushes, the interrupt flag, the vector.\<close>

lemma interrupt6502_eq:
  assumes "nes_wf s" "0xC000 \<le> unat w" "0xC000 \<le> unat (w + 1)"
  shows "interrupt6502 w s = Some (s\<lparr>s_reg := s_reg s - 3, flag_reg := flag_reg s OR 0x04,
    ram6502 := (ram6502 s)[256 + unat (s_reg s) := ucast (drop_bit 8 (pc_reg s)),
        256 + unat (s_reg s - 1) := ucast (pc_reg s AND 0xff),
        256 + unat (s_reg s - 2) := flag_reg s],
    pc_reg := ucast (rom_byte s w) OR push_bit 8 (ucast (rom_byte s (w + 1)))\<rparr>)"
proof -
  note len = wf_ram[OF assms(1)]
  define r where "r = (ram6502 s)[256 + unat (s_reg s) := ucast (drop_bit 8 (pc_reg s)),
        256 + unat (s_reg s - 1) := ucast (pc_reg s AND 0xff),
        256 + unat (s_reg s - 2) := flag_reg s]"
  have wf: "nes_wf (s\<lparr>s_reg := s_reg s - 3, ram6502 := r\<rparr>)"
    using assms(1) by (simp add: nes_wf_def r_def)
  have rb: "rom_byte (s\<lparr>s_reg := s_reg s - 3, ram6502 := r, flag_reg := f, pc_reg := p\<rparr>) = rom_byte s"
    "rom_byte (s\<lparr>s_reg := s_reg s - 3, ram6502 := r, flag_reg := f\<rparr>) = rom_byte s" for f p
    by (simp_all add: rom_byte_def fun_eq_iff)
  show ?thesis
    by (simp add: interrupt6502_def push6502_eq len r_def[symmetric] get_rom wf assms(2,3) rb)
qed

text \<open>
  C5: the NMI never faults on a well-formed state, it continues at the vector in ROM, and the
  RTI that ends the handler continues where the program was, with the flags (bit five set) and
  the stack pointer of before.
\<close>

theorem interrupt_return_roundtrip:
  assumes "nes_wf s"
  shows "\<exists>t u. nmi6502 s = Some t \<and>
    pc_reg t = ucast (rom_byte s 0xfffa) OR push_bit 8 (ucast (rom_byte s 0xfffb)) \<and>
    rti6502 t = Some u \<and> pc_reg u = pc_reg s \<and> flag_reg u = flag_reg s OR 0x20 \<and>
    s_reg u = s_reg s"
proof -
  note len = wf_ram[OF assms]
  have e: "s_reg s - 3 + 1 = s_reg s - 2" "s_reg s - 2 + 1 = s_reg s - 1" "s_reg s - 1 + 1 = s_reg s"
    by simp_all
  have b: "unat (s_reg s) < 1792" "unat (s_reg s - 1) < 1792" "unat (s_reg s - 2) < 1792"
    using stack_index_bound[of "s_reg s"] stack_index_bound[of "s_reg s - 1"]
      stack_index_bound[of "s_reg s - 2"] by simp_all
  show ?thesis
    using pc_bytes[of "pc_reg s"]
    by (simp add: nmi6502_def interrupt6502_eq[OF assms] rti6502_def pull6502_eq len e b)
qed

section \<open>Branches\<close>

lemma offset_sign: "(if (ucast (v :: byte) :: word16) AND 0x80 \<noteq> 0 then ucast v - 0x100 else ucast v) = (scast v :: word16)"
proof -
  have "((ucast v :: word16) AND 0x80 = 0) = (\<not> bit v 7)"
    using and_exp_eq_0_iff_not_bit[of "ucast v :: word16" 7] by (simp add: bit_simps)
  moreover have "(scast v :: word16) = (if uint v < 128 then ucast v else ucast v - 0x100)"
    unfolding scast_eq ucast_eq sint_byte by (simp only: of_int_diff of_int_numeral split: if_split) simp
  ultimately show ?thesis by (simp only: bit7 if_not_P if_P not_le) simp
qed

lemma relative6502_eq:
  assumes "get6502memory s (pc_reg s) = Some (v, s')"
  shows "\<exists>t. relative6502 s = Some t \<and> pc_reg t = pc_reg s + 1 \<and> savepc t = scast v"
proof -
  have p: "pc_reg s' = pc_reg s" using get6502memory_frame[OF assms] by auto
  show ?thesis using offset_sign[of v, symmetric] by (simp add: relative6502_def assms p)
qed

text \<open>Which flag each branch tests, and the value it is taken on.\<close>

definition branch_table :: "(instr_fn \<times> nat \<times> bool) list" where
  "branch_table = [(I_bpl, 7, False), (I_bmi, 7, True), (I_bvc, 6, False), (I_bvs, 6, True),
     (I_bcc, 0, False), (I_bcs, 0, True), (I_bne, 1, False), (I_beq, 1, True)]"

lemma branch6502_eq:
  assumes "adrmode (cur_op s) = A_relative" "get6502memory s (pc_reg s) = Some (v, s')"
  shows "\<exists>t. branch6502 c s = Some t \<and> pc_reg t = pc_reg s + 1 + (if c then scast v else 0)"
  using relative6502_eq[OF assms(2)] get6502memory_frame[OF assms(2)]
  by (auto simp: branch6502_def call_adrmode_def assms)

text \<open>
  A relative branch goes to the address behind its operand, plus the operand as a signed
  offset when the flag it tests has the value it waits for.
\<close>

theorem branch_target:
  assumes "(i, n, b) \<in> set branch_table" "adrmode (cur_op s) = A_relative"
    "get6502memory s (pc_reg s) = Some (v, s')"
  shows "\<exists>t. run_instruction i s = Some t \<and>
    pc_reg t = pc_reg s + 1 + (if bit (flag_reg s) n = b then scast v else 0)"
proof -
  have "run_instruction i s = branch6502 (bit (flag_reg s) n = b) s"
    using assms(1)
    by (auto simp: branch_table_def bpl6502_def bmi6502_def bvc6502_def bvs6502_def bcc6502_def
        bcs6502_def bne6502_def beq6502_def and_bit)
  then show ?thesis using branch6502_eq[OF assms(2,3)] by simp
qed

text \<open>
  Opcode \<open>$70\<close> (BVS) stands in the table with the implied mode, so a taken branch adds the
  effective address some earlier instruction left in \<open>savepc\<close> and ignores its operand.
\<close>

theorem bvs_uses_stale_address:
  assumes "opcode s = 0x70" "bit (flag_reg s) 6"
  shows "run_instruction (instruction (cur_op s)) s =
    Some (s\<lparr>pc_reg := pc_reg s + savepc s, clockticks6502 := clockticks6502 s + 1\<rparr>)"
proof -
  have "opcodetable ! 112 = OP 2 I_bvs A_implied" by code_simp
  then have "cur_op s = OP 2 I_bvs A_implied" by (simp add: cur_op_def assms(1))
  then show ?thesis
    by (simp add: bvs6502_def branch6502_def and_bit assms(2) call_adrmode_def implied6502_def)
qed

end
