(* ===== verification/NesClock.thy ===== *)
theory NesClock
  imports NesCpuFlow
begin

text \<open>
  The clock of \<open>exec6502\<close>: what one instruction is charged, the bounds of the clock when the
  loop returns, when it returns, and a program for which it never does.
\<close>

section \<open>One instruction\<close>

text \<open>
  The instruction that led to a state: its byte is in \<open>opcode\<close>, its effective address in \<open>savepc\<close>. A store
  to \<open>$4014\<close> starts a sprite DMA.
\<close>

definition dma_store :: "nes \<Rightarrow> bool" where
  "dma_store t \<longleftrightarrow> instruction (cur_op t) \<in> stores \<and> savepc t = 0x4014"

lemma step_clock:
  assumes "cpu_step s = Some t"
  shows "(\<exists>s1. get6502memory s (pc_reg s) = Some (opcode t, s1)) \<and>
    clockticks6502 t - clockticks6502 s + (if dma_store t then 512 else 0) \<in> {ticks (cur_op t)..ticks (cur_op t) + 3} \<and>
    2 \<le> ticks (cur_op t) \<and> ticks (cur_op t) \<le> 7"
proof -
  obtain op s1 u where g: "get6502memory s (pc_reg s) = Some (op, s1)"
    and u: "run_instruction (instruction (cur_op (s1\<lparr>opcode := op, pc_reg := pc_reg s1 + 1\<rparr>)))
        (s1\<lparr>opcode := op, pc_reg := pc_reg s1 + 1\<rparr>) = Some u"
    and t: "t = u\<lparr>clockticks6502 := clockticks6502 u + ticks (cur_op u)\<rparr>"
    using assms by (auto simp: cpu_step_def elim!: bindE)
  have c: "clockticks6502 s1 = clockticks6502 s" using get6502memory_frame[OF g] by auto
  note r = run_instruction_rel[OF u, unfolded instr_rel_def]
  have o: "opcode u = op" using r by (simp add: ctl_def)
  have "2 \<le> ticks (cur_op u)" "ticks (cur_op u) \<le> 7"
    using opcodetable_ticks[of "unat (opcode u)"] by (simp_all add: cur_op_def)
  then show ?thesis using r c g o by (auto simp: t dma_store_def cur_op_def)
qed

text \<open>
  C6: an instruction advances the clock by the cycles of the opcode table and at most three more; exactly
  if it stored to \<open>$4014\<close> and so started a sprite DMA, the clock is set back by 512 cycles on top of that.
\<close>

theorem cpu_step_cycles:
  assumes "cpu_step s = Some t"
  shows "(\<exists>s1. get6502memory s (pc_reg s) = Some (opcode t, s1)) \<and>
    (\<exists>c\<in>{ticks (cur_op t)..ticks (cur_op t) + 3}. 2 \<le> c \<and> c \<le> 10 \<and>
       clockticks6502 t = clockticks6502 s + c - (if instruction (cur_op t) \<in> stores \<and> savepc t = 0x4014 then 512 else 0))"
  using step_clock[OF assms] unfolding dma_store_def
  by (intro conjI bexI[of _ "clockticks6502 t - clockticks6502 s + (if instruction (cur_op t) \<in> stores \<and> savepc t = 0x4014 then 512 else 0)"]) auto

lemma step_clock_bounds:
  assumes "cpu_step s = Some t"
  shows "clockticks6502 t \<le> clockticks6502 s + 10"
    "clockticks6502 s + 2 \<le> clockticks6502 t + (if dma_store t then 512 else 0)"
  using step_clock[OF assms] by (auto split: if_splits)

lemma check_interrupts_clock:
  "check_interrupts s = Some t \<Longrightarrow> clockticks6502 t = clockticks6502 s"
  by (auto simp: check_interrupts_def nmi6502_def irq6502_def interrupt6502_def elim!: bindE
      dest!: push_frame get6502memory_frame split: if_split_asm)

section \<open>The clock at the return\<close>

interpretation exec_clock: guarded_loop "\<lambda>s. T > clockticks6502 s" cpu_step
    "\<lambda>s. clockticks6502 s \<le> max (T + 9) c" for T c
  using step_clock_bounds(1) by unfold_locales force

text \<open>
  When \<open>exec6502\<close> returns, the cycles of its time slice have been used up and at most nine
  more, counted from zero for the next slice (or it was that far ahead already).
\<close>

theorem exec6502_clock:
  assumes "exec6502 fuel T s = Returned t"
  shows "0 \<le> clockticks6502 t \<and> clockticks6502 t \<le> max 9 (clockticks6502 s - T)"
proof -
  obtain u v where u: "check_interrupts s = Some u" and v: "exec_loop fuel T u = Returned v"
    and t: "t = v\<lparr>clockticks6502 := clockticks6502 v - T\<rparr>"
    using assms by (auto simp: exec6502_def split: option.splits loop_result.splits)
  have "clockticks6502 v \<le> max (T + 9) (clockticks6502 s) \<and> \<not> T > clockticks6502 v"
    using exec_clock.returned_post[OF v[unfolded exec_loop_def], of "clockticks6502 s"]
    by (simp add: check_interrupts_clock[OF u])
  then show ?thesis by (auto simp: t)
qed

section \<open>Return\<close>

text \<open>
  The sprite DMAs among the next \<open>n\<close> instructions, and whether none of these instructions, as long as the
  time slice lasts, makes an access the memory map does not have.
\<close>

fun dma_steps :: "nat \<Rightarrow> nes \<Rightarrow> nat" where
  "dma_steps 0 s = 0"
| "dma_steps (Suc n) s = (case cpu_step s of None \<Rightarrow> 0
     | Some t \<Rightarrow> (if dma_store t then 1 else 0) + dma_steps n t)"

fun no_fault :: "nat \<Rightarrow> int \<Rightarrow> nes \<Rightarrow> bool" where
  "no_fault 0 T s \<longleftrightarrow> True"
| "no_fault (Suc n) T s \<longleftrightarrow> (T > clockticks6502 s \<longrightarrow> (case cpu_step s of None \<Rightarrow> False | Some t \<Rightarrow> no_fault n T t))"

lemma loop_returns:
  "\<lbrakk>no_fault n T s; T - clockticks6502 s + 512 * int (dma_steps n s) \<le> 2 * int n\<rbrakk> \<Longrightarrow>
     \<exists>t. run_loop n (\<lambda>s. T > clockticks6502 s) cpu_step s = Returned t"
proof (induction n arbitrary: s)
  case (Suc n)
  show ?case
  proof (cases "T > clockticks6502 s")
    case True
    then obtain u where u: "cpu_step s = Some u" "no_fault n T u" using Suc.prems(1) by (auto split: option.splits)
    have "T - clockticks6502 u + 512 * int (dma_steps n u) \<le> 2 * int n"
      using Suc.prems(2) step_clock_bounds(2)[OF u(1)] by (auto simp: u(1) split: if_splits)
    from Suc.IH[OF u(2) this] show ?thesis using True u(1) by simp
  qed simp
qed simp

text \<open>
  C7: if none of the instructions of the time slice faults and at most \<open>D\<close> of them start a sprite DMA,
  \<open>exec6502\<close> returns: a bound of \<open>(T - clock + 512 D) / 2\<close> instructions is enough. All cycles of the slice
  are used up then, and at most nine more (unless the clock was that far ahead before).
\<close>

theorem exec6502_terminates:
  assumes "check_interrupts s = Some u" "no_fault fuel T u" "dma_steps fuel u \<le> D"
    "T - clockticks6502 s + 512 * int D \<le> 2 * int fuel"
  shows "\<exists>t. exec6502 fuel T s = Returned t \<and> 0 \<le> clockticks6502 t \<and> clockticks6502 t \<le> max 9 (clockticks6502 s - T)"
proof -
  have "T - clockticks6502 u + 512 * int (dma_steps fuel u) \<le> 2 * int fuel"
    using assms(3,4) check_interrupts_clock[OF assms(1)] by simp
  then obtain t where "exec_loop fuel T u = Returned t" using loop_returns[OF assms(2)] unfolding exec_loop_def by blast
  then have "exec6502 fuel T s = Returned (t\<lparr>clockticks6502 := clockticks6502 t - T\<rparr>)" by (simp add: exec6502_def assms(1))
  then show ?thesis using exec6502_clock by blast
qed

section \<open>No return\<close>

text \<open>The program \<open>$8000: STA $4014; $8003: JMP $8000\<close> at the start of the first bank.\<close>

definition dma_loop_rom :: "nes \<Rightarrow> bool" where
  "dma_loop_rom s \<longleftrightarrow> (\<forall>k\<in>{0..<6}. rom_file s ! (nat (prg_rombank0 s) + k) =
     [0x8D, 0x14, 0x40, 0x4C, 0x00, 0x80] ! k)"

lemma get_bank0:
  assumes "nes_wf s" "k < 0x2000"
  shows "get6502memory s (0x8000 + of_nat k) = Some (rom_file s ! (nat (prg_rombank0 s) + k), s)"
proof -
  have u: "unat (0x8000 + of_nat k :: word16) = 0x8000 + k"
    using assms(2) by (simp add: unat_word_ariths unat_of_nat)
  have "uint (0x8000 + of_nat k :: word16) = int (unat (0x8000 + of_nat k :: word16))" by simp
  then have ui: "uint (0x8000 + of_nat k :: word16) = 0x8000 + int k" unfolding u by simp
  have p: "(0x8000 + of_nat k :: word16) AND 0xE000 = 0x8000"
    unfolding page13_iff u using assms(2) by simp
  have "mem_rd_at (rom_file s) (prg_rombank0 s + int k) = Some (rom_file s ! nat (prg_rombank0 s + int k))"
    using assms by (intro mem_rd_at_Some) (simp_all add: nes_wf_def)
  moreover have "nat (prg_rombank0 s + int k) = nat (prg_rombank0 s) + k"
    using assms(1) by (simp add: nes_wf_def nat_add_distrib)
  ultimately show ?thesis by (simp add: get6502memory_def p ui)
qed

lemma dma_loop_fetch:
  assumes "nes_wf s" "dma_loop_rom s"
  shows "get6502memory s 0x8000 = Some (0x8D, s)" "get6502memory s 0x8001 = Some (0x14, s)"
    "get6502memory s 0x8002 = Some (0x40, s)" "get6502memory s 0x8003 = Some (0x4C, s)"
    "get6502memory s 0x8004 = Some (0x00, s)" "get6502memory s 0x8005 = Some (0x80, s)"
  using get_bank0[OF assms(1), of 0] get_bank0[OF assms(1), of 1] get_bank0[OF assms(1), of 2]
    get_bank0[OF assms(1), of 3] get_bank0[OF assms(1), of 4] get_bank0[OF assms(1), of 5]
    assms(2)
  by (simp_all add: dma_loop_rom_def atLeastLessThan_nat_numeral)

definition dma_loop :: "int \<Rightarrow> nes \<Rightarrow> bool" where
  "dma_loop T s \<longleftrightarrow> nes_wf s \<and> dma_loop_rom s \<and> dma_page_ok (a_reg s) \<and>
     (pc_reg s = 0x8000 \<and> clockticks6502 s < T \<or> pc_reg s = 0x8003 \<and> clockticks6502 s + 3 < T)"

lemma dma_loop_rom_upd [simp]:
  "dma_loop_rom (s\<lparr>opcode := b\<rparr>) = dma_loop_rom s" "dma_loop_rom (s\<lparr>pc_reg := w\<rparr>) = dma_loop_rom s"
  "dma_loop_rom (s\<lparr>savepc := w\<rparr>) = dma_loop_rom s" "dma_loop_rom (s\<lparr>ppu := p\<rparr>) = dma_loop_rom s"
  "dma_loop_rom (s\<lparr>clockticks6502 := n\<rparr>) = dma_loop_rom s"
  by (simp_all add: dma_loop_rom_def)

lemma dma_loop_ops: "opcodetable ! 141 = OP 4 I_sta A_abs" "opcodetable ! 76 = OP 3 I_jmp A_abs"
  by code_simp+

lemma dma_loop_sta:
  assumes "nes_wf s" "dma_loop_rom s" "dma_page_ok (a_reg s)" "pc_reg s = 0x8000"
  shows "\<exists>t. cpu_step s = Some t \<and> nes_wf t \<and> dma_loop_rom t \<and> a_reg t = a_reg s \<and>
    pc_reg t = 0x8003 \<and> clockticks6502 t = clockticks6502 s - 508"
proof -
  let ?m = "s\<lparr>opcode := 0x8D, savepc := 0x4014, pc_reg := 0x8003\<rparr>"
  have "nes_wf ?m" using assms(1) by simp
  then obtain b where b: "SprDMA (a_reg s) ?m = Some (?m\<lparr>ppu := b, clockticks6502 := clockticks6502 s - 512\<rparr>)"
    using SprDMA_None[of ?m "a_reg s"] assms(3) by (auto simp: SprDMA_def elim!: bindE)
  show ?thesis
    using assms b SprDMA_wf[OF \<open>nes_wf ?m\<close> b]
    by (simp add: cpu_step_def cur_op_def dma_loop_ops sta6502_def call_adrmode_def abs6502_def
        get6502word_def dma_loop_fetch put6502memory_def)
qed

lemma dma_loop_jmp:
  assumes "nes_wf s" "dma_loop_rom s" "pc_reg s = 0x8003"
  shows "\<exists>t. cpu_step s = Some t \<and> nes_wf t \<and> dma_loop_rom t \<and> a_reg t = a_reg s \<and>
    pc_reg t = 0x8000 \<and> clockticks6502 t = clockticks6502 s + 3"
  using assms
  by (simp add: cpu_step_def cur_op_def dma_loop_ops jmp6502_def call_adrmode_def abs6502_def
      get6502word_def dma_loop_fetch)

lemma dma_loop_step: "dma_loop T s \<Longrightarrow> \<exists>t. cpu_step s = Some t \<and> dma_loop T t"
  using dma_loop_sta[of s] dma_loop_jmp[of s] by (fastforce simp: dma_loop_def)

text \<open>
  Since a sprite DMA sets the clock back instead of charging its 512 cycles, a program that
  keeps starting DMAs keeps \<open>exec6502\<close> in its loop for ever: no number of instructions is enough.
\<close>

theorem exec6502_dma_runs_forever:
  assumes "dma_loop T s" "\<not> NMI_Flag s" "\<not> IRQ_Flag s"
  shows "\<exists>t. exec6502 fuel T s = Running t"
proof -
  have "\<exists>t. run_loop n (\<lambda>s. T > clockticks6502 s) cpu_step s = Running t" if "dma_loop T s" for n s
    using that
  proof (induction n arbitrary: s)
    case (Suc n)
    then obtain t where "cpu_step s = Some t" "dma_loop T t" using dma_loop_step by blast
    then show ?case using Suc.IH[of t] Suc.prems by (auto simp: dma_loop_def)
  qed (auto simp: dma_loop_def)
  from this[OF assms(1), of fuel] show ?thesis
    by (auto simp: exec6502_def exec_loop_def check_interrupts_def assms(2,3))
qed

end
