(* ===== verification/NesRender.thy ===== *)
theory NesRender
  imports NesPpu
begin

text \<open>
  The display half of \<open>nes-old/PPU.c\<close>: the colour table, one line of background, the sprites on
  a line, the sprite-zero collision test and \<open>NES_RenderLine\<close>, which composes a line in
  \<open>Buffer_scanline\<close> (272 cells, eight of margin on either side) and copies 256 of them into the
  frame buffer of the display. The frame buffer is \<open>framebuffer\<close>, 640 by 480 pixels of 16 bits.
\<close>

section \<open>Colours\<close>

definition NES_Color_Palette :: "word16 list" where
  "NES_Color_Palette = [
    0x73AE, 0x20D1, 0x0015, 0x4013, 0x880E, 0xA802, 0xA000, 0x7840,
    0x4160, 0x0220, 0x0280, 0x01E2, 0x19EB, 0x0000, 0x0000, 0x0000,
    0xBDF7, 0x039D, 0x21DD, 0x801E, 0xB817, 0xE00B, 0xD940, 0xCA61,
    0x8B80, 0x04A0, 0x0540, 0x0487, 0x0411, 0x0000, 0x0000, 0x0000,
    0xFFFF, 0x3DFF, 0x5CBF, 0xA45F, 0xF3DF, 0xFBB6, 0xFBAC, 0xFCC7,
    0xF5E7, 0x8682, 0x4EE9, 0x5FD3, 0x075B, 0x0000, 0x0000, 0x0000,
    0xFFFF, 0xAF3F, 0xC6BF, 0xD65F, 0xFE3F, 0xFE3B, 0xFDF6, 0xFED5,
    0xFF34, 0xE7F4, 0xAF97, 0xB7F9, 0x9FFE, 0x0000, 0x0000, 0x0000]"

lemma length_NES_Color_Palette: "length NES_Color_Palette = 64"
  by (simp add: NES_Color_Palette_def)

text \<open>\<open>NES_Color_Palette[pal[num]]\<close>; palette bytes are what the program stored, not masked.\<close>

definition pal_color :: "byte list \<Rightarrow> byte \<Rightarrow> word16 option" where
  "pal_color pal num = do { c \<leftarrow> mem_rd pal (unat num); mem_rd NES_Color_Palette (unat c) }"

definition put_pixel :: "nat \<Rightarrow> word16 \<Rightarrow> ppu \<Rightarrow> ppu option" where
  "put_pixel i c p = do { b \<leftarrow> mem_wr (Buffer_scanline p) i c; Some (p\<lparr>Buffer_scanline := b\<rparr>) }"

section \<open>Sprite zero\<close>

definition bg_pattern :: "ppu \<Rightarrow> int" where
  "bg_pattern p = (if ppu_R0 p AND BG_PATTERN_ADDR \<noteq> 0 then patterntable1 (PPU_Mem p)
                   else patterntable0 (PPU_Mem p))"

definition spr_pattern :: "ppu \<Rightarrow> int" where
  "spr_pattern p = (if ppu_R0 p AND SPR_PATTERN_ADDR \<noteq> 0 then patterntable1 (PPU_Mem p)
                    else patterntable0 (PPU_Mem p))"

text \<open>\<open>PPU_Mem.name_table[n][k]\<close>.\<close>

definition nt_rd :: "ppu \<Rightarrow> byte \<Rightarrow> int \<Rightarrow> byte option" where
  "nt_rd p n k = mem_rd_at (NameTable p) (int (name_table (PPU_Mem p) ! unat n) + k)"

text \<open>Both bit planes of one pattern line, merged: the pixels that are not transparent.\<close>

definition pattern_mask :: "byte list \<Rightarrow> int \<Rightarrow> int \<Rightarrow> byte option" where
  "pattern_mask rom tab a = do {
     lo \<leftarrow> mem_rd_at rom (tab + a); hi \<leftarrow> mem_rd_at rom (tab + a + 8); Some (lo OR hi) }"

text \<open>The loop that is meant to mirror the eight pixels.\<close>

definition hflip_loop :: "byte \<Rightarrow> byte" where
  "hflip_loop d = fold (\<lambda>i temp. push_bit i (temp OR (drop_bit i d AND 1))) [0..<8] 0"

definition NES_GetSpr0HitFlag :: "byte list \<Rightarrow> int \<Rightarrow> ppu \<Rightarrow> ppu option" where
  "NES_GetSpr0HitFlag rom y_axes p = (let
     s0 = sprite p 0;
     spr_size = (if ppu_R0 p AND R0_SPR_SIZE \<noteq> 0 then 0x0F else 0x07 :: int);
     dy_axes = y_axes - uint (spr_y s0 + 1)
     in if dy_axes \<noteq> dy_axes AND spr_size then Some p else (let
       nNameTable = ppu_R0 p AND R0_NAME_TABLE;
       tab = bg_pattern p;
       y_scroll = y_axes + uint (PPU_BG_VScrlOrg p);
       (y_scroll, nNameTable) = (if y_scroll > 255 then (y_scroll - 256, nNameTable XOR NAME_TABLE_V_MASK)
                                 else (y_scroll, nNameTable));
       y_TitleLine = uint (word_of_int (y_scroll div 8) :: byte);
       x_TitleLine = uint (word_of_int ((uint (PPU_BG_HScrlOrg p) + uint (spr_x s0)) div 8) :: byte);
       dy_axes = y_scroll AND 7;
       dx_axes = unat (PPU_BG_HScrlOrg p AND 7);
       nNameTable = (if x_TitleLine > 31 then nNameTable XOR NAME_TABLE_H_MASK else nNameTable)
       in do {
         num \<leftarrow> nt_rd p nNameTable (y_TitleLine * 32 + x_TitleLine);
         BG_Data0 \<leftarrow> pattern_mask rom tab (uint num * 16 + dy_axes);
         nNameTable \<leftarrow> Some (if x_TitleLine + 1 > 31 then nNameTable XOR NAME_TABLE_H_MASK else nNameTable);
         num \<leftarrow> nt_rd p nNameTable (y_TitleLine * 32 + x_TitleLine + 1);
         BG_Data1 \<leftarrow> pattern_mask rom tab (uint num * 16 + dy_axes);
         BG_Data \<leftarrow> Some (push_bit dx_axes BG_Data0 OR drop_bit dx_axes BG_Data1);
         dy_axes \<leftarrow> Some (if attr s0 AND SPR_VFLIP \<noteq> 0 then spr_size - dy_axes else dy_axes);
         Spr0_Data \<leftarrow>
           (if ppu_R2 p AND R0_SPR_SIZE \<noteq> 0 then
              pattern_mask rom
                (if t_num s0 AND 1 \<noteq> 0 then patterntable1 (PPU_Mem p) else patterntable0 (PPU_Mem p))
                (uint (t_num s0 AND 0xFE) * 16 + dy_axes)
            else pattern_mask rom (spr_pattern p) (uint (t_num s0) * 16 + dy_axes));
         Spr0_Data \<leftarrow> Some (if attr s0 AND SPR_HFLIP \<noteq> 0 then hflip_loop Spr0_Data else Spr0_Data);
         Some (if Spr0_Data AND BG_Data \<noteq> 0 then p\<lparr>SpriteHitFlag := True\<rparr> else p) }))"

section \<open>Background\<close>

text \<open>One pixel of a tile: bit \<open>i\<close> of both planes below the attribute; colour 0 is transparent.\<close>

definition bg_pixel_step :: "byte \<Rightarrow> byte \<Rightarrow> byte \<Rightarrow> nat \<Rightarrow> nat \<times> ppu \<Rightarrow> (nat \<times> ppu) option" where
  "bg_pixel_step L_byte H_byte BG_attr_value i = (\<lambda>(cnt, p). (let
     num = BG_attr_value OR (drop_bit i L_byte AND 1) OR push_bit 1 (drop_bit i H_byte AND 1) in do {
     p \<leftarrow> (if num AND 3 \<noteq> 0
           then do { c \<leftarrow> pal_color (image_palette (PPU_Mem p)) num; put_pixel cnt c p } else Some p);
     Some (cnt + 1, p) }))"

text \<open>The body the two column loops share.\<close>

definition bg_tile :: "byte list \<Rightarrow> byte \<Rightarrow> int \<Rightarrow> int \<Rightarrow> nat \<Rightarrow> nat \<times> ppu \<Rightarrow> (nat \<times> ppu) option" where
  "bg_tile rom nNameTable y_TitleLine dy_axes x_TitleLine = (\<lambda>(cnt, p). do {
     num \<leftarrow> nt_rd p nNameTable (y_TitleLine * 32 + int x_TitleLine);
     L_byte \<leftarrow> mem_rd_at rom (bg_pattern p + (uint num * 16 + dy_axes));
     H_byte \<leftarrow> mem_rd_at rom (bg_pattern p + (uint num * 16 + dy_axes + 8));
     a \<leftarrow> nt_rd p nNameTable (960 + y_TitleLine div 4 * 8 + int x_TitleLine div 4);
     let sh = nat (push_bit 1 (y_TitleLine AND 2) OR (int x_TitleLine AND 2));
         BG_attr_value = push_bit 2 (drop_bit sh a AND 3) in
     fold_opt (bg_pixel_step L_byte H_byte BG_attr_value) (rev [0..<8]) (cnt, p) })"

definition NES_RenderBGLine :: "byte list \<Rightarrow> int \<Rightarrow> ppu \<Rightarrow> ppu option" where
  "NES_RenderBGLine rom y_axes p = (let
     nNameTable = ppu_R0 p AND R0_NAME_TABLE;
     y_scroll = y_axes + uint (PPU_BG_VScrlOrg p);
     (y_scroll, nNameTable) = (if y_scroll > 255 then (y_scroll - 256, nNameTable XOR NAME_TABLE_V_MASK)
                               else (y_scroll, nNameTable));
     y_TitleLine = y_scroll div 8;
     dy_axes = y_scroll AND 7;
     dx_axes = unat (PPU_BG_HScrlOrg p AND 7);
     h = unat (drop_bit 3 (PPU_BG_HScrlOrg p))
     in do {
       st \<leftarrow> fold_opt (bg_tile rom nNameTable y_TitleLine dy_axes) [h..<32] (8 - dx_axes, p);
       st \<leftarrow> fold_opt (bg_tile rom (nNameTable XOR NAME_TABLE_H_MASK) y_TitleLine dy_axes) [0..<h + 1] st;
       Some (snd st) })"

section \<open>Sprites\<close>

definition spr_pixel_step ::
    "SpriteType \<Rightarrow> byte \<Rightarrow> byte \<Rightarrow> nat \<Rightarrow> ppu \<Rightarrow> ppu option" where
  "spr_pixel_step s L_byte H_byte i p = (let
     k = (if attr s AND SPR_HFLIP \<noteq> 0 then i else 7 - i);
     num = (drop_bit k L_byte AND 1) OR push_bit 1 (drop_bit k H_byte AND 1) in
     if num = 0 then Some p
     else do {
       c \<leftarrow> pal_color (sprite_palette (PPU_Mem p)) (num OR push_bit 2 (attr s AND 3));
       put_pixel (unat (spr_x s) + i + 8) c p })"

text \<open>\<open>R1_SPR_LEFT8 == 0\<close> binds tighter than \<open>&\<close> in the source, and is 0.\<close>

definition NES_RenderSprPattern ::
    "byte list \<Rightarrow> SpriteType \<Rightarrow> int \<Rightarrow> word16 \<Rightarrow> byte \<Rightarrow> ppu \<Rightarrow> ppu option" where
  "NES_RenderSprPattern rom s tab title_addr dy_axes p = (let
     clip = ppu_R1 p AND (if R1_SPR_LEFT8 = 0 then 1 else 0) \<noteq> 0 \<and> spr_x s < 8;
     dx_axes = (if clip then 8 - unat (spr_x s) else 0) in
     if clip \<and> dx_axes = 0 then Some p
     else (let dy_axes = (if attr s AND SPR_VFLIP \<noteq> 0 then 7 - dy_axes else dy_axes) in do {
       L_byte \<leftarrow> mem_rd_at rom (tab + (uint title_addr + uint dy_axes));
       H_byte \<leftarrow> mem_rd_at rom (tab + (uint title_addr + uint dy_axes + 8));
       fold_opt (spr_pixel_step s L_byte H_byte) (rev [dx_axes..<8]) p }))"

definition NES_RenderSprite88 :: "byte list \<Rightarrow> SpriteType \<Rightarrow> int \<Rightarrow> ppu \<Rightarrow> ppu option" where
  "NES_RenderSprite88 rom s dy_axes p =
     NES_RenderSprPattern rom s (spr_pattern p) (push_bit 4 (ucast (t_num s))) (word_of_int dy_axes) p"

definition NES_RenderSprite16 :: "byte list \<Rightarrow> SpriteType \<Rightarrow> int \<Rightarrow> ppu \<Rightarrow> ppu option" where
  "NES_RenderSprite16 rom s dy_axes p =
     (if t_num s AND 1 \<noteq> 0 then
        (if dy_axes < 8
         then NES_RenderSprPattern rom s (patterntable1 (PPU_Mem p))
                (push_bit 4 (ucast (t_num s AND 0xFE))) (word_of_int dy_axes) p
         else NES_RenderSprPattern rom s (patterntable1 (PPU_Mem p))
                (push_bit 4 (ucast (t_num s))) (word_of_int dy_axes AND 7) p)
      else
        (if dy_axes < 8
         then NES_RenderSprPattern rom s (patterntable0 (PPU_Mem p))
                (push_bit 4 (ucast (t_num s))) (word_of_int dy_axes) p
         else NES_RenderSprPattern rom s (patterntable0 (PPU_Mem p))
                (push_bit 4 (ucast (t_num s OR 1))) (word_of_int dy_axes AND 7) p))"

section \<open>One line\<close>

text \<open>
  The loop over the sprites, from 63 down to 0, for the ones behind the background and for the
  ones in front of it; \<open>cnt\<close> is \<open>render_spr_num\<close>. The two loops compute the distance to the
  sprite's top line with different types.
\<close>

fun render_sprites ::
    "byte list \<Rightarrow> bool \<Rightarrow> int \<Rightarrow> int \<Rightarrow> nat list \<Rightarrow> nat \<Rightarrow> ppu \<Rightarrow> ppu option" where
  "render_sprites rom behind y_axes spr_size [] cnt p = Some p"
| "render_sprites rom behind y_axes spr_size (i # is) cnt p = (let s = sprite p i in
     if (attr s AND SPR_BG_PRIO \<noteq> 0) \<noteq> behind then render_sprites rom behind y_axes spr_size is cnt p
     else (let dy_axes = (if behind then y_axes - uint (spr_y s + 1) else y_axes - (uint (spr_y s) + 1)) in
       if dy_axes \<noteq> dy_axes AND spr_size then render_sprites rom behind y_axes spr_size is cnt p
       else if cnt + 1 > 8 then Some (set_R2 (ppu_R2 p OR R2_LOST_SPR) p)
       else do {
         p \<leftarrow> (if ppu_R0 p AND R0_SPR_SIZE \<noteq> 0 then NES_RenderSprite16 rom s dy_axes p
               else NES_RenderSprite88 rom s dy_axes p);
         render_sprites rom behind y_axes spr_size is (cnt + 1) p }))"

text \<open>\<open>memcpy\<close> of 512 bytes, 256 pixels, to row \<open>y_axes\<close> of a display 640 pixels wide.\<close>

definition LV_HOR_RES :: nat where "LV_HOR_RES = 640"

definition copy_line :: "int \<Rightarrow> ppu \<Rightarrow> ppu option" where
  "copy_line y_axes p = (let o1 = nat y_axes * LV_HOR_RES in
     if 0 \<le> y_axes \<and> o1 + 256 \<le> length (framebuffer p) \<and> 256 \<le> length (Buffer_scanline p) then
       Some (p\<lparr>framebuffer := take o1 (framebuffer p) @ take 256 (Buffer_scanline p)
                 @ drop (o1 + 256) (framebuffer p)\<rparr>)
     else None)"

definition fill_line :: "ppu \<Rightarrow> ppu option" where
  "fill_line p = fold_opt
     (\<lambda>i p. do { c \<leftarrow> pal_color (image_palette (PPU_Mem p)) 0; put_pixel i c p }) [7..<264] p"

text \<open>What goes into the line buffer: sprites behind the background, background, sprites in front.\<close>

definition compose_line :: "byte list \<Rightarrow> int \<Rightarrow> ppu \<Rightarrow> ppu option" where
  "compose_line rom y_axes p =
     (if ppu_R1 p AND (R1_BG_VISIBLE OR R1_SPR_VISIBLE) \<noteq> 0 then do {
         p \<leftarrow> fill_line p;
         spr_size \<leftarrow> Some (if ppu_R0 p AND R0_SPR_SIZE \<noteq> 0 then 0x0F else 0x07 :: int);
         p \<leftarrow> (if ppu_R1 p AND R1_SPR_VISIBLE \<noteq> 0
               then render_sprites rom True y_axes spr_size (rev [0..<64]) 0 p else Some p);
         p \<leftarrow> (if ppu_R1 p AND R1_BG_VISIBLE \<noteq> 0 then NES_RenderBGLine rom y_axes p else Some p);
         (if ppu_R1 p AND R1_SPR_VISIBLE \<noteq> 0
          then render_sprites rom False y_axes spr_size (rev [0..<64]) 0 p else Some p) }
      else fold_opt (\<lambda>i. put_pixel i 0) [7..<264] p)"

definition NES_RenderLine :: "byte list \<Rightarrow> int \<Rightarrow> ppu \<Rightarrow> ppu option" where
  "NES_RenderLine rom y_axes p = do {
     p \<leftarrow> Some (set_R2 (ppu_R2 p AND NOT R2_LOST_SPR) p);
     p \<leftarrow> compose_line rom y_axes p;
     copy_line y_axes p }"

end
