(* ===== verification/NesRenderSpec.thy ===== *)
theory NesRenderSpec
  imports NesRender
begin

text \<open>
  The display code stays inside its buffers: with colours below 64 in the palettes a scan line is
  drawn without a fault and writes one row of the frame buffer; the background line is the
  sequence of the pixels its tiles prescribe.
\<close>

section \<open>Colours in range\<close>

definition palette_ok :: "ppu \<Rightarrow> bool" where
  "palette_ok p \<longleftrightarrow> (\<forall>c\<in>set (image_palette (PPU_Mem p)). c < 64) \<and>
     (\<forall>c\<in>set (sprite_palette (PPU_Mem p)). c < 64)"

lemma color_num_bound:
  "unat (push_bit 2 ((x :: byte) AND 3) OR (y AND 1) OR push_bit 1 (z AND 1)) < 16"
proof -
  let ?n = "push_bit 2 ((x :: byte) AND 3) OR (y AND 1) OR push_bit 1 (z AND 1)"
  have m: "3 = (mask 2 :: byte)" "1 = (mask 1 :: byte)" by (simp_all add: mask_eq_exp_minus_1)
  have "?n AND mask 4 = ?n"
    unfolding m
  proof (rule bit_word_eqI, goal_cases)
    case (1 n)
    then have "n < 8" by simp
    then show ?case unfolding bit_simps by auto
  qed
  then have "unat ?n = unat ?n mod 2 ^ 4" using unat_and_mask[of ?n 4] by metis
  also have "\<dots> < 16" by simp
  finally show ?thesis .
qed

lemma pal_color_total:
  assumes "length pal = 16" "\<forall>c\<in>set pal. c < 64" "unat num < 16"
  shows "pal_color pal num = Some (NES_Color_Palette ! unat (pal ! unat num))"
proof -
  have "pal ! unat num < 64" using assms by simp
  then have "unat (pal ! unat num) < 64" by (simp add: word_less_nat_alt)
  then show ?thesis using assms by (simp add: pal_color_def length_NES_Color_Palette)
qed

section \<open>Nothing but the line buffer\<close>

text \<open>
  Drawing changes the line buffer and bits of \<open>$2002\<close>; \<open>drawn p q\<close> says so, and that the buffer
  keeps its length.
\<close>

definition drawn :: "ppu \<Rightarrow> ppu \<Rightarrow> bool" where
  "drawn p q \<longleftrightarrow> PPU_Mem q = PPU_Mem p \<and> ppu_R0 q = ppu_R0 p \<and> ppu_R1 q = ppu_R1 p \<and>
     Spr_Mem q = Spr_Mem p \<and> NameTable q = NameTable p \<and> framebuffer q = framebuffer p \<and>
     length (Buffer_scanline q) = length (Buffer_scanline p) \<and>
     PPU_BG_HScrlOrg q = PPU_BG_HScrlOrg p \<and> PPU_BG_VScrlOrg q = PPU_BG_VScrlOrg p \<and>
     SpriteHitFlag q = SpriteHitFlag p \<and> PPU_Latch_Flag q = PPU_Latch_Flag p \<and>
     PPU_scanline q = PPU_scanline p"

lemma drawn_refl [simp]: "drawn p p"
  by (simp add: drawn_def)

lemma drawn_trans: "drawn p q \<Longrightarrow> drawn q r \<Longrightarrow> drawn p r"
  by (simp add: drawn_def)

lemma drawnD:
  assumes "drawn p q"
  shows "PPU_Mem q = PPU_Mem p" "ppu_R0 q = ppu_R0 p" "ppu_R1 q = ppu_R1 p"
    "Spr_Mem q = Spr_Mem p" "sprite q = sprite p" "NameTable q = NameTable p"
    "framebuffer q = framebuffer p" "length (Buffer_scanline q) = length (Buffer_scanline p)"
    "bg_pattern q = bg_pattern p" "spr_pattern q = spr_pattern p" "nt_rd q = nt_rd p"
    "ppu_wf rom q = ppu_wf rom p" "palette_ok q = palette_ok p"
    "PPU_BG_HScrlOrg q = PPU_BG_HScrlOrg p" "PPU_BG_VScrlOrg q = PPU_BG_VScrlOrg p"
  using assms
  by (simp_all add: drawn_def sprite_def bg_pattern_def spr_pattern_def nt_rd_def fun_eq_iff
      ppu_wf_def palette_ok_def)

lemma drawn_ok: "drawn p q \<Longrightarrow> ppu_wf rom p \<Longrightarrow> palette_ok p \<Longrightarrow> ppu_wf rom q \<and> palette_ok q"
  by (simp add: drawnD(12,13)[of p q])

lemma drawn_set_R2 [simp]: "drawn p (set_R2 r p)"
  by (simp add: drawn_def set_R2_def)

lemma put_pixel_drawn:
  "i < length (Buffer_scanline p) \<Longrightarrow> \<exists>q. put_pixel i c p = Some q \<and> drawn p q"
  by (simp add: put_pixel_def drawn_def)

text \<open>A drawing loop: every round draws, so the loop does.\<close>

lemma fold_opt_drawn:
  assumes "\<And>x q. x \<in> set xs \<Longrightarrow> drawn p q \<Longrightarrow> \<exists>r. f x q = Some r \<and> drawn q r"
  shows "\<exists>q. fold_opt f xs p = Some q \<and> drawn p q"
  by (rule fold_opt_inv) (use assms drawn_trans in blast, simp)

section \<open>Sprites\<close>

lemma spr_index: "unat (spr_x s) + i + 8 < 272" if "i < 8"
  using unat_byte_less[of "spr_x s"] that by linarith

lemma spr_color:
  assumes "ppu_wf rom p" "palette_ok p"
  shows "\<exists>c. pal_color (sprite_palette (PPU_Mem p))
    (((x AND 1) OR push_bit 1 (y AND 1)) OR push_bit 2 (z AND 3)) = Some c"
proof -
  have "((x AND 1) OR push_bit 1 (y AND 1)) OR push_bit 2 (z AND 3) =
      push_bit 2 (z AND 3) OR (x AND 1) OR push_bit 1 (y AND 1)"
    by (simp only: or.commute or.left_commute)
  then have "unat (((x AND 1) OR push_bit 1 (y AND 1)) OR push_bit 2 (z AND 3)) < 16"
    using color_num_bound[of z x y] by (simp only:)
  then show ?thesis
    using pal_color_total assms unfolding ppu_wf_def palette_ok_def by metis
qed

lemma spr_pixel_step_drawn:
  assumes "ppu_wf rom p" "palette_ok p" "i < 8"
  shows "\<exists>q. spr_pixel_step s L H i p = Some q \<and> drawn p q"
proof -
  define k where "k = (if attr s AND SPR_HFLIP \<noteq> 0 then i else 7 - i)"
  define num where "num = (drop_bit k L AND 1) OR push_bit 1 (drop_bit k H AND 1)"
  obtain c where c: "pal_color (sprite_palette (PPU_Mem p)) (num OR push_bit 2 (attr s AND 3)) = Some c"
    using spr_color[OF assms(1,2)] unfolding num_def by blast
  have "unat (spr_x s) + i + 8 < length (Buffer_scanline p)"
    using spr_index[OF assms(3), of s] assms(1) unfolding ppu_wf_def by metis
  then obtain q where q: "put_pixel (unat (spr_x s) + i + 8) c p = Some q" "drawn p q"
    using put_pixel_drawn by blast
  have "spr_pixel_step s L H i p = (if num = 0 then Some p else Some q)"
    unfolding spr_pixel_step_def Let_def k_def[symmetric] num_def[symmetric] c by (simp add: q(1))
  then show ?thesis using q(2) by (cases "num = 0") auto
qed

text \<open>The pattern lines a sprite uses lie in the two pattern tables.\<close>

lemma pattern_rd:
  assumes "ppu_wf rom p" "tab = patterntable0 (PPU_Mem p) \<or> tab = patterntable1 (PPU_Mem p)"
    "0 \<le> k" "k < 0x1000"
  shows "\<exists>v. mem_rd_at rom (tab + k) = Some v"
proof -
  have "mem_rd_at rom (tab + k) \<noteq> None"
    using assms by (auto simp: ppu_wf_def mem_rd_at_None_iff)
  then show ?thesis by blast
qed

lemma title_addr_bound: "uint (push_bit 4 (ucast (t :: byte)) :: word16) \<le> 4080"
proof -
  have "unat (push_bit 4 (ucast t :: word16)) = unat t * 16"
  proof -
    have "unat t * 16 < 65536" using unat_byte_less[of t] by linarith
    then show ?thesis by (simp add: push_bit_eq_mult unat_word_ariths mult.commute)
  qed
  moreover have "uint (push_bit 4 (ucast t :: word16)) = int (unat (push_bit 4 (ucast t :: word16)))"
    by simp
  ultimately have e: "uint (push_bit 4 (ucast t :: word16)) = int (unat t * 16)" by metis
  show ?thesis unfolding e using unat_byte_less[of t] by linarith
qed

lemma line_in_tile: "dy \<le> 7 \<Longrightarrow> uint (if c then 7 - dy else dy :: byte) \<le> 7"
  by (auto simp: word_le_def uint_sub_if' split: if_splits)

lemma NES_RenderSprPattern_drawn:
  assumes "ppu_wf rom p" "palette_ok p" "dy \<le> 7"
    "tab = patterntable0 (PPU_Mem p) \<or> tab = patterntable1 (PPU_Mem p)"
  shows "\<exists>q. NES_RenderSprPattern rom s tab (push_bit 4 (ucast (t :: byte))) dy p = Some q \<and> drawn p q"
proof -
  define d where "d = (if attr s AND SPR_VFLIP \<noteq> 0 then 7 - dy else dy)"
  define ta where "ta = (push_bit 4 (ucast t) :: word16)"
  have d: "uint d \<le> 7" "0 \<le> uint d" using line_in_tile[OF assms(3)] unfolding d_def by simp_all
  have ta: "uint ta \<le> 4080" "0 \<le> uint ta" using title_addr_bound[of t] by (simp_all add: ta_def)
  obtain L where L: "mem_rd_at rom (tab + (uint ta + uint d)) = Some L"
    using pattern_rd[OF assms(1,4), of "uint ta + uint d"] d ta by force
  obtain H where H: "mem_rd_at rom (tab + (uint ta + uint d + 8)) = Some H"
    using pattern_rd[OF assms(1,4), of "uint ta + uint d + 8"] d ta by force
  have "\<exists>q. fold_opt (spr_pixel_step s L H) (rev [0..<8]) p = Some q \<and> drawn p q"
    using drawn_ok[OF _ assms(1,2)] by (intro fold_opt_drawn spr_pixel_step_drawn[of rom]) auto
  then show ?thesis
    unfolding NES_RenderSprPattern_def Let_def d_def[symmetric] ta_def[symmetric] L H
    by (simp add: R1_SPR_LEFT8_def)
qed

lemma int_and_7: "(k :: int) AND 7 = k mod 8"
proof -
  have "(7 :: int) = mask 3" by (simp add: mask_eq_exp_minus_1)
  then show ?thesis by (simp only: take_bit_eq_mask[symmetric] take_bit_eq_mod) simp
qed

lemma int_and_15: "(k :: int) AND 15 = k mod 16"
proof -
  have "(15 :: int) = mask 4" by (simp add: mask_eq_exp_minus_1)
  then show ?thesis by (simp only: take_bit_eq_mask[symmetric] take_bit_eq_mod) simp
qed

lemma byte_line: "0 \<le> d \<Longrightarrow> d < 8 \<Longrightarrow> (word_of_int d :: byte) \<le> 7"
  by (simp add: word_le_def uint_word_of_int)

lemma byte_and_7: "(x AND 7 :: byte) \<le> 7"
  by (rule word_and_le1)

lemma NES_RenderSprite88_drawn:
  assumes "ppu_wf rom p" "palette_ok p" "dy = dy AND 7"
  shows "\<exists>q. NES_RenderSprite88 rom s dy p = Some q \<and> drawn p q"
proof -
  have "0 \<le> dy" "dy < 8" using assms(3) unfolding int_and_7 by (metis pos_mod_sign pos_mod_bound zero_less_numeral)+
  then show ?thesis
    unfolding NES_RenderSprite88_def
    by (intro NES_RenderSprPattern_drawn assms byte_line) (auto simp: spr_pattern_def)
qed

lemma NES_RenderSprite16_drawn:
  assumes "ppu_wf rom p" "palette_ok p" "dy = dy AND 15"
  shows "\<exists>q. NES_RenderSprite16 rom s dy p = Some q \<and> drawn p q"
proof -
  have "0 \<le> dy" using assms(3) unfolding int_and_15 by (metis pos_mod_sign zero_less_numeral)
  then show ?thesis
    unfolding NES_RenderSprite16_def
    using NES_RenderSprPattern_drawn[OF assms(1,2)] byte_line byte_and_7
    by (auto simp: not_less)
qed

lemma render_sprites_drawn:
  assumes "ppu_wf rom p" "palette_ok p"
    "spr_size = (if ppu_R0 p AND R0_SPR_SIZE \<noteq> 0 then 15 else 7)"
  shows "\<exists>q. render_sprites rom behind y spr_size is cnt p = Some q \<and> drawn p q"
  using assms
proof (induction "is" arbitrary: cnt p)
  case (Cons i is')
  have step: "\<exists>q. (if ppu_R0 p AND R0_SPR_SIZE \<noteq> 0 then NES_RenderSprite16 rom s dy p
         else NES_RenderSprite88 rom s dy p) = Some q \<and> drawn p q" if "dy = dy AND spr_size" for s dy
  proof (cases "ppu_R0 p AND R0_SPR_SIZE \<noteq> 0")
    case True
    then have "dy = dy AND 15" using that Cons.prems(3) by metis
    from NES_RenderSprite16_drawn[OF Cons.prems(1,2) this] show ?thesis using True by metis
  next
    case False
    then have "dy = dy AND 7" using that Cons.prems(3) by metis
    from NES_RenderSprite88_drawn[OF Cons.prems(1,2) this] show ?thesis using False by metis
  qed
  have rest: "\<exists>r. render_sprites rom behind y spr_size is' c q = Some r \<and> drawn p r"
    if "drawn p q" for c q
    using Cons.IH[of q c] drawn_ok[OF that Cons.prems(1,2)] Cons.prems(3) drawnD(2)[OF that]
      drawn_trans[OF that] by metis
  define s where "s = sprite p i"
  define dy where "dy = (if behind then y - uint (spr_y s + 1) else y - (uint (spr_y s) + 1))"
  consider "(attr s AND SPR_BG_PRIO \<noteq> 0) \<noteq> behind \<or> dy \<noteq> dy AND spr_size"
    | "(attr s AND SPR_BG_PRIO \<noteq> 0) = behind" "dy = dy AND spr_size" "8 < cnt + 1"
    | "(attr s AND SPR_BG_PRIO \<noteq> 0) = behind" "dy = dy AND spr_size" "\<not> 8 < cnt + 1"
    by linarith
  then show ?case
  proof cases
    case 1
    then have "render_sprites rom behind y spr_size (i # is') cnt p =
        render_sprites rom behind y spr_size is' cnt p"
      by (auto simp: Let_def s_def[symmetric] dy_def[symmetric])
    then show ?thesis using rest[of p] by simp
  next
    case 2
    then have c: "\<not> (attr s AND SPR_BG_PRIO \<noteq> 0) \<noteq> behind" "\<not> dy \<noteq> dy AND spr_size" by blast+
    have "render_sprites rom behind y spr_size (i # is') cnt p =
        Some (set_R2 (ppu_R2 p OR R2_LOST_SPR) p)"
      by (simp only: render_sprites.simps Let_def s_def[symmetric] dy_def[symmetric]
          if_not_P[OF c(1)] if_not_P[OF c(2)] if_P[OF 2(3)])
    then show ?thesis by simp
  next
    case 3
    obtain q where q: "(if ppu_R0 p AND R0_SPR_SIZE \<noteq> 0 then NES_RenderSprite16 rom s dy p
         else NES_RenderSprite88 rom s dy p) = Some q" "drawn p q"
      using step[OF 3(2)] by blast
    have c: "\<not> (attr s AND SPR_BG_PRIO \<noteq> 0) \<noteq> behind" "\<not> dy \<noteq> dy AND spr_size" using 3 by blast+
    have "render_sprites rom behind y spr_size (i # is') cnt p =
        render_sprites rom behind y spr_size is' (cnt + 1) q"
      by (simp only: render_sprites.simps Let_def s_def[symmetric] dy_def[symmetric]
          if_not_P[OF c(1)] if_not_P[OF c(2)] if_not_P[OF 3(3)] q(1) Option.bind.bind_lunit)
    then show ?thesis using rest[OF q(2)] by simp
  qed
qed simp

section \<open>Painting pixels left to right\<close>

text \<open>\<open>None\<close> is a transparent pixel: the cell keeps what it had.\<close>

primrec paint :: "nat \<Rightarrow> 'a option list \<Rightarrow> 'a list \<Rightarrow> 'a list" where
  "paint n [] b = b"
| "paint n (c # cs) b = paint (n + 1) cs (case c of None \<Rightarrow> b | Some v \<Rightarrow> b[n := v])"

lemma length_paint [simp]: "length (paint n cs b) = length b"
  by (induction cs arbitrary: n b) (auto split: option.split)

lemma paint_append: "paint n (cs @ ds) b = paint (n + length cs) ds (paint n cs b)"
  by (induction cs arbitrary: n b) simp_all

lemma nth_paint_out: "k < n \<or> n + length cs \<le> k \<Longrightarrow> paint n cs b ! k = b ! k"
  by (induction cs arbitrary: n b) (auto split: option.split)

lemma nth_paint:
  "j < length cs \<Longrightarrow> n + length cs \<le> length b \<Longrightarrow>
   paint n cs b ! (n + j) = (case cs ! j of None \<Rightarrow> b ! (n + j) | Some v \<Rightarrow> v)"
proof (induction cs arbitrary: n b j)
  case (Cons c cs)
  show ?case
  proof (cases j)
    case 0
    then show ?thesis using Cons.prems by (auto simp: nth_paint_out split: option.split)
  next
    case (Suc i)
    then show ?thesis using Cons.prems Cons.IH[of i "n + 1"] by (auto split: option.split)
  qed
qed simp

lemma fold_opt_paint:
  assumes "\<And>x cnt b. x \<in> set xs \<Longrightarrow> length b = n \<Longrightarrow> cnt + length (ps x) \<le> n \<Longrightarrow>
      f x (cnt, p\<lparr>Buffer_scanline := b\<rparr>) =
        Some (cnt + length (ps x), p\<lparr>Buffer_scanline := paint cnt (ps x) b\<rparr>)"
    "length b = n" "cnt + length (concat (map ps xs)) \<le> n"
  shows "fold_opt f xs (cnt, p\<lparr>Buffer_scanline := b\<rparr>) =
    Some (cnt + length (concat (map ps xs)), p\<lparr>Buffer_scanline := paint cnt (concat (map ps xs)) b\<rparr>)"
  using assms
proof (induction xs arbitrary: cnt b)
  case (Cons x xs)
  have "f x (cnt, p\<lparr>Buffer_scanline := b\<rparr>) =
        Some (cnt + length (ps x), p\<lparr>Buffer_scanline := paint cnt (ps x) b\<rparr>)"
    using Cons.prems by (intro Cons.prems(1)) auto
  moreover have "fold_opt f xs (cnt + length (ps x), p\<lparr>Buffer_scanline := paint cnt (ps x) b\<rparr>) =
    Some (cnt + length (ps x) + length (concat (map ps xs)),
      p\<lparr>Buffer_scanline := paint (cnt + length (ps x)) (concat (map ps xs)) (paint cnt (ps x) b)\<rparr>)"
    using Cons.prems by (intro Cons.IH Cons.prems(1)) auto
  ultimately show ?case by (simp add: paint_append add.assoc)
qed simp

section \<open>The background, pixel by pixel\<close>

text \<open>
  The colour of the background at tile column \<open>tx\<close>, pixel \<open>fx\<close> of the tile, on screen line \<open>Y\<close> of
  name table \<open>n\<close>: the tile number selects 16 bytes of the pattern table, two of them give the
  low bits of the colour, the attribute byte of the 4 by 4 tile block gives the high bits.
\<close>

definition nt_at :: "ppu \<Rightarrow> byte \<Rightarrow> nat \<Rightarrow> byte" where
  "nt_at p n k = NameTable p ! (name_table (PPU_Mem p) ! unat n + k)"

definition bg_color :: "byte list \<Rightarrow> ppu \<Rightarrow> byte \<Rightarrow> nat \<Rightarrow> nat \<Rightarrow> nat \<Rightarrow> word16 option" where
  "bg_color rom p n Y tx fx = (let
     ty = Y div 8;
     line = nat (bg_pattern p) + unat (nt_at p n (32 * ty + tx)) * 16 + Y mod 8;
     lo = bit (rom ! line) (7 - fx);
     hi = bit (rom ! (line + 8)) (7 - fx);
     block = unat (nt_at p n (960 + 8 * (ty div 4) + tx div 4));
     quad = block div 2 ^ (4 * (ty mod 4 div 2) + 2 * (tx mod 4 div 2)) mod 4
     in if lo \<or> hi
        then Some (NES_Color_Palette ! unat (image_palette (PPU_Mem p) !
               (4 * quad + 2 * of_bool hi + of_bool lo)))
        else None)"

lemma color_num:
  fixes a L H :: byte and i :: nat
  defines "num \<equiv> push_bit 2 (a AND 3) OR (drop_bit i L AND 1) OR push_bit 1 (drop_bit i H AND 1)"
  shows "unat num = 4 * (unat a mod 4) + 2 * of_bool (bit H i) + of_bool (bit L i)"
    "num AND 3 \<noteq> 0 \<longleftrightarrow> bit L i \<or> bit H i"
proof -
  have b: "drop_bit i x AND 1 = of_bool (bit x i)" for x :: byte
    by (simp add: and_one_eq bit_iff_odd_drop_bit mod_2_eq_odd)
  define k where "k = unat a mod 4"
  have m: "(3 :: byte) = mask 2" by (simp add: mask_eq_exp_minus_1)
  have "unat (a AND 3) = k" unfolding m k_def using unat_and_mask[of a 2] by simp
  moreover have "a AND 3 = of_nat (unat (a AND 3))" by simp
  ultimately have a: "a AND 3 = of_nat k" by metis
  have "k < 4" by (simp add: k_def)
  then have k: "k = 0 \<or> k = 1 \<or> k = 2 \<or> k = 3" by linarith
  show "unat num = 4 * (unat a mod 4) + 2 * of_bool (bit H i) + of_bool (bit L i)"
    unfolding num_def b a k_def[symmetric] using k
    by (cases "bit L i"; cases "bit H i") (elim disjE; simp)+
  show "num AND 3 \<noteq> 0 \<longleftrightarrow> bit L i \<or> bit H i"
    unfolding num_def b a using k
    by (cases "bit L i"; cases "bit H i") (elim disjE; simp)+
qed

lemma bg_pixel_step_eq:
  assumes "ppu_wf rom p" "palette_ok p" "length b = 272" "cnt < 272"
  shows "bg_pixel_step L H (push_bit 2 (a AND 3)) i (cnt, p\<lparr>Buffer_scanline := b\<rparr>) =
    Some (cnt + 1, p\<lparr>Buffer_scanline := paint cnt
      [if bit L i \<or> bit H i then Some (NES_Color_Palette ! unat (image_palette (PPU_Mem p) !
         (4 * (unat a mod 4) + 2 * of_bool (bit H i) + of_bool (bit L i)))) else None] b\<rparr>)"
proof -
  define num where "num = push_bit 2 (a AND 3) OR (drop_bit i L AND 1) OR push_bit 1 (drop_bit i H AND 1)"
  have n: "unat num = 4 * (unat a mod 4) + 2 * of_bool (bit H i) + of_bool (bit L i)"
    "num AND 3 \<noteq> 0 \<longleftrightarrow> bit L i \<or> bit H i"
    unfolding num_def by (rule color_num)+
  have "unat num < 16" unfolding num_def by (rule color_num_bound)
  then have c: "pal_color (image_palette (PPU_Mem p)) num =
      Some (NES_Color_Palette ! unat (image_palette (PPU_Mem p) ! unat num))"
    using assms(1,2) by (intro pal_color_total) (simp_all add: ppu_wf_def palette_ok_def)
  show ?thesis
    unfolding bg_pixel_step_def Let_def num_def[symmetric] case_prod_conv n(2)
    using c assms(3,4) by (simp add: n(1) put_pixel_def)
qed

text \<open>Reads of the name tables and of the pattern table stay inside them.\<close>

lemma nt_rd_eq:
  assumes "ppu_wf rom p" "unat n < 4" "k < 1024"
  shows "nt_rd p n (int k) = Some (nt_at p n k)"
proof -
  have "unat n = 0 \<or> unat n = 1 \<or> unat n = 2 \<or> unat n = 3" using assms(2) by linarith
  then have "name_table (PPU_Mem p) ! unat n \<le> 1024"
    using assms(1) by (auto simp: ppu_wf_def)
  then show ?thesis
    using assms by (simp add: nt_rd_def nt_at_def mem_rd_at_def ppu_wf_def nat_add_distrib)
qed

lemma bg_pattern_rd:
  assumes "ppu_wf rom p" "k < 0x1000"
  shows "mem_rd_at rom (bg_pattern p + int k) = Some (rom ! (nat (bg_pattern p) + k))"
proof -
  have "0 \<le> bg_pattern p" "bg_pattern p + int k < int (length rom)"
    using assms by (auto simp: bg_pattern_def ppu_wf_def)
  then show ?thesis by (simp add: nat_add_distrib)
qed

text \<open>The attribute shift of the source.\<close>

lemma attr_shift:
  assumes "ty < 32" "tx < 32"
  shows "nat (push_bit 1 (int ty AND 2) OR (int tx AND 2)) = 4 * (ty mod 4 div 2) + 2 * (tx mod 4 div 2)"
proof -
  have "list_all (\<lambda>k. int k AND 2 = int (2 * (k mod 4 div 2))) [0..<32]" by code_simp
  then have e: "int k AND 2 = int (2 * (k mod 4 div 2))" if "k < 32" for k
    using that by (simp only: list_all_iff) simp
  have "ty mod 4 div 2 = 0 \<or> ty mod 4 div 2 = 1" "tx mod 4 div 2 = 0 \<or> tx mod 4 div 2 = 1"
    by linarith+
  then show ?thesis unfolding e[OF assms(1)] e[OF assms(2)] by auto
qed

lemma bg_tile_eq:
  assumes "ppu_wf rom p" "palette_ok p" "unat n < 4" "Y < 256" "x < 32" "length b = 272" "cnt + 8 \<le> 272"
  shows "bg_tile rom n (int (Y div 8)) (int (Y mod 8)) x (cnt, p\<lparr>Buffer_scanline := b\<rparr>) =
    Some (cnt + 8, p\<lparr>Buffer_scanline := paint cnt (map (bg_color rom p n Y x) [0..<8]) b\<rparr>)"
proof -
  let ?p = "p\<lparr>Buffer_scanline := b\<rparr>"
  have d: "drawn p ?p" using assms(1,6) by (simp add: drawn_def ppu_wf_def)
  have wf: "ppu_wf rom ?p" using drawn_ok[OF d assms(1,2)] by simp
  have same: "nt_at ?p = nt_at p" "bg_pattern ?p = bg_pattern p"
    by (simp_all add: nt_at_def bg_pattern_def fun_eq_iff)
  define t where "t = nt_at p n (32 * (Y div 8) + x)"
  define a where "a = nt_at p n (960 + 8 * (Y div 8 div 4) + x div 4)"
  define line where "line = nat (bg_pattern p) + unat t * 16 + Y mod 8"
  have y: "Y div 8 < 32" "Y mod 8 < 8" using assms(4) by linarith+
  have k: "32 * (Y div 8) + x < 1024" "960 + 8 * (Y div 8 div 4) + x div 4 < 1024"
  proof -
    have "Y div 8 div 4 < 8" "x div 4 < 8" using y(1) assms(5) by (simp_all add: less_mult_imp_div_less)
    then show "960 + 8 * (Y div 8 div 4) + x div 4 < 1024" by linarith
    show "32 * (Y div 8) + x < 1024" using y(1) assms(5) by linarith
  qed
  have nt: "nt_rd ?p n (int (Y div 8) * 32 + int x) = Some t"
    "nt_rd ?p n (960 + int (Y div 8) div 4 * 8 + int x div 4) = Some a"
    using nt_rd_eq[OF wf assms(3) k(1)] nt_rd_eq[OF wf assms(3) k(2)]
    by (simp_all add: same t_def a_def algebra_simps zdiv_int)
  have ta: "unat t * 16 + Y mod 8 + 8 < 0x1000" using unat_byte_less[of t] y(2) by linarith
  then have rd: "mem_rd_at rom (bg_pattern ?p + (uint t * 16 + int (Y mod 8))) = Some (rom ! line)"
    "mem_rd_at rom (bg_pattern ?p + (uint t * 16 + int (Y mod 8) + 8)) = Some (rom ! (line + 8))"
    using bg_pattern_rd[OF wf, of "unat t * 16 + Y mod 8"] bg_pattern_rd[OF wf, of "unat t * 16 + Y mod 8 + 8"]
    by (simp_all add: line_def same add.assoc)
  define sh where "sh = 4 * (Y div 8 mod 4 div 2) + 2 * (x mod 4 div 2)"
  have q: "unat (drop_bit sh a) mod 4 = unat a div 2 ^ sh mod 4"
    by (simp only: unsigned_drop_bit_eq) (simp add: drop_bit_eq_div take_bit_nat_eq_self)
  have "fold_opt (bg_pixel_step (rom ! line) (rom ! (line + 8)) (push_bit 2 (drop_bit sh a AND 3)))
      (rev [0..<8]) (cnt, ?p) = Some (cnt + 8, p\<lparr>Buffer_scanline := paint cnt
        (map (\<lambda>i. bg_color rom p n Y x (7 - i)) (rev [0..<8])) b\<rparr>)"
    using fold_opt_paint[of "rev [0..<8]" 272 "\<lambda>i. [bg_color rom p n Y x (7 - i)]" _ p b cnt] assms(6,7)
      bg_pixel_step_eq[OF assms(1,2)]
    by (simp add: bg_color_def Let_def t_def[symmetric] a_def[symmetric] line_def[symmetric] q sh_def[symmetric] o_def)
  moreover have "map (\<lambda>i. bg_color rom p n Y x (7 - i)) (rev [0..<8]) = map (bg_color rom p n Y x) [0..<8]"
    by (rule nth_equalityI) (simp_all add: rev_nth)
  ultimately show ?thesis
    unfolding bg_tile_def case_prod_conv nt Option.bind.bind_lunit rd attr_shift[OF y(1) assms(5)]
      Let_def sh_def[symmetric] by simp
qed

text \<open>
  The whole line: 33 tiles, starting at the column the horizontal scroll points to, switching to
  the neighbouring table after column 31.
\<close>

definition bg_screen :: "byte list \<Rightarrow> ppu \<Rightarrow> nat \<Rightarrow> nat \<Rightarrow> word16 option" where
  "bg_screen rom p y X = (let
     n = ppu_R0 p AND R0_NAME_TABLE;
     Y = y + unat (PPU_BG_VScrlOrg p);
     n = (if 256 \<le> Y then n XOR NAME_TABLE_V_MASK else n);
     n = (if 256 \<le> X then n XOR NAME_TABLE_H_MASK else n)
     in bg_color rom p n (Y mod 256) (X div 8 mod 32) (X mod 8))"

lemma nt_number: "unat (x AND R0_NAME_TABLE) < 4" "unat (x AND R0_NAME_TABLE XOR NAME_TABLE_V_MASK) < 4"
  "unat (x AND R0_NAME_TABLE XOR NAME_TABLE_H_MASK) < 4"
  "unat ((x AND R0_NAME_TABLE XOR NAME_TABLE_V_MASK) XOR NAME_TABLE_H_MASK) < 4"
proof -
  define k where "k = unat x mod 4"
  have m: "R0_NAME_TABLE = mask 2" by (simp add: R0_NAME_TABLE_def mask_eq_exp_minus_1)
  have "unat (x AND R0_NAME_TABLE) = k" unfolding m k_def using unat_and_mask[of x 2] by simp
  moreover have "x AND R0_NAME_TABLE = of_nat (unat (x AND R0_NAME_TABLE))" by simp
  ultimately have a: "x AND R0_NAME_TABLE = of_nat k" by metis
  have "k < 4" by (simp add: k_def)
  then have "k = 0 \<or> k = 1 \<or> k = 2 \<or> k = 3" by linarith
  then show "unat (x AND R0_NAME_TABLE) < 4" "unat (x AND R0_NAME_TABLE XOR NAME_TABLE_V_MASK) < 4"
    "unat (x AND R0_NAME_TABLE XOR NAME_TABLE_H_MASK) < 4"
    "unat ((x AND R0_NAME_TABLE XOR NAME_TABLE_V_MASK) XOR NAME_TABLE_H_MASK) < 4"
    unfolding a NAME_TABLE_V_MASK_def NAME_TABLE_H_MASK_def by (elim disjE; simp)+
qed

lemma concat_tiles:
  "a \<le> b \<Longrightarrow> concat (map (\<lambda>x. map (g x) [0..<8]) [a..<b]) =
     map (\<lambda>X. g (X div 8) (X mod 8)) [8 * a..<8 * b]"
proof (induction b)
  case (Suc b)
  show ?case
  proof (cases "a = Suc b")
    case False
    then have ab: "a \<le> b" using Suc.prems by simp
    have "map (\<lambda>X. g (X div 8) (X mod 8)) [8 * b..<8 * b + 8] = map (g b) [0..<8]"
      by (rule nth_equalityI) simp_all
    moreover have "[8 * a..<8 * Suc b] = [8 * a..<8 * b] @ [8 * b..<8 * b + 8]"
      using ab upt_add_eq_append[of "8 * a" "8 * b" 8] by (simp add: add.commute)
    ultimately show ?thesis using Suc.IH[OF ab] ab by simp
  qed simp
qed simp

lemma NES_RenderBGLine_eq:
  assumes "ppu_wf rom p" "palette_ok p" "y < 240"
  shows "NES_RenderBGLine rom (int y) p = Some (p\<lparr>Buffer_scanline :=
    paint (8 - unat (PPU_BG_HScrlOrg p) mod 8)
      (map (bg_screen rom p y) [unat (PPU_BG_HScrlOrg p) div 8 * 8..<unat (PPU_BG_HScrlOrg p) div 8 * 8 + 264])
      (Buffer_scanline p)\<rparr>)"
proof -
  define h where "h = unat (PPU_BG_HScrlOrg p) div 8"
  define dx where "dx = unat (PPU_BG_HScrlOrg p) mod 8"
  define Y where "Y = y + unat (PPU_BG_VScrlOrg p)"
  define n where "n = (if 256 \<le> Y then (ppu_R0 p AND R0_NAME_TABLE) XOR NAME_TABLE_V_MASK else ppu_R0 p AND R0_NAME_TABLE)"
  define Y' where "Y' = Y mod 256"
  have Y: "Y < 512" using assms(3) unat_byte_less[of "PPU_BG_VScrlOrg p"] unfolding Y_def by linarith
  have Y': "Y' < 256" by (simp add: Y'_def)
  have h: "h < 32" using unat_byte_less[of "PPU_BG_HScrlOrg p"] unfolding h_def by linarith
  have n4: "unat n < 4" "unat (n XOR NAME_TABLE_H_MASK) < 4" by (simp_all add: n_def nt_number)
  define V where "V = unat (PPU_BG_VScrlOrg p)"
  have uV: "uint (PPU_BG_VScrlOrg p) = int V" by (simp add: V_def)
  have YV: "Y = y + V" by (simp add: Y_def V_def)
  have scroll: "(if int y + uint (PPU_BG_VScrlOrg p) > 255
      then (int y + uint (PPU_BG_VScrlOrg p) - 256, (ppu_R0 p AND R0_NAME_TABLE) XOR NAME_TABLE_V_MASK)
      else (int y + uint (PPU_BG_VScrlOrg p), ppu_R0 p AND R0_NAME_TABLE)) = (int Y', n)"
  proof (cases "256 \<le> Y")
    case True
    then have "Y' = Y - 256" using Y unfolding Y'_def by (simp add: mod_if)
    then show ?thesis using True unfolding uV n_def YV by auto
  next
    case False
    then show ?thesis unfolding uV n_def YV Y'_def by auto
  qed
  have m: "(7 :: byte) = mask 3" by (simp add: mask_eq_exp_minus_1)
  have dxe: "unat (PPU_BG_HScrlOrg p AND 7) = dx"
    unfolding m dx_def using unat_and_mask[of "PPU_BG_HScrlOrg p" 3] by simp
  have he: "unat (drop_bit 3 (PPU_BG_HScrlOrg p)) = h"
    by (simp only: unsigned_drop_bit_eq h_def) (simp add: drop_bit_eq_div take_bit_nat_eq_self)
  let ?c1 = "concat (map (\<lambda>x. map (bg_color rom p n Y' x) [0..<8]) [h..<32])"
  let ?c2 = "concat (map (\<lambda>x. map (bg_color rom p (n XOR NAME_TABLE_H_MASK) Y' x) [0..<8]) [0..<h + 1])"
  have left: "bg_screen rom p y X = bg_color rom p n Y' (X div 8) (X mod 8)" if "X < 256" for X
  proof -
    have "X div 8 mod 32 = X div 8" using that by (intro mod_less) linarith
    then show ?thesis using that unfolding bg_screen_def Let_def
      n_def[unfolded Y_def, symmetric] Y'_def[unfolded Y_def, symmetric] by simp
  qed
  have right: "bg_screen rom p y (X + 256) = bg_color rom p (n XOR NAME_TABLE_H_MASK) Y' (X div 8) (X mod 8)"
    if "X < 256" for X
  proof -
    have "X div 8 < 32" using that by linarith
    moreover have "(X + 256) div 8 = X div 8 + 32" by presburger
    ultimately have "(X + 256) div 8 mod 32 = X div 8" by simp
    moreover have "(X + 256) mod 8 = X mod 8" by presburger
    moreover note that
    ultimately have e: "(X + 256) div 8 mod 32 = X div 8" "(X + 256) mod 8 = X mod 8" by simp_all
    show ?thesis unfolding bg_screen_def Let_def e n_def[unfolded Y_def, symmetric] Y'_def[unfolded Y_def, symmetric]
      by simp
  qed
  have "?c1 = map (\<lambda>X. bg_color rom p n Y' (X div 8) (X mod 8)) [8 * h..<256]"
    using concat_tiles[of h 32] h by simp
  then have c1: "?c1 = map (bg_screen rom p y) [8 * h..<256]"
    by (simp only:) (rule map_cong, simp, simp add: left)
  have "?c2 = map (\<lambda>X. bg_color rom p (n XOR NAME_TABLE_H_MASK) Y' (X div 8) (X mod 8)) [0..<8 * (h + 1)]"
    using concat_tiles[of 0 "h + 1"] by simp
  also have "\<dots> = map (bg_screen rom p y) (map (\<lambda>X. X + 256) [0..<8 * (h + 1)])"
    using h by (simp add: right)
  finally have "?c2 = map (bg_screen rom p y) (map (\<lambda>X. X + 256) [0..<8 * (h + 1)])" .
  then have c2: "?c2 = map (bg_screen rom p y) [256..<256 + 8 * (h + 1)]"
    by (simp only: map_add_upt add.commute)
  have l: "length (Buffer_scanline p) = 272" using assms(1) by (simp add: ppu_wf_def)
  have dx8: "dx < 8" by (simp add: dx_def)
  have f1: "fold_opt (bg_tile rom n (int (Y' div 8)) (int (Y' mod 8))) [h..<32] (8 - dx, p) =
     Some (8 - dx + length ?c1, p\<lparr>Buffer_scanline := paint (8 - dx) ?c1 (Buffer_scanline p)\<rparr>)"
    using fold_opt_paint[of "[h..<32]" 272 "\<lambda>x. map (bg_color rom p n Y' x) [0..<8]"
        "bg_tile rom n (int (Y' div 8)) (int (Y' mod 8))" p "Buffer_scanline p" "8 - dx"]
      bg_tile_eq[OF assms(1,2) n4(1) Y'] l h dx8 by (simp add: c1)
  have f2: "fold_opt (bg_tile rom (n XOR NAME_TABLE_H_MASK) (int (Y' div 8)) (int (Y' mod 8))) [0..<h + 1]
      (8 - dx + length ?c1, p\<lparr>Buffer_scanline := paint (8 - dx) ?c1 (Buffer_scanline p)\<rparr>) =
     Some (8 - dx + length ?c1 + length ?c2, p\<lparr>Buffer_scanline :=
       paint (8 - dx + length ?c1) ?c2 (paint (8 - dx) ?c1 (Buffer_scanline p))\<rparr>)"
  proof (rule fold_opt_paint[where n = 272], goal_cases)
    case (1 x cnt b)
    then have "x < 32" using h by (simp only: set_upt atLeastLessThan_iff) linarith
    then show ?case using bg_tile_eq[OF assms(1,2) n4(2) Y' _ 1(2)] 1(3) by simp
  next
    case 3
    show ?case unfolding c1 c2 length_map length_upt using h dx8 by (simp add: algebra_simps)
  qed (simp add: l)
  have cc: "?c1 @ ?c2 = map (bg_screen rom p y) [h * 8..<h * 8 + 264]"
  proof -
    have "[8 * h..<256] @ [256..<256 + 8 * (h + 1)] = [8 * h..<256 + 8 * (h + 1)]"
      using h upt_add_eq_append[of "8 * h" 256 "8 * (h + 1)"] by simp
    moreover have "256 + 8 * (h + 1) = h * 8 + 264" "8 * h = h * 8" by simp_all
    ultimately have "[8 * h..<256] @ [256..<256 + 8 * (h + 1)] = [h * 8..<h * 8 + 264]" by metis
    then show ?thesis unfolding c1 c2 map_append[symmetric] by (rule arg_cong)
  qed
  have e: "int Y' div 8 = int (Y' div 8)" "int Y' mod 8 = int (Y' mod 8)"
    by (simp_all add: zdiv_int zmod_int)
  have st: "p\<lparr>Buffer_scanline := Buffer_scanline p\<rparr> = p" by simp
  show ?thesis
    unfolding NES_RenderBGLine_def Let_def scroll case_prod_conv dxe he int_and_7 e f1
      Option.bind.bind_lunit f2 snd_conv paint_append[symmetric] cc
      h_def[symmetric] dx_def[symmetric] by (rule refl)
qed

text \<open>
  C8: the background line is the picture the name table, attribute and pattern bytes describe:
  cell \<open>8 - dx + k\<close> of the line buffer shows world column \<open>8 (H div 8) + k\<close>, transparent pixels keep
  what the cell had, and no other cell changes.
\<close>

theorem background_line_pixels:
  assumes "ppu_wf rom p" "palette_ok p" "y < 240" "k < 264"
  shows "\<exists>q. NES_RenderBGLine rom (int y) p = Some q \<and>
    (let H = unat (PPU_BG_HScrlOrg p); cell = 8 - H mod 8 + k in
       Buffer_scanline q ! cell = (case bg_screen rom p y (H div 8 * 8 + k) of
         None \<Rightarrow> Buffer_scanline p ! cell | Some c \<Rightarrow> c)) \<and>
    (\<forall>i < 8 - unat (PPU_BG_HScrlOrg p) mod 8. Buffer_scanline q ! i = Buffer_scanline p ! i)"
proof -
  have l: "length (Buffer_scanline p) = 272" using assms(1) by (simp add: ppu_wf_def)
  define d where "d = 8 - unat (PPU_BG_HScrlOrg p) mod 8"
  have d: "d \<le> 8" by (simp add: d_def)
  show ?thesis
    unfolding NES_RenderBGLine_eq[OF assms(1-3)] Let_def d_def[symmetric]
    using assms(4) l d by (simp add: nth_paint nth_paint_out)
qed

section \<open>A whole line\<close>

lemma line_index: "i \<in> set [7..<264] \<Longrightarrow> i < 272"
  unfolding set_upt atLeastLessThan_iff by linarith

lemma fill_line_drawn:
  assumes "ppu_wf rom p" "palette_ok p"
  shows "\<exists>q. fill_line p = Some q \<and> drawn p q"
  unfolding fill_line_def
proof (rule fold_opt_drawn, goal_cases)
  case (1 i q)
  have ok: "ppu_wf rom q" "palette_ok q" using drawn_ok[OF 1(2) assms] by blast+
  then have "pal_color (image_palette (PPU_Mem q)) 0 \<noteq> None"
    using pal_color_total[of "image_palette (PPU_Mem q)" 0] by (simp add: ppu_wf_def palette_ok_def)
  moreover have "i < length (Buffer_scanline q)"
    using line_index[OF 1(1)] ok(1) by (simp add: ppu_wf_def)
  ultimately show ?case using put_pixel_drawn by auto
qed

lemma black_line_drawn:
  assumes "ppu_wf rom p"
  shows "\<exists>q. fold_opt (\<lambda>i. put_pixel i c) [7..<264] p = Some q \<and> drawn p q"
proof (rule fold_opt_drawn, goal_cases)
  case (1 i q)
  then have "i < length (Buffer_scanline q)"
    using line_index[OF 1(1)] assms drawnD(8)[OF 1(2)] by (simp add: ppu_wf_def)
  then show ?case by (rule put_pixel_drawn)
qed

lemma NES_RenderBGLine_drawn:
  assumes "ppu_wf rom p" "palette_ok p" "y < 240"
  shows "\<exists>q. NES_RenderBGLine rom (int y) p = Some q \<and> drawn p q"
  unfolding NES_RenderBGLine_eq[OF assms] by (simp add: drawn_def)

text \<open>One more drawing stage after \<open>q\<close>.\<close>

lemma then_drawn:
  "drawn p q \<Longrightarrow> \<exists>r. m = Some r \<and> drawn q r \<Longrightarrow> \<exists>r. m = Some r \<and> drawn p r"
  using drawn_trans by blast

lemma compose_line_drawn:
  assumes "ppu_wf rom p" "palette_ok p" "y < 240"
  shows "\<exists>q. compose_line rom (int y) p = Some q \<and> drawn p q"
proof (cases "ppu_R1 p AND (R1_BG_VISIBLE OR R1_SPR_VISIBLE) \<noteq> 0")
  case True
  obtain a where a: "fill_line p = Some a" "drawn p a" using fill_line_drawn[OF assms(1,2)] by blast
  note oka = drawn_ok[OF a(2) assms(1,2)]
  define sz where "sz = (if ppu_R0 a AND R0_SPR_SIZE \<noteq> 0 then 0x0F else 0x07 :: int)"
  obtain b where b: "(if ppu_R1 a AND R1_SPR_VISIBLE \<noteq> 0
      then render_sprites rom True (int y) sz (rev [0..<64]) 0 a else Some a) = Some b" "drawn a b"
    using render_sprites_drawn[of rom a sz True "int y" "rev [0..<64]" 0] oka
    by (cases "ppu_R1 a AND R1_SPR_VISIBLE \<noteq> 0") (auto simp: sz_def)
  note okb = drawn_ok[OF b(2) oka[THEN conjunct1] oka[THEN conjunct2]]
  obtain c where c: "(if ppu_R1 b AND R1_BG_VISIBLE \<noteq> 0 then NES_RenderBGLine rom (int y) b
      else Some b) = Some c" "drawn b c"
    using NES_RenderBGLine_drawn[of rom b y] okb assms(3)
    by (cases "ppu_R1 b AND R1_BG_VISIBLE \<noteq> 0") auto
  note okc = drawn_ok[OF c(2) okb[THEN conjunct1] okb[THEN conjunct2]]
  have R0: "ppu_R0 c = ppu_R0 a" using drawnD(2)[OF b(2)] drawnD(2)[OF c(2)] by simp
  obtain d where d: "(if ppu_R1 c AND R1_SPR_VISIBLE \<noteq> 0
      then render_sprites rom False (int y) sz (rev [0..<64]) 0 c else Some c) = Some d" "drawn c d"
    using render_sprites_drawn[of rom c sz False "int y" "rev [0..<64]" 0] okc R0
    by (cases "ppu_R1 c AND R1_SPR_VISIBLE \<noteq> 0") (auto simp: sz_def)
  have "drawn p d" using a(2) b(2) c(2) d(2) drawn_trans by blast
  then show ?thesis
    unfolding compose_line_def if_P[OF True] a(1) Option.bind.bind_lunit sz_def[symmetric] b(1) c(1) d(1) by simp
next
  case False
  then show ?thesis using black_line_drawn[OF assms(1), of 0] by (simp add: compose_line_def)
qed

text \<open>
  C9: on a well-formed state with colours below 64 a visible line is drawn without any access
  outside a buffer, the state stays well formed, and in the frame buffer exactly the 256 pixels of
  that row are replaced, by the first 256 cells of the line buffer.
\<close>

theorem render_line_safe:
  assumes "ppu_wf rom p" "palette_ok p" "y < 240"
  shows "\<exists>q. NES_RenderLine rom (int y) p = Some q \<and> ppu_wf rom q \<and> palette_ok q \<and>
    (\<forall>k < 307200. framebuffer q ! k =
       (if y * 640 \<le> k \<and> k < y * 640 + 256 then Buffer_scanline q ! (k - y * 640)
        else framebuffer p ! k))"
proof -
  define s where "s = set_R2 (ppu_R2 p AND NOT R2_LOST_SPR) p"
  have ds: "drawn p s" by (simp add: s_def)
  have ok: "ppu_wf rom s" "palette_ok s" using drawn_ok[OF ds assms(1,2)] by blast+
  obtain q where q: "NES_RenderLine rom (int y) p = copy_line (int y) q" "drawn s q"
    using compose_line_drawn[OF ok assms(3)]
    unfolding NES_RenderLine_def Option.bind.bind_lunit s_def[symmetric] by auto
  have dq: "drawn p q" using drawn_trans[OF ds q(2)] .
  have fb: "framebuffer q = framebuffer p" by (rule drawnD(7)[OF dq])
  have wfq: "ppu_wf rom q" "palette_ok q" using drawn_ok[OF dq assms(1,2)] by blast+
  have len: "length (framebuffer q) = 307200" "length (Buffer_scanline q) = 272"
    using wfq by (simp_all add: ppu_wf_def)
  have "y * 640 + 256 \<le> 307200" using assms(3) by linarith
  then show ?thesis using wfq len
    by (auto simp: q(1) copy_line_def Let_def LV_HOR_RES_def ppu_wf_def palette_ok_def nth_append fb)
qed

text \<open>
  The palette bytes are not masked to six bits, so once the universal background colour is 64
  or more the next visible line reads behind the end of the colour table.
\<close>

theorem render_line_color_overrun:
  assumes "ppu_wf rom p" "ppu_R1 p AND (R1_BG_VISIBLE OR R1_SPR_VISIBLE) \<noteq> 0"
    "64 \<le> image_palette (PPU_Mem p) ! 0"
  shows "NES_RenderLine rom y p = None"
proof -
  have c: "pal_color (image_palette (PPU_Mem p)) 0 = None"
    using assms(1,3) by (simp add: pal_color_def ppu_wf_def length_NES_Color_Palette word_le_nat_alt)
  have "[7..<264] = 7 # [8..<264]" by (simp add: upt_rec[of 7])
  then show ?thesis using assms(2) c
    by (simp add: NES_RenderLine_def compose_line_def fill_line_def set_R2_def)
qed

end
