(* ===== verification/NesFrame.thy ===== *)
theory NesFrame
  imports NesClock NesRenderSpec
begin

text \<open>
  \<open>NesFrameCycle\<close> of \<open>nes-old/nes_main.c\<close>: processor and picture unit in step, 262 scan lines of
  113 cycles a frame. The first argument of every definition bounds the instructions of one call
  of \<open>exec6502\<close>. \<open>frame_cnt\<close> is passed along.
\<close>

section \<open>One frame\<close>

definition CLOCKS_PER_SCANLINE :: int where "CLOCKS_PER_SCANLINE = 113"
definition NES_DISP_WIDTH :: int where "NES_DISP_WIDTH = 256"
definition SCAN_LINE_DISPALY_START_NUM :: int where "SCAN_LINE_DISPALY_START_NUM = 21"
definition SCAN_LINE_DISPALY_END_NUM :: int where "SCAN_LINE_DISPALY_END_NUM = 261"

definition on_ppu :: "(ppu \<Rightarrow> ppu) \<Rightarrow> nes \<Rightarrow> nes" where
  "on_ppu f s = s\<lparr>ppu := f (ppu s)\<rparr>"

definition next_line :: "nes \<Rightarrow> nes" where
  "next_line = on_ppu (\<lambda>p. p\<lparr>PPU_scanline := PPU_scanline p + 1\<rparr>)"

text \<open>
  The processor's share of a visible line: when the sprite-zero hit is pending the slice is cut
  at the sprite's column so that the program sees the flag from there on.
\<close>

definition line_exec :: "nat \<Rightarrow> nes \<Rightarrow> nes loop_result" where
  "line_exec fuel s =
     (if SpriteHitFlag (ppu s) \<and> ppu_R2 (ppu s) AND R2_SPR0_HIT = 0 then
        (let clocks = uint (spr_x (sprite (ppu s) 0)) * CLOCKS_PER_SCANLINE div NES_DISP_WIDTH in
         lr_bind (exec6502 fuel clocks s) (\<lambda>s.
           let s = on_ppu (\<lambda>p. set_R2 (ppu_R2 p OR R2_SPR0_HIT) p) s in
           exec6502 fuel (CLOCKS_PER_SCANLINE - clocks) s))
      else exec6502 fuel CLOCKS_PER_SCANLINE s)"

text \<open>The picture's share: look for the hit, and draw every third frame.\<close>

definition line_draw :: "byte \<Rightarrow> nes \<Rightarrow> nes option" where
  "line_draw frame_cnt s = do {
     s \<leftarrow> (if ppu_R1 (ppu s) AND (R1_BG_VISIBLE OR R1_SPR_VISIBLE) \<noteq> 0 \<and> \<not> SpriteHitFlag (ppu s)
           then do {
             p \<leftarrow> NES_GetSpr0HitFlag (rom_file s) (PPU_scanline (ppu s) - SCAN_LINE_DISPALY_START_NUM) (ppu s);
             Some (s\<lparr>ppu := p\<rparr>) }
           else Some s);
     if frame_cnt mod 3 = 0
     then do {
       p \<leftarrow> NES_RenderLine (rom_file s) (PPU_scanline (ppu s) - SCAN_LINE_DISPALY_START_NUM) (ppu s);
       Some (s\<lparr>ppu := p\<rparr>) }
     else Some s }"

definition visible_line :: "nat \<Rightarrow> byte \<Rightarrow> nes \<Rightarrow> nes loop_result" where
  "visible_line fuel frame_cnt s =
     lr_bind (line_exec fuel s) (\<lambda>s. lr_bind (lr_opt (line_draw frame_cnt s)) (\<lambda>s. Returned (next_line s)))"

definition blank_line :: "nat \<Rightarrow> nes \<Rightarrow> nes loop_result" where
  "blank_line fuel s = lr_bind (exec6502 fuel CLOCKS_PER_SCANLINE s) (\<lambda>s. Returned (next_line s))"

text \<open>The body of \<open>while(nesruning)\<close>.\<close>

definition nes_frame :: "nat \<Rightarrow> byte \<Rightarrow> nes \<Rightarrow> nes loop_result" where
  "nes_frame fuel frame_cnt s = (let
     s = on_ppu (\<lambda>p. p\<lparr>SpriteHitFlag := False, PPU_scanline := 0\<rparr>) s in
     lr_bind (lr_while 20 (\<lambda>s. PPU_scanline (ppu s) < 20) (blank_line fuel) s) (\<lambda>s.
     lr_bind (blank_line fuel s) (\<lambda>s. let
       s = on_ppu (\<lambda>p. set_R2 (ppu_R2 p AND NOT R2_SPR0_HIT) p) s in
     lr_bind (lr_while 240 (\<lambda>s. PPU_scanline (ppu s) < SCAN_LINE_DISPALY_END_NUM)
               (visible_line fuel frame_cnt) s) (\<lambda>s.
     lr_bind (exec6502 fuel CLOCKS_PER_SCANLINE s) (\<lambda>s. let
       s = on_ppu (\<lambda>p. set_R2 (ppu_R2 p OR R2_VBlank_Flag) p) s in
     Returned (if ppu_R0 (ppu s) AND R0_VB_NMI_EN \<noteq> 0 then s\<lparr>NMI_Flag := True\<rparr> else s))))))"

text \<open>
  \<open>nesruning\<close> is set before the loop, and the statements that would clear it are commented out:
  after \<open>n\<close> frames the loop is still running.
\<close>

primrec NesFrames :: "nat \<Rightarrow> nat \<Rightarrow> byte \<Rightarrow> nes \<Rightarrow> nes loop_result" where
  "NesFrames 0 fuel frame_cnt s = Running s"
| "NesFrames (Suc n) fuel frame_cnt s =
     lr_bind (nes_frame fuel (frame_cnt + 1) s) (NesFrames n fuel (frame_cnt + 1))"

definition NesFrameCycle :: "nat \<Rightarrow> nat \<Rightarrow> nes \<Rightarrow> nes loop_result" where
  "NesFrameCycle n fuel s = NesFrames n fuel 0 s"

section \<open>What a frame keeps\<close>

lemma on_ppu_wf: "nes_wf s \<Longrightarrow> ppu_wf (rom_file s) (f (ppu s)) \<Longrightarrow> nes_wf (on_ppu f s)"
  by (simp add: nes_wf_def on_ppu_def)

lemma wf_ppu: "nes_wf s \<Longrightarrow> ppu_wf (rom_file s) (ppu s)"
  by (simp add: nes_wf_def)

text \<open>Drawing, whatever the colours: where it succeeds, only the line buffer changed.\<close>

lemma fold_opt_rel:
  assumes "\<And>x s t. f x s = Some t \<Longrightarrow> R s t" "\<And>s. R s s" "\<And>s t u. R s t \<Longrightarrow> R t u \<Longrightarrow> R s u"
  shows "fold_opt f xs s = Some t \<Longrightarrow> R s t"
proof (induction xs arbitrary: s)
  case (Cons x xs)
  then obtain u where "f x s = Some u" "fold_opt f xs u = Some t" by (auto elim!: bindE)
  then show ?case using assms Cons.IH by blast
qed (simp add: assms(2))

lemma put_pixel_keeps: "put_pixel i c p = Some q \<Longrightarrow> drawn p q"
  by (auto simp: put_pixel_def drawn_def mem_wr_eq_Some_iff bind_eq_Some_conv)

lemma fold_drawn: "fold_opt f xs p = Some q \<Longrightarrow> (\<And>x s t. f x s = Some t \<Longrightarrow> drawn s t) \<Longrightarrow> drawn p q"
  by (rule fold_opt_rel[where R = drawn]) (auto intro: drawn_trans)

lemma fold_drawn_snd:
  assumes "fold_opt f xs st = Some st'" "\<And>x s t. f x s = Some t \<Longrightarrow> drawn (snd s) (snd t)"
  shows "drawn (snd st) (snd st')"
  by (rule fold_opt_rel[where R = "\<lambda>s t. drawn (snd s) (snd t)", OF _ _ _ assms(1)])
    (auto intro: drawn_trans assms(2))

lemma spr_pixel_step_keeps: "spr_pixel_step s L H i p = Some q \<Longrightarrow> drawn p q"
  by (auto simp: spr_pixel_step_def Let_def bind_eq_Some_conv put_pixel_keeps split: if_split_asm)

lemma NES_RenderSprPattern_keeps: "NES_RenderSprPattern rom s tab ta dy p = Some q \<Longrightarrow> drawn p q"
  unfolding NES_RenderSprPattern_def Let_def
  by (auto elim!: bindE dest!: fold_drawn intro: spr_pixel_step_keeps split: if_split_asm)

lemma NES_RenderSprite_keeps:
  "NES_RenderSprite88 rom s dy p = Some q \<Longrightarrow> drawn p q"
  "NES_RenderSprite16 rom s dy p = Some q \<Longrightarrow> drawn p q"
  unfolding NES_RenderSprite88_def NES_RenderSprite16_def
  by (auto dest: NES_RenderSprPattern_keeps split: if_split_asm)

lemma render_sprites_keeps: "render_sprites rom behind y sz is cnt p = Some q \<Longrightarrow> drawn p q"
proof (induction "is" arbitrary: cnt p)
  case (Cons i is')
  then show ?case
    unfolding render_sprites.simps Let_def
    by (auto elim!: bindE dest!: NES_RenderSprite_keeps Cons.IH intro: drawn_trans split: if_split_asm)
qed simp

lemma bg_pixel_step_keeps: "bg_pixel_step L H a i st = Some st' \<Longrightarrow> drawn (snd st) (snd st')"
  by (cases st) (auto simp: bg_pixel_step_def Let_def elim!: bindE dest!: put_pixel_keeps split: if_split_asm)

lemma bg_tile_keeps: "bg_tile rom n ty dy x st = Some st' \<Longrightarrow> drawn (snd st) (snd st')"
  by (cases st) (auto simp: bg_tile_def Let_def elim!: bindE dest!: fold_drawn_snd intro: bg_pixel_step_keeps)

lemma bg_tiles_keep:
  "fold_opt (bg_tile rom n ty dy) xs st = Some st' \<Longrightarrow> drawn (snd st) (snd st')"
  by (erule fold_drawn_snd) (rule bg_tile_keeps)

lemma NES_RenderBGLine_keeps: "NES_RenderBGLine rom y p = Some q \<Longrightarrow> drawn p q"
  unfolding NES_RenderBGLine_def Let_def case_prod_beta
proof (elim bindE, goal_cases)
  case (1 a b)
  then show ?case using bg_tiles_keep[OF 1(1)] bg_tiles_keep[OF 1(2)]
    by (metis drawn_trans option.inject snd_conv)
qed

lemma fill_line_keeps: "fill_line p = Some q \<Longrightarrow> drawn p q"
  unfolding fill_line_def by (erule fold_drawn) (auto elim!: bindE dest: put_pixel_keeps)

lemma compose_line_keeps: "compose_line rom y p = Some q \<Longrightarrow> drawn p q"
  unfolding compose_line_def
proof (split if_split_asm, goal_cases)
  case 1
  from 1(2) show ?case
  proof (elim bindE, goal_cases)
    case (1 a sz b c)
    have "drawn p a" using 1(1) by (rule fill_line_keeps)
    moreover have "drawn a b" using 1(3) by (auto dest: render_sprites_keeps split: if_split_asm)
    moreover have "drawn b c" using 1(4) by (auto dest: NES_RenderBGLine_keeps split: if_split_asm)
    moreover have "drawn c q" using 1(5) by (auto dest: render_sprites_keeps split: if_split_asm)
    ultimately show ?case using drawn_trans by blast
  qed
next
  case 2
  from 2(2) show ?case by (rule fold_drawn) (rule put_pixel_keeps)
qed

lemma NES_RenderLine_keeps:
  assumes "NES_RenderLine rom y p = Some q" "ppu_wf rom p"
  shows "ppu_wf rom q \<and> PPU_scanline q = PPU_scanline p \<and> SpriteHitFlag q = SpriteHitFlag p"
proof -
  obtain r where r: "compose_line rom y (set_R2 (ppu_R2 p AND NOT R2_LOST_SPR) p) = Some r"
      "copy_line y r = Some q"
    using assms(1) unfolding NES_RenderLine_def by (auto elim!: bindE)
  have d: "drawn p r" using compose_line_keeps[OF r(1)] drawn_set_R2 drawn_trans by blast
  have "ppu_wf rom r" using drawnD(12)[OF d] assms(2) by simp
  then show ?thesis using r(2) d
    by (auto simp: copy_line_def Let_def drawn_def ppu_wf_def LV_HOR_RES_def split: if_splits)
qed

text \<open>Only the last step of a chain matters here.\<close>

lemma bind_lastE: "Option.bind m f = Some y \<Longrightarrow> (\<And>x. f x = Some y \<Longrightarrow> P) \<Longrightarrow> P"
  by (cases m) auto

lemma NES_GetSpr0HitFlag_keeps:
  "NES_GetSpr0HitFlag rom y p = Some q \<Longrightarrow> q = p \<or> q = p\<lparr>SpriteHitFlag := True\<rparr>"
  unfolding NES_GetSpr0HitFlag_def Let_def case_prod_beta
  by (split if_split_asm, simp, elim bind_lastE, simp split: if_split_asm)

lemma on_ppu_sel [simp]: "ppu (on_ppu f s) = f (ppu s)" "rom_file (on_ppu f s) = rom_file s"
  by (simp_all add: on_ppu_def)

lemma nes_wf_set_ppu: "nes_wf s \<Longrightarrow> ppu_wf (rom_file s) p \<Longrightarrow> nes_wf (s\<lparr>ppu := p\<rparr>)"
  by (simp add: nes_wf_def)

lemma line_draw_keeps:
  assumes "line_draw fc s = Some t" "nes_wf s"
  shows "nes_wf t \<and> PPU_scanline (ppu t) = PPU_scanline (ppu s)"
proof -
  from assms(1) obtain u where
    u: "u = s \<or> (\<exists>y p. NES_GetSpr0HitFlag (rom_file s) y (ppu s) = Some p \<and> u = s\<lparr>ppu := p\<rparr>)"
    and t: "t = u \<or> (\<exists>y p. NES_RenderLine (rom_file u) y (ppu u) = Some p \<and> t = u\<lparr>ppu := p\<rparr>)"
    unfolding line_draw_def
  proof (elim bindE, goal_cases)
    case (1 u)
    have "u = s \<or> (\<exists>y p. NES_GetSpr0HitFlag (rom_file s) y (ppu s) = Some p \<and> u = s\<lparr>ppu := p\<rparr>)"
      using 1(2) by (auto elim!: bindE split: if_split_asm)
    moreover have "t = u \<or> (\<exists>y p. NES_RenderLine (rom_file u) y (ppu u) = Some p \<and> t = u\<lparr>ppu := p\<rparr>)"
      using 1(3) by (auto elim!: bindE split: if_split_asm)
    ultimately show ?thesis by (rule 1(1))
  qed
  have wu: "nes_wf u \<and> PPU_scanline (ppu u) = PPU_scanline (ppu s)"
    using u assms(2) wf_ppu[OF assms(2)] by (auto dest!: NES_GetSpr0HitFlag_keeps intro!: nes_wf_set_ppu)
  then show ?thesis
    using t by (auto dest!: NES_RenderLine_keeps[OF _ wf_ppu] intro!: nes_wf_set_ppu)
qed

text \<open>The invariant of the line loops: well formed, and the line counter at \<open>k\<close>.\<close>

definition at_line :: "int \<Rightarrow> nes \<Rightarrow> bool" where
  "at_line k s \<longleftrightarrow> nes_wf s \<and> PPU_scanline (ppu s) = k"

lemma exec_at_line: "exec6502 fuel T s = Returned t \<Longrightarrow> at_line k s \<Longrightarrow> at_line k t"
  unfolding at_line_def using wf.exec6502_inv line.exec6502_inv by blast

lemma on_ppu_at_line:
  "at_line k s \<Longrightarrow> (\<And>p. ppu_wf (rom_file s) p \<Longrightarrow> ppu_wf (rom_file s) (f p) \<and> PPU_scanline (f p) = g (PPU_scanline p)) \<Longrightarrow>
   at_line (g k) (on_ppu f s)"
  by (simp add: at_line_def on_ppu_def nes_wf_set_ppu wf_ppu)

lemma next_line_at: "at_line k s \<Longrightarrow> at_line (k + 1) (next_line s)"
  unfolding next_line_def by (rule on_ppu_at_line[where g = "\<lambda>k. k + 1"]) auto

lemma set_R2_at: "at_line k s \<Longrightarrow> at_line k (on_ppu (\<lambda>p. set_R2 (g p) p) s)"
  by (rule on_ppu_at_line[where g = id, unfolded id_apply]) (auto simp: set_R2_def ppu_wf_def)

lemma blank_line_at: "blank_line fuel s = Returned t \<Longrightarrow> at_line k s \<Longrightarrow> at_line (k + 1) t"
  unfolding blank_line_def by (auto elim!: lr_bindE dest: exec_at_line intro: next_line_at)

lemma line_exec_at:
  assumes "line_exec fuel s = Returned t" "at_line k s"
  shows "at_line k t"
proof (cases "SpriteHitFlag (ppu s) \<and> ppu_R2 (ppu s) AND R2_SPR0_HIT = 0")
  case True
  then obtain u c where u: "exec6502 fuel c s = Returned u"
    "exec6502 fuel (CLOCKS_PER_SCANLINE - c) (on_ppu (\<lambda>p. set_R2 (ppu_R2 p OR R2_SPR0_HIT) p) u) = Returned t"
    using assms(1) unfolding line_exec_def Let_def by (auto elim!: lr_bindE)
  have "at_line k (on_ppu (\<lambda>p. set_R2 (ppu_R2 p OR R2_SPR0_HIT) p) u)"
    by (rule set_R2_at[OF exec_at_line[OF u(1) assms(2)]])
  then show ?thesis by (rule exec_at_line[OF u(2)])
next
  case False
  then show ?thesis using assms exec_at_line unfolding line_exec_def by (metis (full_types))
qed

lemma visible_line_at: "visible_line fuel fc s = Returned t \<Longrightarrow> at_line k s \<Longrightarrow> at_line (k + 1) t"
  unfolding visible_line_def
proof (elim lr_bindE, goal_cases)
  case (1 u v)
  have "at_line k u" using line_exec_at[OF 1(2,1)] .
  then have "at_line k v" using 1(3) line_draw_keeps[of fc u v] by (simp add: at_line_def)
  then show ?case using 1(4) next_line_at by auto
qed

lemma line_loop:
  assumes "lr_while n (\<lambda>s. PPU_scanline (ppu s) < e) b s = Returned t" "at_line k s" "k \<le> e"
    "\<And>s t k. b s = Returned t \<Longrightarrow> at_line k s \<Longrightarrow> at_line (k + 1) t"
  shows "at_line e t"
proof -
  have "(\<exists>k\<le>e. at_line k t) \<and> \<not> PPU_scanline (ppu t) < e"
  proof (rule lr_while_Returned[OF assms(1), of "\<lambda>s. \<exists>k\<le>e. at_line k s"])
    fix s t assume "\<exists>k\<le>e. at_line k s" "PPU_scanline (ppu s) < e" "b s = Returned t"
    then obtain j where "at_line j s" "j + 1 \<le> e" by (auto simp: at_line_def)
    then show "\<exists>k\<le>e. at_line k t" using assms(4)[OF \<open>b s = Returned t\<close>] by blast
  qed (use assms(2,3) in blast)
  then show ?thesis by (auto simp: at_line_def)
qed

text \<open>
  C10: a frame that completes leaves the machine well formed, with the line counter at 261, the
  vertical-blank flag set in the status register, and an NMI pending exactly as far as the
  program enabled it or one was left over.
\<close>

theorem frame_completes:
  assumes "nes_frame fuel fc s = Returned t" "nes_wf s"
  shows "nes_wf t \<and> PPU_scanline (ppu t) = 261 \<and> bit (ppu_R2 (ppu t)) 7 \<and>
    (ppu_R0 (ppu t) AND R0_VB_NMI_EN \<noteq> 0 \<longrightarrow> NMI_Flag t)"
proof -
  have s0: "at_line 0 (on_ppu (\<lambda>p. p\<lparr>SpriteHitFlag := False, PPU_scanline := 0\<rparr>) s)"
    using assms(2) by (simp add: at_line_def on_ppu_def nes_wf_set_ppu wf_ppu)
  from assms(1) obtain a b c d where
    a: "lr_while 20 (\<lambda>s. PPU_scanline (ppu s) < 20) (blank_line fuel)
        (on_ppu (\<lambda>p. p\<lparr>SpriteHitFlag := False, PPU_scanline := 0\<rparr>) s) = Returned a"
    and b: "blank_line fuel a = Returned b"
    and c: "lr_while 240 (\<lambda>s. PPU_scanline (ppu s) < SCAN_LINE_DISPALY_END_NUM) (visible_line fuel fc)
        (on_ppu (\<lambda>p. set_R2 (ppu_R2 p AND NOT R2_SPR0_HIT) p) b) = Returned c"
    and d: "exec6502 fuel CLOCKS_PER_SCANLINE c = Returned d"
    and t: "t = (let s = on_ppu (\<lambda>p. set_R2 (ppu_R2 p OR R2_VBlank_Flag) p) d in
        if ppu_R0 (ppu s) AND R0_VB_NMI_EN \<noteq> 0 then s\<lparr>NMI_Flag := True\<rparr> else s)"
    unfolding nes_frame_def Let_def by (auto elim!: lr_bindE)
  have "at_line 20 a" by (rule line_loop[OF a s0]) (auto intro: blank_line_at)
  then have "at_line 21 b" using blank_line_at[OF b, of 20] by simp
  then have "at_line 21 (on_ppu (\<lambda>p. set_R2 (ppu_R2 p AND NOT R2_SPR0_HIT) p) b)" by (rule set_R2_at)
  from line_loop[OF c this] have "at_line 261 c"
    by (auto simp: SCAN_LINE_DISPALY_END_NUM_def intro: visible_line_at)
  from set_R2_at[OF exec_at_line[OF d this]]
  have "at_line 261 (on_ppu (\<lambda>p. set_R2 (ppu_R2 p OR R2_VBlank_Flag) p) d)" .
  moreover have "bit (x OR R2_VBlank_Flag) 7" for x by (simp add: R2_VBlank_Flag_def bit_or_iff)
  ultimately show ?thesis by (simp add: t Let_def at_line_def set_R2_def on_ppu_def)
qed

text \<open>
  The frame loop has no exit: whatever number of frames has run, it has not returned.
\<close>

theorem frame_loop_never_returns: "NesFrameCycle n fuel s \<noteq> Returned t"
proof -
  have "NesFrames n fuel fc s \<noteq> Returned t" for fc s
    by (induction n arbitrary: fc s) (auto elim: lr_bindE)
  then show ?thesis by (simp add: NesFrameCycle_def)
qed

end
