(* ===== verification/NesIdle.thy ===== *)
theory NesIdle
  imports NesFrame
begin

text \<open>
  Total correctness on a program that waits: \<open>$8000: JMP $8000\<close> with the display and the NMI off.
  The instruction loop is a measured loop there, so every call of \<open>exec6502\<close> returns within a
  fixed number of instructions, and so does the frame.
\<close>

section \<open>The waiting program\<close>

definition idle_rom :: "nes \<Rightarrow> bool" where
  "idle_rom s \<longleftrightarrow> (\<forall>k\<in>{0..<3}. rom_file s ! (nat (prg_rombank0 s) + k) = [0x4C, 0x00, 0x80] ! k)"

definition idle :: "nes \<Rightarrow> bool" where
  "idle s \<longleftrightarrow> nes_wf s \<and> idle_rom s \<and> pc_reg s = 0x8000 \<and> \<not> NMI_Flag s \<and> \<not> IRQ_Flag s \<and>
     ppu_R0 (ppu s) = 0 \<and> ppu_R1 (ppu s) = 0 \<and> \<not> SpriteHitFlag (ppu s)"

lemma idle_rom_upd [simp]:
  "idle_rom (s\<lparr>opcode := b\<rparr>) = idle_rom s" "idle_rom (s\<lparr>pc_reg := w\<rparr>) = idle_rom s"
  "idle_rom (s\<lparr>savepc := w\<rparr>) = idle_rom s" "idle_rom (s\<lparr>ppu := p\<rparr>) = idle_rom s"
  "idle_rom (s\<lparr>clockticks6502 := n\<rparr>) = idle_rom s"
  by (simp_all add: idle_rom_def)

lemma idle_clock [simp]: "idle (s\<lparr>clockticks6502 := n\<rparr>) = idle s"
  by (simp add: idle_def)

lemma idle_fetch:
  assumes "nes_wf s" "idle_rom s"
  shows "get6502memory s 0x8000 = Some (0x4C, s)" "get6502memory s 0x8001 = Some (0x00, s)"
    "get6502memory s 0x8002 = Some (0x80, s)"
  using get_bank0[OF assms(1), of 0] get_bank0[OF assms(1), of 1] get_bank0[OF assms(1), of 2] assms(2)
  by (simp_all add: idle_rom_def atLeastLessThan_nat_numeral)

lemma idle_step:
  assumes "idle s"
  shows "\<exists>t. cpu_step s = Some t \<and> idle t \<and> clockticks6502 t = clockticks6502 s + 3 \<and> ppu t = ppu s"
  using assms
  by (simp add: idle_def cpu_step_def cur_op_def dma_loop_ops jmp6502_def call_adrmode_def abs6502_def
      get6502word_def idle_fetch)

interpretation idle: measured_loop "\<lambda>s. T > clockticks6502 s" cpu_step
  "\<lambda>s. idle s \<and> PPU_scanline (ppu s) = k" "\<lambda>s. nat (T - clockticks6502 s)" for T k
  using idle_step by unfold_locales fastforce+

lemma exec_idle:
  assumes "idle s" "0 \<le> clockticks6502 s" "nat T \<le> fuel"
  shows "\<exists>t. exec6502 fuel T s = Returned t \<and> idle t \<and> PPU_scanline (ppu t) = PPU_scanline (ppu s) \<and>
    0 \<le> clockticks6502 t"
proof -
  have "nat (T - clockticks6502 s) \<le> fuel" using assms(2,3) by simp
  then obtain t where t: "run_loop fuel (\<lambda>s. T > clockticks6502 s) cpu_step s = Returned t"
    "idle t" "PPU_scanline (ppu t) = PPU_scanline (ppu s)" "\<not> T > clockticks6502 t"
    using idle.returns[where s = s and T = T and k = "PPU_scanline (ppu s)" and n = fuel] assms(1) by auto
  moreover have "check_interrupts s = Some s" using assms(1) by (simp add: idle_def check_interrupts_def)
  ultimately show ?thesis by (simp add: exec6502_def exec_loop_def)
qed

section \<open>A whole frame\<close>

definition idle_at :: "int \<Rightarrow> nes \<Rightarrow> bool" where
  "idle_at k s \<longleftrightarrow> idle s \<and> 0 \<le> clockticks6502 s \<and> PPU_scanline (ppu s) = k"

lemma idle_exec_at:
  "idle_at k s \<Longrightarrow> nat T \<le> fuel \<Longrightarrow> \<exists>t. exec6502 fuel T s = Returned t \<and> idle_at k t"
  using exec_idle[of s T fuel] by (auto simp: idle_at_def)

lemma idle_on_ppu:
  assumes "idle_at k s"
    "ppu_wf (rom_file s) (f (ppu s))" "ppu_R0 (f (ppu s)) = 0" "ppu_R1 (f (ppu s)) = 0"
    "\<not> SpriteHitFlag (f (ppu s))" "PPU_scanline (f (ppu s)) = j"
  shows "idle_at j (on_ppu f s)"
  using assms by (simp add: idle_at_def idle_def on_ppu_def nes_wf_set_ppu)

lemma idle_ppu: "idle_at k s \<Longrightarrow> ppu_wf (rom_file s) (ppu s) \<and> ppu_R0 (ppu s) = 0 \<and> ppu_R1 (ppu s) = 0 \<and>
    \<not> SpriteHitFlag (ppu s) \<and> PPU_scanline (ppu s) = k"
  by (simp add: idle_at_def idle_def wf_ppu)

lemma idle_next: "idle_at k s \<Longrightarrow> idle_at (k + 1) (next_line s)"
  unfolding next_line_def using idle_ppu[of k s] by (intro idle_on_ppu[of k]) auto

lemma idle_R2: "idle_at k s \<Longrightarrow> idle_at k (on_ppu (\<lambda>p. set_R2 (g p) p) s)"
  using idle_ppu[of k s] by (intro idle_on_ppu[of k]) (auto simp: set_R2_def ppu_wf_def)

lemma idle_blank: "idle_at k s \<Longrightarrow> 113 \<le> fuel \<Longrightarrow> \<exists>t. blank_line fuel s = Returned t \<and> idle_at (k + 1) t"
  using idle_exec_at[of k s CLOCKS_PER_SCANLINE fuel] idle_next
  by (auto simp: blank_line_def CLOCKS_PER_SCANLINE_def)

lemma idle_visible:
  assumes "idle_at k s" "113 \<le> fuel" "fc mod 3 \<noteq> 0"
  shows "\<exists>t. visible_line fuel fc s = Returned t \<and> idle_at (k + 1) t"
proof -
  obtain t where t: "exec6502 fuel CLOCKS_PER_SCANLINE s = Returned t" "idle_at k t"
    using idle_exec_at[OF assms(1), of CLOCKS_PER_SCANLINE fuel] assms(2) by (auto simp: CLOCKS_PER_SCANLINE_def)
  then show ?thesis
    using idle_ppu[OF assms(1)] idle_ppu[OF t(2)] idle_next[OF t(2)] assms(3)
    by (simp add: visible_line_def line_exec_def line_draw_def)
qed

lemma idle_lines:
  assumes "\<And>s k. idle_at k s \<Longrightarrow> \<exists>t. b s = Returned t \<and> idle_at (k + 1) t"
  shows "idle_at k s \<Longrightarrow> k \<le> e \<Longrightarrow> nat (e - k) \<le> n \<Longrightarrow>
    \<exists>t. lr_while n (\<lambda>s. PPU_scanline (ppu s) < e) b s = Returned t \<and> idle_at e t"
proof (induction n arbitrary: k s)
  case 0
  then show ?case by (simp add: idle_at_def)
next
  case (Suc n)
  show ?case
  proof (cases "k < e")
    case True
    then obtain t where t: "b s = Returned t" "idle_at (k + 1) t" using assms Suc.prems(1) by blast
    have "k + 1 \<le> e" "nat (e - (k + 1)) \<le> n" using True Suc.prems by simp_all
    from Suc.IH[OF t(2) this] show ?thesis using True Suc.prems(1) t(1) by (simp add: idle_at_def)
  next
    case False
    then show ?thesis using Suc.prems by (simp add: idle_at_def)
  qed
qed

lemma idle_frame:
  assumes "idle s" "0 \<le> clockticks6502 s" "113 \<le> fuel" "fc mod 3 \<noteq> 0"
  shows "\<exists>t. nes_frame fuel fc s = Returned t \<and> idle t \<and> PPU_scanline (ppu t) = 261"
proof -
  let ?s = "on_ppu (\<lambda>p. p\<lparr>SpriteHitFlag := False, PPU_scanline := 0\<rparr>) s"
  have "idle_at (PPU_scanline (ppu s)) s" using assms(1,2) by (simp add: idle_at_def)
  then have s0: "idle_at 0 ?s"
    using idle_ppu by (intro idle_on_ppu) (auto simp: ppu_wf_def)
  obtain u where u: "lr_while 20 (\<lambda>s. PPU_scanline (ppu s) < 20) (blank_line fuel) ?s = Returned u" "idle_at 20 u"
    using idle_lines[of "blank_line fuel", OF _ s0, of 20 20] idle_blank assms(3) by auto
  obtain v where v: "blank_line fuel u = Returned v" "idle_at 21 v"
    using idle_blank[OF u(2) assms(3)] by auto
  let ?v = "on_ppu (\<lambda>p. set_R2 (ppu_R2 p AND NOT R2_SPR0_HIT) p) v"
  obtain w where w: "lr_while 240 (\<lambda>s. PPU_scanline (ppu s) < SCAN_LINE_DISPALY_END_NUM)
      (visible_line fuel fc) ?v = Returned w" "idle_at 261 w"
    using idle_lines[of "visible_line fuel fc",
        OF _ idle_R2[OF v(2), of "\<lambda>p. ppu_R2 p AND NOT R2_SPR0_HIT"], of 261 240] idle_visible assms(3,4)
    by (auto simp: SCAN_LINE_DISPALY_END_NUM_def)
  obtain x where x: "exec6502 fuel CLOCKS_PER_SCANLINE w = Returned x" "idle_at 261 x"
    using idle_exec_at[OF w(2), of CLOCKS_PER_SCANLINE fuel] assms(3) by (auto simp: CLOCKS_PER_SCANLINE_def)
  let ?x = "on_ppu (\<lambda>p. set_R2 (ppu_R2 p OR R2_VBlank_Flag) p) x"
  have e: "idle_at 261 ?x" by (rule idle_R2[OF x(2)])
  have "\<not> ppu_R0 (ppu ?x) AND R0_VB_NMI_EN \<noteq> 0" using idle_ppu[OF e] by simp
  then have "nes_frame fuel fc s = Returned ?x"
    by (simp only: nes_frame_def Let_def u(1) v(1) w(1) x(1) lr_bind.simps if_False)
  then show ?thesis using e by (simp add: idle_at_def)
qed

text \<open>
  C11: while the program waits with the display off, a frame that is not drawn returns as soon as
  one call of the processor may run 113 instructions, and the machine is waiting again afterwards.
\<close>

theorem idle_frame_returns:
  assumes "idle s" "0 \<le> clockticks6502 s" "113 \<le> fuel" "fc mod 3 \<noteq> 0"
  shows "\<exists>t. nes_frame fuel fc s = Returned t \<and> idle t \<and> PPU_scanline (ppu t) = 261"
  using idle_frame[OF assms] .

end
