(* ===== verification/NesWitness.thy ===== *)
theory NesWitness
  imports NesIdle
begin

text \<open>
  The theorems of the emulator at concrete machines: a cartridge with one program bank, the
  processor about to run one instruction.
\<close>

section \<open>A machine\<close>

text \<open>The bank starts with \<open>STA $4014; JMP $8000\<close>, the picture bank is blank, the RAM is full of \<open>NOP\<close>.\<close>

definition demo_rom :: "byte list \<Rightarrow> byte list" where
  "demo_rom code = code @ replicate (0x6000 - length code) 0"

definition demo_ppu :: ppu where
  "demo_ppu = PPU_Init 0x4000 0
     \<lparr>PPU_Reg = \<lparr>NES_R0 = 0, NES_R1 = 0, NES_R2 = 0, NES_R5 = 0\<rparr>,
      PPU_Mem = \<lparr>PPU_addrcnt = 0, PPU_readtemp = 0, patterntable0 = 0, patterntable1 = 0,
                 name_table = [], image_palette = [], sprite_palette = []\<rparr>,
      Spr_Mem = \<lparr>spr_ram = [], spr_addrcnt = 0\<rparr>, NameTable = replicate 2048 0, SpriteHitFlag = False,
      PPU_Latch_Flag = 0, PPU_scanline = 0, PPU_BG_VScrlOrg = 0, PPU_BG_HScrlOrg = 0,
      Buffer_scanline = replicate 272 0, framebuffer = replicate 307200 0\<rparr>"

definition demo :: "byte list \<Rightarrow> byte \<Rightarrow> bool \<Rightarrow> nes" where
  "demo code op sg = \<lparr>a_reg = 0x50, x_reg = 0x10, y_reg = 3, flag_reg = 0x20, s_reg = 0xFF, pc_reg = 0,
     NMI_Flag = False, IRQ_Flag = False, opcode = op, clockticks6502 = 0, savepc = 0x1234, value_v = 0,
     sum_v = 0, saveflags = 0, help_v = 0, ram6502 = replicate 2048 0xEA, exp_rom = None, sram = None,
     prg_rombank0 = 0, prg_rombank1 = 0, rom_file = demo_rom code, ppu = demo_ppu, char_signed = sg\<rparr>"

lemma demo_ppu_wf: "length code \<le> 0x6000 \<Longrightarrow> ppu_wf (demo_rom code) demo_ppu"
  by (simp add: ppu_wf_def demo_ppu_def PPU_Init_def demo_rom_def)

lemma demo_wf: "length code \<le> 0x6000 \<Longrightarrow> nes_wf (demo code op sg)"
  using demo_ppu_wf[of code] by (simp add: nes_wf_def demo_def demo_rom_def)

lemmas demo_ppu_wf0 = demo_ppu_wf[of "[]", simplified]
lemmas demo_wf0 = demo_wf[of "[]", simplified]

lemma demo_palette_ok: "palette_ok demo_ppu"
  by (simp add: palette_ok_def demo_ppu_def PPU_Init_def)

lemma demo_fields [simp]:
  "a_reg (demo c op sg) = 0x50" "x_reg (demo c op sg) = 0x10" "flag_reg (demo c op sg) = 0x20"
  "s_reg (demo c op sg) = 0xFF" "pc_reg (demo c op sg) = 0" "opcode (demo c op sg) = op"
  "char_signed (demo c op sg) = sg" "clockticks6502 (demo c op sg) = 0" "NMI_Flag (demo c op sg) = False"
  "IRQ_Flag (demo c op sg) = False" "rom_file (demo c op sg) = demo_rom c" "prg_rombank0 (demo c op sg) = 0"
  "prg_rombank1 (demo c op sg) = 0" "ppu (demo c op sg) = demo_ppu" "y_reg (demo c op sg) = 3"
  "ram6502 (demo c op sg) = replicate 2048 0xEA"
  by (simp_all add: demo_def)

lemma demo_ppu_fields [simp]:
  "ppu_R0 demo_ppu = 0" "ppu_R1 demo_ppu = 0" "SpriteHitFlag demo_ppu = False" "ppu_addr demo_ppu = 0"
  "name_table (PPU_Mem demo_ppu) = [0, 0, 1024, 1024]" "PPU_BG_HScrlOrg demo_ppu = 0"
  by (simp_all add: demo_ppu_def PPU_Init_def)

lemma demo_ram:
  assumes "unat a < 0x800" "ram6502 s = replicate 2048 0xEA"
  shows "get6502memory s a = Some (0xEA, s)"
proof -
  have "a AND 0xE000 = 0" unfolding page13_iff using assms(1) by simp
  then show ?thesis using assms by (simp add: get6502memory_def unat_and_low11)
qed

lemma demo_flags: "\<not> bit (0x20 :: byte) 3" "\<not> bit (0x20 :: byte) 0" "\<not> bit (0x20 :: byte) 6"
  by code_simp+

lemma demo_ops: "opcodetable ! 105 = OP 3 I_adc A_immediate" "opcodetable ! 233 = OP 3 I_sbc A_immediate"
  "opcodetable ! 201 = OP 3 I_cmp A_immediate" "opcodetable ! 208 = OP 2 I_bne A_relative"
  "opcodetable ! 32 = OP 6 I_jsr A_abs" "opcodetable ! 234 = OP 2 I_nop A_implied"
  by code_simp+

section \<open>The picture unit\<close>

lemma ppu_register_fault_iff_witness:
  "\<exists>p v. PPU_RegRead (demo_rom []) 7 (set_addrcnt 0x2C00 demo_ppu) = None \<and>
    PPU_RegRead (demo_rom []) 7 (set_addrcnt 0x2400 demo_ppu) = Some (v, p)"
proof -
  let ?p = "\<lambda>a. set_addrcnt a demo_ppu"
  have wf: "ppu_wf (demo_rom []) (?p a)" for a using demo_ppu_wf0 by simp
  have "nt_overrun (?p 0x2C00)" "\<not> nt_overrun (?p 0x2400)"
    by (simp_all add: nt_overrun_def set_addrcnt_def)
  then show ?thesis
    using ppu_register_fault_iff[OF wf, of 7 "0x2C00"] ppu_register_fault_iff[OF wf, of 7 "0x2400"]
    by (metis option.exhaust surj_pair)
qed

lemma ppu_nametable_roundtrip_witness:
  "\<exists>p. ppu_poke 0x2005 7 demo_ppu = Some p \<and> ppu_peek (demo_rom []) 0x2405 p = Some 7"
  using ppu_nametable_roundtrip[OF demo_ppu_wf0, where a = "0x2005" and b = "0x2405" and v = 7]
  by (simp add: nt_cell_of_def)

lemma ppu_palette_roundtrip_witness:
  "\<exists>p. ppu_poke 0x3F10 0x21 demo_ppu = Some p \<and> ppu_peek (demo_rom []) 0x3F10 p = Some 0x21 \<and>
     image_palette (PPU_Mem p) ! 12 = 0x21"
  using ppu_palette_roundtrip[OF demo_ppu_wf0, where k = 16 and v = "0x21"] by auto

lemma ppu_palette_alias_mismatch_witness:
  "\<exists>p. ppu_poke 0x3F20 5 demo_ppu = Some p \<and> ppu_peek (demo_rom []) 0x3F20 p = Some 0 \<and>
     ppu_peek (demo_rom []) 0x3F00 p = Some 5"
  using ppu_palette_alias_mismatch[OF demo_ppu_wf0, of 5]
  by (simp add: demo_ppu_def PPU_Init_def)

section \<open>Instructions\<close>

lemma demo_load:
  assumes "op \<in> {0x69, 0xE9, 0xC9}"
  shows "load_value (demo c op sg) = Some ((demo c op sg)\<lparr>savepc := 0, pc_reg := 1, value_v := 0xEA\<rparr>)"
  using assms
  by (auto simp: load_value_def call_adrmode_def cur_op_def demo_ops immediate6502_def demo_ram)

lemma adc6502_spec_witness:
  "\<exists>t. adc6502 (demo [] 0x69 True) = Some t \<and> a_reg t = 0x3A \<and> bit (flag_reg t) 0 \<and> \<not> bit (flag_reg t) 6"
proof -
  obtain t where t: "adc6502 (demo [] 0x69 True) = Some t"
    by (simp add: adc6502_def demo_load)
  show ?thesis
    using adc6502_spec[OF t] t
    by (simp add: demo_flags demo_load Let_def carry_in_def c_char_def)
qed

lemma adc6502_overflow_unsigned_char_witness:
  "\<exists>t. adc6502 (demo [] 0x69 False) = Some t \<and> bit (flag_reg t) 6"
proof -
  obtain t where t: "adc6502 (demo [] 0x69 False) = Some t"
    by (simp add: adc6502_def demo_load)
  show ?thesis
    using adc6502_overflow_unsigned_char[OF t _ _ demo_load] t
    by (simp add: demo_flags carry_in_def)
qed

lemma sbc6502_spec_witness:
  "\<exists>t. sbc6502 (demo [] 0xE9 True) = Some t \<and> a_reg t = 0x65 \<and> \<not> bit (flag_reg t) 0"
proof -
  obtain t where t: "sbc6502 (demo [] 0xE9 True) = Some t"
    by (simp add: sbc6502_def demo_load)
  show ?thesis
    using sbc6502_spec[OF t] t
    by (simp add: demo_flags demo_load Let_def carry_in_def)
qed

lemma compare6502_spec_witness:
  "\<exists>t. cmp6502 (demo [] 0xC9 True) = Some t \<and> \<not> bit (flag_reg t) 0 \<and> \<not> bit (flag_reg t) 1 \<and> a_reg t = 0x50"
proof -
  obtain t where t: "cmp6502 (demo [] 0xC9 True) = Some t"
    by (simp add: cmp6502_def demo_load)
  have "\<not> (0xEA :: byte) \<le> 0x50" by (simp add: word_le_nat_alt)
  then show ?thesis
    using compare6502_spec[of "demo [] 0xC9 True" t "0x50"] t
    by (auto simp: demo_load)
qed

lemma ram_mirror_roundtrip_witness:
  "\<exists>t. put6502memory (demo [] 0 True) 0x0005 9 = Some t \<and> get6502memory t 0x1805 = Some (9, t)"
proof -
  obtain t where t: "put6502memory (demo [] 0 True) 0x0005 9 = Some t"
    by (simp add: put6502memory_def)
  show ?thesis
    using ram_mirror_roundtrip[OF demo_wf0 _ _ t, where b = "0x1805"] t by simp
qed

lemma push_pull_roundtrip_witness:
  "\<exists>t u. pha6502 (demo [] 0x48 True) = Some t \<and> pla6502 (t\<lparr>a_reg := 0\<rparr>) = Some u \<and> a_reg u = 0x50"
  using push_pull_roundtrip[OF demo_wf0[of "0x48" True], where x = 0] by auto

lemma call_return_roundtrip_witness:
  "\<exists>t u. jsr6502 (demo [] 0x20 True) = Some t \<and> rts6502 t = Some u \<and> pc_reg u = 2 \<and> s_reg u = 0xFF"
proof -
  obtain t where t: "jsr6502 (demo [] 0x20 True) = Some t"
    by (simp add: jsr6502_def push6502_def put6502memory_def get6502memory_def call_adrmode_def cur_op_def
        demo_ops abs6502_def get6502word_def)
  show ?thesis using call_return_roundtrip[OF demo_wf0 t] t by simp
qed

lemma interrupt_return_roundtrip_witness:
  "\<exists>t u. nmi6502 (demo [] 0 True) = Some t \<and> pc_reg t = 0 \<and> rti6502 t = Some u \<and>
     flag_reg u = 0x20 \<and> s_reg u = 0xFF"
proof -
  have "rom_byte (demo [] 0 True) 0xfffa = 0" "rom_byte (demo [] 0 True) 0xfffb = 0"
    by (simp_all add: rom_byte_def demo_rom_def)
  then show ?thesis using interrupt_return_roundtrip[OF demo_wf0, of 0 True] by auto
qed

lemma branch_target_witness:
  "\<exists>t. run_instruction I_bne (demo [] 0xD0 True) = Some t \<and> pc_reg t = - 21"
proof -
  have r: "get6502memory (demo [] 0xD0 True) (pc_reg (demo [] 0xD0 True)) = Some (0xEA, demo [] 0xD0 True)"
    by (simp add: demo_ram)
  have c: "adrmode (cur_op (demo [] 0xD0 True)) = A_relative" by (simp add: cur_op_def demo_ops)
  have b: "(I_bne, 1, False) \<in> set branch_table" by (simp add: branch_table_def)
  have "\<not> bit (0x20 :: byte) 1" "(1 :: word16) + scast (0xEA :: byte) = - 21" by code_simp+
  then show ?thesis using branch_target[OF b c r] by simp
qed

lemma bvs_uses_stale_address_witness:
  "run_instruction (instruction (cur_op ((demo [] 0x70 True)\<lparr>flag_reg := 0x40\<rparr>)))
     ((demo [] 0x70 True)\<lparr>flag_reg := 0x40\<rparr>) =
   Some ((demo [] 0x70 True)\<lparr>flag_reg := 0x40, pc_reg := 0x1234, clockticks6502 := 1\<rparr>)"
proof -
  have "bit (0x40 :: byte) 6" by code_simp
  then have "run_instruction (instruction (cur_op ((demo [] 0x70 True)\<lparr>flag_reg := 0x40\<rparr>)))
     ((demo [] 0x70 True)\<lparr>flag_reg := 0x40\<rparr>) = Some (((demo [] 0x70 True)\<lparr>flag_reg := 0x40\<rparr>)\<lparr>
       pc_reg := pc_reg ((demo [] 0x70 True)\<lparr>flag_reg := 0x40\<rparr>) + savepc ((demo [] 0x70 True)\<lparr>flag_reg := 0x40\<rparr>),
       clockticks6502 := clockticks6502 ((demo [] 0x70 True)\<lparr>flag_reg := 0x40\<rparr>) + 1\<rparr>)"
    by (intro bvs_uses_stale_address) simp_all
  then show ?thesis by (simp add: demo_def)
qed

section \<open>The clock\<close>

lemma demo_nop: "cpu_step (demo [] 0 True) = Some ((demo [] 0 True)\<lparr>opcode := 0xEA, pc_reg := 1, clockticks6502 := 2\<rparr>)"
  by (simp add: cpu_step_def demo_ram cur_op_def demo_ops nop6502_def)

text \<open>A NOP of two cycles.\<close>

lemma cpu_step_cycles_witness:
  "\<exists>t c. cpu_step (demo [] 0 True) = Some t \<and> opcode t = 0xEA \<and> c \<in> {2..5} \<and> clockticks6502 t = clockticks6502 (demo [] 0 True) + c"
  using cpu_step_cycles[OF demo_nop] demo_nop by (auto simp: cur_op_def demo_ops stores_def)

lemma exec6502_clock_witness:
  "\<exists>t. exec6502 1 1 (demo [] 0 True) = Returned t \<and> clockticks6502 t \<le> 9"
proof -
  obtain t where t: "exec6502 1 1 (demo [] 0 True) = Returned t"
    by (simp add: exec6502_def check_interrupts_def exec_loop_def demo_nop eval_nat_numeral)
  show ?thesis using exec6502_clock[OF t] t by simp
qed

lemma exec6502_terminates_witness: "\<exists>t. exec6502 1 2 (demo [] 0 True) = Returned t \<and> clockticks6502 t \<le> 9"
  using exec6502_terminates[of "demo [] 0 True" "demo [] 0 True" 1 2 0]
  by (auto simp: check_interrupts_def demo_nop dma_store_def cur_op_def demo_ops stores_def)

definition sta_loop :: "byte list" where
  "sta_loop = [0x8D, 0x14, 0x40, 0x4C, 0x00, 0x80]"

lemma exec6502_dma_runs_forever_witness:
  "\<forall>fuel. \<exists>t. exec6502 fuel 113 ((demo sta_loop 0 True)\<lparr>a_reg := 2, pc_reg := 0x8000\<rparr>) = Running t"
proof
  fix fuel
  have l: "length sta_loop \<le> 0x6000" by (simp add: sta_loop_def)
  have "dma_loop_rom (demo sta_loop 0 True)"
    by (simp add: dma_loop_rom_def demo_rom_def sta_loop_def atLeastLessThan_nat_numeral)
  then have "dma_loop 113 ((demo sta_loop 0 True)\<lparr>a_reg := 2, pc_reg := 0x8000\<rparr>)"
    using demo_wf[OF l] by (simp add: dma_loop_def dma_page_ok_def dma_loop_rom_def)
  then show "\<exists>t. exec6502 fuel 113 ((demo sta_loop 0 True)\<lparr>a_reg := 2, pc_reg := 0x8000\<rparr>) = Running t"
    by (rule exec6502_dma_runs_forever) simp_all
qed

section \<open>Pictures and frames\<close>

lemma background_line_pixels_witness:
  "\<exists>q. NES_RenderBGLine (demo_rom []) 17 demo_ppu = Some q \<and> (\<forall>i<8. Buffer_scanline q ! i = 0)"
  using background_line_pixels[OF demo_ppu_wf0 demo_palette_ok, of 17 0]
  by (auto simp: demo_ppu_def PPU_Init_def)

lemma render_line_safe_witness:
  "\<exists>q. NES_RenderLine (demo_rom []) 239 demo_ppu = Some q \<and> framebuffer q ! 0 = 0"
  using render_line_safe[OF demo_ppu_wf0 demo_palette_ok, of 239]
  by (auto simp: demo_ppu_def PPU_Init_def)

lemma render_line_color_overrun_witness:
  "\<exists>p. NES_RenderLine (demo_rom []) 0 p = None \<and> ppu_wf (demo_rom []) p"
proof -
  let ?p = "set_R1 0x08 (demo_ppu\<lparr>PPU_Mem := (PPU_Mem demo_ppu)\<lparr>image_palette := replicate 16 64\<rparr>\<rparr>)"
  have wf: "ppu_wf (demo_rom []) ?p" using demo_ppu_wf0 by (simp add: ppu_wf_def set_R1_def)
  have "(0x08 :: byte) AND (0x08 OR 0x10) \<noteq> 0" by code_simp
  then have "NES_RenderLine (demo_rom []) 0 ?p = None"
    by (intro render_line_color_overrun[OF wf])
      (simp_all add: set_R1_def R1_BG_VISIBLE_def R1_SPR_VISIBLE_def)
  then show ?thesis using wf by blast
qed

definition wait_loop :: "byte list" where
  "wait_loop = [0x4C, 0x00, 0x80]"

lemma demo_idle: "idle ((demo wait_loop 0 True)\<lparr>pc_reg := 0x8000\<rparr>)"
proof -
  have "length wait_loop \<le> 0x6000" by (simp add: wait_loop_def)
  then show ?thesis
    using demo_wf[of wait_loop 0 True]
    by (simp add: idle_def idle_rom_def demo_rom_def wait_loop_def atLeastLessThan_nat_numeral)
qed

lemma idle_frame_returns_witness:
  "\<exists>t. nes_frame 113 1 ((demo wait_loop 0 True)\<lparr>pc_reg := 0x8000\<rparr>) = Returned t \<and> idle t"
  using idle_frame_returns[OF demo_idle, of 113 1] by auto

text \<open>The same frame, run step by step, for the theorem on frames that complete.\<close>

lemma idle_machine_frame:
  assumes "idle s" "0 \<le> clockticks6502 s"
  shows "\<exists>t. nes_frame 113 1 s = Returned t"
  using idle_frame[OF assms, of 113 1] by auto

lemma frame_completes_witness:
  "\<exists>t. nes_frame 113 1 ((demo wait_loop 0 True)\<lparr>pc_reg := 0x8000\<rparr>) = Returned t \<and> nes_wf t \<and>
     PPU_scanline (ppu t) = 261 \<and> bit (ppu_R2 (ppu t)) 7"
proof -
  let ?s = "(demo wait_loop 0 True)\<lparr>pc_reg := 0x8000\<rparr>"
  obtain t where t: "nes_frame 113 1 ?s = Returned t"
    using idle_machine_frame[OF demo_idle] by auto
  moreover have "nes_wf ?s" using demo_idle[unfolded idle_def] by simp
  ultimately show ?thesis using frame_completes[OF t] by simp
qed

end
