(* ===== verification/RtRingbuffer.thy ===== *)
theory RtRingbuffer
  imports Prelude
begin

text \<open>
  The ring buffer of the device drivers (\<open>components/drivers/src/ringbuffer.c\<close> and its header):
  two 15-bit indices, each with a mirror bit that tells a full buffer from an empty one. The
  abstract view is the list of the bytes stored, oldest first.
\<close>

section \<open>State\<close>

record rt_ringbuffer =
  buffer_ptr :: "byte list"
  read_mirror :: bool
  read_index :: "15 word"
  write_mirror :: bool
  write_index :: "15 word"
  buffer_size :: "16 word"

datatype rt_ringbuffer_state = RT_RINGBUFFER_EMPTY | RT_RINGBUFFER_FULL | RT_RINGBUFFER_HALFFULL

text \<open>The operands of the \<open>int\<close> arithmetic: \<open>buffer_size\<close> is signed, the indices are not.\<close>

abbreviation rb_size :: "rt_ringbuffer \<Rightarrow> int" where "rb_size rb \<equiv> sint (buffer_size rb)"
abbreviation rb_ri :: "rt_ringbuffer \<Rightarrow> int" where "rb_ri rb \<equiv> uint (read_index rb)"
abbreviation rb_wi :: "rt_ringbuffer \<Rightarrow> int" where "rb_wi rb \<equiv> uint (write_index rb)"

definition RT_ALIGN_DOWN :: "int \<Rightarrow> int \<Rightarrow> int" where
  "RT_ALIGN_DOWN sz al = sz AND NOT (al - 1)"

section \<open>Operations\<close>

definition rt_ringbuffer_status :: "rt_ringbuffer \<Rightarrow> rt_ringbuffer_state" where
  "rt_ringbuffer_status rb =
     (if read_index rb = write_index rb then
        (if read_mirror rb = write_mirror rb then RT_RINGBUFFER_EMPTY else RT_RINGBUFFER_FULL)
      else RT_RINGBUFFER_HALFFULL)"

definition rt_ringbuffer_data_len :: "rt_ringbuffer \<Rightarrow> 32 word" where
  "rt_ringbuffer_data_len rb = word_of_int (case rt_ringbuffer_status rb of
       RT_RINGBUFFER_EMPTY \<Rightarrow> 0
     | RT_RINGBUFFER_FULL \<Rightarrow> rb_size rb
     | RT_RINGBUFFER_HALFFULL \<Rightarrow>
         (if rb_wi rb > rb_ri rb then rb_wi rb - rb_ri rb else rb_size rb - (rb_ri rb - rb_wi rb)))"

definition rt_ringbuffer_space_len :: "rt_ringbuffer \<Rightarrow> 32 word" where
  "rt_ringbuffer_space_len rb = word_of_int (rb_size rb) - rt_ringbuffer_data_len rb"

text \<open>\<open>None\<close> is a failed \<open>RT_ASSERT\<close>.\<close>

definition rt_ringbuffer_init :: "byte list \<Rightarrow> 16 word \<Rightarrow> rt_ringbuffer option" where
  "rt_ringbuffer_init pool sz =
     (if sint sz > 0 then
        Some \<lparr>buffer_ptr = pool, read_mirror = False, read_index = 0, write_mirror = False,
              write_index = 0, buffer_size = word_of_int (RT_ALIGN_DOWN (sint sz) 4)\<rparr>
      else None)"

definition rt_ringbuffer_reset :: "rt_ringbuffer \<Rightarrow> rt_ringbuffer" where
  "rt_ringbuffer_reset rb =
     rb\<lparr>read_mirror := False, read_index := 0, write_mirror := False, write_index := 0\<rparr>"

definition rt_ringbuffer_get_size :: "rt_ringbuffer \<Rightarrow> 16 word" where
  "rt_ringbuffer_get_size rb = buffer_size rb"

text \<open>
  The copy into the buffer both block writes share: in one piece when the end of the buffer is
  not reached, else in two, with the write index on the other side of the mirror.
\<close>

definition ring_write :: "byte list \<Rightarrow> int \<Rightarrow> rt_ringbuffer \<Rightarrow> rt_ringbuffer option" where
  "ring_write ptr len rb =
     (if rb_size rb - rb_wi rb > len then do {
        xs \<leftarrow> mem_slice ptr 0 len;
        buf \<leftarrow> mem_blit (buffer_ptr rb) (rb_wi rb) xs;
        Some (rb\<lparr>buffer_ptr := buf, write_index := word_of_int (rb_wi rb + len)\<rparr>) }
      else (let k = rb_size rb - rb_wi rb in do {
        xs \<leftarrow> mem_slice ptr 0 k;
        buf \<leftarrow> mem_blit (buffer_ptr rb) (rb_wi rb) xs;
        ys \<leftarrow> mem_slice ptr k (len - k);
        buf \<leftarrow> mem_blit buf 0 ys;
        Some (rb\<lparr>buffer_ptr := buf, write_mirror := \<not> write_mirror rb,
                 write_index := word_of_int (len - k)\<rparr>) }))"

definition rt_ringbuffer_put ::
    "rt_ringbuffer \<Rightarrow> byte list \<Rightarrow> 16 word \<Rightarrow> (16 word \<times> rt_ringbuffer) option" where
  "rt_ringbuffer_put rb ptr len = (let sz = (ucast (rt_ringbuffer_space_len rb) :: 16 word) in
     if sz = 0 then Some (0, rb)
     else (let len = (if sz < len then sz else len) in do {
       rb \<leftarrow> ring_write ptr (uint len) rb; Some (len, rb) }))"

definition rt_ringbuffer_put_force ::
    "rt_ringbuffer \<Rightarrow> byte list \<Rightarrow> 16 word \<Rightarrow> (16 word \<times> rt_ringbuffer) option" where
  "rt_ringbuffer_put_force rb ptr len = (let
     space_length = (ucast (rt_ringbuffer_space_len rb) :: 16 word);
     big = uint len > rb_size rb;
     off = (if big then uint len - rb_size rb else 0);
     len' = (if big then (word_of_int (rb_size rb) :: 16 word) else len)
     in if rb_size rb - rb_wi rb > uint len' then do {
          rb' \<leftarrow> ring_write (drop (nat off) ptr) (uint len') rb;
          Some (len', if len' > space_length then rb'\<lparr>read_index := write_index rb'\<rparr> else rb') }
        else do {
          rb' \<leftarrow> ring_write (drop (nat off) ptr) (uint len') rb;
          Some (len', if len' > space_length
                      then rb'\<lparr>read_mirror := \<not> read_mirror rb', read_index := write_index rb'\<rparr>
                      else rb') })"

text \<open>The bytes copied out are returned as a list.\<close>

definition rt_ringbuffer_get ::
    "rt_ringbuffer \<Rightarrow> 16 word \<Rightarrow> (byte list \<times> rt_ringbuffer) option" where
  "rt_ringbuffer_get rb len = (let sz = rt_ringbuffer_data_len rb in
     if sz = 0 then Some ([], rb)
     else (let len = (if sz < ucast len then ucast sz else len) in
       if rb_size rb - rb_ri rb > uint len then do {
         xs \<leftarrow> mem_slice (buffer_ptr rb) (rb_ri rb) (uint len);
         Some (xs, rb\<lparr>read_index := word_of_int (rb_ri rb + uint len)\<rparr>) }
       else (let k = rb_size rb - rb_ri rb in do {
         xs \<leftarrow> mem_slice (buffer_ptr rb) (rb_ri rb) k;
         ys \<leftarrow> mem_slice (buffer_ptr rb) 0 (uint len - k);
         Some (xs @ ys, rb\<lparr>read_mirror := \<not> read_mirror rb,
                            read_index := word_of_int (uint len - k)\<rparr>) })))"

definition rt_ringbuffer_putchar :: "rt_ringbuffer \<Rightarrow> byte \<Rightarrow> (nat \<times> rt_ringbuffer) option" where
  "rt_ringbuffer_putchar rb ch =
     (if rt_ringbuffer_space_len rb = 0 then Some (0, rb)
      else do {
        buf \<leftarrow> mem_wr (buffer_ptr rb) (unat (write_index rb)) ch;
        Some (1, if rb_wi rb = rb_size rb - 1
                 then rb\<lparr>buffer_ptr := buf, write_mirror := \<not> write_mirror rb, write_index := 0\<rparr>
                 else rb\<lparr>buffer_ptr := buf, write_index := write_index rb + 1\<rparr>) })"

definition rt_ringbuffer_putchar_force :: "rt_ringbuffer \<Rightarrow> byte \<Rightarrow> (nat \<times> rt_ringbuffer) option" where
  "rt_ringbuffer_putchar_force rb ch = (let old_state = rt_ringbuffer_status rb in do {
     buf \<leftarrow> mem_wr (buffer_ptr rb) (unat (write_index rb)) ch;
     Some (1, if rb_wi rb = rb_size rb - 1
        then (let rb = rb\<lparr>buffer_ptr := buf, write_mirror := \<not> write_mirror rb, write_index := 0\<rparr> in
              if old_state = RT_RINGBUFFER_FULL
              then rb\<lparr>read_mirror := \<not> read_mirror rb, read_index := write_index rb\<rparr> else rb)
        else (let rb = rb\<lparr>buffer_ptr := buf, write_index := write_index rb + 1\<rparr> in
              if old_state = RT_RINGBUFFER_FULL then rb\<lparr>read_index := write_index rb\<rparr> else rb)) })"

definition rt_ringbuffer_getchar :: "rt_ringbuffer \<Rightarrow> (byte option \<times> rt_ringbuffer) option" where
  "rt_ringbuffer_getchar rb =
     (if rt_ringbuffer_data_len rb = 0 then Some (None, rb)
      else do {
        ch \<leftarrow> mem_rd (buffer_ptr rb) (unat (read_index rb));
        Some (Some ch, if rb_ri rb = rb_size rb - 1
                 then rb\<lparr>read_mirror := \<not> read_mirror rb, read_index := 0\<rparr>
                 else rb\<lparr>read_index := read_index rb + 1\<rparr>) })"

end
