(* ===== verification/RtRingbufferSpec.thy ===== *)
theory RtRingbufferSpec
  imports RtRingbuffer
begin

text \<open>
  The ring buffer refines a bounded queue of bytes: well-formedness, the abstraction to a list,
  and what each operation does to that list.
\<close>

section \<open>Circular indices\<close>

definition ring_list :: "nat \<Rightarrow> 'a list \<Rightarrow> nat \<Rightarrow> nat \<Rightarrow> 'a list" where
  "ring_list N buf R n = map (\<lambda>k. buf ! ((R + k) mod N)) [0..<n]"

lemma length_ring_list [simp]: "length (ring_list N buf R n) = n"
  by (simp add: ring_list_def)

lemma ring_list_nth [simp]: "k < n \<Longrightarrow> ring_list N buf R n ! k = buf ! ((R + k) mod N)"
  by (simp add: ring_list_def)

lemma ring_index_le:
  assumes "j \<le> k" "k < N" "(R + j) mod N = (R + k) mod N"
  shows "j = (k :: nat)"
proof -
  have "N dvd (R + k) - (R + j)" using assms mod_eq_dvd_iff_nat[of "R + j" "R + k" N] by simp
  then have "N dvd k - j" by simp
  moreover have "k - j < N" using assms by simp
  ultimately have "k - j = 0" by (metis dvd_imp_le gr0I not_le)
  then show ?thesis using assms(1) by simp
qed

lemma ring_index_eq:
  "j < N \<Longrightarrow> k < N \<Longrightarrow> (R + j) mod N = (R + k) mod N \<Longrightarrow> j = (k :: nat)"
  using ring_index_le[of j k N R] ring_index_le[of k j N R] by (cases "j \<le> k") auto

text \<open>Appending at the write position, dropping at the read position.\<close>

lemma ring_list_append:
  assumes "n + m \<le> N" "0 < N"
    "\<And>j. j < m \<Longrightarrow> buf' ! ((R + n + j) mod N) = xs ! j" "length xs = m"
    "\<And>i. i < N \<Longrightarrow> (\<And>j. j < m \<Longrightarrow> i \<noteq> (R + n + j) mod N) \<Longrightarrow> buf' ! i = buf ! i"
  shows "ring_list N buf' R (n + m) = ring_list N buf R n @ xs"
proof (rule nth_equalityI)
  fix k assume "k < length (ring_list N buf' R (n + m))"
  then have k: "k < n + m" by simp
  show "ring_list N buf' R (n + m) ! k = (ring_list N buf R n @ xs) ! k"
  proof (cases "k < n")
    case True
    have "(R + k) mod N \<noteq> (R + n + j) mod N" if "j < m" for j
      using ring_index_eq[of k N "n + j" R] that True assms(1) by (auto simp: add.assoc)
    then show ?thesis using True k assms(2,5) by (simp add: nth_append)
  next
    case False
    then show ?thesis using k assms(3)[of "k - n"] assms(4) by (simp add: nth_append)
  qed
qed (use assms(4) in simp)

lemma ring_list_split:
  assumes "m \<le> n"
  shows "ring_list N buf R n = ring_list N buf R m @ ring_list N buf ((R + m) mod N) (n - m)"
proof (rule nth_equalityI)
  fix k assume "k < length (ring_list N buf R n)"
  moreover have "((R + m) mod N + (k - m)) mod N = (R + k) mod N" if "\<not> k < m"
  proof -
    have "((R + m) mod N + (k - m)) mod N = (R + m + (k - m)) mod N" by (rule mod_add_left_eq)
    then show ?thesis using that by simp
  qed
  ultimately show "ring_list N buf R n ! k =
      (ring_list N buf R m @ ring_list N buf ((R + m) mod N) (n - m)) ! k"
    using assms by (simp add: nth_append)
qed (use assms in simp)

section \<open>Well-formed buffers and their contents\<close>

definition rb_N :: "rt_ringbuffer \<Rightarrow> nat" where "rb_N rb = nat (rb_size rb)"

text \<open>On the same side of the mirror the write index is ahead, on different sides behind.\<close>

definition rb_wf :: "rt_ringbuffer \<Rightarrow> bool" where
  "rb_wf rb \<longleftrightarrow> 0 < rb_size rb \<and> length (buffer_ptr rb) = rb_N rb \<and>
     rb_ri rb < rb_size rb \<and> rb_wi rb < rb_size rb \<and>
     (if read_mirror rb = write_mirror rb then rb_ri rb \<le> rb_wi rb else rb_wi rb \<le> rb_ri rb)"

definition rb_len :: "rt_ringbuffer \<Rightarrow> nat" where
  "rb_len rb = (let R = unat (read_index rb); W = unat (write_index rb) in
     if R = W then (if read_mirror rb = write_mirror rb then 0 else rb_N rb)
     else if R < W then W - R else rb_N rb - (R - W))"

definition rb_abs :: "rt_ringbuffer \<Rightarrow> byte list" where
  "rb_abs rb = ring_list (rb_N rb) (buffer_ptr rb) (unat (read_index rb)) (rb_len rb)"

lemma rb_wf_nat:
  assumes "rb_wf rb"
  shows "rb_size rb = int (rb_N rb)" "0 < rb_N rb" "rb_N rb < 32768"
    "length (buffer_ptr rb) = rb_N rb" "unat (read_index rb) < rb_N rb" "unat (write_index rb) < rb_N rb"
    "if read_mirror rb = write_mirror rb then unat (read_index rb) \<le> unat (write_index rb)
     else unat (write_index rb) \<le> unat (read_index rb)"
proof -
  show s: "rb_size rb = int (rb_N rb)" and "0 < rb_N rb" "length (buffer_ptr rb) = rb_N rb"
    using assms by (simp_all add: rb_wf_def rb_N_def)
  have "rb_size rb < 2 ^ 15" using sint_lt[of "buffer_size rb"] by simp
  then show "rb_N rb < 32768" unfolding s by simp
  define R W where "R = unat (read_index rb)" and "W = unat (write_index rb)"
  have "rb_ri rb = int R" "rb_wi rb = int W" by (simp_all add: R_def W_def)
  then have "R < rb_N rb \<and> W < rb_N rb \<and> (if read_mirror rb = write_mirror rb then R \<le> W else W \<le> R)"
    using assms s unfolding rb_wf_def by (simp split: if_splits)
  then show "unat (read_index rb) < rb_N rb" "unat (write_index rb) < rb_N rb"
    "if read_mirror rb = write_mirror rb then unat (read_index rb) \<le> unat (write_index rb)
     else unat (write_index rb) \<le> unat (read_index rb)"
    unfolding R_def W_def by blast+
qed

lemma rb_len_le: "rb_wf rb \<Longrightarrow> rb_len rb \<le> rb_N rb"
  using rb_wf_nat(5,6)[of rb] by (auto simp: rb_len_def Let_def)

lemma length_rb_abs [simp]: "length (rb_abs rb) = rb_len rb"
  by (simp add: rb_abs_def)

lemma rb_write_pos: "rb_wf rb \<Longrightarrow> unat (write_index rb) = (unat (read_index rb) + rb_len rb) mod rb_N rb"
  using rb_wf_nat(5,6)[of rb] by (auto simp: rb_len_def Let_def mod_if)

text \<open>The lengths the code computes.\<close>

lemma data_len_eq:
  assumes "rb_wf rb"
  shows "rt_ringbuffer_data_len rb = of_nat (rb_len rb)"
proof -
  note n = rb_wf_nat[OF assms]
  define R W where "R = unat (read_index rb)" and "W = unat (write_index rb)"
  have e: "rb_ri rb = int R" "rb_wi rb = int W" "read_index rb = write_index rb \<longleftrightarrow> R = W"
    by (simp_all add: R_def W_def word_unat_eq_iff)
  have "(case rt_ringbuffer_status rb of RT_RINGBUFFER_EMPTY \<Rightarrow> 0 | RT_RINGBUFFER_FULL \<Rightarrow> rb_size rb
     | RT_RINGBUFFER_HALFFULL \<Rightarrow>
         (if rb_wi rb > rb_ri rb then rb_wi rb - rb_ri rb else rb_size rb - (rb_ri rb - rb_wi rb)))
     = int (rb_len rb)"
    using n(5,6) unfolding e n(1) rt_ringbuffer_status_def rb_len_def R_def[symmetric] W_def[symmetric] Let_def
    by auto
  then show ?thesis by (simp add: rt_ringbuffer_data_len_def)
qed

lemma small32: "n < 32768 \<Longrightarrow> unat (of_nat n :: 32 word) = n"
  by (simp add: unat_of_nat)

lemma small16: "n < 32768 \<Longrightarrow> unat (of_nat n :: 16 word) = n"
  by (simp add: unat_of_nat)

lemma small15: "n < 32768 \<Longrightarrow> unat (of_nat n :: 15 word) = n"
  by (simp add: unat_of_nat)

lemma unat_data_len: "rb_wf rb \<Longrightarrow> unat (rt_ringbuffer_data_len rb) = rb_len rb"
  using rb_len_le[of rb] rb_wf_nat(3)[of rb] by (simp add: data_len_eq small32)

lemma space_len_eq:
  assumes "rb_wf rb"
  shows "rt_ringbuffer_space_len rb = of_nat (rb_N rb - rb_len rb)"
  using rb_len_le[OF assms]
  by (simp add: rt_ringbuffer_space_len_def data_len_eq[OF assms] rb_wf_nat(1)[OF assms] of_nat_diff)

lemma unat_space_len:
  assumes "rb_wf rb"
  shows "unat (rt_ringbuffer_space_len rb) = rb_N rb - rb_len rb"
    "unat (ucast (rt_ringbuffer_space_len rb) :: 16 word) = rb_N rb - rb_len rb"
proof -
  have b: "rb_N rb - rb_len rb < 32768" using rb_wf_nat(3)[OF assms] by simp
  show "unat (rt_ringbuffer_space_len rb) = rb_N rb - rb_len rb"
    unfolding space_len_eq[OF assms] by (rule small32[OF b])
  then show "unat (ucast (rt_ringbuffer_space_len rb) :: 16 word) = rb_N rb - rb_len rb"
    using b by (simp add: unsigned_ucast_eq take_bit_nat_eq_self)
qed

section \<open>Block writes\<close>

lemma mod_wrap: "W < N \<Longrightarrow> m \<le> N \<Longrightarrow> (W + m) mod N = (if W + m < N then W + m else W + m - (N :: nat))"
  by (auto simp: mod_if)

lemma word15_of_int: "(word_of_int (int n) :: 15 word) = of_nat n"
  by simp

lemma ring_write_eq:
  assumes wf: "rb_wf rb" and m: "m \<le> rb_N rb" "m \<le> length ptr"
  defines "W \<equiv> unat (write_index rb)" and "N \<equiv> rb_N rb"
  shows "\<exists>buf'. ring_write ptr (int m) rb = Some (rb\<lparr>buffer_ptr := buf',
      write_mirror := (write_mirror rb \<noteq> (N \<le> W + m)), write_index := of_nat ((W + m) mod N)\<rparr>) \<and>
    length buf' = N \<and> (\<forall>j<m. buf' ! ((W + j) mod N) = ptr ! j) \<and>
    (\<forall>i<N. (\<forall>j<m. i \<noteq> (W + j) mod N) \<longrightarrow> buf' ! i = buffer_ptr rb ! i)"
proof -
  note n = rb_wf_nat[OF wf, folded N_def W_def]
  let ?buf = "buffer_ptr rb"
  have w: "rb_wi rb = int W" by (simp add: W_def)
  show ?thesis
  proof (cases "W + m < N")
    case True
    let ?b = "take W ?buf @ take m ptr @ drop (W + m) ?buf"
    have "ring_write ptr (int m) rb = Some (rb\<lparr>buffer_ptr := ?b, write_index := of_nat (W + m)\<rparr>)"
      using True m n unfolding ring_write_def w n(1)
      using mem_slice_Some[of 0 m ptr] mem_blit_Some[of W "take m ptr" ?buf]
      by (simp add: of_nat_add[symmetric] del: of_nat_add)
    moreover have "rb\<lparr>buffer_ptr := ?b, write_index := of_nat (W + m)\<rparr> = rb\<lparr>buffer_ptr := ?b,
      write_mirror := (write_mirror rb \<noteq> (N \<le> W + m)), write_index := of_nat ((W + m) mod N)\<rparr>"
      using True by simp
    moreover have "?b ! ((W + j) mod N) = ptr ! j" if "j < m" for j
      using that True m n nth_blit[of W "take m ptr" ?buf "W + j"] by simp
    moreover have "?b ! i = ?buf ! i" if "i < N" "\<forall>j<m. i \<noteq> (W + j) mod N" for i
    proof -
      have "\<not> (W \<le> i \<and> i < W + m)"
      proof
        assume a: "W \<le> i \<and> i < W + m"
        then have "i = (W + (i - W)) mod N" "i - W < m" using True by auto
        then show False using that(2) by blast
      qed
      then show ?thesis using that True m n nth_blit[of W "take m ptr" ?buf i] by auto
    qed
    ultimately show ?thesis using True m n by (intro exI[of _ ?b]) simp
  next
    case False
    define k where "k = N - W"
    have k: "k \<le> m" "0 < k" "W + k = N" "m - k \<le> W" using False n m by (auto simp: k_def N_def)
    let ?b1 = "take W ?buf @ take k ptr"
    let ?b = "take (m - k) (drop k ptr) @ drop (m - k) ?b1"
    have b1: "length ?b1 = N" using k m n by simp
    have e1: "mem_blit ?buf (int W) (take k ptr) = Some ?b1"
      using mem_blit_Some[of W "take k ptr" ?buf] k m n by simp
    have e2: "mem_blit ?b1 0 (take (m - k) (drop k ptr)) = Some ?b"
      using mem_blit_Some[of 0 "take (m - k) (drop k ptr)" ?b1] b1 k m n by simp
    have sl: "mem_slice ptr 0 (int k) = Some (take k ptr)"
      "mem_slice ptr (int k) (int (m - k)) = Some (take (m - k) (drop k ptr))"
      using mem_slice_Some[of 0 k ptr] mem_slice_Some[of k "m - k" ptr] k m by simp_all
    have ik: "int N - int W = int k" "int m - int k = int (m - k)" using k n by (simp_all add: k_def of_nat_diff)
    have hi: "?b ! i = ?b1 ! i" if "m - k \<le> i" "i < N" for i
    proof -
      have "?b ! i = drop (m - k) ?b1 ! (i - (m - k))"
        using that m by (subst nth_append) simp
      also have "\<dots> = ?b1 ! i" using that b1 by (subst nth_drop) auto
      finally show ?thesis .
    qed
    have mm: "(W + m) mod N = m - k" using mod_wrap[OF n(6) m(1)[folded N_def]] False k by simp
    have "ring_write ptr (int m) rb = Some (rb\<lparr>buffer_ptr := ?b,
      write_mirror := (write_mirror rb \<noteq> (N \<le> W + m)), write_index := of_nat ((W + m) mod N)\<rparr>)"
      using False k unfolding ring_write_def w n(1) Let_def ik sl mm
      by (simp add: e1 e2 del: of_nat_diff)
    moreover have "?b ! ((W + j) mod N) = ptr ! j" if "j < m" for j
    proof (cases "j < k")
      case True
      then have "(W + j) mod N = W + j" using k n by simp
      moreover have "?b ! (W + j) = ?b1 ! (W + j)"
        using hi[of "W + j"] True k by simp
      moreover have "?b1 ! (W + j) = ptr ! j" using True n by (simp add: nth_append)
      ultimately show ?thesis by simp
    next
      case F: False
      have "(W + j) mod N = j - k" using F k n that m mod_wrap[of W N j] by (simp add: N_def)
      moreover have "j - k < m - k" using F that k by simp
      ultimately show ?thesis using F k m n that by (simp add: nth_append)
    qed
    moreover have "?b ! i = ?buf ! i" if i: "i < N" "\<forall>j<m. i \<noteq> (W + j) mod N" for i
    proof -
      have "\<not> W \<le> i"
      proof
        assume "W \<le> i"
        then have "i = (W + (i - W)) mod N" "i - W < m" using i(1) k by auto
        then show False using i(2) by blast
      qed
      moreover have "\<not> i < m - k"
      proof
        assume a: "i < m - k"
        have "(W + (k + i)) mod N = i" using k n i(1) by (simp flip: add.assoc)
        then show False using i(2) a by (metis add.commute less_diff_conv)
      qed
      moreover have "?b1 ! i = ?buf ! i" if "i < W" using that n by (simp add: nth_append)
      ultimately show ?thesis using hi[of i] i(1) by simp
    qed
    ultimately show ?thesis using b1 k m n by (intro exI[of _ ?b]) simp
  qed
qed

text \<open>The buffer after a write of \<open>m\<close> bytes that fit: longer by them.\<close>

lemma ring_write_fits:
  assumes wf: "rb_wf rb" and m: "m \<le> rb_N rb - rb_len rb" "m \<le> length ptr"
  shows "\<exists>rb'. ring_write ptr (int m) rb = Some rb' \<and> rb_wf rb' \<and> rb_N rb' = rb_N rb \<and>
    rb_abs rb' = rb_abs rb @ take m ptr"
proof -
  define W R N n where "W = unat (write_index rb)" and "R = unat (read_index rb)"
    and "N = rb_N rb" and "n = rb_len rb"
  note b = rb_wf_nat[OF wf, folded N_def W_def R_def]
  have mN: "m \<le> N" "n + m \<le> N" using m(1) rb_len_le[OF wf] by (simp_all add: N_def n_def)
  obtain buf' where w: "ring_write ptr (int m) rb = Some (rb\<lparr>buffer_ptr := buf',
      write_mirror := (write_mirror rb \<noteq> (N \<le> W + m)), write_index := of_nat ((W + m) mod N)\<rparr>)"
    and len: "length buf' = N" and new: "\<And>j. j < m \<Longrightarrow> buf' ! ((W + j) mod N) = ptr ! j"
    and old: "\<And>i. i < N \<Longrightarrow> (\<And>j. j < m \<Longrightarrow> i \<noteq> (W + j) mod N) \<Longrightarrow> buf' ! i = buffer_ptr rb ! i"
    using ring_write_eq[OF wf mN(1)[unfolded N_def] m(2)] unfolding W_def[symmetric] N_def[symmetric] by blast
  define rb' where "rb' = rb\<lparr>buffer_ptr := buf',
      write_mirror := (write_mirror rb \<noteq> (N \<le> W + m)), write_index := of_nat ((W + m) mod N)\<rparr>"
  have W': "unat (write_index rb') = (W + m) mod N"
  proof -
    have "(W + m) mod N < 32768" using mod_less_divisor[OF b(2)] b(3) by (rule less_trans)
    then show ?thesis by (simp add: rb'_def small15 del: of_nat_mod)
  qed
  have N': "rb_N rb' = N" by (simp add: rb'_def rb_N_def N_def)
  have ui: "rb_wi rb' = int ((W + m) mod N)" using W' by (metis uint_nat)
  have ri: "rb_ri rb' = int R" by (simp add: rb'_def R_def)
  have wf': "rb_wf rb'"
    using wf b len mod_less_divisor[OF b(2), of "W + m"] mod_wrap[OF b(6) mN(1)] mN(2)
    unfolding rb_wf_def N' ui ri n_def rb_len_def Let_def R_def[symmetric] W_def[symmetric] N_def[symmetric]
    by (auto simp: rb'_def split: if_splits)
  have Wn: "W = (R + n) mod N" using rb_write_pos[OF wf] by (simp add: W_def R_def n_def N_def)
  have len': "rb_len rb' = n + m"
    using mod_wrap[OF b(6) mN(1)] b(5-7) mN(2)
    unfolding rb_len_def Let_def W' N' n_def R_def[symmetric] W_def[symmetric] N_def[symmetric]
    by (auto simp: rb'_def R_def[symmetric] rb_len_def Let_def W_def[symmetric] N_def[symmetric] split: if_splits)
  have "ring_list N buf' R (n + m) = ring_list N (buffer_ptr rb) R n @ take m ptr"
  proof (rule ring_list_append)
    have c: "(R + n + j) mod N = (W + j) mod N" for j by (simp add: Wn mod_add_left_eq)
    show "buf' ! ((R + n + j) mod N) = take m ptr ! j" if "j < m" for j
      using new[OF that] that by (simp add: c)
    show "buf' ! i = buffer_ptr rb ! i" if "i < N" "\<And>j. j < m \<Longrightarrow> i \<noteq> (R + n + j) mod N" for i
      using old[OF that(1)] that(2) by (simp add: c)
  qed (use mN b m in simp_all)
  then have "rb_abs rb' = rb_abs rb @ take m ptr"
    by (simp add: rb_abs_def len' N') (simp add: rb'_def R_def n_def N_def)
  moreover have "ring_write ptr (int m) rb = Some rb'" unfolding rb'_def by (rule w)
  ultimately show ?thesis using wf' N' by (simp add: N_def)
qed

text \<open>
  C12: writing a block appends the bytes that fit, in order, and returns their number; the buffer
  never faults, stays well formed and keeps its capacity.
\<close>

theorem ringbuffer_put_refines:
  assumes "rb_wf rb" "unat len \<le> length ptr"
  shows "\<exists>k rb'. rt_ringbuffer_put rb ptr len = Some (k, rb') \<and> rb_wf rb' \<and> rb_N rb' = rb_N rb \<and>
    unat k = min (unat len) (rb_N rb - length (rb_abs rb)) \<and>
    rb_abs rb' = rb_abs rb @ take (unat k) ptr"
proof -
  define sz where "sz = (ucast (rt_ringbuffer_space_len rb) :: 16 word)"
  have sz: "unat sz = rb_N rb - rb_len rb" unfolding sz_def by (rule unat_space_len(2)[OF assms(1)])
  show ?thesis
  proof (cases "sz = 0")
    case True
    then have "rb_N rb - rb_len rb = 0" using sz by simp
    then show ?thesis using True assms(1) by (simp add: rt_ringbuffer_put_def sz_def[symmetric])
  next
    case False
    define k where "k = (if sz < len then sz else len)"
    have k: "unat k = min (unat len) (rb_N rb - rb_len rb)"
      by (auto simp: k_def sz[symmetric] word_less_nat_alt)
    have uk: "uint k = int (unat k)" by simp
    have "unat k \<le> rb_N rb - rb_len rb" "unat k \<le> length ptr" using k assms(2) by simp_all
    from ring_write_fits[OF assms(1) this] obtain rb' where
      "ring_write ptr (int (unat k)) rb = Some rb'" "rb_wf rb'" "rb_N rb' = rb_N rb"
      "rb_abs rb' = rb_abs rb @ take (unat k) ptr" by blast
    then show ?thesis using False k
      by (simp add: rt_ringbuffer_put_def sz_def[symmetric] k_def[symmetric] uk del: int_nat_eq uint_nat)
  qed
qed

section \<open>Block reads\<close>

definition ring_advance :: "nat \<Rightarrow> rt_ringbuffer \<Rightarrow> rt_ringbuffer" where
  "ring_advance m rb = rb\<lparr>read_mirror := (read_mirror rb \<noteq> (rb_N rb \<le> unat (read_index rb) + m)),
     read_index := of_nat ((unat (read_index rb) + m) mod rb_N rb)\<rparr>"

lemma ring_advance_abs:
  assumes "rb_wf rb" "m \<le> rb_len rb"
  shows "rb_wf (ring_advance m rb) \<and> rb_N (ring_advance m rb) = rb_N rb \<and>
    rb_abs (ring_advance m rb) = drop m (rb_abs rb)"
proof -
  define W R N n where "W = unat (write_index rb)" and "R = unat (read_index rb)"
    and "N = rb_N rb" and "n = rb_len rb"
  define rb' where "rb' = ring_advance m rb"
  note b = rb_wf_nat[OF assms(1), folded N_def W_def R_def]
  have nN: "n \<le> N" using rb_len_le[OF assms(1)] by (simp add: N_def n_def)
  have mN: "m \<le> N" "m \<le> n" using assms(2) nN by (simp_all add: n_def)
  have N': "rb_N rb' = N" by (simp add: rb'_def ring_advance_def rb_N_def N_def)
  have "(R + m) mod N < 32768" using mod_less_divisor[OF b(2)] b(3) by (rule less_trans)
  then have R': "unat (read_index rb') = (R + m) mod N"
    by (simp add: rb'_def ring_advance_def small15 R_def N_def del: of_nat_mod)
  have W': "unat (write_index rb') = W" by (simp add: rb'_def ring_advance_def W_def)
  have u: "rb_ri rb' = int ((R + m) mod N)" "rb_wi rb' = int W" using R' W' by (metis uint_nat)+
  have nn: "n = (if R = W then if read_mirror rb = write_mirror rb then 0 else N
      else if R < W then W - R else N - (R - W))"
    unfolding n_def rb_len_def Let_def R_def[symmetric] W_def[symmetric] N_def[symmetric] by simp
  have mir: "read_mirror rb' = (read_mirror rb \<noteq> (N \<le> R + m))" "write_mirror rb' = write_mirror rb"
    by (simp_all add: rb'_def ring_advance_def R_def N_def)
  have wf': "rb_wf rb'"
    using assms(1) b mod_less_divisor[OF b(2), of "R + m"] mod_wrap[OF b(5) mN(1)] mN nn
    unfolding rb_wf_def N' u mir by (auto simp: rb'_def ring_advance_def split: if_splits)
  have len': "rb_len rb' = n - m"
    using mod_wrap[OF b(5) mN(1)] b(5-7) mN nn
    unfolding rb_len_def Let_def W' R' N' mir by (auto split: if_splits)
  have "rb_abs rb' = ring_list N (buffer_ptr rb) ((R + m) mod N) (n - m)"
    by (simp add: rb_abs_def len' N' R') (simp add: rb'_def ring_advance_def)
  moreover have "rb_abs rb = ring_list N (buffer_ptr rb) R m @ ring_list N (buffer_ptr rb) ((R + m) mod N) (n - m)"
    unfolding rb_abs_def N_def[symmetric] R_def[symmetric] n_def[symmetric] by (rule ring_list_split[OF mN(2)])
  ultimately show ?thesis using wf' N' by (simp add: rb'_def N_def)
qed

end
