(* ===== verification/Queues.thy ===== *)
theory Queues
  imports Prelude
begin

text \<open>
  The contract of a bounded first-in first-out queue, as the drivers and the inter-process
  communication use one, and what follows from it for any sequence of writes and reads.
\<close>

section \<open>Sequences of operations\<close>

primrec pops :: "('s \<Rightarrow> ('a option \<times> 's) option) \<Rightarrow> nat \<Rightarrow> 's \<Rightarrow> ('a option list \<times> 's) option" where
  "pops pop 0 q = Some ([], q)"
| "pops pop (Suc n) q = do { (x, q) \<leftarrow> pop q; (xs, q) \<leftarrow> pops pop n q; Some (x # xs, q) }"

definition pushes :: "('a \<Rightarrow> 's \<Rightarrow> (bool \<times> 's) option) \<Rightarrow> 'a list \<Rightarrow> 's \<Rightarrow> 's option" where
  "pushes push xs q = fold_opt (\<lambda>x q. map_option snd (push x q)) xs q"

section \<open>The contract\<close>

locale bounded_queue =
  fixes inv :: "'s \<Rightarrow> bool" and cap :: "'s \<Rightarrow> nat" and items :: "'s \<Rightarrow> 'a list"
    and push :: "'a \<Rightarrow> 's \<Rightarrow> (bool \<times> 's) option" and pop :: "'s \<Rightarrow> ('a option \<times> 's) option"
  assumes push_law: "inv q \<Longrightarrow> \<exists>r. push x q = Some (length (items q) < cap q, r) \<and> inv r \<and> cap r = cap q \<and>
      items r = (if length (items q) < cap q then items q @ [x] else items q)"
    and pop_law: "inv q \<Longrightarrow> \<exists>r. pop q = Some (if items q = [] then None else Some (hd (items q)), r) \<and>
      inv r \<and> cap r = cap q \<and> items r = drop 1 (items q)"
begin

lemma pushes_fit:
  "inv q \<Longrightarrow> length (items q) + length xs \<le> cap q \<Longrightarrow>
   \<exists>r. pushes push xs q = Some r \<and> inv r \<and> cap r = cap q \<and> items r = items q @ xs"
proof (induction xs arbitrary: q)
  case (Cons x xs)
  then obtain r where r: "push x q = Some (True, r)" "inv r" "cap r = cap q" "items r = items q @ [x]"
    using push_law[OF Cons.prems(1), of x] by auto
  moreover have "length (items r) + length xs \<le> cap r" using Cons.prems(2) r by simp
  ultimately show ?case using Cons.IH[OF r(2)] by (auto simp: pushes_def)
qed (simp add: pushes_def)

text \<open>Pushing onto a full queue changes nothing.\<close>

lemma pushes_full:
  "inv q \<Longrightarrow> length (items q) = cap q \<Longrightarrow>
   \<exists>r. pushes push xs q = Some r \<and> inv r \<and> cap r = cap q \<and> items r = items q"
proof (induction xs arbitrary: q)
  case (Cons x xs)
  then obtain r where r: "push x q = Some (False, r)" "inv r" "cap r = cap q" "items r = items q"
    using push_law[OF Cons.prems(1), of x] by auto
  then show ?case using Cons.IH[OF r(2)] Cons.prems(2) by (auto simp: pushes_def)
qed (simp add: pushes_def)

lemma pops_take:
  "inv q \<Longrightarrow> n \<le> length (items q) \<Longrightarrow>
   \<exists>r. pops pop n q = Some (map Some (take n (items q)), r) \<and> inv r \<and> cap r = cap q \<and> items r = drop n (items q)"
proof (induction n arbitrary: q)
  case (Suc n)
  then have ne: "items q \<noteq> []" by auto
  then obtain r where r: "pop q = Some (Some (hd (items q)), r)" "inv r" "cap r = cap q" "items r = drop 1 (items q)"
    using pop_law[OF Suc.prems(1)] by auto
  have "n \<le> length (items r)" using Suc.prems(2) r(4) by simp
  from Suc.IH[OF r(2) this] ne r show ?case by (cases "items q") auto
qed simp

text \<open>First in, first out, and never more than the capacity.\<close>

lemma fifo:
  assumes "inv q" "items q = []" "length xs \<le> cap q"
  shows "\<exists>r s. pushes push xs q = Some r \<and> pops pop (length xs) r = Some (map Some xs, s) \<and> items s = []"
proof -
  obtain r where r: "pushes push xs q = Some r" "inv r" "items r = xs"
    using pushes_fit[OF assms(1), of xs] assms(2,3) by auto
  then show ?thesis using pops_take[OF r(2), of "length xs"] by auto
qed

end

end
