(* ===== verification/RtRingbufferQueue.thy ===== *)
theory RtRingbufferQueue
  imports RtRingbufferSpec Queues
begin

text \<open>
  Reading blocks, single characters, the overwriting writes, and the ring buffer as an instance
  of a bounded queue.
\<close>

section \<open>Reading a block\<close>

lemma ring_list_direct:
  assumes "R + m \<le> N" "N = length buf"
  shows "ring_list N buf R m = take m (drop R buf)"
proof (rule nth_equalityI)
  fix k assume "k < length (ring_list N buf R m)"
  then show "ring_list N buf R m ! k = take m (drop R buf) ! k" using assms by simp
qed (use assms in simp)

lemma ring_list_wrapped:
  assumes "R < N" "N \<le> R + m" "m \<le> N" "N = length buf"
  shows "ring_list N buf R m = drop R buf @ take (m - (N - R)) buf"
proof (rule nth_equalityI)
  fix k assume "k < length (ring_list N buf R m)"
  then have k: "k < m" by simp
  have "(R + k) mod N = (if R + k < N then R + k else R + k - N)" using k assms by (intro mod_wrap) simp_all
  then show "ring_list N buf R m ! k = (drop R buf @ take (m - (N - R)) buf) ! k"
    using k assms by (auto simp: nth_append add.commute)
qed (use assms in simp)

lemma unat_min_len:
  assumes "unat (sz :: 32 word) = n" "n \<le> 65535"
  shows "unat (if sz < ucast len then ucast sz else len :: 16 word) = min (unat len) n"
proof -
  have "uint (ucast len :: 32 word) = uint len" by (rule uint_up_ucast) (simp add: is_up)
  then have "unat (ucast len :: 32 word) = unat len" by (simp only: unat_eq_nat_uint)
  moreover have "unat (ucast sz :: 16 word) = n"
    using assms by (simp add: unsigned_ucast_eq take_bit_nat_eq_self)
  ultimately show ?thesis using assms(1) by (auto simp: word_less_nat_alt)
qed

text \<open>A read in one piece, or in two around the end of the pool.\<close>

lemma ringbuffer_get_ring:
  assumes "rb_wf rb" "rt_ringbuffer_data_len rb \<noteq> 0" "m = min (unat len) (rb_len rb)"
  shows "rt_ringbuffer_get rb len = Some (ring_list (rb_N rb) (buffer_ptr rb) (unat (read_index rb)) m, ring_advance m rb)"
proof -
  define N R where "N = rb_N rb" and "R = unat (read_index rb)"
  note b = rb_wf_nat[OF assms(1), folded N_def R_def]
  define sz where "sz = rt_ringbuffer_data_len rb"
  have ne: "sz \<noteq> 0" using assms(2) by (simp add: sz_def)
  have le: "rb_len rb \<le> N" using rb_len_le[OF assms(1)] by (simp add: N_def)
  define k where "k = (if sz < ucast len then ucast sz else len)"
  have "unat k = m" unfolding k_def assms(3)
    by (rule unat_min_len) (use unat_data_len[OF assms(1)] le b(3) in \<open>simp_all add: sz_def\<close>)
  then have um: "uint k = int m" by (simp only: uint_nat)
  have m: "m \<le> N" using le assms(3) by simp
  have ur: "rb_ri rb = int R" by (simp add: R_def)
  have "rt_ringbuffer_get rb len = Some (ring_list N (buffer_ptr rb) R m, ring_advance m rb)"
  proof (cases "R + m < N")
    case True
    have s: "mem_slice (buffer_ptr rb) (int R) (int m) = Some (ring_list N (buffer_ptr rb) R m)"
    proof -
      have le: "R + m \<le> N" "R + m \<le> length (buffer_ptr rb)" using True b(4) by simp_all
      show ?thesis unfolding ring_list_direct[OF le(1) b(4)[symmetric]] by (rule mem_slice_Some[OF le(2)])
    qed
    have c: "int N - int R > int m" "(R + m) mod N = R + m" "\<not> N \<le> R + m" using True by simp_all
    show ?thesis
      unfolding rt_ringbuffer_get_def Let_def sz_def[symmetric] k_def[symmetric] um ur b(1) s
        ring_advance_def R_def[symmetric] N_def[symmetric] c(2)
      using ne c(1,3) by simp
  next
    case F: False
    have i: "int N - int R = int (N - R)" "int m - int (N - R) = int (m - (N - R))"
      using F b by (simp_all add: of_nat_diff)
    have "(R + m) mod N = m - (N - R)" using mod_wrap[OF b(5) m] F b(5) by simp
    moreover have "mem_slice (buffer_ptr rb) (int R) (int (N - R)) = Some (drop R (buffer_ptr rb))"
      "mem_slice (buffer_ptr rb) 0 (int (m - (N - R))) = Some (take (m - (N - R)) (buffer_ptr rb))"
      using F b(4,5) m mem_slice_Some[of R "N - R" "buffer_ptr rb"]
        mem_slice_Some[of 0 "m - (N - R)" "buffer_ptr rb"] by simp_all
    moreover have "\<not> int (N - R) > int m" "N \<le> R + m" using F by simp_all
    moreover have "ring_list N (buffer_ptr rb) R m = drop R (buffer_ptr rb) @ take (m - (N - R)) (buffer_ptr rb)"
      using F b(4,5) m by (intro ring_list_wrapped) simp_all
    ultimately show ?thesis
      unfolding rt_ringbuffer_get_def Let_def sz_def[symmetric] k_def[symmetric] um ur b(1) i
        ring_advance_def R_def[symmetric] N_def[symmetric]
      using ne by (simp del: of_nat_diff)
  qed
  then show ?thesis by (simp only: N_def R_def)
qed

text \<open>
  C13: reading a block returns the oldest bytes, as many as asked for or as there are, and
  removes exactly these.
\<close>

theorem ringbuffer_get_refines:
  assumes "rb_wf rb"
  shows "\<exists>rb'. rt_ringbuffer_get rb len = Some (take (unat len) (rb_abs rb), rb') \<and> rb_wf rb' \<and>
    rb_N rb' = rb_N rb \<and> rb_abs rb' = drop (unat len) (rb_abs rb)"
proof (cases "rt_ringbuffer_data_len rb = 0")
  case True
  then have "rb_len rb = 0" using unat_data_len[OF assms] by simp
  then have "rb_abs rb = []" by (simp flip: length_0_conv)
  then show ?thesis using True assms by (simp add: rt_ringbuffer_get_def)
next
  case False
  define m where "m = min (unat len) (rb_len rb)"
  have m: "m \<le> rb_len rb" "take (unat len) (rb_abs rb) = take m (rb_abs rb)" "drop (unat len) (rb_abs rb) = drop m (rb_abs rb)"
    by (auto simp: m_def min_def)
  have "take m (rb_abs rb) = ring_list (rb_N rb) (buffer_ptr rb) (unat (read_index rb)) m"
    using ring_list_split[OF m(1), of "rb_N rb" "buffer_ptr rb" "unat (read_index rb)"] by (simp add: rb_abs_def)
  then show ?thesis using ringbuffer_get_ring[OF assms False m_def] ring_advance_abs[OF assms m(1)] m(2,3) by simp
qed

section \<open>Single characters\<close>

lemma ring_write_one:
  assumes "rb_wf rb"
  shows "ring_write [ch] 1 rb = Some (if rb_wi rb = rb_size rb - 1
      then rb\<lparr>buffer_ptr := (buffer_ptr rb)[unat (write_index rb) := ch],
        write_mirror := \<not> write_mirror rb, write_index := 0\<rparr>
      else rb\<lparr>buffer_ptr := (buffer_ptr rb)[unat (write_index rb) := ch], write_index := write_index rb + 1\<rparr>)"
proof -
  define N W where "N = rb_N rb" and "W = unat (write_index rb)"
  note b = rb_wf_nat[OF assms, folded N_def W_def]
  have w: "rb_wi rb = int W" by (simp add: W_def)
  have last: "int W = int N - 1 \<longleftrightarrow> W + 1 = N" "int N - int W > 1 \<longleftrightarrow> W + 1 < N" by linarith+
  have one: "mem_slice [ch] 0 1 = Some [ch]" by (simp add: mem_slice_def)
  have bl: "mem_blit (buffer_ptr rb) (int W) [ch] = Some ((buffer_ptr rb)[W := ch])"
    using b by (simp add: mem_blit_def upd_conv_take_nth_drop)
  have z: "mem_slice [ch] 1 0 = Some []" "mem_blit xs 0 [] = Some xs" for xs :: "byte list"
    by (simp_all add: mem_slice_def mem_blit_def)
  have inc: "(of_nat W :: 15 word) + 1 = write_index rb + 1" by (simp add: W_def)
  show ?thesis
  proof (cases "W + 1 = N")
    case True
    then have d: "int N - int W = 1" by simp
    show ?thesis using True
      unfolding ring_write_def Let_def w b(1) last d by (simp add: one bl z W_def[symmetric])
  next
    case False
    then have "W + 1 < N" using b by simp
    then show ?thesis
      unfolding ring_write_def Let_def w b(1) last by (simp add: one bl inc W_def[symmetric])
  qed
qed

lemma putchar_as_block:
  assumes "rb_wf rb"
  shows "rt_ringbuffer_putchar rb ch =
    (if rb_len rb = rb_N rb then Some (0, rb) else map_option (Pair 1) (ring_write [ch] 1 rb))"
proof -
  have "rt_ringbuffer_space_len rb = 0 \<longleftrightarrow> unat (rt_ringbuffer_space_len rb) = 0" by (simp add: unat_eq_zero)
  then have full: "rt_ringbuffer_space_len rb = 0 \<longleftrightarrow> rb_len rb = rb_N rb"
    using unat_space_len(1)[OF assms] rb_len_le[OF assms] by auto
  have wr: "mem_wr (buffer_ptr rb) (unat (write_index rb)) ch =
      Some ((buffer_ptr rb)[unat (write_index rb) := ch])" using rb_wf_nat(4,6)[OF assms] by simp
  show ?thesis unfolding rt_ringbuffer_putchar_def full wr ring_write_one[OF assms] by simp
qed

lemma putchar_refines:
  assumes "rb_wf rb"
  shows "\<exists>rb'. rt_ringbuffer_putchar rb ch =
      Some (if length (rb_abs rb) < rb_N rb then 1 else 0, rb') \<and> rb_wf rb' \<and> rb_N rb' = rb_N rb \<and>
    rb_abs rb' = (if length (rb_abs rb) < rb_N rb then rb_abs rb @ [ch] else rb_abs rb)"
proof (cases "rb_len rb = rb_N rb")
  case False
  then have "1 \<le> rb_N rb - rb_len rb" "rb_len rb < rb_N rb" using rb_len_le[OF assms] by simp_all
  then show ?thesis using ring_write_fits[OF assms, of 1 "[ch]"] False
    by (auto simp: putchar_as_block[OF assms])
qed (simp add: putchar_as_block[OF assms] assms)

lemma getchar_refines:
  assumes "rb_wf rb"
  shows "\<exists>rb'. rt_ringbuffer_getchar rb = Some (if rb_abs rb = [] then None else Some (hd (rb_abs rb)), rb') \<and>
    rb_wf rb' \<and> rb_N rb' = rb_N rb \<and> rb_abs rb' = drop 1 (rb_abs rb)"
proof -
  define N R where "N = rb_N rb" and "R = unat (read_index rb)"
  note b = rb_wf_nat[OF assms, folded N_def R_def]
  have z: "rt_ringbuffer_data_len rb = 0 \<longleftrightarrow> rb_len rb = 0"
  proof -
    have "rt_ringbuffer_data_len rb = 0 \<longleftrightarrow> unat (rt_ringbuffer_data_len rb) = 0" by (simp add: unat_eq_zero)
    then show ?thesis using unat_data_len[OF assms] by simp
  qed
  show ?thesis
  proof (cases "rb_len rb = 0")
    case True
    then have "rb_abs rb = []" by (simp flip: length_0_conv)
    then show ?thesis using True z assms by (simp add: rt_ringbuffer_getchar_def)
  next
    case False
    then have ne: "rb_abs rb \<noteq> []" "1 \<le> rb_len rb" by (auto simp flip: length_0_conv)
    have hd: "hd (rb_abs rb) = buffer_ptr rb ! R"
      using ne b by (simp add: hd_conv_nth rb_abs_def R_def N_def)
    have r: "rb_ri rb = int R" by (simp add: R_def)
    have inc: "of_nat (R + 1) = read_index rb + 1" by (simp add: R_def)
    have "rt_ringbuffer_getchar rb = Some (Some (hd (rb_abs rb)), ring_advance 1 rb)"
    proof (cases "R + 1 = N")
      case True
      then have "int R = int N - 1" by simp
      then show ?thesis using True False b z
        unfolding rt_ringbuffer_getchar_def r b(1) hd
        by (simp add: ring_advance_def R_def[symmetric] N_def[symmetric])
    next
      case F: False
      then have "int R \<noteq> int N - 1" "R + 1 < N" using b by simp_all
      then show ?thesis using False b z inc
        unfolding rt_ringbuffer_getchar_def r b(1) hd
        by (simp add: ring_advance_def R_def[symmetric] N_def[symmetric])
    qed
    then show ?thesis using ring_advance_abs[OF assms ne(2)] ne(1) by (simp add: drop_Suc)
  qed
qed

section \<open>Writes that overwrite\<close>

lemma rb_full_iff: "rb_wf rb \<Longrightarrow> rt_ringbuffer_status rb = RT_RINGBUFFER_FULL \<longleftrightarrow> rb_len rb = rb_N rb"
  using rb_wf_nat(2,5,6)[of rb]
  by (auto simp: rt_ringbuffer_status_def rb_len_def Let_def word_unat_eq_iff split: if_splits)

text \<open>
  The overwriting write of one character always stores it, and drops the oldest one exactly
  when the buffer was full.
\<close>

theorem ringbuffer_putchar_force_spec:
  assumes "rb_wf rb"
  shows "\<exists>rb'. rt_ringbuffer_putchar_force rb ch = Some (1, rb') \<and> rb_wf rb' \<and> rb_N rb' = rb_N rb \<and>
    rb_abs rb' = (if length (rb_abs rb) = rb_N rb then tl (rb_abs rb) else rb_abs rb) @ [ch]"
proof -
  note b = rb_wf_nat[OF assms]
  have wr: "mem_wr (buffer_ptr rb) (unat (write_index rb)) ch =
      Some ((buffer_ptr rb)[unat (write_index rb) := ch])" using b by simp
  show ?thesis
  proof (cases "rb_len rb = rb_N rb")
    case False
    then have st: "rt_ringbuffer_status rb \<noteq> RT_RINGBUFFER_FULL" using rb_full_iff[OF assms] by simp
    have e: "rt_ringbuffer_putchar_force rb ch = map_option (Pair 1) (ring_write [ch] 1 rb)"
      unfolding ring_write_one[OF assms] rt_ringbuffer_putchar_force_def wr Let_def using st by simp
    have "1 \<le> rb_N rb - rb_len rb" using rb_len_le[OF assms] False by simp
    from ring_write_fits[OF assms this, of "[ch]"] show ?thesis using False by (auto simp: e)
  next
    case True
    define q where "q = ring_advance 1 rb"
    have st: "rt_ringbuffer_status rb = RT_RINGBUFFER_FULL" using rb_full_iff[OF assms] True by simp
    have one: "1 \<le> rb_len rb" using True b(2) by simp
    have q: "rb_wf q" "rb_N q = rb_N rb" "rb_abs q = drop 1 (rb_abs rb)"
      using ring_advance_abs[OF assms one] by (simp_all add: q_def)
    have RW: "read_index rb = write_index rb"
      using st by (auto simp: rt_ringbuffer_status_def split: if_splits)
    have same: "buffer_ptr q = buffer_ptr rb" "write_index q = write_index rb"
      "write_mirror q = write_mirror rb" "rb_size q = rb_size rb"
      by (simp_all add: q_def ring_advance_def)
    define N W where "N = rb_N rb" and "W = unat (write_index rb)"
    have w: "rb_wi rb = int W" "W < N" "rb_size rb = int N" using b by (simp_all add: W_def N_def)
    have last: "int W = int N - 1 \<longleftrightarrow> W + 1 = N" by linarith
    have e: "rt_ringbuffer_putchar_force rb ch = map_option (Pair 1) (ring_write [ch] 1 q)"
    proof (cases "W + 1 = N")
      case True
      then show ?thesis
        unfolding ring_write_one[OF q(1)] same rt_ringbuffer_putchar_force_def wr Let_def w(1,3) last
        by (simp add: st q_def ring_advance_def RW W_def[symmetric] N_def[symmetric])
    next
      case False
      then have "W + 1 < N" using w(2) by simp
      moreover have "(of_nat W :: 15 word) + 1 = write_index rb + 1" by (simp add: W_def)
      ultimately show ?thesis using False
        unfolding ring_write_one[OF q(1)] same rt_ringbuffer_putchar_force_def wr Let_def w(1,3) last
        by (simp add: st q_def ring_advance_def RW W_def[symmetric] N_def[symmetric])
    qed
    have "length (rb_abs q) = rb_len rb - 1" using q(3) by simp
    then have "1 \<le> rb_N q - rb_len q" using True one q(2) by simp
    from ring_write_fits[OF q(1) this, of "[ch]"] show ?thesis
      using True q(2,3) by (auto simp: e drop_Suc)
  qed
qed

text \<open>The overwriting block write, on what is left of the block after its truncation.\<close>

lemma put_force_eq:
  assumes "rb_wf rb" "unat len \<le> length ptr"
  defines "m \<equiv> min (unat len) (rb_N rb)"
  defines "data \<equiv> drop (unat len - m) (take (unat len) ptr)"
  shows "\<exists>rb' k. ring_write data (int m) rb = Some rb' \<and> unat k = m \<and>
    rt_ringbuffer_put_force rb ptr len = Some (k,
      if m \<le> rb_N rb - rb_len rb then rb'
      else if unat (write_index rb) + m < rb_N rb then rb'\<lparr>read_index := write_index rb'\<rparr>
      else rb'\<lparr>read_mirror := \<not> read_mirror rb', read_index := write_index rb'\<rparr>)"
proof -
  define N W where "N = rb_N rb" and "W = unat (write_index rb)"
  note b = rb_wf_nat[OF assms(1), folded N_def W_def]
  have w: "rb_wi rb = int W" by (simp add: W_def)
  define L where "L = unat len"
  have ul: "uint len = int L" by (simp add: L_def)
  have m: "m = min L N" by (simp add: m_def L_def N_def)
  define k where "k = (if uint len > rb_size rb then word_of_int (rb_size rb) else len)"
  have k: "unat k = m"
    using b(3) unfolding k_def ul b(1) by (auto simp: m small16 L_def[symmetric])
  have off: "nat (if uint len > rb_size rb then uint len - rb_size rb else 0) = L - m"
    unfolding ul b(1) by (auto simp: m)
  have dl: "length data = m" using assms(2) by (simp add: data_def L_def[symmetric] m)
  have sl: "mem_slice (drop (L - m) ptr) (int a) (int c) = mem_slice data (int a) (int c)" if "a + c \<le> m" for a c
  proof -
    have "mem_slice data (int a) (int c) = Some (take c (drop a data))"
      using that dl by (intro mem_slice_Some) simp
    moreover have "mem_slice (drop (L - m) ptr) (int a) (int c) = Some (take c (drop a (drop (L - m) ptr)))"
    proof (rule mem_slice_Some)
      show "a + c \<le> length (drop (L - m) ptr)"
        using that assms(2) unfolding length_drop L_def[symmetric] m by linarith
    qed
    moreover have "take c (drop a data) = take c (drop a (drop (L - m) ptr))"
    proof -
      have "L - (L - m) = m" by (simp add: m)
      then have "data = take m (drop (L - m) ptr)" by (simp add: data_def L_def[symmetric] drop_take)
      moreover have "min c (m - a) = c" using that by simp
      ultimately show ?thesis by (simp add: drop_take)
    qed
    ultimately show ?thesis by simp
  qed
  have rw: "ring_write (drop (L - m) ptr) (int m) rb = ring_write data (int m) rb"
  proof (cases "W + m < N")
    case True
    then show ?thesis using sl[of 0 m] unfolding ring_write_def w b(1) by simp
  next
    case False
    have i: "int N - int W = int (N - W)" "int m - int (N - W) = int (m - (N - W))"
      using False b(6) by (simp_all add: of_nat_diff)
    have "mem_slice (drop (L - m) ptr) 0 (int (N - W)) = mem_slice data 0 (int (N - W))"
      "mem_slice (drop (L - m) ptr) (int (N - W)) (int (m - (N - W))) =
       mem_slice data (int (N - W)) (int (m - (N - W)))"
      using sl[of 0 "N - W"] sl[of "N - W" "m - (N - W)"] False by simp_all
    moreover have "\<not> int (N - W) > int m" using False by simp
    ultimately show ?thesis unfolding ring_write_def w b(1) Let_def i by (simp del: of_nat_diff)
  qed
  have "m \<le> rb_N rb" "m \<le> length data" using dl by (simp_all add: m N_def)
  from ring_write_eq[OF assms(1) this] obtain rb' where rb': "ring_write data (int m) rb = Some rb'" by blast
  have uk: "uint k = int m" using k by (metis uint_nat)
  have gt: "k > ucast (rt_ringbuffer_space_len rb) \<longleftrightarrow> \<not> m \<le> rb_N rb - rb_len rb"
    using unat_space_len(2)[OF assms(1)] k by (auto simp: word_less_nat_alt)
  have cond: "rb_size rb - rb_wi rb > uint k \<longleftrightarrow> W + m < N" unfolding w b(1) uk by linarith
  have "rt_ringbuffer_put_force rb ptr len = Some (k,
      if m \<le> rb_N rb - rb_len rb then rb'
      else if W + m < N then rb'\<lparr>read_index := write_index rb'\<rparr>
      else rb'\<lparr>read_mirror := \<not> read_mirror rb', read_index := write_index rb'\<rparr>)"
    unfolding rt_ringbuffer_put_force_def Let_def k_def[symmetric] off gt cond
    by (simp add: uk rw rb' del: uint_nat)
  then show ?thesis using k rb' unfolding W_def N_def by blast
qed

text \<open>
  The overwriting block write stores the last bytes of the block that the buffer can hold.
  If they do not fit beside the old contents the oldest bytes are dropped, as intended, when the
  indices are on different sides of the mirror; when they are on the same side the buffer is empty
  afterwards: old and new bytes are lost.
\<close>

theorem ringbuffer_put_force_spec:
  assumes "rb_wf rb" "unat len \<le> length ptr"
  shows "\<exists>k rb'. rt_ringbuffer_put_force rb ptr len = Some (k, rb') \<and> rb_wf rb' \<and>
    (let m = min (unat len) (rb_N rb); data = drop (unat len - m) (take (unat len) ptr);
         over = length (rb_abs rb) + m - rb_N rb in
       unat k = m \<and>
       rb_abs rb' = (if over = 0 then rb_abs rb @ data
                     else if read_mirror rb = write_mirror rb then []
                     else drop over (rb_abs rb) @ data))"
proof -
  define N W R n where "N = rb_N rb" and "W = unat (write_index rb)" and "R = unat (read_index rb)"
    and "n = rb_len rb"
  note b = rb_wf_nat[OF assms(1), folded N_def W_def R_def]
  define m where "m = min (unat len) N"
  define data where "data = drop (unat len - m) (take (unat len) ptr)"
  have nN: "n \<le> N" using rb_len_le[OF assms(1)] by (simp add: n_def N_def)
  have mN: "m \<le> N" "length data = m" using assms(2) by (simp_all add: m_def data_def)
  obtain rb1 k where w: "ring_write data (int m) rb = Some rb1" and k: "unat k = m"
    and pf: "rt_ringbuffer_put_force rb ptr len = Some (k,
      if m \<le> N - n then rb1 else if W + m < N then rb1\<lparr>read_index := write_index rb1\<rparr>
      else rb1\<lparr>read_mirror := \<not> read_mirror rb1, read_index := write_index rb1\<rparr>)"
    using put_force_eq[OF assms] unfolding m_def data_def N_def W_def n_def by blast
  have nn: "n = (if R = W then if read_mirror rb = write_mirror rb then 0 else N
      else if R < W then W - R else N - (R - W))"
    unfolding n_def rb_len_def Let_def R_def[symmetric] W_def[symmetric] N_def[symmetric] by simp
  show ?thesis
  proof (cases "n + m \<le> N")
    case True
    then have "m \<le> rb_N rb - rb_len rb" using nN by (simp add: N_def n_def)
    from ring_write_fits[OF assms(1) this, of data] w mN(2) True k pf
    show ?thesis
      by (auto simp: Let_def m_def[symmetric] data_def[symmetric] N_def[symmetric] n_def[symmetric])
  next
    case False
    then have nle: "\<not> m \<le> N - n" using nN by linarith
    define d where "d = n + m - N"
    have d: "d \<le> n" "0 < d" using False mN(1) by (simp_all add: d_def)
    define q where "q = ring_advance d rb"
    have q: "rb_wf q" "rb_N q = N" "rb_abs q = drop d (rb_abs rb)"
      using ring_advance_abs[OF assms(1) d(1)[unfolded n_def]] by (simp_all add: q_def N_def)
    have lq: "rb_len q = N - m" using q(3) by (simp add: d_def n_def[symmetric] flip: length_rb_abs) (use mN False nN in \<open>simp add: n_def\<close>)
    then have "m \<le> rb_N q - rb_len q" "m \<le> length data" using q(2) mN by simp_all
    from ring_write_fits[OF q(1) this] obtain q' where q': "ring_write data (int m) q = Some q'"
      "rb_wf q'" "rb_N q' = N" "rb_abs q' = drop d (rb_abs rb) @ data" using q mN(2) by auto
    have sel: "buffer_ptr q = buffer_ptr rb" "write_index q = write_index rb" "write_mirror q = write_mirror rb"
      "buffer_size q = buffer_size rb" by (simp_all add: q_def ring_advance_def)
    have "ring_write data (int m) q = map_option (\<lambda>r. r\<lparr>read_mirror := read_mirror q, read_index := read_index q\<rparr>)
        (ring_write data (int m) rb)"
      unfolding ring_write_def sel Let_def by (auto simp: q_def ring_advance_def split: Option.bind_splits)
    then have q1: "q' = rb1\<lparr>read_mirror := read_mirror q, read_index := read_index q\<rparr>" using q'(1) w by simp
    have Rd: "(R + d) mod N = (W + m) mod N"
    proof -
      have "W = (R + n) mod N" using rb_write_pos[OF assms(1)] by (simp add: W_def R_def n_def N_def)
      then have "(W + m) mod N = (R + n + m) mod N" by (simp add: mod_add_left_eq)
      also have "R + n + m = R + d + N" using False by (simp add: d_def)
      finally show ?thesis by simp
    qed
    obtain buf' where rb1: "rb1 = rb\<lparr>buffer_ptr := buf',
      write_mirror := (write_mirror rb \<noteq> (N \<le> W + m)), write_index := of_nat ((W + m) mod N)\<rparr>"
      using ring_write_eq[OF assms(1), of m data] mN w unfolding N_def W_def by auto
    have ri: "read_index q = write_index rb1"
      by (simp add: q_def ring_advance_def rb1 R_def[symmetric] N_def[symmetric] Rd del: of_nat_mod)
    have rm: "read_mirror q = (read_mirror rb \<noteq> (N \<le> R + d))"
      by (simp add: q_def ring_advance_def R_def[symmetric] N_def[symmetric])
    show ?thesis
    proof (cases "read_mirror rb = write_mirror rb")
      case False
      have "N \<le> R + d \<longleftrightarrow> N \<le> W + m" using False b(5-7) nn d_def \<open>\<not> n + m \<le> N\<close> mN by (auto split: if_splits)
      then have "q' = (if W + m < N then rb1\<lparr>read_index := write_index rb1\<rparr>
          else rb1\<lparr>read_mirror := \<not> read_mirror rb1, read_index := write_index rb1\<rparr>)"
        using q1 ri rm by (auto simp: rb1)
      then show ?thesis using pf k q' nle False d \<open>\<not> n + m \<le> N\<close>
        by (auto simp: Let_def m_def[symmetric] data_def[symmetric] N_def[symmetric] n_def[symmetric] d_def)
    next
      case True
      have wr: "N \<le> W + m" "\<not> W + m < N" using True b(5-7) nn \<open>\<not> n + m \<le> N\<close> by (auto split: if_splits)
      define e where "e = rb1\<lparr>read_mirror := \<not> read_mirror rb1, read_index := write_index rb1\<rparr>"
      have em: "read_mirror e = write_mirror e" "read_index e = write_index e" "buffer_ptr e = buffer_ptr q'"
        "buffer_size e = buffer_size q'" "write_index e = write_index q'"
        using True wr by (simp_all add: e_def rb1 q1)
      have "rb_wf e" using q'(2) em by (simp add: rb_wf_def rb_N_def)
      moreover have "rb_abs e = []" using em by (simp add: rb_abs_def rb_len_def ring_list_def)
      moreover have "rt_ringbuffer_put_force rb ptr len = Some (k, e)" using pf nle wr by (simp add: e_def)
      ultimately show ?thesis using k True d
        by (auto simp: Let_def m_def[symmetric] data_def[symmetric] N_def[symmetric] n_def[symmetric] d_def)
    qed
  qed
qed

section \<open>The ring buffer as a queue\<close>

definition rb_push :: "byte \<Rightarrow> rt_ringbuffer \<Rightarrow> (bool \<times> rt_ringbuffer) option" where
  "rb_push ch rb = map_option (\<lambda>(n, rb). (n = 1, rb)) (rt_ringbuffer_putchar rb ch)"

interpretation rb: bounded_queue rb_wf rb_N rb_abs rb_push rt_ringbuffer_getchar
proof (unfold_locales, goal_cases)
  case (1 q x)
  then show ?case using putchar_refines[OF 1, of x] by (auto simp: rb_push_def)
next
  case (2 q)
  then show ?case by (rule getchar_refines)
qed

text \<open>
  Characters come out of an empty ring buffer in the order they were put in, as many as the
  capacity allows, across any number of wrap-arounds of the indices.
\<close>

theorem ringbuffer_fifo:
  assumes "rb_wf rb" "rb_abs rb = []" "length xs \<le> rb_N rb"
  shows "\<exists>r s. pushes rb_push xs rb = Some r \<and>
    pops rt_ringbuffer_getchar (length xs) r = Some (map Some xs, s) \<and> rb_abs s = []"
  using assms by (rule rb.fifo)

text \<open>A fresh buffer.\<close>

lemma RT_ALIGN_DOWN_4: "RT_ALIGN_DOWN x 4 = x div 4 * 4"
proof -
  have "x AND NOT (mask 2) = push_bit 2 (drop_bit 2 x)"
    by (rule bit_eqI) (auto simp: bit_simps not_less dest!: le_Suc_ex)
  then show ?thesis
    by (simp add: RT_ALIGN_DOWN_def push_bit_eq_mult drop_bit_eq_div mask_eq_exp_minus_1)
qed

lemma ringbuffer_init_wf:
  assumes "4 \<le> sint sz" "sint sz mod 4 = 0" "length pool = nat (sint sz)"
  shows "\<exists>rb. rt_ringbuffer_init pool sz = Some rb \<and> rb_wf rb \<and> rb_N rb = nat (sint sz) \<and> rb_abs rb = []"
proof -
  have "sint sz div 4 * 4 = sint sz" using assms(2) by presburger
  then show ?thesis using assms
    by (auto simp: rt_ringbuffer_init_def RT_ALIGN_DOWN_4 rb_wf_def rb_N_def rb_abs_def rb_len_def ring_list_def)
qed

end
