(* ===== verification/RtRingWitness.thy ===== *)
theory RtRingWitness
  imports RtRingbufferQueue
begin

text \<open>The ring-buffer theorems at a buffer of four bytes.\<close>

text \<open>Two bytes stored, the indices on the same side of the mirror.\<close>

definition ring4 :: rt_ringbuffer where
  "ring4 = \<lparr>buffer_ptr = [10, 20, 30, 40], read_mirror = False, read_index = 1, write_mirror = False,
     write_index = 3, buffer_size = 4\<rparr>"

text \<open>The same buffer, empty.\<close>

definition ring0 :: rt_ringbuffer where
  "ring0 = ring4\<lparr>write_index := 1\<rparr>"

lemma ring4_wf: "rb_wf ring4" "rb_wf ring0"
  by (simp_all add: rb_wf_def ring4_def ring0_def rb_N_def)

lemma ring4_abs: "rb_N ring4 = 4" "rb_abs ring4 = [20, 30]" "rb_N ring0 = 4" "rb_abs ring0 = []"
  by (simp_all add: rb_abs_def rb_len_def ring_list_def rb_N_def ring4_def ring0_def upt_conv_Cons)

lemma ringbuffer_put_refines_witness:
  "\<exists>rb. rt_ringbuffer_put ring4 [1, 2, 3] 3 = Some (2, rb) \<and> rb_abs rb = [20, 30, 1, 2]"
proof -
  obtain k rb where r: "rt_ringbuffer_put ring4 [1, 2, 3] 3 = Some (k, rb)" "unat k = 2"
    "rb_abs rb = [20, 30] @ take (unat k) [1, 2, 3]"
    using ringbuffer_put_refines[OF ring4_wf(1), of 3 "[1, 2, 3]"] by (auto simp: ring4_abs)
  moreover have "k = 2" using r(2) by (simp add: word_unat_eq_iff)
  ultimately show ?thesis by simp
qed

lemma ringbuffer_get_refines_witness:
  "\<exists>rb. rt_ringbuffer_get ring4 1 = Some ([20], rb) \<and> rb_abs rb = [30]"
  using ringbuffer_get_refines[OF ring4_wf(1), of 1] by (auto simp: ring4_abs)

lemma ringbuffer_putchar_force_spec_witness:
  "\<exists>rb. rt_ringbuffer_putchar_force ring4 7 = Some (1, rb) \<and> rb_abs rb = [20, 30, 7]"
  using ringbuffer_putchar_force_spec[OF ring4_wf(1), of 7] by (auto simp: ring4_abs)

lemma ringbuffer_put_force_spec_witness:
  "\<exists>k rb. rt_ringbuffer_put_force ring4 [1, 2, 3] 3 = Some (k, rb) \<and> unat k = 3 \<and> rb_abs rb = []"
  using ringbuffer_put_force_spec[OF ring4_wf(1), of 3 "[1, 2, 3]"]
  by (auto simp: ring4_abs Let_def) (simp_all add: ring4_def)

lemma ringbuffer_fifo_witness:
  "\<exists>r s. pushes rb_push [5, 6, 7] ring0 = Some r \<and>
     pops rt_ringbuffer_getchar 3 r = Some ([Some 5, Some 6, Some 7], s)"
  using ringbuffer_fifo[OF ring4_wf(2), of "[5, 6, 7]"] by (auto simp: ring4_abs eval_nat_numeral)

end
