(* ===== verification/RtMem.thy ===== *)
theory RtMem
  imports Prelude
begin

text \<open>
  The kernel's small-memory heap (\<open>src/mem.c\<close>), as configured for 32-bit addresses with block
  names: a chain of blocks, each behind a header with the offsets of its neighbours. Headers are
  kept in a map from offsets (relative to \<open>heap_ptr\<close>). Where the code would take other bytes for a header,
  it leaves the model: that is a fault, too, and no theorem says that the code detects it.
  The bytes of the user areas are a map of their own. \<open>NULL\<close> is address 0.
\<close>

section \<open>State\<close>

record heap_mem =
  hm_magic :: word16
  hm_used :: word16
  hm_next :: word32
  hm_prev :: word32
  hm_thread :: string

text \<open>Calls made through the hook pointers, in order.\<close>

datatype hook_call = MallocHook word32 word32 | FreeHook word32

record heap =
  heap_ptr :: word32
  heap_end :: word32
  lfree :: word32
  heap_sem :: nat
  mem_size_aligned :: word32
  used_mem :: word32
  max_mem :: word32
  headers :: "word32 \<Rightarrow> heap_mem option"
  user_data :: "word32 \<Rightarrow> byte"
  rt_malloc_hook :: bool
  rt_free_hook :: bool
  hook_calls :: "hook_call list"
  thread_self :: "string option"

definition HEAP_MAGIC :: word16 where "HEAP_MAGIC = 0x1ea0"
definition RT_ALIGN_SIZE :: word32 where "RT_ALIGN_SIZE = 4"
definition MIN_SIZE :: word32 where "MIN_SIZE = 12"

definition RT_ALIGN :: "word32 \<Rightarrow> word32 \<Rightarrow> word32" where
  "RT_ALIGN sz al = (sz + al - 1) AND NOT (al - 1)"

definition align_down :: "word32 \<Rightarrow> word32 \<Rightarrow> word32" where
  "align_down sz al = sz AND NOT (al - 1)"

definition MIN_SIZE_ALIGNED :: word32 where
  "MIN_SIZE_ALIGNED = RT_ALIGN MIN_SIZE RT_ALIGN_SIZE"

text \<open>Two 16-bit and two 32-bit fields and the four characters of the name.\<close>

definition SIZEOF_STRUCT_MEM :: word32 where
  "SIZEOF_STRUCT_MEM = RT_ALIGN (2 + 2 + 4 + 4 + 4) RT_ALIGN_SIZE"

definition rt_malloc_sethook :: "bool \<Rightarrow> heap \<Rightarrow> heap" where
  "rt_malloc_sethook hook h = h\<lparr>rt_malloc_hook := hook\<rparr>"

definition rt_free_sethook :: "bool \<Rightarrow> heap \<Rightarrow> heap" where
  "rt_free_sethook hook h = h\<lparr>rt_free_hook := hook\<rparr>"

text \<open>The heap's semaphore: taking it when it is taken would wait for ever.\<close>

definition heap_take :: "heap \<Rightarrow> heap option" where
  "heap_take h = (if heap_sem h = 0 then None else Some (h\<lparr>heap_sem := heap_sem h - 1\<rparr>))"

definition heap_release :: "heap \<Rightarrow> heap" where
  "heap_release h = h\<lparr>heap_sem := heap_sem h + 1\<rparr>"

section \<open>Headers\<close>

text \<open>The first four characters of the name, filled up with spaces.\<close>

definition rt_mem_setname :: "string \<Rightarrow> heap_mem \<Rightarrow> heap_mem" where
  "rt_mem_setname name m = m\<lparr>hm_thread :=
     take 4 (takeWhile (\<lambda>c. c \<noteq> CHR 0x00) name @ replicate 4 CHR '' '')\<rparr>"

definition hdr_upd :: "word32 \<Rightarrow> (heap_mem \<Rightarrow> heap_mem) \<Rightarrow> heap \<Rightarrow> heap option" where
  "hdr_upd off f h = (case headers h off of None \<Rightarrow> None
     | Some m \<Rightarrow> Some (h\<lparr>headers := (headers h)(off \<mapsto> f m)\<rparr>))"

definition new_hdr :: "word32 \<Rightarrow> word32 \<Rightarrow> word32 \<Rightarrow> word16 \<Rightarrow> string \<Rightarrow> heap \<Rightarrow> heap" where
  "new_hdr off nxt prv used name h = h\<lparr>headers := (headers h)(off \<mapsto> rt_mem_setname name
     \<lparr>hm_magic = HEAP_MAGIC, hm_used = used, hm_next = nxt, hm_prev = prv, hm_thread = []\<rparr>)\<rparr>"

text \<open>
  Joining the free block \<open>y\<close> to the block \<open>x\<close> before it; both halves of \<open>plug_holes\<close> do this.
\<close>

definition join_next :: "word32 \<Rightarrow> word32 \<Rightarrow> heap \<Rightarrow> heap option" where
  "join_next x y h = do {
     m \<leftarrow> headers h y;
     h \<leftarrow> Some (if lfree h = y then h\<lparr>lfree := x\<rparr> else h);
     h \<leftarrow> hdr_upd x (\<lambda>a. a\<lparr>hm_next := hm_next m\<rparr>) h;
     hdr_upd (hm_next m) (\<lambda>a. a\<lparr>hm_prev := x\<rparr>) h }"

definition plug_holes :: "word32 \<Rightarrow> heap \<Rightarrow> heap option" where
  "plug_holes mem h = do {
     m \<leftarrow> headers h mem;
     h \<leftarrow> (if mem < heap_end h \<and> hm_used m = 0 then Some h else None);
     n \<leftarrow> headers h (hm_next m);
     h \<leftarrow> (if mem \<noteq> hm_next m \<and> hm_used n = 0 \<and> hm_next m \<noteq> heap_end h
          then join_next mem (hm_next m) h else Some h);
     m \<leftarrow> headers h mem;
     p \<leftarrow> headers h (hm_prev m);
     (if hm_prev m \<noteq> mem \<and> hm_used p = 0 then join_next (hm_prev m) mem h else Some h) }"

text \<open>A new free block at \<open>ptr2\<close>, put into the chain behind \<open>ptr\<close>.\<close>

definition insert_block :: "word32 \<Rightarrow> word32 \<Rightarrow> heap \<Rightarrow> heap option" where
  "insert_block ptr ptr2 h = do {
     m \<leftarrow> headers h ptr;
     h \<leftarrow> Some (new_hdr ptr2 (hm_next m) ptr 0 ''    '' h);
     h \<leftarrow> hdr_upd ptr (\<lambda>x. x\<lparr>hm_next := ptr2\<rparr>) h;
     (if hm_next m \<noteq> mem_size_aligned h + SIZEOF_STRUCT_MEM
      then hdr_upd (hm_next m) (\<lambda>x. x\<lparr>hm_prev := ptr2\<rparr>) h else Some h) }"

section \<open>Initialisation\<close>

definition rt_system_heap_init :: "word32 \<Rightarrow> word32 \<Rightarrow> heap \<Rightarrow> heap" where
  "rt_system_heap_init begin_addr end_addr h = (let
     begin_align = RT_ALIGN begin_addr RT_ALIGN_SIZE;
     end_align = align_down end_addr RT_ALIGN_SIZE in
     if end_align > 2 * SIZEOF_STRUCT_MEM \<and> end_align - 2 * SIZEOF_STRUCT_MEM \<ge> begin_align then
       (let h = h\<lparr>mem_size_aligned := end_align - begin_align - 2 * SIZEOF_STRUCT_MEM,
                  heap_ptr := begin_align\<rparr>;
            e = mem_size_aligned h + SIZEOF_STRUCT_MEM;
            h = new_hdr 0 e 0 0 ''INIT'' h;
            h = h\<lparr>heap_end := e\<rparr>;
            h = new_hdr e e e 1 ''INIT'' h
        in h\<lparr>heap_sem := 1, lfree := 0\<rparr>)
     else h)"

section \<open>Allocation\<close>

text \<open>
  The search loop: it goes on while the offset is below \<open>mem_size_aligned - size\<close> and the block
  there is in use or too small.
\<close>

definition fits :: "heap \<Rightarrow> word32 \<Rightarrow> word32 \<Rightarrow> bool" where
  "fits h sz ptr = (case headers h ptr of None \<Rightarrow> False
     | Some m \<Rightarrow> hm_used m = 0 \<and> hm_next m - (ptr + SIZEOF_STRUCT_MEM) \<ge> sz)"

definition search_more :: "heap \<Rightarrow> word32 \<Rightarrow> word32 \<Rightarrow> bool" where
  "search_more h sz ptr \<longleftrightarrow> ptr < mem_size_aligned h - sz \<and> \<not> fits h sz ptr"

definition next_block :: "heap \<Rightarrow> word32 \<Rightarrow> word32 option" where
  "next_block h ptr = map_option hm_next (headers h ptr)"

definition count_used :: "word32 \<Rightarrow> heap \<Rightarrow> heap" where
  "count_used n h = (let u = used_mem h + n in
     h\<lparr>used_mem := u, max_mem := (if max_mem h < u then u else max_mem h)\<rparr>)"

text \<open>Taking the block at \<open>ptr\<close>, split when the rest can hold another block.\<close>

definition take_block :: "word32 \<Rightarrow> word32 \<Rightarrow> heap \<Rightarrow> heap option" where
  "take_block sz ptr h = do {
     m \<leftarrow> headers h ptr;
     h \<leftarrow> (if hm_next m - (ptr + SIZEOF_STRUCT_MEM) \<ge> sz + SIZEOF_STRUCT_MEM + MIN_SIZE_ALIGNED
          then do {
            h \<leftarrow> insert_block ptr (ptr + SIZEOF_STRUCT_MEM + sz) h;
            h \<leftarrow> hdr_upd ptr (\<lambda>x. x\<lparr>hm_used := 1\<rparr>) h;
            Some (count_used (sz + SIZEOF_STRUCT_MEM) h) }
          else do {
            h \<leftarrow> hdr_upd ptr (\<lambda>x. x\<lparr>hm_used := 1\<rparr>) h;
            Some (count_used (hm_next m - ptr) h) });
     hdr_upd ptr (\<lambda>x. rt_mem_setname (case thread_self h of Some name \<Rightarrow> name | None \<Rightarrow> ''NONE'')
                        (x\<lparr>hm_magic := HEAP_MAGIC\<rparr>)) h }"

text \<open>The loop that moves \<open>lfree\<close> to the next free block.\<close>

definition lfree_more :: "heap \<Rightarrow> word32 \<Rightarrow> bool" where
  "lfree_more h ptr \<longleftrightarrow> (case headers h ptr of None \<Rightarrow> True | Some m \<Rightarrow> hm_used m \<noteq> 0 \<and> ptr \<noteq> heap_end h)"

text \<open>What happens once the search has stopped at a block that fits.\<close>

definition hand_out :: "nat \<Rightarrow> word32 \<Rightarrow> word32 \<Rightarrow> heap \<Rightarrow> (word32 \<times> heap) outcome" where
  "hand_out fuel sz ptr h =
     obind (of_opt (take_block sz ptr h)) (\<lambda>h.
     obind (if ptr = lfree h then of_loop (run_loop fuel (lfree_more h) (next_block h) (lfree h))
            else Done (lfree h)) (\<lambda>lf. let
       h = heap_release (h\<lparr>lfree := lf\<rparr>);
       mem = heap_ptr h + ptr;
       rmem = mem + SIZEOF_STRUCT_MEM in
       if mem + SIZEOF_STRUCT_MEM + sz \<le> heap_ptr h + heap_end h \<and>
          rmem mod RT_ALIGN_SIZE = 0 \<and> mem AND (RT_ALIGN_SIZE - 1) = 0
       then Done (rmem, if rt_malloc_hook h then h\<lparr>hook_calls := hook_calls h @ [MallocHook rmem sz]\<rparr> else h)
       else Fault))"

definition rt_malloc :: "nat \<Rightarrow> word32 \<Rightarrow> heap \<Rightarrow> (word32 \<times> heap) outcome" where
  "rt_malloc fuel sz h = (if sz = 0 then Done (0, h) else let sz = RT_ALIGN sz RT_ALIGN_SIZE in
     if sz > mem_size_aligned h then Done (0, h)
     else let sz = (if sz < MIN_SIZE_ALIGNED then MIN_SIZE_ALIGNED else sz) in
     obind (of_opt (heap_take h)) (\<lambda>h.
     obind (of_loop (run_loop fuel (search_more h sz) (next_block h) (lfree h))) (\<lambda>ptr.
     if \<not> ptr < mem_size_aligned h - sz then Done (0, heap_release h) else hand_out fuel sz ptr h)))"

section \<open>Release\<close>

definition rt_free :: "word32 \<Rightarrow> heap \<Rightarrow> heap outcome" where
  "rt_free rmem h = (if rmem = 0 then Done h
     else if rmem AND (RT_ALIGN_SIZE - 1) = 0 \<and> heap_ptr h \<le> rmem \<and> rmem < heap_ptr h + heap_end h
     then of_opt (let
       h = (if rt_free_hook h then h\<lparr>hook_calls := hook_calls h @ [FreeHook rmem]\<rparr> else h);
       mem = rmem - SIZEOF_STRUCT_MEM - heap_ptr h in do {
         h \<leftarrow> heap_take h;
         m \<leftarrow> headers h mem;
         h \<leftarrow> (if hm_used m \<noteq> 0 \<and> hm_magic m = HEAP_MAGIC then Some h else None);
         h \<leftarrow> hdr_upd mem (\<lambda>x. rt_mem_setname ''    '' (x\<lparr>hm_used := 0, hm_magic := HEAP_MAGIC\<rparr>)) h;
         h \<leftarrow> Some (if mem < lfree h then h\<lparr>lfree := mem\<rparr> else h);
         h \<leftarrow> Some (h\<lparr>used_mem := used_mem h - (hm_next m - mem)\<rparr>);
         h \<leftarrow> plug_holes mem h;
         Some (heap_release h) })
     else Fault)"

section \<open>Filling and copying user areas\<close>

text \<open>Writing \<open>n\<close> bytes from the offset \<open>off\<close> on destroys the headers the range overlaps.\<close>

definition clobber :: "word32 \<Rightarrow> nat \<Rightarrow> heap \<Rightarrow> heap" where
  "clobber off n h = h\<lparr>headers := (\<lambda>k. if unat k < unat off + n \<and> unat off < unat k + unat SIZEOF_STRUCT_MEM
     then None else headers h k)\<rparr>"

definition put_user :: "word32 \<Rightarrow> byte list \<Rightarrow> heap \<Rightarrow> heap" where
  "put_user addr xs h = (let off = addr - heap_ptr h in clobber off (length xs)
     (h\<lparr>user_data := (\<lambda>k. if unat off \<le> unat k \<and> unat k < unat off + length xs
         then xs ! (unat k - unat off) else user_data h k)\<rparr>))"

definition get_user :: "word32 \<Rightarrow> nat \<Rightarrow> heap \<Rightarrow> byte list" where
  "get_user addr n h = map (\<lambda>i. user_data h (addr - heap_ptr h + of_nat i)) [0..<n]"

definition rt_realloc :: "nat \<Rightarrow> word32 \<Rightarrow> word32 \<Rightarrow> heap \<Rightarrow> (word32 \<times> heap) outcome" where
  "rt_realloc fuel rmem newsize h = (let newsize = RT_ALIGN newsize RT_ALIGN_SIZE in
     if newsize > mem_size_aligned h then Done (0, h)
     else if newsize = 0 then obind (rt_free rmem h) (\<lambda>h. Done (0, h))
     else if rmem = 0 then rt_malloc fuel newsize h
     else obind (of_opt (heap_take h)) (\<lambda>h.
       if rmem < heap_ptr h \<or> rmem \<ge> heap_ptr h + heap_end h then Done (rmem, heap_release h)
       else let mem = rmem - SIZEOF_STRUCT_MEM; ptr = mem - heap_ptr h in
         obind (of_opt (headers h ptr)) (\<lambda>m.
         let sz = hm_next m - ptr - SIZEOF_STRUCT_MEM in
         if sz = newsize then Done (rmem, heap_release h)
         else if newsize + SIZEOF_STRUCT_MEM + MIN_SIZE < sz then
           obind (of_opt (do {
             h \<leftarrow> Some (h\<lparr>used_mem := used_mem h - (sz - newsize)\<rparr>);
             ptr2 \<leftarrow> Some (ptr + SIZEOF_STRUCT_MEM + newsize);
             h \<leftarrow> insert_block ptr ptr2 h;
             plug_holes ptr2 h })) (\<lambda>h. Done (rmem, heap_release h))
         else let h = heap_release h in
           obind (rt_malloc fuel newsize h) (\<lambda>(nmem, h).
           if nmem = 0 then Done (0, h)
           else let n = unat (if sz < newsize then sz else newsize);
                    h = put_user nmem (get_user rmem n h) h in
             obind (rt_free rmem h) (\<lambda>h. Done (nmem, h))))))"

definition rt_calloc :: "nat \<Rightarrow> word32 \<Rightarrow> word32 \<Rightarrow> heap \<Rightarrow> (word32 \<times> heap) outcome" where
  "rt_calloc fuel count sz h = obind (rt_malloc fuel (count * sz) h) (\<lambda>(p, h).
     Done (p, if p \<noteq> 0 then put_user p (replicate (unat (count * sz)) 0) h else h))"

section \<open>Statistics and the consistency check\<close>

definition rt_memory_info :: "heap \<Rightarrow> word32 \<times> word32 \<times> word32" where
  "rt_memory_info h = (mem_size_aligned h, used_mem h, max_mem h)"

text \<open>\<open>memcheck\<close>: the offset it stops at; nothing is printed when that is \<open>heap_end\<close>.\<close>

definition memcheck_more :: "heap \<Rightarrow> word32 \<Rightarrow> bool" where
  "memcheck_more h ptr \<longleftrightarrow> ptr \<noteq> heap_end h \<and> (case headers h ptr of None \<Rightarrow> True
     | Some m \<Rightarrow> 0 \<le> sint ptr \<and> ptr \<le> mem_size_aligned h \<and> hm_magic m = HEAP_MAGIC \<and>
                 (hm_used m = 0 \<or> hm_used m = 1))"

definition memcheck :: "nat \<Rightarrow> heap \<Rightarrow> word32 outcome" where
  "memcheck fuel h = of_loop (run_loop fuel (memcheck_more h) (next_block h) 0)"

end
