(* ===== verification/RtMemChain.thy ===== *)
theory RtMemChain
  imports RtMem
begin

text \<open>
  The chain of blocks behind the headers: a list of offsets with their used flags. Inserting a
  block, joining two and flipping a flag are list operations on it.
\<close>

section \<open>Offsets and sizes\<close>

lemma mem_sizes [simp]:
  "SIZEOF_STRUCT_MEM = 16" "MIN_SIZE_ALIGNED = 12" "RT_ALIGN_SIZE = 4" "MIN_SIZE = 12"
  by code_simp+

lemma unat_add_le: "unat x + n < 2 ^ 32 \<Longrightarrow> unat (x + of_nat n :: word32) = unat x + n"
  by (simp add: unat_word_ariths unat_of_nat)

lemma unat_plus: "unat x + unat y < 2 ^ 32 \<Longrightarrow> unat (x + y :: word32) = unat x + unat y"
  by (simp add: unat_word_ariths)

lemma unat_minus: "y \<le> x \<Longrightarrow> unat (x - y :: word32) = unat x - unat y"
  by (rule unat_sub)

lemma unat_word32_less [simp]: "unat (x :: word32) < 4294967296"
  by (rule order.strict_trans2[OF unsigned_less]) simp

section \<open>Chains\<close>

definition blk :: "(word32 \<Rightarrow> heap_mem option) \<Rightarrow> word32 \<Rightarrow> word32 \<Rightarrow> bool \<Rightarrow> word32 \<Rightarrow> bool" where
  "blk H p x u n \<longleftrightarrow> (case H x of None \<Rightarrow> False | Some m \<Rightarrow> hm_prev m = p \<and> hm_next m = n \<and>
     hm_magic m = HEAP_MAGIC \<and> hm_used m = of_bool u \<and> unat x + 16 < unat n \<and> unat x mod 4 = 0)"

fun hdo :: "(word32 \<times> bool) list \<Rightarrow> word32 \<Rightarrow> word32" where
  "hdo [] e = e"
| "hdo ((x, u) # bs) e = x"

fun seg :: "(word32 \<Rightarrow> heap_mem option) \<Rightarrow> word32 \<Rightarrow> (word32 \<times> bool) list \<Rightarrow> word32 \<Rightarrow> bool" where
  "seg H p [] e = True"
| "seg H p ((x, u) # bs) e = (blk H p x u (hdo bs e) \<and> seg H x bs e)"

definition offs :: "(word32 \<times> bool) list \<Rightarrow> word32 set" where
  "offs bs = fst ` set bs"

lemma offs_simps [simp]: "offs [] = {}" "offs ((x, u) # bs) = insert x (offs bs)" "offs (bs @ cs) = offs bs \<union> offs cs"
  by (auto simp: offs_def)

lemma offs_I: "(x, u) \<in> set bs \<Longrightarrow> x \<in> offs bs"
  by (force simp: offs_def)

lemma hdo_append: "hdo (bs @ cs) e = hdo bs (hdo cs e)"
  by (cases bs) auto

lemma seg_append:
  "seg H p (bs @ cs) e \<longleftrightarrow> seg H p bs (hdo cs e) \<and> seg H (last (p # map fst bs)) cs e"
  by (induction bs arbitrary: p) (auto simp: hdo_append)

lemma blk_upd: "x \<noteq> y \<Longrightarrow> blk (H(y \<mapsto> m)) p x u n = blk H p x u n"
  by (simp add: blk_def)

lemma seg_upd: "y \<notin> offs bs \<Longrightarrow> seg (H(y \<mapsto> m)) p bs e = seg H p bs e"
  by (induction bs arbitrary: p) (auto simp: blk_upd)

lemma seg_cong: "(\<And>x. x \<in> offs bs \<Longrightarrow> H x = H' x) \<Longrightarrow> seg H p bs e = seg H' p bs e"
  by (induction bs arbitrary: p) (auto simp: blk_def)

text \<open>Offsets ascend by more than the size of a header.\<close>

lemma seg_less: "seg H p bs e \<Longrightarrow> x \<in> offs bs \<Longrightarrow> unat x + 16 \<le> unat e"
proof (induction bs arbitrary: p x)
  case (Cons b bs)
  obtain y u where b: "b = (y, u)" by fastforce
  have s: "seg H y bs e" and y: "unat y + 16 < unat (hdo bs e)"
    using Cons.prems(1) by (simp_all add: b blk_def split: option.splits)
  have "unat (hdo bs e) \<le> unat e"
  proof (cases bs)
    note IH = Cons.IH
    case (Cons c cs)
    then have "hdo bs e \<in> offs bs" by (cases c) simp
    from IH[OF s this] show ?thesis by simp
  qed simp
  then show ?case using Cons.IH[OF s] Cons.prems(2) y by (auto simp: b)
qed simp

lemma seg_ge: "seg H p bs e \<Longrightarrow> x \<in> offs bs \<Longrightarrow> unat (hdo bs e) \<le> unat x"
proof (induction bs arbitrary: p)
  case (Cons b bs)
  obtain y u where b: "b = (y, u)" by fastforce
  have "unat y + 16 < unat (hdo bs e)" using Cons.prems by (simp add: b blk_def split: option.splits)
  then show ?case using Cons by (fastforce simp: b)
qed simp

lemma seg_hdo_le: "seg H p bs e \<Longrightarrow> unat (hdo bs e) \<le> unat e"
  using seg_less[of H p bs e "hdo bs e"] by (cases bs) auto

lemma seg_mid:
  assumes "seg H p (xs @ (x, u) # ys) e"
  shows "blk H (last (p # map fst xs)) x u (hdo ys e)" "seg H p xs x" "seg H x ys e"
    "y \<in> offs xs \<Longrightarrow> unat y + 16 \<le> unat x" "y \<in> offs ys \<Longrightarrow> unat x + 16 \<le> unat y"
    "unat x + 16 < unat (hdo ys e)" "unat (hdo ys e) \<le> unat e" "unat x mod 4 = 0"
proof -
  show s: "blk H (last (p # map fst xs)) x u (hdo ys e)" "seg H p xs x" "seg H x ys e"
    using assms by (simp_all add: seg_append)
  then show n: "unat x + 16 < unat (hdo ys e)" "unat x mod 4 = 0"
    by (simp_all add: blk_def split: option.splits)
  show "unat (hdo ys e) \<le> unat e" by (rule seg_hdo_le[OF s(3)])
  show "unat y + 16 \<le> unat x" if "y \<in> offs xs" using seg_less[OF s(2) that] .
  show "unat x + 16 \<le> unat y" if "y \<in> offs ys" using seg_ge[OF s(3) that] n by simp
qed

lemma seg_in_split: "x \<in> offs bs \<Longrightarrow> \<exists>xs u ys. bs = xs @ (x, u) # ys"
  by (force simp: offs_def dest: split_list)

lemma seg_align: "seg H p bs e \<Longrightarrow> x \<in> offs bs \<Longrightarrow> unat x mod 4 = 0"
  using seg_in_split seg_mid(8) by metis

text \<open>The header of a block in the chain.\<close>

lemma blkD:
  assumes "blk H p x u n"
  obtains m where "H x = Some m" "hm_prev m = p" "hm_next m = n" "hm_magic m = HEAP_MAGIC"
    "hm_used m = of_bool u" "unat x + 16 < unat n" "unat x mod 4 = 0"
  using assms by (auto simp: blk_def split: option.splits)

lemma blk_iff: "H x = Some m \<Longrightarrow> blk H p x u n \<longleftrightarrow> hm_prev m = p \<and> hm_next m = n \<and>
    hm_magic m = HEAP_MAGIC \<and> hm_used m = of_bool u \<and> unat x + 16 < unat n \<and> unat x mod 4 = 0"
  by (simp add: blk_def)

text \<open>The predecessor of the first block changes with its \<open>prev\<close> field only.\<close>

lemma seg_set_prev:
  assumes "seg H p bs e" "H (hdo bs e) = Some m"
  shows "seg (H(hdo bs e \<mapsto> m\<lparr>hm_prev := q\<rparr>)) q bs e"
proof (cases bs)
  case (Cons b cs)
  obtain x u where b: "b = (x, u)" by fastforce
  have "x \<notin> offs cs" using seg_mid(5)[of H p "[]" x u cs e x] assms(1) by (auto simp: Cons b)
  then show ?thesis using assms by (simp add: Cons b seg_upd blk_iff)
qed simp

section \<open>The heap as a chain\<close>

text \<open>The sizes: everything is a multiple of four and no address wraps.\<close>

definition heap_shape :: "heap \<Rightarrow> bool" where
  "heap_shape h \<longleftrightarrow> unat (heap_end h) = unat (mem_size_aligned h) + 16 \<and> unat (heap_end h) mod 4 = 0 \<and>
     unat (heap_ptr h) mod 4 = 0 \<and> unat (heap_ptr h) + unat (heap_end h) + 16 \<le> 2 ^ 32"

definition heap_chain :: "heap \<Rightarrow> (word32 \<times> bool) list \<Rightarrow> bool" where
  "heap_chain h bs \<longleftrightarrow> heap_shape h \<and> (\<exists>u cs. bs = (0, u) # cs) \<and> seg (headers h) 0 bs (heap_end h) \<and>
     (\<exists>m. headers h (heap_end h) = Some m \<and> hm_used m = 1 \<and> hm_next m = heap_end h)"

lemma heap_shape_upd [simp]:
  "heap_shape (h\<lparr>lfree := x\<rparr>) = heap_shape h" "heap_shape (h\<lparr>heap_sem := s\<rparr>) = heap_shape h"
  "heap_shape (h\<lparr>used_mem := y\<rparr>) = heap_shape h" "heap_shape (h\<lparr>max_mem := y\<rparr>) = heap_shape h"
  "heap_shape (h\<lparr>hook_calls := c\<rparr>) = heap_shape h" "heap_shape (h\<lparr>user_data := d\<rparr>) = heap_shape h"
  "heap_shape (h\<lparr>headers := H\<rparr>) = heap_shape h"
  by (simp_all add: heap_shape_def)

lemma heap_chain_upd [simp]:
  "heap_chain (h\<lparr>lfree := x\<rparr>) bs = heap_chain h bs" "heap_chain (h\<lparr>heap_sem := s\<rparr>) bs = heap_chain h bs"
  "heap_chain (h\<lparr>used_mem := y\<rparr>) bs = heap_chain h bs" "heap_chain (h\<lparr>max_mem := y\<rparr>) bs = heap_chain h bs"
  "heap_chain (h\<lparr>hook_calls := c\<rparr>) bs = heap_chain h bs" "heap_chain (h\<lparr>user_data := d\<rparr>) bs = heap_chain h bs"
  by (simp_all add: heap_chain_def)

lemma heap_chain_seg: "heap_chain h bs \<Longrightarrow> seg (headers h) 0 bs (heap_end h)"
  by (simp add: heap_chain_def)

lemma heap_shape_end:
  assumes "heap_shape h"
  shows "heap_end h = mem_size_aligned h + 16"
proof -
  have "unat (mem_size_aligned h) + unat (16 :: word32) < 2 ^ 32"
    using assms unat_word32_less[of "heap_end h"] by (simp add: heap_shape_def)
  then show ?thesis
    using assms unat_plus[of "mem_size_aligned h" 16] by (simp add: heap_shape_def word_unat_eq_iff)
qed

lemma heap_end_eq: "heap_chain h bs \<Longrightarrow> heap_end h = mem_size_aligned h + 16"
  by (simp add: heap_chain_def heap_shape_end)

text \<open>What the position of a block in the chain says about its header and its neighbours.\<close>

lemma chain_mid:
  assumes "heap_chain h (xs @ (x, u) # ys)"
  shows "\<exists>m. headers h x = Some m \<and> hm_prev m = last (0 # map fst xs) \<and> hm_next m = hdo ys (heap_end h) \<and>
      hm_magic m = HEAP_MAGIC \<and> hm_used m = of_bool u"
    "unat x + 16 < unat (hdo ys (heap_end h))" "unat (hdo ys (heap_end h)) \<le> unat (heap_end h)"
    "unat x mod 4 = 0" "x \<noteq> heap_end h" "x < heap_end h"
    "x \<notin> offs xs" "x \<notin> offs ys" "heap_end h \<notin> offs xs" "heap_end h \<notin> offs ys"
    "hdo ys (heap_end h) \<notin> offs xs" "hdo ys (heap_end h) \<noteq> x"
proof -
  note s = seg_mid[OF heap_chain_seg[OF assms]]
  show "\<exists>m. headers h x = Some m \<and> hm_prev m = last (0 # map fst xs) \<and> hm_next m = hdo ys (heap_end h) \<and>
      hm_magic m = HEAP_MAGIC \<and> hm_used m = of_bool u"
    using s(1) by (auto elim: blkD)
  show l: "unat x + 16 < unat (hdo ys (heap_end h))" "unat (hdo ys (heap_end h)) \<le> unat (heap_end h)"
    "unat x mod 4 = 0" using s(6,7,8) .
  then show "x < heap_end h" and ne: "x \<noteq> heap_end h" by (auto simp: word_less_nat_alt)
  show "x \<notin> offs xs" "x \<notin> offs ys" using s(4)[of x] s(5)[of x] by auto
  show "heap_end h \<notin> offs xs" "hdo ys (heap_end h) \<notin> offs xs" using s(4) l by force+
  show "heap_end h \<notin> offs ys" using seg_less[OF s(3)] by force
  show "hdo ys (heap_end h) \<noteq> x" using l by force
qed

lemma hdo_cases: "hdo ys e = e \<or> hdo ys e \<in> offs ys"
  by (cases ys) auto

lemma offs_hdr: "seg H p bs e \<Longrightarrow> x \<in> offs bs \<Longrightarrow> \<exists>m. H x = Some m"
  using seg_in_split[of x bs] seg_mid(1) by (metis blkD)

text \<open>Changing the flag of a block.\<close>

lemma set_used_ok:
  assumes c: "heap_chain h (xs @ (x, u) # ys)" and m: "headers h x = Some m"
    and f: "hm_prev m' = hm_prev m" "hm_next m' = hm_next m" "hm_magic m' = HEAP_MAGIC" "hm_used m' = of_bool v"
  shows "heap_chain (h\<lparr>headers := (headers h)(x \<mapsto> m')\<rparr>) (xs @ (x, v) # ys)"
proof -
  note k = chain_mid[OF c]
  have "seg ((headers h)(x \<mapsto> m')) 0 (xs @ (x, v) # ys) (heap_end h)"
    using heap_chain_seg[OF c] k f m by (simp add: seg_append seg_upd blk_iff)
  moreover have "\<exists>w cs. xs @ (x, v) # ys = (0, w) # cs"
    using c by (cases xs) (auto simp: heap_chain_def)
  ultimately show ?thesis using c k(5) by (simp add: heap_chain_def)
qed

text \<open>Inserting a free block.\<close>

lemma insert_ok:
  assumes c: "heap_chain h (xs @ (x, u) # ys)"
    and y: "unat x + 16 < unat y" "unat y + 16 < unat (hdo ys (heap_end h))" "unat y mod 4 = 0"
  shows "\<exists>H'. insert_block x y h = Some (h\<lparr>headers := H'\<rparr>) \<and>
    heap_chain (h\<lparr>headers := H'\<rparr>) (xs @ (x, u) # (y, False) # ys)"
proof -
  let ?e = "heap_end h" and ?H = "headers h"
  let ?n = "hdo ys ?e"
  note k = chain_mid[OF c] and s = seg_mid[OF heap_chain_seg[OF c]]
  obtain m where m: "?H x = Some m" "hm_prev m = last (0 # map fst xs)" "hm_next m = ?n"
      "hm_magic m = HEAP_MAGIC" "hm_used m = of_bool u" using k(1) by blast
  have yx: "y \<noteq> x" "y \<notin> offs xs" "y \<notin> offs ys" "y \<noteq> ?n" "y \<noteq> ?e"
    using y k(2,3) s(4)[of y] seg_ge[OF s(3), of y] by auto
  define H2 where "H2 = (headers (new_hdr y ?n x 0 ''    '' h))(x \<mapsto> m\<lparr>hm_next := y\<rparr>)"
  have H2y: "\<exists>b. H2 y = Some b \<and> hm_prev b = x \<and> hm_next b = ?n \<and> hm_magic b = HEAP_MAGIC \<and> hm_used b = 0"
    using yx by (simp add: H2_def new_hdr_def rt_mem_setname_def)
  have H2o: "H2 z = ?H z" if "z \<noteq> x" "z \<noteq> y" for z using that by (simp add: H2_def new_hdr_def)
  have H2x: "H2 x = Some (m\<lparr>hm_next := y\<rparr>)" by (simp add: H2_def)
  have same: "H2 z = ?H z" if "z \<in> offs xs \<union> offs ys" for z using that yx(2,3) k(7,8) by (intro H2o) auto
  have "seg H2 0 xs x = seg ?H 0 xs x" by (rule seg_cong) (simp add: same)
  moreover have "seg H2 x ys ?e = seg ?H x ys ?e" by (rule seg_cong) (simp add: same)
  ultimately have s2: "seg H2 0 xs x" "seg H2 x ys ?e" using s(2,3) by simp_all
  obtain b where b: "?H ?n = Some b"
    using hdo_cases[of ys ?e] offs_hdr[OF s(3)] c by (auto simp: heap_chain_def)
  define H3 where "H3 = (if ?n \<noteq> ?e then H2(?n \<mapsto> b\<lparr>hm_prev := y\<rparr>) else H2)"
  have H2n: "H2 ?n = Some b" using H2o[of ?n] b yx(4) k(12) by simp
  have "insert_block x y h = Some (h\<lparr>headers := H3\<rparr>)"
    using m b H2n heap_end_eq[OF c] yx
    by (auto simp: insert_block_def hdr_upd_def H3_def H2_def new_hdr_def)
  moreover have "seg H3 0 (xs @ (x, u) # (y, False) # ys) ?e"
  proof -
    have "seg H3 0 xs x" using s2(1) k(11) by (simp add: H3_def seg_upd)
    moreover have "blk H3 (last (0 # map fst xs)) x u y"
      using H2x m y k(4,12) by (auto simp: H3_def blk_def)
    moreover have "blk H3 x y False ?n" using H2y yx y by (auto simp: H3_def blk_def)
    moreover have "seg H3 y ys ?e"
    proof (cases "?n = ?e")
      case True
      then have "ys = []" using hdo_cases[of ys ?e] seg_less[OF s(3)] by (cases ys) force+
      then show ?thesis by simp
    next
      case False
      then show ?thesis using seg_set_prev[OF s2(2), of b y] H2n by (simp add: H3_def)
    qed
    ultimately show ?thesis by (simp add: seg_append)
  qed
  moreover have "\<exists>m. H3 ?e = Some m \<and> hm_used m = 1 \<and> hm_next m = ?e"
    using H2o[of ?e] c yx k(5) by (auto simp: H3_def heap_chain_def)
  moreover have "\<exists>w cs. xs @ (x, u) # (y, False) # ys = (0, w) # cs"
    using c by (cases xs) (auto simp: heap_chain_def)
  ultimately show ?thesis using c by (intro exI[of _ H3]) (simp add: heap_chain_def)
qed

text \<open>Joining a block with the free one behind it.\<close>

lemma join_ok:
  assumes c: "heap_chain h (xs @ (x, u) # (y, False) # ys)"
  shows "\<exists>H'. join_next x y h = Some (h\<lparr>lfree := (if lfree h = y then x else lfree h), headers := H'\<rparr>) \<and>
    heap_chain (h\<lparr>headers := H'\<rparr>) (xs @ (x, u) # ys)"
proof -
  let ?e = "heap_end h" and ?H = "headers h"
  let ?n = "hdo ys ?e"
  have c': "heap_chain h ((xs @ [(x, u)]) @ (y, False) # ys)" using c by simp
  note k = chain_mid[OF c] and s = seg_mid[OF heap_chain_seg[OF c]]
  note k' = chain_mid[OF c'] and s' = seg_mid[OF heap_chain_seg[OF c']]
  obtain m where m: "?H x = Some m" "hm_prev m = last (0 # map fst xs)" "hm_next m = y"
      "hm_magic m = HEAP_MAGIC" "hm_used m = of_bool u" using k(1) by auto
  obtain my where my: "?H y = Some my" "hm_next my = ?n" using k'(1) by auto
  obtain b where b: "?H ?n = Some b"
    using hdo_cases[of ys ?e] offs_hdr[OF s'(3)] c by (auto simp: heap_chain_def)
  have xn: "?n \<noteq> x" "x \<notin> offs ys" using k'(7,8,11) k(8) by auto
  define H3 where "H3 = ?H(x \<mapsto> m\<lparr>hm_next := ?n\<rparr>, ?n \<mapsto> b\<lparr>hm_prev := x\<rparr>)"
  have "join_next x y h = Some (h\<lparr>lfree := (if lfree h = y then x else lfree h), headers := H3\<rparr>)"
    using m my b xn by (simp add: join_next_def hdr_upd_def H3_def)
  moreover have "seg H3 0 (xs @ (x, u) # ys) ?e"
  proof -
    have "seg H3 0 xs x" using s(2) k(7) k'(11) by (simp add: H3_def seg_upd)
    moreover have "blk H3 (last (0 # map fst xs)) x u ?n"
      using m xn k(2,4) k'(2) by (simp add: H3_def blk_def)
    moreover have "seg H3 x ys ?e"
    proof -
      have "seg (?H(x \<mapsto> m\<lparr>hm_next := ?n\<rparr>)) y ys ?e" using s'(3) xn by (simp add: seg_upd)
      moreover have "(?H(x \<mapsto> m\<lparr>hm_next := ?n\<rparr>)) ?n = Some b" using b xn by simp
      ultimately show ?thesis unfolding H3_def by (rule seg_set_prev)
    qed
    ultimately show ?thesis by (simp add: seg_append)
  qed
  moreover have "\<exists>m. H3 ?e = Some m \<and> hm_used m = 1 \<and> hm_next m = ?e"
    using c b k(5) by (auto simp: H3_def heap_chain_def)
  moreover have "\<exists>w cs. xs @ (x, u) # ys = (0, w) # cs"
    using c by (cases xs) (auto simp: heap_chain_def)
  ultimately show ?thesis using c by (intro exI[of _ H3]) (simp add: heap_chain_def)
qed

end
