(* ===== verification/RtMemSpec.thy ===== *)
theory RtMemSpec
  imports RtMemChain
begin

text \<open>
  What the allocator promises: the invariant of the heap, the map of live blocks (address to usable
  size), and what \<open>rt_malloc\<close> and \<open>rt_free\<close> do to that map.
\<close>

section \<open>Live blocks and bytes in use\<close>

fun used_sum :: "(word32 \<times> bool) list \<Rightarrow> word32 \<Rightarrow> nat" where
  "used_sum [] e = 0"
| "used_sum ((x, u) # bs) e = (if u then unat (hdo bs e) - unat x else 0) + used_sum bs e"

fun live :: "word32 \<Rightarrow> (word32 \<times> bool) list \<Rightarrow> word32 \<Rightarrow> word32 \<Rightarrow> nat option" where
  "live base [] e = Map.empty"
| "live base ((x, u) # bs) e =
     (if u then (live base bs e)(base + x + 16 \<mapsto> unat (hdo bs e) - unat x - 16) else live base bs e)"

lemma used_sum_append: "used_sum (bs @ cs) e = used_sum bs (hdo cs e) + used_sum cs e"
  by (induction bs) (auto simp: hdo_append)

lemma live_append: "live base (bs @ cs) e = live base cs e ++ live base bs (hdo cs e)"
  by (induction bs) (auto simp: hdo_append)

lemma live_eq_Some:
  "seg H p bs e \<Longrightarrow> live base bs e a = Some n \<longleftrightarrow>
     (\<exists>xs x ys. bs = xs @ (x, True) # ys \<and> a = base + x + 16 \<and> n = unat (hdo ys e) - unat x - 16)"
proof (induction bs arbitrary: p)
  case (Cons b bs)
  obtain y v where b: "b = (y, v)" by fastforce
  have s: "seg H y bs e" "seg H p ([] @ (y, v) # bs) e" using Cons.prems by (simp_all add: b)
  have ne: "y \<noteq> x" if "x \<in> offs bs" for x using seg_mid(5)[OF s(2) that] by auto
  show ?case
  proof (cases "v \<and> a = base + y + 16")
    case True
    have "(\<exists>xs x ys. b # bs = xs @ (x, True) # ys \<and> a = base + x + 16 \<and> n = unat (hdo ys e) - unat x - 16) \<longleftrightarrow>
        n = unat (hdo bs e) - unat y - 16" (is "?L = ?R")
    proof
      assume ?L
      then obtain xs x ys where l: "b # bs = xs @ (x, True) # ys" "a = base + x + 16"
        "n = unat (hdo ys e) - unat x - 16" by blast
      then have "x = y" using True by simp
      then have "xs = []" using l(1) ne b by (cases xs) auto
      then show ?R using l b by simp
    next
      assume ?R
      then show ?L using True b by (intro exI[of _ "[]"]) auto
    qed
    then show ?thesis using True by (auto simp: b)
  next
    case False
    have "(\<exists>xs x ys. b # bs = xs @ (x, True) # ys \<and> a = base + x + 16 \<and> n = unat (hdo ys e) - unat x - 16) \<longleftrightarrow>
        (\<exists>xs x ys. bs = xs @ (x, True) # ys \<and> a = base + x + 16 \<and> n = unat (hdo ys e) - unat x - 16)" (is "?L = ?R")
    proof
      assume ?L
      then obtain xs x ys where "b # bs = xs @ (x, True) # ys" "a = base + x + 16"
        "n = unat (hdo ys e) - unat x - 16" by blast
      then show ?R using False b by (cases xs) auto
    next
      assume ?R
      then show ?L by (metis append_Cons)
    qed
    then show ?thesis using False Cons.IH[OF s(1)] by (auto simp: b)
  qed
qed simp

lemma live_notin:
  assumes "seg H p bs e" "x \<notin> offs bs"
  shows "live base bs e (base + x + 16) = None"
proof (rule ccontr)
  assume "live base bs e (base + x + 16) \<noteq> None"
  then obtain xs y ys where "bs = xs @ (y, True) # ys" "base + x + 16 = base + y + 16"
    using live_eq_Some[OF assms(1)] by blast
  then show False using assms(2) by auto
qed

text \<open>The flag of one block decides whether its address is live.\<close>

lemma live_mid:
  assumes "seg H p (xs @ (x, u) # ys) e"
  shows "live base (xs @ (x, True) # ys) e =
      (live base (xs @ (x, False) # ys) e)(base + x + 16 \<mapsto> unat (hdo ys e) - unat x - 16)"
    "live base (xs @ (x, False) # ys) e (base + x + 16) = None"
    "live base (xs @ (x, False) # ys) e = (live base (xs @ (x, u) # ys) e)(base + x + 16 := None)"
proof -
  have n: "x \<notin> offs xs" "x \<notin> offs ys" using seg_mid(4,5)[OF assms, of x] by auto
  note l = live_notin[OF seg_mid(2)[OF assms] n(1), of base] live_notin[OF seg_mid(3)[OF assms] n(2), of base]
  show t: "live base (xs @ (x, True) # ys) e =
      (live base (xs @ (x, False) # ys) e)(base + x + 16 \<mapsto> unat (hdo ys e) - unat x - 16)"
    using l by (auto simp: live_append map_add_def split: option.splits)
  show f: "live base (xs @ (x, False) # ys) e (base + x + 16) = None"
    using l by (simp add: live_append map_add_def)
  show "live base (xs @ (x, False) # ys) e = (live base (xs @ (x, u) # ys) e)(base + x + 16 := None)"
    using t f by (cases u) (simp_all add: fun_upd_idem)
qed

lemma used_sum_mid:
  "used_sum (xs @ (x, True) # ys) e = used_sum (xs @ (x, False) # ys) e + (unat (hdo ys e) - unat x)"
  by (simp add: used_sum_append)

text \<open>A free block can come and go without a change.\<close>

lemma insert_free:
  "used_sum (xs @ (x, False) # (y, False) # ys) e = used_sum (xs @ (x, False) # ys) e"
  "live base (xs @ (x, False) # (y, False) # ys) e = live base (xs @ (x, False) # ys) e"
  by (simp_all add: used_sum_append live_append)

lemma used_sum_le: "seg H p bs e \<Longrightarrow> used_sum bs e \<le> unat e - unat (hdo bs e)"
proof (induction bs arbitrary: p)
  case (Cons b bs)
  obtain y v where b: "b = (y, v)" by fastforce
  have s: "seg H y bs e" "unat y + 16 < unat (hdo bs e)"
    using Cons.prems by (simp_all add: b blk_def split: option.splits)
  then show ?case using Cons.IH[OF s(1)] seg_hdo_le[OF s(1)] by (auto simp: b)
qed simp

section \<open>The invariant\<close>

definition no_adj :: "(word32 \<times> bool) list \<Rightarrow> bool" where
  "no_adj bs \<longleftrightarrow> successively (\<lambda>a b. snd a \<or> snd b) bs"

text \<open>Headers of blocks that were joined away still lie in memory, marked as free.\<close>

definition stale_ok :: "heap \<Rightarrow> (word32 \<times> bool) list \<Rightarrow> bool" where
  "stale_ok h bs \<longleftrightarrow> (\<forall>x m. headers h x = Some m \<longrightarrow> x \<in> offs bs \<or> x = heap_end h \<or> hm_used m = 0)"

definition heap_inv :: "heap \<Rightarrow> (word32 \<times> bool) list \<Rightarrow> bool" where
  "heap_inv h bs \<longleftrightarrow> heap_chain h bs \<and> no_adj bs \<and> stale_ok h bs \<and>
     (lfree h = heap_end h \<or> (lfree h, False) \<in> set bs) \<and> heap_sem h = 1 \<and>
     unat (used_mem h) = used_sum bs (heap_end h) \<and> used_mem h \<le> max_mem h"

definition live_blocks :: "heap \<Rightarrow> (word32 \<times> bool) list \<Rightarrow> word32 \<Rightarrow> nat option" where
  "live_blocks h bs = live (heap_ptr h) bs (heap_end h)"

text \<open>The chain found by walking the headers; the invariant determines it.\<close>

primrec walk :: "nat \<Rightarrow> heap \<Rightarrow> word32 \<Rightarrow> (word32 \<times> bool) list" where
  "walk 0 h x = []"
| "walk (Suc n) h x = (if x = heap_end h then [] else case headers h x of None \<Rightarrow> []
     | Some m \<Rightarrow> (x, hm_used m \<noteq> 0) # walk n h (hm_next m))"

definition chain_of :: "heap \<Rightarrow> (word32 \<times> bool) list" where
  "chain_of h = walk (unat (heap_end h)) h 0"

lemma walk_seg:
  "seg (headers h) p bs (heap_end h) \<Longrightarrow> unat (heap_end h) - unat (hdo bs (heap_end h)) \<le> n \<Longrightarrow>
   walk n h (hdo bs (heap_end h)) = bs"
proof (induction bs arbitrary: p n)
  case Nil
  then show ?case by (cases n) auto
next
  case (Cons b bs)
  obtain y v where b: "b = (y, v)" by fastforce
  from Cons.prems(1) have k: "blk (headers h) p y v (hdo bs (heap_end h))" and s: "seg (headers h) y bs (heap_end h)"
    by (simp_all add: b)
  from k obtain m where m: "headers h y = Some m" "hm_next m = hdo bs (heap_end h)" "hm_used m = of_bool v"
    "unat y + 16 < unat (hdo bs (heap_end h))" by (rule blkD)
  have l: "unat y < unat (heap_end h)" using m(4) seg_hdo_le[OF s] by simp
  then have "y \<noteq> heap_end h" by auto
  obtain k where n: "n = Suc k" using Cons.prems(2) l by (cases n) (auto simp: b)
  have "walk k h (hdo bs (heap_end h)) = bs"
    using Cons.IH[OF s, of k] Cons.prems(2) m(4) l by (simp add: n b)
  then show ?case using m \<open>y \<noteq> heap_end h\<close> by (simp add: n b)
qed

lemma chain_of_eq: "heap_chain h bs \<Longrightarrow> chain_of h = bs"
  using walk_seg[of h 0 bs "unat (heap_end h)"] by (auto simp: chain_of_def heap_chain_def)

section \<open>Walking the chain\<close>

definition in_chain :: "heap \<Rightarrow> (word32 \<times> bool) list \<Rightarrow> word32 \<Rightarrow> bool" where
  "in_chain h bs x \<longleftrightarrow> x \<in> offs bs \<or> x = heap_end h"

lemma chain_next:
  assumes c: "heap_chain h bs" and x: "x \<in> offs bs"
  shows "\<exists>y. next_block h x = Some y \<and> in_chain h bs y \<and> unat x < unat y \<and> unat y \<le> unat (heap_end h) \<and>
    (\<forall>z\<in>offs bs. z < y \<longrightarrow> z \<le> x)"
proof -
  obtain xs u ys where bs: "bs = xs @ (x, u) # ys" using seg_in_split[OF x] by blast
  note k = chain_mid[OF c[unfolded bs]] and s = seg_mid[OF heap_chain_seg[OF c[unfolded bs]]]
  let ?n = "hdo ys (heap_end h)"
  have "z \<le> x" if z: "z \<in> offs bs" "z < ?n" for z
  proof (cases "z \<in> offs ys")
    case True
    then have "unat ?n \<le> unat z" by (rule seg_ge[OF s(3)])
    then show ?thesis using z(2) by (simp add: word_less_nat_alt)
  next
    case False
    then have "z = x \<or> z \<in> offs xs" using z(1) by (simp add: bs)
    then show ?thesis using s(4)[of z] by (auto simp: word_le_nat_alt)
  qed
  moreover have "in_chain h bs ?n" using hdo_cases[of ys "heap_end h"] by (auto simp: in_chain_def bs)
  ultimately show ?thesis using k by (auto simp: next_block_def)
qed

text \<open>The three loops that follow the \<open>next\<close> offsets, as loops with a measure.\<close>

interpretation search: measured_loop "search_more h sz" "next_block h"
  "\<lambda>x. heap_chain h bs \<and> sz \<le> mem_size_aligned h \<and> in_chain h bs x \<and> a \<le> x \<and>
     (\<forall>z\<in>offs bs. a \<le> z \<longrightarrow> z < x \<longrightarrow> \<not> fits h sz z)"
  "\<lambda>x. unat (heap_end h) - unat x" for h sz bs a
proof -
  have at: "x \<in> offs bs" if "in_chain h bs x" "sz \<le> mem_size_aligned h" "search_more h sz x" "heap_chain h bs" for x
  proof -
    have "x < mem_size_aligned h - sz" using that(3) by (simp add: search_more_def)
    moreover have "mem_size_aligned h - sz \<le> mem_size_aligned h" using that(2) by (simp add: word_sub_le)
    moreover have "mem_size_aligned h < heap_end h"
      using that(4) by (simp add: word_less_nat_alt heap_chain_def heap_shape_def)
    ultimately have "x < heap_end h" by (meson order.strict_trans order.strict_trans2)
    then show ?thesis using that(1) by (auto simp: in_chain_def)
  qed
  show "measured_loop (search_more h sz) (next_block h) (\<lambda>x. heap_chain h bs \<and> sz \<le> mem_size_aligned h \<and>
      in_chain h bs x \<and> a \<le> x \<and> (\<forall>z\<in>offs bs. a \<le> z \<longrightarrow> z < x \<longrightarrow> \<not> fits h sz z)) (\<lambda>x. unat (heap_end h) - unat x)"
  proof (unfold_locales, goal_cases)
    case (1 x y)
    then have x: "x \<in> offs bs" using at by blast
    obtain n where n: "next_block h x = Some n" "in_chain h bs n" "unat x < unat n" "\<forall>z\<in>offs bs. z < n \<longrightarrow> z \<le> x"
      using chain_next[OF _ x] 1 by blast
    moreover have "\<not> fits h sz z" if "z \<in> offs bs" "a \<le> z" "z < y" for z
    proof (cases "z = x")
      case True
      then show ?thesis using 1(2) by (simp add: search_more_def)
    next
      case False
      then have "z < x" using n that 1(3) by fastforce
      then show ?thesis using 1(1) that by blast
    qed
    moreover have "a \<le> y" using 1 n by (auto simp: word_le_nat_alt)
    ultimately show ?case using 1 by simp
  next
    case (2 x)
    then show ?case using chain_next[of h bs x] at[of x] by auto
  next
    case (3 x y)
    then show ?case using chain_next[of h bs x] at[of x] by auto
  qed
qed

interpretation free_walk: measured_loop "lfree_more h" "next_block h"
  "\<lambda>x. heap_chain h bs \<and> in_chain h bs x" "\<lambda>x. unat (heap_end h) - unat x" for h bs
proof (unfold_locales, goal_cases)
  case (1 x y)
  then have "x \<in> offs bs" by (auto simp: lfree_more_def in_chain_def heap_chain_def)
  then show ?case using chain_next[of h bs x] 1 by auto
next
  case (2 x)
  then have "x \<in> offs bs" by (auto simp: lfree_more_def in_chain_def heap_chain_def)
  then show ?case using chain_next[of h bs x] 2 by auto
next
  case (3 x y)
  then have "x \<in> offs bs" by (auto simp: lfree_more_def in_chain_def heap_chain_def)
  then show ?case using chain_next[of h bs x] 3 by auto
qed

end
