(* ===== verification/RtMemAlloc.thy ===== *)
theory RtMemAlloc
  imports RtMemSpec
begin

text \<open>
  \<open>rt_malloc\<close> and \<open>rt_free\<close> keep the invariant and change the map of live blocks by one entry.
\<close>

section \<open>Taking a free block\<close>

lemma no_adj_mid:
  "no_adj (xs @ (x, u) # ys) \<longleftrightarrow> no_adj (xs @ [(x, u)]) \<and> no_adj ((x, u) # ys)"
  by (auto simp: no_adj_def successively_append_iff successively_Cons)

lemma no_adj_used: "no_adj (xs @ [(x, u)]) \<Longrightarrow> no_adj (xs @ [(x, True)])"
  by (auto simp: no_adj_def successively_append_iff)

lemma no_adj_free_Cons: "no_adj ((x, False) # ys) \<Longrightarrow> no_adj ((y, False) # ys)"
  by (auto simp: no_adj_def successively_Cons)

lemma no_adj_used_Cons: "no_adj ((x, u) # ys) \<Longrightarrow> no_adj ((y, True) # ys)"
  by (auto simp: no_adj_def successively_Cons)

lemma no_adj_True: "no_adj ((x, True) # ys) = no_adj ys"
  by (cases ys) (auto simp: no_adj_def)

lemma no_adj_take:
  assumes "no_adj (xs @ (x, u) # ys)" "no_adj zs"
  shows "no_adj (xs @ (x, True) # zs)"
  using assms no_adj_used[of xs x u] no_adj_mid[of xs x u ys] no_adj_mid[of xs x True zs]
  by (simp add: no_adj_True)

lemma no_adj_tl: "no_adj (b # ys) \<Longrightarrow> no_adj ys"
  by (cases ys) (auto simp: no_adj_def)

lemma room_eq:
  assumes c: "heap_chain h (xs @ (x, u) # ys)"
  shows "unat (hdo ys (heap_end h) - (x + 16)) = unat (hdo ys (heap_end h)) - unat x - 16"
    "unat (hdo ys (heap_end h) - x) = unat (hdo ys (heap_end h)) - unat x"
proof -
  note k = chain_mid(2)[OF c]
  have x: "unat (x + 16) = unat x + 16" using k unat_plus[of x 16] unat_word32_less[of "hdo ys (heap_end h)"] by simp
  show "unat (hdo ys (heap_end h) - (x + 16)) = unat (hdo ys (heap_end h)) - unat x - 16"
    using k x by (subst unat_minus) (simp_all add: word_le_nat_alt)
  show "unat (hdo ys (heap_end h) - x) = unat (hdo ys (heap_end h)) - unat x"
    using k by (subst unat_minus) (simp_all add: word_le_nat_alt)
qed

lemma stale_upd:
  assumes "stale_ok h bs" "offs bs \<subseteq> offs cs" "\<And>z. z \<notin> offs cs \<Longrightarrow> z \<noteq> heap_end h \<Longrightarrow> H z = headers h z"
  shows "stale_ok (h\<lparr>headers := H\<rparr>) cs"
  using assms by (auto simp: stale_ok_def) (metis subsetD)

lemma hdr_upd_other: "hdr_upd x f h = Some h' \<Longrightarrow> z \<noteq> x \<Longrightarrow> headers h' z = headers h z"
  by (auto simp: hdr_upd_def split: option.splits)

lemma insert_block_other:
  assumes "insert_block x y h = Some h'" "headers h x = Some m" "z \<notin> {x, y, hm_next m}"
  shows "headers h' z = headers h z"
  using assms by (auto simp: insert_block_def new_hdr_def dest!: hdr_upd_other elim!: bindE split: if_splits)

lemma count_used_simps [simp]:
  "headers (count_used n h) = headers h" "thread_self (count_used n h) = thread_self h"
  "(count_used n h)\<lparr>headers := H\<rparr> = count_used n (h\<lparr>headers := H\<rparr>)"
  by (simp_all add: count_used_def Let_def)

text \<open>The header of a block that is being handed out.\<close>

definition taken :: "heap \<Rightarrow> heap_mem \<Rightarrow> heap_mem" where
  "taken h m = rt_mem_setname (case thread_self h of Some name \<Rightarrow> name | None \<Rightarrow> ''NONE'')
     (m\<lparr>hm_used := 1, hm_magic := HEAP_MAGIC\<rparr>)"

lemma taken_ok:
  assumes "heap_chain (h\<lparr>headers := H\<rparr>) (xs @ (x, False) # zs)" "H x = Some m"
  shows "heap_chain (h\<lparr>headers := H(x \<mapsto> taken h m)\<rparr>) (xs @ (x, True) # zs)"
  using set_used_ok[OF assms(1), of m "taken h m" True] assms(2)
  by (simp add: taken_def rt_mem_setname_def)

lemma take_block_ok:
  assumes c: "heap_chain h (xs @ (x, False) # ys)" and na: "no_adj (xs @ (x, False) # ys)"
    and st: "stale_ok h (xs @ (x, False) # ys)"
    and sz: "unat sz \<le> unat (hdo ys (heap_end h)) - unat x - 16" "unat sz mod 4 = 0" "0 < unat sz"
  shows "\<exists>H' zs. take_block sz x h = Some (count_used (hdo zs (heap_end h) - x) (h\<lparr>headers := H'\<rparr>)) \<and>
    heap_chain (h\<lparr>headers := H'\<rparr>) (xs @ (x, True) # zs) \<and> no_adj (xs @ (x, True) # zs) \<and>
    stale_ok (h\<lparr>headers := H'\<rparr>) (xs @ (x, True) # zs) \<and>
    (zs = ys \<or> (\<exists>y. zs = (y, False) # ys)) \<and> unat sz \<le> unat (hdo zs (heap_end h)) - unat x - 16"
proof -
  let ?e = "heap_end h" and ?n = "hdo ys (heap_end h)"
  note k = chain_mid[OF c] and r = room_eq[OF c]
  obtain m where m: "headers h x = Some m" "hm_next m = ?n" "hm_magic m = HEAP_MAGIC" "hm_used m = 0"
    using k(1) by auto
  have e: "unat ?e + 16 \<le> 2 ^ 32" using c by (simp add: heap_chain_def heap_shape_def)
  show ?thesis
  proof (cases "?n - (x + 16) \<ge> sz + 16 + 12")
    case True
    define y where "y = x + 16 + sz"
    have u28: "unat (sz + 16 + 12) = unat sz + 28"
      using sz(1) k(3) e unat_plus[of sz 16] unat_plus[of "sz + 16" 12] by simp
    then have big: "unat x + 16 + unat sz + 28 \<le> unat ?n"
      using True r k(2) by (simp add: word_le_nat_alt)
    have s: "unat x + 16 + unat sz < 4294967296" using big unat_word32_less[of ?n] by linarith
    then have "unat (x + 16) = unat x + 16" using unat_plus[of x 16] by simp
    then have uy: "unat y = unat x + 16 + unat sz"
      using s unat_plus[of "x + 16" sz] by (simp add: y_def)
    have y: "unat x + 16 < unat y" "unat y + 16 < unat ?n" "unat y mod 4 = 0"
      using big k(4) sz(2,3) uy by (auto simp: mod_simps)
    obtain H where H: "insert_block x y h = Some (h\<lparr>headers := H\<rparr>)"
        "heap_chain (h\<lparr>headers := H\<rparr>) (xs @ (x, False) # (y, False) # ys)"
      using insert_ok[OF c y] by blast
    obtain m' where m': "H x = Some m'" using chain_mid(1)[OF H(2)] by auto
    define H'' where "H'' = H(x \<mapsto> taken h m')"
    have H'': "take_block sz x h = Some (count_used (sz + 16) (h\<lparr>headers := H''\<rparr>))"
      "heap_chain (h\<lparr>headers := H''\<rparr>) (xs @ (x, True) # (y, False) # ys)" "\<forall>z. z \<noteq> x \<longrightarrow> H'' z = H z"
      using taken_ok[OF H(2) m'] True m H(1)[unfolded y_def] m'
      by (simp_all add: take_block_def hdr_upd_def H''_def taken_def)
    have "y - x = sz + 16" by (simp add: y_def)
    moreover have "no_adj (xs @ (x, True) # (y, False) # ys)"
      using na no_adj_mid[of xs x False ys] no_adj_free_Cons[of x ys y] by (blast intro: no_adj_take)
    moreover have "stale_ok (h\<lparr>headers := H''\<rparr>) (xs @ (x, True) # (y, False) # ys)"
    proof (rule stale_upd[OF st])
      fix z assume "z \<notin> offs (xs @ (x, True) # (y, False) # ys)" "z \<noteq> ?e"
      then have "z \<noteq> x" "z \<noteq> y" "z \<noteq> ?n" using hdo_cases[of ys ?e] by auto
      then show "H'' z = headers h z" using H''(3) insert_block_other[OF H(1) m(1), of z] m(2) by auto
    qed auto
    ultimately show ?thesis using H''(1,2) uy k(2)
      by (intro exI[of _ H''] exI[of _ "(y, False) # ys"]) auto
  next
    case False
    define H'' where "H'' = (headers h)(x \<mapsto> taken h m)"
    have H'': "take_block sz x h = Some (count_used (?n - x) (h\<lparr>headers := H''\<rparr>))"
      "heap_chain (h\<lparr>headers := H''\<rparr>) (xs @ (x, True) # ys)" "\<forall>z. z \<noteq> x \<longrightarrow> H'' z = headers h z"
      using taken_ok[where h = h and H = "headers h" and xs = xs and x = x and zs = ys and m = m] c False m
      by (simp_all add: take_block_def hdr_upd_def H''_def taken_def)
    have "no_adj (xs @ (x, True) # ys)"
      using na no_adj_mid[of xs x False ys] no_adj_tl by (blast intro: no_adj_take)
    moreover have "stale_ok (h\<lparr>headers := H''\<rparr>) (xs @ (x, True) # ys)"
      by (rule stale_upd[OF st]) (use H''(3) in auto)
    ultimately show ?thesis using H''(1,2) sz(1) by (intro exI[of _ H''] exI[of _ ys]) auto
  qed
qed

section \<open>Handing it out\<close>

lemma aligned4: "unat (x AND NOT 3 :: word32) mod 4 = 0"
proof -
  have "take_bit 2 (x AND NOT (mask 2)) = 0" by (rule bit_word_eqI) (simp add: bit_simps)
  then have "unat (x AND NOT (mask 2)) mod 2 ^ 2 = 0"
    using unat_and_mask[of "x AND NOT (mask 2)" 2] by (simp add: take_bit_eq_mask)
  then show ?thesis by (simp add: mask_eq_exp_minus_1)
qed

lemma and3_iff: "(x :: word32) AND 3 = 0 \<longleftrightarrow> unat x mod 4 = 0"
proof -
  have "unat (x AND mask 2) = unat x mod 2 ^ 2" by (rule unat_and_mask)
  then show ?thesis by (simp add: mask_eq_exp_minus_1 word_unat_eq_iff)
qed

lemma mod4_iff: "(x :: word32) mod 4 = 0 \<longleftrightarrow> unat x mod 4 = 0"
  by (simp add: word_unat_eq_iff unat_mod)

text \<open>Fields an allocation leaves alone.\<close>

lemma heap_chain_cong:
  "headers h = headers h' \<Longrightarrow> heap_end h = heap_end h' \<Longrightarrow> heap_ptr h = heap_ptr h' \<Longrightarrow>
   mem_size_aligned h = mem_size_aligned h' \<Longrightarrow> heap_chain h bs = heap_chain h' bs"
  by (simp add: heap_chain_def heap_shape_def)

lemma stale_ok_cong: "headers h = headers h' \<Longrightarrow> heap_end h = heap_end h' \<Longrightarrow> stale_ok h bs = stale_ok h' bs"
  by (simp add: stale_ok_def)

definition same_area :: "heap \<Rightarrow> heap \<Rightarrow> bool" where
  "same_area h h' \<longleftrightarrow> heap_ptr h' = heap_ptr h \<and> heap_end h' = heap_end h \<and>
     mem_size_aligned h' = mem_size_aligned h \<and> user_data h' = user_data h"

lemma block_addr:
  assumes "heap_shape h" "unat x + 16 \<le> unat (heap_end h)" "unat x mod 4 = 0"
  shows "unat (heap_ptr h + x) = unat (heap_ptr h) + unat x"
    "unat (heap_ptr h + x + 16) = unat (heap_ptr h) + unat x + 16"
    "unat (heap_ptr h + heap_end h) = unat (heap_ptr h) + unat (heap_end h)"
    "(heap_ptr h + x + 16) mod 4 = 0" "(heap_ptr h + x) AND 3 = 0" "heap_ptr h + x + 16 \<noteq> 0"
proof -
  have b: "unat (heap_ptr h) + unat (heap_end h) + 16 \<le> 2 ^ 32" "unat (heap_ptr h) mod 4 = 0"
    using assms(1) by (simp_all add: heap_shape_def)
  then show x: "unat (heap_ptr h + x) = unat (heap_ptr h) + unat x"
    using assms(2) by (intro unat_plus) simp
  then show x16: "unat (heap_ptr h + x + 16) = unat (heap_ptr h) + unat x + 16"
    using b assms(2) unat_plus[of "heap_ptr h + x" 16] by simp
  show "unat (heap_ptr h + heap_end h) = unat (heap_ptr h) + unat (heap_end h)"
    using b by (intro unat_plus) simp
  show "(heap_ptr h + x + 16) mod 4 = 0" "(heap_ptr h + x) AND 3 = 0"
    unfolding mod4_iff and3_iff x x16 using b(2) assms(3) by presburger+
  show "heap_ptr h + x + 16 \<noteq> 0" using x16 by (metis add_is_0 unat_0 zero_neq_numeral)
qed

lemma in_set_mid_other: "(z, v) \<in> set (xs @ (x, u) # ys) \<Longrightarrow> z \<noteq> x \<Longrightarrow> (z, v) \<in> set xs \<or> (z, v) \<in> set ys"
  by auto

lemma free_in_chain:
  assumes "heap_chain h bs" "x \<in> offs bs" "headers h x = Some m" "hm_used m = 0"
  shows "(x, False) \<in> set bs"
proof -
  obtain xs u ys where bs: "bs = xs @ (x, u) # ys" using seg_in_split[OF assms(2)] by blast
  then show ?thesis using chain_mid(1)[of h xs x u ys] assms by (cases u) auto
qed

lemma hand_out_ok:
  assumes inv: "heap_inv (h\<lparr>heap_sem := 1\<rparr>) (xs @ (x, False) # ys)" and sem: "heap_sem h = 0"
    and sz: "unat (sz :: word32) \<le> unat (hdo ys (heap_end h)) - unat x - 16" "unat sz mod 4 = 0" "0 < unat sz"
    and fuel: "unat (heap_end h) \<le> fuel"
  shows "\<exists>h' bs' n. hand_out fuel sz x h = Done (heap_ptr h + x + 16, h') \<and> heap_inv h' bs' \<and> same_area h h' \<and>
    live_blocks h' bs' = (live_blocks h (xs @ (x, False) # ys))(heap_ptr h + x + 16 \<mapsto> n) \<and> unat sz \<le> n"
proof -
  let ?bs = "xs @ (x, False) # ys" and ?e = "heap_end h"
  have i: "heap_chain h ?bs" "no_adj ?bs" "stale_ok h ?bs" "lfree h = ?e \<or> (lfree h, False) \<in> set ?bs"
    "unat (used_mem h) = used_sum ?bs ?e" "used_mem h \<le> max_mem h"
    using inv by (simp_all add: heap_inv_def stale_ok_def)
  have shape: "heap_shape h" using i(1) by (simp add: heap_chain_def)
  obtain H zs where t: "take_block sz x h = Some (count_used (hdo zs ?e - x) (h\<lparr>headers := H\<rparr>))"
    "heap_chain (h\<lparr>headers := H\<rparr>) (xs @ (x, True) # zs)" "no_adj (xs @ (x, True) # zs)"
    "stale_ok (h\<lparr>headers := H\<rparr>) (xs @ (x, True) # zs)" "zs = ys \<or> (\<exists>y. zs = (y, False) # ys)"
    "unat sz \<le> unat (hdo zs ?e) - unat x - 16"
    using take_block_ok[OF i(1-3) sz] by blast
  let ?cs = "xs @ (x, True) # zs"
  define g where "g = count_used (hdo zs ?e - x) (h\<lparr>headers := H\<rparr>)"
  have gf: "heap_end g = ?e" "heap_ptr g = heap_ptr h" "lfree g = lfree h" "headers g = H" "heap_sem g = 0"
      "mem_size_aligned g = mem_size_aligned h" "user_data g = user_data h"
      "used_mem g = used_mem h + (hdo zs ?e - x)" "used_mem g \<le> max_mem g"
    using sem by (simp_all add: g_def count_used_def Let_def not_less)
  have gc: "heap_chain g ?cs"
    using t(2) heap_chain_cong[of g "h\<lparr>headers := H\<rparr>"] gf by simp
  define lf where "lf = of_loop (run_loop fuel (lfree_more g) (next_block g) (lfree g))"
  have "\<exists>l. (if x = lfree g then lf else Done (lfree g)) = Done l \<and> (l = ?e \<or> (l, False) \<in> set ?cs)"
  proof (cases "x = lfree g")
    case True
    then have "in_chain g ?cs (lfree g)" by (simp add: in_chain_def)
    then obtain l where l: "run_loop fuel (lfree_more g) (next_block g) (lfree g) = Returned l"
        "in_chain g ?cs l" "\<not> lfree_more g l"
      using free_walk.returns[of g ?cs "lfree g" fuel] gc fuel gf(1) by fastforce
    have "l = ?e \<or> (l, False) \<in> set ?cs"
    proof (cases "l = ?e")
      case False
      then have "l \<in> offs ?cs" using l(2) gf by (simp add: in_chain_def)
      moreover obtain m where "headers g l = Some m" "hm_used m = 0"
        using l(3) False gf(1) by (auto simp: lfree_more_def split: option.splits)
      ultimately show ?thesis using free_in_chain[OF gc] by blast
    qed simp
    then show ?thesis using l(1) True by (simp add: lf_def)
  next
    case False
    then have "lfree h = ?e \<or> (lfree h, False) \<in> set ?cs"
      using i(4) t(5) gf(3) by (auto dest: in_set_mid_other)
    then show ?thesis using False gf(3) by simp
  qed
  then obtain l where l: "(if x = lfree g then lf else Done (lfree g)) = Done l" "l = ?e \<or> (l, False) \<in> set ?cs"
    by blast
  define h' where "h' = (let k = heap_release (g\<lparr>lfree := l\<rparr>) in
    if rt_malloc_hook k then k\<lparr>hook_calls := hook_calls k @ [MallocHook (heap_ptr h + x + 16) sz]\<rparr> else k)"
  have hf: "heap_end h' = ?e" "heap_ptr h' = heap_ptr h" "lfree h' = l" "headers h' = H" "heap_sem h' = 1"
      "mem_size_aligned h' = mem_size_aligned h" "user_data h' = user_data h"
      "used_mem h' = used_mem h + (hdo zs ?e - x)" "used_mem h' \<le> max_mem h'"
    using gf by (simp_all add: h'_def Let_def heap_release_def)
  note k = chain_mid[OF t(2), simplified] and r = room_eq[OF t(2), simplified]
  note a = block_addr[OF shape order.trans[OF less_imp_le[OF k(2)] k(3)] k(4)]
  have "hand_out fuel sz x h = Done (heap_ptr h + x + 16, h')"
  proof -
    have "unat (heap_ptr h) + unat ?e + 16 \<le> 2 ^ 32" using shape by (simp add: heap_shape_def)
    then have "unat (heap_ptr h + x + 16) + unat sz < 2 ^ 32" using a(2) t(6) k(2,3) sz(3) by linarith
    then have "unat (heap_ptr h + x + 16 + sz) = unat (heap_ptr h) + unat x + 16 + unat sz"
      using a(2) unat_plus by simp
    then have "heap_ptr h + x + 16 + sz \<le> heap_ptr h + heap_end h"
      using t(6) k(2,3) a(3) sz(3) by (simp add: word_le_nat_alt)
    then show ?thesis
      using a(4,5) gf(1,2)
      unfolding hand_out_def t(1)[folded g_def] of_opt.simps obind.simps lf_def[symmetric] l(1)
      by (simp add: Let_def h'_def heap_release_def)
  qed
  moreover have "heap_inv h' ?cs"
  proof -
    have s: "seg H 0 ?cs ?e" using heap_chain_seg[OF t(2)] by simp
    have u: "used_sum ?cs ?e = used_sum ?bs ?e + (unat (hdo zs ?e) - unat x)"
      using t(5) insert_free(1)[of xs x] by (auto simp: used_sum_mid)
    have "used_sum ?cs ?e < 4294967296"
      using used_sum_le[OF s] unat_word32_less[of ?e] by linarith
    then have "unat (used_mem h') = used_sum ?cs ?e"
      unfolding hf(8) u using r(2) i(5) by (subst unat_plus) simp_all
    moreover have "heap_chain h' ?cs" "stale_ok h' ?cs"
      using t(2,4) heap_chain_cong[of h' "h\<lparr>headers := H\<rparr>"] stale_ok_cong[of h' "h\<lparr>headers := H\<rparr>"] hf
      by simp_all
    ultimately show ?thesis using t(3) l(2) hf by (simp add: heap_inv_def)
  qed
  moreover have "live_blocks h' ?cs = (live_blocks h ?bs)(heap_ptr h + x + 16 \<mapsto> unat (hdo zs ?e) - unat x - 16)"
  proof -
    have "live (heap_ptr h) (xs @ (x, False) # zs) ?e = live (heap_ptr h) ?bs ?e"
      using t(5) insert_free(2)[of "heap_ptr h" xs x] by auto
    then show ?thesis
      using live_mid(1)[OF heap_chain_seg[OF t(2)], of "heap_ptr h"] hf by (simp add: live_blocks_def)
  qed
  ultimately show ?thesis using t(6) hf by (intro exI conjI) (auto simp: same_area_def)
qed

end
