(* ===== verification/RtMemFree.thy ===== *)
theory RtMemFree
  imports RtMemAlloc
begin

text \<open>
  \<open>rt_malloc\<close> as a whole, and \<open>rt_free\<close> with the joining of neighbours.
\<close>

section \<open>Allocation\<close>

lemma heap_inv_chain: "heap_inv h bs \<Longrightarrow> heap_chain h bs"
  by (simp add: heap_inv_def)

lemma heap_inv_sem: "heap_inv h bs \<Longrightarrow> heap_inv (h\<lparr>heap_sem := 1\<rparr>) bs"
  by (simp add: heap_inv_def stale_ok_def)

text \<open>The size the code looks for.\<close>

definition request :: "word32 \<Rightarrow> word32" where
  "request sz = (let s = RT_ALIGN sz 4 in if s < 12 then 12 else s)"

lemma RT_ALIGN_4: "RT_ALIGN x 4 = (x + 3) AND NOT 3"
  by (simp add: RT_ALIGN_def add.commute)

lemma RT_ALIGN_mod: "unat (RT_ALIGN x 4) mod 4 = 0"
  unfolding RT_ALIGN_4 by (rule aligned4)

lemma request_props:
  "unat (request sz) mod 4 = 0" "12 \<le> unat (request sz)" "unat (RT_ALIGN sz 4) \<le> unat (request sz)"
  using RT_ALIGN_mod[of sz] by (simp_all add: request_def Let_def word_less_nat_alt)

lemma search_end:
  assumes inv: "heap_inv h bs" and sz: "sz \<le> mem_size_aligned h" and fuel: "unat (heap_end h) \<le> fuel"
  shows "\<exists>p. run_loop fuel (search_more h sz) (next_block h) (lfree h) = Returned p \<and> in_chain h bs p \<and>
    \<not> search_more h sz p \<and> (\<forall>z\<in>offs bs. lfree h \<le> z \<longrightarrow> z < p \<longrightarrow> \<not> fits h sz z)"
proof -
  have c: "heap_chain h bs" and "in_chain h bs (lfree h)"
    using inv by (auto simp: heap_inv_def in_chain_def intro: offs_I)
  then show ?thesis
    using search.returns[of h bs sz "lfree h" "lfree h" fuel] sz fuel by fastforce
qed

lemma malloc_ok:
  assumes inv: "heap_inv h bs" and mem: "12 \<le> mem_size_aligned h" and fuel: "unat (heap_end h) \<le> fuel"
  shows "(rt_malloc fuel sz h = Done (0, h) \<and> (sz = 0 \<or> mem_size_aligned h < RT_ALIGN sz 4 \<or>
        (\<forall>z\<in>offs bs. lfree h \<le> z \<longrightarrow> z < mem_size_aligned h - request sz \<longrightarrow> \<not> fits h (request sz) z))) \<or>
    (\<exists>p h' cs n. rt_malloc fuel sz h = Done (p, h') \<and> p \<noteq> 0 \<and> heap_inv h' cs \<and> same_area h h' \<and>
      live_blocks h bs p = None \<and> live_blocks h' cs = (live_blocks h bs)(p \<mapsto> n) \<and> unat (request sz) \<le> n)"
proof (cases "sz = 0 \<or> mem_size_aligned h < RT_ALIGN sz 4")
  case True
  then show ?thesis by (auto simp: rt_malloc_def Let_def)
next
  case False
  define g where "g = h\<lparr>heap_sem := 0\<rparr>"
  let ?S = "request sz"
  have S: "?S \<le> mem_size_aligned h" using False mem by (auto simp: request_def Let_def)
  have sem: "heap_sem h = 1" using inv by (simp add: heap_inv_def)
  have c: "heap_chain g bs" using heap_inv_chain[OF inv] by (simp add: g_def)
  obtain p where p0: "run_loop fuel (search_more h ?S) (next_block h) (lfree h) = Returned p" "in_chain h bs p"
      "\<not> search_more h ?S p" "\<forall>z\<in>offs bs. lfree h \<le> z \<longrightarrow> z < p \<longrightarrow> \<not> fits h ?S z"
    using search_end[OF inv S fuel] by blast
  have "search_more g = search_more h" "next_block g = next_block h"
    by (simp_all add: fun_eq_iff search_more_def next_block_def fits_def g_def)
  then have p: "run_loop fuel (search_more g ?S) (next_block g) (lfree g) = Returned p"
    using p0(1) by (simp add: g_def)
  have "rt_malloc fuel sz h = obind (of_opt (heap_take h)) (\<lambda>h.
     obind (of_loop (run_loop fuel (search_more h ?S) (next_block h) (lfree h))) (\<lambda>ptr.
     if \<not> ptr < mem_size_aligned h - ?S then Done (0, heap_release h) else hand_out fuel ?S ptr h))"
    using False by (simp add: rt_malloc_def Let_def request_def cong del: if_weak_cong)
  moreover have "heap_take h = Some g" using sem by (simp add: heap_take_def g_def)
  moreover have "mem_size_aligned g = mem_size_aligned h" by (simp add: g_def)
  ultimately have run: "rt_malloc fuel sz h =
      (if \<not> p < mem_size_aligned h - ?S then Done (0, heap_release g) else hand_out fuel ?S p g)"
    using p by simp
  show ?thesis
  proof (cases "p < mem_size_aligned h - ?S")
    case F: False
    have "heap_release g = h" using sem by (simp add: g_def heap_release_def)
    moreover have "\<not> fits h ?S z" if "z \<in> offs bs" "lfree h \<le> z" "z < mem_size_aligned h - ?S" for z
      using p0(4) that F by (meson leI order.strict_trans2)
    ultimately show ?thesis using run F by simp
  next
    case T: True
    then have f: "fits h ?S p" using p0(3) by (simp add: search_more_def)
    have "mem_size_aligned h - ?S \<le> mem_size_aligned h" using S by (simp add: word_sub_le)
    moreover have "mem_size_aligned h < heap_end h"
      using c by (simp add: word_less_nat_alt heap_chain_def heap_shape_def g_def)
    ultimately have "p \<noteq> heap_end h" using T by auto
    then have "p \<in> offs bs" using p0(2) by (simp add: in_chain_def)
    then obtain xs u ys where bs0: "bs = xs @ (p, u) # ys" using seg_in_split by blast
    obtain m where m: "headers h p = Some m" "hm_used m = 0" "hm_next m - (p + 16) \<ge> ?S"
      using f by (auto simp: fits_def split: option.splits)
    have u: "u = False" "hm_next m = hdo ys (heap_end h)"
      using chain_mid(1)[OF c[unfolded bs0]] m by (auto simp: g_def)
    then have bs: "bs = xs @ (p, False) # ys" using bs0 by simp
    have room: "unat ?S \<le> unat (hdo ys (heap_end g)) - unat p - 16"
      using m(3) room_eq(1)[OF c[unfolded bs]] u(2) by (simp add: word_le_nat_alt g_def)
    have "heap_inv (g\<lparr>heap_sem := 1\<rparr>) (xs @ (p, False) # ys)"
      using heap_inv_sem[OF inv] bs by (simp add: g_def)
    then obtain h' cs n where r: "hand_out fuel ?S p g = Done (heap_ptr g + p + 16, h')" "heap_inv h' cs"
        "same_area g h'" "live_blocks h' cs = (live_blocks g (xs @ (p, False) # ys))(heap_ptr g + p + 16 \<mapsto> n)"
        "unat ?S \<le> n"
      using hand_out_ok[of g xs p ys ?S fuel] room request_props[of sz] fuel by (fastforce simp: g_def)
    have "live_blocks h bs (heap_ptr h + p + 16) = None"
      using live_mid(2)[OF heap_chain_seg[OF c[unfolded bs]]] bs by (simp add: live_blocks_def g_def)
    moreover have "heap_ptr h + p + 16 \<noteq> 0"
      using block_addr(6)[of g p] c chain_mid(2-4)[OF c[unfolded bs]] by (simp add: heap_chain_def g_def)
    ultimately show ?thesis using run T r bs
      by (intro disjI2 exI[of _ "heap_ptr h + p + 16"] exI[of _ h'] exI[of _ cs] exI[of _ n])
        (auto simp: g_def live_blocks_def same_area_def)
  qed
qed

section \<open>Joining free neighbours\<close>

lemma join_used:
  "join_next x y h = Some h' \<Longrightarrow> map_option hm_used (headers h' z) = map_option hm_used (headers h z)"
  by (auto simp: join_next_def hdr_upd_def elim!: bindE split: option.splits if_splits)

definition lfree_ok :: "heap \<Rightarrow> (word32 \<times> bool) list \<Rightarrow> bool" where
  "lfree_ok h bs \<longleftrightarrow> lfree h = heap_end h \<or> (lfree h, False) \<in> set bs"

text \<open>What joining keeps: everything but the list of free blocks.\<close>

definition joined :: "heap \<Rightarrow> (word32 \<times> bool) list \<Rightarrow> heap \<Rightarrow> (word32 \<times> bool) list \<Rightarrow> bool" where
  "joined h bs h' cs \<longleftrightarrow> (\<exists>l H. h' = h\<lparr>lfree := l, headers := H\<rparr>) \<and> heap_chain h' cs \<and> lfree_ok h' cs \<and>
     (\<forall>z. map_option hm_used (headers h' z) = map_option hm_used (headers h z)) \<and>
     (\<forall>z. (z, True) \<in> set bs \<longrightarrow> (z, True) \<in> set cs) \<and>
     used_sum cs (heap_end h) = used_sum bs (heap_end h) \<and> live_blocks h' cs = live_blocks h bs"

lemma joined_refl: "heap_chain h bs \<Longrightarrow> lfree_ok h bs \<Longrightarrow> joined h bs h bs"
  by (auto simp: joined_def intro!: exI[of _ "lfree h"] exI[of _ "headers h"])

lemma joined_trans:
  assumes "joined h bs g cs" "joined g cs k ds"
  shows "joined h bs k ds"
proof -
  obtain l H where g: "g = h\<lparr>lfree := l, headers := H\<rparr>" using assms(1) by (auto simp: joined_def)
  obtain l' H' where k: "k = g\<lparr>lfree := l', headers := H'\<rparr>" using assms(2) by (auto simp: joined_def)
  have "k = h\<lparr>lfree := l', headers := H'\<rparr>" by (simp add: g k)
  moreover have "heap_end g = heap_end h" by (simp add: g)
  ultimately show ?thesis using assms unfolding joined_def by auto
qed

lemma join_joined:
  assumes c: "heap_chain h (xs @ (x, False) # (y, False) # ys)"
    and l: "lfree_ok h (xs @ (x, False) # (y, False) # ys)"
  shows "\<exists>h'. join_next x y h = Some h' \<and> joined h (xs @ (x, False) # (y, False) # ys) h' (xs @ (x, False) # ys)"
proof -
  obtain H where H: "join_next x y h = Some (h\<lparr>lfree := (if lfree h = y then x else lfree h), headers := H\<rparr>)"
    "heap_chain (h\<lparr>headers := H\<rparr>) (xs @ (x, False) # ys)" using join_ok[OF c] by blast
  let ?h = "h\<lparr>lfree := (if lfree h = y then x else lfree h), headers := H\<rparr>"
  have "heap_chain ?h (xs @ (x, False) # ys)"
    using H(2) heap_chain_cong[of ?h "h\<lparr>headers := H\<rparr>"] by simp
  moreover have "y \<noteq> heap_end h"
    using chain_mid(5)[of h "xs @ [(x, False)]" y False ys] c by simp
  then have "lfree_ok ?h (xs @ (x, False) # ys)" using l by (auto simp: lfree_ok_def)
  moreover have "\<exists>l H'. ?h = h\<lparr>lfree := l, headers := H'\<rparr>" by blast
  ultimately show ?thesis using H(1) join_used[OF H(1)]
    by (intro exI[of _ ?h]) (simp add: joined_def live_blocks_def insert_free del: split_paired_Ex)
qed

lemma plug_holes_ok:
  assumes c: "heap_chain h (xs @ (x, False) # ys)" and na: "no_adj (xs @ (x, True) # ys)"
    and l: "lfree_ok h (xs @ (x, False) # ys)"
  shows "\<exists>h' cs. plug_holes x h = Some h' \<and> joined h (xs @ (x, False) # ys) h' cs \<and> no_adj cs"
proof -
  let ?e = "heap_end h"
  note k = chain_mid[OF c]
  obtain m where m: "headers h x = Some m" "hm_next m = hdo ys ?e" "hm_used m = 0" using k(1) by auto
  have na_ys: "no_adj ys" and na_xs: "no_adj (xs @ [(x, True)])"
    using na no_adj_mid[of xs x True ys] by (simp_all add: no_adj_True)
  obtain n where n: "headers h (hdo ys ?e) = Some n"
    "hdo ys ?e \<noteq> ?e \<longrightarrow> (\<exists>v zs. ys = (hdo ys ?e, v) # zs \<and> hm_used n = of_bool v)"
  proof (cases ys)
    case Nil
    then show ?thesis using that c by (auto simp: heap_chain_def)
  next
    case (Cons b zs)
    obtain y v where b: "b = (y, v)" by fastforce
    then show ?thesis using that chain_mid(1)[of h "xs @ [(x, False)]" y v zs] c Cons by auto
  qed
  define fwd where "fwd = (if x \<noteq> hdo ys ?e \<and> hm_used n = 0 \<and> hdo ys ?e \<noteq> ?e
    then join_next x (hdo ys ?e) h else Some h)"
  have "\<exists>g zs. fwd = Some g \<and> joined h (xs @ (x, False) # ys) g (xs @ (x, False) # zs) \<and> no_adj ((x, False) # zs)"
  proof (cases "hm_used n = 0 \<and> hdo ys ?e \<noteq> ?e")
    case True
    then obtain zs where ys: "ys = (hdo ys ?e, False) # zs" using n(2) by auto
    then obtain y where y: "hdo ys ?e = y" "ys = (y, False) # zs" by blast
    then obtain g where "join_next x y h = Some g" "joined h (xs @ (x, False) # ys) g (xs @ (x, False) # zs)"
      using join_joined[of h xs x y zs] c l by auto
    moreover have "no_adj ((x, False) # zs)" using na_ys y(2) no_adj_free_Cons by blast
    ultimately show ?thesis using True k(12) y by (auto simp: fwd_def)
  next
    case False
    have "no_adj ((x, False) # ys)"
    proof (cases ys)
      case (Cons b zs)
      obtain y v where b: "b = (y, v)" by fastforce
      have "y \<noteq> ?e" using k(10) Cons b by auto
      then have "v" using False n(2) Cons b by (cases v) auto
      then show ?thesis using na_ys Cons b by (auto simp: no_adj_def)
    qed (simp add: no_adj_def)
    then show ?thesis using False joined_refl[OF c l] by (auto simp: fwd_def)
  qed
  then obtain g zs where g: "fwd = Some g" "joined h (xs @ (x, False) # ys) g (xs @ (x, False) # zs)"
    "no_adj ((x, False) # zs)" by blast
  have gc: "heap_chain g (xs @ (x, False) # zs)" and gl: "lfree_ok g (xs @ (x, False) # zs)"
    using g(2) by (simp_all add: joined_def)
  obtain mg where mg: "headers g x = Some mg" "hm_prev mg = last (0 # map fst xs)"
    using chain_mid(1)[OF gc] by auto
  have "plug_holes x h = do { h \<leftarrow> fwd; m \<leftarrow> headers h x; p \<leftarrow> headers h (hm_prev m);
      if hm_prev m \<noteq> x \<and> hm_used p = 0 then join_next (hm_prev m) x h else Some h }"
    using m n(1) k(6) by (simp add: plug_holes_def fwd_def)
  then have bwd: "plug_holes x h = do { p \<leftarrow> headers g (hm_prev mg);
      if hm_prev mg \<noteq> x \<and> hm_used p = 0 then join_next (hm_prev mg) x g else Some g }"
    using g(1) mg(1) by simp
  show ?thesis
  proof (cases xs rule: rev_cases)
    case Nil
    then have "x = 0" using c by (auto simp: heap_chain_def)
    then have "plug_holes x h = Some g" using bwd mg Nil by simp
    then show ?thesis using g Nil by auto
  next
    case (snoc ws b)
    obtain q v where b: "b = (q, v)" by fastforce
    have gc': "heap_chain g (ws @ (q, v) # (x, False) # zs)" using gc snoc b by simp
    obtain mq where q: "headers g q = Some mq" "hm_used mq = of_bool v" "hm_prev mg = q" "q \<noteq> x"
      using chain_mid(1)[OF gc'] chain_mid(8)[OF gc'] mg snoc b by auto
    show ?thesis
    proof (cases v)
      case True
      have "no_adj (xs @ (x, False) # zs)"
        using na_xs g(3) True snoc b by (auto simp: no_adj_def successively_append_iff)
      then show ?thesis using bwd q True g by auto
    next
      case False
      obtain k where kk: "join_next q x g = Some k" "joined g (ws @ (q, False) # (x, False) # zs) k (ws @ (q, False) # zs)"
        using join_joined[of g ws q x zs] gc' gl False snoc b by auto
      have "no_adj (ws @ (q, False) # zs)"
        using na_xs g(3) False snoc b by (auto simp: no_adj_def successively_append_iff successively_Cons)
      moreover have "plug_holes x h = Some k" using bwd q False kk(1) by simp
      moreover have "joined h (xs @ (x, False) # ys) k (ws @ (q, False) # zs)"
        using joined_trans[OF g(2)] kk(2) False snoc b by simp
      ultimately show ?thesis by blast
    qed
  qed
qed

end
