(* ===== verification/RtMemHeap.thy ===== *)
theory RtMemHeap
  imports RtMemFree
begin

text \<open>
  \<open>rt_free\<close>, the interface the kernel's heap offers to its clients (a locale), and its
  interpretation on the model.
\<close>

section \<open>Release\<close>

lemma live_blocksD:
  assumes inv: "heap_inv h bs" and l: "live_blocks h bs p = Some n"
  obtains xs x ys where "bs = xs @ (x, True) # ys" "p = heap_ptr h + x + 16"
    "n = unat (hdo ys (heap_end h)) - unat x - 16" "heap_chain h (xs @ (x, True) # ys)"
    "unat p = unat (heap_ptr h) + unat x + 16" "unat x + 16 + n \<le> unat (heap_end h)"
    "p mod 4 = 0" "p AND 3 = 0" "heap_ptr h \<le> p" "p < heap_ptr h + heap_end h" "p - 16 - heap_ptr h = x" "p \<noteq> 0"
proof -
  have c: "heap_chain h bs" by (rule heap_inv_chain[OF inv])
  then obtain xs x ys where b: "bs = xs @ (x, True) # ys" "p = heap_ptr h + x + 16"
    "n = unat (hdo ys (heap_end h)) - unat x - 16"
    using l live_eq_Some[OF heap_chain_seg[OF c]] by (auto simp: live_blocks_def)
  have s: "heap_shape h" using c by (simp add: heap_chain_def)
  note k = chain_mid[OF c[unfolded b(1)]]
  note a = block_addr[OF s order.trans[OF less_imp_le[OF k(2)] k(3)] k(4)]
  have p: "p AND 3 = 0" unfolding b(2) and3_iff using a(4) by (simp add: mod4_iff)
  have e: "unat x < unat (heap_end h) - 16 \<or> unat x + 16 = unat (heap_end h)" using k(2,3) by linarith
  have "unat (heap_end h) - unat x \<ge> 16" using k(2,3) by linarith
  show ?thesis
  proof (rule that[OF b(1) b(2) b(3) c[unfolded b(1)]])
    show "unat p = unat (heap_ptr h) + unat x + 16" using a(2) b(2) by simp
    show "unat x + 16 + n \<le> unat (heap_end h)" using b(3) k(2,3) by simp
    show "p mod 4 = 0" "p AND 3 = 0" using a(4) b(2) p by simp_all
    show "heap_ptr h \<le> p" "p \<noteq> 0" using a(2,6) b(2) by (simp_all add: word_le_nat_alt)
    show "p - 16 - heap_ptr h = x" using b(2) by simp
  qed (use a(2,3) b(2) k in \<open>simp add: word_less_nat_alt\<close>)
qed

text \<open>Joining keeps the property of the headers left behind.\<close>

lemma joined_stale:
  assumes c: "heap_chain f ds" and s: "stale_ok f ds" and j: "joined f ds k cs"
  shows "stale_ok k cs"
  unfolding stale_ok_def
proof (intro allI impI)
  fix z m assume z: "headers k z = Some m"
  obtain mf where mf: "headers f z = Some mf" "hm_used mf = hm_used m"
    using j z unfolding joined_def by (metis (no_types, lifting) map_option_eq_Some)
  have e: "heap_end k = heap_end f" using j by (auto simp: joined_def)
  consider "z \<in> offs ds" | "z = heap_end f" | "hm_used mf = 0" using s mf(1) by (auto simp: stale_ok_def)
  then show "z \<in> offs cs \<or> z = heap_end k \<or> hm_used m = 0"
  proof cases
    case 1
    then obtain us u vs where d: "ds = us @ (z, u) # vs" using seg_in_split by blast
    then have "hm_used mf = of_bool u" using chain_mid(1)[of f us z u vs] c mf(1) by auto
    moreover have "u \<Longrightarrow> (z, True) \<in> set cs" using j d unfolding joined_def by auto
    ultimately show ?thesis using mf(2) offs_I by (cases u) auto
  qed (use e mf(2) in auto)
qed

lemma free_run:
  assumes "live_blocks h bs p = Some n" "heap_inv h bs"
    "g = (if rt_free_hook h then h\<lparr>hook_calls := hook_calls h @ [FreeHook p]\<rparr> else h)\<lparr>heap_sem := 0\<rparr>"
    "bs = xs @ (x, True) # ys" "p = heap_ptr h + x + 16" "headers h x = Some m"
    "k = g\<lparr>headers := (headers h)(x \<mapsto> rt_mem_setname ''    '' (m\<lparr>hm_used := 0, hm_magic := HEAP_MAGIC\<rparr>)),
       lfree := (if x < lfree h then x else lfree h), used_mem := used_mem h - (hm_next m - x)\<rparr>"
  shows "rt_free p h = of_opt (do { h \<leftarrow> plug_holes x k; Some (heap_release h) })"
proof -
  obtain xs' x' ys' where o: "bs = xs' @ (x', True) # ys'" "p = heap_ptr h + x' + 16" "p AND 3 = 0"
    "heap_ptr h \<le> p" "p < heap_ptr h + heap_end h" "p - 16 - heap_ptr h = x'" "p \<noteq> 0"
    by (rule live_blocksD[OF assms(2,1)])
  have x: "x' = x" using o(2) assms(5) by simp
  obtain m' where m': "headers h x = Some m'" "hm_used m' = 1" "hm_magic m' = HEAP_MAGIC"
    using chain_mid(1)[of h xs x True ys] heap_inv_chain[OF assms(2)] assms(4) by auto
  have m: "hm_used m = 1" "hm_magic m = HEAP_MAGIC" using m' assms(6) by simp_all
  have "heap_sem h = 1" using assms(2) by (simp add: heap_inv_def)
  then show ?thesis
    using o(3-7) x m assms(6)
    by (auto simp: rt_free_def Let_def heap_take_def hdr_upd_def assms(3,7) intro!: arg_cong[where f = of_opt]
        arg_cong2[where f = Option.bind] arg_cong2[where f = plug_holes])
qed

lemma free_ok:
  assumes inv: "heap_inv h bs" and l: "live_blocks h bs p = Some n"
  shows "\<exists>h' cs. rt_free p h = Done h' \<and> heap_inv h' cs \<and> same_area h h' \<and>
    live_blocks h' cs = (live_blocks h bs)(p := None)"
proof -
  obtain xs x ys where o: "bs = xs @ (x, True) # ys" "p = heap_ptr h + x + 16" "heap_chain h (xs @ (x, True) # ys)"
    by (rule live_blocksD[OF inv l])
  let ?e = "heap_end h" and ?cs = "xs @ (x, False) # ys"
  note k = chain_mid[OF o(3)] and r = room_eq[OF o(3)]
  obtain m where m: "headers h x = Some m" "hm_prev m = last (0 # map fst xs)" "hm_next m = hdo ys ?e" using k(1) by auto
  define m0 where "m0 = rt_mem_setname ''    '' (m\<lparr>hm_used := 0, hm_magic := HEAP_MAGIC\<rparr>)"
  define g where "g = (if rt_free_hook h then h\<lparr>hook_calls := hook_calls h @ [FreeHook p]\<rparr> else h)\<lparr>heap_sem := 0\<rparr>"
  define f where "f = g\<lparr>headers := (headers h)(x \<mapsto> m0),
       lfree := (if x < lfree h then x else lfree h), used_mem := used_mem h - (hm_next m - x)\<rparr>"
  have ff: "heap_end f = ?e" "heap_ptr f = heap_ptr h" "mem_size_aligned f = mem_size_aligned h"
      "user_data f = user_data h" "headers f = (headers h)(x \<mapsto> m0)" "max_mem f = max_mem h" "heap_sem f = 0"
      "lfree f = (if x < lfree h then x else lfree h)" "used_mem f = used_mem h - (hm_next m - x)"
    by (simp_all add: f_def g_def)
  have "heap_chain (h\<lparr>headers := (headers h)(x \<mapsto> m0)\<rparr>) ?cs"
    using set_used_ok[OF o(3) m(1), of m0 False] by (simp add: m0_def rt_mem_setname_def)
  then have fc: "heap_chain f ?cs"
    using heap_chain_cong[of f "h\<lparr>headers := (headers h)(x \<mapsto> m0)\<rparr>"] ff by simp
  have i: "no_adj bs" "stale_ok h bs" "lfree h = ?e \<or> (lfree h, False) \<in> set bs"
    "unat (used_mem h) = used_sum bs ?e" "used_mem h \<le> max_mem h"
    using inv by (simp_all add: heap_inv_def)
  have fl: "lfree_ok f ?cs"
    using i(3) k(6) ff(1,8) o(1) by (auto simp: lfree_ok_def)
  obtain h1 cs where h1: "plug_holes x f = Some h1" "joined f ?cs h1 cs" "no_adj cs"
    using plug_holes_ok[OF fc _ fl] i(1) o(1) by blast
  obtain l1 H1 where h1e: "h1 = f\<lparr>lfree := l1, headers := H1\<rparr>" using h1(2) by (auto simp: joined_def)
  have run: "rt_free p h = Done (heap_release h1)"
    using free_run[OF l inv g_def o(1,2) m(1), of f] h1(1) by (simp add: f_def m0_def)
  have us: "used_mem f \<le> used_mem h" "unat (used_mem f) = used_sum ?cs ?e"
  proof -
    have s: "used_sum bs ?e = used_sum ?cs ?e + (unat (hdo ys ?e) - unat x)" using o(1) by (simp add: used_sum_mid)
    then have "hm_next m - x \<le> used_mem h" using i(4) r(2) m(3) by (simp add: word_le_nat_alt)
    then show "used_mem f \<le> used_mem h" "unat (used_mem f) = used_sum ?cs ?e"
      using s i(4) r(2) m(3) unat_minus[of "hm_next m - x" "used_mem h"] by (simp_all add: ff(9) word_le_nat_alt)
  qed
  have "stale_ok f ?cs"
    using i(2) ff(1,5) o(1) by (auto simp: stale_ok_def m0_def rt_mem_setname_def)
  then have "stale_ok h1 cs" using joined_stale[OF fc _ h1(2)] by blast
  then have "heap_inv (heap_release h1) cs"
    using h1 us i(5) h1e ff
    by (auto simp: heap_inv_def heap_release_def joined_def lfree_ok_def stale_ok_def)
  moreover have "live_blocks (heap_release h1) cs = (live_blocks h bs)(p := None)"
    using h1(2) live_mid(3)[OF heap_chain_seg[OF o(3)], of "heap_ptr h"] o(1,2) ff
    by (simp add: joined_def live_blocks_def heap_release_def)
  ultimately show ?thesis using run h1e ff
    by (intro exI[of _ "heap_release h1"] exI[of _ cs]) (simp add: same_area_def heap_release_def)
qed

text \<open>Nothing but a live block, or the null pointer, is accepted.\<close>

lemma free_fault:
  assumes inv: "heap_inv h bs" and l: "live_blocks h bs p = None" and p: "p \<noteq> 0"
  shows "rt_free p h = Fault"
proof (rule ccontr)
  assume nf: "rt_free p h \<noteq> Fault"
  let ?x = "p - 16 - heap_ptr h"
  have c: "p AND 3 = 0 \<and> heap_ptr h \<le> p \<and> p < heap_ptr h + heap_end h"
    using nf p by (auto simp: rt_free_def split: if_splits)
  have "rt_free p h = Fault" if "headers h ?x = None \<or> (\<exists>m. headers h ?x = Some m \<and> hm_used m = 0)"
    using that p c by (auto simp: rt_free_def Let_def heap_take_def)
  then obtain m where m: "headers h ?x = Some m" "hm_used m \<noteq> 0" using nf by (cases "headers h ?x") auto
  have px: "p = heap_ptr h + ?x + 16" by simp
  have ch: "heap_chain h bs" by (rule heap_inv_chain[OF inv])
  then have s: "heap_shape h" by (simp add: heap_chain_def)
  have "?x \<in> offs bs \<or> ?x = heap_end h" using inv m by (auto simp: heap_inv_def stale_ok_def)
  then show False
  proof
    assume "?x \<in> offs bs"
    then obtain xs u ys where b: "bs = xs @ (?x, u) # ys" using seg_in_split by blast
    then have u: "u = True" using chain_mid(1)[of h xs ?x u ys] ch m by (cases u) auto
    have "live_blocks h bs p \<noteq> None"
      using live_eq_Some[OF heap_chain_seg[OF ch], of "heap_ptr h" p] b[unfolded u] px
      unfolding live_blocks_def by blast
    then show False using l by simp
  next
    assume e: "?x = heap_end h"
    let ?w = "heap_ptr h + heap_end h"
    have w: "unat ?w = unat (heap_ptr h) + unat (heap_end h)"
      using s by (intro unat_plus) (simp add: heap_shape_def)
    then have le: "unat ?w + 16 \<le> 4294967296" using s by (simp add: heap_shape_def)
    have pw: "p = ?w + 16" using px e by simp
    have "unat p = (unat ?w + 16) mod 4294967296" unfolding pw by (simp add: unat_word_ariths)
    then consider "unat p = unat ?w + 16" | "unat p = 0" using le by (cases "unat ?w + 16 = 4294967296") auto
    then show False
    proof cases
      case 1
      then show False using c by (simp add: word_less_nat_alt)
    next
      case 2
      then show False using p by (simp add: unat_eq_0)
    qed
  qed
qed

end
