(* ===== verification/Allocator.thy ===== *)
theory Allocator
  imports Prelude
begin

text \<open>
  The interface of a memory allocator: a map of live blocks (address to usable size), an
  allocation that fails without an effect or adds a block, a release that removes one. The null
  address is 0. Clients are written over the two operations and proved against the laws.
\<close>

section \<open>Interface\<close>

locale allocator =
  fixes ok :: "'s \<Rightarrow> bool" and live :: "'s \<Rightarrow> word32 \<Rightarrow> nat option"
    and alloc :: "word32 \<Rightarrow> 's \<Rightarrow> (word32 \<times> 's) outcome" and release :: "word32 \<Rightarrow> 's \<Rightarrow> 's outcome"
  assumes alloc: "ok s \<Longrightarrow> n \<le> 0xFFFFFFFC \<Longrightarrow> alloc n s = Done (0, s) \<or>
      (\<exists>p t k. alloc n s = Done (p, t) \<and> p \<noteq> 0 \<and> ok t \<and> live s p = None \<and> live t = (live s)(p \<mapsto> k) \<and> unat n \<le> k)"
    and release: "ok s \<Longrightarrow> live s p = Some k \<Longrightarrow> \<exists>t. release p s = Done t \<and> ok t \<and> live t = (live s)(p := None)"
    and release_null: "ok s \<Longrightarrow> release 0 s = Done s"
    and no_null: "ok s \<Longrightarrow> live s 0 = None"
begin

lemma allocE:
  assumes "ok s" "n \<le> 0xFFFFFFFC"
  obtains (null) "alloc n s = Done (0, s)"
  | (block) p t k where "alloc n s = Done (p, t)" "p \<noteq> 0" "ok t" "live s p = None" "live t = (live s)(p \<mapsto> k)" "unat n \<le> k"
  using alloc[OF assms] by blast

text \<open>Releasing what was just allocated gives the old map back.\<close>

lemma alloc_release:
  assumes "ok s" "n \<le> 0xFFFFFFFC" "alloc n s = Done (p, t)"
  shows "\<exists>u. release p t = Done u \<and> ok u \<and> live u = live s"
proof (cases rule: allocE[OF assms(1,2)])
  case 1
  then show ?thesis using 1 assms release_null by auto
next
  case (2 q t' k)
  then have e: "q = p" "t' = t" using assms(3) by simp_all
  obtain u where "release p t = Done u" "ok u" "live u = (live t)(p := None)"
    using release[of t p k] 2 e by auto
  then show ?thesis using 2 e by (auto simp: fun_upd_idem)
qed

lemma release_live:
  assumes "ok s" "live s p = Some k"
  obtains t where "release p s = Done t" "ok t" "live t = (live s)(p := None)"
  using release[OF assms] by blast

end

section \<open>Clients\<close>

text \<open>
  \<open>nes_mem_creat\<close> and \<open>nes_mem_delete\<close> of \<open>nes-old/nes_main.c\<close>: the line buffer, the work RAM and
  the name tables. The three globals are returned.
\<close>

definition nes_mem_creat ::
    "(word32 \<Rightarrow> 's \<Rightarrow> (word32 \<times> 's) outcome) \<Rightarrow> (word32 \<Rightarrow> 's \<Rightarrow> 's outcome) \<Rightarrow> 's \<Rightarrow>
     (byte \<times> word32 \<times> word32 \<times> word32 \<times> 's) outcome" where
  "nes_mem_creat malloc free s =
     obind (malloc ((8 + 256 + 8) * 2) s) (\<lambda>(buf, s). if buf = 0 then Done (1, 0, 0, 0, s) else
     obind (malloc 2048 s) (\<lambda>(ram, s). if ram = 0 then obind (free buf s) (\<lambda>s. Done (2, buf, 0, 0, s)) else
     obind (malloc 2048 s) (\<lambda>(nt, s). if nt = 0
       then obind (free buf s) (\<lambda>s. obind (free ram s) (\<lambda>s. Done (3, buf, ram, 0, s)))
       else Done (0, buf, ram, nt, s))))"

definition nes_mem_delete ::
    "(word32 \<Rightarrow> 's \<Rightarrow> 's outcome) \<Rightarrow> word32 \<times> word32 \<times> word32 \<Rightarrow> 's \<Rightarrow> 's outcome" where
  "nes_mem_delete free = (\<lambda>(buf, ram, nt) s.
     obind (free buf s) (\<lambda>s. obind (free ram s) (\<lambda>s. free nt s)))"

context allocator
begin

lemma fresh_neq: "live s p = Some k \<Longrightarrow> live s q = None \<Longrightarrow> p \<noteq> q"
  by auto

lemma nes_sizes: "(544 :: word32) \<le> 0xFFFFFFFC" "(2048 :: word32) \<le> 0xFFFFFFFC"
  by simp_all

text \<open>All or nothing: three distinct blocks, or the map of before.\<close>

lemma nes_mem_creat_ok:
  assumes "ok s"
  shows "\<exists>r b m n t. nes_mem_creat alloc release s = Done (r, b, m, n, t) \<and> ok t \<and>
    (if r = 0 then \<exists>i j k. distinct [b, m, n] \<and> live t = (live s)(b \<mapsto> i, m \<mapsto> j, n \<mapsto> k) \<and>
        544 \<le> i \<and> 2048 \<le> j \<and> 2048 \<le> k \<and> live s b = None \<and> live s m = None \<and> live s n = None
     else live t = live s)"
proof (cases rule: allocE[OF assms nes_sizes(1)])
  case 1
  then show ?thesis using assms 1 by (simp add: nes_mem_creat_def)
next
  case (2 b s1 i)
  note b = this
  show ?thesis
  proof (cases rule: allocE[OF b(3) nes_sizes(2)])
    case 1
    obtain u where "release b s1 = Done u" "ok u" "live u = live s"
      using alloc_release[OF assms nes_sizes(1) b(1)] by blast
    then show ?thesis using b 1 by (intro exI[of _ 2] exI[of _ b] exI[of _ 0] exI[of _ u]) (simp add: nes_mem_creat_def)
  next
    case (2 m s2 j)
    note m = this
    have bm: "b \<noteq> m" using b(5) m(4) by auto
    show ?thesis
    proof (cases rule: allocE[OF m(3) nes_sizes(2)])
      case 1
      have "live s2 b = Some i" using m(5) b(5) bm by simp
      then obtain s3 where s3: "release b s2 = Done s3" "ok s3" "live s3 = (live s2)(b := None)"
        using release_live[OF m(3)] by blast
      moreover have "live s3 m = Some j" using s3(3) m(5) bm by simp
      then obtain s4 where s4: "release m s3 = Done s4" "ok s4" "live s4 = (live s3)(m := None)"
        using release_live[OF s3(2)] by blast
      moreover have "live s4 = live s" using s4(3) s3(3) m(4,5) b(4,5) bm by (auto simp: fun_eq_iff)
      ultimately show ?thesis using b m 1
        by (intro exI[of _ 3] exI[of _ b] exI[of _ m] exI[of _ 0] exI[of _ s4]) (simp add: nes_mem_creat_def)
    next
      case (2 n s3 k)
      then have "b \<noteq> n" "m \<noteq> n" using 2 m(5) b(5) bm by (auto split: if_splits)
      moreover have "live s n = None" "live s m = None" using 2 m b bm by (auto split: if_splits)
      moreover have "live s3 = (live s)(b \<mapsto> i, m \<mapsto> j, n \<mapsto> k)" using 2 m b by simp
      ultimately show ?thesis using b m 2 bm
        by (intro exI[of _ 0] exI[of _ b] exI[of _ m] exI[of _ n] exI[of _ s3]) (simp add: nes_mem_creat_def, blast)
    qed
  qed
qed

lemma nes_mem_delete_ok:
  assumes "ok s" "distinct [b, m, n]" "live s b = Some i" "live s m = Some j" "live s n = Some k"
  shows "\<exists>t. nes_mem_delete release (b, m, n) s = Done t \<and> ok t \<and> live t = (live s)(b := None, m := None, n := None)"
proof -
  obtain s1 where s1: "release b s = Done s1" "ok s1" "live s1 = (live s)(b := None)"
    using release_live[OF assms(1,3)] by blast
  then have "live s1 m = Some j" using assms by auto
  then obtain s2 where s2: "release m s1 = Done s2" "ok s2" "live s2 = (live s1)(m := None)"
    using release_live[OF s1(2)] by blast
  then have "live s2 n = Some k" using assms s1 by auto
  then obtain s3 where "release n s2 = Done s3" "ok s3" "live s3 = (live s2)(n := None)"
    using release_live[OF s2(2)] by blast
  then show ?thesis using s1 s2 by (simp add: nes_mem_delete_def)
qed

end

end
