(* ===== verification/RtHeap.thy ===== *)
theory RtHeap
  imports RtMemHeap Allocator
begin

text \<open>
  The kernel heap as an allocator: initialisation establishes the invariant, the live blocks do
  not overlap, the laws of the interface hold, and its clients' lemmas are instantiated.
\<close>

section \<open>Well-formed heaps and their live blocks\<close>

definition heap_wf :: "heap \<Rightarrow> bool" where
  "heap_wf h \<longleftrightarrow> heap_inv h (chain_of h)"

definition live_of :: "heap \<Rightarrow> word32 \<Rightarrow> nat option" where
  "live_of h = live_blocks h (chain_of h)"

lemma heap_wfI:
  assumes "heap_inv h bs"
  shows "heap_wf h" "live_of h = live_blocks h bs"
  using assms chain_of_eq[OF heap_inv_chain[OF assms]] by (simp_all add: heap_wf_def live_of_def)

lemma live_of_0:
  assumes "heap_wf h"
  shows "live_of h 0 = None"
proof (cases "live_of h 0")
  case (Some n)
  then show ?thesis using live_blocksD[OF assms[unfolded heap_wf_def]] unfolding live_of_def by metis
qed

text \<open>Live blocks are aligned, lie inside the heap behind their headers, and do not overlap, headers included.\<close>

lemma live_blocks_apart:
  assumes "heap_wf h" "live_of h a = Some m" "live_of h b = Some n"
  shows "unat a mod 4 = 0 \<and> unat (heap_ptr h) + 16 \<le> unat a \<and>
    unat a + m \<le> unat (heap_ptr h) + unat (heap_end h) \<and>
    (a \<noteq> b \<longrightarrow> unat a + m \<le> unat b - 16 \<or> unat b + n \<le> unat a - 16)"
proof -
  note inv = assms(1)[unfolded heap_wf_def] and l = assms(2,3)[unfolded live_of_def]
  obtain xs x ys where a: "chain_of h = xs @ (x, True) # ys" "a = heap_ptr h + x + 16"
    "m = unat (hdo ys (heap_end h)) - unat x - 16" "unat a = unat (heap_ptr h) + unat x + 16"
    "unat x + 16 + m \<le> unat (heap_end h)" "a mod 4 = 0" "heap_chain h (xs @ (x, True) # ys)"
    by (rule live_blocksD[OF inv l(1)])
  obtain zs y ws where b: "chain_of h = zs @ (y, True) # ws" "b = heap_ptr h + y + 16"
    "n = unat (hdo ws (heap_end h)) - unat y - 16" "unat b = unat (heap_ptr h) + unat y + 16"
    "heap_chain h (zs @ (y, True) # ws)"
    by (rule live_blocksD[OF inv l(2)])
  note s = seg_mid[OF heap_chain_seg[OF a(7)]] and s' = seg_mid[OF heap_chain_seg[OF b(5)]]
  have "unat a + m \<le> unat b - 16 \<or> unat b + n \<le> unat a - 16" if "a \<noteq> b"
  proof -
    have "y \<noteq> x" using that a(2) b(2) by auto
    moreover have "y \<in> offs (chain_of h)" using b(1) by simp
    ultimately consider "y \<in> offs ys" | "y \<in> offs xs" using a(1) by auto
    then show ?thesis
    proof cases
      case 1
      then have "unat (hdo ys (heap_end h)) \<le> unat y" using seg_ge[OF s(3)] by blast
      then show ?thesis using a(3,4) b(4) s(6) by simp
    next
      case 2
      then have lt: "unat y + 16 \<le> unat x" by (rule s(4))
      have "x \<in> offs (chain_of h)" using a(1) by simp
      then have "x \<in> offs ws" using b(1) \<open>y \<noteq> x\<close> s'(4)[of x] lt by auto
      then have "unat (hdo ws (heap_end h)) \<le> unat x" using seg_ge[OF s'(3)] by blast
      then show ?thesis using b(3,4) a(4) s'(6) by simp
    qed
  qed
  then show ?thesis using a by (auto simp: mod4_iff)
qed

section \<open>Initialisation\<close>

lemma unat_align_down: "unat (align_down w 4) = unat w div 4 * 4"
proof -
  have m: "(4 :: word32) - 1 = mask 2" by (simp add: mask_eq_exp_minus_1)
  have "w AND NOT (mask 2) = push_bit 2 (drop_bit 2 w)"
    by (rule bit_word_eqI) (auto simp: bit_simps not_less dest!: le_Suc_ex)
  also have "\<dots> = w div 4 * 4" by (simp add: push_bit_eq_mult drop_bit_eq_div)
  also have "unat \<dots> = (unat w div 4 * 4) mod 4294967296" by (simp add: unat_word_ariths unat_div mod_simps)
  also have "\<dots> = unat w div 4 * 4" using unat_word32_less[of w] by (intro mod_less) linarith
  finally show ?thesis by (simp only: align_down_def m)
qed

lemma unat_RT_ALIGN: "unat w \<le> 0xFFFFFFFC \<Longrightarrow> unat (RT_ALIGN w 4) = (unat w + 3) div 4 * 4"
  using unat_align_down[of "w + 3"] unat_plus[of w 3] by (simp add: RT_ALIGN_4 align_down_def)

lemma heap_init_ok:
  assumes "unat begin_addr \<le> 0xFFFFFFFC" "(unat begin_addr + 3) div 4 * 4 + 36 \<le> unat end_addr div 4 * 4"
    "headers h = Map.empty" "used_mem h = 0"
  shows "heap_inv (rt_system_heap_init begin_addr end_addr h) [(0, False)] \<and>
    unat (mem_size_aligned (rt_system_heap_init begin_addr end_addr h)) =
      unat end_addr div 4 * 4 - (unat begin_addr + 3) div 4 * 4 - 32"
proof -
  define b e where "b = RT_ALIGN begin_addr 4" and "e = align_down end_addr 4"
  have ub: "unat b = (unat begin_addr + 3) div 4 * 4" and ue: "unat e = unat end_addr div 4 * 4"
    using unat_RT_ALIGN[OF assms(1)] by (simp_all add: b_def e_def unat_align_down)
  have be: "unat b + 36 \<le> unat e" using assms(2) ub ue by simp
  then have e32: "unat (e - 32) = unat e - 32" by (intro unat_minus[of 32 e, simplified]) (simp add: word_le_nat_alt)
  have c: "e > 2 * SIZEOF_STRUCT_MEM" "e - 2 * SIZEOF_STRUCT_MEM \<ge> b"
    using be e32 by (simp_all add: word_less_nat_alt word_le_nat_alt)
  define s where "s = e - b - 2 * SIZEOF_STRUCT_MEM"
  have es: "e - b = s + 32" by (simp add: s_def)
  have "s = e - 32 - b" by (simp add: s_def)
  then have us: "unat s = unat e - unat b - 32"
    using c(2) e32 unat_minus[of b "e - 32"] by simp
  have us16: "unat (s + 16) = unat s + 16" using us be unat_word32_less[of e] by (intro unat_plus[of s 16, simplified]) linarith
  define h' where "h' = rt_system_heap_init begin_addr end_addr h"
  have m4: "unat e mod 4 = 0" "unat b mod 4 = 0" using ub ue by simp_all
  have h': "heap_ptr h' = b" "heap_end h' = s + 16" "mem_size_aligned h' = s" "lfree h' = 0" "heap_sem h' = 1"
      "used_mem h' = 0"
    "headers h' = (\<lambda>_. None)(0 \<mapsto> rt_mem_setname ''INIT'' \<lparr>hm_magic = HEAP_MAGIC, hm_used = 0, hm_next = s + 16, hm_prev = 0, hm_thread = []\<rparr>,
       s + 16 \<mapsto> rt_mem_setname ''INIT'' \<lparr>hm_magic = HEAP_MAGIC, hm_used = 1, hm_next = s + 16, hm_prev = s + 16, hm_thread = []\<rparr>)"
    using c assms(3,4) es
    by (simp_all add: h'_def rt_system_heap_init_def b_def[symmetric] e_def[symmetric] Let_def new_hdr_def)
  have ne: "s + 16 \<noteq> 0" using us16 by (metis add_is_0 unat_0 zero_neq_numeral)
  have "unat (s + 16) = (unat end_addr div 4 - (unat begin_addr + 3) div 4 - 4) * 4"
    using us us16 be ub ue by (simp add: diff_mult_distrib add.commute)
  then have "unat (s + 16) mod 4 = 0" by simp
  moreover have "unat b + unat (s + 16) + 16 = unat e" using us be us16 by simp
  moreover have "0 < unat s" using us be by simp
  ultimately have sz: "unat (s + 16) mod 4 = 0" "unat b + unat (s + 16) + 16 \<le> 2 ^ 32" "0 < unat s"
    by (simp_all add: less_imp_le)
  have "heap_shape h'" using h'(1-3) sz us16 m4(2) by (simp add: heap_shape_def)
  moreover have "blk (headers h') 0 0 False (s + 16)"
    using ne sz(3) us16 by (simp add: h'(7) blk_def rt_mem_setname_def)
  moreover have "\<exists>m. headers h' (s + 16) = Some m \<and> hm_used m = 1 \<and> hm_next m = s + 16"
    using ne by (simp add: h'(7) rt_mem_setname_def)
  moreover have "\<exists>u cs. [(0 :: word32, False)] = (0, u) # cs" by blast
  ultimately have "heap_chain h' [(0, False)]" using h'(2) by (simp add: heap_chain_def)
  moreover have "stale_ok h' [(0, False)]" using h'(2) by (simp add: stale_ok_def h'(7))
  ultimately have "heap_inv h' [(0, False)]"
    using h'(2,4-6) by (simp add: heap_inv_def no_adj_def)
  then show ?thesis using us h'(3) ub ue by (simp add: h'_def)
qed

text \<open>
  Initialising the heap on a region that has room for two headers and at least four bytes gives
  a well-formed heap without live blocks, whose size is the aligned region without the two headers.
\<close>

theorem heap_init_wf:
  assumes "unat begin_addr \<le> 0xFFFFFFFC" "(unat begin_addr + 3) div 4 * 4 + 36 \<le> unat end_addr div 4 * 4"
    "headers h = Map.empty" "used_mem h = 0"
  shows "heap_wf (rt_system_heap_init begin_addr end_addr h) \<and>
    live_of (rt_system_heap_init begin_addr end_addr h) = Map.empty \<and>
    unat (mem_size_aligned (rt_system_heap_init begin_addr end_addr h)) =
      unat end_addr div 4 * 4 - (unat begin_addr + 3) div 4 * 4 - 32"
  using heap_init_ok[OF assms] heap_wfI by (auto simp: live_blocks_def)

section \<open>Allocating and releasing\<close>

text \<open>
  C15: on a well-formed heap of at least twelve bytes \<open>rt_malloc\<close> returns: either the null address
  and the heap unchanged, or the address of a fresh block at least as large as asked for (and
  twelve bytes at least), with all other live blocks as before.
\<close>

theorem malloc_spec:
  assumes "heap_wf h" "12 \<le> mem_size_aligned h" "unat (heap_end h) \<le> fuel" "sz \<le> 0xFFFFFFFC"
  shows "rt_malloc fuel sz h = Done (0, h) \<or>
    (\<exists>p h' n. rt_malloc fuel sz h = Done (p, h') \<and> p \<noteq> 0 \<and> heap_wf h' \<and> live_of h p = None \<and>
       live_of h' = (live_of h)(p \<mapsto> n) \<and> unat sz \<le> n \<and> 12 \<le> n)"
proof -
  have "unat sz \<le> 0xFFFFFFFC" using assms(4) by (simp add: word_le_nat_alt)
  then have "unat sz \<le> unat (request sz)" using request_props(3)[of sz] unat_RT_ALIGN[of sz] by simp
  then show ?thesis
    using malloc_ok[OF assms(1)[unfolded heap_wf_def] assms(2,3), of sz] request_props(2)[of sz]
    unfolding live_of_def[of h] by (fastforce dest: heap_wfI)
qed

text \<open>Where there are headers: \<open>rt_free\<close> leaves them all in memory.\<close>

definition placed :: "heap \<Rightarrow> word32 set" where
  "placed h = dom (headers h)"

lemma placed_sel [simp]:
  "placed (h\<lparr>lfree := x\<rparr>) = placed h" "placed (h\<lparr>used_mem := x\<rparr>) = placed h" "placed (h\<lparr>heap_sem := n\<rparr>) = placed h"
  "placed (h\<lparr>hook_calls := c\<rparr>) = placed h" "placed (heap_release h) = placed h"
  by (simp_all add: placed_def heap_release_def)

lemma take_placed: "heap_take h = Some h' \<Longrightarrow> placed h' = placed h"
  by (auto simp: heap_take_def split: if_splits)

lemma hdr_upd_placed: "hdr_upd off f h = Some h' \<Longrightarrow> placed h' = placed h"
  unfolding placed_def by (auto simp: hdr_upd_def split: option.splits if_splits)

lemma join_next_placed: "join_next x y h = Some h' \<Longrightarrow> placed h' = placed h"
  by (auto simp: join_next_def split: if_splits elim!: bindE dest!: hdr_upd_placed)

lemma plug_holes_placed: "plug_holes mem h = Some h' \<Longrightarrow> placed h' = placed h"
  by (auto simp: plug_holes_def split: if_splits elim!: bindE dest!: join_next_placed)

lemma free_placed: "rt_free p h = Done h' \<Longrightarrow> placed h' = placed h"
  by (auto simp: rt_free_def Let_def split: if_splits elim!: bindE dest!: plug_holes_placed hdr_upd_placed take_placed)

lemma live_header:
  assumes "heap_wf h" "live_of h p = Some n"
  shows "headers h (p - 16 - heap_ptr h) \<noteq> None \<and> p \<noteq> 0"
proof -
  obtain xs x ys where x: "p = heap_ptr h + x + 16" "heap_chain h (xs @ (x, True) # ys)" "p \<noteq> 0"
    using live_blocksD[OF assms(1)[unfolded heap_wf_def] assms(2)[unfolded live_of_def]] by metis
  then show ?thesis using chain_mid(1)[OF x(2)] by auto
qed

text \<open>
  C16: \<open>rt_free\<close> does nothing for the null address and removes a live block. It fails its assertions for
  an address that is not aligned or not in the heap, and for one behind the header of a block that is not
  live: so a second release right behind the first one is detected. (What it does for an address with no
  header of the heap in front of it depends on the bytes there, which are not modelled.)
\<close>

theorem free_spec:
  assumes "heap_wf h"
  shows "rt_free 0 h = Done h \<and>
    (\<forall>p n. live_of h p = Some n \<longrightarrow> (\<exists>h'. rt_free p h = Done h' \<and> heap_wf h' \<and> live_of h' = (live_of h)(p := None) \<and>
       headers h' (p - 16 - heap_ptr h') \<noteq> None \<and> rt_free p h' = Fault)) \<and>
    (\<forall>p. p \<noteq> 0 \<longrightarrow> p AND 3 \<noteq> 0 \<or> p < heap_ptr h \<or> heap_ptr h + heap_end h \<le> p \<longrightarrow> rt_free p h = Fault) \<and>
    (\<forall>p. p \<noteq> 0 \<longrightarrow> headers h (p - 16 - heap_ptr h) \<noteq> None \<longrightarrow> live_of h p = None \<longrightarrow> rt_free p h = Fault)"
proof (intro conjI allI impI)
  fix p n
  assume l: "live_of h p = Some n"
  obtain h' cs where h': "rt_free p h = Done h'" "heap_inv h' cs" "same_area h h'" "live_blocks h' cs = (live_of h)(p := None)"
    using free_ok[OF assms[unfolded heap_wf_def] l[unfolded live_of_def]] unfolding live_of_def by blast
  note w = heap_wfI[OF h'(2)] live_header[OF assms l]
  have "headers h' (p - 16 - heap_ptr h') \<noteq> None" using w(3) free_placed[OF h'(1)] h'(3) by (auto simp: same_area_def placed_def)
  moreover have "rt_free p h' = Fault"
    using free_fault[of h' "chain_of h'" p] w h'(4) by (simp add: heap_wf_def live_of_def)
  ultimately show "\<exists>h'. rt_free p h = Done h' \<and> heap_wf h' \<and> live_of h' = (live_of h)(p := None) \<and>
      headers h' (p - 16 - heap_ptr h') \<noteq> None \<and> rt_free p h' = Fault"
    using h'(1,4) w by (intro exI[of _ h']) simp
next
  fix p
  show "p \<noteq> 0 \<Longrightarrow> p AND 3 \<noteq> 0 \<or> p < heap_ptr h \<or> heap_ptr h + heap_end h \<le> p \<Longrightarrow> rt_free p h = Fault"
    by (auto simp: rt_free_def)
  show "p \<noteq> 0 \<Longrightarrow> headers h (p - 16 - heap_ptr h) \<noteq> None \<Longrightarrow> live_of h p = None \<Longrightarrow> rt_free p h = Fault"
    using free_fault[OF assms[unfolded heap_wf_def], of p] by (simp add: live_of_def)
qed (simp add: rt_free_def)

definition heap_ready :: "nat \<Rightarrow> heap \<Rightarrow> bool" where
  "heap_ready fuel h \<longleftrightarrow> heap_wf h \<and> 12 \<le> mem_size_aligned h \<and> unat (heap_end h) \<le> fuel"

definition same_bounds :: "heap \<Rightarrow> heap \<Rightarrow> bool" where
  "same_bounds h h' \<longleftrightarrow> heap_ptr h' = heap_ptr h \<and> heap_end h' = heap_end h \<and> mem_size_aligned h' = mem_size_aligned h"

lemma same_bounds_area: "same_area h h' \<Longrightarrow> same_bounds h h'"
  by (simp add: same_area_def same_bounds_def)

lemma same_bounds_trans: "same_bounds h1 h2 \<Longrightarrow> same_bounds h2 h3 \<Longrightarrow> same_bounds h1 h3"
  by (simp add: same_bounds_def)

lemma same_bounds_release: "same_bounds h h' \<Longrightarrow> same_bounds h (heap_release h')"
  by (simp add: same_bounds_def heap_release_def)

lemma heap_readyI:
  assumes "heap_ready fuel h" "heap_inv h' cs" "same_area h h'"
  shows "heap_ready fuel h'"
  using assms heap_wfI(1)[OF assms(2)] by (simp add: heap_ready_def same_area_def)

interpretation heap: allocator "heap_ready fuel" live_of "rt_malloc fuel" rt_free for fuel
proof (unfold_locales, goal_cases)
  case (1 h n)
  then have h: "heap_wf h" "12 \<le> mem_size_aligned h" "unat (heap_end h) \<le> fuel" by (simp_all add: heap_ready_def)
  have "unat n \<le> 0xFFFFFFFC" using 1(2) by (simp add: word_le_nat_alt)
  then have n: "unat n \<le> unat (request n)" using request_props(3)[of n] unat_RT_ALIGN[of n] by simp
  from malloc_ok[OF h(1)[unfolded heap_wf_def] h(2,3), of n] show ?case
  proof
    assume "\<exists>p h' cs m. rt_malloc fuel n h = Done (p, h') \<and> p \<noteq> 0 \<and> heap_inv h' cs \<and> same_area h h' \<and>
      live_blocks h (chain_of h) p = None \<and> live_blocks h' cs = (live_blocks h (chain_of h))(p \<mapsto> m) \<and>
      unat (request n) \<le> m"
    then obtain p h' cs m where r: "rt_malloc fuel n h = Done (p, h')" "p \<noteq> 0" "heap_inv h' cs" "same_area h h'"
      "live_blocks h (chain_of h) p = None" "live_blocks h' cs = (live_blocks h (chain_of h))(p \<mapsto> m)"
      "unat (request n) \<le> m" by blast
    then show ?thesis using heap_wfI(2)[OF r(3)] heap_readyI[OF 1(1) r(3,4)] n
      by (intro disjI2 exI[of _ p] exI[of _ h'] exI[of _ m]) (simp add: live_of_def)
  qed blast
next
  case (2 h p k)
  then obtain h' cs where "rt_free p h = Done h'" "heap_inv h' cs" "same_area h h'"
      "live_blocks h' cs = (live_of h)(p := None)"
    using free_ok[of h "chain_of h" p k] by (auto simp: heap_ready_def heap_wf_def live_of_def)
  then show ?case using heap_wfI(2) heap_readyI[OF 2(1)] by metis
next
  case (3 h)
  then show ?case by (simp add: rt_free_def)
next
  case (4 h)
  then show ?case by (simp add: live_of_0 heap_ready_def)
qed

text \<open>
  C18: the emulator's allocation of its three buffers on the kernel heap is all or nothing: code 0
  and three distinct fresh blocks of the sizes it needs, or an error code and no block kept.
\<close>

theorem nes_mem_creat_all_or_nothing:
  assumes "heap_ready fuel h"
  shows "\<exists>r b m n h'. nes_mem_creat (rt_malloc fuel) rt_free h = Done (r, b, m, n, h') \<and> heap_wf h' \<and>
    (if r = 0 then \<exists>i j k. distinct [b, m, n] \<and> live_of h' = (live_of h)(b \<mapsto> i, m \<mapsto> j, n \<mapsto> k) \<and>
        544 \<le> i \<and> 2048 \<le> j \<and> 2048 \<le> k \<and> live_of h b = None \<and> live_of h m = None \<and> live_of h n = None
     else live_of h' = live_of h)"
proof -
  obtain r b m n h' where c: "nes_mem_creat (rt_malloc fuel) rt_free h = Done (r, b, m, n, h')"
    "heap_ready fuel h'" "if r = 0 then \<exists>i j k. distinct [b, m, n] \<and> live_of h' = (live_of h)(b \<mapsto> i, m \<mapsto> j, n \<mapsto> k) \<and>
        544 \<le> i \<and> 2048 \<le> j \<and> 2048 \<le> k \<and> live_of h b = None \<and> live_of h m = None \<and> live_of h n = None
     else live_of h' = live_of h"
    using heap.nes_mem_creat_ok[OF assms] by blast
  then show ?thesis
    by (intro exI[of _ r] exI[of _ b] exI[of _ m] exI[of _ n] exI[of _ h'])
      (auto simp: heap_ready_def split: if_splits)
qed

end
