(* ===== verification/RtRealloc.thy ===== *)
theory RtRealloc
  imports RtHeap
begin

text \<open>
  \<open>rt_realloc\<close>, \<open>rt_calloc\<close> and \<open>memcheck\<close> on well-formed heaps, and the corner cases the arithmetic
  of \<open>rt_malloc\<close> leaves open.
\<close>

section \<open>Writing into a live block\<close>

lemma block_off:
  assumes inv: "heap_inv h bs" and l: "live_blocks h bs p = Some n"
  obtains x where "p - heap_ptr h = x + 16" "unat (x + 16) = unat x + 16" "unat x + 16 + n \<le> unat (heap_end h)"
    "\<forall>z\<in>offs bs. z \<noteq> x \<longrightarrow> unat z + 16 \<le> unat x \<or> unat x + 16 + n \<le> unat z"
proof -
  obtain xs x ys where o: "bs = xs @ (x, True) # ys" "p = heap_ptr h + x + 16"
    "n = unat (hdo ys (heap_end h)) - unat x - 16" "heap_chain h (xs @ (x, True) # ys)"
    "unat x + 16 + n \<le> unat (heap_end h)" by (rule live_blocksD[OF inv l])
  note s = seg_mid[OF heap_chain_seg[OF o(4)]]
  have "unat (x + 16) = unat x + 16"
    using o(5) unat_word32_less[of "heap_end h"] by (intro unat_plus[of x 16, simplified]) linarith
  moreover have "unat z + 16 \<le> unat x \<or> unat x + 16 + n \<le> unat z" if "z \<in> offs bs" "z \<noteq> x" for z
  proof (cases "z \<in> offs xs")
    case False
    then have "z \<in> offs ys" using that o(1) by auto
    then show ?thesis using seg_ge[OF s(3)] o(3) s(6) by fastforce
  qed (use s(4) in blast)
  ultimately show ?thesis using o(2,5) by (intro that[of x]) auto
qed

lemma heap_shape_cong:
  "heap_end h = heap_end h' \<Longrightarrow> heap_ptr h = heap_ptr h' \<Longrightarrow> mem_size_aligned h = mem_size_aligned h' \<Longrightarrow>
   heap_shape h = heap_shape h'"
  by (simp add: heap_shape_def)

lemma put_user_ok:
  assumes inv: "heap_inv h bs" and l: "live_blocks h bs p = Some n" and len: "length xs \<le> n"
  shows "heap_inv (put_user p xs h) bs" "live_blocks (put_user p xs h) bs = live_blocks h bs"
    "same_area (h\<lparr>user_data := user_data (put_user p xs h)\<rparr>) (put_user p xs h)"
proof -
  obtain x where x: "p - heap_ptr h = x + 16" "unat (x + 16) = unat x + 16" "unat x + 16 + n \<le> unat (heap_end h)"
    "\<forall>z\<in>offs bs. z \<noteq> x \<longrightarrow> unat z + 16 \<le> unat x \<or> unat x + 16 + n \<le> unat z"
    by (rule block_off[OF inv l])
  let ?h = "put_user p xs h"
  have f: "heap_end ?h = heap_end h" "heap_ptr ?h = heap_ptr h" "mem_size_aligned ?h = mem_size_aligned h"
    "lfree ?h = lfree h" "heap_sem ?h = heap_sem h" "used_mem ?h = used_mem h" "max_mem ?h = max_mem h"
    by (simp_all add: put_user_def clobber_def Let_def)
  have hd: "headers ?h z = (if unat z < unat x + 16 + length xs \<and> unat x < unat z then None else headers h z)" for z
    using x(1,2) by (auto simp: put_user_def clobber_def Let_def)
  have keep: "headers ?h z = headers h z" if "z \<in> offs bs \<or> z = heap_end h" for z
    using that x(3,4) len unfolding hd by fastforce
  have c: "heap_chain h bs" using inv by (simp add: heap_inv_def)
  then have "seg (headers ?h) 0 bs (heap_end h)"
    using heap_chain_seg[OF c] seg_cong[of bs "headers ?h" "headers h" 0 "heap_end h"] keep by blast
  then have "heap_chain ?h bs"
    using c keep[of "heap_end h"] f heap_shape_cong[OF f(1-3)] by (simp add: heap_chain_def)
  moreover have "stale_ok ?h bs" using inv f(1) by (auto simp: heap_inv_def stale_ok_def hd)
  ultimately show "heap_inv ?h bs" using inv f by (simp add: heap_inv_def)
  show "live_blocks ?h bs = live_blocks h bs" "same_area (h\<lparr>user_data := user_data ?h\<rparr>) ?h"
    using f by (simp_all add: live_blocks_def same_area_def)
qed

lemma put_user_data:
  assumes "heap_inv h bs" "live_blocks h bs p = Some n" "length xs \<le> n"
  shows "get_user p (length xs) (put_user p xs h) = xs"
proof (rule nth_equalityI)
  obtain x where x: "p - heap_ptr h = x + 16" "unat (x + 16) = unat x + 16" "unat x + 16 + n \<le> unat (heap_end h)"
    by (rule block_off[OF assms(1,2)])
  fix i assume "i < length (get_user p (length xs) (put_user p xs h))"
  then have i: "i < length xs" by (simp add: get_user_def)
  then have "unat (x + 16) + i < 4294967296"
    using x(2,3) assms(3) unat_word32_less[of "heap_end h"] by linarith
  then have "unat (x + 16 + of_nat i) = unat x + 16 + i"
    using unat_add_le[of "x + 16" i] x(2) by simp
  then show "get_user p (length xs) (put_user p xs h) ! i = xs ! i"
    using i x by (simp add: get_user_def put_user_def clobber_def Let_def)
qed (simp add: get_user_def)

section \<open>Shrinking in place\<close>

lemma realloc_shrink:
  assumes inv: "heap_inv h (xs @ (x, True) # ys)" and N: "unat N mod 4 = 0" "0 < unat N"
    and big: "unat N + 28 < unat (hdo ys (heap_end h)) - unat x - 16"
  shows "\<exists>k cs. (do { h' \<leftarrow> insert_block x (x + 16 + N)
        (h\<lparr>heap_sem := 0, used_mem := used_mem h - (hdo ys (heap_end h) - x - 16 - N)\<rparr>);
      plug_holes (x + 16 + N) h' }) = Some k \<and> heap_inv (heap_release k) cs \<and> same_area h k \<and>
    live_blocks k cs = (live_blocks h (xs @ (x, True) # ys))(heap_ptr h + x + 16 \<mapsto> unat N)"
proof -
  let ?e = "heap_end h" and ?bs = "xs @ (x, True) # ys"
  let ?n = "hdo ys ?e"
  have c: "heap_chain h ?bs" and i: "no_adj ?bs" "stale_ok h ?bs" "lfree h = ?e \<or> (lfree h, False) \<in> set ?bs"
    "unat (used_mem h) = used_sum ?bs ?e" "used_mem h \<le> max_mem h"
    using inv by (simp_all add: heap_inv_def)
  note k = chain_mid[OF c] and r = room_eq[OF c]
  define y where "y = x + 16 + N"
  have "unat x + 16 + unat N < 4294967296" using big unat_word32_less[of ?n] by linarith
  moreover from this have "unat (x + 16) = unat x + 16" using unat_plus[of x 16] by simp
  ultimately have uy: "unat y = unat x + 16 + unat N" using unat_plus[of "x + 16" N] by (simp add: y_def)
  define g where "g = h\<lparr>heap_sem := 0, used_mem := used_mem h - (?n - x - 16 - N)\<rparr>"
  have gc: "heap_chain g ?bs" using c heap_chain_cong[of g h] by (simp add: g_def)
  have ge: "heap_end g = ?e" by (simp add: g_def)
  have y: "unat x + 16 < unat y" "unat y + 16 < unat (hdo ys (heap_end g))" "unat y mod 4 = 0"
    using uy big N k(4) ge by (auto simp: mod_simps)
  obtain H where H: "insert_block x y g = Some (g\<lparr>headers := H\<rparr>)"
    "heap_chain (g\<lparr>headers := H\<rparr>) (xs @ (x, True) # (y, False) # ys)"
    using insert_ok[OF gc y] by blast
  let ?f = "g\<lparr>headers := H\<rparr>" and ?ds = "(xs @ [(x, True)]) @ (y, False) # ys"
  have fc: "heap_chain ?f ?ds" using H(2) by simp
  have "no_adj ((xs @ [(x, True)]) @ (y, True) # ys)"
    using i(1) no_adj_mid[of xs x True ys] no_adj_mid[of xs x True "(y, True) # ys"] by (simp add: no_adj_True)
  moreover have "lfree_ok ?f ?ds" using i(3) by (auto simp: lfree_ok_def g_def)
  ultimately obtain k cs where p: "plug_holes y ?f = Some k" "joined ?f ?ds k cs" "no_adj cs"
    using plug_holes_ok[OF fc] by blast
  have stale: "stale_ok ?f ?ds"
  proof -
    obtain m where m: "headers g x = Some m" "hm_next m = ?n" using chain_mid(1)[OF gc] ge by auto
    have "H z = headers g z" if "z \<notin> offs ?ds" "z \<noteq> heap_end g" for z
      using insert_block_other[OF H(1) m(1), of z] m(2) that hdo_cases[of ys ?e] ge by auto
    then show ?thesis using stale_upd[of g ?bs ?ds H] i(2) by (auto simp: stale_ok_def g_def)
  qed
  have used: "unat (used_mem g) = used_sum ?ds ?e" "used_mem g \<le> used_mem h"
  proof -
    have "unat (?n - x - 16) = unat ?n - unat x - 16" using r(1) by (simp add: diff_diff_eq add.commute)
    then have d: "unat (?n - x - 16 - N) = unat ?n - unat x - 16 - unat N"
      using big unat_minus[of N "?n - x - 16"] by (simp add: word_le_nat_alt)
    have s: "used_sum ?bs ?e = used_sum ?ds ?e + (unat ?n - unat y)"
      using y ge k(2) by (simp add: used_sum_append)
    then have "?n - x - 16 - N \<le> used_mem h" using i(4) d uy by (simp add: word_le_nat_alt)
    then show "unat (used_mem g) = used_sum ?ds ?e" "used_mem g \<le> used_mem h"
      using s i(4) d uy unat_minus[of "?n - x - 16 - N" "used_mem h"]
      by (simp_all add: g_def word_le_nat_alt)
  qed
  obtain l H1 where ke: "k = ?f\<lparr>lfree := l, headers := H1\<rparr>" using p(2) by (auto simp: joined_def)
  have kf: "heap_end k = ?e" "used_mem k = used_mem g" "max_mem k = max_mem h" "heap_sem k = 0"
    by (simp_all add: ke g_def)
  have "heap_chain k cs" "lfree_ok k cs" "used_sum cs ?e = used_sum ?ds ?e"
    using p(2) ge by (simp_all add: joined_def)
  then have "heap_inv (heap_release k) cs"
    using p(3) joined_stale[OF fc stale p(2)] used i(5) kf
    by (simp add: heap_inv_def heap_release_def lfree_ok_def stale_ok_def)
  moreover have "live_blocks k cs = (live_blocks h ?bs)(heap_ptr h + x + 16 \<mapsto> unat N)"
  proof -
    have "live_blocks k cs = live (heap_ptr h) (xs @ (x, True) # (y, False) # ys) ?e"
      using p(2) by (simp add: joined_def live_blocks_def g_def)
    also have "\<dots> = (live (heap_ptr h) (xs @ (x, False) # ys) ?e)(heap_ptr h + x + 16 \<mapsto> unat N)"
      using live_mid(1)[OF heap_chain_seg[OF H(2)], of "heap_ptr h"] ge uy by (simp add: insert_free)
    also have "\<dots> = (live_blocks h ?bs)(heap_ptr h + x + 16 \<mapsto> unat N)"
      using live_mid(1)[OF heap_chain_seg[OF c], of "heap_ptr h"] by (simp add: live_blocks_def)
    finally show ?thesis .
  qed
  ultimately show ?thesis using H(1) p(1) ke
    by (intro exI[of _ k] exI[of _ cs]) (simp add: g_def y_def same_area_def)
qed

section \<open>The three operations\<close>

text \<open>The three ways of \<open>rt_realloc\<close>: the size stays, the block is split, or the contents move to a new block.\<close>

definition realloc_in_place :: "word32 \<Rightarrow> word32 \<Rightarrow> word32 \<Rightarrow> word32 \<Rightarrow> heap \<Rightarrow> (word32 \<times> heap) outcome" where
  "realloc_in_place p x sz N h =
     obind (of_opt (do { h' \<leftarrow> insert_block x (x + 16 + N)
         (h\<lparr>heap_sem := 0, used_mem := used_mem h - (sz - N)\<rparr>); plug_holes (x + 16 + N) h' }))
       (\<lambda>h. Done (p, heap_release h))"

definition realloc_elsewhere :: "nat \<Rightarrow> word32 \<Rightarrow> word32 \<Rightarrow> word32 \<Rightarrow> heap \<Rightarrow> (word32 \<times> heap) outcome" where
  "realloc_elsewhere fuel p sz N h =
     obind (rt_malloc fuel N h) (\<lambda>(nmem, h). if nmem = 0 then Done (0, h)
       else let k = unat (if sz < N then sz else N); h = put_user nmem (get_user p k h) h in
         obind (rt_free p h) (\<lambda>h. Done (nmem, h)))"

lemma realloc_cases:
  assumes "heap_inv h (chain_of h)" "live_blocks h (chain_of h) p = Some n" "N = RT_ALIGN newsize 4" "N \<noteq> 0" "N \<le> mem_size_aligned h"
  obtains xs x ys sz where "chain_of h = xs @ (x, True) # ys" "p = heap_ptr h + x + 16" "sz = hdo ys (heap_end h) - x - 16"
    "n = unat (hdo ys (heap_end h)) - unat x - 16" "unat sz = n"
    "rt_realloc fuel p newsize h = (if sz = N then Done (p, h)
      else if N + 16 + 12 < sz then realloc_in_place p x sz N h else realloc_elsewhere fuel p sz N h)"
proof -
  obtain xs x ys where o: "chain_of h = xs @ (x, True) # ys" "p = heap_ptr h + x + 16"
    "n = unat (hdo ys (heap_end h)) - unat x - 16" "heap_chain h (xs @ (x, True) # ys)"
    "heap_ptr h \<le> p" "p < heap_ptr h + heap_end h" "p - 16 - heap_ptr h = x" "p \<noteq> 0"
    by (rule live_blocksD[OF assms(1,2)])
  obtain m where m: "headers h x = Some m" "hm_next m = hdo ys (heap_end h)" using chain_mid(1)[OF o(4)] by auto
  define sz where "sz = hdo ys (heap_end h) - x - 16"
  have sz: "unat sz = n" using room_eq(1)[OF o(4)] o(3) by (simp add: sz_def diff_diff_eq add.commute)
  have sem: "heap_sem h = 1" using assms(1) by (simp add: heap_inv_def)
  have rel: "heap_release (h\<lparr>heap_sem := 0\<rparr>) = h" using sem by (simp add: heap_release_def)
  have "rt_realloc fuel p newsize h = (if sz = N then Done (p, h)
      else if N + 16 + 12 < sz then realloc_in_place p x sz N h else realloc_elsewhere fuel p sz N h)"
    using assms(4,5) o(5,6,8) m sem rel unfolding o(2)
    by (simp add: rt_realloc_def Let_def assms(3)[symmetric] heap_take_def sz_def not_less[symmetric]
        realloc_in_place_def realloc_elsewhere_def cong del: if_weak_cong)
  then show thesis using that o(1-3) sz sz_def by blast
qed

lemma align_room:
  assumes "heap_inv h bs" "N \<le> mem_size_aligned h"
  shows "unat N + 28 < 2 ^ 32" "RT_ALIGN N 4 = N \<longleftrightarrow> unat N mod 4 = 0"
proof -
  have b: "unat (heap_end h) + 16 \<le> 2 ^ 32" "unat N \<le> unat (mem_size_aligned h)" "unat (heap_end h) = unat (mem_size_aligned h) + 16"
    using assms by (simp_all add: heap_inv_def heap_chain_def heap_shape_def word_le_nat_alt)
  then show "unat N + 28 < 2 ^ 32" by simp
  have "unat (RT_ALIGN N 4) = (unat N + 3) div 4 * 4" using b unat_RT_ALIGN[of N] by simp
  then show "RT_ALIGN N 4 = N \<longleftrightarrow> unat N mod 4 = 0" unfolding word_unat_eq_iff by presburger
qed

lemma realloc_in_place_ok:
  assumes "heap_inv h (chain_of h)" "chain_of h = xs @ (x, True) # ys" "p = heap_ptr h + x + 16" "sz = hdo ys (heap_end h) - x - 16"
    and "n = unat (hdo ys (heap_end h)) - unat x - 16" "unat sz = n" "N + 16 + 12 < sz" "N \<le> mem_size_aligned h" "unat N mod 4 = 0" "0 < unat N"
  shows "\<exists>k. realloc_in_place p x sz N h = Done (p, k) \<and> heap_wf k \<and> live_of k = (live_of h)(p \<mapsto> unat N) \<and> same_bounds h k \<and> (\<forall>j. get_user p j k = get_user p j h)"
proof -
  have "unat (N + 16 + 12) = unat N + 28"
    using align_room(1)[OF assms(1,8)] unat_plus[of N 16] unat_plus[of "N + 16" 12] by simp
  then have "unat N + 28 < n" using assms(6,7) by (simp add: word_less_nat_alt)
  moreover have "heap_inv h (xs @ (x, True) # ys)" using assms(1,2) by simp
  ultimately obtain k cs where r: "(do { h' \<leftarrow> insert_block x (x + 16 + N)
        (h\<lparr>heap_sem := 0, used_mem := used_mem h - (sz - N)\<rparr>); plug_holes (x + 16 + N) h' }) = Some k"
    "heap_inv (heap_release k) cs" "same_area h k"
    "live_blocks k cs = (live_blocks h (xs @ (x, True) # ys))(heap_ptr h + x + 16 \<mapsto> unat N)"
    using realloc_shrink[of h xs x ys N] assms(9,10) unfolding assms(4,5) by blast
  have "live_of (heap_release k) = (live_of h)(p \<mapsto> unat N)"
    using heap_wfI(2)[OF r(2)] r(4) assms(2,3) by (simp add: live_of_def live_blocks_def heap_release_def)
  moreover have "\<forall>j. get_user p j (heap_release k) = get_user p j h"
    using r(3) by (simp add: get_user_def heap_release_def same_area_def)
  moreover have "same_bounds h (heap_release k)" by (intro same_bounds_release same_bounds_area r(3))
  ultimately show ?thesis using heap_wfI(1)[OF r(2)] r(1) by (simp add: realloc_in_place_def)
qed

lemma realloc_elsewhere_ok:
  assumes "heap_ready fuel h" "live_of h p = Some n" "unat sz = n" "N \<le> mem_size_aligned h" "unat N mod 4 = 0"
  shows "realloc_elsewhere fuel p sz N h = Done (0, h) \<or>
    (\<exists>q h' j. realloc_elsewhere fuel p sz N h = Done (q, h') \<and> heap_wf h' \<and> unat N \<le> j \<and> live_of h' = (live_of h)(p := None, q \<mapsto> j) \<and>
      live_of h q = None \<and> same_bounds h h' \<and> get_user q (min n (unat N)) h' = get_user p (min n (unat N)) h)"
proof -
  let ?bs = "chain_of h"
  have inv: "heap_inv h ?bs" and l: "live_blocks h ?bs p = Some n" and ready: "12 \<le> mem_size_aligned h" "unat (heap_end h) \<le> fuel"
    using assms(1,2) by (simp_all add: heap_ready_def heap_wf_def live_of_def)
  consider "rt_malloc fuel N h = Done (0, h)"
    | q h1 cs j where "rt_malloc fuel N h = Done (q, h1)" "q \<noteq> 0" "heap_inv h1 cs" "same_area h h1"
      "live_blocks h ?bs q = None" "live_blocks h1 cs = (live_blocks h ?bs)(q \<mapsto> j)" "unat (request N) \<le> j"
    using malloc_ok[OF inv ready, of N] by blast
  then show ?thesis
  proof cases
    case 1
    then show ?thesis by (simp add: realloc_elsewhere_def)
  next
    case (2 q h1 cs j)
    have pq: "p \<noteq> q" using 2(5) l by auto
    let ?k = "unat (if sz < N then sz else N)" and ?d = "get_user p (unat (if sz < N then sz else N)) h1"
    have k: "?k = min n (unat N)" using assms(3) by (simp add: word_less_nat_alt)
    have j: "unat N \<le> j" using 2(7) request_props(3)[of N] align_room(2)[OF inv assms(4)] assms(5) by simp
    have d: "?d = get_user p ?k h" "length ?d \<le> j" using 2(4) j k by (simp_all add: get_user_def same_area_def)
    have lq: "live_blocks h1 cs q = Some j" using 2(6) by simp
    note pu = put_user_ok[OF 2(3) lq d(2)]
    have "live_blocks (put_user q ?d h1) cs p = Some n" using pu(2) 2(6) l pq by simp
    then obtain h2 ds where h2: "rt_free p (put_user q ?d h1) = Done h2" "heap_inv h2 ds"
      "same_area (put_user q ?d h1) h2" "live_blocks h2 ds = (live_blocks (put_user q ?d h1) cs)(p := None)"
      using free_ok[OF pu(1)] by blast
    have "realloc_elsewhere fuel p sz N h = Done (q, h2)" using 2(1,2) h2(1) by (simp add: Let_def realloc_elsewhere_def)
    moreover have "live_of h2 = (live_of h)(p := None, q \<mapsto> j)"
      using heap_wfI(2)[OF h2(2)] h2(4) pu(2) 2(6) pq by (auto simp: live_of_def)
    moreover have "get_user q (min n (unat N)) h2 = get_user p (min n (unat N)) h"
      using put_user_data[OF 2(3) lq d(2)] d(1) h2(3) k by (simp add: get_user_def same_area_def)
    moreover have "live_of h q = None" using 2(5) by (simp add: live_of_def)
    moreover have "same_bounds h h2"
      using 2(4) pu(3) h2(3) by (auto simp: same_area_def same_bounds_def)
    ultimately show ?thesis using heap_wfI(1)[OF h2(2)] j by blast
  qed
qed

lemma realloc_ok:
  assumes "heap_ready fuel h" "live_of h p = Some n" "RT_ALIGN newsize 4 \<noteq> 0"
    "RT_ALIGN newsize 4 \<le> mem_size_aligned h"
  shows "rt_realloc fuel p newsize h = Done (0, h) \<or>
    (\<exists>q h' k. rt_realloc fuel p newsize h = Done (q, h') \<and> heap_wf h' \<and> unat (RT_ALIGN newsize 4) \<le> k \<and>
       live_of h' = (live_of h)(p := None, q \<mapsto> k) \<and> (q \<noteq> p \<longrightarrow> live_of h q = None) \<and> same_bounds h h' \<and>
       get_user q (min n (unat (RT_ALIGN newsize 4))) h' = get_user p (min n (unat (RT_ALIGN newsize 4))) h)"
proof -
  define N where "N = RT_ALIGN newsize 4"
  have inv: "heap_inv h (chain_of h)" and l: "live_blocks h (chain_of h) p = Some n"
    using assms(1,2) by (simp_all add: heap_ready_def heap_wf_def live_of_def)
  have N: "unat N mod 4 = 0" "N \<noteq> 0" "0 < unat N" "N \<le> mem_size_aligned h"
    using RT_ALIGN_mod assms(3,4) by (simp_all add: N_def unat_gt_0)
  obtain xs x ys sz where o: "chain_of h = xs @ (x, True) # ys" "p = heap_ptr h + x + 16" "sz = hdo ys (heap_end h) - x - 16"
    "n = unat (hdo ys (heap_end h)) - unat x - 16" "unat sz = n"
    and start: "rt_realloc fuel p newsize h = (if sz = N then Done (p, h)
      else if N + 16 + 12 < sz then realloc_in_place p x sz N h else realloc_elsewhere fuel p sz N h)"
    by (rule realloc_cases[OF inv l N_def N(2,4)])
  consider (same) "sz = N" | (split) "sz \<noteq> N" "N + 16 + 12 < sz" | (move) "sz \<noteq> N" "\<not> N + 16 + 12 < sz" by blast
  then show ?thesis
  proof cases
    case same
    have "live_of h = (live_of h)(p := None, p \<mapsto> n)" using assms(2) by auto
    then show ?thesis using start same assms(1) o(5) unfolding N_def[symmetric]
      by (intro disjI2 exI[of _ p] exI[of _ h] exI[of _ n]) (simp add: heap_ready_def same_bounds_def)
  next
    case split
    show ?thesis using realloc_in_place_ok[OF inv o split(2) N(4,1,3)] start split unfolding N_def[symmetric] by auto
  next
    case move
    show ?thesis using realloc_elsewhere_ok[OF assms(1,2) o(5) N(4,1)] start move unfolding N_def[symmetric] by auto
  qed
qed

text \<open>
  C17: resizing a live block to a non-zero size that the heap could hold returns either the null
  address, the heap unchanged; or the address of a live block of at least the new size that holds
  the old contents as far as they fit. The old block is live no longer, unless it was kept in place;
  all other live blocks are as before.
\<close>

theorem realloc_spec:
  assumes "heap_ready fuel h" "live_of h p = Some n" "RT_ALIGN newsize 4 \<noteq> 0"
    "RT_ALIGN newsize 4 \<le> mem_size_aligned h"
  shows "rt_realloc fuel p newsize h = Done (0, h) \<or>
    (\<exists>q h' k. rt_realloc fuel p newsize h = Done (q, h') \<and> heap_wf h' \<and> unat (RT_ALIGN newsize 4) \<le> k \<and>
       live_of h' = (live_of h)(p := None, q \<mapsto> k) \<and> (q \<noteq> p \<longrightarrow> live_of h q = None) \<and>
       get_user q (min n (unat (RT_ALIGN newsize 4))) h' = get_user p (min n (unat (RT_ALIGN newsize 4))) h)"
  using realloc_ok[OF assms] by blast

text \<open>
  When the product does not overflow, \<open>rt_calloc\<close> returns the null address and the heap unchanged,
  or a fresh block of that many zero bytes.
\<close>

theorem calloc_spec:
  assumes "heap_ready fuel h" "unat count * unat sz \<le> 0xFFFFFFFC"
  shows "rt_calloc fuel count sz h = Done (0, h) \<or>
    (\<exists>p h' n. rt_calloc fuel count sz h = Done (p, h') \<and> p \<noteq> 0 \<and> heap_wf h' \<and> live_of h p = None \<and>
       live_of h' = (live_of h)(p \<mapsto> n) \<and> same_bounds h h' \<and> unat count * unat sz \<le> n \<and>
       get_user p (unat count * unat sz) h' = replicate (unat count * unat sz) 0)"
proof -
  let ?m = "unat count * unat sz"
  have m: "unat (count * sz) = ?m" using assms(2) by (simp add: unat_word_ariths)
  then have le: "unat (count * sz) \<le> unat (request (count * sz))"
    using request_props(3)[of "count * sz"] unat_RT_ALIGN[of "count * sz"] assms(2) by simp
  have inv: "heap_inv h (chain_of h)" and r: "12 \<le> mem_size_aligned h" "unat (heap_end h) \<le> fuel"
    using assms(1) by (simp_all add: heap_ready_def heap_wf_def)
  consider "rt_malloc fuel (count * sz) h = Done (0, h)"
    | p h1 cs n where "rt_malloc fuel (count * sz) h = Done (p, h1)" "p \<noteq> 0" "heap_inv h1 cs"
      "same_area h h1" "live_blocks h (chain_of h) p = None" "live_blocks h1 cs = (live_blocks h (chain_of h))(p \<mapsto> n)"
      "unat (request (count * sz)) \<le> n"
    using malloc_ok[OF inv r, of "count * sz"] by blast
  then show ?thesis
  proof cases
    case 1
    then show ?thesis by (simp add: rt_calloc_def)
  next
    case (2 p h1 cs n)
    let ?z = "replicate ?m (0 :: byte)"
    have l: "live_blocks h1 cs p = Some n" "length ?z \<le> n" using 2(6,7) le m by simp_all
    note pu = put_user_ok[OF 2(3) l]
    have "rt_calloc fuel count sz h = Done (p, put_user p ?z h1)" using 2(1,2) m by (simp add: rt_calloc_def)
    moreover have "get_user p ?m (put_user p ?z h1) = ?z" using put_user_data[OF 2(3) l] by simp
    moreover have "live_of (put_user p ?z h1) = (live_of h)(p \<mapsto> n)"
      using heap_wfI(2)[OF pu(1)] pu(2) 2(6) by (simp add: live_of_def)
    moreover have "same_bounds h (put_user p ?z h1)" using 2(4) pu(3) by (auto simp: same_area_def same_bounds_def)
    ultimately show ?thesis using heap_wfI(1)[OF pu(1)] 2(2,5) l
      by (intro disjI2 exI[of _ p] exI[of _ "put_user p ?z h1"] exI[of _ n]) (simp add: live_of_def)
  qed
qed

interpretation check_walk: measured_loop "memcheck_more h" "next_block h"
  "\<lambda>x. heap_chain h bs \<and> in_chain h bs x" "\<lambda>x. unat (heap_end h) - unat x" for h bs
proof (unfold_locales, goal_cases)
  case (1 x y)
  then have "x \<in> offs bs" by (auto simp: memcheck_more_def in_chain_def)
  then show ?case using chain_next[of h bs x] 1 by auto
next
  case (2 x)
  then have "x \<in> offs bs" by (auto simp: memcheck_more_def in_chain_def)
  then show ?case using chain_next[of h bs x] 2 by auto
next
  case (3 x y)
  then have "x \<in> offs bs" by (auto simp: memcheck_more_def in_chain_def)
  then show ?case using chain_next[of h bs x] 3 by auto
qed

text \<open>
  On a well-formed heap below 2 GB the consistency check walks the whole chain and reports nothing.
\<close>

theorem memcheck_passes:
  assumes "heap_wf h" "unat (heap_end h) < 2 ^ 31" "unat (heap_end h) \<le> fuel"
  shows "memcheck fuel h = Done (heap_end h)"
proof -
  let ?bs = "chain_of h"
  have c: "heap_chain h ?bs" using assms(1) by (simp add: heap_wf_def heap_inv_def)
  then have "in_chain h ?bs 0" by (auto simp: heap_chain_def in_chain_def)
  then obtain x where x: "run_loop fuel (memcheck_more h) (next_block h) 0 = Returned x" "in_chain h ?bs x"
      "\<not> memcheck_more h x"
    using check_walk.returns[of h ?bs 0 fuel] c assms(3) by auto
  have "x = heap_end h"
  proof (rule ccontr)
    assume ne: "x \<noteq> heap_end h"
    then have "x \<in> offs ?bs" using x(2) by (simp add: in_chain_def)
    then obtain xs u ys where b: "?bs = xs @ (x, u) # ys" using seg_in_split by blast
    note k = chain_mid[OF c[unfolded b]]
    have le: "unat x + 16 < unat (heap_end h)" using k(2,3) by linarith
    then have "x \<le> mem_size_aligned h"
      using c by (simp add: word_le_nat_alt heap_chain_def heap_shape_def)
    moreover have "0 \<le> sint x"
    proof -
      have "unat x < 2 ^ 31" using le assms(2) by linarith
      then have "int (unat x) < int (2 ^ 31)" by (simp only: of_nat_less_iff)
      then have "uint x < 2 ^ 31" by simp
      moreover have "- 2147483648 \<le> uint x" using uint_ge_0[of x] by linarith
      ultimately have "sint x = uint x" using signed_take_bit_int_eq_self[of 31 "uint x"] by (simp add: sint_uint)
      then show ?thesis by simp
    qed
    ultimately show False using k(1) ne x(3) by (cases u) (auto simp: memcheck_more_def)
  qed
  then show ?thesis using x(1) by (simp add: memcheck_def)
qed

section \<open>Corner cases of \<open>rt_malloc\<close>\<close>

text \<open>
  A block that is as large as asked for and reaches the end of the heap is never handed out: a
  request for the whole of an empty heap is refused although its one block fits.
\<close>

theorem malloc_exact_fit_refused:
  assumes "heap_ready fuel h" "chain_of h = [(0, False)]" "sz \<noteq> 0" "RT_ALIGN sz 4 = mem_size_aligned h"
  shows "fits h (RT_ALIGN sz 4) 0 \<and> rt_malloc fuel sz h = Done (0, h)"
proof -
  have inv: "heap_inv h [(0, False)]" using assms(1,2) by (simp add: heap_ready_def heap_wf_def)
  then have c: "heap_chain h ([] @ (0, False) # [])" by (simp add: heap_inv_def)
  obtain m where m: "headers h 0 = Some m" "hm_used m = 0" "hm_next m = heap_end h" using chain_mid(1)[OF c] by auto
  have "hm_next m - (0 + 16) = mem_size_aligned h" using m(3) heap_end_eq[OF c] by simp
  then have f: "fits h (RT_ALIGN sz 4) 0" using m assms(4) by (simp add: fits_def)
  have "heap_sem h = 1" using inv by (simp add: heap_inv_def)
  then have "heap_take h = Some (h\<lparr>heap_sem := 0\<rparr>)" "heap_release (h\<lparr>heap_sem := 0\<rparr>) = h"
    by (simp_all add: heap_take_def heap_release_def)
  moreover have "\<not> mem_size_aligned h < 12" using assms(1) by (simp add: heap_ready_def not_less)
  ultimately have "rt_malloc fuel sz h = Done (0, h)"
    using assms(3,4) by (simp add: rt_malloc_def Let_def search_more_def)
  then show ?thesis using f by simp
qed

text \<open>
  The size is rounded up in 32 bits, so the three largest sizes wrap to zero and are served with a
  block of twelve bytes.
\<close>

theorem malloc_size_wraps:
  assumes "0xFFFFFFFC < sz" "12 \<le> mem_size_aligned h"
  shows "rt_malloc fuel sz h = rt_malloc fuel 12 h"
proof -
  have "sz = 0xFFFFFFFD \<or> sz = 0xFFFFFFFE \<or> sz = 0xFFFFFFFF"
  proof -
    have "unat sz = 0xFFFFFFFD \<or> unat sz = 0xFFFFFFFE \<or> unat sz = 0xFFFFFFFF"
    proof -
      have "4294967292 < unat sz" using assms(1) by (simp add: word_less_nat_alt)
      then show ?thesis using unat_word32_less[of sz] by linarith
    qed
    then show ?thesis by (simp add: word_unat_eq_iff)
  qed
  moreover have "RT_ALIGN 0xFFFFFFFD 4 = 0" "RT_ALIGN 0xFFFFFFFE 4 = 0" "RT_ALIGN 0xFFFFFFFF 4 = 0" "RT_ALIGN 12 4 = 12"
    by code_simp+
  ultimately have a: "RT_ALIGN sz 4 = 0" "RT_ALIGN 12 4 = 12" "sz \<noteq> 0" by auto
  have "\<not> mem_size_aligned h < 12" using assms(2) by (simp add: not_less)
  then show ?thesis using a by (simp add: rt_malloc_def)
qed

text \<open>
  On a heap of fewer than twelve bytes \<open>mem_size_aligned - size\<close> wraps as well, and the search for a
  block that fits never ends: no number of steps is enough.
\<close>

theorem malloc_tiny_heap_spins:
  assumes "heap_wf h" "mem_size_aligned h < 12" "sz \<noteq> 0" "RT_ALIGN sz 4 \<le> mem_size_aligned h"
  shows "rt_malloc fuel sz h = Spins"
proof -
  let ?bs = "chain_of h"
  have inv: "heap_inv h ?bs" using assms(1) by (simp add: heap_wf_def)
  then have c: "heap_chain h ?bs" and sem: "heap_sem h = 1" by (simp_all add: heap_inv_def)
  have lim: "unat (mem_size_aligned h - 12) = unat (mem_size_aligned h) + 4294967296 - 12"
    using assms(2) by (simp add: unat_sub_if_size word_size word_le_nat_alt word_less_nat_alt)
  have e: "unat (heap_end h) = unat (mem_size_aligned h) + 16" using c by (simp add: heap_chain_def heap_shape_def)
  define g where "g = h\<lparr>heap_sem := 0\<rparr>"
  have more: "search_more g 12 x \<and> (\<exists>y. next_block g x = Some y \<and> in_chain h ?bs y)" if x: "in_chain h ?bs x" for x
  proof -
    have "search_more g 12 x" if "unat x \<le> unat (heap_end h)" "\<not> fits h 12 x"
    proof -
      have "unat (mem_size_aligned h) < 12" using assms(2) by (simp add: word_less_nat_alt)
      then have "x < mem_size_aligned h - 12" using lim e that(1) by (simp add: word_less_nat_alt)
      then show ?thesis using that(2) by (simp add: search_more_def fits_def g_def)
    qed
    moreover have "unat x \<le> unat (heap_end h) \<and> \<not> fits h 12 x \<and> (\<exists>y. next_block g x = Some y \<and> in_chain h ?bs y)"
    proof (cases "x = heap_end h")
      case True
      then show ?thesis using c by (auto simp: heap_chain_def fits_def next_block_def in_chain_def g_def)
    next
      case False
      then have o: "x \<in> offs ?bs" using x by (simp add: in_chain_def)
      then obtain xs u ys where b: "?bs = xs @ (x, u) # ys" using seg_in_split by blast
      note k = chain_mid[OF c[unfolded b]] and r = room_eq(1)[OF c[unfolded b]]
      have "unat (mem_size_aligned h) < 12" using assms(2) by (simp add: word_less_nat_alt)
      then have "unat (hdo ys (heap_end h) - (x + 16)) < 12" using r e k(3) by linarith
      then have "\<not> fits h 12 x" using k(1) by (auto simp: fits_def word_le_nat_alt)
      moreover have "next_block g x = next_block h x" by (simp add: next_block_def g_def)
      ultimately show ?thesis using chain_next[OF c o] k(2,3) by auto
    qed
    ultimately show ?thesis by blast
  qed
  have "\<exists>t. run_loop n (search_more g 12) (next_block g) x = Running t" if "in_chain h ?bs x" for n x
    using that
  proof (induction n arbitrary: x)
    case 0
    then show ?case using more by simp
  next
    case (Suc n)
    then show ?case using more[OF Suc.prems] by auto
  qed
  moreover have "in_chain h ?bs (lfree g)"
    using inv by (auto simp: heap_inv_def in_chain_def g_def intro: offs_I)
  moreover have "RT_ALIGN sz 4 < 12" using assms(2,4) by (rule order.strict_trans1[rotated])
  moreover have "heap_take h = Some g" using sem by (simp add: heap_take_def g_def)
  moreover have "mem_size_aligned g = mem_size_aligned h" by (simp add: g_def)
  moreover have "\<not> mem_size_aligned h < RT_ALIGN sz 4" using assms(4) by simp
  ultimately obtain t where "run_loop fuel (search_more g 12) (next_block g) (lfree g) = Running t"
    "RT_ALIGN sz 4 < 12" "heap_take h = Some g" "\<not> mem_size_aligned h < RT_ALIGN sz 4" by blast
  then show ?thesis using assms(3) by (simp add: rt_malloc_def Let_def)
qed

end
