(* ===== verification/RtHeapRuns.thy ===== *)
theory RtHeapRuns
  imports RtRealloc
begin

text \<open>
  Programs that use the heap: any sequence of allocations, releases, reallocations and writes that only
  names blocks it holds, from the initialisation on.
\<close>

section \<open>Requests\<close>

datatype heap_op = Malloc word32 | Calloc word32 word32 | Realloc word32 word32 | Free word32 | Write word32 "byte list"

fun heap_do :: "nat \<Rightarrow> heap_op \<Rightarrow> heap \<Rightarrow> heap outcome" where
  "heap_do fuel (Malloc n) h = obind (rt_malloc fuel n h) (\<lambda>(p, h). Done h)"
| "heap_do fuel (Calloc count sz) h = obind (rt_calloc fuel count sz h) (\<lambda>(p, h). Done h)"
| "heap_do fuel (Realloc p n) h = obind (rt_realloc fuel p n h) (\<lambda>(p, h). Done h)"
| "heap_do fuel (Free p) h = rt_free p h"
| "heap_do fuel (Write p xs) h = Done (put_user p xs h)"

text \<open>
  What a program may ask for: to release or change a block it holds, to write inside of one, and for
  cleared memory only where the size does not overflow.
\<close>

fun legal :: "heap_op \<Rightarrow> heap \<Rightarrow> bool" where
  "legal (Malloc n) h \<longleftrightarrow> True"
| "legal (Calloc count sz) h \<longleftrightarrow> unat count * unat sz \<le> 0xFFFFFFFC"
| "legal (Realloc p n) h \<longleftrightarrow> p = 0 \<or> live_of h p \<noteq> None"
| "legal (Free p) h \<longleftrightarrow> p = 0 \<or> live_of h p \<noteq> None"
| "legal (Write p xs) h \<longleftrightarrow> (case live_of h p of None \<Rightarrow> False | Some n \<Rightarrow> length xs \<le> n)"

primrec heap_runs :: "nat \<Rightarrow> heap_op list \<Rightarrow> heap \<Rightarrow> heap outcome" where
  "heap_runs fuel [] h = Done h"
| "heap_runs fuel (x # xs) h = obind (heap_do fuel x h) (heap_runs fuel xs)"

primrec legal_run :: "nat \<Rightarrow> heap_op list \<Rightarrow> heap \<Rightarrow> bool" where
  "legal_run fuel [] h \<longleftrightarrow> True"
| "legal_run fuel (x # xs) h \<longleftrightarrow> legal x h \<and> (case heap_do fuel x h of Done h' \<Rightarrow> legal_run fuel xs h' | _ \<Rightarrow> True)"

section \<open>Every request keeps the heap well formed\<close>

lemma ready_bounds: "\<lbrakk>heap_ready fuel h; heap_wf h'; same_bounds h h'\<rbrakk> \<Longrightarrow> heap_ready fuel h'"
  by (simp add: heap_ready_def same_bounds_def)

lemma malloc_ready:
  assumes "heap_ready fuel h"
  shows "\<exists>p h'. rt_malloc fuel n h = Done (p, h') \<and> heap_ready fuel h'"
proof -
  have "heap_inv h (chain_of h)" "12 \<le> mem_size_aligned h" "unat (heap_end h) \<le> fuel"
    using assms by (simp_all add: heap_ready_def heap_wf_def)
  from malloc_ok[OF this, of n] show ?thesis using assms heap_readyI[OF assms] by blast
qed

lemma free_ready:
  assumes "heap_ready fuel h" "p = 0 \<or> live_of h p \<noteq> None"
  shows "\<exists>h'. rt_free p h = Done h' \<and> heap_ready fuel h'"
proof (cases "p = 0")
  case True
  then show ?thesis using assms(1) by (simp add: rt_free_def)
next
  case False
  then obtain n where n: "live_blocks h (chain_of h) p = Some n" using assms(2) by (auto simp: live_of_def)
  have "heap_inv h (chain_of h)" using assms(1) by (simp add: heap_ready_def heap_wf_def)
  from free_ok[OF this n] show ?thesis using heap_readyI[OF assms(1)] by blast
qed

lemma realloc_ready:
  assumes "heap_ready fuel h" "p = 0 \<or> live_of h p \<noteq> None"
  shows "\<exists>q h'. rt_realloc fuel p n h = Done (q, h') \<and> heap_ready fuel h'"
proof -
  consider "RT_ALIGN n 4 > mem_size_aligned h" | "RT_ALIGN n 4 \<le> mem_size_aligned h" "RT_ALIGN n 4 = 0"
    | "RT_ALIGN n 4 \<le> mem_size_aligned h" "RT_ALIGN n 4 \<noteq> 0" "p = 0"
    | k where "RT_ALIGN n 4 \<le> mem_size_aligned h" "RT_ALIGN n 4 \<noteq> 0" "live_of h p = Some k"
    using assms(2) by (cases "RT_ALIGN n 4 \<le> mem_size_aligned h") (auto simp: not_le)
  then show ?thesis
  proof cases
    case 1
    then show ?thesis using assms(1) by (simp add: rt_realloc_def)
  next
    case 2
    then show ?thesis using free_ready[OF assms] by (auto simp: rt_realloc_def)
  next
    case 3
    then have "rt_realloc fuel p n h = rt_malloc fuel (RT_ALIGN n 4) h" by (simp add: rt_realloc_def Let_def not_less[symmetric])
    then show ?thesis using malloc_ready[OF assms(1)] by simp
  next
    case 4
    from realloc_ok[OF assms(1) 4(3,2,1)] show ?thesis using assms(1) ready_bounds[OF assms(1)] by blast
  qed
qed

lemma heap_do_ready:
  assumes "heap_ready fuel h" "legal x h"
  shows "\<exists>h'. heap_do fuel x h = Done h' \<and> heap_ready fuel h'"
proof (cases x)
  case (Malloc n)
  then show ?thesis using malloc_ready[OF assms(1), of n] by auto
next
  case (Calloc count sz)
  then show ?thesis using calloc_spec[OF assms(1), of count sz] assms ready_bounds[OF assms(1)] by auto
next
  case (Realloc p n)
  then show ?thesis using realloc_ready[OF assms(1), of p n] assms(2) by auto
next
  case (Free p)
  then show ?thesis using free_ready[OF assms(1), of p] assms(2) by auto
next
  case (Write p xs)
  then obtain n where n: "live_blocks h (chain_of h) p = Some n" "length xs \<le> n"
    using assms(2) by (auto simp: live_of_def split: option.splits)
  have i: "heap_inv h (chain_of h)" using assms(1) by (simp add: heap_ready_def heap_wf_def)
  have "same_bounds h (put_user p xs h)" using put_user_ok(3)[OF i n] by (simp add: same_area_def same_bounds_def)
  then show ?thesis using Write heap_wfI(1)[OF put_user_ok(1)[OF i n]] ready_bounds[OF assms(1)] by simp
qed

lemma heap_runs_ready:
  "\<lbrakk>heap_ready fuel h; legal_run fuel xs h\<rbrakk> \<Longrightarrow> \<exists>h'. heap_runs fuel xs h = Done h' \<and> heap_ready fuel h'"
proof (induction xs arbitrary: h)
  case (Cons x xs)
  then obtain h1 where "heap_do fuel x h = Done h1" "heap_ready fuel h1" using heap_do_ready[of fuel h x] by auto
  then show ?case using Cons by simp
qed simp

section \<open>Blocks never overlap\<close>


end
