(* ===== verification/RtHeapWitness.thy ===== *)
theory RtHeapWitness
  imports RtHeapRuns
begin

text \<open>The heap theorems at small heaps: one with a live and a free block, an empty one, a tiny one.\<close>

section \<open>Heaps\<close>

definition hdr :: "bool \<Rightarrow> word32 \<Rightarrow> word32 \<Rightarrow> heap_mem" where
  "hdr u n p = \<lparr>hm_magic = HEAP_MAGIC, hm_used = of_bool u, hm_next = n, hm_prev = p, hm_thread = ''main''\<rparr>"

definition raw_heap :: heap where
  "raw_heap = \<lparr>heap_ptr = 0, heap_end = 0, lfree = 0, heap_sem = 0, mem_size_aligned = 0, used_mem = 0,
     max_mem = 0, headers = Map.empty, user_data = (\<lambda>_. 0), rt_malloc_hook = False, rt_free_hook = True,
     hook_calls = [], thread_self = None\<rparr>"

text \<open>4 KB with blocks of 100 and 44 bytes handed out at \<open>0x1010\<close> and \<open>0x1084\<close>, and the same area empty.\<close>

definition used_heap :: heap where
  "used_heap = raw_heap\<lparr>heap_ptr := 0x1000, heap_end := 0x1010, lfree := 176, heap_sem := 1,
     mem_size_aligned := 0x1000, used_mem := 176, max_mem := 176,
     headers := [0 \<mapsto> hdr True 116 0, 116 \<mapsto> hdr True 176 0, 176 \<mapsto> hdr False 0x1010 116, 0x1010 \<mapsto> hdr True 0x1010 0]\<rparr>"

definition empty_heap :: "word32 \<Rightarrow> heap" where
  "empty_heap n = raw_heap\<lparr>heap_ptr := 0x1000, heap_end := n + 16, heap_sem := 1, mem_size_aligned := n,
     headers := [0 \<mapsto> hdr False (n + 16) 0, n + 16 \<mapsto> hdr True (n + 16) (n + 16)]\<rparr>"

lemma used_inv: "heap_inv used_heap [(0, True), (116, True), (176, False)]"
  by (auto simp: heap_inv_def heap_chain_def heap_shape_def used_heap_def raw_heap_def blk_def hdr_def
      no_adj_def stale_ok_def split: if_splits)

lemma empty_inv: "heap_inv (empty_heap 0x1000) [(0, False)]" "heap_inv (empty_heap 8) [(0, False)]"
  by (auto simp: heap_inv_def heap_chain_def heap_shape_def empty_heap_def raw_heap_def blk_def hdr_def
      no_adj_def stale_ok_def split: if_splits)

lemma used_wf: "heap_wf used_heap" and used_live: "live_of used_heap = [0x1010 \<mapsto> 100, 0x1084 \<mapsto> 44]"
  using heap_wfI[OF used_inv] by (simp_all add: live_blocks_def used_heap_def fun_eq_iff)

lemma used_chain: "chain_of used_heap = [(0, True), (116, True), (176, False)]"
  by (rule chain_of_eq[OF heap_inv_chain[OF used_inv]])

lemma empty_wf: "heap_wf (empty_heap 0x1000)" "heap_wf (empty_heap 8)"
  by (rule heap_wfI(1)[OF empty_inv(1)], rule heap_wfI(1)[OF empty_inv(2)])

lemma empty_chain: "chain_of (empty_heap 0x1000) = [(0, False)]"
  by (rule chain_of_eq[OF heap_inv_chain[OF empty_inv(1)]])

lemma heap_fields [simp]:
  "mem_size_aligned used_heap = 0x1000" "heap_end used_heap = 0x1010" "heap_ptr used_heap = 0x1000"
  "mem_size_aligned (empty_heap n) = n" "heap_end (empty_heap n) = n + 16"
  by (simp_all add: used_heap_def empty_heap_def)

lemma used_ready: "heap_ready 5000 used_heap" and empty_ready: "heap_ready 5000 (empty_heap 0x1000)"
  using used_wf empty_wf by (simp_all add: heap_ready_def)

section \<open>The theorems at these heaps\<close>


lemma heap_init_wf_witness: "heap_wf (rt_system_heap_init 0x1002 0x2003 raw_heap)"
  using heap_init_wf[of "0x1002" "0x2003" raw_heap] by (simp add: raw_heap_def)

lemma malloc_spec_witness:
  "rt_malloc 5000 30 used_heap = Done (0, used_heap) \<or> (\<exists>p h' n. rt_malloc 5000 30 used_heap = Done (p, h') \<and>
     p \<noteq> 0 \<and> live_of h' = [0x1010 \<mapsto> 100, 0x1084 \<mapsto> 44, p \<mapsto> n] \<and> 30 \<le> n)"
  using malloc_spec[OF used_wf, of 5000 30] used_live by fastforce

lemma free_spec_witness:
  "(\<exists>h'. rt_free 0x1010 used_heap = Done h' \<and> live_of h' = [0x1084 \<mapsto> 44] \<and> rt_free 0x1010 h' = Fault) \<and> rt_free 0x1012 used_heap = Fault"
proof -
  have l: "live_of used_heap 0x1010 = Some 100" using used_live by simp
  have "(live_of used_heap)(0x1010 := None) = [0x1084 \<mapsto> 44]" using used_live by (simp add: fun_upd_twist)
  then obtain h' where "rt_free 0x1010 used_heap = Done h'" "live_of h' = [0x1084 \<mapsto> 44]" "rt_free 0x1010 h' = Fault"
    using free_spec[OF used_wf] l by metis
  moreover have "rt_free 0x1012 used_heap = Fault" using free_spec[OF used_wf] by simp
  ultimately show ?thesis by blast
qed

lemma nes_mem_creat_all_or_nothing_witness:
  "\<exists>r b m n h'. nes_mem_creat (rt_malloc 5000) rt_free used_heap = Done (r, b, m, n, h') \<and> heap_wf h'"
  using nes_mem_creat_all_or_nothing[OF used_ready] by blast

lemma realloc_spec_witness:
  "rt_realloc 5000 0x1010 40 used_heap = Done (0, used_heap) \<or>
    (\<exists>q h' k. rt_realloc 5000 0x1010 40 used_heap = Done (q, h') \<and> heap_wf h' \<and> (40 :: nat) \<le> k \<and>
       get_user q 40 h' = get_user 0x1010 40 used_heap)"
proof -
  have a: "RT_ALIGN 40 4 = 40" by code_simp
  show ?thesis using realloc_spec[OF used_ready, of "0x1010" 100 40] used_live a by simp blast
qed

lemma calloc_spec_witness:
  "rt_calloc 5000 3 4 used_heap = Done (0, used_heap) \<or> (\<exists>p h' n. rt_calloc 5000 3 4 used_heap = Done (p, h') \<and>
     p \<noteq> 0 \<and> 12 \<le> n \<and> live_of h' p = Some n \<and> get_user p 12 h' = replicate 12 0)"
  using calloc_spec[OF used_ready, of 3 4] by fastforce

lemma memcheck_passes_witness: "memcheck 5000 used_heap = Done 0x1010"
  using memcheck_passes[OF used_wf, of 5000] by simp

lemma malloc_exact_fit_refused_witness: "rt_malloc 5000 0x1000 (empty_heap 0x1000) = Done (0, empty_heap 0x1000)"
proof -
  have a: "RT_ALIGN 0x1000 4 = 0x1000" by code_simp
  show ?thesis using malloc_exact_fit_refused[OF empty_ready empty_chain, of "0x1000"] a by simp
qed

lemma malloc_size_wraps_witness: "rt_malloc 5000 0xFFFFFFFE used_heap = rt_malloc 5000 12 used_heap"
  by (rule malloc_size_wraps) simp_all

lemma malloc_tiny_heap_spins_witness: "rt_malloc 1000000 5 (empty_heap 8) = Spins"
proof -
  have a: "RT_ALIGN 5 4 = 8" by code_simp
  show ?thesis by (rule malloc_tiny_heap_spins[OF empty_wf(2)]) (simp_all add: a)
qed

end
