(* ===== verification/RtTimer.thy ===== *)
theory RtTimer
  imports Prelude "HOL-Library.Signed_Division"
begin

text \<open>
  The kernel's timers (\<open>src/timer.c\<close>, with one level of the skip list as configured) and its clock
  (\<open>src/clock.c\<close>): ticks are 32-bit words that wrap, the active timers are kept in a list ordered by
  their timeout. The state is a record that the kernel's state extends, since a timeout function may
  change anything.
\<close>

section \<open>State\<close>

type_synonym timer_id = nat

record rt_timer =
  tm_periodic :: bool
  tm_soft :: bool
  tm_activated :: bool
  init_tick :: word32
  timeout_tick :: word32

record timers =
  tick :: word32
  timer_obj :: "timer_id \<Rightarrow> rt_timer"
  rt_timer_list :: "timer_id list"
  rt_soft_timer_list :: "timer_id list"

definition RT_TICK_MAX :: word32 where "RT_TICK_MAX = 0xFFFFFFFF"

text \<open>Half the range: what counts as a tick of the past.\<close>

definition tick_half :: word32 where "tick_half = RT_TICK_MAX div 2"

definition timer_upd :: "timer_id \<Rightarrow> (rt_timer \<Rightarrow> rt_timer) \<Rightarrow> 'a timers_scheme \<Rightarrow> 'a timers_scheme" where
  "timer_upd t f s = s\<lparr>timer_obj := (timer_obj s)(t := f (timer_obj s t))\<rparr>"

section \<open>Clock\<close>

definition rt_tick_get :: "'a timers_scheme \<Rightarrow> word32" where
  "rt_tick_get s = tick s"

definition rt_tick_set :: "word32 \<Rightarrow> 'a timers_scheme \<Rightarrow> 'a timers_scheme" where
  "rt_tick_set n s = s\<lparr>tick := n\<rparr>"

text \<open>
  \<open>RT_TICK_PER_SECOND * ms + 999\<close> is computed in 32 bits and divided as a signed number, rounding
  towards zero. (In C a result out of range is undefined; compilers wrap.)
\<close>

definition RT_TICK_PER_SECOND :: word32 where "RT_TICK_PER_SECOND = 100"
definition RT_WAITING_FOREVER :: word32 where "RT_WAITING_FOREVER = - 1"

definition rt_tick_from_millisecond :: "word32 \<Rightarrow> word32" where
  "rt_tick_from_millisecond ms =
     (if sint ms < 0 then RT_WAITING_FOREVER else word_of_int (sint (RT_TICK_PER_SECOND * ms + 999) sdiv 1000))"

section \<open>Starting and stopping\<close>

text \<open>The fields of a fresh timer; the lists are not touched.\<close>

definition rt_timer_init :: "timer_id \<Rightarrow> word32 \<Rightarrow> bool \<Rightarrow> bool \<Rightarrow> 'a timers_scheme \<Rightarrow> 'a timers_scheme" where
  "rt_timer_init t time periodic soft s = timer_upd t (\<lambda>_. \<lparr>tm_periodic = periodic, tm_soft = soft,
     tm_activated = False, init_tick = time, timeout_tick = 0\<rparr>) s"

definition timer_remove :: "timer_id \<Rightarrow> 'a timers_scheme \<Rightarrow> 'a timers_scheme" where
  "timer_remove t s = s\<lparr>rt_timer_list := removeAll t (rt_timer_list s),
     rt_soft_timer_list := removeAll t (rt_soft_timer_list s)\<rparr>"

definition rt_timer_detach :: "timer_id \<Rightarrow> 'a timers_scheme \<Rightarrow> 'a timers_scheme" where
  "rt_timer_detach t s = timer_remove t s"

text \<open>The result is false when the timer was not active.\<close>

definition rt_timer_stop :: "timer_id \<Rightarrow> 'a timers_scheme \<Rightarrow> bool \<times> 'a timers_scheme" where
  "rt_timer_stop t s = (if \<not> tm_activated (timer_obj s t) then (False, s)
     else (True, timer_upd t (\<lambda>x. x\<lparr>tm_activated := False\<rparr>) (timer_remove t s)))"

datatype timer_cmd = SET_TIME word32 | GET_TIME | SET_ONESHOT | SET_PERIODIC

text \<open>\<open>GET_TIME\<close> is the only command with a result.\<close>

fun rt_timer_control :: "timer_id \<Rightarrow> timer_cmd \<Rightarrow> 'a timers_scheme \<Rightarrow> word32 option \<times> 'a timers_scheme" where
  "rt_timer_control t GET_TIME s = (Some (init_tick (timer_obj s t)), s)"
| "rt_timer_control t (SET_TIME n) s = (None, timer_upd t (\<lambda>x. x\<lparr>init_tick := n\<rparr>) s)"
| "rt_timer_control t SET_ONESHOT s = (None, timer_upd t (\<lambda>x. x\<lparr>tm_periodic := False\<rparr>) s)"
| "rt_timer_control t SET_PERIODIC s = (None, timer_upd t (\<lambda>x. x\<lparr>tm_periodic := True\<rparr>) s)"

text \<open>
  The place of a new timer: behind the timers that time out at the same tick, before the first one
  that times out later, where later means by less than half the range.
\<close>

definition timer_later :: "word32 \<Rightarrow> word32 \<Rightarrow> bool" where
  "timer_later u v \<longleftrightarrow> u - v \<noteq> 0 \<and> u - v < tick_half"

fun timer_insert :: "(timer_id \<Rightarrow> word32) \<Rightarrow> timer_id \<Rightarrow> timer_id list \<Rightarrow> timer_id list" where
  "timer_insert to t [] = [t]"
| "timer_insert to t (u # us) = (if timer_later (to u) (to t) then t # u # us else u # timer_insert to t us)"

text \<open>\<open>None\<close> is the failed assertion on the initial ticks.\<close>

definition timer_start :: "timer_id \<Rightarrow> 'a timers_scheme \<Rightarrow> 'a timers_scheme option" where
  "timer_start t s = (let s = timer_upd t (\<lambda>x. x\<lparr>tm_activated := False\<rparr>) (timer_remove t s) in
     if \<not> init_tick (timer_obj s t) < tick_half then None else let
       s = timer_upd t (\<lambda>x. x\<lparr>timeout_tick := rt_tick_get s + init_tick x\<rparr>) s;
       ins = timer_insert (\<lambda>u. timeout_tick (timer_obj s u)) t;
       s = (if tm_soft (timer_obj s t) then s\<lparr>rt_soft_timer_list := ins (rt_soft_timer_list s)\<rparr>
            else s\<lparr>rt_timer_list := ins (rt_timer_list s)\<rparr>) in
     Some (timer_upd t (\<lambda>x. x\<lparr>tm_activated := True\<rparr>) s))"

section \<open>Firing\<close>

definition timer_due :: "word32 \<Rightarrow> timer_id \<Rightarrow> 'a timers_scheme \<Rightarrow> bool" where
  "timer_due now t s \<longleftrightarrow> now - timeout_tick (timer_obj s t) < tick_half"

text \<open>After the timeout function of \<open>t\<close>: a periodic timer that is still active is started again.\<close>

definition timer_again :: "timer_id \<Rightarrow> 'a timers_scheme \<Rightarrow> 'a timers_scheme option" where
  "timer_again t s = (if tm_periodic (timer_obj s t) \<and> tm_activated (timer_obj s t)
     then timer_start t (timer_upd t (\<lambda>x. x\<lparr>tm_activated := False\<rparr>) s)
     else Some (timer_upd t (\<lambda>x. x\<lparr>tm_activated := False\<rparr>) s))"

text \<open>One round of the loop over the list of hard timers; \<open>fire\<close> is the call of the timeout function.\<close>

definition timer_round :: "(timer_id \<Rightarrow> 'a timers_scheme \<Rightarrow> 'a timers_scheme option) \<Rightarrow>
    word32 \<times> 'a timers_scheme \<Rightarrow> (word32 \<times> 'a timers_scheme) option" where
  "timer_round fire = (\<lambda>(now, s). let t = hd (rt_timer_list s) in do {
     s \<leftarrow> fire t (timer_remove t s);
     s' \<leftarrow> timer_again t s;
     Some (rt_tick_get s, s') })"

definition timer_more :: "word32 \<times> 'a timers_scheme \<Rightarrow> bool" where
  "timer_more = (\<lambda>(now, s). rt_timer_list s \<noteq> [] \<and> timer_due now (hd (rt_timer_list s)) s)"

definition rt_timer_check :: "nat \<Rightarrow> (timer_id \<Rightarrow> 'a timers_scheme \<Rightarrow> 'a timers_scheme option) \<Rightarrow>
    'a timers_scheme \<Rightarrow> 'a timers_scheme outcome" where
  "rt_timer_check fuel fire s = obind (of_loop (run_loop fuel timer_more (timer_round fire)
     (rt_tick_get s, s))) (\<lambda>(now, s). Done s)"

text \<open>
  The list of software timers is walked with a pointer that is moved on before the timeout function
  is called (with the scheduler unlocked for the call, which is left out here). A timer that is in no
  list is its own successor.
\<close>

definition soft_next :: "timer_id \<Rightarrow> timer_id list \<Rightarrow> timer_id option" where
  "soft_next t us = (case dropWhile (\<lambda>u. u \<noteq> t) us of [] \<Rightarrow> Some t | [_] \<Rightarrow> None | _ # u # _ \<Rightarrow> Some u)"

definition soft_more :: "word32 \<times> timer_id option \<times> 'a timers_scheme \<Rightarrow> bool" where
  "soft_more = (\<lambda>(now, n, s). case n of None \<Rightarrow> False | Some t \<Rightarrow> timer_due now t s)"

definition soft_round :: "(timer_id \<Rightarrow> 'a timers_scheme \<Rightarrow> 'a timers_scheme option) \<Rightarrow>
    word32 \<times> timer_id option \<times> 'a timers_scheme \<Rightarrow> (word32 \<times> timer_id option \<times> 'a timers_scheme) option" where
  "soft_round fire = (\<lambda>(now, n, s). case n of None \<Rightarrow> None | Some t \<Rightarrow> do {
     n \<leftarrow> Some (soft_next t (rt_soft_timer_list s));
     s \<leftarrow> fire t (timer_remove t s);
     s' \<leftarrow> timer_again t s;
     Some (rt_tick_get s, n, s') })"

definition rt_soft_timer_check :: "nat \<Rightarrow> (timer_id \<Rightarrow> 'a timers_scheme \<Rightarrow> 'a timers_scheme option) \<Rightarrow>
    'a timers_scheme \<Rightarrow> 'a timers_scheme outcome" where
  "rt_soft_timer_check fuel fire s = obind (of_loop (run_loop fuel soft_more (soft_round fire)
     (rt_tick_get s, (case rt_soft_timer_list s of [] \<Rightarrow> None | t # _ \<Rightarrow> Some t), s))) (\<lambda>(now, n, s). Done s)"

definition rt_timer_list_next_timeout :: "timer_id list \<Rightarrow> 'a timers_scheme \<Rightarrow> word32" where
  "rt_timer_list_next_timeout ts s = (case ts of [] \<Rightarrow> RT_TICK_MAX | t # _ \<Rightarrow> timeout_tick (timer_obj s t))"

definition rt_timer_next_timeout_tick :: "'a timers_scheme \<Rightarrow> word32" where
  "rt_timer_next_timeout_tick s = rt_timer_list_next_timeout (rt_timer_list s) s"

end
