(* ===== verification/RtKernel.thy ===== *)
theory RtKernel
  imports RtTimer
begin

text \<open>
  Threads, lists of threads and the scheduler on two processors (\<open>src/scheduler.c\<close>, \<open>src/thread.c\<close>,
  \<open>src/cpu.c\<close>, \<open>__rt_ffs\<close> of \<open>src/kservice.c\<close>). The intrusive lists are lists of thread ids, one for
  every list head; the state extends the timers' state. The kernel functions run with interrupts
  disabled and all processors locked, so each is one step; a switch to another thread is the change
  of \<open>current_thread\<close>. Signals are left out.
\<close>

section \<open>State\<close>

type_synonym tid = nat

text \<open>Error codes, without the minus sign the code returns them with.\<close>

datatype rt_err = RT_EOK | RT_ERROR | RT_ETIMEOUT | RT_EFULL | RT_EEMPTY | RT_EINTR

datatype thread_stat = RT_THREAD_INIT | RT_THREAD_READY | RT_THREAD_SUSPEND | RT_THREAD_RUNNING | RT_THREAD_CLOSE

text \<open>List heads: the ready tables, the waiting lists of objects (by address), the dead threads.\<close>

datatype rt_list = PriorityTable nat | CpuTable nat nat | SuspendList nat | Defunct

record rt_thread =
  th_error :: rt_err
  stat :: thread_stat
  bind_cpu :: byte
  oncpu :: byte
  scheduler_lock_nest :: word16
  cpus_lock_nest :: word16
  current_priority :: byte
  init_priority :: byte
  number_mask :: word32
  event_set :: word32
  event_info :: byte
  slice :: word32
  remaining_tick :: word32

record rt_cpu =
  current_thread :: "tid option"
  irq_nest :: word16
  irq_switch_flag :: bool
  cpu_priority :: byte
  priority_group :: word32
  cpu_tick :: word32

record kernel = timers +
  tcb :: "tid \<Rightarrow> rt_thread"
  rt_lists :: "rt_list \<Rightarrow> tid list"
  rt_thread_ready_priority_group :: word32
  rt_cpus :: "nat \<Rightarrow> rt_cpu"
  cpu_id :: nat
  ipis :: "word32 list"

definition RT_CPUS_NR :: byte where "RT_CPUS_NR = 2"
definition RT_CPU_DETACHED :: byte where "RT_CPU_DETACHED = RT_CPUS_NR"
definition RT_CPU_MASK :: word32 where "RT_CPU_MASK = 3"
definition RT_THREAD_PRIORITY_MAX :: nat where "RT_THREAD_PRIORITY_MAX = 32"

definition th_upd :: "tid \<Rightarrow> (rt_thread \<Rightarrow> rt_thread) \<Rightarrow> kernel \<Rightarrow> kernel" where
  "th_upd t f k = k\<lparr>tcb := (tcb k)(t := f (tcb k t))\<rparr>"

definition cpu_upd :: "nat \<Rightarrow> (rt_cpu \<Rightarrow> rt_cpu) \<Rightarrow> kernel \<Rightarrow> kernel" where
  "cpu_upd c f k = k\<lparr>rt_cpus := (rt_cpus k)(c := f (rt_cpus k c))\<rparr>"

definition rt_cpu_self :: "kernel \<Rightarrow> rt_cpu" where
  "rt_cpu_self k = rt_cpus k (cpu_id k)"

definition rt_thread_self :: "kernel \<Rightarrow> tid option" where
  "rt_thread_self k = current_thread (rt_cpu_self k)"

text \<open>Removing a thread from the list it is in; inserting it at the end or at the front of a list.\<close>

definition rt_list_remove :: "tid \<Rightarrow> kernel \<Rightarrow> kernel" where
  "rt_list_remove t k = k\<lparr>rt_lists := (\<lambda>l. removeAll t (rt_lists k l))\<rparr>"

definition rt_list_insert_before :: "rt_list \<Rightarrow> tid \<Rightarrow> kernel \<Rightarrow> kernel" where
  "rt_list_insert_before l t k = k\<lparr>rt_lists := (rt_lists k)(l := rt_lists k l @ [t])\<rparr>"

definition rt_list_insert_after :: "rt_list \<Rightarrow> tid \<Rightarrow> kernel \<Rightarrow> kernel" where
  "rt_list_insert_after l t k = k\<lparr>rt_lists := (rt_lists k)(l := t # rt_lists k l)\<rparr>"

section \<open>The lowest bit set\<close>

definition lowest_bit_bitmap :: "nat list" where
  "lowest_bit_bitmap = concat (map (\<lambda>x. [x, 0, 1, 0, 2, 0, 1, 0, 3, 0, 1, 0, 2, 0, 1, 0])
     [0, 4, 5, 4, 6, 4, 5, 4, 7, 4, 5, 4, 6, 4, 5, 4])"

definition rt_ffs :: "word32 \<Rightarrow> word32" where
  "rt_ffs v = (if v = 0 then 0
     else if v AND 0xff \<noteq> 0 then of_nat (lowest_bit_bitmap ! unat (v AND 0xff)) + 1
     else if v AND 0xff00 \<noteq> 0 then of_nat (lowest_bit_bitmap ! unat (drop_bit 8 (v AND 0xff00))) + 9
     else if v AND 0xff0000 \<noteq> 0 then of_nat (lowest_bit_bitmap ! unat (drop_bit 16 (v AND 0xff0000))) + 17
     else of_nat (lowest_bit_bitmap ! unat (drop_bit 24 (v AND 0xff000000))) + 25)"

section \<open>Locks\<close>

definition rt_cpus_lock :: "kernel \<Rightarrow> kernel" where
  "rt_cpus_lock k = (case rt_thread_self k of None \<Rightarrow> k | Some t \<Rightarrow>
     th_upd t (\<lambda>x. x\<lparr>cpus_lock_nest := cpus_lock_nest x + 1,
       scheduler_lock_nest := (if cpus_lock_nest x = 0 then scheduler_lock_nest x + 1 else scheduler_lock_nest x)\<rparr>) k)"

definition rt_cpus_unlock :: "kernel \<Rightarrow> kernel" where
  "rt_cpus_unlock k = (case rt_thread_self k of None \<Rightarrow> k | Some t \<Rightarrow>
     th_upd t (\<lambda>x. x\<lparr>cpus_lock_nest := cpus_lock_nest x - 1,
       scheduler_lock_nest := (if cpus_lock_nest x - 1 = 0 then scheduler_lock_nest x - 1 else scheduler_lock_nest x)\<rparr>) k)"

section \<open>The ready queue\<close>

definition rt_hw_ipi_send :: "word32 \<Rightarrow> kernel \<Rightarrow> kernel" where
  "rt_hw_ipi_send cpus k = k\<lparr>ipis := ipis k @ [cpus]\<rparr>"

definition rt_schedule_insert_thread :: "tid \<Rightarrow> kernel \<Rightarrow> kernel" where
  "rt_schedule_insert_thread t k = (let k = th_upd t (\<lambda>x. x\<lparr>stat := RT_THREAD_READY\<rparr>) k; x = tcb k t in
     if oncpu x \<noteq> RT_CPU_DETACHED then k
     else if bind_cpu x = RT_CPUS_NR then
       rt_hw_ipi_send (RT_CPU_MASK XOR push_bit (cpu_id k) 1)
        (rt_list_insert_before (PriorityTable (unat (current_priority x))) t
          (k\<lparr>rt_thread_ready_priority_group := rt_thread_ready_priority_group k OR number_mask x\<rparr>))
     else let c = unat (bind_cpu x);
              k = rt_list_insert_before (CpuTable c (unat (current_priority x))) t
                    (cpu_upd c (\<lambda>p. p\<lparr>priority_group := priority_group p OR number_mask x\<rparr>) k) in
       if cpu_id k \<noteq> c then rt_hw_ipi_send (push_bit c 1) k else k)"

definition rt_schedule_remove_thread :: "tid \<Rightarrow> kernel \<Rightarrow> kernel" where
  "rt_schedule_remove_thread t k = (let k = rt_list_remove t k; x = tcb k t in
     if bind_cpu x = RT_CPUS_NR then
       (if rt_lists k (PriorityTable (unat (current_priority x))) = []
        then k\<lparr>rt_thread_ready_priority_group := rt_thread_ready_priority_group k AND NOT (number_mask x)\<rparr> else k)
     else let c = unat (bind_cpu x) in
       (if rt_lists k (CpuTable c (unat (current_priority x))) = []
        then cpu_upd c (\<lambda>p. p\<lparr>priority_group := priority_group p AND NOT (number_mask x)\<rparr>) k else k))"

text \<open>
  The first thread of the highest priority, and that priority: a smaller number is a higher priority,
  and \<open>- 1\<close>, read as an unsigned number, stands for none. Without a ready thread the code reads
  outside the table.
\<close>

definition first_of :: "(nat \<Rightarrow> rt_list) \<Rightarrow> word32 \<Rightarrow> kernel \<Rightarrow> tid option" where
  "first_of tab p k = (if unat p < RT_THREAD_PRIORITY_MAX
     then (case rt_lists k (tab (unat p)) of [] \<Rightarrow> None | t # _ \<Rightarrow> Some t) else None)"

definition get_highest_priority_thread :: "kernel \<Rightarrow> (word32 \<times> tid) option" where
  "get_highest_priority_thread k = (let
     hp = rt_ffs (rt_thread_ready_priority_group k) - 1;
     lp = rt_ffs (priority_group (rt_cpu_self k)) - 1 in
     if hp < lp then map_option (Pair hp) (first_of PriorityTable hp k)
     else map_option (Pair lp) (first_of (CpuTable (cpu_id k)) lp k))"

section \<open>Scheduling\<close>

text \<open>
  \<open>rt_hw_context_switch\<close>: the processor goes on where the other thread left off, which is behind the
  same call, about to give up the lock, unless it never ran or was switched in an interrupt.
\<close>

definition switch_to :: "tid \<Rightarrow> kernel \<Rightarrow> kernel" where
  "switch_to t k = (let k = cpu_upd (cpu_id k) (\<lambda>p. p\<lparr>current_thread := Some t\<rparr>) k in
     if cpus_lock_nest (tcb k t) = 0 then k else rt_cpus_unlock k)"

text \<open>
  What \<open>rt_schedule\<close> and \<open>rt_scheduler_do_irq_switch\<close> share: choosing the next thread for the current
  thread \<open>cur\<close>, which is put back into the ready queue when it is ready and loses.
\<close>

definition next_thread :: "tid \<Rightarrow> kernel \<Rightarrow> (word32 \<times> tid \<times> kernel) option" where
  "next_thread cur k = do {
     (p, to) \<leftarrow> get_highest_priority_thread k;
     let k = th_upd cur (\<lambda>x. x\<lparr>oncpu := RT_CPU_DETACHED\<rparr>) k;
         (to, k) = (if stat (tcb k cur) = RT_THREAD_READY
           then (if unat (current_priority (tcb k cur)) < unat p then (cur, k) else (to, rt_schedule_insert_thread cur k))
           else (to, k)) in
     Some (p, to, th_upd to (\<lambda>x. x\<lparr>oncpu := of_nat (cpu_id k)\<rparr>) k) }"

definition any_ready :: "kernel \<Rightarrow> bool" where
  "any_ready k \<longleftrightarrow> rt_thread_ready_priority_group k \<noteq> 0 \<or> priority_group (rt_cpu_self k) \<noteq> 0"

text \<open>\<open>None\<close> when there is no current thread or the ready tables are not as their bitmaps say.\<close>

definition rt_schedule :: "kernel \<Rightarrow> kernel option" where
  "rt_schedule k = do {
     k \<leftarrow> Some (rt_cpus_lock k);
     cur \<leftarrow> rt_thread_self k;
     (if irq_nest (rt_cpu_self k) \<noteq> 0
      then Some (rt_cpus_unlock (cpu_upd (cpu_id k) (\<lambda>p. p\<lparr>irq_switch_flag := True\<rparr>) k))
      else if scheduler_lock_nest (tcb k cur) = 1 \<and> any_ready k then do {
        (p, to, k) \<leftarrow> next_thread cur k;
        (if to \<noteq> cur then Some (switch_to to (rt_schedule_remove_thread to
             (cpu_upd (cpu_id k) (\<lambda>c. c\<lparr>cpu_priority := ucast p\<rparr>) k)))
         else Some (rt_cpus_unlock k)) }
      else Some (rt_cpus_unlock k)) }"

text \<open>The switch at the end of an interrupt: the thread that is left keeps no lock.\<close>

definition rt_scheduler_do_irq_switch :: "kernel \<Rightarrow> kernel option" where
  "rt_scheduler_do_irq_switch k = do {
     k \<leftarrow> Some (rt_cpus_lock k);
     cur \<leftarrow> rt_thread_self k;
     (if \<not> irq_switch_flag (rt_cpu_self k) then Some (rt_cpus_unlock k)
      else if scheduler_lock_nest (tcb k cur) = 1 \<and> irq_nest (rt_cpu_self k) = 0 then do {
        k \<leftarrow> Some (cpu_upd (cpu_id k) (\<lambda>p. p\<lparr>irq_switch_flag := False\<rparr>) k);
        (if any_ready k then do {
           (p, to, k) \<leftarrow> next_thread cur k;
           (if to \<noteq> cur then do {
              k \<leftarrow> Some (rt_schedule_remove_thread to (cpu_upd (cpu_id k) (\<lambda>c. c\<lparr>cpu_priority := ucast p\<rparr>) k));
              k \<leftarrow> Some (th_upd cur (\<lambda>x. x\<lparr>cpus_lock_nest := cpus_lock_nest x - 1,
                             scheduler_lock_nest := scheduler_lock_nest x - 1\<rparr>) k);
              Some (switch_to to k) }
            else Some (rt_cpus_unlock k)) }
         else Some (rt_cpus_unlock k)) }
      else Some (rt_cpus_unlock k)) }"

text \<open>Locking the scheduler (the spin lock between the processors is left out).\<close>

definition rt_enter_critical :: "kernel \<Rightarrow> kernel option" where
  "rt_enter_critical k = do {
     cur \<leftarrow> rt_thread_self k;
     Some (th_upd cur (\<lambda>x. x\<lparr>scheduler_lock_nest := scheduler_lock_nest x + 1\<rparr>) k) }"

definition rt_exit_critical :: "kernel \<Rightarrow> kernel option" where
  "rt_exit_critical k = do {
     cur \<leftarrow> rt_thread_self k;
     k \<leftarrow> Some (th_upd cur (\<lambda>x. x\<lparr>scheduler_lock_nest := scheduler_lock_nest x - 1\<rparr>) k);
     (if scheduler_lock_nest (tcb k cur) = 0 then rt_schedule k else Some k) }"

definition rt_critical_level :: "kernel \<Rightarrow> word16 option" where
  "rt_critical_level k = map_option (\<lambda>t. scheduler_lock_nest (tcb k t)) (rt_thread_self k)"

text \<open>The tables and bitmaps of an idle system.\<close>

definition rt_system_scheduler_init :: "kernel \<Rightarrow> kernel" where
  "rt_system_scheduler_init k = k\<lparr>
     rt_lists := (\<lambda>l. case l of PriorityTable p \<Rightarrow> if p < RT_THREAD_PRIORITY_MAX then [] else rt_lists k l
        | CpuTable c p \<Rightarrow> if c < unat RT_CPUS_NR \<and> p < RT_THREAD_PRIORITY_MAX then [] else rt_lists k l
        | Defunct \<Rightarrow> [] | _ \<Rightarrow> rt_lists k l),
     rt_cpus := (\<lambda>c. if c < unat RT_CPUS_NR then (rt_cpus k c)\<lparr>irq_switch_flag := False,
        cpu_priority := of_nat (RT_THREAD_PRIORITY_MAX - 1), current_thread := None, priority_group := 0\<rparr> else rt_cpus k c),
     rt_thread_ready_priority_group := 0\<rparr>"

definition rt_system_scheduler_start :: "kernel \<Rightarrow> kernel option" where
  "rt_system_scheduler_start k = do {
     (p, to) \<leftarrow> get_highest_priority_thread k;
     Some (switch_to to (rt_schedule_remove_thread to (th_upd to (\<lambda>x. x\<lparr>oncpu := of_nat (cpu_id k)\<rparr>) k))) }"

end
