(* ===== verification/RtThread.thy ===== *)
theory RtThread
  imports RtKernel
begin

text \<open>
  Operations on threads (\<open>src/thread.c\<close>), the clock interrupt and the timer thread. A thread's built-in
  timer has the id of the thread. A function that gives up the processor ends where it calls
  \<open>rt_schedule\<close>; what it does when the thread runs again is a definition of its own. \<open>None\<close> is a failed
  assertion.
\<close>

section \<open>Suspending and resuming\<close>

definition rt_thread_suspend :: "tid \<Rightarrow> kernel \<Rightarrow> (rt_err \<times> kernel) option" where
  "rt_thread_suspend t k = (if stat (tcb k t) \<noteq> RT_THREAD_READY then Some (RT_ERROR, k)
     else if rt_thread_self k \<noteq> Some t then None
     else Some (RT_EOK, snd (rt_timer_stop t (rt_schedule_remove_thread t (th_upd t (\<lambda>x. x\<lparr>stat := RT_THREAD_SUSPEND\<rparr>) k)))))"

definition rt_thread_resume :: "tid \<Rightarrow> kernel \<Rightarrow> rt_err \<times> kernel" where
  "rt_thread_resume t k = (if stat (tcb k t) \<noteq> RT_THREAD_SUSPEND then (RT_ERROR, k)
     else (RT_EOK, rt_schedule_insert_thread t (snd (rt_timer_stop t (rt_list_remove t k)))))"

text \<open>The timeout function of the built-in timer, up to its call of \<open>rt_schedule\<close>, and all of it.\<close>

definition thread_timeout_begin :: "tid \<Rightarrow> kernel \<Rightarrow> kernel option" where
  "thread_timeout_begin t k = (if stat (tcb k t) \<noteq> RT_THREAD_SUSPEND then None
     else Some (rt_schedule_insert_thread t (rt_list_remove t (th_upd t (\<lambda>x. x\<lparr>th_error := RT_ETIMEOUT\<rparr>) k))))"

definition rt_thread_timeout :: "tid \<Rightarrow> kernel \<Rightarrow> kernel option" where
  "rt_thread_timeout t k = do { k \<leftarrow> thread_timeout_begin t k; rt_schedule k }"

section \<open>Life of a thread\<close>

definition rt_thread_init :: "tid \<Rightarrow> byte \<Rightarrow> word32 \<Rightarrow> kernel \<Rightarrow> kernel option" where
  "rt_thread_init t priority tck k = (if unat priority < RT_THREAD_PRIORITY_MAX then
     Some (rt_timer_init t 0 False False (th_upd t (\<lambda>x. x\<lparr>init_priority := priority, current_priority := priority,
       number_mask := 0, slice := tck, remaining_tick := tck, th_error := RT_EOK, stat := RT_THREAD_INIT,
       bind_cpu := RT_CPUS_NR, oncpu := RT_CPU_DETACHED, scheduler_lock_nest := 0, cpus_lock_nest := 0\<rparr>) k))
     else None)"

definition set_priority :: "byte \<Rightarrow> rt_thread \<Rightarrow> rt_thread" where
  "set_priority p x = x\<lparr>current_priority := p, number_mask := push_bit (unat p) 1\<rparr>"

definition rt_thread_startup :: "tid \<Rightarrow> kernel \<Rightarrow> kernel option" where
  "rt_thread_startup t k = (if stat (tcb k t) \<noteq> RT_THREAD_INIT then None else
     let k = th_upd t (\<lambda>x. (set_priority (init_priority x) x)\<lparr>stat := RT_THREAD_SUSPEND\<rparr>) k;
         k = snd (rt_thread_resume t k) in
     if rt_thread_self k \<noteq> None then rt_schedule k else Some k)"

text \<open>What detaching, deleting and leaving a thread share.\<close>

definition thread_close :: "tid \<Rightarrow> kernel \<Rightarrow> kernel" where
  "thread_close t k = th_upd t (\<lambda>x. x\<lparr>stat := RT_THREAD_CLOSE\<rparr>) (rt_timer_detach t
     (if stat (tcb k t) \<noteq> RT_THREAD_INIT then rt_schedule_remove_thread t k else k))"

definition rt_thread_detach :: "tid \<Rightarrow> bool \<Rightarrow> kernel \<Rightarrow> kernel" where
  "rt_thread_detach t has_cleanup k = (let k = thread_close t k in
     if has_cleanup then rt_list_insert_after Defunct t k else k)"

definition rt_thread_delete :: "tid \<Rightarrow> kernel \<Rightarrow> kernel" where
  "rt_thread_delete t k = rt_list_insert_after Defunct t (thread_close t k)"

text \<open>The call of \<open>rt_schedule\<close> at the end does not come back. \<open>is_static\<close>: a system object without a cleanup.\<close>

definition rt_thread_exit :: "bool \<Rightarrow> kernel \<Rightarrow> kernel option" where
  "rt_thread_exit is_static k = do {
     t \<leftarrow> rt_thread_self k;
     k \<leftarrow> Some (rt_timer_detach t (th_upd t (\<lambda>x. x\<lparr>stat := RT_THREAD_CLOSE\<rparr>) (rt_schedule_remove_thread t k)));
     rt_schedule (if is_static then k else rt_list_insert_after Defunct t k) }"

definition rt_thread_yield :: "kernel \<Rightarrow> kernel option" where
  "rt_thread_yield k = rt_schedule k"

text \<open>
  Changing the priority of a ready thread moves it to the end of its new queue. The code does not
  check the priority: from 32 on the shift is undefined and the table is left.
\<close>

definition change_priority :: "tid \<Rightarrow> byte \<Rightarrow> kernel \<Rightarrow> kernel option" where
  "change_priority t p k = (if unat p \<ge> RT_THREAD_PRIORITY_MAX then None
     else if stat (tcb k t) = RT_THREAD_READY
     then Some (rt_schedule_insert_thread t (th_upd t (set_priority p) (rt_schedule_remove_thread t k)))
     else Some (th_upd t (set_priority p) k))"

datatype thread_cmd = CHANGE_PRIORITY byte | STARTUP | CLOSE | BIND_CPU byte | OTHER_CMD

definition rt_thread_control :: "tid \<Rightarrow> thread_cmd \<Rightarrow> kernel \<Rightarrow> (rt_err \<times> kernel) option" where
  "rt_thread_control t cmd k = (case cmd of
       CHANGE_PRIORITY p \<Rightarrow> map_option (Pair RT_EOK) (change_priority t p k)
     | STARTUP \<Rightarrow> map_option (Pair RT_EOK) (rt_thread_startup t k)
     | CLOSE \<Rightarrow> Some (RT_EOK, rt_thread_delete t k)
     | BIND_CPU c \<Rightarrow> if stat (tcb k t) \<noteq> RT_THREAD_INIT then Some (RT_ERROR, k)
         else Some (RT_EOK, th_upd t (\<lambda>x. x\<lparr>bind_cpu := (if c > RT_CPUS_NR then RT_CPUS_NR else c)\<rparr>) k)
     | OTHER_CMD \<Rightarrow> Some (RT_EOK, k))"

section \<open>Sleeping and waiting for a time\<close>

text \<open>Suspending the thread \<open>t\<close> itself for \<open>n\<close> ticks.\<close>

definition start_thread_timer :: "tid \<Rightarrow> word32 \<Rightarrow> kernel \<Rightarrow> kernel option" where
  "start_thread_timer t n k = timer_start t (snd (rt_timer_control t (SET_TIME n) k))"

definition rt_thread_sleep :: "word32 \<Rightarrow> kernel \<Rightarrow> kernel option" where
  "rt_thread_sleep n k = do {
     t \<leftarrow> rt_thread_self k;
     (e, k) \<leftarrow> rt_thread_suspend t k;
     k \<leftarrow> start_thread_timer t n k;
     rt_schedule k }"

definition rt_thread_sleep_end :: "tid \<Rightarrow> kernel \<Rightarrow> kernel" where
  "rt_thread_sleep_end t k = (if th_error (tcb k t) = RT_ETIMEOUT then th_upd t (\<lambda>x. x\<lparr>th_error := RT_EOK\<rparr>) k else k)"

definition rt_thread_delay :: "word32 \<Rightarrow> kernel \<Rightarrow> kernel option" where
  "rt_thread_delay n k = rt_thread_sleep n k"

definition rt_thread_mdelay :: "word32 \<Rightarrow> kernel \<Rightarrow> kernel option" where
  "rt_thread_mdelay ms k = rt_thread_sleep (rt_tick_from_millisecond ms) k"

section \<open>Software timers and the clock interrupt\<close>

text \<open>Starting a software timer wakes the timer thread.\<close>

definition rt_timer_start :: "tid \<Rightarrow> timer_id \<Rightarrow> kernel \<Rightarrow> kernel option" where
  "rt_timer_start timer_thread t k = do {
     k \<leftarrow> timer_start t k;
     (if tm_soft (timer_obj k t) \<and> stat (tcb k timer_thread) \<noteq> RT_THREAD_READY
      then rt_schedule (snd (rt_thread_resume timer_thread k)) else Some k) }"

text \<open>What the timer thread does before each check of the software timers.\<close>

definition rt_thread_timer_entry_wait :: "kernel \<Rightarrow> kernel option" where
  "rt_thread_timer_entry_wait k = (let next = rt_timer_list_next_timeout (rt_soft_timer_list k) k in
     if next = RT_TICK_MAX then do {
       t \<leftarrow> rt_thread_self k; (e, k) \<leftarrow> rt_thread_suspend t k; rt_schedule k }
     else if next - rt_tick_get k < tick_half then rt_thread_delay (next - rt_tick_get k) k else Some k)"

text \<open>
  The clock interrupt: the processor's own tick (the system time is the tick of processor 0), the time
  slice of the current thread, the hard timers.
\<close>

definition rt_tick_increase :: "nat \<Rightarrow> (timer_id \<Rightarrow> kernel \<Rightarrow> kernel option) \<Rightarrow> kernel \<Rightarrow> kernel outcome" where
  "rt_tick_increase fuel fire k = (let
     k = (if cpu_id k = 0 then k\<lparr>tick := tick k + 1\<rparr> else cpu_upd (cpu_id k) (\<lambda>p. p\<lparr>cpu_tick := cpu_tick p + 1\<rparr>) k) in
     obind (of_opt (do {
       t \<leftarrow> rt_thread_self k;
       k \<leftarrow> Some (th_upd t (\<lambda>x. x\<lparr>remaining_tick := remaining_tick x - 1\<rparr>) k);
       (if remaining_tick (tcb k t) = 0
        then rt_thread_yield (th_upd t (\<lambda>x. x\<lparr>remaining_tick := slice x\<rparr>) k) else Some k) }))
     (\<lambda>k. rt_timer_check fuel fire k))"

end
