(* ===== verification/RtTimerSpec.thy ===== *)
theory RtTimerSpec
  imports RtTimer
begin

text \<open>
  What the timers promise: within a window of less than half the range of ticks the list is sorted by
  timeout and stable, and a check of the list calls the timeout functions of exactly the timers that
  are due, in order, restarting the periodic ones.
\<close>

section \<open>Ticks in a window\<close>

text \<open>The distance of a timer's timeout from the start \<open>b\<close> of the window.\<close>

definition toff :: "word32 \<Rightarrow> 'a timers_scheme \<Rightarrow> timer_id \<Rightarrow> nat" where
  "toff b s t = unat (timeout_tick (timer_obj s t) - b)"

definition in_window :: "word32 \<Rightarrow> 'a timers_scheme \<Rightarrow> timer_id list \<Rightarrow> bool" where
  "in_window b s ts \<longleftrightarrow> (\<forall>t\<in>set ts. toff b s t < 0x7FFFFFFF)"

lemma tick_half_val: "unat tick_half = 0x7FFFFFFF"
  by (simp add: tick_half_def RT_TICK_MAX_def unat_div)

lemma unat_diff_window:
  fixes u v b :: word32
  assumes "unat (v - b) \<le> unat (u - b)"
  shows "unat (u - v) = unat (u - b) - unat (v - b)"
proof -
  have "v - b \<le> u - b" using assms by (simp add: word_le_nat_alt)
  then have "unat ((u - b) - (v - b)) = unat (u - b) - unat (v - b)" by (rule unat_sub)
  then show ?thesis by simp
qed

lemma unat_minus_neg:
  fixes w :: word32
  assumes "w \<noteq> 0"
  shows "unat (- w) = 4294967296 - unat w"
  using assms unat_sub_if_size[of 0 w] by (simp add: word_size unat_eq_zero)

lemma window_later:
  assumes "unat (u - b) < 0x7FFFFFFF" "unat (v - b) < 0x7FFFFFFF"
  shows "timer_later u v \<longleftrightarrow> unat (v - b) < unat (u - b)"
proof (cases "unat (v - b) \<le> unat (u - b)")
  case True
  have "u - v \<noteq> 0 \<longleftrightarrow> unat (v - b) \<noteq> unat (u - b)"
    by (auto simp flip: word_unat_eq_iff)
  then show ?thesis using True unat_diff_window[OF True] assms
    by (auto simp: timer_later_def word_less_nat_alt tick_half_val)
next
  case False
  have d: "unat (v - u) = unat (v - b) - unat (u - b)" using False by (intro unat_diff_window) simp
  then have "v - u \<noteq> 0" using False by auto
  then have "unat (u - v) = 4294967296 - unat (v - u)" using unat_minus_neg[of "v - u"] by simp
  then have "0x7FFFFFFF < unat (u - v)" using d assms False by linarith
  then show ?thesis using False d assms by (simp add: timer_later_def word_less_nat_alt tick_half_val)
qed

lemma window_due:
  assumes "unat (u - b) < 0x7FFFFFFF" "unat (now - b) < 0x7FFFFFFF"
  shows "now - u < tick_half \<longleftrightarrow> unat (u - b) \<le> unat (now - b)"
proof (cases "unat (u - b) \<le> unat (now - b)")
  case True
  then show ?thesis using unat_diff_window[OF True] assms by (simp add: word_less_nat_alt tick_half_val)
next
  case False
  have d: "unat (u - now) = unat (u - b) - unat (now - b)" using False by (intro unat_diff_window) simp
  then have "u - now \<noteq> 0" using False by auto
  then have "unat (now - u) = 4294967296 - unat (u - now)" using unat_minus_neg[of "u - now"] by simp
  then have "0x7FFFFFFF < unat (now - u)" using d assms False by linarith
  then show ?thesis using False d assms by (simp add: word_less_nat_alt tick_half_val)
qed

section \<open>Insertion\<close>

lemma set_timer_insert [simp]: "set (timer_insert to t us) = insert t (set us)"
  by (induction us) auto

lemma timer_insert_split:
  assumes "\<forall>u\<in>set us. timer_later (to u) (to t) \<longleftrightarrow> key t < (key u :: nat)"
  shows "timer_insert to t us = takeWhile (\<lambda>u. key u \<le> key t) us @ t # dropWhile (\<lambda>u. key u \<le> key t) us"
  using assms by (induction us) (auto simp: not_le)

lemma sorted_takeWhile_dropWhile:
  assumes "sorted (map key us)"
  shows "sorted (map key (takeWhile (\<lambda>u. key u \<le> key t) us @ t # dropWhile (\<lambda>u. key u \<le> key t) us))"
proof -
  let ?d = "dropWhile (\<lambda>u. key u \<le> key t) us"
  have "takeWhile (\<lambda>u. key u \<le> key t) us @ ?d = us" by simp
  then have s: "sorted (map key (takeWhile (\<lambda>u. key u \<le> key t) us))" "sorted (map key ?d)"
    using assms by (metis map_append sorted_append)+
  have "key t \<le> key u" if "u \<in> set ?d" for u
  proof (cases ?d)
    case Nil
    then show ?thesis using that by (metis empty_iff empty_set)
  next
    case (Cons v vs)
    then have "\<not> key v \<le> key t" by (metis dropWhile_eq_Cons_conv)
    moreover have "key v \<le> key u" using s(2) that by (auto simp: Cons)
    ultimately show ?thesis by simp
  qed
  moreover have "key u \<le> key t" if "u \<in> set (takeWhile (\<lambda>u. key u \<le> key t) us)" for u
    using set_takeWhileD[OF that] by simp
  ultimately show ?thesis using s by (fastforce simp: sorted_append intro: order_trans)
qed

section \<open>Starting a timer\<close>

definition timers_ok :: "word32 \<Rightarrow> 'a timers_scheme \<Rightarrow> bool" where
  "timers_ok b s \<longleftrightarrow> distinct (rt_timer_list s) \<and> in_window b s (rt_timer_list s) \<and>
     sorted (map (toff b s) (rt_timer_list s)) \<and>
     (\<forall>t\<in>set (rt_timer_list s). tm_activated (timer_obj s t) \<and> \<not> tm_soft (timer_obj s t))"

lemma timer_upd_simps [simp]:
  "timer_obj (timer_upd t f s) u = (if u = t then f (timer_obj s t) else timer_obj s u)"
  "tick (timer_upd t f s) = tick s" "rt_timer_list (timer_upd t f s) = rt_timer_list s"
  "rt_soft_timer_list (timer_upd t f s) = rt_soft_timer_list s" "timers.more (timer_upd t f s) = timers.more s"
  by (simp_all add: timer_upd_def)

lemma timer_remove_simps [simp]:
  "timer_obj (timer_remove t s) = timer_obj s" "tick (timer_remove t s) = tick s"
  "rt_timer_list (timer_remove t s) = removeAll t (rt_timer_list s)"
  "rt_soft_timer_list (timer_remove t s) = removeAll t (rt_soft_timer_list s)"
  "timers.more (timer_remove t s) = timers.more s"
  by (simp_all add: timer_remove_def)

text \<open>What starting a hard timer does, field by field.\<close>

lemma timer_start_fields:
  assumes "init_tick (timer_obj s t) < tick_half" "\<not> tm_soft (timer_obj s t)"
  shows "\<exists>s'. timer_start t s = Some s' \<and> tick s' = tick s \<and> timers.more s' = timers.more s \<and>
    timer_obj s' = (timer_obj s)(t := timer_obj s t\<lparr>tm_activated := True,
       timeout_tick := tick s + init_tick (timer_obj s t)\<rparr>) \<and>
    rt_timer_list s' = timer_insert (\<lambda>u. timeout_tick (timer_obj s' u)) t (removeAll t (rt_timer_list s)) \<and>
    rt_soft_timer_list s' = removeAll t (rt_soft_timer_list s)"
  using assms by (auto simp: timer_start_def Let_def rt_tick_get_def fun_eq_iff intro!: arg_cong[where f = "\<lambda>to. timer_insert to t xs" for xs])

lemma map_key_cong: "(\<And>u. u \<in> set us \<Longrightarrow> key u = key' u) \<Longrightarrow>
    takeWhile (\<lambda>u. key u \<le> n) us = takeWhile (\<lambda>u. key' u \<le> n) us \<and>
    dropWhile (\<lambda>u. key u \<le> n) us = dropWhile (\<lambda>u. key' u \<le> n) us \<and> map key us = map key' us"
  by (induction us) auto

lemma sorted_map_removeAll: "sorted (map key us) \<Longrightarrow> sorted (map key (removeAll t us))"
  by (simp add: removeAll_filter_not_eq sorted_filter)

text \<open>
  The list after starting \<open>t\<close>: behind all timers that time out no later, so timers with the same
  timeout keep the order in which they were started.
\<close>

lemma timer_start_ok:
  assumes "timers_ok b s" "\<not> tm_soft (timer_obj s t)"
    "unat (tick s - b) + unat (init_tick (timer_obj s t)) < 0x7FFFFFFF"
  defines "k \<equiv> unat (tick s - b) + unat (init_tick (timer_obj s t))"
    and "us \<equiv> removeAll t (rt_timer_list s)"
  shows "\<exists>s'. timer_start t s = Some s' \<and> timers_ok b s' \<and> tick s' = tick s \<and> timers.more s' = timers.more s \<and>
    toff b s' t = k \<and> tm_activated (timer_obj s' t) \<and> tm_periodic (timer_obj s' t) = tm_periodic (timer_obj s t) \<and>
    init_tick (timer_obj s' t) = init_tick (timer_obj s t) \<and> (\<forall>u. u \<noteq> t \<longrightarrow> timer_obj s' u = timer_obj s u) \<and>
    rt_timer_list s' = takeWhile (\<lambda>u. toff b s u \<le> k) us @ t # dropWhile (\<lambda>u. toff b s u \<le> k) us \<and>
    rt_soft_timer_list s' = removeAll t (rt_soft_timer_list s)"
proof -
  have "init_tick (timer_obj s t) < tick_half" using assms(3) by (simp add: word_less_nat_alt tick_half_val)
  then obtain s' where s': "timer_start t s = Some s'" "tick s' = tick s" "timers.more s' = timers.more s"
    "timer_obj s' = (timer_obj s)(t := timer_obj s t\<lparr>tm_activated := True,
       timeout_tick := tick s + init_tick (timer_obj s t)\<rparr>)"
    "rt_timer_list s' = timer_insert (\<lambda>u. timeout_tick (timer_obj s' u)) t us"
    "rt_soft_timer_list s' = removeAll t (rt_soft_timer_list s)"
    using timer_start_fields[of s t] assms(2) by (auto simp: us_def)
  have same: "toff b s' u = toff b s u" if "u \<in> set us" for u
    using that by (auto simp: s'(4) toff_def us_def)
  have kt: "toff b s' t = k"
  proof -
    have "toff b s' t = unat ((tick s - b) + init_tick (timer_obj s t))" by (simp add: toff_def s'(4) algebra_simps)
    also have "\<dots> = k" using assms(3) unfolding k_def by (subst unat_word_ariths) simp
    finally show ?thesis .
  qed
  have win: "toff b s' u < 0x7FFFFFFF" if "u \<in> set us" for u
    using assms(1) that same by (auto simp: timers_ok_def in_window_def us_def)
  have kw: "k < 0x7FFFFFFF" using assms(3) by (simp add: k_def)
  have "rt_timer_list s' = takeWhile (\<lambda>u. toff b s' u \<le> toff b s' t) us @ t # dropWhile (\<lambda>u. toff b s' u \<le> toff b s' t) us"
    unfolding s'(5)
  proof (rule timer_insert_split, rule ballI)
    fix u assume "u \<in> set us"
    then show "timer_later (timeout_tick (timer_obj s' u)) (timeout_tick (timer_obj s' t)) \<longleftrightarrow> toff b s' t < toff b s' u"
      using window_later[of "timeout_tick (timer_obj s' u)" b "timeout_tick (timer_obj s' t)"] win kt kw
      by (simp add: toff_def)
  qed
  then have l: "rt_timer_list s' = takeWhile (\<lambda>u. toff b s' u \<le> k) us @ t # dropWhile (\<lambda>u. toff b s' u \<le> k) us"
    by (simp add: kt)
  note cong = map_key_cong[of us "toff b s'" "toff b s" k, OF same]
  have "sorted (map (toff b s) us)"
    using assms(1) by (simp add: timers_ok_def us_def sorted_map_removeAll)
  then have "sorted (map (toff b s') us)" by (simp only: cong)
  then have "sorted (map (toff b s') (rt_timer_list s'))"
    using sorted_takeWhile_dropWhile[of "toff b s'" us t] by (simp add: l kt)
  moreover have set: "set (rt_timer_list s') = insert t (set us)" by (simp add: s'(5))
  moreover have "distinct (rt_timer_list s')"
  proof -
    have "distinct us" "t \<notin> set us" using assms(1) by (simp_all add: timers_ok_def us_def distinct_removeAll)
    moreover have "takeWhile (\<lambda>u. toff b s' u \<le> k) us @ dropWhile (\<lambda>u. toff b s' u \<le> k) us = us" by simp
    ultimately have "distinct (takeWhile (\<lambda>u. toff b s' u \<le> k) us @ dropWhile (\<lambda>u. toff b s' u \<le> k) us)"
      and "t \<notin> set (takeWhile (\<lambda>u. toff b s' u \<le> k) us @ dropWhile (\<lambda>u. toff b s' u \<le> k) us)" by simp_all
    then show ?thesis unfolding l distinct_append set_append by auto
  qed
  moreover have "in_window b s' (rt_timer_list s')" using win kt kw set by (auto simp: in_window_def)
  moreover have "\<forall>u\<in>set (rt_timer_list s'). tm_activated (timer_obj s' u) \<and> \<not> tm_soft (timer_obj s' u)"
    using assms(1,2) set by (auto simp: s'(4) timers_ok_def us_def)
  ultimately have "timers_ok b s'" by (simp add: timers_ok_def)
  then show ?thesis using s' kt l cong by (intro exI[of _ s']) auto
qed

text \<open>
  C22: within a window of less than half the range of ticks, starting a timer puts it into the sorted
  list behind the timers that time out no later, and in front of all others.
\<close>

theorem timer_start_sorted:
  assumes "timers_ok b s" "\<not> tm_soft (timer_obj s t)"
    "unat (tick s - b) + unat (init_tick (timer_obj s t)) < 0x7FFFFFFF"
  shows "\<exists>s'. timer_start t s = Some s' \<and> timers_ok b s' \<and> timeout_tick (timer_obj s' t) = tick s + init_tick (timer_obj s t) \<and>
    (\<exists>xs ys. rt_timer_list s' = xs @ t # ys \<and> removeAll t (rt_timer_list s) = xs @ ys \<and>
       (\<forall>u\<in>set xs. toff b s' u \<le> toff b s' t) \<and> (\<forall>u\<in>set ys. toff b s' t < toff b s' u))"
proof -
  obtain s' where s': "timer_start t s = Some s'" "timers_ok b s'" "toff b s' t = unat (tick s - b) + unat (init_tick (timer_obj s t))"
    "\<forall>u. u \<noteq> t \<longrightarrow> timer_obj s' u = timer_obj s u" and l: "rt_timer_list s' =
      takeWhile (\<lambda>u. toff b s u \<le> unat (tick s - b) + unat (init_tick (timer_obj s t))) (removeAll t (rt_timer_list s)) @ t #
      dropWhile (\<lambda>u. toff b s u \<le> unat (tick s - b) + unat (init_tick (timer_obj s t))) (removeAll t (rt_timer_list s))"
    using timer_start_ok[OF assms] by blast
  have i: "init_tick (timer_obj s t) < tick_half" using assms(3) by (simp add: word_less_nat_alt tick_half_val)
  have to: "timeout_tick (timer_obj s' t) = tick s + init_tick (timer_obj s t)"
    using timer_start_fields[OF i assms(2)] s'(1) by auto
  define P where "P u \<longleftrightarrow> toff b s u \<le> toff b s' t" for u
  define us where "us = removeAll t (rt_timer_list s)"
  have l: "rt_timer_list s' = takeWhile P us @ t # dropWhile P us"
    using l unfolding s'(3)[symmetric] P_def us_def by simp
  have srt: "sorted (map (toff b s) us)"
    using assms(1) by (simp add: timers_ok_def us_def sorted_map_removeAll)
  have eq: "toff b s' u = toff b s u" if "u \<in> set us" for u using that s'(4) by (auto simp: toff_def us_def)
  have "toff b s' u \<le> toff b s' t" if "u \<in> set (takeWhile P us)" for u
    using set_takeWhileD[OF that] eq by (auto simp: P_def)
  moreover have "toff b s' t < toff b s' u" if u: "u \<in> set (dropWhile P us)" for u
  proof -
    obtain v vs where d: "dropWhile P us = v # vs" using u by (cases "dropWhile P us") auto
    then have "\<not> P v" by (metis dropWhile_eq_Cons_conv)
    moreover have "sorted (map (toff b s) (v # vs))"
      using srt d by (metis map_append sorted_append takeWhile_dropWhile_id)
    then have "toff b s v \<le> toff b s u" using u d by auto
    moreover have "u \<in> set us" using u set_dropWhileD by metis
    ultimately show ?thesis using eq by (simp add: P_def)
  qed
  moreover have "us = takeWhile P us @ dropWhile P us" by simp
  ultimately show ?thesis using s'(1,2) to l unfolding us_def[symmetric] by blast
qed

section \<open>Checking the list\<close>

text \<open>
  Timeout functions that act on the rest of the state (\<open>f\<close>) and on their own timer (\<open>own\<close>): they may stop it
  or change its period and its kind, as the code's examples do, but leave the other timers alone and do not
  start timers.
\<close>

definition fire_more :: "(timer_id \<Rightarrow> rt_timer \<Rightarrow> rt_timer) \<Rightarrow> (timer_id \<Rightarrow> 'a \<Rightarrow> 'a) \<Rightarrow> timer_id \<Rightarrow> 'a timers_scheme \<Rightarrow> 'a timers_scheme option" where
  "fire_more own f t s = Some (timers.more_update (f t) (timer_upd t (own t) s))"

definition stop_own :: "rt_timer \<Rightarrow> rt_timer" where
  "stop_own x = x\<lparr>tm_activated := False\<rparr>"

text \<open>That is what \<open>rt_timer_stop\<close> and \<open>rt_timer_control\<close> do to the timer whose function is being called, which is in no list.\<close>

lemma own_timer_calls:
  assumes "t \<notin> set (rt_timer_list s)" "t \<notin> set (rt_soft_timer_list s)"
  shows "snd (rt_timer_stop t s) = timer_upd t stop_own s"
    "snd (rt_timer_control t (SET_TIME n) s) = timer_upd t (\<lambda>x. x\<lparr>init_tick := n\<rparr>) s"
    "snd (rt_timer_control t SET_ONESHOT s) = timer_upd t (\<lambda>x. x\<lparr>tm_periodic := False\<rparr>) s"
    "snd (rt_timer_control t SET_PERIODIC s) = timer_upd t (\<lambda>x. x\<lparr>tm_periodic := True\<rparr>) s"
  using assms by (auto simp: rt_timer_stop_def timer_upd_def timer_remove_def stop_own_def fun_eq_iff)

text \<open>A timer that is started again after its function.\<close>

definition restarts :: "(timer_id \<Rightarrow> rt_timer \<Rightarrow> rt_timer) \<Rightarrow> 'a timers_scheme \<Rightarrow> timer_id \<Rightarrow> bool" where
  "restarts own s t \<longleftrightarrow> tm_periodic (own t (timer_obj s t)) \<and> tm_activated (own t (timer_obj s t))"

lemma fire_more_fields [simp]:
  "timer_obj (timers.more_update g s) = timer_obj s" "tick (timers.more_update g s) = tick s"
  "rt_timer_list (timers.more_update g s) = rt_timer_list s"
  "rt_soft_timer_list (timers.more_update g s) = rt_soft_timer_list s"
  "timers.more (timers.more_update g s) = g (timers.more s)"
  by simp_all

lemma takeWhile_inserted:
  "(\<And>u. u \<in> set ts \<Longrightarrow> P u \<Longrightarrow> Q u) \<Longrightarrow> \<not> P t \<Longrightarrow>
     takeWhile P (takeWhile Q ts @ t # dropWhile Q ts) = takeWhile P ts"
  by (induction ts) auto

text \<open>
  The periods a check of the list can cope with, of the timers that will be started again: not zero, and
  ending inside the window.
\<close>

definition periods_ok :: "(timer_id \<Rightarrow> rt_timer \<Rightarrow> rt_timer) \<Rightarrow> word32 \<Rightarrow> 'a timers_scheme \<Rightarrow> bool" where
  "periods_ok own b s \<longleftrightarrow> (\<forall>t\<in>set (rt_timer_list s). timer_due (tick s) t s \<longrightarrow> restarts own s t \<longrightarrow>
     0 < init_tick (own t (timer_obj s t)) \<and> unat (tick s - b) + unat (init_tick (own t (timer_obj s t))) < 0x7FFFFFFF)"

lemma due_iff:
  assumes "timers_ok b s" "unat (tick s - b) < 0x7FFFFFFF" "t \<in> set (rt_timer_list s)"
  shows "timer_due (tick s) t s \<longleftrightarrow> toff b s t \<le> unat (tick s - b)"
  using assms window_due[of "timeout_tick (timer_obj s t)" b "tick s"]
  by (auto simp: timer_due_def timers_ok_def in_window_def toff_def)

lemma timers_ok_drop:
  assumes "timers_ok b s" "rt_timer_list s = t # ts" "rt_timer_list s' = ts" "\<And>u. u \<in> set ts \<Longrightarrow> timer_obj s' u = timer_obj s u"
  shows "timers_ok b s'"
proof -
  have eq: "map (toff b s') ts = map (toff b s) ts" "\<And>u. u \<in> set ts \<Longrightarrow> toff b s' u = toff b s u"
    using assms(4) by (simp_all add: toff_def)
  have "sorted (map (toff b s) ts)" using assms(1,2) by (simp add: timers_ok_def)
  then have "sorted (map (toff b s') ts)" by (simp only: eq(1))
  then show ?thesis using assms eq(2) by (auto simp: timers_ok_def in_window_def)
qed

lemma timer_check_loop:
  assumes own: "\<And>t x. tm_soft (own t x) = tm_soft x"
    and "timers_ok b s" "periods_ok own b s" "unat (tick s - b) < 0x7FFFFFFF" "now = tick s"
    "length (takeWhile (\<lambda>t. timer_due now t s) (rt_timer_list s)) \<le> n"
  shows "\<exists>s'. run_loop n timer_more (timer_round (fire_more own f)) (now, s) = Returned (now, s') \<and>
    timers_ok b s' \<and> tick s' = now \<and>
    timers.more s' = fold f (takeWhile (\<lambda>t. timer_due now t s) (rt_timer_list s)) (timers.more s) \<and>
    set (rt_timer_list s') = {t \<in> set (rt_timer_list s). \<not> timer_due now t s \<or> restarts own s t} \<and>
    (\<forall>t\<in>set (rt_timer_list s'). \<not> timer_due now t s')"
  using assms(2-)
proof (induction "takeWhile (\<lambda>t. timer_due now t s) (rt_timer_list s)" arbitrary: s n)
  case Nil
  let ?L = "rt_timer_list s"
  have nd: "\<not> timer_due now t s" if t: "t \<in> set ?L" for t
  proof (cases ?L)
    case (Cons h ts)
    have "\<not> timer_due now h s" using Nil.hyps by (simp add: Cons split: if_splits)
    then have "unat (tick s - b) < toff b s h" using due_iff[OF Nil.prems(1,3), of h] Nil.prems(4) Cons by simp
    also have "\<dots> \<le> toff b s t" using Nil.prems(1) t by (auto simp: timers_ok_def Cons)
    finally show ?thesis using due_iff[OF Nil.prems(1,3) t] Nil.prems(4) by simp
  qed (use t in simp)
  then have "\<not> timer_more (now, s)" using hd_in_set by (fastforce simp: timer_more_def)
  then show ?case using Nil nd by auto
next
  case (Cons t ds)
  obtain ts where L: "rt_timer_list s = t # ts" and d: "timer_due now t s" and ds: "ds = takeWhile (\<lambda>t. timer_due now t s) ts"
    using Cons.hyps(2) by (cases "rt_timer_list s") (auto split: if_splits)
  have nt: "t \<notin> set ts" "distinct ts" using Cons.prems(1) by (simp_all add: timers_ok_def L)
  obtain m where n: "n = Suc m" using Cons.prems(5) d by (cases n) (auto simp: L)
  define s1 where "s1 = timers.more_update (f t) (timer_upd t (own t) (timer_remove t s))"
  have s1: "rt_timer_list s1 = ts" "timer_obj s1 = (timer_obj s)(t := own t (timer_obj s t))" "tick s1 = tick s" "timers.more s1 = f t (timers.more s)"
    using nt by (simp_all add: s1_def L removeAll_id fun_eq_iff)
  define s2 where "s2 = timer_upd t (\<lambda>x. x\<lparr>tm_activated := False\<rparr>) s1"
  have s2: "timers_ok b s2" by (rule timers_ok_drop[OF Cons.prems(1) L]) (use nt in \<open>auto simp: s2_def s1\<close>)
  have soft: "\<not> tm_soft (own t (timer_obj s t))" using Cons.prems(1) own by (simp add: timers_ok_def L)
  have "\<exists>s3. timer_again t s1 = Some s3 \<and> timers_ok b s3 \<and> periods_ok own b s3 \<and> tick s3 = now \<and> timers.more s3 = f t (timers.more s) \<and>
    takeWhile (\<lambda>t. timer_due now t s3) (rt_timer_list s3) = ds \<and>
    {u \<in> set (rt_timer_list s3). \<not> timer_due now u s3 \<or> restarts own s3 u} =
      {u \<in> set (rt_timer_list s). \<not> timer_due now u s \<or> restarts own s u}"
  proof (cases "restarts own s t")
    case True
    define c where "c = init_tick (own t (timer_obj s t))"
    have p: "0 < c" "unat (tick s - b) + unat c < 0x7FFFFFFF"
      using Cons.prems(2) True d Cons.prems(4) by (simp_all add: periods_ok_def L c_def)
    define k where "k = unat (tick s - b) + unat c"
    have i2: "init_tick (timer_obj s2 t) = c" "tick s2 = tick s" "\<not> tm_soft (timer_obj s2 t)"
      "rt_timer_list s2 = ts" "tm_periodic (timer_obj s2 t)" "timers.more s2 = f t (timers.more s)"
      using soft True by (simp_all add: s2_def s1 c_def restarts_def)
    obtain s3 where s3: "timer_start t s2 = Some s3" "timers_ok b s3" "tick s3 = tick s2" "timers.more s3 = timers.more s2" "toff b s3 t = k"
      "\<forall>u. u \<noteq> t \<longrightarrow> timer_obj s3 u = timer_obj s2 u"
      "rt_timer_list s3 = takeWhile (\<lambda>u. toff b s2 u \<le> k) ts @ t # dropWhile (\<lambda>u. toff b s2 u \<le> k) ts"
      using timer_start_ok[OF s2, of t] i2 p(2) nt by (auto simp: k_def removeAll_id)
    have obj: "timer_obj s3 u = timer_obj s u" if "u \<in> set ts" for u using s3(6) that nt by (auto simp: s2_def s1)
    have set3: "set (rt_timer_list s3) = insert t (set ts)"
    proof -
      have "set ts = set (takeWhile (\<lambda>u. toff b s2 u \<le> k) ts) \<union> set (dropWhile (\<lambda>u. toff b s2 u \<le> k) ts)"
        by (metis set_append takeWhile_dropWhile_id)
      then show ?thesis by (auto simp: s3(7))
    qed
    have lag: "unat (tick s3 - b) < 0x7FFFFFFF" using Cons.prems(3) s3(3) i2(2) by simp
    have "0 < unat c" using p(1) by (simp add: unat_gt_0 word_neq_0_conv)
    then have ndt: "\<not> timer_due now t s3"
      using due_iff[OF s3(2) lag, of t] s3(3,5) i2(2) Cons.prems(4) set3 by (simp add: k_def)
    have due3: "timer_due now u s3 = timer_due now u s" if "u \<in> set ts" for u
      using obj[OF that] by (simp add: timer_due_def)
    have "timer_due now u s3 \<Longrightarrow> toff b s2 u \<le> k" if "u \<in> set ts" for u
      using due_iff[OF s3(2) lag, of u] s3(3) i2(2) Cons.prems(4) set3 that obj[OF that] nt
      by (auto simp: k_def toff_def s2_def s1 split: if_splits)
    then have "takeWhile (\<lambda>t. timer_due now t s3) (rt_timer_list s3) = takeWhile (\<lambda>t. timer_due now t s3) ts"
      unfolding s3(7) using ndt by (intro takeWhile_inserted) auto
    also have "\<dots> = ds" unfolding ds using due3 by (intro takeWhile_cong) auto
    finally have tw: "takeWhile (\<lambda>t. timer_due now t s3) (rt_timer_list s3) = ds" .
    have "periods_ok own b s3"
      using Cons.prems(2,4) s3(3) i2(2) obj due3 ndt by (auto simp: periods_ok_def restarts_def set3 L)
    moreover have "{u \<in> set (rt_timer_list s3). \<not> timer_due now u s3 \<or> restarts own s3 u} =
      {u \<in> set (rt_timer_list s). \<not> timer_due now u s \<or> restarts own s u}"
      using True due3 obj ndt by (auto simp: restarts_def set3 L)
    moreover have "timer_again t s1 = Some s3" using True s3(1) by (simp add: timer_again_def restarts_def s1 s2_def)
    ultimately show ?thesis using s3 tw i2 Cons.prems(4) by auto
  next
    case False
    have due2: "timer_due now u s2 = timer_due now u s" if "u \<in> set ts" for u
      using that nt by (auto simp: timer_due_def s2_def s1)
    have l2: "rt_timer_list s2 = ts" by (simp add: s2_def s1)
    have "takeWhile (\<lambda>t. timer_due now t s2) (rt_timer_list s2) = ds"
      unfolding ds l2 using due2 by (intro takeWhile_cong) auto
    moreover have "periods_ok own b s2" using Cons.prems(2,4) nt due2 by (auto simp: periods_ok_def restarts_def l2 L s2_def s1)
    moreover have "{u \<in> set (rt_timer_list s2). \<not> timer_due now u s2 \<or> restarts own s2 u} =
      {u \<in> set (rt_timer_list s). \<not> timer_due now u s \<or> restarts own s u}"
      using False d due2 nt by (auto simp: restarts_def l2 L s2_def s1)
    moreover have "timer_again t s1 = Some s2" using False by (auto simp: timer_again_def restarts_def s1 s2_def)
    moreover have "tick s2 = now" "timers.more s2 = f t (timers.more s)" using Cons.prems(4) by (simp_all add: s2_def s1)
    ultimately show ?thesis using s2 by blast
  qed
  then obtain s3 where s3: "timer_again t s1 = Some s3" "timers_ok b s3" "periods_ok own b s3" "tick s3 = now"
    "timers.more s3 = f t (timers.more s)" "takeWhile (\<lambda>t. timer_due now t s3) (rt_timer_list s3) = ds"
    "{u \<in> set (rt_timer_list s3). \<not> timer_due now u s3 \<or> restarts own s3 u} =
      {u \<in> set (rt_timer_list s). \<not> timer_due now u s \<or> restarts own s u}" by blast
  have "timer_round (fire_more own f) (now, s) = Some (now, s3)"
    using s3(1) s1(3) Cons.prems(4) by (simp add: timer_round_def L fire_more_def s1_def[symmetric] rt_tick_get_def)
  then have step: "run_loop n timer_more (timer_round (fire_more own f)) (now, s) =
      run_loop m timer_more (timer_round (fire_more own f)) (now, s3)"
    using d by (simp add: n timer_more_def L)
  have len: "length ds \<le> m" using Cons.prems(5) Cons.hyps(2) n by (metis Suc_le_mono length_Cons)
  have fold: "fold f (takeWhile (\<lambda>t. timer_due now t s) (rt_timer_list s)) (timers.more s) = fold f ds (timers.more s3)"
    using s3(5) by (simp flip: Cons.hyps(2))
  have lag: "unat (tick s3 - b) < 0x7FFFFFFF" using Cons.prems(3,4) s3(4) by simp
  show ?case
    unfolding step fold using Cons.hyps(1)[OF s3(6)[symmetric] s3(2,3) lag s3(4)[symmetric], of m] len s3(6,7)
    by simp
qed


text \<open>
  A periodic timer with a period of zero ticks keeps the check of the timers, and with it the
  clock interrupt, in its loop for ever.
\<close>

theorem timer_check_zero_period_spins:
  assumes "rt_timer_list s = [t]" "tm_periodic (timer_obj s t)" "tm_activated (timer_obj s t)" "\<not> tm_soft (timer_obj s t)"
    "init_tick (timer_obj s t) = 0" "timer_due (tick s) t s"
  shows "rt_timer_check fuel (fire_more (\<lambda>_ x. x) f) s = Spins"
proof -
  have "\<exists>s'. run_loop n timer_more (timer_round (fire_more (\<lambda>_ x. x) f)) (tick s, s) = Running s'" for n
    using assms
  proof (induction n arbitrary: s)
    case 0
    then show ?case by (simp add: timer_more_def)
  next
    case (Suc n)
    define s1 where "s1 = timer_upd t (\<lambda>x. x\<lparr>tm_activated := False\<rparr>) (timers.more_update (f t) (timer_upd t (\<lambda>x. x) (timer_remove t s)))"
    have i: "init_tick (timer_obj s1 t) < tick_half" "\<not> tm_soft (timer_obj s1 t)"
      using Suc.prems by (simp_all add: s1_def word_less_nat_alt tick_half_val)
    obtain s2 where s2: "timer_start t s1 = Some s2" "tick s2 = tick s1"
      "timer_obj s2 = (timer_obj s1)(t := timer_obj s1 t\<lparr>tm_activated := True, timeout_tick := tick s1 + init_tick (timer_obj s1 t)\<rparr>)"
      "rt_timer_list s2 = timer_insert (\<lambda>u. timeout_tick (timer_obj s2 u)) t (removeAll t (rt_timer_list s1))"
      using timer_start_fields[OF i] by blast
    have tk: "tick s2 = tick s" using s2(2) by (simp add: s1_def)
    have "timer_round (fire_more (\<lambda>_ x. x) f) (tick s, s) = Some (tick s2, s2)"
      using Suc.prems s2(1,2)
      by (simp add: timer_round_def fire_more_def timer_again_def rt_tick_get_def s1_def)
    moreover have "timer_more (tick s, s)" using Suc.prems by (simp add: timer_more_def)
    moreover have "rt_timer_list s2 = [t]" using s2(4) Suc.prems(1) by (simp add: s1_def)
    moreover have "timer_due (tick s2) t s2"
      using Suc.prems s2(2) by (simp add: timer_due_def s2(3) s1_def word_less_nat_alt tick_half_val)
    ultimately show ?case using Suc.IH[of s2] Suc.prems s2(3) tk by (simp add: s1_def)
  qed
  then obtain s' where "run_loop fuel timer_more (timer_round (fire_more (\<lambda>_ x. x) f)) (tick s, s) = Running s'" by blast
  then show ?thesis by (simp add: rt_timer_check_def rt_tick_get_def)
qed

section \<open>Milliseconds\<close>

text \<open>
  Milliseconds are converted to ticks rounded up as long as the product fits 31 bits; for the
  largest argument the documentation allows the product wraps and the result is zero ticks.
\<close>

theorem tick_from_millisecond_range:
  "(0 \<le> sint ms \<and> sint ms \<le> 21474826 \<longrightarrow> uint (rt_tick_from_millisecond ms) = (sint ms + 9) div 10) \<and>
   rt_tick_from_millisecond 0x7FFFFFFF = 0"
proof
  show "0 \<le> sint ms \<and> sint ms \<le> 21474826 \<longrightarrow> uint (rt_tick_from_millisecond ms) = (sint ms + 9) div 10"
  proof (intro impI, elim conjE)
    assume a: "0 \<le> sint ms" "sint ms \<le> 21474826"
    obtain k where k: "sint ms = k" by blast
    have ms: "ms = word_of_int k" by (simp add: k[symmetric])
    have "100 * ms + 999 = word_of_int (100 * k + 999)" by (simp add: ms)
    moreover have "sint (word_of_int (100 * k + 999) :: word32) = 100 * k + 999"
      using a k signed_take_bit_int_eq_self[of 31 "100 * k + 999"] unfolding sint_sbintrunc' by simp
    ultimately have s: "sint (RT_TICK_PER_SECOND * ms + 999) = 100 * k + 999" by (simp add: RT_TICK_PER_SECOND_def)
    have "(100 * k + 999) sdiv 1000 = (100 * k + 999) div 1000"
      using a k unfolding signed_divide_int_def by simp
    also have "\<dots> = (100 * k + 999) div 100 div 10" using zdiv_zmult2_eq[of 10 "100 * k + 999" 100] by simp
    also have "(100 * k + 999) div 100 = k + 9" by simp
    finally have d: "(100 * k + 999) sdiv 1000 = (k + 9) div 10" .
    have r: "0 \<le> (k + 9) div 10" "(k + 9) div 10 < 2 ^ 32" using a k by simp_all
    have "rt_tick_from_millisecond ms = word_of_int ((k + 9) div 10)"
      using a k s d by (simp add: rt_tick_from_millisecond_def)
    moreover have "uint (word_of_int ((k + 9) div 10) :: word32) = (k + 9) div 10"
      using r by (simp add: uint_word_of_int)
    ultimately show "uint (rt_tick_from_millisecond ms) = (sint ms + 9) div 10" using k by simp
  qed
  have "sint (RT_TICK_PER_SECOND * 0x7FFFFFFF + 999) = 899" by (simp add: RT_TICK_PER_SECOND_def)
  then show "rt_tick_from_millisecond 0x7FFFFFFF = 0"
    by (simp add: rt_tick_from_millisecond_def signed_divide_int_def)
qed

end
