(* ===== verification/RtSchedSpec.thy ===== *)
theory RtSchedSpec
  imports RtThread RtTimerSpec
begin

text \<open>
  The scheduler keeps its tables and bitmaps consistent and runs a thread of the highest priority:
  the search for the lowest bit, the invariant of the ready tables, and what \<open>rt_schedule\<close> chooses.
\<close>

section \<open>The lowest bit set\<close>

definition lowest_at :: "word32 \<Rightarrow> nat \<Rightarrow> bool" where
  "lowest_at v i \<longleftrightarrow> bit v i \<and> (\<forall>j<i. \<not> bit v j)"

lemma bitmap_table: "list_all (\<lambda>(b, n). b = 0 \<or> n < 8 \<and> b mod 2 ^ Suc n = 2 ^ n) (zip [0..255] lowest_bit_bitmap)"
  for b :: int
  by code_simp

lemma lowest_mod:
  assumes "b mod 2 ^ Suc n = (2 ^ n :: nat)"
  shows "odd (b div 2 ^ n)" "j < n \<Longrightarrow> even (b div 2 ^ j)"
proof -
  obtain q where q: "b = 2 ^ n * (2 * q + 1)"
    using assms div_mult_mod_eq[of b "2 ^ Suc n"] by (intro that[of "b div 2 ^ Suc n"]) (simp add: algebra_simps)
  then show "odd (b div 2 ^ n)" by simp
  show "even (b div 2 ^ j)" if "j < n"
  proof -
    have "(2 :: nat) ^ n = 2 ^ j * (2 * 2 ^ (n - Suc j))"
      using that by (simp flip: power_Suc power_add)
    then have "b div 2 ^ j = 2 * 2 ^ (n - Suc j) * (2 * q + 1)" by (simp add: q)
    then show ?thesis by simp
  qed
qed

lemma bitmap_ok:
  assumes "b < 256" "b \<noteq> 0"
  shows "lowest_bit_bitmap ! b < 8 \<and> odd (b div 2 ^ (lowest_bit_bitmap ! b)) \<and>
    (\<forall>j<lowest_bit_bitmap ! b. even (b div 2 ^ j))"
proof -
  let ?n = "lowest_bit_bitmap ! b"
  have len: "length lowest_bit_bitmap = 256" by (simp add: lowest_bit_bitmap_def)
  have "[0..255] ! b = int b" using assms(1) by (simp add: nth_upto)
  then have "(int b, ?n) \<in> set (zip [0..255] lowest_bit_bitmap)"
    using assms(1) len by (auto simp: set_zip intro!: exI[of _ b])
  then have i: "?n < 8" "int b mod 2 ^ Suc ?n = 2 ^ ?n"
    using bitmap_table assms(2) by (auto simp: list_all_iff)
  have "int (b mod 2 ^ Suc ?n) = int (2 ^ ?n)" using i(2) by (simp add: zmod_int)
  then have "b mod 2 ^ Suc ?n = 2 ^ ?n" by (simp only: of_nat_eq_iff)
  then show ?thesis using lowest_mod i(1) by blast
qed

text \<open>The table applied to the byte of \<open>v\<close> that starts at bit \<open>k\<close>.\<close>

lemma byte_bit: "j < 8 \<Longrightarrow> k + j < 32 \<Longrightarrow> odd (unat (drop_bit k (v :: word32) AND 0xff) div 2 ^ j) \<longleftrightarrow> bit v (k + j)"
proof -
  assume a: "j < 8" "k + j < 32"
  have "odd (unat w div 2 ^ j) \<longleftrightarrow> bit w j" for w :: word32
    by (simp add: bit_iff_odd[symmetric] bit_unsigned_iff)
  then have "odd (unat (drop_bit k v AND 0xff) div 2 ^ j) \<longleftrightarrow> bit (drop_bit k v AND mask 8) j"
    by (simp add: mask_eq_exp_minus_1)
  then show ?thesis using a by (simp add: bit_simps)
qed

lemma byte_lowest:
  fixes v :: word32
  assumes "drop_bit k v AND 0xff \<noteq> 0" "k \<le> 24" "\<forall>j<k. \<not> bit v j"
  defines "n \<equiv> lowest_bit_bitmap ! unat (drop_bit k v AND 0xff)"
  shows "n < 8 \<and> lowest_at v (k + n)"
proof -
  let ?b = "unat (drop_bit k v AND 0xff)"
  have "?b < 256" using unat_and_less[of "0xff" 256 "drop_bit k v"] by simp
  moreover have "?b \<noteq> 0" using assms(1) by (simp add: unat_eq_zero)
  ultimately have n: "n < 8" "odd (?b div 2 ^ n)" "\<forall>j<n. even (?b div 2 ^ j)"
    using bitmap_ok[of ?b] by (auto simp: n_def)
  have "\<not> bit v (k + j)" if "j < n" for j using n(1,3) that byte_bit[of j k v] assms(2) by auto
  then have "\<not> bit v i" if "i < k + n" for i
    using that assms(3) by (cases "i < k") (auto simp: not_less dest!: le_Suc_ex)
  then show ?thesis using n byte_bit[of n k v] assms(2) by (auto simp: lowest_at_def)
qed

lemma byte_clear:
  assumes "drop_bit k v AND 0xff = (0 :: word32)" "\<forall>j<k. \<not> bit v j" "k \<le> 24"
  shows "\<forall>j<k + 8. \<not> bit v j"
proof (intro allI impI)
  fix j assume j: "j < k + 8"
  show "\<not> bit v j"
  proof (cases "j < k")
    case False
    then obtain i where i: "j = k + i" by (auto simp: not_less dest!: le_Suc_ex)
    then show ?thesis using byte_bit[of i k v] assms(1,3) j by simp
  qed (use assms(2) in simp)
qed

lemma and_byte: "(v :: word32) AND push_bit k 0xff = push_bit k (drop_bit k v AND 0xff)"
  by (rule bit_word_eqI) (auto simp: bit_simps)

lemma and_byte_0:
  fixes v :: word32
  assumes "k \<le> 24"
  shows "v AND push_bit k 0xff = 0 \<longleftrightarrow> drop_bit k v AND 0xff = 0"
proof
  assume z: "v AND push_bit k 0xff = 0"
  show "drop_bit k v AND 0xff = 0"
  proof (rule bit_word_eqI)
    fix n
    have "bit (0xff :: word32) n \<Longrightarrow> n < 8"
      using bit_mask_iff[of 8 n, where 'a = "32 word"] by (simp add: mask_eq_exp_minus_1)
    moreover have "\<not> bit (v AND push_bit k 0xff) (k + n)" by (simp add: z)
    ultimately show "bit (drop_bit k v AND 0xff) n = bit (0 :: word32) n" using assms by (auto simp: bit_simps)
  qed
qed (simp add: and_byte)

lemma masked_byte:
  fixes v :: word32
  assumes "k \<le> 24"
  shows "drop_bit k (v AND push_bit k 0xff) = drop_bit k v AND 0xff"
proof (rule bit_word_eqI)
  fix n
  have "bit (0xff :: word32) n \<Longrightarrow> n < 8"
    using bit_mask_iff[of 8 n, where 'a = "32 word"] by (simp add: mask_eq_exp_minus_1)
  then show "bit (drop_bit k (v AND push_bit k 0xff)) n = bit (drop_bit k v AND 0xff) n"
    using assms by (auto simp: bit_simps)
qed

lemma ffs_ok:
  "if v = 0 then rt_ffs v = 0 else \<exists>i<32. rt_ffs v = of_nat i + 1 \<and> lowest_at v i"
proof (cases "v = 0")
  case False
  let ?t = "\<lambda>k. lowest_bit_bitmap ! unat (drop_bit k v AND 0xff)"
  have m: "(0xff00 :: word32) = push_bit 8 0xff" "(0xff0000 :: word32) = push_bit 16 0xff"
    "(0xff000000 :: word32) = push_bit 24 0xff" by simp_all
  have z: "v AND 0xff00 = 0 \<longleftrightarrow> drop_bit 8 v AND 0xff = 0" "v AND 0xff0000 = 0 \<longleftrightarrow> drop_bit 16 v AND 0xff = 0"
    unfolding m by (simp_all only: and_byte_0)
  have mb: "drop_bit 8 (v AND push_bit 8 0xff) = drop_bit 8 v AND 0xff"
    "drop_bit 16 (v AND push_bit 16 0xff) = drop_bit 16 v AND 0xff"
    "drop_bit 24 (v AND push_bit 24 0xff) = drop_bit 24 v AND 0xff" by (rule masked_byte, simp)+
  have r: "rt_ffs v = (if drop_bit 0 v AND 0xff \<noteq> 0 then of_nat (?t 0) + 1
     else if drop_bit 8 v AND 0xff \<noteq> 0 then of_nat (?t 8) + 9
     else if drop_bit 16 v AND 0xff \<noteq> 0 then of_nat (?t 16) + 17 else of_nat (?t 24) + 25)"
    unfolding rt_ffs_def z unfolding m mb by (simp add: False)
  have res: ?thesis if "drop_bit k v AND 0xff \<noteq> 0" "k \<le> 24" "\<forall>j<k. \<not> bit v j" "rt_ffs v = of_nat (?t k) + of_nat k + 1" for k
    using byte_lowest[OF that(1-3)] that(2,4) False
    by (auto simp: intro!: exI[of _ "k + ?t k"])
  show ?thesis
  proof (cases "drop_bit 0 v AND 0xff = 0")
    case b0: True
    have c0: "\<forall>j<8. \<not> bit v j" using byte_clear[OF b0] by simp
    show ?thesis
    proof (cases "drop_bit 8 v AND 0xff = 0")
      case b1: True
      have c1: "\<forall>j<16. \<not> bit v j" using byte_clear[OF b1 c0] by simp
      show ?thesis
      proof (cases "drop_bit 16 v AND 0xff = 0")
        case b2: True
        have c2: "\<forall>j<24. \<not> bit v j" using byte_clear[OF b2 c1] by simp
        have "drop_bit 24 v AND 0xff \<noteq> 0"
        proof
          assume "drop_bit 24 v AND 0xff = 0"
          then have "\<forall>j<32. \<not> bit v j" using byte_clear[OF _ c2] by simp
          then have "v = 0" by (intro bit_word_eqI) auto
          then show False using False by simp
        qed
        then show ?thesis using res[of 24] c2 r b0 b1 b2 by simp
      qed (use res[of 16] c1 r b0 b1 in simp)
    qed (use res[of 8] c0 r b0 in simp)
  qed (use res[of 0] r in simp)
qed (simp add: rt_ffs_def)

lemma Least_lowest: "lowest_at v i \<Longrightarrow> (LEAST j. bit v j) = i"
  by (rule Least_equality) (auto simp: lowest_at_def not_less[symmetric])

text \<open>
  C20: the table-driven search is the position of the lowest bit that is set, counted from 1, and 0
  when there is none.
\<close>

theorem ffs_equiv: "rt_ffs v = (if v = 0 then 0 else of_nat (LEAST i. bit v i) + 1)"
  using ffs_ok[of v] by (auto simp: Least_lowest)

section \<open>The ready tables\<close>

definition prio :: "kernel \<Rightarrow> tid \<Rightarrow> nat" where
  "prio k t = unat (current_priority (tcb k t))"

definition prio_ok :: "rt_thread \<Rightarrow> bool" where
  "prio_ok x \<longleftrightarrow> unat (current_priority x) < 32 \<and> number_mask x = push_bit (unat (current_priority x)) 1"

definition queued_ok :: "rt_thread \<Rightarrow> bool" where
  "queued_ok x \<longleftrightarrow> stat x = RT_THREAD_READY \<and> oncpu x = RT_CPU_DETACHED \<and> prio_ok x"

text \<open>The list of the ready tables a thread belongs to.\<close>

definition home :: "rt_thread \<Rightarrow> rt_list" where
  "home x = (if bind_cpu x = RT_CPUS_NR then PriorityTable (unat (current_priority x))
     else CpuTable (unat (bind_cpu x)) (unat (current_priority x)))"

fun is_table :: "rt_list \<Rightarrow> bool" where
  "is_table (PriorityTable p) = True"
| "is_table (CpuTable c p) = True"
| "is_table _ = False"

text \<open>The bit of a table's bitmap.\<close>

fun table_bit :: "kernel \<Rightarrow> rt_list \<Rightarrow> bool" where
  "table_bit k (PriorityTable p) = bit (rt_thread_ready_priority_group k) p"
| "table_bit k (CpuTable c p) = bit (priority_group (rt_cpus k c)) p"
| "table_bit k _ = False"

definition unlisted :: "tid \<Rightarrow> kernel \<Rightarrow> bool" where
  "unlisted t k \<longleftrightarrow> (\<forall>l. t \<notin> set (rt_lists k l))"

text \<open>In none of the ready tables (a waiting thread is in the list it waits in).\<close>

definition untabled :: "tid \<Rightarrow> kernel \<Rightarrow> bool" where
  "untabled t k \<longleftrightarrow> (\<forall>l. is_table l \<longrightarrow> t \<notin> set (rt_lists k l))"

definition tables_ok :: "kernel \<Rightarrow> bool" where
  "tables_ok k \<longleftrightarrow>
     (\<forall>l t. is_table l \<longrightarrow> t \<in> set (rt_lists k l) \<longrightarrow> queued_ok (tcb k t) \<and> l = home (tcb k t)) \<and>
     (\<forall>l. is_table l \<longrightarrow> table_bit k l \<longleftrightarrow> rt_lists k l \<noteq> []) \<and>
     (\<forall>l. distinct (rt_lists k l)) \<and>
     (\<forall>l l' t. t \<in> set (rt_lists k l) \<longrightarrow> t \<in> set (rt_lists k l') \<longrightarrow> l = l')"

text \<open>The threads processor \<open>c\<close> may choose from.\<close>

fun table_of :: "nat \<Rightarrow> rt_list \<Rightarrow> bool" where
  "table_of c (PriorityTable p) = True"
| "table_of c (CpuTable d p) = (d = c)"
| "table_of c _ = False"

definition ready_on :: "nat \<Rightarrow> kernel \<Rightarrow> tid set" where
  "ready_on c k = {t. \<exists>l. table_of c l \<and> t \<in> set (rt_lists k l)}"

lemma table_of_is_table: "table_of c l \<Longrightarrow> is_table l"
  by (cases l) auto

lemma th_upd_simps [simp]:
  "tcb (th_upd t f k) u = (if u = t then f (tcb k t) else tcb k u)"
  "rt_lists (th_upd t f k) = rt_lists k" "rt_cpus (th_upd t f k) = rt_cpus k" "cpu_id (th_upd t f k) = cpu_id k"
  "rt_thread_ready_priority_group (th_upd t f k) = rt_thread_ready_priority_group k"
  "tick (th_upd t f k) = tick k" "timer_obj (th_upd t f k) = timer_obj k" "rt_timer_list (th_upd t f k) = rt_timer_list k"
  by (simp_all add: th_upd_def)

lemma cpu_upd_simps [simp]:
  "tcb (cpu_upd c f k) = tcb k" "rt_lists (cpu_upd c f k) = rt_lists k"
  "rt_cpus (cpu_upd c f k) d = (if d = c then f (rt_cpus k c) else rt_cpus k d)" "cpu_id (cpu_upd c f k) = cpu_id k"
  "rt_thread_ready_priority_group (cpu_upd c f k) = rt_thread_ready_priority_group k"
  by (simp_all add: cpu_upd_def)

lemma list_op_simps [simp]:
  "rt_lists (rt_list_remove t k) l = removeAll t (rt_lists k l)"
  "rt_lists (rt_list_insert_before l t k) l' = (if l' = l then rt_lists k l @ [t] else rt_lists k l')"
  "rt_lists (rt_list_insert_after l t k) l' = (if l' = l then t # rt_lists k l else rt_lists k l')"
  "tcb (rt_list_remove t k) = tcb k" "tcb (rt_list_insert_before l t k) = tcb k" "tcb (rt_list_insert_after l t k) = tcb k"
  "rt_cpus (rt_list_remove t k) = rt_cpus k" "rt_cpus (rt_list_insert_before l t k) = rt_cpus k" "rt_cpus (rt_list_insert_after l t k) = rt_cpus k"
  "cpu_id (rt_list_remove t k) = cpu_id k" "cpu_id (rt_list_insert_before l t k) = cpu_id k" "cpu_id (rt_list_insert_after l t k) = cpu_id k"
  "rt_thread_ready_priority_group (rt_list_remove t k) = rt_thread_ready_priority_group k"
  "rt_thread_ready_priority_group (rt_list_insert_before l t k) = rt_thread_ready_priority_group k"
  "rt_thread_ready_priority_group (rt_list_insert_after l t k) = rt_thread_ready_priority_group k"
  by (simp_all add: rt_list_remove_def rt_list_insert_before_def rt_list_insert_after_def)

lemma ipi_simps [simp]:
  "tcb (rt_hw_ipi_send m k) = tcb k" "rt_lists (rt_hw_ipi_send m k) = rt_lists k" "rt_cpus (rt_hw_ipi_send m k) = rt_cpus k"
  "cpu_id (rt_hw_ipi_send m k) = cpu_id k"
  "rt_thread_ready_priority_group (rt_hw_ipi_send m k) = rt_thread_ready_priority_group k"
  by (simp_all add: rt_hw_ipi_send_def)

text \<open>Whether the tables are consistent depends on these parts of the state only.\<close>

definition sched_part :: "rt_thread \<Rightarrow> thread_stat \<times> byte \<times> byte \<times> byte \<times> word32" where
  "sched_part x = (stat x, bind_cpu x, oncpu x, current_priority x, number_mask x)"

lemma sched_part_eq:
  "sched_part x = sched_part y \<longleftrightarrow> stat x = stat y \<and> bind_cpu x = bind_cpu y \<and> oncpu x = oncpu y \<and>
     current_priority x = current_priority y \<and> number_mask x = number_mask y"
  by (simp add: sched_part_def)

lemma sched_part_cong:
  "sched_part x = sched_part y \<Longrightarrow> queued_ok x = queued_ok y \<and> home x = home y \<and> prio_ok x = prio_ok y"
  by (simp add: sched_part_eq queued_ok_def prio_ok_def home_def)

lemma tables_okD:
  assumes "tables_ok k" "is_table l"
  shows "t \<in> set (rt_lists k l) \<Longrightarrow> queued_ok (tcb k t) \<and> l = home (tcb k t)" "table_bit k l \<longleftrightarrow> rt_lists k l \<noteq> []"
  using assms by (simp_all add: tables_ok_def)

lemma tables_ok_cong:
  assumes "tables_ok k" "rt_lists k' = rt_lists k" "rt_thread_ready_priority_group k' = rt_thread_ready_priority_group k"
    "\<And>c. priority_group (rt_cpus k' c) = priority_group (rt_cpus k c)"
    "\<And>l t. is_table l \<Longrightarrow> t \<in> set (rt_lists k l) \<Longrightarrow> sched_part (tcb k' t) = sched_part (tcb k t)"
  shows "tables_ok k'"
proof -
  have "table_bit k' l = table_bit k l" for l using assms(3,4) by (cases l) auto
  moreover have "queued_ok (tcb k' t) \<and> l = home (tcb k' t)"
    if "is_table l" "t \<in> set (rt_lists k l)" for l t
    using tables_okD(1)[OF assms(1) that] sched_part_cong[OF assms(5)[OF that]] by simp
  ultimately show ?thesis using assms(1,2) by (simp add: tables_ok_def)
qed

lemma tables_ok_upd_untabled: "tables_ok k \<Longrightarrow> untabled t k \<Longrightarrow> tables_ok (th_upd t f k)"
  by (rule tables_ok_cong) (auto simp: untabled_def)

lemma unlisted_untabled: "unlisted t k \<Longrightarrow> untabled t k"
  by (simp add: unlisted_def untabled_def)

section \<open>Inserting and removing\<close>

lemma bit_or_mask: "p < 32 \<Longrightarrow> bit (g OR 2 ^ p :: word32) q \<longleftrightarrow> bit g q \<or> q = p"
  by (auto simp: bit_simps bit_exp_iff)

lemma bit_and_not_mask: "bit (g AND NOT (2 ^ p) :: word32) q \<longleftrightarrow> bit g q \<and> q \<noteq> p"
  by (auto simp: bit_simps bit_exp_iff dest: bit_imp_le_length)

lemma insert_lists:
  assumes "oncpu (tcb k t) = RT_CPU_DETACHED"
  shows "rt_lists (rt_schedule_insert_thread t k) = (rt_lists k)(home (tcb k t) := rt_lists k (home (tcb k t)) @ [t])"
  using assms by (auto simp: rt_schedule_insert_thread_def Let_def home_def fun_eq_iff)

lemma insert_bits:
  assumes "oncpu (tcb k t) = RT_CPU_DETACHED" "prio_ok (tcb k t)" "is_table l"
  shows "table_bit (rt_schedule_insert_thread t k) l \<longleftrightarrow> table_bit k l \<or> l = home (tcb k t)"
  using assms by (cases l) (auto simp: rt_schedule_insert_thread_def Let_def home_def prio_ok_def bit_or_mask)

lemma insert_tcb: "tcb (rt_schedule_insert_thread t k) = (tcb k)(t := tcb k t\<lparr>stat := RT_THREAD_READY\<rparr>)"
  by (auto simp: rt_schedule_insert_thread_def Let_def fun_eq_iff)

lemma insert_cpu:
  "cpu_id (rt_schedule_insert_thread t k) = cpu_id k"
  "rt_cpus (rt_schedule_insert_thread t k) c = (rt_cpus k c)\<lparr>priority_group := priority_group (rt_cpus (rt_schedule_insert_thread t k) c)\<rparr>"
  by (auto simp: rt_schedule_insert_thread_def Let_def)

lemma home_stat [simp]: "home (x\<lparr>stat := s\<rparr>) = home x" "is_table (home x)"
  by (simp_all add: home_def)

lemma sched_insert_ok:
  assumes "tables_ok k" "unlisted t k" "oncpu (tcb k t) = RT_CPU_DETACHED" "prio_ok (tcb k t)"
  shows "tables_ok (rt_schedule_insert_thread t k)"
proof -
  note l = insert_lists[OF assms(3)] and b = insert_bits[OF assms(3,4)]
  have q: "queued_ok (tcb k t\<lparr>stat := RT_THREAD_READY\<rparr>)" using assms(3,4) by (simp add: queued_ok_def prio_ok_def)
  have "queued_ok (tcb (rt_schedule_insert_thread t k) u) \<and> l' = home (tcb (rt_schedule_insert_thread t k) u)"
    if "is_table l'" "u \<in> set (rt_lists (rt_schedule_insert_thread t k) l')" for l' u
    using that q tables_okD(1)[OF assms(1), of l' u] assms(2)
    by (auto simp: l insert_tcb unlisted_def split: if_splits)
  moreover have "table_bit (rt_schedule_insert_thread t k) l' \<longleftrightarrow> rt_lists (rt_schedule_insert_thread t k) l' \<noteq> []"
    if "is_table l'" for l' using that assms(1) by (auto simp: l b tables_ok_def)
  moreover have "distinct (rt_lists (rt_schedule_insert_thread t k) l')" for l'
    using assms(1,2) by (auto simp: l tables_ok_def unlisted_def)
  moreover have "l' = l''" if "u \<in> set (rt_lists (rt_schedule_insert_thread t k) l')"
    "u \<in> set (rt_lists (rt_schedule_insert_thread t k) l'')" for u l' l''
    using that assms(1,2) unfolding l tables_ok_def unlisted_def by (auto split: if_splits)
  ultimately show ?thesis unfolding tables_ok_def by blast
qed

lemma remove_lists: "rt_lists (rt_schedule_remove_thread t k) l = removeAll t (rt_lists k l)"
  by (simp add: rt_schedule_remove_thread_def Let_def)

lemma remove_tcb: "tcb (rt_schedule_remove_thread t k) = tcb k"
  by (simp add: rt_schedule_remove_thread_def Let_def)

lemma remove_cpu:
  "cpu_id (rt_schedule_remove_thread t k) = cpu_id k"
  "rt_cpus (rt_schedule_remove_thread t k) c = (rt_cpus k c)\<lparr>priority_group := priority_group (rt_cpus (rt_schedule_remove_thread t k) c)\<rparr>"
  by (auto simp: rt_schedule_remove_thread_def Let_def)

lemma remove_bits:
  assumes "prio_ok (tcb k t)" "is_table l"
  shows "table_bit (rt_schedule_remove_thread t k) l \<longleftrightarrow>
    table_bit k l \<and> \<not> (l = home (tcb k t) \<and> removeAll t (rt_lists k l) = [])"
  using assms by (cases l) (auto simp: rt_schedule_remove_thread_def Let_def home_def prio_ok_def bit_and_not_mask)

lemma sched_remove_ok:
  assumes "tables_ok k" "prio_ok (tcb k t)"
  shows "tables_ok (rt_schedule_remove_thread t k)" "unlisted t (rt_schedule_remove_thread t k)"
proof -
  have "table_bit (rt_schedule_remove_thread t k) l \<longleftrightarrow> rt_lists (rt_schedule_remove_thread t k) l \<noteq> []"
    if l: "is_table l" for l
  proof (cases "l = home (tcb k t)")
    case False
    then have "t \<notin> set (rt_lists k l)" using assms(1) l by (auto simp: tables_ok_def)
    then show ?thesis using False assms l by (simp add: remove_bits remove_lists removeAll_id tables_ok_def)
  next
    case True
    then show ?thesis using assms l by (auto simp: remove_bits remove_lists tables_ok_def)
  qed
  then show "tables_ok (rt_schedule_remove_thread t k)"
    using assms(1) unfolding tables_ok_def by (simp add: remove_lists remove_tcb distinct_removeAll) blast
  show "unlisted t (rt_schedule_remove_thread t k)" by (simp add: unlisted_def remove_lists)
qed

section \<open>The thread of the highest priority\<close>

lemma ready_onD:
  assumes "tables_ok k" "t \<in> ready_on c k"
  shows "\<exists>l. is_table l \<and> t \<in> set (rt_lists k l) \<and> l = home (tcb k t) \<and> queued_ok (tcb k t) \<and>
    (l = PriorityTable (prio k t) \<or> l = CpuTable c (prio k t)) \<and> prio k t < 32"
proof -
  obtain l where l: "table_of c l" "t \<in> set (rt_lists k l)" using assms(2) by (auto simp: ready_on_def)
  note q = tables_okD(1)[OF assms(1) table_of_is_table[OF l(1)] l(2)]
  then have "l = PriorityTable (prio k t) \<or> l = CpuTable c (prio k t)"
    using l(1) by (auto simp: home_def prio_def split: if_splits)
  then show ?thesis using q l table_of_is_table[OF l(1)] by (auto simp: prio_def queued_ok_def prio_ok_def)
qed

text \<open>The number the search for a bit gives, less one: the lowest bit, or the largest word.\<close>

lemma ffs_prio:
  "unat (rt_ffs g - 1) < 32 \<Longrightarrow> lowest_at g (unat (rt_ffs g - 1))"
  "bit g p \<Longrightarrow> p < 32 \<Longrightarrow> unat (rt_ffs g - 1) \<le> p"
  "g \<noteq> 0 \<Longrightarrow> unat (rt_ffs g - 1) < 32"
proof -
  have n: "unat (rt_ffs g - 1) < 32 \<and> lowest_at g (unat (rt_ffs g - 1))" if g: "g \<noteq> 0"
  proof -
    obtain i where i: "i < 32" "rt_ffs g = of_nat i + 1" "lowest_at g i" using ffs_ok[of g] g by auto
    have "unat (of_nat i :: word32) = i mod 4294967296" by (simp add: unat_of_nat)
    then have "unat (rt_ffs g - 1) = i" using i by simp
    then show ?thesis using i by simp
  qed
  then show "g \<noteq> 0 \<Longrightarrow> unat (rt_ffs g - 1) < 32" by blast
  show "lowest_at g (unat (rt_ffs g - 1))" if "unat (rt_ffs g - 1) < 32"
  proof (cases "g = 0")
    case True
    then have "unat (rt_ffs g - 1) = unat (- 1 :: word32)" by (simp add: rt_ffs_def)
    moreover have "unat (- 1 :: word32) = 4294967295" using unat_sub_if_size[of 0 "1 :: word32"] by (simp add: word_size)
    ultimately show ?thesis using that by simp
  qed (use n in blast)
  show "unat (rt_ffs g - 1) \<le> p" if "bit g p" "p < 32"
  proof (rule ccontr)
    assume "\<not> unat (rt_ffs g - 1) \<le> p"
    moreover have "lowest_at g (unat (rt_ffs g - 1))" using n that(1) by fastforce
    ultimately show False using that by (auto simp: lowest_at_def)
  qed
qed

lemma first_of_table:
  assumes "tables_ok k" "unat p < 32" "table_bit k (tab (unat p))" "is_table (tab (unat p))"
    "tab = PriorityTable \<or> tab = CpuTable (cpu_id k)"
  shows "\<exists>t. first_of tab p k = Some t \<and> t \<in> ready_on (cpu_id k) k \<and> prio k t = unat p"
proof -
  have "rt_lists k (tab (unat p)) \<noteq> []" using tables_okD(2)[OF assms(1,4)] assms(3) by simp
  then obtain t ts where l: "rt_lists k (tab (unat p)) = t # ts" by (cases "rt_lists k (tab (unat p))") auto
  then have "tab (unat p) = home (tcb k t)" using tables_okD(1)[OF assms(1,4), of t] by simp
  then have "prio k t = unat p" using assms(5) by (auto simp: home_def prio_def split: if_splits)
  moreover have "t \<in> set (rt_lists k (tab (unat p)))" by (simp add: l)
  then have "t \<in> ready_on (cpu_id k) k" using assms(5) by (force simp: ready_on_def)
  ultimately show ?thesis using assms(2) l by (simp add: first_of_def RT_THREAD_PRIORITY_MAX_def)
qed

lemma highest_ok:
  assumes "tables_ok k" "any_ready k"
  shows "\<exists>p t. get_highest_priority_thread k = Some (p, t) \<and> t \<in> ready_on (cpu_id k) k \<and> prio k t = unat p \<and>
    (\<forall>u\<in>ready_on (cpu_id k) k. unat p \<le> prio k u)"
proof -
  define g l where "g = rt_thread_ready_priority_group k" and "l = priority_group (rt_cpus k (cpu_id k))"
  define hp lp where "hp = rt_ffs g - 1" and "lp = rt_ffs l - 1"
  have h: "get_highest_priority_thread k = (if hp < lp then map_option (Pair hp) (first_of PriorityTable hp k)
      else map_option (Pair lp) (first_of (CpuTable (cpu_id k)) lp k))"
    by (simp add: get_highest_priority_thread_def Let_def hp_def lp_def g_def l_def rt_cpu_self_def)
  have le: "min (unat hp) (unat lp) \<le> prio k u" if u: "u \<in> ready_on (cpu_id k) k" for u
  proof -
    obtain tl where tl: "is_table tl" "u \<in> set (rt_lists k tl)" "tl = PriorityTable (prio k u) \<or> tl = CpuTable (cpu_id k) (prio k u)"
      "prio k u < 32" using ready_onD[OF assms(1) u] by blast
    then have "table_bit k tl" using tables_okD(2)[OF assms(1) tl(1)] by (cases "rt_lists k tl") auto
    then have "bit g (prio k u) \<or> bit l (prio k u)" using tl(3) by (auto simp: g_def l_def)
    then show ?thesis using ffs_prio(2) tl(4) by (fastforce simp: hp_def lp_def min_le_iff_disj)
  qed
  have low: "unat hp < 32 \<or> unat lp < 32"
    using assms(2) ffs_prio(3) by (auto simp: any_ready_def g_def l_def hp_def lp_def rt_cpu_self_def)
  show ?thesis
  proof (cases "hp < lp")
    case True
    then have p: "unat hp < 32" "unat hp < unat lp" using low by (auto simp: word_less_nat_alt)
    then have "bit g (unat hp)" using ffs_prio(1)[of g] by (simp add: hp_def lowest_at_def)
    then obtain t where "first_of PriorityTable hp k = Some t" "t \<in> ready_on (cpu_id k) k" "prio k t = unat hp"
      using first_of_table[OF assms(1) p(1), of PriorityTable] by (auto simp: g_def)
    then show ?thesis using h True le p(2) by (auto simp: min_def)
  next
    case False
    then have p: "unat lp < 32" "unat lp \<le> unat hp" using low by (auto simp: word_less_nat_alt)
    then have "bit l (unat lp)" using ffs_prio(1)[of l] by (simp add: lp_def lowest_at_def)
    then obtain t where "first_of (CpuTable (cpu_id k)) lp k = Some t" "t \<in> ready_on (cpu_id k) k" "prio k t = unat lp"
      using first_of_table[OF assms(1) p(1), of "CpuTable (cpu_id k)"] by (auto simp: l_def)
    then show ?thesis using h False le p(2) by (auto simp: min_absorb2)
  qed
qed

section \<open>Scheduling\<close>

text \<open>
  The current thread, running here and not in a ready table, and free to be switched. It may be in the
  list of an object it is about to wait for, but not while it is ready.
\<close>

definition running_ok :: "kernel \<Rightarrow> tid \<Rightarrow> bool" where
  "running_ok k t \<longleftrightarrow> rt_thread_self k = Some t \<and> untabled t k \<and>
     (stat (tcb k t) = RT_THREAD_READY \<longrightarrow> unlisted t k \<and> prio_ok (tcb k t)) \<and>
     (bind_cpu (tcb k t) = RT_CPUS_NR \<or> unat (bind_cpu (tcb k t)) = cpu_id k)"

lemma untabled_ready: "untabled t k \<Longrightarrow> t \<notin> ready_on c k"
  by (auto simp: untabled_def ready_on_def dest: table_of_is_table)

lemma ready_insert:
  assumes "oncpu (tcb k t) = RT_CPU_DETACHED" "bind_cpu (tcb k t) = RT_CPUS_NR \<or> unat (bind_cpu (tcb k t)) = c"
  shows "ready_on c (rt_schedule_insert_thread t k) = insert t (ready_on c k)"
proof -
  have "table_of c (home (tcb k t))" using assms(2) by (auto simp: home_def)
  then show ?thesis unfolding ready_on_def insert_lists[OF assms(1)] fun_upd_apply by (auto split: if_splits) metis
qed

lemma ready_remove: "ready_on c (rt_schedule_remove_thread t k) = ready_on c k - {t}"
  by (auto simp: ready_on_def remove_lists)

lemma ready_on_cong: "rt_lists k' = rt_lists k \<Longrightarrow> ready_on c k' = ready_on c k"
  by (simp add: ready_on_def)

text \<open>
  Marking the chosen thread with its processor before taking it out of the tables is the same as
  after.
\<close>

lemma remove_th_upd:
  assumes "\<And>x. bind_cpu (f x) = bind_cpu x" "\<And>x. current_priority (f x) = current_priority x" "\<And>x. number_mask (f x) = number_mask x"
  shows "rt_schedule_remove_thread t (th_upd u f k) = th_upd u f (rt_schedule_remove_thread t k)"
  using assms by (auto simp: rt_schedule_remove_thread_def Let_def th_upd_def rt_list_remove_def cpu_upd_def)

lemma remove_cpu_upd:
  assumes "\<And>x. priority_group (f x) = priority_group x" "\<And>x g. f (x\<lparr>priority_group := g\<rparr>) = (f x)\<lparr>priority_group := g\<rparr>"
  shows "rt_schedule_remove_thread t (cpu_upd c f k) = cpu_upd c f (rt_schedule_remove_thread t k)"
  using assms by (auto simp: rt_schedule_remove_thread_def Let_def rt_list_remove_def cpu_upd_def fun_upd_twist fun_eq_iff)

text \<open>
  What \<open>next_thread\<close> chooses: \<open>k1\<close> is the state before the chosen thread is marked with its processor, in
  which the current thread is detached from it and, when it lost, back in its table.
\<close>

lemma next_thread_ok:
  assumes "tables_ok k" "running_ok k cur" "any_ready k"
  obtains p to k1 where "next_thread cur k = Some (p, to, th_upd to (\<lambda>x. x\<lparr>oncpu := of_nat (cpu_id k)\<rparr>) k1)"
    "to = cur \<or> to \<in> ready_on (cpu_id k) k" "\<forall>u\<in>ready_on (cpu_id k) k. prio k to \<le> prio k u"
    "if stat (tcb k cur) = RT_THREAD_READY then prio k to \<le> prio k cur else to \<noteq> cur"
    "tables_ok k1" "cpu_id k1 = cpu_id k" "tcb k1 = (tcb k)(cur := tcb k cur\<lparr>oncpu := RT_CPU_DETACHED\<rparr>)"
    "\<forall>c. rt_cpus k1 c = (rt_cpus k c)\<lparr>priority_group := priority_group (rt_cpus k1 c)\<rparr>"
    "\<forall>l. \<not> is_table l \<longrightarrow> rt_lists k1 l = rt_lists k l" "to = cur \<Longrightarrow> unlisted cur k1"
    "ready_on (cpu_id k) k1 = ready_on (cpu_id k) k \<union> (if stat (tcb k cur) = RT_THREAD_READY \<and> to \<noteq> cur then {cur} else {})"
proof -
  obtain p t where h: "get_highest_priority_thread k = Some (p, t)" "t \<in> ready_on (cpu_id k) k" "prio k t = unat p"
    "\<forall>u\<in>ready_on (cpu_id k) k. unat p \<le> prio k u" using highest_ok[OF assms(1,3)] by blast
  have cur: "untabled cur k" "bind_cpu (tcb k cur) = RT_CPUS_NR \<or> unat (bind_cpu (tcb k cur)) = cpu_id k"
    using assms(2) by (simp_all add: running_ok_def)
  have ne: "t \<noteq> cur" using h(2) untabled_ready[OF cur(1)] by auto
  define k0 where "k0 = th_upd cur (\<lambda>x. x\<lparr>oncpu := RT_CPU_DETACHED\<rparr>) k"
  have k0: "tables_ok k0" "ready_on (cpu_id k) k0 = ready_on (cpu_id k) k" "cpu_id k0 = cpu_id k" "rt_cpus k0 = rt_cpus k"
    "rt_lists k0 = rt_lists k" "tcb k0 = (tcb k)(cur := tcb k cur\<lparr>oncpu := RT_CPU_DETACHED\<rparr>)"
    using tables_ok_upd_untabled[OF assms(1) cur(1)] by (simp_all add: k0_def ready_on_def fun_eq_iff)
  note nt = next_thread_def[of cur k, unfolded h(1) Let_def, folded k0_def]
  show thesis
  proof (cases "stat (tcb k cur) = RT_THREAD_READY")
    case False
    then have "next_thread cur k = Some (p, t, th_upd t (\<lambda>x. x\<lparr>oncpu := of_nat (cpu_id k)\<rparr>) k0)"
      using nt k0 by simp
    then show thesis using False h ne k0 by (intro that[of p t k0]) auto
  next
    case ready: True
    then have u: "unlisted cur k" "prio_ok (tcb k cur)" using assms(2) by (simp_all add: running_ok_def)
    show thesis
    proof (cases "prio k cur < unat p")
      case True
      then have "next_thread cur k = Some (p, cur, th_upd cur (\<lambda>x. x\<lparr>oncpu := of_nat (cpu_id k)\<rparr>) k0)"
        using nt k0 ready by (simp add: prio_def)
      then show thesis using True ready h k0 u(1) by (intro that[of p cur k0]) (auto simp: unlisted_def)
    next
      case False
      define k1 where "k1 = rt_schedule_insert_thread cur k0"
      have o: "oncpu (tcb k0 cur) = RT_CPU_DETACHED" "prio_ok (tcb k0 cur)" "unlisted cur k0" "bind_cpu (tcb k0 cur) = bind_cpu (tcb k cur)"
        using u k0 by (simp_all add: prio_ok_def unlisted_def)
      have k1: "tables_ok k1" unfolding k1_def by (rule sched_insert_ok[OF k0(1) o(3,1,2)])
      have c1: "cpu_id k1 = cpu_id k" "rt_cpus k1 c = (rt_cpus k c)\<lparr>priority_group := priority_group (rt_cpus k1 c)\<rparr>" for c
        using insert_cpu[of cur k0] k0 by (simp_all add: k1_def)
      have r1: "ready_on (cpu_id k) k1 = insert cur (ready_on (cpu_id k) k)"
        unfolding k1_def using ready_insert[OF o(1)] cur(2) o(4) k0(2) by simp
      have t1: "tcb k1 = (tcb k)(cur := tcb k cur\<lparr>oncpu := RT_CPU_DETACHED\<rparr>)"
        using ready k0(6) by (cases "tcb k cur") (simp add: k1_def insert_tcb)
      have l1: "rt_lists k1 l = rt_lists k l" if "\<not> is_table l" for l
        using that home_stat(2)[of "tcb k0 cur"] unfolding k1_def insert_lists[OF o(1)] by (auto simp: k0(5))
      have "next_thread cur k = Some (p, t, th_upd t (\<lambda>x. x\<lparr>oncpu := of_nat (cpu_id k)\<rparr>) k1)"
        using nt k0 ready False c1(1) by (simp add: k1_def[symmetric] prio_def)
      then show thesis using False ready h ne k1 r1 c1 t1 l1 by (intro that[of p t k1]) auto
    qed
  qed
qed

lemma lock_simps [simp]:
  "rt_lists (rt_cpus_lock k) = rt_lists k" "rt_cpus (rt_cpus_lock k) = rt_cpus k" "cpu_id (rt_cpus_lock k) = cpu_id k"
  "rt_thread_ready_priority_group (rt_cpus_lock k) = rt_thread_ready_priority_group k"
  "rt_lists (rt_cpus_unlock k) = rt_lists k" "rt_cpus (rt_cpus_unlock k) = rt_cpus k" "cpu_id (rt_cpus_unlock k) = cpu_id k"
  "rt_thread_ready_priority_group (rt_cpus_unlock k) = rt_thread_ready_priority_group k"
  by (auto simp: rt_cpus_lock_def rt_cpus_unlock_def split: option.splits)

text \<open>The two counters of locks, and the rest of a thread.\<close>

definition lock_free :: "rt_thread \<Rightarrow> rt_thread" where
  "lock_free x = x\<lparr>scheduler_lock_nest := 0, cpus_lock_nest := 0\<rparr>"

lemma lock_free_eq:
  assumes "lock_free x = lock_free y"
  shows "th_error x = th_error y" "stat x = stat y" "bind_cpu x = bind_cpu y" "oncpu x = oncpu y"
    "current_priority x = current_priority y" "init_priority x = init_priority y" "number_mask x = number_mask y"
    "event_set x = event_set y" "event_info x = event_info y" "sched_part x = sched_part y" "prio_ok x = prio_ok y"
  using assms by (cases x; cases y; simp add: lock_free_def sched_part_def prio_ok_def)+

lemma lock_free_lock [simp]:
  "lock_free (tcb (rt_cpus_lock k) t) = lock_free (tcb k t)" "lock_free (tcb (rt_cpus_unlock k) t) = lock_free (tcb k t)"
  by (auto simp: rt_cpus_lock_def rt_cpus_unlock_def lock_free_def split: option.splits)

lemmas lock_parts [simp] = lock_free_eq[OF lock_free_lock(1)] lock_free_eq[OF lock_free_lock(2)]

lemma tables_ok_lock: "tables_ok k \<Longrightarrow> tables_ok (rt_cpus_lock k)" "tables_ok k \<Longrightarrow> tables_ok (rt_cpus_unlock k)"
  by (rule tables_ok_cong, assumption, simp_all)+

lemma lock_nests:
  assumes "rt_thread_self k = Some t" "cpus_lock_nest (tcb k t) = 0" "scheduler_lock_nest (tcb k t) = 0"
  shows "scheduler_lock_nest (tcb (rt_cpus_lock k) t) = 1"
  using assms by (simp add: rt_cpus_lock_def)

text \<open>Taking and giving up the lock are inverse, whatever the counters are.\<close>

lemma unlock_lock: "rt_cpus_unlock (rt_cpus_lock k) = k"
proof -
  have nest: "x\<lparr>cpus_lock_nest := n\<rparr> = x" if "cpus_lock_nest x = n" for x :: rt_thread and n using that by (cases x) simp
  show ?thesis
    by (auto simp: rt_cpus_lock_def rt_cpus_unlock_def rt_thread_self_def rt_cpu_self_def th_upd_def nest split: option.splits)
qed

lemma switch_simps [simp]:
  "rt_lists (switch_to t k) = rt_lists k" "cpu_id (switch_to t k) = cpu_id k"
  "rt_cpus (switch_to t k) c = (if c = cpu_id k then (rt_cpus k c)\<lparr>current_thread := Some t\<rparr> else rt_cpus k c)"
  "lock_free (tcb (switch_to t k) u) = lock_free (tcb k u)"
  by (simp_all add: switch_to_def Let_def)

lemma tables_ok_switch: "tables_ok k \<Longrightarrow> tables_ok (switch_to t k)"
  by (rule tables_ok_cong, assumption) (auto simp: switch_to_def Let_def)

text \<open>
  The switch: a state that differs from \<open>k\<close> only in what the scheduler keeps, and in which the processor
  runs the thread \<open>to\<close>.
\<close>

definition switched :: "kernel \<Rightarrow> tid \<Rightarrow> tid \<Rightarrow> kernel \<Rightarrow> bool" where
  "switched k cur to k' \<longleftrightarrow> tables_ok k' \<and> rt_thread_self k' = Some to \<and> unlisted to k' \<and> cpu_id k' = cpu_id k \<and>
     (\<forall>u. lock_free (tcb k' u) = lock_free (tcb k u\<lparr>oncpu :=
        (if u = to then of_nat (cpu_id k) else if u = cur then RT_CPU_DETACHED else oncpu (tcb k u))\<rparr>)) \<and>
     (\<forall>l. \<not> is_table l \<longrightarrow> rt_lists k' l = rt_lists k l) \<and>
     (\<forall>c. c \<noteq> cpu_id k \<longrightarrow> current_thread (rt_cpus k' c) = current_thread (rt_cpus k c)) \<and>
     ready_on (cpu_id k) k' = (ready_on (cpu_id k) k \<union> (if stat (tcb k cur) = RT_THREAD_READY then {cur} else {})) - {to}"

definition best_choice :: "kernel \<Rightarrow> tid \<Rightarrow> tid \<Rightarrow> bool" where
  "best_choice k cur to \<longleftrightarrow> (to = cur \<or> to \<in> ready_on (cpu_id k) k) \<and> (\<forall>u\<in>ready_on (cpu_id k) k. prio k to \<le> prio k u) \<and>
     (if stat (tcb k cur) = RT_THREAD_READY then prio k to \<le> prio k cur else to \<noteq> cur)"


text \<open>The end of \<open>rt_schedule\<close>, in terms of what \<open>next_thread\<close> gives.\<close>

definition finish_switch :: "tid \<Rightarrow> word32 \<times> tid \<times> kernel \<Rightarrow> kernel" where
  "finish_switch cur = (\<lambda>(p, to, k). if to \<noteq> cur then switch_to to (rt_schedule_remove_thread to
     (cpu_upd (cpu_id k) (\<lambda>c. c\<lparr>cpu_priority := ucast p\<rparr>) k)) else rt_cpus_unlock k)"

lemma finish_switched:
  assumes "tables_ok k1" "cpu_id k1 = cpu_id k" "tcb k1 = (tcb k)(cur := tcb k cur\<lparr>oncpu := RT_CPU_DETACHED\<rparr>)"
    "\<forall>c. rt_cpus k1 c = (rt_cpus k c)\<lparr>priority_group := priority_group (rt_cpus k1 c)\<rparr>"
    "\<forall>l. \<not> is_table l \<longrightarrow> rt_lists k1 l = rt_lists k l" "to = cur \<Longrightarrow> unlisted cur k1"
    "ready_on (cpu_id k) k1 = ready_on (cpu_id k) k \<union> (if stat (tcb k cur) = RT_THREAD_READY \<and> to \<noteq> cur then {cur} else {})"
    "rt_thread_self k = Some cur" "cur \<notin> ready_on (cpu_id k) k" "to = cur \<or> to \<in> ready_on (cpu_id k) k"
  shows "switched k cur to (finish_switch cur (p, to, th_upd to (\<lambda>x. x\<lparr>oncpu := of_nat (cpu_id k)\<rparr>) k1))"
proof -
  let ?m = "th_upd to (\<lambda>x. x\<lparr>oncpu := of_nat (cpu_id k)\<rparr>)"
  have cc: "current_thread (rt_cpus k1 c) = current_thread (rt_cpus k c)" for c by (subst assms(4)[rule_format]) simp
  show ?thesis
  proof (cases "to = cur")
    case True
    have u: "unlisted cur k1" by (rule assms(6)[OF True])
    have "tables_ok (?m k1)" unfolding True by (rule tables_ok_upd_untabled[OF assms(1) unlisted_untabled[OF u]])
    then have "tables_ok (rt_cpus_unlock (?m k1))" by (rule tables_ok_lock(2))
    moreover have "ready_on (cpu_id k) (rt_cpus_unlock (?m k1)) = ready_on (cpu_id k) k1" by (rule ready_on_cong) simp
    ultimately show ?thesis using True assms u cc
      by (auto simp: finish_switch_def switched_def rt_thread_self_def rt_cpu_self_def unlisted_def)
  next
    case False
    then have r: "to \<in> ready_on (cpu_id k) k1" using assms(7,10) by simp
    then obtain h where h: "is_table h" "to \<in> set (rt_lists k1 h)" "queued_ok (tcb k1 to)"
      using ready_onD[OF assms(1)] by blast
    define k3 where "k3 = rt_schedule_remove_thread to k1"
    note k3 = sched_remove_ok[OF assms(1), of to, folded k3_def]
    have po: "prio_ok (tcb k1 to)" using h(3) by (simp add: queued_ok_def)
    have e: "rt_schedule_remove_thread to (cpu_upd (cpu_id k) (\<lambda>c. c\<lparr>cpu_priority := ucast p\<rparr>) (?m k1)) =
        cpu_upd (cpu_id k) (\<lambda>c. c\<lparr>cpu_priority := ucast p\<rparr>) (?m k3)"
      unfolding k3_def by (subst remove_cpu_upd) (simp_all add: remove_th_upd)
    define k4 where "k4 = cpu_upd (cpu_id k) (\<lambda>c. c\<lparr>cpu_priority := ucast p\<rparr>) (?m k3)"
    have k4: "tables_ok k4" unfolding k4_def
      by (rule tables_ok_cong[OF tables_ok_upd_untabled[OF k3(1)[OF po] unlisted_untabled[OF k3(2)[OF po]], of "\<lambda>x. x\<lparr>oncpu := of_nat (cpu_id k)\<rparr>"]]) auto
    have l4: "rt_lists k4 l = removeAll to (rt_lists k1 l)" for l by (simp add: k4_def k3_def remove_lists)
    have nt: "rt_lists k4 l = rt_lists k l" if "\<not> is_table l" for l
    proof -
      have "to \<notin> set (rt_lists k1 l)" using assms(1) h that unfolding tables_ok_def by metis
      then show ?thesis using assms(5) that by (simp add: l4)
    qed
    have cur4: "current_thread (rt_cpus k4 c) = current_thread (rt_cpus k c)" "cpu_id k4 = cpu_id k" for c
    proof -
      have "current_thread (rt_cpus k3 c) = current_thread (rt_cpus k1 c)"
        unfolding k3_def by (subst remove_cpu(2)) simp
      then show "current_thread (rt_cpus k4 c) = current_thread (rt_cpus k c)"
        using cc[of c] by (cases "c = cpu_id k") (simp_all add: k4_def)
      show "cpu_id k4 = cpu_id k" by (simp add: k4_def k3_def remove_cpu(1) assms(2))
    qed
    have t4: "tcb k4 u = tcb k u\<lparr>oncpu := if u = to then of_nat (cpu_id k) else if u = cur then RT_CPU_DETACHED else oncpu (tcb k u)\<rparr>" for u
      using False by (simp add: k4_def k3_def remove_tcb assms(3))
    have "ready_on (cpu_id k) k4 = ready_on (cpu_id k) k1 - {to}"
      unfolding ready_remove[symmetric] k3_def[symmetric] by (rule ready_on_cong) (simp add: k4_def)
    moreover have "ready_on (cpu_id k) (switch_to to k4) = ready_on (cpu_id k) k4" by (rule ready_on_cong) simp
    ultimately show ?thesis using False assms(2,7) nt cur4 tables_ok_switch[OF k4, of to]
      unfolding finish_switch_def case_prod_conv
      by (simp add: e k4_def[symmetric] switched_def rt_thread_self_def rt_cpu_self_def unlisted_def l4 t4 Un_Diff)
  qed
qed

text \<open>The three ways through \<open>rt_schedule\<close>.\<close>

lemma finish_bind: "do { (p, to, k) \<leftarrow> m; (if to \<noteq> cur then Some (switch_to to (rt_schedule_remove_thread to
      (cpu_upd (cpu_id k) (\<lambda>c. c\<lparr>cpu_priority := ucast p\<rparr>) k))) else Some (rt_cpus_unlock k)) } = map_option (finish_switch cur) m"
  by (cases m) (auto simp: finish_switch_def)

lemma schedule_unfold:
  "rt_schedule k = (case rt_thread_self k of None \<Rightarrow> None | Some cur \<Rightarrow>
     if irq_nest (rt_cpu_self k) \<noteq> 0 then Some (rt_cpus_unlock (cpu_upd (cpu_id k) (\<lambda>p. p\<lparr>irq_switch_flag := True\<rparr>) (rt_cpus_lock k)))
     else if scheduler_lock_nest (tcb (rt_cpus_lock k) cur) = 1 \<and> any_ready k
     then map_option (finish_switch cur) (next_thread cur (rt_cpus_lock k)) else Some k)"
proof -
  have l: "rt_thread_self (rt_cpus_lock k) = rt_thread_self k" "rt_cpu_self (rt_cpus_lock k) = rt_cpu_self k"
    "any_ready (rt_cpus_lock k) = any_ready k"
    by (simp_all add: rt_thread_self_def rt_cpu_self_def any_ready_def)
  show ?thesis unfolding rt_schedule_def finish_bind by (simp add: l unlock_lock split: option.split)
qed

text \<open>When \<open>rt_schedule\<close> is allowed to switch, it does, to the best choice.\<close>

lemma schedule_ok:
  assumes "tables_ok k" "running_ok k cur" "any_ready k" "irq_nest (rt_cpu_self k) = 0"
    "scheduler_lock_nest (tcb (rt_cpus_lock k) cur) = 1"
  shows "\<exists>k' to. rt_schedule k = Some k' \<and> switched k cur to k' \<and> best_choice k cur to"
proof -
  define l where "l = rt_cpus_lock k"
  have self: "rt_thread_self k = Some cur" "cur \<notin> ready_on (cpu_id k) k"
    using assms(2) untabled_ready by (auto simp: running_ok_def)
  have l: "tables_ok l" "running_ok l cur" "any_ready l" "cpu_id l = cpu_id k" "ready_on c l = ready_on c k"
      "prio l u = prio k u" "rt_thread_self l = Some cur" "stat (tcb l cur) = stat (tcb k cur)"
      "rt_lists l = rt_lists k" "rt_cpus l = rt_cpus k" for c u
    using assms tables_ok_lock(1)
    by (simp_all add: l_def running_ok_def any_ready_def unlisted_def untabled_def ready_on_def prio_def
      rt_thread_self_def rt_cpu_self_def)
  obtain p to k1 where nt: "next_thread cur l = Some (p, to, th_upd to (\<lambda>x. x\<lparr>oncpu := of_nat (cpu_id l)\<rparr>) k1)" and
    best: "to = cur \<or> to \<in> ready_on (cpu_id l) l" "\<forall>u\<in>ready_on (cpu_id l) l. prio l to \<le> prio l u"
      "if stat (tcb l cur) = RT_THREAD_READY then prio l to \<le> prio l cur else to \<noteq> cur" and
    k1: "tables_ok k1" "cpu_id k1 = cpu_id l" "tcb k1 = (tcb l)(cur := tcb l cur\<lparr>oncpu := RT_CPU_DETACHED\<rparr>)"
    "\<forall>c. rt_cpus k1 c = (rt_cpus l c)\<lparr>priority_group := priority_group (rt_cpus k1 c)\<rparr>"
    "\<forall>l'. \<not> is_table l' \<longrightarrow> rt_lists k1 l' = rt_lists l l'" "to = cur \<Longrightarrow> unlisted cur k1"
    "ready_on (cpu_id l) k1 = ready_on (cpu_id l) l \<union> (if stat (tcb l cur) = RT_THREAD_READY \<and> to \<noteq> cur then {cur} else {})"
    by (rule next_thread_ok[OF l(1-3)], rule that)
  have b: "best_choice k cur to" using best by (simp add: best_choice_def l split: if_splits)
  have s: "switched l cur to (finish_switch cur (p, to, th_upd to (\<lambda>x. x\<lparr>oncpu := of_nat (cpu_id l)\<rparr>) k1))"
    using finish_switched[OF k1 l(7)] self(2) best(1) by (simp add: l)
  have lf: "lock_free (tcb l u\<lparr>oncpu := c\<rparr>) = lock_free (tcb k u\<lparr>oncpu := c\<rparr>)" for u c
    using lock_free_lock(1)[of k u] by (cases "tcb l u"; cases "tcb k u") (simp add: l_def lock_free_def)
  have "switched k cur to (finish_switch cur (p, to, th_upd to (\<lambda>x. x\<lparr>oncpu := of_nat (cpu_id l)\<rparr>) k1))"
    using s lock_free_eq(4)[OF lock_free_lock(1)[of k]] by (simp add: switched_def l lf) (simp add: l_def)
  then show ?thesis using assms(3-5) self(1) nt b by (auto simp: schedule_unfold l_def[symmetric])
qed

text \<open>
  C21: after \<open>rt_schedule\<close> the processor runs a thread of the highest priority among the ready threads it
  may run and the current thread; a current thread that is ready and not chosen is back in the
  ready queue, the tables are consistent, and the lists of waiting threads are as before.
\<close>

theorem schedule_runs_highest:
  assumes "tables_ok k" "running_ok k cur" "any_ready k" "irq_nest (rt_cpu_self k) = 0"
    "cpus_lock_nest (tcb k cur) = 0" "scheduler_lock_nest (tcb k cur) = 0"
  shows "\<exists>k' to. rt_schedule k = Some k' \<and> tables_ok k' \<and> rt_thread_self k' = Some to \<and> unlisted to k' \<and>
    (to = cur \<or> to \<in> ready_on (cpu_id k) k) \<and> (\<forall>u\<in>ready_on (cpu_id k) k. prio k to \<le> prio k u) \<and>
    (if stat (tcb k cur) = RT_THREAD_READY then prio k to \<le> prio k cur else to \<noteq> cur) \<and>
    (\<forall>l. \<not> is_table l \<longrightarrow> rt_lists k' l = rt_lists k l) \<and>
    ready_on (cpu_id k) k' =
      (ready_on (cpu_id k) k \<union> (if stat (tcb k cur) = RT_THREAD_READY then {cur} else {})) - {to}"
proof -
  have "rt_thread_self k = Some cur" using assms(2) by (simp add: running_ok_def)
  from schedule_ok[OF assms(1-4) lock_nests[OF this assms(5,6)]] show ?thesis
    unfolding switched_def best_choice_def by blast
qed

end
