(* ===== verification/RtRingCreate.thy ===== *)
theory RtRingCreate
  imports RtRingbufferQueue RtRealloc
begin

text \<open>
  Creating and destroying a ring buffer on a heap (end of \<open>components/drivers/src/ringbuffer.c\<close>): a
  client of the allocator interface. The two allocations are not all or nothing.
\<close>

section \<open>Operations\<close>

text \<open>
  The control block is twelve bytes. \<open>bytes\<close> is the contents of a block, which the code leaves as it
  finds it. The result is the pointer returned and, when the buffer was initialised, its pool and
  contents. A failed assertion is a fault.
\<close>

definition rt_ringbuffer_create ::
    "(word32 \<Rightarrow> 's \<Rightarrow> (word32 \<times> 's) outcome) \<Rightarrow> (word32 \<Rightarrow> 's \<Rightarrow> 's outcome) \<Rightarrow>
     (word32 \<Rightarrow> nat \<Rightarrow> 's \<Rightarrow> byte list) \<Rightarrow> word16 \<Rightarrow> 's \<Rightarrow>
     (word32 \<times> (word32 \<times> rt_ringbuffer) option \<times> 's) outcome" where
  "rt_ringbuffer_create malloc free bytes sz s = (if sz = 0 then Fault else
     let sz = word_of_int (RT_ALIGN_DOWN (uint sz) 4) :: word16 in
     obind (malloc 12 s) (\<lambda>(rb, s). if rb = 0 then Done (0, None, s) else
     obind (malloc (ucast sz) s) (\<lambda>(pool, s).
       if pool = 0 then obind (free rb s) (\<lambda>s. Done (rb, None, s))
       else obind (of_opt (rt_ringbuffer_init (bytes pool (unat sz) s) sz)) (\<lambda>r. Done (rb, Some (pool, r), s)))))"

definition rt_ringbuffer_destroy ::
    "(word32 \<Rightarrow> 's \<Rightarrow> 's outcome) \<Rightarrow> word32 \<Rightarrow> word32 \<Rightarrow> 's \<Rightarrow> 's outcome" where
  "rt_ringbuffer_destroy free rb pool s = (if rb = 0 then Fault else obind (free pool s) (\<lambda>s. free rb s))"

section \<open>Against the laws of an allocator\<close>

lemma ring_size:
  assumes "sz < (0x8000 :: word16)"
  defines "n \<equiv> word_of_int (RT_ALIGN_DOWN (uint sz) 4) :: word16"
  shows "unat n = unat sz div 4 * 4" "sint n = int (unat sz div 4 * 4)"
proof -
  have lt: "unat sz < 32768" using assms(1) by (simp add: word_less_nat_alt)
  have "uint sz div 4 * 4 = int (unat sz div 4 * 4)" by (simp add: zdiv_int)
  then have n: "n = of_nat (unat sz div 4 * 4)" by (simp only: n_def RT_ALIGN_DOWN_4 of_int_of_nat_eq)
  obtain k where k: "unat sz div 4 * 4 = k" by blast
  then have le: "k < 32768" using lt by linarith
  have "unat n = k mod 65536" unfolding n k by (simp add: unat_of_nat)
  then show u: "unat n = unat sz div 4 * 4" using le k by simp
  have "uint n = int (unat sz div 4 * 4)" using u by (simp only: uint_nat)
  moreover have "- 32768 \<le> uint n" "uint n < 32768" using le k calculation by linarith+
  ultimately show "sint n = int (unat sz div 4 * 4)"
    using signed_take_bit_int_eq_self[of 15 "uint n"] by (simp add: sint_uint)
qed

context allocator
begin

text \<open>
  Either nothing was initialised and no block is kept, or two fresh blocks and an empty ring buffer
  of the size rounded down.
\<close>

lemma ring_create_ok:
  assumes "ok s" "sz \<noteq> 0" "sz < 0x8000" "\<And>p t. length (bytes p (unat sz div 4 * 4) t) = unat sz div 4 * 4"
    "\<And>p t. alloc 0 s = Done (p, t) \<Longrightarrow> p = 0" "\<And>t. ok t \<Longrightarrow> alloc 0 t = Done (0, t)"
  shows "\<exists>p c t. rt_ringbuffer_create alloc release bytes sz s = Done (p, c, t) \<and> ok t \<and>
    (case c of None \<Rightarrow> live t = live s \<and> (p \<noteq> 0 \<longrightarrow> live t p = None)
     | Some (q, rb) \<Rightarrow> p \<noteq> q \<and> live s p = None \<and> live s q = None \<and>
         (\<exists>i j. live t = (live s)(p \<mapsto> i, q \<mapsto> j) \<and> 12 \<le> i \<and> unat sz div 4 * 4 \<le> j) \<and>
         rb_wf rb \<and> rb_N rb = unat sz div 4 * 4 \<and> rb_abs rb = [])"
proof -
  define n where "n = (word_of_int (RT_ALIGN_DOWN (uint sz) 4) :: word16)"
  note n = ring_size[OF assms(3), folded n_def]
  have un: "unat (ucast n :: word32) = unat n"
    by (simp add: unsigned_ucast_eq take_bit_nat_eq_self order.strict_trans[OF unat_word16_less])
  have le: "(12 :: word32) \<le> 0xFFFFFFFC" "(ucast n :: word32) \<le> 0xFFFFFFFC"
    using un less_imp_le[OF order.strict_trans[OF unat_word16_less[of n], of 4294967292]] by (simp_all add: word_le_nat_alt)
  show ?thesis
  proof (cases rule: allocE[OF assms(1) le(1)])
    case 1
    then show ?thesis using assms(1,2) by (simp add: rt_ringbuffer_create_def Let_def)
  next
    case (2 p s1 i)
    note p = this
    show ?thesis
    proof (cases rule: allocE[OF p(3) le(2)])
      case 1
      obtain u where "release p s1 = Done u" "ok u" "live u = live s"
        using alloc_release[OF assms(1) le(1) p(1)] by blast
      then show ?thesis using p 1 assms(2)
        by (intro exI[of _ p] exI[of _ None] exI[of _ u])
          (simp add: rt_ringbuffer_create_def Let_def n_def[symmetric])
    next
      case (2 q s2 j)
      have ne: "p \<noteq> q" using p(5) 2(4) by auto
      have "n \<noteq> 0"
      proof
        assume "n = 0"
        then show False using assms(6)[OF p(3)] 2(1,2) by simp
      qed
      then have "0 < unat n" by (simp add: unat_gt_0)
      then have s4: "4 \<le> sint n" "sint n mod 4 = 0" "nat (sint n) = unat n" using n by (simp_all add: mod_mult_self2_is_0)
      have "length (bytes q (unat n) s2) = nat (sint n)" using assms(4) n by simp
      then obtain rb where "rt_ringbuffer_init (bytes q (unat n) s2) n = Some rb" "rb_wf rb" "rb_N rb = nat (sint n)"
        "rb_abs rb = []" using ringbuffer_init_wf[OF s4(1,2)] by blast
      then show ?thesis using p 2 ne assms(2) n s4 un
        by (intro exI[of _ p] exI[of _ "Some (q, rb)"] exI[of _ s2])
          (auto simp: rt_ringbuffer_create_def Let_def n_def[symmetric])
    qed
  qed
qed

lemma ring_destroy_ok:
  assumes "ok s" "live s p = Some i" "live s q = Some j" "p \<noteq> q"
  shows "\<exists>t. rt_ringbuffer_destroy release p q s = Done t \<and> ok t \<and> live t = (live s)(q := None, p := None)"
proof -
  have "p \<noteq> 0" using no_null assms(1,2) by fastforce
  moreover obtain s1 where "release q s = Done s1" "ok s1" "live s1 = (live s)(q := None)"
    using release_live[OF assms(1,3)] by blast
  moreover from this have "live s1 p = Some i" using assms by simp
  ultimately show ?thesis using release[of s1 p i] by (auto simp: rt_ringbuffer_destroy_def)
qed

end

section \<open>On the kernel heap\<close>

lemma length_get_user [simp]: "length (get_user p n h) = n"
  by (simp add: get_user_def)

lemma malloc_0: "rt_malloc fuel 0 h = Done (0, h)"
  by (simp add: rt_malloc_def)

text \<open>
  C19: creating a ring buffer on the kernel heap returns; either the heap keeps no block of it, and
  the pointer returned, when it is not null, is that of a block that was released again, or it is
  an empty ring buffer in two fresh blocks, which destroying it releases.
\<close>

theorem ringbuffer_create_spec:
  assumes "heap_ready fuel h" "sz \<noteq> 0" "sz < 0x8000"
  shows "\<exists>p c h'. rt_ringbuffer_create (rt_malloc fuel) rt_free get_user sz h = Done (p, c, h') \<and> heap_wf h' \<and>
    (case c of None \<Rightarrow> live_of h' = live_of h \<and> live_of h' p = None
     | Some (q, rb) \<Rightarrow> p \<noteq> q \<and> live_of h p = None \<and> live_of h q = None \<and> rb_wf rb \<and>
         rb_N rb = unat sz div 4 * 4 \<and> rb_abs rb = [] \<and>
         (\<exists>h''. rt_ringbuffer_destroy rt_free p q h' = Done h'' \<and> heap_wf h'' \<and> live_of h'' = live_of h))"
proof -
  obtain p c h' where r: "rt_ringbuffer_create (rt_malloc fuel) rt_free get_user sz h = Done (p, c, h')" "heap_ready fuel h'"
    "case c of None \<Rightarrow> live_of h' = live_of h \<and> (p \<noteq> 0 \<longrightarrow> live_of h' p = None)
     | Some (q, rb) \<Rightarrow> p \<noteq> q \<and> live_of h p = None \<and> live_of h q = None \<and>
         (\<exists>i j. live_of h' = (live_of h)(p \<mapsto> i, q \<mapsto> j) \<and> 12 \<le> i \<and> unat sz div 4 * 4 \<le> j) \<and>
         rb_wf rb \<and> rb_N rb = unat sz div 4 * 4 \<and> rb_abs rb = []"
    using heap.ring_create_ok[OF assms, of get_user] by (auto simp: malloc_0)
  have wf: "heap_wf h'" using r(2) by (simp add: heap_ready_def)
  show ?thesis
  proof (cases c)
    case None
    then show ?thesis using r wf live_of_0[OF wf] by (cases "p = 0") auto
  next
    case (Some d)
    obtain q rb where d: "d = (q, rb)" by fastforce
    obtain i j where l: "live_of h' = (live_of h)(p \<mapsto> i, q \<mapsto> j)" and ne: "p \<noteq> q" "live_of h p = None" "live_of h q = None"
      using r(3) by (auto simp: Some d)
    then have "live_of h' p = Some i" "live_of h' q = Some j" by simp_all
    then obtain t where t: "rt_ringbuffer_destroy rt_free p q h' = Done t" "heap_ready fuel t"
      "live_of t = (live_of h')(q := None, p := None)"
      using heap.ring_destroy_ok[OF r(2) _ _ ne(1)] by blast
    then have "live_of t = live_of h" using l ne by (auto simp: fun_eq_iff)
    then show ?thesis using r wf t Some d by (auto simp: heap_ready_def)
  qed
qed

text \<open>
  A ring buffer of fewer than four bytes is never created: its pool of zero bytes cannot be
  allocated, and the pointer returned is null or that of a released block.
\<close>

theorem ringbuffer_create_small_dangles:
  assumes "heap_ready fuel h" "sz \<noteq> 0" "sz < 4"
  shows "\<exists>p h'. rt_ringbuffer_create (rt_malloc fuel) rt_free get_user sz h = Done (p, None, h') \<and> live_of h' p = None"
proof -
  have "sz < 0x8000" using assms(3) by (simp add: word_less_nat_alt)
  then obtain p c h' where r: "rt_ringbuffer_create (rt_malloc fuel) rt_free get_user sz h = Done (p, c, h')" "heap_ready fuel h'"
    "case c of None \<Rightarrow> live_of h' = live_of h \<and> (p \<noteq> 0 \<longrightarrow> live_of h' p = None)
     | Some (q, rb) \<Rightarrow> p \<noteq> q \<and> live_of h p = None \<and> live_of h q = None \<and>
         (\<exists>i j. live_of h' = (live_of h)(p \<mapsto> i, q \<mapsto> j) \<and> 12 \<le> i \<and> unat sz div 4 * 4 \<le> j) \<and>
         rb_wf rb \<and> rb_N rb = unat sz div 4 * 4 \<and> rb_abs rb = []"
    using heap.ring_create_ok[OF assms(1,2), of get_user] by (auto simp: malloc_0)
  have "unat sz div 4 = 0" using assms(3) by (simp add: word_less_nat_alt)
  then have "c = None" using r(3) by (auto split: option.splits dest: rb_wf_nat(2))
  moreover have "live_of h' 0 = None" using r(2) live_of_0 by (simp add: heap_ready_def)
  ultimately show ?thesis using r by (cases "p = 0") auto
qed

end
