(* ===== verification/RtKernelWitness.thy ===== *)
theory RtKernelWitness
  imports RtSchedSpec RtRingCreate RtHeapWitness
begin

text \<open>The theorems on timers, the scheduler and ring-buffer creation at concrete states.\<close>

section \<open>Timers\<close>

text \<open>
  Tick 100: timer 1 is periodic and due, timer 2 times out at tick 150, timer 3 is not active. The
  rest of the state is the list of the timers that fired.
\<close>

definition demo_timer :: "bool \<Rightarrow> bool \<Rightarrow> word32 \<Rightarrow> word32 \<Rightarrow> rt_timer" where
  "demo_timer periodic active n out =
     \<lparr>tm_periodic = periodic, tm_soft = False, tm_activated = active, init_tick = n, timeout_tick = out\<rparr>"

definition demo_timers :: "nat list timers_scheme" where
  "demo_timers = \<lparr>tick = 100,
     timer_obj = (\<lambda>_. demo_timer False False 30 0)(1 := demo_timer True True 60 95, 2 := demo_timer False True 50 150),
     rt_timer_list = [1, 2], rt_soft_timer_list = [], \<dots> = []\<rparr>"

lemma demo_timers_ok: "timers_ok 90 demo_timers" "periods_ok (\<lambda>_ x. x) 90 demo_timers"
  by (auto simp: timers_ok_def periods_ok_def in_window_def toff_def demo_timers_def demo_timer_def word_less_nat_alt)

lemma timer_start_sorted_witness: "\<exists>s'. timer_start 3 demo_timers = Some s' \<and> rt_timer_list s' = [1, 3, 2]"
proof -
  have t: "\<not> tm_soft (timer_obj demo_timers 3)" "tick demo_timers = 100" "init_tick (timer_obj demo_timers 3) = 30"
    "removeAll 3 (rt_timer_list demo_timers) = [1, 2]"
    by (simp_all add: demo_timers_def demo_timer_def)
  obtain s' xs ys where s: "timer_start 3 demo_timers = Some s'" "timeout_tick (timer_obj s' 3) = 130"
    "rt_timer_list s' = xs @ 3 # ys" "xs @ ys = [1, 2]" "\<forall>u\<in>set xs. toff 90 s' u \<le> toff 90 s' 3" "\<forall>u\<in>set ys. toff 90 s' 3 < toff 90 s' u"
    using timer_start_sorted[OF demo_timers_ok(1) t(1)] t by auto
  have o: "timer_obj s' 1 = demo_timer True True 60 95" "timer_obj s' 2 = demo_timer False True 50 150"
    using s(1) timer_start_fields[of demo_timers 3] t(1,3)
    by (auto simp: word_less_nat_alt tick_half_val demo_timers_def)
  have f: "toff 90 s' 1 = 5" "toff 90 s' 2 = 60" "toff 90 s' 3 = 40" using o s(2) by (simp_all add: toff_def demo_timer_def)
  have "xs = [1]" using s(4-6) f by (cases xs; cases "tl xs") (auto simp: Cons_eq_append_conv)
  then show ?thesis using s by simp
qed

text \<open>Timer 1 is due; its function lets it run on, or stops it.\<close>

lemma demo_stop_ok: "periods_ok (\<lambda>_. stop_own) 90 demo_timers"
  by (simp add: periods_ok_def restarts_def stop_own_def)


lemma timer_check_zero_period_spins_witness:
  "rt_timer_check 1000000 (fire_more (\<lambda>_ x. x) (\<lambda>t log. t # log)) (demo_timers\<lparr>rt_timer_list := [4],
     timer_obj := (\<lambda>_. demo_timer True True 0 100)\<rparr>) = Spins"
  by (rule timer_check_zero_period_spins[where t = 4])
    (simp_all add: demo_timers_def demo_timer_def timer_due_def word_less_nat_alt tick_half_val)

lemma tick_from_millisecond_range_witness: "uint (rt_tick_from_millisecond 15) = 2"
  using tick_from_millisecond_range[of 15] by simp

section \<open>The scheduler\<close>

text \<open>Processor 0 runs thread 7 of priority 20; thread 5 of priority 10 is ready, bound to no processor.\<close>

definition demo_thread :: "byte \<Rightarrow> byte \<Rightarrow> rt_thread" where
  "demo_thread p c = \<lparr>th_error = RT_EOK, stat = RT_THREAD_READY, bind_cpu = RT_CPUS_NR, oncpu = c,
     scheduler_lock_nest = 0, cpus_lock_nest = 0, current_priority = p, init_priority = p,
     number_mask = push_bit (unat p) 1, event_set = 0, event_info = 0, slice = 5, remaining_tick = 5\<rparr>"

definition demo_kernel :: kernel where
  "demo_kernel = \<lparr>tick = 0, timer_obj = (\<lambda>_. demo_timer False False 0 0), rt_timer_list = [], rt_soft_timer_list = [],
     tcb = (\<lambda>_. demo_thread 20 RT_CPU_DETACHED)(5 := demo_thread 10 RT_CPU_DETACHED, 7 := demo_thread 20 0),
     rt_lists = (\<lambda>_. [])(PriorityTable 10 := [5]), rt_thread_ready_priority_group = 2 ^ 10,
     rt_cpus = (\<lambda>_. \<lparr>current_thread = Some 7, irq_nest = 0, irq_switch_flag = False, cpu_priority = 20,
        priority_group = 0, cpu_tick = 0\<rparr>), cpu_id = 0, ipis = []\<rparr>"

lemma demo_kernel_ok: "tables_ok demo_kernel" "running_ok demo_kernel 7"
proof -
  have b: "bit (1024 :: word32) n \<longleftrightarrow> n = 10" for n
    using bit_exp_iff[of 10 n, where 'a = "32 word"] by auto
  have "table_bit demo_kernel l = (rt_lists demo_kernel l \<noteq> [])" if "is_table l" for l
    using that b by (cases l) (simp_all add: demo_kernel_def)
  then show "tables_ok demo_kernel"
    by (auto simp: tables_ok_def demo_kernel_def demo_thread_def queued_ok_def prio_ok_def home_def split: if_splits)
  show "running_ok demo_kernel 7"
    by (auto simp: running_ok_def rt_thread_self_def rt_cpu_self_def unlisted_def untabled_def demo_kernel_def demo_thread_def prio_ok_def)
qed

lemma schedule_runs_highest_witness:
  "\<exists>k'. rt_schedule demo_kernel = Some k' \<and> rt_thread_self k' = Some 5 \<and> ready_on 0 k' = {7}"
proof -
  have r: "ready_on 0 demo_kernel = {5}"
    by (auto simp: ready_on_def demo_kernel_def intro!: exI[of _ "PriorityTable 10"] split: if_splits)
  have f: "any_ready demo_kernel" "irq_nest (rt_cpu_self demo_kernel) = 0" "cpus_lock_nest (tcb demo_kernel 7) = 0"
    "scheduler_lock_nest (tcb demo_kernel 7) = 0" "stat (tcb demo_kernel 7) = RT_THREAD_READY" "cpu_id demo_kernel = 0"
    "prio demo_kernel 5 = 10" "prio demo_kernel 7 = 20"
    by (simp_all add: any_ready_def rt_cpu_self_def demo_kernel_def demo_thread_def prio_def)
  show ?thesis using schedule_runs_highest[OF demo_kernel_ok f(1-4)] r f(5-8) by auto
qed

section \<open>Ring buffers on the heap\<close>

lemma ringbuffer_create_spec_witness:
  "\<exists>p c h'. rt_ringbuffer_create (rt_malloc 5000) rt_free get_user 10 used_heap = Done (p, c, h') \<and> heap_wf h'"
  using ringbuffer_create_spec[OF used_ready, of 10] by (auto simp: word_less_nat_alt)

lemma ringbuffer_create_small_dangles_witness:
  "\<exists>p h'. rt_ringbuffer_create (rt_malloc 5000) rt_free get_user 3 used_heap = Done (p, None, h') \<and> live_of h' p = None"
  using ringbuffer_create_small_dangles[OF used_ready, of 3] by (simp add: word_less_nat_alt)

end
