(* ===== verification/RtIpc.thy ===== *)
theory RtIpc
  imports RtThread
begin

text \<open>
  Semaphores, mutexes and events (\<open>src/ipc.c\<close>). An object is a record that names the head of its list
  of waiting threads; the operations work on the object and the kernel. A call that has to wait ends
  where it calls \<open>rt_schedule\<close> and is \<open>Blocked\<close>; what it does when the thread runs again is the definition
  with the suffix \<open>_end\<close>. \<open>None\<close> is a failed assertion or an access through a null pointer. The registry
  of objects, hooks and log output are left out.
\<close>

section \<open>Waiting lists\<close>

datatype 'a call = Result 'a | Blocked

record rt_ipc_object =
  ipc_flag :: byte
  suspend_thread :: rt_list

definition RT_IPC_FLAG_FIFO :: byte where "RT_IPC_FLAG_FIFO = 0"
definition RT_IPC_FLAG_PRIO :: byte where "RT_IPC_FLAG_PRIO = 1"

definition rt_ipc_object_init :: "rt_list \<Rightarrow> kernel \<Rightarrow> kernel" where
  "rt_ipc_object_init l k = k\<lparr>rt_lists := (rt_lists k)(l := [])\<rparr>"

text \<open>The place of a thread in a list by priority: before the first thread whose number is larger.\<close>

fun prio_insert :: "(tid \<Rightarrow> byte) \<Rightarrow> tid \<Rightarrow> tid list \<Rightarrow> tid list" where
  "prio_insert pr t [] = [t]"
| "prio_insert pr t (u # us) = (if pr t < pr u then t # u # us else u # prio_insert pr t us)"

text \<open>The result of \<open>rt_thread_suspend\<close> is ignored, and another flag inserts the thread nowhere.\<close>

definition rt_ipc_list_suspend :: "rt_list \<Rightarrow> tid \<Rightarrow> byte \<Rightarrow> kernel \<Rightarrow> kernel option" where
  "rt_ipc_list_suspend l t flag k = do {
     (e, k) \<leftarrow> rt_thread_suspend t k;
     Some (if flag = RT_IPC_FLAG_FIFO then rt_list_insert_before l t k
       else if flag = RT_IPC_FLAG_PRIO
       then k\<lparr>rt_lists := (rt_lists k)(l := prio_insert (\<lambda>u. current_priority (tcb k u)) t (rt_lists k l))\<rparr>
       else k) }"

definition rt_ipc_list_resume :: "rt_list \<Rightarrow> kernel \<Rightarrow> kernel" where
  "rt_ipc_list_resume l k = snd (rt_thread_resume (hd (rt_lists k l)) k)"

definition ipc_resume_round :: "rt_list \<Rightarrow> kernel \<Rightarrow> kernel option" where
  "ipc_resume_round l k = (let t = hd (rt_lists k l) in
     Some (snd (rt_thread_resume t (th_upd t (\<lambda>x. x\<lparr>th_error := RT_ERROR\<rparr>) k))))"

definition rt_ipc_list_resume_all :: "nat \<Rightarrow> rt_list \<Rightarrow> kernel \<Rightarrow> kernel outcome" where
  "rt_ipc_list_resume_all fuel l k = of_loop (run_loop fuel (\<lambda>k. rt_lists k l \<noteq> []) (ipc_resume_round l) k)"

text \<open>The context checks of \<open>include/rtdebug.h\<close>.\<close>

definition not_in_interrupt :: "kernel \<Rightarrow> bool" where
  "not_in_interrupt k \<longleftrightarrow> irq_nest (rt_cpu_self k) = 0"

definition in_thread_context :: "kernel \<Rightarrow> bool" where
  "in_thread_context k \<longleftrightarrow> rt_thread_self k \<noteq> None \<and> not_in_interrupt k"

text \<open>
  What every waiting call does: the thread goes into the list, its timer is started when the time is
  positive, and the processor is given up.
\<close>

definition ipc_wait :: "rt_list \<Rightarrow> tid \<Rightarrow> byte \<Rightarrow> word32 \<Rightarrow> kernel \<Rightarrow> kernel option" where
  "ipc_wait l t flag time k = do {
     k \<leftarrow> rt_ipc_list_suspend l t flag k;
     (if 0 < sint time then start_thread_timer t time k else Some k) }"

definition set_error :: "rt_err \<Rightarrow> tid \<Rightarrow> kernel \<Rightarrow> kernel" where
  "set_error e t k = th_upd t (\<lambda>x. x\<lparr>th_error := e\<rparr>) k"

section \<open>Semaphores\<close>

record rt_semaphore = rt_ipc_object +
  sem_value :: word16

text \<open>The initial value is truncated to 16 bits.\<close>

definition rt_sem_init :: "rt_list \<Rightarrow> word32 \<Rightarrow> byte \<Rightarrow> kernel \<Rightarrow> rt_semaphore \<times> kernel" where
  "rt_sem_init l value flag k =
     (\<lparr>ipc_flag = flag, suspend_thread = l, sem_value = ucast value\<rparr>, rt_ipc_object_init l k)"

text \<open>\<open>obj\<close> is what \<open>rt_object_allocate\<close> returns, the list head of the new object.\<close>

definition rt_sem_create :: "rt_list option \<Rightarrow> word32 \<Rightarrow> byte \<Rightarrow> kernel \<Rightarrow> (rt_semaphore option \<times> kernel) option" where
  "rt_sem_create obj value flag k = (if \<not> not_in_interrupt k then None else case obj of None \<Rightarrow> Some (None, k)
     | Some l \<Rightarrow> let k = rt_ipc_object_init l k in
         Some (Some \<lparr>ipc_flag = flag, suspend_thread = l, sem_value = ucast value\<rparr>, k))"

definition rt_sem_detach :: "nat \<Rightarrow> rt_semaphore \<Rightarrow> kernel \<Rightarrow> kernel outcome" where
  "rt_sem_detach fuel s k = rt_ipc_list_resume_all fuel (suspend_thread s) k"

definition rt_sem_delete :: "nat \<Rightarrow> rt_semaphore \<Rightarrow> kernel \<Rightarrow> kernel outcome" where
  "rt_sem_delete fuel s k = (if \<not> not_in_interrupt k then Fault
     else rt_ipc_list_resume_all fuel (suspend_thread s) k)"

text \<open>Up to the point where interrupts are enabled again, and the whole call up to the switch.\<close>

definition sem_take_begin :: "rt_semaphore \<Rightarrow> word32 \<Rightarrow> kernel \<Rightarrow> (rt_err call \<times> rt_semaphore \<times> kernel) option" where
  "sem_take_begin s time k =
     (if sem_value s > 0 then Some (Result RT_EOK, s\<lparr>sem_value := sem_value s - 1\<rparr>, k)
      else if time = 0 then Some (Result RT_ETIMEOUT, s, k)
      else if \<not> in_thread_context k then None
      else do {
        t \<leftarrow> rt_thread_self k;
        k \<leftarrow> ipc_wait (suspend_thread s) t (ipc_flag s) time (set_error RT_EOK t k);
        Some (Blocked, s, k) })"

definition rt_sem_take :: "rt_semaphore \<Rightarrow> word32 \<Rightarrow> kernel \<Rightarrow> (rt_err call \<times> rt_semaphore \<times> kernel) option" where
  "rt_sem_take s time k = do {
     (r, s, k) \<leftarrow> sem_take_begin s time k;
     (if r = Blocked then do { k \<leftarrow> rt_schedule k; Some (Blocked, s, k) } else Some (r, s, k)) }"

definition rt_sem_take_end :: "tid \<Rightarrow> kernel \<Rightarrow> rt_err" where
  "rt_sem_take_end t k = (if th_error (tcb k t) \<noteq> RT_EOK then th_error (tcb k t) else RT_EOK)"

definition rt_sem_trytake :: "rt_semaphore \<Rightarrow> kernel \<Rightarrow> (rt_err call \<times> rt_semaphore \<times> kernel) option" where
  "rt_sem_trytake s k = rt_sem_take s 0 k"

text \<open>The result says whether \<open>rt_schedule\<close> is called.\<close>

definition sem_release_begin :: "rt_semaphore \<Rightarrow> kernel \<Rightarrow> bool \<times> rt_semaphore \<times> kernel" where
  "sem_release_begin s k = (if rt_lists k (suspend_thread s) \<noteq> []
     then (True, s, rt_ipc_list_resume (suspend_thread s) k)
     else (False, s\<lparr>sem_value := sem_value s + 1\<rparr>, k))"

definition rt_sem_release :: "rt_semaphore \<Rightarrow> kernel \<Rightarrow> (rt_semaphore \<times> kernel) option" where
  "rt_sem_release s k = (case sem_release_begin s k of (need_schedule, s, k) \<Rightarrow>
     if need_schedule then do { k \<leftarrow> rt_schedule k; Some (s, k) } else Some (s, k))"

datatype ipc_cmd = RESET word32 | OTHER_IPC_CMD

definition rt_sem_control :: "nat \<Rightarrow> rt_semaphore \<Rightarrow> ipc_cmd \<Rightarrow> kernel \<Rightarrow> (rt_err \<times> rt_semaphore \<times> kernel) outcome" where
  "rt_sem_control fuel s cmd k = (case cmd of
       RESET v \<Rightarrow> obind (rt_ipc_list_resume_all fuel (suspend_thread s) k) (\<lambda>k.
         obind (of_opt (rt_schedule k)) (\<lambda>k. Done (RT_EOK, s\<lparr>sem_value := ucast v\<rparr>, k)))
     | OTHER_IPC_CMD \<Rightarrow> Done (RT_ERROR, s, k))"

section \<open>Mutexes\<close>

record rt_mutex = rt_ipc_object +
  mx_value :: word16
  original_priority :: byte
  hold :: byte
  owner :: "tid option"

definition fresh_mutex :: "rt_list \<Rightarrow> byte \<Rightarrow> rt_mutex" where
  "fresh_mutex l flag = \<lparr>ipc_flag = flag, suspend_thread = l, mx_value = 1, original_priority = 0xFF,
     hold = 0, owner = None\<rparr>"

definition rt_mutex_init :: "rt_list \<Rightarrow> byte \<Rightarrow> kernel \<Rightarrow> rt_mutex \<times> kernel" where
  "rt_mutex_init l flag k = (fresh_mutex l flag, rt_ipc_object_init l k)"

definition rt_mutex_create :: "rt_list option \<Rightarrow> byte \<Rightarrow> kernel \<Rightarrow> (rt_mutex option \<times> kernel) option" where
  "rt_mutex_create obj flag k = (if \<not> not_in_interrupt k then None else case obj of None \<Rightarrow> Some (None, k)
     | Some l \<Rightarrow> Some (Some (fresh_mutex l flag), rt_ipc_object_init l k))"

definition rt_mutex_detach :: "nat \<Rightarrow> rt_mutex \<Rightarrow> kernel \<Rightarrow> kernel outcome" where
  "rt_mutex_detach fuel m k = rt_ipc_list_resume_all fuel (suspend_thread m) k"

definition rt_mutex_delete :: "nat \<Rightarrow> rt_mutex \<Rightarrow> kernel \<Rightarrow> kernel outcome" where
  "rt_mutex_delete fuel m k = (if \<not> not_in_interrupt k then Fault
     else rt_ipc_list_resume_all fuel (suspend_thread m) k)"

text \<open>The owner of a mutex inherits the priority of a thread that has to wait for it.\<close>

definition mutex_inherit :: "rt_mutex \<Rightarrow> tid \<Rightarrow> kernel \<Rightarrow> kernel option" where
  "mutex_inherit m t k = do {
     w \<leftarrow> owner m;
     (if current_priority (tcb k t) < current_priority (tcb k w)
      then map_option snd (rt_thread_control w (CHANGE_PRIORITY (current_priority (tcb k t))) k) else Some k) }"

text \<open>From the label \<open>__again\<close> to where interrupts are enabled, for the thread \<open>t\<close> that is not the owner.\<close>

definition mutex_take_again :: "rt_mutex \<Rightarrow> tid \<Rightarrow> word32 \<Rightarrow> kernel \<Rightarrow> (rt_err call \<times> rt_mutex \<times> kernel) option" where
  "mutex_take_again m t time k =
     (if mx_value m > 0 then Some (Result RT_EOK, m\<lparr>mx_value := mx_value m - 1, owner := Some t,
        original_priority := current_priority (tcb k t), hold := hold m + 1\<rparr>, k)
      else if time = 0 then Some (Result RT_ETIMEOUT, m, set_error RT_ETIMEOUT t k)
      else do {
        k \<leftarrow> mutex_inherit m t k;
        k \<leftarrow> ipc_wait (suspend_thread m) t (ipc_flag m) time k;
        Some (Blocked, m, k) })"

definition mutex_take_begin :: "rt_mutex \<Rightarrow> word32 \<Rightarrow> kernel \<Rightarrow> (rt_err call \<times> rt_mutex \<times> kernel) option" where
  "mutex_take_begin m time k = (if \<not> in_thread_context k then None else do {
     t \<leftarrow> rt_thread_self k;
     let k = set_error RT_EOK t k in
     (if owner m = Some t then Some (Result RT_EOK, m\<lparr>hold := hold m + 1\<rparr>, k)
      else mutex_take_again m t time k) })"

definition rt_mutex_take :: "rt_mutex \<Rightarrow> word32 \<Rightarrow> kernel \<Rightarrow> (rt_err call \<times> rt_mutex \<times> kernel) option" where
  "rt_mutex_take m time k = do {
     (r, m, k) \<leftarrow> mutex_take_begin m time k;
     (if r = Blocked then do { k \<leftarrow> rt_schedule k; Some (Blocked, m, k) } else Some (r, m, k)) }"

text \<open>When the thread runs again; an interrupted wait starts over.\<close>

definition rt_mutex_take_end :: "rt_mutex \<Rightarrow> tid \<Rightarrow> word32 \<Rightarrow> kernel \<Rightarrow> (rt_err call \<times> rt_mutex \<times> kernel) option" where
  "rt_mutex_take_end m t time k = (let e = th_error (tcb k t) in
     if e = RT_EINTR then mutex_take_again m t time k else Some (Result e, m, k))"

text \<open>The owner that let go: the mutex passes to the first waiting thread, or it is free.\<close>

definition mutex_pass_on :: "rt_mutex \<Rightarrow> kernel \<Rightarrow> bool \<times> rt_mutex \<times> kernel" where
  "mutex_pass_on m k = (case rt_lists k (suspend_thread m) of
       u # _ \<Rightarrow> (True, m\<lparr>owner := Some u, original_priority := current_priority (tcb k u), hold := hold m + 1\<rparr>,
         rt_ipc_list_resume (suspend_thread m) k)
     | [] \<Rightarrow> (False, m\<lparr>mx_value := mx_value m + 1, owner := None, original_priority := 0xFF\<rparr>, k))"

text \<open>
  The result is the error code and whether \<open>rt_schedule\<close> is called. The last release gives the owner its
  priority back.
\<close>

definition mutex_release_begin :: "rt_mutex \<Rightarrow> kernel \<Rightarrow> (rt_err \<times> bool \<times> rt_mutex \<times> kernel) option" where
  "mutex_release_begin m k = (if \<not> in_thread_context k then None else do {
     t \<leftarrow> rt_thread_self k;
     (if owner m \<noteq> Some t then Some (RT_ERROR, False, m, set_error RT_ERROR t k)
      else let m = m\<lparr>hold := hold m - 1\<rparr> in
      if hold m \<noteq> 0 then Some (RT_EOK, False, m, k) else do {
        k \<leftarrow> (if original_priority m \<noteq> current_priority (tcb k t)
          then map_option snd (rt_thread_control t (CHANGE_PRIORITY (original_priority m)) k) else Some k);
        Some (RT_EOK, mutex_pass_on m k) }) })"

definition rt_mutex_release :: "rt_mutex \<Rightarrow> kernel \<Rightarrow> (rt_err \<times> rt_mutex \<times> kernel) option" where
  "rt_mutex_release m k = do {
     (e, need_schedule, m, k) \<leftarrow> mutex_release_begin m k;
     (if need_schedule then do { k \<leftarrow> rt_schedule k; Some (e, m, k) } else Some (e, m, k)) }"

definition rt_mutex_control :: "rt_mutex \<Rightarrow> ipc_cmd \<Rightarrow> kernel \<Rightarrow> rt_err \<times> rt_mutex \<times> kernel" where
  "rt_mutex_control m cmd k = (RT_ERROR, m, k)"

section \<open>Events\<close>

record rt_event = rt_ipc_object +
  ev_set :: word32

definition RT_EVENT_FLAG_AND :: byte where "RT_EVENT_FLAG_AND = 1"
definition RT_EVENT_FLAG_OR :: byte where "RT_EVENT_FLAG_OR = 2"
definition RT_EVENT_FLAG_CLEAR :: byte where "RT_EVENT_FLAG_CLEAR = 4"

definition has_flag :: "byte \<Rightarrow> byte \<Rightarrow> bool" where
  "has_flag info f \<longleftrightarrow> info AND f \<noteq> 0"

definition rt_event_init :: "rt_list \<Rightarrow> byte \<Rightarrow> kernel \<Rightarrow> rt_event \<times> kernel" where
  "rt_event_init l flag k = (\<lparr>ipc_flag = flag, suspend_thread = l, ev_set = 0\<rparr>, rt_ipc_object_init l k)"

definition rt_event_create :: "rt_list option \<Rightarrow> byte \<Rightarrow> kernel \<Rightarrow> (rt_event option \<times> kernel) option" where
  "rt_event_create obj flag k = (if \<not> not_in_interrupt k then None else case obj of None \<Rightarrow> Some (None, k)
     | Some l \<Rightarrow> Some (Some \<lparr>ipc_flag = flag, suspend_thread = l, ev_set = 0\<rparr>, rt_ipc_object_init l k))"

definition rt_event_detach :: "nat \<Rightarrow> rt_event \<Rightarrow> kernel \<Rightarrow> kernel outcome" where
  "rt_event_detach fuel e k = rt_ipc_list_resume_all fuel (suspend_thread e) k"

definition rt_event_delete :: "nat \<Rightarrow> rt_event \<Rightarrow> kernel \<Rightarrow> kernel outcome" where
  "rt_event_delete fuel e k = (if \<not> not_in_interrupt k then Fault
     else rt_ipc_list_resume_all fuel (suspend_thread e) k)"

text \<open>Whether a thread that waits for \<open>want\<close> with the flags \<open>info\<close> is satisfied by the events \<open>s\<close>.\<close>

definition event_satisfied :: "byte \<Rightarrow> word32 \<Rightarrow> word32 \<Rightarrow> bool" where
  "event_satisfied info want s \<longleftrightarrow> (if has_flag info RT_EVENT_FLAG_AND then want AND s = want
     else has_flag info RT_EVENT_FLAG_OR \<and> want AND s \<noteq> 0)"

text \<open>
  One step of the walk over the waiting threads: a satisfied thread is resumed, keeping what it received
  in its \<open>event_set\<close>, and takes the events away when it asked for that. The state has the events, the
  kernel and whether to schedule.
\<close>

definition event_send_thread :: "tid \<Rightarrow> word32 \<times> kernel \<times> bool \<Rightarrow> word32 \<times> kernel \<times> bool" where
  "event_send_thread t = (\<lambda>(s, k, need_schedule). let x = tcb k t in
     if event_satisfied (event_info x) (event_set x) s then let
       k = (if has_flag (event_info x) RT_EVENT_FLAG_AND then k
            else th_upd t (\<lambda>x. x\<lparr>event_set := event_set x AND s\<rparr>) k);
       s = (if has_flag (event_info x) RT_EVENT_FLAG_CLEAR then s AND NOT (event_set (tcb k t)) else s) in
       (s, snd (rt_thread_resume t k), True)
     else (s, k, need_schedule))"

text \<open>
  The pointer into the list is moved on before a thread is taken out of it, so the walk visits the
  threads that are in the list at the start.
\<close>

definition event_send_begin :: "rt_event \<Rightarrow> word32 \<Rightarrow> kernel \<Rightarrow> bool \<times> rt_event \<times> kernel" where
  "event_send_begin e new k = (case fold event_send_thread (rt_lists k (suspend_thread e)) (ev_set e OR new, k, False) of
     (s, k, need_schedule) \<Rightarrow> (need_schedule, e\<lparr>ev_set := s\<rparr>, k))"

definition rt_event_send :: "rt_event \<Rightarrow> word32 \<Rightarrow> kernel \<Rightarrow> (rt_err \<times> rt_event \<times> kernel) option" where
  "rt_event_send e new k = (if new = 0 then Some (RT_ERROR, e, k) else case event_send_begin e new k of
     (need_schedule, e, k) \<Rightarrow>
       if need_schedule then do { k \<leftarrow> rt_schedule k; Some (RT_EOK, e, k) } else Some (RT_EOK, e, k))"

text \<open>The second component is the value stored in \<open>*recved\<close>.\<close>

definition event_recv_begin :: "rt_event \<Rightarrow> word32 \<Rightarrow> byte \<Rightarrow> word32 \<Rightarrow> kernel \<Rightarrow>
    (rt_err call \<times> word32 option \<times> rt_event \<times> kernel) option" where
  "event_recv_begin e want info timeout k = (if \<not> in_thread_context k then None
     else if want = 0 then Some (Result RT_ERROR, None, e, k)
     else do {
       t \<leftarrow> rt_thread_self k;
       let k = set_error RT_EOK t k in
       (if \<not> has_flag info RT_EVENT_FLAG_AND \<and> \<not> has_flag info RT_EVENT_FLAG_OR then None
        else if event_satisfied info want (ev_set e)
        then Some (Result RT_EOK, Some (ev_set e AND want),
          (if has_flag info RT_EVENT_FLAG_CLEAR then e\<lparr>ev_set := ev_set e AND NOT want\<rparr> else e), k)
        else if timeout = 0 then Some (Result RT_ETIMEOUT, None, e, set_error RT_ETIMEOUT t k)
        else do {
          k \<leftarrow> ipc_wait (suspend_thread e) t (ipc_flag e) timeout
            (th_upd t (\<lambda>x. x\<lparr>event_set := want, event_info := info\<rparr>) k);
          Some (Blocked, None, e, k) }) })"

definition rt_event_recv :: "rt_event \<Rightarrow> word32 \<Rightarrow> byte \<Rightarrow> word32 \<Rightarrow> kernel \<Rightarrow>
    (rt_err call \<times> word32 option \<times> rt_event \<times> kernel) option" where
  "rt_event_recv e want info timeout k = do {
     (r, v, e, k) \<leftarrow> event_recv_begin e want info timeout k;
     (if r = Blocked then do { k \<leftarrow> rt_schedule k; Some (Blocked, v, e, k) } else Some (r, v, e, k)) }"

definition rt_event_recv_end :: "tid \<Rightarrow> kernel \<Rightarrow> rt_err \<times> word32 option" where
  "rt_event_recv_end t k = (if th_error (tcb k t) \<noteq> RT_EOK then (th_error (tcb k t), None)
     else (RT_EOK, Some (event_set (tcb k t))))"

definition rt_event_control :: "nat \<Rightarrow> rt_event \<Rightarrow> ipc_cmd \<Rightarrow> kernel \<Rightarrow> (rt_err \<times> rt_event \<times> kernel) outcome" where
  "rt_event_control fuel e cmd k = (case cmd of
       RESET v \<Rightarrow> obind (rt_ipc_list_resume_all fuel (suspend_thread e) k) (\<lambda>k.
         obind (of_opt (rt_schedule k)) (\<lambda>k. Done (RT_EOK, e\<lparr>ev_set := 0\<rparr>, k)))
     | OTHER_IPC_CMD \<Rightarrow> Done (RT_ERROR, e, k))"

end
