(* ===== verification/RtSmp.thy ===== *)
theory RtSmp
  imports RtSchedSpec RtIpc
begin

text \<open>
  The invariant of threads, lists and processors, kept by every operation that runs with interrupts
  disabled: suspending, resuming, timeouts, changes of priority, scheduling on either processor. What
  each of them does to the lists of waiting threads.
\<close>

section \<open>What timers leave alone\<close>

definition same_sched :: "kernel \<Rightarrow> kernel \<Rightarrow> bool" where
  "same_sched k k' \<longleftrightarrow> tcb k' = tcb k \<and> rt_lists k' = rt_lists k \<and> rt_cpus k' = rt_cpus k \<and> cpu_id k' = cpu_id k \<and>
     rt_thread_ready_priority_group k' = rt_thread_ready_priority_group k \<and> tick k' = tick k"

lemma same_sched_refl [simp]: "same_sched k k"
  by (simp add: same_sched_def)

lemma same_schedD:
  assumes "same_sched k k'"
  shows "tcb k' = tcb k" "rt_lists k' = rt_lists k" "rt_cpus k' = rt_cpus k" "cpu_id k' = cpu_id k"
    "rt_thread_ready_priority_group k' = rt_thread_ready_priority_group k" "tick k' = tick k"
  using assms by (simp_all add: same_sched_def)

lemma timer_stop_sched: "same_sched k (snd (rt_timer_stop t k))"
  by (simp add: rt_timer_stop_def same_sched_def timer_upd_def timer_remove_def)

lemmas timer_stop_simps [simp] = same_schedD[OF timer_stop_sched]

lemma start_thread_timer_sched: "start_thread_timer t n k = Some k' \<Longrightarrow> same_sched k k'"
  by (auto simp: start_thread_timer_def timer_start_def Let_def same_sched_def timer_upd_def timer_remove_def split: if_splits)

lemma tables_ok_same: "same_sched k k' \<Longrightarrow> tables_ok k \<Longrightarrow> tables_ok k'"
  by (rule tables_ok_cong) (simp_all add: same_sched_def)

section \<open>The invariant\<close>

text \<open>The state of the threads in a list.\<close>

fun list_stat :: "rt_list \<Rightarrow> thread_stat" where
  "list_stat (PriorityTable p) = RT_THREAD_READY"
| "list_stat (CpuTable c p) = RT_THREAD_READY"
| "list_stat (SuspendList i) = RT_THREAD_SUSPEND"
| "list_stat Defunct = RT_THREAD_CLOSE"

lemma table_stat: "is_table l \<Longrightarrow> list_stat l = RT_THREAD_READY"
  by (cases l) auto

definition may_run :: "rt_thread \<Rightarrow> bool" where
  "may_run x \<longleftrightarrow> stat x = RT_THREAD_READY \<or> stat x = RT_THREAD_SUSPEND"

definition smp_ok :: "kernel \<Rightarrow> bool" where
  "smp_ok k \<longleftrightarrow> tables_ok k \<and> cpu_id k < 2 \<and>
     (\<forall>l t. t \<in> set (rt_lists k l) \<longrightarrow> stat (tcb k t) = list_stat l) \<and>
     (\<forall>t. may_run (tcb k t) \<longrightarrow> prio_ok (tcb k t)) \<and>
     (\<forall>c<2. \<forall>t. current_thread (rt_cpus k c) = Some t \<longrightarrow> oncpu (tcb k t) = of_nat c \<and>
        (bind_cpu (tcb k t) = RT_CPUS_NR \<or> unat (bind_cpu (tcb k t)) = c))"

lemma smp_okD:
  assumes "smp_ok k"
  shows "tables_ok k" "cpu_id k < 2" "t \<in> set (rt_lists k l) \<Longrightarrow> stat (tcb k t) = list_stat l"
    "may_run (tcb k t) \<Longrightarrow> prio_ok (tcb k t)"
    "c < 2 \<Longrightarrow> current_thread (rt_cpus k c) = Some t \<Longrightarrow> oncpu (tcb k t) = of_nat c \<and>
        (bind_cpu (tcb k t) = RT_CPUS_NR \<or> unat (bind_cpu (tcb k t)) = c)"
  using assms by (simp_all add: smp_ok_def)

lemma cpu_attached: "c < 2 \<Longrightarrow> (of_nat c :: byte) \<noteq> RT_CPU_DETACHED"
  by (auto simp: RT_CPU_DETACHED_def RT_CPUS_NR_def less_2_cases_iff)

text \<open>A ready thread that is not detached, or current, is in no list; a suspended one in none of the tables.\<close>

lemma smp_unlisted:
  assumes "smp_ok k" "stat (tcb k t) = RT_THREAD_READY" "oncpu (tcb k t) \<noteq> RT_CPU_DETACHED"
  shows "unlisted t k"
proof -
  have False if "t \<in> set (rt_lists k l)" for l
    using smp_okD(3)[OF assms(1) that] tables_okD(1)[OF smp_okD(1)[OF assms(1)] _ that] assms(2,3)
    by (cases l) (auto simp: queued_ok_def)
  then show ?thesis by (auto simp: unlisted_def)
qed

lemma smp_current:
  assumes "smp_ok k" "rt_thread_self k = Some t"
  shows "running_ok k t" "oncpu (tcb k t) \<noteq> RT_CPU_DETACHED"
proof -
  note c = smp_okD(5)[OF assms(1) smp_okD(2)[OF assms(1)], of t]
  show o: "oncpu (tcb k t) \<noteq> RT_CPU_DETACHED"
    using c assms cpu_attached[OF smp_okD(2)[OF assms(1)]] by (simp add: rt_thread_self_def rt_cpu_self_def)
  have "untabled t k"
    using o tables_okD(1)[OF smp_okD(1)[OF assms(1)]] by (auto simp: untabled_def queued_ok_def)
  then show "running_ok k t"
    using c assms smp_unlisted[OF assms(1) _ o] smp_okD(4)[OF assms(1), of t]
    by (auto simp: running_ok_def may_run_def rt_thread_self_def rt_cpu_self_def)
qed

lemma smp_suspended:
  assumes "smp_ok k" "stat (tcb k t) = RT_THREAD_SUSPEND"
  shows "untabled t k" "prio_ok (tcb k t)"
proof -
  show "prio_ok (tcb k t)" using smp_okD(4)[OF assms(1)] assms(2) by (simp add: may_run_def)
  show "untabled t k" using smp_okD(3)[OF assms(1)] assms(2) table_stat unfolding untabled_def by fastforce
qed

lemma smp_ok_same: "same_sched k k' \<Longrightarrow> smp_ok k \<Longrightarrow> smp_ok k'"
  using tables_ok_same[of k k'] by (simp add: smp_ok_def same_sched_def)

lemma smp_cpu: "smp_ok k \<Longrightarrow> c < 2 \<Longrightarrow> smp_ok (k\<lparr>cpu_id := c\<rparr>)"
  using tables_ok_cong[of k "k\<lparr>cpu_id := c\<rparr>"] by (simp add: smp_ok_def)

text \<open>Changes of a thread that the scheduler does not look at.\<close>

lemma smp_upd:
  assumes "smp_ok k" "\<And>x. sched_part (f x) = sched_part x"
  shows "smp_ok (th_upd t f k)"
proof -
  have e: "stat (f x) = stat x" "bind_cpu (f x) = bind_cpu x" "oncpu (f x) = oncpu x" "prio_ok (f x) = prio_ok x" for x
    using assms(2)[of x] sched_part_cong[OF assms(2)[of x]] by (simp_all add: sched_part_eq)
  have "tables_ok (th_upd t f k)" by (rule tables_ok_cong[OF smp_okD(1)[OF assms(1)]]) (simp_all add: assms(2))
  then show ?thesis using assms(1) by (simp add: smp_ok_def may_run_def e)
qed

lemma smp_set_error: "smp_ok k \<Longrightarrow> smp_ok (set_error e t k)"
  unfolding set_error_def by (rule smp_upd) (simp_all add: sched_part_def)

lemma set_error_simps [simp]:
  "rt_lists (set_error e t k) = rt_lists k" "rt_cpus (set_error e t k) = rt_cpus k" "cpu_id (set_error e t k) = cpu_id k"
  "tick (set_error e t k) = tick k" "rt_thread_self (set_error e t k) = rt_thread_self k"
  "tcb (set_error e t k) u = (if u = t then tcb k t\<lparr>th_error := e\<rparr> else tcb k u)"
  by (simp_all add: set_error_def rt_thread_self_def rt_cpu_self_def)

text \<open>Putting a suspended thread into a list of waiting threads.\<close>

lemma smp_list_insert:
  assumes "smp_ok k" "unlisted t k" "stat (tcb k t) = RT_THREAD_SUSPEND" "set ys = insert t (set (rt_lists k (SuspendList i)))" "distinct ys"
  shows "smp_ok (k\<lparr>rt_lists := (rt_lists k)(SuspendList i := ys)\<rparr>)"
proof -
  let ?k = "k\<lparr>rt_lists := (rt_lists k)(SuspendList i := ys)\<rparr>"
  have t: "table_bit ?k l = table_bit k l" for l by (cases l) auto
  have "tables_ok ?k"
    using smp_okD(1)[OF assms(1)] assms(2,4,5) unfolding tables_ok_def t
    by (auto simp: unlisted_def split: if_splits)
  then show ?thesis using assms(1,3,4) by (auto simp: smp_ok_def)
qed

text \<open>Taking a suspended thread out of its list.\<close>

lemma smp_list_remove:
  assumes "smp_ok k" "stat (tcb k t) = RT_THREAD_SUSPEND"
  shows "smp_ok (rt_list_remove t k)" "unlisted t (rt_list_remove t k)"
proof -
  have u: "\<And>l. is_table l \<Longrightarrow> t \<notin> set (rt_lists k l)" using smp_suspended(1)[OF assms] by (simp add: untabled_def)
  have t: "table_bit (rt_list_remove t k) l = table_bit k l" for l by (cases l) auto
  have "tables_ok (rt_list_remove t k)"
    using smp_okD(1)[OF assms(1)] u unfolding tables_ok_def t
    by (simp add: removeAll_id distinct_removeAll) blast
  then show "smp_ok (rt_list_remove t k)" using assms(1) by (simp add: smp_ok_def)
  show "unlisted t (rt_list_remove t k)" by (simp add: unlisted_def)
qed

text \<open>Making a thread ready that is in no list.\<close>

lemma insert_attached:
  "oncpu (tcb k t) \<noteq> RT_CPU_DETACHED \<Longrightarrow> rt_schedule_insert_thread t k = th_upd t (\<lambda>x. x\<lparr>stat := RT_THREAD_READY\<rparr>) k"
  by (simp add: rt_schedule_insert_thread_def Let_def)

lemma insert_nontable:
  "\<not> is_table l \<Longrightarrow> rt_lists (rt_schedule_insert_thread t k) l = rt_lists k l"
  by (auto simp: rt_schedule_insert_thread_def Let_def)

lemma smp_insert:
  assumes "smp_ok k" "unlisted t k" "prio_ok (tcb k t)"
  shows "smp_ok (rt_schedule_insert_thread t k)"
proof -
  have tabs: "tables_ok (rt_schedule_insert_thread t k)"
  proof (cases "oncpu (tcb k t) = RT_CPU_DETACHED")
    case False
    then show ?thesis
      using tables_ok_upd_untabled[OF smp_okD(1)[OF assms(1)] unlisted_untabled[OF assms(2)]] by (simp add: insert_attached)
  qed (rule sched_insert_ok[OF smp_okD(1)[OF assms(1)] assms(2) _ assms(3)])
  have "stat (tcb (rt_schedule_insert_thread t k) u) = list_stat l"
    if "u \<in> set (rt_lists (rt_schedule_insert_thread t k) l)" for u l
  proof (cases "is_table l")
    case True
    then show ?thesis using tables_okD(1)[OF tabs True that] table_stat[OF True] by (simp add: queued_ok_def)
  next
    case False
    then have "u \<in> set (rt_lists k l)" using that by (simp add: insert_nontable)
    then show ?thesis using smp_okD(3)[OF assms(1)] assms(2) by (auto simp: insert_tcb unlisted_def)
  qed
  moreover have "current_thread (rt_cpus (rt_schedule_insert_thread t k) c) = current_thread (rt_cpus k c)" for c
    by (subst insert_cpu(2)) simp
  ultimately show ?thesis using assms(1,3) tabs
    by (auto simp: smp_ok_def insert_tcb insert_cpu(1) prio_ok_def)
qed

section \<open>Suspending and resuming\<close>

lemma smp_remove:
  assumes "smp_ok k" "prio_ok (tcb k t)"
  shows "smp_ok (rt_schedule_remove_thread t k)"
proof -
  have "current_thread (rt_cpus (rt_schedule_remove_thread t k) c) = current_thread (rt_cpus k c)" for c
    by (subst remove_cpu(2)) simp
  then show ?thesis using assms(1) sched_remove_ok(1)[OF smp_okD(1)[OF assms(1)] assms(2)]
    by (auto simp: smp_ok_def remove_tcb remove_cpu(1) remove_lists)
qed

text \<open>The current thread suspends itself.\<close>

lemma suspend_ok:
  assumes "smp_ok k" "rt_thread_self k = Some t" "stat (tcb k t) = RT_THREAD_READY"
  shows "\<exists>k'. rt_thread_suspend t k = Some (RT_EOK, k') \<and> smp_ok k' \<and> unlisted t k' \<and>
    tcb k' = (tcb k)(t := tcb k t\<lparr>stat := RT_THREAD_SUSPEND\<rparr>) \<and> rt_lists k' = rt_lists k \<and>
    rt_thread_self k' = Some t \<and> cpu_id k' = cpu_id k \<and> tick k' = tick k"
proof -
  define k1 where "k1 = th_upd t (\<lambda>x. x\<lparr>stat := RT_THREAD_SUSPEND\<rparr>) k"
  have u: "unlisted t k" "prio_ok (tcb k t)" using smp_current(1)[OF assms(1,2)] assms(3) by (simp_all add: running_ok_def)
  have "tables_ok k1" unfolding k1_def by (rule tables_ok_upd_untabled[OF smp_okD(1)[OF assms(1)] unlisted_untabled[OF u(1)]])
  then have k1: "smp_ok k1" using assms(1) u by (auto simp: smp_ok_def k1_def unlisted_def may_run_def prio_ok_def)
  have p1: "prio_ok (tcb k1 t)" using u(2) by (simp add: k1_def prio_ok_def)
  define k2 where "k2 = rt_schedule_remove_thread t k1"
  have l2: "rt_lists k2 = rt_lists k" using u(1) by (simp add: k2_def remove_lists k1_def unlisted_def removeAll_id fun_eq_iff)
  have c2: "current_thread (rt_cpus k2 c) = current_thread (rt_cpus k c)" for c
    unfolding k2_def by (subst remove_cpu(2)) (simp add: k1_def)
  have t2: "tcb k2 = (tcb k)(t := tcb k t\<lparr>stat := RT_THREAD_SUSPEND\<rparr>)" "cpu_id k2 = cpu_id k" "tick k2 = tick k"
    by (simp_all add: k2_def remove_tcb remove_cpu(1) k1_def fun_eq_iff)
      (simp add: rt_schedule_remove_thread_def Let_def rt_list_remove_def cpu_upd_def th_upd_def)
  have s: "rt_thread_suspend t k = Some (RT_EOK, snd (rt_timer_stop t k2))"
    using assms(2,3) by (simp add: rt_thread_suspend_def k2_def k1_def)
  have "smp_ok (snd (rt_timer_stop t k2))"
    by (rule smp_ok_same[OF timer_stop_sched smp_remove[OF k1 p1, folded k2_def]])
  then show ?thesis using s l2 t2 u(1) c2 assms(2)
    by (intro exI[of _ "snd (rt_timer_stop t k2)"])
      (simp add: unlisted_def rt_thread_self_def rt_cpu_self_def)
qed

lemma resume_ok:
  assumes "smp_ok k" "stat (tcb k t) = RT_THREAD_SUSPEND"
  shows "\<exists>k'. rt_thread_resume t k = (RT_EOK, k') \<and> smp_ok k' \<and> tcb k' = (tcb k)(t := tcb k t\<lparr>stat := RT_THREAD_READY\<rparr>) \<and>
    (\<forall>l. \<not> is_table l \<longrightarrow> rt_lists k' l = removeAll t (rt_lists k l)) \<and>
    rt_thread_self k' = rt_thread_self k \<and> cpu_id k' = cpu_id k \<and> irq_nest (rt_cpu_self k') = irq_nest (rt_cpu_self k) \<and>
    (oncpu (tcb k t) = RT_CPU_DETACHED \<longrightarrow> t \<in> set (rt_lists k' (home (tcb k t))))"
proof -
  define k1 where "k1 = snd (rt_timer_stop t (rt_list_remove t k))"
  have k1: "smp_ok k1" "unlisted t k1" "tcb k1 = tcb k" "prio_ok (tcb k t)" "rt_lists k1 l = removeAll t (rt_lists k l)"
    "rt_cpus k1 = rt_cpus k" "cpu_id k1 = cpu_id k" for l
    using smp_ok_same[OF timer_stop_sched smp_list_remove(1)[OF assms]] smp_list_remove(2)[OF assms] smp_suspended(2)[OF assms]
    by (simp_all add: k1_def unlisted_def)
  define k2 where "k2 = rt_schedule_insert_thread t k1"
  have c: "rt_cpus k2 c = (rt_cpus k c)\<lparr>priority_group := priority_group (rt_cpus k2 c)\<rparr>" for c
    using insert_cpu(2)[of t k1 c] k1(6) by (simp add: k2_def)
  have c2: "current_thread (rt_cpus k2 c) = current_thread (rt_cpus k c)" "irq_nest (rt_cpus k2 c) = irq_nest (rt_cpus k c)" for c
    by (subst c, simp)+
  have "smp_ok k2" unfolding k2_def using k1 by (intro smp_insert) simp_all
  moreover have "t \<in> set (rt_lists k2 (home (tcb k t)))" if "oncpu (tcb k t) = RT_CPU_DETACHED"
    using that insert_lists[of k1 t] k1(3) by (simp add: k2_def)
  moreover have "rt_thread_resume t k = (RT_EOK, k2)" using assms(2) by (simp add: rt_thread_resume_def k2_def k1_def)
  ultimately show ?thesis using k1 c2
    by (simp add: rt_thread_self_def rt_cpu_self_def insert_nontable)
      (simp add: k2_def insert_tcb insert_cpu(1) insert_nontable k1)
qed

section \<open>Scheduling\<close>

text \<open>Everything a thread has but the two lock counters and its processor.\<close>

definition thread_core :: "rt_thread \<Rightarrow> rt_thread" where
  "thread_core x = lock_free (x\<lparr>oncpu := 0\<rparr>)"

lemma thread_core_eq:
  assumes "thread_core x = thread_core y"
  shows "th_error x = th_error y" "stat x = stat y" "bind_cpu x = bind_cpu y"
    "current_priority x = current_priority y" "number_mask x = number_mask y"
    "event_set x = event_set y" "event_info x = event_info y" "prio_ok x = prio_ok y"
  using assms by (cases x; cases y; simp add: thread_core_def lock_free_def prio_ok_def)+

lemma thread_core_oncpu: "lock_free x = lock_free (y\<lparr>oncpu := c\<rparr>) \<Longrightarrow> thread_core x = thread_core y"
  by (cases x; cases y) (simp add: thread_core_def lock_free_def)

lemma lock_free_core: "lock_free x = lock_free y \<Longrightarrow> thread_core x = thread_core y"
  by (cases x; cases y) (simp add: thread_core_def lock_free_def)

lemma smp_lock: "smp_ok k \<Longrightarrow> smp_ok (rt_cpus_lock k)" "smp_ok k \<Longrightarrow> smp_ok (rt_cpus_unlock k)"
  by (auto simp: rt_cpus_lock_def rt_cpus_unlock_def sched_part_def intro: smp_upd split: option.split)

lemma smp_cpu_upd:
  assumes "smp_ok k" "\<And>p. priority_group (f p) = priority_group p" "\<And>p. current_thread (f p) = current_thread p"
  shows "smp_ok (cpu_upd c f k)"
proof -
  have "tables_ok (cpu_upd c f k)" by (rule tables_ok_cong[OF smp_okD(1)[OF assms(1)]]) (simp_all add: assms)
  then show ?thesis using assms(1,3) by (simp add: smp_ok_def)
qed

lemma switched_smp:
  assumes "smp_ok k" "switched k cur to k'" "best_choice k cur to" "rt_thread_self k = Some cur"
  shows "smp_ok k'"
proof -
  have k': "tables_ok k'" "cpu_id k' = cpu_id k" "\<And>l. \<not> is_table l \<Longrightarrow> rt_lists k' l = rt_lists k l"
    "rt_thread_self k' = Some to"
    "\<And>c. c \<noteq> cpu_id k \<Longrightarrow> current_thread (rt_cpus k' c) = current_thread (rt_cpus k c)"
    "\<And>u. lock_free (tcb k' u) = lock_free (tcb k u\<lparr>oncpu :=
        (if u = to then of_nat (cpu_id k) else if u = cur then RT_CPU_DETACHED else oncpu (tcb k u))\<rparr>)"
    using assms(2) by (simp_all add: switched_def)
  have to: "oncpu (tcb k' to) = of_nat (cpu_id k)" using lock_free_eq(4)[OF k'(6)[of to]] by simp
  have core: "thread_core (tcb k' u) = thread_core (tcb k u)" for u by (rule thread_core_oncpu[OF k'(6)])
  note ce = thread_core_eq[OF core]
  have lists: "stat (tcb k' u) = list_stat l" if "u \<in> set (rt_lists k' l)" for u l
  proof (cases "is_table l")
    case True
    then show ?thesis using tables_okD(1)[OF k'(1) True that] table_stat[OF True] by (simp add: queued_ok_def)
  next
    case False
    then show ?thesis using smp_okD(3)[OF assms(1)] that k'(3)[OF False] ce(2)[of u] by simp
  qed
  have cur: "oncpu (tcb k' t) = of_nat c \<and> (bind_cpu (tcb k' t) = RT_CPUS_NR \<or> unat (bind_cpu (tcb k' t)) = c)"
    if c: "c < 2" "current_thread (rt_cpus k' c) = Some t" for c t
  proof (cases "c = cpu_id k")
    case True
    then have t: "t = to" using c(2) k'(2,4) by (simp add: rt_thread_self_def rt_cpu_self_def)
    have "bind_cpu (tcb k to) = RT_CPUS_NR \<or> unat (bind_cpu (tcb k to)) = cpu_id k"
    proof (cases "to = cur")
      case False
      then have "to \<in> ready_on (cpu_id k) k" using assms(3) by (simp add: best_choice_def)
      then show ?thesis using ready_onD[OF smp_okD(1)[OF assms(1)], of to "cpu_id k"] by (auto simp: home_def split: if_splits)
    qed (use smp_current(1)[OF assms(1,4)] in \<open>simp add: running_ok_def\<close>)
    then show ?thesis using True t to ce(3)[of to] by simp
  next
    case False
    then have t: "current_thread (rt_cpus k c) = Some t" using c(2) k'(5) by simp
    note o = smp_okD(5)[OF assms(1) c(1) t]
    have att: "oncpu (tcb k t) \<noteq> RT_CPU_DETACHED" using o cpu_attached[OF c(1)] by simp
    have "oncpu (tcb k cur) = of_nat (cpu_id k)"
      using smp_okD(5)[OF assms(1) smp_okD(2)[OF assms(1)]] assms(4) by (simp add: rt_thread_self_def rt_cpu_self_def)
    then have ne: "t \<noteq> cur" using o False c(1) smp_okD(2)[OF assms(1)] by (auto simp: less_2_cases_iff)
    have "t \<notin> ready_on (cpu_id k) k"
      using ready_onD[OF smp_okD(1)[OF assms(1)], of t "cpu_id k"] att by (auto simp: queued_ok_def)
    then have "t \<noteq> to" using assms(3) ne by (auto simp: best_choice_def)
    then show ?thesis using o ne lock_free_eq(4)[OF k'(6)[of t]] ce(3)[of t] by simp
  qed
  show ?thesis using k'(1,2) lists cur smp_okD(2,4)[OF assms(1)] ce(2,8) by (simp add: smp_ok_def may_run_def)
qed

text \<open>
  Whatever way \<open>rt_schedule\<close> takes, the invariant holds afterwards and the lists of waiting threads are
  untouched, as is everything a thread has but its lock counters and its processor.
\<close>

lemma schedule_smp:
  assumes "smp_ok k" "rt_schedule k = Some k'"
  shows "smp_ok k'" "\<And>l. \<not> is_table l \<Longrightarrow> rt_lists k' l = rt_lists k l" "\<And>u. thread_core (tcb k' u) = thread_core (tcb k u)"
    "cpu_id k' = cpu_id k"
proof -
  obtain cur where cur: "rt_thread_self k = Some cur"
    using assms(2) by (cases "rt_thread_self k") (simp_all add: rt_schedule_def rt_thread_self_def rt_cpu_self_def)
  let ?f = "\<lambda>p. p\<lparr>irq_switch_flag := True\<rparr>"
  consider "k' = rt_cpus_unlock (cpu_upd (cpu_id k) ?f (rt_cpus_lock k))"
    | "irq_nest (rt_cpu_self k) = 0" "scheduler_lock_nest (tcb (rt_cpus_lock k) cur) = 1" "any_ready k"
    | "k' = k"
    using assms(2) cur by (auto simp: schedule_unfold split: if_splits)
  then have "smp_ok k' \<and> (\<forall>l. \<not> is_table l \<longrightarrow> rt_lists k' l = rt_lists k l) \<and>
    (\<forall>u. thread_core (tcb k' u) = thread_core (tcb k u)) \<and> cpu_id k' = cpu_id k"
  proof cases
    case 1
    have "smp_ok k'" unfolding 1 by (intro smp_lock smp_cpu_upd assms(1)) simp_all
    moreover have "thread_core (tcb k' u) = thread_core (tcb k u)" for u by (rule lock_free_core) (simp add: 1)
    ultimately show ?thesis by (simp add: 1)
  next
    case 2
    obtain to where to: "switched k cur to k'" "best_choice k cur to"
      using schedule_ok[OF smp_okD(1)[OF assms(1)] smp_current(1)[OF assms(1) cur] 2(3,1,2)] assms(2) by auto
    then have "lock_free (tcb k' u) = lock_free (tcb k u\<lparr>oncpu :=
        (if u = to then of_nat (cpu_id k) else if u = cur then RT_CPU_DETACHED else oncpu (tcb k u))\<rparr>)" for u
      by (simp add: switched_def)
    note thread_core_oncpu[OF this]
    then show ?thesis using switched_smp[OF assms(1) to cur] to(1) by (simp add: switched_def)
  qed (use assms(1) in simp)
  then show "smp_ok k'" "\<And>l. \<not> is_table l \<Longrightarrow> rt_lists k' l = rt_lists k l" "\<And>u. thread_core (tcb k' u) = thread_core (tcb k u)"
    "cpu_id k' = cpu_id k" by simp_all
qed

lemma schedule_Some: "smp_ok k \<Longrightarrow> rt_thread_self k = Some cur \<Longrightarrow> \<exists>k'. rt_schedule k = Some k'"
  using schedule_ok[OF smp_okD(1) smp_current(1), of k cur] by (auto simp: schedule_unfold split: if_splits)

section \<open>Timeouts and priorities\<close>

lemma timeout_ok:
  assumes "smp_ok k" "thread_timeout_begin t k = Some k'"
  shows "smp_ok k'" "\<And>l. \<not> is_table l \<Longrightarrow> rt_lists k' l = removeAll t (rt_lists k l)" "cpu_id k' = cpu_id k"
    "tcb k' = (tcb k)(t := tcb k t\<lparr>th_error := RT_ETIMEOUT, stat := RT_THREAD_READY\<rparr>)"
proof -
  define k1 where "k1 = rt_list_remove t (set_error RT_ETIMEOUT t k)"
  have s: "stat (tcb k t) = RT_THREAD_SUSPEND" "k' = rt_schedule_insert_thread t k1"
    using assms(2) by (simp_all add: thread_timeout_begin_def k1_def set_error_def split: if_splits)
  have s1: "smp_ok (set_error RT_ETIMEOUT t k)" "stat (tcb (set_error RT_ETIMEOUT t k) t) = RT_THREAD_SUSPEND"
    using smp_set_error[OF assms(1)] s(1) by simp_all
  note k1 = smp_list_remove[OF s1, folded k1_def]
  show "smp_ok k'" unfolding s(2) using smp_suspended(2)[OF s1] by (intro smp_insert k1) (simp add: k1_def)
  show "\<And>l. \<not> is_table l \<Longrightarrow> rt_lists k' l = removeAll t (rt_lists k l)" by (simp add: s(2) insert_nontable k1_def)
  show "cpu_id k' = cpu_id k" by (simp add: s(2) insert_cpu(1) k1_def)
  show "tcb k' = (tcb k)(t := tcb k t\<lparr>th_error := RT_ETIMEOUT, stat := RT_THREAD_READY\<rparr>)"
    by (simp add: s(2) insert_tcb k1_def fun_eq_iff)
qed

lemma set_priority_ok: "unat p < 32 \<Longrightarrow> prio_ok (set_priority p x)"
  by (simp add: set_priority_def prio_ok_def)

lemma smp_set_priority:
  assumes "smp_ok k" "unat p < 32" "untabled t k"
  shows "smp_ok (th_upd t (set_priority p) k)"
  using assms(1) set_priority_ok[OF assms(2)] tables_ok_upd_untabled[OF smp_okD(1)[OF assms(1)] assms(3)]
  by (auto simp: smp_ok_def may_run_def) (auto simp: set_priority_def)

lemma priority_ok:
  assumes "smp_ok k" "change_priority t p k = Some k'"
  shows "smp_ok k'" "\<And>l. \<not> is_table l \<Longrightarrow> rt_lists k' l = rt_lists k l" "cpu_id k' = cpu_id k"
    "tcb k' = (tcb k)(t := set_priority p (tcb k t))" "rt_thread_self k' = rt_thread_self k"
    "irq_nest (rt_cpu_self k') = irq_nest (rt_cpu_self k)"
proof -
  have p: "unat p < 32" using assms(2) by (auto simp: change_priority_def RT_THREAD_PRIORITY_MAX_def split: if_splits)
  have "smp_ok k' \<and> (\<forall>l. \<not> is_table l \<longrightarrow> rt_lists k' l = rt_lists k l) \<and> cpu_id k' = cpu_id k \<and>
    tcb k' = (tcb k)(t := set_priority p (tcb k t)) \<and> rt_thread_self k' = rt_thread_self k \<and>
    irq_nest (rt_cpu_self k') = irq_nest (rt_cpu_self k)"
  proof (cases "stat (tcb k t) = RT_THREAD_READY")
    case True
    define k1 where "k1 = rt_schedule_remove_thread t k"
    define k2 where "k2 = th_upd t (set_priority p) k1"
    have po: "prio_ok (tcb k t)" using smp_okD(4)[OF assms(1)] True by (simp add: may_run_def)
    note k1 = smp_remove[OF assms(1) po, folded k1_def] sched_remove_ok(2)[OF smp_okD(1)[OF assms(1)] po, folded k1_def]
    have k2: "smp_ok k2" "unlisted t k2" "prio_ok (tcb k2 t)"
      using smp_set_priority[OF k1(1) p unlisted_untabled[OF k1(2)]] k1(2) set_priority_ok[OF p]
      by (simp_all add: k2_def unlisted_def)
    have l: "t \<notin> set (rt_lists k l)" if "\<not> is_table l" for l
      using smp_okD(3)[OF assms(1), of t l] True that by (cases l) auto
    have e: "k' = rt_schedule_insert_thread t k2"
      using assms(2) True p by (simp add: change_priority_def k1_def k2_def RT_THREAD_PRIORITY_MAX_def not_le)
    have r1: "current_thread (rt_cpus k1 c) = current_thread (rt_cpus k c)" "irq_nest (rt_cpus k1 c) = irq_nest (rt_cpus k c)" for c
      unfolding k1_def by (subst remove_cpu(2), simp)+
    have r2: "current_thread (rt_cpus k' c) = current_thread (rt_cpus k2 c)" "irq_nest (rt_cpus k' c) = irq_nest (rt_cpus k2 c)" for c
      unfolding e by (subst insert_cpu(2), simp)+
    have "tcb k' = (tcb k)(t := set_priority p (tcb k t)\<lparr>stat := RT_THREAD_READY\<rparr>)"
      by (simp add: e insert_tcb k2_def k1_def remove_tcb fun_eq_iff)
    also have "set_priority p (tcb k t)\<lparr>stat := RT_THREAD_READY\<rparr> = set_priority p (tcb k t)"
      using True by (cases "tcb k t") (simp add: set_priority_def)
    finally have tc: "tcb k' = (tcb k)(t := set_priority p (tcb k t))" .
    have li: "rt_lists k' l' = rt_lists k l'" if "\<not> is_table l'" for l'
      using that l[OF that] by (simp add: e insert_nontable k2_def k1_def remove_lists removeAll_id)
    have ci: "cpu_id k' = cpu_id k" by (simp add: e insert_cpu(1) k2_def k1_def remove_cpu(1))
    have "rt_thread_self k' = rt_thread_self k" "irq_nest (rt_cpu_self k') = irq_nest (rt_cpu_self k)"
      using r1 r2 by (simp_all add: rt_thread_self_def rt_cpu_self_def ci k2_def)
    then show ?thesis using smp_insert[OF k2] tc li ci by (simp only: e) blast
  next
    case False
    then have "k' = th_upd t (set_priority p) k"
      using assms(2) p by (simp add: change_priority_def RT_THREAD_PRIORITY_MAX_def not_le)
    moreover have "untabled t k"
      using tables_okD(1)[OF smp_okD(1)[OF assms(1)]] False by (auto simp: untabled_def queued_ok_def)
    ultimately show ?thesis using smp_set_priority[OF assms(1) p]
      by (auto simp: rt_thread_self_def rt_cpu_self_def)
  qed
  then show "smp_ok k'" "\<And>l. \<not> is_table l \<Longrightarrow> rt_lists k' l = rt_lists k l" "cpu_id k' = cpu_id k"
    "tcb k' = (tcb k)(t := set_priority p (tcb k t))" "rt_thread_self k' = rt_thread_self k"
    "irq_nest (rt_cpu_self k') = irq_nest (rt_cpu_self k)" by simp_all
qed

end
