(* ===== verification/RtIpcSpec.thy ===== *)
theory RtIpcSpec
  imports RtSmp
begin

text \<open>
  Waiting lists: the place of a new waiting thread, what waiting and waking do to the kernel, and the
  part of the invariant that semaphores and mutexes share, for threads that wait for one object while
  everything else goes on.
\<close>

section \<open>The order of waiting threads\<close>

lemma prio_insert_split:
  "prio_insert pr t us = takeWhile (\<lambda>u. pr u \<le> pr t) us @ t # dropWhile (\<lambda>u. pr u \<le> pr t) us"
  by (induction us) auto

lemma set_prio_insert [simp]: "set (prio_insert pr t us) = insert t (set us)"
  by (induction us) auto

lemma distinct_prio_insert: "distinct us \<Longrightarrow> t \<notin> set us \<Longrightarrow> distinct (prio_insert pr t us)"
  by (induction us) auto

text \<open>The list with a new thread, by the flag of the object.\<close>

definition wait_insert :: "byte \<Rightarrow> (tid \<Rightarrow> byte) \<Rightarrow> tid \<Rightarrow> tid list \<Rightarrow> tid list" where
  "wait_insert flag pr t us = (if flag = RT_IPC_FLAG_FIFO then us @ [t]
     else if flag = RT_IPC_FLAG_PRIO then prio_insert pr t us else us)"

definition flag_ok :: "byte \<Rightarrow> bool" where
  "flag_ok flag \<longleftrightarrow> flag = RT_IPC_FLAG_FIFO \<or> flag = RT_IPC_FLAG_PRIO"

lemma wait_insert_set: "flag_ok flag \<Longrightarrow> set (wait_insert flag pr t us) = insert t (set us)"
  by (auto simp: wait_insert_def flag_ok_def)

lemma wait_insert_distinct: "distinct us \<Longrightarrow> t \<notin> set us \<Longrightarrow> distinct (wait_insert flag pr t us)"
  by (auto simp: wait_insert_def distinct_prio_insert)

section \<open>Waiting\<close>

lemma list_suspend_ok:
  assumes "smp_ok k" "rt_thread_self k = Some t" "stat (tcb k t) = RT_THREAD_READY" "flag_ok flag"
  shows "\<exists>k'. rt_ipc_list_suspend (SuspendList i) t flag k = Some k' \<and> smp_ok k' \<and>
    tcb k' = (tcb k)(t := tcb k t\<lparr>stat := RT_THREAD_SUSPEND\<rparr>) \<and> rt_thread_self k' = Some t \<and> cpu_id k' = cpu_id k \<and> tick k' = tick k \<and>
    rt_lists k' = (rt_lists k)(SuspendList i := wait_insert flag (\<lambda>u. current_priority (tcb k u)) t (rt_lists k (SuspendList i)))"
proof -
  obtain k1 where k1: "rt_thread_suspend t k = Some (RT_EOK, k1)" "smp_ok k1" "unlisted t k1"
    "tcb k1 = (tcb k)(t := tcb k t\<lparr>stat := RT_THREAD_SUSPEND\<rparr>)" "rt_lists k1 = rt_lists k" "rt_thread_self k1 = Some t"
    "cpu_id k1 = cpu_id k" "tick k1 = tick k"
    using suspend_ok[OF assms(1-3)] by blast
  let ?ys = "wait_insert flag (\<lambda>u. current_priority (tcb k u)) t (rt_lists k (SuspendList i))"
  let ?k = "k1\<lparr>rt_lists := (rt_lists k1)(SuspendList i := ?ys)\<rparr>"
  have pr: "(\<lambda>u. current_priority (tcb k1 u)) = (\<lambda>u. current_priority (tcb k u))" by (simp add: k1(4) fun_eq_iff)
  have "rt_ipc_list_suspend (SuspendList i) t flag k = Some ?k"
    using assms(4) by (auto simp: rt_ipc_list_suspend_def k1(1,5) pr rt_list_insert_before_def wait_insert_def flag_ok_def)
  moreover have "smp_ok ?k"
  proof (rule smp_list_insert[OF k1(2,3)])
    show "stat (tcb k1 t) = RT_THREAD_SUSPEND" by (simp add: k1(4))
    show "set ?ys = insert t (set (rt_lists k1 (SuspendList i)))" using assms(4) by (simp add: wait_insert_set k1(5))
    have "t \<notin> set (rt_lists k (SuspendList i))" using k1(3,5) by (simp add: unlisted_def)
    moreover have "distinct (rt_lists k (SuspendList i))" using smp_okD(1)[OF assms(1)] by (simp add: tables_ok_def)
    ultimately show "distinct ?ys" by (rule wait_insert_distinct[rotated])
  qed
  ultimately show ?thesis using k1 by (intro exI[of _ ?k]) (simp add: rt_thread_self_def rt_cpu_self_def)
qed

lemma ipc_wait_ok:
  assumes "ipc_wait (SuspendList i) t flag time k = Some k'" "smp_ok k" "rt_thread_self k = Some t"
    "stat (tcb k t) = RT_THREAD_READY" "flag_ok flag"
  shows "smp_ok k'" "tcb k' = (tcb k)(t := tcb k t\<lparr>stat := RT_THREAD_SUSPEND\<rparr>)" "rt_thread_self k' = Some t"
    "rt_lists k' = (rt_lists k)(SuspendList i := wait_insert flag (\<lambda>u. current_priority (tcb k u)) t (rt_lists k (SuspendList i)))"
    "cpu_id k' = cpu_id k" "tick k' = tick k"
proof -
  obtain k1 where k1: "rt_ipc_list_suspend (SuspendList i) t flag k = Some k1" "smp_ok k1"
    "tcb k1 = (tcb k)(t := tcb k t\<lparr>stat := RT_THREAD_SUSPEND\<rparr>)" "rt_thread_self k1 = Some t" "cpu_id k1 = cpu_id k" "tick k1 = tick k"
    "rt_lists k1 = (rt_lists k)(SuspendList i := wait_insert flag (\<lambda>u. current_priority (tcb k u)) t (rt_lists k (SuspendList i)))"
    using list_suspend_ok[OF assms(2-5)] by blast
  have "same_sched k1 k'"
    using assms(1) k1(1) start_thread_timer_sched by (auto simp: ipc_wait_def split: if_splits)
  note e = same_schedD[OF this] smp_ok_same[OF this k1(2)]
  show "smp_ok k'" "tcb k' = (tcb k)(t := tcb k t\<lparr>stat := RT_THREAD_SUSPEND\<rparr>)" "rt_thread_self k' = Some t"
    "rt_lists k' = (rt_lists k)(SuspendList i := wait_insert flag (\<lambda>u. current_priority (tcb k u)) t (rt_lists k (SuspendList i)))"
    "cpu_id k' = cpu_id k" "tick k' = tick k"
    using e k1 by (simp_all add: rt_thread_self_def rt_cpu_self_def)
qed

text \<open>Waiting is possible for ever and for less than half the range of ticks.\<close>

lemma ipc_wait_Some:
  assumes "smp_ok k" "rt_thread_self k = Some t" "stat (tcb k t) = RT_THREAD_READY" "flag_ok flag"
    "sint time \<le> 0 \<or> time < tick_half"
  shows "ipc_wait (SuspendList i) t flag time k \<noteq> None"
  using list_suspend_ok[OF assms(1-4), of i] assms(5)
  by (auto simp: ipc_wait_def start_thread_timer_def timer_start_def Let_def timer_upd_def timer_remove_def)

section \<open>Waking\<close>

lemma waiting_stat: "smp_ok k \<Longrightarrow> t \<in> set (rt_lists k (SuspendList i)) \<Longrightarrow> stat (tcb k t) = RT_THREAD_SUSPEND"
  using smp_okD(3) by fastforce

lemma waiting_distinct: "smp_ok k \<Longrightarrow> distinct (rt_lists k l)"
  using smp_okD(1) by (auto simp: tables_ok_def)

lemma waiting_once: "smp_ok k \<Longrightarrow> t \<in> set (rt_lists k l) \<Longrightarrow> t \<in> set (rt_lists k l') \<Longrightarrow> l = l'"
  using smp_okD(1) unfolding tables_ok_def by blast

lemma list_resume_ok:
  assumes "smp_ok k" "rt_lists k (SuspendList i) = u # us"
  defines "k' \<equiv> rt_ipc_list_resume (SuspendList i) k"
  shows "smp_ok k'" "tcb k' = (tcb k)(u := tcb k u\<lparr>stat := RT_THREAD_READY\<rparr>)"
    "\<And>l. \<not> is_table l \<Longrightarrow> rt_lists k' l = (if l = SuspendList i then us else rt_lists k l)"
    "rt_thread_self k' = rt_thread_self k" "cpu_id k' = cpu_id k" "irq_nest (rt_cpu_self k') = irq_nest (rt_cpu_self k)"
    "oncpu (tcb k u) = RT_CPU_DETACHED \<Longrightarrow> u \<in> set (rt_lists k' (home (tcb k u)))"
proof -
  have u: "u \<in> set (rt_lists k (SuspendList i))" by (simp add: assms(2))
  have k': "k' = snd (rt_thread_resume u k)" by (simp add: k'_def rt_ipc_list_resume_def assms(2))
  obtain k1 where k1: "rt_thread_resume u k = (RT_EOK, k1)" "smp_ok k1" "tcb k1 = (tcb k)(u := tcb k u\<lparr>stat := RT_THREAD_READY\<rparr>)"
    "\<forall>l. \<not> is_table l \<longrightarrow> rt_lists k1 l = removeAll u (rt_lists k l)"
    "rt_thread_self k1 = rt_thread_self k" "cpu_id k1 = cpu_id k" "irq_nest (rt_cpu_self k1) = irq_nest (rt_cpu_self k)"
    "oncpu (tcb k u) = RT_CPU_DETACHED \<longrightarrow> u \<in> set (rt_lists k1 (home (tcb k u)))"
    using resume_ok[OF assms(1) waiting_stat[OF assms(1) u]] by blast
  have ra: "removeAll u (rt_lists k l) = (if l = SuspendList i then us else rt_lists k l)" for l
  proof (cases "l = SuspendList i")
    case True
    then show ?thesis using waiting_distinct[OF assms(1), of "SuspendList i"] by (simp add: assms(2) removeAll_id)
  next
    case False
    then have "u \<notin> set (rt_lists k l)" using waiting_once[OF assms(1) u] by blast
    then show ?thesis using False by (simp add: removeAll_id)
  qed
  show "smp_ok k'" "tcb k' = (tcb k)(u := tcb k u\<lparr>stat := RT_THREAD_READY\<rparr>)"
    "rt_thread_self k' = rt_thread_self k" "cpu_id k' = cpu_id k" "irq_nest (rt_cpu_self k') = irq_nest (rt_cpu_self k)"
    using k1 by (simp_all add: k')
  show "\<And>l. \<not> is_table l \<Longrightarrow> rt_lists k' l = (if l = SuspendList i then us else rt_lists k l)"
    unfolding k' using k1(1,4) ra by simp
  show "oncpu (tcb k u) = RT_CPU_DETACHED \<Longrightarrow> u \<in> set (rt_lists k' (home (tcb k u)))"
    unfolding k' using k1(1,8) by simp
qed

text \<open>Waking all: the threads woken so far are the first ones of the list at the start.\<close>

definition woken :: "tid set \<Rightarrow> (tid \<Rightarrow> rt_thread) \<Rightarrow> tid \<Rightarrow> rt_thread" where
  "woken W th t = (if t \<in> W then th t\<lparr>th_error := RT_ERROR, stat := RT_THREAD_READY\<rparr> else th t)"

definition resuming :: "nat \<Rightarrow> kernel \<Rightarrow> kernel \<Rightarrow> bool" where
  "resuming i k0 k \<longleftrightarrow> smp_ok k \<and> (\<exists>us. rt_lists k0 (SuspendList i) = us @ rt_lists k (SuspendList i) \<and>
     tcb k = woken (set us) (tcb k0)) \<and>
     (\<forall>l. \<not> is_table l \<longrightarrow> l \<noteq> SuspendList i \<longrightarrow> rt_lists k l = rt_lists k0 l) \<and> rt_thread_self k = rt_thread_self k0"

lemma resume_round_ok:
  assumes "resuming i k0 k" "rt_lists k (SuspendList i) \<noteq> []"
  shows "\<exists>k'. ipc_resume_round (SuspendList i) k = Some k' \<and> resuming i k0 k' \<and>
    length (rt_lists k' (SuspendList i)) < length (rt_lists k (SuspendList i))"
proof -
  obtain us where us: "smp_ok k" "rt_lists k0 (SuspendList i) = us @ rt_lists k (SuspendList i)" "tcb k = woken (set us) (tcb k0)"
    "\<forall>l. \<not> is_table l \<longrightarrow> l \<noteq> SuspendList i \<longrightarrow> rt_lists k l = rt_lists k0 l" "rt_thread_self k = rt_thread_self k0"
    using assms(1) by (auto simp: resuming_def)
  obtain t vs where l: "rt_lists k (SuspendList i) = t # vs" using assms(2) by (cases "rt_lists k (SuspendList i)") auto
  define k1 where "k1 = set_error RT_ERROR t k"
  define k2 where "k2 = rt_ipc_list_resume (SuspendList i) k1"
  have k1: "smp_ok k1" "rt_lists k1 (SuspendList i) = t # vs" using smp_set_error[OF us(1)] l by (simp_all add: k1_def)
  note k2 = list_resume_ok[OF k1, folded k2_def]
  have e: "ipc_resume_round (SuspendList i) k = Some k2"
    by (simp add: ipc_resume_round_def Let_def k2_def rt_ipc_list_resume_def k1_def l set_error_def)
  have "tcb k2 = woken (set (us @ [t])) (tcb k0)" by (auto simp: k2(2) k1_def us(3) woken_def fun_eq_iff)
  moreover have "rt_thread_self k2 = rt_thread_self k0" using k2(4) us(5) by (simp add: k1_def)
  ultimately have "resuming i k0 k2"
    unfolding resuming_def using k2(1,3) us(2,4) l by (auto simp: k1_def intro!: exI[of _ "us @ [t]"])
  then show ?thesis using e k2(3) l by auto
qed

lemma resume_all_ok:
  assumes "smp_ok k" "length (rt_lists k (SuspendList i)) \<le> n"
  shows "\<exists>k'. rt_ipc_list_resume_all n (SuspendList i) k = Done k' \<and> smp_ok k' \<and> rt_lists k' (SuspendList i) = [] \<and>
    tcb k' = woken (set (rt_lists k (SuspendList i))) (tcb k) \<and>
    (\<forall>l. \<not> is_table l \<longrightarrow> l \<noteq> SuspendList i \<longrightarrow> rt_lists k' l = rt_lists k l) \<and> rt_thread_self k' = rt_thread_self k"
proof -
  have "measured_loop (\<lambda>k. rt_lists k (SuspendList i) \<noteq> []) (ipc_resume_round (SuspendList i)) (resuming i k)
     (\<lambda>k. length (rt_lists k (SuspendList i)))"
    using resume_round_ok[of i k] by unfold_locales fastforce+
  moreover have "resuming i k k" using assms(1) by (simp add: resuming_def woken_def fun_eq_iff)
  ultimately obtain k' where "run_loop n (\<lambda>k. rt_lists k (SuspendList i) \<noteq> []) (ipc_resume_round (SuspendList i)) k = Returned k'"
    "resuming i k k'" "rt_lists k' (SuspendList i) = []"
    using measured_loop.returns[of _ _ _ _ k n] assms(2) by blast
  then show ?thesis by (auto simp: rt_ipc_list_resume_all_def resuming_def)
qed

end
