(* ===== verification/RtSemSpec.thy ===== *)
theory RtSemSpec
  imports RtIpcSpec
begin

text \<open>
  Threads that wait for one object while everything else goes on, and semaphores: under every interleaving
  of takes, releases, timeouts and rescheduling on both processors no unit is lost and no thread waits for
  a unit that is there.
\<close>

section \<open>The rest of the system\<close>

text \<open>
  What may happen beside the calls on an object whose waiting lists are those in \<open>L\<close>: scheduling and the switch to
  the other processor, timeouts of any thread, changes of priority, other threads waiting for or woken by
  other objects, and other changes of a thread the scheduler does not look at. The threads in \<open>P\<close> are
  inside a call that has to wait for this object, so they make no other call and nobody else writes their
  error.
\<close>

inductive env_step :: "tid set \<Rightarrow> rt_list set \<Rightarrow> kernel \<Rightarrow> kernel \<Rightarrow> bool" for P L where
  schedule: "rt_schedule k = Some k' \<Longrightarrow> env_step P L k k'"
| processor: "c < 2 \<Longrightarrow> env_step P L k (k\<lparr>cpu_id := c\<rparr>)"
| clock: "same_sched (k\<lparr>tick := tick k'\<rparr>) k' \<Longrightarrow> env_step P L k k'"
| timeout: "thread_timeout_begin t k = Some k' \<Longrightarrow> env_step P L k k'"
| priority: "change_priority t p k = Some k' \<Longrightarrow> env_step P L k k'"
| wait: "rt_thread_self k = Some t \<Longrightarrow> t \<notin> P \<Longrightarrow> stat (tcb k t) = RT_THREAD_READY \<Longrightarrow> flag_ok flag \<Longrightarrow> SuspendList i \<notin> L \<Longrightarrow>
    ipc_wait (SuspendList i) t flag time k = Some k' \<Longrightarrow> env_step P L k k'"
| wake: "SuspendList i \<notin> L \<Longrightarrow> rt_lists k (SuspendList i) \<noteq> [] \<Longrightarrow> env_step P L k (rt_ipc_list_resume (SuspendList i) k)"
| other: "t \<notin> P \<Longrightarrow> (\<And>x. sched_part (f x) = sched_part x) \<Longrightarrow> env_step P L k (th_upd t f k)"

text \<open>
  A thread in such a call waits in the list with no error, or was woken (no error) or has timed out and
  will return the next time it runs.
\<close>

definition woken_by_object :: "tid set \<Rightarrow> kernel \<Rightarrow> tid set" where
  "woken_by_object P k = {t \<in> P. stat (tcb k t) = RT_THREAD_READY \<and> th_error (tcb k t) = RT_EOK}"

definition waiters_ok :: "tid set \<Rightarrow> nat \<Rightarrow> kernel \<Rightarrow> bool" where
  "waiters_ok P i k \<longleftrightarrow> smp_ok k \<and> finite P \<and> set (rt_lists k (SuspendList i)) \<subseteq> P \<and>
     (\<forall>t\<in>P. t \<in> set (rt_lists k (SuspendList i)) \<and> th_error (tcb k t) = RT_EOK \<or>
        stat (tcb k t) = RT_THREAD_READY \<and> (th_error (tcb k t) = RT_EOK \<or> th_error (tcb k t) = RT_ETIMEOUT))"

lemma waiters_okD:
  assumes "waiters_ok P i k"
  shows "smp_ok k" "finite P" "set (rt_lists k (SuspendList i)) \<subseteq> P"
    "t \<in> P \<Longrightarrow> t \<in> set (rt_lists k (SuspendList i)) \<and> th_error (tcb k t) = RT_EOK \<or>
        stat (tcb k t) = RT_THREAD_READY \<and> (th_error (tcb k t) = RT_EOK \<or> th_error (tcb k t) = RT_ETIMEOUT)"
  using assms by (simp_all add: waiters_ok_def)

lemma waiters_finite: "waiters_ok P i k \<Longrightarrow> finite (woken_by_object P k)"
  by (simp add: woken_by_object_def waiters_ok_def)

text \<open>Changes that keep the list, and state and error of the threads in \<open>P\<close>.\<close>

lemma waiters_ok_cong:
  assumes "waiters_ok P i k" "smp_ok k'" "rt_lists k' (SuspendList i) = rt_lists k (SuspendList i)"
    "\<And>t. t \<in> P \<Longrightarrow> stat (tcb k' t) = stat (tcb k t) \<and> th_error (tcb k' t) = th_error (tcb k t)"
  shows "waiters_ok P i k' \<and> woken_by_object P k' = woken_by_object P k"
  using assms by (auto simp: waiters_ok_def woken_by_object_def)

lemma waiters_ok_other:
  assumes "waiters_ok P i k" "smp_ok k'" "rt_lists k' (SuspendList i) = rt_lists k (SuspendList i)"
    "tcb k' = (tcb k)(u := x)" "u \<notin> P"
  shows "waiters_ok P i k' \<and> woken_by_object P k' = woken_by_object P k"
  using assms(4,5) by (intro waiters_ok_cong[OF assms(1-3)]) auto

lemma waiters_schedule:
  assumes "waiters_ok P i k" "rt_schedule k = Some k'"
  shows "waiters_ok P i k' \<and> woken_by_object P k' = woken_by_object P k"
    "rt_lists k' (SuspendList i) = rt_lists k (SuspendList i)"
  using waiters_ok_cong[OF assms(1) schedule_smp(1)[OF waiters_okD(1)[OF assms(1)] assms(2)]]
    schedule_smp(2)[OF waiters_okD(1)[OF assms(1)] assms(2)]
    thread_core_eq(1,2)[OF schedule_smp(3)[OF waiters_okD(1)[OF assms(1)] assms(2)]] by simp_all

lemma waiters_timeout:
  assumes "waiters_ok P i k" "thread_timeout_begin t k = Some k'"
  shows "waiters_ok P i k' \<and> woken_by_object P k' = woken_by_object P k"
    "rt_lists k' (SuspendList i) = removeAll t (rt_lists k (SuspendList i))"
proof -
  note k' = timeout_ok[OF waiters_okD(1)[OF assms(1)] assms(2)]
  have s: "stat (tcb k t) = RT_THREAD_SUSPEND" using assms(2) by (auto simp: thread_timeout_begin_def split: if_splits)
  show l: "rt_lists k' (SuspendList i) = removeAll t (rt_lists k (SuspendList i))" by (simp add: k'(2))
  show "waiters_ok P i k' \<and> woken_by_object P k' = woken_by_object P k"
    using assms(1) s k'(1) by (auto simp: waiters_ok_def woken_by_object_def l k'(4))
qed

lemma env_step_ok:
  assumes "env_step Q L k k'" "waiters_ok P i k" "P \<subseteq> Q" "SuspendList i \<in> L"
  shows "waiters_ok P i k' \<and> woken_by_object P k' = woken_by_object P k"
    "set (rt_lists k' (SuspendList i)) \<subseteq> set (rt_lists k (SuspendList i))"
proof -
  note s = waiters_okD(1)[OF assms(2)]
  have "(waiters_ok P i k' \<and> woken_by_object P k' = woken_by_object P k) \<and>
    set (rt_lists k' (SuspendList i)) \<subseteq> set (rt_lists k (SuspendList i))"
    using assms(1)
  proof cases
    case schedule
    then show ?thesis using waiters_schedule[OF assms(2)] by simp
  next
    case (processor c)
    then show ?thesis using waiters_ok_cong[OF assms(2) smp_cpu[OF s]] by simp
  next
    case clock
    have "smp_ok (k\<lparr>tick := tick k'\<rparr>)" using s tables_ok_cong[of k "k\<lparr>tick := tick k'\<rparr>"] by (simp add: smp_ok_def)
    from waiters_ok_cong[OF assms(2) smp_ok_same[OF clock this]] same_schedD[OF clock] show ?thesis by simp
  next
    case (timeout t)
    then show ?thesis using waiters_timeout[OF assms(2)] by auto
  next
    case (priority t p)
    from waiters_ok_cong[OF assms(2) priority_ok(1)[OF s this]] priority_ok(2,4)[OF s this]
    show ?thesis by (simp add: set_priority_def)
  next
    case (wait t flag j time)
    note w = ipc_wait_ok[OF wait(6) s wait(1,3,4)]
    have ne: "t \<notin> P" "j \<noteq> i" using wait(2,5) assms(3,4) by auto
    from waiters_ok_other[OF assms(2) w(1) _ w(2) ne(1)] show ?thesis using ne(2) by (simp add: w(4))
  next
    case (wake j)
    then obtain u us where l: "rt_lists k (SuspendList j) = u # us" by (cases "rt_lists k (SuspendList j)") auto
    note w = list_resume_ok[OF s l]
    have ne: "j \<noteq> i" using wake(2) assms(4) by auto
    have "stat (tcb k u) = RT_THREAD_SUSPEND" "u \<notin> set (rt_lists k (SuspendList i))"
      using waiting_stat[OF s, of u j] waiting_once[OF s, of u "SuspendList j" "SuspendList i"] l ne by auto
    then have "u \<notin> P" using waiters_okD(4)[OF assms(2), of u] by auto
    from waiters_ok_other[OF assms(2) w(1) _ w(2) this] show ?thesis using wake(1) ne by (auto simp: w(3))
  next
    case (other t f)
    have "tcb (th_upd t f k) = (tcb k)(t := f (tcb k t))" by (simp add: th_upd_def)
    from waiters_ok_other[OF assms(2) smp_upd[OF s other(3)] _ this] other(2) assms(3) show ?thesis by (auto simp: other(1))
  qed
  then show "waiters_ok P i k' \<and> woken_by_object P k' = woken_by_object P k"
    "set (rt_lists k' (SuspendList i)) \<subseteq> set (rt_lists k (SuspendList i))" by simp_all
qed

lemma waiters_set_error:
  assumes "waiters_ok P i k" "t \<notin> P"
  shows "waiters_ok P i (set_error e t k) \<and> woken_by_object P (set_error e t k) = woken_by_object P k"
  by (rule waiters_ok_other[OF assms(1) smp_set_error[OF waiters_okD(1)[OF assms(1)]] _ _ assms(2), where x = "tcb k t\<lparr>th_error := e\<rparr>"])
    (simp_all add: fun_eq_iff)

text \<open>The three things the calls on the object do: a thread starts to wait, is woken, returns.\<close>

lemma waiters_wait:
  assumes "waiters_ok P i k" "rt_thread_self k = Some t" "t \<notin> P" "stat (tcb k t) = RT_THREAD_READY" "flag_ok flag"
    "th_error (tcb k t) = RT_EOK" "ipc_wait (SuspendList i) t flag time k = Some k'"
  shows "waiters_ok (insert t P) i k' \<and> woken_by_object (insert t P) k' = woken_by_object P k"
proof -
  note w = ipc_wait_ok[OF assms(7) waiters_okD(1)[OF assms(1)] assms(2,4,5)]
  show ?thesis using assms(1,3,6) w(1)
    by (auto simp: waiters_ok_def woken_by_object_def w(2,4) wait_insert_set[OF assms(5)])
qed

lemma waiters_wake:
  assumes "waiters_ok P i k" "rt_lists k (SuspendList i) = u # us"
  defines "k' \<equiv> rt_ipc_list_resume (SuspendList i) k"
  shows "waiters_ok P i k'" "woken_by_object P k' = insert u (woken_by_object P k)" "u \<notin> woken_by_object P k"
    "rt_lists k' (SuspendList i) = us"
proof -
  note s = waiters_okD(1)[OF assms(1)]
  note w = list_resume_ok[OF s assms(2), folded k'_def]
  have u: "stat (tcb k u) = RT_THREAD_SUSPEND" "u \<in> P"
    using waiting_stat[OF s, of u i] waiters_okD(3)[OF assms(1)] assms(2) by auto
  then have e: "th_error (tcb k u) = RT_EOK" using waiters_okD(4)[OF assms(1), of u] by auto
  show l: "rt_lists k' (SuspendList i) = us" by (simp add: w(3))
  show "waiters_ok P i k'" using assms(1,2) w(1) e by (auto simp: waiters_ok_def w(2) l)
  show "woken_by_object P k' = insert u (woken_by_object P k)" using u e by (auto simp: woken_by_object_def w(2))
  show "u \<notin> woken_by_object P k" using u by (simp add: woken_by_object_def)
qed

lemma waiters_return:
  assumes "waiters_ok P i k" "t \<in> P" "stat (tcb k t) = RT_THREAD_READY"
  shows "waiters_ok (P - {t}) i k" "woken_by_object (P - {t}) k = woken_by_object P k - {t}"
    "th_error (tcb k t) = RT_EOK \<longleftrightarrow> t \<in> woken_by_object P k"
proof -
  have "t \<notin> set (rt_lists k (SuspendList i))" using waiting_stat[OF waiters_okD(1)[OF assms(1)], of t i] assms(3) by auto
  then show "waiters_ok (P - {t}) i k" using assms(1) by (auto simp: waiters_ok_def)
  show "woken_by_object (P - {t}) k = woken_by_object P k - {t}" by (auto simp: woken_by_object_def)
  show "th_error (tcb k t) = RT_EOK \<longleftrightarrow> t \<in> woken_by_object P k" using assms(2,3) by (simp add: woken_by_object_def)
qed

section \<open>Runs of a semaphore\<close>

text \<open>\<open>took\<close> and \<open>released\<close> count the calls that returned \<open>RT_EOK\<close>; \<open>pending\<close> are the threads inside a take that waits.\<close>

record sem_run =
  the_sem :: rt_semaphore
  the_kernel :: kernel
  pending :: "tid set"
  took :: nat
  released :: nat

definition waits_for :: "sem_run \<Rightarrow> tid list" where
  "waits_for r = rt_lists (the_kernel r) (suspend_thread (the_sem r))"

inductive sem_step :: "sem_run \<Rightarrow> sem_run \<Rightarrow> bool" where
  take_now: "rt_thread_self (the_kernel r) = Some t \<Longrightarrow> t \<notin> pending r \<Longrightarrow>
    sem_take_begin (the_sem r) time (the_kernel r) = Some (Result e, s, k) \<Longrightarrow>
    sem_step r (r\<lparr>the_sem := s, the_kernel := k, took := (if e = RT_EOK then took r + 1 else took r)\<rparr>)"
| take_wait: "rt_thread_self (the_kernel r) = Some t \<Longrightarrow> t \<notin> pending r \<Longrightarrow> stat (tcb (the_kernel r) t) = RT_THREAD_READY \<Longrightarrow>
    sem_take_begin (the_sem r) time (the_kernel r) = Some (Blocked, s, k) \<Longrightarrow>
    sem_step r (r\<lparr>the_sem := s, the_kernel := k, pending := insert t (pending r)\<rparr>)"
| take_end: "rt_thread_self (the_kernel r) = Some t \<Longrightarrow> t \<in> pending r \<Longrightarrow> stat (tcb (the_kernel r) t) = RT_THREAD_READY \<Longrightarrow>
    rt_sem_take_end t (the_kernel r) = e \<Longrightarrow>
    sem_step r (r\<lparr>pending := pending r - {t}, took := (if e = RT_EOK then took r + 1 else took r)\<rparr>)"
| release: "sem_release_begin (the_sem r) (the_kernel r) = (need_schedule, s, k) \<Longrightarrow>
    sem_step r (r\<lparr>the_sem := s, the_kernel := k, released := released r + 1\<rparr>)"
| environment: "env_step (pending r) {suspend_thread (the_sem r)} (the_kernel r) k \<Longrightarrow> sem_step r (r\<lparr>the_kernel := k\<rparr>)"

definition sem_start :: "word16 \<Rightarrow> sem_run \<Rightarrow> bool" where
  "sem_start v r \<longleftrightarrow> smp_ok (the_kernel r) \<and> sem_value (the_sem r) = v \<and> flag_ok (ipc_flag (the_sem r)) \<and>
     (\<exists>i. suspend_thread (the_sem r) = SuspendList i) \<and> waits_for r = [] \<and> pending r = {} \<and> took r = 0 \<and> released r = 0"

definition sem_inv :: "word16 \<Rightarrow> sem_run \<Rightarrow> bool" where
  "sem_inv v r \<longleftrightarrow> flag_ok (ipc_flag (the_sem r)) \<and>
     (\<exists>i. suspend_thread (the_sem r) = SuspendList i \<and> waiters_ok (pending r) i (the_kernel r)) \<and>
     (sem_value (the_sem r) > 0 \<longrightarrow> waits_for r = []) \<and>
     of_nat (took r + card (woken_by_object (pending r) (the_kernel r))) + sem_value (the_sem r) = v + of_nat (released r)"

lemma sem_start_inv: "sem_start v r \<Longrightarrow> sem_inv v r"
  by (auto simp: sem_start_def sem_inv_def waiters_ok_def waits_for_def woken_by_object_def)

lemma sem_step_inv:
  assumes "sem_step r r'" "sem_inv v r"
  shows "sem_inv v r'"
proof -
  obtain i where i: "suspend_thread (the_sem r) = SuspendList i" "waiters_ok (pending r) i (the_kernel r)"
    and fl: "flag_ok (ipc_flag (the_sem r))" and em: "sem_value (the_sem r) > 0 \<longrightarrow> waits_for r = []"
    and eq: "of_nat (took r + card (woken_by_object (pending r) (the_kernel r))) + sem_value (the_sem r) = v + of_nat (released r)"
    using assms(2) by (auto simp: sem_inv_def)
  note fin = waiters_finite[OF i(2)]
  show ?thesis
    using assms(1)
  proof cases
    case (take_now t time e s k)
    then have "k = the_kernel r" "sem_value (the_sem r) > 0 \<and> e = RT_EOK \<and> s = the_sem r\<lparr>sem_value := sem_value (the_sem r) - 1\<rparr> \<or>
        e = RT_ETIMEOUT \<and> s = the_sem r"
      by (auto simp: sem_take_begin_def split: if_splits Option.bind_splits)
    then show ?thesis using i fl em eq
      by (auto simp: take_now(1) sem_inv_def waits_for_def algebra_simps)
  next
    case (take_wait t time s k)
    then have v: "sem_value (the_sem r) = 0" and s: "s = the_sem r"
      and w: "ipc_wait (SuspendList i) t (ipc_flag (the_sem r)) time (set_error RT_EOK t (the_kernel r)) = Some k"
      by (auto simp: sem_take_begin_def i(1) word_gt_0 split: if_splits Option.bind_splits)
    have "waiters_ok (pending r) i (set_error RT_EOK t (the_kernel r)) \<and>
        woken_by_object (pending r) (set_error RT_EOK t (the_kernel r)) = woken_by_object (pending r) (the_kernel r)"
      using take_wait(3) by (intro waiters_ok_cong[OF i(2) smp_set_error[OF waiters_okD(1)[OF i(2)]]]) auto
    then show ?thesis using waiters_wait[OF _ _ take_wait(3) _ fl _ w] take_wait(2,4) i(1) fl eq v
      by (auto simp: take_wait(1) sem_inv_def s)
  next
    case (take_end t e)
    note w = waiters_return[OF i(2) take_end(3,4)]
    have "e = RT_EOK \<longleftrightarrow> t \<in> woken_by_object (pending r) (the_kernel r)"
      using w(3) take_end(5) by (auto simp: rt_sem_take_end_def)
    then have "took r' + card (woken_by_object (pending r') (the_kernel r)) = took r + card (woken_by_object (pending r) (the_kernel r))"
      using card_Suc_Diff1[OF fin, of t] by (simp add: take_end(1) w(2))
    then show ?thesis using w(1) i(1) fl em eq
      by (simp add: take_end(1) sem_inv_def waits_for_def w(2) del: of_nat_add)
  next
    case (release need_schedule s k)
    show ?thesis
    proof (cases "waits_for r")
      case Nil
      then have "s = the_sem r\<lparr>sem_value := sem_value (the_sem r) + 1\<rparr>" "k = the_kernel r"
        using release(2) by (simp_all add: sem_release_begin_def waits_for_def)
      then show ?thesis using i fl eq Nil by (auto simp: release(1) sem_inv_def waits_for_def algebra_simps)
    next
      case (Cons u us)
      then have "s = the_sem r" "k = rt_ipc_list_resume (SuspendList i) (the_kernel r)" "rt_lists (the_kernel r) (SuspendList i) = u # us"
        using release(2) i(1) by (auto simp: sem_release_begin_def waits_for_def)
      note e = this waiters_wake[OF i(2) this(3)]
      have "sem_value (the_sem r) = 0" using em Cons by (auto simp: word_gt_0)
      then show ?thesis using i(1) fl eq e(4-6) fin
        by (auto simp: release(1) sem_inv_def e(1,2) algebra_simps)
    qed
  next
    case (environment k)
    note w = env_step_ok[OF environment(2)[unfolded i(1)] i(2) subset_refl singletonI]
    show ?thesis using w i(1) fl em eq by (auto simp: environment(1) sem_inv_def waits_for_def)
  qed
qed

text \<open>
  C24: in every run of a semaphore that starts with the value \<open>v\<close> and no waiting thread, whatever the other
  threads do, a thread waits only while the value is zero, and modulo 65536 the successful takes, the
  units handed to threads that have not run since, and the value add up to \<open>v\<close> and the releases.
\<close>

theorem semaphore_counts:
  assumes "sem_start v r" "sem_step\<^sup>*\<^sup>* r r'"
  shows "(sem_value (the_sem r') > 0 \<longrightarrow> waits_for r' = []) \<and>
    of_nat (took r' + card (woken_by_object (pending r') (the_kernel r'))) + sem_value (the_sem r') = v + of_nat (released r')"
proof -
  have "sem_inv v r'"
    using assms(2) by (induction rule: rtranclp_induct) (use sem_start_inv[OF assms(1)] sem_step_inv in auto)
  then show ?thesis by (simp add: sem_inv_def)
qed

end
