(* ===== verification/RtMutexSpec.thy ===== *)
theory RtMutexSpec
  imports RtSemSpec
begin

text \<open>
  Mutexes: mutual exclusion in every run, priority inheritance, and two ways in which the code fails its
  purpose: the eight-bit count of nested takes, and priorities when a thread holds two mutexes.
\<close>

section \<open>Runs of a mutex\<close>

text \<open>\<open>depth\<close> counts, for each thread, the takes that returned \<open>RT_EOK\<close> less the releases that did.\<close>

record mutex_run =
  the_mutex :: rt_mutex
  mx_kernel :: kernel
  mx_pending :: "tid set"
  depth :: "tid \<Rightarrow> nat"

definition mx_waiters :: "mutex_run \<Rightarrow> tid list" where
  "mx_waiters r = rt_lists (mx_kernel r) (suspend_thread (the_mutex r))"

definition deeper :: "rt_err \<Rightarrow> tid \<Rightarrow> (tid \<Rightarrow> nat) \<Rightarrow> tid \<Rightarrow> nat" where
  "deeper e t d = (if e = RT_EOK then d(t := d t + 1) else d)"

inductive mutex_step :: "mutex_run \<Rightarrow> mutex_run \<Rightarrow> bool" where
  take_now: "rt_thread_self (mx_kernel r) = Some t \<Longrightarrow> t \<notin> mx_pending r \<Longrightarrow>
    mutex_take_begin (the_mutex r) time (mx_kernel r) = Some (Result e, m, k) \<Longrightarrow>
    mutex_step r (r\<lparr>the_mutex := m, mx_kernel := k, depth := deeper e t (depth r)\<rparr>)"
| take_wait: "rt_thread_self (mx_kernel r) = Some t \<Longrightarrow> t \<notin> mx_pending r \<Longrightarrow> stat (tcb (mx_kernel r) t) = RT_THREAD_READY \<Longrightarrow>
    mutex_take_begin (the_mutex r) time (mx_kernel r) = Some (Blocked, m, k) \<Longrightarrow>
    mutex_step r (r\<lparr>the_mutex := m, mx_kernel := k, mx_pending := insert t (mx_pending r)\<rparr>)"
| take_end: "rt_thread_self (mx_kernel r) = Some t \<Longrightarrow> t \<in> mx_pending r \<Longrightarrow> stat (tcb (mx_kernel r) t) = RT_THREAD_READY \<Longrightarrow>
    rt_mutex_take_end (the_mutex r) t time (mx_kernel r) = Some (Result e, m, k) \<Longrightarrow>
    mutex_step r (r\<lparr>the_mutex := m, mx_kernel := k, mx_pending := mx_pending r - {t}, depth := deeper e t (depth r)\<rparr>)"
| release: "rt_thread_self (mx_kernel r) = Some t \<Longrightarrow> t \<notin> mx_pending r \<Longrightarrow>
    mutex_release_begin (the_mutex r) (mx_kernel r) = Some (e, need_schedule, m, k) \<Longrightarrow>
    mutex_step r (r\<lparr>the_mutex := m, mx_kernel := k,
      depth := (if e = RT_EOK then (depth r)(t := depth r t - 1) else depth r)\<rparr>)"
| environment: "env_step (mx_pending r) {suspend_thread (the_mutex r)} (mx_kernel r) k \<Longrightarrow> mutex_step r (r\<lparr>mx_kernel := k\<rparr>)"

text \<open>
  A run in which no thread nests its takes deeper than 255. The code does not check this: its count of
  eight bits then starts again from zero (\<open>mutex_depth_wraps\<close> below).
\<close>

definition shallow_step :: "mutex_run \<Rightarrow> mutex_run \<Rightarrow> bool" where
  "shallow_step r r' \<longleftrightarrow> mutex_step r r' \<and> (\<forall>t. depth r' t \<le> 255)"

definition mutex_start :: "mutex_run \<Rightarrow> bool" where
  "mutex_start r \<longleftrightarrow> smp_ok (mx_kernel r) \<and> (\<exists>i flag. flag_ok flag \<and> the_mutex r = fresh_mutex (SuspendList i) flag) \<and>
     mx_waiters r = [] \<and> mx_pending r = {} \<and> depth r = (\<lambda>_. 0)"

text \<open>The owner holds the mutex, or it was handed to it and it has not run since.\<close>

definition owner_ok :: "rt_mutex \<Rightarrow> tid list \<Rightarrow> tid set \<Rightarrow> tid set \<Rightarrow> (tid \<Rightarrow> nat) \<Rightarrow> bool" where
  "owner_ok m ws P W d \<longleftrightarrow> (case owner m of
       None \<Rightarrow> mx_value m = 1 \<and> hold m = 0 \<and> ws = [] \<and> d = (\<lambda>_. 0) \<and> W = {}
     | Some t \<Rightarrow> mx_value m = 0 \<and> hold m \<noteq> 0 \<and> (\<forall>u. u \<noteq> t \<longrightarrow> d u = 0) \<and>
         (W = {t} \<and> hold m = 1 \<and> d t = 0 \<or> W = {} \<and> t \<notin> P \<and> d t = unat (hold m)))"

definition mutex_inv :: "mutex_run \<Rightarrow> bool" where
  "mutex_inv r \<longleftrightarrow> flag_ok (ipc_flag (the_mutex r)) \<and>
     (\<exists>i. suspend_thread (the_mutex r) = SuspendList i \<and> waiters_ok (mx_pending r) i (mx_kernel r)) \<and>
     owner_ok (the_mutex r) (mx_waiters r) (mx_pending r) (woken_by_object (mx_pending r) (mx_kernel r)) (depth r)"

lemma mutex_start_inv: "mutex_start r \<Longrightarrow> mutex_inv r"
  by (auto simp: mutex_start_def mutex_inv_def waiters_ok_def mx_waiters_def woken_by_object_def fresh_mutex_def owner_ok_def)

lemma waiters_priority:
  assumes "waiters_ok P i k" "change_priority t p k = Some k'"
  shows "waiters_ok P i k' \<and> woken_by_object P k' = woken_by_object P k"
    "rt_lists k' (SuspendList i) = rt_lists k (SuspendList i)"
  using env_step_ok(1)[OF env_step.priority[OF assms(2)] assms(1) subset_refl singletonI] priority_ok(2)[OF waiters_okD(1)[OF assms(1)] assms(2)]
  by simp_all

lemma unat_inc: "unat (h :: byte) < 255 \<Longrightarrow> unat (h + 1) = unat h + 1 \<and> h + 1 \<noteq> 0"
proof -
  assume "unat h < 255"
  then have "unat (h + 1) = unat h + 1" using unat_add_lem[of h 1] by simp
  then show ?thesis by (auto simp: unat_eq_0)
qed

lemma unat_dec: "(h :: byte) \<noteq> 0 \<Longrightarrow> unat (h - 1) = unat h - 1"
proof -
  assume "h \<noteq> 0"
  then have "1 \<le> unat h" using unat_gt_0[of h] by linarith
  then show ?thesis by (simp add: unat_sub_if_size)
qed

text \<open>The branches of taking and releasing, for the thread \<open>t\<close> that calls.\<close>

lemma control_priority: "map_option snd (rt_thread_control t (CHANGE_PRIORITY p) k) = change_priority t p k"
  by (cases "change_priority t p k") (simp_all add: rt_thread_control_def)

lemma take_result_cases:
  assumes "mutex_take_begin m time k = Some (Result e, m', k')" "rt_thread_self k = Some t"
  obtains (again) "owner m = Some t" "e = RT_EOK" "m' = m\<lparr>hold := hold m + 1\<rparr>" "k' = set_error RT_EOK t k"
  | (free) "owner m \<noteq> Some t" "mx_value m > 0" "e = RT_EOK" "k' = set_error RT_EOK t k"
      "m' = m\<lparr>mx_value := mx_value m - 1, owner := Some t, original_priority := current_priority (tcb k t), hold := hold m + 1\<rparr>"
  | (busy) "owner m \<noteq> Some t" "mx_value m = 0" "e = RT_ETIMEOUT" "m' = m" "k' = set_error RT_ETIMEOUT t (set_error RT_EOK t k)"
  using assms by (auto simp: mutex_take_begin_def mutex_take_again_def Let_def word_gt_0 split: if_splits Option.bind_splits)

lemma take_blocked_cases:
  assumes "mutex_take_begin m time k = Some (Blocked, m', k')" "rt_thread_self k = Some t"
  obtains w k1 where "owner m = Some w" "w \<noteq> t" "mx_value m = 0" "m' = m" "time \<noteq> 0"
    "if current_priority (tcb k t) < current_priority (tcb k w)
     then change_priority w (current_priority (tcb k t)) (set_error RT_EOK t k) = Some k1 else k1 = set_error RT_EOK t k"
    "ipc_wait (suspend_thread m) t (ipc_flag m) time k1 = Some k'"
proof -
  let ?k = "set_error RT_EOK t k"
  have m: "mutex_take_again m t time ?k = Some (Blocked, m', k')" "owner m \<noteq> Some t"
    using assms by (simp_all add: mutex_take_begin_def Let_def split: if_splits)
  then have c: "mx_value m = 0" "time \<noteq> 0" "m' = m"
    "mutex_inherit m t ?k \<bind> ipc_wait (suspend_thread m) t (ipc_flag m) time = Some k'"
    by (auto simp: mutex_take_again_def word_gt_0 split: if_splits elim!: bindE)
  obtain k1 where k1: "mutex_inherit m t ?k = Some k1" "ipc_wait (suspend_thread m) t (ipc_flag m) time k1 = Some k'"
    using c(4) by (rule bindE)
  obtain w where w: "owner m = Some w" using k1(1) unfolding mutex_inherit_def by (rule bindE)
  have ne: "w \<noteq> t" using w m(2) by auto
  show thesis
    by (rule that[OF w ne c(1,3,2) _ k1(2)]) (use k1(1) w ne in \<open>simp add: mutex_inherit_def control_priority split: if_splits\<close>)
qed

lemma release_cases:
  assumes "mutex_release_begin m k = Some (e, b, m', k')" "rt_thread_self k = Some t"
  obtains (foreign) "owner m \<noteq> Some t" "e = RT_ERROR" "m' = m" "k' = set_error RT_ERROR t k"
  | (nested) "owner m = Some t" "hold m - 1 \<noteq> 0" "e = RT_EOK" "m' = m\<lparr>hold := hold m - 1\<rparr>" "k' = k"
  | (last) k1 where "owner m = Some t" "hold m = 1" "e = RT_EOK"
      "if original_priority m \<noteq> current_priority (tcb k t) then change_priority t (original_priority m) k = Some k1 else k1 = k"
      "mutex_pass_on (m\<lparr>hold := 0\<rparr>) k1 = (b, m', k')"
proof (cases "owner m = Some t")
  case False
  then show thesis using assms by (intro foreign) (simp_all add: mutex_release_begin_def split: if_splits)
next
  case own: True
  show thesis
  proof (cases "hold m = 1")
    case False
    then show thesis using assms own by (intro nested) (simp_all add: mutex_release_begin_def Let_def split: if_splits)
  next
    case True
    then show thesis using assms own unfolding mutex_release_begin_def Let_def control_priority
      by (auto intro: last[OF own True] split: if_splits elim!: bindE)
  qed
qed

section \<open>Mutual exclusion\<close>

lemma mutex_step_inv:
  assumes "shallow_step r r'" "mutex_inv r"
  shows "mutex_inv r'"
proof -
  have st: "mutex_step r r'" and deep: "\<forall>t. depth r' t \<le> 255" using assms(1) by (simp_all add: shallow_step_def)
  define P where "P = mx_pending r"
  obtain i where i: "suspend_thread (the_mutex r) = SuspendList i" "waiters_ok P i (mx_kernel r)"
    and fl: "flag_ok (ipc_flag (the_mutex r))"
    and ow: "owner_ok (the_mutex r) (mx_waiters r) P (woken_by_object P (mx_kernel r)) (depth r)"
    using assms(2) by (auto simp: mutex_inv_def P_def)
  show ?thesis
    using st
  proof cases
    case (take_now t time e m k)
    note w = waiters_set_error[OF i(2) take_now(3)[folded P_def]]
    have w2: "waiters_ok P i (set_error RT_ETIMEOUT t (set_error RT_EOK t (mx_kernel r))) \<and>
        woken_by_object P (set_error RT_ETIMEOUT t (set_error RT_EOK t (mx_kernel r))) = woken_by_object P (mx_kernel r)"
      using waiters_set_error[of P i "set_error RT_EOK t (mx_kernel r)" t RT_ETIMEOUT] w[of RT_EOK] take_now(3) by (simp add: P_def)
    have nt: "t \<notin> woken_by_object P (mx_kernel r)" using take_now(3) by (simp add: woken_by_object_def P_def)
    show ?thesis
    proof (cases rule: take_result_cases[OF take_now(4,2)])
      case 1
      have "depth r t = unat (hold (the_mutex r))" using ow 1(1) nt by (auto simp: owner_ok_def)
      moreover have "depth r t + 1 \<le> 255" using spec[OF deep, of t] 1(2) by (simp add: take_now(1) deeper_def)
      ultimately have "unat (hold (the_mutex r)) < 255" by simp
      then show ?thesis using 1 w[of RT_EOK] i(1) fl ow nt unat_inc[of "hold (the_mutex r)"]
        by (auto simp: take_now(1) mutex_inv_def owner_ok_def mx_waiters_def deeper_def P_def[symmetric])
    next
      case 2
      then have "owner (the_mutex r) = None" using ow by (auto simp: owner_ok_def split: option.splits)
      then show ?thesis using 2 w[of RT_EOK] i(1) fl ow take_now(3)
        by (auto simp: take_now(1) mutex_inv_def owner_ok_def mx_waiters_def deeper_def P_def[symmetric])
    next
      case 3
      then show ?thesis using w2 i(1) fl ow
        by (auto simp: take_now(1) mutex_inv_def owner_ok_def mx_waiters_def deeper_def P_def[symmetric] split: option.splits)
    qed
  next
    case (take_wait t time m k)
    obtain v k1 where tb: "owner (the_mutex r) = Some v" "v \<noteq> t" "m = the_mutex r"
      "if current_priority (tcb (mx_kernel r) t) < current_priority (tcb (mx_kernel r) v)
       then change_priority v (current_priority (tcb (mx_kernel r) t)) (set_error RT_EOK t (mx_kernel r)) = Some k1
       else k1 = set_error RT_EOK t (mx_kernel r)"
      "ipc_wait (SuspendList i) t (ipc_flag (the_mutex r)) time k1 = Some k"
      using take_blocked_cases[OF take_wait(5,2)] i(1) by metis
    have w: "waiters_ok P i (set_error RT_EOK t (mx_kernel r))"
      "woken_by_object P (set_error RT_EOK t (mx_kernel r)) = woken_by_object P (mx_kernel r)"
      using waiters_set_error[OF i(2) take_wait(3)[folded P_def], of RT_EOK] by simp_all
    have k1: "waiters_ok P i k1 \<and> woken_by_object P k1 = woken_by_object P (mx_kernel r) \<and> rt_thread_self k1 = Some t \<and>
        th_error (tcb k1 t) = RT_EOK \<and> stat (tcb k1 t) = RT_THREAD_READY"
      using tb(2,4) w waiters_priority[OF w(1)] priority_ok[OF waiters_okD(1)[OF w(1)]] take_wait(2,4)
      by (auto split: if_splits)
    then have "waiters_ok (insert t P) i k \<and> woken_by_object (insert t P) k = woken_by_object P (mx_kernel r)"
      using waiters_wait[OF _ _ take_wait(3)[folded P_def] _ fl _ tb(5)] by simp
    then show ?thesis using i(1) fl ow tb(1-3)
      by (auto simp: take_wait(1) mutex_inv_def owner_ok_def P_def[symmetric])
  next
    case (take_end t time e m k)
    have tp: "t \<in> P" using take_end(3) by (simp add: P_def)
    note w = waiters_return[OF i(2) tp take_end(4)]
    have "th_error (tcb (mx_kernel r) t) = RT_EOK \<or> th_error (tcb (mx_kernel r) t) = RT_ETIMEOUT"
      using waiters_okD(4)[OF i(2) tp] by auto
    then have e: "e = th_error (tcb (mx_kernel r) t)" "m = the_mutex r" "k = mx_kernel r"
      using take_end(5) by (auto simp: rt_mutex_take_end_def Let_def split: if_splits)
    show ?thesis using w i(1) fl ow tp
      by (auto simp: take_end(1) e mutex_inv_def owner_ok_def mx_waiters_def deeper_def P_def[symmetric] split: option.splits)
  next
    case (release t e b m k)
    have tp: "t \<notin> P" using release(3) by (simp add: P_def)
    have nt: "t \<notin> woken_by_object P (mx_kernel r)" using tp by (simp add: woken_by_object_def)
    show ?thesis
    proof (cases rule: release_cases[OF release(4,2)])
      case 1
      then show ?thesis using waiters_set_error[OF i(2) tp, of RT_ERROR] i(1) fl ow
        by (auto simp: release(1) mutex_inv_def owner_ok_def mx_waiters_def P_def[symmetric] split: option.splits)
    next
      case 2
      then show ?thesis using i fl ow nt unat_dec[of "hold (the_mutex r)"]
        by (auto simp: release(1) mutex_inv_def owner_ok_def mx_waiters_def P_def[symmetric])
    next
      case (3 k1)
      have k1: "waiters_ok P i k1 \<and> woken_by_object P k1 = woken_by_object P (mx_kernel r)"
        using 3(4) i(2) waiters_priority(1)[OF i(2)] by (auto split: if_splits)
      have W: "woken_by_object P (mx_kernel r) = {}" using ow 3(1) nt by (auto simp: owner_ok_def)
      show ?thesis
      proof (cases "rt_lists k1 (SuspendList i)")
        case Nil
        then have "m = the_mutex r\<lparr>hold := 0, mx_value := mx_value (the_mutex r) + 1, owner := None, original_priority := 0xFF\<rparr>" "k = k1"
          using 3(5) i(1) by (simp_all add: mutex_pass_on_def)
        then show ?thesis using 3(1-3) Nil k1 i(1) fl ow W nt
          by (auto simp: release(1) mutex_inv_def owner_ok_def mx_waiters_def P_def[symmetric])
      next
        case (Cons u us)
        note wk = waiters_wake[OF conjunct1[OF k1] Cons]
        have "u \<in> P" using waiters_okD(3)[OF conjunct1[OF k1]] Cons by auto
        then have "u \<noteq> t" using tp by auto
        moreover have "m = the_mutex r\<lparr>owner := Some u, original_priority := current_priority (tcb k1 u), hold := 1\<rparr>"
          "k = rt_ipc_list_resume (SuspendList i) k1" using 3(5) i(1) Cons by (auto simp: mutex_pass_on_def)
        ultimately show ?thesis using 3(1-3) wk k1 i(1) fl ow W nt
          by (auto simp: release(1) mutex_inv_def owner_ok_def mx_waiters_def P_def[symmetric])
      qed
    qed
  next
    case (environment k)
    note w = env_step_ok[OF environment(2)[unfolded i(1) P_def[symmetric]] i(2) subset_refl singletonI]
    show ?thesis using w i(1) fl ow
      by (auto simp: environment(1) mutex_inv_def mx_waiters_def owner_ok_def P_def[symmetric] split: option.splits)
  qed
qed

lemma shallow_run_inv:
  assumes "mutex_start r" "shallow_step\<^sup>*\<^sup>* r r'"
  shows "mutex_inv r'"
  using assms(2) by (induction rule: rtranclp_induct) (use mutex_start_inv[OF assms(1)] mutex_step_inv in auto)

text \<open>
  C25: in every run of a mutex from its initial state in which no thread nests its takes deeper than 255,
  whatever the other threads do, at most one thread holds it; that thread is its owner and its depth is
  the count of the mutex; the mutex is free exactly when it has no owner, and a thread waits only while
  there is one.
\<close>

theorem mutex_exclusion:
  assumes "mutex_start r" "(\<lambda>r r'. mutex_step r r' \<and> (\<forall>t. depth r' t \<le> 255))\<^sup>*\<^sup>* r r'"
  shows "(\<forall>t u. depth r' t > 0 \<longrightarrow> depth r' u > 0 \<longrightarrow> t = u) \<and>
    (\<forall>t. depth r' t > 0 \<longrightarrow> owner (the_mutex r') = Some t \<and> depth r' t = unat (hold (the_mutex r'))) \<and>
    (mx_value (the_mutex r') > 0 \<longleftrightarrow> owner (the_mutex r') = None) \<and>
    (mx_waiters r' \<noteq> [] \<longrightarrow> owner (the_mutex r') \<noteq> None)"
proof -
  have "shallow_step = (\<lambda>r r'. mutex_step r r' \<and> (\<forall>t. depth r' t \<le> 255))" by (simp add: shallow_step_def fun_eq_iff)
  then have "mutex_inv r'" using shallow_run_inv[OF assms(1)] assms(2) by simp
  then have ow: "owner_ok (the_mutex r') (mx_waiters r') (mx_pending r') (woken_by_object (mx_pending r') (mx_kernel r')) (depth r')"
    by (simp add: mutex_inv_def)
  show ?thesis
  proof (cases "owner (the_mutex r')")
    case (Some t)
    then have f: "\<forall>u. u \<noteq> t \<longrightarrow> depth r' u = 0" "mx_value (the_mutex r') = 0" "depth r' t = 0 \<or> depth r' t = unat (hold (the_mutex r'))"
      using ow by (auto simp: owner_ok_def)
    have only: "u = t" if "depth r' u > 0" for u using f(1) that by (metis less_numeral_extra(3))
    show ?thesis
    proof (intro conjI allI impI)
      fix u v
      assume "depth r' u > 0" "depth r' v > 0"
      then show "u = v" using only by blast
    next
      fix u
      assume "depth r' u > 0"
      then show "owner (the_mutex r') = Some u" "depth r' u = unat (hold (the_mutex r'))" using only[of u] f(3) Some by auto
    qed (use f(2) Some in simp_all)
  qed (use ow in \<open>simp add: owner_ok_def\<close>)
qed

section \<open>Priorities\<close>

text \<open>The owner's priority while another thread waits, and after the owner's last release.\<close>

lemma blocked_boosts:
  assumes "smp_ok k" "rt_thread_self k = Some t" "stat (tcb k t) = RT_THREAD_READY" "owner m = Some w"
    "flag_ok (ipc_flag m)" "suspend_thread m = SuspendList i" "mutex_take_begin m time k = Some (Blocked, m', k')"
  shows "m' = m \<and> t \<in> set (rt_lists k' (SuspendList i)) \<and> prio k' w = min (prio k w) (prio k t)"
proof -
  obtain k1 where tb: "m' = m" "w \<noteq> t" "if current_priority (tcb k t) < current_priority (tcb k w)
       then change_priority w (current_priority (tcb k t)) (set_error RT_EOK t k) = Some k1 else k1 = set_error RT_EOK t k"
      "ipc_wait (SuspendList i) t (ipc_flag m) time k1 = Some k'"
    using take_blocked_cases[OF assms(7,2)] assms(4,6) by (metis option.inject)
  have e: "smp_ok (set_error RT_EOK t k)" by (rule smp_set_error[OF assms(1)])
  have k1: "smp_ok k1 \<and> rt_thread_self k1 = Some t \<and> stat (tcb k1 t) = RT_THREAD_READY \<and> prio k1 w = min (prio k w) (prio k t)"
    using tb(2,3) e priority_ok[OF e] assms(2,3)
    by (auto simp: prio_def set_priority_def word_less_nat_alt split: if_splits)
  note w = ipc_wait_ok[OF tb(4) _ _ _ assms(5)]
  have "t \<in> set (rt_lists k' (SuspendList i))" using w(4) k1 by (simp add: wait_insert_set[OF assms(5)])
  moreover have "prio k' w = prio k1 w" using w(2) k1 tb(2) by (simp add: prio_def)
  ultimately show ?thesis using k1 tb(1) by simp
qed

lemma release_restores:
  assumes "smp_ok k" "rt_thread_self k = Some w" "owner m = Some w" "hold m = 1" "suspend_thread m = SuspendList i"
    "mutex_release_begin m k = Some (e, b, m', k')"
  shows "prio k' w = unat (original_priority m)"
proof (cases rule: release_cases[OF assms(6,2)])
  case (3 k1)
  have p: "smp_ok k1 \<and> prio k1 w = unat (original_priority m)"
    using 3(4) assms(1) priority_ok[OF assms(1)] by (auto simp: prio_def set_priority_def split: if_splits)
  show ?thesis
  proof (cases "rt_lists k1 (SuspendList i)")
    case Nil
    then show ?thesis using 3(5) assms(5) p by (simp add: mutex_pass_on_def)
  next
    case (Cons u us)
    then have "k' = rt_ipc_list_resume (SuspendList i) k1" using 3(5) assms(5) by (simp add: mutex_pass_on_def)
    then show ?thesis using list_resume_ok(2)[OF _ Cons] p by (auto simp: prio_def)
  qed
qed (use assms(3,4) in simp_all)

text \<open>What the last release does to the mutex: no owner, or another one that was waiting.\<close>

lemma passed_on:
  assumes "mutex_inv r" "rt_thread_self (mx_kernel r) = Some t" "t \<notin> mx_pending r" "hold (the_mutex r) = 1"
    and k1: "if original_priority (the_mutex r) \<noteq> current_priority (tcb (mx_kernel r) t)
      then change_priority t (original_priority (the_mutex r)) (mx_kernel r) = Some k1 else k1 = mx_kernel r"
    and p: "mutex_pass_on (the_mutex r\<lparr>hold := 0\<rparr>) k1 = (b, m, k)"
  shows "owner m = None \<or> (\<exists>u. owner m = Some u \<and> u \<noteq> t \<and> original_priority m = current_priority (tcb k u))"
proof -
  obtain i where i: "suspend_thread (the_mutex r) = SuspendList i" "waiters_ok (mx_pending r) i (mx_kernel r)"
    using assms(1) by (auto simp: mutex_inv_def)
  have w: "waiters_ok (mx_pending r) i k1" using k1 i(2) waiters_priority(1)[OF i(2)] by (auto split: if_splits)
  show ?thesis
  proof (cases "rt_lists k1 (SuspendList i)")
    case Nil
    then show ?thesis using p i(1) by (auto simp: mutex_pass_on_def)
  next
    case (Cons u us)
    have "u \<noteq> t" using waiters_okD(3)[OF w] Cons assms(3) by auto
    moreover have "owner m = Some u" "original_priority m = current_priority (tcb k1 u)" "k = rt_ipc_list_resume (SuspendList i) k1"
      using p i(1) Cons by (auto simp: mutex_pass_on_def)
    ultimately show ?thesis using list_resume_ok(2)[OF waiters_okD(1)[OF w] Cons] by simp
  qed
qed

lemma take_end_mutex:
  assumes "mutex_inv r" "t \<in> mx_pending r" "stat (tcb (mx_kernel r) t) = RT_THREAD_READY"
    "rt_mutex_take_end (the_mutex r) t time (mx_kernel r) = Some (Result e, m, k)"
  shows "m = the_mutex r"
proof -
  obtain i where "waiters_ok (mx_pending r) i (mx_kernel r)" using assms(1) by (auto simp: mutex_inv_def)
  then have "th_error (tcb (mx_kernel r) t) \<noteq> RT_EINTR" using waiters_okD(4)[OF _ assms(2)] by fastforce
  then show ?thesis using assms(4) by (simp add: rt_mutex_take_end_def Let_def)
qed

text \<open>The recorded priority is that of the owner when it became the owner, and stays while it is the owner.\<close>

lemma acquired_priority:
  assumes "mutex_step r r'" "mutex_inv r" "owner (the_mutex r) \<noteq> Some w" "owner (the_mutex r') = Some w"
  shows "original_priority (the_mutex r') = current_priority (tcb (mx_kernel r') w)"
  using assms(1)
proof cases
  case (take_now t time e m k)
  then show ?thesis using assms(3,4) take_result_cases[OF take_now(4,2)]
    by (cases rule: take_result_cases[OF take_now(4,2)]) auto
next
  case (take_wait t time m k)
  have "m = the_mutex r" by (rule take_blocked_cases[OF take_wait(5,2)])
  then show ?thesis using assms(3,4) take_wait(1) by simp
next
  case (take_end t time e m k)
  have "m = the_mutex r" by (rule take_end_mutex[OF assms(2) take_end(3,4,5)])
  then show ?thesis using assms(3,4) take_end(1) by simp
next
  case (release t e b m k)
  show ?thesis
  proof (cases rule: release_cases[OF release(4,2)])
    case (3 k1)
    from passed_on[OF assms(2) release(2,3) 3(2,4,5)] show ?thesis using assms(4) by (auto simp: release(1))
  qed (use assms(3,4) release(1) in auto)
next
  case (environment k)
  then show ?thesis using assms(3,4) by simp
qed

lemma kept_priority:
  assumes "mutex_step r r'" "mutex_inv r" "owner (the_mutex r) = Some w" "owner (the_mutex r') = Some w"
  shows "original_priority (the_mutex r') = original_priority (the_mutex r)"
  using assms(1)
proof cases
  case (take_now t time e m k)
  have "mx_value (the_mutex r) = 0" using assms(2,3) by (auto simp: mutex_inv_def owner_ok_def)
  then show ?thesis using take_now(1) by (cases rule: take_result_cases[OF take_now(4,2)]) auto
next
  case (take_wait t time m k)
  have "m = the_mutex r" by (rule take_blocked_cases[OF take_wait(5,2)])
  then show ?thesis using take_wait(1) by simp
next
  case (take_end t time e m k)
  have "m = the_mutex r" by (rule take_end_mutex[OF assms(2) take_end(3,4,5)])
  then show ?thesis using take_end(1) by simp
next
  case (release t e b m k)
  show ?thesis
  proof (cases rule: release_cases[OF release(4,2)])
    case (3 k1)
    from passed_on[OF assms(2) release(2,3) 3(2,4,5)] show ?thesis using assms(3,4) 3(1) by (auto simp: release(1))
  qed (use release(1) in auto)
qed simp

lemma owned_run:
  assumes "mutex_inv r1" "original_priority (the_mutex r1) = p" "owner (the_mutex r1) = Some w"
    "(\<lambda>a b. shallow_step a b \<and> owner (the_mutex b) = Some w)\<^sup>*\<^sup>* r1 r2"
  shows "mutex_inv r2 \<and> original_priority (the_mutex r2) = p \<and> owner (the_mutex r2) = Some w"
  using assms(4)
proof (induction rule: rtranclp_induct)
  case (step a b)
  then show ?case using mutex_step_inv[of a b] kept_priority[of a b w] by (simp add: shallow_step_def)
qed (use assms(1-3) in simp)

text \<open>
  C26: in every run of a mutex (with takes nested at most 255 deep), from the step by which a thread becomes
  its owner on and as long as it is the owner: another thread that has to wait leaves the owner with at
  least its own priority, and the owner's last release gives the owner the priority it had when it became
  the owner.
\<close>

theorem mutex_priority_inheritance:
  assumes "mutex_start r0" "shallow_step\<^sup>*\<^sup>* r0 r" "shallow_step r r1"
    and "owner (the_mutex r) \<noteq> Some w" "owner (the_mutex r1) = Some w"
    and "(\<lambda>a b. shallow_step a b \<and> owner (the_mutex b) = Some w)\<^sup>*\<^sup>* r1 r2"
  shows "(\<forall>t time m k. rt_thread_self (mx_kernel r2) = Some t \<longrightarrow> stat (tcb (mx_kernel r2) t) = RT_THREAD_READY \<longrightarrow>
       mutex_take_begin (the_mutex r2) time (mx_kernel r2) = Some (Blocked, m, k) \<longrightarrow>
       t \<in> set (rt_lists k (suspend_thread m)) \<and> prio k w = min (prio (mx_kernel r2) w) (prio (mx_kernel r2) t)) \<and>
    (\<forall>e b m k. rt_thread_self (mx_kernel r2) = Some w \<longrightarrow> hold (the_mutex r2) = 1 \<longrightarrow>
       mutex_release_begin (the_mutex r2) (mx_kernel r2) = Some (e, b, m, k) \<longrightarrow> prio k w = prio (mx_kernel r1) w)"
proof -
  note i0 = shallow_run_inv[OF assms(1,2)]
  have p: "original_priority (the_mutex r1) = current_priority (tcb (mx_kernel r1) w)"
    using acquired_priority[OF _ i0 assms(4,5)] assms(3) by (simp add: shallow_step_def)
  note i2 = owned_run[OF mutex_step_inv[OF assms(3) i0] p assms(5,6)]
  then obtain i where i: "suspend_thread (the_mutex r2) = SuspendList i" "waiters_ok (mx_pending r2) i (mx_kernel r2)" "flag_ok (ipc_flag (the_mutex r2))"
    by (auto simp: mutex_inv_def)
  note s = waiters_okD(1)[OF i(2)]
  show ?thesis
  proof (intro conjI allI impI)
    fix t time m k
    assume b: "rt_thread_self (mx_kernel r2) = Some t" "stat (tcb (mx_kernel r2) t) = RT_THREAD_READY"
      "mutex_take_begin (the_mutex r2) time (mx_kernel r2) = Some (Blocked, m, k)"
    then show "t \<in> set (rt_lists k (suspend_thread m))" "prio k w = min (prio (mx_kernel r2) w) (prio (mx_kernel r2) t)"
      using blocked_boosts[OF s b(1,2) _ i(3,1) b(3)] i2 i(1) by auto
  next
    fix e b m k
    assume r: "rt_thread_self (mx_kernel r2) = Some w" "hold (the_mutex r2) = 1"
      "mutex_release_begin (the_mutex r2) (mx_kernel r2) = Some (e, b, m, k)"
    then show "prio k w = prio (mx_kernel r1) w"
      using release_restores[OF s r(1) _ r(2) i(1) r(3)] i2 by (simp add: prio_def)
  qed
qed

text \<open>
  A thread that was given the priority \<open>p\<close> through one mutex when it takes a free mutex \<open>m\<close> is given \<open>p\<close>
  again when it releases \<open>m\<close>, although it may have its own priority back by then.
\<close>

theorem nested_mutex_keeps_boost:
  assumes "in_thread_context k" "rt_thread_self k = Some t" "current_priority (tcb k t) = p" "unat p < 32"
    "owner m = None" "mx_value m = 1" "hold m = 0" "suspend_thread m = SuspendList i"
    "mutex_take_begin m time k = Some (r, m', k')"
    "smp_ok j" "in_thread_context j" "rt_thread_self j = Some t" "rt_lists j (SuspendList i) = []"
  shows "r = Result RT_EOK \<and> (\<exists>m'' j'. mutex_release_begin m' j = Some (RT_EOK, False, m'', j') \<and>
    owner m'' = None \<and> current_priority (tcb j' t) = p)"
proof -
  have m': "r = Result RT_EOK" "m' = m\<lparr>mx_value := 0, owner := Some t, original_priority := p, hold := 1\<rparr>"
    using assms(1-3,5-7,9) by (simp_all add: mutex_take_begin_def mutex_take_again_def Let_def)
  obtain c where c: "change_priority t p j = Some c"
    using assms(4) by (cases "stat (tcb j t) = RT_THREAD_READY") (simp_all add: change_priority_def RT_THREAD_PRIORITY_MAX_def not_le)
  define j1 where "j1 = (if p \<noteq> current_priority (tcb j t) then c else j)"
  have p: "rt_lists j1 (SuspendList i) = []" "current_priority (tcb j1 t) = p"
    using priority_ok(2,4)[OF assms(10) c] assms(13) by (auto simp: j1_def set_priority_def)
  have "(if p \<noteq> current_priority (tcb j t) then change_priority t p j else Some j) = Some j1"
    by (simp add: j1_def c)
  then have "mutex_release_begin m' j = Some (RT_EOK, mutex_pass_on (m'\<lparr>hold := 0\<rparr>) j1)"
    using assms(11,12) unfolding mutex_release_begin_def Let_def control_priority by (simp add: m'(2) split: if_splits)
  then show ?thesis using p assms(8) m' by (simp add: mutex_pass_on_def)
qed

section \<open>Nested takes\<close>

text \<open>A take by a thread that does not have to wait.\<close>

definition take_again :: "kernel \<Rightarrow> rt_mutex \<Rightarrow> rt_mutex" where
  "take_again k m = (case mutex_take_begin m 0 k of Some (Result e, m', k') \<Rightarrow> if e = RT_EOK then m' else m | _ \<Rightarrow> m)"

text \<open>
  The count of nested takes has eight bits: after 257 takes of a mutex by one thread, the first
  release frees it.
\<close>

theorem mutex_depth_wraps:
  assumes "in_thread_context k" "rt_thread_self k = Some t" "suspend_thread m = SuspendList i" "rt_lists k (SuspendList i) = []"
    "owner m = None" "mx_value m = 1" "hold m = 0"
  shows "owner ((take_again k ^^ 257) m) = Some t \<and>
    (\<exists>m' k'. mutex_release_begin ((take_again k ^^ 257) m) k = Some (RT_EOK, False, m', k') \<and> owner m' = None)"
proof -
  define m1 where "m1 = m\<lparr>mx_value := 0, owner := Some t, original_priority := current_priority (tcb k t), hold := 1\<rparr>"
  have first: "take_again k m = m1"
    using assms by (simp add: take_again_def mutex_take_begin_def mutex_take_again_def Let_def m1_def)
  have again: "take_again k (m1\<lparr>hold := h\<rparr>) = m1\<lparr>hold := h + 1\<rparr>" for h
    using assms by (simp add: take_again_def mutex_take_begin_def Let_def m1_def)
  have "(take_again k ^^ n) m1 = m1\<lparr>hold := 1 + of_nat n\<rparr>" for n
  proof (induction n)
    case 0
    then show ?case by (simp add: m1_def)
  next
    case (Suc n)
    then show ?case by (simp add: again add_ac)
  qed
  then have "(take_again k ^^ 256) m1 = m1" by (simp add: m1_def)
  moreover have "(take_again k ^^ Suc 256) m = (take_again k ^^ 256) m1" by (simp only: funpow_Suc_right comp_apply first)
  ultimately have "(take_again k ^^ 257) m = m1" by (metis Suc_numeral add_One num.simps semiring_norm(3,4,5))
  moreover have "mutex_release_begin m1 k = Some (RT_EOK, mutex_pass_on (m1\<lparr>hold := 0\<rparr>) k)"
    using assms(1,2) unfolding mutex_release_begin_def Let_def control_priority by (simp add: m1_def)
  ultimately show ?thesis using assms(3,4) by (simp add: mutex_pass_on_def m1_def)
qed

end
