(* ===== verification/RtEventSpec.thy ===== *)
theory RtEventSpec
  imports RtSemSpec
begin

text \<open>
  Events: the walk over the waiting threads serves them as the function \<open>event_serve\<close> says, and in every
  run no thread waits for events that are there.
\<close>

section \<open>Serving the waiting threads\<close>

text \<open>The value a satisfied thread receives, and the events it leaves.\<close>

definition received :: "rt_thread \<Rightarrow> word32 \<Rightarrow> word32" where
  "received x s = (if has_flag (event_info x) RT_EVENT_FLAG_AND then event_set x else event_set x AND s)"

definition left_over :: "rt_thread \<Rightarrow> word32 \<Rightarrow> word32" where
  "left_over x s = (if has_flag (event_info x) RT_EVENT_FLAG_CLEAR then s AND NOT (received x s) else s)"

definition satisfied :: "rt_thread \<Rightarrow> word32 \<Rightarrow> bool" where
  "satisfied x s \<longleftrightarrow> event_satisfied (event_info x) (event_set x) s"

text \<open>The threads served with what they receive, the threads that go on waiting, and the events left.\<close>

fun event_serve :: "(tid \<Rightarrow> rt_thread) \<Rightarrow> word32 \<Rightarrow> tid list \<Rightarrow> (tid \<times> word32) list \<times> tid list \<times> word32" where
  "event_serve th s [] = ([], [], s)"
| "event_serve th s (t # ts) = (if satisfied (th t) s
     then let (sv, ws, s') = event_serve th (left_over (th t) s) ts in ((t, received (th t) s) # sv, ws, s')
     else let (sv, ws, s') = event_serve th s ts in (sv, t # ws, s'))"

definition served :: "(tid \<times> word32) list \<Rightarrow> (tid \<Rightarrow> rt_thread) \<Rightarrow> tid \<Rightarrow> rt_thread" where
  "served sv th t = (case map_of sv t of None \<Rightarrow> th t | Some v \<Rightarrow> th t\<lparr>event_set := v, stat := RT_THREAD_READY\<rparr>)"

lemma served_Nil [simp]: "served [] th = th"
  by (simp add: served_def fun_eq_iff)

lemma event_serve_cong:
  "(\<And>t. t \<in> set ts \<Longrightarrow> th' t = th t) \<Longrightarrow> event_serve th' s ts = event_serve th s ts"
  by (induction ts arbitrary: s) (simp_all add: Let_def)

lemma event_serve_cases:
  assumes "event_serve th s (t # ts) = (sv, ws, s')"
  obtains (served) sv' where "satisfied (th t) s" "sv = (t, received (th t) s) # sv'"
      "event_serve th (left_over (th t) s) ts = (sv', ws, s')"
  | (waits) ws' where "\<not> satisfied (th t) s" "ws = t # ws'" "event_serve th s ts = (sv, ws', s')"
proof (cases "satisfied (th t) s")
  case True
  then show thesis using assms served by (simp split: prod.splits)
next
  case False
  then show thesis using assms waits by (simp split: prod.splits)
qed

lemma event_serve_dom: "event_serve th s ts = (sv, ws, s') \<Longrightarrow> fst ` set sv \<union> set ws = set ts"
proof (induction ts arbitrary: s sv ws)
  case (Cons t ts)
  from Cons.prems show ?case
  proof (cases rule: event_serve_cases)
    case (served sv')
    then show ?thesis using Cons.IH[OF served(3)] by auto
  next
    case (waits ws')
    then show ?thesis using Cons.IH[OF waits(3)] by auto
  qed
qed simp

lemma event_serve_distinct: "event_serve th s ts = (sv, ws, s') \<Longrightarrow> distinct ts \<Longrightarrow> distinct (map fst sv @ ws)"
proof (induction ts arbitrary: s sv ws)
  case (Cons t ts)
  from Cons.prems(1) show ?case
  proof (cases rule: event_serve_cases)
    case (served sv')
    then show ?thesis using Cons.IH[OF served(3)] Cons.prems(2) event_serve_dom[OF served(3)] by auto
  next
    case (waits ws')
    then show ?thesis using Cons.IH[OF waits(3)] Cons.prems(2) event_serve_dom[OF waits(3)] by auto
  qed
qed simp

text \<open>What one step of the walk does to a waiting thread that is satisfied.\<close>

lemma send_thread_ok:
  assumes "smp_ok k" "t \<in> set (rt_lists k (SuspendList i))" "satisfied (tcb k t) s"
  defines "v \<equiv> received (tcb k t) s"
  shows "\<exists>k'. event_send_thread t (s, k, b) = (left_over (tcb k t) s, k', True) \<and> smp_ok k' \<and>
    tcb k' = (tcb k)(t := tcb k t\<lparr>event_set := v, stat := RT_THREAD_READY\<rparr>) \<and>
    (\<forall>l. \<not> is_table l \<longrightarrow> rt_lists k' l = removeAll t (rt_lists k l)) \<and> rt_thread_self k' = rt_thread_self k"
proof -
  define k1 where "k1 = th_upd t (\<lambda>x. x\<lparr>event_set := v\<rparr>) k"
  have k1: "smp_ok k1" unfolding k1_def by (rule smp_upd[OF assms(1)]) (simp add: sched_part_def)
  have s1: "stat (tcb k1 t) = RT_THREAD_SUSPEND" using waiting_stat[OF assms(1,2)] by (simp add: k1_def)
  obtain k2 where k2: "rt_thread_resume t k1 = (RT_EOK, k2)" "smp_ok k2" "tcb k2 = (tcb k1)(t := tcb k1 t\<lparr>stat := RT_THREAD_READY\<rparr>)"
    "\<forall>l. \<not> is_table l \<longrightarrow> rt_lists k2 l = removeAll t (rt_lists k1 l)" "rt_thread_self k2 = rt_thread_self k1"
    using resume_ok[OF k1 s1] by blast
  have e: "(if has_flag (event_info (tcb k t)) RT_EVENT_FLAG_AND then k else th_upd t (\<lambda>x. x\<lparr>event_set := event_set x AND s\<rparr>) k) = k1"
  proof (cases "has_flag (event_info (tcb k t)) RT_EVENT_FLAG_AND")
    case True
    have "x\<lparr>event_set := event_set x\<rparr> = x" for x :: rt_thread by (cases x) simp
    then show ?thesis using True by (simp add: k1_def v_def received_def th_upd_def fun_upd_idem)
  qed (simp add: k1_def v_def received_def th_upd_def)
  have "event_send_thread t (s, k, b) = (left_over (tcb k t) s, k2, True)"
    using assms(3) k2(1) by (simp add: event_send_thread_def satisfied_def left_over_def Let_def e) (simp add: k1_def v_def)
  moreover have "tcb k2 = (tcb k)(t := tcb k t\<lparr>event_set := v, stat := RT_THREAD_READY\<rparr>)"
    by (simp add: k2(3) k1_def fun_eq_iff)
  ultimately show ?thesis using k2(2,4,5) by (auto simp: k1_def rt_thread_self_def rt_cpu_self_def)
qed

lemma fold_send_ok:
  assumes "smp_ok k" "rt_lists k (SuspendList i) = kept @ ts" "event_serve (tcb k) s ts = (sv, ws, s')"
  shows "\<exists>k' b'. fold event_send_thread ts (s, k, b) = (s', k', b') \<and> smp_ok k' \<and> tcb k' = served sv (tcb k) \<and>
    rt_lists k' (SuspendList i) = kept @ ws \<and> (\<forall>l. \<not> is_table l \<longrightarrow> l \<noteq> SuspendList i \<longrightarrow> rt_lists k' l = rt_lists k l) \<and>
    rt_thread_self k' = rt_thread_self k \<and> (b' \<longleftrightarrow> b \<or> sv \<noteq> [])"
  using assms
proof (induction ts arbitrary: k s sv ws kept b)
  case Nil
  then show ?case by simp
next
  case (Cons t ts)
  let ?x = "tcb k t"
  have t: "t \<in> set (rt_lists k (SuspendList i))" by (simp add: Cons.prems(2))
  have d: "t \<notin> set kept" "t \<notin> set ts" "distinct kept" using waiting_distinct[OF Cons.prems(1), of "SuspendList i"] Cons.prems(2) by auto
  from Cons.prems(3) show ?case
  proof (cases rule: event_serve_cases)
    case (waits ws')
    have "rt_lists k (SuspendList i) = (kept @ [t]) @ ts" using Cons.prems(2) by simp
    from Cons.IH[OF Cons.prems(1) this waits(3), of b] show ?thesis
      using waits(1,2) by (simp add: event_send_thread_def satisfied_def Let_def)
  next
    case (served sv')
    let ?v = "received ?x s" and ?s = "left_over ?x s"
    obtain k1 where k1: "event_send_thread t (s, k, b) = (?s, k1, True)" "smp_ok k1"
      "tcb k1 = (tcb k)(t := ?x\<lparr>event_set := ?v, stat := RT_THREAD_READY\<rparr>)"
      "\<forall>l. \<not> is_table l \<longrightarrow> rt_lists k1 l = removeAll t (rt_lists k l)" "rt_thread_self k1 = rt_thread_self k"
      using send_thread_ok[OF Cons.prems(1) t served(1)] by blast
    note sv = served(2,3)
    have "event_serve (tcb k1) ?s ts = event_serve (tcb k) ?s ts" using d(2) by (intro event_serve_cong) (auto simp: k1(3))
    then have e1: "event_serve (tcb k1) ?s ts = (sv', ws, s')" using sv(2) by simp
    have l1: "rt_lists k1 (SuspendList i) = kept @ ts" using k1(4) Cons.prems(2) d by (simp add: removeAll_id)
    obtain k' b' where k': "fold event_send_thread ts (?s, k1, True) = (s', k', b')" "smp_ok k'" "tcb k' = served sv' (tcb k1)"
      "rt_lists k' (SuspendList i) = kept @ ws" "\<forall>l. \<not> is_table l \<longrightarrow> l \<noteq> SuspendList i \<longrightarrow> rt_lists k' l = rt_lists k1 l"
      "rt_thread_self k' = rt_thread_self k1" "b'"
      using Cons.IH[OF k1(2) l1 e1, of True] by auto
    have "t \<notin> fst ` set sv'" using event_serve_dom[OF sv(2)] d(2) by auto
    then have "map_of sv' t = None" by (simp add: map_of_eq_None_iff)
    then have "tcb k' = served sv (tcb k)" by (auto simp: k'(3) k1(3) served_def sv(1) fun_eq_iff split: option.splits)
    moreover have "rt_lists k1 l = rt_lists k l" if "\<not> is_table l" "l \<noteq> SuspendList i" for l
    proof -
      have "t \<notin> set (rt_lists k l)" using waiting_once[OF Cons.prems(1) t, of l] that(2) by blast
      then show ?thesis using k1(4) that(1) by (simp add: removeAll_id)
    qed
    moreover have "fold event_send_thread (t # ts) (s, k, b) = (s', k', b')" by (simp add: k1(1) k'(1))
    ultimately show ?thesis using k' k1(5) sv(1) by auto
  qed
qed

section \<open>No thread waits for events that are there\<close>

lemma satisfied_mono:
  assumes "satisfied x s" "s AND s' = s"
  shows "satisfied x s'"
proof -
  have "event_set x AND s = (event_set x AND s') AND s" using assms(2) by (metis and.assoc and.commute)
  then have "event_set x AND s = event_set x \<Longrightarrow> event_set x AND s' = event_set x"
    "event_set x AND s \<noteq> 0 \<Longrightarrow> event_set x AND s' \<noteq> 0"
    by (metis and.assoc and.idem and.commute) (metis \<open>event_set x AND s = (event_set x AND s') AND s\<close> bit.conj_zero_left)
  then show ?thesis using assms(1) by (auto simp: satisfied_def event_satisfied_def split: if_splits)
qed

lemma left_over_less: "left_over x s AND s = left_over x s"
  by (rule bit_word_eqI) (auto simp: left_over_def bit_simps)

lemma event_serve_less: "event_serve th s ts = (sv, ws, s') \<Longrightarrow> s' AND s = s'"
proof (induction ts arbitrary: s sv ws)
  case (Cons t ts)
  from Cons.prems show ?case
  proof (cases rule: event_serve_cases)
    case (served sv')
    then show ?thesis using Cons.IH[OF served(3)] left_over_less[of "th t" s] by (metis and.assoc)
  qed (use Cons.IH in blast)
qed simp

lemma event_serve_rest:
  "event_serve th s ts = (sv, ws, s') \<Longrightarrow> t \<in> set ws \<Longrightarrow> \<not> satisfied (th t) s'"
proof (induction ts arbitrary: s sv ws)
  case (Cons u ts)
  from Cons.prems(1) show ?case
  proof (cases rule: event_serve_cases)
    case (waits ws')
    then show ?thesis using Cons.IH[OF waits(3)] Cons.prems(2) satisfied_mono[OF _ event_serve_less[OF waits(3)]] by auto
  qed (use Cons in blast)
qed simp

text \<open>Sending, in terms of \<open>event_serve\<close>.\<close>

lemma send_begin_ok:
  assumes "smp_ok k" "suspend_thread e = SuspendList i"
    "event_serve (tcb k) (ev_set e OR new) (rt_lists k (SuspendList i)) = (sv, ws, s')"
  shows "\<exists>k'. event_send_begin e new k = (sv \<noteq> [], e\<lparr>ev_set := s'\<rparr>, k') \<and> smp_ok k' \<and> tcb k' = served sv (tcb k) \<and>
    rt_lists k' (SuspendList i) = ws \<and> rt_thread_self k' = rt_thread_self k \<and>
    (\<forall>l. \<not> is_table l \<longrightarrow> l \<noteq> SuspendList i \<longrightarrow> rt_lists k' l = rt_lists k l)"
proof -
  have "rt_lists k (SuspendList i) = [] @ rt_lists k (SuspendList i)" by simp
  from fold_send_ok[OF assms(1) this assms(3), of False] show ?thesis
    by (auto simp: event_send_begin_def assms(2))
qed

lemma served_waiters:
  assumes "waiters_ok P i k" "event_serve (tcb k) s (rt_lists k (SuspendList i)) = (sv, ws, s')"
    "smp_ok k'" "tcb k' = served sv (tcb k)" "rt_lists k' (SuspendList i) = ws"
  shows "waiters_ok P i k'" "t \<in> set ws \<Longrightarrow> tcb k' t = tcb k t"
proof -
  have dom: "fst ` set sv \<union> set ws = set (rt_lists k (SuspendList i))" by (rule event_serve_dom[OF assms(2)])
  have rest: "map_of sv t = None" if "t \<in> set ws" for t
  proof (rule ccontr)
    assume "map_of sv t \<noteq> None"
    then have "stat (tcb k' t) = RT_THREAD_READY" by (auto simp: assms(4) served_def)
    then show False using waiting_stat[OF assms(3), of t i] that assms(5) by simp
  qed
  then show "t \<in> set ws \<Longrightarrow> tcb k' t = tcb k t" by (simp add: assms(4) served_def)
  have "t \<in> set ws \<and> th_error (tcb k' t) = RT_EOK \<or>
      stat (tcb k' t) = RT_THREAD_READY \<and> (th_error (tcb k' t) = RT_EOK \<or> th_error (tcb k' t) = RT_ETIMEOUT)" if "t \<in> P" for t
  proof (cases "map_of sv t")
    case None
    then have "t \<notin> fst ` set sv" by (simp add: map_of_eq_None_iff)
    then show ?thesis using waiters_okD(4)[OF assms(1) that] dom None by (auto simp: assms(4) served_def)
  next
    case (Some v)
    then have "t \<in> fst ` set sv" using map_of_eq_None_iff[of sv t] by simp
    then have "t \<in> set (rt_lists k (SuspendList i))" using dom by auto
    then have "th_error (tcb k t) = RT_EOK"
      using waiters_okD(4)[OF assms(1) that] waiting_stat[OF waiters_okD(1)[OF assms(1)]] by fastforce
    then show ?thesis using Some by (simp add: assms(4) served_def)
  qed
  then show "waiters_ok P i k'" using assms(1,3,5) dom by (auto simp: waiters_ok_def)
qed

text \<open>The rest of the system leaves what a waiting thread asked for alone.\<close>

lemma env_step_event:
  assumes "env_step P L k k'" "smp_ok k" "t \<in> P"
  shows "event_set (tcb k' t) = event_set (tcb k t) \<and> event_info (tcb k' t) = event_info (tcb k t)"
  using assms(1)
proof cases
  case schedule
  then show ?thesis using thread_core_eq(6,7)[OF schedule_smp(3)[OF assms(2)]] by simp
next
  case clock
  then show ?thesis using same_schedD(1)[OF clock] by simp
next
  case (timeout u)
  then show ?thesis using timeout_ok(4)[OF assms(2) timeout] by simp
next
  case (priority u p)
  then show ?thesis using priority_ok(4)[OF assms(2) priority] by (simp add: set_priority_def)
next
  case (wait u flag j time)
  then show ?thesis using ipc_wait_ok(2)[OF wait(6) assms(2) wait(1,3,4)] by simp
next
  case (wake j)
  then obtain u us where "rt_lists k (SuspendList j) = u # us" by (cases "rt_lists k (SuspendList j)") auto
  then show ?thesis using list_resume_ok(2)[OF assms(2), of j u us] wake by simp
next
  case (other u f)
  then show ?thesis using assms(3) by auto
qed simp

record event_run =
  the_event :: rt_event
  ev_kernel :: kernel
  ev_pending :: "tid set"

definition ev_waiters :: "event_run \<Rightarrow> tid list" where
  "ev_waiters r = rt_lists (ev_kernel r) (suspend_thread (the_event r))"

inductive event_step :: "event_run \<Rightarrow> event_run \<Rightarrow> bool" where
  recv_now: "rt_thread_self (ev_kernel r) = Some t \<Longrightarrow> t \<notin> ev_pending r \<Longrightarrow>
    event_recv_begin (the_event r) want info time (ev_kernel r) = Some (Result c, v, e, k) \<Longrightarrow>
    event_step r (r\<lparr>the_event := e, ev_kernel := k\<rparr>)"
| recv_wait: "rt_thread_self (ev_kernel r) = Some t \<Longrightarrow> t \<notin> ev_pending r \<Longrightarrow> stat (tcb (ev_kernel r) t) = RT_THREAD_READY \<Longrightarrow>
    event_recv_begin (the_event r) want info time (ev_kernel r) = Some (Blocked, v, e, k) \<Longrightarrow>
    event_step r (r\<lparr>the_event := e, ev_kernel := k, ev_pending := insert t (ev_pending r)\<rparr>)"
| recv_end: "rt_thread_self (ev_kernel r) = Some t \<Longrightarrow> t \<in> ev_pending r \<Longrightarrow> stat (tcb (ev_kernel r) t) = RT_THREAD_READY \<Longrightarrow>
    event_step r (r\<lparr>ev_pending := ev_pending r - {t}\<rparr>)"
| send: "event_send_begin (the_event r) new (ev_kernel r) = (need_schedule, e, k) \<Longrightarrow>
    event_step r (r\<lparr>the_event := e, ev_kernel := k\<rparr>)"
| environment: "env_step (ev_pending r) {suspend_thread (the_event r)} (ev_kernel r) k \<Longrightarrow> event_step r (r\<lparr>ev_kernel := k\<rparr>)"

definition event_start :: "event_run \<Rightarrow> bool" where
  "event_start r \<longleftrightarrow> smp_ok (ev_kernel r) \<and> flag_ok (ipc_flag (the_event r)) \<and> (\<exists>i. suspend_thread (the_event r) = SuspendList i) \<and>
     ev_waiters r = [] \<and> ev_pending r = {}"

definition event_inv :: "event_run \<Rightarrow> bool" where
  "event_inv r \<longleftrightarrow> flag_ok (ipc_flag (the_event r)) \<and>
     (\<exists>i. suspend_thread (the_event r) = SuspendList i \<and> waiters_ok (ev_pending r) i (ev_kernel r)) \<and>
     (\<forall>t\<in>set (ev_waiters r). \<not> satisfied (tcb (ev_kernel r) t) (ev_set (the_event r)))"

lemma recv_result_cases:
  assumes "event_recv_begin e want info time k = Some (Result c, v, e', k')" "rt_thread_self k = Some t"
  shows "(k' = k \<or> (\<exists>x. k' = set_error x t (set_error RT_EOK t k)) \<or> k' = set_error RT_EOK t k) \<and>
    ipc_flag e' = ipc_flag e \<and> suspend_thread e' = suspend_thread e \<and> ev_set e' AND ev_set e = ev_set e'"
  using assms by (auto simp: event_recv_begin_def Let_def and.assoc and.commute and.left_commute
    split: if_splits Option.bind_splits)

lemma recv_blocked_cases:
  assumes "event_recv_begin e want info time k = Some (Blocked, v, e', k')" "rt_thread_self k = Some t"
  shows "e' = e \<and> \<not> event_satisfied info want (ev_set e) \<and>
    ipc_wait (suspend_thread e) t (ipc_flag e) time (th_upd t (\<lambda>x. x\<lparr>event_set := want, event_info := info\<rparr>) (set_error RT_EOK t k)) = Some k'"
  using assms by (auto simp: event_recv_begin_def Let_def split: if_splits Option.bind_splits)

lemma satisfied_cong:
  "event_set x = event_set y \<Longrightarrow> event_info x = event_info y \<Longrightarrow> satisfied x s = satisfied y s"
  by (simp add: satisfied_def)

lemma satisfied_error [simp]: "satisfied (x\<lparr>th_error := e\<rparr>) s = satisfied x s"
  by (simp add: satisfied_def)

lemma event_step_inv:
  assumes "event_step r r'" "event_inv r"
  shows "event_inv r'"
proof -
  let ?k = "ev_kernel r" and ?P = "ev_pending r" and ?e = "the_event r"
  obtain i where i: "suspend_thread ?e = SuspendList i" "waiters_ok ?P i ?k"
    and fl: "flag_ok (ipc_flag ?e)" and un: "\<forall>t\<in>set (rt_lists ?k (SuspendList i)). \<not> satisfied (tcb ?k t) (ev_set ?e)"
    using assms(2) by (auto simp: event_inv_def ev_waiters_def)
  have inP: "u \<in> ?P" if "u \<in> set (rt_lists ?k (SuspendList i))" for u using waiters_okD(3)[OF i(2)] that by blast
  show ?thesis
    using assms(1)
  proof cases
    case (recv_now t want info time c v e k)
    note rc = recv_result_cases[OF recv_now(4,2)]
    have w: "waiters_ok ?P i (set_error y t k')" if "waiters_ok ?P i k'" for y k'
      using waiters_set_error[OF that recv_now(3)] by simp
    then have "waiters_ok ?P i k" using rc i(2) by auto
    moreover have "rt_lists k = rt_lists ?k" "\<And>u. satisfied (tcb k u) s = satisfied (tcb ?k u) s" for s
      using rc by (auto split: if_splits)
    ultimately show ?thesis using i(1) fl un rc satisfied_mono[of _ "ev_set e" "ev_set ?e"]
      by (auto simp: recv_now(1) event_inv_def ev_waiters_def)
  next
    case (recv_wait t want info time v e k)
    let ?f = "\<lambda>x. x\<lparr>event_set := want, event_info := info\<rparr>"
    let ?k1 = "th_upd t ?f (set_error RT_EOK t ?k)"
    note rc = recv_blocked_cases[OF recv_wait(5,2)]
    have w0: "waiters_ok ?P i (set_error RT_EOK t ?k)" using waiters_set_error[OF i(2) recv_wait(3)] by simp
    have s1: "smp_ok ?k1" by (rule smp_upd[OF waiters_okD(1)[OF w0]]) (simp add: sched_part_def)
    have w1: "waiters_ok ?P i ?k1"
      using waiters_ok_other[OF w0 s1 _ _ recv_wait(3), of "?f (tcb (set_error RT_EOK t ?k) t)"] by (simp add: fun_eq_iff)
    have self: "rt_thread_self ?k1 = Some t" using recv_wait(2) by (simp add: rt_thread_self_def rt_cpu_self_def)
    have iw: "ipc_wait (SuspendList i) t (ipc_flag ?e) time ?k1 = Some k" using rc i(1) by simp
    have st: "stat (tcb ?k1 t) = RT_THREAD_READY" "th_error (tcb ?k1 t) = RT_EOK" using recv_wait(4) by simp_all
    note w2 = waiters_wait[OF w1 self recv_wait(3) st(1) fl st(2) iw] and l2 = ipc_wait_ok[OF iw s1 self st(1) fl]
    have "\<not> satisfied (tcb k u) (ev_set ?e)" if "u \<in> set (rt_lists k (SuspendList i))" for u
      using that un inP[of u] recv_wait(3) rc by (auto simp: l2(2,4) wait_insert_set[OF fl] satisfied_def split: if_splits)
    then show ?thesis using w2 i(1) fl rc by (auto simp: recv_wait(1) event_inv_def ev_waiters_def)
  next
    case (recv_end t)
    show ?thesis using waiters_return(1)[OF i(2) recv_end(3,4)] i(1) fl un
      by (auto simp: recv_end(1) event_inv_def ev_waiters_def)
  next
    case (send new b e k)
    obtain sv ws s' where sv: "event_serve (tcb ?k) (ev_set ?e OR new) (rt_lists ?k (SuspendList i)) = (sv, ws, s')"
      by (cases "event_serve (tcb ?k) (ev_set ?e OR new) (rt_lists ?k (SuspendList i))") auto
    have k: "smp_ok k" "tcb k = served sv (tcb ?k)" "rt_lists k (SuspendList i) = ws" "e = ?e\<lparr>ev_set := s'\<rparr>"
      using send_begin_ok[OF waiters_okD(1)[OF i(2)] i(1) sv] send(2) by auto
    note w = served_waiters[OF i(2) sv k(1-3)]
    have "\<not> satisfied (tcb k u) s'" if "u \<in> set ws" for u using event_serve_rest[OF sv that] w(2)[OF that] by simp
    then show ?thesis using w(1) i(1) fl k(3,4) by (auto simp: send(1) event_inv_def ev_waiters_def)
  next
    case (environment k)
    note en = environment(2)[unfolded i(1)]
    note w = env_step_ok[OF en i(2) subset_refl singletonI]
    have "satisfied (tcb k u) s = satisfied (tcb ?k u) s" if "u \<in> ?P" for u s
      using env_step_event[OF en waiters_okD(1)[OF i(2)] that] by (intro satisfied_cong) simp_all
    then show ?thesis using w i(1) fl un inP by (auto simp: environment(1) event_inv_def ev_waiters_def)
  qed
qed

text \<open>
  C27: in every run of an event that starts with no waiting thread, whatever the other threads do, no thread
  waits for events that are there, and every waiting thread is suspended in the list of the event.
\<close>

theorem event_no_missed_wakeup:
  assumes "event_start r" "event_step\<^sup>*\<^sup>* r r'" "t \<in> set (ev_waiters r')"
  shows "stat (tcb (ev_kernel r') t) = RT_THREAD_SUSPEND \<and>
    \<not> event_satisfied (event_info (tcb (ev_kernel r') t)) (event_set (tcb (ev_kernel r') t)) (ev_set (the_event r'))"
proof -
  have "event_inv r"
    using assms(1) by (auto simp: event_start_def event_inv_def waiters_ok_def ev_waiters_def)
  with assms(2) have "event_inv r'" by (induction rule: rtranclp_induct) (use event_step_inv in auto)
  then obtain i where i: "suspend_thread (the_event r') = SuspendList i" "smp_ok (ev_kernel r')"
    "\<not> satisfied (tcb (ev_kernel r') t) (ev_set (the_event r'))"
    using assms(3) waiters_okD(1) by (auto simp: event_inv_def)
  then show ?thesis using waiting_stat[OF i(2), of t i] assms(3) by (simp add: ev_waiters_def satisfied_def)
qed

text \<open>
  C28: sending serves the waiting threads in the order of the list: each is woken exactly when what it asked
  for is among the events left by those before it, keeps what it received, and takes that away when it
  asked for clearing; the others go on waiting in the same order.
\<close>

theorem event_send_serves:
  assumes "smp_ok k" "suspend_thread e = SuspendList i" "rt_lists k (SuspendList i) = ws"
  shows "\<exists>sv us s' k'. event_serve (tcb k) (ev_set e OR new) ws = (sv, us, s') \<and>
    event_send_begin e new k = (sv \<noteq> [], e\<lparr>ev_set := s'\<rparr>, k') \<and> smp_ok k' \<and> rt_lists k' (SuspendList i) = us \<and>
    (\<forall>(t, v)\<in>set sv. stat (tcb k' t) = RT_THREAD_READY \<and> rt_event_recv_end t k' =
       (if th_error (tcb k t) = RT_EOK then (RT_EOK, Some v) else (th_error (tcb k t), None))) \<and>
    (\<forall>t\<in>set us. tcb k' t = tcb k t \<and> \<not> satisfied (tcb k t) s') \<and> fst ` set sv \<union> set us = set ws"
proof -
  obtain sv us s' where sv: "event_serve (tcb k) (ev_set e OR new) ws = (sv, us, s')"
    by (cases "event_serve (tcb k) (ev_set e OR new) ws") auto
  obtain k' where k': "event_send_begin e new k = (sv \<noteq> [], e\<lparr>ev_set := s'\<rparr>, k')" "smp_ok k'" "tcb k' = served sv (tcb k)"
    "rt_lists k' (SuspendList i) = us"
    using send_begin_ok[OF assms(1,2)] sv assms(3) by blast
  have d: "distinct (map fst sv @ us)" using event_serve_distinct[OF sv] waiting_distinct[OF assms(1), of "SuspendList i"] assms(3) by simp
  have "stat (tcb k' t) = RT_THREAD_READY \<and> rt_event_recv_end t k' =
       (if th_error (tcb k t) = RT_EOK then (RT_EOK, Some v) else (th_error (tcb k t), None))" if "(t, v) \<in> set sv" for t v
    using map_of_is_SomeI[OF _ that] d by (simp add: k'(3) served_def rt_event_recv_end_def)
  moreover have "tcb k' t = tcb k t \<and> \<not> satisfied (tcb k t) s'" if "t \<in> set us" for t
  proof -
    have "map_of sv t = None" using d that by (auto simp: map_of_eq_None_iff)
    then show ?thesis using event_serve_rest[OF sv that] by (simp add: k'(3) served_def)
  qed
  ultimately show ?thesis using sv k' event_serve_dom[OF sv]
    by (intro exI[of _ sv] exI[of _ us] exI[of _ s'] exI[of _ k']) auto
qed

end
