(* ===== verification/RtMailbox.thy ===== *)
theory RtMailbox
  imports RtIpc RtMem
begin

text \<open>
  Mailboxes and message queues (\<open>src/ipc.c\<close>), in the style of \<open>RtIpc\<close>. A mailbox is a ring of words; a
  message queue keeps its messages in the slots of a pool, linked through their first word into the queue
  and the list of free slots. Slots are numbered, the memory behind them is a list of bytes per slot.
\<close>

section \<open>Waiting in rounds\<close>

text \<open>What is left of a waiting time after a wait that began at tick \<open>start\<close>.\<close>

definition time_left :: "word32 \<Rightarrow> word32 \<Rightarrow> kernel \<Rightarrow> word32" where
  "time_left timeout start k = (if 0 < sint timeout
     then (let r = timeout - (rt_tick_get k - start) in if sint r < 0 then 0 else r) else timeout)"

section \<open>Mailboxes\<close>

record rt_mailbox = rt_ipc_object +
  msg_pool :: "word32 list"
  mb_size :: word16
  mb_entry :: word16
  in_offset :: word16
  out_offset :: word16
  suspend_sender_thread :: rt_list

definition empty_mailbox :: "rt_list \<times> rt_list \<Rightarrow> word32 list \<Rightarrow> word16 \<Rightarrow> byte \<Rightarrow> rt_mailbox" where
  "empty_mailbox heads pool sz flag = \<lparr>ipc_flag = flag, suspend_thread = fst heads, msg_pool = pool,
     mb_size = sz, mb_entry = 0, in_offset = 0, out_offset = 0, suspend_sender_thread = snd heads\<rparr>"

definition mb_init_lists :: "rt_list \<times> rt_list \<Rightarrow> kernel \<Rightarrow> kernel" where
  "mb_init_lists heads k = rt_ipc_object_init (snd heads) (rt_ipc_object_init (fst heads) k)"

text \<open>\<open>pool\<close> is the memory at \<open>msgpool\<close>; the sz is truncated to 16 bits.\<close>

definition rt_mb_init :: "rt_list \<times> rt_list \<Rightarrow> word32 list \<Rightarrow> word32 \<Rightarrow> byte \<Rightarrow> kernel \<Rightarrow> rt_mailbox \<times> kernel" where
  "rt_mb_init heads pool sz flag k = (empty_mailbox heads pool (ucast sz) flag, mb_init_lists heads k)"

definition rt_mb_detach :: "nat \<Rightarrow> rt_mailbox \<Rightarrow> kernel \<Rightarrow> kernel outcome" where
  "rt_mb_detach fuel mb k = obind (rt_ipc_list_resume_all fuel (suspend_thread mb) k)
     (rt_ipc_list_resume_all fuel (suspend_sender_thread mb))"

text \<open>
  The pool comes from the heap: \<open>malloc\<close> works on a state of its own, \<open>words\<close> is the contents of a block.
  The result is \<open>None\<close> for the null pointer, or the address of the pool and the mailbox.
\<close>

definition rt_mb_create :: "(word32 \<Rightarrow> 's \<Rightarrow> (word32 \<times> 's) outcome) \<Rightarrow> (word32 \<Rightarrow> nat \<Rightarrow> 's \<Rightarrow> word32 list) \<Rightarrow>
    (rt_list \<times> rt_list) option \<Rightarrow> word32 \<Rightarrow> byte \<Rightarrow> kernel \<times> 's \<Rightarrow>
    ((word32 \<times> rt_mailbox) option \<times> kernel \<times> 's) outcome" where
  "rt_mb_create malloc words obj sz flag = (\<lambda>(k, h). if \<not> not_in_interrupt k then Fault else case obj of
     None \<Rightarrow> Done (None, k, h)
   | Some heads \<Rightarrow> let sz = ucast sz :: word16; k = rt_ipc_object_init (fst heads) k in
       obind (malloc (ucast sz * 4) h) (\<lambda>(p, h). if p = 0 then Done (None, k, h)
         else Done (Some (p, empty_mailbox heads (words p (unat sz) h) sz flag), mb_init_lists heads k, h)))"

definition rt_mb_delete :: "nat \<Rightarrow> (word32 \<Rightarrow> 's \<Rightarrow> 's outcome) \<Rightarrow> word32 \<Rightarrow> rt_mailbox \<Rightarrow> kernel \<times> 's \<Rightarrow> (kernel \<times> 's) outcome" where
  "rt_mb_delete fuel free p mb = (\<lambda>(k, h). if \<not> not_in_interrupt k then Fault
     else obind (rt_mb_detach fuel mb k) (\<lambda>k. obind (free p h) (\<lambda>h. Done (k, h))))"

definition mb_put :: "word32 \<Rightarrow> rt_mailbox \<Rightarrow> rt_mailbox option" where
  "mb_put v mb = do {
     pool \<leftarrow> mem_wr (msg_pool mb) (unat (in_offset mb)) v;
     Some (mb\<lparr>msg_pool := pool, in_offset := (if in_offset mb + 1 \<ge> mb_size mb then 0 else in_offset mb + 1),
       mb_entry := mb_entry mb + 1\<rparr>) }"

definition mb_get :: "rt_mailbox \<Rightarrow> (word32 \<times> rt_mailbox) option" where
  "mb_get mb = do {
     v \<leftarrow> mem_rd (msg_pool mb) (unat (out_offset mb));
     Some (v, mb\<lparr>out_offset := (if out_offset mb + 1 \<ge> mb_size mb then 0 else out_offset mb + 1),
       mb_entry := mb_entry mb - 1\<rparr>) }"

text \<open>
  One round of the loop of \<open>rt_mb_send_wait\<close>, up to where interrupts are enabled. The result has the
  outcome, whether \<open>rt_schedule\<close> is called, and the tick at which a timed wait began.
\<close>

definition mb_send_begin :: "rt_mailbox \<Rightarrow> word32 \<Rightarrow> word32 \<Rightarrow> kernel \<Rightarrow>
    (rt_err call \<times> bool \<times> word32 \<times> rt_mailbox \<times> kernel) option" where
  "mb_send_begin mb v timeout k = (if mb_entry mb = mb_size mb then do {
       t \<leftarrow> rt_thread_self k;
       let k = set_error RT_EOK t k in
       (if timeout = 0 then Some (Result RT_EFULL, False, 0, mb, k)
        else if \<not> in_thread_context k then None
        else do { k \<leftarrow> ipc_wait (suspend_sender_thread mb) t (ipc_flag mb) timeout k;
                  Some (Blocked, True, rt_tick_get k, mb, k) }) }
     else do {
       mb \<leftarrow> mb_put v mb;
       (if rt_lists k (suspend_thread mb) \<noteq> []
        then Some (Result RT_EOK, True, 0, mb, rt_ipc_list_resume (suspend_thread mb) k)
        else Some (Result RT_EOK, False, 0, mb, k)) })"

definition schedule_if :: "bool \<Rightarrow> kernel \<Rightarrow> kernel option" where
  "schedule_if b k = (if b then rt_schedule k else Some k)"

definition mb_send_loop :: "rt_mailbox \<Rightarrow> word32 \<Rightarrow> word32 \<Rightarrow> kernel \<Rightarrow> (rt_err call \<times> word32 \<times> rt_mailbox \<times> kernel) option" where
  "mb_send_loop mb v timeout k = do {
     (r, b, start, mb, k) \<leftarrow> mb_send_begin mb v timeout k;
     k \<leftarrow> schedule_if b k;
     Some (r, start, mb, k) }"

definition rt_mb_send_wait :: "rt_mailbox \<Rightarrow> word32 \<Rightarrow> word32 \<Rightarrow> kernel \<Rightarrow> (rt_err call \<times> word32 \<times> rt_mailbox \<times> kernel) option" where
  "rt_mb_send_wait mb v timeout k = (if mb_entry mb = mb_size mb \<and> timeout = 0
     then Some (Result RT_EFULL, 0, mb, k) else mb_send_loop mb v timeout k)"

definition rt_mb_send_wait_end :: "rt_mailbox \<Rightarrow> word32 \<Rightarrow> word32 \<Rightarrow> word32 \<Rightarrow> tid \<Rightarrow> kernel \<Rightarrow>
    (rt_err call \<times> word32 \<times> rt_mailbox \<times> kernel) option" where
  "rt_mb_send_wait_end mb v timeout start t k = (if th_error (tcb k t) \<noteq> RT_EOK
     then Some (Result (th_error (tcb k t)), start, mb, k)
     else mb_send_loop mb v (time_left timeout start k) k)"

definition rt_mb_send :: "rt_mailbox \<Rightarrow> word32 \<Rightarrow> kernel \<Rightarrow> (rt_err call \<times> word32 \<times> rt_mailbox \<times> kernel) option" where
  "rt_mb_send mb v k = rt_mb_send_wait mb v 0 k"

text \<open>Receiving; the second component is the value stored in \<open>*value\<close>.\<close>

definition mb_recv_begin :: "rt_mailbox \<Rightarrow> word32 \<Rightarrow> kernel \<Rightarrow>
    (rt_err call \<times> word32 option \<times> bool \<times> word32 \<times> rt_mailbox \<times> kernel) option" where
  "mb_recv_begin mb timeout k = (if mb_entry mb = 0 then do {
       t \<leftarrow> rt_thread_self k;
       let k = set_error RT_EOK t k in
       (if timeout = 0 then Some (Result RT_ETIMEOUT, None, False, 0, mb, set_error RT_ETIMEOUT t k)
        else if \<not> in_thread_context k then None
        else do { k \<leftarrow> ipc_wait (suspend_thread mb) t (ipc_flag mb) timeout k;
                  Some (Blocked, None, True, rt_tick_get k, mb, k) }) }
     else do {
       (v, mb) \<leftarrow> mb_get mb;
       (if rt_lists k (suspend_sender_thread mb) \<noteq> []
        then Some (Result RT_EOK, Some v, True, 0, mb, rt_ipc_list_resume (suspend_sender_thread mb) k)
        else Some (Result RT_EOK, Some v, False, 0, mb, k)) })"

definition mb_recv_loop :: "rt_mailbox \<Rightarrow> word32 \<Rightarrow> kernel \<Rightarrow>
    (rt_err call \<times> word32 option \<times> word32 \<times> rt_mailbox \<times> kernel) option" where
  "mb_recv_loop mb timeout k = do {
     (r, v, b, start, mb, k) \<leftarrow> mb_recv_begin mb timeout k;
     k \<leftarrow> schedule_if b k;
     Some (r, v, start, mb, k) }"

definition rt_mb_recv :: "rt_mailbox \<Rightarrow> word32 \<Rightarrow> kernel \<Rightarrow>
    (rt_err call \<times> word32 option \<times> word32 \<times> rt_mailbox \<times> kernel) option" where
  "rt_mb_recv mb timeout k = (if mb_entry mb = 0 \<and> timeout = 0
     then Some (Result RT_ETIMEOUT, None, 0, mb, k) else mb_recv_loop mb timeout k)"

definition rt_mb_recv_end :: "rt_mailbox \<Rightarrow> word32 \<Rightarrow> word32 \<Rightarrow> tid \<Rightarrow> kernel \<Rightarrow>
    (rt_err call \<times> word32 option \<times> word32 \<times> rt_mailbox \<times> kernel) option" where
  "rt_mb_recv_end mb timeout start t k = (if th_error (tcb k t) \<noteq> RT_EOK
     then Some (Result (th_error (tcb k t)), None, start, mb, k)
     else mb_recv_loop mb (time_left timeout start k) k)"

definition rt_mb_control :: "nat \<Rightarrow> rt_mailbox \<Rightarrow> ipc_cmd \<Rightarrow> kernel \<Rightarrow> (rt_err \<times> rt_mailbox \<times> kernel) outcome" where
  "rt_mb_control fuel mb cmd k = (case cmd of
       RESET v \<Rightarrow> obind (rt_mb_detach fuel mb k) (\<lambda>k. obind (of_opt (rt_schedule k))
         (\<lambda>k. Done (RT_EOK, mb\<lparr>mb_entry := 0, in_offset := 0, out_offset := 0\<rparr>, k)))
     | OTHER_IPC_CMD \<Rightarrow> Done (RT_ERROR, mb, k))"

section \<open>Message queues\<close>

record rt_messagequeue = rt_ipc_object +
  mq_next :: "nat \<Rightarrow> nat option"
  mq_data :: "nat \<Rightarrow> byte list"
  msg_size :: word16
  max_msgs :: word16
  mq_entry :: word16
  msg_queue_head :: "nat option"
  msg_queue_tail :: "nat option"
  msg_queue_free :: "nat option"

text \<open>Putting a slot on the list of free slots; the loop over all slots of a new pool.\<close>

definition mq_put_free :: "nat \<Rightarrow> rt_messagequeue \<Rightarrow> rt_messagequeue" where
  "mq_put_free i m = m\<lparr>mq_next := (mq_next m)(i := msg_queue_free m), msg_queue_free := Some i\<rparr>"

definition fresh_mq :: "rt_list \<Rightarrow> (nat \<Rightarrow> byte list) \<Rightarrow> word16 \<Rightarrow> word16 \<Rightarrow> byte \<Rightarrow> rt_messagequeue" where
  "fresh_mq l pool sz msgs flag = fold mq_put_free [0..<unat msgs]
     \<lparr>ipc_flag = flag, suspend_thread = l, mq_next = (\<lambda>_. None), mq_data = pool, msg_size = sz, max_msgs = msgs,
      mq_entry = 0, msg_queue_head = None, msg_queue_tail = None, msg_queue_free = None\<rparr>"

text \<open>\<open>pool\<close> is the memory of the slots; sizes are truncated to 16 bits.\<close>

definition rt_mq_init :: "rt_list \<Rightarrow> (nat \<Rightarrow> byte list) \<Rightarrow> word32 \<Rightarrow> word32 \<Rightarrow> byte \<Rightarrow> kernel \<Rightarrow> rt_messagequeue \<times> kernel" where
  "rt_mq_init l pool sz pool_size flag k = (let sz = ucast (RT_ALIGN sz RT_ALIGN_SIZE) :: word16 in
     (fresh_mq l pool sz (ucast (pool_size div (ucast sz + 4))) flag, rt_ipc_object_init l k))"

definition rt_mq_detach :: "nat \<Rightarrow> rt_messagequeue \<Rightarrow> kernel \<Rightarrow> kernel outcome" where
  "rt_mq_detach fuel m k = rt_ipc_list_resume_all fuel (suspend_thread m) k"

definition rt_mq_create :: "(word32 \<Rightarrow> 's \<Rightarrow> (word32 \<times> 's) outcome) \<Rightarrow> (word32 \<Rightarrow> nat \<Rightarrow> 's \<Rightarrow> nat \<Rightarrow> byte list) \<Rightarrow>
    rt_list option \<Rightarrow> word32 \<Rightarrow> word32 \<Rightarrow> byte \<Rightarrow> kernel \<times> 's \<Rightarrow>
    ((word32 \<times> rt_messagequeue) option \<times> kernel \<times> 's) outcome" where
  "rt_mq_create malloc slots obj sz msgs flag = (\<lambda>(k, h). if \<not> not_in_interrupt k then Fault else case obj of
     None \<Rightarrow> Done (None, k, h)
   | Some l \<Rightarrow> let sz = ucast (RT_ALIGN sz RT_ALIGN_SIZE) :: word16; msgs = ucast msgs :: word16; k = rt_ipc_object_init l k in
       obind (malloc ((ucast sz + 4) * ucast msgs) h) (\<lambda>(p, h). if p = 0 then Done (None, k, h)
         else Done (Some (p, fresh_mq l (slots p (unat sz) h) sz msgs flag), k, h)))"

definition rt_mq_delete :: "nat \<Rightarrow> (word32 \<Rightarrow> 's \<Rightarrow> 's outcome) \<Rightarrow> word32 \<Rightarrow> rt_messagequeue \<Rightarrow> kernel \<times> 's \<Rightarrow> (kernel \<times> 's) outcome" where
  "rt_mq_delete fuel free p m = (\<lambda>(k, h). if \<not> not_in_interrupt k then Fault
     else obind (rt_mq_detach fuel m k) (\<lambda>k. obind (free p h) (\<lambda>h. Done (k, h))))"

text \<open>
  Sending in three steps, between which interrupts are enabled: taking a free slot, filling it, linking
  it at the end or at the front of the queue.
\<close>

definition mq_take_slot :: "rt_messagequeue \<Rightarrow> (nat \<times> rt_messagequeue) option" where
  "mq_take_slot m = (case msg_queue_free m of None \<Rightarrow> None | Some i \<Rightarrow> Some (i, m\<lparr>msg_queue_free := mq_next m i\<rparr>))"

definition mq_copy_in :: "nat \<Rightarrow> byte list \<Rightarrow> rt_messagequeue \<Rightarrow> rt_messagequeue" where
  "mq_copy_in i buf m = m\<lparr>mq_data := (mq_data m)(i := buf @ drop (length buf) (mq_data m i))\<rparr>"

definition mq_set_next :: "nat \<Rightarrow> nat option \<Rightarrow> rt_messagequeue \<Rightarrow> rt_messagequeue" where
  "mq_set_next i n m = m\<lparr>mq_next := (mq_next m)(i := n)\<rparr>"

definition mq_link_tail :: "nat \<Rightarrow> rt_messagequeue \<Rightarrow> rt_messagequeue" where
  "mq_link_tail i m = (let m = (case msg_queue_tail m of None \<Rightarrow> m | Some j \<Rightarrow> mq_set_next j (Some i) m) in
     m\<lparr>msg_queue_tail := Some i, msg_queue_head := (if msg_queue_head m = None then Some i else msg_queue_head m),
       mq_entry := mq_entry m + 1\<rparr>)"

definition mq_link_head :: "nat \<Rightarrow> rt_messagequeue \<Rightarrow> rt_messagequeue" where
  "mq_link_head i m = (let m = mq_set_next i (msg_queue_head m) m in
     m\<lparr>msg_queue_head := Some i, msg_queue_tail := (if msg_queue_tail m = None then Some i else msg_queue_tail m),
       mq_entry := mq_entry m + 1\<rparr>)"

definition mq_wake :: "rt_messagequeue \<Rightarrow> kernel \<Rightarrow> kernel option" where
  "mq_wake m k = (if rt_lists k (suspend_thread m) \<noteq> []
     then rt_schedule (rt_ipc_list_resume (suspend_thread m) k) else Some k)"

definition rt_mq_send :: "rt_messagequeue \<Rightarrow> byte list \<Rightarrow> kernel \<Rightarrow> (rt_err \<times> rt_messagequeue \<times> kernel) option" where
  "rt_mq_send m buf k = (if buf = [] then None
     else if length buf > unat (msg_size m) then Some (RT_ERROR, m, k)
     else case mq_take_slot m of None \<Rightarrow> Some (RT_EFULL, m, k) | Some (i, m) \<Rightarrow>
       let m = mq_link_tail i (mq_copy_in i buf (mq_set_next i None m)) in do { k \<leftarrow> mq_wake m k; Some (RT_EOK, m, k) })"

definition rt_mq_urgent :: "rt_messagequeue \<Rightarrow> byte list \<Rightarrow> kernel \<Rightarrow> (rt_err \<times> rt_messagequeue \<times> kernel) option" where
  "rt_mq_urgent m buf k = (if buf = [] then None
     else if length buf > unat (msg_size m) then Some (RT_ERROR, m, k)
     else case mq_take_slot m of None \<Rightarrow> Some (RT_EFULL, m, k) | Some (i, m) \<Rightarrow>
       let m = mq_link_head i (mq_copy_in i buf m) in do { k \<leftarrow> mq_wake m k; Some (RT_EOK, m, k) })"

text \<open>Receiving: unlinking the first message, copying it out, giving the slot back.\<close>

definition mq_unlink :: "rt_messagequeue \<Rightarrow> (nat \<times> rt_messagequeue) option" where
  "mq_unlink m = do {
     i \<leftarrow> msg_queue_head m;
     Some (i, m\<lparr>msg_queue_head := mq_next m i,
       msg_queue_tail := (if msg_queue_tail m = Some i then None else msg_queue_tail m), mq_entry := mq_entry m - 1\<rparr>) }"

definition mq_copy_out :: "nat \<Rightarrow> nat \<Rightarrow> rt_messagequeue \<Rightarrow> byte list" where
  "mq_copy_out i sz m = take (if sz > unat (msg_size m) then unat (msg_size m) else sz) (mq_data m i)"

definition mq_recv_loop :: "rt_messagequeue \<Rightarrow> nat \<Rightarrow> word32 \<Rightarrow> kernel \<Rightarrow>
    (rt_err call \<times> byte list option \<times> word32 \<times> rt_messagequeue \<times> kernel) option" where
  "mq_recv_loop m sz timeout k = (if mq_entry m = 0 then (if \<not> in_thread_context k then None else do {
       t \<leftarrow> rt_thread_self k;
       let k = set_error RT_EOK t k in
       (if timeout = 0 then Some (Result RT_ETIMEOUT, None, 0, m, set_error RT_ETIMEOUT t k)
        else do {
          k \<leftarrow> ipc_wait (suspend_thread m) t (ipc_flag m) timeout k;
          start \<leftarrow> Some (rt_tick_get k);
          k \<leftarrow> rt_schedule k;
          Some (Blocked, None, start, m, k) }) })
     else do {
       (i, m) \<leftarrow> mq_unlink m;
       Some (Result RT_EOK, Some (mq_copy_out i sz m), 0, mq_put_free i m, k) })"

definition rt_mq_recv :: "rt_messagequeue \<Rightarrow> nat \<Rightarrow> word32 \<Rightarrow> kernel \<Rightarrow>
    (rt_err call \<times> byte list option \<times> word32 \<times> rt_messagequeue \<times> kernel) option" where
  "rt_mq_recv m sz timeout k = (if sz = 0 then None
     else if mq_entry m = 0 \<and> timeout = 0 then Some (Result RT_ETIMEOUT, None, 0, m, k)
     else mq_recv_loop m sz timeout k)"

definition rt_mq_recv_end :: "rt_messagequeue \<Rightarrow> nat \<Rightarrow> word32 \<Rightarrow> word32 \<Rightarrow> tid \<Rightarrow> kernel \<Rightarrow>
    (rt_err call \<times> byte list option \<times> word32 \<times> rt_messagequeue \<times> kernel) option" where
  "rt_mq_recv_end m sz timeout start t k = (if th_error (tcb k t) \<noteq> RT_EOK
     then Some (Result (th_error (tcb k t)), None, start, m, k)
     else mq_recv_loop m sz (time_left timeout start k) k)"

definition mq_reset_round :: "rt_messagequeue \<Rightarrow> rt_messagequeue option" where
  "mq_reset_round m = do {
     i \<leftarrow> msg_queue_head m;
     Some (mq_put_free i (m\<lparr>msg_queue_head := mq_next m i,
       msg_queue_tail := (if msg_queue_tail m = Some i then None else msg_queue_tail m)\<rparr>)) }"

definition rt_mq_control :: "nat \<Rightarrow> rt_messagequeue \<Rightarrow> ipc_cmd \<Rightarrow> kernel \<Rightarrow> (rt_err \<times> rt_messagequeue \<times> kernel) outcome" where
  "rt_mq_control fuel m cmd k = (case cmd of
       RESET v \<Rightarrow> obind (rt_ipc_list_resume_all fuel (suspend_thread m) k) (\<lambda>k.
         obind (of_loop (run_loop fuel (\<lambda>m. msg_queue_head m \<noteq> None) mq_reset_round m)) (\<lambda>m.
         obind (of_opt (rt_schedule k)) (\<lambda>k. Done (RT_EOK, m\<lparr>mq_entry := 0\<rparr>, k))))
     | OTHER_IPC_CMD \<Rightarrow> Done (RT_ERROR, m, k))"

end
