(* ===== verification/RtMailboxSpec.thy ===== *)
theory RtMailboxSpec
  imports RtSemSpec RtMailbox Queues
begin

text \<open>
  Mailboxes: the ring of words is a queue, sending and receiving without waiting implement the contract of
  a bounded queue, and in every run a message that is there is never overlooked by the threads that wait
  for one.
\<close>

section \<open>The ring\<close>

definition mb_wf :: "rt_mailbox \<Rightarrow> bool" where
  "mb_wf mb \<longleftrightarrow> unat (mb_size mb) \<le> length (msg_pool mb) \<and> unat (mb_entry mb) \<le> unat (mb_size mb) \<and>
     (if mb_size mb = 0 then in_offset mb = 0 \<and> out_offset mb = 0
      else unat (out_offset mb) < unat (mb_size mb) \<and>
        unat (in_offset mb) = (unat (out_offset mb) + unat (mb_entry mb)) mod unat (mb_size mb))"

definition mb_items :: "rt_mailbox \<Rightarrow> word32 list" where
  "mb_items mb = map (\<lambda>j. msg_pool mb ! ((unat (out_offset mb) + j) mod unat (mb_size mb))) [0..<unat (mb_entry mb)]"

lemma length_mb_items [simp]: "length (mb_items mb) = unat (mb_entry mb)"
  by (simp add: mb_items_def)

lemma mb_items_empty: "mb_items mb = [] \<longleftrightarrow> mb_entry mb = 0"
  by (simp add: mb_items_def unat_eq_0)

lemma word16_inc: "unat (x :: word16) < unat (y :: word16) \<Longrightarrow> unat (x + 1) = unat x + 1"
proof -
  assume "unat x < unat y"
  then have "unat x < 65535" using unat_word16_less[of y] by linarith
  then show ?thesis using unat_add_lem[of x 1] by simp
qed

lemma word16_dec: "(x :: word16) \<noteq> 0 \<Longrightarrow> unat (x - 1) = unat x - 1"
proof -
  assume "x \<noteq> 0"
  then have "1 \<le> unat x" using unat_gt_0[of x] by linarith
  then show ?thesis by (simp add: unat_sub_if_size)
qed

text \<open>An index moved on in the ring.\<close>

lemma ring_next:
  assumes "unat (x :: word16) < unat n"
  shows "unat (if x + 1 \<ge> n then 0 else x + 1) = (unat x + 1) mod unat n"
proof (cases "unat x + 1 = unat n")
  case True
  then have "x + 1 \<ge> n" using word16_inc[OF assms] by (simp add: word_le_nat_alt)
  then show ?thesis using True by simp
next
  case False
  then have "\<not> x + 1 \<ge> n" using word16_inc[OF assms] assms by (simp add: word_le_nat_alt)
  then show ?thesis using False assms word16_inc[OF assms] by simp
qed

lemma ring_step: "(o' :: nat) < n \<Longrightarrow> j < n \<Longrightarrow> (o' + j) mod n = (if o' + j < n then o' + j else o' + j - n)"
  by (simp add: mod_if)

lemma ring_inj: "(o' :: nat) < n \<Longrightarrow> j < n \<Longrightarrow> k < n \<Longrightarrow> (o' + j) mod n = (o' + k) mod n \<Longrightarrow> j = k"
  by (simp add: ring_step split: if_splits)

lemma mb_put_ok:
  assumes "mb_wf mb" "mb_entry mb \<noteq> mb_size mb"
  shows "\<exists>mb'. mb_put v mb = Some mb' \<and> mb_wf mb' \<and> mb_items mb' = mb_items mb @ [v] \<and> mb_size mb' = mb_size mb \<and>
    suspend_thread mb' = suspend_thread mb \<and> suspend_sender_thread mb' = suspend_sender_thread mb \<and> ipc_flag mb' = ipc_flag mb \<and>
    unat (mb_entry mb') = unat (mb_entry mb) + 1"
proof -
  define n ou en where "n = unat (mb_size mb)" and "ou = unat (out_offset mb)" and "en = unat (mb_entry mb)"
  have lt: "unat (mb_entry mb) < unat (mb_size mb)" using assms by (simp add: mb_wf_def unat_arith_simps(3) le_neq_implies_less)
  then have nz: "mb_size mb \<noteq> 0" by auto
  have w: "ou < n" "unat (in_offset mb) = (ou + en) mod n" "n \<le> length (msg_pool mb)" "en < n"
    using assms(1) nz lt by (simp_all add: mb_wf_def n_def ou_def en_def)
  have i: "unat (in_offset mb) < n" using w(1,2) by simp
  define mb' where "mb' = mb\<lparr>msg_pool := (msg_pool mb)[unat (in_offset mb) := v],
     in_offset := (if in_offset mb + 1 \<ge> mb_size mb then 0 else in_offset mb + 1), mb_entry := mb_entry mb + 1\<rparr>"
  have p: "mb_put v mb = Some mb'" using i w(3) by (simp add: mb_put_def mb'_def)
  have e: "unat (mb_entry mb + 1) = en + 1" using word16_inc[OF lt] by (simp add: en_def)
  have "unat (in_offset mb') = (ou + (en + 1)) mod n"
    using ring_next[of "in_offset mb" "mb_size mb"] i w(2) by (simp add: mb'_def n_def[symmetric] mod_Suc_eq)
  then have "mb_wf mb'" using w nz e by (simp add: mb_wf_def mb'_def n_def[symmetric] ou_def[symmetric])
  moreover have "mb_items mb' = mb_items mb @ [v]"
  proof (rule nth_equalityI)
    fix j
    assume "j < length (mb_items mb')"
    then have j: "j < en + 1" using e by (simp add: mb'_def)
    have ne: "(ou + j) mod n \<noteq> (ou + en) mod n" if "j < en" using ring_inj[OF w(1) order.strict_trans[OF that w(4)] w(4)] that by blast
    show "mb_items mb' ! j = (mb_items mb @ [v]) ! j"
    proof (cases "j < en")
      case True
      then show ?thesis using ne w(2) e
        by (simp add: mb_items_def mb'_def nth_append ou_def[symmetric] en_def[symmetric] n_def[symmetric])
    next
      case False
      then have "j = en" using j by simp
      then show ?thesis using w(2,3) i e
        by (simp add: mb_items_def mb'_def nth_append ou_def[symmetric] en_def[symmetric] n_def[symmetric])
    qed
  qed (use e in \<open>simp add: mb'_def en_def\<close>)
  ultimately show ?thesis using p e by (simp add: mb'_def en_def)
qed

lemma mb_get_ok:
  assumes "mb_wf mb" "mb_entry mb \<noteq> 0"
  shows "\<exists>mb'. mb_get mb = Some (hd (mb_items mb), mb') \<and> mb_wf mb' \<and> mb_items mb' = tl (mb_items mb) \<and> mb_size mb' = mb_size mb \<and>
    suspend_thread mb' = suspend_thread mb \<and> suspend_sender_thread mb' = suspend_sender_thread mb \<and> ipc_flag mb' = ipc_flag mb \<and>
    unat (mb_entry mb') = unat (mb_entry mb) - 1"
proof -
  define n ou en where "n = unat (mb_size mb)" and "ou = unat (out_offset mb)" and "en = unat (mb_entry mb)"
  have en: "0 < en" "en \<le> n" using assms by (simp_all add: en_def n_def mb_wf_def unat_gt_0)
  then have nz: "mb_size mb \<noteq> 0" by (auto simp: n_def)
  have w: "ou < n" "unat (in_offset mb) = (ou + en) mod n" "n \<le> length (msg_pool mb)"
    using assms(1) nz by (simp_all add: mb_wf_def n_def ou_def en_def)
  define mb' where "mb' = mb\<lparr>out_offset := (if out_offset mb + 1 \<ge> mb_size mb then 0 else out_offset mb + 1), mb_entry := mb_entry mb - 1\<rparr>"
  have e: "unat (mb_entry mb - 1) = en - 1" using word16_dec[OF assms(2)] by (simp add: en_def)
  have o: "unat (out_offset mb') = (ou + 1) mod n"
    using ring_next[of "out_offset mb" "mb_size mb"] w(1) by (simp add: mb'_def n_def ou_def)
  have "((ou + 1) mod n + (en - 1)) mod n = (ou + 1 + (en - 1)) mod n" by (rule mod_add_left_eq)
  also have "ou + 1 + (en - 1) = ou + en" using en(1) by simp
  finally have io: "((ou + 1) mod n + (en - 1)) mod n = (ou + en) mod n" .
  have "hd (mb_items mb) = msg_pool mb ! ou"
    using en(1) w(1) by (simp add: mb_items_def hd_map upt_conv_Cons en_def[symmetric] n_def[symmetric] ou_def[symmetric])
  then have g: "mb_get mb = Some (hd (mb_items mb), mb')" using w(1,3) by (simp add: mb_get_def mb'_def ou_def)
  have "mb_wf mb'" using w en nz e o io by (simp add: mb_wf_def n_def[symmetric]) (simp add: mb'_def n_def[symmetric])
  moreover have "mb_items mb' = tl (mb_items mb)"
  proof (rule nth_equalityI)
    fix j
    assume "j < length (mb_items mb')"
    then have j: "j < en - 1" using e by (simp add: mb'_def)
    have "((ou + 1) mod n + j) mod n = (ou + Suc j) mod n" by (simp add: mod_add_left_eq)
    then show "mb_items mb' ! j = tl (mb_items mb) ! j"
      using j o e by (simp add: mb_items_def nth_tl en_def[symmetric] n_def[symmetric] ou_def[symmetric])
        (simp add: mb'_def n_def[symmetric])
  qed (use e in \<open>simp add: mb'_def en_def\<close>)
  ultimately show ?thesis using g e by (simp add: mb'_def en_def)
qed

section \<open>The contract of a bounded queue\<close>

text \<open>Sending and receiving without waiting, while no thread waits.\<close>

definition mb_idle :: "rt_mailbox \<times> kernel \<Rightarrow> bool" where
  "mb_idle = (\<lambda>(mb, k). mb_wf mb \<and> rt_lists k (suspend_thread mb) = [] \<and> rt_lists k (suspend_sender_thread mb) = [])"

definition mb_push :: "word32 \<Rightarrow> rt_mailbox \<times> kernel \<Rightarrow> (bool \<times> rt_mailbox \<times> kernel) option" where
  "mb_push v = (\<lambda>(mb, k). map_option (\<lambda>(r, _, mb, k). (r = Result RT_EOK, mb, k)) (rt_mb_send mb v k))"

definition mb_pop :: "rt_mailbox \<times> kernel \<Rightarrow> (word32 option \<times> rt_mailbox \<times> kernel) option" where
  "mb_pop = (\<lambda>(mb, k). map_option (\<lambda>(r, v, _, mb, k). (v, mb, k)) (rt_mb_recv mb 0 k))"

lemma mb_push_law:
  assumes "mb_idle (mb, k)"
  shows "\<exists>mb'. mb_push v (mb, k) = Some (length (mb_items mb) < unat (mb_size mb), mb', k) \<and> mb_idle (mb', k) \<and> mb_size mb' = mb_size mb \<and>
    mb_items mb' = (if length (mb_items mb) < unat (mb_size mb) then mb_items mb @ [v] else mb_items mb)"
proof (cases "mb_entry mb = mb_size mb")
  case True
  then show ?thesis using assms by (simp add: mb_push_def rt_mb_send_def rt_mb_send_wait_def)
next
  case False
  then have lt: "unat (mb_entry mb) < unat (mb_size mb)"
    using assms by (simp add: mb_idle_def mb_wf_def unat_arith_simps(3) le_neq_implies_less)
  obtain mb' where "mb_put v mb = Some mb'" "mb_wf mb'" "mb_items mb' = mb_items mb @ [v]" "mb_size mb' = mb_size mb"
    "suspend_thread mb' = suspend_thread mb" "suspend_sender_thread mb' = suspend_sender_thread mb"
    using mb_put_ok[of mb v] False assms by (auto simp: mb_idle_def)
  then show ?thesis using assms False lt
    by (simp add: mb_push_def rt_mb_send_def rt_mb_send_wait_def mb_send_loop_def mb_send_begin_def schedule_if_def mb_idle_def)
qed

lemma mb_pop_law:
  assumes "mb_idle (mb, k)"
  shows "\<exists>mb'. mb_pop (mb, k) = Some (if mb_items mb = [] then None else Some (hd (mb_items mb)), mb', k) \<and> mb_idle (mb', k) \<and>
    mb_size mb' = mb_size mb \<and> mb_items mb' = drop 1 (mb_items mb)"
proof (cases "mb_entry mb = 0")
  case True
  then show ?thesis using assms by (simp add: mb_pop_def rt_mb_recv_def mb_items_empty)
next
  case False
  obtain mb' where "mb_get mb = Some (hd (mb_items mb), mb')" "mb_wf mb'" "mb_items mb' = tl (mb_items mb)" "mb_size mb' = mb_size mb"
    "suspend_thread mb' = suspend_thread mb" "suspend_sender_thread mb' = suspend_sender_thread mb"
    using mb_get_ok[of mb] False assms by (auto simp: mb_idle_def)
  then show ?thesis using assms False
    by (simp add: mb_pop_def rt_mb_recv_def mb_recv_loop_def mb_recv_begin_def schedule_if_def mb_idle_def mb_items_empty drop_Suc)
qed

interpretation mb: bounded_queue mb_idle "\<lambda>(mb, k). unat (mb_size mb)" "\<lambda>(mb, k). mb_items mb" mb_push mb_pop
proof (unfold_locales, goal_cases)
  case (1 q x)
  then show ?case using mb_push_law[of "fst q" "snd q" x] by (cases q) auto
next
  case (2 q)
  then show ?case using mb_pop_law[of "fst q" "snd q"] by (cases q) auto
qed

text \<open>
  C29: as many messages as the mailbox has room for are sent without waiting, and received in the order they
  were sent.
\<close>

theorem mailbox_fifo:
  assumes "mb_idle (mb, k)" "mb_items mb = []" "length xs \<le> unat (mb_size mb)"
  shows "\<exists>q s. pushes mb_push xs (mb, k) = Some q \<and> pops mb_pop (length xs) q = Some (map Some xs, s) \<and> mb_items (fst s) = []"
  using mb.fifo[OF assms(1), of xs] assms(2,3) by (auto simp: case_prod_beta)

section \<open>No message is overlooked\<close>

text \<open>\<open>mb_receivers\<close> and \<open>mb_senders\<close> are the threads inside a call that waits.\<close>

record mb_run =
  the_mb :: rt_mailbox
  mb_kernel :: kernel
  mb_receivers :: "tid set"
  mb_senders :: "tid set"

definition mb_inside :: "mb_run \<Rightarrow> tid set" where
  "mb_inside r = mb_receivers r \<union> mb_senders r"

text \<open>A send that does not have to wait may also come from an interrupt, whatever the current thread is doing.\<close>

inductive mb_step :: "mb_run \<Rightarrow> mb_run \<Rightarrow> bool" where
  send_now: "rt_thread_self (mb_kernel r) = Some t \<Longrightarrow> t \<notin> mb_inside r \<or> mb_entry (the_mb r) \<noteq> mb_size (the_mb r) \<Longrightarrow>
    mb_send_begin (the_mb r) v time (mb_kernel r) = Some (Result e, b, start, mb, k) \<Longrightarrow>
    mb_step r (r\<lparr>the_mb := mb, mb_kernel := k\<rparr>)"
| send_wait: "rt_thread_self (mb_kernel r) = Some t \<Longrightarrow> t \<notin> mb_inside r \<Longrightarrow> stat (tcb (mb_kernel r) t) = RT_THREAD_READY \<Longrightarrow>
    mb_send_begin (the_mb r) v time (mb_kernel r) = Some (Blocked, b, start, mb, k) \<Longrightarrow>
    mb_step r (r\<lparr>the_mb := mb, mb_kernel := k, mb_senders := insert t (mb_senders r)\<rparr>)"
| send_again: "rt_thread_self (mb_kernel r) = Some t \<Longrightarrow> t \<in> mb_senders r \<Longrightarrow> stat (tcb (mb_kernel r) t) = RT_THREAD_READY \<Longrightarrow>
    th_error (tcb (mb_kernel r) t) = RT_EOK \<Longrightarrow> mb_send_begin (the_mb r) v time (mb_kernel r) = Some (c, b, start, mb, k) \<Longrightarrow>
    mb_step r (r\<lparr>the_mb := mb, mb_kernel := k, mb_senders := (if c = Blocked then mb_senders r else mb_senders r - {t})\<rparr>)"
| send_fails: "rt_thread_self (mb_kernel r) = Some t \<Longrightarrow> t \<in> mb_senders r \<Longrightarrow> stat (tcb (mb_kernel r) t) = RT_THREAD_READY \<Longrightarrow>
    th_error (tcb (mb_kernel r) t) \<noteq> RT_EOK \<Longrightarrow> mb_step r (r\<lparr>mb_senders := mb_senders r - {t}\<rparr>)"
| recv_now: "rt_thread_self (mb_kernel r) = Some t \<Longrightarrow> t \<notin> mb_inside r \<or> mb_entry (the_mb r) \<noteq> 0 \<Longrightarrow>
    mb_recv_begin (the_mb r) time (mb_kernel r) = Some (Result e, v, b, start, mb, k) \<Longrightarrow>
    mb_step r (r\<lparr>the_mb := mb, mb_kernel := k\<rparr>)"
| recv_wait: "rt_thread_self (mb_kernel r) = Some t \<Longrightarrow> t \<notin> mb_inside r \<Longrightarrow> stat (tcb (mb_kernel r) t) = RT_THREAD_READY \<Longrightarrow>
    mb_recv_begin (the_mb r) time (mb_kernel r) = Some (Blocked, v, b, start, mb, k) \<Longrightarrow>
    mb_step r (r\<lparr>the_mb := mb, mb_kernel := k, mb_receivers := insert t (mb_receivers r)\<rparr>)"
| recv_again: "rt_thread_self (mb_kernel r) = Some t \<Longrightarrow> t \<in> mb_receivers r \<Longrightarrow> stat (tcb (mb_kernel r) t) = RT_THREAD_READY \<Longrightarrow>
    th_error (tcb (mb_kernel r) t) = RT_EOK \<Longrightarrow> mb_recv_begin (the_mb r) time (mb_kernel r) = Some (c, v, b, start, mb, k) \<Longrightarrow>
    mb_step r (r\<lparr>the_mb := mb, mb_kernel := k, mb_receivers := (if c = Blocked then mb_receivers r else mb_receivers r - {t})\<rparr>)"
| recv_fails: "rt_thread_self (mb_kernel r) = Some t \<Longrightarrow> t \<in> mb_receivers r \<Longrightarrow> stat (tcb (mb_kernel r) t) = RT_THREAD_READY \<Longrightarrow>
    th_error (tcb (mb_kernel r) t) \<noteq> RT_EOK \<Longrightarrow> mb_step r (r\<lparr>mb_receivers := mb_receivers r - {t}\<rparr>)"
| environment: "env_step (mb_inside r) {suspend_thread (the_mb r), suspend_sender_thread (the_mb r)} (mb_kernel r) k \<Longrightarrow>
    mb_step r (r\<lparr>mb_kernel := k\<rparr>)"

text \<open>
  One of the two sides of a mailbox: the threads in \<open>P\<close> wait in the list \<open>i\<close> for one of \<open>n\<close> things that are
  there; while a thread waits, at least \<open>n\<close> woken ones are on their way.
\<close>

definition side_ok :: "tid set \<Rightarrow> nat \<Rightarrow> nat \<Rightarrow> kernel \<Rightarrow> bool" where
  "side_ok P i n k \<longleftrightarrow> waiters_ok P i k \<and> (rt_lists k (SuspendList i) \<noteq> [] \<longrightarrow> n \<le> card (woken_by_object P k))"

lemma side_env:
  assumes "env_step Q L k k'" "side_ok P i n k" "P \<subseteq> Q" "SuspendList i \<in> L"
  shows "side_ok P i n k'"
  using env_step_ok[OF assms(1) _ assms(3,4)] assms(2) by (auto simp: side_ok_def)

lemma side_less: "side_ok P i n k \<Longrightarrow> m \<le> n \<Longrightarrow> side_ok P i m k"
  by (auto simp: side_ok_def)

lemma side_wait:
  assumes "side_ok P i n k" "rt_thread_self k = Some t" "t \<notin> P" "stat (tcb k t) = RT_THREAD_READY" "flag_ok flag"
    "ipc_wait (SuspendList i) t flag time (set_error RT_EOK t k) = Some k'"
  shows "side_ok (insert t P) i 0 k'"
proof -
  have "waiters_ok P i (set_error RT_EOK t k)" using waiters_set_error[OF _ assms(3)] assms(1) by (simp add: side_ok_def)
  from waiters_wait[OF this _ assms(3) _ assms(5) _ assms(6)] show ?thesis using assms(2,4) by (simp add: side_ok_def)
qed

lemma side_wake:
  assumes "side_ok P i n k"
  defines "k' \<equiv> (if rt_lists k (SuspendList i) \<noteq> [] then rt_ipc_list_resume (SuspendList i) k else k)"
  shows "side_ok P i (n + 1) k'"
proof (cases "rt_lists k (SuspendList i)")
  case (Cons u us)
  have w: "waiters_ok P i k" using assms(1) by (simp add: side_ok_def)
  note wk = waiters_wake[OF w Cons]
  have "k' = rt_ipc_list_resume (SuspendList i) k" by (simp add: k'_def Cons)
  then show ?thesis using wk assms(1) waiters_finite[OF w] Cons by (simp add: side_ok_def)
qed (use assms in \<open>simp add: side_ok_def\<close>)

lemma side_return:
  assumes "side_ok P i n k" "t \<in> P" "stat (tcb k t) = RT_THREAD_READY"
  shows "side_ok (P - {t}) i (if th_error (tcb k t) = RT_EOK then n - 1 else n) k"
proof -
  have w: "waiters_ok P i k" using assms(1) by (simp add: side_ok_def)
  note r = waiters_return[OF w assms(2,3)]
  have "card (woken_by_object (P - {t}) k) = card (woken_by_object P k) - (if th_error (tcb k t) = RT_EOK then 1 else 0)"
    using r(3) by (simp add: r(2))
  then show ?thesis using r(1) assms(1) by (auto simp: side_ok_def intro: diff_le_mono)
qed

lemma side_set_error: "side_ok P i n k \<Longrightarrow> t \<notin> P \<Longrightarrow> side_ok P i n (set_error e t k)"
  using waiters_set_error[of P i k t e] by (simp add: side_ok_def)

definition mb_sides :: "rt_mailbox \<Rightarrow> kernel \<Rightarrow> tid set \<Rightarrow> tid set \<Rightarrow> bool" where
  "mb_sides mb k R S \<longleftrightarrow> mb_wf mb \<and> flag_ok (ipc_flag mb) \<and> R \<inter> S = {} \<and>
     (\<exists>i j. i \<noteq> j \<and> suspend_thread mb = SuspendList i \<and> suspend_sender_thread mb = SuspendList j \<and>
        side_ok R i (unat (mb_entry mb)) k \<and> side_ok S j (unat (mb_size mb) - unat (mb_entry mb)) k)"

definition mb_inv :: "mb_run \<Rightarrow> bool" where
  "mb_inv r \<longleftrightarrow> mb_sides (the_mb r) (mb_kernel r) (mb_receivers r) (mb_senders r)"

text \<open>The branches of the two calls.\<close>

lemma send_begin_cases:
  assumes "mb_send_begin mb v time k = Some (c, b, start, mb', k')" "rt_thread_self k = Some t"
  obtains (full) e where "mb_entry mb = mb_size mb" "c = Result e" "mb' = mb" "k' = set_error RT_EOK t k"
  | (wait) "mb_entry mb = mb_size mb" "c = Blocked" "mb' = mb"
      "ipc_wait (suspend_sender_thread mb) t (ipc_flag mb) time (set_error RT_EOK t k) = Some k'"
  | (put) "mb_entry mb \<noteq> mb_size mb" "c = Result RT_EOK" "mb_put v mb = Some mb'"
      "k' = (if rt_lists k (suspend_thread mb') \<noteq> [] then rt_ipc_list_resume (suspend_thread mb') k else k)"
proof (cases "mb_entry mb = mb_size mb")
  case True
  show thesis
  proof (cases "time = 0")
    case True
    then show thesis using assms \<open>mb_entry mb = mb_size mb\<close> by (intro full[of RT_EFULL]) (simp_all add: mb_send_begin_def Let_def)
  next
    case False
    then have "ipc_wait (suspend_sender_thread mb) t (ipc_flag mb) time (set_error RT_EOK t k) \<bind>
        (\<lambda>k. Some (Blocked, True, rt_tick_get k, mb, k)) = Some (c, b, start, mb', k')"
      using assms True by (simp add: mb_send_begin_def Let_def split: if_splits)
    then show thesis using True by (intro wait) (auto elim!: bindE)
  qed
next
  case False
  then obtain mb1 where "mb_put v mb = Some mb1" "(if rt_lists k (suspend_thread mb1) \<noteq> []
        then Some (Result RT_EOK, True, 0, mb1, rt_ipc_list_resume (suspend_thread mb1) k)
        else Some (Result RT_EOK, False, 0, mb1, k)) = Some (c, b, start, mb', k')"
    using assms(1) by (auto simp: mb_send_begin_def elim!: bindE)
  then show thesis using False by (intro put) (auto split: if_splits)
qed

lemma recv_begin_cases:
  assumes "mb_recv_begin mb time k = Some (c, v, b, start, mb', k')" "rt_thread_self k = Some t"
  obtains (empty) e where "mb_entry mb = 0" "c = Result e" "mb' = mb" "k' = set_error RT_ETIMEOUT t (set_error RT_EOK t k)"
  | (wait) "mb_entry mb = 0" "c = Blocked" "mb' = mb"
      "ipc_wait (suspend_thread mb) t (ipc_flag mb) time (set_error RT_EOK t k) = Some k'"
  | (get) x where "mb_entry mb \<noteq> 0" "c = Result RT_EOK" "mb_get mb = Some (x, mb')"
      "k' = (if rt_lists k (suspend_sender_thread mb') \<noteq> [] then rt_ipc_list_resume (suspend_sender_thread mb') k else k)"
proof (cases "mb_entry mb = 0")
  case True
  show thesis
  proof (cases "time = 0")
    case True
    then show thesis using assms \<open>mb_entry mb = 0\<close> by (intro empty[of RT_ETIMEOUT]) (simp_all add: mb_recv_begin_def Let_def)
  next
    case False
    then have "ipc_wait (suspend_thread mb) t (ipc_flag mb) time (set_error RT_EOK t k) \<bind>
        (\<lambda>k. Some (Blocked, None, True, rt_tick_get k, mb, k)) = Some (c, v, b, start, mb', k')"
      using assms True by (simp add: mb_recv_begin_def Let_def split: if_splits)
    then show thesis using True by (intro wait) (auto elim!: bindE)
  qed
next
  case False
  then obtain x mb1 where "mb_get mb = Some (x, mb1)" "(if rt_lists k (suspend_sender_thread mb1) \<noteq> []
        then Some (Result RT_EOK, Some x, True, 0, mb1, rt_ipc_list_resume (suspend_sender_thread mb1) k)
        else Some (Result RT_EOK, Some x, False, 0, mb1, k)) = Some (c, v, b, start, mb', k')"
    using assms(1) by (auto simp: mb_recv_begin_def elim!: bindE)
  then show thesis using False by (intro get[of x]) (auto split: if_splits)
qed

text \<open>
  A round of sending by a thread \<open>t\<close> that is not counted on either side, when the side of the senders may be
  one short, and the same for receiving.
\<close>

lemma send_begin_sides:
  assumes "mb_send_begin mb v time k = Some (c, b, start, mb', k')" "rt_thread_self k = Some t"
    "mb_wf mb" "flag_ok (ipc_flag mb)" "R \<inter> S = {}" "i \<noteq> j" "suspend_thread mb = SuspendList i" "suspend_sender_thread mb = SuspendList j"
    "side_ok R i (unat (mb_entry mb)) k" "side_ok S j (unat (mb_size mb) - unat (mb_entry mb) - 1) k"
    "mb_entry mb = mb_size mb \<Longrightarrow> t \<notin> R \<and> t \<notin> S" "c = Blocked \<Longrightarrow> stat (tcb k t) = RT_THREAD_READY"
  shows "mb_sides mb' k' R (if c = Blocked then insert t S else S)"
  using assms(1,2)
proof (cases rule: send_begin_cases)
  case (full e)
  have "side_ok S j 0 k" using side_less[OF assms(10)] by simp
  then show ?thesis using full assms(3-9,11) side_set_error by (simp add: mb_sides_def)
next
  case wait
  have t: "t \<notin> R" "t \<notin> S" "stat (tcb k t) = RT_THREAD_READY" using wait(1,2) assms(11,12) by simp_all
  have "side_ok R i (unat (mb_entry mb)) (set_error RT_EOK t k)" by (rule side_set_error[OF assms(9) t(1)])
  moreover have "env_step R {SuspendList i} (set_error RT_EOK t k) k'"
    using wait(4) assms(2,4,6,8) t by (intro env_step.wait[of _ t]) simp_all
  ultimately have r: "side_ok R i (unat (mb_entry mb)) k'" using side_env by blast
  have "side_ok (insert t S) j 0 k'" using side_wait[OF assms(10,2) t(2,3) assms(4)] wait(4) assms(8) by simp
  then show ?thesis using r wait(1-3) assms(3-8) t(1) by (simp add: mb_sides_def)
next
  case put
  obtain mb1 where p: "mb_put v mb = Some mb1" "mb_wf mb1" "mb_size mb1 = mb_size mb" "suspend_thread mb1 = suspend_thread mb"
    "suspend_sender_thread mb1 = suspend_sender_thread mb" "ipc_flag mb1 = ipc_flag mb" "unat (mb_entry mb1) = unat (mb_entry mb) + 1"
    using mb_put_ok[OF assms(3) put(1), of v] by blast
  then have mb': "mb' = mb1" using put(3) by simp
  have k': "k' = (if rt_lists k (SuspendList i) \<noteq> [] then rt_ipc_list_resume (SuspendList i) k else k)"
    using put(4) p(4) assms(7) by (simp add: mb')
  have "side_ok R i (unat (mb_entry mb1)) k'" using side_wake[OF assms(9)] p(7) by (simp add: k')
  moreover have "side_ok S j (unat (mb_size mb) - unat (mb_entry mb) - 1) k'"
    using side_env[OF env_step.wake[of i "{SuspendList j}" k S] assms(10)] assms(6,10) by (simp add: k')
  ultimately show ?thesis using put(2) p assms(4-8) by (simp add: mb_sides_def mb')
qed

lemma recv_begin_sides:
  assumes "mb_recv_begin mb time k = Some (c, v, b, start, mb', k')" "rt_thread_self k = Some t"
    "mb_wf mb" "flag_ok (ipc_flag mb)" "R \<inter> S = {}" "i \<noteq> j" "suspend_thread mb = SuspendList i" "suspend_sender_thread mb = SuspendList j"
    "side_ok R i (unat (mb_entry mb) - 1) k" "side_ok S j (unat (mb_size mb) - unat (mb_entry mb)) k"
    "mb_entry mb = 0 \<Longrightarrow> t \<notin> R \<and> t \<notin> S" "c = Blocked \<Longrightarrow> stat (tcb k t) = RT_THREAD_READY"
  shows "mb_sides mb' k' (if c = Blocked then insert t R else R) S"
  using assms(1,2)
proof (cases rule: recv_begin_cases)
  case (empty e)
  have "side_ok R i 0 k" using side_less[OF assms(9)] by simp
  then show ?thesis using empty assms(3-8,10,11) side_set_error by (simp add: mb_sides_def)
next
  case wait
  have t: "t \<notin> R" "t \<notin> S" "stat (tcb k t) = RT_THREAD_READY" using wait(1,2) assms(11,12) by simp_all
  have "side_ok S j (unat (mb_size mb) - unat (mb_entry mb)) (set_error RT_EOK t k)" by (rule side_set_error[OF assms(10) t(2)])
  moreover have "env_step S {SuspendList j} (set_error RT_EOK t k) k'"
    using wait(4) assms(2,4,6,7) t by (intro env_step.wait[of _ t]) simp_all
  ultimately have s: "side_ok S j (unat (mb_size mb) - unat (mb_entry mb)) k'" using side_env by blast
  have "side_ok (insert t R) i 0 k'" using side_wait[OF assms(9,2) t(1,3) assms(4)] wait(4) assms(7) by simp
  then show ?thesis using s wait(1-3) assms(3-8) t(2) by (simp add: mb_sides_def)
next
  case (get x)
  obtain mb1 where p: "mb_get mb = Some (hd (mb_items mb), mb1)" "mb_wf mb1" "mb_size mb1 = mb_size mb" "suspend_thread mb1 = suspend_thread mb"
    "suspend_sender_thread mb1 = suspend_sender_thread mb" "ipc_flag mb1 = ipc_flag mb" "unat (mb_entry mb1) = unat (mb_entry mb) - 1"
    using mb_get_ok[OF assms(3) get(1)] by blast
  then have mb': "mb' = mb1" using get(3) by simp
  have k': "k' = (if rt_lists k (SuspendList j) \<noteq> [] then rt_ipc_list_resume (SuspendList j) k else k)"
    using get(4) p(5) assms(8) by (simp add: mb')
  have n: "unat (mb_size mb) - unat (mb_entry mb1) = unat (mb_size mb) - unat (mb_entry mb) + 1"
  proof -
    have "0 < unat (mb_entry mb)" "unat (mb_entry mb) \<le> unat (mb_size mb)" using get(1) assms(3) by (simp_all add: mb_wf_def unat_gt_0)
    then show ?thesis unfolding p(7) by linarith
  qed
  have "side_ok S j (unat (mb_size mb) - unat (mb_entry mb1)) k'" unfolding n k' by (rule side_wake[OF assms(10)])
  moreover have "side_ok R i (unat (mb_entry mb) - 1) k'"
    using side_env[OF env_step.wake[of j "{SuspendList i}" k R] assms(9)] assms(6,9) by (simp add: k')
  ultimately show ?thesis using get(2) p assms(4-8) by (simp add: mb_sides_def mb')
qed

lemma mb_step_inv:
  assumes "mb_step r r'" "mb_inv r"
  shows "mb_inv r'"
proof -
  let ?mb = "the_mb r" and ?k = "mb_kernel r" and ?R = "mb_receivers r" and ?S = "mb_senders r"
  obtain i j where ij: "i \<noteq> j" "suspend_thread ?mb = SuspendList i" "suspend_sender_thread ?mb = SuspendList j"
    and R: "side_ok ?R i (unat (mb_entry ?mb)) ?k" and S: "side_ok ?S j (unat (mb_size ?mb) - unat (mb_entry ?mb)) ?k"
    and wf: "mb_wf ?mb" "flag_ok (ipc_flag ?mb)" and dis: "?R \<inter> ?S = {}"
    using assms(2) by (auto simp: mb_inv_def mb_sides_def)
  have R1: "side_ok ?R i (unat (mb_entry ?mb) - 1) ?k" and S1: "side_ok ?S j (unat (mb_size ?mb) - unat (mb_entry ?mb) - 1) ?k"
    using side_less[OF R] side_less[OF S] by simp_all
  note send = send_begin_sides[OF _ _ wf _ ij R] and recv = recv_begin_sides[OF _ _ wf _ ij _ S]
  show ?thesis
    using assms(1)
  proof cases
    case (send_now t v time e b start mb k)
    have "mb_sides mb k ?R ?S" using send[OF send_now(4,2) dis S1] send_now(3) by (auto simp: mb_inside_def)
    then show ?thesis by (simp add: send_now(1) mb_inv_def)
  next
    case (send_wait t v time b start mb k)
    have "mb_sides mb k ?R (insert t ?S)" using send[OF send_wait(5,2) dis S1] send_wait(3,4) by (auto simp: mb_inside_def)
    then show ?thesis by (simp add: send_wait(1) mb_inv_def)
  next
    case (send_again t v time c b start mb k)
    have "side_ok (?S - {t}) j (unat (mb_size ?mb) - unat (mb_entry ?mb) - 1) ?k" using side_return[OF S send_again(3,4)] send_again(5) by simp
    moreover have "t \<notin> ?R" "?R \<inter> (?S - {t}) = {}" using dis send_again(3) by blast+
    ultimately have "mb_sides mb k ?R (if c = Blocked then insert t (?S - {t}) else ?S - {t})"
      using send[OF send_again(6,2), of "?S - {t}"] send_again(4) by simp
    then show ?thesis using send_again(3) by (auto simp: send_again(1) mb_inv_def insert_absorb split: if_splits)
  next
    case (send_fails t)
    have "side_ok (?S - {t}) j (unat (mb_size ?mb) - unat (mb_entry ?mb)) ?k" using side_return[OF S send_fails(3,4)] send_fails(5) by simp
    then show ?thesis using ij R wf dis by (auto simp: send_fails(1) mb_inv_def mb_sides_def)
  next
    case (recv_now t time e v b start mb k)
    have "mb_sides mb k ?R ?S" using recv[OF recv_now(4,2) dis R1] recv_now(3) by (auto simp: mb_inside_def)
    then show ?thesis by (simp add: recv_now(1) mb_inv_def)
  next
    case (recv_wait t time v b start mb k)
    have "mb_sides mb k (insert t ?R) ?S" using recv[OF recv_wait(5,2) dis R1] recv_wait(3,4) by (auto simp: mb_inside_def)
    then show ?thesis by (simp add: recv_wait(1) mb_inv_def)
  next
    case (recv_again t time c v b start mb k)
    have "side_ok (?R - {t}) i (unat (mb_entry ?mb) - 1) ?k" using side_return[OF R recv_again(3,4)] recv_again(5) by simp
    moreover have "t \<notin> ?S" "(?R - {t}) \<inter> ?S = {}" using dis recv_again(3) by blast+
    ultimately have "mb_sides mb k (if c = Blocked then insert t (?R - {t}) else ?R - {t}) ?S"
      using recv[OF recv_again(6,2), of "?R - {t}"] recv_again(4) by simp
    then show ?thesis using recv_again(3) by (auto simp: recv_again(1) mb_inv_def insert_absorb split: if_splits)
  next
    case (recv_fails t)
    have "side_ok (?R - {t}) i (unat (mb_entry ?mb)) ?k" using side_return[OF R recv_fails(3,4)] recv_fails(5) by simp
    then show ?thesis using ij S wf dis by (auto simp: recv_fails(1) mb_inv_def mb_sides_def)
  next
    case (environment k)
    have "side_ok ?R i (unat (mb_entry ?mb)) k" "side_ok ?S j (unat (mb_size ?mb) - unat (mb_entry ?mb)) k"
      using side_env[OF environment(2) R] side_env[OF environment(2) S] ij by (simp_all add: mb_inside_def)
    then show ?thesis using ij wf dis by (auto simp: environment(1) mb_inv_def mb_sides_def)
  qed
qed

text \<open>The start of a run: no thread waits.\<close>

definition mb_start :: "mb_run \<Rightarrow> bool" where
  "mb_start r \<longleftrightarrow> smp_ok (mb_kernel r) \<and> mb_idle (the_mb r, mb_kernel r) \<and> flag_ok (ipc_flag (the_mb r)) \<and>
     mb_receivers r = {} \<and> mb_senders r = {} \<and>
     (\<exists>i j. i \<noteq> j \<and> suspend_thread (the_mb r) = SuspendList i \<and> suspend_sender_thread (the_mb r) = SuspendList j)"

text \<open>
  C30: in every run of a mailbox, whatever the other threads do, the ring is well formed; while a thread waits
  for a message at least as many woken receivers are on their way as there are messages, and while a thread
  waits for room at least as many woken senders as there are free places.
\<close>

theorem mailbox_no_lost_wakeup:
  assumes "mb_start r" "mb_step\<^sup>*\<^sup>* r r'"
  shows "mb_wf (the_mb r') \<and>
    (rt_lists (mb_kernel r') (suspend_thread (the_mb r')) \<noteq> [] \<longrightarrow>
       unat (mb_entry (the_mb r')) \<le> card (woken_by_object (mb_receivers r') (mb_kernel r'))) \<and>
    (rt_lists (mb_kernel r') (suspend_sender_thread (the_mb r')) \<noteq> [] \<longrightarrow>
       unat (mb_size (the_mb r')) - unat (mb_entry (the_mb r')) \<le> card (woken_by_object (mb_senders r') (mb_kernel r')))"
proof -
  have "mb_inv r"
    using assms(1) by (auto simp: mb_start_def mb_idle_def mb_inv_def mb_sides_def side_ok_def waiters_ok_def)
  with assms(2) have "mb_inv r'" by (induction rule: rtranclp_induct) (use mb_step_inv in auto)
  then show ?thesis by (auto simp: mb_inv_def mb_sides_def side_ok_def)
qed

end
