(* ===== verification/RtQueueSpec.thy ===== *)
theory RtQueueSpec
  imports RtMailbox
begin

text \<open>
  Message queues: however the steps of the senders and receivers are interleaved, the slots of the pool
  are divided among the queue, the list of free slots and the calls under way, and the queue holds the
  messages in the order in which they were linked.
\<close>

section \<open>Runs of a message queue\<close>

text \<open>
  \<open>mq_filling\<close> are the slots a send has taken, \<open>mq_filled\<close> those that it has filled and with what (and whether the message is urgent),
  \<open>mq_reading\<close> the slots a receive has unlinked. \<open>queued\<close> is what the queue ought to hold, and \<open>delivered\<close>
  the messages in the order in which they were unlinked. A send fills its slot and a receive copies and
  gives back its slot while interrupts are enabled, so other calls may come between; the calls that wait
  and the wakeups do not touch the slots and are not steps of their own.
\<close>

record mq_run =
  the_mq :: rt_messagequeue
  mq_filling :: "nat set"
  mq_filled :: "nat \<rightharpoonup> bool \<times> byte list"
  mq_reading :: "nat \<rightharpoonup> byte list"
  queued :: "byte list list"

inductive mq_step :: "mq_run \<Rightarrow> mq_run \<Rightarrow> bool" where
  take_slot: "mq_take_slot (the_mq r) = Some (i, m) \<Longrightarrow>
    mq_step r (r\<lparr>the_mq := m, mq_filling := insert i (mq_filling r)\<rparr>)"
| fill: "i \<in> mq_filling r \<Longrightarrow> length buf \<le> unat (msg_size (the_mq r)) \<Longrightarrow>
    mq_step r (r\<lparr>the_mq := mq_copy_in i buf (mq_set_next i None (the_mq r)), mq_filling := mq_filling r - {i},
      mq_filled := (mq_filled r)(i \<mapsto> (False, buf))\<rparr>)"
| fill_urgent: "i \<in> mq_filling r \<Longrightarrow> length buf \<le> unat (msg_size (the_mq r)) \<Longrightarrow>
    mq_step r (r\<lparr>the_mq := mq_copy_in i buf (the_mq r), mq_filling := mq_filling r - {i},
      mq_filled := (mq_filled r)(i \<mapsto> (True, buf))\<rparr>)"
| link: "mq_filled r i = Some (False, buf) \<Longrightarrow>
    mq_step r (r\<lparr>the_mq := mq_link_tail i (the_mq r), mq_filled := (mq_filled r)(i := None), queued := queued r @ [buf]\<rparr>)"
| link_urgent: "mq_filled r i = Some (True, buf) \<Longrightarrow>
    mq_step r (r\<lparr>the_mq := mq_link_head i (the_mq r), mq_filled := (mq_filled r)(i := None), queued := buf # queued r\<rparr>)"
| unlink: "mq_entry (the_mq r) \<noteq> 0 \<Longrightarrow> mq_unlink (the_mq r) = Some (i, m) \<Longrightarrow>
    mq_step r (r\<lparr>the_mq := m, mq_reading := (mq_reading r)(i \<mapsto> hd (queued r)), queued := tl (queued r)\<rparr>)"
| give_back: "mq_reading r i = Some buf \<Longrightarrow>
    mq_step r (r\<lparr>the_mq := mq_put_free i (the_mq r), mq_reading := (mq_reading r)(i := None)\<rparr>)"

text \<open>A slot holds a message when it begins with it; the length of a message is not kept.\<close>

definition holds :: "rt_messagequeue \<Rightarrow> nat \<Rightarrow> byte list \<Rightarrow> bool" where
  "holds m i buf \<longleftrightarrow> length buf \<le> unat (msg_size m) \<and> length (mq_data m i) = unat (msg_size m) \<and>
     take (length buf) (mq_data m i) = buf"

definition mq_slots_ok :: "mq_run \<Rightarrow> nat list \<Rightarrow> nat list \<Rightarrow> bool" where
  "mq_slots_ok r qs fs \<longleftrightarrow> (let m = the_mq r in
     linked (mq_next m) (msg_queue_head m) qs \<and> linked (mq_next m) (msg_queue_free m) fs \<and> distinct (qs @ fs) \<and>
     msg_queue_tail m = (if qs = [] then None else Some (last qs)) \<and>
     set qs \<union> set fs \<union> mq_filling r \<union> dom (mq_filled r) \<union> dom (mq_reading r) = {0..<unat (max_msgs m)} \<and>
     (set qs \<union> set fs) \<inter> (mq_filling r \<union> dom (mq_filled r) \<union> dom (mq_reading r)) = {} \<and>
     mq_filling r \<inter> (dom (mq_filled r) \<union> dom (mq_reading r)) = {} \<and> dom (mq_filled r) \<inter> dom (mq_reading r) = {} \<and>
     unat (mq_entry m) = length qs)"

definition mq_data_ok :: "mq_run \<Rightarrow> nat list \<Rightarrow> bool" where
  "mq_data_ok r qs \<longleftrightarrow> (let m = the_mq r in
     list_all2 (holds m) qs (queued r) \<and> (\<forall>i. length (mq_data m i) = unat (msg_size m)) \<and>
     (\<forall>i u buf. mq_filled r i = Some (u, buf) \<longrightarrow> holds m i buf \<and> (\<not> u \<longrightarrow> mq_next m i = None)) \<and>
     (\<forall>i buf. mq_reading r i = Some buf \<longrightarrow> holds m i buf))"

definition mq_inv :: "mq_run \<Rightarrow> bool" where
  "mq_inv r \<longleftrightarrow> (\<exists>qs fs. mq_slots_ok r qs fs \<and> mq_data_ok r qs)"

lemma mq_slots_okD:
  assumes "mq_slots_ok r qs fs"
  shows "linked (mq_next (the_mq r)) (msg_queue_head (the_mq r)) qs" "linked (mq_next (the_mq r)) (msg_queue_free (the_mq r)) fs"
    "distinct (qs @ fs)" "msg_queue_tail (the_mq r) = (if qs = [] then None else Some (last qs))"
    "set qs \<union> set fs \<union> mq_filling r \<union> dom (mq_filled r) \<union> dom (mq_reading r) = {0..<unat (max_msgs (the_mq r))}"
    "(set qs \<union> set fs) \<inter> (mq_filling r \<union> dom (mq_filled r) \<union> dom (mq_reading r)) = {}"
    "mq_filling r \<inter> (dom (mq_filled r) \<union> dom (mq_reading r)) = {}" "dom (mq_filled r) \<inter> dom (mq_reading r) = {}"
    "unat (mq_entry (the_mq r)) = length qs"
  using assms by (simp_all add: mq_slots_ok_def Let_def)

lemma mq_data_okD:
  assumes "mq_data_ok r qs"
  shows "list_all2 (holds (the_mq r)) qs (queued r)" "length (mq_data (the_mq r) i) = unat (msg_size (the_mq r))"
    "mq_filled r i = Some (u, buf) \<Longrightarrow> holds (the_mq r) i buf \<and> (\<not> u \<longrightarrow> mq_next (the_mq r) i = None)"
    "mq_reading r i = Some buf \<Longrightarrow> holds (the_mq r) i buf"
  using assms unfolding mq_data_ok_def Let_def by blast+

lemma mq_data_okI:
  assumes "list_all2 (holds (the_mq r)) qs (queued r)" "\<And>i. length (mq_data (the_mq r) i) = unat (msg_size (the_mq r))"
    "\<And>i u buf. mq_filled r i = Some (u, buf) \<Longrightarrow> holds (the_mq r) i buf \<and> (\<not> u \<longrightarrow> mq_next (the_mq r) i = None)"
    "\<And>i buf. mq_reading r i = Some buf \<Longrightarrow> holds (the_mq r) i buf"
  shows "mq_data_ok r qs"
  using assms unfolding mq_data_ok_def Let_def by blast

lemma holds_cong: "mq_data m' i = mq_data m i \<Longrightarrow> msg_size m' = msg_size m \<Longrightarrow> holds m' i = holds m i"
  by (simp add: holds_def fun_eq_iff)

lemma holds_same: "mq_data m' = mq_data m \<Longrightarrow> msg_size m' = msg_size m \<Longrightarrow> holds m' = holds m"
  by (intro ext) (simp add: holds_def)

lemma holds_list_cong:
  assumes "list_all2 (holds m) qs bs" "\<And>i. i \<in> set qs \<Longrightarrow> holds m' i = holds m i"
  shows "list_all2 (holds m') qs bs"
  by (rule list.rel_mono_strong[OF assms(1)]) (simp add: assms(2))

text \<open>The queue is shorter than the pool, so the count of its messages does not wrap.\<close>

lemma mq_entry_less:
  assumes "mq_slots_ok r qs fs" "i \<in> dom (mq_filled r)"
  shows "unat (mq_entry (the_mq r) + 1) = length qs + 1"
proof -
  note s = mq_slots_okD[OF assms(1)]
  have "i \<notin> set qs" using s(6) assms(2) by blast
  moreover have "insert i (set qs) \<subseteq> {0..<unat (max_msgs (the_mq r))}" unfolding s(5)[symmetric] using assms(2) by blast
  ultimately have "card (set qs) < unat (max_msgs (the_mq r))"
    using card_mono[of "{0..<unat (max_msgs (the_mq r))}" "insert i (set qs)"] by simp
  moreover have "card (set qs) = length qs" using s(3) distinct_card by auto
  ultimately have "unat (mq_entry (the_mq r)) < 65535" using s(9) unat_word16_less[of "max_msgs (the_mq r)"] by linarith
  then show ?thesis using s(9) by (simp add: unat_word_ariths(1))
qed

lemma take_slot_inv:
  assumes "mq_slots_ok r qs fs" "mq_data_ok r qs" "mq_take_slot (the_mq r) = Some (i, m)"
  shows "mq_inv (r\<lparr>the_mq := m, mq_filling := insert i (mq_filling r)\<rparr>)"
proof -
  note s = mq_slots_okD[OF assms(1)]
  obtain fs' where fs: "fs = i # fs'" and m: "m = the_mq r\<lparr>msg_queue_free := mq_next (the_mq r) i\<rparr>"
    using assms(3) s(2) by (auto simp: mq_take_slot_def linked_Some split: option.splits)
  have "mq_slots_ok (r\<lparr>the_mq := m, mq_filling := insert i (mq_filling r)\<rparr>) qs fs'"
    using s by (auto simp: mq_slots_ok_def Let_def m fs)
  moreover have "mq_data_ok (r\<lparr>the_mq := m, mq_filling := insert i (mq_filling r)\<rparr>) qs"
    using mq_data_okD[OF assms(2)] holds_same[of m "the_mq r"] by (intro mq_data_okI) (simp_all add: m)
  ultimately show ?thesis by (auto simp: mq_inv_def)
qed

lemma fill_inv:
  assumes "mq_slots_ok r qs fs" "mq_data_ok r qs" "i \<in> mq_filling r" "length buf \<le> unat (msg_size (the_mq r))"
    "m = the_mq r \<or> m = mq_set_next i None (the_mq r)" "\<not> u \<Longrightarrow> mq_next m i = None"
  shows "mq_inv (r\<lparr>the_mq := mq_copy_in i buf m, mq_filling := mq_filling r - {i}, mq_filled := (mq_filled r)(i \<mapsto> (u, buf))\<rparr>)"
    (is "mq_inv ?r")
proof -
  note s = mq_slots_okD[OF assms(1)] and d = mq_data_okD[OF assms(2)]
  have i: "i \<notin> set qs" "i \<notin> set fs" "mq_filled r i = None" "mq_reading r i = None" using s(6,7) assms(3) by auto
  have m: "mq_data m = mq_data (the_mq r)" "msg_size m = msg_size (the_mq r)" "max_msgs m = max_msgs (the_mq r)"
    "mq_entry m = mq_entry (the_mq r)" "msg_queue_head m = msg_queue_head (the_mq r)" "msg_queue_free m = msg_queue_free (the_mq r)"
    "msg_queue_tail m = msg_queue_tail (the_mq r)" "mq_next m = mq_next (the_mq r) \<or> mq_next m = (mq_next (the_mq r))(i := None)"
    using assms(5) by (auto simp: mq_set_next_def)
  have "mq_slots_ok ?r qs fs"
    using s(3-9) m(3-7) assms(3) s(1,2) m(8) linked_upd[OF i(1)] linked_upd[OF i(2)]
    by (auto simp: mq_slots_ok_def Let_def mq_copy_in_def)
  moreover have "mq_data_ok ?r qs"
  proof (rule mq_data_okI)
    have j: "holds (the_mq ?r) j = holds (the_mq r) j" if "j \<noteq> i" for j
      using that by (intro holds_cong) (simp_all add: mq_copy_in_def m)
    show "list_all2 (holds (the_mq ?r)) qs (queued ?r)"
      using holds_list_cong[OF d(1), of "the_mq ?r"] j i(1) by fastforce
    show "length (mq_data (the_mq ?r) j) = unat (msg_size (the_mq ?r))" for j
      using assms(4) d(2) by (simp add: mq_copy_in_def m)
    show "holds (the_mq ?r) j b \<and> (\<not> v \<longrightarrow> mq_next (the_mq ?r) j = None)" if "mq_filled ?r j = Some (v, b)" for j v b
    proof (cases "j = i")
      case True
      then show ?thesis using that assms(4,6) d(2) by (simp add: holds_def mq_copy_in_def m)
    next
      case False
      then show ?thesis using that d(3) m(8) j by (auto simp: mq_copy_in_def)
    qed
    show "holds (the_mq ?r) j b" if "mq_reading ?r j = Some b" for j b
      using that i(4) d(4) j by (cases "j = i") simp_all
  qed
  ultimately show ?thesis by (auto simp: mq_inv_def)
qed

lemma link_inv:
  assumes "mq_slots_ok r qs fs" "mq_data_ok r qs" "mq_filled r i = Some (False, buf)"
  shows "mq_inv (r\<lparr>the_mq := mq_link_tail i (the_mq r), mq_filled := (mq_filled r)(i := None), queued := queued r @ [buf]\<rparr>)"
    (is "mq_inv ?r")
proof -
  note s = mq_slots_okD[OF assms(1)] and d = mq_data_okD[OF assms(2)]
  have i: "i \<in> dom (mq_filled r)" "i \<notin> set qs" "i \<notin> set fs" "i \<notin> mq_filling r" "mq_reading r i = None"
    "mq_next (the_mq r) i = None" "holds (the_mq r) i buf"
    using s(6,7,8) assms(3) d(3)[OF assms(3)] by auto
  have m: "mq_data (the_mq ?r) = mq_data (the_mq r)" "msg_size (the_mq ?r) = msg_size (the_mq r)" "max_msgs (the_mq ?r) = max_msgs (the_mq r)"
    "mq_entry (the_mq ?r) = mq_entry (the_mq r) + 1" "msg_queue_free (the_mq ?r) = msg_queue_free (the_mq r)"
    "msg_queue_tail (the_mq ?r) = Some i"
    "mq_next (the_mq ?r) = (if qs = [] then mq_next (the_mq r) else (mq_next (the_mq r))(last qs := Some i))"
    "msg_queue_head (the_mq ?r) = (if qs = [] then Some i else msg_queue_head (the_mq r))"
    using s(1,4) by (auto simp: mq_link_tail_def mq_set_next_def Let_def linked_None split: option.splits)
  have q: "linked (mq_next (the_mq ?r)) (msg_queue_head (the_mq ?r)) (qs @ [i])"
  proof (cases "qs = []")
    case False
    then show ?thesis unfolding m(7,8) using linked_append[OF s(1) False i(2) _ i(6)] s(3) by simp
  qed (use i(6) m(7,8) in simp)
  have "last qs \<notin> set fs" if "qs \<noteq> []" using s(3) last_in_set[OF that] by auto
  then have f: "linked (mq_next (the_mq ?r)) (msg_queue_free (the_mq ?r)) fs" unfolding m(5,7) using s(2) by (simp add: linked_upd)
  have "set (qs @ [i]) \<union> set fs \<union> mq_filling ?r \<union> dom (mq_filled ?r) \<union> dom (mq_reading ?r) = {0..<unat (max_msgs (the_mq ?r))}"
    unfolding m(3) s(5)[symmetric] using i(1) by auto
  then have "mq_slots_ok ?r (qs @ [i]) fs"
    using q f s(3,6-8) i mq_entry_less[OF assms(1) i(1)] unfolding mq_slots_ok_def Let_def m(4,6) by auto
  moreover have "mq_data_ok ?r (qs @ [i])"
  proof (rule mq_data_okI)
    note h = holds_same[OF m(1,2)]
    show "list_all2 (holds (the_mq ?r)) (qs @ [i]) (queued ?r)" unfolding h using d(1) i(7) by (simp add: list_all2_appendI)
    show "length (mq_data (the_mq ?r) j) = unat (msg_size (the_mq ?r))" for j unfolding m by (rule d(2))
    show "holds (the_mq ?r) j b" if "mq_reading ?r j = Some b" for j b unfolding h using that by (simp add: d(4))
    show "holds (the_mq ?r) j b \<and> (\<not> v \<longrightarrow> mq_next (the_mq ?r) j = None)" if "mq_filled ?r j = Some (v, b)" for j v b
    proof -
      have f: "mq_filled r j = Some (v, b)" using that by (simp split: if_splits)
      then have "j \<noteq> last qs" if "qs \<noteq> []" using s(6) last_in_set[OF that] by auto
      then show ?thesis unfolding h m(7) using d(3)[OF f] by auto
    qed
  qed
  ultimately show ?thesis by (auto simp: mq_inv_def)
qed

lemma link_urgent_inv:
  assumes "mq_slots_ok r qs fs" "mq_data_ok r qs" "mq_filled r i = Some (True, buf)"
  shows "mq_inv (r\<lparr>the_mq := mq_link_head i (the_mq r), mq_filled := (mq_filled r)(i := None), queued := buf # queued r\<rparr>)"
    (is "mq_inv ?r")
proof -
  note s = mq_slots_okD[OF assms(1)] and d = mq_data_okD[OF assms(2)]
  have i: "i \<in> dom (mq_filled r)" "i \<notin> set qs" "i \<notin> set fs" "i \<notin> mq_filling r" "mq_reading r i = None" "holds (the_mq r) i buf"
    using s(6,7,8) assms(3) d(3)[OF assms(3)] by auto
  have m: "mq_data (the_mq ?r) = mq_data (the_mq r)" "msg_size (the_mq ?r) = msg_size (the_mq r)" "max_msgs (the_mq ?r) = max_msgs (the_mq r)"
    "mq_entry (the_mq ?r) = mq_entry (the_mq r) + 1" "msg_queue_free (the_mq ?r) = msg_queue_free (the_mq r)"
    "msg_queue_tail (the_mq ?r) = Some (last (i # qs))" "msg_queue_head (the_mq ?r) = Some i"
    "mq_next (the_mq ?r) = (mq_next (the_mq r))(i := msg_queue_head (the_mq r))"
    using s(4) by (simp_all add: mq_link_head_def mq_set_next_def Let_def)
  have "linked (mq_next (the_mq ?r)) (msg_queue_head (the_mq ?r)) (i # qs)" "linked (mq_next (the_mq ?r)) (msg_queue_free (the_mq ?r)) fs"
    unfolding m using s(1,2) i(2,3) by (simp_all add: linked_upd)
  moreover have "set (i # qs) \<union> set fs \<union> mq_filling ?r \<union> dom (mq_filled ?r) \<union> dom (mq_reading ?r) = {0..<unat (max_msgs (the_mq ?r))}"
    unfolding m(3) s(5)[symmetric] using i(1) by auto
  ultimately have "mq_slots_ok ?r (i # qs) fs"
    using s(3,6-8) i mq_entry_less[OF assms(1) i(1)] unfolding mq_slots_ok_def Let_def m(4,6) by auto
  moreover have "mq_data_ok ?r (i # qs)"
  proof (rule mq_data_okI)
    note h = holds_same[OF m(1,2)]
    show "list_all2 (holds (the_mq ?r)) (i # qs) (queued ?r)" unfolding h using d(1) i(6) by simp
    show "length (mq_data (the_mq ?r) j) = unat (msg_size (the_mq ?r))" for j unfolding m by (rule d(2))
    show "holds (the_mq ?r) j b" if "mq_reading ?r j = Some b" for j b unfolding h using that by (simp add: d(4))
    show "holds (the_mq ?r) j b \<and> (\<not> v \<longrightarrow> mq_next (the_mq ?r) j = None)" if "mq_filled ?r j = Some (v, b)" for j v b
      unfolding h m(8) using that d(3) by (auto split: if_splits)
  qed
  ultimately show ?thesis by (auto simp: mq_inv_def)
qed

lemma unlink_inv:
  assumes "mq_slots_ok r qs fs" "mq_data_ok r qs" "mq_entry (the_mq r) \<noteq> 0" "mq_unlink (the_mq r) = Some (i, m)"
  shows "mq_inv (r\<lparr>the_mq := m, mq_reading := (mq_reading r)(i \<mapsto> hd (queued r)), queued := tl (queued r)\<rparr>)"
    (is "mq_inv ?r")
proof -
  note s = mq_slots_okD[OF assms(1)] and d = mq_data_okD[OF assms(2)]
  obtain qs' where qs: "qs = i # qs'" and n: "linked (mq_next (the_mq r)) (mq_next (the_mq r) i) qs'"
    and m: "m = the_mq r\<lparr>msg_queue_head := mq_next (the_mq r) i, msg_queue_tail := (if msg_queue_tail (the_mq r) = Some i then None
      else msg_queue_tail (the_mq r)), mq_entry := mq_entry (the_mq r) - 1\<rparr>"
    using assms(4) s(1) by (auto simp: mq_unlink_def linked_Some split: Option.bind_splits)
  obtain b bs where b: "queued r = b # bs" "holds (the_mq r) i b" "list_all2 (holds (the_mq r)) qs' bs"
    using d(1) by (auto simp: qs list_all2_Cons1)
  have i: "i \<notin> mq_filling r" "i \<notin> dom (mq_filled r)" "i \<notin> set qs'" "i \<notin> set fs" using s(3,6) by (auto simp: qs)
  have "unat (mq_entry m) = length qs'" using s(9) assms(3) by (simp add: m qs unat_minus_one)
  moreover have "msg_queue_tail m = (if qs' = [] then None else Some (last qs'))"
    using s(4) i(3) by (cases "qs' = []") (auto simp: m qs)
  ultimately have "mq_slots_ok ?r qs' fs"
    using s(2,3,5-8) n i unfolding mq_slots_ok_def Let_def by (auto simp: m qs)
  moreover have "mq_data_ok ?r qs'"
  proof (rule mq_data_okI)
    have h: "holds (the_mq ?r) = holds (the_mq r)" by (rule holds_same) (simp_all add: m)
    show "list_all2 (holds (the_mq ?r)) qs' (queued ?r)" unfolding h using b by simp
    show "length (mq_data (the_mq ?r) j) = unat (msg_size (the_mq ?r))" for j using d(2) by (simp add: m)
    show "holds (the_mq ?r) j c" if "mq_reading ?r j = Some c" for j c
      unfolding h using that b(1,2) d(4) by (cases "j = i") simp_all
    show "holds (the_mq ?r) j c \<and> (\<not> v \<longrightarrow> mq_next (the_mq ?r) j = None)" if "mq_filled ?r j = Some (v, c)" for j v c
      unfolding h using that d(3) by (simp add: m)
  qed
  ultimately show ?thesis by (auto simp: mq_inv_def)
qed

lemma give_back_inv:
  assumes "mq_slots_ok r qs fs" "mq_data_ok r qs" "mq_reading r i = Some buf"
  shows "mq_inv (r\<lparr>the_mq := mq_put_free i (the_mq r), mq_reading := (mq_reading r)(i := None)\<rparr>)" (is "mq_inv ?r")
proof -
  note s = mq_slots_okD[OF assms(1)] and d = mq_data_okD[OF assms(2)]
  have i: "i \<notin> set qs" "i \<notin> set fs" "i \<notin> mq_filling r" "i \<notin> dom (mq_filled r)" "i \<in> dom (mq_reading r)"
    using s(6,7,8) assms(3) by auto
  have m: "mq_data (the_mq ?r) = mq_data (the_mq r)" "msg_size (the_mq ?r) = msg_size (the_mq r)" "max_msgs (the_mq ?r) = max_msgs (the_mq r)"
    "mq_entry (the_mq ?r) = mq_entry (the_mq r)" "msg_queue_free (the_mq ?r) = Some i" "msg_queue_tail (the_mq ?r) = msg_queue_tail (the_mq r)"
    "msg_queue_head (the_mq ?r) = msg_queue_head (the_mq r)" "mq_next (the_mq ?r) = (mq_next (the_mq r))(i := msg_queue_free (the_mq r))"
    by (simp_all add: mq_put_free_def)
  have "linked (mq_next (the_mq ?r)) (msg_queue_head (the_mq ?r)) qs" "linked (mq_next (the_mq ?r)) (msg_queue_free (the_mq ?r)) (i # fs)"
    unfolding m using s(1,2) i(1,2) by (simp_all add: linked_upd)
  moreover have "set qs \<union> set (i # fs) \<union> mq_filling ?r \<union> dom (mq_filled ?r) \<union> dom (mq_reading ?r) = {0..<unat (max_msgs (the_mq ?r))}"
    unfolding m(3) s(5)[symmetric] using i(5) by auto
  ultimately have "mq_slots_ok ?r qs (i # fs)"
    using s(3,4,6-9) i unfolding mq_slots_ok_def Let_def m(4,6) by auto
  moreover have "mq_data_ok ?r qs"
  proof (rule mq_data_okI)
    note h = holds_same[OF m(1,2)]
    show "list_all2 (holds (the_mq ?r)) qs (queued ?r)" unfolding h using d(1) by simp
    show "length (mq_data (the_mq ?r) j) = unat (msg_size (the_mq ?r))" for j unfolding m by (rule d(2))
    show "holds (the_mq ?r) j b" if "mq_reading ?r j = Some b" for j b unfolding h using that d(4) by (simp split: if_splits)
    show "holds (the_mq ?r) j b \<and> (\<not> v \<longrightarrow> mq_next (the_mq ?r) j = None)" if "mq_filled ?r j = Some (v, b)" for j v b
      unfolding h m(8) using that d(3) i(4) by (cases "j = i") auto
  qed
  ultimately show ?thesis by (auto simp: mq_inv_def)
qed

lemma mq_step_inv:
  assumes "mq_step r r'" "mq_inv r"
  shows "mq_inv r'"
proof -
  obtain qs fs where i: "mq_slots_ok r qs fs" "mq_data_ok r qs" using assms(2) by (auto simp: mq_inv_def)
  show ?thesis
    using assms(1)
  proof cases
    case (fill i buf)
    show ?thesis unfolding fill(1) by (rule fill_inv[OF i fill(2,3)]) (simp_all add: mq_set_next_def)
  next
    case (fill_urgent i buf)
    show ?thesis unfolding fill_urgent(1) by (rule fill_inv[OF i fill_urgent(2,3)]) simp_all
  qed (simp_all add: take_slot_inv[OF i] link_inv[OF i] link_urgent_inv[OF i] unlink_inv[OF i] give_back_inv[OF i])
qed

section \<open>The pool\<close>

lemma put_free_fields:
  "mq_next (mq_put_free i m) = (mq_next m)(i := msg_queue_free m)" "msg_queue_free (mq_put_free i m) = Some i"
  "mq_data (mq_put_free i m) = mq_data m" "msg_size (mq_put_free i m) = msg_size m" "max_msgs (mq_put_free i m) = max_msgs m"
  "mq_entry (mq_put_free i m) = mq_entry m" "msg_queue_head (mq_put_free i m) = msg_queue_head m"
  "msg_queue_tail (mq_put_free i m) = msg_queue_tail m"
  by (simp_all add: mq_put_free_def)

lemma fresh_slots:
  "linked (mq_next (fold mq_put_free [0..<n] m)) (msg_queue_free (fold mq_put_free [0..<n] m)) (rev [0..<n]) \<and>
   mq_data (fold mq_put_free [0..<n] m) = mq_data m \<and> msg_size (fold mq_put_free [0..<n] m) = msg_size m \<and>
   max_msgs (fold mq_put_free [0..<n] m) = max_msgs m \<and> mq_entry (fold mq_put_free [0..<n] m) = mq_entry m \<and>
   msg_queue_head (fold mq_put_free [0..<n] m) = msg_queue_head m \<and> msg_queue_tail (fold mq_put_free [0..<n] m) = msg_queue_tail m"
  if "msg_queue_free m = None"
proof (induction n)
  case (Suc n)
  have e: "fold mq_put_free [0..<Suc n] m = mq_put_free n (fold mq_put_free [0..<n] m)" by simp
  have n: "n \<notin> set (rev [0..<n])" "rev [0..<Suc n] = n # rev [0..<n]" by simp_all
  show ?case unfolding e put_free_fields n(2) linked.simps fun_upd_same linked_upd[OF n(1)] using Suc by simp
qed (simp add: that)

definition mq_start :: "mq_run \<Rightarrow> bool" where
  "mq_start r \<longleftrightarrow> (\<exists>l pool sz msgs flag. the_mq r = fresh_mq l pool sz msgs flag \<and> (\<forall>i. length (pool i) = unat sz)) \<and>
     mq_filling r = {} \<and> mq_filled r = Map.empty \<and> mq_reading r = Map.empty \<and> queued r = []"

lemma mq_start_inv:
  assumes "mq_start r"
  shows "mq_inv r"
proof -
  obtain l pool sz msgs flag where m: "the_mq r = fresh_mq l pool sz msgs flag" "\<forall>i. length (pool i) = unat sz"
    and e: "mq_filling r = {}" "mq_filled r = Map.empty" "mq_reading r = Map.empty" "queued r = []"
    using assms by (auto simp: mq_start_def)
  have "mq_slots_ok r [] (rev [0..<unat msgs])"
    unfolding mq_slots_ok_def m(1) fresh_mq_def Let_def using e by (simp add: fresh_slots atLeast0LessThan)
  moreover have "mq_data_ok r []"
    using e m by (intro mq_data_okI) (simp_all add: fresh_mq_def fresh_slots)
  ultimately show ?thesis by (auto simp: mq_inv_def)
qed

text \<open>
  C39: however the steps of any number of senders and receivers are interleaved, the queue and the list of free
  slots are chains that share no slot with each other or with a call under way, no slot is lost, the
  number of messages is that of the queue, and the queue holds what was linked, urgent messages first; a receive
  copies the message that was first in the queue.
\<close>

theorem message_queue_slots:
  assumes "mq_start r" "mq_step\<^sup>*\<^sup>* r r'"
  shows "\<exists>qs fs. linked (mq_next (the_mq r')) (msg_queue_head (the_mq r')) qs \<and>
    linked (mq_next (the_mq r')) (msg_queue_free (the_mq r')) fs \<and> distinct (qs @ fs) \<and>
    set qs \<union> set fs \<union> mq_filling r' \<union> dom (mq_filled r') \<union> dom (mq_reading r') = {0..<unat (max_msgs (the_mq r'))} \<and>
    unat (mq_entry (the_mq r')) = length (queued r') \<and> list_all2 (holds (the_mq r')) qs (queued r') \<and>
    (\<forall>i buf sz. mq_reading r' i = Some buf \<longrightarrow> length buf \<le> sz \<longrightarrow> take (length buf) (mq_copy_out i sz (the_mq r')) = buf)"
proof -
  have "mq_inv r'"
    using assms(2) by (induction rule: rtranclp_induct) (use mq_start_inv[OF assms(1)] mq_step_inv in auto)
  then obtain qs fs where i: "mq_slots_ok r' qs fs" "mq_data_ok r' qs" by (auto simp: mq_inv_def)
  note s = mq_slots_okD[OF i(1)] and d = mq_data_okD(1)[OF i(2)]
  have "take (length buf) (mq_copy_out i sz (the_mq r')) = buf" if "mq_reading r' i = Some buf" "length buf \<le> sz" for i buf sz
    using mq_data_okD(4)[OF i(2) that(1)] that(2) by (simp add: holds_def mq_copy_out_def min_absorb1)
  then show ?thesis using s(1,2,3,5,9) d list_all2_lengthD[OF d] by metis
qed

end
