(* ===== verification/RtMempool.thy ===== *)
theory RtMempool
  imports RtMailbox
begin

text \<open>
  Pools of blocks of one size (\<open>src/mempool.c\<close>). A block is named by its offset in the pool; the word in
  front of a block is the link of the list of free blocks, or the pool's address while the block is
  handed out. Hooks are left out.
\<close>

section \<open>State\<close>

datatype block_hdr = NextBlock "word32 option" | OwnerPool

record rt_mempool =
  mp_start :: word32
  mp_size :: word32
  block_size :: word32
  block_hdrs :: "word32 \<Rightarrow> block_hdr option"
  block_list :: "word32 option"
  block_total_count :: word32
  block_free_count :: word32
  mp_suspend :: rt_list
  suspend_thread_count :: word32

section \<open>Life of a pool\<close>

text \<open>
  The list of free blocks of a new pool: \<open>count\<close> headers, the last one set to null. \<open>n\<close> is the length of
  the memory behind the pool; a header outside it (also the one in front of the pool that is written when
  there is no block) is a fault. Offsets are computed with 32 bits.
\<close>

definition mp_write :: "nat \<Rightarrow> word32 \<Rightarrow> block_hdr \<Rightarrow> (word32 \<Rightarrow> block_hdr option) \<Rightarrow> (word32 \<Rightarrow> block_hdr option) option" where
  "mp_write n p x hs = (if unat p + 4 \<le> n then Some (hs(p \<mapsto> x)) else None)"

definition mp_build :: "nat \<Rightarrow> word32 \<Rightarrow> word32 \<Rightarrow> (word32 \<Rightarrow> block_hdr option) option" where
  "mp_build n sz count = do {
     hs \<leftarrow> fold_opt (\<lambda>i. mp_write n (of_nat i * (sz + 4)) (NextBlock (Some ((of_nat i + 1) * (sz + 4)))))
             [0..<unat count] (\<lambda>_. None);
     mp_write n ((count - 1) * (sz + 4)) (NextBlock None) hs }"

definition fresh_mp :: "word32 \<Rightarrow> word32 \<Rightarrow> word32 \<Rightarrow> word32 \<Rightarrow> (word32 \<Rightarrow> block_hdr option) \<Rightarrow> rt_list \<Rightarrow> rt_mempool" where
  "fresh_mp start n sz count hs l = \<lparr>mp_start = start, mp_size = n, block_size = sz, block_hdrs = hs,
     block_list = Some 0, block_total_count = count, block_free_count = count, mp_suspend = l,
     suspend_thread_count = 0\<rparr>"

text \<open>The memory at \<open>start\<close> has \<open>n\<close> bytes. \<open>None\<close> is also the division by zero.\<close>

definition rt_mp_init :: "rt_list \<Rightarrow> word32 \<Rightarrow> word32 \<Rightarrow> word32 \<Rightarrow> kernel \<Rightarrow> (rt_mempool \<times> kernel) option" where
  "rt_mp_init l start n sz k = (let total = align_down n RT_ALIGN_SIZE; sz = RT_ALIGN sz RT_ALIGN_SIZE in
     if sz + 4 = 0 then None else let count = total div (sz + 4) in do {
       hs \<leftarrow> mp_build (unat n) sz count;
       Some (fresh_mp start total sz count hs l, rt_ipc_object_init l k) })"

definition mp_wake_round :: "rt_mempool \<times> kernel \<Rightarrow> (rt_mempool \<times> kernel) option" where
  "mp_wake_round = (\<lambda>(mp, k). let t = hd (rt_lists k (mp_suspend mp)) in
     Some (mp\<lparr>suspend_thread_count := suspend_thread_count mp - 1\<rparr>,
       snd (rt_thread_resume t (set_error RT_ERROR t k))))"

definition rt_mp_detach :: "nat \<Rightarrow> rt_mempool \<Rightarrow> kernel \<Rightarrow> (rt_mempool \<times> kernel) outcome" where
  "rt_mp_detach fuel mp k = of_loop (run_loop fuel (\<lambda>(mp, k). rt_lists k (mp_suspend mp) \<noteq> []) mp_wake_round (mp, k))"

text \<open>The size of the memory is a product of 32 bits.\<close>

definition rt_mp_create :: "(word32 \<Rightarrow> 's \<Rightarrow> (word32 \<times> 's) outcome) \<Rightarrow> rt_list option \<Rightarrow> word32 \<Rightarrow> word32 \<Rightarrow>
    kernel \<times> 's \<Rightarrow> (rt_mempool option \<times> kernel \<times> 's) outcome" where
  "rt_mp_create malloc obj count sz = (\<lambda>(k, h). if \<not> not_in_interrupt k then Fault else case obj of
     None \<Rightarrow> Done (None, k, h)
   | Some l \<Rightarrow> let sz = RT_ALIGN sz RT_ALIGN_SIZE; n = (sz + 4) * count in
       obind (malloc n h) (\<lambda>(p, h). if p = 0 then Done (None, k, h) else
       obind (of_opt (mp_build (unat n) sz count)) (\<lambda>hs.
         Done (Some (fresh_mp p n sz count hs l), rt_ipc_object_init l k, h))))"

definition rt_mp_delete :: "nat \<Rightarrow> (word32 \<Rightarrow> 's \<Rightarrow> 's outcome) \<Rightarrow> rt_mempool \<Rightarrow> kernel \<times> 's \<Rightarrow> (kernel \<times> 's) outcome" where
  "rt_mp_delete fuel free mp = (\<lambda>(k, h). if \<not> not_in_interrupt k then Fault
     else obind (rt_mp_detach fuel mp k) (\<lambda>(mp, k). obind (free (mp_start mp) h) (\<lambda>h. Done (k, h))))"

section \<open>Handing out blocks\<close>

text \<open>A link to a block that is handed out would be the pool's address, which is no block.\<close>

definition mp_pop :: "rt_mempool \<Rightarrow> (word32 \<times> rt_mempool) option" where
  "mp_pop mp = do {
     b \<leftarrow> block_list mp;
     x \<leftarrow> block_hdrs mp b;
     (case x of OwnerPool \<Rightarrow> None | NextBlock nxt \<Rightarrow>
       Some (b, mp\<lparr>block_free_count := block_free_count mp - 1, block_list := nxt,
         block_hdrs := (block_hdrs mp)(b \<mapsto> OwnerPool)\<rparr>)) }"

text \<open>The error number of the calling thread; in an interrupt it goes to a variable that is left out.\<close>

definition rt_set_errno :: "rt_err \<Rightarrow> kernel \<Rightarrow> kernel" where
  "rt_set_errno e k = (if irq_nest (rt_cpu_self k) \<noteq> 0 then k
     else case rt_thread_self k of None \<Rightarrow> k | Some t \<Rightarrow> set_error e t k)"

text \<open>
  One round of the loop of \<open>rt_mp_alloc\<close>. The result is the block (\<open>None\<close> for the null pointer), or
  \<open>Blocked\<close> after the switch, and the tick at which a timed wait began. Threads wait in the order last in,
  first out.
\<close>

definition mp_alloc_loop :: "rt_mempool \<Rightarrow> word32 \<Rightarrow> kernel \<Rightarrow> (word32 option call \<times> word32 \<times> rt_mempool \<times> kernel) option" where
  "mp_alloc_loop mp time k = (if block_free_count mp = 0 then
       (if time = 0 then Some (Result None, 0, mp, rt_set_errno RT_ETIMEOUT k)
        else if \<not> not_in_interrupt k then None
        else do {
          t \<leftarrow> rt_thread_self k;
          (e, k) \<leftarrow> rt_thread_suspend t (set_error RT_EOK t k);
          k \<leftarrow> Some (rt_list_insert_after (mp_suspend mp) t k);
          mp \<leftarrow> Some (mp\<lparr>suspend_thread_count := suspend_thread_count mp + 1\<rparr>);
          k \<leftarrow> (if 0 < sint time then start_thread_timer t time k else Some k);
          before_sleep \<leftarrow> Some (rt_tick_get k);
          k \<leftarrow> rt_schedule k;
          Some (Blocked, before_sleep, mp, k) })
     else do { (b, mp) \<leftarrow> mp_pop mp; Some (Result (Some b), 0, mp, k) })"

definition rt_mp_alloc :: "rt_mempool \<Rightarrow> word32 \<Rightarrow> kernel \<Rightarrow> (word32 option call \<times> word32 \<times> rt_mempool \<times> kernel) option" where
  "rt_mp_alloc mp time k = mp_alloc_loop mp time k"

definition rt_mp_alloc_end :: "rt_mempool \<Rightarrow> word32 \<Rightarrow> word32 \<Rightarrow> tid \<Rightarrow> kernel \<Rightarrow>
    (word32 option call \<times> word32 \<times> rt_mempool \<times> kernel) option" where
  "rt_mp_alloc_end mp time before_sleep t k = (if th_error (tcb k t) \<noteq> RT_EOK
     then Some (Result None, before_sleep, mp, k)
     else mp_alloc_loop mp (time_left time before_sleep k) k)"

text \<open>
  Releasing the block \<open>b\<close>, whose header must say that it is handed out. With a positive count and an empty
  list the code takes the list head for a thread.
\<close>

definition mp_push :: "word32 \<Rightarrow> rt_mempool \<Rightarrow> rt_mempool option" where
  "mp_push b mp = (if block_hdrs mp b = Some OwnerPool
     then Some (mp\<lparr>block_free_count := block_free_count mp + 1, block_hdrs := (block_hdrs mp)(b \<mapsto> NextBlock (block_list mp)),
       block_list := Some b\<rparr>)
     else None)"

definition rt_mp_free :: "word32 \<Rightarrow> rt_mempool \<Rightarrow> kernel \<Rightarrow> (rt_mempool \<times> kernel) option" where
  "rt_mp_free b mp k = do {
     mp \<leftarrow> mp_push b mp;
     (if suspend_thread_count mp > 0 then (case rt_lists k (mp_suspend mp) of [] \<Rightarrow> None
       | t # _ \<Rightarrow> do {
           k \<leftarrow> Some (snd (rt_thread_resume t (set_error RT_EOK t k)));
           k \<leftarrow> rt_schedule k;
           Some (mp\<lparr>suspend_thread_count := suspend_thread_count mp - 1\<rparr>, k) })
      else Some (mp, k)) }"

end
