(* ===== verification/RtMempoolSpec.thy ===== *)
theory RtMempoolSpec
  imports RtMempool RtIpcSpec
begin

text \<open>
  Memory pools: the free blocks form a chain, no block is handed out twice and the blocks do not overlap,
  whatever sequence of requests and releases; and what a request that times out leaves behind.
\<close>

section \<open>The blocks of a new pool\<close>

definition mp_link :: "(word32 \<Rightarrow> block_hdr option) \<Rightarrow> word32 \<Rightarrow> word32 option" where
  "mp_link hs b = (case hs b of Some (NextBlock n) \<Rightarrow> n | _ \<Rightarrow> None)"

text \<open>The block \<open>i\<close> of a pool of blocks of \<open>w\<close> bytes with their headers.\<close>

definition mp_block :: "word32 \<Rightarrow> nat \<Rightarrow> word32" where
  "mp_block w i = of_nat i * w"

lemma mp_block_val: "i * unat w < 2 ^ 32 \<Longrightarrow> unat (mp_block w i) = i * unat w"
  by (cases "w = 0") (simp_all add: mp_block_def unat_word_ariths(2) unat_of_nat mod_mult_left_eq)

lemma mp_block_inj:
  assumes "i * unat w < 2 ^ 32" "j * unat w < 2 ^ 32" "mp_block w i = mp_block w j" "w \<noteq> 0"
  shows "i = j"
proof -
  have "unat w \<noteq> 0" using assms(4) by (simp add: unat_eq_0)
  moreover have "i * unat w = j * unat w" using mp_block_val[OF assms(1)] mp_block_val[OF assms(2)] assms(3) by metis
  ultimately show ?thesis by (simp only: mult_cancel2) simp
qed

lemma mp_block_Suc: "mp_block w (Suc i) = (of_nat i + 1) * w"
  by (simp add: mp_block_def add.commute)

lemma mp_build_loop:
  assumes "j * unat (sz + 4) \<le> n" "n < 2 ^ 32" "4 \<le> unat (sz + 4)"
  shows "\<exists>hs. fold_opt (\<lambda>i. mp_write n (of_nat i * (sz + 4)) (NextBlock (Some ((of_nat i + 1) * (sz + 4))))) [0..<j] (\<lambda>_. None) = Some hs \<and>
    (\<forall>i<j. hs (mp_block (sz + 4) i) = Some (NextBlock (Some (mp_block (sz + 4) (Suc i))))) \<and>
    dom hs = mp_block (sz + 4) ` {0..<j}"
  using assms(1)
proof (induction j)
  case (Suc j)
  let ?w = "sz + 4"
  obtain hs where hs: "fold_opt (\<lambda>i. mp_write n (of_nat i * ?w) (NextBlock (Some ((of_nat i + 1) * ?w)))) [0..<j] (\<lambda>_. None) = Some hs"
    "\<forall>i<j. hs (mp_block ?w i) = Some (NextBlock (Some (mp_block ?w (Suc i))))" "dom hs = mp_block ?w ` {0..<j}"
    using Suc by auto
  have l: "i * unat ?w < 2 ^ 32" if "i \<le> Suc j" for i
    using mult_le_mono1[OF that, of "unat ?w"] Suc.prems assms(2) by linarith
  have "unat (mp_block ?w j) + 4 \<le> n" using Suc.prems assms(3) mp_block_val[OF l[of j]] by simp
  then have w: "mp_write n (of_nat j * ?w) (NextBlock (Some ((of_nat j + 1) * ?w))) hs = Some (hs(mp_block ?w j \<mapsto> NextBlock (Some (mp_block ?w (Suc j)))))"
    unfolding mp_block_Suc by (simp add: mp_write_def mp_block_def)
  have nz: "?w \<noteq> 0" using assms(3) by auto
  have "mp_block ?w i \<noteq> mp_block ?w j" if "i < j" for i using mp_block_inj[OF l l _ nz, of i j] that by auto
  then show ?case unfolding upt_Suc_append[OF le0] fold_opt_append hs(1) Option.bind.simps fold_opt.simps w
    using hs(2,3) by (auto simp: less_Suc_eq atLeast0_lessThan_Suc)
qed simp

definition mp_blocks :: "word32 \<Rightarrow> nat \<Rightarrow> word32 set" where
  "mp_blocks w c = mp_block w ` {0..<c}"

lemma mp_build_ok:
  assumes "unat count * unat (sz + 4) \<le> n" "n < 2 ^ 32" "4 \<le> unat (sz + 4)" "count \<noteq> 0"
  shows "\<exists>hs. mp_build n sz count = Some hs \<and> dom hs = mp_blocks (sz + 4) (unat count) \<and>
    (\<forall>i<unat count - 1. hs (mp_block (sz + 4) i) = Some (NextBlock (Some (mp_block (sz + 4) (Suc i))))) \<and>
    hs (mp_block (sz + 4) (unat count - 1)) = Some (NextBlock None)"
proof -
  let ?w = "sz + 4" and ?c = "unat count"
  obtain hs where hs: "fold_opt (\<lambda>i. mp_write n (of_nat i * ?w) (NextBlock (Some ((of_nat i + 1) * ?w)))) [0..<?c] (\<lambda>_. None) = Some hs"
    "\<forall>i<?c. hs (mp_block ?w i) = Some (NextBlock (Some (mp_block ?w (Suc i))))" "dom hs = mp_block ?w ` {0..<?c}"
    using mp_build_loop[OF assms(1-3)] by blast
  have c: "0 < ?c" using assms(4) by (simp add: unat_gt_0)
  have last: "(count - 1) * ?w = mp_block ?w (?c - 1)" using c by (simp add: mp_block_def of_nat_diff)
  have l: "i * unat ?w < 2 ^ 32" if "i \<le> ?c" for i
    using mult_le_mono1[OF that, of "unat ?w"] assms(1,2) by linarith
  have "Suc (?c - 1) * unat ?w \<le> n" using c assms(1) by simp
  then have "unat (mp_block ?w (?c - 1)) + 4 \<le> n" using assms(3) mp_block_val[OF l[of "?c - 1"]] by simp
  then have b: "mp_build n sz count = Some (hs(mp_block ?w (?c - 1) \<mapsto> NextBlock None))"
    unfolding mp_build_def hs(1) last by (simp add: mp_write_def)
  have nz: "?w \<noteq> 0" using assms(3) by auto
  have "mp_block ?w i \<noteq> mp_block ?w (?c - 1)" if "i < ?c - 1" for i using mp_block_inj[OF l l _ nz, of i "?c - 1"] that by auto
  then show ?thesis unfolding b mp_blocks_def using hs(2,3) c by auto
qed

lemma mp_fresh_chain:
  assumes "\<And>i. i < c - 1 \<Longrightarrow> hs (mp_block w i) = Some (NextBlock (Some (mp_block w (Suc i))))"
    "hs (mp_block w (c - 1)) = Some (NextBlock None)" "j < c"
  shows "linked (mp_link hs) (Some (mp_block w j)) (map (mp_block w) [j..<c])"
  using assms(3)
proof (induction "c - j" arbitrary: j)
  case (Suc n)
  show ?case
  proof (cases "Suc j = c")
    case True
    then show ?thesis using assms(2) by (auto simp: mp_link_def)
  next
    case False
    then have "linked (mp_link hs) (Some (mp_block w (Suc j))) (map (mp_block w) [Suc j..<c])" using Suc by (intro Suc.hyps(1)) simp_all
    moreover have "mp_link hs (mp_block w j) = Some (mp_block w (Suc j))" using assms(1)[of j] Suc.prems False by (simp add: mp_link_def)
    ultimately show ?thesis using Suc.prems by (simp add: upt_conv_Cons)
  qed
qed simp

section \<open>Requests and releases\<close>

definition mp_used :: "rt_mempool \<Rightarrow> word32 set" where
  "mp_used mp = {b. block_hdrs mp b = Some OwnerPool}"

definition mp_chain :: "rt_mempool \<Rightarrow> word32 list \<Rightarrow> bool" where
  "mp_chain mp fs \<longleftrightarrow> linked (mp_link (block_hdrs mp)) (block_list mp) fs \<and> distinct fs \<and> unat (block_free_count mp) = length fs \<and>
     (\<forall>b\<in>set fs. \<exists>x. block_hdrs mp b = Some (NextBlock x)) \<and> dom (block_hdrs mp) = set fs \<union> mp_used mp"

text \<open>Requests that need not wait, start to wait or come back from waiting, and releases, with any kernel.\<close>

inductive mp_step :: "rt_mempool \<Rightarrow> rt_mempool \<Rightarrow> bool" where
  alloc: "rt_mp_alloc mp time k = Some (r, start, mp', k') \<Longrightarrow> mp_step mp mp'"
| alloc_end: "rt_mp_alloc_end mp time start t k = Some (r, start', mp', k') \<Longrightarrow> mp_step mp mp'"
| free: "rt_mp_free b mp k = Some (mp', k') \<Longrightarrow> mp_step mp mp'"

lemma mp_link_upd: "mp_link (hs(b \<mapsto> NextBlock n)) = (mp_link hs)(b := n)" "mp_link (hs(b \<mapsto> OwnerPool)) = (mp_link hs)(b := None)"
  by (auto simp: mp_link_def)

lemma mp_pop_ok:
  assumes "mp_chain mp fs" "block_free_count mp \<noteq> 0"
  shows "\<exists>b mp'. mp_pop mp = Some (b, mp') \<and> fs \<noteq> [] \<and> b = hd fs \<and> mp_chain mp' (tl fs) \<and> b \<notin> mp_used mp \<and> mp_used mp' = insert b (mp_used mp) \<and>
    block_size mp' = block_size mp \<and> dom (block_hdrs mp') = dom (block_hdrs mp) \<and> mp_suspend mp' = mp_suspend mp \<and>
    suspend_thread_count mp' = suspend_thread_count mp"
proof -
  have "fs \<noteq> []" using assms by (auto simp: mp_chain_def unat_eq_0)
  then obtain b fs' x where b: "fs = b # fs'" "block_list mp = Some b" "block_hdrs mp b = Some (NextBlock x)" "mp_link (block_hdrs mp) b = x"
    using assms(1) by (cases fs) (auto simp: mp_chain_def mp_link_def)
  let ?mp = "mp\<lparr>block_free_count := block_free_count mp - 1, block_list := x, block_hdrs := (block_hdrs mp)(b \<mapsto> OwnerPool)\<rparr>"
  have p: "mp_pop mp = Some (b, ?mp)" using b by (simp add: mp_pop_def)
  have u: "b \<notin> mp_used mp" "mp_used ?mp = insert b (mp_used mp)" using b(3) by (auto simp: mp_used_def)
  have d: "b \<notin> set fs'" "distinct fs'" "b \<in> dom (block_hdrs mp)" using assms(1) b(1,3) by (auto simp: mp_chain_def)
  have "linked (mp_link (block_hdrs mp)) x fs'" using assms(1) b by (simp add: mp_chain_def)
  then have "linked (mp_link (block_hdrs ?mp)) (block_list ?mp) fs'" using linked_upd[OF d(1)] by (simp add: mp_link_upd del: fun_upd_apply)
  moreover have "unat (block_free_count ?mp) = length fs'" using assms b(1) by (simp add: mp_chain_def unat_minus_one)
  ultimately have "mp_chain ?mp fs'" using assms(1) b(1,3) d u(2) by (auto simp: mp_chain_def)
  then show ?thesis using p u d(3) b(1) by (intro exI[of _ b] exI[of _ ?mp]) auto
qed

lemma mp_push_ok:
  assumes "mp_chain mp fs" "mp_push b mp = Some mp'" "card (dom (block_hdrs mp)) < 2 ^ 32"
  shows "mp_chain mp' (b # fs)" "b \<in> mp_used mp" "mp_used mp' = mp_used mp - {b}" "block_size mp' = block_size mp"
    "dom (block_hdrs mp') = dom (block_hdrs mp)" "mp_suspend mp' = mp_suspend mp" "suspend_thread_count mp' = suspend_thread_count mp"
proof -
  have h: "block_hdrs mp b = Some OwnerPool" and mp': "mp' = mp\<lparr>block_free_count := block_free_count mp + 1,
      block_hdrs := (block_hdrs mp)(b \<mapsto> NextBlock (block_list mp)), block_list := Some b\<rparr>"
    using assms(2) by (auto simp: mp_push_def split: if_splits)
  show u: "b \<in> mp_used mp" "mp_used mp' = mp_used mp - {b}" "block_size mp' = block_size mp"
    "dom (block_hdrs mp') = dom (block_hdrs mp)" "mp_suspend mp' = mp_suspend mp" "suspend_thread_count mp' = suspend_thread_count mp"
    using h by (auto simp: mp_used_def mp')
  have b: "b \<notin> set fs" "distinct fs" "dom (block_hdrs mp) = set fs \<union> mp_used mp" using assms(1) h by (auto simp: mp_chain_def)
  have f: "finite (dom (block_hdrs mp))" by simp
  have "Suc (length fs) = card (insert b (set fs))" using b(1,2) by (simp add: distinct_card)
  also have "... \<le> card (dom (block_hdrs mp))" by (rule card_mono[OF f]) (use b(3) u(1) in auto)
  finally have "Suc (length fs) < 2 ^ 32" using assms(3) by linarith
  then have "unat (block_free_count mp') = Suc (length fs)"
    using assms(1) by (simp add: mp' mp_chain_def unat_word_ariths(1))
  moreover have "linked (mp_link (block_hdrs mp')) (block_list mp') (b # fs)"
    using assms(1) b(1) linked_upd[OF b(1)] by (simp add: mp' mp_link_upd mp_chain_def del: fun_upd_apply) simp
  ultimately show "mp_chain mp' (b # fs)" using assms(1) b u by (auto simp: mp_chain_def mp')
qed

text \<open>What a call does to the pool: nothing but the count of waiting threads, or one block.\<close>

lemma mp_alloc_loop_cases:
  assumes "mp_alloc_loop mp time k = Some (r, start, mp', k')"
  obtains "mp' = mp" "r = Result None" "block_free_count mp = 0"
  | "mp' = mp\<lparr>suspend_thread_count := suspend_thread_count mp + 1\<rparr>" "r = Blocked" "block_free_count mp = 0"
  | b where "mp_pop mp = Some (b, mp')" "r = Result (Some b)" "block_free_count mp \<noteq> 0" "k' = k"
  using assms by (auto simp: mp_alloc_loop_def split: if_splits elim!: bindE)

lemma mp_free_cases:
  assumes "rt_mp_free b mp k = Some (mp', k')"
  obtains mp1 where "mp_push b mp = Some mp1" "mp' = mp1 \<or> mp' = mp1\<lparr>suspend_thread_count := suspend_thread_count mp1 - 1\<rparr>"
  using assms by (auto simp: rt_mp_free_def split: if_splits list.splits elim!: bindE)

lemma mp_chain_count: "mp_chain (mp\<lparr>suspend_thread_count := n\<rparr>) fs = mp_chain mp fs" "mp_used (mp\<lparr>suspend_thread_count := n\<rparr>) = mp_used mp"
  by (simp_all add: mp_chain_def mp_used_def)

definition mp_inv :: "word32 \<Rightarrow> nat \<Rightarrow> rt_mempool \<Rightarrow> bool" where
  "mp_inv w c mp \<longleftrightarrow> (\<exists>fs. mp_chain mp fs) \<and> dom (block_hdrs mp) = mp_blocks w c"

lemma mp_alloc_inv:
  assumes "mp_alloc_loop mp time k = Some (r, start, mp', k')" "mp_inv w c mp"
  shows "mp_inv w c mp' \<and> (case r of Result (Some b) \<Rightarrow> b \<notin> mp_used mp \<and> mp_used mp' = insert b (mp_used mp)
    | _ \<Rightarrow> block_free_count mp = 0 \<and> mp_used mp' = mp_used mp)"
  using assms(1)
proof (cases rule: mp_alloc_loop_cases)
  case (3 b)
  obtain fs where f: "mp_chain mp fs" using assms(2) by (auto simp: mp_inv_def)
  show ?thesis using mp_pop_ok[OF f 3(3)] 3(1,2) assms(2) by (auto simp: mp_inv_def)
qed (use assms(2) in \<open>auto simp: mp_inv_def mp_chain_count\<close>)

lemma mp_free_inv:
  assumes "rt_mp_free b mp k = Some (mp', k')" "mp_inv w c mp" "c < 2 ^ 32"
  shows "mp_inv w c mp' \<and> b \<in> mp_used mp \<and> mp_used mp' = mp_used mp - {b}"
  using assms(1)
proof (cases rule: mp_free_cases)
  case (1 mp1)
  obtain fs where f: "mp_chain mp fs" using assms(2) by (auto simp: mp_inv_def)
  have "card (dom (block_hdrs mp)) \<le> c"
    using assms(2) card_image_le[of "{0..<c}" "mp_block w"] by (simp add: mp_inv_def mp_blocks_def)
  then have "card (dom (block_hdrs mp)) < 2 ^ 32" using assms(3) by linarith
  note p = mp_push_ok[OF f 1(1) this]
  have "mp_inv w c mp1" using p(1,5) assms(2) unfolding mp_inv_def by metis
  moreover have "mp_inv w c (mp1\<lparr>suspend_thread_count := n\<rparr>) = mp_inv w c mp1" for n by (simp add: mp_inv_def mp_chain_count)
  ultimately show ?thesis using 1(2) p(2,3) by (elim disjE) (simp_all add: mp_chain_count)
qed

lemma mp_step_inv: "mp_step mp mp' \<Longrightarrow> mp_inv w c mp \<Longrightarrow> c < 2 ^ 32 \<Longrightarrow> mp_inv w c mp'"
proof (induction rule: mp_step.induct)
  case (alloc mp time k r start mp' k')
  then show ?case using mp_alloc_inv by (simp add: rt_mp_alloc_def)
next
  case (alloc_end mp time start t k r start' mp' k')
  then show ?case using mp_alloc_inv by (auto simp: rt_mp_alloc_end_def split: if_splits)
next
  case (free b mp k mp' k')
  then show ?case using mp_free_inv by blast
qed

text \<open>A pool as the code builds it, without wrap-around and with at least one block.\<close>

definition mp_start_ok :: "word32 \<Rightarrow> word32 \<Rightarrow> rt_mempool \<Rightarrow> bool" where
  "mp_start_ok sz count mp \<longleftrightarrow> count \<noteq> 0 \<and> 4 \<le> unat (sz + 4) \<and>
     (\<exists>n start total l hs. unat count * unat (sz + 4) \<le> n \<and> n < 2 ^ 32 \<and> mp_build n sz count = Some hs \<and>
        mp = fresh_mp start total sz count hs l)"

lemma mp_start_inv:
  assumes "mp_start_ok sz count mp"
  shows "mp_inv (sz + 4) (unat count) mp \<and> mp_used mp = {}"
proof -
  let ?w = "sz + 4" and ?c = "unat count"
  obtain n start total l hs where n: "unat count * unat (sz + 4) \<le> n" "n < 2 ^ 32" and b: "mp_build n sz count = Some hs"
    and mp: "mp = fresh_mp start total sz count hs l" and c: "count \<noteq> 0" "4 \<le> unat (sz + 4)"
    using assms by (auto simp: mp_start_ok_def)
  have h: "dom hs = mp_blocks ?w ?c" "\<And>i. i < ?c - 1 \<Longrightarrow> hs (mp_block ?w i) = Some (NextBlock (Some (mp_block ?w (Suc i))))"
    "hs (mp_block ?w (?c - 1)) = Some (NextBlock None)"
    using mp_build_ok[OF n c(2,1)] b by auto
  let ?fs = "map (mp_block ?w) [0..<?c]"
  have c0: "0 < ?c" using c(1) by (simp add: unat_gt_0)
  have x: "\<exists>x. hs (mp_block ?w i) = Some (NextBlock x)" if "i < ?c" for i
    using h(2)[of i] h(3) that by (cases "i = ?c - 1") auto
  have l: "i * unat ?w < 2 ^ 32" if "i < ?c" for i
    using mult_le_mono1[of i ?c "unat ?w"] that n by linarith
  have nz: "?w \<noteq> 0" using c(2) by auto
  have "inj_on (mp_block ?w) (set [0..<?c])"
    by (rule inj_onI) (use mp_block_inj[OF l l _ nz] in simp)
  then have "distinct ?fs" by (simp add: distinct_map)
  moreover have "linked (mp_link hs) (Some 0) ?fs"
    using mp_fresh_chain[OF h(2,3) c0] by (simp add: mp_block_def)
  moreover have "mp_used mp = {}"
  proof -
    have "hs b \<noteq> Some OwnerPool" for b
    proof
      assume a: "hs b = Some OwnerPool"
      then have "b \<in> dom hs" by blast
      then obtain i where "i < ?c" "b = mp_block ?w i" unfolding h(1) mp_blocks_def by auto
      then show False using x[of i] a by simp
    qed
    then show ?thesis by (simp add: mp_used_def mp fresh_mp_def)
  qed
  ultimately have "mp_chain mp ?fs" using x h(1) by (auto simp: mp_chain_def mp fresh_mp_def mp_blocks_def)
  then show ?thesis using \<open>mp_used mp = {}\<close> h(1) by (auto simp: mp_inv_def mp fresh_mp_def)
qed

lemma no_wrap4:
  assumes "4 \<le> unat (x + 4 :: word32)"
  shows "unat (x + 4) = unat x + 4"
proof -
  have "unat (x + 4) = (unat x + 4) mod 2 ^ 32" by (simp add: unat_word_ariths(1))
  moreover have "unat x < 2 ^ 32" using unsigned_less[of x, where ?'a = nat] by simp
  ultimately show ?thesis using assms by (cases "unat x + 4 < 2 ^ 32") (simp_all add: mod_if split: if_splits)
qed

lemma mp_blocks_disjoint:
  assumes "b \<in> mp_blocks (sz + 4) c" "b' \<in> mp_blocks (sz + 4) c" "b \<noteq> b'" "c * unat (sz + 4) < 2 ^ 32" "unat (sz + 4) = unat sz + 4"
  shows "unat b + 4 + unat sz \<le> unat b' \<or> unat b' + 4 + unat sz \<le> unat b"
proof -
  obtain i j where i: "i < c" "b = mp_block (sz + 4) i" and j: "j < c" "b' = mp_block (sz + 4) j"
    using assms(1,2) by (auto simp: mp_blocks_def)
  have l: "i * unat (sz + 4) < 2 ^ 32" if "i < c" for i
    using mult_le_mono1[of i c "unat (sz + 4)"] that assms(4) by linarith
  have v: "unat b = i * (unat sz + 4)" "unat b' = j * (unat sz + 4)" using mp_block_val[OF l] i j assms(5) by simp_all
  have "i \<noteq> j" using assms(3) i(2) j(2) by blast
  then have "i < j \<or> j < i" by linarith
  then show ?thesis unfolding v using mult_le_mono1[of "Suc i" j "unat sz + 4"] mult_le_mono1[of "Suc j" i "unat sz + 4"]
    by (elim disjE) simp_all
qed

text \<open>The two ways a pool is made; \<open>n\<close> bytes that the product of sizes does not exceed.\<close>

lemma align_down_le: "unat (align_down n a) \<le> unat n"
  using unat_and_less[of n "Suc (unat n)" "NOT (a - 1)"] by (simp add: align_down_def and.commute)

lemma mp_init_start:
  assumes "rt_mp_init l start n sz k = Some (mp, k')" "4 \<le> unat (RT_ALIGN sz RT_ALIGN_SIZE + 4)"
    "RT_ALIGN sz RT_ALIGN_SIZE + 4 \<le> align_down n RT_ALIGN_SIZE"
  shows "mp_start_ok (RT_ALIGN sz RT_ALIGN_SIZE) (align_down n RT_ALIGN_SIZE div (RT_ALIGN sz RT_ALIGN_SIZE + 4)) mp"
proof -
  let ?z = "RT_ALIGN sz RT_ALIGN_SIZE" and ?t = "align_down n RT_ALIGN_SIZE"
  have nz: "?z + 4 \<noteq> 0" using assms(2) by auto
  obtain hs where hs: "mp_build (unat n) ?z (?t div (?z + 4)) = Some hs" "mp = fresh_mp start ?t ?z (?t div (?z + 4)) hs l"
    using assms(1) nz by (auto simp: rt_mp_init_def Let_def split: Option.bind_splits)
  have d: "unat (?t div (?z + 4)) = unat ?t div unat (?z + 4)" by (simp add: unat_div)
  have "unat ?t div unat (?z + 4) \<noteq> 0" using assms(2,3) by (simp add: word_le_nat_alt div_eq_0_iff)
  then have "?t div (?z + 4) \<noteq> 0" using d by (metis unat_0)
  moreover have "unat (?t div (?z + 4)) * unat (?z + 4) \<le> unat n"
    unfolding d using div_times_less_eq_dividend[of "unat ?t" "unat (?z + 4)"] align_down_le[of n RT_ALIGN_SIZE] by linarith
  moreover have "unat n < 2 ^ 32" using unsigned_less[of n, where ?'a = nat] by simp
  ultimately show ?thesis using assms(2) hs unfolding mp_start_ok_def by blast
qed

text \<open>
  A product of sizes that wraps around gives a pool with less memory than its blocks need; with memory for
  one block the loop over the headers leaves it at once.
\<close>

lemma mp_create_wraps:
  assumes "not_in_interrupt k" "(RT_ALIGN sz RT_ALIGN_SIZE + 4) * count = RT_ALIGN sz RT_ALIGN_SIZE + 4" "1 < unat count"
    "malloc (RT_ALIGN sz RT_ALIGN_SIZE + 4) h = Done (p, h')" "p \<noteq> 0"
  shows "rt_mp_create malloc (Some l) count sz (k, h) = Fault"
proof -
  let ?w = "RT_ALIGN sz RT_ALIGN_SIZE + 4"
  have u: "[0..<unat count] = 0 # 1 # [Suc (Suc 0)..<unat count]" using assms(3) by (simp add: upt_conv_Cons)
  have "mp_build (unat ?w) (RT_ALIGN sz RT_ALIGN_SIZE) count = None"
    unfolding mp_build_def u by (simp add: mp_write_def split: Option.bind_splits)
  then show ?thesis using assms(1,2,4,5) by (simp add: rt_mp_create_def Let_def)
qed

text \<open>
  C40: after any sequence of requests and releases the free blocks are a chain without repetition that holds
  exactly the blocks not handed out, its length is the count; a request never returns a block in use, and
  a release accepts a block in use only.
\<close>

theorem mempool_blocks:
  assumes "mp_start_ok sz count mp" "mp_step\<^sup>*\<^sup>* mp mp'"
  shows "(\<exists>fs. linked (mp_link (block_hdrs mp')) (block_list mp') fs \<and> distinct fs \<and> unat (block_free_count mp') = length fs \<and>
      set fs \<union> mp_used mp' = mp_blocks (sz + 4) (unat count) \<and> set fs \<inter> mp_used mp' = {}) \<and>
    (\<forall>time k b start mp'' k'. rt_mp_alloc mp' time k = Some (Result (Some b), start, mp'', k') \<longrightarrow>
      b \<notin> mp_used mp' \<and> mp_used mp'' = insert b (mp_used mp')) \<and>
    (\<forall>b k mp'' k'. rt_mp_free b mp' k = Some (mp'', k') \<longrightarrow> b \<in> mp_used mp' \<and> mp_used mp'' = mp_used mp' - {b}) \<and>
    (\<forall>b b'. b \<in> mp_used mp' \<longrightarrow> b' \<in> mp_used mp' \<longrightarrow> b \<noteq> b' \<longrightarrow>
      unat b + 4 + unat sz \<le> unat b' \<or> unat b' + 4 + unat sz \<le> unat b)"
proof -
  have c: "unat count < 2 ^ 32" using unsigned_less[of count, where ?'a = nat] by simp
  have i: "mp_inv (sz + 4) (unat count) mp'"
    using assms(2) by (induction rule: rtranclp_induct) (use mp_start_inv[OF assms(1)] mp_step_inv[OF _ _ c] in auto)
  then obtain fs where f: "mp_chain mp' fs" "dom (block_hdrs mp') = mp_blocks (sz + 4) (unat count)" by (auto simp: mp_inv_def)
  have "set fs \<inter> mp_used mp' = {}" using f(1) by (auto simp: mp_chain_def mp_used_def)
  then have "\<exists>fs. linked (mp_link (block_hdrs mp')) (block_list mp') fs \<and> distinct fs \<and> unat (block_free_count mp') = length fs \<and>
      set fs \<union> mp_used mp' = mp_blocks (sz + 4) (unat count) \<and> set fs \<inter> mp_used mp' = {}"
    using f by (auto simp: mp_chain_def)
  moreover have "b \<notin> mp_used mp' \<and> mp_used mp'' = insert b (mp_used mp')"
    if "rt_mp_alloc mp' time k = Some (Result (Some b), start, mp'', k')" for time k b start mp'' k'
    using mp_alloc_inv[OF that[unfolded rt_mp_alloc_def] i] by simp
  moreover have "b \<in> mp_used mp' \<and> mp_used mp'' = mp_used mp' - {b}" if "rt_mp_free b mp' k = Some (mp'', k')" for b k mp'' k'
    using mp_free_inv[OF that i c] by simp
  moreover have "unat b + 4 + unat sz \<le> unat b' \<or> unat b' + 4 + unat sz \<le> unat b"
    if "b \<in> mp_used mp'" "b' \<in> mp_used mp'" "b \<noteq> b'" for b b'
  proof -
    have "b \<in> mp_blocks (sz + 4) (unat count)" "b' \<in> mp_blocks (sz + 4) (unat count)" using f that(1,2) by (auto simp: mp_chain_def)
    moreover have "unat count * unat (sz + 4) < 2 ^ 32" "4 \<le> unat (sz + 4)" using assms(1) by (auto simp: mp_start_ok_def)
    ultimately show ?thesis using mp_blocks_disjoint that(3) no_wrap4 by blast
  qed
  ultimately show ?thesis by blast
qed

section \<open>Waiting for a block\<close>

lemma mp_wait_unfold:
  assumes "smp_ok k" "rt_thread_self k = Some t" "stat (tcb k t) = RT_THREAD_READY" "block_free_count mp = 0" "time \<noteq> 0"
    "not_in_interrupt k" "mp_suspend mp = SuspendList i" "rt_lists k (SuspendList i) = []"
  shows "\<exists>kl. smp_ok kl \<and> rt_lists kl (SuspendList i) = [t] \<and> rt_thread_self kl = Some t \<and> stat (tcb kl t) = RT_THREAD_SUSPEND \<and>
    mp_alloc_loop mp time k = do {
      kt \<leftarrow> (if 0 < sint time then start_thread_timer t time kl else Some kl);
      k1 \<leftarrow> rt_schedule kt;
      Some (Blocked, rt_tick_get kt, mp\<lparr>suspend_thread_count := suspend_thread_count mp + 1\<rparr>, k1) }"
proof -
  obtain ks where ks: "rt_thread_suspend t (set_error RT_EOK t k) = Some (RT_EOK, ks)" "smp_ok ks" "unlisted t ks"
    "tcb ks = (tcb (set_error RT_EOK t k))(t := tcb (set_error RT_EOK t k) t\<lparr>stat := RT_THREAD_SUSPEND\<rparr>)"
    "rt_lists ks = rt_lists (set_error RT_EOK t k)" "rt_thread_self ks = Some t"
    using suspend_ok[of "set_error RT_EOK t k" t] smp_set_error[OF assms(1)] assms(2,3) by auto
  let ?kl = "rt_list_insert_after (SuspendList i) t ks"
  have "rt_lists ?kl (SuspendList i) = [t]" using ks(5) assms(8) by (simp add: rt_list_insert_after_def)
  moreover have "smp_ok ?kl"
    unfolding rt_list_insert_after_def using ks(3,5) assms(8) by (intro smp_list_insert[OF ks(2,3)]) (simp_all add: ks(4))
  moreover have "rt_thread_self ?kl = Some t" "stat (tcb ?kl t) = RT_THREAD_SUSPEND"
    using ks(4,6) by (simp_all add: rt_list_insert_after_def rt_thread_self_def rt_cpu_self_def)
  ultimately show ?thesis using assms(2,4-7) ks(1) by (intro exI[of _ ?kl]) (simp add: mp_alloc_loop_def)
qed

text \<open>
  A thread that waits for a block and times out leaves the count of waiting threads as it was, so that
  the next release takes the head of the empty list for a thread.
\<close>

theorem mempool_timeout_breaks_free:
  assumes "smp_ok k" "rt_thread_self k = Some t" "stat (tcb k t) = RT_THREAD_READY" "not_in_interrupt k"
    "block_free_count mp = 0" "suspend_thread_count mp = 0" "mp_suspend mp = SuspendList i" "rt_lists k (SuspendList i) = []"
    "rt_mp_alloc mp time k = Some (Blocked, start, mp', k1)" "thread_timeout_begin t k1 = Some k2"
  shows "rt_mp_alloc_end mp' time start t k2 = Some (Result None, start, mp', k2) \<and> rt_mp_free b mp' k2 = None"
proof -
  have tm: "time \<noteq> 0" using assms(5,9) by (auto simp: rt_mp_alloc_def mp_alloc_loop_def)
  obtain kl where kl: "smp_ok kl" "rt_lists kl (SuspendList i) = [t]" and u: "mp_alloc_loop mp time k = do {
      kt \<leftarrow> (if 0 < sint time then start_thread_timer t time kl else Some kl);
      k1 \<leftarrow> rt_schedule kt;
      Some (Blocked, rt_tick_get kt, mp\<lparr>suspend_thread_count := suspend_thread_count mp + 1\<rparr>, k1) }"
    using mp_wait_unfold[OF assms(1-3,5) tm assms(4,7,8)] by blast
  obtain kt where kt: "(if 0 < sint time then start_thread_timer t time kl else Some kl) = Some kt" "rt_schedule kt = Some k1"
    and mp': "mp' = mp\<lparr>suspend_thread_count := 1\<rparr>"
    using assms(6,9) unfolding rt_mp_alloc_def u by (auto elim!: bindE)
  have "same_sched kl kt" using kt(1) start_thread_timer_sched by (auto split: if_splits)
  note e = same_schedD[OF this] smp_ok_same[OF this kl(1)]
  have k1: "smp_ok k1" "rt_lists k1 (SuspendList i) = [t]"
    using schedule_smp(1,2)[OF _ kt(2)] e kl(2) by simp_all
  note k2 = timeout_ok[OF k1(1) assms(10)]
  have "rt_lists k2 (SuspendList i) = []" using k2(2)[of "SuspendList i"] k1(2) by simp
  moreover have "th_error (tcb k2 t) = RT_ETIMEOUT" by (simp add: k2(4))
  ultimately show ?thesis using assms(7)
    by (auto simp: rt_mp_alloc_end_def rt_mp_free_def mp_push_def mp')
qed

end
