(* ===== verification/RtIpcWitness.thy ===== *)
theory RtIpcWitness
  imports RtMutexSpec RtEventSpec RtMailboxSpec RtQueueSpec RtMempoolSpec RtKernelWitness
begin

text \<open>The theorems on semaphores, mutexes, events and mailboxes at concrete states.\<close>

section \<open>Two processors\<close>

text \<open>As the kernel before, but processor 1 has no current thread. The list 1 belongs to the object at hand.\<close>

definition demo_cpu :: "tid option \<Rightarrow> rt_cpu" where
  "demo_cpu t = \<lparr>current_thread = t, irq_nest = 0, irq_switch_flag = False, cpu_priority = 20,
     priority_group = 0, cpu_tick = 0\<rparr>"

definition demo_smp :: kernel where
  "demo_smp = demo_kernel\<lparr>rt_cpus := (\<lambda>_. demo_cpu None)(0 := demo_cpu (Some 7))\<rparr>"

lemma demo_smp_ok: "smp_ok demo_smp"
proof -
  have "tables_ok demo_smp" using demo_kernel_ok(1) tables_ok_cong[of demo_kernel demo_smp] by (simp add: demo_smp_def demo_kernel_def demo_cpu_def)
  then show ?thesis
    by (auto simp: smp_ok_def demo_smp_def demo_kernel_def demo_thread_def demo_cpu_def may_run_def prio_ok_def split: if_splits)
qed

lemma demo_smp_fields: "rt_thread_self demo_smp = Some 7" "stat (tcb demo_smp 7) = RT_THREAD_READY" "th_error (tcb demo_smp t) = RT_EOK"
  "rt_lists demo_smp (SuspendList i) = []" "in_thread_context demo_smp" "current_priority (tcb demo_smp 7) = 20"
  by (simp_all add: rt_thread_self_def rt_cpu_self_def in_thread_context_def not_in_interrupt_def demo_smp_def demo_kernel_def demo_thread_def demo_cpu_def)

lemma demo_wait: "\<exists>k. ipc_wait (SuspendList 1) 7 RT_IPC_FLAG_PRIO 0xFFFFFFFF (set_error RT_EOK 7 demo_smp) = Some k \<and>
  smp_ok k \<and> rt_lists k (SuspendList 1) = [7] \<and> tcb k = (tcb demo_smp)(7 := tcb demo_smp 7\<lparr>stat := RT_THREAD_SUSPEND\<rparr>)"
proof -
  let ?k = "set_error RT_EOK 7 demo_smp"
  have e: "smp_ok ?k" "rt_thread_self ?k = Some 7" "stat (tcb ?k 7) = RT_THREAD_READY" "flag_ok RT_IPC_FLAG_PRIO"
    using smp_set_error[OF demo_smp_ok] by (simp_all add: demo_smp_fields flag_ok_def)
  have "ipc_wait (SuspendList 1) 7 RT_IPC_FLAG_PRIO 0xFFFFFFFF ?k \<noteq> None" by (rule ipc_wait_Some[OF e]) simp
  then obtain k where k: "ipc_wait (SuspendList 1) 7 RT_IPC_FLAG_PRIO 0xFFFFFFFF ?k = Some k" by blast
  note w = ipc_wait_ok[OF k e]
  have "tcb ?k = tcb demo_smp" by (simp add: fun_eq_iff demo_smp_fields)
  then show ?thesis using k w(1,2) by (simp add: w(4) wait_insert_def demo_smp_fields RT_IPC_FLAG_PRIO_def RT_IPC_FLAG_FIFO_def)
qed

section \<open>Semaphores\<close>

text \<open>Thread 7 waits for an empty semaphore, which is then released.\<close>

definition demo_sem :: rt_semaphore where
  "demo_sem = \<lparr>ipc_flag = RT_IPC_FLAG_PRIO, suspend_thread = SuspendList 1, sem_value = 0\<rparr>"

definition demo_sem_run :: sem_run where
  "demo_sem_run = \<lparr>the_sem = demo_sem, the_kernel = demo_smp, pending = {}, took = 0, released = 0\<rparr>"

lemma demo_sem_start: "sem_start 0 demo_sem_run"
  by (simp add: sem_start_def demo_sem_run_def demo_sem_def demo_smp_ok demo_smp_fields flag_ok_def waits_for_def)

lemma semaphore_counts_witness:
  "\<exists>r. sem_step\<^sup>*\<^sup>* demo_sem_run r \<and> pending r = {7} \<and> released r = 1 \<and>
    of_nat (took r + card (woken_by_object (pending r) (the_kernel r))) + sem_value (the_sem r) = (1 :: word16)"
proof -
  obtain k where k: "ipc_wait (SuspendList 1) 7 RT_IPC_FLAG_PRIO 0xFFFFFFFF (set_error RT_EOK 7 demo_smp) = Some k"
    using demo_wait by blast
  obtain n s k' where r: "sem_release_begin demo_sem k = (n, s, k')" by (cases "sem_release_begin demo_sem k") auto
  let ?r1 = "demo_sem_run\<lparr>the_kernel := k, pending := {7}\<rparr>"
  let ?r2 = "?r1\<lparr>the_sem := s, the_kernel := k', released := 1\<rparr>"
  have "sem_take_begin demo_sem 0xFFFFFFFF demo_smp = Some (Blocked, demo_sem, k)"
    using k by (simp add: sem_take_begin_def demo_smp_fields demo_sem_def)
  then have 1: "sem_step demo_sem_run ?r1"
    using sem_step.take_wait[of demo_sem_run 7 "0xFFFFFFFF" demo_sem k] by (simp add: demo_sem_run_def demo_smp_fields)
  have 2: "sem_step ?r1 ?r2" using sem_step.release[of ?r1 n s k'] r by (simp add: demo_sem_run_def)
  have run: "sem_step\<^sup>*\<^sup>* demo_sem_run ?r2" using 1 2 by (meson r_into_rtranclp rtranclp.rtrancl_into_rtrancl)
  show ?thesis using run semaphore_counts[OF demo_sem_start run] by (intro exI[of _ ?r2]) simp
qed

section \<open>Mutexes\<close>

definition demo_mutex_run :: mutex_run where
  "demo_mutex_run = \<lparr>the_mutex = fresh_mutex (SuspendList 1) RT_IPC_FLAG_PRIO, mx_kernel = demo_smp, mx_pending = {}, depth = (\<lambda>_. 0)\<rparr>"

lemma demo_mutex_start: "mutex_start demo_mutex_run"
  by (auto simp: mutex_start_def demo_mutex_run_def demo_smp_ok demo_smp_fields flag_ok_def mx_waiters_def fresh_mutex_def)

text \<open>Thread 7 takes the free mutex at its priority 20.\<close>

definition demo_taken_mutex :: rt_mutex where
  "demo_taken_mutex = \<lparr>ipc_flag = RT_IPC_FLAG_PRIO, suspend_thread = SuspendList 1, mx_value = 0,
     original_priority = 20, hold = 1, owner = Some 7\<rparr>"

definition demo_taken :: mutex_run where
  "demo_taken = demo_mutex_run\<lparr>the_mutex := demo_taken_mutex, mx_kernel := set_error RT_EOK 7 demo_smp,
     depth := deeper RT_EOK 7 (depth demo_mutex_run)\<rparr>"

lemma demo_taken_fields: "the_mutex demo_taken = demo_taken_mutex" "mx_kernel demo_taken = set_error RT_EOK 7 demo_smp"
  "mx_pending demo_taken = {}" "depth demo_taken = (\<lambda>_. 0)(7 := 1)" "owner (the_mutex demo_mutex_run) = None"
  by (simp_all add: demo_taken_def deeper_def demo_mutex_run_def fresh_mutex_def)

lemma demo_take_step: "mutex_step demo_mutex_run demo_taken \<and> (\<forall>t. depth demo_taken t \<le> 255)"
proof
  have f: "mx_kernel demo_mutex_run = demo_smp" "mx_pending demo_mutex_run = {}" by (simp_all add: demo_mutex_run_def)
  have "mutex_take_begin (the_mutex demo_mutex_run) 0 demo_smp = Some (Result RT_EOK, demo_taken_mutex, set_error RT_EOK 7 demo_smp)"
    by (simp add: mutex_take_begin_def mutex_take_again_def demo_mutex_run_def fresh_mutex_def demo_smp_fields Let_def demo_taken_mutex_def)
  then show "mutex_step demo_mutex_run demo_taken"
    unfolding demo_taken_def by (intro mutex_step.take_now[where time = 0]) (simp_all only: f demo_smp_fields empty_iff not_False_eq_True)
qed (simp add: demo_taken_fields)

lemma mutex_exclusion_witness:
  "\<exists>r. mutex_step\<^sup>*\<^sup>* demo_mutex_run r \<and> depth r 7 = 1 \<and> owner (the_mutex r) = Some 7 \<and> (\<forall>u. depth r u > 0 \<longrightarrow> u = 7)"
proof -
  have run: "mutex_step\<^sup>*\<^sup>* demo_mutex_run demo_taken" using demo_take_step by blast
  have d: "depth demo_taken 7 = 1" "owner (the_mutex demo_taken) = Some 7" by (simp_all add: demo_taken_fields demo_taken_mutex_def)
  have "owner (the_mutex demo_taken) = Some u" if "depth demo_taken u > 0" for u
    using mutex_exclusion[OF demo_mutex_start r_into_rtranclp, OF demo_take_step] that by blast
  then have "\<forall>u. depth demo_taken u > 0 \<longrightarrow> u = 7" unfolding d(2) by simp
  then show ?thesis using run d by blast
qed

text \<open>
  Then its priority is set to 10, as a thread that waits for the mutex would do; the release gives it the
  priority 20 again.
\<close>

lemma mutex_priority_inheritance_witness:
  "\<exists>r2 b m k. mutex_step\<^sup>*\<^sup>* demo_taken r2 \<and> prio (mx_kernel demo_taken) 7 = 20 \<and> prio (mx_kernel r2) 7 = 10 \<and>
    mutex_release_begin (the_mutex r2) (mx_kernel r2) = Some (RT_EOK, b, m, k) \<and> prio k 7 = 20"
proof -
  note f = demo_taken_fields
  have k: "smp_ok (mx_kernel demo_taken)" unfolding f(2) by (rule smp_set_error[OF demo_smp_ok])
  obtain k1 where k1: "change_priority 7 10 (mx_kernel demo_taken) = Some k1"
    by (simp add: change_priority_def RT_THREAD_PRIORITY_MAX_def f(2) demo_smp_fields)
  note p = priority_ok[OF k k1]
  define r2 where "r2 = demo_taken\<lparr>mx_kernel := k1\<rparr>"
  have r2: "the_mutex r2 = demo_taken_mutex" "mx_kernel r2 = k1" "depth r2 = depth demo_taken" by (simp_all add: r2_def f(1))
  have own: "owner (the_mutex demo_taken) = Some 7" "owner (the_mutex r2) = Some 7" "hold (the_mutex r2) = 1"
    by (simp_all add: f(1) r2 demo_taken_mutex_def)
  have "mutex_step demo_taken r2" unfolding r2_def by (rule mutex_step.environment[OF env_step.priority[OF k1]])
  then have s: "shallow_step demo_taken r2" by (simp add: shallow_step_def r2(3) f(4))
  have s0: "shallow_step demo_mutex_run demo_taken" unfolding shallow_step_def by (rule demo_take_step)
  have t: "rt_thread_self k1 = Some 7" "prio k1 7 = 10" "prio (mx_kernel demo_taken) 7 = 20" "in_thread_context k1"
    using p(5,6) demo_smp_fields(1,5,6) by (simp_all add: rt_cpu_self_def f(2) p(4) prio_def set_priority_def in_thread_context_def not_in_interrupt_def)
  have "change_priority 7 20 k1 \<noteq> None" by (simp add: change_priority_def RT_THREAD_PRIORITY_MAX_def)
  then obtain k2 where k2: "change_priority 7 20 k1 = Some k2" by blast
  define m0 where "m0 = demo_taken_mutex\<lparr>hold := 0\<rparr>"
  have m0: "owner demo_taken_mutex = Some 7" "demo_taken_mutex\<lparr>hold := hold demo_taken_mutex - 1\<rparr> = m0" "hold m0 = 0"
    "original_priority m0 = 20" by (simp_all add: m0_def demo_taken_mutex_def)
  obtain b m k3 where p0: "mutex_pass_on m0 k2 = (b, m, k3)" by (cases "mutex_pass_on m0 k2") auto
  have "current_priority (tcb k1 7) \<noteq> 20" using t(2) by (auto simp: prio_def)
  then have rel: "mutex_release_begin (the_mutex r2) (mx_kernel r2) = Some (RT_EOK, b, m, k3)"
    using t(1,4) k2 p0 unfolding mutex_release_begin_def Let_def control_priority r2 by (simp add: m0)
  have "prio k3 7 = prio (mx_kernel demo_taken) 7"
    using mutex_priority_inheritance[OF demo_mutex_start rtranclp.rtrancl_refl s0 _ own(1) r_into_rtranclp, of r2]
      s own rel t(1) f(5) r2(2) by simp
  then show ?thesis using s r2 rel t(2,3) unfolding shallow_step_def by (intro exI[of _ r2] exI[of _ b] exI[of _ m] exI[of _ k3]) auto
qed

text \<open>Thread 7, of priority 20, took a second mutex while it had the priority 10 from the first.\<close>

lemma nested_mutex_keeps_boost_witness:
  "\<exists>m' k' m'' j'. mutex_take_begin (fresh_mutex (SuspendList 1) RT_IPC_FLAG_PRIO) 0 (th_upd 7 (set_priority 10) demo_smp) =
      Some (Result RT_EOK, m', k') \<and>
    mutex_release_begin m' demo_smp = Some (RT_EOK, False, m'', j') \<and> init_priority (tcb demo_smp 7) = 20 \<and>
    current_priority (tcb demo_smp 7) = 20 \<and> current_priority (tcb j' 7) = 10"
proof -
  let ?k = "th_upd 7 (set_priority 10) demo_smp" and ?m = "fresh_mutex (SuspendList 1) RT_IPC_FLAG_PRIO"
  have f: "in_thread_context ?k" "rt_thread_self ?k = Some 7" "current_priority (tcb ?k 7) = 10"
    using demo_smp_fields(1,5)
    by (simp_all add: in_thread_context_def not_in_interrupt_def rt_thread_self_def rt_cpu_self_def th_upd_def set_priority_def)
  have m: "owner ?m = None" "mx_value ?m = 1" "hold ?m = 0" "suspend_thread ?m = SuspendList 1" by (simp_all add: fresh_mutex_def)
  obtain m' k' where t: "mutex_take_begin ?m 0 ?k = Some (Result RT_EOK, m', k')"
    using f m by (simp add: mutex_take_begin_def mutex_take_again_def Let_def)
  have "init_priority (tcb demo_smp 7) = 20" by (simp add: demo_smp_def demo_kernel_def demo_thread_def)
  then show ?thesis
    using nested_mutex_keeps_boost[OF f _ m t demo_smp_ok demo_smp_fields(5,1,4)] t demo_smp_fields(6) by auto
qed

lemma mutex_depth_wraps_witness:
  "owner ((take_again demo_smp ^^ 257) (fresh_mutex (SuspendList 1) RT_IPC_FLAG_PRIO)) = Some 7"
  using mutex_depth_wraps[OF demo_smp_fields(5,1), where m = "fresh_mutex (SuspendList 1) RT_IPC_FLAG_PRIO"]
  by (simp add: fresh_mutex_def demo_smp_fields)

section \<open>Events\<close>

text \<open>Thread 7 waits for both of the events 3; event 1 alone does not wake it, event 2 after that does.\<close>

definition demo_event :: rt_event where
  "demo_event = \<lparr>ipc_flag = RT_IPC_FLAG_PRIO, suspend_thread = SuspendList 1, ev_set = 0\<rparr>"

definition demo_event_run :: event_run where
  "demo_event_run = \<lparr>the_event = demo_event, ev_kernel = demo_smp, ev_pending = {}\<rparr>"

lemma demo_event_start: "event_start demo_event_run"
  by (simp add: event_start_def demo_event_run_def demo_event_def demo_smp_ok demo_smp_fields flag_ok_def ev_waiters_def)

text \<open>The state in which the thread waits.\<close>

lemma demo_event_wait:
  "\<exists>k. event_recv_begin demo_event 3 (RT_EVENT_FLAG_AND OR RT_EVENT_FLAG_CLEAR) 0xFFFFFFFF demo_smp = Some (Blocked, None, demo_event, k) \<and>
    smp_ok k \<and> rt_lists k (SuspendList 1) = [7] \<and>
    event_set (tcb k 7) = 3 \<and> event_info (tcb k 7) = 5 \<and> th_error (tcb k 7) = RT_EOK"
proof -
  let ?u = "\<lambda>x. x\<lparr>event_set := 3, event_info := RT_EVENT_FLAG_AND OR RT_EVENT_FLAG_CLEAR\<rparr>"
  let ?k = "th_upd 7 ?u (set_error RT_EOK 7 demo_smp)"
  have "smp_ok ?k" by (rule smp_upd[OF smp_set_error[OF demo_smp_ok]]) (simp add: sched_part_def)
  then have e: "smp_ok ?k" "rt_thread_self ?k = Some 7" "stat (tcb ?k 7) = RT_THREAD_READY" "flag_ok RT_IPC_FLAG_PRIO"
    "rt_lists ?k (SuspendList 1) = []"
    by (simp_all add: demo_smp_fields flag_ok_def th_upd_def rt_thread_self_def rt_cpu_self_def demo_smp_fields[unfolded rt_thread_self_def rt_cpu_self_def])
  have "ipc_wait (SuspendList 1) 7 RT_IPC_FLAG_PRIO 0xFFFFFFFF ?k \<noteq> None" by (rule ipc_wait_Some[OF e(1-4)]) simp
  then obtain k where k: "ipc_wait (SuspendList 1) 7 RT_IPC_FLAG_PRIO 0xFFFFFFFF ?k = Some k" by blast
  note w = ipc_wait_ok[OF k e(1-4)]
  have "event_recv_begin demo_event 3 (RT_EVENT_FLAG_AND OR RT_EVENT_FLAG_CLEAR) 0xFFFFFFFF demo_smp = Some (Blocked, None, demo_event, k)"
    using k by (simp add: event_recv_begin_def demo_smp_fields demo_event_def event_satisfied_def has_flag_def
      RT_EVENT_FLAG_AND_def RT_EVENT_FLAG_OR_def RT_EVENT_FLAG_CLEAR_def)
  moreover have "rt_lists k (SuspendList 1) = [7]" by (simp add: w(4) demo_smp_fields wait_insert_def RT_IPC_FLAG_PRIO_def RT_IPC_FLAG_FIFO_def)
  ultimately show ?thesis using w(1)
    by (simp add: w(2) th_upd_def demo_smp_fields RT_EVENT_FLAG_AND_def RT_EVENT_FLAG_CLEAR_def)
qed

lemma event_no_missed_wakeup_witness:
  "\<exists>r. event_step\<^sup>*\<^sup>* demo_event_run r \<and> ev_waiters r = [7] \<and> stat (tcb (ev_kernel r) 7) = RT_THREAD_SUSPEND"
proof -
  obtain k where k: "event_recv_begin demo_event 3 (RT_EVENT_FLAG_AND OR RT_EVENT_FLAG_CLEAR) 0xFFFFFFFF demo_smp = Some (Blocked, None, demo_event, k)"
    "rt_lists k (SuspendList 1) = [7]" using demo_event_wait by blast
  let ?r = "demo_event_run\<lparr>the_event := demo_event, ev_kernel := k, ev_pending := insert 7 (ev_pending demo_event_run)\<rparr>"
  have f: "ev_kernel demo_event_run = demo_smp" "the_event demo_event_run = demo_event" "ev_pending demo_event_run = {}"
    by (simp_all add: demo_event_run_def)
  have "event_step demo_event_run ?r"
    by (rule event_step.recv_wait[where want = 3 and info = "RT_EVENT_FLAG_AND OR RT_EVENT_FLAG_CLEAR" and time = "0xFFFFFFFF" and v = None])
      (simp_all only: f k(1) demo_smp_fields empty_iff not_False_eq_True)
  then have run: "event_step\<^sup>*\<^sup>* demo_event_run ?r" by (rule r_into_rtranclp)
  have w: "ev_waiters ?r = [7]" using k(2) by (simp add: ev_waiters_def demo_event_def)
  then have "7 \<in> set (ev_waiters ?r)" by simp
  from event_no_missed_wakeup[OF demo_event_start run this] have "stat (tcb (ev_kernel ?r) 7) = RT_THREAD_SUSPEND" by blast
  then show ?thesis using run w by blast
qed

lemma event_send_serves_witness:
  "\<exists>k k'. rt_lists k (SuspendList 1) = [7] \<and> event_send_begin (demo_event\<lparr>ev_set := 1\<rparr>) 2 k = (True, demo_event\<lparr>ev_set := 0\<rparr>, k') \<and>
    rt_lists k' (SuspendList 1) = [] \<and> rt_event_recv_end 7 k' = (RT_EOK, Some 3)"
proof -
  obtain k where k: "smp_ok k" "rt_lists k (SuspendList 1) = [7]" "event_set (tcb k 7) = 3" "event_info (tcb k 7) = 5" "th_error (tcb k 7) = RT_EOK"
    using demo_event_wait by blast
  have s: "event_serve (tcb k) (ev_set (demo_event\<lparr>ev_set := 1\<rparr>) OR 2) [7] = ([(7, 3)], [], 0)"
    using k by (simp add: satisfied_def received_def left_over_def event_satisfied_def has_flag_def demo_event_def
      RT_EVENT_FLAG_AND_def RT_EVENT_FLAG_OR_def RT_EVENT_FLAG_CLEAR_def)
  have "suspend_thread (demo_event\<lparr>ev_set := 1\<rparr>) = SuspendList 1" by (simp add: demo_event_def)
  from event_send_serves[OF k(1) this k(2), of 2] s k(2,5) show ?thesis by auto
qed

section \<open>Mailboxes\<close>

text \<open>A mailbox of two places on a larger memory.\<close>

definition demo_mb :: rt_mailbox where
  "demo_mb = empty_mailbox (SuspendList 1, SuspendList 2) [0, 0, 0] 2 RT_IPC_FLAG_FIFO"

lemma demo_mb_fields: "mb_idle (demo_mb, demo_smp)" "mb_size demo_mb = 2" "mb_items demo_mb = []" "mb_entry demo_mb = 0"
  "suspend_thread demo_mb = SuspendList 1" "suspend_sender_thread demo_mb = SuspendList 2" "ipc_flag demo_mb = RT_IPC_FLAG_FIFO"
  by (simp_all add: mb_idle_def mb_wf_def mb_items_def demo_mb_def empty_mailbox_def demo_smp_fields)

lemma mailbox_fifo_witness:
  "\<exists>q s. pushes mb_push [11, 22] (demo_mb, demo_smp) = Some q \<and> pops mb_pop 2 q = Some ([Some 11, Some 22], s)"
proof -
  have "length [11 :: word32, 22] \<le> unat (mb_size demo_mb)" "length [11 :: word32, 22] = 2" by (simp_all add: demo_mb_fields(2))
  note l = this
  obtain q s where "pushes mb_push [11, 22] (demo_mb, demo_smp) = Some q"
    "pops mb_pop 2 q = Some (map Some [11, 22], s)"
    using mailbox_fifo[OF demo_mb_fields(1,3) l(1)] unfolding l(2) by blast
  then show ?thesis by (intro exI[of _ q] exI[of _ s] conjI) (simp_all only: list.map)
qed

definition demo_mb_run :: mb_run where
  "demo_mb_run = \<lparr>the_mb = demo_mb, mb_kernel = demo_smp, mb_receivers = {}, mb_senders = {}\<rparr>"

lemma demo_mb_start: "mb_start demo_mb_run"
  using demo_mb_fields by (auto simp: mb_start_def demo_mb_run_def demo_smp_ok flag_ok_def)

text \<open>Thread 7 waits for a message.\<close>

lemma mailbox_no_lost_wakeup_witness:
  "\<exists>r. mb_step\<^sup>*\<^sup>* demo_mb_run r \<and> mb_receivers r = {7} \<and> rt_lists (mb_kernel r) (SuspendList 1) = [7] \<and> mb_wf (the_mb r)"
proof -
  let ?k = "set_error RT_EOK 7 demo_smp"
  have e: "smp_ok ?k" "rt_thread_self ?k = Some 7" "stat (tcb ?k 7) = RT_THREAD_READY" "flag_ok RT_IPC_FLAG_FIFO"
    using smp_set_error[OF demo_smp_ok] by (simp_all add: demo_smp_fields flag_ok_def)
  have "ipc_wait (SuspendList 1) 7 RT_IPC_FLAG_FIFO 0xFFFFFFFF ?k \<noteq> None" by (rule ipc_wait_Some[OF e]) simp
  then obtain k where k: "ipc_wait (SuspendList 1) 7 RT_IPC_FLAG_FIFO 0xFFFFFFFF ?k = Some k" by blast
  have c: "in_thread_context ?k"
    using demo_smp_fields(5) by (simp add: in_thread_context_def not_in_interrupt_def rt_thread_self_def rt_cpu_self_def)
  obtain v b start where b: "mb_recv_begin demo_mb 0xFFFFFFFF demo_smp = Some (Blocked, v, b, start, demo_mb, k)"
    using k c by (simp add: mb_recv_begin_def demo_mb_fields demo_smp_fields Let_def)
  let ?r = "demo_mb_run\<lparr>the_mb := demo_mb, mb_kernel := k, mb_receivers := insert 7 (mb_receivers demo_mb_run)\<rparr>"
  have f: "mb_kernel demo_mb_run = demo_smp" "the_mb demo_mb_run = demo_mb" "mb_receivers demo_mb_run = {}" "mb_inside demo_mb_run = {}"
    by (simp_all add: demo_mb_run_def mb_inside_def)
  have "mb_step demo_mb_run ?r"
    by (rule mb_step.recv_wait[where time = "0xFFFFFFFF" and v = v and b = b and start = start])
      (simp_all only: f b demo_smp_fields empty_iff not_False_eq_True)
  then have run: "mb_step\<^sup>*\<^sup>* demo_mb_run ?r" by (rule r_into_rtranclp)
  have "rt_lists k (SuspendList 1) = [7]"
    by (simp add: ipc_wait_ok(4)[OF k e] wait_insert_def demo_smp_fields)
  then show ?thesis using run mailbox_no_lost_wakeup[OF demo_mb_start run] f(3) by (intro exI[of _ ?r]) simp
qed

section \<open>Message queues\<close>

text \<open>A queue of two messages of four bytes; one message is sent.\<close>

definition demo_mq_run :: mq_run where
  "demo_mq_run = \<lparr>the_mq = fresh_mq (SuspendList 1) (\<lambda>_. [0, 0, 0, 0]) 4 2 RT_IPC_FLAG_FIFO, mq_filling = {},
     mq_filled = Map.empty, mq_reading = Map.empty, queued = []\<rparr>"

lemma demo_mq_start: "mq_start demo_mq_run"
  unfolding mq_start_def demo_mq_run_def by (intro conjI exI[of _ "SuspendList 1"] exI[of _ "\<lambda>_. [0, 0, 0, 0]"] exI[of _ 4] exI[of _ 2] exI[of _ RT_IPC_FLAG_FIFO]) auto

lemma message_queue_slots_witness:
  "\<exists>r i. mq_step\<^sup>*\<^sup>* demo_mq_run r \<and> queued r = [[7, 8]] \<and> list_all2 (holds (the_mq r)) [i] [[7, 8]] \<and> unat (mq_entry (the_mq r)) = 1"
proof -
  let ?r = demo_mq_run
  have "mq_take_slot (the_mq ?r) \<noteq> None" and sz: "msg_size (the_mq ?r) = 4"
    by (simp_all add: demo_mq_run_def fresh_mq_def mq_take_slot_def put_free_fields fresh_slots upt_conv_Cons)
  then obtain i m where m: "mq_take_slot (the_mq ?r) = Some (i, m)" "msg_size m = 4"
    by (auto simp: mq_take_slot_def split: option.splits)
  define r1 where "r1 = ?r\<lparr>the_mq := m, mq_filling := insert i (mq_filling ?r)\<rparr>"
  define r2 where "r2 = r1\<lparr>the_mq := mq_copy_in i [7, 8] (mq_set_next i None (the_mq r1)), mq_filling := mq_filling r1 - {i},
      mq_filled := (mq_filled r1)(i \<mapsto> (False, [7, 8]))\<rparr>"
  define r3 where "r3 = r2\<lparr>the_mq := mq_link_tail i (the_mq r2), mq_filled := (mq_filled r2)(i := None), queued := queued r2 @ [[7, 8]]\<rparr>"
  have "mq_step ?r r1" unfolding r1_def by (rule mq_step.take_slot[OF m(1)])
  moreover have "mq_step r1 r2" unfolding r2_def by (rule mq_step.fill) (simp_all add: r1_def m(2))
  moreover have "mq_step r2 r3" unfolding r3_def by (rule mq_step.link) (simp add: r2_def)
  ultimately have run: "mq_step\<^sup>*\<^sup>* ?r r3" by (meson r_into_rtranclp rtranclp_trans)
  have q: "queued r3 = [[7, 8]]" by (simp add: r3_def r2_def r1_def demo_mq_run_def)
  obtain qs where "list_all2 (holds (the_mq r3)) qs (queued r3)" "unat (mq_entry (the_mq r3)) = length (queued r3)"
    using message_queue_slots[OF demo_mq_start run] by blast
  then show ?thesis using run q by (auto simp: list_all2_Cons2)
qed

section \<open>Memory pools\<close>

text \<open>A pool of two blocks of four bytes; one block is handed out.\<close>

lemma mempool_blocks_witness:
  "\<exists>mp mp' b. mp_start_ok 4 2 mp \<and> mp_step\<^sup>*\<^sup>* mp mp' \<and> b \<in> mp_used mp' \<and> b \<in> mp_blocks 8 2"
proof -
  obtain hs where hs: "mp_build 16 4 2 = Some hs" using mp_build_ok[of 2 4 16] by auto
  let ?mp = "fresh_mp 0x1000 16 4 2 hs (SuspendList 1)"
  have s: "mp_start_ok 4 2 ?mp" unfolding mp_start_ok_def using hs by (intro conjI exI[of _ 16] exI[of _ hs] exI[of _ "0x1000"]) auto
  obtain fs where "mp_chain ?mp fs" using mp_start_inv[OF s] by (auto simp: mp_inv_def)
  then obtain b mp' where "mp_pop ?mp = Some (b, mp')" using mp_pop_ok[of ?mp fs] by (auto simp: fresh_mp_def)
  then have a: "rt_mp_alloc ?mp 0 demo_smp = Some (Result (Some b), 0, mp', demo_smp)"
    by (simp add: rt_mp_alloc_def mp_alloc_loop_def fresh_mp_def)
  then have run: "mp_step\<^sup>*\<^sup>* ?mp mp'" by (intro r_into_rtranclp mp_step.alloc)
  have "b \<in> mp_used mp'" using mempool_blocks[OF s rtranclp.rtrancl_refl] a by blast
  moreover have "mp_used mp' \<subseteq> mp_blocks (4 + 4) (unat (2 :: word32))" using mempool_blocks[OF s run] by blast
  ultimately show ?thesis using s run by auto
qed

text \<open>Thread 7 waits for ten ticks and times out; the release of the block that is out fails.\<close>

definition demo_mp :: rt_mempool where
  "demo_mp = \<lparr>mp_start = 0x1000, mp_size = 8, block_size = 4, block_hdrs = [0 \<mapsto> OwnerPool], block_list = None,
     block_total_count = 1, block_free_count = 0, mp_suspend = SuspendList 1, suspend_thread_count = 0\<rparr>"

lemma mempool_timeout_breaks_free_witness:
  "\<exists>k1 k2 start mp'. rt_mp_alloc demo_mp 10 demo_smp = Some (Blocked, start, mp', k1) \<and> thread_timeout_begin 7 k1 = Some k2 \<and>
    rt_mp_free 0 mp' k2 = None"
proof -
  note f = demo_smp_fields
  have n: "block_free_count demo_mp = 0" "suspend_thread_count demo_mp = 0" "mp_suspend demo_mp = SuspendList 1"
    by (simp_all add: demo_mp_def)
  have ni: "not_in_interrupt demo_smp" using f(5) by (simp add: in_thread_context_def)
  have "\<exists>k1 start mp'. rt_mp_alloc demo_mp 10 demo_smp = Some (Blocked, start, mp', k1) \<and> stat (tcb k1 7) = RT_THREAD_SUSPEND"
  proof -
    obtain kl where kl: "smp_ok kl" "rt_thread_self kl = Some 7" "stat (tcb kl 7) = RT_THREAD_SUSPEND"
      and u: "mp_alloc_loop demo_mp 10 demo_smp = do {
        kt \<leftarrow> (if 0 < sint (10 :: word32) then start_thread_timer 7 10 kl else Some kl);
        k1 \<leftarrow> rt_schedule kt;
        Some (Blocked, rt_tick_get kt, demo_mp\<lparr>suspend_thread_count := suspend_thread_count demo_mp + 1\<rparr>, k1) }"
      using mp_wait_unfold[OF demo_smp_ok f(1,2) n(1) _ ni n(3) f(4), of 10] by auto
    obtain kt where kt: "start_thread_timer 7 10 kl = Some kt"
      by (simp add: start_thread_timer_def timer_start_def Let_def timer_upd_def timer_remove_def word_less_nat_alt tick_half_val)
    note e = same_schedD[OF start_thread_timer_sched[OF kt]] smp_ok_same[OF start_thread_timer_sched[OF kt] kl(1)]
    obtain k1 where k1: "rt_schedule kt = Some k1" using schedule_Some[of kt 7] e kl(2) by (auto simp: rt_thread_self_def rt_cpu_self_def)
    have "stat (tcb k1 7) = RT_THREAD_SUSPEND" using thread_core_eq(2)[OF schedule_smp(3)[OF _ k1]] e kl(3) by simp
    then show ?thesis using kt k1 by (simp add: rt_mp_alloc_def u)
  qed
  then obtain k1 start mp' where a: "rt_mp_alloc demo_mp 10 demo_smp = Some (Blocked, start, mp', k1)" "stat (tcb k1 7) = RT_THREAD_SUSPEND"
    by blast
  obtain k2 where k2: "thread_timeout_begin 7 k1 = Some k2" using a(2) by (simp add: thread_timeout_begin_def)
  show ?thesis using mempool_timeout_breaks_free[OF demo_smp_ok f(1,2) ni n f(4) a(1) k2] a(1) k2 by blast
qed

end
