(* ===== verification/FinshVm.thy ===== *)
theory FinshVm
  imports Prelude "HOL-Library.Signed_Division"
begin

text \<open>
  The virtual machine of the shell language (\<open>components/finsh/finsh_vm.c\<close>, \<open>finsh_ops.c\<close>): a stack
  of 64 slots, a text segment of 128 bytes and the memory of the program. \<open>None\<close> is an access outside the
  stack, the text segment or the memory, a jump through the end of the table of operations, or an
  operation whose result C leaves undefined (division by zero, shift by a negative number or by 32 and
  more); signed sums and products wrap around. A plain char is unsigned, as on ARM.
\<close>

section \<open>State\<close>

definition FINSH_STACK_MAX :: nat where "FINSH_STACK_MAX = 64"
definition FINSH_TEXT_MAX :: nat where "FINSH_TEXT_MAX = 128"

type_synonym memory = "word32 \<Rightarrow> byte option"

record finsh_vm =
  finsh_vm_stack :: "word32 list"
  finsh_sp :: nat
  finsh_pc :: nat
  text_segment :: "byte list"
  vm_memory :: memory

text \<open>The type at which a slot (\<open>union finsh_value\<close>) is read or written; a write leaves the bytes above it.\<close>

datatype width = Byte | Word | Dword

fun width_bytes :: "width \<Rightarrow> nat" where
  "width_bytes Byte = 1"
| "width_bytes Word = 2"
| "width_bytes Dword = 4"

fun get_as :: "width \<Rightarrow> word32 \<Rightarrow> int" where
  "get_as Byte v = uint (ucast v :: byte)"
| "get_as Word v = sint (ucast v :: word16)"
| "get_as Dword v = sint v"

fun put_as :: "width \<Rightarrow> int \<Rightarrow> word32 \<Rightarrow> word32" where
  "put_as Byte x v = (v AND NOT 0xFF) OR ucast (of_int x :: byte)"
| "put_as Word x v = (v AND NOT 0xFFFF) OR ucast (of_int x :: word16)"
| "put_as Dword x v = of_int x"

text \<open>Bytes of a number, the lowest first (\<open>FINSH_GET16\<close>, \<open>FINSH_GET32\<close>, \<open>FINSH_SET16\<close>, \<open>FINSH_SET32\<close>).\<close>

fun le_word :: "byte list \<Rightarrow> word32" where
  "le_word [] = 0"
| "le_word (b # bs) = ucast b OR push_bit 8 (le_word bs)"

definition le_bytes :: "nat \<Rightarrow> word32 \<Rightarrow> byte list" where
  "le_bytes n v = map (\<lambda>i. ucast (drop_bit (8 * i) v)) [0..<n]"

text \<open>Loads from and stores to the memory; a signed value is read back by \<open>get_as\<close>.\<close>

definition ld_mem :: "width \<Rightarrow> word32 \<Rightarrow> memory \<Rightarrow> int option" where
  "ld_mem w a m = do {
     bs \<leftarrow> those (map (\<lambda>i. m (a + of_nat i)) [0..<width_bytes w]);
     Some (get_as w (le_word bs)) }"

definition st_mem :: "width \<Rightarrow> word32 \<Rightarrow> int \<Rightarrow> memory \<Rightarrow> memory option" where
  "st_mem w a x m = (if \<forall>i<width_bytes w. m (a + of_nat i) \<noteq> None
     then Some (\<lambda>p. if unat (p - a) < width_bytes w then Some (le_bytes 4 (of_int x) ! unat (p - a)) else m p)
     else None)"

text \<open>The slot \<open>n\<close> below the stack pointer (0 is the slot it points to), and the text at the program counter.\<close>

definition slot :: "nat \<Rightarrow> finsh_vm \<Rightarrow> word32 option" where
  "slot n s = (if n \<le> finsh_sp s then mem_rd (finsh_vm_stack s) (finsh_sp s - n) else None)"

definition set_slot :: "nat \<Rightarrow> word32 \<Rightarrow> finsh_vm \<Rightarrow> finsh_vm option" where
  "set_slot n v s = (if n \<le> finsh_sp s
     then map_option (\<lambda>st. s\<lparr>finsh_vm_stack := st\<rparr>) (mem_wr (finsh_vm_stack s) (finsh_sp s - n) v) else None)"

definition sp_dec :: "finsh_vm \<Rightarrow> finsh_vm option" where
  "sp_dec s = (if finsh_sp s = 0 then None else Some (s\<lparr>finsh_sp := finsh_sp s - 1\<rparr>))"

definition pc_bytes :: "nat \<Rightarrow> finsh_vm \<Rightarrow> byte list option" where
  "pc_bytes n s = those (map (\<lambda>i. mem_rd (text_segment s) (finsh_pc s + i)) [0..<n])"

section \<open>Operations\<close>

text \<open>The operators of C after the promotion of their operands to int.\<close>

definition c_div :: "int \<Rightarrow> int \<Rightarrow> int option" where
  "c_div a b = (if b = 0 then None else Some (a sdiv b))"

definition c_mod :: "int \<Rightarrow> int \<Rightarrow> int option" where
  "c_mod a b = (if b = 0 then None else Some (a smod b))"

definition c_shl :: "int \<Rightarrow> int \<Rightarrow> int option" where
  "c_shl a b = (if 0 \<le> b \<and> b < 32 then Some (push_bit (nat b) a) else None)"

definition c_shr :: "int \<Rightarrow> int \<Rightarrow> int option" where
  "c_shr a b = (if 0 \<le> b \<and> b < 32 then Some (drop_bit (nat b) a) else None)"

definition OP_BIN :: "width \<Rightarrow> (int \<Rightarrow> int \<Rightarrow> int option) \<Rightarrow> finsh_vm \<Rightarrow> finsh_vm option" where
  "OP_BIN w f s = do {
     a \<leftarrow> slot 2 s;
     b \<leftarrow> slot 1 s;
     x \<leftarrow> f (get_as w a) (get_as w b);
     s \<leftarrow> set_slot 2 (put_as w x a) s;
     sp_dec s }"

definition OP_no_op :: "finsh_vm \<Rightarrow> finsh_vm option" where
  "OP_no_op s = Some s"

definition OP_add_byte :: "finsh_vm \<Rightarrow> finsh_vm option" where "OP_add_byte = OP_BIN Byte (\<lambda>a b. Some (a + b))"
definition OP_add_word :: "finsh_vm \<Rightarrow> finsh_vm option" where "OP_add_word = OP_BIN Word (\<lambda>a b. Some (a + b))"
definition OP_add_dword :: "finsh_vm \<Rightarrow> finsh_vm option" where "OP_add_dword = OP_BIN Dword (\<lambda>a b. Some (a + b))"

definition OP_sub_byte :: "finsh_vm \<Rightarrow> finsh_vm option" where "OP_sub_byte = OP_BIN Byte (\<lambda>a b. Some (a - b))"
definition OP_sub_word :: "finsh_vm \<Rightarrow> finsh_vm option" where "OP_sub_word = OP_BIN Word (\<lambda>a b. Some (a - b))"
definition OP_sub_dword :: "finsh_vm \<Rightarrow> finsh_vm option" where "OP_sub_dword = OP_BIN Dword (\<lambda>a b. Some (a - b))"

definition OP_div_byte :: "finsh_vm \<Rightarrow> finsh_vm option" where "OP_div_byte = OP_BIN Byte c_div"
definition OP_div_word :: "finsh_vm \<Rightarrow> finsh_vm option" where "OP_div_word = OP_BIN Word c_div"
definition OP_div_dword :: "finsh_vm \<Rightarrow> finsh_vm option" where "OP_div_dword = OP_BIN Dword c_div"

definition OP_mod_byte :: "finsh_vm \<Rightarrow> finsh_vm option" where "OP_mod_byte = OP_BIN Byte c_mod"
definition OP_mod_word :: "finsh_vm \<Rightarrow> finsh_vm option" where "OP_mod_word = OP_BIN Word c_mod"
definition OP_mod_dword :: "finsh_vm \<Rightarrow> finsh_vm option" where "OP_mod_dword = OP_BIN Dword c_mod"

definition OP_mul_byte :: "finsh_vm \<Rightarrow> finsh_vm option" where "OP_mul_byte = OP_BIN Byte (\<lambda>a b. Some (a * b))"
definition OP_mul_word :: "finsh_vm \<Rightarrow> finsh_vm option" where "OP_mul_word = OP_BIN Word (\<lambda>a b. Some (a * b))"
definition OP_mul_dword :: "finsh_vm \<Rightarrow> finsh_vm option" where "OP_mul_dword = OP_BIN Dword (\<lambda>a b. Some (a * b))"

definition OP_and_byte :: "finsh_vm \<Rightarrow> finsh_vm option" where "OP_and_byte = OP_BIN Byte (\<lambda>a b. Some (a AND b))"
definition OP_and_word :: "finsh_vm \<Rightarrow> finsh_vm option" where "OP_and_word = OP_BIN Word (\<lambda>a b. Some (a AND b))"
definition OP_and_dword :: "finsh_vm \<Rightarrow> finsh_vm option" where "OP_and_dword = OP_BIN Dword (\<lambda>a b. Some (a AND b))"

definition OP_or_byte :: "finsh_vm \<Rightarrow> finsh_vm option" where "OP_or_byte = OP_BIN Byte (\<lambda>a b. Some (a OR b))"
definition OP_or_word :: "finsh_vm \<Rightarrow> finsh_vm option" where "OP_or_word = OP_BIN Word (\<lambda>a b. Some (a OR b))"
definition OP_or_dword :: "finsh_vm \<Rightarrow> finsh_vm option" where "OP_or_dword = OP_BIN Dword (\<lambda>a b. Some (a OR b))"

definition OP_xor_byte :: "finsh_vm \<Rightarrow> finsh_vm option" where "OP_xor_byte = OP_BIN Byte (\<lambda>a b. Some (a XOR b))"
definition OP_xor_word :: "finsh_vm \<Rightarrow> finsh_vm option" where "OP_xor_word = OP_BIN Word (\<lambda>a b. Some (a XOR b))"
definition OP_xor_dword :: "finsh_vm \<Rightarrow> finsh_vm option" where "OP_xor_dword = OP_BIN Dword (\<lambda>a b. Some (a XOR b))"

definition bw_slot :: "width \<Rightarrow> finsh_vm \<Rightarrow> finsh_vm option" where
  "bw_slot w s = do { a \<leftarrow> slot 1 s; set_slot 1 (put_as w (NOT (get_as w a)) a) s }"

definition OP_bw_byte :: "finsh_vm \<Rightarrow> finsh_vm option" where "OP_bw_byte = bw_slot Byte"
definition OP_bw_word :: "finsh_vm \<Rightarrow> finsh_vm option" where "OP_bw_word = bw_slot Word"
definition OP_bw_dword :: "finsh_vm \<Rightarrow> finsh_vm option" where "OP_bw_dword = bw_slot Dword"

definition OP_shl_byte :: "finsh_vm \<Rightarrow> finsh_vm option" where "OP_shl_byte = OP_BIN Byte c_shl"
definition OP_shl_word :: "finsh_vm \<Rightarrow> finsh_vm option" where "OP_shl_word = OP_BIN Word c_shl"
definition OP_shl_dword :: "finsh_vm \<Rightarrow> finsh_vm option" where "OP_shl_dword = OP_BIN Dword c_shl"

definition OP_shr_byte :: "finsh_vm \<Rightarrow> finsh_vm option" where "OP_shr_byte = OP_BIN Byte c_shr"
definition OP_shr_word :: "finsh_vm \<Rightarrow> finsh_vm option" where "OP_shr_word = OP_BIN Word c_shr"
definition OP_shr_dword :: "finsh_vm \<Rightarrow> finsh_vm option" where "OP_shr_dword = OP_BIN Dword c_shr"

text \<open>Loads: a number behind the operation, the memory at such an address, the memory at the address on the stack.\<close>

definition ld_const :: "width \<Rightarrow> finsh_vm \<Rightarrow> finsh_vm option" where
  "ld_const w s = do {
     bs \<leftarrow> pc_bytes (width_bytes w) s;
     v \<leftarrow> slot 0 s;
     s \<leftarrow> set_slot 0 (put_as w (uint (le_word bs)) v) s;
     Some (s\<lparr>finsh_sp := finsh_sp s + 1, finsh_pc := finsh_pc s + width_bytes w\<rparr>) }"

definition OP_ld_byte :: "finsh_vm \<Rightarrow> finsh_vm option" where "OP_ld_byte = ld_const Byte"
definition OP_ld_word :: "finsh_vm \<Rightarrow> finsh_vm option" where "OP_ld_word = ld_const Word"
definition OP_ld_dword :: "finsh_vm \<Rightarrow> finsh_vm option" where "OP_ld_dword = ld_const Dword"

definition ld_value :: "width \<Rightarrow> finsh_vm \<Rightarrow> finsh_vm option" where
  "ld_value w s = do {
     bs \<leftarrow> pc_bytes 4 s;
     x \<leftarrow> ld_mem w (le_word bs) (vm_memory s);
     v \<leftarrow> slot 0 s;
     s \<leftarrow> set_slot 0 (put_as w x v) s;
     Some (s\<lparr>finsh_sp := finsh_sp s + 1, finsh_pc := finsh_pc s + 4\<rparr>) }"

definition OP_ld_value_byte :: "finsh_vm \<Rightarrow> finsh_vm option" where "OP_ld_value_byte = ld_value Byte"
definition OP_ld_value_word :: "finsh_vm \<Rightarrow> finsh_vm option" where "OP_ld_value_word = ld_value Word"
definition OP_ld_value_dword :: "finsh_vm \<Rightarrow> finsh_vm option" where "OP_ld_value_dword = ld_value Dword"

definition ld_value_stack :: "width \<Rightarrow> finsh_vm \<Rightarrow> finsh_vm option" where
  "ld_value_stack w s = do {
     a \<leftarrow> slot 1 s;
     x \<leftarrow> ld_mem w a (vm_memory s);
     set_slot 1 (put_as w x a) s }"

definition OP_ld_value_byte_stack :: "finsh_vm \<Rightarrow> finsh_vm option" where "OP_ld_value_byte_stack = ld_value_stack Byte"
definition OP_ld_value_word_stack :: "finsh_vm \<Rightarrow> finsh_vm option" where "OP_ld_value_word_stack = ld_value_stack Word"
definition OP_ld_value_dword_stack :: "finsh_vm \<Rightarrow> finsh_vm option" where "OP_ld_value_dword_stack = ld_value_stack Dword"

text \<open>A store leaves the address on the stack.\<close>

definition st_value :: "width \<Rightarrow> finsh_vm \<Rightarrow> finsh_vm option" where
  "st_value w s = do {
     a \<leftarrow> slot 2 s;
     v \<leftarrow> slot 1 s;
     m \<leftarrow> st_mem w a (get_as w v) (vm_memory s);
     sp_dec (s\<lparr>vm_memory := m\<rparr>) }"

definition OP_st_byte :: "finsh_vm \<Rightarrow> finsh_vm option" where "OP_st_byte = st_value Byte"
definition OP_st_word :: "finsh_vm \<Rightarrow> finsh_vm option" where "OP_st_word = st_value Word"
definition OP_st_dword :: "finsh_vm \<Rightarrow> finsh_vm option" where "OP_st_dword = st_value Dword"

definition OP_pop :: "finsh_vm \<Rightarrow> finsh_vm option" where
  "OP_pop s = sp_dec s"

text \<open>
  \<open>f\<close> is what calling the function at an address with some arguments does: it is not part of the shell. The
  array of arguments has 16 places; without arguments the function is called with 0.
\<close>

type_synonym syscalls = "word32 \<Rightarrow> word32 list \<Rightarrow> memory \<Rightarrow> (word32 \<times> memory) option"

definition OP_call :: "syscalls \<Rightarrow> finsh_vm \<Rightarrow> finsh_vm option" where
  "OP_call f s = do {
     b \<leftarrow> mem_rd (text_segment s) (finsh_pc s);
     s \<leftarrow> Some (s\<lparr>finsh_pc := finsh_pc s + 1\<rparr>);
     let n = unat b in
     (if n > 16 then None else do {
        parameterv \<leftarrow> those (map (\<lambda>i. slot i s) (rev [1..<n + 1]));
        addr \<leftarrow> slot (n + 1) s;
        (r, m) \<leftarrow> f addr (if n = 0 then [0] else parameterv) (vm_memory s);
        s \<leftarrow> set_slot (n + 1) r (s\<lparr>vm_memory := m\<rparr>);
        Some (s\<lparr>finsh_sp := finsh_sp s - n\<rparr>) }) }"

definition op_table :: "syscalls \<Rightarrow> (finsh_vm \<Rightarrow> finsh_vm option) list" where
  "op_table f = [
     OP_no_op, OP_add_byte, OP_add_word, OP_add_dword,
     OP_sub_byte, OP_sub_word, OP_sub_dword, OP_div_byte,
     OP_div_word, OP_div_dword, OP_mod_byte, OP_mod_word,
     OP_mod_dword, OP_mul_byte, OP_mul_word, OP_mul_dword,
     OP_and_byte, OP_and_word, OP_and_dword, OP_or_byte,
     OP_or_word, OP_or_dword, OP_xor_byte, OP_xor_word,
     OP_xor_dword, OP_bw_byte, OP_bw_word, OP_bw_dword,
     OP_shl_byte, OP_shl_word, OP_shl_dword, OP_shr_byte,
     OP_shr_word, OP_shr_dword, OP_ld_byte, OP_ld_word,
     OP_ld_dword, OP_ld_value_byte, OP_ld_value_word, OP_ld_value_dword,
     OP_st_byte, OP_st_word, OP_st_dword, OP_pop,
     OP_call f, OP_ld_value_byte_stack, OP_ld_value_word_stack, OP_ld_value_dword_stack]"

section \<open>Running\<close>

text \<open>Fetch and execute; the entry behind the last operation of the table is the null pointer.\<close>

definition vm_step :: "syscalls \<Rightarrow> finsh_vm \<Rightarrow> finsh_vm option" where
  "vm_step f s = do {
     b \<leftarrow> mem_rd (text_segment s) (finsh_pc s);
     g \<leftarrow> mem_rd (op_table f) (unat b);
     g (s\<lparr>finsh_pc := finsh_pc s + 1\<rparr>) }"

definition vm_more :: "finsh_vm \<Rightarrow> bool" where
  "vm_more s \<longleftrightarrow> finsh_pc s < FINSH_TEXT_MAX"

text \<open>At most \<open>fuel\<close> operations.\<close>

definition finsh_vm_run :: "nat \<Rightarrow> syscalls \<Rightarrow> finsh_vm \<Rightarrow> finsh_vm outcome" where
  "finsh_vm_run fuel f s = of_loop (run_loop fuel vm_more (vm_step f) (s\<lparr>finsh_sp := 0, finsh_pc := 0\<rparr>))"

definition finsh_stack_bottom :: "finsh_vm \<Rightarrow> word32" where
  "finsh_stack_bottom s = hd (finsh_vm_stack s)"

end
