(* ===== verification/FinshNode.thy ===== *)
theory FinshNode
  imports FinshVm
begin

text \<open>
  The data of the shell language (\<open>components/finsh/finsh.h\<close>): types, errors, the table of variables
  (\<open>finsh_var.c\<close>), the tables of system variables and functions, and the nodes of the syntax tree
  (\<open>finsh_node.c\<close>). A tree is a value: every node of the table of sixteen is pointed to at most once. How
  many entries of that table are in use is part of the state.
\<close>

section \<open>Types and errors\<close>

datatype finsh_type =
  finsh_type_unknown | finsh_type_void | finsh_type_voidp | finsh_type_char
  | finsh_type_uchar | finsh_type_charp | finsh_type_short | finsh_type_ushort
  | finsh_type_shortp | finsh_type_int | finsh_type_uint | finsh_type_intp
  | finsh_type_long | finsh_type_ulong | finsh_type_longp

fun finsh_type_num :: "finsh_type \<Rightarrow> byte" where
  "finsh_type_num finsh_type_unknown = 0"
| "finsh_type_num finsh_type_void = 1"
| "finsh_type_num finsh_type_voidp = 2"
| "finsh_type_num finsh_type_char = 3"
| "finsh_type_num finsh_type_uchar = 4"
| "finsh_type_num finsh_type_charp = 5"
| "finsh_type_num finsh_type_short = 6"
| "finsh_type_num finsh_type_ushort = 7"
| "finsh_type_num finsh_type_shortp = 8"
| "finsh_type_num finsh_type_int = 9"
| "finsh_type_num finsh_type_uint = 10"
| "finsh_type_num finsh_type_intp = 11"
| "finsh_type_num finsh_type_long = 12"
| "finsh_type_num finsh_type_ulong = 13"
| "finsh_type_num finsh_type_longp = 14"

datatype finsh_error =
  FINSH_ERROR_OK | FINSH_ERROR_INVALID_TOKEN | FINSH_ERROR_EXPECT_TYPE | FINSH_ERROR_UNKNOWN_TYPE
  | FINSH_ERROR_VARIABLE_EXIST | FINSH_ERROR_EXPECT_OPERATOR | FINSH_ERROR_MEMORY_FULL | FINSH_ERROR_UNKNOWN_OP
  | FINSH_ERROR_UNKNOWN_NODE | FINSH_ERROR_EXPECT_CHAR | FINSH_ERROR_UNEXPECT_END | FINSH_ERROR_UNKNOWN_TOKEN
  | FINSH_ERROR_NO_FLOAT | FINSH_ERROR_UNKNOWN_SYMBOL | FINSH_ERROR_NULL_NODE

definition FINSH_NAME_MAX :: nat where "FINSH_NAME_MAX = 16"
definition FINSH_NODE_MAX :: nat where "FINSH_NODE_MAX = 16"
definition FINSH_VARIABLE_MAX :: nat where "FINSH_VARIABLE_MAX = 8"

section \<open>Variables\<close>

text \<open>
  The value of a variable is in the memory, at the place the table entry has there: 24 bytes per entry, the
  value behind the first 20. \<open>base\<close> is the address of the table.
\<close>

record finsh_var =
  var_name :: string
  var_type :: finsh_type

definition var_ptr :: "word32 \<Rightarrow> nat \<Rightarrow> word32" where
  "var_ptr base i = base + of_nat i * 24"

definition value_offset :: word32 where "value_offset = 20"

text \<open>\<open>strncmp (a, b, n) == 0\<close> and \<open>strcmp (a, b) == 0\<close> on strings without a zero byte.\<close>

definition strn_eq :: "string \<Rightarrow> string \<Rightarrow> nat \<Rightarrow> bool" where
  "strn_eq a b n \<longleftrightarrow> take n a = take n b"

text \<open>The first index at which a condition holds.\<close>

fun find_index :: "('a \<Rightarrow> bool) \<Rightarrow> 'a list \<Rightarrow> nat option" where
  "find_index p [] = None"
| "find_index p (x # xs) = (if p x then Some 0 else map_option Suc (find_index p xs))"

definition no_var :: finsh_var where
  "no_var = \<lparr>var_name = [], var_type = finsh_type_unknown\<rparr>"

definition finsh_var_init :: "finsh_var list" where
  "finsh_var_init = replicate FINSH_VARIABLE_MAX no_var"

definition finsh_var_lookup :: "string \<Rightarrow> finsh_var list \<Rightarrow> nat option" where
  "finsh_var_lookup name vs = find_index (\<lambda>v. strn_eq (var_name v) name FINSH_NAME_MAX) vs"

text \<open>\<open>None\<close> is the result -1.\<close>

definition finsh_var_insert :: "string \<Rightarrow> finsh_type \<Rightarrow> finsh_var list \<Rightarrow> (nat \<times> finsh_var list) option" where
  "finsh_var_insert name type vs = (if finsh_var_lookup name vs \<noteq> None then None
     else case find_index (\<lambda>v. var_type v = finsh_type_unknown) vs of None \<Rightarrow> None
     | Some i \<Rightarrow> Some (i, vs[i := \<lparr>var_name = take FINSH_NAME_MAX name, var_type = type\<rparr>]))"

text \<open>Deleting a variable clears its entry, the value included. The inner \<open>None\<close> is the result -1.\<close>

definition finsh_var_delete :: "word32 \<Rightarrow> string \<Rightarrow> finsh_var list \<Rightarrow> memory \<Rightarrow> (finsh_var list \<times> memory) option option" where
  "finsh_var_delete base name vs m = (case finsh_var_lookup name vs of None \<Rightarrow> Some None
     | Some i \<Rightarrow> do { m \<leftarrow> st_mem Dword (var_ptr base i + value_offset) 0 m; Some (Some (vs[i := no_var], m)) })"

text \<open>
  System variables and functions: a table the program is linked with and a list that grows at the front.
  Names of the table are compared as a whole, those of the list up to the length of the name sought. The
  addresses are those of the entry and of the variable or function.
\<close>

record finsh_sysvar =
  sysvar_name :: string
  sysvar_type :: finsh_type
  sysvar_ptr :: word32
  sysvar_var :: word32

record finsh_syscall =
  syscall_name :: string
  syscall_ptr :: word32
  syscall_func :: word32

record finsh_symbols =
  sysvar_table :: "finsh_sysvar list"
  global_sysvar_list :: "finsh_sysvar list"
  syscall_table :: "finsh_syscall list"
  global_syscall_list :: "finsh_syscall list"

text \<open>Adding to a list: \<open>item\<close> is the address the heap gives for the new entry, or null; the copy of the name is made.\<close>

definition finsh_sysvar_append :: "word32 \<Rightarrow> string \<Rightarrow> finsh_type \<Rightarrow> word32 \<Rightarrow> finsh_symbols \<Rightarrow> finsh_symbols" where
  "finsh_sysvar_append item name type addr s = (if item = 0 then s else
     s\<lparr>global_sysvar_list := \<lparr>sysvar_name = name, sysvar_type = type, sysvar_ptr = item + 4, sysvar_var = addr\<rparr> # global_sysvar_list s\<rparr>)"

definition finsh_syscall_append :: "word32 \<Rightarrow> string \<Rightarrow> word32 \<Rightarrow> finsh_symbols \<Rightarrow> finsh_symbols" where
  "finsh_syscall_append item name func s = (if item = 0 then s else
     s\<lparr>global_syscall_list := \<lparr>syscall_name = name, syscall_ptr = item + 4, syscall_func = func\<rparr> # global_syscall_list s\<rparr>)"

definition finsh_sysvar_lookup :: "string \<Rightarrow> finsh_symbols \<Rightarrow> finsh_sysvar option" where
  "finsh_sysvar_lookup name s = (case find (\<lambda>v. sysvar_name v = name) (sysvar_table s) of Some v \<Rightarrow> Some v
     | None \<Rightarrow> find (\<lambda>v. strn_eq (sysvar_name v) name (length name)) (global_sysvar_list s))"

definition finsh_syscall_lookup :: "string \<Rightarrow> finsh_symbols \<Rightarrow> finsh_syscall option" where
  "finsh_syscall_lookup name s = (case find (\<lambda>v. syscall_name v = name) (syscall_table s) of Some v \<Rightarrow> Some v
     | None \<Rightarrow> find (\<lambda>v. strn_eq (syscall_name v) name (length name)) (global_syscall_list s))"

section \<open>Nodes\<close>

datatype finsh_node_type =
  FINSH_NODE_UNKNOWN | FINSH_NODE_ID | FINSH_NODE_VALUE_CHAR | FINSH_NODE_VALUE_INT
  | FINSH_NODE_VALUE_LONG | FINSH_NODE_VALUE_STRING | FINSH_NODE_VALUE_NULL | FINSH_NODE_SYS_ADD
  | FINSH_NODE_SYS_SUB | FINSH_NODE_SYS_MUL | FINSH_NODE_SYS_DIV | FINSH_NODE_SYS_MOD
  | FINSH_NODE_SYS_AND | FINSH_NODE_SYS_OR | FINSH_NODE_SYS_XOR | FINSH_NODE_SYS_BITWISE
  | FINSH_NODE_SYS_SHL | FINSH_NODE_SYS_SHR | FINSH_NODE_SYS_FUNC | FINSH_NODE_SYS_ASSIGN
  | FINSH_NODE_SYS_CAST | FINSH_NODE_SYS_PREINC | FINSH_NODE_SYS_PREDEC | FINSH_NODE_SYS_INC
  | FINSH_NODE_SYS_DEC | FINSH_NODE_SYS_GETVALUE | FINSH_NODE_SYS_GETADDR | FINSH_NODE_SYS_NULL

definition FINSH_DATA_TYPE_VOID :: byte where "FINSH_DATA_TYPE_VOID = 0"
definition FINSH_DATA_TYPE_BYTE :: byte where "FINSH_DATA_TYPE_BYTE = 1"
definition FINSH_DATA_TYPE_WORD :: byte where "FINSH_DATA_TYPE_WORD = 2"
definition FINSH_DATA_TYPE_DWORD :: byte where "FINSH_DATA_TYPE_DWORD = 3"
definition FINSH_IDTYPE_VAR :: byte where "FINSH_IDTYPE_VAR = 1"
definition FINSH_IDTYPE_SYSVAR :: byte where "FINSH_IDTYPE_SYSVAR = 2"
definition FINSH_IDTYPE_SYSCALL :: byte where "FINSH_IDTYPE_SYSCALL = 4"
definition FINSH_IDTYPE_ADDRESS :: byte where "FINSH_IDTYPE_ADDRESS = 8"
definition FINSH_NODE_VALUE :: byte where "FINSH_NODE_VALUE = 0"

text \<open>What an identifier stands for: an entry of the table of variables, or of one of the other two.\<close>

datatype finsh_id = IdNone | IdVar nat | IdSysvar finsh_sysvar | IdSyscall finsh_syscall

record node_info =
  node_type :: finsh_node_type
  data_type :: byte
  idtype :: byte
  node_value :: word32
  node_id :: finsh_id

text \<open>A node as it is allocated: the table is cleared between two lines.\<close>

definition leaf :: "finsh_node_type \<Rightarrow> node_info" where
  "leaf nt = \<lparr>node_type = nt, data_type = 0, idtype = 0, node_value = 0, node_id = IdNone\<rparr>"

datatype finsh_node = NullNode | Node (info: node_info) (child: finsh_node) (sibling: finsh_node)

end
