(* ===== verification/FinshCompiler.thy ===== *)
theory FinshCompiler
  imports FinshNode
begin

text \<open>
  The compiler of the shell language (\<open>components/finsh/finsh_compiler.c\<close>): a pass over the syntax tree
  that fills in the types, and a pass that writes the text segment. Writing behind its end is \<open>None\<close>, and
  so is a node that stands for something else than its flags say.
\<close>

section \<open>Operation codes\<close>

definition FINSH_OP_NOOP :: byte where "FINSH_OP_NOOP = 0x00"
definition FINSH_OP_ADD_BYTE :: byte where "FINSH_OP_ADD_BYTE = 0x01"
definition FINSH_OP_ADD_WORD :: byte where "FINSH_OP_ADD_WORD = 0x02"
definition FINSH_OP_ADD_DWORD :: byte where "FINSH_OP_ADD_DWORD = 0x03"
definition FINSH_OP_SUB_BYTE :: byte where "FINSH_OP_SUB_BYTE = 0x04"
definition FINSH_OP_SUB_WORD :: byte where "FINSH_OP_SUB_WORD = 0x05"
definition FINSH_OP_SUB_DWORD :: byte where "FINSH_OP_SUB_DWORD = 0x06"
definition FINSH_OP_DIV_BYTE :: byte where "FINSH_OP_DIV_BYTE = 0x07"
definition FINSH_OP_DIV_WORD :: byte where "FINSH_OP_DIV_WORD = 0x08"
definition FINSH_OP_DIV_DWORD :: byte where "FINSH_OP_DIV_DWORD = 0x09"
definition FINSH_OP_MOD_BYTE :: byte where "FINSH_OP_MOD_BYTE = 0x0A"
definition FINSH_OP_MOD_WORD :: byte where "FINSH_OP_MOD_WORD = 0x0B"
definition FINSH_OP_MOD_DWORD :: byte where "FINSH_OP_MOD_DWORD = 0x0C"
definition FINSH_OP_MUL_BYTE :: byte where "FINSH_OP_MUL_BYTE = 0x0D"
definition FINSH_OP_MUL_WORD :: byte where "FINSH_OP_MUL_WORD = 0x0E"
definition FINSH_OP_MUL_DWORD :: byte where "FINSH_OP_MUL_DWORD = 0x0F"
definition FINSH_OP_AND_BYTE :: byte where "FINSH_OP_AND_BYTE = 0x10"
definition FINSH_OP_AND_WORD :: byte where "FINSH_OP_AND_WORD = 0x11"
definition FINSH_OP_AND_DWORD :: byte where "FINSH_OP_AND_DWORD = 0x12"
definition FINSH_OP_OR_BYTE :: byte where "FINSH_OP_OR_BYTE = 0x13"
definition FINSH_OP_OR_WORD :: byte where "FINSH_OP_OR_WORD = 0x14"
definition FINSH_OP_OR_DWORD :: byte where "FINSH_OP_OR_DWORD = 0x15"
definition FINSH_OP_XOR_BYTE :: byte where "FINSH_OP_XOR_BYTE = 0x16"
definition FINSH_OP_XOR_WORD :: byte where "FINSH_OP_XOR_WORD = 0x17"
definition FINSH_OP_XOR_DWORD :: byte where "FINSH_OP_XOR_DWORD = 0x18"
definition FINSH_OP_BITWISE_BYTE :: byte where "FINSH_OP_BITWISE_BYTE = 0x19"
definition FINSH_OP_BITWISE_WORD :: byte where "FINSH_OP_BITWISE_WORD = 0x1A"
definition FINSH_OP_BITWISE_DWORD :: byte where "FINSH_OP_BITWISE_DWORD = 0x1B"
definition FINSH_OP_SHL_BYTE :: byte where "FINSH_OP_SHL_BYTE = 0x1C"
definition FINSH_OP_SHL_WORD :: byte where "FINSH_OP_SHL_WORD = 0x1D"
definition FINSH_OP_SHL_DWORD :: byte where "FINSH_OP_SHL_DWORD = 0x1E"
definition FINSH_OP_SHR_BYTE :: byte where "FINSH_OP_SHR_BYTE = 0x1F"
definition FINSH_OP_SHR_WORD :: byte where "FINSH_OP_SHR_WORD = 0x20"
definition FINSH_OP_SHR_DWORD :: byte where "FINSH_OP_SHR_DWORD = 0x21"
definition FINSH_OP_LD_BYTE :: byte where "FINSH_OP_LD_BYTE = 0x22"
definition FINSH_OP_LD_WORD :: byte where "FINSH_OP_LD_WORD = 0x23"
definition FINSH_OP_LD_DWORD :: byte where "FINSH_OP_LD_DWORD = 0x24"
definition FINSH_OP_LD_VALUE_BYTE :: byte where "FINSH_OP_LD_VALUE_BYTE = 0x25"
definition FINSH_OP_LD_VALUE_WORD :: byte where "FINSH_OP_LD_VALUE_WORD = 0x26"
definition FINSH_OP_LD_VALUE_DWORD :: byte where "FINSH_OP_LD_VALUE_DWORD = 0x27"
definition FINSH_OP_ST_BYTE :: byte where "FINSH_OP_ST_BYTE = 0x28"
definition FINSH_OP_ST_WORD :: byte where "FINSH_OP_ST_WORD = 0x29"
definition FINSH_OP_ST_DWORD :: byte where "FINSH_OP_ST_DWORD = 0x2A"
definition FINSH_OP_POP :: byte where "FINSH_OP_POP = 0x2B"
definition FINSH_OP_SYSCALL :: byte where "FINSH_OP_SYSCALL = 0x2C"
definition FINSH_OP_LD_VALUE_BYTE_STACK :: byte where "FINSH_OP_LD_VALUE_BYTE_STACK = 0x2D"
definition FINSH_OP_LD_VALUE_WORD_STACK :: byte where "FINSH_OP_LD_VALUE_WORD_STACK = 0x2E"
definition FINSH_OP_LD_VALUE_DWORD_STACK :: byte where "FINSH_OP_LD_VALUE_DWORD_STACK = 0x2F"
definition FINSH_OP_HALT :: byte where "FINSH_OP_HALT = 0xFF"

section \<open>Writing code\<close>

record finsh_code =
  code_bytes :: "byte list"
  code_errno :: finsh_error

definition finsh_code_bytes :: "byte list \<Rightarrow> finsh_code \<Rightarrow> finsh_code option" where
  "finsh_code_bytes bs c = (if length (code_bytes c) + length bs \<le> FINSH_TEXT_MAX
     then Some (c\<lparr>code_bytes := code_bytes c @ bs\<rparr>) else None)"

definition dword :: "word32 \<Rightarrow> byte list" where "dword v = le_bytes 4 v"

definition code_error :: "finsh_error \<Rightarrow> finsh_code \<Rightarrow> finsh_code option" where
  "code_error e c = Some (c\<lparr>code_errno := e\<rparr>)"

text \<open>The operation for a data type, from those for the three widths; nothing for another type.\<close>

definition typed :: "byte \<Rightarrow> byte \<Rightarrow> byte \<Rightarrow> byte \<Rightarrow> byte list" where
  "typed t b w d = (if t = FINSH_DATA_TYPE_BYTE then [b] else if t = FINSH_DATA_TYPE_WORD then [w]
     else if t = FINSH_DATA_TYPE_DWORD then [d] else [])"

section \<open>Identifiers\<close>

fun load_width :: "finsh_type \<Rightarrow> width option" where
  "load_width finsh_type_char = Some Byte"
| "load_width finsh_type_uchar = Some Byte"
| "load_width finsh_type_short = Some Word"
| "load_width finsh_type_ushort = Some Word"
| "load_width finsh_type_int = Some Dword"
| "load_width finsh_type_uint = Some Dword"
| "load_width finsh_type_long = Some Dword"
| "load_width finsh_type_ulong = Some Dword"
| "load_width finsh_type_charp = Some Dword"
| "load_width finsh_type_shortp = Some Dword"
| "load_width finsh_type_intp = Some Dword"
| "load_width finsh_type_longp = Some Dword"
| "load_width _ = None"

fun ld_value_op :: "width \<Rightarrow> byte" where
  "ld_value_op Byte = FINSH_OP_LD_VALUE_BYTE"
| "ld_value_op Word = FINSH_OP_LD_VALUE_WORD"
| "ld_value_op Dword = FINSH_OP_LD_VALUE_DWORD"

text \<open>The address of an identifier, or its value; nothing for the other types.\<close>

definition load_id :: "byte \<Rightarrow> finsh_type \<Rightarrow> word32 \<Rightarrow> byte list" where
  "load_id idt type a = (case load_width type of None \<Rightarrow> []
     | Some w \<Rightarrow> (if idt AND FINSH_IDTYPE_ADDRESS \<noteq> 0 then FINSH_OP_LD_DWORD else ld_value_op w) # dword a)"

definition compile_id :: "word32 \<Rightarrow> finsh_var list \<Rightarrow> node_info \<Rightarrow> finsh_code \<Rightarrow> finsh_code option" where
  "compile_id base vs n c =
     (if idtype n AND FINSH_IDTYPE_SYSCALL \<noteq> 0 then (case node_id n of
          IdSyscall f \<Rightarrow> finsh_code_bytes (FINSH_OP_LD_DWORD # dword (syscall_func f)) c | _ \<Rightarrow> None)
      else if idtype n AND FINSH_IDTYPE_SYSVAR \<noteq> 0 then (case node_id n of
          IdSysvar v \<Rightarrow> finsh_code_bytes (load_id (idtype n) (sysvar_type v) (sysvar_var v)) c
        | IdNone \<Rightarrow> Some c | _ \<Rightarrow> None)
      else (case node_id n of
          IdVar i \<Rightarrow> do {
            v \<leftarrow> mem_rd vs i;
            finsh_code_bytes (load_id (idtype n) (var_type v) (var_ptr base i + value_offset)) c }
        | IdNone \<Rightarrow> Some c | _ \<Rightarrow> None))"

section \<open>Increment and decrement\<close>

text \<open>The code takes the identifier for a variable whatever it is.\<close>

fun id_ptr :: "word32 \<Rightarrow> finsh_id \<Rightarrow> word32" where
  "id_ptr base IdNone = 0"
| "id_ptr base (IdVar i) = var_ptr base i"
| "id_ptr base (IdSysvar v) = sysvar_ptr v"
| "id_ptr base (IdSyscall f) = syscall_ptr f"

text \<open>\<open>ops\<close> are the three operations to add or subtract with.\<close>

definition step_code :: "byte \<Rightarrow> byte \<times> byte \<times> byte \<Rightarrow> word32 \<Rightarrow> byte list" where
  "step_code t ops a = (case ops of (b, w, d) \<Rightarrow>
     if t = FINSH_DATA_TYPE_BYTE then FINSH_OP_LD_VALUE_BYTE # dword a @ [FINSH_OP_LD_BYTE, 1, b, FINSH_OP_ST_BYTE]
     else if t = FINSH_DATA_TYPE_WORD then FINSH_OP_LD_VALUE_WORD # dword a @ [FINSH_OP_LD_WORD, 1, 0, w, FINSH_OP_ST_WORD]
     else if t = FINSH_DATA_TYPE_DWORD then FINSH_OP_LD_VALUE_DWORD # dword a @ FINSH_OP_LD_DWORD # dword 1 @ [d, FINSH_OP_ST_DWORD]
     else [])"

definition pre_step :: "word32 \<Rightarrow> byte \<times> byte \<times> byte \<Rightarrow> node_info \<Rightarrow> finsh_node \<Rightarrow> finsh_code \<Rightarrow> finsh_code option" where
  "pre_step base ops n ch c = (case ch of NullNode \<Rightarrow> Some c | Node i _ _ \<Rightarrow>
     if node_type i \<noteq> FINSH_NODE_ID \<or> data_type n \<notin> {FINSH_DATA_TYPE_BYTE, FINSH_DATA_TYPE_WORD, FINSH_DATA_TYPE_DWORD} then Some c
     else finsh_code_bytes (step_code (data_type n) ops (id_ptr base (node_id i) + value_offset) @ [FINSH_OP_LD_VALUE_DWORD_STACK]) c)"

definition post_step :: "word32 \<Rightarrow> byte \<times> byte \<times> byte \<Rightarrow> node_info \<Rightarrow> finsh_node \<Rightarrow> finsh_code \<Rightarrow> finsh_code option" where
  "post_step base ops n ch c = (case ch of NullNode \<Rightarrow> Some c | Node i _ _ \<Rightarrow>
     if node_type i \<noteq> FINSH_NODE_ID \<or> data_type n \<notin> {FINSH_DATA_TYPE_BYTE, FINSH_DATA_TYPE_WORD, FINSH_DATA_TYPE_DWORD} then Some c
     else let a = id_ptr base (node_id i) + value_offset in
       finsh_code_bytes (FINSH_OP_LD_DWORD # dword a @ step_code (data_type n) ops a @ [FINSH_OP_POP]) c)"

section \<open>Assignment and calls\<close>

definition assign_code :: "byte \<Rightarrow> byte list" where
  "assign_code t = (if t = FINSH_DATA_TYPE_BYTE then [FINSH_OP_ST_BYTE, FINSH_OP_LD_VALUE_BYTE_STACK]
     else if t = FINSH_DATA_TYPE_WORD then [FINSH_OP_ST_WORD, FINSH_OP_LD_VALUE_WORD_STACK]
     else [FINSH_OP_ST_DWORD, FINSH_OP_LD_VALUE_DWORD_STACK])"

definition compile_assign :: "finsh_node \<Rightarrow> finsh_code \<Rightarrow> finsh_code option" where
  "compile_assign ch c = (case ch of NullNode \<Rightarrow> None | Node i _ _ \<Rightarrow>
     let t = (if node_type i = FINSH_NODE_ID then data_type i else data_type i AND 0x0F) in
     if node_type i \<noteq> FINSH_NODE_ID \<and> node_type i \<noteq> FINSH_NODE_SYS_GETVALUE then Some c
     else if t \<in> {FINSH_DATA_TYPE_BYTE, FINSH_DATA_TYPE_WORD, FINSH_DATA_TYPE_DWORD} then finsh_code_bytes (assign_code t) c
     else code_error FINSH_ERROR_UNKNOWN_TYPE c)"

fun siblings :: "finsh_node \<Rightarrow> nat" where
  "siblings NullNode = 0"
| "siblings (Node n ch sb) = Suc (siblings sb)"

definition compile_call :: "finsh_node \<Rightarrow> finsh_code \<Rightarrow> finsh_code option" where
  "compile_call ch c = (case ch of NullNode \<Rightarrow> Some c
     | Node _ _ sb \<Rightarrow> finsh_code_bytes [FINSH_OP_SYSCALL, of_nat (siblings sb)] c)"

section \<open>Compiling a tree\<close>

definition compile_node :: "word32 \<Rightarrow> finsh_var list \<Rightarrow> node_info \<Rightarrow> finsh_node \<Rightarrow> finsh_code \<Rightarrow> finsh_code option" where
  "compile_node base vs n ch c = (let t = data_type n in case node_type n of
       FINSH_NODE_ID \<Rightarrow> compile_id base vs n c
     | FINSH_NODE_VALUE_CHAR \<Rightarrow> finsh_code_bytes [FINSH_OP_LD_BYTE, ucast (node_value n)] c
     | FINSH_NODE_VALUE_INT \<Rightarrow> finsh_code_bytes (FINSH_OP_LD_DWORD # dword (node_value n)) c
     | FINSH_NODE_VALUE_LONG \<Rightarrow> finsh_code_bytes (FINSH_OP_LD_DWORD # dword (node_value n)) c
     | FINSH_NODE_VALUE_NULL \<Rightarrow> finsh_code_bytes (FINSH_OP_LD_DWORD # dword (node_value n)) c
     | FINSH_NODE_VALUE_STRING \<Rightarrow> finsh_code_bytes (FINSH_OP_LD_DWORD # dword (node_value n)) c
     | FINSH_NODE_SYS_ADD \<Rightarrow> finsh_code_bytes (typed t FINSH_OP_ADD_BYTE FINSH_OP_ADD_WORD FINSH_OP_ADD_DWORD) c
     | FINSH_NODE_SYS_SUB \<Rightarrow> finsh_code_bytes (typed t FINSH_OP_SUB_BYTE FINSH_OP_SUB_WORD FINSH_OP_SUB_DWORD) c
     | FINSH_NODE_SYS_MUL \<Rightarrow> finsh_code_bytes (typed t FINSH_OP_MUL_BYTE FINSH_OP_MUL_WORD FINSH_OP_MUL_DWORD) c
     | FINSH_NODE_SYS_DIV \<Rightarrow> finsh_code_bytes (typed t FINSH_OP_DIV_BYTE FINSH_OP_DIV_WORD FINSH_OP_DIV_DWORD) c
     | FINSH_NODE_SYS_MOD \<Rightarrow> finsh_code_bytes (typed t FINSH_OP_MOD_BYTE FINSH_OP_MOD_WORD FINSH_OP_MOD_DWORD) c
     | FINSH_NODE_SYS_AND \<Rightarrow> finsh_code_bytes (typed t FINSH_OP_AND_BYTE FINSH_OP_AND_WORD FINSH_OP_AND_DWORD) c
     | FINSH_NODE_SYS_OR \<Rightarrow> finsh_code_bytes (typed t FINSH_OP_OR_BYTE FINSH_OP_OR_WORD FINSH_OP_OR_DWORD) c
     | FINSH_NODE_SYS_XOR \<Rightarrow> finsh_code_bytes (typed t FINSH_OP_XOR_BYTE FINSH_OP_XOR_WORD FINSH_OP_XOR_DWORD) c
     | FINSH_NODE_SYS_BITWISE \<Rightarrow> finsh_code_bytes (typed t FINSH_OP_BITWISE_BYTE FINSH_OP_BITWISE_WORD FINSH_OP_BITWISE_DWORD) c
     | FINSH_NODE_SYS_SHL \<Rightarrow> finsh_code_bytes (typed t FINSH_OP_SHL_BYTE FINSH_OP_SHL_WORD FINSH_OP_SHL_DWORD) c
     | FINSH_NODE_SYS_SHR \<Rightarrow> finsh_code_bytes (typed t FINSH_OP_SHR_BYTE FINSH_OP_SHR_WORD FINSH_OP_SHR_DWORD) c
     | FINSH_NODE_SYS_FUNC \<Rightarrow> compile_call ch c
     | FINSH_NODE_SYS_ASSIGN \<Rightarrow> compile_assign ch c
     | FINSH_NODE_SYS_PREINC \<Rightarrow> pre_step base (FINSH_OP_ADD_BYTE, FINSH_OP_ADD_WORD, FINSH_OP_ADD_DWORD) n ch c
     | FINSH_NODE_SYS_PREDEC \<Rightarrow> pre_step base (FINSH_OP_SUB_BYTE, FINSH_OP_SUB_WORD, FINSH_OP_SUB_DWORD) n ch c
     | FINSH_NODE_SYS_INC \<Rightarrow> post_step base (FINSH_OP_ADD_BYTE, FINSH_OP_ADD_WORD, FINSH_OP_ADD_DWORD) n ch c
     | FINSH_NODE_SYS_DEC \<Rightarrow> post_step base (FINSH_OP_SUB_BYTE, FINSH_OP_SUB_WORD, FINSH_OP_SUB_DWORD) n ch c
     | FINSH_NODE_SYS_NULL \<Rightarrow> finsh_code_bytes (dword 0) c
     | FINSH_NODE_SYS_GETVALUE \<Rightarrow> (if idtype n AND FINSH_IDTYPE_ADDRESS \<noteq> 0 then Some c
         else finsh_code_bytes (typed t FINSH_OP_LD_VALUE_BYTE_STACK FINSH_OP_LD_VALUE_WORD_STACK FINSH_OP_LD_VALUE_DWORD_STACK) c)
     | FINSH_NODE_SYS_GETADDR \<Rightarrow> Some c
     | _ \<Rightarrow> code_error FINSH_ERROR_UNKNOWN_NODE c)"

fun finsh_compile :: "word32 \<Rightarrow> finsh_var list \<Rightarrow> finsh_node \<Rightarrow> finsh_code \<Rightarrow> finsh_code option" where
  "finsh_compile base vs NullNode c = Some c"
| "finsh_compile base vs (Node n ch sb) c = do {
     c \<leftarrow> finsh_compile base vs ch c;
     c \<leftarrow> compile_node base vs n ch c;
     finsh_compile base vs sb c }"

section \<open>Types\<close>

text \<open>The data type of an identifier; \<open>None\<close> is the unknown type, which is an error.\<close>

fun id_data_type :: "finsh_type \<Rightarrow> byte option" where
  "id_data_type finsh_type_unknown = None"
| "id_data_type finsh_type_void = Some FINSH_DATA_TYPE_VOID"
| "id_data_type finsh_type_char = Some FINSH_DATA_TYPE_BYTE"
| "id_data_type finsh_type_uchar = Some FINSH_DATA_TYPE_BYTE"
| "id_data_type finsh_type_short = Some FINSH_DATA_TYPE_WORD"
| "id_data_type finsh_type_ushort = Some FINSH_DATA_TYPE_WORD"
| "id_data_type _ = Some FINSH_DATA_TYPE_DWORD"

definition set_id_type :: "finsh_type \<Rightarrow> node_info \<times> finsh_error \<Rightarrow> node_info \<times> finsh_error" where
  "set_id_type type = (\<lambda>(n, e). case id_data_type type of
       None \<Rightarrow> (n, FINSH_ERROR_UNKNOWN_TYPE) | Some t \<Rightarrow> (n\<lparr>data_type := t\<rparr>, e))"

text \<open>A node without children; a pointer that is not of the kind its flags say is not followed.\<close>

definition type_leaf :: "finsh_var list \<Rightarrow> node_info \<Rightarrow> finsh_error \<Rightarrow> node_info \<times> finsh_error" where
  "type_leaf vs n e =
     (if node_type n = FINSH_NODE_ID then
        (if idtype n AND FINSH_IDTYPE_VAR \<noteq> 0 then (case node_id n of
             IdVar i \<Rightarrow> (case mem_rd vs i of Some v \<Rightarrow> set_id_type (var_type v) (n, e) | None \<Rightarrow> (n, e))
           | _ \<Rightarrow> (n, e))
         else if idtype n AND FINSH_IDTYPE_SYSVAR \<noteq> 0 then (case node_id n of
             IdSysvar v \<Rightarrow> set_id_type (sysvar_type v) (n, e) | _ \<Rightarrow> (n, e))
         else (n, e))
      else if node_type n = FINSH_NODE_VALUE_CHAR then (n\<lparr>data_type := FINSH_DATA_TYPE_BYTE\<rparr>, e)
      else if node_type n \<in> {FINSH_NODE_VALUE_INT, FINSH_NODE_VALUE_LONG, FINSH_NODE_VALUE_STRING, FINSH_NODE_VALUE_NULL}
      then (n\<lparr>data_type := FINSH_DATA_TYPE_DWORD\<rparr>, e)
      else (n, e))"

definition child_addr :: "finsh_node_type \<Rightarrow> byte \<Rightarrow> byte" where
  "child_addr nt is_addr =
     (if nt \<in> {FINSH_NODE_SYS_ASSIGN, FINSH_NODE_SYS_PREINC, FINSH_NODE_SYS_PREDEC, FINSH_NODE_SYS_GETADDR} then FINSH_IDTYPE_ADDRESS
      else if nt = FINSH_NODE_SYS_GETVALUE \<and> is_addr \<noteq> 0 then 0 else is_addr)"

fun finsh_type_check :: "finsh_var list \<Rightarrow> finsh_node \<Rightarrow> byte \<Rightarrow> finsh_error \<Rightarrow> finsh_node \<times> finsh_error" where
  "finsh_type_check vs NullNode is_addr e = (NullNode, e)"
| "finsh_type_check vs (Node n ch sb) is_addr e =
     (case finsh_type_check vs ch (child_addr (node_type n) is_addr) e of (ch, e) \<Rightarrow>
      case finsh_type_check vs sb FINSH_NODE_VALUE e of (sb, e) \<Rightarrow>
      let n = (if idtype n \<noteq> FINSH_IDTYPE_SYSCALL then n\<lparr>idtype := idtype n OR is_addr\<rparr> else n) in
      (case ch of Node i _ _ \<Rightarrow> (Node (n\<lparr>data_type := data_type i\<rparr>) ch sb, e)
       | NullNode \<Rightarrow> (case type_leaf vs n e of (n, e) \<Rightarrow> (Node n ch sb, e))))"

section \<open>The whole program\<close>

text \<open>The statements are the siblings of the root; between two of them the value is popped.\<close>

fun compile_roots :: "word32 \<Rightarrow> finsh_var list \<Rightarrow> finsh_node \<Rightarrow> finsh_code \<Rightarrow> finsh_code option" where
  "compile_roots base vs NullNode c = Some c"
| "compile_roots base vs (Node n ch sb) c = do {
     c \<leftarrow> finsh_compile base vs (Node n ch NullNode) c;
     c \<leftarrow> (if sb \<noteq> NullNode then finsh_code_bytes [FINSH_OP_POP] c else Some c);
     compile_roots base vs sb c }"

text \<open>The text segment is cleared before, and the first slot of the stack.\<close>

definition finsh_compiler_run :: "word32 \<Rightarrow> finsh_var list \<Rightarrow> finsh_node \<Rightarrow> finsh_error \<Rightarrow> finsh_vm \<Rightarrow> (finsh_error \<times> finsh_vm) option" where
  "finsh_compiler_run base vs root e s = (case finsh_type_check vs root FINSH_NODE_VALUE e of (root, e) \<Rightarrow> do {
     c \<leftarrow> compile_roots base vs root \<lparr>code_bytes = [], code_errno = e\<rparr>;
     Some (code_errno c, s\<lparr>text_segment := code_bytes c @ replicate (FINSH_TEXT_MAX - length (code_bytes c)) 0,
       finsh_vm_stack := (finsh_vm_stack s)[0 := 0]\<rparr>) })"

end
