(* ===== verification/FinshExpr.thy ===== *)
theory FinshExpr
  imports FinshCompiler
begin

text \<open>
  Expressions of the shell language as a specification: their syntax tree as the parser builds it, their
  types, their value, and the code the compiler writes for them.
\<close>

section \<open>Expressions\<close>

datatype binop = Add | Sub | Mul | Div | Mod | BitAnd | BitOr | BitXor | Shl | Shr

fun binop_node :: "binop \<Rightarrow> finsh_node_type" where
  "binop_node Add = FINSH_NODE_SYS_ADD" | "binop_node Sub = FINSH_NODE_SYS_SUB"
| "binop_node Mul = FINSH_NODE_SYS_MUL" | "binop_node Div = FINSH_NODE_SYS_DIV"
| "binop_node Mod = FINSH_NODE_SYS_MOD" | "binop_node BitAnd = FINSH_NODE_SYS_AND"
| "binop_node BitOr = FINSH_NODE_SYS_OR" | "binop_node BitXor = FINSH_NODE_SYS_XOR"
| "binop_node Shl = FINSH_NODE_SYS_SHL" | "binop_node Shr = FINSH_NODE_SYS_SHR"

fun binop_value :: "binop \<Rightarrow> int \<Rightarrow> int \<Rightarrow> int option" where
  "binop_value Add a b = Some (a + b)" | "binop_value Sub a b = Some (a - b)"
| "binop_value Mul a b = Some (a * b)" | "binop_value Div a b = c_div a b"
| "binop_value Mod a b = c_mod a b" | "binop_value BitAnd a b = Some (a AND b)"
| "binop_value BitOr a b = Some (a OR b)" | "binop_value BitXor a b = Some (a XOR b)"
| "binop_value Shl a b = c_shl a b" | "binop_value Shr a b = c_shr a b"

datatype expr =
    Num word32 | Lng word32 | Chr byte | Var finsh_id | AddrOf finsh_id | Bin binop expr expr | Compl expr
  | Assign finsh_id expr | AssignAt expr expr | Deref expr
  | PreInc nat | PreDec nat | PostInc nat | PostDec nat
  | Call finsh_syscall "expr list"

section \<open>Syntax trees\<close>

fun id_flag :: "finsh_id \<Rightarrow> byte" where
  "id_flag IdNone = 0"
| "id_flag (IdVar i) = FINSH_IDTYPE_VAR"
| "id_flag (IdSysvar v) = FINSH_IDTYPE_SYSVAR"
| "id_flag (IdSyscall f) = FINSH_IDTYPE_SYSCALL"

definition id_node :: "finsh_id \<Rightarrow> finsh_node \<Rightarrow> finsh_node" where
  "id_node x sb = Node (leaf FINSH_NODE_ID\<lparr>idtype := id_flag x, node_id := x\<rparr>) NullNode sb"

text \<open>The tree of an expression whose node has the sibling \<open>sb\<close>, and the trees of a list of them.\<close>

fun node_of :: "expr \<Rightarrow> finsh_node \<Rightarrow> finsh_node" and nodes_of :: "expr list \<Rightarrow> finsh_node" where
  "node_of (Num v) sb = Node (leaf FINSH_NODE_VALUE_INT\<lparr>node_value := v\<rparr>) NullNode sb"
| "node_of (Lng v) sb = Node (leaf FINSH_NODE_VALUE_LONG\<lparr>node_value := v\<rparr>) NullNode sb"
| "node_of (Chr b) sb = Node (leaf FINSH_NODE_VALUE_CHAR\<lparr>node_value := ucast b\<rparr>) NullNode sb"
| "node_of (Var x) sb = id_node x sb"
| "node_of (AddrOf x) sb = Node (leaf FINSH_NODE_SYS_GETADDR) (id_node x NullNode) sb"
| "node_of (Bin f a b) sb = Node (leaf (binop_node f)) (node_of a (node_of b NullNode)) sb"
| "node_of (Compl a) sb = Node (leaf FINSH_NODE_SYS_BITWISE) (node_of a NullNode) sb"
| "node_of (Assign x a) sb = Node (leaf FINSH_NODE_SYS_ASSIGN) (id_node x (node_of a NullNode)) sb"
| "node_of (AssignAt p a) sb = Node (leaf FINSH_NODE_SYS_ASSIGN)
     (Node (leaf FINSH_NODE_SYS_GETVALUE) (node_of p NullNode) (node_of a NullNode)) sb"
| "node_of (Deref a) sb = Node (leaf FINSH_NODE_SYS_GETVALUE) (node_of a NullNode) sb"
| "node_of (PreInc i) sb = Node (leaf FINSH_NODE_SYS_PREINC) (id_node (IdVar i) NullNode) sb"
| "node_of (PreDec i) sb = Node (leaf FINSH_NODE_SYS_PREDEC) (id_node (IdVar i) NullNode) sb"
| "node_of (PostInc i) sb = Node (leaf FINSH_NODE_SYS_INC) (id_node (IdVar i) NullNode) sb"
| "node_of (PostDec i) sb = Node (leaf FINSH_NODE_SYS_DEC) (id_node (IdVar i) NullNode) sb"
| "node_of (Call f as) sb = Node (leaf FINSH_NODE_SYS_FUNC) (id_node (IdSyscall f) (nodes_of as)) sb"
| "nodes_of [] = NullNode"
| "nodes_of (a # as) = node_of a (nodes_of as)"

section \<open>Types\<close>

text \<open>Types and addresses of identifiers.\<close>

definition id_type :: "finsh_var list \<Rightarrow> finsh_id \<Rightarrow> finsh_type" where
  "id_type vs x = (case x of IdVar i \<Rightarrow> var_type (vs ! i) | IdSysvar v \<Rightarrow> sysvar_type v | _ \<Rightarrow> finsh_type_unknown)"

definition id_addr :: "word32 \<Rightarrow> finsh_id \<Rightarrow> word32" where
  "id_addr base x = (case x of IdVar i \<Rightarrow> var_ptr base i + value_offset | IdSysvar v \<Rightarrow> sysvar_var v | _ \<Rightarrow> 0)"

text \<open>The width of an identifier that can be loaded.\<close>

definition id_width :: "finsh_var list \<Rightarrow> finsh_id \<Rightarrow> width option" where
  "id_width vs x = (case x of IdVar i \<Rightarrow> if i < length vs then load_width (id_type vs x) else None
     | IdSysvar v \<Rightarrow> load_width (id_type vs x) | _ \<Rightarrow> None)"

fun width_type :: "width \<Rightarrow> byte" where
  "width_type Byte = FINSH_DATA_TYPE_BYTE"
| "width_type Word = FINSH_DATA_TYPE_WORD"
| "width_type Dword = FINSH_DATA_TYPE_DWORD"

text \<open>
  The width of an expression: that of its left operand. \<open>None\<close> is also the type of a call, which has no
  width of its own although its value has four bytes.
\<close>

fun width_of :: "finsh_var list \<Rightarrow> expr \<Rightarrow> width option" where
  "width_of vs (Num v) = Some Dword"
| "width_of vs (Lng v) = Some Dword"
| "width_of vs (Chr b) = Some Byte"
| "width_of vs (Var x) = id_width vs x"
| "width_of vs (AddrOf x) = id_width vs x"
| "width_of vs (Bin f a b) = width_of vs a"
| "width_of vs (Compl a) = width_of vs a"
| "width_of vs (Assign x a) = id_width vs x"
| "width_of vs (AssignAt p a) = width_of vs p"
| "width_of vs (Deref a) = width_of vs a"
| "width_of vs (PreInc i) = id_width vs (IdVar i)"
| "width_of vs (PreDec i) = id_width vs (IdVar i)"
| "width_of vs (PostInc i) = id_width vs (IdVar i)"
| "width_of vs (PostDec i) = id_width vs (IdVar i)"
| "width_of vs (Call f as) = None"

text \<open>The width of the value on the stack.\<close>

definition slot_width :: "finsh_var list \<Rightarrow> expr \<Rightarrow> width" where
  "slot_width vs e = (case width_of vs e of Some w \<Rightarrow> w | None \<Rightarrow> Dword)"

definition covers :: "finsh_var list \<Rightarrow> expr \<Rightarrow> width \<Rightarrow> bool" where
  "covers vs e w \<longleftrightarrow> width_bytes w \<le> width_bytes (slot_width vs e)"

text \<open>
  Expressions the compiler treats as meant: a right operand is at least as wide as the left one, arguments
  have four bytes, pointers are taken of and followed to variables of four bytes only, and the left operand
  is not a call.
\<close>

fun well_typed :: "finsh_var list \<Rightarrow> expr \<Rightarrow> bool" where
  "well_typed vs (Num v) \<longleftrightarrow> True"
| "well_typed vs (Lng v) \<longleftrightarrow> True"
| "well_typed vs (Chr b) \<longleftrightarrow> True"
| "well_typed vs (Var x) \<longleftrightarrow> id_width vs x \<noteq> None"
| "well_typed vs (AddrOf x) \<longleftrightarrow> id_width vs x = Some Dword"
| "well_typed vs (Bin f a b) \<longleftrightarrow> well_typed vs a \<and> well_typed vs b \<and> (\<exists>w. width_of vs a = Some w \<and> covers vs b w)"
| "well_typed vs (Compl a) \<longleftrightarrow> well_typed vs a \<and> width_of vs a \<noteq> None"
| "well_typed vs (Assign x a) \<longleftrightarrow> well_typed vs a \<and> (\<exists>w. id_width vs x = Some w \<and> covers vs a w)"
| "well_typed vs (AssignAt p a) \<longleftrightarrow> well_typed vs p \<and> width_of vs p = Some Dword \<and> well_typed vs a \<and> covers vs a Dword"
| "well_typed vs (Deref a) \<longleftrightarrow> well_typed vs a \<and> width_of vs a = Some Dword"
| "well_typed vs (PreInc i) \<longleftrightarrow> id_width vs (IdVar i) \<noteq> None"
| "well_typed vs (PreDec i) \<longleftrightarrow> id_width vs (IdVar i) \<noteq> None"
| "well_typed vs (PostInc i) \<longleftrightarrow> id_width vs (IdVar i) \<noteq> None"
| "well_typed vs (PostDec i) \<longleftrightarrow> id_width vs (IdVar i) \<noteq> None"
| "well_typed vs (Call f as) \<longleftrightarrow> length as \<le> 16 \<and> (\<forall>a\<in>set as. well_typed vs a \<and> covers vs a Dword)"

section \<open>Values\<close>

definition wrap :: "width \<Rightarrow> int \<Rightarrow> int" where
  "wrap w x = get_as w (of_int x)"

text \<open>A variable is read, and stored to with what can be read there afterwards.\<close>

definition store :: "width \<Rightarrow> word32 \<Rightarrow> int \<Rightarrow> memory \<Rightarrow> (int \<times> memory) option" where
  "store w a x m = map_option (Pair (wrap w x)) (st_mem w a x m)"

definition width_at :: "finsh_var list \<Rightarrow> finsh_id \<Rightarrow> width" where
  "width_at vs x = (case id_width vs x of Some w \<Rightarrow> w | None \<Rightarrow> Dword)"

text \<open>\<open>x++\<close> and its kin: the old value, and the new one in the memory; all four bytes of a variable are memory.\<close>

definition step_var :: "word32 \<Rightarrow> finsh_var list \<Rightarrow> int \<Rightarrow> nat \<Rightarrow> memory \<Rightarrow> (int \<times> int \<times> memory) option" where
  "step_var base vs d i m = (let a = id_addr base (IdVar i); w = width_at vs (IdVar i) in do {
     x \<leftarrow> ld_mem w a m;
     (y, m) \<leftarrow> store w a (x + d) m;
     _ \<leftarrow> ld_mem Dword a m;
     Some (x, y, m) })"

fun value_of :: "syscalls \<Rightarrow> word32 \<Rightarrow> finsh_var list \<Rightarrow> expr \<Rightarrow> memory \<Rightarrow> (int \<times> memory) option"
and values_of :: "syscalls \<Rightarrow> word32 \<Rightarrow> finsh_var list \<Rightarrow> expr list \<Rightarrow> memory \<Rightarrow> (int list \<times> memory) option" where
  "value_of f base vs (Num v) m = Some (sint v, m)"
| "value_of f base vs (Lng v) m = Some (sint v, m)"
| "value_of f base vs (Chr b) m = Some (uint b, m)"
| "value_of f base vs (Var x) m = map_option (\<lambda>v. (v, m)) (ld_mem (width_at vs x) (id_addr base x) m)"
| "value_of f base vs (AddrOf x) m = Some (sint (id_addr base x), m)"
| "value_of f base vs (Bin g a b) m = do {
     (x, m) \<leftarrow> value_of f base vs a m;
     (y, m) \<leftarrow> value_of f base vs b m;
     z \<leftarrow> binop_value g x (wrap (slot_width vs a) y);
     Some (wrap (slot_width vs a) z, m) }"
| "value_of f base vs (Compl a) m = do {
     (x, m) \<leftarrow> value_of f base vs a m;
     Some (wrap (slot_width vs a) (NOT x), m) }"
| "value_of f base vs (Assign x a) m = do {
     (v, m) \<leftarrow> value_of f base vs a m;
     store (width_at vs x) (id_addr base x) (wrap (width_at vs x) v) m }"
| "value_of f base vs (AssignAt p a) m = do {
     (x, m) \<leftarrow> value_of f base vs p m;
     (v, m) \<leftarrow> value_of f base vs a m;
     store Dword (of_int x) (wrap Dword v) m }"
| "value_of f base vs (Deref a) m = do {
     (x, m) \<leftarrow> value_of f base vs a m;
     v \<leftarrow> ld_mem Dword (of_int x) m;
     Some (v, m) }"
| "value_of f base vs (PreInc i) m = map_option (\<lambda>(x, y, m). (y, m)) (step_var base vs 1 i m)"
| "value_of f base vs (PreDec i) m = map_option (\<lambda>(x, y, m). (y, m)) (step_var base vs (- 1) i m)"
| "value_of f base vs (PostInc i) m = map_option (\<lambda>(x, y, m). (x, m)) (step_var base vs 1 i m)"
| "value_of f base vs (PostDec i) m = map_option (\<lambda>(x, y, m). (x, m)) (step_var base vs (- 1) i m)"
| "value_of f base vs (Call g as) m = do {
     (xs, m) \<leftarrow> values_of f base vs as m;
     (r, m) \<leftarrow> f (syscall_func g) (if as = [] then [0] else map of_int xs) m;
     Some (sint r, m) }"
| "values_of f base vs [] m = Some ([], m)"
| "values_of f base vs (a # as) m = do {
     (x, m) \<leftarrow> value_of f base vs a m;
     (xs, m) \<leftarrow> values_of f base vs as m;
     Some (wrap Dword x # xs, m) }"

section \<open>Code\<close>

fun binop_code :: "binop \<Rightarrow> width \<Rightarrow> byte" where
  "binop_code Add Byte = FINSH_OP_ADD_BYTE" | "binop_code Add Word = FINSH_OP_ADD_WORD" | "binop_code Add Dword = FINSH_OP_ADD_DWORD"
| "binop_code Sub Byte = FINSH_OP_SUB_BYTE" | "binop_code Sub Word = FINSH_OP_SUB_WORD" | "binop_code Sub Dword = FINSH_OP_SUB_DWORD"
| "binop_code Mul Byte = FINSH_OP_MUL_BYTE" | "binop_code Mul Word = FINSH_OP_MUL_WORD" | "binop_code Mul Dword = FINSH_OP_MUL_DWORD"
| "binop_code Div Byte = FINSH_OP_DIV_BYTE" | "binop_code Div Word = FINSH_OP_DIV_WORD" | "binop_code Div Dword = FINSH_OP_DIV_DWORD"
| "binop_code Mod Byte = FINSH_OP_MOD_BYTE" | "binop_code Mod Word = FINSH_OP_MOD_WORD" | "binop_code Mod Dword = FINSH_OP_MOD_DWORD"
| "binop_code BitAnd Byte = FINSH_OP_AND_BYTE" | "binop_code BitAnd Word = FINSH_OP_AND_WORD" | "binop_code BitAnd Dword = FINSH_OP_AND_DWORD"
| "binop_code BitOr Byte = FINSH_OP_OR_BYTE" | "binop_code BitOr Word = FINSH_OP_OR_WORD" | "binop_code BitOr Dword = FINSH_OP_OR_DWORD"
| "binop_code BitXor Byte = FINSH_OP_XOR_BYTE" | "binop_code BitXor Word = FINSH_OP_XOR_WORD" | "binop_code BitXor Dword = FINSH_OP_XOR_DWORD"
| "binop_code Shl Byte = FINSH_OP_SHL_BYTE" | "binop_code Shl Word = FINSH_OP_SHL_WORD" | "binop_code Shl Dword = FINSH_OP_SHL_DWORD"
| "binop_code Shr Byte = FINSH_OP_SHR_BYTE" | "binop_code Shr Word = FINSH_OP_SHR_WORD" | "binop_code Shr Dword = FINSH_OP_SHR_DWORD"

fun compl_code :: "width \<Rightarrow> byte" where
  "compl_code Byte = FINSH_OP_BITWISE_BYTE" | "compl_code Word = FINSH_OP_BITWISE_WORD" | "compl_code Dword = FINSH_OP_BITWISE_DWORD"

fun st_code :: "width \<Rightarrow> byte" where
  "st_code Byte = FINSH_OP_ST_BYTE" | "st_code Word = FINSH_OP_ST_WORD" | "st_code Dword = FINSH_OP_ST_DWORD"

fun ld_stack_code :: "width \<Rightarrow> byte" where
  "ld_stack_code Byte = FINSH_OP_LD_VALUE_BYTE_STACK" | "ld_stack_code Word = FINSH_OP_LD_VALUE_WORD_STACK" | "ld_stack_code Dword = FINSH_OP_LD_VALUE_DWORD_STACK"

fun one_code :: "width \<Rightarrow> byte list" where
  "one_code Byte = [FINSH_OP_LD_BYTE, 1]" | "one_code Word = [FINSH_OP_LD_WORD, 1, 0]" | "one_code Dword = FINSH_OP_LD_DWORD # dword 1"

definition var_code :: "word32 \<Rightarrow> finsh_var list \<Rightarrow> finsh_id \<Rightarrow> byte list" where
  "var_code base vs x = ld_value_op (width_at vs x) # dword (id_addr base x)"

definition addr_code :: "word32 \<Rightarrow> finsh_id \<Rightarrow> byte list" where
  "addr_code base x = FINSH_OP_LD_DWORD # dword (id_addr base x)"

definition step_ops :: "word32 \<Rightarrow> finsh_var list \<Rightarrow> binop \<Rightarrow> nat \<Rightarrow> byte list" where
  "step_ops base vs g i = (let w = width_at vs (IdVar i) in var_code base vs (IdVar i) @ one_code w @ [binop_code g w, st_code w])"

fun code_of :: "word32 \<Rightarrow> finsh_var list \<Rightarrow> expr \<Rightarrow> byte list" where
  "code_of base vs (Num v) = FINSH_OP_LD_DWORD # dword v"
| "code_of base vs (Lng v) = FINSH_OP_LD_DWORD # dword v"
| "code_of base vs (Chr b) = [FINSH_OP_LD_BYTE, b]"
| "code_of base vs (Var x) = var_code base vs x"
| "code_of base vs (AddrOf x) = addr_code base x"
| "code_of base vs (Bin g a b) = code_of base vs a @ code_of base vs b @ [binop_code g (slot_width vs a)]"
| "code_of base vs (Compl a) = code_of base vs a @ [compl_code (slot_width vs a)]"
| "code_of base vs (Assign x a) = addr_code base x @ code_of base vs a @ [st_code (width_at vs x), ld_stack_code (width_at vs x)]"
| "code_of base vs (AssignAt p a) = code_of base vs p @ code_of base vs a @ [st_code Dword, ld_stack_code Dword]"
| "code_of base vs (Deref a) = code_of base vs a @ [ld_stack_code Dword]"
| "code_of base vs (PreInc i) = addr_code base (IdVar i) @ step_ops base vs Add i @ [ld_stack_code Dword]"
| "code_of base vs (PreDec i) = addr_code base (IdVar i) @ step_ops base vs Sub i @ [ld_stack_code Dword]"
| "code_of base vs (PostInc i) = var_code base vs (IdVar i) @ addr_code base (IdVar i) @ step_ops base vs Add i @ [FINSH_OP_POP]"
| "code_of base vs (PostDec i) = var_code base vs (IdVar i) @ addr_code base (IdVar i) @ step_ops base vs Sub i @ [FINSH_OP_POP]"
| "code_of base vs (Call g as) = (FINSH_OP_LD_DWORD # dword (syscall_func g)) @ concat (map (code_of base vs) as) @
     [FINSH_OP_SYSCALL, of_nat (length as)]"

text \<open>The slots the code of an expression needs.\<close>

fun depth_of :: "expr \<Rightarrow> nat" and depths_of :: "expr list \<Rightarrow> nat" where
  "depth_of (Bin g a b) = max (depth_of a) (Suc (depth_of b))"
| "depth_of (Compl a) = depth_of a"
| "depth_of (Assign x a) = Suc (depth_of a)"
| "depth_of (AssignAt p a) = max (depth_of p) (Suc (depth_of a))"
| "depth_of (Deref a) = depth_of a"
| "depth_of (PreInc i) = 3"
| "depth_of (PreDec i) = 3"
| "depth_of (PostInc i) = 4"
| "depth_of (PostDec i) = 4"
| "depth_of (Call g as) = Suc (depths_of as)"
| "depth_of _ = 1"
| "depths_of [] = 0"
| "depths_of (a # as) = max (depth_of a) (Suc (depths_of as))"

end
