(* ===== verification/FinshEmit.thy ===== *)
theory FinshEmit
  imports FinshExpr
begin

text \<open>The compiler writes the code of an expression for its syntax tree.\<close>

section \<open>Writing code\<close>

lemma code_bytes_append:
  "finsh_code_bytes (xs @ ys) c = Option.bind (finsh_code_bytes xs c) (finsh_code_bytes ys)"
  by (simp add: finsh_code_bytes_def add.assoc)

lemma code_bytes_Nil: "length (code_bytes c) \<le> FINSH_TEXT_MAX \<Longrightarrow> finsh_code_bytes [] c = Some c"
  by (simp add: finsh_code_bytes_def)

lemma data_types: "FINSH_DATA_TYPE_WORD \<noteq> FINSH_DATA_TYPE_BYTE" "FINSH_DATA_TYPE_DWORD \<noteq> FINSH_DATA_TYPE_BYTE"
  "FINSH_DATA_TYPE_DWORD \<noteq> FINSH_DATA_TYPE_WORD" "FINSH_IDTYPE_ADDRESS AND FINSH_IDTYPE_ADDRESS \<noteq> 0"
  by (simp_all add: FINSH_DATA_TYPE_BYTE_def FINSH_DATA_TYPE_WORD_def FINSH_DATA_TYPE_DWORD_def FINSH_IDTYPE_ADDRESS_def)

lemma typed_width: "typed FINSH_DATA_TYPE_BYTE b v d = [b]" "typed FINSH_DATA_TYPE_WORD b v d = [v]" "typed FINSH_DATA_TYPE_DWORD b v d = [d]"
  by (simp_all add: typed_def data_types)

section \<open>Identifiers\<close>

lemma load_width_type: "load_width t = Some w \<Longrightarrow> id_data_type t = Some (width_type w)"
  by (cases t) auto

lemma id_flags:
  "id_flag (IdVar i) OR a = FINSH_IDTYPE_VAR OR a" "a \<in> {0, FINSH_IDTYPE_ADDRESS} \<Longrightarrow> (FINSH_IDTYPE_VAR OR a) AND FINSH_IDTYPE_SYSCALL = 0"
  "a \<in> {0, FINSH_IDTYPE_ADDRESS} \<Longrightarrow> (FINSH_IDTYPE_VAR OR a) AND FINSH_IDTYPE_SYSVAR = 0"
  "a \<in> {0, FINSH_IDTYPE_ADDRESS} \<Longrightarrow> (FINSH_IDTYPE_VAR OR a) AND FINSH_IDTYPE_VAR \<noteq> 0"
  "a \<in> {0, FINSH_IDTYPE_ADDRESS} \<Longrightarrow> (FINSH_IDTYPE_SYSVAR OR a) AND FINSH_IDTYPE_SYSCALL = 0"
  "a \<in> {0, FINSH_IDTYPE_ADDRESS} \<Longrightarrow> (FINSH_IDTYPE_SYSVAR OR a) AND FINSH_IDTYPE_SYSVAR \<noteq> 0"
  "a \<in> {0, FINSH_IDTYPE_ADDRESS} \<Longrightarrow> (FINSH_IDTYPE_SYSVAR OR a) AND FINSH_IDTYPE_VAR = 0"
  "a \<in> {0, FINSH_IDTYPE_ADDRESS} \<Longrightarrow> ((FINSH_IDTYPE_VAR OR a) AND FINSH_IDTYPE_ADDRESS \<noteq> 0) = (a \<noteq> 0)"
  "a \<in> {0, FINSH_IDTYPE_ADDRESS} \<Longrightarrow> ((FINSH_IDTYPE_SYSVAR OR a) AND FINSH_IDTYPE_ADDRESS \<noteq> 0) = (a \<noteq> 0)"
  "FINSH_IDTYPE_VAR \<noteq> FINSH_IDTYPE_SYSCALL" "FINSH_IDTYPE_SYSVAR \<noteq> FINSH_IDTYPE_SYSCALL" "FINSH_IDTYPE_SYSCALL AND FINSH_IDTYPE_SYSCALL \<noteq> 0"
  "FINSH_IDTYPE_SYSCALL AND FINSH_IDTYPE_VAR = 0" "FINSH_IDTYPE_SYSCALL AND FINSH_IDTYPE_SYSVAR = 0"
  by (auto simp: FINSH_IDTYPE_VAR_def FINSH_IDTYPE_SYSVAR_def FINSH_IDTYPE_SYSCALL_def FINSH_IDTYPE_ADDRESS_def)

text \<open>The node of an identifier, checked for its value or for its address.\<close>

definition id_checked :: "byte \<Rightarrow> finsh_id \<Rightarrow> width \<Rightarrow> node_info" where
  "id_checked a x w = \<lparr>node_type = FINSH_NODE_ID, data_type = width_type w, idtype = id_flag x OR a, node_value = 0, node_id = x\<rparr>"

lemma check_id:
  assumes "id_width vs x = Some w" "a \<in> {0, FINSH_IDTYPE_ADDRESS}"
  shows "finsh_type_check vs (id_node x sb) a e =
    (case finsh_type_check vs sb 0 e of (sb, e) \<Rightarrow> (Node (id_checked a x w) NullNode sb, e))"
proof (cases x)
  case (IdVar i)
  then have i: "i < length vs" "load_width (var_type (vs ! i)) = Some w" using assms(1) by (auto simp: id_width_def id_type_def split: if_splits)
  show ?thesis using load_width_type[OF i(2)] i(1) assms(2) id_flags(4)[OF assms(2)]
    by (simp add: id_node_def IdVar FINSH_NODE_VALUE_def leaf_def type_leaf_def id_flags set_id_type_def id_checked_def split: prod.split)
next
  case (IdSysvar v)
  then have i: "load_width (sysvar_type v) = Some w" using assms(1) by (auto simp: id_width_def id_type_def)
  show ?thesis using load_width_type[OF i] id_flags(5-7)[OF assms(2)]
    by (simp add: id_node_def IdSysvar FINSH_NODE_VALUE_def leaf_def type_leaf_def id_flags set_id_type_def id_checked_def split: prod.split)
qed (use assms in \<open>auto simp: id_width_def\<close>)

lemma compile_id_value:
  assumes "id_width vs x = Some w"
  shows "compile_node base vs (id_checked 0 x w) ch c = finsh_code_bytes (var_code base vs x) c"
  using assms id_flags(2,3,5,6,8,9)[of 0]
  by (cases x) (auto simp: compile_node_def id_checked_def compile_id_def id_width_def id_type_def load_id_def var_code_def width_at_def
    id_addr_def split: if_splits)

lemma compile_id_addr:
  assumes "id_width vs x = Some w"
  shows "compile_node base vs (id_checked FINSH_IDTYPE_ADDRESS x w) ch c = finsh_code_bytes (addr_code base x) c"
  using assms id_flags(2,3,5,6,8,9)[of FINSH_IDTYPE_ADDRESS] data_types(4)
  by (cases x) (auto simp: compile_node_def id_checked_def compile_id_def id_width_def id_type_def load_id_def addr_code_def
    id_addr_def split: if_splits)

section \<open>Expressions\<close>

text \<open>A checked node of the width of an expression that is compiled to the code of the expression.\<close>

definition emits :: "word32 \<Rightarrow> finsh_var list \<Rightarrow> expr \<Rightarrow> node_info \<Rightarrow> finsh_node \<Rightarrow> bool" where
  "emits base vs e n ch \<longleftrightarrow> (\<forall>w. width_of vs e = Some w \<longrightarrow> data_type n = width_type w) \<and>
     (\<forall>c. Option.bind (finsh_compile base vs ch c) (compile_node base vs n ch) = finsh_code_bytes (code_of base vs e) c)"

definition checked :: "finsh_var list \<Rightarrow> expr \<Rightarrow> node_info \<Rightarrow> finsh_node \<Rightarrow> bool" where
  "checked vs e n ch \<longleftrightarrow> (\<forall>sb err. finsh_type_check vs (node_of e sb) 0 err =
     (case finsh_type_check vs sb 0 err of (sb', err') \<Rightarrow> (Node n ch sb', err')))"

lemma emits_compile: "emits base vs e n ch \<Longrightarrow>
    finsh_compile base vs (Node n ch sb) c = Option.bind (finsh_code_bytes (code_of base vs e) c) (finsh_compile base vs sb)"
  by (auto simp: emits_def Option.bind_assoc[symmetric])

lemma compile_Null: "finsh_compile base vs NullNode = Some"
  by (rule ext) simp

lemma emits_alone: "emits base vs e n ch \<Longrightarrow> finsh_compile base vs (Node n ch NullNode) c = finsh_code_bytes (code_of base vs e) c"
  unfolding emits_compile compile_Null by simp

declare finsh_compile.simps(2) [simp del]

lemma compile_leaf: "finsh_compile base vs (Node n NullNode sb) c = Option.bind (compile_node base vs n NullNode c) (finsh_compile base vs sb)"
  by (simp add: finsh_compile.simps)

lemma emits_width: "emits base vs e n ch \<Longrightarrow> width_of vs e = Some w \<Longrightarrow> data_type n = width_type w"
  by (simp add: emits_def)

lemma bind_bytes: "Option.bind (finsh_code_bytes xs c) (finsh_code_bytes ys) = finsh_code_bytes (xs @ ys) c"
  by (simp add: code_bytes_append)

lemmas check_simps = FINSH_NODE_VALUE_def leaf_def child_addr_def checked_def

lemma checked_bin:
  assumes "checked vs a na cha" "checked vs b nb chb"
  shows "checked vs (Bin f a b) (leaf (binop_node f)\<lparr>data_type := data_type na\<rparr>) (Node na cha (Node nb chb NullNode))"
  using assms by (cases f) (simp_all add: check_simps split: prod.split)

lemma emit_bin:
  assumes "emits base vs a na cha" "checked vs a na cha" "emits base vs b nb chb" "checked vs b nb chb" "width_of vs a = Some w"
  shows "\<exists>n ch. checked vs (Bin f a b) n ch \<and> emits base vs (Bin f a b) n ch"
proof -
  let ?n = "leaf (binop_node f)\<lparr>data_type := width_type w\<rparr>" and ?ch = "Node na cha (Node nb chb NullNode)"
  have d: "data_type na = width_type w" by (rule emits_width[OF assms(1,5)])
  have "checked vs (Bin f a b) ?n ?ch" using checked_bin[OF assms(2,4), of f] d by simp
  moreover have "compile_node base vs ?n ?ch = finsh_code_bytes [binop_code f w]"
    by (intro ext, cases f; cases w) (simp_all add: compile_node_def leaf_def typed_width)
  then have "emits base vs (Bin f a b) ?n ?ch"
    using assms(5) by (simp add: emits_def emits_compile[OF assms(1)] emits_alone[OF assms(3)] bind_bytes slot_width_def Option.bind_assoc)
  ultimately show ?thesis by blast
qed

lemma emit_compl:
  assumes "emits base vs a na cha" "checked vs a na cha" "width_of vs a = Some w"
  shows "\<exists>n ch. checked vs (Compl a) n ch \<and> emits base vs (Compl a) n ch"
proof -
  let ?n = "leaf FINSH_NODE_SYS_BITWISE\<lparr>data_type := width_type w\<rparr>" and ?ch = "Node na cha NullNode"
  have d: "data_type na = width_type w" by (rule emits_width[OF assms(1,3)])
  have "checked vs (Compl a) ?n ?ch" using assms(2) d by (simp add: check_simps split: prod.split)
  moreover have "compile_node base vs ?n ?ch = finsh_code_bytes [compl_code w]"
    by (intro ext, cases w) (simp_all add: compile_node_def leaf_def typed_width)
  then have "emits base vs (Compl a) ?n ?ch"
    using assms(3) by (simp add: emits_def emits_alone[OF assms(1)] bind_bytes slot_width_def)
  ultimately show ?thesis by blast
qed

lemma assign_code_width: "finsh_code_bytes (assign_code (width_type w)) c = finsh_code_bytes [st_code w, ld_stack_code w] c"
  by (cases w) (simp_all add: assign_code_def data_types)

lemma emit_assign:
  assumes "emits base vs a na cha" "checked vs a na cha" "id_width vs x = Some w"
  shows "\<exists>n ch. checked vs (Assign x a) n ch \<and> emits base vs (Assign x a) n ch"
proof -
  let ?i = "id_checked FINSH_IDTYPE_ADDRESS x w"
  let ?n = "leaf FINSH_NODE_SYS_ASSIGN\<lparr>data_type := width_type w\<rparr>" and ?ch = "Node ?i NullNode (Node na cha NullNode)"
  have d: "node_type ?i = FINSH_NODE_ID" "data_type ?i = width_type w" by (simp_all add: id_checked_def)
  have "checked vs (Assign x a) ?n ?ch"
    using assms(2) check_id[OF assms(3), of FINSH_IDTYPE_ADDRESS] d by (simp add: check_simps split: prod.split)
  moreover have "compile_node base vs ?n ?ch = finsh_code_bytes [st_code w, ld_stack_code w]"
    using assign_code_width[of w] by (intro ext, cases w) (simp_all add: compile_node_def leaf_def compile_assign_def id_checked_def Let_def)
  then have "emits base vs (Assign x a) ?n ?ch"
    using assms(3) by (simp add: emits_def emits_alone[OF assms(1)] compile_leaf compile_id_addr[OF assms(3)] bind_bytes width_at_def Option.bind_assoc)
  ultimately show ?thesis by blast
qed

lemma emit_assign_at:
  assumes "emits base vs p np chp" "checked vs p np chp" "emits base vs a na cha" "checked vs a na cha" "width_of vs p = Some Dword"
  shows "\<exists>n ch. checked vs (AssignAt p a) n ch \<and> emits base vs (AssignAt p a) n ch"
proof -
  let ?i = "leaf FINSH_NODE_SYS_GETVALUE\<lparr>data_type := width_type Dword, idtype := FINSH_IDTYPE_ADDRESS\<rparr>"
  let ?n = "leaf FINSH_NODE_SYS_ASSIGN\<lparr>data_type := width_type Dword\<rparr>"
  let ?ch = "Node ?i (Node np chp NullNode) (Node na cha NullNode)"
  have d: "data_type np = width_type Dword" by (rule emits_width[OF assms(1,5)])
  have nz: "FINSH_IDTYPE_ADDRESS \<noteq> 0" "(0 :: byte) \<noteq> FINSH_IDTYPE_SYSCALL" by (simp_all add: FINSH_IDTYPE_ADDRESS_def FINSH_IDTYPE_SYSCALL_def)
  have c: "checked vs (AssignAt p a) ?n ?ch"
    using assms(2,4) d nz by (simp add: check_simps split: prod.split)
  have g: "compile_node base vs ?i (Node np chp NullNode) = Some"
    using data_types(4) nz by (intro ext) (simp add: compile_node_def leaf_def)
  have n: "compile_node base vs ?n ?ch = finsh_code_bytes [st_code Dword, ld_stack_code Dword]"
    using assign_code_width[of Dword] by (intro ext) (simp add: compile_node_def leaf_def compile_assign_def FINSH_DATA_TYPE_DWORD_def)
  have alone: "finsh_compile base vs (Node na cha NullNode) = finsh_code_bytes (code_of base vs a)"
    by (rule ext, rule emits_alone[OF assms(3)])
  have i: "finsh_compile base vs ?ch c = Option.bind (finsh_code_bytes (code_of base vs p) c) (finsh_code_bytes (code_of base vs a))" for c
    by (subst finsh_compile.simps(2), simp only: emits_alone[OF assms(1)] g alone Option.bind.simps)
  have "emits base vs (AssignAt p a) ?n ?ch"
    using assms(5) unfolding emits_def i n bind_bytes by simp
  then show ?thesis using c by blast
qed

lemma emit_deref:
  assumes "emits base vs a na cha" "checked vs a na cha" "width_of vs a = Some Dword"
  shows "\<exists>n ch. checked vs (Deref a) n ch \<and> emits base vs (Deref a) n ch"
proof -
  let ?n = "leaf FINSH_NODE_SYS_GETVALUE\<lparr>data_type := width_type Dword\<rparr>" and ?ch = "Node na cha NullNode"
  have d: "data_type na = width_type Dword" by (rule emits_width[OF assms(1,3)])
  have "checked vs (Deref a) ?n ?ch" using assms(2) d by (simp add: check_simps split: prod.split)
  moreover have "compile_node base vs ?n ?ch = finsh_code_bytes [ld_stack_code Dword]"
    by (intro ext) (simp add: compile_node_def leaf_def typed_width)
  then have "emits base vs (Deref a) ?n ?ch"
    using assms(3) by (simp add: emits_def emits_alone[OF assms(1)] code_bytes_append)
  ultimately show ?thesis by blast
qed

lemma emit_num: "\<exists>n ch. checked vs (Num v) n ch \<and> emits base vs (Num v) n ch"
proof -
  let ?n = "leaf FINSH_NODE_VALUE_INT\<lparr>data_type := width_type Dword, node_value := v\<rparr>"
  have "checked vs (Num v) ?n NullNode" by (simp add: check_simps type_leaf_def split: prod.split)
  moreover have "emits base vs (Num v) ?n NullNode" by (simp add: emits_def compile_node_def leaf_def)
  ultimately show ?thesis by blast
qed

lemma emit_lng: "\<exists>n ch. checked vs (Lng v) n ch \<and> emits base vs (Lng v) n ch"
proof -
  let ?n = "leaf FINSH_NODE_VALUE_LONG\<lparr>data_type := width_type Dword, node_value := v\<rparr>"
  have "checked vs (Lng v) ?n NullNode" by (simp add: check_simps type_leaf_def split: prod.split)
  moreover have "emits base vs (Lng v) ?n NullNode" by (simp add: emits_def compile_node_def leaf_def)
  ultimately show ?thesis by blast
qed

lemma byte_up_down: "ucast (ucast b :: word32) = (b :: byte)"
  by (rule bit_word_eqI) (simp add: bit_ucast_iff)

lemma emit_chr: "\<exists>n ch. checked vs (Chr b) n ch \<and> emits base vs (Chr b) n ch"
proof -
  let ?n = "leaf FINSH_NODE_VALUE_CHAR\<lparr>data_type := width_type Byte, node_value := ucast b\<rparr>"
  have "checked vs (Chr b) ?n NullNode" by (simp add: check_simps type_leaf_def split: prod.split)
  moreover have "emits base vs (Chr b) ?n NullNode" by (simp add: emits_def compile_node_def leaf_def byte_up_down)
  ultimately show ?thesis by blast
qed

lemma emit_var:
  assumes "id_width vs x = Some w"
  shows "\<exists>n ch. checked vs (Var x) n ch \<and> emits base vs (Var x) n ch"
proof -
  have "checked vs (Var x) (id_checked 0 x w) NullNode" using check_id[OF assms, of 0] by (simp add: checked_def)
  moreover have "emits base vs (Var x) (id_checked 0 x w) NullNode"
    using assms by (simp add: emits_def compile_id_value[OF assms]) (simp add: id_checked_def)
  ultimately show ?thesis by blast
qed

text \<open>The child of a node that needs an address, or of one that does not.\<close>

lemma compile_id_alone:
  assumes "id_width vs x = Some w"
  shows "finsh_compile base vs (Node (id_checked FINSH_IDTYPE_ADDRESS x w) NullNode NullNode) c = finsh_code_bytes (addr_code base x) c"
    and "finsh_compile base vs (Node (id_checked 0 x w) NullNode NullNode) c = finsh_code_bytes (var_code base vs x) c"
  unfolding compile_leaf compile_id_addr[OF assms] compile_id_value[OF assms] compile_Null by simp_all

lemma checked_type: "data_type (id_checked a x w) = width_type w" "node_type (id_checked a x w) = FINSH_NODE_ID" "node_id (id_checked a x w) = x"
  by (simp_all add: id_checked_def)

lemma emit_addr:
  assumes "id_width vs x = Some Dword"
  shows "\<exists>n ch. checked vs (AddrOf x) n ch \<and> emits base vs (AddrOf x) n ch"
proof -
  let ?n = "leaf FINSH_NODE_SYS_GETADDR\<lparr>data_type := width_type Dword\<rparr>" and ?ch = "Node (id_checked FINSH_IDTYPE_ADDRESS x Dword) NullNode NullNode"
  have "checked vs (AddrOf x) ?n ?ch"
    using check_id[OF assms, of FINSH_IDTYPE_ADDRESS] checked_type[of FINSH_IDTYPE_ADDRESS x Dword] by (simp add: check_simps split: prod.split)
  moreover have "compile_node base vs ?n ?ch = Some" by (intro ext) (simp add: compile_node_def leaf_def)
  then have "emits base vs (AddrOf x) ?n ?ch" using assms by (simp add: emits_def compile_id_alone)
  ultimately show ?thesis by blast
qed

lemma step_code_width:
  assumes "id_width vs (IdVar i) = Some w"
  shows "step_code (width_type w) (binop_code g Byte, binop_code g Word, binop_code g Dword) (var_ptr base i + value_offset) = step_ops base vs g i"
  using assms by (cases w) (simp_all add: step_code_def step_ops_def var_code_def width_at_def id_addr_def data_types)

lemma width_types: "width_type w \<in> {FINSH_DATA_TYPE_BYTE, FINSH_DATA_TYPE_WORD, FINSH_DATA_TYPE_DWORD}"
  by (cases w) simp_all

lemma emit_pre:
  assumes i: "id_width vs (IdVar i) = Some w" and e: "e = PreInc i \<and> g = Add \<and> nt = FINSH_NODE_SYS_PREINC \<or> e = PreDec i \<and> g = Sub \<and> nt = FINSH_NODE_SYS_PREDEC"
  shows "\<exists>n ch. checked vs e n ch \<and> emits base vs e n ch"
proof -
  let ?n = "leaf nt\<lparr>data_type := width_type w\<rparr>" and ?ch = "Node (id_checked FINSH_IDTYPE_ADDRESS (IdVar i) w) NullNode NullNode"
  have "checked vs e ?n ?ch"
    using e check_id[OF i, of FINSH_IDTYPE_ADDRESS] checked_type[of FINSH_IDTYPE_ADDRESS "IdVar i" w] by (auto simp: check_simps split: prod.split)
  moreover have "pre_step base (binop_code g Byte, binop_code g Word, binop_code g Dword) ?n ?ch
      = finsh_code_bytes (step_ops base vs g i @ [ld_stack_code Dword])"
    using width_types[of w] by (intro ext) (simp add: pre_step_def checked_type step_code_width[OF i])
  then have "compile_node base vs ?n ?ch = finsh_code_bytes (step_ops base vs g i @ [ld_stack_code Dword])"
    using e by (intro ext) (auto simp: compile_node_def leaf_def)
  then have "emits base vs e ?n ?ch" using e i by (auto simp: emits_def compile_id_alone[OF i] bind_bytes)
  ultimately show ?thesis by blast
qed

lemma emit_post:
  assumes i: "id_width vs (IdVar i) = Some w" and e: "e = PostInc i \<and> g = Add \<and> nt = FINSH_NODE_SYS_INC \<or> e = PostDec i \<and> g = Sub \<and> nt = FINSH_NODE_SYS_DEC"
  shows "\<exists>n ch. checked vs e n ch \<and> emits base vs e n ch"
proof -
  let ?n = "leaf nt\<lparr>data_type := width_type w\<rparr>" and ?ch = "Node (id_checked 0 (IdVar i) w) NullNode NullNode"
  have "checked vs e ?n ?ch"
    using e check_id[OF i, of 0] checked_type[of 0 "IdVar i" w] by (auto simp: check_simps split: prod.split)
  moreover have "post_step base (binop_code g Byte, binop_code g Word, binop_code g Dword) ?n ?ch
      = finsh_code_bytes (addr_code base (IdVar i) @ step_ops base vs g i @ [FINSH_OP_POP])"
    using width_types[of w] by (intro ext) (simp add: post_step_def checked_type step_code_width[OF i] Let_def addr_code_def id_addr_def)
  then have "compile_node base vs ?n ?ch = finsh_code_bytes (addr_code base (IdVar i) @ step_ops base vs g i @ [FINSH_OP_POP])"
    using e by (intro ext) (auto simp: compile_node_def leaf_def)
  then have "emits base vs e ?n ?ch" using e i by (auto simp: emits_def compile_id_alone[OF i] bind_bytes)
  ultimately show ?thesis by blast
qed

section \<open>Calls\<close>

lemma emit_args:
  assumes "\<forall>a\<in>set as. \<exists>n ch. checked vs a n ch \<and> emits base vs a n ch"
  shows "\<exists>t. (\<forall>err. finsh_type_check vs (nodes_of as) 0 err = (t, err)) \<and> siblings t = length as \<and>
    (\<forall>xs c. Option.bind (finsh_code_bytes xs c) (finsh_compile base vs t) = finsh_code_bytes (xs @ concat (map (code_of base vs) as)) c)"
  using assms
proof (induction as)
  case Nil
  show ?case by (rule exI[of _ NullNode]) (simp add: compile_Null)
next
  case (Cons a as)
  obtain n ch where a: "checked vs a n ch" "emits base vs a n ch" using Cons.prems by auto
  obtain t where t: "\<forall>err. finsh_type_check vs (nodes_of as) 0 err = (t, err)" "siblings t = length as"
    "\<forall>xs c. Option.bind (finsh_code_bytes xs c) (finsh_compile base vs t) = finsh_code_bytes (xs @ concat (map (code_of base vs) as)) c"
    using Cons by auto
  have "finsh_compile base vs (Node n ch t) = (\<lambda>c. finsh_code_bytes (code_of base vs a @ concat (map (code_of base vs) as)) c)"
    by (intro ext) (simp only: emits_compile[OF a(2)] t(3))
  then show ?case using a(1) t(1,2) by (intro exI[of _ "Node n ch t"]) (simp add: checked_def bind_bytes)
qed

lemma emit_call_void:
  assumes "\<forall>a\<in>set as. \<exists>n ch. checked vs a n ch \<and> emits base vs a n ch"
  shows "\<exists>n ch. checked vs (Call f as) n ch \<and> emits base vs (Call f as) n ch \<and> data_type n = FINSH_DATA_TYPE_VOID"
proof -
  obtain t where t: "\<forall>err. finsh_type_check vs (nodes_of as) 0 err = (t, err)" "siblings t = length as"
    "\<forall>xs c. Option.bind (finsh_code_bytes xs c) (finsh_compile base vs t) = finsh_code_bytes (xs @ concat (map (code_of base vs) as)) c"
    using emit_args[OF assms] by blast
  let ?i = "leaf FINSH_NODE_ID\<lparr>idtype := FINSH_IDTYPE_SYSCALL, node_id := IdSyscall f\<rparr>"
  let ?n = "leaf FINSH_NODE_SYS_FUNC" and ?ch = "Node ?i NullNode t"
  have "checked vs (Call f as) ?n ?ch"
    using t(1) id_flags(13,14) by (simp add: check_simps id_node_def type_leaf_def FINSH_IDTYPE_SYSCALL_def split: prod.split)
  moreover have "compile_node base vs ?i NullNode = finsh_code_bytes (FINSH_OP_LD_DWORD # dword (syscall_func f))"
    using id_flags(12) by (intro ext) (simp add: compile_node_def compile_id_def leaf_def)
  then have "finsh_compile base vs ?ch c = finsh_code_bytes ((FINSH_OP_LD_DWORD # dword (syscall_func f)) @ concat (map (code_of base vs) as)) c" for c
    unfolding compile_leaf using t(3) by metis
  moreover have "compile_node base vs ?n ?ch = finsh_code_bytes [FINSH_OP_SYSCALL, of_nat (length as)]"
    using t(2) by (intro ext) (simp add: compile_node_def compile_call_def leaf_def)
  ultimately have "checked vs (Call f as) ?n ?ch" "emits base vs (Call f as) ?n ?ch" by (simp_all add: emits_def bind_bytes)
  moreover have "data_type ?n = FINSH_DATA_TYPE_VOID" by (simp add: leaf_def FINSH_DATA_TYPE_VOID_def)
  ultimately show ?thesis by blast
qed

lemma emit_call:
  "\<forall>a\<in>set as. \<exists>n ch. checked vs a n ch \<and> emits base vs a n ch \<Longrightarrow> \<exists>n ch. checked vs (Call f as) n ch \<and> emits base vs (Call f as) n ch"
  using emit_call_void by blast

section \<open>All expressions\<close>

theorem expr_emits: "well_typed vs e \<Longrightarrow> \<exists>n ch. checked vs e n ch \<and> emits base vs e n ch"
proof (induction e)
  case (Bin f a b)
  then show ?case using emit_bin[of base vs a _ _ b] by fastforce
next
  case (Compl a)
  then show ?case using emit_compl[of base vs a] by fastforce
next
  case (Assign x a)
  then show ?case using emit_assign[of base vs a] by fastforce
next
  case (AssignAt p a)
  then show ?case using emit_assign_at[of base vs p _ _ a] by fastforce
next
  case (Deref a)
  then show ?case using emit_deref[of base vs a] by fastforce
next
  case (Call f as)
  then show ?case by (intro emit_call) simp
qed (auto intro: emit_num emit_lng emit_chr emit_var emit_addr emit_pre emit_post)

end
