(* ===== verification/FinshRun.thy ===== *)
theory FinshRun
  imports FinshExpr
begin

text \<open>
  Running the code of an expression: the virtual machine, with its stack read as the list of the slots in
  use, pushes the value of the expression.
\<close>

section \<open>Slots and memory\<close>

lemma ucast_put_byte: "(ucast ((v AND NOT 0xFF) OR ucast (b :: byte) :: word32) :: byte) = b"
proof -
  have "(ucast ((v AND NOT (mask 8)) OR ucast b :: word32) :: byte) = b"
    by (rule bit_word_eqI) (auto simp: bit_simps)
  then show ?thesis by (simp add: mask_eq_exp_minus_1)
qed

lemma ucast_put_word: "(ucast ((v AND NOT 0xFFFF) OR ucast (b :: word16) :: word32) :: word16) = b"
proof -
  have "(ucast ((v AND NOT (mask 16)) OR ucast b :: word32) :: word16) = b"
    by (rule bit_word_eqI) (auto simp: bit_simps)
  then show ?thesis by (simp add: mask_eq_exp_minus_1)
qed

lemma ucast_of_int: "LENGTH('a::len) \<le> LENGTH('b::len) \<Longrightarrow> (ucast (of_int x :: 'b word) :: 'a word) = of_int x"
  by (rule bit_word_eqI) (auto simp: bit_simps bit_word_of_int_iff)

lemma get_put: "get_as w (put_as w x v) = wrap w x"
proof (cases w)
  case Byte
  show ?thesis unfolding Byte get_as.simps put_as.simps wrap_def ucast_put_byte by (simp add: ucast_of_int)
next
  case Word
  show ?thesis unfolding Word get_as.simps put_as.simps wrap_def ucast_put_word by (simp add: ucast_of_int)
qed (simp add: wrap_def)

lemma ucast_casts:
  "(ucast (scast (ucast (v :: word32) :: word16) :: word32) :: byte) = ucast v"
  "(ucast (scast (ucast (v :: word32) :: word16) :: word32) :: word16) = ucast v"
  "(ucast (ucast (ucast (v :: word32) :: byte) :: word32) :: byte) = ucast v"
  by (rule bit_word_eqI, auto simp: bit_simps)+

lemma get_narrow: "width_bytes w \<le> width_bytes w' \<Longrightarrow> get_as w v = wrap w (get_as w' v)"
  by (cases w; cases w') (simp_all add: wrap_def ucast_casts)

lemma wrap_get: "wrap w (get_as w v) = get_as w v"
  using get_narrow[of w w v] by simp

lemma wrap_narrow: "width_bytes w \<le> width_bytes w' \<Longrightarrow> wrap w (wrap w' x) = wrap w x"
  unfolding wrap_def[of w'] by (simp add: get_narrow[symmetric]) (simp add: wrap_def)

lemma of_int_get: "(of_int (get_as Dword v) :: word32) = v"
  by simp

text \<open>Bytes of a word.\<close>

lemma upt4: "[0..<width_bytes Byte] = [0]" "[0..<width_bytes Word] = [0, 1]" "[0..<width_bytes Dword] = [0, 1, 2, 3]"
  by (simp_all add: upt_rec numeral_eq_Suc)

lemma length_le_bytes: "length (le_bytes n v) = n"
  by (simp add: le_bytes_def)

lemma le_bytes_dword: "le_bytes 4 v = [ucast v, ucast (drop_bit 8 v), ucast (drop_bit 16 v), ucast (drop_bit 24 v)]"
proof -
  have "[0..<4] = [0, 1, 2, 3 :: nat]" by (simp add: upt_rec numeral_eq_Suc)
  then show ?thesis by (simp add: le_bytes_def)
qed

lemma le_word_dword: "le_word (le_bytes 4 v) = v"
proof (rule bit_word_eqI)
  fix n assume "n < LENGTH(32)"
  then show "bit (le_word (le_bytes 4 v)) n = bit v n"
    unfolding le_bytes_dword le_word.simps by (cases "n < 16"; cases "n < 24") (auto simp: bit_simps)
qed

lemma le_word_trunc: "get_as w (le_word (take (width_bytes w) (le_bytes 4 v))) = get_as w v"
proof (cases w)
  case Byte
  have "(ucast (le_word [ucast v]) :: byte) = ucast v" by (simp, rule bit_word_eqI, auto simp: bit_simps)
  then show ?thesis unfolding Byte le_bytes_dword by simp
next
  case Word
  have "(ucast (le_word [ucast v, ucast (drop_bit 8 v)]) :: word16) = ucast v"
    unfolding le_word.simps by (rule bit_word_eqI) (auto simp: bit_simps)
  then show ?thesis unfolding Word le_bytes_dword get_as.simps by (simp add: numeral_eq_Suc[of "Num.Bit0 Num.One"])
qed (simp add: le_word_dword length_le_bytes)

lemma those_map_Some: "(\<And>i. i \<in> set xs \<Longrightarrow> g i = Some (h i)) \<Longrightarrow> those (map g xs) = Some (map h xs)"
  by (induction xs) auto

lemma upt_width: "[0..<width_bytes w] = take (width_bytes w) [0, 1, 2, 3]"
  by (cases w) (simp_all add: upt_rec numeral_eq_Suc)

text \<open>What is stored is read back.\<close>

lemma ld_st:
  assumes "st_mem w a x m = Some m'"
  shows "ld_mem w a m' = Some (wrap w x)"
proof -
  have u: "unat (of_nat i :: word32) = i" if "i < width_bytes w" for i
    using that by (cases w) (auto simp: unat_of_nat)
  have m: "m' = (\<lambda>p. if unat (p - a) < width_bytes w then Some (le_bytes 4 (of_int x) ! unat (p - a)) else m p)"
    using assms by (simp add: st_mem_def split: if_splits)
  have "those (map (\<lambda>i. m' (a + of_nat i)) [0..<width_bytes w]) = Some (map ((!) (le_bytes 4 (of_int x))) [0..<width_bytes w])"
    by (rule those_map_Some) (simp add: m u)
  moreover have "map ((!) (le_bytes 4 (of_int x))) [0..<width_bytes w] = take (width_bytes w) (le_bytes 4 (of_int x))"
    unfolding upt_width by (cases w) (simp_all add: le_bytes_dword numeral_eq_Suc[of "Num.Bit0 Num.One"])
  ultimately show ?thesis by (simp add: ld_mem_def le_word_trunc wrap_def)
qed

lemma le_bytes_wrap:
  assumes "i < width_bytes w"
  shows "le_bytes 4 (of_int (wrap w x)) ! i = le_bytes 4 (of_int x) ! i"
proof -
  have "take (width_bytes w) (le_bytes 4 (of_int (wrap w x))) = take (width_bytes w) (le_bytes 4 (of_int x))"
  proof (cases w)
    case Byte
    show ?thesis unfolding Byte le_bytes_dword wrap_def get_as.simps by (simp, rule bit_word_eqI, auto simp: bit_simps)
  next
    case Word
    show ?thesis unfolding Word le_bytes_dword wrap_def get_as.simps width_bytes.simps
      by (simp add: numeral_eq_Suc[of "Num.Bit0 Num.One"], intro conjI; rule bit_word_eqI; auto simp: bit_simps)
  qed (simp add: wrap_def)
  then show ?thesis using assms by (metis nth_take)
qed

lemma st_mem_wrap: "st_mem w a (wrap w x) m = st_mem w a x m"
  by (auto simp: st_mem_def le_bytes_wrap)

text \<open>A narrow load reads the lower bytes of a wide one.\<close>

lemma ld_narrow:
  assumes "ld_mem Dword a m = Some q"
  shows "ld_mem w a m = Some (get_as w (of_int q))"
proof -
  obtain b0 b1 b2 b3 where b: "m a = Some b0" "m (a + 1) = Some b1" "m (a + 2) = Some b2" "m (a + 3) = Some b3"
    and q: "q = sint (le_word [b0, b1, b2, b3])"
    using assms unfolding ld_mem_def upt4 by (auto simp: bind_eq_Some_conv split: option.splits)
  have "(ucast (le_word [b0]) :: byte) = ucast (le_word [b0, b1, b2, b3])"
    by (simp, rule bit_word_eqI, auto simp: bit_simps)
  moreover have "(ucast (le_word [b0, b1]) :: word16) = ucast (le_word [b0, b1, b2, b3])"
    unfolding le_word.simps by (rule bit_word_eqI, auto simp: bit_simps)
  ultimately show ?thesis using b q unfolding ld_mem_def by (cases w) (simp_all only: upt4 list.map those.simps, simp_all)
qed

section \<open>Runs\<close>

definition step :: "syscalls \<Rightarrow> finsh_vm \<Rightarrow> finsh_vm \<Rightarrow> bool" where
  "step f s t \<longleftrightarrow> vm_more s \<and> vm_step f s = Some t"

abbreviation steps :: "syscalls \<Rightarrow> finsh_vm \<Rightarrow> finsh_vm \<Rightarrow> bool" where
  "steps f \<equiv> (step f)\<^sup>*\<^sup>*"

text \<open>The code at a place of the text, and the machine before it: the stack as the list of the slots in use.\<close>

definition code_at :: "byte list \<Rightarrow> nat \<Rightarrow> byte list \<Rightarrow> bool" where
  "code_at T p xs \<longleftrightarrow> (\<exists>ys zs. T = ys @ xs @ zs \<and> length ys = p)"

lemma code_at_append: "code_at T p (xs @ ys) \<Longrightarrow> code_at T p xs \<and> code_at T (p + length xs) ys"
  unfolding code_at_def by (metis append.assoc length_append)

lemma code_at_Cons: "code_at T p (x # ys) \<Longrightarrow> code_at T (Suc p) ys"
  using code_at_append[of T p "[x]" ys] by simp

lemma code_at_nth: "code_at T p xs \<Longrightarrow> i < length xs \<Longrightarrow> p + i < length T \<and> T ! (p + i) = xs ! i"
  by (auto simp: code_at_def nth_append)

definition view :: "byte list \<Rightarrow> nat \<Rightarrow> word32 list \<Rightarrow> memory \<Rightarrow> finsh_vm \<Rightarrow> bool" where
  "view T p st m s \<longleftrightarrow> text_segment s = T \<and> length T = FINSH_TEXT_MAX \<and> finsh_pc s = p \<and> vm_memory s = m \<and>
     length (finsh_vm_stack s) = FINSH_STACK_MAX \<and> finsh_sp s = length st \<and> (\<exists>xs. finsh_vm_stack s = st @ xs)"

lemma view_fetch:
  assumes "view T p st m s" "code_at T p (op # bs)" "mem_rd (op_table f) (unat op) = Some g"
  shows "vm_more s" "vm_step f s = g (s\<lparr>finsh_pc := p + 1\<rparr>)"
  using assms code_at_nth[OF assms(2), of 0] by (auto simp: view_def vm_more_def vm_step_def)

lemma pc_bytes_at:
  assumes "view T p st m s" "code_at T p (bs @ cs)"
  shows "pc_bytes (length bs) s = Some bs"
proof -
  have "those (map (\<lambda>i. mem_rd (text_segment s) (finsh_pc s + i)) [0..<length bs]) = Some (map ((!) bs) [0..<length bs])"
    using assms(1) code_at_nth[OF conjunct1[OF code_at_append[OF assms(2)]]] by (intro those_map_Some) (auto simp: view_def)
  then show ?thesis by (simp add: pc_bytes_def map_nth)
qed

lemma view_pc: "view T p st m s \<Longrightarrow> view T q st m (s\<lparr>finsh_pc := q\<rparr>)"
  by (simp add: view_def)

lemma view_slot: "view T p (st @ v # xs) m s \<Longrightarrow> slot (Suc (length xs)) s = Some v"
  by (auto simp: view_def slot_def)

lemma view_set:
  assumes "view T p (st @ v # xs) m s"
  shows "\<exists>t. set_slot (Suc (length xs)) y s = Some t \<and> view T p (st @ y # xs) m t"
proof -
  obtain zs where "finsh_vm_stack s = (st @ v # xs) @ zs" using assms by (auto simp: view_def)
  then show ?thesis using assms by (auto simp: view_def set_slot_def)
qed

lemma view_dec: "view T p (st @ [v]) m s \<Longrightarrow> \<exists>t. sp_dec s = Some t \<and> view T p st m t"
  by (auto simp: view_def sp_dec_def)

text \<open>The slot at the stack pointer, which a load fills.\<close>

lemma view_push:
  assumes "view T p st m s" "length st < FINSH_STACK_MAX"
  shows "\<exists>v0. slot 0 s = Some v0 \<and> (\<forall>y. \<exists>t. set_slot 0 y s = Some t \<and> finsh_pc t = p \<and> view T q (st @ [y]) m (t\<lparr>finsh_sp := finsh_sp t + 1, finsh_pc := q\<rparr>))"
proof -
  obtain zs where z: "finsh_vm_stack s = st @ zs" using assms by (auto simp: view_def)
  then obtain v0 zs' where z': "zs = v0 # zs'" using assms by (cases zs) (auto simp: view_def)
  then show ?thesis using assms z by (auto simp: view_def slot_def set_slot_def)
qed

lemma view_mem: "view T p st m s \<Longrightarrow> view T p st m' (s\<lparr>vm_memory := m'\<rparr>)"
  by (simp add: view_def)

lemma view_memD: "view T p st m s \<Longrightarrow> vm_memory s = m"
  by (simp add: view_def)

section \<open>Operations\<close>

fun ld_code :: "width \<Rightarrow> byte" where
  "ld_code Byte = FINSH_OP_LD_BYTE" | "ld_code Word = FINSH_OP_LD_WORD" | "ld_code Dword = FINSH_OP_LD_DWORD"

lemmas op_defs = op_table_def OP_add_byte_def OP_add_word_def OP_add_dword_def OP_sub_byte_def OP_sub_word_def OP_sub_dword_def
  OP_div_byte_def OP_div_word_def OP_div_dword_def OP_mod_byte_def OP_mod_word_def OP_mod_dword_def OP_mul_byte_def OP_mul_word_def
  OP_mul_dword_def OP_and_byte_def OP_and_word_def OP_and_dword_def OP_or_byte_def OP_or_word_def OP_or_dword_def OP_xor_byte_def
  OP_xor_word_def OP_xor_dword_def OP_bw_byte_def OP_bw_word_def OP_bw_dword_def OP_shl_byte_def OP_shl_word_def OP_shl_dword_def
  OP_shr_byte_def OP_shr_word_def OP_shr_dword_def OP_ld_byte_def OP_ld_word_def OP_ld_dword_def OP_ld_value_byte_def
  OP_ld_value_word_def OP_ld_value_dword_def OP_st_byte_def OP_st_word_def OP_st_dword_def OP_ld_value_byte_stack_def
  OP_ld_value_word_stack_def OP_ld_value_dword_stack_def

lemmas code_defs = FINSH_OP_NOOP_def FINSH_OP_ADD_BYTE_def FINSH_OP_ADD_WORD_def FINSH_OP_ADD_DWORD_def FINSH_OP_SUB_BYTE_def
  FINSH_OP_SUB_WORD_def FINSH_OP_SUB_DWORD_def FINSH_OP_DIV_BYTE_def FINSH_OP_DIV_WORD_def FINSH_OP_DIV_DWORD_def
  FINSH_OP_MOD_BYTE_def FINSH_OP_MOD_WORD_def FINSH_OP_MOD_DWORD_def FINSH_OP_MUL_BYTE_def FINSH_OP_MUL_WORD_def
  FINSH_OP_MUL_DWORD_def FINSH_OP_AND_BYTE_def FINSH_OP_AND_WORD_def FINSH_OP_AND_DWORD_def FINSH_OP_OR_BYTE_def
  FINSH_OP_OR_WORD_def FINSH_OP_OR_DWORD_def FINSH_OP_XOR_BYTE_def FINSH_OP_XOR_WORD_def FINSH_OP_XOR_DWORD_def
  FINSH_OP_BITWISE_BYTE_def FINSH_OP_BITWISE_WORD_def FINSH_OP_BITWISE_DWORD_def FINSH_OP_SHL_BYTE_def FINSH_OP_SHL_WORD_def
  FINSH_OP_SHL_DWORD_def FINSH_OP_SHR_BYTE_def FINSH_OP_SHR_WORD_def FINSH_OP_SHR_DWORD_def FINSH_OP_LD_BYTE_def
  FINSH_OP_LD_WORD_def FINSH_OP_LD_DWORD_def FINSH_OP_LD_VALUE_BYTE_def FINSH_OP_LD_VALUE_WORD_def FINSH_OP_LD_VALUE_DWORD_def
  FINSH_OP_ST_BYTE_def FINSH_OP_ST_WORD_def FINSH_OP_ST_DWORD_def FINSH_OP_POP_def FINSH_OP_SYSCALL_def
  FINSH_OP_LD_VALUE_BYTE_STACK_def FINSH_OP_LD_VALUE_WORD_STACK_def FINSH_OP_LD_VALUE_DWORD_STACK_def

lemma binop_values: "binop_value Add = (\<lambda>a b. Some (a + b))" "binop_value Sub = (\<lambda>a b. Some (a - b))" "binop_value Mul = (\<lambda>a b. Some (a * b))"
  "binop_value Div = c_div" "binop_value Mod = c_mod" "binop_value BitAnd = (\<lambda>a b. Some (a AND b))" "binop_value BitOr = (\<lambda>a b. Some (a OR b))"
  "binop_value BitXor = (\<lambda>a b. Some (a XOR b))" "binop_value Shl = c_shl" "binop_value Shr = c_shr"
  by (intro ext, simp)+

text \<open>The operation a code stands for.\<close>

lemma op_binop: "mem_rd (op_table f) (unat (binop_code g w)) = Some (OP_BIN w (binop_value g))"
  unfolding op_defs by (cases g; cases w) (simp_all add: code_defs binop_values)

lemma op_table_codes:
  "mem_rd (op_table f) (unat (compl_code w)) = Some (bw_slot w)"
  "mem_rd (op_table f) (unat (st_code w)) = Some (st_value w)"
  "mem_rd (op_table f) (unat (ld_stack_code w)) = Some (ld_value_stack w)"
  "mem_rd (op_table f) (unat (ld_value_op w)) = Some (ld_value w)"
  "mem_rd (op_table f) (unat (ld_code w)) = Some (ld_const w)"
  by (cases w; simp add: op_defs code_defs)+

lemma op_table_single:
  "mem_rd (op_table f) (unat FINSH_OP_POP) = Some OP_pop"
  "mem_rd (op_table f) (unat FINSH_OP_SYSCALL) = Some (OP_call f)"
  "mem_rd (op_table f) (unat FINSH_OP_NOOP) = Some OP_no_op"
  by (simp_all add: op_table_def code_defs)

text \<open>Each operation on the stack as a list.\<close>

lemma run_bin:
  assumes "view T p (st @ [a, b]) m s" "code_at T p (binop_code g w # cs)" "binop_value g (get_as w a) (get_as w b) = Some z"
  shows "\<exists>t. step f s t \<and> view T (Suc p) (st @ [put_as w z a]) m t"
proof -
  let ?s = "s\<lparr>finsh_pc := p + 1\<rparr>"
  have v: "view T (Suc p) (st @ a # [b]) m ?s" "view T (Suc p) ((st @ [a]) @ b # []) m ?s" using view_pc[OF assms(1), of "Suc p"] by simp_all
  obtain t where t: "set_slot 2 (put_as w z a) ?s = Some t" "view T (Suc p) ((st @ [put_as w z a]) @ [b]) m t"
    using view_set[OF v(1)] by (auto simp: numeral_2_eq_2)
  obtain u where u: "sp_dec t = Some u" "view T (Suc p) (st @ [put_as w z a]) m u" using view_dec[OF t(2)] by blast
  have "slot 2 ?s = Some a" "slot 1 ?s = Some b" using view_slot[OF v(1)] view_slot[OF v(2)] by (simp_all add: numeral_2_eq_2)
  then have "OP_BIN w (binop_value g) ?s = Some u" using t u assms(3) by (simp add: OP_BIN_def)
  then show ?thesis using view_fetch[OF assms(1,2) op_binop] u(2) by (auto simp: step_def)
qed

lemma run_compl:
  assumes "view T p (st @ [a]) m s" "code_at T p (compl_code w # cs)"
  shows "\<exists>t. step f s t \<and> view T (Suc p) (st @ [put_as w (NOT (get_as w a)) a]) m t"
proof -
  let ?s = "s\<lparr>finsh_pc := p + 1\<rparr>"
  have v: "view T (Suc p) (st @ a # []) m ?s" using view_pc[OF assms(1), of "Suc p"] by simp
  show ?thesis using view_set[OF v] view_slot[OF v] view_fetch[OF assms op_table_codes(1)] by (auto simp: step_def bw_slot_def)
qed

lemma run_ld_stack:
  assumes "view T p (st @ [a]) m s" "code_at T p (ld_stack_code w # cs)" "ld_mem w a m = Some x"
  shows "\<exists>t. step f s t \<and> view T (Suc p) (st @ [put_as w x a]) m t"
proof -
  let ?s = "s\<lparr>finsh_pc := p + 1\<rparr>"
  have v: "view T (Suc p) (st @ a # []) m ?s" using view_pc[OF assms(1), of "Suc p"] by simp
  show ?thesis using view_set[OF v] view_slot[OF v] view_fetch[OF assms(1,2) op_table_codes(3)] view_memD[OF v] assms(3)
    by (auto simp: step_def ld_value_stack_def)
qed

lemma run_st:
  assumes "view T p (st @ [a, v]) m s" "code_at T p (st_code w # cs)" "st_mem w a (get_as w v) m = Some m'"
  shows "\<exists>t. step f s t \<and> view T (Suc p) (st @ [a]) m' t"
proof -
  let ?s = "s\<lparr>finsh_pc := p + 1\<rparr>"
  have v: "view T (Suc p) (st @ a # [v]) m ?s" "view T (Suc p) ((st @ [a]) @ v # []) m ?s" using view_pc[OF assms(1), of "Suc p"] by simp_all
  have "slot 2 ?s = Some a" "slot 1 ?s = Some v" using view_slot[OF v(1)] view_slot[OF v(2)] by (simp_all add: numeral_2_eq_2)
  then show ?thesis using view_dec[OF view_mem[OF v(2), of m']] view_fetch[OF assms(1,2) op_table_codes(2)] view_memD[OF v(1)] assms(3)
    by (auto simp: step_def st_value_def)
qed

lemma run_pop:
  assumes "view T p (st @ [a]) m s" "code_at T p (FINSH_OP_POP # cs)"
  shows "\<exists>t. step f s t \<and> view T (Suc p) st m t"
proof -
  have v: "view T (Suc p) (st @ [a]) m (s\<lparr>finsh_pc := p + 1\<rparr>)" using view_pc[OF assms(1), of "Suc p"] by simp
  show ?thesis using view_dec[OF v] view_fetch[OF assms op_table_single(1)] by (auto simp: step_def OP_pop_def)
qed

lemma run_const:
  assumes v: "view T p st m s" "length st < FINSH_STACK_MAX" and c: "code_at T p (ld_code w # bs @ cs)" "length bs = width_bytes w"
  shows "\<exists>t y. step f s t \<and> view T (Suc (p + length bs)) (st @ [y]) m t \<and> get_as w y = get_as w (le_word bs)"
proof -
  let ?s = "s\<lparr>finsh_pc := p + 1\<rparr>"
  have v': "view T (Suc p) st m ?s" using view_pc[OF v(1), of "Suc p"] by simp
  have b: "pc_bytes (width_bytes w) ?s = Some bs" using pc_bytes_at[OF v' code_at_Cons[OF c(1)]] c(2) by simp
  obtain v0 where v0: "slot 0 ?s = Some v0" and
    push: "\<forall>y. \<exists>t. set_slot 0 y ?s = Some t \<and> finsh_pc t = Suc p \<and> view T (Suc (p + length bs)) (st @ [y]) m (t\<lparr>finsh_sp := finsh_sp t + 1, finsh_pc := Suc (p + length bs)\<rparr>)"
    using view_push[OF v' v(2)] by blast
  let ?y = "put_as w (uint (le_word bs)) v0"
  obtain t where t: "set_slot 0 ?y ?s = Some t" "finsh_pc t = Suc p"
    and u: "view T (Suc (p + length bs)) (st @ [?y]) m (t\<lparr>finsh_sp := finsh_sp t + 1, finsh_pc := Suc (p + length bs)\<rparr>)"
    using push by blast
  have "get_as w ?y = get_as w (le_word bs)" by (simp add: get_put wrap_def)
  moreover have "step f s (t\<lparr>finsh_sp := finsh_sp t + 1, finsh_pc := Suc (p + length bs)\<rparr>)"
    using view_fetch[OF v(1) c(1) op_table_codes(5)] b v0 c(2) t by (simp add: step_def ld_const_def)
  ultimately show ?thesis using u by blast
qed

lemma run_ld_value:
  assumes v: "view T p st m s" "length st < FINSH_STACK_MAX" and c: "code_at T p (ld_value_op w # dword a @ cs)" and x: "ld_mem w a m = Some x"
  shows "\<exists>t y. step f s t \<and> view T (p + 5) (st @ [y]) m t \<and> get_as w y = x"
proof -
  let ?s = "s\<lparr>finsh_pc := p + 1\<rparr>"
  have v': "view T (Suc p) st m ?s" using view_pc[OF v(1), of "Suc p"] by simp
  have b: "pc_bytes 4 ?s = Some (dword a)" using pc_bytes_at[OF v' code_at_Cons[OF c]] by (simp add: dword_def length_le_bytes)
  obtain v0 where v0: "slot 0 ?s = Some v0" and
    push: "\<forall>y. \<exists>t. set_slot 0 y ?s = Some t \<and> finsh_pc t = Suc p \<and> view T (p + 5) (st @ [y]) m (t\<lparr>finsh_sp := finsh_sp t + 1, finsh_pc := p + 5\<rparr>)"
    using view_push[OF v' v(2)] by blast
  obtain t where "set_slot 0 (put_as w x v0) ?s = Some t" "finsh_pc t = Suc p"
    "view T (p + 5) (st @ [put_as w x v0]) m (t\<lparr>finsh_sp := finsh_sp t + 1, finsh_pc := p + 5\<rparr>)"
    using push by blast
  moreover have "get_as w (put_as w x v0) = x"
    using x by (auto simp: get_put ld_mem_def wrap_get bind_eq_Some_conv)
  ultimately show ?thesis using view_fetch[OF v(1) c op_table_codes(4)] b v0 x view_memD[OF v']
    by (intro exI conjI) (auto simp: step_def ld_value_def dword_def le_word_dword)
qed


lemma run_call:
  assumes v: "view T p (st @ a # args) m s" and c: "code_at T p (FINSH_OP_SYSCALL # of_nat (length args) # cs)" and n: "length args \<le> 16"
    and r: "f a (if args = [] then [0] else args) m = Some (r, m')"
  shows "\<exists>t. step f s t \<and> view T (Suc (Suc p)) (st @ [r]) m' t"
proof -
  let ?n = "length args" and ?s = "s\<lparr>finsh_pc := p + 1\<rparr>" and ?u = "s\<lparr>finsh_pc := Suc (Suc p)\<rparr>"
  have b: "mem_rd (text_segment ?s) (Suc p) = Some (of_nat ?n)"
    using v code_at_nth[OF c, of 1] by (simp add: view_def)
  have un: "unat (of_nat ?n :: byte) = ?n" using n by (simp add: unat_of_nat)
  have vu: "view T (Suc (Suc p)) (st @ a # args) m ?u" using view_pc[OF v, of "Suc (Suc p)"] by simp
  have arg: "slot i ?u = Some (args ! (?n - i))" if "0 < i" "i \<le> ?n" for i
  proof -
    obtain j where j: "i = Suc j" "j < ?n" using \<open>0 < i\<close> \<open>i \<le> ?n\<close> by (cases i) auto
    have e: "args = take (?n - i) args @ args ! (?n - i) # drop (Suc (?n - i)) args" using that by (intro id_take_nth_drop) simp
    have "slot (Suc (length (drop (Suc (?n - i)) args))) ?u = Some (args ! (?n - i))"
      by (rule view_slot[of T "Suc (Suc p)" "st @ a # take (?n - i) args" _ _ m]) (use vu e in simp)
    then show ?thesis using j by (simp add: Suc_diff_Suc)
  qed
  have "those (map (\<lambda>i. slot i ?u) (rev [1..<?n + 1])) = Some (map (\<lambda>i. args ! (?n - i)) (rev [1..<?n + 1]))"
    by (rule those_map_Some, rule arg) auto
  moreover have "map (\<lambda>i. args ! (?n - i)) (rev [1..<?n + 1]) = args"
    by (rule nth_equalityI) (simp_all add: rev_nth del: upt_Suc)
  ultimately have par: "those (map (\<lambda>i. slot i ?u) (rev [1..<?n + 1])) = Some args" by simp
  obtain t where t: "set_slot (Suc ?n) r (?u\<lparr>vm_memory := m'\<rparr>) = Some t" "view T (Suc (Suc p)) (st @ r # args) m' t"
    using view_set[OF view_mem[OF vu, of m']] by blast
  have sp: "finsh_sp t = Suc (length st) + ?n" using t(2) by (simp add: view_def)
  have "OP_call f ?s = Some (t\<lparr>finsh_sp := finsh_sp t - ?n\<rparr>)"
    using b un n par view_slot[OF vu] view_memD[OF vu] r t(1) by (simp add: OP_call_def Let_def)
  moreover have "view T (Suc (Suc p)) (st @ [r]) m' (t\<lparr>finsh_sp := finsh_sp t - ?n\<rparr>)"
    using t(2) sp by (auto simp: view_def)
  ultimately show ?thesis using view_fetch[OF v c op_table_single(2)] by (auto simp: step_def)
qed

end
