(* ===== verification/FinshSpec.thy ===== *)
theory FinshSpec
  imports FinshEmit FinshRun
begin

text \<open>
  The compiler and the virtual machine together: running the code of an expression pushes its value, and a
  compiled program leaves the value of the expression in the first slot.
\<close>

section \<open>Code that pushes a value\<close>

definition computes :: "syscalls \<Rightarrow> word32 \<Rightarrow> finsh_var list \<Rightarrow> byte list \<Rightarrow> expr \<Rightarrow> bool" where
  "computes f base vs T e \<longleftrightarrow> (\<forall>p st m x m' s cs. value_of f base vs e m = Some (x, m') \<longrightarrow> code_at T p (code_of base vs e @ cs) \<longrightarrow>
     length st + depth_of e \<le> FINSH_STACK_MAX \<longrightarrow> view T p st m s \<longrightarrow>
     (\<exists>t v. steps f s t \<and> view T (p + length (code_of base vs e)) (st @ [v]) m' t \<and> get_as (slot_width vs e) v = x))"

lemma computesI:
  assumes "\<And>p st m x m' s cs. \<lbrakk>value_of f base vs e m = Some (x, m'); code_at T p (code_of base vs e @ cs);
     length st + depth_of e \<le> FINSH_STACK_MAX; view T p st m s\<rbrakk> \<Longrightarrow>
     \<exists>t v. steps f s t \<and> view T (p + length (code_of base vs e)) (st @ [v]) m' t \<and> get_as (slot_width vs e) v = x"
  shows "computes f base vs T e"
  using assms unfolding computes_def by blast

lemma computesE:
  assumes "computes f base vs T e" "value_of f base vs e m = Some (x, m')" "code_at T p (code_of base vs e @ cs)"
    "length st + depth_of e \<le> FINSH_STACK_MAX" "view T p st m s"
  obtains t v where "steps f s t" "view T (p + length (code_of base vs e)) (st @ [v]) m' t" "get_as (slot_width vs e) v = x"
    "code_at T (p + length (code_of base vs e)) cs"
  using assms code_at_append[OF assms(3)] unfolding computes_def by blast

lemma depth_pos: "0 < depth_of e"
  by (induction e) auto

lemma length_codes: "length (var_code base vs x) = 5" "length (addr_code base x) = 5"
  by (simp_all add: var_code_def addr_code_def dword_def length_le_bytes)

lemma run_var:
  assumes "code_at T p (var_code base vs x @ cs)" "ld_mem (width_at vs x) (id_addr base x) m = Some v" "length st < FINSH_STACK_MAX" "view T p st m s"
  shows "\<exists>t y. step f s t \<and> view T (p + 5) (st @ [y]) m t \<and> get_as (width_at vs x) y = v"
  using run_ld_value[OF assms(4,3) _ assms(2)] assms(1) by (simp add: var_code_def)

lemma run_dword:
  assumes "code_at T p (FINSH_OP_LD_DWORD # dword a @ cs)" "length st < FINSH_STACK_MAX" "view T p st m s"
  shows "\<exists>t. step f s t \<and> view T (p + 5) (st @ [a]) m t"
proof -
  have "code_at T p (ld_code Dword # dword a @ cs)" "length (dword a) = width_bytes Dword" using assms(1) by (simp_all add: dword_def length_le_bytes)
  from run_const[OF assms(3,2) this, of f] obtain t y where "step f s t" "view T (p + 5) (st @ [y]) m t" "sint y = sint a"
    by (auto simp: dword_def le_word_dword length_le_bytes add.commute)
  moreover from this(3) have "y = a" by (rule signed_word_eqI)
  ultimately show ?thesis by blast
qed

lemma run_addr:
  "\<lbrakk>code_at T p (addr_code base x @ cs); length st < FINSH_STACK_MAX; view T p st m s\<rbrakk> \<Longrightarrow> \<exists>t. step f s t \<and> view T (p + 5) (st @ [id_addr base x]) m t"
  using run_dword by (simp add: addr_code_def)

lemma id_width_at: "id_width vs x = Some w \<Longrightarrow> width_at vs x = w"
  by (simp add: width_at_def)

section \<open>Leaves\<close>

lemma computes_num: "computes f base vs T (Num v)"
proof (rule computesI)
  fix p st m x m' s cs
  assume a: "value_of f base vs (Num v) m = Some (x, m')" "code_at T p (code_of base vs (Num v) @ cs)"
    "length st + depth_of (Num v) \<le> FINSH_STACK_MAX" "view T p st m s"
  have c: "code_at T p (FINSH_OP_LD_DWORD # dword v @ cs)" using a(2) by simp
  obtain t where "step f s t" "view T (p + 5) (st @ [v]) m t" using run_dword[OF c _ a(4), of f] a(3) by auto
  then show "\<exists>t v'. steps f s t \<and> view T (p + length (code_of base vs (Num v))) (st @ [v']) m' t \<and> get_as (slot_width vs (Num v)) v' = x"
    using a(1) by (intro exI[of _ t] exI[of _ v]) (auto simp: slot_width_def dword_def length_le_bytes)
qed

lemma computes_lng: "computes f base vs T (Lng v)"
proof (rule computesI)
  fix p st m x m' s cs
  assume a: "value_of f base vs (Lng v) m = Some (x, m')" "code_at T p (code_of base vs (Lng v) @ cs)"
    "length st + depth_of (Lng v) \<le> FINSH_STACK_MAX" "view T p st m s"
  have c: "code_at T p (FINSH_OP_LD_DWORD # dword v @ cs)" using a(2) by simp
  obtain t where "step f s t" "view T (p + 5) (st @ [v]) m t" using run_dword[OF c _ a(4), of f] a(3) by auto
  then show "\<exists>t v'. steps f s t \<and> view T (p + length (code_of base vs (Lng v))) (st @ [v']) m' t \<and> get_as (slot_width vs (Lng v)) v' = x"
    using a(1) by (intro exI[of _ t] exI[of _ v]) (auto simp: slot_width_def dword_def length_le_bytes)
qed

lemma computes_chr: "computes f base vs T (Chr b)"
proof (rule computesI)
  fix p st m x m' s cs
  assume a: "value_of f base vs (Chr b) m = Some (x, m')" "code_at T p (code_of base vs (Chr b) @ cs)"
    "length st + depth_of (Chr b) \<le> FINSH_STACK_MAX" "view T p st m s"
  have c: "code_at T p (ld_code Byte # [b] @ cs)" using a(2) by simp
  obtain t y where t: "step f s t" "view T (Suc (p + length [b])) (st @ [y]) m t" "get_as Byte y = get_as Byte (le_word [b])"
    using run_const[OF a(4) _ c, of f] a(3) by auto
  have "get_as Byte (le_word [b]) = uint b" by (simp add: byte_up_down)
  then show "\<exists>t v'. steps f s t \<and> view T (p + length (code_of base vs (Chr b))) (st @ [v']) m' t \<and> get_as (slot_width vs (Chr b)) v' = x"
    using a(1) t by (intro exI[of _ t] exI[of _ y]) (auto simp: slot_width_def)
qed

lemma computes_var:
  assumes "id_width vs i = Some w"
  shows "computes f base vs T (Var i)"
proof (rule computesI)
  fix p st m x m' s cs
  assume a: "value_of f base vs (Var i) m = Some (x, m')" "code_at T p (code_of base vs (Var i) @ cs)"
    "length st + depth_of (Var i) \<le> FINSH_STACK_MAX" "view T p st m s"
  obtain t y where t: "step f s t" "view T (p + 5) (st @ [y]) m t" "get_as (width_at vs i) y = x"
    using run_var[of T p base vs i cs m x st s f] a by auto
  then show "\<exists>t v'. steps f s t \<and> view T (p + length (code_of base vs (Var i))) (st @ [v']) m' t \<and> get_as (slot_width vs (Var i)) v' = x"
    using a(1) assms by (intro exI[of _ t] exI[of _ y]) (auto simp: slot_width_def length_codes width_at_def)
qed

lemma computes_addr:
  assumes "id_width vs i = Some Dword"
  shows "computes f base vs T (AddrOf i)"
proof (rule computesI)
  fix p st m x m' s cs
  assume a: "value_of f base vs (AddrOf i) m = Some (x, m')" "code_at T p (code_of base vs (AddrOf i) @ cs)"
    "length st + depth_of (AddrOf i) \<le> FINSH_STACK_MAX" "view T p st m s"
  obtain t where t: "step f s t" "view T (p + 5) (st @ [id_addr base i]) m t"
    using run_addr[of T p base i cs st m s f] a by auto
  then show "\<exists>t v'. steps f s t \<and> view T (p + length (code_of base vs (AddrOf i))) (st @ [v']) m' t \<and> get_as (slot_width vs (AddrOf i)) v' = x"
    using a(1) assms by (intro exI[of _ t] exI[of _ "id_addr base i"]) (auto simp: slot_width_def length_codes)
qed

section \<open>Operators and assignments\<close>

lemma computes_bin:
  assumes "computes f base vs T a" "computes f base vs T b" "width_of vs a = Some w" "covers vs b w"
  shows "computes f base vs T (Bin g a b)"
proof (rule computesI)
  fix p st m x m' s cs
  assume a: "value_of f base vs (Bin g a b) m = Some (x, m')" "code_at T p (code_of base vs (Bin g a b) @ cs)"
    "length st + depth_of (Bin g a b) \<le> FINSH_STACK_MAX" "view T p st m s"
  have w: "slot_width vs a = w" using assms(3) by (simp add: slot_width_def)
  obtain y m1 z m2 r where v: "value_of f base vs a m = Some (y, m1)" "value_of f base vs b m1 = Some (z, m2)"
    "binop_value g y (wrap w z) = Some r" "x = wrap w r" "m' = m2"
    using a(1) by (auto simp: bind_eq_Some_conv w)
  have c: "code_at T p (code_of base vs a @ code_of base vs b @ binop_code g w # cs)" using a(2) by (simp add: w)
  obtain t1 v1 where t1: "steps f s t1" "view T (p + length (code_of base vs a)) (st @ [v1]) m1 t1" "get_as w v1 = y"
    and c1: "code_at T (p + length (code_of base vs a)) (code_of base vs b @ binop_code g w # cs)"
    by (rule computesE[OF assms(1) v(1) c _ a(4)]) (use a(3) w in auto)
  obtain t2 v2 where t2: "steps f t1 t2" "view T (p + length (code_of base vs a) + length (code_of base vs b)) ((st @ [v1]) @ [v2]) m2 t2"
      "get_as (slot_width vs b) v2 = z"
    and c2: "code_at T (p + length (code_of base vs a) + length (code_of base vs b)) (binop_code g w # cs)"
    by (rule computesE[OF assms(2) v(2) c1 _ t1(2)]) (use a(3) in auto)
  have "get_as w v2 = wrap w z" using get_narrow[of w "slot_width vs b" v2] assms(4) t2(3) by (simp add: covers_def)
  then obtain t3 where t3: "step f t2 t3" "view T (Suc (p + length (code_of base vs a) + length (code_of base vs b))) (st @ [put_as w r v1]) m2 t3"
    using run_bin[OF _ c2, of st v1 v2 m2 t2 r f] t2(2) t1(3) v(3) by auto
  then show "\<exists>t v'. steps f s t \<and> view T (p + length (code_of base vs (Bin g a b))) (st @ [v']) m' t \<and> get_as (slot_width vs (Bin g a b)) v' = x"
    using t1(1) t2(1) v(4,5) assms(3) by (intro exI[of _ t3] exI[of _ "put_as w r v1"]) (auto simp: slot_width_def get_put add.assoc)
qed

lemma computes_compl:
  assumes "computes f base vs T a" "width_of vs a = Some w"
  shows "computes f base vs T (Compl a)"
proof (rule computesI)
  fix p st m x m' s cs
  assume a: "value_of f base vs (Compl a) m = Some (x, m')" "code_at T p (code_of base vs (Compl a) @ cs)"
    "length st + depth_of (Compl a) \<le> FINSH_STACK_MAX" "view T p st m s"
  have w: "slot_width vs a = w" using assms(2) by (simp add: slot_width_def)
  obtain y where v: "value_of f base vs a m = Some (y, m')" "x = wrap w (NOT y)" using a(1) by (auto simp: bind_eq_Some_conv w)
  have c: "code_at T p (code_of base vs a @ compl_code w # cs)" using a(2) by (simp add: w)
  obtain t1 v1 where t1: "steps f s t1" "view T (p + length (code_of base vs a)) (st @ [v1]) m' t1" "get_as w v1 = y"
    and c1: "code_at T (p + length (code_of base vs a)) (compl_code w # cs)"
    by (rule computesE[OF assms(1) v(1) c _ a(4)]) (use a(3) w in auto)
  obtain t2 where t2: "step f t1 t2" "view T (Suc (p + length (code_of base vs a))) (st @ [put_as w (NOT y) v1]) m' t2"
    using run_compl[OF t1(2) c1, of f] t1(3) by auto
  then show "\<exists>t v'. steps f s t \<and> view T (p + length (code_of base vs (Compl a))) (st @ [v']) m' t \<and> get_as (slot_width vs (Compl a)) v' = x"
    using t1(1) v(2) assms(2) by (intro exI[of _ t2] exI[of _ "put_as w (NOT y) v1"]) (auto simp: slot_width_def get_put)
qed

text \<open>Storing to an address below the value, and reading the value back.\<close>

lemma run_store:
  assumes "view T p (st @ [a, v]) m s" "code_at T p (st_code w # ld_stack_code w # cs)" "store w a (get_as w v) m = Some (x, m')"
  shows "\<exists>t y. steps f s t \<and> view T (Suc (Suc p)) (st @ [y]) m' t \<and> get_as w y = x"
proof -
  have m': "st_mem w a (get_as w v) m = Some m'" "x = get_as w v" using assms(3) by (auto simp: store_def wrap_get)
  obtain t1 where t1: "step f s t1" "view T (Suc p) (st @ [a]) m' t1" using run_st[OF assms(1,2) m'(1)] by blast
  have l: "ld_mem w a m' = Some x" using ld_st[OF m'(1)] m'(2) by (simp add: wrap_get)
  obtain t2 where "step f t1 t2" "view T (Suc (Suc p)) (st @ [put_as w x a]) m' t2"
    using run_ld_stack[OF t1(2) code_at_Cons[OF assms(2)] l] by blast
  then show ?thesis using t1(1) m'(2) by (intro exI[of _ t2] exI[of _ "put_as w x a"]) (auto simp: get_put wrap_get)
qed

lemma computes_assign:
  assumes "computes f base vs T a" "id_width vs i = Some w" "covers vs a w"
  shows "computes f base vs T (Assign i a)"
proof (rule computesI)
  fix p st m x m' s cs
  assume a: "value_of f base vs (Assign i a) m = Some (x, m')" "code_at T p (code_of base vs (Assign i a) @ cs)"
    "length st + depth_of (Assign i a) \<le> FINSH_STACK_MAX" "view T p st m s"
  have w: "width_at vs i = w" by (rule id_width_at[OF assms(2)])
  obtain y m1 where v: "value_of f base vs a m = Some (y, m1)" "store w (id_addr base i) (wrap w y) m1 = Some (x, m')"
    using a(1) by (auto simp: bind_eq_Some_conv w)
  have c: "code_at T p (addr_code base i @ code_of base vs a @ st_code w # ld_stack_code w # cs)" using a(2) by (simp add: w)
  obtain t0 where t0: "step f s t0" "view T (p + 5) (st @ [id_addr base i]) m t0" using run_addr[OF c _ a(4), of f] a(3) by auto
  obtain t1 v1 where t1: "steps f t0 t1" "view T (p + 5 + length (code_of base vs a)) ((st @ [id_addr base i]) @ [v1]) m1 t1"
      "get_as (slot_width vs a) v1 = y"
    and c1: "code_at T (p + 5 + length (code_of base vs a)) (st_code w # ld_stack_code w # cs)"
    by (rule computesE[OF assms(1) v(1) _ _ t0(2)]) (use code_at_append[OF c] a(3) in \<open>auto simp: length_codes\<close>)
  have "get_as w v1 = wrap w y" using get_narrow[of w "slot_width vs a" v1] assms(3) t1(3) by (simp add: covers_def)
  then obtain t2 z where "steps f t1 t2" "view T (Suc (Suc (p + 5 + length (code_of base vs a)))) (st @ [z]) m' t2" "get_as w z = x"
    using run_store[OF _ c1, of st "id_addr base i" v1 m1 t1 x m' f] t1(2) v(2) by auto
  then show "\<exists>t v'. steps f s t \<and> view T (p + length (code_of base vs (Assign i a))) (st @ [v']) m' t \<and> get_as (slot_width vs (Assign i a)) v' = x"
    using t0(1) t1(1) assms(2) by (intro exI[of _ t2] exI[of _ z]) (auto simp: slot_width_def length_codes add.commute add.left_commute)
qed

lemma computes_assign_at:
  assumes "computes f base vs T q" "computes f base vs T a" "width_of vs q = Some Dword" "covers vs a Dword"
  shows "computes f base vs T (AssignAt q a)"
proof (rule computesI)
  fix p st m x m' s cs
  assume a: "value_of f base vs (AssignAt q a) m = Some (x, m')" "code_at T p (code_of base vs (AssignAt q a) @ cs)"
    "length st + depth_of (AssignAt q a) \<le> FINSH_STACK_MAX" "view T p st m s"
  have w: "slot_width vs q = Dword" using assms(3) by (simp add: slot_width_def)
  obtain b m1 y m2 where v: "value_of f base vs q m = Some (b, m1)" "value_of f base vs a m1 = Some (y, m2)"
    "store Dword (of_int b) (wrap Dword y) m2 = Some (x, m')"
    using a(1) by (auto simp: bind_eq_Some_conv)
  have c: "code_at T p (code_of base vs q @ code_of base vs a @ st_code Dword # ld_stack_code Dword # cs)" using a(2) by simp
  obtain t0 v0 where t0: "steps f s t0" "view T (p + length (code_of base vs q)) (st @ [v0]) m1 t0" "get_as Dword v0 = b"
    and c0: "code_at T (p + length (code_of base vs q)) (code_of base vs a @ st_code Dword # ld_stack_code Dword # cs)"
    by (rule computesE[OF assms(1) v(1) c _ a(4)]) (use a(3) w in auto)
  obtain t1 v1 where t1: "steps f t0 t1" "view T (p + length (code_of base vs q) + length (code_of base vs a)) ((st @ [v0]) @ [v1]) m2 t1"
      "get_as (slot_width vs a) v1 = y"
    and c1: "code_at T (p + length (code_of base vs q) + length (code_of base vs a)) (st_code Dword # ld_stack_code Dword # cs)"
    by (rule computesE[OF assms(2) v(2) c0 _ t0(2)]) (use a(3) in auto)
  have "get_as Dword v1 = wrap Dword y" using get_narrow[of Dword "slot_width vs a" v1] assms(4) t1(3) by (simp add: covers_def)
  then obtain t2 z where "steps f t1 t2" "view T (Suc (Suc (p + length (code_of base vs q) + length (code_of base vs a)))) (st @ [z]) m' t2"
      "get_as Dword z = x"
    using run_store[OF _ c1, of st v0 v1 m2 t1 x m' f] t0(3) t1(2) v(3) by auto
  then show "\<exists>t v'. steps f s t \<and> view T (p + length (code_of base vs (AssignAt q a))) (st @ [v']) m' t \<and> get_as (slot_width vs (AssignAt q a)) v' = x"
    using t0(1) t1(1) assms(3) by (intro exI[of _ t2] exI[of _ z]) (auto simp: slot_width_def add.assoc)
qed

lemma computes_deref:
  assumes "computes f base vs T a" "width_of vs a = Some Dword"
  shows "computes f base vs T (Deref a)"
proof (rule computesI)
  fix p st m x m' s cs
  assume a: "value_of f base vs (Deref a) m = Some (x, m')" "code_at T p (code_of base vs (Deref a) @ cs)"
    "length st + depth_of (Deref a) \<le> FINSH_STACK_MAX" "view T p st m s"
  have w: "slot_width vs a = Dword" using assms(2) by (simp add: slot_width_def)
  obtain b where v: "value_of f base vs a m = Some (b, m')" "ld_mem Dword (of_int b) m' = Some x"
    using a(1) by (auto simp: bind_eq_Some_conv)
  have c: "code_at T p (code_of base vs a @ ld_stack_code Dword # cs)" using a(2) by simp
  obtain t1 v1 where t1: "steps f s t1" "view T (p + length (code_of base vs a)) (st @ [v1]) m' t1" "get_as Dword v1 = b"
    and c1: "code_at T (p + length (code_of base vs a)) (ld_stack_code Dword # cs)"
    by (rule computesE[OF assms(1) v(1) c _ a(4)]) (use a(3) w in auto)
  have l: "ld_mem Dword v1 m' = Some x" using v(2) t1(3) by auto
  obtain t2 where t2: "step f t1 t2" "view T (Suc (p + length (code_of base vs a))) (st @ [put_as Dword x v1]) m' t2"
    using run_ld_stack[OF t1(2) c1 l, of f] by blast
  have "get_as Dword (put_as Dword x v1) = x" using l by (auto simp: get_put ld_mem_def wrap_get bind_eq_Some_conv simp del: get_as.simps put_as.simps)
  then show "\<exists>t v'. steps f s t \<and> view T (p + length (code_of base vs (Deref a))) (st @ [v']) m' t \<and> get_as (slot_width vs (Deref a)) v' = x"
    using t1(1) t2 assms(2) by (intro exI[of _ t2] exI[of _ "put_as Dword x v1"]) (auto simp: slot_width_def simp del: get_as.simps put_as.simps)
qed

section \<open>Increment and decrement\<close>

lemma ld_wrap: "ld_mem w a m = Some x \<Longrightarrow> wrap w x = x"
  by (auto simp: ld_mem_def wrap_get bind_eq_Some_conv)

lemma one_word: "le_word [1] = 1" "le_word [1, 0] = 1"
  by simp_all

lemma run_one:
  assumes "view T p st m s" "length st < FINSH_STACK_MAX" "code_at T p (one_code w @ cs)"
  shows "\<exists>t y. step f s t \<and> view T (p + length (one_code w)) (st @ [y]) m t \<and> get_as w y = 1"
proof -
  define bs where "bs = tl (one_code w)"
  have b: "one_code w = ld_code w # bs" "length bs = width_bytes w" "get_as w (le_word bs) = 1"
    unfolding bs_def by (cases w; simp add: dword_def length_le_bytes le_word_dword)+
  have "code_at T p (ld_code w # bs @ cs)" using assms(3) b(1) by simp
  from run_const[OF assms(1,2) this b(2), of f] show ?thesis using b by auto
qed

text \<open>The part that is common to the four: with the address on the stack, the variable is stepped.\<close>

lemma run_step_ops:
  assumes v: "view T p (st @ [id_addr base (IdVar i)]) m s" and n: "length st + 3 \<le> FINSH_STACK_MAX"
    and c: "code_at T p (step_ops base vs g i @ cs)" and g: "g = Add \<and> d = (1 :: int) \<or> g = Sub \<and> d = - 1"
    and s: "step_var base vs d i m = Some (x, y, m')"
  shows "\<exists>t. steps f s t \<and> view T (p + length (step_ops base vs g i)) (st @ [id_addr base (IdVar i)]) m' t"
proof -
  define w a st' where w: "w = width_at vs (IdVar i)" and a: "a = id_addr base (IdVar i)" and st': "st' = st @ [a]"
  have x: "ld_mem w a m = Some x" "store w a (x + d) m = Some (y, m')"
    using s by (auto simp: step_var_def Let_def bind_eq_Some_conv w a)
  have c: "code_at T p (var_code base vs (IdVar i) @ one_code w @ binop_code g w # st_code w # cs)"
    using c by (simp add: step_ops_def Let_def w)
  have v: "view T p st' m s" "length st' + 2 \<le> FINSH_STACK_MAX" using v n by (simp_all add: a st')
  obtain t1 v1 where t1: "step f s t1" "view T (p + 5) (st' @ [v1]) m t1" "get_as w v1 = x"
    using run_var[OF c _ _ v(1), of x f] x(1) v(2) by (auto simp: w a)
  have c1: "code_at T (p + 5) (one_code w @ binop_code g w # st_code w # cs)"
    using code_at_append[OF c] by (simp add: length_codes)
  obtain t2 v2 where t2: "step f t1 t2" "view T (p + 5 + length (one_code w)) (st' @ [v1, v2]) m t2" "get_as w v2 = 1"
    using run_one[OF t1(2) _ c1, of f] v(2) by auto
  have c2: "code_at T (p + 5 + length (one_code w)) (binop_code g w # st_code w # cs)" using code_at_append[OF c1] by simp
  have b: "binop_value g (get_as w v1) (get_as w v2) = Some (x + d)" using g t1(3) t2(3) by auto
  obtain t3 where t3: "step f t2 t3" "view T (Suc (p + 5 + length (one_code w))) (st @ [a, put_as w (x + d) v1]) m t3"
    using run_bin[OF t2(2) c2 b, of f] by (auto simp: st')
  have "st_mem w a (get_as w (put_as w (x + d) v1)) m = Some m'" using x(2) by (auto simp: get_put st_mem_wrap store_def)
  then obtain t4 where "step f t3 t4" "view T (Suc (Suc (p + 5 + length (one_code w)))) (st @ [a]) m' t4"
    using run_st[OF t3(2) code_at_Cons[OF c2], of m' f] by blast
  then show ?thesis using t1(1) t2(1) t3(1)
    by (intro exI[of _ t4]) (auto simp: step_ops_def Let_def length_codes w a ac_simps)
qed

lemma step_varD:
  assumes "step_var base vs d i m = Some (x, y, m')"
  shows "ld_mem (width_at vs (IdVar i)) (id_addr base (IdVar i)) m = Some x"
    and "\<exists>q. ld_mem Dword (id_addr base (IdVar i)) m' = Some q \<and> get_as (width_at vs (IdVar i)) (of_int q) = y"
proof -
  let ?w = "width_at vs (IdVar i)" and ?a = "id_addr base (IdVar i)"
  obtain q where x: "ld_mem ?w ?a m = Some x" "st_mem ?w ?a (x + d) m = Some m'" "y = wrap ?w (x + d)" and q: "ld_mem Dword ?a m' = Some q"
    using assms by (auto simp: step_var_def Let_def store_def bind_eq_Some_conv)
  show "ld_mem ?w ?a m = Some x" by (rule x(1))
  show "\<exists>q. ld_mem Dword ?a m' = Some q \<and> get_as ?w (of_int q) = y" using ld_st[OF x(2)] ld_narrow[OF q, of ?w] q x(3) by auto
qed

lemma computes_pre:
  assumes i: "id_width vs (IdVar i) = Some w" and e: "e = PreInc i \<and> g = Add \<and> d = (1 :: int) \<or> e = PreDec i \<and> g = Sub \<and> d = - 1"
  shows "computes f base vs T e"
proof (rule computesI)
  fix p st m x m' s cs
  assume a: "value_of f base vs e m = Some (x, m')" "code_at T p (code_of base vs e @ cs)"
    "length st + depth_of e \<le> FINSH_STACK_MAX" "view T p st m s"
  let ?a = "id_addr base (IdVar i)"
  have c: "code_at T p (addr_code base (IdVar i) @ step_ops base vs g i @ ld_stack_code Dword # cs)" and n: "length st + 3 \<le> FINSH_STACK_MAX"
    using e a(2,3) by auto
  obtain x0 where sv: "step_var base vs d i m = Some (x0, x, m')" using e a(1) by auto
  obtain q where q: "ld_mem Dword ?a m' = Some q" "get_as w (of_int q) = x" using step_varD(2)[OF sv] id_width_at[OF i] by auto
  obtain t1 where t1: "step f s t1" "view T (p + 5) (st @ [?a]) m t1" using run_addr[OF c _ a(4), of f] n by auto
  have c1: "code_at T (p + 5) (step_ops base vs g i @ ld_stack_code Dword # cs)" using code_at_append[OF c] by (simp add: length_codes)
  obtain t2 where t2: "steps f t1 t2" "view T (p + 5 + length (step_ops base vs g i)) (st @ [?a]) m' t2"
    using run_step_ops[OF t1(2) n c1 _ sv, of f] e by auto
  obtain t3 where t3: "step f t2 t3" "view T (Suc (p + 5 + length (step_ops base vs g i))) (st @ [of_int q]) m' t3"
    using run_ld_stack[OF t2(2) conjunct2[OF code_at_append[OF c1]] q(1), of f] by auto
  show "\<exists>t v'. steps f s t \<and> view T (p + length (code_of base vs e)) (st @ [v']) m' t \<and> get_as (slot_width vs e) v' = x"
    using t1(1) t2(1) t3 q(2) e i by (intro exI[of _ t3] exI[of _ "of_int q"]) (auto simp: slot_width_def length_codes ac_simps)
qed

lemma computes_post:
  assumes i: "id_width vs (IdVar i) = Some w" and e: "e = PostInc i \<and> g = Add \<and> d = (1 :: int) \<or> e = PostDec i \<and> g = Sub \<and> d = - 1"
  shows "computes f base vs T e"
proof (rule computesI)
  fix p st m x m' s cs
  assume a: "value_of f base vs e m = Some (x, m')" "code_at T p (code_of base vs e @ cs)"
    "length st + depth_of e \<le> FINSH_STACK_MAX" "view T p st m s"
  let ?a = "id_addr base (IdVar i)"
  have c: "code_at T p (var_code base vs (IdVar i) @ addr_code base (IdVar i) @ step_ops base vs g i @ FINSH_OP_POP # cs)"
    and n: "length st + 4 \<le> FINSH_STACK_MAX" using e a(2,3) by auto
  obtain y where sv: "step_var base vs d i m = Some (x, y, m')" using e a(1) by auto
  obtain t0 v where t0: "step f s t0" "view T (p + 5) (st @ [v]) m t0" "get_as w v = x"
    using run_var[OF c step_varD(1)[OF sv] _ a(4), of f] n id_width_at[OF i] by auto
  have c0: "code_at T (p + 5) (addr_code base (IdVar i) @ step_ops base vs g i @ FINSH_OP_POP # cs)"
    using code_at_append[OF c] by (simp add: length_codes)
  obtain t1 where t1: "step f t0 t1" "view T (p + 5 + 5) ((st @ [v]) @ [?a]) m t1" using run_addr[OF c0 _ t0(2), of f] n by auto
  have c1: "code_at T (p + 5 + 5) (step_ops base vs g i @ FINSH_OP_POP # cs)" using code_at_append[OF c0] by (simp add: length_codes)
  obtain t2 where t2: "steps f t1 t2" "view T (p + 5 + 5 + length (step_ops base vs g i)) ((st @ [v]) @ [?a]) m' t2"
    using run_step_ops[OF t1(2) _ c1 _ sv, of f] e n by auto
  obtain t3 where t3: "step f t2 t3" "view T (Suc (p + 5 + 5 + length (step_ops base vs g i))) (st @ [v]) m' t3"
    using run_pop[OF t2(2) conjunct2[OF code_at_append[OF c1]], of f] by blast
  have r: "steps f s t3" using t0(1) t1(1) t2(1) t3(1) by (meson converse_rtranclp_into_rtranclp rtranclp.rtrancl_into_rtrancl)
  show "\<exists>t v'. steps f s t \<and> view T (p + length (code_of base vs e)) (st @ [v']) m' t \<and> get_as (slot_width vs e) v' = x"
    using r t3(2) t0(3) e i by (intro exI[of _ t3] exI[of _ v]) (auto simp: slot_width_def length_codes ac_simps)
qed

section \<open>Calls\<close>

lemma computes_args:
  assumes "\<forall>a\<in>set as. computes f base vs T a \<and> covers vs a Dword" "values_of f base vs as m = Some (xs, m')"
    "code_at T p (concat (map (code_of base vs) as) @ cs)" "length st + depths_of as \<le> FINSH_STACK_MAX" "view T p st m s"
  shows "\<exists>t. steps f s t \<and> view T (p + length (concat (map (code_of base vs) as))) (st @ map of_int xs) m' t \<and> length xs = length as"
  using assms
proof (induction as arbitrary: p st m s xs)
  case Nil
  then show ?case by auto
next
  case (Cons a as)
  obtain y m1 ys where v: "value_of f base vs a m = Some (y, m1)" "values_of f base vs as m1 = Some (ys, m')" "xs = wrap Dword y # ys"
    using Cons.prems(2) by (auto simp: bind_eq_Some_conv)
  have a: "computes f base vs T a" "covers vs a Dword" using Cons.prems(1) by auto
  obtain t1 v1 where t1: "steps f s t1" "view T (p + length (code_of base vs a)) (st @ [v1]) m1 t1" "get_as (slot_width vs a) v1 = y"
    and c1: "code_at T (p + length (code_of base vs a)) (concat (map (code_of base vs) as) @ cs)"
    by (rule computesE[OF a(1) v(1) _ _ Cons.prems(5)]) (use Cons.prems(3,4) in auto)
  have "get_as Dword v1 = wrap Dword y" using get_narrow[of Dword "slot_width vs a" v1] a(2) t1(3) by (simp add: covers_def)
  then have v1: "v1 = of_int (wrap Dword y)" using of_int_get[of v1] by simp
  have n: "length (st @ [v1]) + depths_of as \<le> FINSH_STACK_MAX" using Cons.prems(4) by simp
  obtain t2 where "steps f t1 t2" "length ys = length as"
    "view T (p + length (code_of base vs a) + length (concat (map (code_of base vs) as))) ((st @ [v1]) @ map of_int ys) m' t2"
    using Cons.IH[OF _ v(2) c1 n t1(2)] Cons.prems(1) by auto
  then show ?case using t1(1) v(3) v1 by (intro exI[of _ t2]) (auto simp: add.assoc simp del: get_as.simps)
qed

lemma computes_call:
  assumes "\<forall>a\<in>set as. computes f base vs T a \<and> covers vs a Dword" "length as \<le> 16"
  shows "computes f base vs T (Call g as)"
proof (rule computesI)
  fix p st m x m' s cs
  assume a: "value_of f base vs (Call g as) m = Some (x, m')" "code_at T p (code_of base vs (Call g as) @ cs)"
    "length st + depth_of (Call g as) \<le> FINSH_STACK_MAX" "view T p st m s"
  let ?cs = "concat (map (code_of base vs) as)" and ?g = "syscall_func g"
  obtain xs m1 r where v: "values_of f base vs as m = Some (xs, m1)" "f ?g (if as = [] then [0] else map of_int xs) m1 = Some (r, m')" "x = sint r"
    using a(1) by (auto simp: bind_eq_Some_conv)
  have c: "code_at T p ((FINSH_OP_LD_DWORD # dword ?g) @ ?cs @ FINSH_OP_SYSCALL # of_nat (length as) # cs)" using a(2) by simp
  have l: "length (FINSH_OP_LD_DWORD # dword ?g) = 5" by (simp add: dword_def length_le_bytes)
  obtain t0 where t0: "step f s t0" "view T (p + 5) (st @ [?g]) m t0"
    using run_dword[of T p ?g _ st m s f] c a(3,4) by auto
  have c0: "code_at T (p + 5) (?cs @ FINSH_OP_SYSCALL # of_nat (length as) # cs)" using code_at_append[OF c] unfolding l by simp
  obtain t1 where t1: "steps f t0 t1" "view T (p + 5 + length ?cs) ((st @ [?g]) @ map of_int xs) m1 t1" "length xs = length as"
    using computes_args[OF assms(1) v(1) c0 _ t0(2)] a(3) by auto
  have c1: "code_at T (p + 5 + length ?cs) (FINSH_OP_SYSCALL # of_nat (length (map of_int xs :: word32 list)) # cs)"
    using code_at_append[OF c0] t1(3) by simp
  have "f ?g (if map of_int xs = ([] :: word32 list) then [0] else map of_int xs) m1 = Some (r, m')" using v(2) t1(3) by (cases as) auto
  then obtain t2 where "step f t1 t2" "view T (Suc (Suc (p + 5 + length ?cs))) (st @ [r]) m' t2"
    using run_call[of T "p + 5 + length ?cs" st ?g "map of_int xs" m1 t1 cs f r m'] t1(2,3) c1 assms(2) by auto
  then show "\<exists>t v'. steps f s t \<and> view T (p + length (code_of base vs (Call g as))) (st @ [v']) m' t \<and> get_as (slot_width vs (Call g as)) v' = x"
    using t0(1) t1(1) v(3) by (intro exI[of _ t2] exI[of _ r]) (auto simp: slot_width_def dword_def length_le_bytes ac_simps)
qed

section \<open>All expressions\<close>

theorem expr_computes: "well_typed vs e \<Longrightarrow> computes f base vs T e"
proof (induction e)
  case (Bin g a b)
  then show ?case using computes_bin by auto
next
  case (Compl a)
  then show ?case using computes_compl by auto
next
  case (Assign x a)
  then show ?case using computes_assign by auto
next
  case (AssignAt q a)
  then show ?case using computes_assign_at by auto
next
  case (Deref a)
  then show ?case using computes_deref by auto
next
  case (Call g as)
  then show ?case by (intro computes_call) auto
qed (auto intro: computes_num computes_lng computes_chr computes_var computes_addr computes_pre computes_post)

end
