(* ===== verification/FinshProgram.thy ===== *)
theory FinshProgram
  imports FinshSpec
begin

text \<open>
  A line of statements: what the compiler writes for it, that the virtual machine returns, and that the first
  slot then holds the value of the last statement.
\<close>

declare finsh_compile.simps(2) [simp del]

section \<open>The virtual machine returns\<close>

text \<open>No operation moves the program counter back, and fetching moves it by one.\<close>

lemma set_slot_pc: "set_slot n v s = Some t \<Longrightarrow> finsh_pc t = finsh_pc s"
  by (auto simp: set_slot_def split: if_splits)

lemma sp_dec_pc: "sp_dec s = Some t \<Longrightarrow> finsh_pc t = finsh_pc s"
  by (auto simp: sp_dec_def split: if_splits)

lemma OP_call_pc: "OP_call f s = Some t \<Longrightarrow> finsh_pc s \<le> finsh_pc t"
  by (auto simp: OP_call_def Let_def bind_eq_Some_conv dest!: set_slot_pc split: if_splits)

lemma ops_pc:
  "OP_BIN w g s = Some t \<Longrightarrow> finsh_pc s \<le> finsh_pc t"
  "bw_slot w s = Some t \<Longrightarrow> finsh_pc s \<le> finsh_pc t"
  "ld_const w s = Some t \<Longrightarrow> finsh_pc s \<le> finsh_pc t"
  "ld_value w s = Some t \<Longrightarrow> finsh_pc s \<le> finsh_pc t"
  "ld_value_stack w s = Some t \<Longrightarrow> finsh_pc s \<le> finsh_pc t"
  "st_value w s = Some t \<Longrightarrow> finsh_pc s \<le> finsh_pc t"
  "OP_pop s = Some t \<Longrightarrow> finsh_pc s \<le> finsh_pc t"
  "OP_no_op s = Some t \<Longrightarrow> finsh_pc s \<le> finsh_pc t"
  by (auto simp: OP_BIN_def bw_slot_def ld_const_def ld_value_def ld_value_stack_def st_value_def OP_pop_def OP_no_op_def bind_eq_Some_conv
    dest!: set_slot_pc sp_dec_pc)

lemma op_table_pc:
  assumes "g \<in> set (op_table f)" "g s = Some t"
  shows "finsh_pc s \<le> finsh_pc t"
  using assms unfolding op_defs list.set insert_iff empty_iff
  by (elim disjE) (simp_all add: ops_pc OP_call_pc)

lemma vm_step_pc: "vm_step f s = Some t \<Longrightarrow> finsh_pc s < finsh_pc t"
  by (auto simp: vm_step_def bind_eq_Some_conv mem_rd_eq_Some_iff dest!: op_table_pc[OF nth_mem])

lemma run_loop_path:
  assumes "\<And>s t. g s \<Longrightarrow> b s = Some t \<Longrightarrow> m t < (m s :: nat)" "\<And>s. g s \<Longrightarrow> 0 < m s"
  shows "m s \<le> n \<Longrightarrow> \<exists>k\<le>n. \<exists>t. ((\<lambda>x y. g x \<and> b x = Some y) ^^ k) s t \<and>
    (if g t then b t = None \<and> run_loop n g b s = Faulted else run_loop n g b s = Returned t)"
proof (induction n arbitrary: s)
  case 0
  then show ?case using assms(2)[of s] by auto
next
  case (Suc n)
  show ?case
  proof (cases "g s \<and> b s \<noteq> None")
    case True
    then obtain u where u: "g s" "b s = Some u" by blast
    then have "m u \<le> n" using assms(1)[OF u] Suc.prems by simp
    from Suc.IH[OF this] obtain k t where k: "k \<le> n" "((\<lambda>x y. g x \<and> b x = Some y) ^^ k) u t"
      "if g t then b t = None \<and> run_loop n g b u = Faulted else run_loop n g b u = Returned t" by blast
    have "((\<lambda>x y. g x \<and> b x = Some y) ^^ Suc k) s t" using u k(2) by (intro relpowp_Suc_I2[of _ s u]) simp_all
    then show ?thesis using k(1,3) u by (intro exI[of _ "Suc k"] conjI exI[of _ t]) (auto split: if_splits)
  next
    case False
    then show ?thesis by (intro exI[of _ 0] conjI exI[of _ s]) auto
  qed
qed

text \<open>
  C34: The virtual machine stops for every text segment, after at most one operation per byte of it: either
  the program counter has passed the end of the text, and the machine returns, or the next byte is not the
  code of an operation, or that operation leaves the stack, the text or the memory or divides by zero,
  and this is where it faults. It never runs on.
\<close>

theorem finsh_vm_returns:
  "\<exists>k\<le>FINSH_TEXT_MAX. \<exists>t. ((\<lambda>x y. vm_more x \<and> vm_step f x = Some y) ^^ k) (s\<lparr>finsh_sp := 0, finsh_pc := 0\<rparr>) t \<and>
    (if vm_more t then vm_step f t = None \<and> finsh_vm_run FINSH_TEXT_MAX f s = Fault else finsh_vm_run FINSH_TEXT_MAX f s = Done t)"
proof -
  let ?s = "s\<lparr>finsh_sp := 0, finsh_pc := 0\<rparr>"
  have "\<exists>k\<le>FINSH_TEXT_MAX. \<exists>t. ((\<lambda>x y. vm_more x \<and> vm_step f x = Some y) ^^ k) ?s t \<and>
      (if vm_more t then vm_step f t = None \<and> run_loop FINSH_TEXT_MAX vm_more (vm_step f) ?s = Faulted
       else run_loop FINSH_TEXT_MAX vm_more (vm_step f) ?s = Returned t)"
    by (rule run_loop_path[where m = "\<lambda>s. FINSH_TEXT_MAX - finsh_pc s"]) (auto simp: vm_more_def dest: vm_step_pc)
  then show ?thesis unfolding finsh_vm_run_def by (elim exE conjE) (fastforce split: if_splits)
qed

text \<open>A run to the end of the text is what the machine does.\<close>

lemma steps_loop:
  assumes "steps f s t" "\<not> vm_more t" "FINSH_TEXT_MAX - finsh_pc s \<le> n"
  shows "run_loop n vm_more (vm_step f) s = Returned t"
  using assms
proof (induction arbitrary: n rule: converse_rtranclp_induct)
  case base
  then show ?case by simp
next
  case (step s u)
  have s: "vm_more s" "vm_step f s = Some u" using step.hyps(1) by (simp_all add: step_def)
  then obtain k where k: "n = Suc k" using step.prems(2) by (cases n) (auto simp: vm_more_def)
  have "FINSH_TEXT_MAX - finsh_pc u \<le> k" using step.prems(2) vm_step_pc[OF s(2)] s(1) k by (simp add: vm_more_def)
  then show ?case using step.IH step.prems(1) s k by simp
qed

lemma run_no_ops:
  assumes "view T p st m s" "\<forall>i. p \<le> i \<longrightarrow> i < FINSH_TEXT_MAX \<longrightarrow> T ! i = FINSH_OP_NOOP"
  shows "\<exists>t. steps f s t \<and> view T (max p FINSH_TEXT_MAX) st m t"
  using assms
proof (induction "FINSH_TEXT_MAX - p" arbitrary: p s)
  case 0
  then show ?case by (auto simp: max_def)
next
  case (Suc n)
  let ?s = "s\<lparr>finsh_pc := Suc p\<rparr>"
  have p: "p < FINSH_TEXT_MAX" and n: "n = FINSH_TEXT_MAX - Suc p" using Suc.hyps(2) by linarith+
  have "T = take p T @ [FINSH_OP_NOOP] @ drop (Suc p) T" "length (take p T) = p"
    using p Suc.prems id_take_nth_drop[of p T] by (auto simp: view_def)
  then have c: "code_at T p (FINSH_OP_NOOP # [])" unfolding code_at_def by auto
  have "step f s ?s" using view_fetch[OF Suc.prems(1) c op_table_single(3)[of f]] by (simp add: step_def OP_no_op_def)
  moreover obtain t where "steps f ?s t" "view T (max (Suc p) FINSH_TEXT_MAX) st m t"
    using Suc.hyps(1)[OF n view_pc[OF Suc.prems(1), of "Suc p"]] Suc.prems(2) by (auto simp: Suc_le_eq)
  moreover have "max (Suc p) FINSH_TEXT_MAX = max p FINSH_TEXT_MAX" using p by simp
  ultimately show ?case by (auto intro: converse_rtranclp_into_rtranclp)
qed

section \<open>Programs\<close>

text \<open>The code of a line of statements, and its value: that of the last one.\<close>

fun prog_code :: "word32 \<Rightarrow> finsh_var list \<Rightarrow> expr list \<Rightarrow> byte list" where
  "prog_code base vs [] = []"
| "prog_code base vs [e] = code_of base vs e"
| "prog_code base vs (e # es) = code_of base vs e @ [FINSH_OP_POP] @ prog_code base vs es"

fun prog_value :: "syscalls \<Rightarrow> word32 \<Rightarrow> finsh_var list \<Rightarrow> expr list \<Rightarrow> memory \<Rightarrow> (int \<times> memory) option" where
  "prog_value f base vs [] m = None"
| "prog_value f base vs [e] m = value_of f base vs e m"
| "prog_value f base vs (e # es) m = do { (x, m) \<leftarrow> value_of f base vs e m; prog_value f base vs es m }"

lemma compile_prog:
  assumes "\<forall>e\<in>set es. well_typed vs e"
  shows "\<exists>t. (\<forall>err. finsh_type_check vs (nodes_of es) 0 err = (t, err)) \<and> (t = NullNode \<longleftrightarrow> es = []) \<and>
    (\<forall>c. length (code_bytes c) \<le> FINSH_TEXT_MAX \<longrightarrow> compile_roots base vs t c = finsh_code_bytes (prog_code base vs es) c)"
  using assms
proof (induction es)
  case Nil
  show ?case by (rule exI[of _ NullNode]) (simp add: code_bytes_Nil)
next
  case (Cons e es)
  obtain n ch where e: "checked vs e n ch" "emits base vs e n ch" using expr_emits[of vs e base] Cons.prems by auto
  obtain t where t: "\<forall>err. finsh_type_check vs (nodes_of es) 0 err = (t, err)" "t = NullNode \<longleftrightarrow> es = []"
    "\<forall>c. length (code_bytes c) \<le> FINSH_TEXT_MAX \<longrightarrow> compile_roots base vs t c = finsh_code_bytes (prog_code base vs es) c"
    using Cons by auto
  have "compile_roots base vs (Node n ch t) c = finsh_code_bytes (prog_code base vs (e # es)) c" for c
  proof (cases es)
    case Nil
    then show ?thesis using t(2) by (cases "finsh_code_bytes (code_of base vs e) c") (auto simp: emits_alone[OF e(2)])
  next
    case (Cons e' es')
    have "Option.bind (finsh_code_bytes xs c') (compile_roots base vs t) = finsh_code_bytes (xs @ prog_code base vs es) c'" for xs c'
      using t(3) by (auto simp: finsh_code_bytes_def)
    then have "(\<lambda>c. Option.bind (finsh_code_bytes [FINSH_OP_POP] c) (compile_roots base vs t)) = finsh_code_bytes ([FINSH_OP_POP] @ prog_code base vs es)"
      by (intro ext) simp
    moreover have "t \<noteq> NullNode" "prog_code base vs (e # es) = code_of base vs e @ [FINSH_OP_POP] @ prog_code base vs es" using t(2) Cons by simp_all
    ultimately show ?thesis by (simp only: compile_roots.simps if_True emits_alone[OF e(2)] bind_bytes simp_thms)
  qed
  then show ?case using t(1,2) e(1) by (intro exI[of _ "Node n ch t"]) (simp add: checked_def)
qed

lemma run_prog:
  assumes "\<forall>e\<in>set es. well_typed vs e \<and> length st + depth_of e \<le> FINSH_STACK_MAX" "prog_value f base vs es m = Some (x, m')"
    "code_at T p (prog_code base vs es @ cs)" "view T p st m s"
  shows "\<exists>t v. steps f s t \<and> view T (p + length (prog_code base vs es)) (st @ [v]) m' t \<and> get_as (slot_width vs (last es)) v = x"
  using assms
proof (induction es arbitrary: p m s)
  case (Cons e es)
  have e: "computes f base vs T e" "length st + depth_of e \<le> FINSH_STACK_MAX" using expr_computes Cons.prems(1) by auto
  show ?case
  proof (cases es)
    case Nil
    have v: "value_of f base vs e m = Some (x, m')" "code_at T p (code_of base vs e @ cs)" using Cons.prems(2,3) Nil by simp_all
    show ?thesis by (rule computesE[OF e(1) v e(2) Cons.prems(4)]) (use Nil in auto)
  next
    case (Cons e' es')
    obtain y m1 where v: "value_of f base vs e m = Some (y, m1)" "prog_value f base vs es m1 = Some (x, m')"
      using Cons.prems(2) Cons by (auto simp: bind_eq_Some_conv)
    have c: "code_at T p (code_of base vs e @ FINSH_OP_POP # prog_code base vs es @ cs)" using Cons.prems(3) Cons by simp
    obtain t1 v1 where t1: "steps f s t1" "view T (p + length (code_of base vs e)) (st @ [v1]) m1 t1"
      and c1: "code_at T (p + length (code_of base vs e)) (FINSH_OP_POP # prog_code base vs es @ cs)"
      by (rule computesE[OF e(1) v(1) c e(2) Cons.prems(4)])
    obtain t2 where t2: "step f t1 t2" "view T (Suc (p + length (code_of base vs e))) st m1 t2" using run_pop[OF t1(2) c1, of f] by blast
    obtain t3 v3 where "steps f t2 t3" "view T (Suc (p + length (code_of base vs e)) + length (prog_code base vs es)) (st @ [v3]) m' t3"
        "get_as (slot_width vs (last es)) v3 = x"
      using Cons.IH[OF _ v(2) code_at_Cons[OF c1] t2(2)] Cons.prems(1) by auto
    then show ?thesis using t1(1) t2(1) Cons by (intro exI[of _ t3] exI[of _ v3]) (auto simp: add.assoc)
  qed
qed simp

text \<open>Compiling a line to some code and running it.\<close>

lemma compiled_line:
  fixes P :: "byte list"
  defines "T \<equiv> P @ replicate (FINSH_TEXT_MAX - length P) 0"
  assumes c: "finsh_type_check vs root 0 FINSH_ERROR_OK = (t, FINSH_ERROR_OK)"
      "compile_roots base vs t \<lparr>code_bytes = [], code_errno = FINSH_ERROR_OK\<rparr> = finsh_code_bytes P \<lparr>code_bytes = [], code_errno = FINSH_ERROR_OK\<rparr>"
    and P: "length P \<le> FINSH_TEXT_MAX" and s: "length (finsh_vm_stack s) = FINSH_STACK_MAX"
    and r: "\<And>s'. view T 0 [] (vm_memory s) s' \<Longrightarrow> code_at T 0 (P @ replicate (FINSH_TEXT_MAX - length P) 0) \<Longrightarrow>
      \<exists>u v st. steps f s' u \<and> view T (length P) (v # st) m' u \<and> Q v"
  shows "\<exists>s' t. finsh_compiler_run base vs root FINSH_ERROR_OK s = Some (FINSH_ERROR_OK, s') \<and>
    finsh_vm_run FINSH_TEXT_MAX f s' = Done t \<and> Q (finsh_stack_bottom t) \<and> vm_memory t = m'"
proof -
  let ?s = "s\<lparr>text_segment := T, finsh_vm_stack := (finsh_vm_stack s)[0 := 0]\<rparr>"
  have run: "finsh_compiler_run base vs root FINSH_ERROR_OK s = Some (FINSH_ERROR_OK, ?s)"
    using c P by (simp add: finsh_compiler_run_def FINSH_NODE_VALUE_def finsh_code_bytes_def T_def)
  have v: "view T 0 [] (vm_memory s) (?s\<lparr>finsh_sp := 0, finsh_pc := 0\<rparr>)" using P s by (simp add: view_def T_def)
  have a: "code_at T 0 (P @ replicate (FINSH_TEXT_MAX - length P) 0)" unfolding code_at_def T_def by auto
  obtain u v st where u: "steps f (?s\<lparr>finsh_sp := 0, finsh_pc := 0\<rparr>) u" "view T (length P) (v # st) m' u" "Q v"
    using r[OF v a] by blast
  obtain w where w: "steps f u w" "view T (max (length P) FINSH_TEXT_MAX) (v # st) m' w"
    using run_no_ops[OF u(2), of f] by (auto simp: nth_append FINSH_OP_NOOP_def T_def)
  have "run_loop FINSH_TEXT_MAX vm_more (vm_step f) (?s\<lparr>finsh_sp := 0, finsh_pc := 0\<rparr>) = Returned w"
    using u(1) w by (intro steps_loop) (auto simp: vm_more_def view_def)
  then have "finsh_vm_run FINSH_TEXT_MAX f ?s = Done w" by (simp add: finsh_vm_run_def)
  moreover have "finsh_stack_bottom w = v" "vm_memory w = m'" using w(2) by (auto simp: view_def finsh_stack_bottom_def)
  ultimately show ?thesis using run u(3) by blast
qed

text \<open>
  A line of statements is compiled without an error and run to its end; the first slot then holds the
  value of the last statement, in the width of its type, and the memory has every assignment in it. The line
  must fit into the text segment and the stack, and every statement must be well typed.
\<close>

theorem finsh_line_value:
  assumes "\<forall>e\<in>set es. well_typed vs e \<and> depth_of e \<le> FINSH_STACK_MAX" "length (prog_code base vs es) \<le> FINSH_TEXT_MAX"
    and "length (finsh_vm_stack s) = FINSH_STACK_MAX" "prog_value f base vs es (vm_memory s) = Some (x, m')"
  shows "\<exists>s' t. finsh_compiler_run base vs (nodes_of es) FINSH_ERROR_OK s = Some (FINSH_ERROR_OK, s') \<and>
    finsh_vm_run FINSH_TEXT_MAX f s' = Done t \<and> get_as (slot_width vs (last es)) (finsh_stack_bottom t) = x \<and> vm_memory t = m'"
proof -
  obtain t where t: "finsh_type_check vs (nodes_of es) 0 FINSH_ERROR_OK = (t, FINSH_ERROR_OK)"
    "\<forall>c. length (code_bytes c) \<le> FINSH_TEXT_MAX \<longrightarrow> compile_roots base vs t c = finsh_code_bytes (prog_code base vs es) c"
    using compile_prog[of es vs base] assms(1) by auto
  show ?thesis
    by (rule compiled_line[where t = t and P = "prog_code base vs es"]) (use t assms run_prog[of es vs "[]" f base "vm_memory s" x m'] in fastforce)+
qed

text \<open>Only a call has no type of its own.\<close>

lemma untyped_call: "well_typed vs e \<Longrightarrow> width_of vs e = None \<Longrightarrow> \<exists>f as. e = Call f as"
  by (cases e) auto

text \<open>
  C35: For every well-typed expression the compiler reports no error and gives the root the width of its
  value as its type; the exception is a call, whose root gets no type although its value has four bytes.
\<close>

theorem finsh_type_check_width:
  assumes "well_typed vs e"
  shows "\<exists>n ch. finsh_type_check vs (node_of e NullNode) FINSH_NODE_VALUE err = (Node n ch NullNode, err) \<and>
    (if \<exists>f as. e = Call f as then data_type n = FINSH_DATA_TYPE_VOID \<and> slot_width vs e = Dword
     else data_type n = width_type (slot_width vs e))"
proof (cases "\<exists>f as. e = Call f as")
  case True
  then obtain f as where e: "e = Call f as" by blast
  have "\<forall>a\<in>set as. \<exists>n ch. checked vs a n ch \<and> emits 0 vs a n ch" using assms e expr_emits by simp
  from emit_call_void[OF this, of f] obtain n ch where n: "checked vs e n ch" "data_type n = FINSH_DATA_TYPE_VOID" unfolding e[symmetric] by blast
  have "finsh_type_check vs (node_of e NullNode) FINSH_NODE_VALUE err = (Node n ch NullNode, err)"
    using n(1) by (simp add: checked_def FINSH_NODE_VALUE_def)
  moreover have "slot_width vs e = Dword" by (simp add: e slot_width_def)
  ultimately show ?thesis unfolding if_P[OF True] using n(2) by blast
next
  case False
  then obtain w where w: "width_of vs e = Some w" using untyped_call[OF assms] by blast
  obtain n ch where n: "checked vs e n ch" "emits 0 vs e n ch" using expr_emits[OF assms] by blast
  have "finsh_type_check vs (node_of e NullNode) FINSH_NODE_VALUE err = (Node n ch NullNode, err)"
    using n(1) by (simp add: checked_def FINSH_NODE_VALUE_def)
  moreover have "data_type n = width_type (slot_width vs e)" using emits_width[OF n(2) w] w by (simp add: slot_width_def)
  ultimately show ?thesis unfolding if_not_P[OF False] by blast
qed

end
