(* ===== verification/FinshVars.thy ===== *)
theory FinshVars
  imports FinshNode
begin

text \<open>
  The tables of names: a variable that is inserted is found again and hides no other, and the order in which
  functions were added to the list decides which one a prefix of several names stands for.
\<close>

section \<open>Searching\<close>

lemma find_index_Some: "find_index p xs = Some i \<longleftrightarrow> i < length xs \<and> p (xs ! i) \<and> (\<forall>j<i. \<not> p (xs ! j))"
proof (induction xs arbitrary: i)
  case (Cons x xs)
  then show ?case by (cases i) (auto simp: less_Suc_eq_0_disj)
qed simp

lemma find_index_None: "find_index p xs = None \<longleftrightarrow> (\<forall>i<length xs. \<not> p (xs ! i))"
  by (induction xs) (auto simp: less_Suc_eq_0_disj)

section \<open>Variables\<close>

text \<open>An entry that is not in use has no name; the others have names of at most sixteen characters, all different.\<close>

definition vars_wf :: "finsh_var list \<Rightarrow> bool" where
  "vars_wf vs \<longleftrightarrow> (\<forall>v\<in>set vs. length (var_name v) \<le> FINSH_NAME_MAX \<and> (var_type v = finsh_type_unknown \<longrightarrow> var_name v = [])) \<and>
     (\<forall>i<length vs. \<forall>j<length vs. var_name (vs ! i) = var_name (vs ! j) \<longrightarrow> var_name (vs ! i) \<noteq> [] \<longrightarrow> i = j)"

lemma vars_wf_distinct: "vars_wf vs \<Longrightarrow> i < length vs \<Longrightarrow> j < length vs \<Longrightarrow> var_name (vs ! i) = var_name (vs ! j) \<Longrightarrow> var_name (vs ! i) \<noteq> [] \<Longrightarrow> i = j"
  by (simp add: vars_wf_def)

lemma vars_wf_upd:
  assumes "vars_wf vs" "i < length vs" "length (var_name v) \<le> FINSH_NAME_MAX" "var_type v = finsh_type_unknown \<longrightarrow> var_name v = []"
    and "var_name v \<noteq> [] \<longrightarrow> (\<forall>j<length vs. var_name (vs ! j) \<noteq> var_name v)"
  shows "vars_wf (vs[i := v])"
  unfolding vars_wf_def
proof (intro conjI allI impI)
  show "\<forall>v\<in>set (vs[i := v]). length (var_name v) \<le> FINSH_NAME_MAX \<and> (var_type v = finsh_type_unknown \<longrightarrow> var_name v = [])"
    using assms(1,3,4) set_update_subset_insert[of vs i v] by (auto simp: vars_wf_def)
  fix j k
  assume "j < length (vs[i := v])" "k < length (vs[i := v])" "var_name (vs[i := v] ! j) = var_name (vs[i := v] ! k)" "var_name (vs[i := v] ! j) \<noteq> []"
  then show "j = k" using assms(2,5) vars_wf_distinct[OF assms(1), of j k] by (cases "j = i"; cases "k = i") auto
qed

lemma vars_wf_init: "vars_wf finsh_var_init"
  by (auto simp: vars_wf_def finsh_var_init_def no_var_def)

definition same_name :: "string \<Rightarrow> string \<Rightarrow> bool" where
  "same_name a b \<longleftrightarrow> strn_eq a b FINSH_NAME_MAX"

lemma find_index_upd:
  assumes "i < length xs" "\<not> p (xs ! i)" "\<not> p v"
  shows "find_index p (xs[i := v]) = find_index p xs"
proof (cases "find_index p xs")
  case None
  then have "find_index p (xs[i := v]) = None" using assms unfolding find_index_None by (simp add: nth_list_update)
  then show ?thesis using None by simp
next
  case (Some j)
  then have "find_index p (xs[i := v]) = Some j" using assms unfolding find_index_Some by (auto simp: nth_list_update)
  then show ?thesis using Some by simp
qed

text \<open>
  A variable that could be inserted is found under its name with its type; every other name is looked up
  as before, and the table stays well formed.
\<close>

theorem finsh_var_insert_lookup:
  assumes "vars_wf vs" "type \<noteq> finsh_type_unknown" "finsh_var_insert name type vs = Some (i, vs')"
  shows "finsh_var_lookup name vs' = Some i \<and> var_type (vs' ! i) = type \<and> vars_wf vs' \<and>
    (\<forall>other. other \<noteq> [] \<longrightarrow> \<not> same_name other name \<longrightarrow> finsh_var_lookup other vs' = finsh_var_lookup other vs)"
proof -
  let ?v = "\<lparr>var_name = take FINSH_NAME_MAX name, var_type = type\<rparr>"
  have n: "finsh_var_lookup name vs = None" and i: "find_index (\<lambda>v. var_type v = finsh_type_unknown) vs = Some i" and vs': "vs' = vs[i := ?v]"
    using assms(3) by (auto simp: finsh_var_insert_def split: if_splits option.splits)
  have i': "i < length vs" "var_type (vs ! i) = finsh_type_unknown" using i by (auto simp: find_index_Some)
  have free: "var_name (vs ! i) = []" using assms(1) i' by (simp add: vars_wf_def)
  have "finsh_var_lookup name vs' = Some i"
    using n i' unfolding finsh_var_lookup_def find_index_Some find_index_None by (auto simp: vs' strn_eq_def nth_list_update)
  moreover have "var_type (vs' ! i) = type" using i' by (simp add: vs')
  moreover have "vars_wf vs'"
  proof -
    have "\<forall>j<length vs. var_name (vs ! j) \<noteq> take FINSH_NAME_MAX name"
      using n unfolding finsh_var_lookup_def find_index_None by (auto simp: strn_eq_def)
    then show ?thesis using assms(2) unfolding vs' by (intro vars_wf_upd[OF assms(1) i'(1)]) auto
  qed
  moreover have "finsh_var_lookup other vs' = finsh_var_lookup other vs" if "other \<noteq> []" "\<not> same_name other name" for other
    unfolding finsh_var_lookup_def vs' using i' free that
    by (intro find_index_upd) (auto simp: strn_eq_def same_name_def FINSH_NAME_MAX_def)
  ultimately show ?thesis by blast
qed

text \<open>Deleting a variable frees its entry; the name is unknown then, and the others are as they were.\<close>

lemma finsh_var_delete_lookup:
  assumes "vars_wf vs" "name \<noteq> []" "finsh_var_delete base name vs m = Some (Some (vs', m'))"
  shows "finsh_var_lookup name vs' = None \<and> vars_wf vs' \<and>
    (\<forall>other. other \<noteq> [] \<longrightarrow> \<not> same_name other name \<longrightarrow> finsh_var_lookup other vs' = finsh_var_lookup other vs)"
proof -
  obtain i where i: "finsh_var_lookup name vs = Some i" and vs': "vs' = vs[i := no_var]"
    using assms(3) by (auto simp: finsh_var_delete_def bind_eq_Some_conv split: option.splits)
  have i': "i < length vs" "strn_eq (var_name (vs ! i)) name FINSH_NAME_MAX" using i by (auto simp: finsh_var_lookup_def find_index_Some)
  have short: "length (var_name (vs ! j)) \<le> FINSH_NAME_MAX" if "j < length vs" for j using assms(1) that by (simp add: vars_wf_def)
  have nm: "var_name (vs ! i) = take FINSH_NAME_MAX name" using i' short[OF i'(1)] by (simp add: strn_eq_def)
  have ne: "take FINSH_NAME_MAX name \<noteq> []" using assms(2) by (simp add: FINSH_NAME_MAX_def)
  have only: "j = i" if "j < length vs" "strn_eq (var_name (vs ! j)) name FINSH_NAME_MAX" for j
  proof -
    have "var_name (vs ! j) = var_name (vs ! i)" using that short[OF that(1)] nm by (simp add: strn_eq_def)
    then show ?thesis by (rule vars_wf_distinct[OF assms(1) that(1) i'(1)]) (use ne in \<open>simp_all add: \<open>var_name (vs ! j) = var_name (vs ! i)\<close> nm\<close>)
  qed
  have "finsh_var_lookup name vs' = None"
    unfolding finsh_var_lookup_def find_index_None
  proof (intro allI impI)
    fix j assume j: "j < length vs'"
    show "\<not> strn_eq (var_name (vs' ! j)) name FINSH_NAME_MAX"
    proof (cases "j = i")
      case True
      then show ?thesis using ne i'(1) by (simp add: vs' strn_eq_def no_var_def)
    next
      case False
      then show ?thesis using only[of j] j by (auto simp: vs')
    qed
  qed
  moreover have "vars_wf vs'" unfolding vs' by (intro vars_wf_upd[OF assms(1) i'(1)]) (auto simp: no_var_def)
  moreover have "finsh_var_lookup other vs' = finsh_var_lookup other vs" if "other \<noteq> []" "\<not> same_name other name" for other
    unfolding finsh_var_lookup_def vs' using i'(1) nm that
    by (intro find_index_upd) (auto simp: strn_eq_def same_name_def no_var_def FINSH_NAME_MAX_def)
  ultimately show ?thesis by blast
qed

section \<open>Functions\<close>

text \<open>
  In the list of added functions a name stands for the last added one whose name begins with it, even
  where a function of exactly this name was added before.
\<close>

theorem finsh_syscall_prefix:
  assumes "\<forall>v\<in>set (syscall_table s). syscall_name v \<noteq> name" "item \<noteq> 0"
  shows "map_option syscall_func (finsh_syscall_lookup name (finsh_syscall_append item (name @ rest) func s)) = Some func"
  using assms by (auto simp: finsh_syscall_lookup_def finsh_syscall_append_def strn_eq_def find_None_iff split: option.splits dest!: find_Some_iff[THEN iffD1])

end
