(* ===== verification/FinshFaults.thy ===== *)
theory FinshFaults
  imports FinshProgram FinshVars
begin

text \<open>
  Lines the compiler does not translate as meant: a call as the left operand of an operator, and a line whose
  code does not fit into the text segment.
\<close>

declare finsh_compile.simps(2) [simp del]

lemma checked_root: "checked vs e n ch \<Longrightarrow> finsh_type_check vs (node_of e NullNode) 0 err = (Node n ch NullNode, err)"
  by (simp add: checked_def)

section \<open>A call as the left operand\<close>

lemma compile_call_left:
  assumes "well_typed vs (Call h as)" "well_typed vs b"
  shows "\<exists>n ch. checked vs (Bin g (Call h as) b) n ch \<and>
    (\<forall>c. finsh_compile base vs (Node n ch NullNode) c = finsh_code_bytes (code_of base vs (Call h as) @ code_of base vs b) c)"
proof -
  have "\<forall>a\<in>set as. \<exists>n ch. checked vs a n ch \<and> emits base vs a n ch" using assms(1) expr_emits by auto
  then obtain nf chf where f: "checked vs (Call h as) nf chf" "emits base vs (Call h as) nf chf" "data_type nf = FINSH_DATA_TYPE_VOID"
    using emit_call_void by blast
  obtain nb chb where b: "checked vs b nb chb" "emits base vs b nb chb" using expr_emits[OF assms(2)] by blast
  have d: "data_type nf = 0" using f(3) by (simp add: FINSH_DATA_TYPE_VOID_def)
  let ?n = "leaf (binop_node g)\<lparr>data_type := 0\<rparr>" and ?ch = "Node nf chf (Node nb chb NullNode)"
  have "checked vs (Bin g (Call h as) b) ?n ?ch"
    using checked_bin[OF f(1) b(1), of g] d by simp
  moreover have "compile_node base vs ?n ?ch = finsh_code_bytes []"
    by (intro ext, cases g) (simp_all add: compile_node_def leaf_def typed_def FINSH_DATA_TYPE_BYTE_def FINSH_DATA_TYPE_WORD_def FINSH_DATA_TYPE_DWORD_def)
  then have "finsh_compile base vs (Node ?n ?ch NullNode) c = finsh_code_bytes (code_of base vs (Call h as) @ code_of base vs b) c" for c
    unfolding finsh_compile.simps(2)[of base vs ?n] emits_compile[OF f(2)] compile_Null
    by (simp add: Option.bind_assoc emits_alone[OF b(2)] bind_bytes)
  ultimately show ?thesis by blast
qed

text \<open>
  An operator whose left operand is a call is not compiled: both operands are evaluated, and the value of
  the line is that of the call alone.
\<close>

theorem finsh_call_left_operand:
  assumes "well_typed vs (Call h as)" "well_typed vs b" "depth_of (Bin g (Call h as) b) \<le> FINSH_STACK_MAX"
    and "length (code_of base vs (Call h as) @ code_of base vs b) \<le> FINSH_TEXT_MAX" "length (finsh_vm_stack s) = FINSH_STACK_MAX"
    and "value_of f base vs (Call h as) (vm_memory s) = Some (x, m1)" "value_of f base vs b m1 = Some (y, m2)"
  shows "\<exists>s' t. finsh_compiler_run base vs (node_of (Bin g (Call h as) b) NullNode) FINSH_ERROR_OK s = Some (FINSH_ERROR_OK, s') \<and>
    finsh_vm_run FINSH_TEXT_MAX f s' = Done t \<and> sint (finsh_stack_bottom t) = x \<and> vm_memory t = m2"
proof -
  let ?P = "code_of base vs (Call h as) @ code_of base vs b" and ?l = "length (code_of base vs (Call h as))"
  obtain n ch where n: "checked vs (Bin g (Call h as) b) n ch"
    and e: "\<forall>c. finsh_compile base vs (Node n ch NullNode) c = finsh_code_bytes ?P c"
    using compile_call_left[OF assms(1,2)] by blast
  have c: "finsh_type_check vs (node_of (Bin g (Call h as) b) NullNode) 0 FINSH_ERROR_OK = (Node n ch NullNode, FINSH_ERROR_OK)"
    by (rule checked_root[OF n])
  have run: "\<exists>u v st. steps f s' u \<and> view T (length ?P) (v # st) m2 u \<and> sint v = x"
    if v: "view T 0 [] (vm_memory s) s'" and a: "code_at T 0 (?P @ cs)" for T s' cs
  proof -
    have a': "code_at T 0 (code_of base vs (Call h as) @ code_of base vs b @ cs)" using a unfolding append_assoc .
    obtain t1 v1 where t1: "steps f s' t1" "view T (0 + ?l) ([] @ [v1]) m1 t1" "get_as (slot_width vs (Call h as)) v1 = x"
      and c1: "code_at T (0 + ?l) (code_of base vs b @ cs)"
      by (rule computesE[OF expr_computes[OF assms(1)] assms(6) a' _ v]) (use assms(3) in simp)
    obtain t2 v2 where "steps f t1 t2" "view T (0 + ?l + length (code_of base vs b)) (([] @ [v1]) @ [v2]) m2 t2"
      by (rule computesE[OF expr_computes[OF assms(2)] assms(7) c1 _ t1(2)]) (use assms(3) in simp)
    then show ?thesis using t1(1,3) by (intro exI[of _ t2] exI[of _ v1] exI[of _ "[v2]"]) (auto simp: slot_width_def add.assoc)
  qed
  have k: "compile_roots base vs (Node n ch NullNode) c0 = finsh_code_bytes ?P c0" for c0
    by (cases "finsh_code_bytes ?P c0") (simp_all add: e[rule_format] del: code_of.simps)
  show ?thesis by (rule compiled_line[OF c k assms(4,5) run])
qed

section \<open>A line that does not fit\<close>

text \<open>
  Six increments in a line, twelve nodes of the sixteen there are, are compiled to 143 bytes: the
  compiler writes behind the text segment of 128 bytes.
\<close>

theorem finsh_text_overflow:
  assumes "0 < length vs" "var_type (vs ! 0) = finsh_type_int"
  shows "finsh_compiler_run base vs (nodes_of (replicate 6 (PostInc 0))) e s = None"
proof -
  have w: "id_width vs (IdVar 0) = Some Dword" using assms by (simp add: id_width_def id_type_def)
  have "\<forall>e\<in>set (replicate 6 (PostInc 0)). well_typed vs e" using w by simp
  then obtain t where t: "finsh_type_check vs (nodes_of (replicate 6 (PostInc 0))) 0 e = (t, e)"
    "\<forall>c. length (code_bytes c) \<le> FINSH_TEXT_MAX \<longrightarrow> compile_roots base vs t c = finsh_code_bytes (prog_code base vs (replicate 6 (PostInc 0))) c"
    using compile_prog[of "replicate 6 (PostInc 0)" vs base] by blast
  have "length (code_of base vs (PostInc 0)) = 23" using w
    by (simp add: length_codes step_ops_def width_at_def dword_def length_le_bytes)
  then have "length (prog_code base vs (replicate 6 (PostInc 0))) = 143" by (simp add: numeral_eq_Suc del: code_of.simps)
  then have "finsh_code_bytes (prog_code base vs (replicate 6 (PostInc 0))) \<lparr>code_bytes = [], code_errno = e\<rparr> = None"
    by (simp add: finsh_code_bytes_def FINSH_TEXT_MAX_def del: code_of.simps)
  then show ?thesis using t by (simp add: finsh_compiler_run_def FINSH_NODE_VALUE_def)
qed

end
