(* ===== verification/FinshToken.thy ===== *)
theory FinshToken
  imports FinshNode "HOL-Library.Char_ord"
begin

text \<open>
  The tokens of the shell language (\<open>components/finsh/finsh_token.c\<close>): a reader of characters with a
  position and an end flag, and the scanner with its one token of replay. \<open>None\<close> is a write behind one of
  the fixed buffers. The global error number is kept here, since the reader sets it. Characters are
  unsigned, as on ARM; sums of numbers wrap around.
\<close>

section \<open>State\<close>

datatype finsh_token_type =
    finsh_token_type_left_paren | finsh_token_type_right_paren | finsh_token_type_comma | finsh_token_type_semicolon
  | finsh_token_type_mul | finsh_token_type_add | finsh_token_type_inc | finsh_token_type_sub | finsh_token_type_dec
  | finsh_token_type_div | finsh_token_type_mod | finsh_token_type_assign | finsh_token_type_and | finsh_token_type_or
  | finsh_token_type_xor | finsh_token_type_bitwise | finsh_token_type_shl | finsh_token_type_shr | finsh_token_type_comments
  | finsh_token_type_void | finsh_token_type_char | finsh_token_type_short | finsh_token_type_int | finsh_token_type_long
  | finsh_token_type_unsigned | finsh_token_type_value_char | finsh_token_type_value_int | finsh_token_type_value_long
  | finsh_token_type_value_string | finsh_token_type_value_null | finsh_token_type_identifier | finsh_token_type_bad
  | finsh_token_type_eof | finsh_token_type_none

definition FINSH_STRING_MAX :: nat where "FINSH_STRING_MAX = 128"

text \<open>The line is without its terminating zero; \<open>finsh_token_type_none\<close> is the number 0 the token starts with.\<close>

record finsh_token =
  tok_eof :: bool
  tok_replay :: bool
  tok_position :: nat
  current_token :: finsh_token_type
  tok_value :: word32
  tok_string :: string
  tok_line :: string
  tok_errno :: finsh_error

definition finsh_error_set :: "finsh_error \<Rightarrow> finsh_token \<Rightarrow> finsh_token" where
  "finsh_error_set e s = s\<lparr>tok_errno := e\<rparr>"

definition finsh_token_init :: "string \<Rightarrow> finsh_error \<Rightarrow> finsh_token" where
  "finsh_token_init line e = \<lparr>tok_eof = False, tok_replay = False, tok_position = 0, current_token = finsh_token_type_none,
     tok_value = 0, tok_string = replicate FINSH_STRING_MAX (CHR 0x00), tok_line = line, tok_errno = e\<rparr>"

section \<open>Characters\<close>

abbreviation NUL :: char where "NUL \<equiv> CHR 0x00"

definition code :: "char \<Rightarrow> word32" where "code c = of_char c"

text \<open>The macros; a difference is compared as an unsigned number.\<close>

definition is_digit :: "char \<Rightarrow> bool" where
  "is_digit c \<longleftrightarrow> CHR ''0'' \<le> c \<and> c \<le> CHR ''9''"

definition is_alpha :: "char \<Rightarrow> bool" where
  "is_alpha c \<longleftrightarrow> (code c OR 0x20) - code (CHR ''a'') < 26"

definition is_xdigit :: "char \<Rightarrow> bool" where
  "is_xdigit c \<longleftrightarrow> is_digit c \<or> (code c OR 0x20) - code (CHR ''a'') < 6"

definition is_separator :: "char \<Rightarrow> bool" where
  "is_separator c \<longleftrightarrow> \<not> ((CHR ''a'' \<le> c \<and> c \<le> CHR ''z'') \<or> (CHR ''A'' \<le> c \<and> c \<le> CHR ''Z'') \<or> is_digit c \<or> c = CHR ''_'')"

section \<open>Reading characters\<close>

text \<open>The position is never behind the end of the line.\<close>

definition token_next_char :: "finsh_token \<Rightarrow> char \<times> finsh_token" where
  "token_next_char s =
     (if tok_eof s then (NUL, s)
      else if length (tok_line s) \<le> tok_position s \<or> tok_line s ! tok_position s = CHR 0x0A
      then (NUL, s\<lparr>tok_eof := True, tok_position := 0\<rparr>)
      else (tok_line s ! tok_position s, s\<lparr>tok_position := tok_position s + 1\<rparr>))"

definition token_prev_char :: "finsh_token \<Rightarrow> finsh_token" where
  "token_prev_char s =
     (if tok_eof s then s
      else if tok_position s = 0 then s
      else s\<lparr>tok_position := tok_position s - 1\<rparr>)"

text \<open>
  The loops that read on while a condition holds: the characters read, the one behind them, and the state.
  At the end of the line the character is zero, for which none of the conditions holds.
\<close>

definition unread :: "finsh_token \<Rightarrow> nat" where
  "unread s = (if tok_eof s then 0 else Suc (length (tok_line s) - tok_position s))"

lemma unread_next: "\<not> tok_eof s \<Longrightarrow> unread (snd (token_next_char s)) < unread s"
  by (auto simp: unread_def token_next_char_def)

function scan :: "(char \<Rightarrow> bool) \<Rightarrow> char \<Rightarrow> finsh_token \<Rightarrow> string \<times> char \<times> finsh_token" where
  "scan p ch s =
     (if p ch \<and> \<not> tok_eof s
      then (case scan p (fst (token_next_char s)) (snd (token_next_char s)) of (xs, c, t) \<Rightarrow> (ch # xs, c, t))
      else ([], ch, s))"
  by pat_completeness auto
termination
  by (relation "measure (\<lambda>(p, ch, s). unread s)") (simp_all add: unread_next case_prod_unfold)

declare scan.simps [simp del]

definition token_trim_space :: "finsh_token \<Rightarrow> finsh_token" where
  "token_trim_space s = (let (ch, s) = token_next_char s;
     (_, _, s) = scan (\<lambda>c. c = CHR '' '' \<or> c = CHR 0x09 \<or> c = CHR 0x0D) ch s in token_prev_char s)"

text \<open>Writing to the front of the buffer of the token, and the C string in it.\<close>

definition put_string :: "string \<Rightarrow> finsh_token \<Rightarrow> finsh_token option" where
  "put_string xs s = (if length xs \<le> FINSH_STRING_MAX
     then Some (s\<lparr>tok_string := xs @ drop (length xs) (tok_string s)\<rparr>) else None)"

definition c_string :: "finsh_token \<Rightarrow> string" where
  "c_string s = takeWhile (\<lambda>c. c \<noteq> NUL) (tok_string s)"

definition token_get_string :: "finsh_token \<Rightarrow> finsh_token option" where
  "token_get_string s =
     (case token_next_char s of (ch, s) \<Rightarrow>
      if tok_eof s then Some s
      else do {
        s \<leftarrow> put_string [NUL] s;
        if is_digit ch then Some (token_prev_char s)
        else (case scan (\<lambda>c. \<not> is_separator c) ch s of (xs, _, s) \<Rightarrow>
          put_string (xs @ [NUL]) (token_prev_char (s\<lparr>tok_eof := False\<rparr>))) })"

section \<open>Key words\<close>

definition finsh_name_table :: "(string \<times> finsh_token_type) list" where
  "finsh_name_table = [
     (''void'', finsh_token_type_void), (''char'', finsh_token_type_char), (''short'', finsh_token_type_short),
     (''int'', finsh_token_type_int), (''long'', finsh_token_type_long), (''unsigned'', finsh_token_type_unsigned),
     (''NULL'', finsh_token_type_value_null), (''null'', finsh_token_type_value_null)]"

definition token_match_name :: "string \<Rightarrow> finsh_token \<Rightarrow> bool \<times> finsh_token" where
  "token_match_name str s = (case find (\<lambda>e. fst e = str) finsh_name_table of
       Some e \<Rightarrow> (True, s\<lparr>current_token := snd e\<rparr>) | None \<Rightarrow> (False, s))"

section \<open>Characters and strings\<close>

text \<open>
  A character behind a backslash. The digits of a number are stored in a buffer of four bytes behind the
  first one, and the number read is that of the empty string behind them.
\<close>

definition token_proc_char :: "finsh_token \<Rightarrow> (char \<times> finsh_token) option" where
  "token_proc_char s = (case token_next_char s of (ch, s) \<Rightarrow> do {
     (ch, s) \<leftarrow> (if ch \<noteq> CHR 0x5C then Some (ch, s)
       else (case token_next_char s of (ch, s) \<Rightarrow>
         if ch = CHR ''n'' then Some (CHR 0x0A, s)
         else if ch = CHR ''t'' then Some (CHR 0x09, s)
         else if ch = CHR ''v'' then Some (CHR 0x0B, s)
         else if ch = CHR ''b'' then Some (CHR 0x08, s)
         else if ch = CHR ''r'' then Some (CHR 0x0D, s)
         else if ch = CHR 0x5C then Some (CHR 0x5C, s)
         else if ch = CHR 0x27 then Some (CHR 0x27, s)
         else (case scan is_digit ch s of (xs, _, s) \<Rightarrow>
           if length xs \<le> 3 then Some (NUL, token_prev_char s) else None)));
     (case token_next_char s of (c, s) \<Rightarrow>
        if c \<noteq> CHR 0x27 then Some (ch, finsh_error_set FINSH_ERROR_EXPECT_CHAR (token_prev_char s))
        else Some (ch, s)) })"

definition hex_digit :: "char \<Rightarrow> word32" where
  "hex_digit c = (if c < CHR ''A'' then code c - code (CHR ''0'') else (code c OR 0x20) - code (CHR ''a'') + 10)"

definition token_proc_escape :: "finsh_token \<Rightarrow> word32 \<times> finsh_token" where
  "token_proc_escape s = (case token_next_char s of (ch, s) \<Rightarrow>
     if ch = CHR ''n'' then (0x0A, s)
     else if ch = CHR ''t'' then (0x09, s)
     else if ch = CHR ''v'' then (0x0B, s)
     else if ch = CHR ''b'' then (0x08, s)
     else if ch = CHR ''r'' then (0x0D, s)
     else if ch = CHR ''f'' then (0x0C, s)
     else if ch = CHR ''a'' then (0x07, s)
     else if ch = CHR 0x22 then (0x22, s)
     else if ch = CHR ''x'' \<or> ch = CHR ''X'' then
       (case token_next_char s of (ch, s) \<Rightarrow> case scan is_xdigit ch s of (xs, _, s) \<Rightarrow>
          (foldl (\<lambda>r c. r * 16 + hex_digit c) 0 xs, token_prev_char s))
     else if code ch - code (CHR ''0'') < 8 then
       (case scan (\<lambda>c. code c - code (CHR ''0'') < 8) ch s of (xs, _, s) \<Rightarrow>
          (foldl (\<lambda>r c. r * 8 + (code c - code (CHR ''0''))) 0 xs, token_prev_char s))
     else (0, s))"

datatype string_end = Quote | EndOfLine | BufferFull

fun string_loop :: "nat \<Rightarrow> string \<Rightarrow> finsh_token \<Rightarrow> string \<times> string_end \<times> finsh_token" where
  "string_loop 0 xs s = (xs, BufferFull, s)"
| "string_loop (Suc n) xs s = (case token_next_char s of (ch, s) \<Rightarrow>
     if tok_eof s then (xs, EndOfLine, s)
     else if ch = CHR 0x5C then (case token_proc_escape s of (v, s) \<Rightarrow> string_loop n (xs @ [char_of (uint v)]) s)
     else if ch = CHR 0x22 then (xs, Quote, s)
     else string_loop n (xs @ [ch]) s)"

definition token_proc_string :: "finsh_token \<Rightarrow> finsh_token option" where
  "token_proc_string s = (case string_loop FINSH_STRING_MAX [] s of (xs, e, s) \<Rightarrow>
     case e of Quote \<Rightarrow> put_string (xs @ [NUL]) s
       | EndOfLine \<Rightarrow> map_option (finsh_error_set FINSH_ERROR_UNEXPECT_END) (put_string xs s)
       | BufferFull \<Rightarrow> put_string xs s)"

section \<open>Numbers\<close>

definition spec_digit :: "char \<Rightarrow> word32" where
  "spec_digit c = (if CHR ''a'' \<le> c \<and> c \<le> CHR ''f'' then code c - code (CHR ''a'') + 10
     else if CHR ''A'' \<le> c \<and> c \<le> CHR ''F'' then code c - code (CHR ''A'') + 10
     else code c - code (CHR ''0''))"

text \<open>The lower of the two words of the number; the upper one is never used.\<close>

definition token_spec_number :: "string \<Rightarrow> nat \<Rightarrow> word32" where
  "token_spec_number str b = (let shift = (if b = 16 then 4 else if b = 8 then 3 else 1) in
     foldl (\<lambda>v c. push_bit shift v OR spec_digit c) 0 str)"

definition number_end :: "char \<Rightarrow> finsh_token \<Rightarrow> finsh_token" where
  "number_end ch s = (if ch = CHR ''l'' \<or> ch = CHR ''L'' then s\<lparr>current_token := finsh_token_type_value_long\<rparr> else token_prev_char s)"

definition spec_number :: "string \<times> char \<times> finsh_token \<Rightarrow> nat \<Rightarrow> finsh_token option" where
  "spec_number r b = (case r of (xs, ch, s) \<Rightarrow> if length xs < 128
     then Some (number_end ch (s\<lparr>tok_value := token_spec_number xs b, current_token := finsh_token_type_value_int\<rparr>)) else None)"

definition token_proc_number :: "finsh_token \<Rightarrow> finsh_token option" where
  "token_proc_number s = (case token_next_char s of (ch, s) \<Rightarrow>
     if ch = CHR ''0'' then (case token_next_char s of (ch, s) \<Rightarrow>
       if ch = CHR ''x'' \<or> ch = CHR ''X''
       then (case token_next_char s of (ch, s) \<Rightarrow> spec_number (scan (\<lambda>c. is_digit c \<or> is_alpha c) ch s) 16)
       else if ch = CHR ''b'' \<or> ch = CHR ''B''
       then (case token_next_char s of (ch, s) \<Rightarrow> spec_number (scan (\<lambda>c. c = CHR ''0'' \<or> c = CHR ''1'') ch s) 2)
       else if CHR ''0'' \<le> ch \<and> ch \<le> CHR ''7''
       then spec_number (scan (\<lambda>c. CHR ''0'' \<le> c \<and> c \<le> CHR ''7'') ch s) 8
       else Some ((token_prev_char s)\<lparr>tok_value := 0, current_token := finsh_token_type_value_int\<rparr>))
     else (case scan is_digit ch s of (xs, ch, s) \<Rightarrow>
       Some (number_end ch (s\<lparr>tok_value := foldl (\<lambda>v c. v * 10 + (code c - code (CHR ''0''))) 0 xs,
         current_token := finsh_token_type_value_int\<rparr>))))"

section \<open>The scanner\<close>

definition set_token :: "finsh_token_type \<Rightarrow> finsh_token \<Rightarrow> finsh_token" where
  "set_token t s = s\<lparr>current_token := t\<rparr>"

text \<open>A second character of the kind makes another token, else it is put back.\<close>

definition double_char :: "char \<Rightarrow> finsh_token_type \<Rightarrow> finsh_token_type \<Rightarrow> finsh_token \<Rightarrow> finsh_token" where
  "double_char c t2 t1 s = (case token_next_char s of (ch, s) \<Rightarrow>
     if ch = c then set_token t2 s else set_token t1 (token_prev_char s))"

definition operator_token :: "char \<Rightarrow> finsh_token \<Rightarrow> finsh_token option" where
  "operator_token ch s =
     (if ch = CHR ''('' then Some (set_token finsh_token_type_left_paren s)
      else if ch = CHR '')'' then Some (set_token finsh_token_type_right_paren s)
      else if ch = CHR '','' then Some (set_token finsh_token_type_comma s)
      else if ch = CHR '';'' then Some (set_token finsh_token_type_semicolon s)
      else if ch = CHR ''&'' then Some (set_token finsh_token_type_and s)
      else if ch = CHR ''*'' then Some (set_token finsh_token_type_mul s)
      else if ch = CHR ''+'' then Some (double_char (CHR ''+'') finsh_token_type_inc finsh_token_type_add s)
      else if ch = CHR ''-'' then Some (double_char (CHR ''-'') finsh_token_type_dec finsh_token_type_sub s)
      else if ch = CHR ''/'' then Some (double_char (CHR ''/'') finsh_token_type_eof finsh_token_type_div s)
      else if ch = CHR ''<'' then Some (double_char (CHR ''<'') finsh_token_type_shl finsh_token_type_bad s)
      else if ch = CHR ''>'' then Some (double_char (CHR ''>'') finsh_token_type_shr finsh_token_type_bad s)
      else if ch = CHR ''|'' then Some (set_token finsh_token_type_or s)
      else if ch = CHR 0x25 then Some (set_token finsh_token_type_mod s)
      else if ch = CHR 0x7E then Some (set_token finsh_token_type_bitwise s)
      else if ch = CHR 0x5E then Some (set_token finsh_token_type_xor s)
      else if ch = CHR ''='' then Some (set_token finsh_token_type_assign s)
      else if ch = CHR 0x27 then do {
        (c, s) \<leftarrow> token_proc_char s;
        Some (set_token finsh_token_type_value_char (s\<lparr>tok_value := put_as Byte (of_char c) (tok_value s)\<rparr>)) }
      else if ch = CHR 0x22 then map_option (set_token finsh_token_type_value_string) (token_proc_string s)
      else if is_digit ch then token_proc_number (token_prev_char s)
      else Some (set_token finsh_token_type_bad (finsh_error_set FINSH_ERROR_UNKNOWN_TOKEN s)))"

definition token_run :: "finsh_token \<Rightarrow> finsh_token option" where
  "token_run s = do {
     s \<leftarrow> token_get_string (token_trim_space s);
     if tok_eof s then Some (set_token finsh_token_type_eof s)
     else if c_string s \<noteq> []
     then (case token_match_name (c_string s) s of (found, s) \<Rightarrow>
       Some (if found then s else set_token finsh_token_type_identifier s))
     else (case token_next_char s of (ch, s) \<Rightarrow> operator_token ch s) }"

definition finsh_token_token :: "finsh_token \<Rightarrow> (finsh_token_type \<times> finsh_token) option" where
  "finsh_token_token s = do {
     s \<leftarrow> (if tok_replay s then Some (s\<lparr>tok_replay := False\<rparr>) else token_run s);
     Some (current_token s, s) }"

definition finsh_token_replay :: "finsh_token \<Rightarrow> finsh_token" where
  "finsh_token_replay s = s\<lparr>tok_replay := True\<rparr>"

end
