(* ===== verification/FinshParser.thy ===== *)
theory FinshParser
  imports FinshToken
begin

text \<open>
  The parser of the shell language (\<open>components/finsh/finsh_parser.c\<close>), and the nodes it allocates
  (\<open>finsh_node.c\<close>): one definition per function, with the functions it calls as arguments where the
  grammar is recursive, and a bound on the depth and on each loop. \<open>None\<close> is a bound used up, a buffer
  overrun of the scanner, the name of sixteen characters that is read without its end, or a string literal,
  whose heap is not modelled.
\<close>

section \<open>State\<close>

text \<open>The node table is used from the front and cleared between two lines, so a count stands for it.\<close>

record finsh_parser =
  ps_token :: finsh_token
  ps_nodes :: nat
  ps_vars :: "finsh_var list"
  ps_symbols :: finsh_symbols

type_synonym 'a parse = "finsh_parser \<Rightarrow> ('a \<times> finsh_parser) option"

definition set_errno :: "finsh_error \<Rightarrow> finsh_parser \<Rightarrow> finsh_parser" where
  "set_errno e s = s\<lparr>ps_token := finsh_error_set e (ps_token s)\<rparr>"

definition next_token :: "finsh_token_type parse" where
  "next_token s = map_option (\<lambda>(t, l). (t, s\<lparr>ps_token := l\<rparr>)) (finsh_token_token (ps_token s))"

definition replay :: "finsh_parser \<Rightarrow> finsh_parser" where
  "replay s = s\<lparr>ps_token := finsh_token_replay (ps_token s)\<rparr>"

definition check_token :: "finsh_token_type \<Rightarrow> finsh_token_type \<Rightarrow> finsh_parser \<Rightarrow> finsh_parser" where
  "check_token t type s = (if t \<noteq> type then replay (set_errno FINSH_ERROR_INVALID_TOKEN s) else s)"

definition match_token :: "finsh_token_type \<Rightarrow> finsh_parser \<Rightarrow> finsh_parser option" where
  "match_token type s = do { (t, s) \<leftarrow> next_token s; Some (check_token t type s) }"

section \<open>Nodes\<close>

definition finsh_node_allocate :: "finsh_node_type \<Rightarrow> finsh_parser \<Rightarrow> finsh_node \<times> finsh_parser" where
  "finsh_node_allocate nt s = (if ps_nodes s \<ge> FINSH_NODE_MAX then (NullNode, s)
     else (Node (leaf nt) NullNode NullNode, s\<lparr>ps_nodes := ps_nodes s + 1\<rparr>))"

definition new_node :: "finsh_node_type \<Rightarrow> (node_info \<Rightarrow> node_info) \<Rightarrow> finsh_parser \<Rightarrow> finsh_node \<times> finsh_parser" where
  "new_node nt f s = (case finsh_node_allocate nt s of
       (NullNode, s) \<Rightarrow> (NullNode, set_errno FINSH_ERROR_MEMORY_FULL s)
     | (Node n ch sb, s) \<Rightarrow> (Node (f n) ch sb, s))"

text \<open>A name of sixteen characters has no end in the buffer of the parser; only variables are compared up to that length.\<close>

definition finsh_node_new_id :: "string \<Rightarrow> finsh_node parse" where
  "finsh_node_new_id name s = (case finsh_var_lookup name (ps_vars s) of
       Some i \<Rightarrow> Some (new_node FINSH_NODE_ID (\<lambda>n. n\<lparr>node_id := IdVar i, idtype := FINSH_IDTYPE_VAR\<rparr>) s)
     | None \<Rightarrow> if length name \<ge> FINSH_NAME_MAX then None
         else (case finsh_sysvar_lookup name (ps_symbols s) of
             Some v \<Rightarrow> Some (new_node FINSH_NODE_ID (\<lambda>n. n\<lparr>node_id := IdSysvar v, idtype := FINSH_IDTYPE_SYSVAR\<rparr>) s)
           | None \<Rightarrow> (case finsh_syscall_lookup name (ps_symbols s) of
               Some f \<Rightarrow> Some (new_node FINSH_NODE_ID (\<lambda>n. n\<lparr>node_id := IdSyscall f, idtype := FINSH_IDTYPE_SYSCALL\<rparr>) s)
             | None \<Rightarrow> Some (NullNode, set_errno FINSH_ERROR_UNKNOWN_SYMBOL s))))"

definition finsh_node_new_char :: "byte \<Rightarrow> finsh_parser \<Rightarrow> finsh_node \<times> finsh_parser" where
  "finsh_node_new_char c = new_node FINSH_NODE_VALUE_CHAR (\<lambda>n. n\<lparr>node_value := ucast c\<rparr>)"

definition finsh_node_new_int :: "word32 \<Rightarrow> finsh_parser \<Rightarrow> finsh_node \<times> finsh_parser" where
  "finsh_node_new_int i = new_node FINSH_NODE_VALUE_INT (\<lambda>n. n\<lparr>node_value := i\<rparr>)"

definition finsh_node_new_long :: "word32 \<Rightarrow> finsh_parser \<Rightarrow> finsh_node \<times> finsh_parser" where
  "finsh_node_new_long l = new_node FINSH_NODE_VALUE_LONG (\<lambda>n. n\<lparr>node_value := l\<rparr>)"

definition finsh_node_new_ptr :: "word32 \<Rightarrow> finsh_parser \<Rightarrow> finsh_node \<times> finsh_parser" where
  "finsh_node_new_ptr p = new_node FINSH_NODE_VALUE_NULL (\<lambda>n. n\<lparr>node_value := p\<rparr>)"

fun set_sibling :: "finsh_node \<Rightarrow> finsh_node \<Rightarrow> finsh_node" where
  "set_sibling sb NullNode = NullNode"
| "set_sibling sb (Node n ch _) = Node n ch sb"

definition make_sys_node :: "finsh_node_type \<Rightarrow> finsh_node \<Rightarrow> finsh_node \<Rightarrow> finsh_parser \<Rightarrow> finsh_node \<times> finsh_parser" where
  "make_sys_node nt node1 node2 s = (case finsh_node_allocate nt s of
       (NullNode, s) \<Rightarrow> (NullNode, set_errno FINSH_ERROR_NULL_NODE s)
     | (Node n _ _, s) \<Rightarrow> if node1 = NullNode then (Node n NullNode NullNode, set_errno FINSH_ERROR_NULL_NODE s)
         else (Node n (set_sibling node2 node1) NullNode, s))"

text \<open>Nodes linked as siblings.\<close>

definition chain :: "finsh_node list \<Rightarrow> finsh_node" where
  "chain ns = foldr (\<lambda>n sb. set_sibling sb n) ns NullNode"

section \<open>Types and identifiers\<close>

fun base_type :: "finsh_token_type \<Rightarrow> finsh_type option" where
  "base_type finsh_token_type_void = Some finsh_type_void"
| "base_type finsh_token_type_char = Some finsh_type_char"
| "base_type finsh_token_type_short = Some finsh_type_short"
| "base_type finsh_token_type_int = Some finsh_type_int"
| "base_type finsh_token_type_long = Some finsh_type_long"
| "base_type _ = None"

definition is_base_type :: "finsh_token_type \<Rightarrow> bool" where
  "is_base_type t \<longleftrightarrow> t \<in> {finsh_token_type_void, finsh_token_type_char, finsh_token_type_short, finsh_token_type_int, finsh_token_type_long}"

fun unsigned_type :: "finsh_token_type \<Rightarrow> finsh_type option" where
  "unsigned_type finsh_token_type_char = Some finsh_type_uchar"
| "unsigned_type finsh_token_type_short = Some finsh_type_ushort"
| "unsigned_type finsh_token_type_int = Some finsh_type_uint"
| "unsigned_type finsh_token_type_long = Some finsh_type_ulong"
| "unsigned_type _ = None"

fun pointer_to :: "finsh_type \<Rightarrow> finsh_type" where
  "pointer_to finsh_type_char = finsh_type_charp"
| "pointer_to finsh_type_uchar = finsh_type_charp"
| "pointer_to finsh_type_short = finsh_type_shortp"
| "pointer_to finsh_type_ushort = finsh_type_shortp"
| "pointer_to finsh_type_int = finsh_type_intp"
| "pointer_to finsh_type_uint = finsh_type_intp"
| "pointer_to finsh_type_long = finsh_type_longp"
| "pointer_to finsh_type_ulong = finsh_type_longp"
| "pointer_to _ = finsh_type_voidp"

definition proc_pointer :: "finsh_type \<Rightarrow> finsh_type parse" where
  "proc_pointer type s = do {
     (t, s) \<leftarrow> next_token s;
     Some (if t = finsh_token_type_mul then (pointer_to type, s) else (type, replay s)) }"

definition no_type :: "finsh_parser \<Rightarrow> finsh_type \<times> finsh_parser" where
  "no_type s = (finsh_type_unknown, set_errno FINSH_ERROR_UNKNOWN_TYPE (replay s))"

definition proc_type :: "finsh_type parse" where
  "proc_type s = do {
     (t, s) \<leftarrow> next_token s;
     (case base_type t of Some type \<Rightarrow> proc_pointer type s
      | None \<Rightarrow> if t = finsh_token_type_unsigned then do {
            (t, s) \<leftarrow> next_token s;
            if is_base_type t then (case unsigned_type t of Some type \<Rightarrow> proc_pointer type s | None \<Rightarrow> Some (no_type s))
            else proc_pointer finsh_type_unknown (set_errno FINSH_ERROR_EXPECT_TYPE (replay s)) }
          else Some (no_type s)) }"

text \<open>The result is what is in the buffer of the token, whatever the token is.\<close>

definition proc_identifier :: "string parse" where
  "proc_identifier s = do {
     s \<leftarrow> match_token finsh_token_type_identifier s;
     Some (take FINSH_NAME_MAX (c_string (ps_token s)), s) }"

section \<open>Binary operators\<close>

text \<open>The loop of a level: \<open>sub\<close> parses the operands, \<open>ops\<close> gives the node of an operator of the level.\<close>

fun binary_loop :: "nat \<Rightarrow> finsh_node parse \<Rightarrow> (finsh_token_type \<Rightarrow> finsh_node_type option) \<Rightarrow> finsh_node \<Rightarrow> finsh_node parse" where
  "binary_loop 0 sub ops node s = None"
| "binary_loop (Suc n) sub ops node s = do {
     (t, s) \<leftarrow> next_token s;
     (case ops t of None \<Rightarrow> Some (node, replay s)
      | Some nt \<Rightarrow> do {
          (new, s) \<leftarrow> sub s;
          let (node, s) = (if new = NullNode then (node, set_errno FINSH_ERROR_EXPECT_OPERATOR s) else make_sys_node nt node new s) in
          binary_loop n sub ops node s }) }"

fun mul_ops :: "finsh_token_type \<Rightarrow> finsh_node_type option" where
  "mul_ops finsh_token_type_mul = Some FINSH_NODE_SYS_MUL"
| "mul_ops finsh_token_type_div = Some FINSH_NODE_SYS_DIV"
| "mul_ops finsh_token_type_mod = Some FINSH_NODE_SYS_MOD"
| "mul_ops _ = None"

fun add_ops :: "finsh_token_type \<Rightarrow> finsh_node_type option" where
  "add_ops finsh_token_type_sub = Some FINSH_NODE_SYS_SUB"
| "add_ops finsh_token_type_add = Some FINSH_NODE_SYS_ADD"
| "add_ops _ = None"

fun shift_ops :: "finsh_token_type \<Rightarrow> finsh_node_type option" where
  "shift_ops finsh_token_type_shl = Some FINSH_NODE_SYS_SHL"
| "shift_ops finsh_token_type_shr = Some FINSH_NODE_SYS_SHR"
| "shift_ops _ = None"

fun and_ops :: "finsh_token_type \<Rightarrow> finsh_node_type option" where
  "and_ops finsh_token_type_and = Some FINSH_NODE_SYS_AND"
| "and_ops _ = None"

fun xor_ops :: "finsh_token_type \<Rightarrow> finsh_node_type option" where
  "xor_ops finsh_token_type_xor = Some FINSH_NODE_SYS_XOR"
| "xor_ops _ = None"

fun or_ops :: "finsh_token_type \<Rightarrow> finsh_node_type option" where
  "or_ops finsh_token_type_or = Some FINSH_NODE_SYS_OR"
| "or_ops _ = None"

definition binary_level :: "nat \<Rightarrow> (finsh_token_type \<Rightarrow> finsh_node_type option) \<Rightarrow> finsh_node parse \<Rightarrow> finsh_node parse" where
  "binary_level n ops sub s = do { (node, s) \<leftarrow> sub s; binary_loop n sub ops node s }"

definition proc_multiplicative_expr :: "nat \<Rightarrow> finsh_node parse \<Rightarrow> finsh_node parse" where
  "proc_multiplicative_expr n cast = binary_level n mul_ops cast"

definition proc_additive_expr :: "nat \<Rightarrow> finsh_node parse \<Rightarrow> finsh_node parse" where
  "proc_additive_expr n cast = binary_level n add_ops (proc_multiplicative_expr n cast)"

definition proc_shift_expr :: "nat \<Rightarrow> finsh_node parse \<Rightarrow> finsh_node parse" where
  "proc_shift_expr n cast = binary_level n shift_ops (proc_additive_expr n cast)"

definition proc_and_expr :: "nat \<Rightarrow> finsh_node parse \<Rightarrow> finsh_node parse" where
  "proc_and_expr n cast = binary_level n and_ops (proc_shift_expr n cast)"

definition proc_exclusive_or_expr :: "nat \<Rightarrow> finsh_node parse \<Rightarrow> finsh_node parse" where
  "proc_exclusive_or_expr n cast = binary_level n xor_ops (proc_and_expr n cast)"

definition proc_inclusive_or_expr :: "nat \<Rightarrow> finsh_node parse \<Rightarrow> finsh_node parse" where
  "proc_inclusive_or_expr n cast = binary_level n or_ops (proc_exclusive_or_expr n cast)"

section \<open>Primary, postfix and unary expressions\<close>

definition proc_primary_expr :: "finsh_node parse \<Rightarrow> finsh_node parse" where
  "proc_primary_expr expr s = do {
     (t, s) \<leftarrow> next_token s;
     (if t = finsh_token_type_identifier then do {
        (name, s) \<leftarrow> proc_identifier (replay s);
        finsh_node_new_id name s }
      else if t = finsh_token_type_left_paren then do {
        (e, s) \<leftarrow> expr s;
        s \<leftarrow> match_token finsh_token_type_right_paren s;
        Some (e, s) }
      else if t = finsh_token_type_value_int then Some (finsh_node_new_int (tok_value (ps_token s)) s)
      else if t = finsh_token_type_value_long then Some (finsh_node_new_long (tok_value (ps_token s)) s)
      else if t = finsh_token_type_value_char then Some (finsh_node_new_char (ucast (tok_value (ps_token s))) s)
      else if t = finsh_token_type_value_string then None
      else if t = finsh_token_type_value_null then Some (finsh_node_new_ptr 0 s)
      else Some (NullNode, set_errno FINSH_ERROR_INVALID_TOKEN s)) }"

fun param_loop :: "nat \<Rightarrow> finsh_node parse \<Rightarrow> finsh_node list \<Rightarrow> finsh_node parse" where
  "param_loop 0 assign ns s = None"
| "param_loop (Suc n) assign ns s = do {
     (t, s) \<leftarrow> next_token s;
     if t = finsh_token_type_comma then do {
       (a, s) \<leftarrow> assign s;
       if a = NullNode then param_loop n assign ns (set_errno FINSH_ERROR_EXPECT_OPERATOR s)
       else param_loop n assign (ns @ [a]) s }
     else Some (chain ns, replay s) }"

definition proc_param_list :: "nat \<Rightarrow> finsh_node parse \<Rightarrow> finsh_node parse" where
  "proc_param_list n assign s = do {
     (a, s) \<leftarrow> assign s;
     if a = NullNode then Some (NullNode, s) else param_loop n assign [a] s }"

definition proc_params :: "nat \<Rightarrow> finsh_node parse \<Rightarrow> finsh_node parse" where
  "proc_params n assign s = do {
     (t, s) \<leftarrow> next_token s;
     if t \<noteq> finsh_token_type_right_paren then do {
       (ps, s) \<leftarrow> proc_param_list n assign (replay s);
       s \<leftarrow> match_token finsh_token_type_right_paren s;
       Some (ps, s) }
     else Some (NullNode, s) }"

fun postfix_loop :: "nat \<Rightarrow> finsh_node parse \<Rightarrow> finsh_node \<Rightarrow> finsh_node parse" where
  "postfix_loop 0 assign p s = None"
| "postfix_loop (Suc n) assign p s = do {
     (t, s) \<leftarrow> next_token s;
     (if t = finsh_token_type_inc then (case make_sys_node FINSH_NODE_SYS_INC p NullNode s of (p, s) \<Rightarrow> postfix_loop n assign p s)
      else if t = finsh_token_type_dec then (case make_sys_node FINSH_NODE_SYS_DEC p NullNode s of (p, s) \<Rightarrow> postfix_loop n assign p s)
      else if t = finsh_token_type_left_paren then do {
        (ps, s) \<leftarrow> proc_params n assign s;
        (case make_sys_node FINSH_NODE_SYS_FUNC p ps s of (p, s) \<Rightarrow> postfix_loop n assign p s) }
      else Some (p, replay s)) }"

definition proc_postfix_expr :: "nat \<Rightarrow> finsh_node parse \<Rightarrow> finsh_node parse" where
  "proc_postfix_expr n assign s = do { (p, s) \<leftarrow> proc_primary_expr assign s; postfix_loop n assign p s }"

definition unary_node :: "finsh_node_type \<Rightarrow> finsh_node parse \<Rightarrow> finsh_node parse" where
  "unary_node nt cast s = do { (c, s) \<leftarrow> cast s; Some (make_sys_node nt c NullNode s) }"

definition proc_unary_expr :: "nat \<Rightarrow> finsh_node parse \<Rightarrow> finsh_node parse \<Rightarrow> finsh_node parse" where
  "proc_unary_expr n cast assign s = do {
     (t, s) \<leftarrow> next_token s;
     (if t = finsh_token_type_add then cast s
      else if t = finsh_token_type_inc then unary_node FINSH_NODE_SYS_PREINC cast s
      else if t = finsh_token_type_sub then do {
        (c, s) \<leftarrow> cast s;
        (case finsh_node_new_long 0 s of (z, s) \<Rightarrow> Some (make_sys_node FINSH_NODE_SYS_SUB z c s)) }
      else if t = finsh_token_type_dec then unary_node FINSH_NODE_SYS_PREDEC cast s
      else if t = finsh_token_type_bitwise then unary_node FINSH_NODE_SYS_BITWISE cast s
      else if t = finsh_token_type_mul then unary_node FINSH_NODE_SYS_GETVALUE cast s
      else if t = finsh_token_type_and then unary_node FINSH_NODE_SYS_GETADDR cast s
      else proc_postfix_expr n assign (replay s)) }"

section \<open>Casts and assignments\<close>

text \<open>The two functions through which the grammar is recursive; the first argument bounds the depth.\<close>

fun proc_cast_expr :: "nat \<Rightarrow> finsh_node parse" and proc_assign_expr :: "nat \<Rightarrow> finsh_node parse" where
  "proc_cast_expr 0 s = None"
| "proc_cast_expr (Suc n) s = do {
     (t, s) \<leftarrow> next_token s;
     if t = finsh_token_type_left_paren then do {
       (type, s) \<leftarrow> proc_type s;
       s \<leftarrow> match_token finsh_token_type_right_paren s;
       (c, s) \<leftarrow> proc_cast_expr n s;
       (case c of Node i ch sb \<Rightarrow> Some (Node (i\<lparr>data_type := finsh_type_num type\<rparr>) ch sb, s)
        | NullNode \<Rightarrow> proc_unary_expr n (proc_cast_expr n) (proc_assign_expr n) (replay s)) }
     else proc_unary_expr n (proc_cast_expr n) (proc_assign_expr n) (replay s) }"
| "proc_assign_expr 0 s = None"
| "proc_assign_expr (Suc n) s = do {
     (or_node, s) \<leftarrow> proc_inclusive_or_expr n (proc_cast_expr n) s;
     (t, s) \<leftarrow> next_token s;
     if t = finsh_token_type_assign then do {
       (assign, s) \<leftarrow> proc_assign_expr n s;
       Some (make_sys_node FINSH_NODE_SYS_ASSIGN or_node assign s) }
     else Some (or_node, replay s) }"

section \<open>Statements\<close>

definition proc_expr_statement :: "nat \<Rightarrow> finsh_node parse" where
  "proc_expr_statement n s = do {
     (t, s) \<leftarrow> next_token s;
     if t \<noteq> finsh_token_type_semicolon then do {
       (e, s) \<leftarrow> proc_assign_expr n (replay s);
       s \<leftarrow> match_token finsh_token_type_semicolon s;
       Some (e, s) }
     else Some (NullNode, s) }"

definition declare_id :: "finsh_type \<Rightarrow> string parse" where
  "declare_id type s = do {
     (name, s) \<leftarrow> proc_identifier s;
     Some (name, case finsh_var_insert name type (ps_vars s) of
         None \<Rightarrow> set_errno FINSH_ERROR_VARIABLE_EXIST s
       | Some (i, vs) \<Rightarrow> s\<lparr>ps_vars := vs\<rparr>) }"

text \<open>
  The initialisation behind an equals sign: the node of the assignment and the token behind it, or \<open>None\<close>
  where the expression has no node.
\<close>

definition proc_init :: "nat \<Rightarrow> string \<Rightarrow> (finsh_node \<times> finsh_token_type) option parse" where
  "proc_init n name s = do {
     (a, s) \<leftarrow> proc_assign_expr n s;
     if a = NullNode then Some (None, s)
     else do {
       (i, s) \<leftarrow> finsh_node_new_id name s;
       (m, s) \<leftarrow> Some (make_sys_node FINSH_NODE_SYS_ASSIGN i a s);
       (t, s) \<leftarrow> next_token s;
       Some (Some (m, t), s) } }"

text \<open>
  The loop over the further names of a declaration, with the assignments so far and whether the last one
  could not be allocated; linking behind that one is an access through the null pointer.
\<close>

definition link_init :: "finsh_node \<Rightarrow> finsh_node list \<times> bool \<Rightarrow> (finsh_node list \<times> bool) option" where
  "link_init m ns = (case ns of (ns, lost) \<Rightarrow>
     if ns = [] then Some (if m = NullNode then [] else [m], False)
     else if lost then None
     else Some (if m = NullNode then (ns, True) else (ns @ [m], False)))"

fun decl_loop :: "nat \<Rightarrow> finsh_type \<Rightarrow> finsh_token_type \<Rightarrow> finsh_node list \<times> bool \<Rightarrow> finsh_node list parse" where
  "decl_loop 0 type t ns s = None"
| "decl_loop (Suc n) type t ns s =
     (if t = finsh_token_type_comma then do {
        (name, s) \<leftarrow> declare_id type s;
        (t, s) \<leftarrow> next_token s;
        if t = finsh_token_type_assign then do {
          (r, s) \<leftarrow> proc_init n name s;
          (case r of None \<Rightarrow> decl_loop n type t ns s
           | Some (m, t) \<Rightarrow> do { ns \<leftarrow> link_init m ns; decl_loop n type t ns s }) }
        else decl_loop n type t ns s }
      else Some (fst ns, check_token t finsh_token_type_semicolon s))"

definition proc_variable_decl :: "nat \<Rightarrow> finsh_node list parse" where
  "proc_variable_decl n s = do {
     (type, s) \<leftarrow> proc_type s;
     (name, s) \<leftarrow> declare_id type s;
     (t, s) \<leftarrow> next_token s;
     (if t = finsh_token_type_comma then decl_loop n type t ([], False) s
      else if t = finsh_token_type_assign then do {
        (r, s) \<leftarrow> proc_init n name s;
        (case r of None \<Rightarrow> decl_loop n type t ([], False) s
         | Some (m, t) \<Rightarrow> do { ns \<leftarrow> link_init m ([], False); decl_loop n type t ns s }) }
      else if t = finsh_token_type_semicolon then Some ([], s)
      else Some ([], set_errno FINSH_ERROR_EXPECT_TYPE s)) }"

section \<open>A line\<close>

text \<open>
  The roots of the statements so far, and the position of the last one the parser remembers: a declaration
  gives several, of which it remembers the first, and what is linked next replaces the others.
\<close>

definition link_root :: "finsh_node list \<Rightarrow> finsh_node list \<times> nat \<Rightarrow> finsh_node list \<times> nat" where
  "link_root new r = (case r of (rs, k) \<Rightarrow>
     if rs = [] then (new, 0)
     else (take (k + 1) rs @ new, if new = [] then k else k + 1))"

definition node_list :: "finsh_node \<Rightarrow> finsh_node list" where
  "node_list n = (if n = NullNode then [] else [n])"

definition proc_statement :: "nat \<Rightarrow> finsh_token_type \<Rightarrow> finsh_node list \<times> nat \<Rightarrow> (finsh_node list \<times> nat) parse" where
  "proc_statement n t r s =
     (if t = finsh_token_type_identifier then do {
        (e, s) \<leftarrow> proc_expr_statement n (replay s);
        Some (link_root (node_list e) r, s) }
      else if is_base_type t \<or> t = finsh_token_type_unsigned then do {
        (ns, s) \<leftarrow> proc_variable_decl n (replay s);
        Some (link_root ns r, s) }
      else do {
        (e, s) \<leftarrow> proc_expr_statement n (replay s);
        s \<leftarrow> (if fst r \<noteq> [] \<and> e = NullNode then map_option snd (next_token s) else Some s);
        Some (link_root (node_list e) r, s) })"

fun statement_loop :: "nat \<Rightarrow> nat \<Rightarrow> finsh_token_type \<Rightarrow> finsh_node list \<times> nat \<Rightarrow> finsh_node parse" where
  "statement_loop 0 n t r s = None"
| "statement_loop (Suc k) n t r s =
     (if t = finsh_token_type_eof \<or> t = finsh_token_type_bad then Some (chain (fst r), s)
      else do {
        (r, s) \<leftarrow> proc_statement n t r s;
        if fst r = [] then Some (NullNode, s)
        else do { (t, s) \<leftarrow> next_token s; statement_loop k n t r s } })"

text \<open>The root is null before, as \<open>finsh_flush\<close> leaves it.\<close>

definition finsh_parser_run :: "nat \<Rightarrow> string \<Rightarrow> finsh_node parse" where
  "finsh_parser_run n line s = do {
     s \<leftarrow> Some (s\<lparr>ps_token := finsh_token_init line (tok_errno (ps_token s))\<rparr>);
     (t, s) \<leftarrow> next_token s;
     statement_loop n n t ([], 0) s }"

end
