(* ===== verification/FinshGrammar.thy ===== *)
theory FinshGrammar
  imports FinshParser FinshExpr
begin

text \<open>
  The language the parser accepts, as a grammar over tokens with the usual precedences: what the parser
  builds for a phrase of it is the syntax tree of the expression.
\<close>

section \<open>Streams of tokens\<close>

datatype token = Tok finsh_token_type | Name string | IntTok word32 | LongTok word32 | CharTok byte

fun tok_type :: "token \<Rightarrow> finsh_token_type" where
  "tok_type (Tok t) = t"
| "tok_type (Name n) = finsh_token_type_identifier"
| "tok_type (IntTok v) = finsh_token_type_value_int"
| "tok_type (LongTok v) = finsh_token_type_value_long"
| "tok_type (CharTok b) = finsh_token_type_value_char"

text \<open>The state of the scanner that has read a token.\<close>

fun has_read :: "token \<Rightarrow> finsh_token \<Rightarrow> bool" where
  "has_read (Tok t) s \<longleftrightarrow> True"
| "has_read (Name n) s \<longleftrightarrow> c_string s = n"
| "has_read (IntTok v) s \<longleftrightarrow> tok_value s = v"
| "has_read (LongTok v) s \<longleftrightarrow> tok_value s = v"
| "has_read (CharTok b) s \<longleftrightarrow> ucast (tok_value s) = b"

text \<open>The tokens the scanner gives from a state on, without an error.\<close>

fun lexes :: "finsh_token \<Rightarrow> token list \<Rightarrow> bool" where
  "lexes s [] \<longleftrightarrow> True"
| "lexes s (t # ts) \<longleftrightarrow> (case finsh_token_token s of None \<Rightarrow> False
     | Some (ty, s') \<Rightarrow> ty = tok_type t \<and> has_read t s' \<and> tok_errno s' = tok_errno s \<and> \<not> tok_replay s' \<and> lexes s' ts)"

lemma lexes_replay:
  assumes "finsh_token_token s = Some (ty, s')" "\<not> tok_replay s'" "ty = tok_type t" "has_read t s'" "lexes s' ts"
  shows "lexes (finsh_token_replay s') (t # ts)"
proof -
  have "ty = current_token s'" using assms(1) by (auto simp: finsh_token_token_def bind_eq_Some_conv)
  moreover have "s'\<lparr>tok_replay := True, tok_replay := False\<rparr> = s'" using assms(2) by simp
  ultimately have "finsh_token_token (finsh_token_replay s') = Some (ty, s')" by (simp add: finsh_token_token_def finsh_token_replay_def)
  then show ?thesis using assms by (simp add: finsh_token_replay_def)
qed

section \<open>Phrases\<close>

text \<open>What a name stands for.\<close>

definition bound :: "finsh_var list \<Rightarrow> finsh_symbols \<Rightarrow> string \<Rightarrow> finsh_id option" where
  "bound vs sy name = (case finsh_var_lookup name vs of Some i \<Rightarrow> Some (IdVar i)
     | None \<Rightarrow> if length name \<ge> FINSH_NAME_MAX then None
         else (case finsh_sysvar_lookup name sy of Some v \<Rightarrow> Some (IdSysvar v)
           | None \<Rightarrow> map_option IdSyscall (finsh_syscall_lookup name sy)))"

text \<open>
  The levels: 0 postfix, 1 unary, 2 multiplicative, 3 additive, 4 shift, 5 and, 6 exclusive or, 7 or, 8
  assignment. There are no parentheses around expressions.
\<close>

fun level_binop :: "nat \<Rightarrow> finsh_token_type \<Rightarrow> binop option" where
  "level_binop l t = (if l = 2 \<and> t = finsh_token_type_mul then Some Mul
     else if l = 2 \<and> t = finsh_token_type_div then Some Div
     else if l = 2 \<and> t = finsh_token_type_mod then Some Mod
     else if l = 3 \<and> t = finsh_token_type_add then Some Add
     else if l = 3 \<and> t = finsh_token_type_sub then Some Sub
     else if l = 4 \<and> t = finsh_token_type_shl then Some Shl
     else if l = 4 \<and> t = finsh_token_type_shr then Some Shr
     else if l = 5 \<and> t = finsh_token_type_and then Some BitAnd
     else if l = 6 \<and> t = finsh_token_type_xor then Some BitXor
     else if l = 7 \<and> t = finsh_token_type_or then Some BitOr
     else None)"

inductive phrase :: "finsh_var list \<Rightarrow> finsh_symbols \<Rightarrow> nat \<Rightarrow> token list \<Rightarrow> expr \<Rightarrow> bool"
  and phrases :: "finsh_var list \<Rightarrow> finsh_symbols \<Rightarrow> token list \<Rightarrow> expr list \<Rightarrow> bool"
  for vs :: "finsh_var list" and sy :: finsh_symbols where
  p_num: "phrase vs sy 0 [IntTok v] (Num v)"
| p_lng: "phrase vs sy 0 [LongTok v] (Lng v)"
| p_chr: "phrase vs sy 0 [CharTok b] (Chr b)"
| p_var: "bound vs sy (take FINSH_NAME_MAX n) = Some x \<Longrightarrow> phrase vs sy 0 [Name n] (Var x)"
| p_postinc: "bound vs sy (take FINSH_NAME_MAX n) = Some (IdVar i) \<Longrightarrow> phrase vs sy 0 [Name n, Tok finsh_token_type_inc] (PostInc i)"
| p_postdec: "bound vs sy (take FINSH_NAME_MAX n) = Some (IdVar i) \<Longrightarrow> phrase vs sy 0 [Name n, Tok finsh_token_type_dec] (PostDec i)"
| p_call0: "bound vs sy (take FINSH_NAME_MAX n) = Some (IdSyscall f) \<Longrightarrow>
    phrase vs sy 0 [Name n, Tok finsh_token_type_left_paren, Tok finsh_token_type_right_paren] (Call f [])"
| p_call: "\<lbrakk>bound vs sy (take FINSH_NAME_MAX n) = Some (IdSyscall f); phrases vs sy ts as\<rbrakk> \<Longrightarrow>
    phrase vs sy 0 (Name n # Tok finsh_token_type_left_paren # ts @ [Tok finsh_token_type_right_paren]) (Call f as)"
| p_unary: "phrase vs sy 0 ts e \<Longrightarrow> phrase vs sy 1 ts e"
| p_plus: "phrase vs sy 1 ts e \<Longrightarrow> phrase vs sy 1 (Tok finsh_token_type_add # ts) e"
| p_minus: "phrase vs sy 1 ts e \<Longrightarrow> phrase vs sy 1 (Tok finsh_token_type_sub # ts) (Bin Sub (Lng 0) e)"
| p_compl: "phrase vs sy 1 ts e \<Longrightarrow> phrase vs sy 1 (Tok finsh_token_type_bitwise # ts) (Compl e)"
| p_deref: "phrase vs sy 1 ts e \<Longrightarrow> phrase vs sy 1 (Tok finsh_token_type_mul # ts) (Deref e)"
| p_addr: "phrase vs sy 1 ts (Var x) \<Longrightarrow> phrase vs sy 1 (Tok finsh_token_type_and # ts) (AddrOf x)"
| p_preinc: "phrase vs sy 1 ts (Var (IdVar i)) \<Longrightarrow> phrase vs sy 1 (Tok finsh_token_type_inc # ts) (PreInc i)"
| p_predec: "phrase vs sy 1 ts (Var (IdVar i)) \<Longrightarrow> phrase vs sy 1 (Tok finsh_token_type_dec # ts) (PreDec i)"
| p_level: "\<lbrakk>phrase vs sy l ts e; 1 \<le> l; l < 8\<rbrakk> \<Longrightarrow> phrase vs sy (Suc l) ts e"
| p_bin: "\<lbrakk>phrase vs sy (Suc l) ts a; level_binop (Suc l) t = Some g; phrase vs sy l us b\<rbrakk> \<Longrightarrow>
    phrase vs sy (Suc l) (ts @ Tok t # us) (Bin g a b)"
| p_assign: "\<lbrakk>phrase vs sy 7 ts (Var x); phrase vs sy 8 us a\<rbrakk> \<Longrightarrow> phrase vs sy 8 (ts @ Tok finsh_token_type_assign # us) (Assign x a)"
| p_assign_at: "\<lbrakk>phrase vs sy 7 ts (Deref p); phrase vs sy 8 us a\<rbrakk> \<Longrightarrow> phrase vs sy 8 (ts @ Tok finsh_token_type_assign # us) (AssignAt p a)"
| p_last: "phrase vs sy 8 ts a \<Longrightarrow> phrases vs sy ts [a]"
| p_more: "\<lbrakk>phrase vs sy 8 ts a; phrases vs sy us as\<rbrakk> \<Longrightarrow> phrases vs sy (ts @ Tok finsh_token_type_comma # us) (a # as)"

text \<open>The nodes of the table an expression takes.\<close>

fun nodes_in :: "expr \<Rightarrow> nat" where
  "nodes_in (AddrOf x) = 2"
| "nodes_in (Bin g a b) = Suc (nodes_in a + nodes_in b)"
| "nodes_in (Compl a) = Suc (nodes_in a)"
| "nodes_in (Assign x a) = 2 + nodes_in a"
| "nodes_in (AssignAt p a) = 2 + nodes_in p + nodes_in a"
| "nodes_in (Deref a) = Suc (nodes_in a)"
| "nodes_in (PreInc i) = 2"
| "nodes_in (PreDec i) = 2"
| "nodes_in (PostInc i) = 2"
| "nodes_in (PostDec i) = 2"
| "nodes_in (Call f as) = 2 + sum_list (map nodes_in as)"
| "nodes_in _ = 1"

section \<open>Steps of the parser\<close>

text \<open>A state that is about to read some tokens, and what a phrase leaves of it.\<close>

definition ready :: "finsh_parser \<Rightarrow> token list \<Rightarrow> bool" where
  "ready s ts \<longleftrightarrow> lexes (ps_token s) ts"

definition after :: "finsh_parser \<Rightarrow> nat \<Rightarrow> finsh_parser \<Rightarrow> token list \<Rightarrow> bool" where
  "after s k s' ts \<longleftrightarrow> ready s' ts \<and> ps_nodes s' = ps_nodes s + k \<and> ps_vars s' = ps_vars s \<and> ps_symbols s' = ps_symbols s \<and>
     tok_errno (ps_token s') = tok_errno (ps_token s)"

lemma after_trans: "after s j u us \<Longrightarrow> after u k t ts \<Longrightarrow> after s (j + k) t ts"
  by (simp add: after_def)

lemma after_ready: "after s k s' ts \<Longrightarrow> ready s' ts"
  by (simp add: after_def)

lemma after_nodes: "after s k s' ts \<Longrightarrow> ps_nodes s' = ps_nodes s + k"
  by (simp add: after_def)

lemma read_token:
  assumes "ready s (t # ts)"
  obtains s' where "next_token s = Some (tok_type t, s')" "after s 0 s' ts" "has_read t (ps_token s')" "after s 0 (replay s') (t # ts)"
proof -
  obtain l where l: "finsh_token_token (ps_token s) = Some (tok_type t, l)" "has_read t l" "tok_errno l = tok_errno (ps_token s)" "\<not> tok_replay l" "lexes l ts"
    using assms by (auto simp: ready_def split: option.splits prod.splits)
  let ?s = "s\<lparr>ps_token := l\<rparr>"
  have "next_token s = Some (tok_type t, ?s)" using l(1) by (simp add: next_token_def)
  moreover have "after s 0 ?s ts" using l by (simp add: after_def ready_def)
  moreover have "lexes (finsh_token_replay l) (t # ts)" using lexes_replay[OF l(1,4) _ l(2,5)] by simp
  then have "after s 0 (replay ?s) (t # ts)" using l(3) by (simp add: after_def ready_def replay_def finsh_token_replay_def)
  ultimately show ?thesis using that l(2) by auto
qed

lemma allocate:
  "ps_nodes s < FINSH_NODE_MAX \<Longrightarrow> finsh_node_allocate nt s = (Node (leaf nt) NullNode NullNode, s\<lparr>ps_nodes := ps_nodes s + 1\<rparr>)"
  by (simp add: finsh_node_allocate_def)

lemma after_alloc: "after s k s' ts \<Longrightarrow> after s (Suc k) (s'\<lparr>ps_nodes := ps_nodes s' + 1\<rparr>) ts"
  by (simp add: after_def ready_def)

lemma new_node_ok:
  "ps_nodes s < FINSH_NODE_MAX \<Longrightarrow> new_node nt f s = (Node (f (leaf nt)) NullNode NullNode, s\<lparr>ps_nodes := ps_nodes s + 1\<rparr>)"
  by (simp add: new_node_def allocate)

lemma make_ok:
  "\<lbrakk>ps_nodes s < FINSH_NODE_MAX; a \<noteq> NullNode\<rbrakk> \<Longrightarrow>
    make_sys_node nt a b s = (Node (leaf nt) (set_sibling b a) NullNode, s\<lparr>ps_nodes := ps_nodes s + 1\<rparr>)"
  by (simp add: make_sys_node_def allocate)

lemma node_of_sibling: "set_sibling sb (node_of e sb') = node_of e sb"
  by (cases e) (simp_all add: id_node_def)

lemma node_of_Null [simp]: "node_of e sb \<noteq> NullNode"
  by (cases e) (simp_all add: id_node_def)

lemma chain_nodes: "chain (map (\<lambda>a. node_of a NullNode) as) = nodes_of as"
  by (induction as) (simp_all add: chain_def node_of_sibling)

lemma new_id_ok:
  assumes "bound (ps_vars s) (ps_symbols s) n = Some x" "ps_nodes s < FINSH_NODE_MAX"
  shows "finsh_node_new_id n s = Some (id_node x NullNode, s\<lparr>ps_nodes := ps_nodes s + 1\<rparr>)"
  using assms by (auto simp: bound_def finsh_node_new_id_def new_node_ok id_node_def split: option.splits if_splits)

end
