(* ===== verification/FinshParserSpec.thy ===== *)
theory FinshParserSpec
  imports FinshGrammar
begin

text \<open>The parser builds the syntax tree of every phrase of the grammar, and takes the nodes it needs.\<close>

section \<open>The levels of the parser\<close>

definition level_ops :: "nat \<Rightarrow> finsh_token_type \<Rightarrow> finsh_node_type option" where
  "level_ops l = (if l = 2 then mul_ops else if l = 3 then add_ops else if l = 4 then shift_ops else if l = 5 then and_ops
     else if l = 6 then xor_ops else or_ops)"

definition level_parser :: "nat \<Rightarrow> nat \<Rightarrow> finsh_node parse" where
  "level_parser l n = (if l = 0 then proc_postfix_expr n (proc_assign_expr n) else if l = 1 then proc_cast_expr n
     else if l = 2 then proc_multiplicative_expr n (proc_cast_expr n) else if l = 3 then proc_additive_expr n (proc_cast_expr n)
     else if l = 4 then proc_shift_expr n (proc_cast_expr n) else if l = 5 then proc_and_expr n (proc_cast_expr n)
     else if l = 6 then proc_exclusive_or_expr n (proc_cast_expr n) else if l = 7 then proc_inclusive_or_expr n (proc_cast_expr n)
     else proc_assign_expr n)"

lemma levels: "1 \<le> l \<Longrightarrow> l < 7 \<Longrightarrow> l \<in> {1, 2, 3, 4, 5, 6 :: nat}"
  by auto

lemma level_step:
  assumes "1 \<le> l" "l < 7"
  shows "level_parser (Suc l) n = binary_level n (level_ops (Suc l)) (level_parser l n)"
  using levels[OF assms] by (auto simp: level_parser_def level_ops_def proc_multiplicative_expr_def proc_additive_expr_def
    proc_shift_expr_def proc_and_expr_def proc_exclusive_or_expr_def proc_inclusive_or_expr_def)

lemma level_ops_binop:
  assumes "1 \<le> l" "l < 7"
  shows "level_ops (Suc l) t = map_option binop_node (level_binop (Suc l) t)"
  using levels[OF assms] by (cases t) (auto simp: level_ops_def)

definition stops :: "nat \<Rightarrow> finsh_token_type \<Rightarrow> bool" where
  "stops l t \<longleftrightarrow> t \<notin> {finsh_token_type_inc, finsh_token_type_dec, finsh_token_type_left_paren} \<and> (\<forall>k\<le>l. level_binop k t = None) \<and>
     (l = 8 \<longrightarrow> t \<noteq> finsh_token_type_assign)"

lemma stops_none: "stops l t \<Longrightarrow> k \<le> l \<Longrightarrow> level_binop k t = None"
  unfolding stops_def by blast

lemma stops_mono: "stops l t \<Longrightarrow> k \<le> l \<Longrightarrow> k < 8 \<Longrightarrow> stops k t"
  by (auto simp: stops_def)

lemma binop_stops:
  assumes "level_binop (Suc l) t = Some g"
  shows "stops l t"
  using assms by (auto simp: stops_def split: if_splits)

section \<open>Results with enough fuel\<close>

definition returns :: "(nat \<Rightarrow> finsh_node parse) \<Rightarrow> finsh_parser \<Rightarrow> finsh_node \<times> finsh_parser \<Rightarrow> bool" where
  "returns p s r \<longleftrightarrow> (\<exists>N. \<forall>n\<ge>N. p n s = Some r)"

definition loops :: "nat \<Rightarrow> finsh_node \<Rightarrow> finsh_parser \<Rightarrow> finsh_node \<times> finsh_parser \<Rightarrow> bool" where
  "loops l node s r \<longleftrightarrow> (\<exists>N. \<forall>n\<ge>N. \<forall>m\<ge>N. binary_loop n (level_parser l m) (level_ops (Suc l)) node s = Some r)"

definition good :: "finsh_var list \<Rightarrow> finsh_symbols \<Rightarrow> nat \<Rightarrow> token list \<Rightarrow> expr \<Rightarrow> bool" where
  "good vs sy l ts e \<longleftrightarrow> (\<forall>s t rest. ready s (ts @ t # rest) \<longrightarrow> stops l (tok_type t) \<longrightarrow> ps_vars s = vs \<longrightarrow> ps_symbols s = sy \<longrightarrow>
     ps_nodes s + nodes_in e \<le> FINSH_NODE_MAX \<longrightarrow>
     (\<exists>s'. after s (nodes_in e) s' (t # rest) \<and> returns (level_parser l) s (node_of e NullNode, s')))"

text \<open>The same with the loop of the level still to be run.\<close>

definition goes :: "finsh_var list \<Rightarrow> finsh_symbols \<Rightarrow> nat \<Rightarrow> token list \<Rightarrow> expr \<Rightarrow> bool" where
  "goes vs sy l ts e \<longleftrightarrow> (\<forall>s t rest. ready s (ts @ t # rest) \<longrightarrow> stops l (tok_type t) \<longrightarrow> ps_vars s = vs \<longrightarrow> ps_symbols s = sy \<longrightarrow>
     ps_nodes s + nodes_in e \<le> FINSH_NODE_MAX \<longrightarrow>
     (\<exists>s'. after s (nodes_in e) s' (t # rest) \<and> (\<forall>r. loops l (node_of e NullNode) s' r \<longrightarrow> returns (level_parser (Suc l)) s r)))"

lemma goodE:
  assumes "good vs sy l ts e" "ready s (ts @ t # rest)" "stops l (tok_type t)" "ps_vars s = vs" "ps_symbols s = sy"
    "ps_nodes s + nodes_in e \<le> FINSH_NODE_MAX"
  obtains s' where "after s (nodes_in e) s' (t # rest)" "returns (level_parser l) s (node_of e NullNode, s')"
  using assms unfolding good_def by blast

lemma goesE:
  assumes "goes vs sy l ts e" "ready s (ts @ t # rest)" "stops l (tok_type t)" "ps_vars s = vs" "ps_symbols s = sy"
    "ps_nodes s + nodes_in e \<le> FINSH_NODE_MAX"
  obtains s' where "after s (nodes_in e) s' (t # rest)" "\<And>r. loops l (node_of e NullNode) s' r \<Longrightarrow> returns (level_parser (Suc l)) s r"
  using assms unfolding goes_def by blast

lemma after_env: "after s k s' ts \<Longrightarrow> ps_vars s' = ps_vars s \<and> ps_symbols s' = ps_symbols s"
  by (simp add: after_def)

section \<open>Binary levels\<close>

lemma good_of_goes:
  assumes l: "1 \<le> l" "l < 7" and g: "goes vs sy l ts e"
  shows "good vs sy (Suc l) ts e"
  unfolding good_def
proof (intro allI impI)
  fix s t rest
  assume a: "ready s (ts @ t # rest)" "stops (Suc l) (tok_type t)" "ps_vars s = vs" "ps_symbols s = sy" "ps_nodes s + nodes_in e \<le> FINSH_NODE_MAX"
  have st: "stops l (tok_type t)" using stops_mono[OF a(2)] l by simp
  obtain s1 where s1: "after s (nodes_in e) s1 (t # rest)" "\<And>r. loops l (node_of e NullNode) s1 r \<Longrightarrow> returns (level_parser (Suc l)) s r"
    by (rule goesE[OF g a(1) st a(3-5)]) blast
  obtain s2 where s2: "next_token s1 = Some (tok_type t, s2)" "after s1 0 (replay s2) (t # rest)"
    using read_token[OF after_ready[OF s1(1)]] by metis
  have n: "level_ops (Suc l) (tok_type t) = None" unfolding level_ops_binop[OF l] stops_none[OF a(2) order_refl] by simp
  have "binary_loop n (level_parser l m) (level_ops (Suc l)) (node_of e NullNode) s1 = Some (node_of e NullNode, replay s2)" if "1 \<le> n" for n m
    using that s2(1) n by (cases n) simp_all
  then have "loops l (node_of e NullNode) s1 (node_of e NullNode, replay s2)" unfolding loops_def by blast
  then show "\<exists>s'. after s (nodes_in e) s' (t # rest) \<and> returns (level_parser (Suc l)) s (node_of e NullNode, s')"
    using s1(2) after_trans[OF s1(1) s2(2)] by auto
qed

lemma goes_of_good:
  assumes l: "1 \<le> l" "l < 7" and g: "good vs sy l ts e"
  shows "goes vs sy l ts e"
  unfolding goes_def
proof (intro allI impI)
  fix s t rest
  assume a: "ready s (ts @ t # rest)" "stops l (tok_type t)" "ps_vars s = vs" "ps_symbols s = sy" "ps_nodes s + nodes_in e \<le> FINSH_NODE_MAX"
  obtain s1 where s1: "after s (nodes_in e) s1 (t # rest)" "returns (level_parser l) s (node_of e NullNode, s1)"
    by (rule goodE[OF g a])
  obtain N where N: "\<forall>n\<ge>N. level_parser l n s = Some (node_of e NullNode, s1)" using s1(2) by (auto simp: returns_def)
  have "returns (level_parser (Suc l)) s r" if lp: "loops l (node_of e NullNode) s1 r" for r
  proof -
    obtain M where M: "\<forall>n\<ge>M. \<forall>m\<ge>M. binary_loop n (level_parser l m) (level_ops (Suc l)) (node_of e NullNode) s1 = Some r"
      using lp by (auto simp: loops_def)
    have "level_parser (Suc l) n s = Some r" if nm: "max N M \<le> n" for n
      using N M nm unfolding level_step[OF l] binary_level_def by simp
    then show ?thesis unfolding returns_def by blast
  qed
  then show "\<exists>s'. after s (nodes_in e) s' (t # rest) \<and> (\<forall>r. loops l (node_of e NullNode) s' r \<longrightarrow> returns (level_parser (Suc l)) s r)"
    using s1(1) by blast
qed

lemma goes_bin:
  assumes l: "1 \<le> l" "l < 7" and a: "goes vs sy l ts a" and t: "level_binop (Suc l) t = Some g" and b: "good vs sy l us b"
  shows "goes vs sy l (ts @ Tok t # us) (Bin g a b)"
  unfolding goes_def
proof (intro allI impI)
  fix s t' rest
  assume h: "ready s ((ts @ Tok t # us) @ t' # rest)" "stops l (tok_type t')" "ps_vars s = vs" "ps_symbols s = sy"
    "ps_nodes s + nodes_in (Bin g a b) \<le> FINSH_NODE_MAX"
  have r: "ready s (ts @ Tok t # us @ t' # rest)" using h(1) by simp
  have st: "stops l (tok_type (Tok t))" using binop_stops[OF t] by simp
  obtain s1 where s1: "after s (nodes_in a) s1 (Tok t # us @ t' # rest)"
    "\<And>r. loops l (node_of a NullNode) s1 r \<Longrightarrow> returns (level_parser (Suc l)) s r"
    by (rule goesE[OF a r st h(3,4)]) (use h(5) in simp, blast)
  obtain s2 where s2: "next_token s1 = Some (t, s2)" "after s1 0 s2 (us @ t' # rest)" using read_token[OF after_ready[OF s1(1)]] by (metis tok_type.simps(1))
  have e2: "after s (nodes_in a) s2 (us @ t' # rest)" using after_trans[OF s1(1) s2(2)] by simp
  obtain s3 where s3: "after s2 (nodes_in b) s3 (t' # rest)" "returns (level_parser l) s2 (node_of b NullNode, s3)"
    by (rule goodE[OF b after_ready[OF s2(2)] h(2)]) (use after_env[OF e2] after_nodes[OF e2] h(3-5) in auto)
  have e3: "after s (nodes_in a + nodes_in b) s3 (t' # rest)" by (rule after_trans[OF e2 s3(1)])
  let ?s4 = "s3\<lparr>ps_nodes := ps_nodes s3 + 1\<rparr>"
  have mk: "make_sys_node (binop_node g) (node_of a NullNode) (node_of b NullNode) s3 = (node_of (Bin g a b) NullNode, ?s4)"
    using after_nodes[OF e3] h(5) by (subst make_ok) (simp_all add: node_of_sibling)
  have ops: "level_ops (Suc l) t = Some (binop_node g)" using t unfolding level_ops_binop[OF l] by simp
  obtain N where N: "\<forall>n\<ge>N. level_parser l n s2 = Some (node_of b NullNode, s3)" using s3(2) by (auto simp: returns_def)
  have "returns (level_parser (Suc l)) s r" if "loops l (node_of (Bin g a b) NullNode) ?s4 r" for r
  proof (rule s1(2))
    obtain M where M: "\<forall>n\<ge>M. \<forall>m\<ge>M. binary_loop n (level_parser l m) (level_ops (Suc l)) (node_of (Bin g a b) NullNode) ?s4 = Some r"
      using \<open>loops l _ ?s4 r\<close> by (auto simp: loops_def)
    have "binary_loop n (level_parser l m) (level_ops (Suc l)) (node_of a NullNode) s1 = Some r"
      if nm: "Suc (max N M) \<le> n" "Suc (max N M) \<le> m" for n m
    proof -
      obtain k where k: "n = Suc k" "M \<le> k" using nm(1) by (cases n) auto
      have "level_parser l m s2 = Some (node_of b NullNode, s3)" using N nm(2) by simp
      then show ?thesis using k s2(1) ops mk M nm(2) by (simp del: node_of.simps)
    qed
    then show "loops l (node_of a NullNode) s1 r" unfolding loops_def by blast
  qed
  moreover have "after s (nodes_in (Bin g a b)) ?s4 (t' # rest)" using after_alloc[OF e3] by simp
  ultimately show "\<exists>s'. after s (nodes_in (Bin g a b)) s' (t' # rest) \<and>
      (\<forall>r. loops l (node_of (Bin g a b) NullNode) s' r \<longrightarrow> returns (level_parser (Suc l)) s r)" by blast
qed

section \<open>Postfix expressions\<close>

lemma stops_postfix: "stops l t \<Longrightarrow> t \<notin> {finsh_token_type_inc, finsh_token_type_dec, finsh_token_type_left_paren}"
  unfolding stops_def by blast

lemma postfix_stop:
  assumes "ready s (t # ts)" "stops l (tok_type t)"
  shows "\<exists>s'. after s 0 s' (t # ts) \<and> (\<forall>n assign p. postfix_loop (Suc n) assign p s = Some (p, s'))"
proof -
  obtain s1 where s1: "next_token s = Some (tok_type t, s1)" "after s 0 (replay s1) (t # ts)" using read_token[OF assms(1)] by metis
  then show ?thesis using stops_postfix[OF assms(2)] by (intro exI[of _ "replay s1"]) auto
qed

lemma primary_name:
  assumes "ready s (Name n # ts)" "bound (ps_vars s) (ps_symbols s) (take FINSH_NAME_MAX n) = Some x" "ps_nodes s < FINSH_NODE_MAX"
  shows "\<exists>s'. after s 1 s' ts \<and> (\<forall>expr. proc_primary_expr expr s = Some (id_node x NullNode, s'))"
proof -
  obtain s1 where s1: "next_token s = Some (finsh_token_type_identifier, s1)" "after s 0 (replay s1) (Name n # ts)"
    using read_token[OF assms(1)] by (metis tok_type.simps(2))
  obtain s2 where s2: "next_token (replay s1) = Some (finsh_token_type_identifier, s2)" "after (replay s1) 0 s2 ts" "has_read (Name n) (ps_token s2)"
    using read_token[OF after_ready[OF s1(2)]] by (metis tok_type.simps(2))
  have e: "after s 0 s2 ts" using after_trans[OF s1(2) s2(2)] by simp
  have "proc_identifier (replay s1) = Some (take FINSH_NAME_MAX n, s2)"
    using s2(1,3) by (simp add: proc_identifier_def match_token_def check_token_def)
  moreover have "finsh_node_new_id (take FINSH_NAME_MAX n) s2 = Some (id_node x NullNode, s2\<lparr>ps_nodes := ps_nodes s2 + 1\<rparr>)"
    using assms(2,3) after_env[OF e] after_nodes[OF e] by (intro new_id_ok) auto
  ultimately show ?thesis using s1(1) after_alloc[OF e] by (intro exI[of _ "s2\<lparr>ps_nodes := ps_nodes s2 + 1\<rparr>"]) (simp add: proc_primary_expr_def)
qed

lemma primary_value:
  assumes "ready s (t # ts)" "ps_nodes s < FINSH_NODE_MAX"
    and "t = IntTok v \<and> e = Num v \<or> t = LongTok v \<and> e = Lng v \<or> t = CharTok b \<and> e = Chr b"
  shows "\<exists>s'. after s 1 s' ts \<and> (\<forall>expr. proc_primary_expr expr s = Some (node_of e NullNode, s'))"
proof -
  obtain s1 where s1: "next_token s = Some (tok_type t, s1)" "after s 0 s1 ts" "has_read t (ps_token s1)" using read_token[OF assms(1)] by metis
  have "ps_nodes s1 < FINSH_NODE_MAX" using after_nodes[OF s1(2)] assms(2) by simp
  then show ?thesis using s1 assms(3) after_alloc[OF s1(2)]
    by (intro exI[of _ "s1\<lparr>ps_nodes := ps_nodes s1 + 1\<rparr>"])
      (auto simp: proc_primary_expr_def finsh_node_new_int_def finsh_node_new_long_def finsh_node_new_char_def new_node_ok)
qed

lemma postfix_primary:
  assumes p: "\<forall>expr. proc_primary_expr expr s = Some (node_of e NullNode, s1)" and s1: "after s k s1 (t # rest)" "stops l (tok_type t)"
  shows "\<exists>s'. after s k s' (t # rest) \<and> (\<exists>N. \<forall>n\<ge>N. proc_postfix_expr n (proc_assign_expr n) s = Some (node_of e NullNode, s'))"
proof -
  obtain s2 where s2: "after s1 0 s2 (t # rest)" "\<forall>n assign p. postfix_loop (Suc n) assign p s1 = Some (p, s2)"
    using postfix_stop[OF after_ready[OF s1(1)] s1(2)] by blast
  have "proc_postfix_expr n (proc_assign_expr n) s = Some (node_of e NullNode, s2)" if "1 \<le> n" for n
    using that p s2(2) by (cases n) (simp_all add: proc_postfix_expr_def)
  then show ?thesis using after_trans[OF s1(1) s2(1)] by auto
qed

lemma good_value:
  assumes "t = IntTok v \<and> e = Num v \<or> t = LongTok v \<and> e = Lng v \<or> t = CharTok b \<and> e = Chr b"
  shows "good vs sy 0 [t] e"
  unfolding good_def
proof (intro allI impI)
  fix s t' rest
  assume a: "ready s ([t] @ t' # rest)" "stops 0 (tok_type t')" "ps_nodes s + nodes_in e \<le> FINSH_NODE_MAX"
  have n: "nodes_in e = 1" using assms by auto
  obtain s1 where "after s 1 s1 (t' # rest)" "\<forall>expr. proc_primary_expr expr s = Some (node_of e NullNode, s1)"
    using primary_value[of s t "t' # rest", OF _ _ assms] a n by auto
  from postfix_primary[OF this(2,1) a(2)] show "\<exists>s'. after s (nodes_in e) s' (t' # rest) \<and> returns (level_parser 0) s (node_of e NullNode, s')"
    by (simp add: n returns_def level_parser_def)
qed

lemma good_var:
  assumes "bound vs sy (take FINSH_NAME_MAX n) = Some x"
  shows "good vs sy 0 [Name n] (Var x)"
  unfolding good_def
proof (intro allI impI)
  fix s t' rest
  assume a: "ready s ([Name n] @ t' # rest)" "stops 0 (tok_type t')" "ps_vars s = vs" "ps_symbols s = sy" "ps_nodes s + nodes_in (Var x) \<le> FINSH_NODE_MAX"
  obtain s1 where "after s 1 s1 (t' # rest)" "\<forall>expr. proc_primary_expr expr s = Some (node_of (Var x) NullNode, s1)"
    using primary_name[of s n "t' # rest" x] a assms by auto
  from postfix_primary[OF this(2,1) a(2)] show "\<exists>s'. after s (nodes_in (Var x)) s' (t' # rest) \<and> returns (level_parser 0) s (node_of (Var x) NullNode, s')"
    by (simp add: returns_def level_parser_def)
qed

text \<open>One step of the loop behind a name.\<close>

lemma good_post_step:
  assumes b: "bound vs sy (take FINSH_NAME_MAX n) = Some x" and k: "nodes_in e = 2"
    and ne: "node_of e NullNode = Node (leaf nt) (id_node x NullNode) NullNode"
    and st: "\<And>m assign p s u. next_token s = Some (op, u) \<Longrightarrow> postfix_loop (Suc m) assign p s = (case make_sys_node nt p NullNode u of (p, s) \<Rightarrow> postfix_loop m assign p s)"
  shows "good vs sy 0 [Name n, Tok op] e"
  unfolding good_def
proof (intro allI impI)
  fix s t' rest
  assume a: "ready s ([Name n, Tok op] @ t' # rest)" "stops 0 (tok_type t')" "ps_vars s = vs" "ps_symbols s = sy" "ps_nodes s + nodes_in e \<le> FINSH_NODE_MAX"
  have r: "ready s (Name n # Tok op # t' # rest)" using a(1) by simp
  have b': "bound (ps_vars s) (ps_symbols s) (take FINSH_NAME_MAX n) = Some x" using a(3,4) b by simp
  have c: "ps_nodes s < FINSH_NODE_MAX" using a(5) k by simp
  obtain s1 where s1: "after s 1 s1 (Tok op # t' # rest)" "\<forall>expr. proc_primary_expr expr s = Some (id_node x NullNode, s1)"
    using primary_name[OF r b' c] by blast
  obtain s2 where s2: "next_token s1 = Some (tok_type (Tok op), s2)" "after s1 0 s2 (t' # rest)" by (rule read_token[OF after_ready[OF s1(1)]])
  have e2: "after s 1 s2 (t' # rest)" using after_trans[OF s1(1) s2(2)] by simp
  let ?s3 = "s2\<lparr>ps_nodes := ps_nodes s2 + 1\<rparr>"
  have e3: "after s 2 ?s3 (t' # rest)" using after_alloc[OF e2] by (simp add: numeral_2_eq_2)
  have "id_node x NullNode \<noteq> NullNode" by (simp add: id_node_def)
  then have mk: "make_sys_node nt (id_node x NullNode) NullNode s2 = (node_of e NullNode, ?s3)"
    unfolding ne using after_nodes[OF e2] a(5) k by (subst make_ok) (simp_all add: id_node_def)
  obtain s4 where s4: "after ?s3 0 s4 (t' # rest)" "\<forall>n assign p. postfix_loop (Suc n) assign p ?s3 = Some (p, s4)"
    using postfix_stop[OF after_ready[OF e3] a(2)] by blast
  have "postfix_loop (Suc (Suc j)) as (id_node x NullNode) s1 = Some (node_of e NullNode, s4)" for j as
    using st[of s1 s2] s2(1) s4(2) mk by simp
  then have "proc_postfix_expr (Suc (Suc j)) as s = Some (node_of e NullNode, s4)" for j as
    using s1(2) by (simp add: proc_postfix_expr_def)
  then have "\<forall>n\<ge>2. proc_postfix_expr n (proc_assign_expr n) s = Some (node_of e NullNode, s4)"
    by (metis add_2_eq_Suc le_Suc_ex)
  then show "\<exists>s'. after s (nodes_in e) s' (t' # rest) \<and> returns (level_parser 0) s (node_of e NullNode, s')"
    using after_trans[OF e3 s4(1)] unfolding k returns_def level_parser_def by auto
qed

lemma good_post:
  assumes "bound vs sy (take FINSH_NAME_MAX n) = Some (IdVar i)"
  shows "good vs sy 0 [Name n, Tok finsh_token_type_inc] (PostInc i)" "good vs sy 0 [Name n, Tok finsh_token_type_dec] (PostDec i)"
  by (rule good_post_step[OF assms, where nt = FINSH_NODE_SYS_INC]; simp) (rule good_post_step[OF assms, where nt = FINSH_NODE_SYS_DEC]; simp)

section \<open>Calls\<close>

definition good_args :: "finsh_var list \<Rightarrow> finsh_symbols \<Rightarrow> token list \<Rightarrow> expr list \<Rightarrow> bool" where
  "good_args vs sy ts as \<longleftrightarrow> (\<forall>s ns rest. ready s (ts @ Tok finsh_token_type_right_paren # rest) \<longrightarrow> ps_vars s = vs \<longrightarrow> ps_symbols s = sy \<longrightarrow>
     ps_nodes s + sum_list (map nodes_in as) \<le> FINSH_NODE_MAX \<longrightarrow>
     (\<exists>a s1 s'. a \<noteq> NullNode \<and> returns proc_assign_expr s (a, s1) \<and>
       after s (sum_list (map nodes_in as)) s' (Tok finsh_token_type_right_paren # rest) \<and>
       (\<exists>N. \<forall>n\<ge>N. \<forall>m\<ge>N. param_loop n (proc_assign_expr m) (ns @ [a]) s1 = Some (chain (ns @ map (\<lambda>a. node_of a NullNode) as), s'))))"

lemma stops_args: "stops 8 finsh_token_type_right_paren" "stops 8 finsh_token_type_comma" "stops 8 finsh_token_type_semicolon"
  by (auto simp: stops_def)

lemma level8: "level_parser 8 = proc_assign_expr"
  by (intro ext) (simp add: level_parser_def)

lemma args_last:
  assumes "good vs sy 8 ts a"
  shows "good_args vs sy ts [a]"
  unfolding good_args_def
proof (intro allI impI)
  fix s ns rest
  assume h: "ready s (ts @ Tok finsh_token_type_right_paren # rest)" "ps_vars s = vs" "ps_symbols s = sy"
    "ps_nodes s + sum_list (map nodes_in [a]) \<le> FINSH_NODE_MAX"
  obtain s1 where s1: "after s (nodes_in a) s1 (Tok finsh_token_type_right_paren # rest)" "returns proc_assign_expr s (node_of a NullNode, s1)"
    by (rule goodE[OF assms h(1) _ h(2,3)]) (use h(4) stops_args level8 in simp_all)
  obtain s2 where s2: "next_token s1 = Some (tok_type (Tok finsh_token_type_right_paren), s2)"
    "after s1 0 (replay s2) (Tok finsh_token_type_right_paren # rest)" using read_token[OF after_ready[OF s1(1)]] by metis
  have "param_loop n as (ns @ [node_of a NullNode]) s1 = Some (chain (ns @ map (\<lambda>a. node_of a NullNode) [a]), replay s2)" if "1 \<le> n" for n as
    using that s2(1) by (cases n) simp_all
  then have l: "\<forall>n\<ge>1. \<forall>m\<ge>1. param_loop n (proc_assign_expr m) (ns @ [node_of a NullNode]) s1 = Some (chain (ns @ map (\<lambda>a. node_of a NullNode) [a]), replay s2)"
    by blast
  have e: "after s (sum_list (map nodes_in [a])) (replay s2) (Tok finsh_token_type_right_paren # rest)" using after_trans[OF s1(1) s2(2)] by simp
  show "\<exists>b s1 s'. b \<noteq> NullNode \<and> returns proc_assign_expr s (b, s1) \<and>
       after s (sum_list (map nodes_in [a])) s' (Tok finsh_token_type_right_paren # rest) \<and>
       (\<exists>N. \<forall>n\<ge>N. \<forall>m\<ge>N. param_loop n (proc_assign_expr m) (ns @ [b]) s1 = Some (chain (ns @ map (\<lambda>a. node_of a NullNode) [a]), s'))"
    by (intro exI[of _ "node_of a NullNode"] exI[of _ s1] exI[of _ "replay s2"] conjI) (use s1(2) e l in auto)
qed

lemma args_more:
  assumes a: "good vs sy 8 ts a" and as: "good_args vs sy us as"
  shows "good_args vs sy (ts @ Tok finsh_token_type_comma # us) (a # as)"
  unfolding good_args_def
proof (intro allI impI)
  fix s ns rest
  let ?k = "sum_list (map nodes_in as)" and ?R = "Tok finsh_token_type_right_paren # rest" and ?a = "node_of a NullNode"
  assume h: "ready s ((ts @ Tok finsh_token_type_comma # us) @ ?R)" "ps_vars s = vs" "ps_symbols s = sy"
    "ps_nodes s + sum_list (map nodes_in (a # as)) \<le> FINSH_NODE_MAX"
  have r: "ready s (ts @ Tok finsh_token_type_comma # us @ ?R)" using h(1) by simp
  obtain s1 where s1: "after s (nodes_in a) s1 (Tok finsh_token_type_comma # us @ ?R)" "returns proc_assign_expr s (?a, s1)"
    by (rule goodE[OF a r _ h(2,3)]) (use h(4) stops_args level8 in simp_all)
  obtain s2 where s2: "next_token s1 = Some (tok_type (Tok finsh_token_type_comma), s2)" "after s1 0 s2 (us @ ?R)"
    by (rule read_token[OF after_ready[OF s1(1)]])
  have e2: "after s (nodes_in a) s2 (us @ ?R)" using after_trans[OF s1(1) s2(2)] by simp
  have "ps_vars s2 = vs" "ps_symbols s2 = sy" "ps_nodes s2 + ?k \<le> FINSH_NODE_MAX" using after_env[OF e2] after_nodes[OF e2] h by auto
  then obtain b s3 s' N where b: "b \<noteq> NullNode" "returns proc_assign_expr s2 (b, s3)" "after s2 ?k s' ?R"
    and N: "\<forall>n\<ge>N. \<forall>m\<ge>N. param_loop n (proc_assign_expr m) ((ns @ [?a]) @ [b]) s3 = Some (chain ((ns @ [?a]) @ map (\<lambda>a. node_of a NullNode) as), s')"
    using as[unfolded good_args_def, rule_format, of s2 rest "ns @ [?a]"] after_ready[OF s2(2)] by blast
  obtain M where M: "\<forall>m\<ge>M. proc_assign_expr m s2 = Some (b, s3)" using b(2) by (auto simp: returns_def)
  have "param_loop n (proc_assign_expr m) (ns @ [?a]) s1 = Some (chain (ns @ map (\<lambda>a. node_of a NullNode) (a # as)), s')"
    if nm: "Suc (max N M) \<le> n" "Suc (max N M) \<le> m" for n m
  proof -
    obtain k where k: "n = Suc k" "N \<le> k" using nm(1) by (cases n) auto
    have "proc_assign_expr m s2 = Some (b, s3)" "param_loop k (proc_assign_expr m) ((ns @ [?a]) @ [b]) s3 = Some (chain ((ns @ [?a]) @ map (\<lambda>a. node_of a NullNode) as), s')"
      using M N nm(2) k(2) by simp_all
    then show ?thesis using k(1) s2(1) b(1) by simp
  qed
  then have "\<exists>N. \<forall>n\<ge>N. \<forall>m\<ge>N. param_loop n (proc_assign_expr m) (ns @ [?a]) s1 = Some (chain (ns @ map (\<lambda>a. node_of a NullNode) (a # as)), s')" by blast
  moreover have "after s (sum_list (map nodes_in (a # as))) s' ?R" using after_trans[OF e2 b(3)] by simp
  ultimately show "\<exists>b s1 s'. b \<noteq> NullNode \<and> returns proc_assign_expr s (b, s1) \<and>
       after s (sum_list (map nodes_in (a # as))) s' ?R \<and>
       (\<exists>N. \<forall>n\<ge>N. \<forall>m\<ge>N. param_loop n (proc_assign_expr m) (ns @ [b]) s1 = Some (chain (ns @ map (\<lambda>a. node_of a NullNode) (a # as)), s'))"
    using s1(2) node_of_Null by blast
qed

text \<open>Arguments between the parentheses, and the call.\<close>

definition good_params :: "finsh_var list \<Rightarrow> finsh_symbols \<Rightarrow> token list \<Rightarrow> expr list \<Rightarrow> bool" where
  "good_params vs sy ts as \<longleftrightarrow> (\<forall>s rest. ready s (ts @ Tok finsh_token_type_right_paren # rest) \<longrightarrow> ps_vars s = vs \<longrightarrow> ps_symbols s = sy \<longrightarrow>
     ps_nodes s + sum_list (map nodes_in as) \<le> FINSH_NODE_MAX \<longrightarrow>
     (\<exists>s'. after s (sum_list (map nodes_in as)) s' rest \<and>
       (\<exists>N. \<forall>n\<ge>N. \<forall>m\<ge>N. proc_params n (proc_assign_expr m) s = Some (nodes_of as, s'))))"

lemma params_none: "good_params vs sy [] []"
  unfolding good_params_def
proof (intro allI impI)
  fix s rest
  assume h: "ready s ([] @ Tok finsh_token_type_right_paren # rest)"
  obtain s1 where s1: "next_token s = Some (tok_type (Tok finsh_token_type_right_paren), s1)" "after s 0 s1 rest"
    by (rule read_token[of s "Tok finsh_token_type_right_paren" rest]) (use h in simp_all)
  then show "\<exists>s'. after s (sum_list (map nodes_in [])) s' rest \<and> (\<exists>N. \<forall>n\<ge>N. \<forall>m\<ge>N. proc_params n (proc_assign_expr m) s = Some (nodes_of [], s'))"
    by (intro exI[of _ s1]) (simp add: proc_params_def)
qed

lemma params_some:
  assumes as: "good_args vs sy ts as" and ts: "ts = t # us" "tok_type t \<noteq> finsh_token_type_right_paren"
  shows "good_params vs sy ts as"
  unfolding good_params_def
proof (intro allI impI)
  fix s rest
  let ?k = "sum_list (map nodes_in as)" and ?R = "Tok finsh_token_type_right_paren # rest"
  assume h: "ready s (ts @ ?R)" "ps_vars s = vs" "ps_symbols s = sy" "ps_nodes s + ?k \<le> FINSH_NODE_MAX"
  obtain s1 where s1: "next_token s = Some (tok_type t, s1)" "after s 0 (replay s1) (ts @ ?R)" using read_token[of s t "us @ ?R"] h(1) ts(1) by (metis append_Cons)
  have "ps_vars (replay s1) = vs" "ps_symbols (replay s1) = sy" "ps_nodes (replay s1) + ?k \<le> FINSH_NODE_MAX"
    using after_env[OF s1(2)] after_nodes[OF s1(2)] h by auto
  then obtain a s2 s3 N where a: "a \<noteq> NullNode" "returns proc_assign_expr (replay s1) (a, s2)" "after (replay s1) ?k s3 ?R"
    and N: "\<forall>n\<ge>N. \<forall>m\<ge>N. param_loop n (proc_assign_expr m) ([] @ [a]) s2 = Some (chain ([] @ map (\<lambda>a. node_of a NullNode) as), s3)"
    using as[unfolded good_args_def, rule_format, of "replay s1" rest "[]"] after_ready[OF s1(2)] by blast
  obtain M where M: "\<forall>m\<ge>M. proc_assign_expr m (replay s1) = Some (a, s2)" using a(2) by (auto simp: returns_def)
  obtain s4 where s4: "next_token s3 = Some (tok_type (Tok finsh_token_type_right_paren), s4)" "after s3 0 s4 rest" by (rule read_token[OF after_ready[OF a(3)]])
  have "proc_params n (proc_assign_expr m) s = Some (nodes_of as, s4)" if "max N M \<le> n" "max N M \<le> m" for n m
    using that s1(1) ts(2) M N a(1) s4(1) by (simp add: proc_params_def proc_param_list_def match_token_def check_token_def chain_nodes)
  then have "\<exists>N. \<forall>n\<ge>N. \<forall>m\<ge>N. proc_params n (proc_assign_expr m) s = Some (nodes_of as, s4)" by blast
  moreover have "after s ?k s4 rest" using after_trans[OF after_trans[OF s1(2) a(3)] s4(2)] by simp
  ultimately show "\<exists>s'. after s ?k s' rest \<and> (\<exists>N. \<forall>n\<ge>N. \<forall>m\<ge>N. proc_params n (proc_assign_expr m) s = Some (nodes_of as, s'))" by blast
qed

lemma good_call:
  assumes b: "bound vs sy (take FINSH_NAME_MAX n) = Some (IdSyscall f)" and p: "good_params vs sy ts as"
  shows "good vs sy 0 (Name n # Tok finsh_token_type_left_paren # ts @ [Tok finsh_token_type_right_paren]) (Call f as)"
  unfolding good_def
proof (intro allI impI)
  fix s t' rest
  let ?k = "sum_list (map nodes_in as)" and ?e = "Call f as"
  assume a: "ready s ((Name n # Tok finsh_token_type_left_paren # ts @ [Tok finsh_token_type_right_paren]) @ t' # rest)" "stops 0 (tok_type t')"
    "ps_vars s = vs" "ps_symbols s = sy" "ps_nodes s + nodes_in ?e \<le> FINSH_NODE_MAX"
  have r: "ready s (Name n # Tok finsh_token_type_left_paren # ts @ Tok finsh_token_type_right_paren # t' # rest)" using a(1) by simp
  have b': "bound (ps_vars s) (ps_symbols s) (take FINSH_NAME_MAX n) = Some (IdSyscall f)" using a(3,4) b by simp
  have c: "ps_nodes s < FINSH_NODE_MAX" using a(5) by simp
  obtain s1 where s1: "after s 1 s1 (Tok finsh_token_type_left_paren # ts @ Tok finsh_token_type_right_paren # t' # rest)"
    "\<forall>expr. proc_primary_expr expr s = Some (id_node (IdSyscall f) NullNode, s1)" using primary_name[OF r b' c] by blast
  obtain s2 where s2: "next_token s1 = Some (tok_type (Tok finsh_token_type_left_paren), s2)"
    "after s1 0 s2 (ts @ Tok finsh_token_type_right_paren # t' # rest)" by (rule read_token[OF after_ready[OF s1(1)]])
  have e2: "after s 1 s2 (ts @ Tok finsh_token_type_right_paren # t' # rest)" using after_trans[OF s1(1) s2(2)] by simp
  have "ps_vars s2 = vs" "ps_symbols s2 = sy" "ps_nodes s2 + ?k \<le> FINSH_NODE_MAX" using after_env[OF e2] after_nodes[OF e2] a(3-5) by auto
  then obtain s3 N where s3: "after s2 ?k s3 (t' # rest)" and N: "\<forall>n\<ge>N. \<forall>m\<ge>N. proc_params n (proc_assign_expr m) s2 = Some (nodes_of as, s3)"
    using p[unfolded good_params_def, rule_format, of s2 "t' # rest"] after_ready[OF s2(2)] by blast
  have e3: "after s (1 + ?k) s3 (t' # rest)" by (rule after_trans[OF e2 s3])
  let ?s4 = "s3\<lparr>ps_nodes := ps_nodes s3 + 1\<rparr>"
  have e4: "after s (nodes_in ?e) ?s4 (t' # rest)" using after_alloc[OF e3] by simp
  have mk: "make_sys_node FINSH_NODE_SYS_FUNC (id_node (IdSyscall f) NullNode) (nodes_of as) s3 = (node_of ?e NullNode, ?s4)"
    using after_nodes[OF e3] a(5) by (subst make_ok) (simp_all add: id_node_def)
  obtain s5 where s5: "after ?s4 0 s5 (t' # rest)" "\<forall>n assign p. postfix_loop (Suc n) assign p ?s4 = Some (p, s5)"
    using postfix_stop[OF after_ready[OF e4] a(2)] by blast
  have "proc_postfix_expr n (proc_assign_expr n) s = Some (node_of ?e NullNode, s5)" if "Suc (Suc N) \<le> n" for n
  proof -
    obtain j where j: "n = Suc (Suc j)" "N \<le> Suc j" using \<open>Suc (Suc N) \<le> n\<close> by (metis Suc_le_D Suc_le_mono le_SucI)
    have "proc_params (Suc j) (proc_assign_expr n) s2 = Some (nodes_of as, s3)" using N j by simp
    then have "postfix_loop (Suc (Suc j)) (proc_assign_expr n) (id_node (IdSyscall f) NullNode) s1 = Some (node_of ?e NullNode, s5)"
      using s2(1) s5(2) mk by (simp del: node_of.simps)
    then show ?thesis using s1(2) j(1) by (simp add: proc_postfix_expr_def del: node_of.simps)
  qed
  then show "\<exists>s'. after s (nodes_in ?e) s' (t' # rest) \<and> returns (level_parser 0) s (node_of ?e NullNode, s')"
    using after_trans[OF e4 s5(1)] unfolding returns_def level_parser_def by auto
qed

section \<open>Unary expressions\<close>

lemma cast_unary:
  assumes "ready s (t # ts)" "tok_type t \<noteq> finsh_token_type_left_paren"
  shows "\<exists>s'. after s 0 s' (t # ts) \<and> (\<forall>n. proc_cast_expr (Suc n) s = proc_unary_expr n (proc_cast_expr n) (proc_assign_expr n) s')"
proof -
  obtain s1 where s1: "next_token s = Some (tok_type t, s1)" "after s 0 (replay s1) (t # ts)" using read_token[OF assms(1)] by metis
  then show ?thesis using assms(2) by (intro exI[of _ "replay s1"]) simp
qed

definition primary_token :: "finsh_token_type \<Rightarrow> bool" where
  "primary_token t \<longleftrightarrow> t \<in> {finsh_token_type_identifier, finsh_token_type_value_int, finsh_token_type_value_long, finsh_token_type_value_char}"

lemma good_unary:
  assumes g: "good vs sy 0 ts e" and ts: "ts = t # us" "primary_token (tok_type t)"
  shows "good vs sy 1 ts e"
  unfolding good_def
proof (intro allI impI)
  fix s t' rest
  assume a: "ready s (ts @ t' # rest)" "stops 1 (tok_type t')" "ps_vars s = vs" "ps_symbols s = sy" "ps_nodes s + nodes_in e \<le> FINSH_NODE_MAX"
  have nt: "tok_type t \<noteq> finsh_token_type_left_paren" using ts(2) by (auto simp: primary_token_def)
  have st: "stops 0 (tok_type t')" using stops_mono[OF a(2)] by simp
  obtain s1 where s1: "after s 0 s1 (ts @ t' # rest)" "\<forall>n. proc_cast_expr (Suc n) s = proc_unary_expr n (proc_cast_expr n) (proc_assign_expr n) s1"
    using cast_unary[of s t "us @ t' # rest"] a(1) ts(1) nt by auto
  obtain s2 where s2: "next_token s1 = Some (tok_type t, s2)" "after s1 0 (replay s2) (ts @ t' # rest)"
    using read_token[of s1 t "us @ t' # rest"] after_ready[OF s1(1)] ts(1) by (metis append_Cons)
  have e2: "after s 0 (replay s2) (ts @ t' # rest)" using after_trans[OF s1(1) s2(2)] by simp
  obtain s3 where s3: "after (replay s2) (nodes_in e) s3 (t' # rest)" "returns (level_parser 0) (replay s2) (node_of e NullNode, s3)"
    by (rule goodE[OF g after_ready[OF e2] st]) (use after_env[OF e2] after_nodes[OF e2] a(3-5) in auto)
  obtain N where N: "\<forall>n\<ge>N. proc_postfix_expr n (proc_assign_expr n) (replay s2) = Some (node_of e NullNode, s3)"
    using s3(2) by (auto simp: returns_def level_parser_def)
  have u: "proc_unary_expr n c as s1 = proc_postfix_expr n as (replay s2)" for n c as
    using s2(1) ts(2) by (auto simp: proc_unary_expr_def primary_token_def)
  have "proc_cast_expr n s = Some (node_of e NullNode, s3)" if "Suc N \<le> n" for n
    using that s1(2) u N by (cases n) (simp_all del: proc_cast_expr.simps(2))
  then show "\<exists>s'. after s (nodes_in e) s' (t' # rest) \<and> returns (level_parser 1) s (node_of e NullNode, s')"
    using after_trans[OF e2 s3(1)] unfolding returns_def level_parser_def by auto
qed

text \<open>A prefix operator: what it makes of the node of its operand.\<close>

lemma good_prefix:
  assumes g: "good vs sy 1 ts e" and op: "op \<noteq> finsh_token_type_left_paren"
    and u: "\<And>n c as s u. next_token s = Some (op, u) \<Longrightarrow> proc_unary_expr n c as s = Option.bind (c u) (\<lambda>(x, s). Some (F x s))"
    and F: "\<And>s s0 us k. \<lbrakk>after s0 k s us; ps_nodes s + j \<le> FINSH_NODE_MAX\<rbrakk> \<Longrightarrow> \<exists>s'. F (node_of e NullNode) s = (node_of e' NullNode, s') \<and> after s0 (k + j) s' us"
    and k: "nodes_in e' = nodes_in e + j"
  shows "good vs sy 1 (Tok op # ts) e'"
  unfolding good_def
proof (intro allI impI)
  fix s t' rest
  assume a: "ready s ((Tok op # ts) @ t' # rest)" "stops 1 (tok_type t')" "ps_vars s = vs" "ps_symbols s = sy" "ps_nodes s + nodes_in e' \<le> FINSH_NODE_MAX"
  obtain s1 where s1: "after s 0 s1 (Tok op # ts @ t' # rest)" "\<forall>n. proc_cast_expr (Suc n) s = proc_unary_expr n (proc_cast_expr n) (proc_assign_expr n) s1"
    using cast_unary[of s "Tok op" "ts @ t' # rest"] a(1) op by auto
  obtain s2 where s2: "next_token s1 = Some (tok_type (Tok op), s2)" "after s1 0 s2 (ts @ t' # rest)" by (rule read_token[OF after_ready[OF s1(1)]])
  have e2: "after s 0 s2 (ts @ t' # rest)" using after_trans[OF s1(1) s2(2)] by simp
  obtain s3 where s3: "after s2 (nodes_in e) s3 (t' # rest)" "returns (level_parser 1) s2 (node_of e NullNode, s3)"
    by (rule goodE[OF g after_ready[OF e2] a(2)]) (use after_env[OF e2] after_nodes[OF e2] a(3-5) k in auto)
  have e3: "after s (nodes_in e) s3 (t' # rest)" using after_trans[OF e2 s3(1)] by simp
  obtain s4 where s4: "F (node_of e NullNode) s3 = (node_of e' NullNode, s4)" "after s (nodes_in e + j) s4 (t' # rest)"
    using F[OF e3] after_nodes[OF e3] a(5) k by auto
  obtain N where N: "\<forall>n\<ge>N. proc_cast_expr n s2 = Some (node_of e NullNode, s3)" using s3(2) by (auto simp: returns_def level_parser_def)
  have "proc_cast_expr n s = Some (node_of e' NullNode, s4)" if "Suc N \<le> n" for n
  proof -
    obtain m where m: "n = Suc m" "N \<le> m" using \<open>Suc N \<le> n\<close> by (cases n) auto
    then show ?thesis using s1(2) u[of s1 s2] s2(1) N s4(1) by (simp del: proc_cast_expr.simps(2))
  qed
  then show "\<exists>s'. after s (nodes_in e') s' (t' # rest) \<and> returns (level_parser 1) s (node_of e' NullNode, s')"
    using s4(2) unfolding returns_def level_parser_def k by auto
qed

text \<open>The operators that make one node of their operand.\<close>

lemma good_prefix_node:
  assumes g: "good vs sy 1 ts e" and op: "op \<noteq> finsh_token_type_left_paren"
    and u: "\<And>n c as s u. next_token s = Some (op, u) \<Longrightarrow> proc_unary_expr n c as s = unary_node nt c u"
    and e': "node_of e' NullNode = Node (leaf nt) (node_of e NullNode) NullNode" "nodes_in e' = nodes_in e + 1"
  shows "good vs sy 1 (Tok op # ts) e'"
proof (rule good_prefix[OF g op, where F = "\<lambda>c. make_sys_node nt c NullNode" and j = 1])
  fix s s0 us k
  assume "after s0 k s us" "ps_nodes s + 1 \<le> FINSH_NODE_MAX"
  then show "\<exists>s'. make_sys_node nt (node_of e NullNode) NullNode s = (node_of e' NullNode, s') \<and> after s0 (k + 1) s' us"
    using after_alloc[of s0 k s us] unfolding e'(1) by (subst make_ok) (simp_all add: node_of_sibling)
qed (use u e'(2) in \<open>simp_all add: unary_node_def\<close>)

lemma good_minus:
  assumes "good vs sy 1 ts e"
  shows "good vs sy 1 (Tok finsh_token_type_sub # ts) (Bin Sub (Lng 0) e)"
proof (rule good_prefix[OF assms, where F = "\<lambda>c s. case finsh_node_new_long 0 s of (z, s) \<Rightarrow> make_sys_node FINSH_NODE_SYS_SUB z c s" and j = 2])
  fix n c as s u
  assume "next_token s = Some (finsh_token_type_sub, u)"
  then show "proc_unary_expr n c as s = Option.bind (c u) (\<lambda>(x, s). Some (case finsh_node_new_long 0 s of (z, s) \<Rightarrow> make_sys_node FINSH_NODE_SYS_SUB z x s))"
    by (simp add: proc_unary_expr_def case_prod_unfold)
next
  fix s s0 us k
  assume a: "after s0 k s us" "ps_nodes s + 2 \<le> FINSH_NODE_MAX"
  let ?s = "s\<lparr>ps_nodes := ps_nodes s + 1\<rparr>"
  have n: "ps_nodes s < FINSH_NODE_MAX" "ps_nodes ?s < FINSH_NODE_MAX" using a(2) by simp_all
  have "make_sys_node FINSH_NODE_SYS_SUB (node_of (Lng 0) NullNode) (node_of e NullNode) ?s = (node_of (Bin Sub (Lng 0) e) NullNode, ?s\<lparr>ps_nodes := ps_nodes ?s + 1\<rparr>)"
    by (subst make_ok[OF n(2)]) simp_all
  moreover have "finsh_node_new_long 0 s = (node_of (Lng 0) NullNode, ?s)" by (simp add: finsh_node_new_long_def new_node_ok[OF n(1)])
  ultimately show "\<exists>s'. (case finsh_node_new_long 0 s of (z, s) \<Rightarrow> make_sys_node FINSH_NODE_SYS_SUB z (node_of e NullNode) s) = (node_of (Bin Sub (Lng 0) e) NullNode, s') \<and>
      after s0 (k + 2) s' us"
    using after_alloc[OF after_alloc[OF a(1)]] by (simp del: node_of.simps)
qed simp_all

lemma good_plus: "good vs sy 1 ts e \<Longrightarrow> good vs sy 1 (Tok finsh_token_type_add # ts) e"
  by (rule good_prefix[where F = "\<lambda>c s. (c, s)" and j = 0]) (auto simp: proc_unary_expr_def)

section \<open>Assignments\<close>

lemma good_level8:
  assumes g: "good vs sy 7 ts e"
  shows "good vs sy 8 ts e"
  unfolding good_def
proof (intro allI impI)
  fix s t' rest
  assume a: "ready s (ts @ t' # rest)" "stops 8 (tok_type t')" "ps_vars s = vs" "ps_symbols s = sy" "ps_nodes s + nodes_in e \<le> FINSH_NODE_MAX"
  have st: "stops 7 (tok_type t')" using stops_mono[OF a(2)] by simp
  have ne: "tok_type t' \<noteq> finsh_token_type_assign" using a(2) by (simp add: stops_def)
  obtain s1 where s1: "after s (nodes_in e) s1 (t' # rest)" "returns (level_parser 7) s (node_of e NullNode, s1)"
    by (rule goodE[OF g a(1) st a(3-5)])
  obtain s2 where s2: "next_token s1 = Some (tok_type t', s2)" "after s1 0 (replay s2) (t' # rest)" using read_token[OF after_ready[OF s1(1)]] by metis
  obtain N where N: "\<forall>n\<ge>N. proc_inclusive_or_expr n (proc_cast_expr n) s = Some (node_of e NullNode, s1)" using s1(2) by (auto simp: returns_def level_parser_def)
  have "proc_assign_expr n s = Some (node_of e NullNode, replay s2)" if "Suc N \<le> n" for n
    using that N s2(1) ne by (cases n) simp_all
  then show "\<exists>s'. after s (nodes_in e) s' (t' # rest) \<and> returns (level_parser 8) s (node_of e NullNode, s')"
    using after_trans[OF s1(1) s2(2)] unfolding returns_def level8 by auto
qed

lemma good_assign:
  assumes g: "good vs sy 7 ts l" and h: "good vs sy 8 us a"
    and e: "node_of e NullNode = Node (leaf FINSH_NODE_SYS_ASSIGN) (node_of l (node_of a NullNode)) NullNode" "nodes_in e = nodes_in l + nodes_in a + 1"
  shows "good vs sy 8 (ts @ Tok finsh_token_type_assign # us) e"
  unfolding good_def
proof (intro allI impI)
  fix s t' rest
  assume a: "ready s ((ts @ Tok finsh_token_type_assign # us) @ t' # rest)" "stops 8 (tok_type t')" "ps_vars s = vs" "ps_symbols s = sy"
    "ps_nodes s + nodes_in e \<le> FINSH_NODE_MAX"
  have r: "ready s (ts @ Tok finsh_token_type_assign # us @ t' # rest)" using a(1) by simp
  have st: "stops 7 (tok_type (Tok finsh_token_type_assign))" by (auto simp: stops_def)
  obtain s1 where s1: "after s (nodes_in l) s1 (Tok finsh_token_type_assign # us @ t' # rest)" "returns (level_parser 7) s (node_of l NullNode, s1)"
    by (rule goodE[OF g r st a(3,4)]) (use a(5) e(2) in simp)
  obtain s2 where s2: "next_token s1 = Some (tok_type (Tok finsh_token_type_assign), s2)" "after s1 0 s2 (us @ t' # rest)" by (rule read_token[OF after_ready[OF s1(1)]])
  have e2: "after s (nodes_in l) s2 (us @ t' # rest)" using after_trans[OF s1(1) s2(2)] by simp
  obtain s3 where s3: "after s2 (nodes_in a) s3 (t' # rest)" "returns (level_parser 8) s2 (node_of a NullNode, s3)"
    by (rule goodE[OF h after_ready[OF e2] a(2)]) (use after_env[OF e2] after_nodes[OF e2] a(3-5) e(2) in auto)
  have e3: "after s (nodes_in l + nodes_in a) s3 (t' # rest)" by (rule after_trans[OF e2 s3(1)])
  let ?s4 = "s3\<lparr>ps_nodes := ps_nodes s3 + 1\<rparr>"
  have mk: "make_sys_node FINSH_NODE_SYS_ASSIGN (node_of l NullNode) (node_of a NullNode) s3 = (node_of e NullNode, ?s4)"
    unfolding e(1) using after_nodes[OF e3] a(5) e(2) by (subst make_ok) (simp_all add: node_of_sibling)
  obtain N where N: "\<forall>n\<ge>N. proc_inclusive_or_expr n (proc_cast_expr n) s = Some (node_of l NullNode, s1)" using s1(2) by (auto simp: returns_def level_parser_def)
  obtain M where M: "\<forall>n\<ge>M. proc_assign_expr n s2 = Some (node_of a NullNode, s3)" using s3(2) unfolding level8 by (auto simp: returns_def)
  have "proc_assign_expr n s = Some (node_of e NullNode, ?s4)" if "Suc (max N M) \<le> n" for n
    using that N M s2(1) mk by (cases n) simp_all
  then show "\<exists>s'. after s (nodes_in e) s' (t' # rest) \<and> returns (level_parser 8) s (node_of e NullNode, s')"
    using after_alloc[OF e3] e(2) unfolding returns_def level8 by auto
qed

section \<open>All phrases\<close>

text \<open>A phrase is not empty, and begins with a token that is no parenthesis.\<close>

definition starter :: "finsh_token_type \<Rightarrow> bool" where
  "starter t \<longleftrightarrow> primary_token t \<or> t \<in> {finsh_token_type_add, finsh_token_type_sub, finsh_token_type_inc, finsh_token_type_dec,
     finsh_token_type_bitwise, finsh_token_type_mul, finsh_token_type_and}"

definition starts :: "nat \<Rightarrow> token list \<Rightarrow> bool" where
  "starts l ts \<longleftrightarrow> (\<exists>t us. ts = t # us \<and> starter (tok_type t) \<and> (l = 0 \<longrightarrow> primary_token (tok_type t)))"

lemma starts_Cons [simp]: "starts l (t # ts) \<longleftrightarrow> starter (tok_type t) \<and> (l = 0 \<longrightarrow> primary_token (tok_type t))"
  by (simp add: starts_def)

lemma starts_append: "starts l ts \<Longrightarrow> starts l (ts @ us)"
  by (auto simp: starts_def)

lemma starts_up: "starts l ts \<Longrightarrow> starts (Suc l) ts"
  by (auto simp: starts_def)

lemma starts_level: "starts l ts \<Longrightarrow> 1 \<le> k \<Longrightarrow> starts k ts"
  by (auto simp: starts_def)

lemma phrase_starts:
  "phrase vs sy l ts e \<Longrightarrow> starts l ts"
  "phrases vs sy ts as \<Longrightarrow> starts 8 ts"
proof (induction rule: phrase_phrases.inducts)
  case (p_bin l ts a t g us b)
  then show ?case by (intro starts_append)
next
  case (p_assign ts x us a)
  then show ?case by (intro starts_append) (rule starts_level, simp_all)
next
  case (p_assign_at ts p us a)
  then show ?case by (intro starts_append) (rule starts_level, simp_all)
next
  case (p_more ts a us as)
  then show ?case by (intro starts_append)
next
  case (p_unary ts e)
  show ?case by (rule starts_level[OF p_unary(2)]) simp
qed (simp_all add: starter_def primary_token_def starts_up)

lemma phrase_good:
  "phrase vs sy l ts e \<Longrightarrow> good vs sy l ts e \<and> (2 \<le> l \<longrightarrow> l \<le> 7 \<longrightarrow> goes vs sy (l - 1) ts e)"
  "phrases vs sy ts as \<Longrightarrow> good_args vs sy ts as"
proof (induction rule: phrase_phrases.inducts)
  case (p_call n f ts as)
  obtain t us where t: "ts = t # us" "tok_type t \<noteq> finsh_token_type_right_paren"
    using phrase_starts(2)[OF p_call(2)] by (auto simp: starts_def starter_def primary_token_def)
  show ?case using good_call[OF p_call(1) params_some[OF p_call(3) t]] by simp
next
  case (p_call0 n f)
  then show ?case using good_call[OF p_call0 params_none] by simp
next
  case (p_unary ts e)
  obtain t us where t: "ts = t # us" "primary_token (tok_type t)" using phrase_starts(1)[OF p_unary(1)] by (auto simp: starts_def)
  then show ?case using good_unary[OF _ t] p_unary(2) by simp
next
  case (p_level l ts e)
  then show ?case using goes_of_good[of l vs sy ts e] good_of_goes[of l vs sy ts e] good_level8[of vs sy ts e] by (cases "l = 7") auto
next
  case (p_bin l ts a t g us b)
  have o: "level_binop (Suc l) t = Some g" using p_bin by blast
  have l: "1 \<le> l" "l < 7" using o by (auto split: if_splits)
  have "goes vs sy l (ts @ Tok t # us) (Bin g a b)" by (rule goes_bin[OF l _ o]) (use p_bin l in auto)
  then show ?case using good_of_goes[OF l] by simp
next
  case (p_assign ts x us a)
  then have "good vs sy 8 (ts @ Tok finsh_token_type_assign # us) (Assign x a)" by (intro good_assign) (auto simp: id_node_def)
  then show ?case by simp
next
  case (p_assign_at ts p us a)
  then have "good vs sy 8 (ts @ Tok finsh_token_type_assign # us) (AssignAt p a)" by (intro good_assign[where l = "Deref p"]) auto
  then show ?case by simp
next
  case (p_num v) show ?case by (simp, rule good_value[where v = v]) simp
next
  case (p_lng v) show ?case by (simp, rule good_value[where v = v]) simp
next
  case (p_chr v) show ?case by (simp, rule good_value[where b = v]) simp
next
  case (p_var n x) then show ?case using good_var by simp
next
  case (p_postinc n i) then show ?case using good_post by simp
next
  case (p_postdec n i) then show ?case using good_post by simp
next
  case (p_plus ts e) then show ?case using good_plus by simp
next
  case (p_minus ts e) then show ?case using good_minus by simp
next
  case (p_compl ts e)
  then have "good vs sy 1 (Tok finsh_token_type_bitwise # ts) (Compl e)"
    by (intro good_prefix_node[where nt = FINSH_NODE_SYS_BITWISE]) (auto simp: proc_unary_expr_def)
  then show ?case by simp
next
  case (p_deref ts e)
  then have "good vs sy 1 (Tok finsh_token_type_mul # ts) (Deref e)"
    by (intro good_prefix_node[where nt = FINSH_NODE_SYS_GETVALUE]) (auto simp: proc_unary_expr_def)
  then show ?case by simp
next
  case (p_addr ts x)
  then have "good vs sy 1 (Tok finsh_token_type_and # ts) (AddrOf x)"
    by (intro good_prefix_node[where nt = FINSH_NODE_SYS_GETADDR and e = "Var x"]) (auto simp: proc_unary_expr_def id_node_def)
  then show ?case by simp
next
  case (p_preinc ts i)
  then have "good vs sy 1 (Tok finsh_token_type_inc # ts) (PreInc i)"
    by (intro good_prefix_node[where nt = FINSH_NODE_SYS_PREINC and e = "Var (IdVar i)"]) (auto simp: proc_unary_expr_def id_node_def)
  then show ?case by simp
next
  case (p_predec ts i)
  then have "good vs sy 1 (Tok finsh_token_type_dec # ts) (PreDec i)"
    by (intro good_prefix_node[where nt = FINSH_NODE_SYS_PREDEC and e = "Var (IdVar i)"]) (auto simp: proc_unary_expr_def id_node_def)
  then show ?case by simp
next
  case (p_last ts a) then show ?case using args_last by simp
next
  case (p_more ts a us as) then show ?case using args_more by simp
qed

end
