(* ===== verification/FinshLine.thy ===== *)
theory FinshLine
  imports FinshParserSpec
begin

text \<open>
  A whole line: the statements the parser reads from the text, and the list of their trees it gives to the
  compiler.
\<close>

section \<open>Statements\<close>

inductive line_of :: "finsh_var list \<Rightarrow> finsh_symbols \<Rightarrow> token list \<Rightarrow> expr list \<Rightarrow> bool" for vs :: "finsh_var list" and sy :: finsh_symbols where
  l_end: "line_of vs sy [Tok finsh_token_type_eof] []"
| l_statement: "\<lbrakk>phrase vs sy 8 ts e; line_of vs sy us es\<rbrakk> \<Longrightarrow> line_of vs sy (ts @ Tok finsh_token_type_semicolon # us) (e # es)"

lemma starter_none: "starter t \<Longrightarrow> t \<noteq> finsh_token_type_semicolon \<and> t \<noteq> finsh_token_type_eof \<and> t \<noteq> finsh_token_type_bad \<and>
    \<not> is_base_type t \<and> t \<noteq> finsh_token_type_unsigned"
  by (auto simp: starter_def primary_token_def is_base_type_def)

lemma expr_statement:
  assumes p: "phrase vs sy 8 ts e" and r: "ready s (ts @ Tok finsh_token_type_semicolon # us)"
    and v: "ps_vars s = vs" "ps_symbols s = sy" "ps_nodes s + nodes_in e \<le> FINSH_NODE_MAX"
  obtains s' where "after s (nodes_in e) s' us" "returns proc_expr_statement s (node_of e NullNode, s')"
proof -
  obtain t vs' where t: "ts = t # vs'" "starter (tok_type t)" using phrase_starts(1)[OF p] by (auto simp: starts_def)
  obtain s1 where s1: "next_token s = Some (tok_type t, s1)" "after s 0 (replay s1) (ts @ Tok finsh_token_type_semicolon # us)"
    using read_token[of s t "vs' @ Tok finsh_token_type_semicolon # us"] r t(1) by (metis append_Cons)
  have g: "good vs sy 8 ts e" using phrase_good(1)[OF p] by simp
  obtain s2 where s2: "after (replay s1) (nodes_in e) s2 (Tok finsh_token_type_semicolon # us)" "returns (level_parser 8) (replay s1) (node_of e NullNode, s2)"
    by (rule goodE[OF g after_ready[OF s1(2)]]) (use stops_args after_env[OF s1(2)] after_nodes[OF s1(2)] v in auto)
  obtain s3 where s3: "next_token s2 = Some (tok_type (Tok finsh_token_type_semicolon), s3)" "after s2 0 s3 us" by (rule read_token[OF after_ready[OF s2(1)]])
  obtain N where N: "\<forall>n\<ge>N. proc_assign_expr n (replay s1) = Some (node_of e NullNode, s2)" using s2(2) unfolding level8 by (auto simp: returns_def)
  have "\<forall>n\<ge>N. proc_expr_statement n s = Some (node_of e NullNode, s3)"
    using N s1(1) s3(1) starter_none[OF t(2)] by (simp add: proc_expr_statement_def match_token_def check_token_def)
  then show ?thesis using that after_trans[OF s1(2) after_trans[OF s2(1) s3(2)]] by (auto simp: returns_def)
qed

text \<open>The roots so far and the place of the last one.\<close>

lemma link_root_last: "a \<noteq> NullNode \<Longrightarrow> link_root (node_list a) (rs, length rs - 1) = (rs @ [a], length (rs @ [a]) - 1)"
  by (cases rs) (simp_all add: link_root_def node_list_def)

lemma parse_statements:
  assumes "line_of vs sy toks es"
  shows "\<And>s rs. \<lbrakk>ready s toks; ps_vars s = vs; ps_symbols s = sy; ps_nodes s + sum_list (map nodes_in es) \<le> FINSH_NODE_MAX\<rbrakk> \<Longrightarrow>
    \<exists>s1 s'. next_token s = Some (tok_type (hd toks), s1) \<and> after s (sum_list (map nodes_in es)) s' [] \<and>
      (\<exists>N. \<forall>n\<ge>N. \<forall>m\<ge>N. statement_loop n m (tok_type (hd toks)) (rs, length rs - 1) s1 = Some (chain (rs @ map (\<lambda>e. node_of e NullNode) es), s'))"
  using assms
proof (induction rule: line_of.induct)
  case l_end
  obtain s1 where s1: "next_token s = Some (tok_type (Tok finsh_token_type_eof), s1)" "after s 0 s1 []" by (rule read_token[OF l_end(1)])
  have "statement_loop n m finsh_token_type_eof (rs, length rs - 1) s1 = Some (chain rs, s1)" if "1 \<le> n" for n m
    using that by (cases n) simp_all
  then show ?case using s1 by (intro exI[of _ s1]) auto
next
  case (l_statement ts e us es)
  obtain t vs' where t: "ts = t # vs'" "starter (tok_type t)" using phrase_starts(1)[OF l_statement.hyps(1)] by (auto simp: starts_def)
  obtain s1 where s1: "next_token s = Some (tok_type t, s1)" "after s 0 (replay s1) (ts @ Tok finsh_token_type_semicolon # us)"
    using read_token[of s t "vs' @ Tok finsh_token_type_semicolon # us"] l_statement.prems(1) t(1) by (metis append_Cons)
  obtain s2 where s2: "after (replay s1) (nodes_in e) s2 us" "returns proc_expr_statement (replay s1) (node_of e NullNode, s2)"
    by (rule expr_statement[OF l_statement.hyps(1) after_ready[OF s1(2)]])
      (use after_env[OF s1(2)] after_nodes[OF s1(2)] l_statement.prems in auto)
  have e2: "after s (nodes_in e) s2 us" using after_trans[OF s1(2) s2(1)] by simp
  let ?a = "node_of e NullNode" and ?k = "sum_list (map nodes_in es)"
  obtain s3 s' N where s3: "next_token s2 = Some (tok_type (hd us), s3)" "after s2 ?k s' []"
    and N: "\<forall>n\<ge>N. \<forall>m\<ge>N. statement_loop n m (tok_type (hd us)) (rs @ [?a], length (rs @ [?a]) - 1) s3 = Some (chain ((rs @ [?a]) @ map (\<lambda>e. node_of e NullNode) es), s')"
    using l_statement.IH[of s2 "rs @ [?a]"] after_ready[OF e2] after_env[OF e2] after_nodes[OF e2] l_statement.prems by auto
  obtain M where M: "\<forall>n\<ge>M. proc_expr_statement n (replay s1) = Some (?a, s2)" using s2(2) by (auto simp: returns_def)
  have "proc_statement m (tok_type t) (rs, length rs - 1) s1 = Some ((rs @ [?a], length (rs @ [?a]) - 1), s2)" if "M \<le> m" for m
    using M that starter_none[OF t(2)] by (simp add: proc_statement_def link_root_last[simplified])
  then have "statement_loop n m (tok_type t) (rs, length rs - 1) s1 = Some (chain (rs @ map (\<lambda>e. node_of e NullNode) (e # es)), s')"
    if "Suc (max M N) \<le> n" "Suc (max M N) \<le> m" for n m
    using that N s3(1) starter_none[OF t(2)] by (cases n) simp_all
  then show ?case using s1(1) t(1) after_trans[OF e2 s3(2)] by (intro exI[of _ s1] exI[of _ s']) auto
qed

lemma parser_line:
  assumes "line_of (ps_vars s) (ps_symbols s) toks es" "lexes (finsh_token_init line (tok_errno (ps_token s))) toks"
    "ps_nodes s + sum_list (map nodes_in es) \<le> FINSH_NODE_MAX"
  shows "\<exists>s'. (\<exists>N. \<forall>n\<ge>N. finsh_parser_run n line s = Some (nodes_of es, s')) \<and> ps_vars s' = ps_vars s \<and>
    tok_errno (ps_token s') = tok_errno (ps_token (s\<lparr>ps_token := finsh_token_init line (tok_errno (ps_token s))\<rparr>))"
proof -
  let ?s = "s\<lparr>ps_token := finsh_token_init line (tok_errno (ps_token s))\<rparr>"
  have "ready ?s toks" using assms(2) by (simp add: ready_def)
  then obtain s1 s' N where s1: "next_token ?s = Some (tok_type (hd toks), s1)" "after ?s (sum_list (map nodes_in es)) s' []"
    and N: "\<forall>n\<ge>N. \<forall>m\<ge>N. statement_loop n m (tok_type (hd toks)) ([], length ([] :: finsh_node list) - 1) s1 = Some (chain ([] @ map (\<lambda>e. node_of e NullNode) es), s')"
    using parse_statements[OF assms(1), of ?s "[]"] assms(3) by auto
  have "\<forall>n\<ge>N. finsh_parser_run n line s = Some (nodes_of es, s')" using N s1(1) by (simp add: finsh_parser_run_def chain_nodes)
  then show ?thesis using s1(2) by (auto simp: after_def)
qed

end
