(* ===== verification/FinshShell.thy ===== *)
theory FinshShell
  imports FinshLine FinshProgram
begin

text \<open>
  A line of the shell from its text to what is printed (\<open>finsh_run_line\<close> of \<open>components/finsh/shell.c\<close>):
  the parser, the compiler and the machine one behind the other, and the reset between two lines.
\<close>

section \<open>The shell\<close>

record finsh_shell =
  sh_parser :: finsh_parser
  sh_vm :: finsh_vm

text \<open>What is printed for a line: the value with or without its character, the text of an error, or nothing.\<close>

datatype shell_output = Shell_char byte word32 | Shell_value word32 | Shell_error finsh_error | Shell_nothing

text \<open>The variables and the heap stay as they are.\<close>

definition finsh_flush :: "finsh_shell \<Rightarrow> finsh_shell" where
  "finsh_flush s = s\<lparr>sh_parser := (sh_parser s)\<lparr>ps_token := finsh_token_init [] FINSH_ERROR_OK, ps_nodes := 0\<rparr>\<rparr>"

definition print_bottom :: "word32 \<Rightarrow> shell_output" where
  "print_bottom v = (let ch = (ucast v :: byte) in if ch > 0x20 \<and> ch < 0x7e then Shell_char ch v else Shell_value v)"

text \<open>\<open>None\<close> is a bound of the parser used up, or an access outside the memory.\<close>

definition finsh_run_line :: "nat \<Rightarrow> word32 \<Rightarrow> syscalls \<Rightarrow> string \<Rightarrow> finsh_shell \<Rightarrow> (shell_output \<times> finsh_shell) option" where
  "finsh_run_line n base f line s = do {
     (root, ps) \<leftarrow> finsh_parser_run n line (sh_parser s);
     s \<leftarrow> Some (s\<lparr>sh_parser := ps\<rparr>);
     e \<leftarrow> Some (tok_errno (ps_token ps));
     if e \<noteq> FINSH_ERROR_OK then Some (Shell_error e, finsh_flush s)
     else do {
       (e, vm) \<leftarrow> finsh_compiler_run base (ps_vars ps) root e (sh_vm s);
       if e \<noteq> FINSH_ERROR_OK then Some (Shell_nothing, finsh_flush (s\<lparr>sh_vm := vm\<rparr>))
       else (case finsh_vm_run FINSH_TEXT_MAX f vm of
           Done vm \<Rightarrow> Some (print_bottom (finsh_stack_bottom vm), finsh_flush (s\<lparr>sh_vm := vm\<rparr>))
         | _ \<Rightarrow> None) } }"

section \<open>From the text to the value\<close>

text \<open>The state between two lines.\<close>

definition prompt :: "finsh_shell \<Rightarrow> bool" where
  "prompt s \<longleftrightarrow> ps_nodes (sh_parser s) = 0 \<and> tok_errno (ps_token (sh_parser s)) = FINSH_ERROR_OK"

lemma finsh_flush_prompt [simp]: "prompt (finsh_flush s)"
  by (simp add: prompt_def finsh_flush_def finsh_token_init_def)

lemma finsh_flush_sel [simp]:
  "sh_vm (finsh_flush s) = sh_vm s" "ps_vars (sh_parser (finsh_flush s)) = ps_vars (sh_parser s)"
  "ps_symbols (sh_parser (finsh_flush s)) = ps_symbols (sh_parser s)"
  by (simp_all add: finsh_flush_def)

text \<open>
  C31: A line typed at the prompt, of statements the grammar accepts, well typed, with at most sixteen nodes
  and few enough bytes of code, is parsed, compiled and run: the shell prints a slot that holds the value of
  the last statement in its low bytes, as many as the type of that statement has (all four for an integer or
  a pointer, so that the slot then is the value; above a character or a short the slot keeps what was in it),
  the memory has every assignment in it, and the shell is at its prompt again.
\<close>

theorem finsh_run_line_value:
  assumes "prompt s" and vs: "vs = ps_vars (sh_parser s)"
    and "lexes (finsh_token_init line FINSH_ERROR_OK) toks" "line_of vs (ps_symbols (sh_parser s)) toks es"
    and "sum_list (map nodes_in es) \<le> FINSH_NODE_MAX"
    and "\<forall>e\<in>set es. well_typed vs e \<and> depth_of e \<le> FINSH_STACK_MAX" "length (prog_code base vs es) \<le> FINSH_TEXT_MAX"
    and "length (finsh_vm_stack (sh_vm s)) = FINSH_STACK_MAX" "prog_value f base vs es (vm_memory (sh_vm s)) = Some (x, m')"
  shows "\<exists>N s' v. (\<forall>n\<ge>N. finsh_run_line n base f line s = Some (print_bottom v, s')) \<and> get_as (slot_width vs (last es)) v = x \<and>
    (slot_width vs (last es) = Dword \<longrightarrow> v = of_int x) \<and> vm_memory (sh_vm s') = m' \<and> ps_vars (sh_parser s') = vs \<and> prompt s'"
proof -
  obtain p N where p: "\<forall>n\<ge>N. finsh_parser_run n line (sh_parser s) = Some (nodes_of es, p)" "ps_vars p = vs"
    "tok_errno (ps_token p) = FINSH_ERROR_OK"
    using parser_line[of "sh_parser s" toks es line] assms(1,3-5) by (auto simp: prompt_def vs finsh_token_init_def)
  obtain u t where u: "finsh_compiler_run base vs (nodes_of es) FINSH_ERROR_OK (sh_vm s) = Some (FINSH_ERROR_OK, u)"
    "finsh_vm_run FINSH_TEXT_MAX f u = Done t" "get_as (slot_width vs (last es)) (finsh_stack_bottom t) = x" "vm_memory t = m'"
    using finsh_line_value[OF assms(6-9)] by blast
  let ?s = "finsh_flush (s\<lparr>sh_parser := p, sh_vm := t\<rparr>)"
  have "\<forall>n\<ge>N. finsh_run_line n base f line s = Some (print_bottom (finsh_stack_bottom t), ?s)"
    using p u(1,2) by (simp add: finsh_run_line_def)
  then show ?thesis using u(3,4) p(2) of_int_get[of "finsh_stack_bottom t"]
    by (intro exI[of _ N] exI[of _ ?s] exI[of _ "finsh_stack_bottom t"]) auto
qed

end
