(* ===== verification/FinshTotal.thy ===== *)
theory FinshTotal
  imports FinshParser
begin

text \<open>
  The parser returns: on a line whose tokens the scanner reads up to its end, every function of the parser
  has a result when its bound is a little more than twice the number of tokens that are left, and it
  consumes a token unless the line is at its end.
\<close>

section \<open>The scanner and the error number\<close>

text \<open>What the scanner reads does not depend on the error number or on the mark that a token is to be read again.\<close>

definition mark :: "finsh_error \<Rightarrow> bool \<Rightarrow> finsh_token \<Rightarrow> finsh_token" where
  "mark e b s = s\<lparr>tok_errno := e, tok_replay := b\<rparr>"

lemma mark_sel [simp]:
  "tok_eof (mark e b s) = tok_eof s" "tok_position (mark e b s) = tok_position s" "tok_line (mark e b s) = tok_line s"
  "tok_string (mark e b s) = tok_string s" "tok_value (mark e b s) = tok_value s" "current_token (mark e b s) = current_token s"
  "tok_replay (mark e b s) = b" "c_string (mark e b s) = c_string s" "mark e b (mark e' b' s) = mark e b s"
  "tok_errno (mark e b s) = e"
  by (simp_all add: mark_def c_string_def)

lemma mark_upd [simp]:
  "(mark e b s)\<lparr>tok_eof := x\<rparr> = mark e b (s\<lparr>tok_eof := x\<rparr>)" "(mark e b s)\<lparr>tok_position := i\<rparr> = mark e b (s\<lparr>tok_position := i\<rparr>)"
  "(mark e b s)\<lparr>tok_string := z\<rparr> = mark e b (s\<lparr>tok_string := z\<rparr>)" "(mark e b s)\<lparr>tok_value := v\<rparr> = mark e b (s\<lparr>tok_value := v\<rparr>)"
  "(mark e b s)\<lparr>current_token := t\<rparr> = mark e b (s\<lparr>current_token := t\<rparr>)" "finsh_error_set e' (mark e b s) = mark e' b s"
  "(mark e b s)\<lparr>tok_errno := e'\<rparr> = mark e' b s" "(mark e b s)\<lparr>tok_replay := b'\<rparr> = mark e b' s"
  "mark e b (finsh_error_set e' s) = mark e b s"
  by (simp_all add: mark_def finsh_error_set_def)

lemma next_mark [simp]: "token_next_char (mark e b s) = (fst (token_next_char s), mark e b (snd (token_next_char s)))"
  by (simp add: token_next_char_def)

lemma prev_mark [simp]: "token_prev_char (mark e b s) = mark e b (token_prev_char s)"
  by (simp add: token_prev_char_def)

lemma scan_mark [simp]: "scan p ch (mark e b s) = (fst (scan p ch s), fst (snd (scan p ch s)), mark e b (snd (snd (scan p ch s))))"
proof (induction p ch s rule: scan.induct)
  case (1 p ch s)
  then show ?case unfolding scan.simps[of p ch "mark e b s"] scan.simps[of p ch s] by (simp add: case_prod_unfold)
qed

lemma trim_mark [simp]: "token_trim_space (mark e b s) = mark e b (token_trim_space s)"
  by (simp add: token_trim_space_def case_prod_unfold Let_def)

lemma put_mark [simp]: "put_string xs (mark e b s) = map_option (mark e b) (put_string xs s)"
  by (simp add: put_string_def)

lemma get_mark [simp]: "token_get_string (mark e b s) = map_option (mark e b) (token_get_string s)"
proof -
  have "put_string [NUL] s = Some (s\<lparr>tok_string := [NUL] @ drop 1 (tok_string s)\<rparr>)" for s
    by (simp add: put_string_def FINSH_STRING_MAX_def)
  then show ?thesis by (simp add: token_get_string_def case_prod_unfold)
qed

lemma match_mark [simp]: "token_match_name str (mark e b s) = (fst (token_match_name str s), mark e b (snd (token_match_name str s)))"
  by (simp add: token_match_name_def split: option.split)

lemma set_token_mark [simp]: "set_token t (mark e b s) = mark e b (set_token t s)"
  by (simp add: set_token_def)

lemma double_mark [simp]: "double_char c t u (mark e b s) = mark e b (double_char c t u s)"
  by (simp add: double_char_def case_prod_unfold)

lemma number_mark [simp]: "token_proc_number (mark e b s) = map_option (mark e b) (token_proc_number s)"
proof -
  have n: "number_end c (mark e b s) = mark e b (number_end c s)" for c s by (simp add: number_end_def)
  have "spec_number (xs, c, mark e b s) k = map_option (mark e b) (spec_number (xs, c, s) k)" for xs c s k
    by (simp add: spec_number_def n)
  then show ?thesis by (simp add: token_proc_number_def case_prod_unfold n)
qed

text \<open>Two functions set the error number.\<close>

definition char_body :: "finsh_token \<Rightarrow> (char \<times> finsh_token) option" where
  "char_body s = (case token_next_char s of (ch, s) \<Rightarrow> if ch \<noteq> CHR 0x5C then Some (ch, s)
     else (case token_next_char s of (ch, s) \<Rightarrow>
       if ch = CHR ''n'' then Some (CHR 0x0A, s)
       else if ch = CHR ''t'' then Some (CHR 0x09, s)
       else if ch = CHR ''v'' then Some (CHR 0x0B, s)
       else if ch = CHR ''b'' then Some (CHR 0x08, s)
       else if ch = CHR ''r'' then Some (CHR 0x0D, s)
       else if ch = CHR 0x5C then Some (CHR 0x5C, s)
       else if ch = CHR 0x27 then Some (CHR 0x27, s)
       else (case scan is_digit ch s of (xs, _, s) \<Rightarrow> if length xs \<le> 3 then Some (NUL, token_prev_char s) else None)))"

lemma char_body: "token_proc_char s = char_body s \<bind> (\<lambda>(ch, s). case token_next_char s of (c, s) \<Rightarrow>
    if c \<noteq> CHR 0x27 then Some (ch, finsh_error_set FINSH_ERROR_EXPECT_CHAR (token_prev_char s)) else Some (ch, s))"
  unfolding token_proc_char_def char_body_def by (simp only: case_prod_unfold)

lemma char_body_mark: "char_body (mark e b s) = map_option (map_prod id (mark e b)) (char_body s)"
  unfolding char_body_def by (simp add: case_prod_unfold map_prod_def)

lemma proc_char_mark: "token_proc_char s = Some (c, u) \<Longrightarrow> \<exists>e'. token_proc_char (mark e b s) = Some (c, mark e' b u)"
  unfolding char_body by (cases "char_body s") (auto simp: char_body_mark case_prod_unfold split: if_splits)

lemma escape_mark [simp]: "token_proc_escape (mark e b s) = (fst (token_proc_escape s), mark e b (snd (token_proc_escape s)))"
  by (simp add: token_proc_escape_def case_prod_unfold)

lemma string_loop_mark [simp]:
  "string_loop n xs (mark e b s) = (fst (string_loop n xs s), fst (snd (string_loop n xs s)), mark e b (snd (snd (string_loop n xs s))))"
  by (induction n arbitrary: xs s) (simp_all add: case_prod_unfold)

lemma proc_string_mark: "token_proc_string s = Some u \<Longrightarrow> \<exists>e'. token_proc_string (mark e b s) = Some (mark e' b u)"
  by (auto simp: token_proc_string_def case_prod_unfold split: string_end.splits)

lemma if_mark:
  assumes "X = Some u \<longrightarrow> (\<exists>e'. X' = Some (mark e' b u))" "Y = Some u \<longrightarrow> (\<exists>e'. Y' = Some (mark e' b u))"
  shows "(if c then X else Y) = Some u \<longrightarrow> (\<exists>e'. (if c then X' else Y') = Some (mark e' b u))"
  using assms by simp

lemma char_token_mark:
  "Option.bind (token_proc_char s) (\<lambda>(c, s). f c s) = Some u \<Longrightarrow> (\<And>c s e. f c (mark e b s) = map_option (mark e b) (f c s)) \<Longrightarrow>
    \<exists>e'. Option.bind (token_proc_char (mark e b s)) (\<lambda>(c, s). f c s) = Some (mark e' b u)"
proof -
  assume a: "Option.bind (token_proc_char s) (\<lambda>(c, s). f c s) = Some u"
    and f: "\<And>c s e. f c (mark e b s) = map_option (mark e b) (f c s)"
  obtain c v where v: "token_proc_char s = Some (c, v)" "f c v = Some u" using a by (auto simp: bind_eq_Some_conv)
  obtain e' where "token_proc_char (mark e b s) = Some (c, mark e' b v)" using proc_char_mark[OF v(1)] by blast
  then show ?thesis using v(2) by (auto simp: f)
qed

lemma string_token_mark:
  "map_option f (token_proc_string s) = Some u \<Longrightarrow> (\<And>s e. f (mark e b s) = mark e b (f s)) \<Longrightarrow>
    \<exists>e'. map_option f (token_proc_string (mark e b s)) = Some (mark e' b u)"
  using proc_string_mark[of s _ e b] by (cases "token_proc_string s") auto

lemma error_mark: "mark e b (set_token t (finsh_error_set e' s)) = mark e b (set_token t s)"
  by (simp add: set_token_def mark_def finsh_error_set_def)

lemma operator_mark: "operator_token ch s = Some u \<longrightarrow> (\<exists>e'. operator_token ch (mark e b s) = Some (mark e' b u))"
  unfolding operator_token_def
  by (intro if_mark) ((rule impI, erule char_token_mark string_token_mark; simp) | (auto simp: error_mark)[1])+

lemma token_run_mark: "token_run s = Some u \<Longrightarrow> \<exists>e'. token_run (mark e b s) = Some (mark e' b u)"
proof -
  assume a: "token_run s = Some u"
  then obtain v where v: "token_get_string (token_trim_space s) = Some v" unfolding token_run_def by (rule bindE)
  have "if tok_eof v then u = set_token finsh_token_type_eof v else if c_string v \<noteq> []
      then u = (if fst (token_match_name (c_string v) v) then snd (token_match_name (c_string v) v)
        else set_token finsh_token_type_identifier (snd (token_match_name (c_string v) v)))
      else operator_token (fst (token_next_char v)) (snd (token_next_char v)) = Some u"
    using a by (auto simp: token_run_def v case_prod_unfold split: if_splits)
  then show ?thesis
    using operator_mark[of "fst (token_next_char v)" "snd (token_next_char v)" u e b] by (auto simp: token_run_def v case_prod_unfold split: if_splits)
qed

section \<open>Lines the scanner reads to the end\<close>

text \<open>
  No token is the name of a type, a string literal, or a name of sixteen characters and more. Two slashes
  are not the end of the line.
\<close>

definition begins_type :: "finsh_token_type \<Rightarrow> bool" where
  "begins_type t \<longleftrightarrow> is_base_type t \<or> t = finsh_token_type_unsigned"

definition plain_token :: "finsh_token_type \<Rightarrow> finsh_token \<Rightarrow> bool" where
  "plain_token t l \<longleftrightarrow> t \<notin> {finsh_token_type_eof, finsh_token_type_value_string} \<and> \<not> begins_type t \<and>
     length (c_string l) < FINSH_NAME_MAX"

fun scans :: "finsh_token \<Rightarrow> finsh_token_type list \<Rightarrow> bool" where
  "scans l [] \<longleftrightarrow> (case token_run l of None \<Rightarrow> False | Some u \<Rightarrow> current_token u = finsh_token_type_eof \<and> tok_eof u)"
| "scans l (t # ts) \<longleftrightarrow> (case token_run l of None \<Rightarrow> False
     | Some u \<Rightarrow> current_token u = t \<and> plain_token t u \<and> scans u ts)"

lemma plain_mark [simp]: "plain_token t (mark e b l) = plain_token t l"
  by (simp add: plain_token_def)

lemma scans_mark: "scans l ts \<Longrightarrow> scans (mark e b l) ts"
proof (induction ts arbitrary: l e b)
  case Nil
  then obtain u where u: "token_run l = Some u" "current_token u = finsh_token_type_eof" "tok_eof u" by (auto split: option.splits)
  then show ?case using token_run_mark[OF u(1), of e b] by auto
next
  case (Cons t ts)
  then obtain u where u: "token_run l = Some u" "current_token u = t" "plain_token t u" "scans u ts" by (auto split: option.splits)
  then show ?case using token_run_mark[OF u(1), of e b] Cons.IH by auto
qed

lemma scans_eof: "tok_eof l \<Longrightarrow> scans l []"
proof -
  assume l: "tok_eof l"
  have "token_next_char l = (NUL, l)" using l by (simp add: token_next_char_def)
  moreover have "token_trim_space l = l" using l calculation by (simp add: token_trim_space_def scan.simps token_prev_char_def)
  ultimately show ?thesis using l by (simp add: token_run_def token_get_string_def set_token_def)
qed

text \<open>The tokens that the parser will read from a state.\<close>

definition ahead :: "finsh_token \<Rightarrow> finsh_token_type list \<Rightarrow> bool" where
  "ahead l ts \<longleftrightarrow> (if tok_replay l
     then (case ts of [] \<Rightarrow> current_token l = finsh_token_type_eof \<and> tok_eof l
       | t # us \<Rightarrow> current_token l = t \<and> plain_token t l \<and> scans l us)
     else scans l ts)"

text \<open>At most \<open>r\<close> tokens are left, and at most one more when the last one is read again.\<close>

definition left_in :: "nat \<Rightarrow> finsh_parser \<Rightarrow> bool" where
  "left_in r s \<longleftrightarrow> (\<exists>ts. ahead (ps_token s) ts \<and> length ts \<le> r) \<and>
     (\<exists>us. ahead (ps_token (replay s)) us \<and> length us \<le> Suc r)"

text \<open>After a token was read, unless the line was at its end.\<close>

definition one_less :: "nat \<Rightarrow> finsh_parser \<Rightarrow> bool" where
  "one_less r s \<longleftrightarrow> left_in (r - 1) s \<and> left_in r (replay s)"

lemma ahead_mark: "ahead l ts \<Longrightarrow> ahead (mark e (tok_replay l) l) ts"
  by (cases ts) (auto simp: ahead_def scans_mark simp del: scans.simps split: if_splits)

lemma token_set_errno: "ps_token (set_errno e s) = mark e (tok_replay (ps_token s)) (ps_token s)"
  "ps_token (replay s) = mark (tok_errno (ps_token s)) True (ps_token s)"
  by (simp_all add: set_errno_def finsh_error_set_def mark_def replay_def finsh_token_replay_def)

lemma left_in_cong: "ps_token s' = ps_token s \<Longrightarrow> left_in r s' = left_in r s"
  by (simp add: left_in_def token_set_errno)

lemma left_in_mono: "left_in r s \<Longrightarrow> r \<le> q \<Longrightarrow> left_in q s"
  unfolding left_in_def by (meson le_trans Suc_le_mono)

lemma left_in_errno [simp]: "left_in r s \<Longrightarrow> left_in r (set_errno e s)"
proof -
  assume a: "left_in r s"
  have "ps_token (replay (set_errno e s)) = mark e True (ps_token (replay s))" by (simp add: token_set_errno)
  then show ?thesis using a ahead_mark[of "ps_token (replay s)" _ e] ahead_mark[of "ps_token s" _ e]
    unfolding left_in_def by (force simp: token_set_errno)
qed

lemma replay_replay: "ps_token (replay (replay s)) = ps_token (replay s)"
  by (simp add: token_set_errno)

lemma left_in_replay: "left_in r (replay s) = (\<exists>ts. ahead (ps_token (replay s)) ts \<and> length ts \<le> r)"
  unfolding left_in_def replay_replay using le_SucI by blast

lemma token_run_replay: "token_run l = Some u \<Longrightarrow> tok_replay u = tok_replay l"
proof -
  assume u: "token_run l = Some u"
  have m: "mark (tok_errno l) (tok_replay l) l = l" by (simp add: mark_def)
  obtain e where "token_run (mark (tok_errno l) (tok_replay l) l) = Some (mark e (tok_replay l) u)" using token_run_mark[OF u] by blast
  then have "tok_replay (mark e (tok_replay l) u) = tok_replay u" unfolding m using u by simp
  then show ?thesis by simp
qed

lemma ahead_read:
  assumes "ahead l ts"
  obtains u where "finsh_token_token l = Some (current_token u, u)" "ahead u (tl ts)" "ahead (mark (tok_errno u) True u) ts"
    "case ts of [] \<Rightarrow> current_token u = finsh_token_type_eof | t # us \<Rightarrow> current_token u = t \<and> plain_token t u"
proof (cases "tok_replay l")
  case True
  define u where "u = mark (tok_errno l) False l"
  have "l\<lparr>tok_replay := False\<rparr> = u" by (simp add: u_def mark_def)
  then have "finsh_token_token l = Some (current_token u, u)" using True by (simp add: finsh_token_token_def)
  moreover have "ahead u (tl ts) \<and> ahead (mark (tok_errno u) True u) ts \<and>
      (case ts of [] \<Rightarrow> current_token u = finsh_token_type_eof | t # us \<Rightarrow> current_token u = t \<and> plain_token t u)"
    using assms True by (cases ts) (auto simp: ahead_def u_def scans_mark scans_eof simp del: scans.simps)
  ultimately show ?thesis using that by blast
next
  case False
  then have "scans l ts" using assms by (simp add: ahead_def)
  then obtain u where u: "token_run l = Some u" "case ts of [] \<Rightarrow> current_token u = finsh_token_type_eof \<and> tok_eof u
      | t # us \<Rightarrow> current_token u = t \<and> plain_token t u \<and> scans u us" by (cases ts) (auto split: option.splits)
  have "finsh_token_token l = Some (current_token u, u)" using False u(1) by (simp add: finsh_token_token_def)
  moreover have "ahead u (tl ts) \<and> ahead (mark (tok_errno u) True u) ts"
    using u(2) token_run_replay[OF u(1)] False by (cases ts) (auto simp: ahead_def scans_mark scans_eof simp del: scans.simps)
  ultimately show ?thesis using that u(2) by (auto split: list.splits)
qed

text \<open>Reading a token.\<close>

lemma next_ok:
  assumes "left_in r s"
  obtains t s' where "next_token s = Some (t, s')" "one_less r s'" "t \<noteq> finsh_token_type_eof \<longrightarrow> 0 < r"
    "t \<noteq> finsh_token_type_value_string" "\<not> begins_type t"
    "t = finsh_token_type_identifier \<longrightarrow> current_token (ps_token s') = t \<and> length (c_string (ps_token s')) < FINSH_NAME_MAX"
proof -
  obtain ts where ts: "ahead (ps_token s) ts" "length ts \<le> r" using assms by (auto simp: left_in_def)
  obtain u where u: "finsh_token_token (ps_token s) = Some (current_token u, u)" "ahead u (tl ts)" "ahead (mark (tok_errno u) True u) ts"
    "case ts of [] \<Rightarrow> current_token u = finsh_token_type_eof | t # us \<Rightarrow> current_token u = t \<and> plain_token t u"
    by (rule ahead_read[OF ts(1)])
  let ?s = "s\<lparr>ps_token := u\<rparr>"
  have "next_token s = Some (current_token u, ?s)" using u(1) by (simp add: next_token_def)
  moreover have "left_in r (replay ?s)" unfolding left_in_replay using u(3) ts(2) by (auto simp: token_set_errno)
  moreover have "left_in (r - 1) ?s"
    unfolding left_in_def using u(2,3) ts(2) by (intro conjI exI[of _ "tl ts"] exI[of _ ts]) (auto simp: token_set_errno)
  ultimately show ?thesis using that u(4) ts(2) by (auto simp: one_less_def plain_token_def begins_type_def is_base_type_def split: list.splits)
qed

section \<open>Functions that return\<close>

text \<open>A result that has consumed a token, unless the line was at its end.\<close>

definition returns :: "nat \<Rightarrow> ('a \<times> finsh_parser) option \<Rightarrow> bool" where
  "returns r m \<longleftrightarrow> (\<exists>x s. m = Some (x, s) \<and> one_less r s)"

lemma returns_Some [simp]: "returns r (Some p) \<longleftrightarrow> one_less r (snd p)"
  by (cases p) (simp add: returns_def)

lemma returns_bind: "returns r m \<Longrightarrow> (\<And>x s. one_less r s \<Longrightarrow> returns q (f (x, s))) \<Longrightarrow> returns q (Option.bind m f)"
  by (auto simp: returns_def)

lemma returns_next:
  assumes "left_in r s"
    and "\<And>t s. one_less r s \<Longrightarrow> t \<noteq> finsh_token_type_eof \<longrightarrow> 0 < r \<Longrightarrow> t \<noteq> finsh_token_type_value_string \<Longrightarrow> \<not> begins_type t \<Longrightarrow>
      t = finsh_token_type_identifier \<longrightarrow> current_token (ps_token s) = t \<and> length (c_string (ps_token s)) < FINSH_NAME_MAX \<Longrightarrow> returns q (f (t, s))"
  shows "returns q (Option.bind (next_token s) f)"
  by (rule next_ok[OF assms(1)]) (simp add: assms(2))

lemma one_lessD: "one_less r s \<Longrightarrow> left_in (r - 1) s" "one_less r s \<Longrightarrow> left_in r (replay s)" "one_less r s \<Longrightarrow> left_in r s"
  using left_in_mono[of "r - 1" s r] by (simp_all add: one_less_def)

lemma one_less_mono: "one_less q s \<Longrightarrow> q \<le> r \<Longrightarrow> one_less r s"
  unfolding one_less_def using left_in_mono[of "q - 1" s "r - 1"] left_in_mono[of q "replay s" r] by simp

lemma one_less_cong: "ps_token s' = ps_token s \<Longrightarrow> one_less r s' = one_less r s"
  using left_in_cong[of s' s] left_in_cong[of "replay s'" "replay s"] by (simp add: one_less_def token_set_errno)

lemma one_less_errno: "one_less r s \<Longrightarrow> one_less r (set_errno e s)"
proof -
  assume a: "one_less r s"
  have "ps_token (replay (set_errno e s)) = ps_token (set_errno e (replay s))" by (simp add: token_set_errno)
  then have "left_in r (replay (set_errno e s)) = left_in r (set_errno e (replay s))" by (rule left_in_cong)
  then show ?thesis using a by (simp add: one_less_def)
qed

text \<open>Reading a token behind a phrase and putting it back, or matching it.\<close>

lemma one_less_replay: "one_less (r - 1) s \<Longrightarrow> one_less r (replay s)"
  using one_lessD[of "r - 1" s] left_in_cong[OF replay_replay] left_in_mono[of "r - 1" "replay s" r] by (auto simp: one_less_def)

lemma returns_replay:
  assumes "one_less r s"
    and "\<And>t s. one_less (r - 1) s \<Longrightarrow> t \<noteq> finsh_token_type_eof \<longrightarrow> 0 < r - 1 \<Longrightarrow> one_less r (replay s) \<Longrightarrow> returns q (f (t, s))"
  shows "returns q (Option.bind (next_token s) f)"
  by (rule returns_next[OF one_lessD(1)[OF assms(1)]]) (use assms(2) one_less_replay in blast)

lemma returns_match:
  assumes "one_less r s" "\<And>s. one_less r s \<Longrightarrow> returns q (f s)"
  shows "returns q (Option.bind (match_token t s) f)"
proof -
  obtain u s' where s': "next_token s = Some (u, s')" "one_less (r - 1) s'" by (rule next_ok[OF one_lessD(1)[OF assms(1)]])
  have "one_less r (check_token u t s')"
    using s'(2) one_less_replay[OF one_less_errno[OF s'(2)]] one_less_mono[OF s'(2), of r] by (simp add: check_token_def)
  then show ?thesis using assms(2) s'(1) by (simp add: match_token_def)
qed

lemma returns_mono: "returns q m \<Longrightarrow> q \<le> r \<Longrightarrow> returns r m"
  using one_less_mono by (auto simp: returns_def)

lemma one_less_left: "one_less (r - 1) s \<Longrightarrow> one_less r s"
  by (erule one_less_mono) simp

section \<open>Nodes\<close>

lemma allocate_token [simp]: "ps_token (snd (finsh_node_allocate nt s)) = ps_token s"
  by (simp add: finsh_node_allocate_def)

lemma one_less_new: "one_less r s \<Longrightarrow> one_less r (snd (new_node nt f s))"
  using one_less_cong[OF allocate_token[of nt s], of r]
  by (auto simp: new_node_def one_less_errno split: prod.split finsh_node.split)

lemma one_less_make: "one_less r s \<Longrightarrow> one_less r (snd (make_sys_node nt a b s))"
  using one_less_cong[OF allocate_token[of nt s], of r]
  by (auto simp: make_sys_node_def one_less_errno split: prod.split finsh_node.split)

lemma one_less_makeD: "one_less r s \<Longrightarrow> make_sys_node nt a b s = (p, s') \<Longrightarrow> one_less r s'"
  using one_less_make[of r s nt a b] by simp

lemma one_less_value:
  "one_less r s \<Longrightarrow> one_less r (snd (finsh_node_new_int v s))" "one_less r s \<Longrightarrow> one_less r (snd (finsh_node_new_long v s))"
  "one_less r s \<Longrightarrow> one_less r (snd (finsh_node_new_char c s))" "one_less r s \<Longrightarrow> one_less r (snd (finsh_node_new_ptr v s))"
  by (simp_all add: finsh_node_new_int_def finsh_node_new_long_def finsh_node_new_char_def finsh_node_new_ptr_def one_less_new)

lemma returns_new_id: "one_less r s \<Longrightarrow> length name < FINSH_NAME_MAX \<Longrightarrow> returns r (finsh_node_new_id name s)"
  by (auto simp: finsh_node_new_id_def one_less_new one_less_errno split: option.split)

section \<open>Expressions\<close>

text \<open>A function that returns on all states with at most \<open>r\<close> tokens left.\<close>

definition returning :: "nat \<Rightarrow> 'a parse \<Rightarrow> bool" where
  "returning r p \<longleftrightarrow> (\<forall>q s. q \<le> r \<longrightarrow> left_in q s \<longrightarrow> returns q (p s))"

lemma returningI: "(\<And>q s. q \<le> r \<Longrightarrow> left_in q s \<Longrightarrow> returns q (p s)) \<Longrightarrow> returning r p"
  unfolding returning_def by blast

lemma returningD: "returning r p \<Longrightarrow> left_in q s \<Longrightarrow> q \<le> r \<Longrightarrow> returns q (p s)"
  unfolding returning_def by blast

lemma returning_mono: "returning r p \<Longrightarrow> q \<le> r \<Longrightarrow> returning q p"
  unfolding returning_def by auto

text \<open>The function behind a token or a phrase.\<close>

lemma returning_behind: "returning r p \<Longrightarrow> one_less q s \<Longrightarrow> q - 1 \<le> r \<Longrightarrow> returns (q - 1) (p s)"
  using returningD one_lessD(1) by blast

lemma binary_loop_returns:
  "returning r sub \<Longrightarrow> ops finsh_token_type_eof = None \<Longrightarrow> one_less q s \<Longrightarrow> q \<le> r \<Longrightarrow> q \<le> n \<Longrightarrow> 0 < n \<Longrightarrow>
    returns q (binary_loop n sub ops node s)"
proof (induction n arbitrary: q node s)
  case (Suc n)
  have "returns q (Option.bind (sub u) (\<lambda>(new, u). let (node, u) =
      (if new = NullNode then (node, set_errno FINSH_ERROR_EXPECT_OPERATOR u) else make_sys_node nt node new u) in binary_loop n sub ops node u))"
    if "ops t = Some nt" "t \<noteq> finsh_token_type_eof \<longrightarrow> 0 < q - 1" "one_less (q - 1) u" for t nt u
  proof (rule returns_bind[OF returning_behind[OF Suc.prems(1) that(3)]])
    have q: "0 < q - 1" "t \<noteq> finsh_token_type_eof" using that(1,2) Suc.prems(2) by auto
    fix new v assume v: "one_less (q - 1 - 1) v"
    have "one_less (q - 1) w \<Longrightarrow> returns q (binary_loop n sub ops node w)" for node w
      using returns_mono[OF Suc.IH[OF Suc.prems(1,2), of "q - 1" w node], of q] Suc.prems(4,5) q by simp
    then show "returns q (case (new, v) of (new, v) \<Rightarrow> let (node, v) =
      (if new = NullNode then (node, set_errno FINSH_ERROR_EXPECT_OPERATOR v) else make_sys_node nt node new v) in binary_loop n sub ops node v)"
      using one_less_left[OF v] by (auto simp: one_less_errno case_prod_unfold one_less_make Let_def)
  qed (use Suc.prems(4) in simp)
  then show ?case using Suc.prems(2,3) by (auto intro!: returns_replay simp: Let_def split: option.split)
qed simp

lemma binary_level_returning:
  assumes "returning r sub" "ops finsh_token_type_eof = None" "r \<le> n" "0 < n"
  shows "returning r (binary_level n ops sub)"
  unfolding binary_level_def
proof (rule returningI)
  fix q s assume q: "q \<le> r" "left_in q s"
  show "returns q (Option.bind (sub s) (\<lambda>(node, s). binary_loop n sub ops node s))"
    by (rule returns_bind[OF returningD[OF assms(1) q(2,1)]]) (use binary_loop_returns[of r sub ops] assms q(1) in simp)
qed

lemma inclusive_returning: "returning r cast \<Longrightarrow> r \<le> n \<Longrightarrow> 0 < n \<Longrightarrow> returning r (proc_inclusive_or_expr n cast)"
  unfolding proc_inclusive_or_expr_def proc_exclusive_or_expr_def proc_and_expr_def proc_shift_expr_def proc_additive_expr_def
    proc_multiplicative_expr_def by (intro binary_level_returning) simp_all

text \<open>Only an identifier is looked up, by the name in the buffer of the scanner.\<close>

lemma identifier_again:
  assumes "one_less q s" "current_token (ps_token s) = finsh_token_type_identifier"
  obtains u where "match_token finsh_token_type_identifier (replay s) = Some u" "one_less q u" "ps_token u = mark (tok_errno (ps_token s)) False (ps_token s)"
proof -
  obtain t u where u: "next_token (replay s) = Some (t, u)" "one_less q u" by (rule next_ok[OF one_lessD(2)[OF assms(1)]])
  then have "t = finsh_token_type_identifier \<and> ps_token u = mark (tok_errno (ps_token s)) False (ps_token s)"
    using assms(2) by (auto simp: next_token_def finsh_token_token_def replay_def finsh_token_replay_def mark_def)
  then show ?thesis using that u by (simp add: match_token_def check_token_def)
qed

lemma returns_if: "(c \<Longrightarrow> returns q a) \<Longrightarrow> (\<not> c \<Longrightarrow> returns q b) \<Longrightarrow> returns q (if c then a else b)"
  by simp

lemma primary_returns:
  assumes "0 < q \<Longrightarrow> returning (q - 1) expr" "left_in q s"
  shows "returns q (proc_primary_expr expr s)"
  unfolding proc_primary_expr_def
proof (rule returns_next[OF assms(2)])
  fix t u
  assume u: "one_less q u" "t \<noteq> finsh_token_type_eof \<longrightarrow> 0 < q" "t \<noteq> finsh_token_type_value_string"
    and n: "t = finsh_token_type_identifier \<longrightarrow> current_token (ps_token u) = t \<and> length (c_string (ps_token u)) < FINSH_NAME_MAX"
  have "returns q (Option.bind (proc_identifier (replay u)) (\<lambda>(name, s). finsh_node_new_id name s))" if i: "t = finsh_token_type_identifier"
  proof -
    obtain v where v: "match_token finsh_token_type_identifier (replay u) = Some v" "one_less q v"
      "ps_token v = mark (tok_errno (ps_token u)) False (ps_token u)" by (rule identifier_again[OF u(1)]) (use n i in simp)
    then show ?thesis using n i by (simp add: proc_identifier_def returns_new_id)
  qed
  moreover have "returns q (Option.bind (expr u) (\<lambda>(e, s). Option.bind (match_token finsh_token_type_right_paren s) (\<lambda>s. Some (e, s))))"
    if l: "t = finsh_token_type_left_paren"
  proof (rule returns_bind[OF returning_behind[OF assms(1) u(1)]])
    show "returns q (case (e, v) of (e, s) \<Rightarrow> Option.bind (match_token finsh_token_type_right_paren s) (\<lambda>s. Some (e, s)))"
      if v: "one_less (q - 1) v" for e v
      by (auto intro!: returns_match[OF one_less_left[OF v]])
  qed (use u(2) l in simp_all)
  ultimately show "returns q (case (t, u) of (t, s) \<Rightarrow>
     (if t = finsh_token_type_identifier then Option.bind (proc_identifier (replay s)) (\<lambda>(name, s). finsh_node_new_id name s)
      else if t = finsh_token_type_left_paren then Option.bind (expr s) (\<lambda>(e, s). Option.bind (match_token finsh_token_type_right_paren s) (\<lambda>s. Some (e, s)))
      else if t = finsh_token_type_value_int then Some (finsh_node_new_int (tok_value (ps_token s)) s)
      else if t = finsh_token_type_value_long then Some (finsh_node_new_long (tok_value (ps_token s)) s)
      else if t = finsh_token_type_value_char then Some (finsh_node_new_char (ucast (tok_value (ps_token s))) s)
      else if t = finsh_token_type_value_string then None
      else if t = finsh_token_type_value_null then Some (finsh_node_new_ptr 0 s)
      else Some (NullNode, set_errno FINSH_ERROR_INVALID_TOKEN s)))"
    using u(3) one_less_value[OF u(1)] one_less_errno[OF u(1)] unfolding prod.case by (intro returns_if) simp_all
qed

lemma param_loop_returns:
  "returning r assign \<Longrightarrow> one_less q s \<Longrightarrow> q \<le> r \<Longrightarrow> q \<le> n \<Longrightarrow> 0 < n \<Longrightarrow> returns q (param_loop n assign ns s)"
proof (induction n arbitrary: q ns s)
  case (Suc n)
  have "returns q (Option.bind (assign u) (\<lambda>(a, u). if a = NullNode then param_loop n assign ns (set_errno FINSH_ERROR_EXPECT_OPERATOR u)
      else param_loop n assign (ns @ [a]) u))" if q: "0 < q - 1" and u: "one_less (q - 1) u" for u
  proof (rule returns_bind[OF returning_behind[OF Suc.prems(1) u]])
    fix a v assume v: "one_less (q - 1 - 1) v"
    have "one_less (q - 1) w \<Longrightarrow> returns q (param_loop n assign ns w)" for ns w
      using returns_mono[OF Suc.IH[OF Suc.prems(1), of "q - 1" w ns], of q] Suc.prems(3,4) q by simp
    then show "returns q (case (a, v) of (a, v) \<Rightarrow> if a = NullNode then param_loop n assign ns (set_errno FINSH_ERROR_EXPECT_OPERATOR v)
      else param_loop n assign (ns @ [a]) v)" using one_less_left[OF v] by (simp add: one_less_errno)
  qed (use Suc.prems(3) in simp)
  then show ?case using Suc.prems(2) by (auto intro!: returns_replay)
qed simp

lemma params_returns:
  assumes "returning r assign" "left_in q s" "q \<le> r" "q \<le> n" "0 < n"
  shows "returns q (proc_params n assign s)"
proof -
  have "returns q (proc_param_list n assign u)" if u: "left_in q u" for u
    unfolding proc_param_list_def
    by (rule returns_bind[OF returningD[OF assms(1) u assms(3)]]) (use param_loop_returns[OF assms(1) _ assms(3-5)] in auto)
  then have "returns q (Option.bind (proc_param_list n assign (replay u)) (\<lambda>(ps, s). Option.bind (match_token finsh_token_type_right_paren s) (\<lambda>s. Some (ps, s))))"
    if u: "one_less q u" for u
    using that by (auto intro!: returns_bind[of q] returns_match dest: one_lessD(2))
  then show ?thesis unfolding proc_params_def by (auto intro!: returns_next[OF assms(2)])
qed

lemma postfix_loop_returns:
  "(1 < q \<Longrightarrow> returning (q - 2) assign) \<Longrightarrow> one_less q s \<Longrightarrow> q \<le> n \<Longrightarrow> 0 < n \<Longrightarrow> returns q (postfix_loop n assign p s)"
proof (induction n arbitrary: q p s)
  case (Suc n)
  have again: "returns q (case make_sys_node nt p a u of (p, s) \<Rightarrow> postfix_loop n assign p s)"
    if q: "0 < q - 1" and u: "one_less (q - 1) u" for nt a u
  proof -
    have "1 < q - 1 \<Longrightarrow> returning (q - 1 - 2) assign" by (rule returning_mono[OF Suc.prems(1)]) auto
    then have "returns (q - 1) (postfix_loop n assign (fst (make_sys_node nt p a u)) (snd (make_sys_node nt p a u)))"
      using Suc.prems(3) q by (intro Suc.IH one_less_make u) simp_all
    from returns_mono[OF this, of q] show ?thesis by (simp add: case_prod_unfold)
  qed
  have "returns q (Option.bind (proc_params n assign u) (\<lambda>(ps, s). case make_sys_node FINSH_NODE_SYS_FUNC p ps s of (p, s) \<Rightarrow> postfix_loop n assign p s))"
    if q: "0 < q - 1" and u: "one_less (q - 1) u" for u
  proof (rule returns_bind[OF params_returns[OF Suc.prems(1) one_lessD(1)[OF u]]])
    show "returns q (case (ps, v) of (ps, s) \<Rightarrow> case make_sys_node FINSH_NODE_SYS_FUNC p ps s of (p, s) \<Rightarrow> postfix_loop n assign p s)"
      if v: "one_less (q - 1 - 1) v" for ps v
      using again[OF q one_less_left[OF v]] by simp
  qed (use Suc.prems(3) q in simp_all)
  then show ?case using Suc.prems(2) again by (auto intro!: returns_replay simp del: One_nat_def)
qed simp

lemma postfix_returns:
  assumes "0 < q \<Longrightarrow> returning (q - 1) assign" "left_in q s" "q \<le> n" "0 < n"
  shows "returns q (proc_postfix_expr n assign s)"
proof -
  have "1 < q \<Longrightarrow> returning (q - 2) assign" by (rule returning_mono[OF assms(1)]) auto
  then show ?thesis unfolding proc_postfix_expr_def
    using assms(3,4) by (intro returns_bind[OF primary_returns[OF assms(1,2)]]) (auto intro: postfix_loop_returns)
qed

lemma unary_returns:
  assumes "0 < q \<Longrightarrow> returning (q - 1) cast" "0 < q \<Longrightarrow> returning (q - 1) assign" "left_in q s" "q \<le> n" "0 < n"
  shows "returns q (proc_unary_expr n cast assign s)"
proof -
  have behind: "returns q (Option.bind (cast u) (\<lambda>(c, s). f c s))"
    if "0 < q" "one_less q u" "\<And>c s. one_less q s \<Longrightarrow> returns q (f c s)" for u f
    using that(3) by (intro returns_bind[OF returning_behind[OF assms(1)[OF that(1)] that(2)]]) (auto dest: one_less_left simp del: One_nat_def)
  have node: "returns q (unary_node nt cast u)" if "0 < q" "one_less q u" for nt u
    unfolding unary_node_def by (rule behind[OF that]) (simp add: one_less_make)
  have minus: "returns q (Option.bind (cast u) (\<lambda>(c, s). case finsh_node_new_long 0 s of (z, s) \<Rightarrow> Some (make_sys_node FINSH_NODE_SYS_SUB z c s)))"
    if "0 < q" "one_less q u" for u
    by (rule behind[OF that]) (simp add: case_prod_unfold one_less_make one_less_value)
  have plus: "returns q (cast u)" if "0 < q" "one_less q u" for u
    using behind[OF that, of "\<lambda>c s. Some (c, s)"] by simp
  have rest: "returns q (proc_postfix_expr n assign (replay u))" if "one_less q u" for u
    by (rule postfix_returns[OF assms(2) one_lessD(2)[OF that] assms(4,5)])
  show ?thesis unfolding proc_unary_expr_def
    by (rule returns_next[OF assms(3)], unfold prod.case, intro returns_if) (auto intro: plus node minus rest)
qed

text \<open>Without the names of types in the line a cast has no type: an error, and the token is read again.\<close>

lemma base_type_none: "\<not> begins_type t \<Longrightarrow> base_type t = None"
  by (cases t) (simp_all add: begins_type_def is_base_type_def)

lemma no_type_read:
  assumes "left_in r s"
  obtains s' where "proc_type s = Some (finsh_type_unknown, s')" "left_in r s'" "tok_errno (ps_token s') = FINSH_ERROR_UNKNOWN_TYPE"
proof -
  obtain t u where u: "next_token s = Some (t, u)" "one_less r u" "\<not> begins_type t" by (rule next_ok[OF assms])
  have "proc_type s = Some (no_type u)" using u(1,3) base_type_none[OF u(3)] by (simp add: proc_type_def begins_type_def)
  then show ?thesis using that one_lessD(2)[OF u(2)] by (simp add: no_type_def token_set_errno)
qed

lemma match_read:
  assumes "left_in r s"
  obtains s' where "match_token t s = Some s'" "left_in r s'"
proof -
  obtain x u where u: "next_token s = Some (x, u)" "one_less r u" by (rule next_ok[OF assms])
  have "ps_token (replay (set_errno e u)) = ps_token (set_errno e (replay u))" for e by (simp add: token_set_errno)
  then have "left_in r (check_token t' t u)" for t'
    using one_lessD(2,3)[OF u(2)] left_in_cong[of "replay (set_errno FINSH_ERROR_INVALID_TOKEN u)" "set_errno FINSH_ERROR_INVALID_TOKEN (replay u)" r]
    by (simp add: check_token_def)
  then show ?thesis using that u(1) by (simp add: match_token_def)
qed

lemma cast_step:
  assumes "0 < q \<Longrightarrow> returning (q - 1) (proc_cast_expr n)" "0 < q \<Longrightarrow> returning (q - 1) (proc_assign_expr n)"
    "left_in q s" "q \<le> n" "0 < n"
  shows "returns q (proc_cast_expr (Suc n) s)"
proof -
  let ?unary = "proc_unary_expr n (proc_cast_expr n) (proc_assign_expr n)"
  have "returns q (Option.bind (proc_type u) (\<lambda>(type, s). Option.bind (match_token finsh_token_type_right_paren s) (\<lambda>s.
      Option.bind (proc_cast_expr n s) (\<lambda>(c, s). case c of Node i ch sb \<Rightarrow> Some (Node (i\<lparr>data_type := finsh_type_num type\<rparr>) ch sb, s)
        | NullNode \<Rightarrow> ?unary (replay s)))))" if q: "0 < q" and u: "one_less q u" for u
  proof -
    obtain v where v: "proc_type u = Some (finsh_type_unknown, v)" "left_in (q - 1) v" by (rule no_type_read[OF one_lessD(1)[OF u]])
    obtain w where w: "match_token finsh_token_type_right_paren v = Some w" "left_in (q - 1) w" by (rule match_read[OF v(2)])
    have less: "returning (q - 1) p \<Longrightarrow> returning (q - 1 - 1) p" for p :: "finsh_node parse" by (erule returning_mono) simp
    have un: "returns q (?unary (replay x))" if x: "one_less (q - 1) x" for x
      by (rule returns_mono[OF unary_returns[OF _ _ one_lessD(2)[OF x]]])
        (use assms(4,5) assms(1,2)[OF q] less in simp_all)
    have "returns q (Option.bind (proc_cast_expr n w) (\<lambda>(c, s). case c of Node i ch sb \<Rightarrow> Some (Node (i\<lparr>data_type := finsh_type_num finsh_type_unknown\<rparr>) ch sb, s)
        | NullNode \<Rightarrow> ?unary (replay s)))"
      by (rule returns_bind[OF returningD[OF assms(1)[OF q] w(2) order_refl]])
        (auto intro: un one_less_left simp del: One_nat_def split: finsh_node.split)
    then show ?thesis using v(1) w(1) by simp
  qed
  moreover have "returns q (?unary (replay u))" if "one_less q u" for u
    by (rule unary_returns[OF assms(1,2) one_lessD(2)[OF that] assms(4,5)])
  ultimately show ?thesis unfolding proc_cast_expr.simps
    by (intro returns_next[OF assms(3)]) auto
qed

lemma assign_step:
  assumes "returning q (proc_cast_expr n)" "1 < q \<Longrightarrow> returning (q - 2) (proc_assign_expr n)" "left_in q s" "q \<le> n" "0 < n"
  shows "returns q (proc_assign_expr (Suc n) s)"
proof -
  have "returns q (Option.bind (proc_assign_expr n u) (\<lambda>(assign, s). Some (make_sys_node FINSH_NODE_SYS_ASSIGN or_node assign s)))"
    if q: "0 < q - 1" and u: "one_less (q - 1) u" for or_node u
  proof (rule returns_bind[OF returning_behind[OF assms(2) u]])
    show "returns q (case (a, v) of (a, s) \<Rightarrow> Some (make_sys_node FINSH_NODE_SYS_ASSIGN or_node a s))" if v: "one_less (q - 1 - 1) v" for a v
      using one_less_make[OF one_less_left[OF one_less_left[OF v]]] by simp
  qed (use q in simp_all)
  then have "returns q (Option.bind (next_token u) (\<lambda>(t, s). if t = finsh_token_type_assign
      then Option.bind (proc_assign_expr n s) (\<lambda>(assign, s). Some (make_sys_node FINSH_NODE_SYS_ASSIGN or_node assign s))
      else Some (or_node, replay s)))" if "one_less q u" for or_node u
    using that by (auto intro!: returns_replay)
  then show ?thesis unfolding proc_assign_expr.simps
    by (intro returns_bind[OF returningD[OF inclusive_returning[OF assms(1,4,5)] assms(3) order_refl]]) auto
qed

lemma expr_returns:
  "(2 * r + 2 \<le> n \<longrightarrow> returning r (proc_cast_expr n)) \<and> (2 * r + 3 \<le> n \<longrightarrow> returning r (proc_assign_expr n))"
proof (induction n arbitrary: r)
  case (Suc n)
  have c: "2 * q + 2 \<le> n \<Longrightarrow> returning q (proc_cast_expr n)" and a: "2 * q + 3 \<le> n \<Longrightarrow> returning q (proc_assign_expr n)" for q
    using Suc.IH by blast+
  have "returning r (proc_cast_expr (Suc n))" if "2 * r + 2 \<le> Suc n"
    by (rule returningI, rule cast_step) (use that in \<open>auto intro: c a\<close>)
  moreover have "returning r (proc_assign_expr (Suc n))" if "2 * r + 3 \<le> Suc n"
    by (rule returningI, rule assign_step) (use that in \<open>auto intro: c a\<close>)
  ultimately show ?case by blast
qed simp

section \<open>Lines\<close>

lemma expr_statement_returns:
  assumes "left_in q s" "2 * q + 3 \<le> n"
  shows "returns q (proc_expr_statement n s)"
proof -
  have "returning q (proc_assign_expr n)" using expr_returns assms(2) by blast
  then have "returns q (Option.bind (proc_assign_expr n (replay u)) (\<lambda>(e, s). Option.bind (match_token finsh_token_type_semicolon s) (\<lambda>s. Some (e, s))))"
    if "one_less q u" for u
    using one_lessD(2)[OF that] by (auto intro!: returns_bind[OF returningD] returns_match)
  then show ?thesis unfolding proc_expr_statement_def by (auto intro!: returns_next[OF assms(1)])
qed

lemma statement_returns:
  assumes "left_in q (replay s)" "\<not> begins_type t" "2 * q + 3 \<le> n"
  shows "returns q (proc_statement n t r s)"
proof -
  have more: "returns q (Option.bind (if c then map_option snd (next_token u) else Some u) (\<lambda>s. Some (f s, s)))" if u: "one_less q u" for c u f
  proof -
    obtain x v where "next_token u = Some (x, v)" "one_less (q - 1) v" by (rule next_ok[OF one_lessD(1)[OF u]])
    then show ?thesis using u one_less_left by auto
  qed
  note e = expr_statement_returns[OF assms(1,3)]
  show ?thesis using assms(2) unfolding proc_statement_def begins_type_def
    by (auto intro!: returns_bind[OF e] more)
qed

lemma statements_return:
  "left_in q (replay s) \<Longrightarrow> \<not> begins_type t \<Longrightarrow> t \<noteq> finsh_token_type_eof \<longrightarrow> 0 < q \<Longrightarrow> 2 * q + 3 \<le> n \<Longrightarrow> q < k \<Longrightarrow>
    \<exists>x s'. statement_loop k n t r s = Some (x, s')"
proof (induction k arbitrary: q t r s)
  case (Suc k)
  show ?case
  proof (cases "t = finsh_token_type_eof \<or> t = finsh_token_type_bad")
    case False
    then obtain r' u where u: "proc_statement n t r s = Some (r', u)" "one_less q u"
      using statement_returns[OF Suc.prems(1,2,4), of r] by (auto simp: returns_def)
    obtain t' v where v: "next_token u = Some (t', v)" "one_less (q - 1) v" "t' \<noteq> finsh_token_type_eof \<longrightarrow> 0 < q - 1" "\<not> begins_type t'"
      by (rule next_ok[OF one_lessD(1)[OF u(2)]])
    have "\<exists>x s'. statement_loop k n t' r' v = Some (x, s')"
      using False Suc.prems(3-5) by (intro Suc.IH[OF one_lessD(2)[OF v(2)] v(4,3)]) auto
    then show ?thesis using False u(1) v(1) by auto
  qed auto
qed simp

text \<open>The whole line; the bound counts its tokens.\<close>

lemma parser_returns:
  assumes "scans (finsh_token_init line (tok_errno (ps_token s))) ts" "2 * length ts + 3 \<le> n"
  shows "\<exists>x s'. finsh_parser_run n line s = Some (x, s')"
proof -
  let ?l = "finsh_token_init line (tok_errno (ps_token s))"
  have a: "ahead ?l ts" using assms(1) by (simp add: ahead_def finsh_token_init_def)
  show ?thesis
  proof (rule ahead_read[OF a])
    fix u
    assume u: "finsh_token_token ?l = Some (current_token u, u)" "ahead (mark (tok_errno u) True u) ts"
      and h: "case ts of [] \<Rightarrow> current_token u = finsh_token_type_eof | t # us \<Rightarrow> current_token u = t \<and> plain_token t u"
    let ?s = "s\<lparr>ps_token := u\<rparr>"
    have "left_in (length ts) (replay ?s)" unfolding left_in_replay using u(2) by (auto simp: token_set_errno)
    moreover have "\<not> begins_type (current_token u)" "current_token u \<noteq> finsh_token_type_eof \<longrightarrow> 0 < length ts"
      using h by (auto simp: plain_token_def begins_type_def is_base_type_def split: list.splits)
    ultimately have "\<exists>x s'. statement_loop n n (current_token u) ([], 0) ?s = Some (x, s')" using assms(2) by (intro statements_return) auto
    then show ?thesis using u(1) by (simp add: finsh_parser_run_def next_token_def)
  qed
qed

end
