(* ===== verification/FinshErrors.thy ===== *)
theory FinshErrors
  imports FinshShell FinshTotal
begin

text \<open>
  Errors of a line: once the error number is set no function of the scanner or the parser clears it, and an
  opening parenthesis at the start of an operand is always read as the beginning of a cast. With the bound
  of \<open>FinshTotal\<close> such a line is answered.
\<close>

section \<open>The scanner keeps an error\<close>

abbreviation faulty :: "finsh_token \<Rightarrow> bool" where "faulty s \<equiv> tok_errno s \<noteq> FINSH_ERROR_OK"

lemma token_next_errno [simp]: "tok_errno (snd (token_next_char s)) = tok_errno s"
  by (simp add: token_next_char_def)

lemma token_prev_errno [simp]: "tok_errno (token_prev_char s) = tok_errno s"
  by (simp add: token_prev_char_def)

lemma scan_errno [simp]: "tok_errno (snd (snd (scan p ch s))) = tok_errno s"
proof (induction p ch s rule: scan.induct)
  case (1 p ch s)
  then show ?case by (subst scan.simps) (simp add: case_prod_unfold)
qed

lemma trim_errno [simp]: "tok_errno (token_trim_space s) = tok_errno s"
  by (simp add: token_trim_space_def Let_def case_prod_unfold)

lemma put_string_errno: "put_string xs s = Some s' \<Longrightarrow> tok_errno s' = tok_errno s"
  by (auto simp: put_string_def split: if_splits)

lemma get_string_errno: "token_get_string s = Some s' \<Longrightarrow> tok_errno s' = tok_errno s"
  by (auto simp: token_get_string_def case_prod_unfold bind_eq_Some_conv split: if_splits dest!: put_string_errno)

lemma token_next_errnoD: "token_next_char s = (c, s') \<Longrightarrow> tok_errno s' = tok_errno s"
  using token_next_errno[of s] by simp

lemma proc_char_faulty: "token_proc_char s = Some (c, s') \<Longrightarrow> faulty s \<Longrightarrow> faulty s'"
  by (auto simp: token_proc_char_def case_prod_unfold bind_eq_Some_conv finsh_error_set_def split: if_splits dest!: token_next_errnoD)

lemma escape_errno [simp]: "tok_errno (snd (token_proc_escape s)) = tok_errno s"
  by (simp add: token_proc_escape_def case_prod_unfold)

lemma string_loop_errno [simp]: "tok_errno (snd (snd (string_loop n xs s))) = tok_errno s"
  by (induction n arbitrary: xs s) (simp_all add: case_prod_unfold)

lemma proc_string_faulty: "token_proc_string s = Some s' \<Longrightarrow> faulty s \<Longrightarrow> faulty s'"
  by (auto simp: token_proc_string_def case_prod_unfold finsh_error_set_def split: string_end.splits dest!: put_string_errno)

lemma number_end_errno [simp]: "tok_errno (number_end c s) = tok_errno s"
  by (simp add: number_end_def)

lemma spec_number_errno: "spec_number r b = Some s' \<Longrightarrow> tok_errno s' = tok_errno (snd (snd r))"
  by (auto simp: spec_number_def case_prod_unfold split: if_splits)

lemma proc_number_errno: "token_proc_number s = Some s' \<Longrightarrow> tok_errno s' = tok_errno s"
  by (auto simp: token_proc_number_def case_prod_unfold split: if_splits dest!: spec_number_errno)

lemma set_token_errno [simp]: "tok_errno (set_token t s) = tok_errno s"
  by (simp add: set_token_def)

lemma double_char_errno [simp]: "tok_errno (double_char c t u s) = tok_errno s"
  by (simp add: double_char_def case_prod_unfold)

lemma operator_faulty: "operator_token ch s = Some s' \<Longrightarrow> faulty s \<Longrightarrow> faulty s'"
  by (auto simp: operator_token_def bind_eq_Some_conv finsh_error_set_def split: if_splits
    dest!: proc_char_faulty proc_string_faulty proc_number_errno)

lemma match_name_errno [simp]: "tok_errno (snd (token_match_name str s)) = tok_errno s"
  by (simp add: token_match_name_def split: option.split)

lemma token_run_faulty: "token_run s = Some s' \<Longrightarrow> faulty s \<Longrightarrow> faulty s'"
  by (auto simp: token_run_def case_prod_unfold bind_eq_Some_conv split: if_splits dest!: get_string_errno dest: operator_faulty)

lemma token_faulty: "finsh_token_token s = Some (t, s') \<Longrightarrow> faulty s \<Longrightarrow> faulty s'"
  by (auto simp: finsh_token_token_def bind_eq_Some_conv split: if_splits dest: token_run_faulty)

section \<open>The parser keeps an error\<close>

definition failed :: "finsh_parser \<Rightarrow> bool" where
  "failed s \<longleftrightarrow> faulty (ps_token s)"

text \<open>A result, if there is one, with an error.\<close>

fun fails :: "('a \<times> finsh_parser) option \<Rightarrow> bool" where
  "fails None \<longleftrightarrow> True"
| "fails (Some (r, s)) \<longleftrightarrow> failed s"

definition sticky :: "'a parse \<Rightarrow> bool" where
  "sticky p \<longleftrightarrow> (\<forall>s. failed s \<longrightarrow> fails (p s))"

lemma stickyI: "(\<And>s. failed s \<Longrightarrow> fails (p s)) \<Longrightarrow> sticky p"
  unfolding sticky_def by blast

lemma stickyD: "sticky p \<Longrightarrow> failed s \<Longrightarrow> fails (p s)"
  unfolding sticky_def by blast

lemma fails_bind: "fails m \<Longrightarrow> (\<And>r s. failed s \<Longrightarrow> fails (f (r, s))) \<Longrightarrow> fails (Option.bind m f)"
  by (cases m) auto

lemma fails_Some [simp]: "fails (Some p) \<longleftrightarrow> failed (snd p)"
  by (cases p) simp

lemma failsD: "fails (Some (r, s)) \<Longrightarrow> failed s"
  by simp

lemma set_errno_failed [simp]: "failed (set_errno e s) \<longleftrightarrow> e \<noteq> FINSH_ERROR_OK"
  by (simp add: failed_def set_errno_def finsh_error_set_def)

lemma replay_failed [simp]: "failed (replay s) = failed s"
  by (simp add: failed_def replay_def finsh_token_replay_def)

lemma nodes_failed [simp]: "failed (s\<lparr>ps_nodes := k\<rparr>) = failed s" "failed (s\<lparr>ps_vars := vs\<rparr>) = failed s"
  by (simp_all add: failed_def)

lemma next_token_fails: "failed s \<Longrightarrow> fails (next_token s)"
  by (cases "finsh_token_token (ps_token s)") (auto simp: next_token_def failed_def dest: token_faulty)

lemma check_token_failed: "failed s \<Longrightarrow> failed (check_token t u s)"
  by (simp add: check_token_def)

lemma match_token_bind:
  assumes "failed s" "\<And>s. failed s \<Longrightarrow> fails (f s)"
  shows "fails (Option.bind (match_token t s) f)"
  using assms next_token_fails[OF assms(1)] by (cases "next_token s") (auto simp: match_token_def check_token_failed)

lemma allocate_failed: "failed s \<Longrightarrow> failed (snd (finsh_node_allocate nt s))"
  by (simp add: finsh_node_allocate_def)

lemma new_node_failed: "failed s \<Longrightarrow> failed (snd (new_node nt f s))"
  by (simp add: new_node_def finsh_node_allocate_def)

lemma make_failed: "failed s \<Longrightarrow> failed (snd (make_sys_node nt a b s))"
  by (simp add: make_sys_node_def finsh_node_allocate_def)

lemma new_id_fails: "failed s \<Longrightarrow> fails (finsh_node_new_id n s)"
  by (simp add: finsh_node_new_id_def new_node_failed split: option.split)

lemma new_value_failed:
  "failed s \<Longrightarrow> failed (snd (finsh_node_new_int v s))" "failed s \<Longrightarrow> failed (snd (finsh_node_new_long v s))"
  "failed s \<Longrightarrow> failed (snd (finsh_node_new_char c s))" "failed s \<Longrightarrow> failed (snd (finsh_node_new_ptr v s))"
  by (simp_all add: finsh_node_new_int_def finsh_node_new_long_def finsh_node_new_char_def finsh_node_new_ptr_def new_node_failed)

lemmas fails_rules = fails_bind match_token_bind next_token_fails
lemmas failed_rules = check_token_failed make_failed new_value_failed

lemma pointer_fails: "failed s \<Longrightarrow> fails (proc_pointer t s)"
  unfolding proc_pointer_def by (intro fails_rules) auto

lemma type_fails: "failed s \<Longrightarrow> fails (proc_type s)"
  unfolding proc_type_def by (intro fails_rules) (auto intro!: fails_rules pointer_fails simp: no_type_def split: option.split)

lemma identifier_fails: "failed s \<Longrightarrow> fails (proc_identifier s)"
  unfolding proc_identifier_def by (intro fails_rules) auto

section \<open>Expressions\<close>

lemma binary_loop_fails: "sticky sub \<Longrightarrow> failed s \<Longrightarrow> fails (binary_loop n sub ops node s)"
proof (induction n arbitrary: node s)
  case (Suc n)
  then show ?case by (auto intro!: fails_rules intro: stickyD simp: case_prod_unfold Let_def failed_rules split: option.split)
qed simp

lemma binary_level_sticky: "sticky sub \<Longrightarrow> sticky (binary_level n ops sub)"
  unfolding binary_level_def by (rule stickyI) (auto intro!: fails_rules binary_loop_fails intro: stickyD)

lemma inclusive_sticky: "sticky cast \<Longrightarrow> sticky (proc_inclusive_or_expr n cast)"
  unfolding proc_inclusive_or_expr_def proc_exclusive_or_expr_def proc_and_expr_def proc_shift_expr_def proc_additive_expr_def
    proc_multiplicative_expr_def by (intro binary_level_sticky)

lemma primary_fails: "sticky expr \<Longrightarrow> failed s \<Longrightarrow> fails (proc_primary_expr expr s)"
  unfolding proc_primary_expr_def by (auto intro!: fails_rules identifier_fails new_id_fails intro: stickyD simp: failed_rules)

lemma param_loop_fails: "sticky assign \<Longrightarrow> failed s \<Longrightarrow> fails (param_loop n assign ns s)"
proof (induction n arbitrary: ns s)
  case (Suc n)
  then show ?case by (auto intro!: fails_rules intro: stickyD)
qed simp

lemma params_fails: "sticky assign \<Longrightarrow> failed s \<Longrightarrow> fails (proc_params n assign s)"
  unfolding proc_params_def proc_param_list_def by (auto intro!: fails_rules param_loop_fails stickyD[where p = assign])

lemma postfix_loop_fails: "sticky assign \<Longrightarrow> failed s \<Longrightarrow> fails (postfix_loop n assign p s)"
proof (induction n arbitrary: p s)
  case (Suc n)
  then show ?case by (auto intro!: fails_rules params_fails simp: case_prod_unfold failed_rules)
qed simp

lemma postfix_sticky: "sticky assign \<Longrightarrow> sticky (proc_postfix_expr n assign)"
  unfolding proc_postfix_expr_def by (rule stickyI) (auto intro!: fails_rules primary_fails postfix_loop_fails)

lemma unary_sticky: "sticky cast \<Longrightarrow> sticky assign \<Longrightarrow> sticky (proc_unary_expr n cast assign)"
  unfolding proc_unary_expr_def unary_node_def
  by (rule stickyI) (auto intro!: fails_rules stickyD[where p = cast] stickyD[OF postfix_sticky] simp: case_prod_unfold failed_rules)

lemma expr_sticky: "sticky (proc_cast_expr n) \<and> sticky (proc_assign_expr n)"
proof (induction n)
  case (Suc n)
  have "sticky (proc_cast_expr (Suc n))"
    by (rule stickyI) (use Suc in \<open>auto intro!: fails_rules type_fails stickyD[where p = "proc_cast_expr n"] stickyD[OF unary_sticky] split: finsh_node.split\<close>)
  moreover have "sticky (proc_assign_expr (Suc n))"
    by (rule stickyI) (use Suc in \<open>auto intro!: fails_rules stickyD[where p = "proc_assign_expr n"] stickyD[OF inclusive_sticky] simp: failed_rules\<close>)
  ultimately show ?case by blast
qed (simp add: sticky_def)

lemma assign_fails: "failed s \<Longrightarrow> fails (proc_assign_expr n s)"
  using expr_sticky stickyD by blast

section \<open>Statements\<close>

lemma expr_statement_fails: "failed s \<Longrightarrow> fails (proc_expr_statement n s)"
  unfolding proc_expr_statement_def by (auto intro!: fails_rules assign_fails)

lemma declare_fails: "failed s \<Longrightarrow> fails (declare_id type s)"
  unfolding declare_id_def by (auto intro!: fails_rules identifier_fails split: option.split)

lemma init_fails: "failed s \<Longrightarrow> fails (proc_init n name s)"
  unfolding proc_init_def by (auto intro!: fails_rules assign_fails new_id_fails simp: case_prod_unfold failed_rules)

lemma fails_link: "(\<And>ns. fails (f ns)) \<Longrightarrow> fails (Option.bind (link_init m r) f)"
  by (cases "link_init m r") auto

lemma decl_loop_fails: "failed s \<Longrightarrow> fails (decl_loop n type t ns s)"
proof (induction n arbitrary: t ns s)
  case (Suc n)
  then show ?case by (cases ns) (auto intro!: fails_rules declare_fails init_fails fails_link simp: failed_rules split: option.split)
qed simp

lemma decl_fails: "failed s \<Longrightarrow> fails (proc_variable_decl n s)"
  unfolding proc_variable_decl_def
  by (auto intro!: fails_rules type_fails declare_fails init_fails fails_link decl_loop_fails split: option.split)

lemma statement_fails: "failed s \<Longrightarrow> fails (proc_statement n t r s)"
proof -
  assume s: "failed s"
  have "fails (Option.bind (if b then map_option snd (next_token u) else Some u) f)"
    if "failed u" "\<And>u. failed u \<Longrightarrow> fails (f u)" for b u and f :: "finsh_parser \<Rightarrow> ((finsh_node list \<times> nat) \<times> finsh_parser) option"
    using next_token_fails[OF that(1)] that by (cases "next_token u") auto
  then show ?thesis using s unfolding proc_statement_def by (auto intro!: fails_rules expr_statement_fails decl_fails)
qed

lemma statements_fail: "failed s \<Longrightarrow> fails (statement_loop k n t r s)"
proof (induction k arbitrary: t r s)
  case (Suc k)
  then show ?case by (auto intro!: fails_rules statement_fails)
qed simp

section \<open>Parentheses\<close>

lemma read_ahead:
  assumes "ahead (ps_token s) ts"
  obtains t s' where "next_token s = Some (t, s')" "ahead (ps_token s') (tl ts)" "ahead (ps_token (replay s')) ts" "\<not> begins_type t"
    "ts \<noteq> [] \<longrightarrow> t = hd ts"
proof (rule ahead_read[OF assms])
  fix u
  assume u: "finsh_token_token (ps_token s) = Some (current_token u, u)" "ahead u (tl ts)" "ahead (mark (tok_errno u) True u) ts"
    and h: "case ts of [] \<Rightarrow> current_token u = finsh_token_type_eof | t # us \<Rightarrow> current_token u = t \<and> plain_token t u"
  show thesis
    by (rule that[of "current_token u" "s\<lparr>ps_token := u\<rparr>"])
      (use u h in \<open>auto simp: next_token_def token_set_errno plain_token_def begins_type_def is_base_type_def split: list.splits\<close>)
qed

lemma type_missing:
  assumes "ahead (ps_token s) ts"
  shows "fails (proc_type s)"
proof -
  obtain t s1 where "next_token s = Some (t, s1)" "\<not> begins_type t" by (rule read_ahead[OF assms])
  then show ?thesis using base_type_none[of t] by (simp add: proc_type_def no_type_def begins_type_def)
qed

lemma cast_missing:
  assumes "ahead (ps_token s) (finsh_token_type_left_paren # ts)"
  shows "fails (proc_cast_expr n s)"
proof (cases n)
  case (Suc k)
  obtain t s1 where s1: "next_token s = Some (t, s1)" "ahead (ps_token s1) (tl (finsh_token_type_left_paren # ts))" "t = finsh_token_type_left_paren"
    by (rule read_ahead[OF assms]) simp
  note u = stickyD[OF unary_sticky[of "proc_cast_expr k" "proc_assign_expr k" k]]
  show ?thesis unfolding Suc using s1(1,3) type_missing[OF s1(2)] expr_sticky[of k]
    by (auto intro!: fails_rules stickyD[where p = "proc_cast_expr k"] u split: finsh_node.split)
qed simp

lemma binary_level_fails: "sticky sub \<Longrightarrow> fails (sub s) \<Longrightarrow> fails (binary_level n ops sub s)"
  unfolding binary_level_def by (auto intro!: fails_rules binary_loop_fails)

lemma inclusive_fails: "sticky cast \<Longrightarrow> fails (cast s) \<Longrightarrow> fails (proc_inclusive_or_expr n cast s)"
  unfolding proc_inclusive_or_expr_def proc_exclusive_or_expr_def proc_and_expr_def proc_shift_expr_def proc_additive_expr_def
    proc_multiplicative_expr_def by (intro binary_level_fails binary_level_sticky)

lemma assign_missing:
  assumes "ahead (ps_token s) (finsh_token_type_left_paren # ts)"
  shows "fails (proc_assign_expr n s)"
proof (cases n)
  case (Suc k)
  then show ?thesis using inclusive_fails[of "proc_cast_expr k" s k] cast_missing[OF assms, of k] expr_sticky[of k]
    by (auto intro!: fails_rules assign_fails simp: failed_rules)
qed simp

lemma statement_missing:
  assumes "ahead (ps_token s) (finsh_token_type_left_paren # ts)"
  shows "fails (proc_expr_statement n s)"
proof -
  obtain t s1 where s1: "next_token s = Some (t, s1)" "ahead (ps_token (replay s1)) (finsh_token_type_left_paren # ts)" "t = finsh_token_type_left_paren"
    by (rule read_ahead[OF assms]) simp
  show ?thesis using s1(1,3) assign_missing[OF s1(2)] by (auto intro!: fails_rules simp: proc_expr_statement_def)
qed

lemma parser_missing:
  assumes "scans (finsh_token_init line (tok_errno (ps_token s))) (finsh_token_type_left_paren # ts)"
  shows "fails (finsh_parser_run n line s)"
proof -
  let ?s = "s\<lparr>ps_token := finsh_token_init line (tok_errno (ps_token s))\<rparr>"
  have "ahead (ps_token ?s) (finsh_token_type_left_paren # ts)" using assms by (simp add: ahead_def finsh_token_init_def del: scans.simps)
  then obtain t s1 where s1: "next_token ?s = Some (t, s1)" "ahead (ps_token (replay s1)) (finsh_token_type_left_paren # ts)" "t = finsh_token_type_left_paren"
    by (rule read_ahead) simp
  have "fails (proc_statement n finsh_token_type_left_paren ([], 0) s1)"
    using statement_missing[OF s1(2), of n] by (auto intro!: fails_rules simp: proc_statement_def is_base_type_def)
  then have "fails (statement_loop n n finsh_token_type_left_paren ([], 0) s1)" by (cases n) (auto intro!: fails_rules statements_fail)
  then show ?thesis using s1(1,3) by (simp add: finsh_parser_run_def)
qed


end
