(* ===== verification/FinshNumbers.thy ===== *)
theory FinshNumbers
  imports FinshGrammar
begin

text \<open>What the scanner reads of a decimal number: the number that was printed, for every number.\<close>

section \<open>A printer\<close>

definition digits :: string where "digits = ''0123456789''"

definition digit :: "nat \<Rightarrow> char" where
  "digit d = digits ! d"

fun decimal :: "nat \<Rightarrow> string" where
  "decimal n = (if n < 10 then [digit n] else decimal (n div 10) @ [digit (n mod 10)])"

declare decimal.simps [simp del]

lemma less_ten: "(d :: nat) < 10 \<Longrightarrow> d \<in> {0, 1, 2, 3, 4, 5, 6, 7, 8, 9}"
  by auto

lemma digit_chars: "d < 10 \<Longrightarrow> digit d \<in> set digits"
  unfolding digit_def by (rule nth_mem) (simp add: digits_def)

lemma digit_value: "d < 10 \<Longrightarrow> code (digit d) - code (CHR ''0'') = of_nat d"
  using less_ten[of d] by (auto simp: digit_def digits_def code_def)

lemma digit_zero: "d < 10 \<Longrightarrow> digit d = CHR ''0'' \<longleftrightarrow> d = 0"
  using less_ten[of d] by (auto simp: digit_def digits_def)

lemma decimal_chars: "set (decimal n) \<subseteq> set digits"
proof (induction n rule: decimal.induct)
  case (1 n)
  then show ?case using digit_chars[of n] digit_chars[of "n mod 10"] by (subst decimal.simps) auto
qed

abbreviation read_digits :: "string \<Rightarrow> word32" where
  "read_digits \<equiv> foldl (\<lambda>v c. v * 10 + (code c - code (CHR ''0''))) 0"

lemma decimal_value: "read_digits (decimal n) = of_nat n"
proof (induction n rule: decimal.induct)
  case (1 n)
  have "(of_nat (n div 10) :: word32) * 10 + of_nat (n mod 10) = of_nat n"
    by (metis div_mult_mod_eq of_nat_add of_nat_mult of_nat_numeral)
  then show ?case using 1 digit_value[of n] digit_value[of "n mod 10"] by (subst decimal.simps) simp
qed

lemma decimal_first: "\<exists>c cs. decimal n = c # cs \<and> (c = CHR ''0'' \<longleftrightarrow> n = 0) \<and> (n = 0 \<longrightarrow> cs = [])"
proof (induction n rule: decimal.induct)
  case (1 n)
  show ?case
  proof (cases "n < 10")
    case True
    then show ?thesis using digit_zero by (subst decimal.simps) simp
  next
    case False
    then have "n div 10 \<noteq> 0" by (simp add: div_eq_0_iff)
    then show ?thesis using 1 False by (subst decimal.simps) auto
  qed
qed

section \<open>Reading on from a place of the line\<close>

definition at :: "finsh_token \<Rightarrow> string \<Rightarrow> bool" where
  "at s xs \<longleftrightarrow> \<not> tok_eof s \<and> drop (tok_position s) (tok_line s) = xs"

abbreviation skip :: "nat \<Rightarrow> finsh_token \<Rightarrow> finsh_token" where
  "skip k s \<equiv> s\<lparr>tok_position := tok_position s + k\<rparr>"

lemma at_next:
  assumes "at s (x # xs)" "x \<noteq> CHR 0x0A"
  shows "token_next_char s = (x, skip 1 s)" "at (skip 1 s) xs"
proof -
  have d: "drop (tok_position s) (tok_line s) = x # xs" using assms(1) by (simp add: at_def)
  then have l: "tok_position s < length (tok_line s)" by (metis drop_all leI list.distinct(1))
  then have "tok_line s ! tok_position s = x" using d by (metis Cons_nth_drop_Suc list.inject)
  then show "token_next_char s = (x, skip 1 s)" using assms l by (simp add: token_next_char_def at_def)
  show "at (skip 1 s) xs" using assms(1) d l by (simp add: at_def) (metis Cons_nth_drop_Suc list.inject)
qed

lemma at_skip: "at s (xs @ ys) \<Longrightarrow> at (skip (length xs) s) ys"
  by (simp add: at_def add.commute[of _ "length xs"] flip: drop_drop)

lemma skip_back: "\<not> tok_eof s \<Longrightarrow> token_prev_char (skip (Suc k) s) = skip k s"
  by (simp add: token_prev_char_def)

lemma scan_stop: "\<not> p c \<Longrightarrow> scan p c s = ([], c, s)"
  by (subst scan.simps) simp

lemma scan_while:
  "\<lbrakk>at s (xs @ c # rest); p ch; \<forall>x\<in>set xs. p x \<and> x \<noteq> CHR 0x0A; \<not> p c; c \<noteq> CHR 0x0A\<rbrakk> \<Longrightarrow>
    scan p ch s = (ch # xs, c, skip (Suc (length xs)) s)"
proof (induction xs arbitrary: ch s)
  case Nil
  then have "token_next_char s = (c, skip 1 s)" "\<not> tok_eof s" using at_next(1)[of s c rest] by (auto simp: at_def)
  then show ?case using Nil.prems by (subst scan.simps) (simp add: scan_stop)
next
  case (Cons x xs)
  have a: "at s (x # (xs @ c # rest))" using Cons.prems(1) by simp
  have n: "token_next_char s = (x, skip 1 s)" "at (skip 1 s) (xs @ c # rest)" using at_next[OF a] Cons.prems(3) by auto
  have "scan p x (skip 1 s) = (x # xs, c, skip (Suc (length xs)) (skip 1 s))" by (rule Cons.IH[OF n(2)]) (use Cons.prems in auto)
  then show ?case using Cons.prems n(1) by (subst scan.simps) (simp add: at_def)
qed

text \<open>The start of every token that is no name.\<close>

lemma trim_at:
  assumes "at s (x # xs)" "x \<notin> set [CHR 0x20, CHR 0x09, CHR 0x0D, CHR 0x0A]"
  shows "token_trim_space s = s"
proof -
  have "token_next_char s = (x, skip 1 s)" "\<not> tok_eof s" using at_next(1)[of s x xs] assms by (auto simp: at_def)
  then show ?thesis using assms(2) skip_back[of s 0] by (simp add: token_trim_space_def scan_stop)
qed

abbreviation no_name :: "finsh_token \<Rightarrow> finsh_token" where
  "no_name s \<equiv> s\<lparr>tok_string := NUL # drop 1 (tok_string s)\<rparr>"

lemma get_string_at:
  assumes "at s (x # xs)" "x \<noteq> CHR 0x0A" "is_digit x \<or> is_separator x"
  shows "token_get_string s = Some (no_name s)"
proof -
  have "token_next_char s = (x, skip 1 s)" "\<not> tok_eof s" using at_next(1)[of s x xs] assms by (auto simp: at_def)
  then show ?thesis using assms(3) by (auto simp: token_get_string_def put_string_def FINSH_STRING_MAX_def scan_stop token_prev_char_def)
qed

lemma token_run_at:
  assumes "at s (x # xs)" "x \<notin> set [CHR 0x20, CHR 0x09, CHR 0x0D, CHR 0x0A]" "is_digit x \<or> is_separator x"
  shows "token_run s = operator_token x (skip 1 (no_name s))"
proof -
  have "at (no_name s) (x # xs)" using assms(1) by (simp add: at_def)
  then have "token_next_char (no_name s) = (x, skip 1 (no_name s))" using at_next(1)[of "no_name s" x xs] assms(2) by auto
  moreover have "token_get_string s = Some (no_name s)" using get_string_at[OF assms(1) _ assms(3)] assms(2) by auto
  ultimately show ?thesis using assms(1) trim_at[OF assms(1,2)] by (simp add: token_run_def c_string_def at_def)
qed

section \<open>The end of a statement\<close>

lemma run_at_end:
  assumes "at s []"
  shows "token_run s = Some (set_token finsh_token_type_eof (s\<lparr>tok_eof := True, tok_position := 0\<rparr>))"
proof -
  have n: "token_next_char s = (NUL, s\<lparr>tok_eof := True, tok_position := 0\<rparr>)" using assms by (auto simp: at_def token_next_char_def)
  then have "token_trim_space s = s\<lparr>tok_eof := True, tok_position := 0\<rparr>" by (simp add: token_trim_space_def scan_stop token_prev_char_def)
  then show ?thesis by (simp add: token_run_def token_get_string_def token_next_char_def)
qed

lemma lexes_end:
  assumes "at s []" "\<not> tok_replay s"
  shows "lexes s [Tok finsh_token_type_eof]"
  using run_at_end[OF assms(1)] assms(2) by (simp add: finsh_token_token_def set_token_def)

lemma lexes_semicolon:
  assumes "at s '';''" "\<not> tok_replay s"
  shows "lexes s [Tok finsh_token_type_semicolon, Tok finsh_token_type_eof]"
proof -
  let ?t = "set_token finsh_token_type_semicolon (skip 1 (no_name s))"
  have "is_separator (CHR '';'')" by code_simp
  then have "token_run s = Some ?t" using token_run_at[OF assms(1)] by (simp add: operator_token_def)
  moreover have "at (no_name s) '';''" using assms(1) by (simp add: at_def)
  then have "at (skip 1 (no_name s)) []" using at_next(2)[of "no_name s" "CHR '';''" "[]"] by simp
  then have "lexes ?t [Tok finsh_token_type_eof]" by (intro lexes_end) (use assms(2) in \<open>simp_all add: at_def set_token_def\<close>)
  ultimately show ?thesis using assms(2) by (simp add: finsh_token_token_def set_token_def del: lexes.simps(2)) (simp add: finsh_token_token_def)
qed

section \<open>The number\<close>

lemma number_char:
  "x \<in> set digits \<Longrightarrow> is_digit x \<and> x \<notin> set [CHR 0x20, CHR 0x09, CHR 0x0D, CHR 0x0A]"
  by (auto simp: is_digit_def digits_def)

lemma operator_number:
  assumes "x \<in> set digits"
  shows "operator_token x s = token_proc_number (token_prev_char s)"
proof -
  have "x \<notin> set ''(),;&*+-/<>|='' \<union> {CHR 0x25, CHR 0x7E, CHR 0x5E, CHR 0x27, CHR 0x22}" using assms by (auto simp: digits_def)
  then show ?thesis using number_char[OF assms] by (simp add: operator_token_def)
qed

lemma proc_number_at:
  assumes s: "at s (decimal n @ '';'')" and r: "\<not> tok_replay s"
  shows "\<exists>t. token_proc_number s = Some t \<and> at t '';'' \<and> \<not> tok_replay t \<and> tok_errno t = tok_errno s \<and>
    current_token t = finsh_token_type_value_int \<and> tok_value t = of_nat n"
proof -
  obtain c cs where c: "decimal n = c # cs" "c = CHR ''0'' \<longleftrightarrow> n = 0" "n = 0 \<longrightarrow> cs = []" using decimal_first by blast
  have d: "c \<in> set digits" "\<forall>x\<in>set cs. x \<in> set digits" using decimal_chars[of n] c(1) by auto
  have a: "at s (c # cs @ '';'')" using s c(1) by simp
  have n: "token_next_char s = (c, skip 1 s)" "at (skip 1 s) (cs @ '';'')" using at_next[OF a] number_char[OF d(1)] by auto
  have e: "\<not> tok_eof s" using s by (simp add: at_def)
  show ?thesis
  proof (cases "n = 0")
    case True
    then have "at (skip 1 s) '';''" using n(2) c(3) by simp
    then have "token_next_char (skip 1 s) = (CHR '';'', skip 1 (skip 1 s))" using at_next(1)[of "skip 1 s" "CHR '';''" "[]"] by simp
    moreover have "\<not> (CHR ''0'' \<le> CHR '';'' \<and> CHR '';'' \<le> CHR ''7'')" by code_simp
    ultimately have "token_proc_number s = Some ((token_prev_char (skip 1 (skip 1 s)))\<lparr>tok_value := 0, current_token := finsh_token_type_value_int\<rparr>)"
      using True n(1) c(2) by (simp add: token_proc_number_def)
    then show ?thesis using True \<open>at (skip 1 s) '';''\<close> r e by (simp add: at_def token_prev_char_def)
  next
    case False
    have "\<not> is_digit (CHR '';'')" by code_simp
    then have sc: "scan is_digit c (skip 1 s) = (c # cs, CHR '';'', skip (Suc (length cs)) (skip 1 s))"
      using n(2) d number_char by (intro scan_while[where rest = "[]"]) auto
    have v: "read_digits (c # cs) = of_nat n" using decimal_value[of n] c(1) by simp
    have "at (skip (length cs) (skip 1 s)) '';''" using at_skip[OF n(2)] by simp
    moreover have "token_proc_number s = Some (token_prev_char ((skip (Suc (length cs)) (skip 1 s))\<lparr>tok_value := of_nat n,
        current_token := finsh_token_type_value_int\<rparr>))"
      using False n(1) c(2) sc v by (simp add: token_proc_number_def number_end_def)
    ultimately show ?thesis using r e by (simp add: at_def token_prev_char_def)
  qed
qed

text \<open>
  C33: The scanner reads back every decimal number that is printed, modulo the width of an integer, and the
  semicolon and the end of the line behind it.
\<close>

theorem finsh_decimal_roundtrip:
  "lexes (finsh_token_init (decimal n @ '';'') e) [IntTok (of_nat n), Tok finsh_token_type_semicolon, Tok finsh_token_type_eof]"
proof -
  let ?s = "finsh_token_init (decimal n @ '';'') e"
  obtain c cs where c: "decimal n = c # cs" using decimal_first by blast
  have d: "c \<in> set digits" using decimal_chars[of n] c by auto
  have a: "at ?s (c # cs @ '';'')" "\<not> tok_replay ?s" using c by (simp_all add: at_def finsh_token_init_def)
  have "token_run ?s = token_proc_number (no_name ?s)"
    using token_run_at[OF a(1)] number_char[OF d] operator_number[OF d] a(1) by (simp add: token_prev_char_def at_def)
  moreover have "at (no_name ?s) (decimal n @ '';'')" "\<not> tok_replay (no_name ?s)" using a c by (simp_all add: at_def)
  ultimately obtain t where t: "token_run ?s = Some t" "at t '';''" "\<not> tok_replay t" "tok_errno t = tok_errno ?s"
    "current_token t = finsh_token_type_value_int" "tok_value t = of_nat n"
    using proc_number_at[of "no_name ?s" n] by auto
  then show ?thesis using lexes_semicolon[OF t(2,3)] a(2) unfolding lexes.simps(2)[of ?s] by (simp add: finsh_token_token_def del: lexes.simps(2))
qed

end
