(* ===== verification/FinshWitness.thy ===== *)
theory FinshWitness
  imports FinshFaults FinshErrors FinshNumbers
begin

text \<open>The properties of the shell language on concrete lines.\<close>

definition ex_vars :: "finsh_var list" where
  "ex_vars = [\<lparr>var_name = ''a'', var_type = finsh_type_int\<rparr>, \<lparr>var_name = ''c'', var_type = finsh_type_char\<rparr>]"

definition ex_memory :: memory where
  "ex_memory p = (if 0x1000 \<le> p \<and> p < 0x10C0 then Some 0 else None)"

definition ex_vm :: finsh_vm where
  "ex_vm = \<lparr>finsh_vm_stack = replicate 64 0, finsh_sp = 0, finsh_pc = 0, text_segment = replicate 128 0, vm_memory = ex_memory\<rparr>"

text \<open>A function that returns the sum of its first argument and 1.\<close>

definition ex_call :: syscalls where
  "ex_call a args m = (if a = 0x2000 then Some (hd args + 1, m) else None)"

definition ex_fun :: finsh_syscall where
  "ex_fun = \<lparr>syscall_name = ''f'', syscall_ptr = 0x3000, syscall_func = 0x2000\<rparr>"

text \<open>\<open>a = 6 * 7; c = a + 256; a++ - f(a)\<close>.\<close>

definition ex_line :: "expr list" where
  "ex_line = [Assign (IdVar 0) (Bin Mul (Num 6) (Num 7)), Assign (IdVar 1) (Bin Add (Var (IdVar 0)) (Num 256)),
     Bin Sub (PostInc 0) (Call ex_fun [Var (IdVar 0)])]"

text \<open>Evaluation of loads and stores at given addresses.\<close>

lemma all_width: "(\<forall>i<1. P i) = P (0 :: nat)" "(\<forall>i<2. P i) = (P (0 :: nat) \<and> P 1)" "(\<forall>i<4. P i) = (P (0 :: nat) \<and> P 1 \<and> P 2 \<and> P 3)"
  by (auto simp: numeral_eq_Suc less_Suc_eq)

lemma upt_num: "[0..<1] = [0 :: nat]" "[0..<2] = [0, 1 :: nat]" "[0..<4] = [0, 1, 2, 3 :: nat]"
  by (simp_all add: upt_rec numeral_eq_Suc)

lemmas ex_eval = ld_mem_def st_mem_def store_def step_var_def all_width upt_num le_bytes_dword Let_def wrap_def
  id_width_def id_type_def id_addr_def width_at_def slot_width_def var_ptr_def value_offset_def
  ex_vars_def ex_memory_def ex_fun_def ex_call_def

section \<open>A line from its text\<close>

text \<open>The third statement of the line is \<open>a++ - f(a)\<close>.\<close>

definition ex_text :: string where
  "ex_text = ''a = 6 * 7; c = a + 256; a++ - f(a);''"

definition ex_tokens :: "token list" where
  "ex_tokens = [Name ''a'', Tok finsh_token_type_assign, IntTok 6, Tok finsh_token_type_mul, IntTok 7, Tok finsh_token_type_semicolon,
     Name ''c'', Tok finsh_token_type_assign, Name ''a'', Tok finsh_token_type_add, IntTok 256, Tok finsh_token_type_semicolon,
     Name ''a'', Tok finsh_token_type_inc, Tok finsh_token_type_sub, Name ''f'', Tok finsh_token_type_left_paren, Name ''a'',
     Tok finsh_token_type_right_paren, Tok finsh_token_type_semicolon, Tok finsh_token_type_eof]"

definition ex_symbols :: finsh_symbols where
  "ex_symbols = \<lparr>sysvar_table = [], global_sysvar_list = [], syscall_table = [ex_fun], global_syscall_list = []\<rparr>"

definition ex_shell :: finsh_shell where
  "ex_shell = \<lparr>sh_parser = \<lparr>ps_token = finsh_token_init [] FINSH_ERROR_OK, ps_nodes = 0, ps_vars = ex_vars, ps_symbols = ex_symbols\<rparr>, sh_vm = ex_vm\<rparr>"

lemma ex_lexes: "lexes (finsh_token_init ex_text FINSH_ERROR_OK) ex_tokens"
  by code_simp

lemma ex_bound:
  "bound ex_vars ex_symbols (take FINSH_NAME_MAX ''a'') = Some (IdVar 0)" "bound ex_vars ex_symbols (take FINSH_NAME_MAX ''c'') = Some (IdVar 1)"
  "bound ex_vars ex_symbols (take FINSH_NAME_MAX ''f'') = Some (IdSyscall ex_fun)"
  by (code_simp, code_simp, code_simp)

lemma phrase_climb: "\<lbrakk>l \<le> k; phrase vs sy l ts e; 1 \<le> l; k \<le> 8\<rbrakk> \<Longrightarrow> phrase vs sy k ts e"
  by (induction k rule: dec_induct) (auto intro: p_level)

lemma phrase_basic: "phrase vs sy 0 ts e \<Longrightarrow> 1 \<le> k \<Longrightarrow> k \<le> 8 \<Longrightarrow> phrase vs sy k ts e"
  by (rule phrase_climb[of 1]) (use p_unary in simp_all)

lemma phrase_bin:
  assumes "phrase vs sy 0 ts a" "level_binop (Suc l) t = Some g" "phrase vs sy 0 us b" "1 \<le> l" "l < 7" "Suc l \<le> k" "k \<le> 8"
  shows "phrase vs sy k (ts @ Tok t # us) (Bin g a b)"
proof -
  have "phrase vs sy (Suc l) (ts @ Tok t # us) (Bin g a b)"
    by (rule p_bin[OF _ assms(2)]) (use assms in \<open>auto intro: phrase_basic\<close>)
  then show ?thesis using phrase_climb[of "Suc l" k vs sy] assms by auto
qed

lemma ex_line_of: "line_of ex_vars ex_symbols ex_tokens ex_line"
proof -
  let ?p = "phrase ex_vars ex_symbols" and ?v = "\<lambda>x. Var (IdVar x)"
  note v = p_var[OF ex_bound(1)] p_var[OF ex_bound(2)]
  have "?p 8 ([IntTok 6] @ Tok finsh_token_type_mul # [IntTok 7]) (Bin Mul (Num 6) (Num 7))"
    by (rule phrase_bin[where l = 1]) (auto intro: p_num)
  then have s1: "?p 8 ([Name ''a''] @ Tok finsh_token_type_assign # [IntTok 6] @ Tok finsh_token_type_mul # [IntTok 7]) (Assign (IdVar 0) (Bin Mul (Num 6) (Num 7)))"
    by (intro p_assign phrase_basic[OF v(1)]) simp_all
  have "?p 8 ([Name ''a''] @ Tok finsh_token_type_add # [IntTok 256]) (Bin Add (?v 0) (Num 256))"
    by (rule phrase_bin[where l = 2]) (auto intro: p_num v)
  then have s2: "?p 8 ([Name ''c''] @ Tok finsh_token_type_assign # [Name ''a''] @ Tok finsh_token_type_add # [IntTok 256]) (Assign (IdVar 1) (Bin Add (?v 0) (Num 256)))"
    by (intro p_assign phrase_basic[OF v(2)]) simp_all
  have "phrases ex_vars ex_symbols [Name ''a''] [?v 0]" by (rule p_last) (rule phrase_basic[OF v(1)], simp_all)
  then have c: "?p 0 (Name ''f'' # Tok finsh_token_type_left_paren # [Name ''a''] @ [Tok finsh_token_type_right_paren]) (Call ex_fun [?v 0])"
    by (rule p_call[OF ex_bound(3)])
  have s3: "?p 8 ([Name ''a'', Tok finsh_token_type_inc] @ Tok finsh_token_type_sub # Name ''f'' # Tok finsh_token_type_left_paren # [Name ''a''] @ [Tok finsh_token_type_right_paren])
      (Bin Sub (PostInc 0) (Call ex_fun [?v 0]))"
    by (rule phrase_bin[where l = 2, OF p_postinc[OF ex_bound(1)] _ c]) simp_all
  show ?thesis using l_statement[OF s1 l_statement[OF s2 l_statement[OF s3 l_end]]] by (simp add: ex_tokens_def ex_line_def)
qed

lemma ex_line_value: "map_option fst (prog_value ex_call 0x1000 ex_vars ex_line ex_memory) = Some (-2)"
  unfolding ex_line_def by (simp add: ex_eval)

theorem finsh_run_line_value_witness:
  "\<exists>N s' v. (\<forall>n\<ge>N. finsh_run_line n 0x1000 ex_call ''a = 6 * 7; c = a + 256; a++ - f(a);'' ex_shell = Some (print_bottom v, s')) \<and>
    sint v = -2 \<and> prompt s'"
proof -
  obtain m' where v: "prog_value ex_call 0x1000 ex_vars ex_line (vm_memory (sh_vm ex_shell)) = Some (-2, m')"
    using ex_line_value by (auto simp: ex_vm_def ex_shell_def)
  have w: "\<forall>e\<in>set ex_line. well_typed ex_vars e \<and> depth_of e \<le> FINSH_STACK_MAX"
    by (simp add: ex_line_def covers_def ex_eval FINSH_STACK_MAX_def)
  have l: "length (prog_code 0x1000 ex_vars ex_line) \<le> FINSH_TEXT_MAX"
    by (simp add: ex_line_def length_codes step_ops_def ex_eval dword_def FINSH_TEXT_MAX_def)
  have s: "length (finsh_vm_stack (sh_vm ex_shell)) = FINSH_STACK_MAX" by (simp add: ex_vm_def ex_shell_def FINSH_STACK_MAX_def)
  have d: "slot_width ex_vars (last ex_line) = Dword" by (simp add: ex_line_def ex_eval)
  have p: "prompt ex_shell" "ex_vars = ps_vars (sh_parser ex_shell)" "ps_symbols (sh_parser ex_shell) = ex_symbols"
    by (simp_all add: prompt_def ex_shell_def finsh_token_init_def)
  have n: "sum_list (map nodes_in ex_line) \<le> FINSH_NODE_MAX" by (simp add: ex_line_def FINSH_NODE_MAX_def)
  have i: "line_of ex_vars (ps_symbols (sh_parser ex_shell)) ex_tokens ex_line" using ex_line_of p(3) by simp
  obtain N s' v where r: "\<forall>n\<ge>N. finsh_run_line n 0x1000 ex_call ex_text ex_shell = Some (print_bottom v, s')" "v = of_int (-2)" "prompt s'"
    using finsh_run_line_value[OF p(1,2) ex_lexes i n w l s v] unfolding d by blast
  have "sint v = -2" by (simp add: r(2))
  then show ?thesis using r(1,3) unfolding ex_text_def by blast
qed


text \<open>
  Two lines that do not do what they say: of the initialisers of a declaration only the first one stays in
  the list of statements when another statement follows, and a character given by its
  number is zero (the upper bytes printed are those of the address in the slot).
\<close>

definition ex_shell6 :: finsh_shell where
  "ex_shell6 = ex_shell\<lparr>sh_parser := (sh_parser ex_shell)\<lparr>ps_vars := ex_vars @ replicate 6 no_var\<rparr>\<rparr>"

lemma finsh_decl_drops_initialiser:
  "map_option fst (finsh_run_line 12 0x1000 ex_call ''int x = 1, y = 2; y;'' ex_shell6) = Some (Shell_value 0)"
  "map_option fst (finsh_run_line 12 0x1000 ex_call ''int x = 1; int y = 2; y;'' ex_shell6) = Some (Shell_value 2)"
  by (code_simp, code_simp)

lemma finsh_char_number_zero:
  "map_option fst (finsh_run_line 12 0x1000 ex_call [CHR ''c'', CHR ''='', CHR 0x27, CHR 0x5C, CHR ''6'', CHR ''5'', CHR 0x27, CHR '';''] ex_shell) =
    Some (Shell_value 0x1000)"
  by code_simp

theorem finsh_type_check_width_witness:
  "(\<exists>n ch. finsh_type_check ex_vars (node_of (Bin Add (Var (IdVar 1)) (Num 3)) NullNode) FINSH_NODE_VALUE FINSH_ERROR_OK =
      (Node n ch NullNode, FINSH_ERROR_OK) \<and> data_type n = FINSH_DATA_TYPE_BYTE) \<and>
   (\<exists>n ch. finsh_type_check ex_vars (node_of (Call ex_fun [Num 1]) NullNode) FINSH_NODE_VALUE FINSH_ERROR_OK =
      (Node n ch NullNode, FINSH_ERROR_OK) \<and> data_type n = FINSH_DATA_TYPE_VOID)"
proof -
  have w: "well_typed ex_vars (Bin Add (Var (IdVar 1)) (Num 3))" "well_typed ex_vars (Call ex_fun [Num 1])"
    by (simp_all add: covers_def ex_eval)
  have c: "\<not> (\<exists>f as. Bin Add (Var (IdVar 1)) (Num 3) = Call f as)" "\<exists>f as. Call ex_fun [Num 1] = Call f as" by simp_all
  have s: "slot_width ex_vars (Bin Add (Var (IdVar 1)) (Num 3)) = Byte" by (simp add: ex_eval)
  show ?thesis using finsh_type_check_width[OF w(1), of FINSH_ERROR_OK] finsh_type_check_width[OF w(2), of FINSH_ERROR_OK]
    unfolding s width_type.simps if_not_P[OF c(1)] if_P[OF c(2)] by blast
qed

theorem finsh_var_insert_lookup_witness:
  "\<exists>vs'. finsh_var_insert ''x'' finsh_type_int finsh_var_init = Some (0, vs') \<and> finsh_var_lookup ''x'' vs' = Some 0 \<and> finsh_var_lookup ''y'' vs' = None"
proof -
  let ?v = "\<lparr>var_name = ''x'', var_type = finsh_type_int\<rparr>"
  have i: "finsh_var_insert ''x'' finsh_type_int finsh_var_init = Some (0, finsh_var_init[0 := ?v])" by code_simp
  have "\<not> same_name ''y'' ''x''" "finsh_var_lookup ''y'' finsh_var_init = None" by (code_simp, code_simp)
  then show ?thesis using finsh_var_insert_lookup[OF vars_wf_init _ i] i by auto
qed

theorem finsh_syscall_prefix_witness:
  "map_option syscall_func (finsh_syscall_lookup ''list'' (finsh_syscall_append 0x3010 (''list'' @ ''_thread'') 0x2010
     (finsh_syscall_append 0x3000 ''list'' 0x2000
       \<lparr>sysvar_table = [], global_sysvar_list = [], syscall_table = [], global_syscall_list = []\<rparr>))) = Some 0x2010"
  by (rule finsh_syscall_prefix) (simp_all add: finsh_syscall_append_def)

text \<open>\<open>f(1) + 2\<close> is 2, the value of \<open>f(1)\<close>.\<close>

theorem finsh_call_left_operand_witness:
  "\<exists>s' t. finsh_compiler_run 0x1000 ex_vars (node_of (Bin Add (Call ex_fun [Num 1]) (Num 2)) NullNode) FINSH_ERROR_OK ex_vm = Some (FINSH_ERROR_OK, s') \<and>
    finsh_vm_run FINSH_TEXT_MAX ex_call s' = Done t \<and> sint (finsh_stack_bottom t) = 2"
proof -
  have w: "well_typed ex_vars (Call ex_fun [Num 1])" "well_typed ex_vars (Num 2)" by (simp_all add: covers_def ex_eval)
  have d: "depth_of (Bin Add (Call ex_fun [Num 1]) (Num 2)) \<le> FINSH_STACK_MAX" by (simp add: FINSH_STACK_MAX_def)
  have l: "length (code_of 0x1000 ex_vars (Call ex_fun [Num 1]) @ code_of 0x1000 ex_vars (Num 2)) \<le> FINSH_TEXT_MAX"
    by (simp add: dword_def length_le_bytes FINSH_TEXT_MAX_def)
  have s: "length (finsh_vm_stack ex_vm) = FINSH_STACK_MAX" by (simp add: ex_vm_def FINSH_STACK_MAX_def)
  have v: "value_of ex_call 0x1000 ex_vars (Call ex_fun [Num 1]) (vm_memory ex_vm) = Some (2, vm_memory ex_vm)"
    "value_of ex_call 0x1000 ex_vars (Num 2) (vm_memory ex_vm) = Some (2, vm_memory ex_vm)" by (simp_all add: ex_eval)
  show ?thesis using finsh_call_left_operand[OF w d l s v] by blast
qed

theorem finsh_text_overflow_witness:
  "finsh_compiler_run 0x1000 ex_vars (nodes_of (replicate 6 (PostInc 0))) FINSH_ERROR_OK ex_vm = None"
  using finsh_text_overflow[of ex_vars] by (simp add: ex_vars_def)

text \<open>
  A character that follows a number on the stack leaves the upper bytes of the number: \<open>1000000; 'a'\<close> shows
  0xF4261, not 0x61.
\<close>

lemma finsh_char_keeps_upper_bytes: "case finsh_compiler_run 0x1000 ex_vars (nodes_of [Num 1000000, Chr 97]) FINSH_ERROR_OK ex_vm of Some (_, s) \<Rightarrow>
   (case finsh_vm_run FINSH_TEXT_MAX ex_call s of Done t \<Rightarrow> finsh_stack_bottom t = 0xF4261 | _ \<Rightarrow> False) | None \<Rightarrow> False"
  by code_simp

end
