(* ===== verification/RtPrintf.thy ===== *)
theory RtPrintf
  imports Prelude "HOL-Library.Char_ord"
begin

text \<open>
  Formatted printing (\<open>rt_vsnprintf\<close> and what it calls in \<open>src/kservice.c\<close>), as configured: without
  precisions, 64-bit numbers and prefixes. The memory is a map from addresses to characters, a store
  outside it is \<open>None\<close>, as is an argument of the wrong kind or an overflow of a width. The format and the
  texts printed are not in the buffer.
\<close>

section \<open>Output\<close>

type_synonym char_memory = "word32 \<Rightarrow> char option"

record print_out =
  pr_mem :: char_memory
  pr_str :: word32

text \<open>\<open>if (str <= end) *str = c; ++ str;\<close>\<close>

definition put :: "word32 \<Rightarrow> char \<Rightarrow> print_out \<Rightarrow> print_out option" where
  "put buf_end c s =
     (if pr_str s \<le> buf_end
      then if pr_mem s (pr_str s) = None then None
        else Some \<lparr>pr_mem = (pr_mem s)(pr_str s \<mapsto> c), pr_str = pr_str s + 1\<rparr>
      else Some (s\<lparr>pr_str := pr_str s + 1\<rparr>))"

fun puts :: "word32 \<Rightarrow> string \<Rightarrow> print_out \<Rightarrow> print_out option" where
  "puts buf_end [] s = Some s"
| "puts buf_end (c # cs) s = do { s \<leftarrow> put buf_end c s; puts buf_end cs s }"

text \<open>\<open>while (size-- > 0)\<close>, with the value of \<open>size\<close> behind the loop.\<close>

definition pad :: "word32 \<Rightarrow> char \<Rightarrow> int \<Rightarrow> print_out \<Rightarrow> (int \<times> print_out) option" where
  "pad buf_end c sz s = map_option (Pair (min sz 0 - 1)) (puts buf_end (replicate (nat sz) c) s)"

section \<open>Numbers\<close>

definition ZEROPAD :: byte where "ZEROPAD = 1"
definition SIGN :: byte where "SIGN = 2"
definition PLUS :: byte where "PLUS = 4"
definition SPACE :: byte where "SPACE = 8"
definition LEFT :: byte where "LEFT = 16"
definition SPECIAL :: byte where "SPECIAL = 32"
definition LARGE :: byte where "LARGE = 64"

definition print_flag :: "byte \<Rightarrow> byte \<Rightarrow> bool" where
  "print_flag fs f \<longleftrightarrow> fs AND f \<noteq> 0"

definition small_digits :: string where "small_digits = ''0123456789abcdef''"
definition large_digits :: string where "large_digits = ''0123456789ABCDEF''"

text \<open>Every base other than ten is taken for sixteen.\<close>

definition divide :: "word32 \<Rightarrow> nat \<Rightarrow> nat \<times> word32" where
  "divide n base = (if base = 10 then (unat (n mod 10), n div 10) else (unat (n mod 16), n div 16))"

lemma divide_less: "n \<noteq> 0 \<Longrightarrow> unat (snd (divide n base)) < unat n"
  by (simp add: divide_def unat_div unat_gt_0)

text \<open>The digits as they are put into \<open>tmp\<close>, the last one first.\<close>

function tmp_digits :: "string \<Rightarrow> nat \<Rightarrow> word32 \<Rightarrow> string" where
  "tmp_digits digits base num =
     (if num = 0 then [] else digits ! fst (divide num base) # tmp_digits digits base (snd (divide num base)))"
  by pat_completeness auto
termination
  by (relation "measure (\<lambda>(digits, base, num). unat num)") (simp_all add: divide_less)

declare tmp_digits.simps [simp del]

definition get_sign :: "byte \<Rightarrow> word32 \<Rightarrow> string \<times> word32" where
  "get_sign type num =
     (if print_flag type SIGN
      then if num <s 0 then (''-'', - num)
        else if print_flag type PLUS then (''+'', num)
        else if print_flag type SPACE then ('' '', num)
        else ([], num)
      else ([], num))"

text \<open>The sign uses up a place of the field only if there is room for it in the buffer.\<close>

definition put_sign :: "word32 \<Rightarrow> string \<Rightarrow> int \<times> print_out \<Rightarrow> (int \<times> print_out) option" where
  "put_sign buf_end sign r = (case r of (sz, s) \<Rightarrow>
     if sign = [] then Some (sz, s)
     else map_option (Pair (if pr_str s \<le> buf_end then sz - 1 else sz)) (puts buf_end sign s))"

definition print_number :: "word32 \<Rightarrow> word32 \<Rightarrow> nat \<Rightarrow> int \<Rightarrow> byte \<Rightarrow> print_out \<Rightarrow> print_out option" where
  "print_number buf_end num base sz type s = do {
     digits \<leftarrow> Some (if print_flag type LARGE then large_digits else small_digits);
     type \<leftarrow> Some (if print_flag type LEFT then type AND NOT ZEROPAD else type);
     c \<leftarrow> Some (if print_flag type ZEROPAD then CHR ''0'' else CHR '' '');
     (sign, num) \<leftarrow> Some (get_sign type num);
     tmp \<leftarrow> Some (if num = 0 then ''0'' else tmp_digits digits base num);
     sz \<leftarrow> (if length tmp \<le> 16 then Some (sz - int (length tmp)) else None);
     r \<leftarrow> (if print_flag type (ZEROPAD OR LEFT) then Some (sz, s)
          else pad buf_end (CHR '' '') (if sign \<noteq> [] \<and> sz > 0 then sz - 1 else sz) s);
     (sz, s) \<leftarrow> put_sign buf_end sign r;
     (sz, s) \<leftarrow> (if print_flag type LEFT then Some (sz, s) else pad buf_end c sz s);
     s \<leftarrow> puts buf_end (rev tmp) s;
     map_option snd (pad buf_end (CHR '' '') sz s) }"

section \<open>Formats\<close>

text \<open>A variable argument; a null pointer to a text is \<open>None\<close>.\<close>

datatype va_arg = Va_word word32 | Va_text "string option"

fun next_word :: "va_arg list \<Rightarrow> (word32 \<times> va_arg list) option" where
  "next_word (Va_word w # as) = Some (w, as)"
| "next_word _ = None"

fun next_text :: "va_arg list \<Rightarrow> (string option \<times> va_arg list) option" where
  "next_text (Va_text t # as) = Some (t, as)"
| "next_text _ = None"

definition isdigit :: "char \<Rightarrow> bool" where
  "isdigit c \<longleftrightarrow> CHR ''0'' \<le> c \<and> c \<le> CHR ''9''"

text \<open>An overflow of the number is undefined.\<close>

fun skip_atoi :: "int \<Rightarrow> string \<Rightarrow> (int \<times> string) option" where
  "skip_atoi i [] = Some (i, [])"
| "skip_atoi i (c # cs) =
     (if isdigit c
      then if i * 10 + of_char c \<le> 0x7FFFFFFF then skip_atoi (i * 10 + of_char c - 48) cs else None
      else Some (i, c # cs))"

fun read_flags :: "byte \<Rightarrow> string \<Rightarrow> byte \<times> string" where
  "read_flags flags [] = (flags, [])"
| "read_flags flags (c # cs) =
     (if c = CHR ''-'' then read_flags (flags OR LEFT) cs
      else if c = CHR ''+'' then read_flags (flags OR PLUS) cs
      else if c = CHR '' '' then read_flags (flags OR SPACE) cs
      else if c = CHR ''#'' then read_flags (flags OR SPECIAL) cs
      else if c = CHR ''0'' then read_flags (flags OR ZEROPAD) cs
      else (flags, c # cs))"

definition read_width :: "byte \<Rightarrow> string \<Rightarrow> va_arg list \<Rightarrow> (int \<times> byte \<times> string \<times> va_arg list) option" where
  "read_width flags fmt as =
     (if fmt \<noteq> [] \<and> isdigit (hd fmt) then map_option (\<lambda>(w, fmt). (w, flags, fmt, as)) (skip_atoi 0 fmt)
      else if fmt \<noteq> [] \<and> hd fmt = CHR ''*'' then do {
        (w, as) \<leftarrow> next_word as;
        if \<not> w <s 0 then Some (sint w, flags, tl fmt, as)
        else if sint w = - 0x80000000 then None
        else Some (- sint w, flags OR LEFT, tl fmt, as) }
      else Some (-1, flags, fmt, as))"

fun read_qualifier :: "string \<Rightarrow> char \<times> string" where
  "read_qualifier [] = (CHR 0x00, [])"
| "read_qualifier (c # cs) = (if c = CHR ''h'' \<or> c = CHR ''l'' then (c, cs) else (CHR 0x00, c # cs))"

text \<open>What stands between the per-cent sign and the conversion: flags, width, qualifier, and the rest.\<close>

definition directive :: "string \<Rightarrow> va_arg list \<Rightarrow> (byte \<times> int \<times> char \<times> string \<times> va_arg list) option" where
  "directive fmt as = (case read_flags 0 fmt of (flags, fmt) \<Rightarrow> do {
     (width, flags, fmt, as) \<leftarrow> read_width flags fmt as;
     (qualifier, fmt) \<leftarrow> Some (read_qualifier fmt);
     Some (flags, width, qualifier, fmt, as) })"

section \<open>Conversions\<close>

text \<open>\<open>while (--field_width > 0)\<close> and \<open>while (len < field_width--)\<close>, with the width behind the loop.\<close>

definition pad_char :: "word32 \<Rightarrow> int \<Rightarrow> print_out \<Rightarrow> (int \<times> print_out) option" where
  "pad_char buf_end width s = map_option (Pair (min width 1 - 1)) (puts buf_end (replicate (nat (width - 1)) (CHR '' '')) s)"

definition pad_text :: "word32 \<Rightarrow> nat \<Rightarrow> int \<Rightarrow> print_out \<Rightarrow> (int \<times> print_out) option" where
  "pad_text buf_end len width s = map_option (Pair (min width (int len) - 1)) (puts buf_end (replicate (nat (width - int len)) (CHR '' '')) s)"

definition convert_char :: "word32 \<Rightarrow> byte \<Rightarrow> int \<Rightarrow> word32 \<Rightarrow> print_out \<Rightarrow> print_out option" where
  "convert_char buf_end flags width w s = do {
     (width, s) \<leftarrow> (if print_flag flags LEFT then Some (width, s) else pad_char buf_end width s);
     s \<leftarrow> put buf_end (char_of (uint (ucast w :: byte))) s;
     map_option snd (pad_char buf_end width s) }"

definition convert_text :: "word32 \<Rightarrow> byte \<Rightarrow> int \<Rightarrow> string option \<Rightarrow> print_out \<Rightarrow> print_out option" where
  "convert_text buf_end flags width t s = do {
     t \<leftarrow> Some (case t of None \<Rightarrow> ''(NULL)'' | Some t \<Rightarrow> t);
     (width, s) \<leftarrow> (if print_flag flags LEFT then Some (width, s) else pad_text buf_end (length t) width s);
     s \<leftarrow> puts buf_end t s;
     map_option snd (pad_text buf_end (length t) width s) }"

text \<open>The base and the flags of an integer format, and the number by its qualifier.\<close>

definition number_format :: "char \<Rightarrow> byte \<Rightarrow> (nat \<times> byte) option" where
  "number_format c flags =
     (if c = CHR ''o'' then Some (8, flags)
      else if c = CHR ''X'' then Some (16, flags OR LARGE)
      else if c = CHR ''x'' then Some (16, flags)
      else if c = CHR ''d'' \<or> c = CHR ''i'' then Some (10, flags OR SIGN)
      else if c = CHR ''u'' then Some (10, flags)
      else None)"

definition by_qualifier :: "char \<Rightarrow> byte \<Rightarrow> word32 \<Rightarrow> word32" where
  "by_qualifier qualifier flags w =
     (if qualifier = CHR ''h'' then if print_flag flags SIGN then scast (ucast w :: word16) else ucast (ucast w :: word16)
      else w)"

definition conversion :: "word32 \<Rightarrow> byte \<Rightarrow> int \<Rightarrow> char \<Rightarrow> char \<Rightarrow> va_arg list \<Rightarrow> print_out \<Rightarrow> (print_out \<times> va_arg list) option" where
  "conversion buf_end flags width qualifier c as s =
     (if c = CHR ''c'' then do { (w, as) \<leftarrow> next_word as; s \<leftarrow> convert_char buf_end flags width w s; Some (s, as) }
      else if c = CHR ''s'' then do { (t, as) \<leftarrow> next_text as; s \<leftarrow> convert_text buf_end flags width t s; Some (s, as) }
      else if c = CHR ''p'' then do {
        (w, as) \<leftarrow> next_word as;
        s \<leftarrow> (if width = -1 then print_number buf_end w 16 8 (flags OR ZEROPAD) s else print_number buf_end w 16 width flags s);
        Some (s, as) }
      else if c = CHR ''%'' then do { s \<leftarrow> put buf_end (CHR ''%'') s; Some (s, as) }
      else (case number_format c flags of
          None \<Rightarrow> do { s \<leftarrow> put buf_end (CHR ''%'') s; s \<leftarrow> put buf_end c s; Some (s, as) }
        | Some (base, flags) \<Rightarrow> do {
            (w, as) \<leftarrow> next_word as;
            s \<leftarrow> print_number buf_end (by_qualifier qualifier flags w) base width flags s;
            Some (s, as) }))"

section \<open>The loop over the format\<close>

lemma read_flags_length: "length (snd (read_flags f fmt)) \<le> length fmt"
  by (induction f fmt rule: read_flags.induct) auto

lemma skip_atoi_length: "skip_atoi i fmt = Some (w, rest) \<Longrightarrow> length rest \<le> length fmt"
  by (induction i fmt rule: skip_atoi.induct) (auto split: if_splits)

lemma read_width_length: "read_width f fmt as = Some (w, g, rest, bs) \<Longrightarrow> length rest \<le> length fmt"
  by (auto simp: read_width_def bind_eq_Some_conv split: if_splits dest: skip_atoi_length)

lemma read_qualifier_length: "length (snd (read_qualifier fmt)) \<le> length fmt"
  by (cases fmt) auto

lemma directive_length:
  assumes "directive fmt as = Some (f, w, q, rest, bs)"
  shows "length rest \<le> length fmt"
proof -
  obtain g fm where g: "read_flags 0 fmt = (g, fm)" by (cases "read_flags 0 fmt")
  then obtain v h fn where v: "read_width g fm as = Some (v, h, fn, bs)" "rest = snd (read_qualifier fn)"
    using assms by (auto simp: directive_def bind_eq_Some_conv case_prod_unfold)
  show ?thesis using read_flags_length[of 0 fmt] read_width_length[OF v(1)] read_qualifier_length[of fn] g v(2) by simp
qed

text \<open>A format that ends behind a per-cent sign prints the sign.\<close>

function vsn_loop :: "word32 \<Rightarrow> string \<Rightarrow> va_arg list \<Rightarrow> print_out \<Rightarrow> print_out option" where
  "vsn_loop buf_end [] as s = Some s"
| "vsn_loop buf_end (c # fmt) as s =
     (if c \<noteq> CHR ''%'' then (case put buf_end c s of None \<Rightarrow> None | Some s \<Rightarrow> vsn_loop buf_end fmt as s)
      else (case directive fmt as of
          None \<Rightarrow> None
        | Some (flags, width, qualifier, [], as) \<Rightarrow> put buf_end (CHR ''%'') s
        | Some (flags, width, qualifier, c # fmt, as) \<Rightarrow>
            (case conversion buf_end flags width qualifier c as s of
               None \<Rightarrow> None
             | Some (s, as) \<Rightarrow> vsn_loop buf_end fmt as s)))"
  by pat_completeness auto
termination
  by (relation "measure (\<lambda>(buf_end, fmt, as, s). length fmt)") (auto dest: directive_length)

definition rt_vsnprintf :: "word32 \<Rightarrow> word32 \<Rightarrow> string \<Rightarrow> va_arg list \<Rightarrow> char_memory \<Rightarrow> (word32 \<times> char_memory) option" where
  "rt_vsnprintf buf sz fmt as m = do {
     buf_end \<leftarrow> Some (if buf + sz - 1 < buf then - 1 else buf + sz - 1);
     s \<leftarrow> vsn_loop buf_end fmt as \<lparr>pr_mem = m, pr_str = buf\<rparr>;
     a \<leftarrow> Some (if pr_str s \<le> buf_end then pr_str s else buf_end);
     if pr_mem s a = None then None else Some (pr_str s - buf, (pr_mem s)(a \<mapsto> CHR 0x00)) }"

definition rt_snprintf :: "word32 \<Rightarrow> word32 \<Rightarrow> string \<Rightarrow> va_arg list \<Rightarrow> char_memory \<Rightarrow> (word32 \<times> char_memory) option" where
  "rt_snprintf buf sz fmt as m = rt_vsnprintf buf sz fmt as m"

definition rt_vsprintf :: "word32 \<Rightarrow> string \<Rightarrow> va_arg list \<Rightarrow> char_memory \<Rightarrow> (word32 \<times> char_memory) option" where
  "rt_vsprintf buf fmt as m = rt_vsnprintf buf (- 1) fmt as m"

definition rt_sprintf :: "word32 \<Rightarrow> string \<Rightarrow> va_arg list \<Rightarrow> char_memory \<Rightarrow> (word32 \<times> char_memory) option" where
  "rt_sprintf buf fmt as m = rt_vsprintf buf fmt as m"

end
