(* ===== verification/RtPrintfSpec.thy ===== *)
theory RtPrintfSpec
  imports RtPrintf
begin

text \<open>
  Formatted printing into a buffer: the text of each directive, as the code splits the format, and the
  printing as that text cut to the buffer. The returned length is that of the text where it fits. What a
  format means, without the code, is in \<open>RtPrintfText\<close>.
\<close>

section \<open>The text of a format\<close>

text \<open>Digits in a base, and a number in a field.\<close>

fun numeral_text :: "string \<Rightarrow> nat \<Rightarrow> nat \<Rightarrow> string" where
  "numeral_text digits base n = (if n < base \<or> base < 2 then [digits ! n]
     else numeral_text digits base (n div base) @ [digits ! (n mod base)])"

declare numeral_text.simps [simp del]

definition sign_text :: "byte \<Rightarrow> int \<Rightarrow> string" where
  "sign_text flags v = (if \<not> print_flag flags SIGN then [] else if v < 0 then ''-'' else if print_flag flags PLUS then ''+''
     else if print_flag flags SPACE then '' '' else [])"

definition field_text :: "byte \<Rightarrow> int \<Rightarrow> string \<Rightarrow> string \<Rightarrow> string" where
  "field_text flags width sign digits = (let room = nat (width - int (length sign + length digits)) in
     if print_flag flags LEFT then sign @ digits @ replicate room (CHR '' '')
     else if print_flag flags ZEROPAD then sign @ replicate room (CHR ''0'') @ digits
     else replicate room (CHR '' '') @ sign @ digits)"

definition number_text :: "word32 \<Rightarrow> nat \<Rightarrow> int \<Rightarrow> byte \<Rightarrow> string" where
  "number_text num base width flags = (let v = (if print_flag flags SIGN then sint num else uint num) in
     field_text flags width (sign_text flags v)
       (numeral_text (if print_flag flags LARGE then large_digits else small_digits) base (nat \<bar>v\<bar>)))"

definition plain_text :: "byte \<Rightarrow> int \<Rightarrow> string \<Rightarrow> string" where
  "plain_text flags width t = (let room = nat (width - int (length t)) in
     if print_flag flags LEFT then t @ replicate room (CHR '' '') else replicate room (CHR '' '') @ t)"

text \<open>Octal numbers have no text: the code prints them to the base sixteen.\<close>

definition conversion_text :: "byte \<Rightarrow> int \<Rightarrow> char \<Rightarrow> char \<Rightarrow> va_arg list \<Rightarrow> (string \<times> va_arg list) option" where
  "conversion_text flags width qualifier c as =
     (if c = CHR ''c'' then map_option (\<lambda>(w, as). (plain_text flags width [char_of (uint (ucast w :: byte))], as)) (next_word as)
      else if c = CHR ''s'' then map_option (\<lambda>(t, as). (plain_text flags width (case t of None \<Rightarrow> ''(NULL)'' | Some t \<Rightarrow> t), as)) (next_text as)
      else if c = CHR ''p'' then map_option (\<lambda>(w, as). (if width = -1 then number_text w 16 8 (flags OR ZEROPAD) else number_text w 16 width flags, as)) (next_word as)
      else if c = CHR ''%'' then Some (''%'', as)
      else if c = CHR ''o'' then None
      else (case number_format c flags of None \<Rightarrow> Some ([CHR ''%'', c], as)
        | Some (base, flags) \<Rightarrow> map_option (\<lambda>(w, as). (number_text (by_qualifier qualifier flags w) base width flags, as)) (next_word as)))"

function parsed_text :: "string \<Rightarrow> va_arg list \<Rightarrow> string option" where
  "parsed_text [] as = Some []"
| "parsed_text (c # fmt) as =
     (if c \<noteq> CHR ''%'' then map_option (Cons c) (parsed_text fmt as)
      else (case directive fmt as of
          None \<Rightarrow> None
        | Some (flags, width, qualifier, [], as) \<Rightarrow> Some ''%''
        | Some (flags, width, qualifier, c # fmt, as) \<Rightarrow>
            (case conversion_text flags width qualifier c as of
               None \<Rightarrow> None
             | Some (t, as) \<Rightarrow> map_option ((@) t) (parsed_text fmt as))))"
  by pat_completeness auto
termination
  by (relation "measure (\<lambda>(fmt, as). length fmt)") (auto dest: directive_length)

section \<open>Writing a text that may be cut\<close>

definition overlay :: "word32 \<Rightarrow> nat \<Rightarrow> string \<Rightarrow> char_memory \<Rightarrow> char_memory" where
  "overlay buf_end p t m = (\<lambda>a. if p \<le> unat a \<and> unat a < p + length t \<and> a \<le> buf_end then Some (t ! (unat a - p)) else m a)"

text \<open>The text is written up to the end, and at most \<open>x\<close> more places are counted, if it is cut.\<close>

definition wrote :: "word32 \<Rightarrow> string \<Rightarrow> nat \<Rightarrow> print_out \<Rightarrow> print_out \<Rightarrow> bool" where
  "wrote buf_end t x s s' \<longleftrightarrow> (\<exists>k\<le>x. pr_mem s' = overlay buf_end (unat (pr_str s)) t (pr_mem s) \<and>
     unat (pr_str s') = unat (pr_str s) + length t + k \<and> (k = 0 \<or> unat buf_end < unat (pr_str s) + length t))"

definition roomy :: "word32 \<Rightarrow> print_out \<Rightarrow> nat \<Rightarrow> bool" where
  "roomy buf_end s n \<longleftrightarrow> (\<forall>a. pr_str s \<le> a \<longrightarrow> a \<le> buf_end \<longrightarrow> pr_mem s a \<noteq> None) \<and> unat (pr_str s) + n < 2 ^ 32"

lemma roomy_less: "roomy buf_end s n \<Longrightarrow> k \<le> n \<Longrightarrow> roomy buf_end s k"
  by (auto simp: roomy_def)

lemma wrote_more: "wrote buf_end t x s s' \<Longrightarrow> x \<le> y \<Longrightarrow> wrote buf_end t y s s'"
  unfolding wrote_def by fastforce

lemma wrote_nil [simp]: "wrote buf_end [] 0 s s"
  by (auto simp: wrote_def overlay_def fun_eq_iff)

lemma overlay_overlay:
  assumes "k = 0 \<or> unat buf_end < p + length t"
  shows "overlay buf_end (p + length t + k) u (overlay buf_end p t m) = overlay buf_end p (t @ u) m"
proof
  fix a
  have k: "a \<le> buf_end \<Longrightarrow> k = 0 \<or> unat a < p + length t" using assms by (auto simp: word_le_nat_alt)
  show "overlay buf_end (p + length t + k) u (overlay buf_end p t m) a = overlay buf_end p (t @ u) m a"
  proof (cases "unat a < p + length t")
    case True
    then show ?thesis by (cases "p \<le> unat a") (auto simp: overlay_def nth_append)
  next
    case False
    note F = False
    show ?thesis
    proof (cases "a \<le> buf_end")
      case True
      then have "k = 0" using k False by blast
      then show ?thesis using F True by (auto simp: overlay_def nth_append)
    next
      case False
      then show ?thesis by (simp add: overlay_def)
    qed
  qed
qed

lemma wrote_trans:
  assumes "wrote buf_end t x s s'" "wrote buf_end u y s' s''"
  shows "wrote buf_end (t @ u) (x + y) s s''"
proof -
  obtain k where k: "k \<le> x" "pr_mem s' = overlay buf_end (unat (pr_str s)) t (pr_mem s)"
    "unat (pr_str s') = unat (pr_str s) + length t + k" "k = 0 \<or> unat buf_end < unat (pr_str s) + length t"
    using assms(1) by (auto simp: wrote_def)
  obtain j where j: "j \<le> y" "pr_mem s'' = overlay buf_end (unat (pr_str s')) u (pr_mem s')"
    "unat (pr_str s'') = unat (pr_str s') + length u + j" "j = 0 \<or> unat buf_end < unat (pr_str s') + length u"
    using assms(2) by (auto simp: wrote_def)
  have "pr_mem s'' = overlay buf_end (unat (pr_str s)) (t @ u) (pr_mem s)" unfolding j(2) k(2,3) by (rule overlay_overlay[OF k(4)])
  then show ?thesis unfolding wrote_def using k j by (intro exI[of _ "k + j"]) auto
qed

lemma wrote_roomy:
  assumes "wrote buf_end t x s s'" "roomy buf_end s (length t + x + n)"
  shows "roomy buf_end s' n"
proof -
  have "pr_str s \<le> pr_str s'" using assms(1) by (auto simp: wrote_def word_le_nat_alt)
  then show ?thesis using assms by (auto simp: wrote_def roomy_def overlay_def)
qed

lemma put_wrote:
  assumes "roomy buf_end s 1"
  shows "\<exists>s'. put buf_end c s = Some s' \<and> wrote buf_end [c] 0 s s'"
proof -
  have u: "unat (pr_str s + 1) = unat (pr_str s) + 1" using assms by (simp add: roomy_def unat_word_ariths)
  show ?thesis
  proof (cases "pr_str s \<le> buf_end")
    case True
    then have "pr_mem s (pr_str s) \<noteq> None" using assms by (simp add: roomy_def)
    moreover have "(pr_mem s)(pr_str s \<mapsto> c) = overlay buf_end (unat (pr_str s)) [c] (pr_mem s)"
      using True by (auto simp: overlay_def fun_eq_iff word_unat_eq_iff word_le_nat_alt)
    ultimately show ?thesis using True u by (simp add: put_def wrote_def)
  next
    case False
    then have "pr_mem s = overlay buf_end (unat (pr_str s)) [c] (pr_mem s)"
      by (auto simp: overlay_def fun_eq_iff word_le_nat_alt)
    then show ?thesis using False u by (simp add: put_def wrote_def)
  qed
qed

lemma puts_wrote: "roomy buf_end s (length t) \<Longrightarrow> \<exists>s'. puts buf_end t s = Some s' \<and> wrote buf_end t 0 s s'"
proof (induction t arbitrary: s)
  case (Cons c t)
  obtain s1 where s1: "put buf_end c s = Some s1" "wrote buf_end [c] 0 s s1" using put_wrote[of "buf_end" s c] roomy_less[OF Cons.prems, of 1] by auto
  have "roomy buf_end s1 (length t)" by (rule wrote_roomy[OF s1(2)]) (use Cons.prems in simp)
  then obtain s2 where s2: "puts buf_end t s1 = Some s2" "wrote buf_end t 0 s1 s2" using Cons.IH by blast
  then show ?case using s1 wrote_trans[OF s1(2) s2(2)] by simp
qed simp

text \<open>Behind the end only the number of places counts.\<close>

lemma wrote_behind:
  assumes "wrote buf_end t 0 s s'" "unat buf_end < unat (pr_str s)" "length u \<le> length t" "length t \<le> length u + x"
  shows "wrote buf_end u x s s'"
proof -
  have "overlay buf_end (unat (pr_str s)) v (pr_mem s) = pr_mem s" for v
    using assms(2) by (auto simp: overlay_def fun_eq_iff word_le_nat_alt)
  then show ?thesis using assms unfolding wrote_def by (intro exI[of _ "length t - length u"]) auto
qed

section \<open>Flags, signs and digits\<close>

lemma flag_bits:
  "print_flag f ZEROPAD = bit f 0" "print_flag f SIGN = bit f 1" "print_flag f PLUS = bit f 2" "print_flag f SPACE = bit f 3"
  "print_flag f LEFT = bit f 4" "print_flag f LARGE = bit f 6"
proof -
  have b: "f AND 2 ^ n \<noteq> 0 \<longleftrightarrow> bit f n" for n by (simp add: and_exp_eq_0_iff_not_bit)
  show "print_flag f ZEROPAD = bit f 0" "print_flag f SIGN = bit f 1" "print_flag f PLUS = bit f 2" "print_flag f SPACE = bit f 3"
    "print_flag f LEFT = bit f 4" "print_flag f LARGE = bit f 6"
    using b[of 0] b[of 1] b[of 2] b[of 3] b[of 4] b[of 6]
    by (simp_all add: print_flag_def ZEROPAD_def SIGN_def PLUS_def SPACE_def LEFT_def LARGE_def)
qed

lemma flag_either: "print_flag f (ZEROPAD OR LEFT) \<longleftrightarrow> print_flag f ZEROPAD \<or> print_flag f LEFT"
  by (simp add: print_flag_def bit.conj_disj_distrib or_eq_0_iff)

lemma flag_without:
  "print_flag (f AND NOT ZEROPAD) ZEROPAD \<longleftrightarrow> False" "print_flag (f AND NOT ZEROPAD) SIGN = print_flag f SIGN"
  "print_flag (f AND NOT ZEROPAD) PLUS = print_flag f PLUS" "print_flag (f AND NOT ZEROPAD) SPACE = print_flag f SPACE"
  "print_flag (f AND NOT ZEROPAD) LEFT = print_flag f LEFT"
  unfolding flag_bits by (simp_all add: bit_and_iff bit_not_iff ZEROPAD_def bit_1_iff)

lemma get_sign_text:
  assumes "v = (if print_flag flags SIGN then sint num else uint num)"
  shows "get_sign flags num = (sign_text flags v, of_int \<bar>v\<bar>)" "unat (of_int \<bar>v\<bar> :: word32) = nat \<bar>v\<bar>"
proof -
  have b: "- 2147483648 \<le> sint num" "sint num < 2147483648" "0 \<le> uint num" "uint num < 4294967296"
    using sint_ge[of num] sint_lt[of num] uint_lt2p[of num] by simp_all
  then have u: "uint (word_of_int \<bar>v\<bar> :: word32) = \<bar>v\<bar>" using assms by (auto simp: uint_word_of_int)
  then show "unat (of_int \<bar>v\<bar> :: word32) = nat \<bar>v\<bar>" by (metis nat_uint_eq)
  show "get_sign flags num = (sign_text flags v, of_int \<bar>v\<bar>)"
    using assms by (auto simp: get_sign_def sign_text_def word_sless_alt)
qed

lemma numeral_length: "\<lbrakk>n < base ^ k; 0 < k; 2 \<le> base\<rbrakk> \<Longrightarrow> length (numeral_text digits base n) \<le> k"
proof (induction k arbitrary: n)
  case (Suc k)
  show ?case
  proof (cases "n < base")
    case False
    then have "0 < k" using Suc.prems(1) by (cases k) auto
    moreover have "n div base < base ^ k" using Suc.prems(1,3) by (simp add: less_mult_imp_div_less mult.commute)
    ultimately show ?thesis using Suc.IH[of "n div base"] Suc.prems(3) False by (subst numeral_text.simps) simp
  qed (subst numeral_text.simps, simp)
qed simp

lemma numeral_pos: "numeral_text digits base n \<noteq> []"
  by (subst numeral_text.simps) simp

lemma divide_unat: "base = 10 \<or> base = 16 \<Longrightarrow> fst (divide n base) = unat n mod base \<and> unat (snd (divide n base)) = unat n div base"
  by (auto simp: divide_def unat_mod unat_div)

lemma tmp_text: "\<lbrakk>num \<noteq> 0; base = 10 \<or> base = 16\<rbrakk> \<Longrightarrow> rev (tmp_digits digits base num) = numeral_text digits base (unat num)"
proof (induction digits base num rule: tmp_digits.induct)
  case (1 digits base num)
  have d: "fst (divide num base) = unat num mod base" "unat (snd (divide num base)) = unat num div base"
    using divide_unat[OF 1(3)] by simp_all
  have b: "2 \<le> base" using 1(3) by auto
  show ?case
  proof (cases "snd (divide num base) = 0")
    case True
    then have l: "unat num < base" using d b by (simp add: div_eq_0_iff)
    have "tmp_digits digits base num = [digits ! (unat num mod base)]"
      using 1(2) True d by (subst tmp_digits.simps) (simp add: tmp_digits.simps)
    then show ?thesis using l by (subst numeral_text.simps) simp
  next
    case False
    then have "\<not> unat num < base" using d by (auto simp: unat_eq_0 dest: div_less)
    then show ?thesis using 1 False d b by (subst tmp_digits.simps, subst numeral_text.simps) simp
  qed
qed

lemma tmp_length:
  assumes "num \<noteq> 0" "base = 10 \<or> base = 16"
  shows "length (tmp_digits digits base num) \<le> 10"
proof -
  have "unat num < 2 ^ 32" by (rule order.strict_trans2[OF unsigned_less]) simp
  then have "unat num < base ^ 10" using assms(2) by auto
  then have "length (numeral_text digits base (unat num)) \<le> 10" by (rule numeral_length) (use assms(2) in auto)
  then show ?thesis by (simp flip: tmp_text[OF assms])
qed

section \<open>Numbers\<close>

lemma pad_wrote: "roomy buf_end s (nat n) \<Longrightarrow> \<exists>s'. pad buf_end c n s = Some (min n 0 - 1, s') \<and> wrote buf_end (replicate (nat n) c) 0 s s'"
  using puts_wrote[of "buf_end" s "replicate (nat n) c"] by (auto simp: pad_def)

lemma pad_none: "n < 0 \<Longrightarrow> pad buf_end c n s = Some (n - 1, s)"
  by (simp add: pad_def)

lemma put_sign_wrote:
  assumes "roomy buf_end s (length sign)" "length sign \<le> 1"
  shows "\<exists>s' k. put_sign buf_end sign (n, s) = Some (n - int (length sign) + int k, s') \<and> wrote buf_end sign 0 s s' \<and>
    k \<le> length sign \<and> (k = 0 \<or> unat buf_end < unat (pr_str s))"
proof (cases "sign = []")
  case False
  then have l: "length sign = 1" using assms(2) by (cases sign) auto
  obtain s' where s': "puts buf_end sign s = Some s'" "wrote buf_end sign 0 s s'" using puts_wrote[OF assms(1)] by blast
  show ?thesis
  proof (cases "pr_str s \<le> buf_end")
    case True
    then show ?thesis using False l s' by (intro exI[of _ s'] exI[of _ 0]) (simp add: put_sign_def)
  next
    case False
    then show ?thesis using \<open>sign \<noteq> []\<close> l s' by (intro exI[of _ s'] exI[of _ 1]) (simp add: put_sign_def word_le_nat_alt)
  qed
qed (auto simp: put_sign_def)

text \<open>The three ways to fill a field.\<close>

lemma fill_right:
  assumes "roomy buf_end s (length (replicate (nat (n - int (length sign))) (CHR '' '') @ sign @ ds))" "length sign \<le> 1"
    and "n0 = (if sign \<noteq> [] \<and> n > 0 then n - 1 else n)"
  shows "\<exists>s'. do { r \<leftarrow> pad buf_end (CHR '' '') n0 s; (n, s) \<leftarrow> put_sign buf_end sign r; (n, s) \<leftarrow> pad buf_end c n s; s \<leftarrow> puts buf_end ds s; map_option snd (pad buf_end (CHR '' '') n s) } = Some s' \<and>
    wrote buf_end (replicate (nat (n - int (length sign))) (CHR '' '') @ sign @ ds) 0 s s'"
proof -
  have l: "length sign = (if sign = [] then 0 else 1)" using assms(2) by (cases sign) auto
  then have n: "nat (n - int (length sign)) = nat n0" using assms(3) by auto
  have r: "roomy buf_end s (length (replicate (nat n0) (CHR '' '') @ sign @ ds))" using assms(1) n by simp
  obtain s1 where s1: "pad buf_end (CHR '' '') n0 s = Some (min n0 0 - 1, s1)" "wrote buf_end (replicate (nat n0) (CHR '' '')) 0 s s1"
    using pad_wrote[of "buf_end" s n0] roomy_less[OF r] by auto
  have r1: "roomy buf_end s1 (length sign + length ds)" by (rule wrote_roomy[OF s1(2)]) (use r in simp)
  obtain s2 k where s2: "put_sign buf_end sign (min n0 0 - 1, s1) = Some (min n0 0 - 1 - int (length sign) + int k, s2)"
    "wrote buf_end sign 0 s1 s2" "k \<le> length sign"
    using put_sign_wrote[OF roomy_less[OF r1] assms(2), where n = "min n0 0 - 1"] by auto
  have neg: "min n0 0 - 1 - int (length sign) + int k < 0" using s2(3) by simp
  have r2: "roomy buf_end s2 (length ds)" by (rule wrote_roomy[OF s2(2)]) (use r1 in simp)
  obtain s3 where s3: "puts buf_end ds s2 = Some s3" "wrote buf_end ds 0 s2 s3" using puts_wrote[OF r2] by blast
  have "wrote buf_end (replicate (nat n0) (CHR '' '') @ sign @ ds) 0 s s3"
    using wrote_trans[OF s1(2) wrote_trans[OF s2(2) s3(2)]] by simp
  then show ?thesis using s1(1) s2(1) s3(1) neg n by (simp add: pad_none)
qed

text \<open>Zeros behind the sign, or blanks behind the number: one place more if the sign is cut off.\<close>

lemma fill_cut:
  assumes "wrote buf_end (sign @ u) 0 s s'" "k \<le> length sign" "length sign \<le> 1" "k = 0 \<or> unat buf_end < unat (pr_str s)"
    and "length u = m + nat (n - int (length sign) + int k)" "k = 0 \<longrightarrow> v = u" "length v = m + nat (n - int (length sign))"
  shows "wrote buf_end (sign @ v) 1 s s'"
proof (cases "k = 0")
  case True
  then show ?thesis using assms wrote_more[OF assms(1)] by simp
next
  case False
  then show ?thesis using assms by (intro wrote_behind[OF assms(1)]) auto
qed

lemma fill_zero:
  assumes "roomy buf_end s (length (sign @ replicate (nat (n - int (length sign))) (CHR ''0'') @ ds) + 1)" "length sign \<le> 1"
  shows "\<exists>s'. do { (n, s) \<leftarrow> put_sign buf_end sign (n, s); (n, s) \<leftarrow> pad buf_end (CHR ''0'') n s; s \<leftarrow> puts buf_end ds s; map_option snd (pad buf_end (CHR '' '') n s) } = Some s' \<and>
    wrote buf_end (sign @ replicate (nat (n - int (length sign))) (CHR ''0'') @ ds) 1 s s'"
proof -
  obtain s1 k where s1: "put_sign buf_end sign (n, s) = Some (n - int (length sign) + int k, s1)" "wrote buf_end sign 0 s s1" "k \<le> length sign"
    "k = 0 \<or> unat buf_end < unat (pr_str s)"
    using put_sign_wrote[OF roomy_less[OF assms(1)] assms(2), where n = n] by auto
  let ?n = "n - int (length sign) + int k"
  have k: "nat ?n \<le> nat (n - int (length sign)) + 1" using s1(3) assms(2) by auto
  have r1: "roomy buf_end s1 (nat ?n + length ds)" by (rule wrote_roomy[OF s1(2)]) (use roomy_less[OF assms(1)] k in simp)
  obtain s2 where s2: "pad buf_end (CHR ''0'') ?n s1 = Some (min ?n 0 - 1, s2)" "wrote buf_end (replicate (nat ?n) (CHR ''0'')) 0 s1 s2"
    using pad_wrote[of "buf_end" s1 ?n "CHR ''0''"] roomy_less[OF r1] by auto
  have r2: "roomy buf_end s2 (length ds)" by (rule wrote_roomy[OF s2(2)]) (use r1 in simp)
  obtain s3 where s3: "puts buf_end ds s2 = Some s3" "wrote buf_end ds 0 s2 s3" using puts_wrote[OF r2] by blast
  have w: "wrote buf_end (sign @ replicate (nat ?n) (CHR ''0'') @ ds) 0 s s3" using wrote_trans[OF s1(2) wrote_trans[OF s2(2) s3(2)]] by simp
  have "wrote buf_end (sign @ replicate (nat (n - int (length sign))) (CHR ''0'') @ ds) 1 s s3"
    by (rule fill_cut[OF w s1(3) assms(2) s1(4), where m = "length ds" and n = n]) simp_all
  then show ?thesis using s1(1) s2(1) s3(1) by (simp add: pad_none)
qed

lemma fill_left:
  assumes "roomy buf_end s (length (sign @ ds @ replicate (nat (n - int (length sign))) (CHR '' '')) + 1)" "length sign \<le> 1"
  shows "\<exists>s'. do { (n, s) \<leftarrow> put_sign buf_end sign (n, s); s \<leftarrow> puts buf_end ds s; map_option snd (pad buf_end (CHR '' '') n s) } = Some s' \<and>
    wrote buf_end (sign @ ds @ replicate (nat (n - int (length sign))) (CHR '' '')) 1 s s'"
proof -
  obtain s1 k where s1: "put_sign buf_end sign (n, s) = Some (n - int (length sign) + int k, s1)" "wrote buf_end sign 0 s s1" "k \<le> length sign"
    "k = 0 \<or> unat buf_end < unat (pr_str s)"
    using put_sign_wrote[OF roomy_less[OF assms(1)] assms(2), where n = n] by auto
  let ?n = "n - int (length sign) + int k"
  have k: "nat ?n \<le> nat (n - int (length sign)) + 1" using s1(3) assms(2) by auto
  have r1: "roomy buf_end s1 (length ds + nat ?n)" by (rule wrote_roomy[OF s1(2)]) (use roomy_less[OF assms(1)] k in simp)
  obtain s2 where s2: "puts buf_end ds s1 = Some s2" "wrote buf_end ds 0 s1 s2" using puts_wrote[of "buf_end" s1 ds] roomy_less[OF r1] by auto
  have r2: "roomy buf_end s2 (nat ?n)" by (rule wrote_roomy[OF s2(2)]) (use r1 in simp)
  obtain s3 where s3: "pad buf_end (CHR '' '') ?n s2 = Some (min ?n 0 - 1, s3)" "wrote buf_end (replicate (nat ?n) (CHR '' '')) 0 s2 s3"
    using pad_wrote[OF r2] by blast
  have w: "wrote buf_end (sign @ ds @ replicate (nat ?n) (CHR '' '')) 0 s s3" using wrote_trans[OF s1(2) wrote_trans[OF s2(2) s3(2)]] by simp
  have "wrote buf_end (sign @ ds @ replicate (nat (n - int (length sign))) (CHR '' '')) 1 s s3"
    by (rule fill_cut[OF w s1(3) assms(2) s1(4), where m = "length ds" and n = n]) simp_all
  then show ?thesis using s1(1) s2(1) s3(1) by simp
qed

lemma print_number_wrote:
  assumes base: "base = 10 \<or> base = 16" and r: "roomy buf_end s (length (number_text num base width flags) + 1)"
  shows "\<exists>s'. print_number buf_end num base width flags s = Some s' \<and> wrote buf_end (number_text num base width flags) 1 s s'"
proof -
  define v where "v = (if print_flag flags SIGN then sint num else uint num)"
  define type where "type = (if print_flag flags LEFT then flags AND NOT ZEROPAD else flags)"
  define digits where "digits = (if print_flag flags LARGE then large_digits else small_digits)"
  let ?num = "of_int \<bar>v\<bar> :: word32" and ?sign = "sign_text flags v"
  define tmp where "tmp = (if ?num = 0 then ''0'' else tmp_digits digits base ?num)"
  let ?ds = "numeral_text digits base (nat \<bar>v\<bar>)" and ?n = "width - int (length tmp)"
  have u: "unat ?num = nat \<bar>v\<bar>" using get_sign_text(2)[OF v_def] .
  have ds: "rev tmp = ?ds"
  proof (cases "?num = 0")
    case True
    then have "nat \<bar>v\<bar> = 0" using u by simp
    then show ?thesis using True base by (subst numeral_text.simps) (auto simp: tmp_def digits_def large_digits_def small_digits_def)
  next
    case False
    then show ?thesis using tmp_text[OF False base, of digits] u by (simp add: tmp_def)
  qed
  have l: "length tmp \<le> 16" using tmp_length[OF _ base, of ?num digits] by (auto simp: tmp_def)
  have t: "print_flag type SIGN = print_flag flags SIGN" "print_flag type PLUS = print_flag flags PLUS" "print_flag type SPACE = print_flag flags SPACE"
    "print_flag type LEFT = print_flag flags LEFT" "print_flag type ZEROPAD \<longleftrightarrow> print_flag flags ZEROPAD \<and> \<not> print_flag flags LEFT"
    by (auto simp: type_def flag_without)
  have gs: "get_sign type num = (?sign, ?num)"
    unfolding get_sign_text(1)[OF v_def, symmetric] get_sign_def t(1-3) ..
  have sl: "length ?sign \<le> 1" by (simp add: sign_text_def)
  have "length ?ds = length tmp" by (simp flip: ds)
  then have n: "width - (int (length ?sign) + int (length ?ds)) = ?n - int (length ?sign)" by simp
  have T: "number_text num base width flags = field_text flags width ?sign ?ds" by (simp add: number_text_def v_def digits_def Let_def)
  have P: "print_number buf_end num base width flags s = do {
     r \<leftarrow> (if print_flag type (ZEROPAD OR LEFT) then Some (?n, s) else pad buf_end (CHR '' '') (if ?sign \<noteq> [] \<and> ?n > 0 then ?n - 1 else ?n) s);
     (n, s) \<leftarrow> put_sign buf_end ?sign r;
     (n, s) \<leftarrow> (if print_flag type LEFT then Some (n, s) else pad buf_end (if print_flag type ZEROPAD then CHR ''0'' else CHR '' '') n s);
     s \<leftarrow> puts buf_end ?ds s;
     map_option snd (pad buf_end (CHR '' '') n s) }"
    unfolding print_number_def using l ds by (simp add: gs flip: type_def digits_def tmp_def)
  consider (left) "print_flag flags LEFT" | (zero) "\<not> print_flag flags LEFT" "print_flag flags ZEROPAD" | (right) "\<not> print_flag flags LEFT" "\<not> print_flag flags ZEROPAD"
    by blast
  then show ?thesis
  proof cases
    case left
    have N: "number_text num base width flags = ?sign @ ?ds @ replicate (nat (?n - int (length ?sign))) (CHR '' '')"
      using left by (simp add: T field_text_def Let_def n)
    show ?thesis using fill_left[where s = s and n = ?n and sign = ?sign and ds = ?ds and ?buf_end = "buf_end"] r sl left unfolding N P by (simp add: t flag_either)
  next
    case zero
    have N: "number_text num base width flags = ?sign @ replicate (nat (?n - int (length ?sign))) (CHR ''0'') @ ?ds"
      using zero by (simp add: T field_text_def Let_def n)
    show ?thesis using fill_zero[where s = s and n = ?n and sign = ?sign and ds = ?ds and ?buf_end = "buf_end"] r sl zero unfolding N P by (simp add: t flag_either)
  next
    case right
    have N: "number_text num base width flags = replicate (nat (?n - int (length ?sign))) (CHR '' '') @ ?sign @ ?ds"
      using right by (simp add: T field_text_def Let_def n)
    obtain s' where s': "do { r \<leftarrow> pad buf_end (CHR '' '') (if ?sign \<noteq> [] \<and> ?n > 0 then ?n - 1 else ?n) s; (n, s) \<leftarrow> put_sign buf_end ?sign r;
        (n, s) \<leftarrow> pad buf_end (CHR '' '') n s; s \<leftarrow> puts buf_end ?ds s; map_option snd (pad buf_end (CHR '' '') n s) } = Some s'"
      "wrote buf_end (number_text num base width flags) 0 s s'"
      using fill_right[where s = s and n = ?n and sign = ?sign and ds = ?ds and ?buf_end = "buf_end" and c = "CHR '' ''", OF _ sl refl] roomy_less[OF r] unfolding N by auto
    have "print_number buf_end num base width flags s = Some s'" unfolding P using s'(1) right by (simp add: t flag_either)
    then show ?thesis using wrote_more[OF s'(2), of 1] by auto
  qed
qed

section \<open>Conversions\<close>

lemma pad_char_wrote:
  "roomy buf_end s (nat (n - 1)) \<Longrightarrow> \<exists>s'. pad_char buf_end n s = Some (min n 1 - 1, s') \<and> wrote buf_end (replicate (nat (n - 1)) (CHR '' '')) 0 s s'"
  using puts_wrote[of "buf_end" s "replicate (nat (n - 1)) (CHR '' '')"] by (auto simp: pad_char_def)

lemma pad_text_wrote:
  "roomy buf_end s (nat (n - int l)) \<Longrightarrow> \<exists>s'. pad_text buf_end l n s = Some (min n (int l) - 1, s') \<and> wrote buf_end (replicate (nat (n - int l)) (CHR '' '')) 0 s s'"
  using puts_wrote[of "buf_end" s "replicate (nat (n - int l)) (CHR '' '')"] by (auto simp: pad_text_def)

lemma pad_done: "n \<le> 1 \<Longrightarrow> pad_char buf_end n s = Some (n - 1, s)" "n \<le> int l \<Longrightarrow> pad_text buf_end l n s = Some (n - 1, s)"
  by (simp_all add: pad_char_def pad_text_def)

lemma convert_char_wrote:
  assumes "roomy buf_end s (length (plain_text flags n [char_of (uint (ucast w :: byte))]))"
  shows "\<exists>s'. convert_char buf_end flags n w s = Some s' \<and> wrote buf_end (plain_text flags n [char_of (uint (ucast w :: byte))]) 0 s s'"
proof (cases "print_flag flags LEFT")
  case True
  let ?c = "char_of (uint (ucast w :: byte))"
  have r: "roomy buf_end s (1 + nat (n - 1))" using assms True by (simp add: plain_text_def Let_def)
  obtain s1 where s1: "put buf_end ?c s = Some s1" "wrote buf_end [?c] 0 s s1" using put_wrote[of "buf_end" s ?c] roomy_less[OF r] by auto
  have "roomy buf_end s1 (nat (n - 1))" by (rule wrote_roomy[OF s1(2)]) (use r in simp)
  then obtain s2 where s2: "pad_char buf_end n s1 = Some (min n 1 - 1, s2)" "wrote buf_end (replicate (nat (n - 1)) (CHR '' '')) 0 s1 s2"
    using pad_char_wrote by blast
  have "convert_char buf_end flags n w s = Some s2" using True s1(1) s2(1) by (simp add: convert_char_def)
  then show ?thesis using True wrote_trans[OF s1(2) s2(2)] by (simp add: plain_text_def Let_def)
next
  case False
  let ?c = "char_of (uint (ucast w :: byte))"
  have r: "roomy buf_end s (nat (n - 1) + 1)" using assms False by (simp add: plain_text_def Let_def)
  obtain s1 where s1: "pad_char buf_end n s = Some (min n 1 - 1, s1)" "wrote buf_end (replicate (nat (n - 1)) (CHR '' '')) 0 s s1"
    using pad_char_wrote[of "buf_end" s n] roomy_less[OF r] by auto
  have "roomy buf_end s1 1" by (rule wrote_roomy[OF s1(2)]) (use r in simp)
  then obtain s2 where s2: "put buf_end ?c s1 = Some s2" "wrote buf_end [?c] 0 s1 s2" using put_wrote by blast
  have "convert_char buf_end flags n w s = Some s2" using False s1(1) s2(1) by (simp add: convert_char_def pad_done)
  then show ?thesis using False wrote_trans[OF s1(2) s2(2)] by (simp add: plain_text_def Let_def)
qed

lemma convert_text_wrote:
  assumes "roomy buf_end s (length (plain_text flags n (case t of None \<Rightarrow> ''(NULL)'' | Some t \<Rightarrow> t)))"
  shows "\<exists>s'. convert_text buf_end flags n t s = Some s' \<and> wrote buf_end (plain_text flags n (case t of None \<Rightarrow> ''(NULL)'' | Some t \<Rightarrow> t)) 0 s s'"
proof -
  define u where "u = (case t of None \<Rightarrow> ''(NULL)'' | Some t \<Rightarrow> t)"
  have P: "convert_text buf_end flags n t s = do {
     (n, s) \<leftarrow> (if print_flag flags LEFT then Some (n, s) else pad_text buf_end (length u) n s);
     s \<leftarrow> puts buf_end u s;
     map_option snd (pad_text buf_end (length u) n s) }" by (simp add: convert_text_def u_def)
  have A: "roomy buf_end s (length (plain_text flags n u))" using assms by (simp add: u_def)
  have "\<exists>s'. convert_text buf_end flags n t s = Some s' \<and> wrote buf_end (plain_text flags n u) 0 s s'"
  proof (cases "print_flag flags LEFT")
    case True
    have r: "roomy buf_end s (length u + nat (n - int (length u)))" using A True by (simp add: plain_text_def Let_def)
    obtain s1 where s1: "puts buf_end u s = Some s1" "wrote buf_end u 0 s s1" using puts_wrote[of "buf_end" s u] roomy_less[OF r] by auto
    have "roomy buf_end s1 (nat (n - int (length u)))" by (rule wrote_roomy[OF s1(2)]) (use r in simp)
    then obtain s2 where s2: "pad_text buf_end (length u) n s1 = Some (min n (int (length u)) - 1, s2)"
      "wrote buf_end (replicate (nat (n - int (length u))) (CHR '' '')) 0 s1 s2" using pad_text_wrote by blast
    show ?thesis using True s1(1) s2(1) wrote_trans[OF s1(2) s2(2)] unfolding P by (simp add: plain_text_def Let_def)
  next
    case False
    have r: "roomy buf_end s (nat (n - int (length u)) + length u)" using A False by (simp add: plain_text_def Let_def)
    obtain s1 where s1: "pad_text buf_end (length u) n s = Some (min n (int (length u)) - 1, s1)"
      "wrote buf_end (replicate (nat (n - int (length u))) (CHR '' '')) 0 s s1" using pad_text_wrote[of "buf_end" s n "length u"] roomy_less[OF r] by auto
    have "roomy buf_end s1 (length u)" by (rule wrote_roomy[OF s1(2)]) (use r in simp)
    then obtain s2 where s2: "puts buf_end u s1 = Some s2" "wrote buf_end u 0 s1 s2" using puts_wrote by blast
    show ?thesis using False s1(1) s2(1) wrote_trans[OF s1(2) s2(2)] unfolding P by (simp add: plain_text_def Let_def pad_done)
  qed
  then show ?thesis by (simp add: u_def)
qed

lemma number_format_base: "number_format c f = Some (b, g) \<Longrightarrow> c \<noteq> CHR ''o'' \<Longrightarrow> b = 10 \<or> b = 16"
  by (auto simp: number_format_def split: if_splits)

lemma conversion_wrote:
  assumes "conversion_text flags n q c as = Some (t, bs)" "roomy buf_end s (length t + 1)"
  shows "\<exists>s'. conversion buf_end flags n q c as s = Some (s', bs) \<and> wrote buf_end t 1 s s'"
proof -
  note r = roomy_less[OF assms(2)]
  consider (char) "c = CHR ''c''" | (str) "c = CHR ''s''" | (ptr) "c = CHR ''p''" | (pct) "c = CHR ''%''"
    | (other) "c \<notin> {CHR ''c'', CHR ''s'', CHR ''p'', CHR ''%''}" by blast
  then show ?thesis
  proof cases
    case char
    then obtain w where w: "next_word as = Some (w, bs)" "t = plain_text flags n [char_of (uint (ucast w :: byte))]"
      using assms(1) by (auto simp: conversion_text_def)
    then obtain s' where s': "convert_char buf_end flags n w s = Some s'" "wrote buf_end t 0 s s'" using convert_char_wrote[of "buf_end" s flags n w] r by auto
    then show ?thesis using char w(1) wrote_more[OF s'(2), of 1] by (simp add: conversion_def)
  next
    case str
    then obtain u where w: "next_text as = Some (u, bs)" "t = plain_text flags n (case u of None \<Rightarrow> ''(NULL)'' | Some t \<Rightarrow> t)"
      using assms(1) by (auto simp: conversion_text_def)
    then obtain s' where s': "convert_text buf_end flags n u s = Some s'" "wrote buf_end t 0 s s'" using convert_text_wrote[of "buf_end" s flags n u] r by auto
    then show ?thesis using str w(1) wrote_more[OF s'(2), of 1] by (simp add: conversion_def)
  next
    case ptr
    then obtain w where w: "next_word as = Some (w, bs)" "t = (if n = -1 then number_text w 16 8 (flags OR ZEROPAD) else number_text w 16 n flags)"
      using assms(1) by (auto simp: conversion_text_def)
    show ?thesis
    proof (cases "n = -1")
      case True
      then show ?thesis using print_number_wrote[of 16 "buf_end" s w 8 "flags OR ZEROPAD"] w assms(2) ptr by (auto simp: conversion_def)
    next
      case False
      then show ?thesis using print_number_wrote[of 16 "buf_end" s w n flags] w assms(2) ptr by (auto simp: conversion_def)
    qed
  next
    case pct
    then have t: "t = [c]" "bs = as" using assms(1) by (simp_all add: conversion_text_def)
    obtain s' where s': "put buf_end c s = Some s'" "wrote buf_end [c] 0 s s'" using put_wrote[of "buf_end" s c] r by auto
    then show ?thesis using pct t wrote_more[OF s'(2), of 1] by (simp add: conversion_def)
  next
    case other
    then have o: "c \<noteq> CHR ''o''" using assms(1) by (auto simp: conversion_text_def)
    show ?thesis
    proof (cases "number_format c flags")
      case None
      then have t: "t = [CHR ''%'', c]" "bs = as" using assms(1) other o by (simp_all add: conversion_text_def)
      obtain s' where s': "puts buf_end t s = Some s'" "wrote buf_end t 0 s s'" using puts_wrote[of "buf_end" s t] r by auto
      then show ?thesis using other None t wrote_more[OF s'(2), of 1] by (auto simp: conversion_def bind_eq_Some_conv)
    next
      case (Some p)
      obtain b g where p: "p = (b, g)" by (cases p)
      then obtain w where w: "next_word as = Some (w, bs)" "t = number_text (by_qualifier q g w) b n g"
        using assms(1) other o Some by (auto simp: conversion_text_def)
      show ?thesis using print_number_wrote[OF number_format_base[OF Some[unfolded p] o], of "buf_end" s "by_qualifier q g w" n g] w assms(2) other Some p
        by (auto simp: conversion_def)
    qed
  qed
qed

section \<open>The whole format\<close>

lemma vsn_loop_wrote:
  "\<lbrakk>parsed_text fmt as = Some t; roomy buf_end s (length t + length fmt)\<rbrakk> \<Longrightarrow> \<exists>s'. vsn_loop buf_end fmt as s = Some s' \<and> wrote buf_end t (length fmt) s s'"
proof (induction fmt as arbitrary: t s rule: parsed_text.induct)
  case (1 as)
  then show ?case by simp
next
  case (2 c fmt as)
  show ?case
  proof (cases "c = CHR ''%''")
    case False
    obtain u where u: "parsed_text fmt as = Some u" "t = c # u" using 2(3) False by auto
    obtain s1 where s1: "put buf_end c s = Some s1" "wrote buf_end [c] 0 s s1" using put_wrote[of "buf_end" s c] roomy_less[OF 2(4), of 1] by auto
    have "roomy buf_end s1 (length u + length fmt)" by (rule wrote_roomy[OF s1(2)]) (use roomy_less[OF 2(4)] u(2) in simp)
    then obtain s2 where s2: "vsn_loop buf_end fmt as s1 = Some s2" "wrote buf_end u (length fmt) s1 s2" using 2(1)[OF False u(1)] by blast
    have "wrote buf_end t (length fmt) s s2" using wrote_trans[OF s1(2) s2(2)] u(2) by simp
    then have "wrote buf_end t (length (c # fmt)) s s2" by (rule wrote_more) simp
    then show ?thesis using False s1(1) s2(1) by simp
  next
    case True
    obtain f n q rest bs where d: "directive fmt as = Some (f, n, q, rest, bs)" using 2(3) True by (auto split: option.splits)
    show ?thesis
    proof (cases rest)
      case Nil
      then have t: "t = ''%''" using 2(3) True d by simp
      obtain s1 where s1: "put buf_end (CHR ''%'') s = Some s1" "wrote buf_end ''%'' 0 s s1" using put_wrote[of "buf_end" s "CHR ''%''"] roomy_less[OF 2(4), of 1] by auto
      have "wrote buf_end t (length (c # fmt)) s s1" unfolding t by (rule wrote_more[OF s1(2)]) simp
      then show ?thesis using True d Nil s1(1) by simp
    next
      case (Cons c' fm)
      obtain u cs where u: "conversion_text f n q c' bs = Some (u, cs)" using 2(3) True d Cons by (auto split: option.splits)
      then obtain v where v: "parsed_text fm cs = Some v" "t = u @ v" using 2(3) True d Cons by auto
      have lf: "length fm + 1 \<le> length fmt" using directive_length[OF d] Cons by simp
      obtain s1 where s1: "conversion buf_end f n q c' bs s = Some (s1, cs)" "wrote buf_end u 1 s s1"
        using conversion_wrote[OF u, of "buf_end" s] roomy_less[OF 2(4), of "length u + 1"] v(2) by auto
      have "roomy buf_end s1 (length v + length fm)" by (rule wrote_roomy[OF s1(2)]) (use roomy_less[OF 2(4)] v(2) lf in simp)
      then obtain s2 where s2: "vsn_loop buf_end fm cs s1 = Some s2" "wrote buf_end v (length fm) s1 s2"
        using 2(2)[of "(f, n, q, rest, bs)" f "(n, q, rest, bs)" n "(q, rest, bs)" q "(rest, bs)" rest bs c' fm "(u, cs)" u cs v s1] True d Cons u v(1) by auto
      have "wrote buf_end t (length (c # fmt)) s s2" unfolding v(2) using wrote_trans[OF s1(2) s2(2)] by (rule wrote_more) (use lf in simp)
      then show ?thesis using True d Cons s1(1) s2(1) by simp
    qed
  qed
qed

text \<open>What a reader of the buffer sees.\<close>

lemma cut_text:
  assumes s0: "0 < unat sz" and u: "unat buf_end = unat buf + unat sz - 1" and a: "unat a = unat buf + min (length t) (unat sz - 1)"
    and l: "unat buf + length t < 2 ^ 32" and mm: "mm = (overlay buf_end (unat buf) t m)(a \<mapsto> CHR 0x00)"
  shows "map (\<lambda>i. mm (buf + of_nat i)) [0..<min (length t) (unat sz - 1)] = map Some (take (unat sz - 1) t)"
    and "mm (buf + of_nat (min (length t) (unat sz - 1))) = Some (CHR 0x00)"
    and "unat b \<notin> {unat buf..<unat buf + unat sz} \<Longrightarrow> mm b = m b"
proof -
  let ?k = "min (length t) (unat sz - 1)"
  have i: "unat (buf + of_nat i) = unat buf + i" if "i \<le> ?k" for i
  proof -
    have "unat buf + i < 2 ^ 32" using that l by simp
    then show ?thesis by (simp add: unat_word_ariths unat_of_nat)
  qed
  have at: "mm (buf + of_nat i) = Some (t ! i)" if "i < ?k" for i
  proof -
    have b: "unat (buf + of_nat i) = unat buf + i" using i[of i] that by simp
    then have "buf + of_nat i \<noteq> a" using a that by auto
    moreover have "unat (buf + of_nat i) \<le> unat buf_end" unfolding b u using that by linarith
    ultimately show ?thesis using that b by (simp add: mm overlay_def word_le_nat_alt)
  qed
  show "map (\<lambda>i. mm (buf + of_nat i)) [0..<?k] = map Some (take (unat sz - 1) t)"
    by (rule nth_equalityI) (use at in simp_all)
  show "mm (buf + of_nat ?k) = Some (CHR 0x00)" using i[of ?k] a unfolding mm by (metis fun_upd_same order_refl word_unat_eq_iff)
  show "mm b = m b" if "unat b \<notin> {unat buf..<unat buf + unat sz}"
    using that a u s0 by (auto simp: mm overlay_def word_le_nat_alt)
qed

text \<open>What is printed into a buffer, by the text of the directives as the code splits them.\<close>

lemma vsnprintf_writes:
  assumes "sz \<noteq> 0" "unat buf + unat sz \<le> 2 ^ 32" "\<And>a. \<lbrakk>buf \<le> a; unat a < unat buf + unat sz\<rbrakk> \<Longrightarrow> m a \<noteq> None"
    and "parsed_text fmt as = Some t" "unat buf + length t + length fmt < 2 ^ 32"
  shows "\<exists>n m'. rt_vsnprintf buf sz fmt as m = Some (n, m') \<and>
    map (\<lambda>i. m' (buf + of_nat i)) [0..<min (length t) (unat sz - 1)] = map Some (take (unat sz - 1) t) \<and>
    m' (buf + of_nat (min (length t) (unat sz - 1))) = Some (CHR 0x00) \<and>
    (\<forall>a. unat a \<notin> {unat buf..<unat buf + unat sz} \<longrightarrow> m' a = m a) \<and>
    length t \<le> unat n \<and> (length t < unat sz \<longrightarrow> unat n = length t)"
proof -
  let ?buf_end = "buf + sz - 1" and ?s = "\<lparr>pr_mem = m, pr_str = buf\<rparr>"
  have s0: "0 < unat sz" using assms(1) by (simp add: unat_gt_0)
  have "unat (sz - 1) = unat sz - 1" using s0 by (simp add: unat_sub word_le_nat_alt)
  moreover have e: "?buf_end = buf + (sz - 1)" by simp
  ultimately have u: "unat ?buf_end = unat buf + unat sz - 1"
    using s0 assms(2) by (subst e) (subst unat_plus_simple[THEN iffD1], auto simp: word_le_nat_alt unat_word_ariths)
  then have ge: "\<not> ?buf_end < buf" using s0 by (simp add: word_less_nat_alt)
  have room: "roomy ?buf_end ?s (length t + length fmt)"
    using assms(3,5) u s0 by (auto simp: roomy_def word_le_nat_alt)
  obtain s j where s: "vsn_loop ?buf_end fmt as ?s = Some s" "pr_mem s = overlay ?buf_end (unat buf) t m" "unat (pr_str s) = unat buf + length t + j"
    "j = 0 \<or> unat ?buf_end < unat buf + length t"
    using vsn_loop_wrote[OF assms(4) room] by (auto simp: wrote_def)
  define a where "a = (if pr_str s \<le> ?buf_end then pr_str s else ?buf_end)"
  have a: "unat a = unat buf + min (length t) (unat sz - 1)" using s(3,4) u s0 by (auto simp: a_def word_le_nat_alt)
  have am: "pr_mem s a \<noteq> None" using assms(3)[of a] a s0 s(2) by (auto simp: overlay_def word_le_nat_alt)
  have n: "unat (pr_str s - buf) = length t + j" using s(3) by (simp add: unat_sub word_le_nat_alt)
  have r: "rt_vsnprintf buf sz fmt as m = Some (pr_str s - buf, (pr_mem s)(a \<mapsto> CHR 0x00))"
    using s(1) ge am by (simp add: rt_vsnprintf_def flip: a_def)
  have l: "unat buf + length t < 2 ^ 32" using assms(5) by simp
  note c = cut_text[OF s0 u a l arg_cong[where f = "\<lambda>m. m(a \<mapsto> CHR 0x00)", OF s(2)]]
  have "length t < unat sz \<longrightarrow> j = 0" using s(4) u by auto
  then show ?thesis using r c n by (intro exI[of _ "pr_str s - buf"] exI[of _ "(pr_mem s)(a \<mapsto> CHR 0x00)"]) (simp del: fun_upd_apply)
qed

end
