(* ===== verification/RtPrintfText.thy ===== *)
theory RtPrintfText
  imports RtPrintfSpec
begin

text \<open>
  What a format means, told without the code: how a directive is split, the value its argument has, its
  digits in the base of the conversion, and its place in the field. The texts the code prints are these,
  octal numbers excepted, which it prints to the base sixteen.
\<close>

section \<open>The meaning of a directive\<close>

text \<open>Flags; a width in decimal or from the arguments (a negative one means left); one of \<open>h\<close> and \<open>l\<close>.\<close>

definition is_flag :: "char \<Rightarrow> bool" where
  "is_flag c \<longleftrightarrow> c \<in> set ''-+ #0''"

definition decimal_value :: "string \<Rightarrow> int" where
  "decimal_value ds = foldl (\<lambda>v c. 10 * v + (of_char c - 48)) 0 ds"

record format_spec =
  flag_chars :: "char set"
  field_width :: "int option"
  halved :: bool

definition width_spec :: "string \<Rightarrow> va_arg list \<Rightarrow> ((int option \<times> bool) \<times> string \<times> va_arg list) option" where
  "width_spec fmt as = (let ds = takeWhile isdigit fmt in
     if ds \<noteq> [] then (if decimal_value ds < 2 ^ 31 - 48 then Some ((Some (decimal_value ds), False), dropWhile isdigit fmt, as) else None)
     else if fmt \<noteq> [] \<and> hd fmt = CHR ''*'' then
       (case as of Va_word w # as \<Rightarrow> if sint w = - (2 ^ 31) then None else Some ((Some \<bar>sint w\<bar>, sint w < 0), tl fmt, as)
        | _ \<Rightarrow> None)
     else Some ((None, False), fmt, as))"

definition split_directive :: "string \<Rightarrow> va_arg list \<Rightarrow> (format_spec \<times> string \<times> va_arg list) option" where
  "split_directive fmt as = map_option (\<lambda>((width, left), fmt', as).
     (\<lparr>flag_chars = set (takeWhile is_flag fmt) \<union> (if left then {CHR ''-''} else {}), field_width = width,
        halved = (fmt' \<noteq> [] \<and> hd fmt' = CHR ''h'')\<rparr>,
      if fmt' \<noteq> [] \<and> hd fmt' \<in> {CHR ''h'', CHR ''l''} then tl fmt' else fmt', as))
     (width_spec (dropWhile is_flag fmt) as)"

text \<open>A text with its sign in its field: to the left, or to the right behind zeros or spaces.\<close>

definition in_field :: "bool \<Rightarrow> bool \<Rightarrow> int option \<Rightarrow> string \<Rightarrow> string \<Rightarrow> string" where
  "in_field left zeros width sign body = (let fill = replicate (nat ((case width of None \<Rightarrow> 0 | Some n \<Rightarrow> n) - int (length (sign @ body)))) in
     if left then sign @ body @ fill (CHR '' '') else if zeros then sign @ fill (CHR ''0'') @ body
     else fill (CHR '' '') @ sign @ body)"

definition signed_value :: "format_spec \<Rightarrow> word32 \<Rightarrow> int" where
  "signed_value f w = (if halved f then (sint w + 2 ^ 15) mod 2 ^ 16 - 2 ^ 15 else sint w)"

definition unsigned_value :: "format_spec \<Rightarrow> word32 \<Rightarrow> int" where
  "unsigned_value f w = (if halved f then uint w mod 2 ^ 16 else uint w)"

definition sign_of :: "format_spec \<Rightarrow> int \<Rightarrow> string" where
  "sign_of f v = (if v < 0 then ''-'' else if CHR ''+'' \<in> flag_chars f then ''+'' else if CHR '' '' \<in> flag_chars f then '' '' else [])"

definition in_base :: "string \<Rightarrow> int \<Rightarrow> string" where
  "in_base digits v = numeral_text digits (length digits) (nat \<bar>v\<bar>)"

definition meaning :: "format_spec \<Rightarrow> char \<Rightarrow> va_arg list \<Rightarrow> (string \<times> va_arg list) option" where
  "meaning f c as = (let field = in_field (CHR ''-'' \<in> flag_chars f); zeros = CHR ''0'' \<in> flag_chars f in
     if c \<in> {CHR ''d'', CHR ''i''} then map_option (\<lambda>(w, as).
       (field zeros (field_width f) (sign_of f (signed_value f w)) (in_base ''0123456789'' (signed_value f w)), as)) (next_word as)
     else if c = CHR ''u'' then map_option (\<lambda>(w, as). (field zeros (field_width f) [] (in_base ''0123456789'' (unsigned_value f w)), as)) (next_word as)
     else if c = CHR ''x'' then map_option (\<lambda>(w, as). (field zeros (field_width f) [] (in_base ''0123456789abcdef'' (unsigned_value f w)), as)) (next_word as)
     else if c = CHR ''X'' then map_option (\<lambda>(w, as). (field zeros (field_width f) [] (in_base ''0123456789ABCDEF'' (unsigned_value f w)), as)) (next_word as)
     else if c = CHR ''o'' then map_option (\<lambda>(w, as). (field zeros (field_width f) [] (in_base ''01234567'' (unsigned_value f w)), as)) (next_word as)
     else if c = CHR ''p'' then map_option (\<lambda>(w, as). (case field_width f of
         None \<Rightarrow> field True (Some 8) [] (in_base ''0123456789abcdef'' (uint w))
       | Some n \<Rightarrow> field zeros (Some n) [] (in_base ''0123456789abcdef'' (uint w)), as)) (next_word as)
     else if c = CHR ''c'' then map_option (\<lambda>(w, as). (field False (field_width f) [] [char_of (uint w mod 256)], as)) (next_word as)
     else if c = CHR ''s'' then map_option (\<lambda>(t, as). (field False (field_width f) [] (case t of None \<Rightarrow> ''(NULL)'' | Some t \<Rightarrow> t), as)) (next_text as)
     else if c = CHR ''%'' then Some (''%'', as)
     else Some ([CHR ''%'', c], as))"

lemma width_spec_length: "width_spec fmt as = Some (w, fmt', bs) \<Longrightarrow> length fmt' \<le> length fmt"
  by (auto simp: width_spec_def Let_def length_dropWhile_le split: if_splits list.splits va_arg.splits)

lemma split_length: "split_directive fmt as = Some (f, fmt', bs) \<Longrightarrow> length fmt' \<le> length fmt"
proof -
  assume "split_directive fmt as = Some (f, fmt', bs)"
  then obtain w g where g: "width_spec (dropWhile is_flag fmt) as = Some (w, g, bs)" "fmt' = (if g \<noteq> [] \<and> hd g \<in> {CHR ''h'', CHR ''l''} then tl g else g)"
    by (auto simp: split_directive_def split: prod.splits)
  have "length fmt' \<le> length g" by (simp add: g(2))
  also have "\<dots> \<le> length (dropWhile is_flag fmt)" by (rule width_spec_length[OF g(1)])
  also have "\<dots> \<le> length fmt" by (rule length_dropWhile_le)
  finally show ?thesis .
qed

text \<open>
  The text of a format, in pieces: each with the conversion it comes from, if it comes from one. A per-cent
  sign at the end stands for itself.
\<close>

function format_text :: "string \<Rightarrow> va_arg list \<Rightarrow> (char option \<times> string) list option" where
  "format_text [] as = Some []"
| "format_text (c # fmt) as =
     (if c \<noteq> CHR ''%'' then map_option (Cons (None, [c])) (format_text fmt as)
      else (case split_directive fmt as of
          None \<Rightarrow> None
        | Some (f, [], as) \<Rightarrow> Some [(None, ''%'')]
        | Some (f, c # fmt, as) \<Rightarrow>
            (case meaning f c as of
               None \<Rightarrow> None
             | Some (t, as) \<Rightarrow> map_option (Cons (Some c, t)) (format_text fmt as))))"
  by pat_completeness auto
termination
  by (relation "measure (\<lambda>(fmt, as). length fmt)") (auto dest: split_length)

section \<open>The code splits a directive in the same way\<close>

text \<open>The byte of flags and the characters of a directive.\<close>

definition flags_agree :: "byte \<Rightarrow> char set \<Rightarrow> bool" where
  "flags_agree g F \<longleftrightarrow> (print_flag g LEFT \<longleftrightarrow> CHR ''-'' \<in> F) \<and> (print_flag g PLUS \<longleftrightarrow> CHR ''+'' \<in> F) \<and>
     (print_flag g SPACE \<longleftrightarrow> CHR '' '' \<in> F) \<and> (print_flag g ZEROPAD \<longleftrightarrow> CHR ''0'' \<in> F) \<and> \<not> print_flag g SIGN \<and> \<not> print_flag g LARGE"

lemma flag_or:
  "print_flag (f OR LEFT) x \<longleftrightarrow> print_flag f x \<or> print_flag LEFT x" "print_flag (f OR PLUS) x \<longleftrightarrow> print_flag f x \<or> print_flag PLUS x"
  "print_flag (f OR SPACE) x \<longleftrightarrow> print_flag f x \<or> print_flag SPACE x" "print_flag (f OR ZEROPAD) x \<longleftrightarrow> print_flag f x \<or> print_flag ZEROPAD x"
  "print_flag (f OR SPECIAL) x \<longleftrightarrow> print_flag f x \<or> print_flag SPECIAL x" "print_flag (f OR SIGN) x \<longleftrightarrow> print_flag f x \<or> print_flag SIGN x"
  "print_flag (f OR LARGE) x \<longleftrightarrow> print_flag f x \<or> print_flag LARGE x"
  by (simp_all add: print_flag_def bit.conj_disj_distrib2 or_eq_0_iff)

lemmas flag_values = print_flag_def LEFT_def PLUS_def SPACE_def ZEROPAD_def SPECIAL_def SIGN_def LARGE_def

lemma flag_alone:
  "x \<in> {LEFT, PLUS, SPACE, ZEROPAD, SPECIAL, SIGN, LARGE} \<Longrightarrow> y \<in> {LEFT, PLUS, SPACE, ZEROPAD, SPECIAL, SIGN, LARGE} \<Longrightarrow> print_flag x y \<longleftrightarrow> x = y"
  by (auto simp: flag_values)

lemma read_flags_agree: "flags_agree g F \<Longrightarrow> flags_agree (fst (read_flags g fmt)) (F \<union> set (takeWhile is_flag fmt)) \<and>
    snd (read_flags g fmt) = dropWhile is_flag fmt"
proof (induction fmt arbitrary: g F)
  case (Cons c fmt)
  show ?case
  proof (cases "is_flag c")
    case True
    then consider (m) "c = CHR ''-''" | (p) "c = CHR ''+''" | (s) "c = CHR '' ''" | (h) "c = CHR ''#''" | (z) "c = CHR ''0''"
      by (auto simp: is_flag_def)
    then obtain x where x: "read_flags g (c # fmt) = read_flags (g OR x) fmt" "flags_agree (g OR x) (insert c F)"
    proof cases
      case m
      then show ?thesis using that[of LEFT] Cons.prems by (auto simp: flags_agree_def flag_or flag_alone) (simp_all add: flag_values)
    next
      case p
      then show ?thesis using that[of PLUS] Cons.prems by (auto simp: flags_agree_def flag_or flag_alone) (simp_all add: flag_values)
    next
      case s
      then show ?thesis using that[of SPACE] Cons.prems by (auto simp: flags_agree_def flag_or flag_alone) (simp_all add: flag_values)
    next
      case h
      then show ?thesis using that[of SPECIAL] Cons.prems by (auto simp: flags_agree_def flag_or flag_alone) (simp_all add: flag_values)
    next
      case z
      then show ?thesis using that[of ZEROPAD] Cons.prems by (auto simp: flags_agree_def flag_or flag_alone) (simp_all add: flag_values)
    qed
    show ?thesis using Cons.IH[OF x(2)] True unfolding x(1) by simp
  next
    case False
    then show ?thesis using Cons.prems by (auto simp: is_flag_def)
  qed
qed simp

lemma digit_bounds: "isdigit c \<Longrightarrow> 48 \<le> (of_char c :: int) \<and> of_char c \<le> (57 :: int)"
proof -
  assume "isdigit c"
  then have "(48 :: nat) \<le> of_char c" "of_char c \<le> (57 :: nat)" by (simp_all add: isdigit_def less_eq_char_def)
  moreover have "(of_char c :: int) = int (of_char c)" by (rule of_nat_of_char[symmetric])
  ultimately show ?thesis by linarith
qed

lemma decimal_grows: "0 \<le> (i :: int) \<Longrightarrow> \<forall>c\<in>set ds. isdigit c \<Longrightarrow> i \<le> foldl (\<lambda>v c. 10 * v + (of_char c - 48)) i ds"
proof (induction ds arbitrary: i)
  case (Cons c ds)
  have "i \<le> 10 * i + (of_char c - 48)" using digit_bounds[of c] Cons.prems by simp
  then show ?case using Cons.IH[of "10 * i + (of_char c - 48)"] Cons.prems by simp
qed simp

lemma skip_atoi_decimal:
  "0 \<le> i \<Longrightarrow> foldl (\<lambda>v c. 10 * v + (of_char c - 48)) i (takeWhile isdigit fmt) < 2 ^ 31 - 48 \<Longrightarrow>
    skip_atoi i fmt = Some (foldl (\<lambda>v c. 10 * v + (of_char c - 48)) i (takeWhile isdigit fmt), dropWhile isdigit fmt)"
proof (induction fmt arbitrary: i)
  case (Cons c fmt)
  show ?case
  proof (cases "isdigit c")
    case True
    let ?j = "10 * i + (of_char c - 48)"
    have j: "0 \<le> ?j" using digit_bounds[OF True] Cons.prems(1) by simp
    have "\<forall>c\<in>set (takeWhile isdigit fmt). isdigit c" by (auto dest: set_takeWhileD)
    then have "?j < 2 ^ 31 - 48" using decimal_grows[OF j, of "takeWhile isdigit fmt"] Cons.prems(2) True by simp
    then have l: "i * 10 + of_char c \<le> 0x7FFFFFFF" by simp
    have e: "i * 10 + of_char c - 48 = ?j" by simp
    have "foldl (\<lambda>v c. 10 * v + (of_char c - 48)) ?j (takeWhile isdigit fmt) < 2 ^ 31 - 48" using True Cons.prems(2) by simp
    from Cons.IH[OF j this] show ?thesis unfolding skip_atoi.simps e if_P[OF True] if_P[OF l] using True by simp
  qed simp
qed simp

lemma read_width_agree:
  assumes "width_spec fmt as = Some ((width, left), fmt', bs)"
  shows "read_width g fmt as = Some (case width of None \<Rightarrow> -1 | Some n \<Rightarrow> n, if left then g OR LEFT else g, fmt', bs) \<and>
    (\<forall>n. width = Some n \<longrightarrow> 0 \<le> n)"
proof (cases "takeWhile isdigit fmt = []")
  case True
  then have d: "\<not> (fmt \<noteq> [] \<and> isdigit (hd fmt))" by (cases fmt) auto
  show ?thesis
  proof (cases "fmt \<noteq> [] \<and> hd fmt = CHR ''*''")
    case star: True
    obtain w where w: "as = Va_word w # bs" "sint w \<noteq> - (2 ^ 31)" "width = Some \<bar>sint w\<bar>" "left \<longleftrightarrow> sint w < 0" "fmt' = tl fmt"
      using assms True star by (auto simp: width_spec_def split: list.splits va_arg.splits if_splits)
    show ?thesis using d star w(1,2) unfolding w(3-5) by (auto simp: read_width_def word_sless_alt)
  next
    case False
    then show ?thesis using assms True d by (auto simp: width_spec_def read_width_def)
  qed
next
  case False
  then have d: "fmt \<noteq> [] \<and> isdigit (hd fmt)" by (cases fmt) (auto split: if_splits)
  have v: "decimal_value (takeWhile isdigit fmt) < 2 ^ 31 - 48" "width = Some (decimal_value (takeWhile isdigit fmt))" "\<not> left" "fmt' = dropWhile isdigit fmt" "bs = as"
    using assms False by (auto simp: width_spec_def Let_def split: if_splits)
  have "0 \<le> decimal_value (takeWhile isdigit fmt)"
    using decimal_grows[of 0 "takeWhile isdigit fmt"] by (auto simp: decimal_value_def dest: set_takeWhileD)
  then show ?thesis using d v skip_atoi_decimal[of 0 fmt] by (simp add: read_width_def decimal_value_def)
qed

lemma directive_agree:
  assumes "split_directive fmt as = Some (f, fmt', bs)"
  shows "\<exists>g q. directive fmt as = Some (g, case field_width f of None \<Rightarrow> -1 | Some n \<Rightarrow> n, q, fmt', bs) \<and> flags_agree g (flag_chars f) \<and>
    (halved f \<longleftrightarrow> q = CHR ''h'') \<and> (\<forall>n. field_width f = Some n \<longrightarrow> 0 \<le> n)"
proof -
  obtain width left h where w: "width_spec (dropWhile is_flag fmt) as = Some ((width, left), h, bs)"
    and f: "f = \<lparr>flag_chars = set (takeWhile is_flag fmt) \<union> (if left then {CHR ''-''} else {}), field_width = width, halved = (h \<noteq> [] \<and> hd h = CHR ''h'')\<rparr>"
      "fmt' = (if h \<noteq> [] \<and> hd h \<in> {CHR ''h'', CHR ''l''} then tl h else h)"
    using assms by (auto simp: split_directive_def split: prod.splits)
  have "flags_agree 0 {}" by (simp add: flags_agree_def print_flag_def)
  from read_flags_agree[OF this, of fmt] obtain g where g: "read_flags 0 fmt = (g, dropWhile is_flag fmt)" "flags_agree g (set (takeWhile is_flag fmt))"
    by (cases "read_flags 0 fmt") auto
  note r = read_width_agree[OF w, of g]
  have "read_qualifier h = (if h \<noteq> [] \<and> hd h \<in> {CHR ''h'', CHR ''l''} then hd h else CHR 0x00, fmt')"
    by (cases h) (auto simp: f(2))
  then have "directive fmt as = Some (if left then g OR LEFT else g, case width of None \<Rightarrow> -1 | Some n \<Rightarrow> n,
      if h \<noteq> [] \<and> hd h \<in> {CHR ''h'', CHR ''l''} then hd h else CHR 0x00, fmt', bs)"
    using g(1) r by (simp add: directive_def)
  moreover have "flags_agree (if left then g OR LEFT else g) (flag_chars f)"
    using g(2) by (auto simp: f(1) flags_agree_def flag_or flag_alone) (simp_all add: flag_values)
  ultimately show ?thesis using r f(1) by auto
qed

section \<open>The code prints what is meant\<close>

lemma signed_half: "sint (scast (ucast w :: word16) :: word32) = (sint w + 2 ^ 15) mod 2 ^ 16 - 2 ^ 15" for w :: word32
proof -
  have "sint (scast (ucast w :: word16) :: word32) = sint (ucast w :: word16)" by (simp add: sint_up_scast is_up)
  also have "\<dots> = signed_take_bit 15 (sint w)" by (transfer; simp add: signed_take_bit_take_bit)
  finally show ?thesis by (simp add: signed_take_bit_eq_take_bit_shift take_bit_eq_mod)
qed

lemma unsigned_half: "uint (ucast (ucast w :: word16) :: word32) = uint w mod 2 ^ 16" for w :: word32
proof -
  have "uint (ucast (ucast w :: word16) :: word32) = uint (ucast w :: word16)" by (simp add: uint_up_ucast is_up)
  also have "\<dots> = uint w mod 2 ^ 16" by (simp add: unsigned_ucast_eq take_bit_eq_mod)
  finally show ?thesis .
qed

lemma field_agree:
  assumes "flags_agree g F" "\<forall>n. width = Some n \<longrightarrow> 0 \<le> n"
  shows "field_text g (case width of None \<Rightarrow> -1 | Some n \<Rightarrow> n) sign body = in_field (CHR ''-'' \<in> F) (CHR ''0'' \<in> F) width sign body"
    "plain_text g (case width of None \<Rightarrow> -1 | Some n \<Rightarrow> n) body = in_field (CHR ''-'' \<in> F) False width [] body"
  using assms by (auto simp: field_text_def plain_text_def in_field_def flags_agree_def Let_def split: option.split)

lemma flag_other:
  "print_flag (g OR SIGN) LEFT = print_flag g LEFT" "print_flag (g OR SIGN) ZEROPAD = print_flag g ZEROPAD"
  "print_flag (g OR LARGE) LEFT = print_flag g LEFT" "print_flag (g OR LARGE) ZEROPAD = print_flag g ZEROPAD"
  by (simp_all add: flag_or flag_alone) (simp_all add: flag_values)

lemma field_flag:
  "field_text (g OR SIGN) n sign body = field_text g n sign body" "field_text (g OR LARGE) n sign body = field_text g n sign body"
  unfolding field_text_def flag_other by (rule refl)+

lemma numeral_cong: "2 \<le> b \<Longrightarrow> \<forall>d<b. xs ! d = ys ! d \<Longrightarrow> numeral_text xs b n = numeral_text ys b n"
proof (induction xs b n rule: numeral_text.induct)
  case (1 xs b n)
  then show ?case unfolding numeral_text.simps[of xs b n] numeral_text.simps[of ys b n] by simp
qed

lemma in_bases:
  "in_base ''0123456789'' v = numeral_text small_digits 10 (nat \<bar>v\<bar>)" "in_base ''0123456789abcdef'' v = numeral_text small_digits 16 (nat \<bar>v\<bar>)"
  "in_base ''0123456789ABCDEF'' v = numeral_text large_digits 16 (nat \<bar>v\<bar>)"
proof -
  have l: "length ''0123456789'' = 10" by simp
  have "\<forall>d<10. ''0123456789'' ! d = small_digits ! d"
    by (simp add: small_digits_def All_less_Suc numeral_eq_Suc)
  then show "in_base ''0123456789'' v = numeral_text small_digits 10 (nat \<bar>v\<bar>)"
    unfolding in_base_def l by (intro numeral_cong) simp_all
next
  have l: "length ''0123456789abcdef'' = 16" "length ''0123456789ABCDEF'' = 16" by simp_all
  show "in_base ''0123456789abcdef'' v = numeral_text small_digits 16 (nat \<bar>v\<bar>)" "in_base ''0123456789ABCDEF'' v = numeral_text large_digits 16 (nat \<bar>v\<bar>)"
    unfolding in_base_def l small_digits_def large_digits_def by (rule refl)+
qed

lemma number_agree:
  assumes "flags_agree g (flag_chars f)" "halved f \<longleftrightarrow> q = CHR ''h''" "\<forall>n. field_width f = Some n \<longrightarrow> 0 \<le> n"
  defines "n \<equiv> (case field_width f of None \<Rightarrow> -1 | Some n \<Rightarrow> n)"
  defines "field \<equiv> in_field (CHR ''-'' \<in> flag_chars f) (CHR ''0'' \<in> flag_chars f) (field_width f)"
  shows "number_text (by_qualifier q (g OR SIGN) w) 10 n (g OR SIGN) = field (sign_of f (signed_value f w)) (in_base ''0123456789'' (signed_value f w))"
    "number_text (by_qualifier q g w) 10 n g = field [] (in_base ''0123456789'' (unsigned_value f w))"
    "number_text (by_qualifier q g w) 16 n g = field [] (in_base ''0123456789abcdef'' (unsigned_value f w))"
    "number_text (by_qualifier q (g OR LARGE) w) 16 n (g OR LARGE) = field [] (in_base ''0123456789ABCDEF'' (unsigned_value f w))"
    "number_text w 16 n g = field [] (in_base ''0123456789abcdef'' (uint w))"
proof -
  note fa = field_agree(1)[OF assms(1,3), folded n_def field_def]
  have g: "\<not> print_flag g SIGN" "\<not> print_flag g LARGE" using assms(1) by (simp_all add: flags_agree_def)
  have fl: "print_flag (g OR SIGN) SIGN" "\<not> print_flag (g OR SIGN) LARGE" "print_flag (g OR LARGE) LARGE" "\<not> print_flag (g OR LARGE) SIGN"
    "print_flag (g OR SIGN) PLUS \<longleftrightarrow> CHR ''+'' \<in> flag_chars f" "print_flag (g OR SIGN) SPACE \<longleftrightarrow> CHR '' '' \<in> flag_chars f"
    using assms(1) by (simp_all add: flag_or flag_alone flags_agree_def) (simp_all add: flag_values)
  have s: "sint (by_qualifier q (g OR SIGN) w) = signed_value f w"
    using assms(2) fl(1) by (simp add: by_qualifier_def signed_value_def signed_half)
  have u: "uint (by_qualifier q g w) = unsigned_value f w" "uint (by_qualifier q (g OR LARGE) w) = unsigned_value f w"
    using assms(2) g(1) fl(4) by (simp_all add: by_qualifier_def unsigned_value_def unsigned_half)
  have sg: "sign_text (g OR SIGN) v = sign_of f v" "sign_text g v = []" "sign_text (g OR LARGE) v = []" for v
    using g fl by (simp_all add: sign_text_def sign_of_def)
  show "number_text (by_qualifier q (g OR SIGN) w) 10 n (g OR SIGN) = field (sign_of f (signed_value f w)) (in_base ''0123456789'' (signed_value f w))"
    unfolding number_text_def in_bases by (simp add: fl s sg field_flag fa Let_def)
  show "number_text (by_qualifier q g w) 10 n g = field [] (in_base ''0123456789'' (unsigned_value f w))"
    "number_text (by_qualifier q g w) 16 n g = field [] (in_base ''0123456789abcdef'' (unsigned_value f w))"
    "number_text (by_qualifier q (g OR LARGE) w) 16 n (g OR LARGE) = field [] (in_base ''0123456789ABCDEF'' (unsigned_value f w))"
    "number_text w 16 n g = field [] (in_base ''0123456789abcdef'' (uint w))"
    unfolding number_text_def in_bases by (simp_all add: fl g u sg field_flag fa Let_def)
qed

lemma pointer_agree:
  assumes "flags_agree g (flag_chars f)"
  shows "number_text w 16 8 (g OR ZEROPAD) = in_field (CHR ''-'' \<in> flag_chars f) True (Some 8) [] (in_base ''0123456789abcdef'' (uint w))"
proof -
  have "flags_agree (g OR ZEROPAD) (insert (CHR ''0'') (flag_chars f))"
    using assms by (auto simp: flags_agree_def flag_or flag_alone) (simp_all add: flag_values)
  from number_agree(5)[of "g OR ZEROPAD" "\<lparr>flag_chars = insert (CHR ''0'') (flag_chars f), field_width = Some 8, halved = False\<rparr>" "CHR 0x00" w] this
  show ?thesis by simp
qed

lemma byte_char: "char_of (uint (ucast w :: byte)) = char_of (uint w mod 256)" for w :: word32
  by (simp add: unsigned_ucast_eq take_bit_eq_mod)

lemma meaning_agree:
  assumes "meaning f c as = Some (t, bs)" "c \<noteq> CHR ''o''" "flags_agree g (flag_chars f)" "halved f \<longleftrightarrow> q = CHR ''h''"
    "\<forall>n. field_width f = Some n \<longrightarrow> 0 \<le> n"
  shows "conversion_text g (case field_width f of None \<Rightarrow> -1 | Some n \<Rightarrow> n) q c as = Some (t, bs)"
proof -
  note n = number_agree[OF assms(3-5)]
  note p = field_agree(2)[OF assms(3,5)]
  consider "c \<in> {CHR ''d'', CHR ''i''}" | "c = CHR ''u''" | "c = CHR ''x''" | "c = CHR ''X''" | (ptr) "c = CHR ''p''" | "c = CHR ''c''" | "c = CHR ''s''"
    | "c = CHR ''%''" | "c \<notin> set ''diuxXpcs%o''" using assms(2) by auto
  then show ?thesis
  proof cases
    case ptr
    show ?thesis
    proof (cases "field_width f")
      case None
      then show ?thesis using assms(1) pointer_agree[OF assms(3)] by (auto simp: ptr meaning_def conversion_text_def)
    next
      case (Some k)
      then have "k \<noteq> -1" using assms(5) by auto
      then show ?thesis using assms(1) n(5) Some by (auto simp: ptr meaning_def conversion_text_def)
    qed
  qed (use assms(1) n p in \<open>auto simp: meaning_def conversion_text_def number_format_def byte_char\<close>)
qed

section \<open>The whole format\<close>

lemma parsed_as_meant:
  "format_text fmt as = Some ps \<Longrightarrow> \<forall>p\<in>set ps. fst p \<noteq> Some (CHR ''o'') \<Longrightarrow> parsed_text fmt as = Some (concat (map snd ps))"
proof (induction fmt as arbitrary: ps rule: format_text.induct)
  case (2 c fmt as)
  show ?case
  proof (cases "c = CHR ''%''")
    case False
    then show ?thesis using 2(1) 2(3,4) by auto
  next
    case True
    obtain f rest bs where d: "split_directive fmt as = Some (f, rest, bs)" using 2(3) True by (auto split: option.splits)
    obtain g q where g: "directive fmt as = Some (g, case field_width f of None \<Rightarrow> -1 | Some n \<Rightarrow> n, q, rest, bs)"
      "flags_agree g (flag_chars f)" "halved f \<longleftrightarrow> q = CHR ''h''" "\<forall>n. field_width f = Some n \<longrightarrow> 0 \<le> n"
      using directive_agree[OF d] by blast
    show ?thesis
    proof (cases rest)
      case Nil
      then show ?thesis using 2(3) True d g(1) by auto
    next
      case (Cons c' fm)
      obtain t cs where t: "meaning f c' bs = Some (t, cs)" using 2(3) True d Cons by (auto split: option.splits)
      then obtain qs where qs: "format_text fm cs = Some qs" "ps = (Some c', t) # qs" using 2(3) True d Cons by auto
      have c': "c' \<noteq> CHR ''o''" using 2(4) qs(2) by auto
      have "parsed_text fm cs = Some (concat (map snd qs))"
        using 2(2)[of "(f, rest, bs)" f "(rest, bs)" rest bs c' fm "(t, cs)" t cs qs] True d Cons t qs 2(4) by auto
      then show ?thesis using True g(1) Cons meaning_agree[OF t c' g(2-4)] qs(2) by simp
    qed
  qed
qed simp

text \<open>
  C36: A format without octal conversions, printed into a buffer of at least one byte, gives the text it
  means, cut to one character less than the buffer has bytes, with a zero behind it, and nothing outside the
  buffer changes. The result is the length of the whole text where it fits; where it does not, the result is
  not below the length, which shows that it was cut.
\<close>

theorem vsnprintf_writes_text:
  assumes "sz \<noteq> 0" "unat buf + unat sz \<le> 2 ^ 32" "\<And>a. \<lbrakk>buf \<le> a; unat a < unat buf + unat sz\<rbrakk> \<Longrightarrow> m a \<noteq> None"
    and "format_text fmt as = Some ps" "\<forall>p\<in>set ps. fst p \<noteq> Some (CHR ''o'')"
    and "t = concat (map snd ps)" "unat buf + length t + length fmt < 2 ^ 32"
  shows "\<exists>n m'. rt_vsnprintf buf sz fmt as m = Some (n, m') \<and>
    map (\<lambda>i. m' (buf + of_nat i)) [0..<min (length t) (unat sz - 1)] = map Some (take (unat sz - 1) t) \<and>
    m' (buf + of_nat (min (length t) (unat sz - 1))) = Some (CHR 0x00) \<and>
    (\<forall>a. unat a \<notin> {unat buf..<unat buf + unat sz} \<longrightarrow> m' a = m a) \<and>
    length t \<le> unat n \<and> (length t < unat sz \<longrightarrow> unat n = length t)"
  using vsnprintf_writes[OF assms(1-3) parsed_as_meant[OF assms(4,5), folded assms(6)] assms(7)] .

end
