(* ===== verification/RtString.thy ===== *)
theory RtString
  imports RtPrintf
begin

text \<open>
  Copying, filling and comparing memory and strings (\<open>src/kservice.c\<close>) on a map from addresses to
  characters, which are unsigned, as on ARM. An access outside the map is \<open>None\<close>; a search for the end of
  a string that never comes is \<open>None\<close> as well.
\<close>

section \<open>Accesses\<close>

definition wr_char :: "word32 \<Rightarrow> char \<Rightarrow> char_memory \<Rightarrow> char_memory option" where
  "wr_char a c m = (if m a = None then None else Some (m(a \<mapsto> c)))"

text \<open>Several bytes: a long word is four of them.\<close>

fun rd_chars :: "word32 \<Rightarrow> nat \<Rightarrow> char_memory \<Rightarrow> string option" where
  "rd_chars a 0 m = Some []"
| "rd_chars a (Suc n) m = do { c \<leftarrow> m a; cs \<leftarrow> rd_chars (a + 1) n m; Some (c # cs) }"

fun wr_chars :: "word32 \<Rightarrow> string \<Rightarrow> char_memory \<Rightarrow> char_memory option" where
  "wr_chars a [] m = Some m"
| "wr_chars a (c # cs) m = do { m \<leftarrow> wr_char a c m; wr_chars (a + 1) cs m }"

section \<open>Memory\<close>

definition fill_long :: "word32 \<Rightarrow> char \<Rightarrow> char_memory \<Rightarrow> char_memory option" where
  "fill_long a d m = wr_chars a [d, d, d, d] m"

fun fill_blocks :: "nat \<Rightarrow> word32 \<Rightarrow> char \<Rightarrow> char_memory \<Rightarrow> (nat \<times> word32 \<times> char_memory) option" where
  "fill_blocks n a d m =
     (if n \<ge> 16 then do {
        m \<leftarrow> fill_long a d m;
        m \<leftarrow> fill_long (a + 4) d m;
        m \<leftarrow> fill_long (a + 8) d m;
        m \<leftarrow> fill_long (a + 12) d m;
        fill_blocks (n - 16) (a + 16) d m }
      else Some (n, a, m))"

fun fill_words :: "nat \<Rightarrow> word32 \<Rightarrow> char \<Rightarrow> char_memory \<Rightarrow> (nat \<times> word32 \<times> char_memory) option" where
  "fill_words n a d m = (if n \<ge> 4 then do { m \<leftarrow> fill_long a d m; fill_words (n - 4) (a + 4) d m } else Some (n, a, m))"

fun fill_bytes :: "nat \<Rightarrow> word32 \<Rightarrow> char \<Rightarrow> char_memory \<Rightarrow> char_memory option" where
  "fill_bytes 0 a d m = Some m"
| "fill_bytes (Suc n) a d m = do { m \<leftarrow> wr_char a d m; fill_bytes n (a + 1) d m }"

declare fill_blocks.simps [simp del] fill_words.simps [simp del]

definition rt_memset :: "word32 \<Rightarrow> word32 \<Rightarrow> word32 \<Rightarrow> char_memory \<Rightarrow> (word32 \<times> char_memory) option" where
  "rt_memset s c count m = do {
     d \<leftarrow> Some (char_of (uint (c AND 0xff)));
     (n, a, m) \<leftarrow> (if \<not> count < 4 \<and> s AND 3 = 0
       then do { (n, a, m) \<leftarrow> fill_blocks (unat count) s d m; fill_words n a d m }
       else Some (unat count, s, m));
     m \<leftarrow> fill_bytes n a d m;
     Some (s, m) }"

definition copy_long :: "word32 \<Rightarrow> word32 \<Rightarrow> char_memory \<Rightarrow> char_memory option" where
  "copy_long dst src m = do { cs \<leftarrow> rd_chars src 4 m; wr_chars dst cs m }"

fun copy_blocks :: "nat \<Rightarrow> word32 \<Rightarrow> word32 \<Rightarrow> char_memory \<Rightarrow> (nat \<times> word32 \<times> word32 \<times> char_memory) option" where
  "copy_blocks len dst src m =
     (if len \<ge> 16 then do {
        m \<leftarrow> copy_long dst src m;
        m \<leftarrow> copy_long (dst + 4) (src + 4) m;
        m \<leftarrow> copy_long (dst + 8) (src + 8) m;
        m \<leftarrow> copy_long (dst + 12) (src + 12) m;
        copy_blocks (len - 16) (dst + 16) (src + 16) m }
      else Some (len, dst, src, m))"

fun copy_words :: "nat \<Rightarrow> word32 \<Rightarrow> word32 \<Rightarrow> char_memory \<Rightarrow> (nat \<times> word32 \<times> word32 \<times> char_memory) option" where
  "copy_words len dst src m = (if len \<ge> 4 then do { m \<leftarrow> copy_long dst src m; copy_words (len - 4) (dst + 4) (src + 4) m }
     else Some (len, dst, src, m))"

fun copy_bytes :: "nat \<Rightarrow> word32 \<Rightarrow> word32 \<Rightarrow> char_memory \<Rightarrow> char_memory option" where
  "copy_bytes 0 dst src m = Some m"
| "copy_bytes (Suc n) dst src m = do { c \<leftarrow> m src; m \<leftarrow> wr_char dst c m; copy_bytes n (dst + 1) (src + 1) m }"

declare copy_blocks.simps [simp del] copy_words.simps [simp del]

text \<open>The counter is signed: counts of which it cannot be told are left out.\<close>

definition rt_memcpy :: "word32 \<Rightarrow> word32 \<Rightarrow> word32 \<Rightarrow> char_memory \<Rightarrow> (word32 \<times> char_memory) option" where
  "rt_memcpy dst src count m =
     (if count \<ge> 0x80000000 then None
      else do {
        (len, d, s, m) \<leftarrow> (if \<not> count < 16 \<and> (src AND 3) OR (dst AND 3) = 0
          then do { (len, d, s, m) \<leftarrow> copy_blocks (unat count) dst src m; copy_words len d s m }
          else Some (unat count, dst, src, m));
        m \<leftarrow> copy_bytes len d s m;
        Some (dst, m) })"

fun copy_down :: "nat \<Rightarrow> word32 \<Rightarrow> word32 \<Rightarrow> char_memory \<Rightarrow> char_memory option" where
  "copy_down 0 dst src m = Some m"
| "copy_down (Suc n) dst src m = do { c \<leftarrow> m (src - 1); m \<leftarrow> wr_char (dst - 1) c m; copy_down n (dst - 1) (src - 1) m }"

definition rt_memmove :: "word32 \<Rightarrow> word32 \<Rightarrow> word32 \<Rightarrow> char_memory \<Rightarrow> (word32 \<times> char_memory) option" where
  "rt_memmove dst src n m =
     map_option (Pair dst) (if src < dst \<and> dst < src + n then copy_down (unat n) (dst + n) (src + n) m else copy_bytes (unat n) dst src m)"

text \<open>The difference of two characters as an \<open>int\<close>.\<close>

definition char_diff :: "char \<Rightarrow> char \<Rightarrow> int" where
  "char_diff c d = of_char c - of_char d"

fun memcmp_loop :: "nat \<Rightarrow> word32 \<Rightarrow> word32 \<Rightarrow> char_memory \<Rightarrow> int option" where
  "memcmp_loop 0 a b m = Some 0"
| "memcmp_loop (Suc n) a b m = do { c \<leftarrow> m a; d \<leftarrow> m b; if c \<noteq> d then Some (char_diff c d) else memcmp_loop n (a + 1) (b + 1) m }"

definition rt_memcmp :: "word32 \<Rightarrow> word32 \<Rightarrow> word32 \<Rightarrow> char_memory \<Rightarrow> int option" where
  "rt_memcmp cs ct count m = memcmp_loop (unat count) cs ct m"

section \<open>Strings\<close>

partial_function (option) strlen_loop :: "word32 \<Rightarrow> char_memory \<Rightarrow> word32 option" where
  "strlen_loop sc m = do { c \<leftarrow> m sc; if c = CHR 0x00 then Some sc else strlen_loop (sc + 1) m }"

definition rt_strlen :: "word32 \<Rightarrow> char_memory \<Rightarrow> word32 option" where
  "rt_strlen s m = map_option (\<lambda>sc. sc - s) (strlen_loop s m)"

partial_function (option) strnlen_loop :: "word32 \<Rightarrow> word32 \<Rightarrow> word32 \<Rightarrow> char_memory \<Rightarrow> word32 option" where
  "strnlen_loop sc s maxlen m = do { c \<leftarrow> m sc; if c \<noteq> CHR 0x00 \<and> sc - s < maxlen then strnlen_loop (sc + 1) s maxlen m else Some sc }"

definition rt_strnlen :: "word32 \<Rightarrow> word32 \<Rightarrow> char_memory \<Rightarrow> word32 option" where
  "rt_strnlen s maxlen m = map_option (\<lambda>sc. sc - s) (strnlen_loop s s maxlen m)"

partial_function (option) rt_strcmp :: "word32 \<Rightarrow> word32 \<Rightarrow> char_memory \<Rightarrow> int option" where
  "rt_strcmp cs ct m = do {
     c \<leftarrow> m cs;
     d \<leftarrow> m ct;
     if c \<noteq> CHR 0x00 \<and> c = d then rt_strcmp (cs + 1) (ct + 1) m else Some (char_diff c d) }"

text \<open>The difference is stored in a signed character.\<close>

definition signed_char :: "int \<Rightarrow> int" where
  "signed_char x = sint (word_of_int x :: byte)"

fun strncmp_loop :: "nat \<Rightarrow> int \<Rightarrow> word32 \<Rightarrow> word32 \<Rightarrow> char_memory \<Rightarrow> int option" where
  "strncmp_loop 0 res cs ct m = Some res"
| "strncmp_loop (Suc n) res cs ct m = do {
     c \<leftarrow> m cs;
     d \<leftarrow> m ct;
     res \<leftarrow> Some (signed_char (char_diff c d));
     if res \<noteq> 0 \<or> c = CHR 0x00 then Some res else strncmp_loop n res (cs + 1) (ct + 1) m }"

definition rt_strncmp :: "word32 \<Rightarrow> word32 \<Rightarrow> word32 \<Rightarrow> char_memory \<Rightarrow> int option" where
  "rt_strncmp cs ct count m = strncmp_loop (unat count) 0 cs ct m"

definition to_lower :: "char \<Rightarrow> int" where
  "to_lower c = (if CHR ''A'' \<le> c \<and> c \<le> CHR ''Z'' then of_char c + 32 else of_char c)"

partial_function (option) rt_strcasecmp :: "word32 \<Rightarrow> word32 \<Rightarrow> char_memory \<Rightarrow> int option" where
  "rt_strcasecmp a b m = do {
     c \<leftarrow> m a;
     d \<leftarrow> m b;
     if to_lower c = to_lower d \<and> to_lower c \<noteq> 0 then rt_strcasecmp (a + 1) (b + 1) m else Some (to_lower c - to_lower d) }"

fun strncpy_loop :: "nat \<Rightarrow> word32 \<Rightarrow> word32 \<Rightarrow> char_memory \<Rightarrow> char_memory option" where
  "strncpy_loop 0 d s m = Some m"
| "strncpy_loop (Suc n) d s m = do {
     c \<leftarrow> m s;
     m \<leftarrow> wr_char d c m;
     if c = CHR 0x00 then fill_bytes n (d + 1) (CHR 0x00) m else strncpy_loop n (d + 1) (s + 1) m }"

definition rt_strncpy :: "word32 \<Rightarrow> word32 \<Rightarrow> word32 \<Rightarrow> char_memory \<Rightarrow> (word32 \<times> char_memory) option" where
  "rt_strncpy dst src n m = map_option (Pair dst) (strncpy_loop (unat n) dst src m)"

text \<open>The first argument counts the places that are left: \<open>l1 - l2 + 1\<close>.\<close>

fun strstr_loop :: "nat \<Rightarrow> word32 \<Rightarrow> word32 \<Rightarrow> word32 \<Rightarrow> char_memory \<Rightarrow> word32 option option" where
  "strstr_loop 0 s1 s2 l2 m = Some None"
| "strstr_loop (Suc n) s1 s2 l2 m = do {
     r \<leftarrow> rt_memcmp s1 s2 l2 m;
     if r = 0 then Some (Some s1) else strstr_loop n (s1 + 1) s2 l2 m }"

definition rt_strstr :: "word32 \<Rightarrow> word32 \<Rightarrow> char_memory \<Rightarrow> word32 option option" where
  "rt_strstr s1 s2 m = do {
     l2 \<leftarrow> rt_strlen s2 m;
     if l2 = 0 then Some (Some s1)
     else do {
       l1 \<leftarrow> rt_strlen s1 m;
       strstr_loop (if l2 <=s l1 then nat (sint l1 - sint l2 + 1) else 0) s1 s2 l2 m } }"

end
