(* ===== verification/RtStringSpec.thy ===== *)
theory RtStringSpec
  imports RtString
begin

text \<open>
  Copying word by word, or backwards, is the copying of a range of memory; filling is filling. What the
  string functions compute on strings with an end.
\<close>

section \<open>Ranges of memory\<close>

definition cells :: "word32 \<Rightarrow> nat \<Rightarrow> char_memory \<Rightarrow> bool" where
  "cells a n m \<longleftrightarrow> unat a + n < 2 ^ 32 \<and> (\<forall>b. unat a \<le> unat b \<and> unat b < unat a + n \<longrightarrow> m b \<noteq> None)"

definition moved :: "word32 \<Rightarrow> word32 \<Rightarrow> nat \<Rightarrow> char_memory \<Rightarrow> char_memory" where
  "moved dst src n m = (\<lambda>a. if unat dst \<le> unat a \<and> unat a < unat dst + n then m (src + (a - dst)) else m a)"

definition filled :: "word32 \<Rightarrow> char \<Rightarrow> nat \<Rightarrow> char_memory \<Rightarrow> char_memory" where
  "filled s d n m = (\<lambda>a. if unat s \<le> unat a \<and> unat a < unat s + n then Some d else m a)"

definition written :: "word32 \<Rightarrow> string \<Rightarrow> char_memory \<Rightarrow> char_memory" where
  "written s cs m = (\<lambda>a. if unat s \<le> unat a \<and> unat a < unat s + length cs then Some (cs ! (unat a - unat s)) else m a)"

text \<open>A copy that goes upwards reads every byte before it writes to it.\<close>

definition upwards :: "word32 \<Rightarrow> word32 \<Rightarrow> nat \<Rightarrow> bool" where
  "upwards dst src n \<longleftrightarrow> unat dst \<le> unat src \<or> unat src + n \<le> unat dst"

lemma unat_add: "unat (a :: word32) + k < 2 ^ 32 \<Longrightarrow> unat (a + of_nat k) = unat a + k"
  by (simp add: unat_word_ariths unat_of_nat)

lemma unat_add_lit: "unat (a :: word32) + numeral k < 2 ^ 32 \<Longrightarrow> unat (a + numeral k) = unat a + numeral k"
  using unat_add[of a "numeral k"] by simp

lemma unat_add_1: "unat (a :: word32) + 1 < 2 ^ 32 \<Longrightarrow> unat (a + 1) = unat a + 1"
  using unat_add[of a 1] by simp

lemma unat_shift:
  assumes "unat (dst :: word32) \<le> unat a" "unat src + (unat a - unat dst) < 2 ^ 32"
  shows "unat (src + (a - dst)) = unat src + (unat a - unat dst)"
proof -
  have "a - dst = of_nat (unat a - unat dst)" using assms(1) by (simp add: of_nat_diff)
  then show ?thesis using unat_add[OF assms(2)] by simp
qed

lemma cellsD: "\<lbrakk>cells a n m; unat a \<le> unat b; unat b < unat a + n\<rbrakk> \<Longrightarrow> m b \<noteq> None"
  by (simp add: cells_def)

lemma one_cell: "unat dst \<le> unat a \<and> unat a < unat dst + 1 \<longleftrightarrow> (a :: word32) = dst"
  by (auto simp: word_unat_eq_iff)

lemma cells_le: "cells a n m \<Longrightarrow> k \<le> n \<Longrightarrow> cells a k m"
  by (auto simp: cells_def)

lemma cells_step: "cells a (k + n) m \<Longrightarrow> cells (a + of_nat k) n m"
  by (auto simp: cells_def unat_add)

lemma cells_written: "cells a n m \<Longrightarrow> cells a n (written s cs m)"
  by (auto simp: cells_def written_def)

lemma wr_chars_written: "cells a (length cs) m \<Longrightarrow> wr_chars a cs m = Some (written a cs m)"
proof (induction cs arbitrary: a m)
  case Nil
  then show ?case by (auto simp: written_def fun_eq_iff)
next
  case (Cons c cs)
  have w: "wr_char a c m = Some (written a [c] m)"
    using Cons.prems by (auto simp: wr_char_def cells_def written_def fun_eq_iff word_unat_eq_iff)
  have u: "unat (a + 1) = unat a + 1" by (rule unat_add_1) (use Cons.prems in \<open>simp add: cells_def\<close>)
  have "cells (a + 1) (length cs) (written a [c] m)" using cells_written[OF cells_step[of a 1]] Cons.prems by simp
  then have "wr_chars (a + 1) cs (written a [c] m) = Some (written (a + 1) cs (written a [c] m))" by (rule Cons.IH)
  moreover have "written (a + 1) cs (written a [c] m) = written a (c # cs) m"
    by (auto simp: written_def fun_eq_iff u nth_Cons' Suc_diff_Suc)
  ultimately show ?case using w by simp
qed

lemma rd_chars_all: "cells a n m \<Longrightarrow> rd_chars a n m = Some (map (\<lambda>i. the (m (a + of_nat i))) [0..<n])"
proof (induction n arbitrary: a)
  case (Suc n)
  then obtain c where c: "m a = Some c" by (auto simp: cells_def)
  have "cells (a + 1) n m" using cells_step[of a 1 n m] Suc.prems by simp
  then have "rd_chars (a + 1) n m = Some (map (\<lambda>i. the (m (a + 1 + of_nat i))) [0..<n])" by (rule Suc.IH)
  then show ?case using c by (simp add: upt_conv_Cons map_Suc_upt[symmetric] add.assoc del: upt_Suc)
qed simp

section \<open>Copying\<close>

definition copies :: "word32 \<Rightarrow> word32 \<Rightarrow> nat \<Rightarrow> char_memory \<Rightarrow> bool" where
  "copies dst src n m \<longleftrightarrow> cells dst n m \<and> cells src n m \<and> upwards dst src n"

lemma cells_at:
  assumes "cells src k m" "unat dst \<le> unat b" "unat b < unat dst + k"
  shows "m (src + (b - dst)) \<noteq> None"
proof -
  have "unat (src + (b - dst)) = unat src + (unat b - unat dst)" by (rule unat_shift) (use assms in \<open>auto simp: cells_def\<close>)
  then show ?thesis by (intro cellsD[OF assms(1)]) (use assms in linarith)+
qed

lemma cells_moved: "cells a n m \<Longrightarrow> cells src k m \<Longrightarrow> cells a n (moved dst src k m)"
  using cells_at[of src k m dst] by (auto simp: cells_def moved_def)

lemma moved_moved:
  assumes "copies dst src (k + n) m"
  shows "moved (dst + of_nat k) (src + of_nat k) n (moved dst src k m) = moved dst src (k + n) m"
proof
  fix a
  have b: "unat dst + k + n < 2 ^ 32" "unat src + k + n < 2 ^ 32" using assms by (auto simp: copies_def cells_def)
  then have u: "unat (dst + of_nat k) = unat dst + k" by (intro unat_add) simp
  show "moved (dst + of_nat k) (src + of_nat k) n (moved dst src k m) a = moved dst src (k + n) m a"
  proof (cases "unat dst + k \<le> unat a \<and> unat a < unat dst + k + n")
    case True
    have s: "src + of_nat k + (a - (dst + of_nat k)) = src + (a - dst)" by simp
    have "unat (src + (a - dst)) = unat src + (unat a - unat dst)" by (rule unat_shift) (use True b in auto)
    then have "\<not> (unat dst \<le> unat (src + (a - dst)) \<and> unat (src + (a - dst)) < unat dst + k)"
      using True assms by (auto simp: copies_def upwards_def)
    then show ?thesis unfolding moved_def u s using True by auto
  next
    case False
    then show ?thesis unfolding moved_def u by auto
  qed
qed

lemma copies_step:
  assumes "copies dst src (k + n) m"
  shows "copies (dst + of_nat k) (src + of_nat k) n (moved dst src k m)"
proof -
  have c: "cells dst (k + n) m" "cells src (k + n) m" "upwards dst src (k + n)" using assms by (auto simp: copies_def)
  then have "unat (dst + of_nat k) = unat dst + k" "unat (src + of_nat k) = unat src + k" by (auto simp: cells_def intro!: unat_add)
  then show ?thesis using cells_moved[OF cells_step[OF c(1)] cells_le[OF c(2), of k]] cells_moved[OF cells_step[OF c(2)] cells_le[OF c(2), of k]] c(3)
    by (auto simp: copies_def upwards_def)
qed

lemma copies_le: "copies dst src n m \<Longrightarrow> k \<le> n \<Longrightarrow> copies dst src k m"
  by (auto simp: copies_def upwards_def intro: cells_le)

lemma copy_long_moved:
  assumes "cells dst 4 m" "cells src 4 m"
  shows "copy_long dst src m = Some (moved dst src 4 m)"
proof -
  let ?cs = "map (\<lambda>i. the (m (src + of_nat i))) [0..<4]"
  have "wr_chars dst ?cs m = Some (written dst ?cs m)" by (rule wr_chars_written) (use assms(1) in simp)
  moreover have "written dst ?cs m = moved dst src 4 m"
  proof
    fix a
    show "written dst ?cs m a = moved dst src 4 m a"
    proof (cases "unat dst \<le> unat a \<and> unat a < unat dst + 4")
      case True
      then have "a - dst = of_nat (unat a - unat dst)" by (simp add: of_nat_diff)
      moreover have "m (src + (a - dst)) \<noteq> None" by (rule cells_at[OF assms(2)]) (use True in auto)
      ultimately show ?thesis using True by (auto simp: written_def moved_def)
    qed (auto simp: written_def moved_def)
  qed
  ultimately show ?thesis using rd_chars_all[OF assms(2)] by (simp add: copy_long_def)
qed

lemma copy_bytes_moved: "copies dst src n m \<Longrightarrow> copy_bytes n dst src m = Some (moved dst src n m)"
proof (induction n arbitrary: dst src m)
  case 0
  then show ?case by (auto simp: moved_def fun_eq_iff)
next
  case (Suc n)
  obtain c where c: "m src = Some c" using Suc.prems by (auto simp: copies_def cells_def)
  have d: "m dst \<noteq> None" using Suc.prems by (auto simp: copies_def cells_def)
  have "m(dst \<mapsto> c) = moved dst src 1 m"
    using c unfolding moved_def one_cell by (auto simp: fun_eq_iff)
  then have w: "wr_char dst c m = Some (moved dst src 1 m)" using d by (simp add: wr_char_def)
  have "copies (dst + 1) (src + 1) n (moved dst src 1 m)" using copies_step[of dst src 1 n m] Suc.prems by simp
  then have "copy_bytes n (dst + 1) (src + 1) (moved dst src 1 m) = Some (moved (dst + 1) (src + 1) n (moved dst src 1 m))" by (rule Suc.IH)
  also have "moved (dst + 1) (src + 1) n (moved dst src 1 m) = moved dst src (Suc n) m" using moved_moved[of dst src 1 n m] Suc.prems by simp
  finally show ?case using c w by simp
qed

text \<open>The loops over long words: what is copied, and how much is left.\<close>

definition copied :: "nat \<Rightarrow> word32 \<Rightarrow> word32 \<Rightarrow> nat \<Rightarrow> char_memory \<Rightarrow> nat \<times> word32 \<times> word32 \<times> char_memory" where
  "copied k dst src len m = (len - k, dst + of_nat k, src + of_nat k, moved dst src k m)"

lemma copied_copied:
  assumes "copies dst src len m" "k + j \<le> len"
  shows "copied j (dst + of_nat k) (src + of_nat k) (len - k) (moved dst src k m) = copied (k + j) dst src len m"
  using moved_moved[OF copies_le[OF assms]] by (simp add: copied_def add.assoc)

lemma copied_none: "copied 0 dst src len m = (len, dst, src, m)"
  by (auto simp: copied_def moved_def fun_eq_iff)

lemma copy_words_copied: "copies dst src len m \<Longrightarrow> copy_words len dst src m = Some (copied (len - len mod 4) dst src len m)"
proof (induction len dst src m rule: copy_words.induct)
  case (1 len dst src m)
  show ?case
  proof (cases "4 \<le> len")
    case True
    have c: "copies (dst + 4) (src + 4) (len - 4) (moved dst src 4 m)" using copies_step[of dst src 4 "len - 4" m] 1(2) True by simp
    have l: "copy_long dst src m = Some (moved dst src 4 m)" using copies_le[OF 1(2) True] by (intro copy_long_moved) (auto simp: copies_def)
    have e: "4 + (len - 4 - (len - 4) mod 4) = len - len mod 4" using True by (simp add: le_mod_geq)
    have "copy_words (len - 4) (dst + 4) (src + 4) (moved dst src 4 m) = Some (copied (len - 4 - (len - 4) mod 4) (dst + 4) (src + 4) (len - 4) (moved dst src 4 m))"
      by (rule 1(1)[OF True l c])
    also have "copied (len - 4 - (len - 4) mod 4) (dst + 4) (src + 4) (len - 4) (moved dst src 4 m) = copied (len - len mod 4) dst src len m"
      using copied_copied[OF 1(2), of 4 "len - 4 - (len - 4) mod 4"] True e by simp
    finally show ?thesis using True l by (subst copy_words.simps) simp
  next
    case False
    then show ?thesis by (subst copy_words.simps) (simp add: copied_none)
  qed
qed

lemma copy_4_longs:
  assumes "copies dst src 16 m"
  shows "do { m \<leftarrow> copy_long dst src m; m \<leftarrow> copy_long (dst + 4) (src + 4) m; m \<leftarrow> copy_long (dst + 8) (src + 8) m; copy_long (dst + 12) (src + 12) m } =
    Some (moved dst src 16 m)"
proof -
  have s: "copy_long (dst + of_nat k) (src + of_nat k) (moved dst src k m) = Some (moved dst src (k + 4) m)" if "k + 4 \<le> 16" for k
  proof -
    have c: "copies dst src (k + 4) m" by (rule copies_le[OF assms that])
    have "copy_long (dst + of_nat k) (src + of_nat k) (moved dst src k m) = Some (moved (dst + of_nat k) (src + of_nat k) 4 (moved dst src k m))"
      using copies_step[OF c] by (intro copy_long_moved) (auto simp: copies_def)
    then show ?thesis using moved_moved[OF c] by simp
  qed
  have "moved dst src 0 m = m" by (auto simp: moved_def fun_eq_iff)
  then show ?thesis using s[of 0] s[of 4] s[of 8] s[of 12] by simp
qed

lemma copy_blocks_copied: "copies dst src len m \<Longrightarrow> copy_blocks len dst src m = Some (copied (len - len mod 16) dst src len m)"
proof (induction len arbitrary: dst src m rule: less_induct)
  case (less len)
  show ?case
  proof (cases "16 \<le> len")
    case True
    have c: "copies (dst + 16) (src + 16) (len - 16) (moved dst src 16 m)" using copies_step[of dst src 16 "len - 16" m] less(2) True by simp
    have l: "do { m \<leftarrow> copy_long dst src m; m \<leftarrow> copy_long (dst + 4) (src + 4) m; m \<leftarrow> copy_long (dst + 8) (src + 8) m; copy_long (dst + 12) (src + 12) m } =
      Some (moved dst src 16 m)" by (rule copy_4_longs[OF copies_le[OF less(2) True]])
    have e: "16 + (len - 16 - (len - 16) mod 16) = len - len mod 16" using True by (simp add: le_mod_geq)
    have "copy_blocks (len - 16) (dst + 16) (src + 16) (moved dst src 16 m) = Some (copied (len - 16 - (len - 16) mod 16) (dst + 16) (src + 16) (len - 16) (moved dst src 16 m))"
      by (rule less(1)[OF _ c]) (use True in simp)
    also have "copied (len - 16 - (len - 16) mod 16) (dst + 16) (src + 16) (len - 16) (moved dst src 16 m) = copied (len - len mod 16) dst src len m"
      using copied_copied[OF less(2), of 16 "len - 16 - (len - 16) mod 16"] True e by simp
    finally show ?thesis using True l by (subst copy_blocks.simps) (auto simp: bind_eq_Some_conv)
  next
    case False
    then show ?thesis by (subst copy_blocks.simps) (simp add: copied_none)
  qed
qed

lemma copy_down_moved:
  "\<lbrakk>cells dst n m; cells src n m; unat src < unat dst\<rbrakk> \<Longrightarrow> copy_down n (dst + of_nat n) (src + of_nat n) m = Some (moved dst src n m)"
proof (induction n arbitrary: m)
  case 0
  then show ?case by (auto simp: moved_def fun_eq_iff)
next
  case (Suc n)
  have u: "unat (dst + of_nat n) = unat dst + n" "unat (src + of_nat n) = unat src + n"
    using Suc.prems by (auto simp: cells_def intro!: unat_add)
  obtain c where c: "m (src + of_nat n) = Some c" using cellsD[OF Suc.prems(2), of "src + of_nat n"] u(2) by auto
  have "m (dst + of_nat n) \<noteq> None" using cellsD[OF Suc.prems(1), of "dst + of_nat n"] u(1) by auto
  then have w: "wr_char (dst + of_nat n) c m = Some (m(dst + of_nat n \<mapsto> c))" by (simp add: wr_char_def)
  let ?m = "m(dst + of_nat n \<mapsto> c)"
  have "copy_down n (dst + of_nat n) (src + of_nat n) ?m = Some (moved dst src n ?m)"
    by (rule Suc.IH) (use Suc.prems in \<open>auto simp: cells_def\<close>)
  moreover have "moved dst src n ?m = moved dst src (Suc n) m"
  proof
    fix a :: word32
    consider (below) "unat dst \<le> unat a \<and> unat a < unat dst + n" | (last) "unat a = unat dst + n" | (other) "\<not> (unat dst \<le> unat a \<and> unat a < unat dst + Suc n)"
      by linarith
    then show "moved dst src n ?m a = moved dst src (Suc n) m a"
    proof cases
      case below
      then have "unat (src + (a - dst)) = unat src + (unat a - unat dst)" using Suc.prems(2) by (intro unat_shift) (auto simp: cells_def)
      then have "unat (src + (a - dst)) \<noteq> unat (dst + of_nat n)" using below u(1) Suc.prems(3) by linarith
      then have "src + (a - dst) \<noteq> dst + of_nat n" by (rule contrapos_nn) (erule arg_cong)
      then show ?thesis using below by (simp add: moved_def)
    next
      case last
      then have "a = dst + of_nat n" using u(1) by (simp add: word_unat_eq_iff)
      then show ?thesis using c last u by (simp add: moved_def)
    next
      case other
      then have "a \<noteq> dst + of_nat n" using u(1) by auto
      then show ?thesis using other by (auto simp: moved_def)
    qed
  qed
  ultimately show ?case using c w by (simp add: algebra_simps)
qed

text \<open>
  C37: Copying by blocks of four long words, by long words and by bytes copies the range of memory, where
  the ranges do not overlap or the destination is below the source.
\<close>

theorem memcpy_copies:
  assumes "cells dst (unat n) m" "cells src (unat n) m" "upwards dst src (unat n)" "n < 0x80000000"
  shows "rt_memcpy dst src n m = Some (dst, moved dst src (unat n) m)"
proof -
  let ?n = "unat n"
  have c: "copies dst src ?n m" using assms by (simp add: copies_def)
  show ?thesis
  proof (cases "\<not> n < 16 \<and> (src AND 3) OR (dst AND 3) = 0")
    case False
    then show ?thesis using copy_bytes_moved[OF c] assms(4) by (auto simp: rt_memcpy_def)
  next
    case True
    define k j where "k = ?n - ?n mod 16" and "j = ?n mod 16 - ?n mod 16 mod 4"
    have b: "copy_blocks ?n dst src m = Some (copied k dst src ?n m)" unfolding k_def by (rule copy_blocks_copied[OF c])
    have n: "k + j + ?n mod 16 mod 4 = ?n" "?n - k = ?n mod 16" "k + (?n - k) = ?n" by (simp_all add: k_def j_def)
    have c1: "copies (dst + of_nat k) (src + of_nat k) (?n - k) (moved dst src k m)" by (rule copies_step) (use c n(3) in simp)
    have w: "copy_words (?n - k) (dst + of_nat k) (src + of_nat k) (moved dst src k m) = Some (copied (k + j) dst src ?n m)"
      using copy_words_copied[OF c1] copied_copied[OF c, of k j] n by (simp add: j_def)
    have "copies (dst + of_nat (k + j)) (src + of_nat (k + j)) (?n - (k + j)) (moved dst src (k + j) m)" by (rule copies_step) (use c n in simp)
    then have "copy_bytes (?n - (k + j)) (dst + of_nat (k + j)) (src + of_nat (k + j)) (moved dst src (k + j) m) = Some (moved dst src ?n m)"
      using copy_bytes_moved moved_moved[of dst src "k + j" "?n - (k + j)" m] c n by simp
    then show ?thesis using True b w assms(4) by (simp add: rt_memcpy_def copied_def)
  qed
qed

text \<open>
  \<open>rt_memmove\<close> copies the range of memory however the two ranges overlap.
\<close>

theorem memmove_overlap:
  assumes "cells dst (unat n) m" "cells src (unat n) m"
  shows "rt_memmove dst src n m = Some (dst, moved dst src (unat n) m)"
proof (cases "src < dst \<and> dst < src + n")
  case True
  then have "copy_down (unat n) (dst + n) (src + n) m = Some (moved dst src (unat n) m)"
    using copy_down_moved[OF assms] by (simp add: word_less_nat_alt)
  then show ?thesis using True by (simp add: rt_memmove_def)
next
  case False
  have "unat (src + n) = unat src + unat n" using assms(2) by (simp add: cells_def unat_word_ariths)
  then have "upwards dst src (unat n)" using False by (auto simp: upwards_def word_less_nat_alt)
  then have "copy_bytes (unat n) dst src m = Some (moved dst src (unat n) m)" using assms by (intro copy_bytes_moved) (simp add: copies_def)
  then show ?thesis by (simp only: rt_memmove_def if_not_P[OF False] option.map)
qed

section \<open>Filling\<close>

lemma filled_filled: "unat s + k < 2 ^ 32 \<Longrightarrow> filled (s + of_nat k) d n (filled s d k m) = filled s d (k + n) m"
  by (auto simp: filled_def unat_add fun_eq_iff)

lemma cells_filled: "cells a n m \<Longrightarrow> cells a n (filled s d k m)"
  by (auto simp: cells_def filled_def)

lemma cells_rest: "cells a (k + n) m \<Longrightarrow> cells (a + of_nat k) n (filled s d j m)"
  by (rule cells_filled[OF cells_step])

lemma fill_long_filled: "cells s 4 m \<Longrightarrow> fill_long s d m = Some (filled s d 4 m)"
proof -
  assume "cells s 4 m"
  then have "fill_long s d m = Some (written s [d, d, d, d] m)" unfolding fill_long_def by (intro wr_chars_written) (simp add: numeral_eq_Suc)
  moreover have "[d, d, d, d] = replicate 4 d" by (simp add: numeral_eq_Suc)
  then have "written s [d, d, d, d] m = filled s d 4 m" by (auto simp: written_def filled_def fun_eq_iff)
  ultimately show ?thesis by simp
qed

lemma fill_bytes_filled: "cells s n m \<Longrightarrow> fill_bytes n s d m = Some (filled s d n m)"
proof (induction n arbitrary: s m)
  case 0
  then show ?case by (auto simp: filled_def fun_eq_iff)
next
  case (Suc n)
  have "wr_char s d m = Some (filled s d 1 m)"
    using cellsD[OF Suc.prems, of s] unfolding wr_char_def filled_def one_cell by (auto simp: fun_eq_iff)
  moreover have "fill_bytes n (s + 1) d (filled s d 1 m) = Some (filled (s + 1) d n (filled s d 1 m))"
    by (rule Suc.IH) (use cells_rest[of s 1 n m] Suc.prems in simp)
  moreover have "filled (s + 1) d n (filled s d 1 m) = filled s d (Suc n) m"
    using filled_filled[of s 1 d n m] Suc.prems by (simp add: cells_def)
  ultimately show ?case by simp
qed

lemma fill_words_filled: "cells s n m \<Longrightarrow> fill_words n s d m = Some (n mod 4, s + of_nat (n - n mod 4), filled s d (n - n mod 4) m)"
proof (induction n s d m rule: fill_words.induct)
  case (1 n s d m)
  show ?case
  proof (cases "4 \<le> n")
    case True
    have l: "fill_long s d m = Some (filled s d 4 m)" by (rule fill_long_filled[OF cells_le[OF 1(2) True]])
    have e: "4 + (n - 4 - (n - 4) mod 4) = n - n mod 4" "(n - 4) mod 4 = n mod 4" using True by (simp_all add: le_mod_geq)
    have c: "cells (s + 4) (n - 4) (filled s d 4 m)" using cells_rest[of s 4 "n - 4" m s d 4] 1(2) True by simp
    have f: "filled (s + 4) d (n - 4 - (n - 4) mod 4) (filled s d 4 m) = filled s d (n - n mod 4) m"
      using filled_filled[of s 4 d "n - 4 - (n - 4) mod 4" m] e cells_le[OF 1(2) True] by (simp add: cells_def)
    have a: "s + 4 + of_nat (n - 4 - (n - 4) mod 4) = s + of_nat (n - n mod 4)" unfolding e(1)[symmetric] of_nat_add by (simp add: add.assoc)
    show ?thesis using True l 1(1)[OF True l c] f a e(2) by (subst fill_words.simps) simp
  next
    case False
    then show ?thesis by (subst fill_words.simps) (auto simp: filled_def fun_eq_iff)
  qed
qed

lemma fill_4_longs:
  assumes "cells s 16 m"
  shows "do { m \<leftarrow> fill_long s d m; m \<leftarrow> fill_long (s + 4) d m; m \<leftarrow> fill_long (s + 8) d m; fill_long (s + 12) d m } = Some (filled s d 16 m)"
proof -
  have f: "fill_long (s + of_nat k) d (filled s d k m) = Some (filled s d (k + 4) m)" if "k + 4 \<le> 16" for k
    using fill_long_filled[OF cells_rest[OF cells_le[OF assms that]]] filled_filled[of s k d 4 m] cells_le[OF assms that] by (simp add: cells_def)
  have "filled s d 0 m = m" by (auto simp: filled_def fun_eq_iff)
  then show ?thesis using f[of 0] f[of 4] f[of 8] f[of 12] by simp
qed

lemma fill_blocks_filled: "cells s n m \<Longrightarrow> fill_blocks n s d m = Some (n mod 16, s + of_nat (n - n mod 16), filled s d (n - n mod 16) m)"
proof (induction n arbitrary: s m rule: less_induct)
  case (less n)
  show ?case
  proof (cases "16 \<le> n")
    case True
    note l = fill_4_longs[OF cells_le[OF less(2) True], of d]
    have e: "16 + (n - 16 - (n - 16) mod 16) = n - n mod 16" "(n - 16) mod 16 = n mod 16" using True by (simp_all add: le_mod_geq)
    have c: "cells (s + 16) (n - 16) (filled s d 16 m)" using cells_rest[of s 16 "n - 16" m s d 16] less(2) True by simp
    have f: "filled (s + 16) d (n - 16 - (n - 16) mod 16) (filled s d 16 m) = filled s d (n - n mod 16) m"
      using filled_filled[of s 16 d "n - 16 - (n - 16) mod 16" m] e cells_le[OF less(2) True] by (simp add: cells_def)
    have a: "s + 16 + of_nat (n - 16 - (n - 16) mod 16) = s + of_nat (n - n mod 16)" unfolding e(1)[symmetric] of_nat_add by (simp add: add.assoc)
    have "fill_blocks (n - 16) (s + 16) d (filled s d 16 m) =
        Some ((n - 16) mod 16, s + 16 + of_nat (n - 16 - (n - 16) mod 16), filled (s + 16) d (n - 16 - (n - 16) mod 16) (filled s d 16 m))"
      by (rule less(1)[OF _ c]) (use True in simp)
    then have i: "fill_blocks (n - 16) (s + 16) d (filled s d 16 m) = Some (n mod 16, s + of_nat (n - n mod 16), filled s d (n - n mod 16) m)"
      unfolding f a unfolding e(2) .
    show ?thesis using True l i by (subst fill_blocks.simps) (auto simp: bind_eq_Some_conv)
  next
    case False
    then show ?thesis by (subst fill_blocks.simps) (auto simp: filled_def fun_eq_iff)
  qed
qed

lemma memset_fills:
  assumes "cells s (unat n) m"
  shows "rt_memset s c n m = Some (s, filled s (char_of (uint (c AND 0xff))) (unat n) m)"
proof (cases "\<not> n < 4 \<and> s AND 3 = 0")
  case False
  then show ?thesis using fill_bytes_filled[OF assms] by (auto simp: rt_memset_def)
next
  case True
  let ?n = "unat n" and ?d = "char_of (uint (c AND 0xff))"
  define k j where "k = ?n - ?n mod 16" and "j = ?n mod 16 - ?n mod 16 mod 4"
  have n: "k + ?n mod 16 = ?n" "j + ?n mod 16 mod 4 = ?n mod 16" by (simp_all add: k_def j_def)
  have b: "fill_blocks ?n s ?d m = Some (?n mod 16, s + of_nat k, filled s ?d k m)" unfolding k_def by (rule fill_blocks_filled[OF assms])
  have u: "unat s + k < 2 ^ 32" "unat s + (k + j) < 2 ^ 32" using assms n by (auto simp: cells_def)
  have "cells (s + of_nat k) (?n mod 16) (filled s ?d k m)" by (rule cells_rest) (use assms n in simp)
  then have w: "fill_words (?n mod 16) (s + of_nat k) ?d (filled s ?d k m) =
    Some (?n mod 16 mod 4, s + of_nat (k + j), filled s ?d (k + j) m)"
    using fill_words_filled filled_filled[OF u(1), of ?d j m] by (simp add: j_def add.assoc)
  have s3: "k + j + ?n mod 16 mod 4 = ?n" using n by simp
  have "cells (s + of_nat (k + j)) (?n mod 16 mod 4) (filled s ?d (k + j) m)" by (rule cells_rest) (use assms in \<open>simp only: s3\<close>)
  then have "fill_bytes (?n mod 16 mod 4) (s + of_nat (k + j)) ?d (filled s ?d (k + j) m) = Some (filled s ?d ?n m)"
    using fill_bytes_filled filled_filled[OF u(2), of ?d "?n mod 16 mod 4" m] n by (simp add: add.assoc)
  then show ?thesis using True b w by (simp add: rt_memset_def)
qed

section \<open>Strings\<close>

fun c_text :: "char_memory \<Rightarrow> word32 \<Rightarrow> string \<Rightarrow> bool" where
  "c_text m a [] \<longleftrightarrow> m a = Some (CHR 0x00)"
| "c_text m a (c # cs) \<longleftrightarrow> m a = Some c \<and> c \<noteq> CHR 0x00 \<and> c_text m (a + 1) cs"

lemma strlen_loop_text: "c_text m a t \<Longrightarrow> strlen_loop a m = Some (a + of_nat (length t))"
proof (induction t arbitrary: a)
  case Nil
  then show ?case by (subst strlen_loop.simps) simp
next
  case (Cons c t)
  then show ?case by (subst strlen_loop.simps) (simp add: add.assoc)
qed

lemma strlen_text: "c_text m a t \<Longrightarrow> rt_strlen a m = Some (of_nat (length t))"
  by (simp add: rt_strlen_def strlen_loop_text)

lemma char_diff_0 [simp]: "char_diff c d = 0 \<longleftrightarrow> c = d"
  by (simp add: char_diff_def)

lemma strcmp_text: "\<lbrakk>c_text m a t; c_text m b u\<rbrakk> \<Longrightarrow> \<exists>r. rt_strcmp a b m = Some r \<and> (r = 0 \<longleftrightarrow> t = u)"
proof (induction t arbitrary: a b u)
  case Nil
  then show ?case by (subst rt_strcmp.simps) (cases u, auto)
next
  case (Cons c t)
  show ?case
  proof (cases u)
    case Nil
    then show ?thesis using Cons.prems by (subst rt_strcmp.simps) auto
  next
    case (Cons d u')
    then show ?thesis using Cons.prems Cons.IH[of "a + 1" "b + 1" u'] by (subst rt_strcmp.simps) auto
  qed
qed

lemma rd_chars_text: "\<lbrakk>c_text m a t; n \<le> length t\<rbrakk> \<Longrightarrow> rd_chars a n m = Some (take n t)"
proof (induction n arbitrary: a t)
  case (Suc n)
  then show ?case by (cases t) auto
qed simp

lemma memcmp_chars:
  "\<lbrakk>rd_chars a n m = Some xs; rd_chars b n m = Some ys\<rbrakk> \<Longrightarrow> \<exists>r. memcmp_loop n a b m = Some r \<and> (r = 0 \<longleftrightarrow> xs = ys)"
proof (induction n arbitrary: a b xs ys)
  case (Suc n)
  obtain c xs' where c: "m a = Some c" "rd_chars (a + 1) n m = Some xs'" "xs = c # xs'" using Suc.prems(1) by (auto simp: bind_eq_Some_conv)
  obtain d ys' where d: "m b = Some d" "rd_chars (b + 1) n m = Some ys'" "ys = d # ys'" using Suc.prems(2) by (auto simp: bind_eq_Some_conv)
  show ?case using c d Suc.IH[OF c(2) d(2)] by auto
qed simp

lemma find_shift: "find P (map f xs) = map_option f (find (\<lambda>x. P (f x)) xs)"
  by (induction xs) auto

lemma strstr_loop_find:
  "\<lbrakk>c_text m a t; c_text m b p; length p < 2 ^ 31; n = Suc (length t) - length p\<rbrakk> \<Longrightarrow>
    strstr_loop n a b (of_nat (length p)) m = Some (map_option (\<lambda>i. a + of_nat i) (find (\<lambda>i. take (length p) (drop i t) = p) [0..<n]))"
proof (induction n arbitrary: a t)
  case (Suc n)
  have l: "length p \<le> length t" using Suc.prems(4) by simp
  have "unat (of_nat (length p) :: word32) = length p" using Suc.prems(3) by (simp add: unat_of_nat)
  then obtain r where r: "rt_memcmp a b (of_nat (length p)) m = Some r" "r = 0 \<longleftrightarrow> take (length p) t = p"
    using memcmp_chars[OF rd_chars_text[OF Suc.prems(1) l] rd_chars_text[OF Suc.prems(2) order_refl]] by (auto simp: rt_memcmp_def)
  have u: "[0..<Suc n] = 0 # map Suc [0..<n]" by (simp add: upt_conv_Cons map_Suc_upt del: upt_Suc)
  show ?case
  proof (cases "r = 0")
    case True
    then show ?thesis using r by (simp add: u del: upt_Suc)
  next
    case False
    show ?thesis
    proof (cases t)
      case Nil
      then show ?thesis using False r l Suc.prems(4) by simp
    next
      case (Cons c t')
      then have "strstr_loop n (a + 1) b (of_nat (length p)) m = Some (map_option (\<lambda>i. a + 1 + of_nat i) (find (\<lambda>i. take (length p) (drop i t') = p) [0..<n]))"
        using Suc.prems by (intro Suc.IH) auto
      moreover have "(\<lambda>i. a + of_nat i) \<circ> Suc = (\<lambda>i. a + 1 + of_nat i)" by (auto simp: add.assoc)
      ultimately show ?thesis using False r Cons by (simp add: u find_shift option.map_comp del: upt_Suc)
    qed
  qed
qed simp

lemma sint_length: "length x < 2 ^ 31 \<Longrightarrow> sint (of_nat (length x) :: word32) = int (length x)"
proof -
  assume l: "length x < 2 ^ 31"
  have u: "uint (of_nat (length x) :: word32) = int (length x)" using l by (simp add: uint_nat unat_of_nat)
  have "signed_take_bit 31 (int (length x)) = int (length x)" by (rule signed_take_bit_int_eq_self) (use l in auto)
  then show ?thesis using u by (simp add: sint_uint)
qed

text \<open>
  C38: \<open>rt_strstr\<close> gives the place of the first occurrence of one string in another, or the null pointer
  where there is none.
\<close>

theorem strstr_first:
  assumes "c_text m s1 t" "c_text m s2 p" "length t < 2 ^ 31" "length p < 2 ^ 31"
  shows "rt_strstr s1 s2 m = Some (map_option (\<lambda>i. s1 + of_nat i) (find (\<lambda>i. take (length p) (drop i t) = p) [0..<Suc (length t) - length p]))"
proof -
  note s = sint_length
  let ?p = "of_nat (length p) :: word32" and ?t = "of_nat (length t) :: word32"
  have n: "(if ?p <=s ?t then nat (sint ?t - sint ?p + 1) else 0) = Suc (length t) - length p"
    using s[OF assms(3)] s[OF assms(4)] by (auto simp: word_sle_eq)
  show ?thesis
  proof (cases "p = []")
    case True
    then show ?thesis using strlen_text[OF assms(2)] by (simp add: rt_strstr_def upt_conv_Cons del: upt_Suc)
  next
    case False
    have "0 < length p" using False by simp
    then have "?p \<noteq> 0" using s[OF assms(4)] by (metis of_nat_0_less_iff sint_0 less_irrefl)
    then show ?thesis using strstr_loop_find[OF assms(1,2,4) refl] strlen_text[OF assms(1)] strlen_text[OF assms(2)] n
      by (simp add: rt_strstr_def del: upt_Suc)
  qed
qed

section \<open>Two promises that are not kept\<close>

text \<open>The limit of \<open>rt_strnlen\<close> is looked at behind the limit: the byte at \<open>s + maxlen\<close> is read.\<close>

lemma strnlen_reads_behind: "\<lbrakk>m 0x100 = Some (CHR ''a''); m 0x101 = None\<rbrakk> \<Longrightarrow> rt_strnlen 0x100 1 m = None"
  by (simp add: rt_strnlen_def strnlen_loop.simps)

text \<open>The difference of \<open>rt_strncmp\<close> in a signed character has the wrong sign from 128 on.\<close>

lemma strncmp_wrong_sign: "\<lbrakk>m 0x100 = Some (CHR 0xC8); m 0x200 = Some (CHR ''A'')\<rbrakk> \<Longrightarrow> rt_strncmp 0x100 0x200 1 m = Some (- 121)"
  by (simp add: rt_strncmp_def char_diff_def signed_char_def)

end
