(* ===== verification/RtTextWitness.thy ===== *)
theory RtTextWitness
  imports RtPrintfText RtStringSpec
begin

text \<open>
  The properties of formatted printing and of the memory and string functions on concrete buffers, and what
  the printing does against its intention.
\<close>

section \<open>Printing\<close>

text \<open>A buffer of 64 bytes.\<close>

definition ex_buffer :: char_memory where
  "ex_buffer a = (if 0x100 \<le> a \<and> a < 0x140 then Some (CHR ''.'') else None)"

lemma ex_buffer_cells: "unat a + n \<le> 0x140 \<Longrightarrow> 0x100 \<le> unat a \<Longrightarrow> cells a n ex_buffer"
  by (auto simp: cells_def ex_buffer_def word_le_nat_alt word_less_nat_alt)

definition ex_pieces :: "(char option \<times> string) list" where
  "ex_pieces = [(Some (CHR ''d''), ''-0042''), (None, ''|''), (Some (CHR ''x''), ''ff    ''), (Some (CHR ''i''), ''-1'')]"

lemma ex_format: "format_text ''%05d|%-*x%hi'' [Va_word (- 42), Va_word 6, Va_word 255, Va_word 0x1FFFF] = Some ex_pieces"
  by code_simp

lemma ex_text: "concat (map snd ex_pieces) = ''-0042|ff    -1''" "\<forall>p\<in>set ex_pieces. fst p \<noteq> Some (CHR ''o'')"
  by (simp_all add: ex_pieces_def)

lemma ex_format_length: "length ''-0042|ff    -1'' = 14" "length ''%05d|%-*x%hi'' = 12"
  by simp_all

theorem vsnprintf_writes_text_witness:
  "\<exists>n m'. rt_vsnprintf 0x100 16 ''%05d|%-*x%hi'' [Va_word (- 42), Va_word 6, Va_word 255, Va_word 0x1FFFF] ex_buffer = Some (n, m') \<and>
    map (\<lambda>i. m' (0x100 + of_nat i)) [0..<14] = map Some ''-0042|ff    -1'' \<and> m' 0x10E = Some (CHR 0x00) \<and> unat n = 14"
proof -
  have "ex_buffer a \<noteq> None" if "(0x100 :: word32) \<le> a" "unat a < unat (0x100 :: word32) + unat (16 :: word32)" for a
    using that by (simp add: ex_buffer_def word_less_nat_alt)
  then obtain n m' where "rt_vsnprintf 0x100 16 ''%05d|%-*x%hi'' [Va_word (- 42), Va_word 6, Va_word 255, Va_word 0x1FFFF] ex_buffer = Some (n, m')"
    and "map (\<lambda>i. m' (0x100 + of_nat i)) [0..<min 14 15] = map Some (take 15 ''-0042|ff    -1'')"
    and "m' (0x100 + of_nat (min 14 15)) = Some (CHR 0x00)" "14 < (16 :: nat) \<longrightarrow> unat n = 14"
    using vsnprintf_writes_text[OF _ _ _ ex_format ex_text(2) ex_text(1)[symmetric], of 16 "0x100" ex_buffer]
    by (auto simp: ex_format_length simp del: list.size upt_Suc)
  then show ?thesis by (intro exI[of _ n] exI[of _ m']) (simp del: upt_Suc)
qed

text \<open>An octal number is printed to the base sixteen.\<close>

lemma octal_is_hexadecimal:
  "map_option (\<lambda>(n, m). (n, m 0x100, m 0x101)) (rt_vsnprintf 0x100 16 ''%o'' [Va_word 8] ex_buffer) = Some (1, Some (CHR ''8''), Some (CHR 0x00))"
  by code_simp

text \<open>A buffer of no bytes is taken for one without an end.\<close>

lemma size_0_is_unlimited:
  "map_option (\<lambda>(n, m). (n, m 0x100, m 0x101)) (rt_vsnprintf 0x100 0 ''%d'' [Va_word 7] ex_buffer) = Some (1, Some (CHR ''7''), Some (CHR 0x00))"
  by code_simp

text \<open>The text has ten characters. The sign behind the end of the buffer does not use up its place in the field.\<close>

lemma cut_length_wrong:
  "map_option fst (rt_vsnprintf 0x100 4 ''abcdef%04d'' [Va_word (- 7)] ex_buffer) = Some 11"
  "map_option fst (rt_vsnprintf 0x100 64 ''abcdef%04d'' [Va_word (- 7)] ex_buffer) = Some 10"
  by code_simp+

section \<open>Memory and strings\<close>

text \<open>Twenty-one bytes by one block, one long word and one byte; then backwards over themselves.\<close>

theorem memcpy_copies_witness:
  "rt_memcpy 0x104 0x120 21 ex_buffer = Some (0x104, moved 0x104 0x120 21 ex_buffer)"
  using memcpy_copies[of "0x104" 21 ex_buffer "0x120"] by (simp add: ex_buffer_cells upwards_def)

theorem memmove_overlap_witness:
  "rt_memmove 0x108 0x104 21 ex_buffer = Some (0x108, moved 0x108 0x104 21 ex_buffer)"
  using memmove_overlap[of "0x108" 21 ex_buffer "0x104"] by (simp add: ex_buffer_cells)

definition ex_strings :: char_memory where
  "ex_strings a = (if 0x200 \<le> a \<and> a < 0x20C then Some ((''mississippi'' @ [CHR 0x00]) ! unat (a - 0x200))
     else if 0x300 \<le> a \<and> a < 0x305 then Some ((''ssip'' @ [CHR 0x00]) ! unat (a - 0x300)) else None)"

theorem strstr_first_witness: "rt_strstr 0x200 0x300 ex_strings = Some (Some 0x205)"
proof -
  have "c_text ex_strings 0x200 ''mississippi''" "c_text ex_strings 0x300 ''ssip''" by code_simp+
  moreover have "find (\<lambda>i. take 4 (drop i ''mississippi'') = ''ssip'') [0..<8] = Some 5" by code_simp
  ultimately show ?thesis using strstr_first[of ex_strings "0x200" "''mississippi''" "0x300" "''ssip''"] by simp
qed

end
