(* ===== verification/Spec2Isabelle.thy ===== *)
theory Spec2Isabelle
  imports NesWitness RtRingWitness RtHeapWitness RtKernelWitness RtIpcWitness FinshWitness RtTextWitness
begin

text \<open>
  Verification library for the NES emulator of this repository, for the parts of the RT-Thread kernel
  below it and for the command shell beside it. Paths are relative to \<open>src/\<close>.

  \<^bold>\<open>The program.\<close> \<open>bsp/qemu-vexpress-a9/packages/nes-old\<close> is an emulator of the NES: a processor
  (\<open>6502.c\<close>), a picture unit (\<open>PPU.c\<close>) and a frame loop (\<open>nes_main.c\<close>) that runs the processor for one
  scan line at a time and lets the picture unit draw the line. It runs on the RT-Thread kernel
  (\<open>src/\<close>), from which it takes its buffers (\<open>rt_malloc\<close>), whose threads wait for each other and for
  clocks (\<open>src/ipc.c\<close>, \<open>src/timer.c\<close>), and whose device drivers pass characters through ring buffers
  (\<open>components/drivers\<close>). A user at the serial line talks to the shell (\<open>components/finsh\<close>), which
  compiles a line of C expressions to byte code and runs it. The configuration is that of the board
  \<open>bsp/qemu-vexpress-a9\<close>: 32-bit addresses, two processors, alignment to four bytes.

  \<^bold>\<open>Conventions.\<close> C structs are records, enums datatypes, integers machine words (or \<open>int\<close> where C
  computes in \<open>int\<close> and nothing can overflow). An access outside an array, a null pointer, a failed
  assertion are values (\<open>None\<close>, \<open>Faulted\<close>, \<open>Fault\<close>); where the code would go on with whatever bytes it
  finds, a fault also stands for leaving the model, and no theorem rests on it. A loop is run with a bound on its iterations and
  says when the bound is used up (\<open>Running\<close>, \<open>Spins\<close>); the theorems say which bound is enough, or that
  none is. \<open>Prelude\<close> holds this vocabulary: checked arrays, \<open>run_loop\<close> with the locales \<open>guarded_loop\<close>
  and \<open>measured_loop\<close>, the type \<open>outcome\<close>, lemmas on words.

  \<^bold>\<open>Theories of the emulator.\<close>
  \<^item> \<open>NesPpu\<close>: registers, name tables, palettes of \<open>PPU.c\<close>; round trips and the exact set of faulting
    accesses.
  \<^item> \<open>NesBus\<close>, \<open>NesOpcodes\<close>, \<open>NesAddr\<close>, \<open>NesCpu\<close>, \<open>NesExec\<close>: address space, opcode table, addressing
    modes, instructions, interrupts and the instruction loop of \<open>6502.c\<close>.
  \<^item> \<open>NesCpuSpec\<close>, \<open>NesCpuFlow\<close>: what the arithmetic computes; stack, branch and interrupt round trips.
  \<^item> \<open>NesClock\<close>: cycles of an instruction, set back by exactly the stores that start a sprite DMA; when
    \<open>exec6502\<close> returns (no instruction faults; a bound from the cycles and the sprite DMAs) and when it
    does not.
  \<^item> \<open>NesRender\<close>, \<open>NesRenderSpec\<close>: drawing a line; equality with the picture described pixel by
    pixel, safety of the buffers.
  \<^item> \<open>NesFrame\<close>, \<open>NesIdle\<close>: a frame; the loop over frames never returns; a waiting program.
  \<^item> \<open>NesWitness\<close>: a small machine at which all of these theorems apply.

  \<^bold>\<open>Theories of the kernel: memory and buffers.\<close>
  \<^item> \<open>RtMem\<close>: the heap of \<open>src/mem.c\<close>, headers in a map from offsets. \<open>RtMemChain\<close>, \<open>RtMemSpec\<close>,
    \<open>RtMemAlloc\<close>, \<open>RtMemFree\<close>, \<open>RtMemHeap\<close>: the chain of blocks, its invariant, what each operation
    does to it. \<open>RtHeap\<close>: the heap implements a map of live blocks. \<open>RtRealloc\<close>: reallocation,
    zeroing, the consistency check, corner cases. \<open>RtHeapRuns\<close>: every sequence of requests that only
    names blocks handed out is served, and the blocks never overlap. \<open>Allocator\<close>: the interface as a locale, with the
    emulator's buffers as a client; \<open>RtHeap\<close> interprets it on the heap.
  \<^item> \<open>RtRingbuffer\<close>, \<open>RtRingbufferSpec\<close>, \<open>RtRingbufferQueue\<close>, \<open>Queues\<close>: the ring buffer refines a
    queue of bytes (a locale of queues, interpreted on it). \<open>RtRingCreate\<close>: creating and destroying
    one, another client of the allocator.
  \<^item> \<open>RtPrintf\<close>, \<open>RtPrintfSpec\<close>, \<open>RtPrintfText\<close>: formatted printing (\<open>rt_vsnprintf\<close> of \<open>src/kservice.c\<close>);
    what a format means as a function of its arguments, told without the code's flags and cursors, and
    that this text, cut to the buffer, is what is in it (octal numbers excepted). \<open>RtString\<close>,
    \<open>RtStringSpec\<close>: the memory and string functions of the same file; copying by blocks is copying of
    ranges, and the search finds the first occurrence. \<open>RtTextWitness\<close>: concrete buffers, and what the
    printing does against its intention.

  \<^bold>\<open>Theories of the kernel: threads.\<close>
  \<^item> \<open>RtTimer\<close>, \<open>RtTimerSpec\<close>: \<open>src/timer.c\<close> and \<open>src/clock.c\<close>: sorted insertion within a window of
    half the tick range, the check of the list with timeout functions that may stop or change their own
    timer, its one way not to return.
  \<^item> \<open>RtKernel\<close>, \<open>RtThread\<close>, \<open>RtSchedSpec\<close>: threads, ready tables and the scheduler for two
    processors (\<open>src/scheduler.c\<close>, \<open>src/thread.c\<close>); the tables agree with their bitmaps, and the
    scheduler runs a thread of the highest priority.
  \<^item> \<open>RtIpc\<close>, \<open>RtMailbox\<close>, \<open>RtMempool\<close>: waiting lists, semaphores, mutexes, events (\<open>src/ipc.c\<close>);
    mailboxes and message queues; memory pools (\<open>src/mempool.c\<close>). A call that may wait is split at
    \<open>rt_schedule\<close> into what it does before and after, so that runs of several threads interleave.
  \<^item> \<open>RtSmp\<close>: the invariant of threads, lists and processors, kept by every operation that runs with
    interrupts disabled. \<open>RtIpcSpec\<close>: the order of waiting threads, and the part of the invariant the
    objects share while everything else goes on.
  \<^item> \<open>RtSemSpec\<close>, \<open>RtMutexSpec\<close>, \<open>RtEventSpec\<close>, \<open>RtMailboxSpec\<close>, \<open>RtQueueSpec\<close>, \<open>RtMempoolSpec\<close>: the
    invariants of each object in every interleaving: no unit lost, mutual exclusion (while takes are
    nested at most 255 deep, which the code does not check) and inheritance of priorities from the
    take to the last release, no missed wake-up, messages in order, slots and blocks partitioned.
  \<^item> \<open>RtRingWitness\<close>, \<open>RtHeapWitness\<close>, \<open>RtKernelWitness\<close>, \<open>RtIpcWitness\<close>: concrete states.

  \<^bold>\<open>Theories of the shell.\<close>
  \<^item> \<open>FinshVm\<close>: the stack machine (\<open>finsh_vm.c\<close>, \<open>finsh_ops.c\<close>) with slots written at three widths.
    \<open>FinshNode\<close>: syntax trees and the tables of names (\<open>finsh_node.h\<close>, \<open>finsh_var.c\<close>).
    \<open>FinshCompiler\<close>: type check and code generation (\<open>finsh_compiler.c\<close>).
  \<^item> \<open>FinshToken\<close>, \<open>FinshParser\<close>: the scanner (\<open>finsh_token.c\<close>) and the parser (\<open>finsh_parser.c\<close>).
    \<open>FinshShell\<close>: a line from its text to what is printed (\<open>shell.c\<close>, \<open>finsh_init.c\<close>).
  \<^item> \<open>FinshExpr\<close>: expressions with their widths, values and code, the reference for the compiler.
    \<open>FinshEmit\<close>: the compiler writes that code. \<open>FinshRun\<close>, \<open>FinshSpec\<close>: the machine runs it to the
    value. \<open>FinshProgram\<close>: lines of statements; the machine never runs on.
  \<^item> \<open>FinshGrammar\<close>, \<open>FinshParserSpec\<close>, \<open>FinshLine\<close>: the grammar with its levels, and the parser
    builds the tree of every phrase of it. \<open>FinshNumbers\<close>: numbers are read back. \<open>FinshTotal\<close>: the
    parser returns on every line the scanner can read (no names of types, no string literals).
    \<open>FinshErrors\<close>: an error is never cleared, and parentheses are always one. \<open>FinshVars\<close>, \<open>FinshFaults\<close>: the tables
    of names, and lines that go wrong. \<open>FinshWitness\<close>: concrete lines.

  \<^bold>\<open>Bounds.\<close> \<open>exec6502\<close> needs one round per instruction: \<open>NesClock\<close> gives a number from the cycles
  left and the DMAs. Walks of the heap need at most as many rounds as the heap has bytes; a check of
  the timers one round per timer that is due. The stack machine needs at most one operation per byte
  of its text segment, 128. The parser takes a bound on its depth and on each of its loops: twice the number
  of tokens and three is enough for it to return (\<open>FinshTotal\<close>); for a line of the grammar some bound is
  enough, and every larger one gives the same result.

  \<^bold>\<open>Not modelled.\<close> The graphics library (LVGL), the GUI engine, file systems, the network stack and the
  board's drivers are third-party code or hardware accesses. Of the kernel: signals, the object
  registry (what it returns is a parameter), hooks other than the heap's, console output
  (\<open>rt_kprintf\<close>), the assembly of the context switch, the allocators not configured for the board (\<open>slab.c\<close>,
  \<open>memheap.c\<close>). Of the shell: the heap of string literals (a line with one has no result), the line
  editor and the module commands, which print the state of the kernel.
\<close>

end
